(* ===== verification/Prelude.thy ===== *)
theory Prelude
  imports Main "HOL-Library.Word" "HOL-Library.Monad_Syntax" "HOL-Library.Multiset"
begin

section \<open>Prelude: machine types and shared lemmas\<close>

text \<open>
  The types and lemmas every component shares.

  Integers keep the width the source gives them: \<open>u64\<close> is \<^verbatim>\<open>uint64_t\<close> (and \<^verbatim>\<open>size_t\<close> on the
  supported targets), \<open>u32\<close> is \<^verbatim>\<open>uint32_t\<close>, so that \<open>+\<close>, \<open>-\<close> and \<open>*\<close> wrap around as they do
  in C++. An address is a natural number, a pointer an optional address with \<open>None\<close> for
  \<^verbatim>\<open>nullptr\<close>.

  Operations whose execution can have no defined result (a null dereference, a loop that does not
  end) return an \<open>option\<close>: \<open>None\<close> is \<^emph>\<open>no defined result\<close>, and the theorems that an operation
  succeeds are theorems that it returns \<open>Some\<close>.
\<close>

type_synonym u8 = "8 word"
type_synonym u16 = "16 word"
type_synonym u32 = "32 word"
type_synonym u64 = "64 word"

type_synonym NanoSecondType = u64
type_synonym ProcessGroupId = u64
type_synonym ProcessId = u64

abbreviation UINT64_MAX :: u64 where "UINT64_MAX \<equiv> - 1"
abbreviation UINT32_MAX :: u32 where "UINT32_MAX \<equiv> - 1"
abbreviation UINT16_MAX :: u16 where "UINT16_MAX \<equiv> - 1"

named_theorems sup_defs \<open>definitions of the supervisions' transition functions\<close>
named_theorems frame_simps \<open>which fields an operation leaves alone\<close>

subsection \<open>Words\<close>

lemma unat64_less: "unat (x :: u64) < 2 ^ 64"
  using unsigned_less [of x] by simp

text \<open>The overflow guard \<^verbatim>\<open>base > UINT64_MAX - inc\<close> is exact: it fails precisely when the sum fits.\<close>

lemma not_gt_max_sub_iff:
  fixes b c :: u64
  shows "\<not> UINT64_MAX - c < b \<longleftrightarrow> unat b + unat c < 2 ^ 64"
proof -
  have c: "unat c < 2 ^ 64"
    using unsigned_less [of c] by simp
  moreover have "unat (UINT64_MAX - c) = 2 ^ 64 - 1 - unat c"
    using c by (simp add: unat_sub_if_size unsigned_minus_1_eq_mask mask_eq_exp_minus_1)
  ultimately show ?thesis
    by (simp add: word_less_nat_alt) linarith
qed

lemma unat_add_no_wrap64:
  fixes b c :: u64
  shows "unat b + unat c < 2 ^ 64 \<Longrightarrow> unat (b + c) = unat b + unat c"
  by (simp add: unat_word_ariths)

lemma word_less_add_no_wrap64:
  fixes b c :: u64
  assumes "unat b + unat c < 2 ^ 64" "c \<noteq> 0"
  shows "b < b + c"
  using assms by (simp add: word_less_nat_alt unat_add_no_wrap64 unat_gt_0)

lemma unat_Suc_word32:
  fixes x :: u32
  assumes "x \<noteq> UINT32_MAX"
  shows "unat (x + 1) = Suc (unat x)"
proof -
  have "1 + x \<noteq> 0"
    using assms by (metis add_eq_0_iff)
  then have "unat (1 + x) = Suc (unat x)"
    by (rule unatSuc)
  then show ?thesis by (simp only: add.commute)
qed

lemma unat_pred_word32:
  fixes x :: u32
  assumes "x \<noteq> 0"
  shows "unat (x - 1) = unat x - 1"
  using assms unat_minus_one by blast

subsection \<open>Lists\<close>

text \<open>Inserting behind every element whose key is not larger: the stable insertion.\<close>

fun insert_stable :: "('a \<Rightarrow> 'k::linorder) \<Rightarrow> 'a \<Rightarrow> 'a list \<Rightarrow> 'a list" where
  "insert_stable f x [] = [x]"
| "insert_stable f x (y # ys) = (if f y \<le> f x then y # insert_stable f x ys else x # y # ys)"

lemma set_insert_stable [simp]: "set (insert_stable f x xs) = insert x (set xs)"
  by (induction xs) auto

lemma length_insert_stable [simp]: "length (insert_stable f x xs) = Suc (length xs)"
  by (induction xs) auto

lemma insert_stable_not_Nil [simp]: "insert_stable f x xs \<noteq> []"
  by (cases xs) auto

lemma map_insert_stable:
  "map g (insert_stable (f \<circ> g) x xs) = insert_stable f (g x) (map g xs)"
  by (induction xs) auto

lemma sorted_insert_stable:
  "sorted (map f xs) \<Longrightarrow> sorted (map f (insert_stable f x xs))"
  by (induction xs) auto

lemma insert_stable_append_le:
  "sorted (map f (as @ [a])) \<Longrightarrow> f a \<le> f x \<Longrightarrow> \<forall>b \<in> set bs. f x < f b \<Longrightarrow>
   insert_stable f x ((as @ [a]) @ bs) = (as @ [a]) @ x # bs"
proof (induction as)
  case Nil
  then show ?case by (cases bs) auto
next
  case (Cons c as)
  then have "f c \<le> f a" by auto
  with Cons show ?case by auto
qed

lemma insert_stable_all_greater:
  "\<forall>b \<in> set bs. f x < f b \<Longrightarrow> insert_stable f x bs = x # bs"
  by (cases bs) auto

text \<open>A run of stable insertions from the empty list is the library's stable sort.\<close>

lemma insert_stable_snoc_ge:
  "\<forall>y \<in> set ys. f y \<le> f x \<Longrightarrow> insert_stable f x ys = ys @ [x]"
  by (induction ys) auto

lemma filter_insert_stable:
  "sorted (map f ys) \<Longrightarrow>
   filter (\<lambda>y. f y = k) (insert_stable f x ys) = filter (\<lambda>y. f y = k) ys @ (if f x = k then [x] else [])"
proof (induction ys)
  case (Cons y ys)
  show ?case
  proof (cases "f y \<le> f x")
    case False
    with Cons.prems have "filter (\<lambda>z. f z = f x) (y # ys) = []"
      by (auto simp: filter_empty_conv)
    with False show ?thesis by auto
  qed (use Cons in auto)
qed simp

lemma fold_insert_stable_sorted:
  "sorted (map f ys) \<Longrightarrow> sorted (map f (fold (insert_stable f) xs ys))"
  by (induction xs arbitrary: ys) (auto simp: sorted_insert_stable)

lemma filter_fold_insert_stable:
  "sorted (map f ys) \<Longrightarrow>
   filter (\<lambda>y. f y = k) (fold (insert_stable f) xs ys)
     = filter (\<lambda>y. f y = k) ys @ filter (\<lambda>y. f y = k) xs"
  by (induction xs arbitrary: ys) (auto simp: sorted_insert_stable filter_insert_stable)

lemma mset_insert_stable: "mset (insert_stable f x ys) = add_mset x (mset ys)"
  by (induction ys) auto

lemma mset_fold_insert_stable:
  "mset (fold (insert_stable f) xs ys) = mset xs + mset ys"
  by (induction xs arbitrary: ys) (auto simp: mset_insert_stable)

lemma fold_insert_stable_sort_key:
  "fold (insert_stable f) xs [] = sort_key f xs"
proof (rule sym, rule properties_for_sort_key)
  show "mset (fold (insert_stable f) xs []) = mset xs"
    by (simp add: mset_fold_insert_stable)
  show "sorted (map f (fold (insert_stable f) xs []))"
    by (simp add: fold_insert_stable_sorted)
  show "filter (\<lambda>y. f k = f y) (fold (insert_stable f) xs []) = filter (\<lambda>y. f k = f y) xs" for k
    using filter_fold_insert_stable [of f "[]" "f k" xs] by (simp add: eq_commute)
qed

subsection \<open>Searching a vector\<close>

text \<open>\<^verbatim>\<open>std::find\<close> followed by \<^verbatim>\<open>std::distance\<close>: the index of the first occurrence.\<close>

fun index_of :: "'a \<Rightarrow> 'a list \<Rightarrow> nat option" where
  "index_of x [] = None"
| "index_of x (y # ys) = (if y = x then Some 0 else map_option Suc (index_of x ys))"

lemma index_of_None [simp]: "index_of x xs = None \<longleftrightarrow> x \<notin> set xs"
  by (induction xs) auto

lemma index_of_Some: "index_of x xs = Some i \<Longrightarrow> i < length xs \<and> xs ! i = x \<and> x \<notin> set (take i xs)"
  by (induction xs arbitrary: i) (auto split: if_splits)

lemma index_of_nth: "distinct xs \<Longrightarrow> i < length xs \<Longrightarrow> index_of (xs ! i) xs = Some i"
proof (induction xs arbitrary: i)
  case (Cons y ys)
  then show ?case by (cases i) auto
qed simp

end
