(* ===== verification/Process_State.thy ===== *)
theory Process_State
  imports Prelude
begin

section \<open>Observed objects: process states and checkpoints\<close>

text \<open>
  Models \<^verbatim>\<open>saf/ifexm/ProcessState.{hpp,cpp}\<close>, \<^verbatim>\<open>ProcessCfg.hpp\<close> and \<^verbatim>\<open>saf/ifappl/Checkpoint.{hpp,cpp}\<close>:
  the two objects the checkpoint supervisions observe. The observers identify an object by its
  address, a natural number here; an update hands over the address and the object's fields at that
  moment.
\<close>

type_synonym ProcessStateIdentifier = nat
type_synonym CheckpointIdentifier = nat
type_synonym ProcessExecutionError = u32

definition kDefaultProcessExecutionError :: ProcessExecutionError where
  "kDefaultProcessExecutionError = 1"

record ProcessCfg =
  cfg_processShortName :: string
  cfg_processId :: ProcessId
  cfg_configuredProcessGroupStates :: "ProcessGroupId list"
  cfg_processExecutionErrors :: "ProcessExecutionError list"

datatype EProcState = Idle | Starting | Running | Sigterm | Off

record ProcessState =
  k_processShortName :: string
  k_processId :: ProcessId
  processGroupState :: ProcessGroupId
  eProcState :: EProcState
  configuredProcessGroupStates :: "ProcessGroupId list"
  processExecutionErrors :: "ProcessExecutionError list"
  ps_timestamp :: NanoSecondType

definition ProcessState_new :: "ProcessCfg \<Rightarrow> ProcessState" where
  "ProcessState_new f_processCfg_r =
     \<lparr>k_processShortName = cfg_processShortName f_processCfg_r,
      k_processId = cfg_processId f_processCfg_r,
      processGroupState = 0, eProcState = Idle,
      configuredProcessGroupStates = cfg_configuredProcessGroupStates f_processCfg_r,
      processExecutionErrors = cfg_processExecutionErrors f_processCfg_r,
      ps_timestamp = UINT64_MAX\<rparr>"

definition setState :: "EProcState \<Rightarrow> ProcessState \<Rightarrow> ProcessState" where
  "setState f_processStateId p = p\<lparr>eProcState := f_processStateId\<rparr>"

definition setProcessGroupState :: "ProcessGroupId \<Rightarrow> ProcessState \<Rightarrow> ProcessState" where
  "setProcessGroupState f_processGroupStateId p = p\<lparr>processGroupState := f_processGroupStateId\<rparr>"

definition setTimestamp :: "NanoSecondType \<Rightarrow> ProcessState \<Rightarrow> ProcessState" where
  "setTimestamp f_timestamp p = p\<lparr>ps_timestamp := f_timestamp\<rparr>"

text \<open>
  \<^verbatim>\<open>processExecutionErrors.at(index)\<close> throws out of range, which ends the process in a \<^verbatim>\<open>noexcept\<close>
  function: \<open>None\<close>.
\<close>

definition getProcessExecutionError :: "ProcessState \<Rightarrow> ProcessExecutionError option" where
  "getProcessExecutionError p =
     (case index_of (processGroupState p) (configuredProcessGroupStates p) of
        Some index \<Rightarrow>
          (if index < length (processExecutionErrors p) then Some (processExecutionErrors p ! index) else None)
      | None \<Rightarrow> Some kDefaultProcessExecutionError)"

text \<open>The two vectors of a configuration run in parallel: then the lookup is total.\<close>

definition ProcessState_wf :: "ProcessState \<Rightarrow> bool" where
  "ProcessState_wf p \<longleftrightarrow> length (processExecutionErrors p) = length (configuredProcessGroupStates p)"

lemma getProcessExecutionError_total:
  assumes "ProcessState_wf p"
  shows "\<exists>e. getProcessExecutionError p = Some e"
  using assms index_of_Some [of "processGroupState p" "configuredProcessGroupStates p"]
  by (auto simp: getProcessExecutionError_def ProcessState_wf_def split: option.split)

lemma getProcessExecutionError_configured:
  assumes "distinct (configuredProcessGroupStates p)" "ProcessState_wf p"
    and "i < length (configuredProcessGroupStates p)" "processGroupState p = configuredProcessGroupStates p ! i"
  shows "getProcessExecutionError p = Some (processExecutionErrors p ! i)"
  using assms by (simp add: getProcessExecutionError_def ProcessState_wf_def index_of_nth)

subsection \<open>Checkpoints\<close>

record Checkpoint =
  cp_configName :: string
  cp_checkpointId :: u32
  cp_processState :: ProcessStateIdentifier
  cp_isDataLossEvent :: bool
  cp_timestamp :: NanoSecondType

definition Checkpoint_new :: "string \<Rightarrow> u32 \<Rightarrow> ProcessStateIdentifier \<Rightarrow> Checkpoint" where
  "Checkpoint_new f_checkpointCfgName_p f_checkpointId f_processState_p =
     \<lparr>cp_configName = f_checkpointCfgName_p, cp_checkpointId = f_checkpointId,
      cp_processState = f_processState_p, cp_isDataLossEvent = False, cp_timestamp = 0\<rparr>"

definition setDataLossEvent :: "bool \<Rightarrow> Checkpoint \<Rightarrow> Checkpoint" where
  "setDataLossEvent f_isDataLossEvent c = c\<lparr>cp_isDataLossEvent := f_isDataLossEvent\<rparr>"

text \<open>The new checkpoint is what the observers are then called with.\<close>

definition Checkpoint_pushData :: "NanoSecondType \<Rightarrow> Checkpoint \<Rightarrow> Checkpoint" where
  "Checkpoint_pushData f_timestamp c =
     (let c = c\<lparr>cp_timestamp := f_timestamp\<rparr>
      in if cp_timestamp c = 0 then setDataLossEvent True c else c)"

end
