(* ===== verification/Process_State_Tracker.thy ===== *)
theory Process_State_Tracker
  imports Process_State
begin

section \<open>The process state tracker\<close>

text \<open>
  Models \<^verbatim>\<open>saf/supervision/ProcessStateTracker.{hpp,cpp}\<close>: it follows the processes a supervision
  refers to and turns each process update into an activation, deactivation or recovery of the
  supervision.
\<close>

datatype EProcessChangeType = PC_NoChange | PC_Activation | PC_Deactivation | PC_RecoveredFromCrash

record ProcessChangeEvent =
  pce_timestamp :: NanoSecondType
  pce_changeType :: EProcessChangeType

record ProcessStateSnapshot =
  pss_identifier_p :: ProcessStateIdentifier
  pss_eProcState :: EProcState
  pss_processGroupState :: ProcessGroupId
  pss_timestamp :: NanoSecondType
  pss_executionError :: ProcessExecutionError

datatype EProcessStateType = PT_Deactivated | PT_Activated | PT_Crashed

record ProcessStateTracker =
  k_activeProcessGroupStates :: "ProcessGroupId list"
  k_refProcesses :: "ProcessStateIdentifier list"
  processStates :: "EProcessStateType list"
  processStatesBefore :: "EProcessStateType list"
  activeMarker :: EProcState

definition kInitState :: EProcState where
  "kInitState = Starting"

definition ProcessStateTracker_new ::
  "ProcessGroupId list \<Rightarrow> ProcessStateIdentifier list \<Rightarrow> ProcessStateTracker"
where
  "ProcessStateTracker_new f_activeProcessGroupStates_r f_refProcesses_r =
     \<lparr>k_activeProcessGroupStates = f_activeProcessGroupStates_r,
      k_refProcesses = f_refProcesses_r,
      processStates = replicate (length f_refProcesses_r) PT_Deactivated,
      processStatesBefore = replicate (length f_refProcesses_r) PT_Deactivated,
      activeMarker = kInitState\<rparr>"

definition setMarkProcessActiveAt :: "EProcState \<Rightarrow> ProcessStateTracker \<Rightarrow> ProcessStateTracker" where
  "setMarkProcessActiveAt f_state t = t\<lparr>activeMarker := f_state\<rparr>"

definition isProcessStateRelevant :: "EProcState \<Rightarrow> ProcessStateTracker \<Rightarrow> bool" where
  "isProcessStateRelevant f_state t =
     (let isRelevant = False;
          isRelevant = (if activeMarker t = Running
                        then f_state = Running \<or> f_state = Sigterm \<or> f_state = Off
                        else isRelevant);
          isRelevant = (if activeMarker t = kInitState
                        then f_state = kInitState \<or> f_state = Running \<or> f_state = Sigterm \<or> f_state = Off
                        else isRelevant)
      in isRelevant)"

definition setAllProcessesActive :: "ProcessStateTracker \<Rightarrow> ProcessStateTracker" where
  "setAllProcessesActive t =
     t\<lparr>processStates := replicate (length (processStates t)) PT_Activated,
       processStatesBefore := replicate (length (processStatesBefore t)) PT_Activated\<rparr>"

definition allInState :: "EProcessStateType list \<Rightarrow> EProcessStateType \<Rightarrow> bool" where
  "allInState states value = (if states = [] then False else list_all (\<lambda>s. value = s) states)"

definition anyInState :: "EProcessStateType list \<Rightarrow> EProcessStateType \<Rightarrow> bool" where
  "anyInState states value = (if states = [] then False else list_ex (\<lambda>s. value = s) states)"

definition isProcessActive :: "EProcState \<Rightarrow> ProcessStateTracker \<Rightarrow> bool" where
  "isProcessActive f_state t =
     (if activeMarker t = Running then f_state = Running
      else if activeMarker t = kInitState then f_state = kInitState \<or> f_state = Running
      else False)"

definition isActiveProcessGroup :: "ProcessGroupId \<Rightarrow> ProcessStateTracker \<Rightarrow> bool" where
  "isActiveProcessGroup f_stateId t = List.member (k_activeProcessGroupStates t) f_stateId"

definition updateProcessState ::
  "ProcessStateIdentifier \<Rightarrow> EProcState \<Rightarrow> ProcessGroupId \<Rightarrow> ProcessStateTracker \<Rightarrow> ProcessStateTracker"
where
  "updateProcessState f_processIdentifier_r f_state f_processGroupState t =
     (if k_refProcesses t = [] then t
      else (case index_of f_processIdentifier_r (k_refProcesses t) of
              None \<Rightarrow> t
            | Some index \<Rightarrow>
                (let processActive = isProcessActive f_state t;
                     isActivePGState = isActiveProcessGroup f_processGroupState t
                 in if processActive \<and> isActivePGState
                    then t\<lparr>processStates := (processStates t)[index := PT_Activated]\<rparr>
                    else if processActive \<or> f_state = Sigterm
                    then t\<lparr>processStates := (processStates t)[index := PT_Deactivated]\<rparr>
                    else if f_state = Off \<and> processStates t ! index \<noteq> PT_Deactivated
                    then t\<lparr>processStates := (processStates t)[index := PT_Crashed]\<rparr>
                    else t)))"

definition analyzeProcessStates :: "ProcessStateSnapshot \<Rightarrow> ProcessStateTracker \<Rightarrow> ProcessChangeEvent" where
  "analyzeProcessStates f_processSnapshot_r t =
     (let areActive = allInState (processStates t) PT_Activated;
          wereActive = allInState (processStatesBefore t) PT_Activated
      in if areActive \<and> \<not> wereActive
         then (if anyInState (processStatesBefore t) PT_Crashed
               then \<lparr>pce_timestamp = pss_timestamp f_processSnapshot_r, pce_changeType = PC_RecoveredFromCrash\<rparr>
               else \<lparr>pce_timestamp = pss_timestamp f_processSnapshot_r, pce_changeType = PC_Activation\<rparr>)
         else if \<not> areActive \<and> wereActive \<and> anyInState (processStates t) PT_Deactivated
         then \<lparr>pce_timestamp = pss_timestamp f_processSnapshot_r, pce_changeType = PC_Deactivation\<rparr>
         else \<lparr>pce_timestamp = 0, pce_changeType = PC_NoChange\<rparr>)"

definition generateProcessChangeEvent ::
  "ProcessStateSnapshot \<Rightarrow> ProcessStateTracker \<Rightarrow> ProcessChangeEvent \<times> ProcessStateTracker"
where
  "generateProcessChangeEvent f_processSnapshot_r t =
     (let t = updateProcessState (pss_identifier_p f_processSnapshot_r) (pss_eProcState f_processSnapshot_r)
                (pss_processGroupState f_processSnapshot_r) t;
          processChange = analyzeProcessStates f_processSnapshot_r t
      in (processChange, t\<lparr>processStatesBefore := processStates t\<rparr>))"

definition allProcessesActive :: "ProcessStateTracker \<Rightarrow> bool" where
  "allProcessesActive t = allInState (processStatesBefore t) PT_Activated"

subsection \<open>Well-formed trackers\<close>

text \<open>One state per process, and between two updates the two state vectors agree.\<close>

definition tracker_inv :: "ProcessStateTracker \<Rightarrow> bool" where
  "tracker_inv t \<longleftrightarrow> length (processStates t) = length (k_refProcesses t) \<and>
     processStatesBefore t = processStates t"

lemma tracker_inv_new [simp]: "tracker_inv (ProcessStateTracker_new gs ps)"
  by (simp add: tracker_inv_def ProcessStateTracker_new_def)

lemma tracker_inv_setMark [simp]: "tracker_inv (setMarkProcessActiveAt s t) = tracker_inv t"
  by (simp add: tracker_inv_def setMarkProcessActiveAt_def)

lemma tracker_inv_setAll [simp]: "tracker_inv t \<Longrightarrow> tracker_inv (setAllProcessesActive t)"
  by (simp add: tracker_inv_def setAllProcessesActive_def)

lemma updateProcessState_frame [frame_simps]:
  "length (processStates (updateProcessState p s g t)) = length (processStates t)"
  "k_refProcesses (updateProcessState p s g t) = k_refProcesses t"
  "processStatesBefore (updateProcessState p s g t) = processStatesBefore t"
  "activeMarker (updateProcessState p s g t) = activeMarker t"
  by (auto simp: updateProcessState_def Let_def split: option.split)

lemma tracker_inv_generate:
  "tracker_inv t \<Longrightarrow> tracker_inv (snd (generateProcessChangeEvent s t))"
  by (simp add: tracker_inv_def generateProcessChangeEvent_def Let_def frame_simps)

lemma generate_frame [frame_simps]:
  "k_refProcesses (snd (generateProcessChangeEvent s t)) = k_refProcesses t"
  "activeMarker (snd (generateProcessChangeEvent s t)) = activeMarker t"
  by (simp_all add: generateProcessChangeEvent_def Let_def frame_simps)

lemma allInState_iff: "allInState xs v \<longleftrightarrow> xs \<noteq> [] \<and> (\<forall>x \<in> set xs. x = v)"
  by (auto simp: allInState_def list_all_iff)

lemma anyInState_iff: "anyInState xs v \<longleftrightarrow> v \<in> set xs"
  by (auto simp: anyInState_def list_ex_iff)

text \<open>
  What an event says about the availability of the processes before and after the update: an
  activation or a recovery leaves all processes active, a deactivation was preceded by all
  processes active and leaves one properly terminated; in all other cases the overall availability
  either did not change or a process crashed.
\<close>

lemma generate_changeType:
  assumes "tracker_inv t" "generateProcessChangeEvent s t = (ev, t')"
  shows "(pce_changeType ev = PC_Activation \<longleftrightarrow>
            \<not> allProcessesActive t \<and> allProcessesActive t' \<and> \<not> anyInState (processStates t) PT_Crashed)"
    and "(pce_changeType ev = PC_RecoveredFromCrash \<longleftrightarrow>
            \<not> allProcessesActive t \<and> allProcessesActive t' \<and> anyInState (processStates t) PT_Crashed)"
    and "(pce_changeType ev = PC_Deactivation \<longleftrightarrow>
            allProcessesActive t \<and> \<not> allProcessesActive t' \<and> anyInState (processStates t') PT_Deactivated)"
  using assms
  by (auto simp: generateProcessChangeEvent_def analyzeProcessStates_def Let_def allProcessesActive_def
      tracker_inv_def frame_simps split: if_splits)

end
