(* ===== verification/Fixed_Size_Vector.thy ===== *)
theory Fixed_Size_Vector
  imports Prelude
begin

section \<open>The fixed-size vector\<close>

text \<open>
  Models \<^verbatim>\<open>saf/common/FixedSizeVector.hpp\<close>: a \<^verbatim>\<open>std::vector\<close> whose storage is reserved once, at
  construction, and which refuses an element when it is full instead of growing.

  The reserved capacity is a field of the record: \<^verbatim>\<open>reserve(n)\<close> on an empty vector sets it to \<open>n\<close>,
  and no operation of the class changes it (a move assignment takes over the storage of the source
  vector). Reads of an empty vector or out of range are undefined in C++ and \<open>None\<close> here.
\<close>

record 'a FixedSizeVector =
  fixedSizedVector :: "'a list"
  fsv_capacity :: nat

definition fsv_new :: "nat \<Rightarrow> 'a FixedSizeVector" where
  "fsv_new f_length = \<lparr>fixedSizedVector = [], fsv_capacity = f_length\<rparr>"

definition fsv_size :: "'a FixedSizeVector \<Rightarrow> nat" where
  "fsv_size v = length (fixedSizedVector v)"

definition fsv_clear :: "'a FixedSizeVector \<Rightarrow> 'a FixedSizeVector" where
  "fsv_clear v = v\<lparr>fixedSizedVector := []\<rparr>"

definition fsv_emplace_back :: "'a \<Rightarrow> 'a FixedSizeVector \<Rightarrow> bool \<times> 'a FixedSizeVector" where
  "fsv_emplace_back x v =
     (if fsv_size v < fsv_capacity v
      then (True, v\<lparr>fixedSizedVector := fixedSizedVector v @ [x]\<rparr>)
      else (False, v))"

definition fsv_push_back :: "'a \<Rightarrow> 'a FixedSizeVector \<Rightarrow> bool \<times> 'a FixedSizeVector" where
  "fsv_push_back x v =
     (if fsv_size v < fsv_capacity v
      then (True, v\<lparr>fixedSizedVector := fixedSizedVector v @ [x]\<rparr>)
      else (False, v))"

definition fsv_front :: "'a FixedSizeVector \<Rightarrow> 'a option" where
  "fsv_front v = (case fixedSizedVector v of [] \<Rightarrow> None | x # _ \<Rightarrow> Some x)"

definition fsv_back :: "'a FixedSizeVector \<Rightarrow> 'a option" where
  "fsv_back v = (if fixedSizedVector v = [] then None else Some (last (fixedSizedVector v)))"

definition fsv_at :: "'a FixedSizeVector \<Rightarrow> nat \<Rightarrow> 'a option" where
  "fsv_at v i = (if i < fsv_size v then Some (fixedSizedVector v ! i) else None)"

text \<open>
  Assigning through the reference that \<^verbatim>\<open>operator[]\<close> (or \<^verbatim>\<open>begin() + i\<close>) returns. The index of a
  live reference is in range.
\<close>

definition fsv_update :: "nat \<Rightarrow> ('a \<Rightarrow> 'a) \<Rightarrow> 'a FixedSizeVector \<Rightarrow> 'a FixedSizeVector" where
  "fsv_update i f v = v\<lparr>fixedSizedVector := (fixedSizedVector v)[i := f (fixedSizedVector v ! i)]\<rparr>"

definition fsv_move_assign :: "'a FixedSizeVector \<Rightarrow> 'a FixedSizeVector \<Rightarrow> 'a FixedSizeVector" where
  "fsv_move_assign f_inputBuffer_r this = f_inputBuffer_r"

definition fsv_wf :: "'a FixedSizeVector \<Rightarrow> bool" where
  "fsv_wf v \<longleftrightarrow> fsv_size v \<le> fsv_capacity v"

subsection \<open>The contract of a bounded container\<close>

text \<open>
  What the users of the vector rely on: an insertion succeeds exactly when there is room, appends
  at the end, and never changes the capacity.
\<close>

locale bounded_vector =
  fixes append :: "'a \<Rightarrow> 'v \<Rightarrow> bool \<times> 'v"
    and clear :: "'v \<Rightarrow> 'v"
    and contents :: "'v \<Rightarrow> 'a list"
    and capacity :: "'v \<Rightarrow> nat"
  assumes append_room: "length (contents v) < capacity v \<Longrightarrow>
      fst (append x v) \<and> contents (snd (append x v)) = contents v @ [x]"
    and append_full: "\<not> length (contents v) < capacity v \<Longrightarrow> append x v = (False, v)"
    and capacity_append: "capacity (snd (append x v)) = capacity v"
    and contents_clear: "contents (clear v) = []"
    and capacity_clear: "capacity (clear v) = capacity v"
begin

lemma append_bounded:
  "length (contents v) \<le> capacity v \<Longrightarrow> length (contents (snd (append x v))) \<le> capacity (snd (append x v))"
  by (cases "length (contents v) < capacity v") (auto simp: append_room append_full capacity_append)

text \<open>Pushing a whole list keeps its first elements, as many as fit, in order.\<close>

lemma fold_append_contents:
  "length (contents v) \<le> capacity v \<Longrightarrow>
   contents (fold (\<lambda>x v. snd (append x v)) xs v) = take (capacity v) (contents v @ xs)"
proof (induction xs arbitrary: v)
  case (Cons x xs)
  let ?v = "snd (append x v)"
  have "contents (fold (\<lambda>x v. snd (append x v)) xs ?v) = take (capacity ?v) (contents ?v @ xs)"
    using Cons.prems by (intro Cons.IH append_bounded)
  also have "\<dots> = take (capacity v) (contents v @ x # xs)"
    using Cons.prems
    by (cases "length (contents v) < capacity v") (auto simp: append_room append_full capacity_append)
  finally show ?case by simp
qed simp

end

interpretation fsv: bounded_vector fsv_emplace_back fsv_clear fixedSizedVector fsv_capacity
  by unfold_locales (auto simp: fsv_emplace_back_def fsv_size_def fsv_clear_def)

interpretation fsv_pb: bounded_vector fsv_push_back fsv_clear fixedSizedVector fsv_capacity
  by unfold_locales (auto simp: fsv_push_back_def fsv_size_def fsv_clear_def)

lemma fsv_wf_new [simp]: "fsv_wf (fsv_new n)"
  by (simp add: fsv_wf_def fsv_new_def fsv_size_def)

lemma fsv_wf_emplace_back: "fsv_wf v \<Longrightarrow> fsv_wf (snd (fsv_emplace_back x v))"
  using fsv.append_bounded by (simp add: fsv_wf_def fsv_size_def)

end
