(* ===== verification/Time_Sorting_Buffer.thy ===== *)
theory Time_Sorting_Buffer
  imports Fixed_Size_Vector "HOL-Library.Sublist"
begin

section \<open>The time sorting buffer\<close>

text \<open>
  Models \<^verbatim>\<open>saf/common/TimeSortingBuffer.hpp\<close>: elements are appended to a fixed-size vector and
  threaded, in place, into a doubly linked chain in chronological order; \<^verbatim>\<open>getNextElement()\<close> walks
  the chain from its oldest element. Pointers into the vector are indices (the storage never
  moves, as the vector never grows past its reserved capacity).

  The abstract buffer is a list of timestamped elements in chronological order. The theorems
  show that the pointer structure implements it: \<open>push\<close> is the stable insertion, any number of
  pushes from an empty buffer yields the stable sort of the pushed elements by timestamp, and
  \<open>getNextElement\<close> enumerates exactly that list. The loop of \<^verbatim>\<open>sort()\<close> always ends and never
  dereferences a null pointer on a well-formed buffer.
\<close>

subsection \<open>The model\<close>

record 'a SortChainElement =
  sce_previous_p :: "nat option"
  sce_next_p :: "nat option"
  sce_element :: 'a
  sce_timestamp :: NanoSecondType

record 'a TimeSortingBuffer =
  timeSortedBuffer :: "'a SortChainElement FixedSizeVector"
  sortChainStart_p :: "nat option"
  sortChainEnd_p :: "nat option"
  lastReportedElement_p :: "nat option"

definition tsb_new :: "u16 \<Rightarrow> 'a TimeSortingBuffer" where
  "tsb_new f_bufferSize =
     \<lparr>timeSortedBuffer = fsv_new (unat f_bufferSize), sortChainStart_p = None,
      sortChainEnd_p = None, lastReportedElement_p = None\<rparr>"

abbreviation tsb_deref :: "'a TimeSortingBuffer \<Rightarrow> nat \<Rightarrow> 'a SortChainElement option" where
  "tsb_deref b p \<equiv> fsv_at (timeSortedBuffer b) p"

abbreviation tsb_assign ::
  "nat \<Rightarrow> ('a SortChainElement \<Rightarrow> 'a SortChainElement) \<Rightarrow> 'a TimeSortingBuffer \<Rightarrow> 'a TimeSortingBuffer"
where
  "tsb_assign p f b \<equiv> b\<lparr>timeSortedBuffer := fsv_update p f (timeSortedBuffer b)\<rparr>"

definition pushFront :: "nat \<Rightarrow> nat option \<Rightarrow> 'a TimeSortingBuffer \<Rightarrow> 'a TimeSortingBuffer" where
  "pushFront f_newChainElement_r f_firstChainElement_p b =
     (let b = tsb_assign f_newChainElement_r (\<lambda>e. e\<lparr>sce_previous_p := None\<rparr>) b;
          b = tsb_assign f_newChainElement_r (\<lambda>e. e\<lparr>sce_next_p := f_firstChainElement_p\<rparr>) b;
          b = (case f_firstChainElement_p of
                 None \<Rightarrow> b
               | Some p \<Rightarrow> tsb_assign p (\<lambda>e. e\<lparr>sce_previous_p := Some f_newChainElement_r\<rparr>) b)
      in b\<lparr>sortChainStart_p := Some f_newChainElement_r\<rparr>)"

definition pushAfter :: "nat \<Rightarrow> nat \<Rightarrow> 'a TimeSortingBuffer \<Rightarrow> 'a TimeSortingBuffer option" where
  "pushAfter f_newChainElement_r f_ChainElement_r b = do {
     c \<leftarrow> tsb_deref b f_ChainElement_r;
     let b = tsb_assign f_newChainElement_r (\<lambda>e. e\<lparr>sce_next_p := sce_next_p c\<rparr>) b;
     let b = (case sce_next_p c of
                None \<Rightarrow> b
              | Some n \<Rightarrow> tsb_assign n (\<lambda>e. e\<lparr>sce_previous_p := Some f_newChainElement_r\<rparr>) b);
     let b = tsb_assign f_ChainElement_r (\<lambda>e. e\<lparr>sce_next_p := Some f_newChainElement_r\<rparr>) b;
     let b = tsb_assign f_newChainElement_r (\<lambda>e. e\<lparr>sce_previous_p := Some f_ChainElement_r\<rparr>) b;
     Some (if sortChainEnd_p b = Some f_ChainElement_r
           then b\<lparr>sortChainEnd_p := Some f_newChainElement_r\<rparr> else b)
   }"

text \<open>The search for the insertion spot, from the newest element backwards.\<close>

partial_function (option) tsb_sort_loop ::
  "nat \<Rightarrow> nat \<Rightarrow> 'a TimeSortingBuffer \<Rightarrow> 'a TimeSortingBuffer option"
where
  "tsb_sort_loop f_newChainElement_r currentChainElement_p b = do {
     new \<leftarrow> tsb_deref b f_newChainElement_r;
     current \<leftarrow> tsb_deref b currentChainElement_p;
     (if sce_timestamp new \<ge> sce_timestamp current
      then pushAfter f_newChainElement_r currentChainElement_p b
      else (case sce_previous_p current of
              None \<Rightarrow> Some (pushFront f_newChainElement_r (Some currentChainElement_p) b)
            | Some p \<Rightarrow> tsb_sort_loop f_newChainElement_r p b))
   }"

definition tsb_sort :: "nat \<Rightarrow> 'a TimeSortingBuffer \<Rightarrow> 'a TimeSortingBuffer option" where
  "tsb_sort f_newChainElement_r b =
     (case sortChainStart_p b of
        None \<Rightarrow> Some ((pushFront f_newChainElement_r None b)\<lparr>sortChainEnd_p := Some f_newChainElement_r\<rparr>)
      | Some _ \<Rightarrow>
          (case sortChainEnd_p b of
             None \<Rightarrow> None
           | Some e \<Rightarrow> tsb_sort_loop f_newChainElement_r e b))"

definition tsb_push ::
  "'a \<Rightarrow> NanoSecondType \<Rightarrow> 'a TimeSortingBuffer \<Rightarrow> (bool \<times> 'a TimeSortingBuffer) option"
where
  "tsb_push f_element_r f_timestamp b =
     (let newElement = \<lparr>sce_previous_p = None, sce_next_p = None, sce_element = f_element_r,
                        sce_timestamp = f_timestamp\<rparr>;
          (added, v) = fsv_emplace_back newElement (timeSortedBuffer b);
          b = b\<lparr>timeSortedBuffer := v\<rparr>
      in if added
         then map_option (\<lambda>b. (True, b)) (tsb_sort (fsv_size v - 1) b)
         else Some (False, b))"

definition tsb_getNextElement :: "'a TimeSortingBuffer \<Rightarrow> ('a option \<times> 'a TimeSortingBuffer) option" where
  "tsb_getNextElement b =
     (if fsv_size (timeSortedBuffer b) \<noteq> 0
      then (case lastReportedElement_p b of
              None \<Rightarrow> do {
                s \<leftarrow> sortChainStart_p b;
                e \<leftarrow> tsb_deref b s;
                Some (Some (sce_element e), b\<lparr>lastReportedElement_p := sortChainStart_p b\<rparr>)
              }
            | Some l \<Rightarrow> do {
                r \<leftarrow> tsb_deref b l;
                (case sce_next_p r of
                   None \<Rightarrow> Some (None, b)
                 | Some n \<Rightarrow> do {
                     e \<leftarrow> tsb_deref b n;
                     Some (Some (sce_element e), b\<lparr>lastReportedElement_p := sce_next_p r\<rparr>)
                   })
              })
      else Some (None, b))"

definition tsb_clear :: "'a TimeSortingBuffer \<Rightarrow> 'a TimeSortingBuffer" where
  "tsb_clear b = b\<lparr>sortChainStart_p := None, sortChainEnd_p := None, lastReportedElement_p := None,
                    timeSortedBuffer := fsv_clear (timeSortedBuffer b)\<rparr>"

subsection \<open>Representation: the chain of a buffer\<close>

abbreviation tsb_elems :: "'a TimeSortingBuffer \<Rightarrow> 'a SortChainElement list" where
  "tsb_elems b \<equiv> fixedSizedVector (timeSortedBuffer b)"

definition payload :: "'a SortChainElement \<Rightarrow> NanoSecondType \<times> 'a" where
  "payload e = (sce_timestamp e, sce_element e)"

text \<open>The indices met from \<open>p\<close> along the next pointers, at most \<open>n\<close> of them.\<close>

fun tsb_walk :: "'a SortChainElement list \<Rightarrow> nat \<Rightarrow> nat option \<Rightarrow> nat list" where
  "tsb_walk es 0 p = []"
| "tsb_walk es (Suc n) None = []"
| "tsb_walk es (Suc n) (Some i) = (if i < length es then i # tsb_walk es n (sce_next_p (es ! i)) else [])"

definition tsb_chain :: "'a TimeSortingBuffer \<Rightarrow> nat list" where
  "tsb_chain b = tsb_walk (tsb_elems b) (length (tsb_elems b)) (sortChainStart_p b)"

text \<open>A doubly linked segment: indices \<open>is\<close>, entered from \<open>prv\<close> and left to \<open>nxt\<close>.\<close>

fun dll :: "'a SortChainElement list \<Rightarrow> nat option \<Rightarrow> nat list \<Rightarrow> nat option \<Rightarrow> bool" where
  "dll es prv [] nxt = True"
| "dll es prv (i # is) nxt =
     (i < length es \<and> sce_previous_p (es ! i) = prv \<and>
      sce_next_p (es ! i) = (if is = [] then nxt else Some (hd is)) \<and> dll es (Some i) is nxt)"

definition hd_opt :: "'a list \<Rightarrow> 'a option" where
  "hd_opt xs = (if xs = [] then None else Some (hd xs))"

definition last_opt :: "'a list \<Rightarrow> 'a option" where
  "last_opt xs = (if xs = [] then None else Some (last xs))"

definition tsb_linked :: "'a TimeSortingBuffer \<Rightarrow> nat list \<Rightarrow> bool" where
  "tsb_linked b ch \<longleftrightarrow> distinct ch \<and> dll (tsb_elems b) None ch None \<and>
     sortChainStart_p b = hd_opt ch \<and> sortChainEnd_p b = last_opt ch"

abbreviation tsb_key :: "'a SortChainElement list \<Rightarrow> nat \<Rightarrow> NanoSecondType" where
  "tsb_key es i \<equiv> sce_timestamp (es ! i)"

definition tsb_inv :: "'a TimeSortingBuffer \<Rightarrow> bool" where
  "tsb_inv b \<longleftrightarrow> set (tsb_chain b) = {..<length (tsb_elems b)} \<and>
     tsb_linked b (tsb_chain b) \<and> sorted (map (tsb_key (tsb_elems b)) (tsb_chain b)) \<and>
     (case lastReportedElement_p b of None \<Rightarrow> True | Some l \<Rightarrow> l \<in> set (tsb_chain b)) \<and>
     fsv_wf (timeSortedBuffer b)"

text \<open>The abstract buffer, and the part of it that \<open>getNextElement\<close> has not reported yet.\<close>

definition tsb_contents :: "'a TimeSortingBuffer \<Rightarrow> (NanoSecondType \<times> 'a) list" where
  "tsb_contents b = map (\<lambda>i. payload (tsb_elems b ! i)) (tsb_chain b)"

definition tsb_pending :: "'a TimeSortingBuffer \<Rightarrow> nat list" where
  "tsb_pending b = (case lastReportedElement_p b of
     None \<Rightarrow> tsb_chain b | Some l \<Rightarrow> tl (dropWhile (\<lambda>i. i \<noteq> l) (tsb_chain b)))"

definition tsb_remaining :: "'a TimeSortingBuffer \<Rightarrow> 'a list" where
  "tsb_remaining b = map (\<lambda>i. sce_element (tsb_elems b ! i)) (tsb_pending b)"

definition tsb_capacity :: "'a TimeSortingBuffer \<Rightarrow> nat" where
  "tsb_capacity b = fsv_capacity (timeSortedBuffer b)"

subsection \<open>Linked segments\<close>

lemma dll_append:
  "dll es prv (as @ bs) nxt \<longleftrightarrow>
     dll es prv as (if bs = [] then nxt else Some (hd bs)) \<and>
     dll es (if as = [] then prv else Some (last as)) bs nxt"
  by (induction as arbitrary: prv) (auto simp: hd_append)

lemma dll_update_other [simp]:
  "p \<notin> set is \<Longrightarrow> dll (es[p := x]) prv is nxt = dll es prv is nxt"
  by (induction "is" arbitrary: prv) auto

lemma dll_extend [simp]: "set is \<subseteq> {..<length es} \<Longrightarrow> dll (es @ [x]) prv is nxt = dll es prv is nxt"
  by (induction "is" arbitrary: prv) (auto simp: nth_append)

lemma dll_less: "dll es prv is nxt \<Longrightarrow> i \<in> set is \<Longrightarrow> i < length es"
  by (induction "is" arbitrary: prv) auto

lemma dll_set_next_last:
  "dll es prv (as @ [a]) nxt \<Longrightarrow> a \<notin> set as \<Longrightarrow> dll (es[a := (es ! a)\<lparr>sce_next_p := n\<rparr>]) prv (as @ [a]) n"
  by (auto simp: dll_append)

lemma dll_set_prev_hd:
  "dll es prv (b # bs) nxt \<Longrightarrow> b \<notin> set bs \<Longrightarrow> dll (es[b := (es ! b)\<lparr>sce_previous_p := p\<rparr>]) p (b # bs) nxt"
  by auto

lemma dll_walk: "dll es prv is None \<Longrightarrow> length is \<le> n \<Longrightarrow> tsb_walk es n (hd_opt is) = is"
proof (induction "is" arbitrary: prv n)
  case Nil
  then show ?case by (cases n) (auto simp: hd_opt_def)
next
  case (Cons i "is")
  then show ?case by (cases n) (auto simp: hd_opt_def)
qed

lemma payload_links [simp]:
  "payload (e\<lparr>sce_previous_p := p\<rparr>) = payload e" "payload (e\<lparr>sce_next_p := p\<rparr>) = payload e"
  by (simp_all add: payload_def)

lemma map_payload_update [simp]:
  "payload x = payload (es ! i) \<Longrightarrow> map payload (es[i := x]) = map payload es"
  by (cases "i < length es") (auto simp: map_update list_update_same_conv list_update_beyond)

lemma map_payload_key:
  "map payload es' = map payload es \<Longrightarrow> i < length es \<Longrightarrow>
     sce_timestamp (es' ! i) = sce_timestamp (es ! i) \<and> sce_element (es' ! i) = sce_element (es ! i)"
  by (metis map_eq_imp_length_eq nth_map payload_def prod.inject)

text \<open>The chain operations change links only.\<close>

definition same_payload :: "'a TimeSortingBuffer \<Rightarrow> 'a TimeSortingBuffer \<Rightarrow> bool" where
  "same_payload b b' \<longleftrightarrow> map payload (tsb_elems b') = map payload (tsb_elems b) \<and>
     lastReportedElement_p b' = lastReportedElement_p b \<and> tsb_capacity b' = tsb_capacity b"

lemma pushFront_linked:
  assumes "tsb_linked b (a # bs)" "n \<notin> set (a # bs)" "n < length (tsb_elems b)"
  shows "tsb_linked (pushFront n (Some a) b) (n # a # bs)"
    and "same_payload b (pushFront n (Some a) b)"
proof -
  let ?es = "tsb_elems b"
  define es1 where "es1 = ?es[n := (?es ! n)\<lparr>sce_previous_p := None\<rparr>]"
  define es2 where "es2 = es1[n := (es1 ! n)\<lparr>sce_next_p := Some a\<rparr>]"
  define es3 where "es3 = es2[a := (es2 ! a)\<lparr>sce_previous_p := Some n\<rparr>]"
  have es3: "tsb_elems (pushFront n (Some a) b) = es3"
    by (simp add: pushFront_def fsv_update_def es1_def es2_def es3_def)
  have "dll es2 None (a # bs) None"
    using assms(1,2) by (simp add: tsb_linked_def es1_def es2_def)
  then have "dll es3 (Some n) (a # bs) None"
    using assms(1) dll_set_prev_hd by (auto simp: es3_def tsb_linked_def)
  then show "tsb_linked (pushFront n (Some a) b) (n # a # bs)"
    using assms unfolding tsb_linked_def es3
    by (simp add: es1_def es2_def es3_def hd_opt_def last_opt_def) (simp add: pushFront_def)
  have "map payload es1 = map payload ?es" "map payload es2 = map payload es1" "map payload es3 = map payload es2"
    by (simp_all add: es1_def es2_def es3_def del: list_update_overwrite)
  then show "same_payload b (pushFront n (Some a) b)"
    by (simp add: same_payload_def es3) (simp add: pushFront_def tsb_capacity_def fsv_update_def)
qed

lemma pushFront_linked_empty:
  assumes "n < length (tsb_elems b)"
  shows "tsb_linked ((pushFront n None b)\<lparr>sortChainEnd_p := Some n\<rparr>) [n]"
    and "same_payload b ((pushFront n None b)\<lparr>sortChainEnd_p := Some n\<rparr>)"
  using assms
  by (auto simp: tsb_linked_def pushFront_def fsv_update_def hd_opt_def last_opt_def
      same_payload_def tsb_capacity_def payload_def)

lemma pushAfter_linked:
  assumes "tsb_linked b (as @ a # bs)" "n \<notin> set (as @ a # bs)" "n < length (tsb_elems b)"
  shows "\<exists>b'. pushAfter n a b = Some b' \<and> tsb_linked b' (as @ a # n # bs) \<and> same_payload b b'"
proof -
  let ?es = "tsb_elems b"
  have d: "dll ?es None (as @ [a]) (hd_opt bs)" "dll ?es (Some a) bs None"
    using assms(1) dll_append [of ?es None "as @ [a]" bs None]
    by (simp_all add: tsb_linked_def hd_opt_def split: if_splits)
  then have a: "a < length ?es" "sce_next_p (?es ! a) = hd_opt bs"
    by (auto simp: dll_append)
  define es1 where "es1 = ?es[n := (?es ! n)\<lparr>sce_next_p := hd_opt bs\<rparr>]"
  define es2 where "es2 = (case bs of [] \<Rightarrow> es1 | c # _ \<Rightarrow> es1[c := (es1 ! c)\<lparr>sce_previous_p := Some n\<rparr>])"
  define es3 where "es3 = es2[a := (es2 ! a)\<lparr>sce_next_p := Some n\<rparr>]"
  define es4 where "es4 = es3[n := (es3 ! n)\<lparr>sce_previous_p := Some a\<rparr>]"
  define b' where "b' = b\<lparr>timeSortedBuffer := (timeSortedBuffer b)\<lparr>fixedSizedVector := es4\<rparr>,
    sortChainEnd_p := (if sortChainEnd_p b = Some a then Some n else sortChainEnd_p b)\<rparr>"
  have b': "pushAfter n a b = Some b'"
    using a by (cases bs) (auto simp: pushAfter_def fsv_at_def fsv_size_def fsv_update_def hd_opt_def
        es1_def es2_def es3_def es4_def b'_def Let_def)
  have ne: "n \<noteq> a" "a \<notin> set as" "a \<notin> set bs" "n \<notin> set as" "n \<notin> set bs" "distinct bs" "set as \<inter> set bs = {}"
    using assms(1,2) by (auto simp: tsb_linked_def)
  have "dll es2 None (as @ [a]) (hd_opt bs)"
    using d ne by (cases bs) (auto simp: es1_def es2_def)
  then have front: "dll es4 None (as @ [a]) (Some n)"
    using ne dll_set_next_last by (auto simp: es3_def es4_def)
  have "dll es1 (Some a) bs None"
    using d ne by (simp add: es1_def)
  then have "dll es2 (Some n) bs None"
    using ne dll_set_prev_hd [of es1 "Some a"] by (cases bs) (auto simp: es2_def)
  then have "dll es4 (Some n) bs None"
    using ne by (simp add: es3_def es4_def)
  moreover have "es4 ! n = (?es ! n)\<lparr>sce_next_p := hd_opt bs, sce_previous_p := Some a\<rparr>"
    using ne assms(3) by (cases bs) (auto simp: es1_def es2_def es3_def es4_def)
  moreover have "length es4 = length ?es"
    by (simp add: es1_def es2_def es3_def es4_def split: list.split)
  ultimately have "dll es4 (Some a) (n # bs) None"
    using assms(3) by (simp add: hd_opt_def)
  then have "dll es4 None (as @ a # n # bs) None"
    using front dll_append [of es4 None "as @ [a]" "n # bs" None] by simp
  moreover have "(if sortChainEnd_p b = Some a then Some n else sortChainEnd_p b) = last_opt (as @ a # n # bs)"
    using assms(1) ne by (cases bs rule: rev_cases) (auto simp: tsb_linked_def last_opt_def)
  moreover have "sortChainStart_p b = hd_opt (as @ a # n # bs)"
    using assms(1) by (simp add: tsb_linked_def hd_opt_def hd_append)
  moreover have "map payload es1 = map payload ?es" "map payload es2 = map payload es1"
    "map payload es3 = map payload es2" "map payload es4 = map payload es3"
    by (simp_all add: es1_def es2_def es3_def es4_def del: list_update_overwrite split: list.split)
  ultimately show ?thesis
    using b' assms(1) ne by (auto simp: tsb_linked_def same_payload_def b'_def tsb_capacity_def)
qed

lemma tsb_sort_loop_linked:
  assumes "tsb_linked b (as @ a # bs)" "n \<notin> set (as @ a # bs)" "n < length (tsb_elems b)"
    and "sorted (map (tsb_key (tsb_elems b)) (as @ a # bs))"
    and "\<forall>c \<in> set bs. tsb_key (tsb_elems b) n < tsb_key (tsb_elems b) c"
  shows "\<exists>b'. tsb_sort_loop n a b = Some b' \<and>
    tsb_linked b' (insert_stable (tsb_key (tsb_elems b)) n (as @ a # bs)) \<and> same_payload b b'"
  using assms
proof (induction as arbitrary: a bs rule: rev_induct)
  case Nil
  let ?k = "tsb_key (tsb_elems b)"
  have a: "a < length (tsb_elems b)" "sce_previous_p (tsb_elems b ! a) = None"
    using Nil by (auto simp: tsb_linked_def)
  show ?case
  proof (cases "?k a \<le> ?k n")
    case True
    then have "insert_stable ?k n (a # bs) = a # n # bs"
      using Nil by (simp add: insert_stable_all_greater)
    with True show ?thesis
      using pushAfter_linked [of b "[]" a bs n] Nil a
      by (subst tsb_sort_loop.simps) (auto simp: fsv_at_def fsv_size_def)
  next
    case False
    then show ?thesis
      using pushFront_linked [of b a bs n] Nil a
      by (subst tsb_sort_loop.simps) (auto simp: fsv_at_def fsv_size_def)
  qed
next
  case (snoc p as)
  let ?k = "tsb_key (tsb_elems b)"
  have a: "a < length (tsb_elems b)" "sce_previous_p (tsb_elems b ! a) = Some p"
    using snoc.prems by (auto simp: tsb_linked_def dll_append split: if_splits)
  show ?case
  proof (cases "?k a \<le> ?k n")
    case True
    then have "insert_stable ?k n ((as @ [p]) @ a # bs) = (as @ [p]) @ a # n # bs"
      using insert_stable_append_le [of ?k "as @ [p]" a n bs] snoc.prems
      by (simp add: sorted_append)
    with True show ?thesis
      using pushAfter_linked [of b "as @ [p]" a bs n] snoc.prems a
      by (subst tsb_sort_loop.simps) (auto simp: fsv_at_def fsv_size_def)
  next
    case False
    then show ?thesis
      using snoc.IH [of p "a # bs"] snoc.prems a
      by (subst tsb_sort_loop.simps) (auto simp: fsv_at_def fsv_size_def)
  qed
qed

lemma tsb_chain_eq:
  assumes "tsb_linked b ch" "set ch = {..<length (tsb_elems b)}"
  shows "tsb_chain b = ch"
proof -
  have "length ch = length (tsb_elems b)"
    using assms distinct_card [of ch] by (simp add: tsb_linked_def)
  then show ?thesis
    using assms dll_walk [of "tsb_elems b" None ch "length (tsb_elems b)"]
    by (simp add: tsb_chain_def tsb_linked_def)
qed

lemma tsb_inv_length: "tsb_inv b \<Longrightarrow> length (tsb_contents b) = length (tsb_elems b)"
  using distinct_card [of "tsb_chain b"] by (simp add: tsb_inv_def tsb_linked_def tsb_contents_def)

subsection \<open>The operations implement the abstract buffer\<close>

lemma tsb_sort_linked:
  assumes "tsb_linked b ch" "set ch = {..<n}" "length (tsb_elems b) = Suc n"
    and "sorted (map (tsb_key (tsb_elems b)) ch)"
  shows "\<exists>b'. tsb_sort n b = Some b' \<and>
    tsb_linked b' (insert_stable (tsb_key (tsb_elems b)) n ch) \<and> same_payload b b'"
proof (cases ch rule: rev_cases)
  case Nil
  with assms show ?thesis
    using pushFront_linked_empty [of n b] by (simp add: tsb_sort_def tsb_linked_def hd_opt_def)
next
  case (snoc as a)
  with assms show ?thesis
    using tsb_sort_loop_linked [of b as a "[]" n]
    by (auto simp: tsb_sort_def tsb_linked_def hd_opt_def last_opt_def)
qed

lemma tsb_push_full:
  "\<not> length (tsb_elems b) < tsb_capacity b \<Longrightarrow> tsb_push x t b = Some (False, b)"
  by (simp add: tsb_push_def fsv.append_full tsb_capacity_def)

text \<open>Relinking a buffer along a new chain permutes its contents and nothing else.\<close>

lemma same_payload_nth:
  assumes "same_payload b b'" "i < length (tsb_elems b)"
  shows "payload (tsb_elems b' ! i) = payload (tsb_elems b ! i)"
  using assms by (metis (no_types, lifting) length_map nth_map same_payload_def)

lemma same_payload_length: "same_payload b b' \<Longrightarrow> length (tsb_elems b') = length (tsb_elems b)"
  by (metis length_map same_payload_def)

lemma relinked:
  assumes "same_payload b b'" "tsb_linked b' ch" "set ch = {..<length (tsb_elems b)}"
  shows "tsb_chain b' = ch" "tsb_contents b' = map (\<lambda>i. payload (tsb_elems b ! i)) ch"
    "map (tsb_key (tsb_elems b')) ch = map (tsb_key (tsb_elems b)) ch"
proof -
  have "length (tsb_elems b') = length (tsb_elems b)"
    by (rule same_payload_length [OF assms(1)])
  then show ch: "tsb_chain b' = ch"
    using assms by (intro tsb_chain_eq) auto
  show "tsb_contents b' = map (\<lambda>i. payload (tsb_elems b ! i)) ch"
    using assms(3) same_payload_nth [OF assms(1)] by (auto simp: tsb_contents_def ch)
  show "map (tsb_key (tsb_elems b')) ch = map (tsb_key (tsb_elems b)) ch"
    using assms(3) same_payload_nth [OF assms(1)] by (auto simp: payload_def)
qed

lemma tsb_push_room:
  assumes inv: "tsb_inv b" and room: "length (tsb_elems b) < tsb_capacity b"
  shows "\<exists>b'. tsb_push x t b = Some (True, b') \<and> tsb_inv b' \<and>
    tsb_contents b' = insert_stable fst (t, x) (tsb_contents b) \<and>
    tsb_capacity b' = tsb_capacity b \<and> lastReportedElement_p b' = lastReportedElement_p b"
proof -
  let ?es = "tsb_elems b" and ?n = "length (tsb_elems b)" and ?ch = "tsb_chain b"
  define e where "e = \<lparr>sce_previous_p = None, sce_next_p = None, sce_element = x, sce_timestamp = t\<rparr>"
  define b1 where "b1 = b\<lparr>timeSortedBuffer := snd (fsv_emplace_back e (timeSortedBuffer b))\<rparr>"
  let ?ch1 = "insert_stable (tsb_key (tsb_elems b1)) ?n ?ch"
  have emp: "fsv_emplace_back e (timeSortedBuffer b) = (True, timeSortedBuffer b1)"
    and es1: "tsb_elems b1 = ?es @ [e]" and cap1: "tsb_capacity b1 = tsb_capacity b"
    using room by (simp_all add: b1_def fsv_emplace_back_def fsv_size_def tsb_capacity_def)
  have ch: "set ?ch = {..<?n}" "tsb_linked b ?ch" "sorted (map (tsb_key ?es) ?ch)"
    using inv by (simp_all add: tsb_inv_def)
  have old: "(?es @ [e]) ! i = ?es ! i" if "i \<in> set ?ch" for i
    using ch that by (auto simp: nth_append)
  have l1: "tsb_linked b1 ?ch"
    using ch by (simp add: tsb_linked_def es1) (simp add: b1_def)
  have s1: "sorted (map (tsb_key (tsb_elems b1)) ?ch)"
    using ch(3) old by (simp add: es1 cong: map_cong)
  obtain b2 where b2: "tsb_sort ?n b1 = Some b2" "same_payload b1 b2" "tsb_linked b2 ?ch1"
    using tsb_sort_linked [OF l1 ch(1) _ s1] by (auto simp: es1)
  have set1: "set ?ch1 = {..<length (tsb_elems b1)}"
    unfolding set_insert_stable ch(1) es1 by (simp add: lessThan_Suc)
  note b2_chain = relinked [OF b2(2,3) set1]
  have len: "length (tsb_elems b2) = length (tsb_elems b1)"
    by (rule same_payload_length [OF b2(2)])
  have same: "lastReportedElement_p b2 = lastReportedElement_p b" "tsb_capacity b2 = tsb_capacity b"
    using b2(2) cap1 by (simp add: same_payload_def b1_def, simp add: same_payload_def)
  have "sorted (map (tsb_key (tsb_elems b2)) ?ch1)"
    unfolding b2_chain(3) by (rule sorted_insert_stable [OF s1])
  moreover have "fsv_wf (timeSortedBuffer b2)"
    using len room same by (simp add: fsv_wf_def fsv_size_def tsb_capacity_def es1)
  moreover have "case lastReportedElement_p b of None \<Rightarrow> True | Some l \<Rightarrow> l \<in> set ?ch1"
    using inv by (auto simp: tsb_inv_def split: option.splits)
  ultimately have inv2: "tsb_inv b2"
    using b2(3) set1 unfolding tsb_inv_def b2_chain(1) same len by simp
  have "tsb_contents b2 = insert_stable fst (payload (tsb_elems b1 ! ?n)) (map (\<lambda>i. payload (tsb_elems b1 ! i)) ?ch)"
    using map_insert_stable [of "\<lambda>i. payload (tsb_elems b1 ! i)" fst ?n ?ch]
    by (simp add: b2_chain(2) o_def payload_def)
  also have "\<dots> = insert_stable fst (t, x) (tsb_contents b)"
    using old by (simp add: tsb_contents_def e_def payload_def es1 cong: map_cong)
  finally have "tsb_contents b2 = insert_stable fst (t, x) (tsb_contents b)" .
  moreover have "tsb_push x t b = Some (True, b2)"
    using emp b2(1) es1 by (simp add: tsb_push_def e_def [symmetric] fsv_size_def) (simp add: b1_def)
  ultimately show ?thesis using inv2 same by auto
qed

lemma tsb_new_inv [simp]: "tsb_inv (tsb_new n)" "tsb_contents (tsb_new n) = []"
  "tsb_capacity (tsb_new n) = unat n" "lastReportedElement_p (tsb_new n) = None"
  by (simp_all add: tsb_new_def tsb_inv_def tsb_chain_def tsb_linked_def tsb_contents_def tsb_capacity_def
      fsv_wf_def fsv_new_def fsv_size_def hd_opt_def last_opt_def)

lemma tsb_clear_inv [simp]: "tsb_inv (tsb_clear b)" "tsb_contents (tsb_clear b) = []"
  "tsb_capacity (tsb_clear b) = tsb_capacity b" "lastReportedElement_p (tsb_clear b) = None"
  by (simp_all add: tsb_clear_def tsb_inv_def tsb_chain_def tsb_linked_def tsb_contents_def
      tsb_capacity_def fsv_wf_def fsv_clear_def fsv_size_def hd_opt_def last_opt_def)

lemma tsb_pending_split:
  assumes "tsb_chain b = xs @ l # ys" "distinct (tsb_chain b)" "lastReportedElement_p b = Some l"
  shows "tsb_pending b = ys"
proof -
  have "dropWhile (\<lambda>i. i \<noteq> l) (xs @ l # ys) = l # ys"
    using assms(1,2) by (subst dropWhile_append2) auto
  then show ?thesis using assms by (simp add: tsb_pending_def)
qed

text \<open>Reporting does not change the chain; the report of \<open>i\<close> leaves what follows \<open>i\<close> pending.\<close>

lemma tsb_report_inv:
  assumes "tsb_inv b" "tsb_pending b = i # is"
  defines "b' \<equiv> b\<lparr>lastReportedElement_p := Some i\<rparr>"
  shows "tsb_inv b'" "tsb_contents b' = tsb_contents b" "tsb_pending b' = is" "tsb_elems b' = tsb_elems b"
    "i < length (tsb_elems b)"
proof -
  have ch [simp]: "tsb_chain b' = tsb_chain b" by (simp add: b'_def tsb_chain_def)
  have "suffix (tsb_pending b) (tsb_chain b)"
    by (auto simp: tsb_pending_def suffix_dropWhile intro: suffix_order.trans [OF suffix_tl] split: option.split)
  then obtain xs where xs: "tsb_chain b = xs @ i # is"
    using assms(2) by (auto simp: suffix_def)
  then show "tsb_inv b'"
    using assms(1) unfolding tsb_inv_def tsb_linked_def ch by (auto simp: b'_def)
  show "tsb_contents b' = tsb_contents b" by (simp add: tsb_contents_def) (simp add: b'_def)
  have "distinct (tsb_chain b')" "tsb_chain b' = xs @ i # is"
    using assms(1) xs by (simp_all add: tsb_inv_def tsb_linked_def)
  then show "tsb_pending b' = is"
    by (intro tsb_pending_split) (auto simp: b'_def)
  show "tsb_elems b' = tsb_elems b" by (simp add: b'_def)
  show "i < length (tsb_elems b)" using assms(1) xs by (auto simp: tsb_inv_def)
qed

lemma tsb_getNextElement_pending:
  assumes inv: "tsb_inv b"
  shows "tsb_getNextElement b = Some (case tsb_pending b of
     [] \<Rightarrow> (None, b)
   | i # _ \<Rightarrow> (Some (sce_element (tsb_elems b ! i)), b\<lparr>lastReportedElement_p := Some i\<rparr>))"
proof (cases "lastReportedElement_p b")
  case None
  then show ?thesis
    using inv tsb_report_inv(5) [OF inv]
    by (cases "tsb_chain b")
      (auto simp: tsb_getNextElement_def tsb_inv_def tsb_linked_def tsb_pending_def hd_opt_def fsv_at_def fsv_size_def)
next
  case (Some l)
  then obtain xs ys where ch: "tsb_chain b = xs @ l # ys"
    using inv by (auto simp: tsb_inv_def dest: split_list)
  then have pend: "tsb_pending b = ys"
    using inv Some by (intro tsb_pending_split) (auto simp: tsb_inv_def tsb_linked_def)
  have "dll (tsb_elems b) None (xs @ l # ys) None"
    using inv ch by (simp add: tsb_inv_def tsb_linked_def)
  then have l: "l < length (tsb_elems b)" "sce_next_p (tsb_elems b ! l) = hd_opt ys"
    by (auto simp: dll_append hd_opt_def)
  then show ?thesis
    using Some pend tsb_report_inv(5) [OF inv]
    by (cases ys) (auto simp: tsb_getNextElement_def hd_opt_def fsv_at_def fsv_size_def)
qed

lemma tsb_getNextElement_None:
  "tsb_inv b \<Longrightarrow> tsb_remaining b = [] \<Longrightarrow> tsb_getNextElement b = Some (None, b)"
  by (simp add: tsb_getNextElement_pending tsb_remaining_def)

lemma tsb_getNextElement_Some:
  assumes "tsb_inv b" "tsb_remaining b = x # xs"
  shows "\<exists>b'. tsb_getNextElement b = Some (Some x, b') \<and> tsb_inv b' \<and> tsb_remaining b' = xs \<and>
    tsb_contents b' = tsb_contents b \<and> tsb_capacity b' = tsb_capacity b"
proof -
  obtain i "is" where i: "tsb_pending b = i # is" "x = sce_element (tsb_elems b ! i)"
    "xs = map (\<lambda>i. sce_element (tsb_elems b ! i)) is"
    using assms(2) by (auto simp: tsb_remaining_def)
  with assms(1) show ?thesis
    using tsb_report_inv [OF assms(1) i(1)]
    by (simp add: tsb_getNextElement_pending tsb_remaining_def tsb_capacity_def)
qed

lemma tsb_fresh_remaining:
  "lastReportedElement_p b = None \<Longrightarrow> tsb_remaining b = map snd (tsb_contents b)"
  by (simp add: tsb_remaining_def tsb_pending_def tsb_contents_def payload_def)

lemma tsb_sorted_contents: "tsb_inv b \<Longrightarrow> sorted (map fst (tsb_contents b))"
  by (simp add: tsb_inv_def tsb_contents_def payload_def o_def)

subsection \<open>The interface the supervisions use\<close>

text \<open>Pushing a list of timestamped elements, ignoring the success flag.\<close>

fun push_all :: "('e \<Rightarrow> NanoSecondType \<Rightarrow> 'b \<Rightarrow> (bool \<times> 'b) option) \<Rightarrow> (NanoSecondType \<times> 'e) list \<Rightarrow> 'b \<Rightarrow> 'b option"
where
  "push_all push [] b = Some b"
| "push_all push ((t, x) # xs) b = do { (r, b) \<leftarrow> push x t b; push_all push xs b }"

text \<open>
  The loop \<^verbatim>\<open>e = getNextElement(); while (e != nullptr) { body(e); e = getNextElement(); }\<close>
  shared by all the supervisions, and the list form it computes.
\<close>

partial_function (option) for_each ::
  "('b \<Rightarrow> ('e option \<times> 'b) option) \<Rightarrow> ('e \<Rightarrow> 's \<Rightarrow> 's option) \<Rightarrow> 'b \<Rightarrow> 's \<Rightarrow> ('b \<times> 's) option"
where
  "for_each getNext body b s = do {
     (e, b) \<leftarrow> getNext b;
     (case e of
        None \<Rightarrow> Some (b, s)
      | Some x \<Rightarrow> do { s \<leftarrow> body x s; for_each getNext body b s })
   }"

fun fold_opt :: "('e \<Rightarrow> 's \<Rightarrow> 's option) \<Rightarrow> 'e list \<Rightarrow> 's \<Rightarrow> 's option" where
  "fold_opt body [] s = Some s"
| "fold_opt body (x # xs) s = do { s \<leftarrow> body x s; fold_opt body xs s }"

lemma fold_opt_Some [simp]: "fold_opt (\<lambda>x s. Some (f x s)) xs s = Some (fold f xs s)"
  by (induction xs arbitrary: s) auto

lemma fold_opt_append [simp]:
  "fold_opt f (xs @ ys) s = do { s \<leftarrow> fold_opt f xs s; fold_opt f ys s }"
  by (induction xs arbitrary: s) (auto split: bind_splits)

text \<open>
  What a supervision relies on: the buffer holds its elements in chronological order, a push
  succeeds exactly when there is room and is a stable insertion, and the elements are reported once
  each, in order.
\<close>

locale time_buffer =
  fixes push :: "'e \<Rightarrow> NanoSecondType \<Rightarrow> 'b \<Rightarrow> (bool \<times> 'b) option"
    and getNext :: "'b \<Rightarrow> ('e option \<times> 'b) option"
    and clear :: "'b \<Rightarrow> 'b"
    and inv :: "'b \<Rightarrow> bool"
    and contents :: "'b \<Rightarrow> (NanoSecondType \<times> 'e) list"
    and remaining :: "'b \<Rightarrow> 'e list"
    and fresh :: "'b \<Rightarrow> bool"
    and capacity :: "'b \<Rightarrow> nat"
  assumes push_room: "inv b \<Longrightarrow> length (contents b) < capacity b \<Longrightarrow>
      \<exists>b'. push x t b = Some (True, b') \<and> inv b' \<and> contents b' = insert_stable fst (t, x) (contents b) \<and>
           capacity b' = capacity b \<and> fresh b' = fresh b"
    and push_full: "inv b \<Longrightarrow> \<not> length (contents b) < capacity b \<Longrightarrow> push x t b = Some (False, b)"
    and fresh_remaining: "inv b \<Longrightarrow> fresh b \<Longrightarrow> remaining b = map snd (contents b)"
    and next_None: "inv b \<Longrightarrow> remaining b = [] \<Longrightarrow> getNext b = Some (None, b)"
    and next_Some: "inv b \<Longrightarrow> remaining b = x # xs \<Longrightarrow>
      \<exists>b'. getNext b = Some (Some x, b') \<and> inv b' \<and> remaining b' = xs \<and> contents b' = contents b \<and>
           capacity b' = capacity b"
    and clear_inv: "inv b \<Longrightarrow> inv (clear b) \<and> contents (clear b) = [] \<and> fresh (clear b) \<and>
      capacity (clear b) = capacity b"
    and sorted_contents: "inv b \<Longrightarrow> sorted (map fst (contents b))"
begin

lemma push_total: "inv b \<Longrightarrow> \<exists>r b'. push x t b = Some (r, b') \<and> inv b' \<and> capacity b' = capacity b \<and>
    fresh b' = fresh b \<and> (r \<longleftrightarrow> length (contents b) < capacity b) \<and>
    contents b' = (if r then insert_stable fst (t, x) (contents b) else contents b)"
  using push_room [of b x t] push_full [of b x t] by (cases "length (contents b) < capacity b") auto

lemma push_all_contents:
  "inv b \<Longrightarrow> length (contents b) + length xs \<le> capacity b \<Longrightarrow>
   \<exists>b'. push_all push xs b = Some b' \<and> inv b' \<and> fresh b' = fresh b \<and> capacity b' = capacity b \<and>
        contents b' = fold (insert_stable fst) xs (contents b)"
proof (induction xs arbitrary: b)
  case (Cons p xs)
  obtain t x where [simp]: "p = (t, x)" by (cases p)
  have "length (contents b) < capacity b" using Cons.prems(2) by simp
  with Cons.prems(1) obtain b1 where b1: "push x t b = Some (True, b1)" "inv b1"
    "contents b1 = insert_stable fst (t, x) (contents b)" "capacity b1 = capacity b" "fresh b1 = fresh b"
    using push_room by blast
  then show ?case using Cons.IH [of b1] Cons.prems(2) by auto
qed simp

lemma for_each_fold:
  "inv b \<Longrightarrow> \<exists>b'. inv b' \<and> contents b' = contents b \<and> capacity b' = capacity b \<and>
     for_each getNext body b s = map_option (Pair b') (fold_opt body (remaining b) s)"
proof (induction "remaining b" arbitrary: b s)
  case Nil
  then have "getNext b = Some (None, b)" using next_None by simp
  with Nil show ?case by (intro exI [of _ b]) (simp add: for_each.simps)
next
  case (Cons x xs)
  then obtain b1 where b1: "getNext b = Some (Some x, b1)" "inv b1" "remaining b1 = xs"
    "contents b1 = contents b" "capacity b1 = capacity b"
    using next_Some [of b x xs] by auto
  show ?case
  proof (cases "body x s")
    case None
    with b1 Cons(2) [symmetric] show ?thesis by (intro exI [of _ b1]) (simp add: for_each.simps)
  next
    case (Some s1)
    with b1 Cons(1) [of b1 s1] Cons(2) [symmetric] show ?thesis
      by (auto simp: for_each.simps [of getNext body b])
  qed
qed

text \<open>A cycle of pushes followed by a scan visits the stable sort of the pushed elements.\<close>

lemma for_each_pushed:
  assumes "inv b" "fresh b" "contents b = []" "length xs \<le> capacity b"
  shows "\<exists>b' b''. push_all push xs b = Some b' \<and> inv b'' \<and>
    for_each getNext body b' s = map_option (Pair b'') (fold_opt body (map snd (sort_key fst xs)) s)"
proof -
  obtain b' where b': "push_all push xs b = Some b'" "inv b'" "fresh b'"
    "contents b' = fold (insert_stable fst) xs []"
    using push_all_contents [of b xs] assms by auto
  then have rem: "remaining b' = map snd (sort_key fst xs)"
    by (simp add: fresh_remaining fold_insert_stable_sort_key)
  obtain b'' where "inv b''"
    "for_each getNext body b' s = map_option (Pair b'') (fold_opt body (remaining b') s)"
    using for_each_fold [OF b'(2), of body s] by blast
  with b'(1) rem show ?thesis by (intro exI [of _ b'] exI [of _ b'']) simp
qed

end

lemma tsb_push_room_fresh:
  assumes "tsb_inv b" "length (tsb_elems b) < tsb_capacity b"
  shows "\<exists>b'. tsb_push x t b = Some (True, b') \<and> tsb_inv b' \<and>
    tsb_contents b' = insert_stable fst (t, x) (tsb_contents b) \<and> tsb_capacity b' = tsb_capacity b \<and>
    (lastReportedElement_p b' = None) = (lastReportedElement_p b = None)"
proof -
  obtain b' where "tsb_push x t b = Some (True, b')" "tsb_inv b'"
    "tsb_contents b' = insert_stable fst (t, x) (tsb_contents b)" "tsb_capacity b' = tsb_capacity b"
    "lastReportedElement_p b' = lastReportedElement_p b"
    using tsb_push_room [OF assms, of x t] by blast
  then show ?thesis by (intro exI [of _ b']) simp
qed

interpretation tsb: time_buffer tsb_push tsb_getNextElement tsb_clear tsb_inv tsb_contents tsb_remaining
  "\<lambda>b. lastReportedElement_p b = None" tsb_capacity
  by unfold_locales
    (auto simp: tsb_inv_length tsb_push_full tsb_push_room_fresh tsb_fresh_remaining
      tsb_getNextElement_None tsb_getNextElement_Some tsb_sorted_contents)

subsection \<open>Properties\<close>

text \<open>
  (C34) The buffer is a chronological, stable sort: any number of pushes up to the configured size followed
  by a scan with \<^verbatim>\<open>getNextElement()\<close> visits exactly the pushed elements, ordered by timestamp, and
  elements with equal timestamps in the order they were pushed.
\<close>

theorem tsb_push_scan_sorted:
  assumes "length xs \<le> unat n"
  shows "\<exists>b b'. push_all tsb_push xs (tsb_new n) = Some b \<and>
    for_each tsb_getNextElement body b s = map_option (Pair b') (fold_opt body (map snd (sort_key fst xs)) s)"
  using tsb.for_each_pushed [of "tsb_new n" xs body s] assms by auto

theorem tsb_push_scan_sorted_witness:
  "\<exists>b b'. push_all tsb_push [(30, ''c''), (10, ''a''), (30, ''d''), (20, ''b'')] (tsb_new 4) = Some b \<and>
    for_each tsb_getNextElement (\<lambda>x xs. Some (xs @ x)) b [] = Some (b', ''abcd'')"
  using tsb_push_scan_sorted [of "[(30, ''c''), (10, ''a''), (30, ''d''), (20, ''b'')]" 4 "\<lambda>x xs. Some (xs @ x)" "[]"]
  by (simp add: sort_key_def)

text \<open>
  A buffer operation is never lost silently: with room the push succeeds and inserts stably, without
  room it reports the failure and changes nothing; in both cases the chain stays well-formed.
\<close>

theorem tsb_push_spec:
  assumes "tsb_inv b"
  shows "\<exists>r b'. tsb_push x t b = Some (r, b') \<and> tsb_inv b' \<and>
    (r \<longleftrightarrow> length (tsb_contents b) < tsb_capacity b) \<and>
    tsb_contents b' = (if r then insert_stable fst (t, x) (tsb_contents b) else tsb_contents b)"
  using tsb.push_total [OF assms, of x t] by blast

theorem tsb_push_spec_witness:
  "\<exists>b'. tsb_push ''x'' 5 (tsb_new 1) = Some (True, b') \<and> tsb_contents b' = [(5, ''x'')]"
  using tsb_push_spec [of "tsb_new 1" "''x''" 5] by auto

end
