(* ===== verification/Checkpoint_Supervision.thy ===== *)
theory Checkpoint_Supervision
  imports Process_State_Tracker Time_Sorting_Buffer
begin

section \<open>The common part of the checkpoint supervisions\<close>

text \<open>
  Models \<^verbatim>\<open>saf/supervision/ICheckpointSupervision.{hpp,cpp}\<close> and \<^verbatim>\<open>CheckpointSupervisionCfg\<close> of
  \<^verbatim>\<open>SupervisionCfg.hpp\<close>: the status values, the update events kept in the time sorting buffer and
  their classification, and the per-process execution errors. The alive, deadline and logical
  supervisions are extensions of the record.

  Assertions have no effect in the release build and none here; where one states an invariant
  of the code it is a lemma of the development. \<^verbatim>\<open>processExecErrs[p]\<close> of a missing key inserts the
  value \<open>0\<close>, as \<^verbatim>\<open>std::map::operator[]\<close> does.
\<close>

datatype CStatus = C_deactivated | C_ok | C_failed | C_expired

datatype TimeSortedUpdateEvent =
    EvProcess ProcessStateSnapshot
  | EvCheckpoint CheckpointIdentifier NanoSecondType
  | EvSync NanoSecondType

datatype EUpdateEventType =
    kNoChange | kActivation | kDeactivation | kCheckpoint | kEvaluation | kSync | kRecoveredFromCrash

text \<open>
  What an observer of a supervision reads when it is notified: \<^verbatim>\<open>getStatus\<close>, \<^verbatim>\<open>getTimestamp\<close> and
  \<^verbatim>\<open>getProcessExecutionError\<close> at the moment of \<^verbatim>\<open>pushResultToObservers\<close>.
\<close>

record CheckpointResult =
  res_status :: CStatus
  res_timestamp :: NanoSecondType
  res_executionError :: ProcessExecutionError

record CheckpointSupervision =
  lastProcessExecutionError :: ProcessExecutionError
  processExecErrs :: "ProcessStateIdentifier \<rightharpoonup> ProcessExecutionError"
  processTracker :: ProcessStateTracker
  pushedResults :: "CheckpointResult list"

definition initProcessExecErrs :: "ProcessStateIdentifier list \<Rightarrow> ProcessStateIdentifier \<rightharpoonup> ProcessExecutionError" where
  "initProcessExecErrs refProcesses_r =
     fold (\<lambda>process_p m. if m process_p = None then m(process_p \<mapsto> kDefaultProcessExecutionError) else m)
       refProcesses_r Map.empty"

fun getTimestampOfUpdateEvent :: "TimeSortedUpdateEvent \<Rightarrow> NanoSecondType" where
  "getTimestampOfUpdateEvent (EvProcess s) = pss_timestamp s"
| "getTimestampOfUpdateEvent (EvCheckpoint c t) = t"
| "getTimestampOfUpdateEvent (EvSync t) = t"

definition setProcessExecutionErrorForProcess ::
  "ProcessStateIdentifier \<Rightarrow> ProcessExecutionError \<Rightarrow> 'a CheckpointSupervision_scheme \<Rightarrow> 'a CheckpointSupervision_scheme"
where
  "setProcessExecutionErrorForProcess f_process_p f_error s =
     s\<lparr>processExecErrs := (processExecErrs s)(f_process_p \<mapsto> f_error)\<rparr>"

definition getProcessExecutionErrorForProcess ::
  "ProcessStateIdentifier \<Rightarrow> 'a CheckpointSupervision_scheme \<Rightarrow> ProcessExecutionError \<times> 'a CheckpointSupervision_scheme"
where
  "getProcessExecutionErrorForProcess f_process_p s =
     (case processExecErrs s f_process_p of
        Some e \<Rightarrow> (e, s)
      | None \<Rightarrow> (0, s\<lparr>processExecErrs := (processExecErrs s)(f_process_p \<mapsto> 0)\<rparr>))"

fun getEventType ::
  "TimeSortedUpdateEvent \<Rightarrow> 'a CheckpointSupervision_scheme \<Rightarrow> EUpdateEventType \<times> 'a CheckpointSupervision_scheme"
where
  "getEventType (EvProcess snapshot) s =
     (let (processEvent, tracker) = generateProcessChangeEvent snapshot (processTracker s);
          s = s\<lparr>processTracker := tracker\<rparr>;
          s = setProcessExecutionErrorForProcess (pss_identifier_p snapshot) (pss_executionError snapshot) s
      in ((case pce_changeType processEvent of
             PC_Activation \<Rightarrow> kActivation
           | PC_Deactivation \<Rightarrow> kDeactivation
           | PC_RecoveredFromCrash \<Rightarrow> kRecoveredFromCrash
           | PC_NoChange \<Rightarrow> kNoChange), s))"
| "getEventType (EvCheckpoint c t) s = (kCheckpoint, s)"
| "getEventType (EvSync t) s = (kSync, s)"

subsection \<open>Frame and tracker facts\<close>

abbreviation sup_tracker_inv :: "'a CheckpointSupervision_scheme \<Rightarrow> bool" where
  "sup_tracker_inv s \<equiv> tracker_inv (processTracker s)"

lemma getEventType_frame [frame_simps]:
  "pushedResults (snd (getEventType e s)) = pushedResults s"
  "lastProcessExecutionError (snd (getEventType e s)) = lastProcessExecutionError s"
  "CheckpointSupervision.more (snd (getEventType e s)) = CheckpointSupervision.more s"
  by (cases e; simp add: Let_def setProcessExecutionErrorForProcess_def split: prod.split)+

lemma getEventType_tracker_inv:
  "sup_tracker_inv s \<Longrightarrow> sup_tracker_inv (snd (getEventType e s))"
  using tracker_inv_generate [of "processTracker s"]
  by (cases e) (auto simp: Let_def setProcessExecutionErrorForProcess_def split: prod.split, metis snd_conv)

lemma getEventType_not_evaluation: "fst (getEventType e s) \<noteq> kEvaluation"
  by (cases e) (auto simp: Let_def split: prod.split EProcessChangeType.split)

lemma getEventType_cases:
  "fst (getEventType e s) = kCheckpoint \<longleftrightarrow> (\<exists>c t. e = EvCheckpoint c t)"
  "fst (getEventType e s) = kSync \<longleftrightarrow> (\<exists>t. e = EvSync t)"
  by (cases e; auto simp: Let_def split: prod.split EProcessChangeType.split)+

text \<open>
  The assertion in the execution error accessors holds: every process the tracker refers to has an
  entry, and no operation removes one.
\<close>

lemma initProcessExecErrs_dom_aux:
  "dom (fold (\<lambda>p m. if m p = None then m(p \<mapsto> kDefaultProcessExecutionError) else m) ps m) = dom m \<union> set ps"
  by (induction ps arbitrary: m) auto

lemma initProcessExecErrs_dom: "dom (initProcessExecErrs ps) = set ps"
  using initProcessExecErrs_dom_aux [of ps Map.empty] by (simp add: initProcessExecErrs_def)

lemma getEventType_dom_errs: "dom (processExecErrs s) \<subseteq> dom (processExecErrs (snd (getEventType e s)))"
  by (cases e) (auto simp: Let_def setProcessExecutionErrorForProcess_def split: prod.split)

subsection \<open>The buffered events\<close>

text \<open>Every event is buffered under its own time, so the buffer reports the events in order of time.\<close>

definition events_keyed :: "TimeSortedUpdateEvent TimeSortingBuffer \<Rightarrow> bool" where
  "events_keyed b \<longleftrightarrow> (\<forall>(t, e) \<in> set (tsb_contents b). t = getTimestampOfUpdateEvent e)"

fun is_process_event :: "TimeSortedUpdateEvent \<Rightarrow> bool" where
  "is_process_event (EvProcess p) = True"
| "is_process_event e = False"

lemma events_keyed_empty [simp]: "tsb_contents b = [] \<Longrightarrow> events_keyed b"
  by (simp add: events_keyed_def)

lemma events_keyed_push:
  "events_keyed b \<Longrightarrow> tsb_contents b' = insert_stable fst (getTimestampOfUpdateEvent e, e) (tsb_contents b) \<Longrightarrow>
   events_keyed b'"
  by (auto simp: events_keyed_def)

lemma events_keyed_times:
  assumes "events_keyed b"
  shows "map getTimestampOfUpdateEvent (map snd (tsb_contents b)) = map fst (tsb_contents b)"
  using assms by (auto simp: events_keyed_def)

lemma events_sorted:
  assumes "events_keyed b" "tsb_inv b" "\<And>e. e \<in> snd ` set (tsb_contents b) \<Longrightarrow> getTimestampOfUpdateEvent e \<le> t"
  shows "sorted (map getTimestampOfUpdateEvent (map snd (tsb_contents b) @ [EvSync t]))"
proof -
  have "sorted (map getTimestampOfUpdateEvent (map snd (tsb_contents b)))"
    using tsb_sorted_contents [OF assms(2)] by (simp only: events_keyed_times [OF assms(1)])
  moreover have "\<forall>x \<in> set (map getTimestampOfUpdateEvent (map snd (tsb_contents b))). x \<le> t"
    using assms(3) by force
  ultimately show ?thesis by (simp only: map_append sorted_append) simp
qed

end
