(* ===== verification/Alive_Supervision.thy ===== *)
theory Alive_Supervision
  imports Checkpoint_Supervision
begin

section \<open>Alive supervision\<close>

text \<open>
  Models \<^verbatim>\<open>saf/supervision/Alive.{hpp,cpp}\<close> and \<^verbatim>\<open>AliveSupervisionCfg\<close>: the supervision counts the alive
  indications of each reference cycle and debounces failed cycles with a tolerance.

  One definition per member function, with the source's names. Log output is not modelled.
  \<open>evaluate\<close> is the only operation with an unbounded loop; it returns \<open>None\<close> when the loop does
  not end, and the theorems show when it ends.
\<close>

subsection \<open>State\<close>

datatype EDataLossReason = kNoDataLoss | kBufferFull | kSharedMemory

datatype EAliveReason = kDataLoss | kFailedToleranceExceeded | kDataCorruption | kOverflow

record AliveSupervisionCfg =
  acfg_checkpointBufferSize :: u16
  acfg_refFuntionGroupStates :: "ProcessGroupId list"
  acfg_refProcesses :: "ProcessStateIdentifier list"
  acfg_aliveReferenceCycle :: NanoSecondType
  acfg_minAliveIndications :: u32
  acfg_maxAliveIndications :: u32
  acfg_isMinCheckDisabled :: bool
  acfg_isMaxCheckDisabled :: bool
  acfg_failedCyclesTolerance :: u32

record Alive = CheckpointSupervision +
  k_aliveReferenceCycle :: NanoSecondType
  k_minAliveIndications :: u32
  k_maxAliveIndications :: u64
  al_isMinCheckDisabled :: bool
  al_isMaxCheckDisabled :: bool
  k_failedSupervisionCyclesTolerance :: u32
  dataLossReason :: EDataLossReason
  aliveStatus :: CStatus
  referenceCycleStart :: NanoSecondType
  referenceCycleEnd :: NanoSecondType
  indicationCount :: u32
  failedSupervisionCycles :: u32
  al_eventTimestamp :: NanoSecondType
  al_lastSyncTimestamp :: NanoSecondType
  al_buffer :: "TimeSortedUpdateEvent TimeSortingBuffer"
  aliveProcess :: ProcessStateIdentifier

text \<open>
  The constructor dereferences \<^verbatim>\<open>refProcesses_r.front()\<close>, which is undefined for an empty vector.
\<close>

definition Alive_new :: "AliveSupervisionCfg \<Rightarrow> Alive option" where
  "Alive_new cfg =
     (case acfg_refProcesses cfg of
        [] \<Rightarrow> None
      | front # _ \<Rightarrow> Some
          \<lparr>lastProcessExecutionError = kDefaultProcessExecutionError,
           processExecErrs = initProcessExecErrs (acfg_refProcesses cfg),
           processTracker = setMarkProcessActiveAt Running
             (ProcessStateTracker_new (acfg_refFuntionGroupStates cfg) (acfg_refProcesses cfg)),
           pushedResults = [],
           k_aliveReferenceCycle = acfg_aliveReferenceCycle cfg,
           k_minAliveIndications = acfg_minAliveIndications cfg,
           k_maxAliveIndications = ucast (acfg_maxAliveIndications cfg),
           al_isMinCheckDisabled = acfg_isMinCheckDisabled cfg,
           al_isMaxCheckDisabled = acfg_isMaxCheckDisabled cfg,
           k_failedSupervisionCyclesTolerance = acfg_failedCyclesTolerance cfg,
           dataLossReason = kNoDataLoss,
           aliveStatus = C_deactivated,
           referenceCycleStart = 0,
           referenceCycleEnd = UINT64_MAX,
           indicationCount = 0,
           failedSupervisionCycles = 0,
           al_eventTimestamp = 0,
           al_lastSyncTimestamp = 0,
           al_buffer = tsb_new (acfg_checkpointBufferSize cfg),
           aliveProcess = front\<rparr>)"

subsection \<open>Notification of the observers\<close>

definition al_pushResultToObservers :: "Alive \<Rightarrow> Alive" where
  "al_pushResultToObservers s =
     s\<lparr>pushedResults := pushedResults s @
         [\<lparr>res_status = aliveStatus s, res_timestamp = al_eventTimestamp s,
           res_executionError = lastProcessExecutionError s\<rparr>]\<rparr>"

subsection \<open>Updates\<close>

definition al_push :: "TimeSortedUpdateEvent \<Rightarrow> NanoSecondType \<Rightarrow> Alive \<Rightarrow> Alive option" where
  "al_push e t s = do {
     (success, b) \<leftarrow> tsb_push e t (al_buffer s);
     let s = s\<lparr>al_buffer := b\<rparr>;
     Some (if success then s
           else s\<lparr>dataLossReason := kBufferFull, al_eventTimestamp := al_lastSyncTimestamp s\<rparr>)
   }"

definition al_updateCheckpoint :: "CheckpointIdentifier \<Rightarrow> Checkpoint \<Rightarrow> Alive \<Rightarrow> Alive option" where
  "al_updateCheckpoint addr f_observable_r s =
     (let timestamp = cp_timestamp f_observable_r
      in if cp_isDataLossEvent f_observable_r
         then Some (s\<lparr>dataLossReason := kSharedMemory,
                      al_eventTimestamp := (if timestamp = 0 then al_lastSyncTimestamp s else timestamp)\<rparr>)
         else al_push (EvCheckpoint addr timestamp) timestamp s)"

definition al_updateProcessState :: "ProcessStateIdentifier \<Rightarrow> ProcessState \<Rightarrow> Alive \<Rightarrow> Alive option" where
  "al_updateProcessState addr f_observable_r s =
     (let state = eProcState f_observable_r
      in if isProcessStateRelevant state (processTracker s)
         then do {
           executionError \<leftarrow> getProcessExecutionError f_observable_r;
           let timestamp = ps_timestamp f_observable_r;
           al_push (EvProcess \<lparr>pss_identifier_p = addr, pss_eProcState = state,
                                pss_processGroupState = processGroupState f_observable_r,
                                pss_timestamp = timestamp, pss_executionError = executionError\<rparr>) timestamp s
         }
         else Some s)"

definition al_storeSyncEvent :: "NanoSecondType \<Rightarrow> Alive \<Rightarrow> Alive option" where
  "al_storeSyncEvent f_syncTimestamp s = al_push (EvSync f_syncTimestamp) f_syncTimestamp s"

subsection \<open>State switches\<close>

definition isMinError :: "Alive \<Rightarrow> bool" where
  "isMinError s \<longleftrightarrow> \<not> al_isMinCheckDisabled s \<and> indicationCount s < k_minAliveIndications s"

definition isMaxError :: "Alive \<Rightarrow> bool" where
  "isMaxError s \<longleftrightarrow> \<not> al_isMaxCheckDisabled s \<and> ucast (indicationCount s) > k_maxAliveIndications s"

definition al_switchToDeactivated :: "Alive \<Rightarrow> Alive" where
  "al_switchToDeactivated s = al_pushResultToObservers
     (s\<lparr>aliveStatus := C_deactivated, failedSupervisionCycles := 0, indicationCount := 0,
        referenceCycleStart := 0, referenceCycleEnd := UINT64_MAX\<rparr>)"

definition al_switchToOk :: "Alive \<Rightarrow> Alive" where
  "al_switchToOk s = al_pushResultToObservers (s\<lparr>aliveStatus := C_ok, failedSupervisionCycles := 0\<rparr>)"

definition al_switchToExpired :: "EAliveReason \<Rightarrow> Alive \<Rightarrow> Alive" where
  "al_switchToExpired reason s =
     (let s = s\<lparr>aliveStatus := C_expired, lastProcessExecutionError := kDefaultProcessExecutionError\<rparr>;
          s = (if reason = kFailedToleranceExceeded
               then (let (err, s) = getProcessExecutionErrorForProcess (aliveProcess s) s
                     in s\<lparr>lastProcessExecutionError := err\<rparr>)
               else s)
      in al_pushResultToObservers
           (s\<lparr>failedSupervisionCycles := k_failedSupervisionCyclesTolerance s, indicationCount := 0,
              referenceCycleStart := 0, referenceCycleEnd := UINT64_MAX,
              dataLossReason := kNoDataLoss\<rparr>))"

text \<open>Returns whether the timestamps would overflow.\<close>

definition setReferenceCycleTimestamps :: "NanoSecondType \<Rightarrow> Alive \<Rightarrow> bool \<times> Alive" where
  "setReferenceCycleTimestamps f_baseValue s =
     (if f_baseValue > UINT64_MAX - k_aliveReferenceCycle s
      then (True, al_switchToExpired kOverflow
              (s\<lparr>al_eventTimestamp := max (referenceCycleEnd s + 1) UINT64_MAX\<rparr>))
      else (False, s\<lparr>referenceCycleStart := f_baseValue,
                     referenceCycleEnd := f_baseValue + k_aliveReferenceCycle s\<rparr>))"

definition setNextCycle :: "Alive \<Rightarrow> Alive" where
  "setNextCycle s =
     (let (overflow, s) = setReferenceCycleTimestamps (referenceCycleEnd s) s
      in if \<not> overflow then s\<lparr>indicationCount := 0\<rparr> else s)"

definition al_switchToFailed :: "Alive \<Rightarrow> Alive" where
  "al_switchToFailed s = setNextCycle (al_pushResultToObservers
     (s\<lparr>aliveStatus := C_failed, failedSupervisionCycles := failedSupervisionCycles s + 1\<rparr>))"

definition incIndicationCount :: "NanoSecondType \<Rightarrow> Alive \<Rightarrow> Alive" where
  "incIndicationCount f_updateEventTimestamp s =
     (if indicationCount s = UINT32_MAX
      then al_switchToExpired kOverflow (s\<lparr>al_eventTimestamp := f_updateEventTimestamp\<rparr>)
      else s\<lparr>indicationCount := indicationCount s + 1\<rparr>)"

subsection \<open>Evaluation of a reference cycle\<close>

definition evaluateRefCycleOutOfOk :: "Alive \<Rightarrow> Alive" where
  "evaluateRefCycleOutOfOk s =
     (if isMinError s \<or> isMaxError s
      then (if failedSupervisionCycles s < k_failedSupervisionCyclesTolerance s
            then al_switchToFailed s
            else al_switchToExpired kFailedToleranceExceeded s)
      else setNextCycle s)"

definition evaluateRefCycleOutOfFailed :: "Alive \<Rightarrow> Alive" where
  "evaluateRefCycleOutOfFailed s =
     (if isMinError s \<or> isMaxError s
      then (if failedSupervisionCycles s = UINT32_MAX
            then al_switchToExpired kOverflow s
            else (let s = s\<lparr>failedSupervisionCycles := failedSupervisionCycles s + 1\<rparr>
                  in if failedSupervisionCycles s \<le> k_failedSupervisionCyclesTolerance s
                     then setNextCycle s
                     else al_switchToExpired kFailedToleranceExceeded s))
      else setNextCycle
             (if failedSupervisionCycles s \<le> 1 then al_switchToOk s
              else s\<lparr>failedSupervisionCycles := failedSupervisionCycles s - 1\<rparr>))"

subsection \<open>Transitions\<close>

definition al_checkTransitionsOutOfDeactivated :: "EUpdateEventType \<Rightarrow> NanoSecondType \<Rightarrow> Alive \<Rightarrow> Alive" where
  "al_checkTransitionsOutOfDeactivated f_updateEventType f_updateEventTimestamp s =
     (if f_updateEventType = kActivation
      then (let (overflow, s) = setReferenceCycleTimestamps f_updateEventTimestamp s
            in if \<not> overflow then al_switchToOk (s\<lparr>al_eventTimestamp := f_updateEventTimestamp\<rparr>) else s)
      else s)"

definition al_checkTransitionsToDeactivated :: "EUpdateEventType \<Rightarrow> NanoSecondType \<Rightarrow> Alive \<Rightarrow> Alive" where
  "al_checkTransitionsToDeactivated f_updateEventType f_updateEventTimestamp s =
     (if f_updateEventType = kDeactivation \<and> aliveStatus s \<noteq> C_deactivated
      then al_switchToDeactivated (s\<lparr>al_eventTimestamp := f_updateEventTimestamp\<rparr>)
      else s)"

definition al_checkForRecoveryTransition :: "EUpdateEventType \<Rightarrow> NanoSecondType \<Rightarrow> Alive \<Rightarrow> bool \<times> Alive" where
  "al_checkForRecoveryTransition f_updateEventType f_updateEventTimestamp s =
     (if f_updateEventType = kRecoveredFromCrash
      then (True, al_checkTransitionsOutOfDeactivated kActivation f_updateEventTimestamp
                    (al_switchToDeactivated s))
      else (False, s))"

definition al_checkTransitionsOutOfOk :: "EUpdateEventType \<Rightarrow> NanoSecondType \<Rightarrow> Alive \<Rightarrow> Alive" where
  "al_checkTransitionsOutOfOk f_updateEventType f_updateEventTimestamp s =
     (if f_updateEventType = kEvaluation then evaluateRefCycleOutOfOk s
      else if f_updateEventType = kCheckpoint then incIndicationCount f_updateEventTimestamp s
      else s)"

definition al_checkTransitionsOutOfFailed :: "EUpdateEventType \<Rightarrow> NanoSecondType \<Rightarrow> Alive \<Rightarrow> Alive" where
  "al_checkTransitionsOutOfFailed f_updateEventType f_updateEventTimestamp s =
     (if f_updateEventType = kEvaluation then evaluateRefCycleOutOfFailed s
      else if f_updateEventType = kCheckpoint then incIndicationCount f_updateEventTimestamp s
      else s)"

definition detectEvaluationEvent :: "NanoSecondType \<Rightarrow> TimeSortedUpdateEvent \<Rightarrow> Alive \<Rightarrow> bool" where
  "detectEvaluationEvent f_timestampOfUpdateEvent f_updateEvent s =
     (if aliveStatus s = C_deactivated \<or> aliveStatus s = C_expired then False
      else referenceCycleEnd s < f_timestampOfUpdateEvent \<or>
           (referenceCycleEnd s = f_timestampOfUpdateEvent \<and>
            (case f_updateEvent of EvSync _ \<Rightarrow> True | _ \<Rightarrow> False)))"

definition getAliveEventType :: "bool \<Rightarrow> TimeSortedUpdateEvent \<Rightarrow> Alive \<Rightarrow> EUpdateEventType \<times> Alive" where
  "getAliveEventType f_isEvaluationEvent f_updateEvent s =
     (if f_isEvaluationEvent then (kEvaluation, s) else getEventType f_updateEvent s)"

subsection \<open>The evaluation loop\<close>

text \<open>The state machine part of one iteration: the switch over the status, recovery, deactivation.\<close>

definition al_dispatch :: "EUpdateEventType \<Rightarrow> NanoSecondType \<Rightarrow> Alive \<Rightarrow> Alive" where
  "al_dispatch currentUpdateType timestampOfUpdateEvent s =
     (let s = (case aliveStatus s of
                 C_deactivated \<Rightarrow> al_checkTransitionsOutOfDeactivated currentUpdateType timestampOfUpdateEvent s
               | C_ok \<Rightarrow> al_checkTransitionsOutOfOk currentUpdateType timestampOfUpdateEvent s
               | C_failed \<Rightarrow> al_checkTransitionsOutOfFailed currentUpdateType timestampOfUpdateEvent s
               | C_expired \<Rightarrow> s);
          (recovered, s) = al_checkForRecoveryTransition currentUpdateType timestampOfUpdateEvent s
      in if \<not> recovered then al_checkTransitionsToDeactivated currentUpdateType timestampOfUpdateEvent s
         else s)"

text \<open>One iteration of the loop: whether it was an evaluation event, and the new state.\<close>

definition al_iteration :: "TimeSortedUpdateEvent \<Rightarrow> Alive \<Rightarrow> bool \<times> Alive" where
  "al_iteration sortedUpdateEvent s =
     (let timestampOfUpdateEvent = getTimestampOfUpdateEvent sortedUpdateEvent;
          isEvaluationEvent = detectEvaluationEvent timestampOfUpdateEvent sortedUpdateEvent s;
          (timestampOfUpdateEvent, s) =
            (if isEvaluationEvent
             then (referenceCycleEnd s, s\<lparr>al_eventTimestamp := referenceCycleEnd s\<rparr>)
             else (timestampOfUpdateEvent, s));
          (currentUpdateType, s) = getAliveEventType isEvaluationEvent sortedUpdateEvent s
      in (isEvaluationEvent, al_dispatch currentUpdateType timestampOfUpdateEvent s))"

text \<open>An evaluation event keeps the current element for the next iteration.\<close>

partial_function (option) al_loop :: "TimeSortedUpdateEvent option \<Rightarrow> Alive \<Rightarrow> Alive option" where
  "al_loop sortedUpdateEvent_p s =
     (case sortedUpdateEvent_p of
        None \<Rightarrow> Some s
      | Some e \<Rightarrow>
          (let (isEvaluationEvent, s) = al_iteration e s
           in if isEvaluationEvent then al_loop sortedUpdateEvent_p s
              else do {
                (e', b) \<leftarrow> tsb_getNextElement (al_buffer s);
                al_loop e' (s\<lparr>al_buffer := b\<rparr>)
              }))"

definition al_handleDataLossReaction :: "Alive \<Rightarrow> Alive" where
  "al_handleDataLossReaction s =
     (let s = (if aliveStatus s \<noteq> C_expired then al_switchToExpired kDataLoss s else s)
      in s\<lparr>al_buffer := tsb_clear (al_buffer s),
           processTracker := setAllProcessesActive (processTracker s),
           dataLossReason := kNoDataLoss\<rparr>)"

definition al_evaluate :: "NanoSecondType \<Rightarrow> Alive \<Rightarrow> Alive option" where
  "al_evaluate f_syncTimestamp s = do {
     s \<leftarrow> al_storeSyncEvent f_syncTimestamp s;
     if dataLossReason s \<noteq> kNoDataLoss
     then Some ((al_handleDataLossReaction s)\<lparr>al_lastSyncTimestamp := f_syncTimestamp\<rparr>)
     else do {
       (e, b) \<leftarrow> tsb_getNextElement (al_buffer s);
       s \<leftarrow> al_loop e (s\<lparr>al_buffer := b\<rparr>);
       Some (s\<lparr>al_buffer := tsb_clear (al_buffer s), al_lastSyncTimestamp := f_syncTimestamp\<rparr>)
     }
   }"

subsection \<open>What the operations leave alone\<close>

text \<open>The configuration, the buffer and the last synchronisation time.\<close>

definition al_const where
  "al_const s = (k_aliveReferenceCycle s, k_minAliveIndications s, k_maxAliveIndications s,
     (al_isMinCheckDisabled s, al_isMaxCheckDisabled s, k_failedSupervisionCyclesTolerance s),
     al_buffer s, al_lastSyncTimestamp s, aliveProcess s)"

lemmas al_switch_defs = al_switchToDeactivated_def al_switchToOk_def al_switchToExpired_def
  al_switchToFailed_def al_pushResultToObservers_def setReferenceCycleTimestamps_def setNextCycle_def
  incIndicationCount_def getProcessExecutionErrorForProcess_def

lemmas al_transition_defs = evaluateRefCycleOutOfOk_def evaluateRefCycleOutOfFailed_def
  al_checkTransitionsOutOfDeactivated_def al_checkTransitionsToDeactivated_def
  al_checkForRecoveryTransition_def al_checkTransitionsOutOfOk_def al_checkTransitionsOutOfFailed_def

lemma al_const_switch [simp]:
  "al_const (al_pushResultToObservers s) = al_const s"
  "al_const (al_switchToDeactivated s) = al_const s"
  "al_const (al_switchToOk s) = al_const s"
  "al_const (al_switchToExpired r s) = al_const s"
  "al_const (snd (setReferenceCycleTimestamps t s)) = al_const s"
  "al_const (setNextCycle s) = al_const s"
  "al_const (al_switchToFailed s) = al_const s"
  "al_const (incIndicationCount t s) = al_const s"
  by (simp_all add: al_switch_defs al_const_def Let_def split: option.split)

lemma al_const_update [simp]:
  "al_const (s\<lparr>al_eventTimestamp := t\<rparr>) = al_const s"
  "al_const (s\<lparr>failedSupervisionCycles := n\<rparr>) = al_const s"
  "al_const (s\<lparr>aliveStatus := st\<rparr>) = al_const s"
  "al_const (s\<lparr>indicationCount := n\<rparr>) = al_const s"
  by (simp_all add: al_const_def)

lemma al_const_getEventType [simp]: "al_const (snd (getEventType e s)) = al_const (s :: Alive)"
  by (cases e) (simp_all add: al_const_def Let_def setProcessExecutionErrorForProcess_def split: prod.split)

lemma al_const_transition [simp]:
  "al_const (evaluateRefCycleOutOfOk s) = al_const s"
  "al_const (evaluateRefCycleOutOfFailed s) = al_const s"
  "al_const (al_checkTransitionsOutOfDeactivated u t s) = al_const s"
  "al_const (al_checkTransitionsToDeactivated u t s) = al_const s"
  "al_const (snd (al_checkForRecoveryTransition u t s)) = al_const s"
  by (simp_all add: al_transition_defs Let_def case_prod_beta)

lemma al_const_transition2 [simp]:
  "al_const (al_checkTransitionsOutOfOk u t s) = al_const s"
  "al_const (al_checkTransitionsOutOfFailed u t s) = al_const s"
  by (simp_all add: al_checkTransitionsOutOfOk_def al_checkTransitionsOutOfFailed_def)

lemma al_const_dispatch [simp]: "al_const (al_dispatch u t s) = al_const s"
  by (simp add: al_dispatch_def Let_def case_prod_beta split: CStatus.split)

lemma al_iteration_evaluation:
  "detectEvaluationEvent (getTimestampOfUpdateEvent e) e s \<Longrightarrow>
   al_iteration e s = (True, al_dispatch kEvaluation (referenceCycleEnd s) (s\<lparr>al_eventTimestamp := referenceCycleEnd s\<rparr>))"
  by (simp add: al_iteration_def getAliveEventType_def)

lemma al_iteration_event:
  "\<not> detectEvaluationEvent (getTimestampOfUpdateEvent e) e s \<Longrightarrow>
   al_iteration e s = (False, al_dispatch (fst (getEventType e s)) (getTimestampOfUpdateEvent e) (snd (getEventType e s)))"
  by (simp add: al_iteration_def getAliveEventType_def case_prod_beta Let_def)

lemma al_const_iteration [simp]: "al_const (snd (al_iteration e s)) = al_const s"
  by (cases "detectEvaluationEvent (getTimestampOfUpdateEvent e) e s")
    (simp_all add: al_iteration_evaluation al_iteration_event)

subsection \<open>The invariant of the state machine\<close>

text \<open>
  The reference cycle is an interval of the configured length while the supervision is active, and
  is reset otherwise; the failed-cycle counter is zero in \<open>ok\<close>, between one and the tolerance in
  \<open>failed\<close>, and equal to the tolerance in \<open>expired\<close>. The end of the cycle never wraps around.
\<close>

definition al_cycle_ok :: "Alive \<Rightarrow> bool" where
  "al_cycle_ok s \<longleftrightarrow> unat (referenceCycleEnd s) = unat (referenceCycleStart s) + unat (k_aliveReferenceCycle s)"

definition al_idle :: "Alive \<Rightarrow> bool" where
  "al_idle s \<longleftrightarrow> indicationCount s = 0 \<and> referenceCycleStart s = 0 \<and> referenceCycleEnd s = UINT64_MAX"

definition al_core :: "Alive \<Rightarrow> bool" where
  "al_core s = (case aliveStatus s of
     C_deactivated \<Rightarrow> failedSupervisionCycles s = 0 \<and> al_idle s
   | C_ok \<Rightarrow> failedSupervisionCycles s = 0 \<and> al_cycle_ok s
   | C_failed \<Rightarrow> 1 \<le> failedSupervisionCycles s \<and>
       failedSupervisionCycles s \<le> k_failedSupervisionCyclesTolerance s \<and> al_cycle_ok s
   | C_expired \<Rightarrow> failedSupervisionCycles s = k_failedSupervisionCyclesTolerance s \<and> al_idle s)"

lemma al_core_eventTimestamp [simp]: "al_core (s\<lparr>al_eventTimestamp := t\<rparr>) = al_core s"
  by (simp add: al_core_def al_idle_def al_cycle_ok_def split: CStatus.split)

lemma al_core_buffer [simp]: "al_core (s\<lparr>al_buffer := b\<rparr>) = al_core s"
  by (simp add: al_core_def al_idle_def al_cycle_ok_def split: CStatus.split)

lemma al_core_pushResult [simp]: "al_core (al_pushResultToObservers s) = al_core s"
  by (simp add: al_pushResultToObservers_def al_core_def al_idle_def al_cycle_ok_def split: CStatus.split)

lemma al_switchToExpired_core [simp]:
  "aliveStatus (al_switchToExpired r s) = C_expired" "al_core (al_switchToExpired r s)"
  by (simp_all add: al_switch_defs al_core_def al_idle_def Let_def split: option.split)

lemma al_switchToDeactivated_core [simp]:
  "aliveStatus (al_switchToDeactivated s) = C_deactivated" "al_core (al_switchToDeactivated s)"
  by (simp_all add: al_switch_defs al_core_def al_idle_def)

lemma setReferenceCycleTimestamps_overflow:
  "\<not> unat t + unat (k_aliveReferenceCycle s) < 2 ^ 64 \<Longrightarrow>
   setReferenceCycleTimestamps t s = (True, al_switchToExpired kOverflow (s\<lparr>al_eventTimestamp := UINT64_MAX\<rparr>))"
  using not_gt_max_sub_iff [of "k_aliveReferenceCycle s" t]
  by (simp add: setReferenceCycleTimestamps_def max_absorb2)

lemma setReferenceCycleTimestamps_fits:
  "unat t + unat (k_aliveReferenceCycle s) < 2 ^ 64 \<Longrightarrow>
   setReferenceCycleTimestamps t s =
     (False, s\<lparr>referenceCycleStart := t, referenceCycleEnd := t + k_aliveReferenceCycle s\<rparr>)"
  using not_gt_max_sub_iff [of "k_aliveReferenceCycle s" t] by (simp add: setReferenceCycleTimestamps_def)

text \<open>The next cycle starts where the current one ends, unless its end would not fit into 64 bits.\<close>

lemma setNextCycle_fits:
  "unat (referenceCycleEnd s) + unat (k_aliveReferenceCycle s) < 2 ^ 64 \<Longrightarrow>
   setNextCycle s = s\<lparr>referenceCycleStart := referenceCycleEnd s,
     referenceCycleEnd := referenceCycleEnd s + k_aliveReferenceCycle s, indicationCount := 0\<rparr>"
  by (simp add: setNextCycle_def setReferenceCycleTimestamps_fits)

lemma setNextCycle_overflow:
  "\<not> unat (referenceCycleEnd s) + unat (k_aliveReferenceCycle s) < 2 ^ 64 \<Longrightarrow>
   setNextCycle s = al_switchToExpired kOverflow (s\<lparr>al_eventTimestamp := UINT64_MAX\<rparr>)"
  by (simp add: setNextCycle_def setReferenceCycleTimestamps_overflow)

lemma setNextCycle_core:
  assumes "al_core s" "aliveStatus s = C_ok \<or> aliveStatus s = C_failed"
  shows "al_core (setNextCycle s)"
proof (cases "unat (referenceCycleEnd s) + unat (k_aliveReferenceCycle s) < 2 ^ 64")
  case True
  with assms show ?thesis
    by (auto simp: setNextCycle_fits al_core_def al_cycle_ok_def unat_add_no_wrap64)
qed (simp add: setNextCycle_overflow)

lemma al_switchToOk_core: "al_cycle_ok s \<Longrightarrow> al_core (al_switchToOk s)"
  by (simp add: al_switchToOk_def al_pushResultToObservers_def al_core_def al_cycle_ok_def)

lemma setReference_switchToOk_core:
  "al_core (al_checkTransitionsOutOfDeactivated kActivation t s)"
proof (cases "unat t + unat (k_aliveReferenceCycle s) < 2 ^ 64")
  case True
  then show ?thesis
    by (auto simp: al_checkTransitionsOutOfDeactivated_def setReferenceCycleTimestamps_fits al_cycle_ok_def
        unat_add_no_wrap64 intro!: al_switchToOk_core)
qed (simp add: al_checkTransitionsOutOfDeactivated_def setReferenceCycleTimestamps_overflow)

lemma al_switchToFailed_core:
  assumes "al_core s" "aliveStatus s = C_ok" "failedSupervisionCycles s < k_failedSupervisionCyclesTolerance s"
  shows "al_core (al_switchToFailed s)"
proof -
  let ?s = "al_pushResultToObservers (s\<lparr>aliveStatus := C_failed, failedSupervisionCycles := failedSupervisionCycles s + 1\<rparr>)"
  have "al_core ?s" "aliveStatus ?s = C_failed"
    using assms by (auto simp: al_core_def al_cycle_ok_def al_pushResultToObservers_def
        word_le_nat_alt word_less_nat_alt)
  then show ?thesis by (simp add: al_switchToFailed_def setNextCycle_core)
qed

lemma evaluateRefCycleOutOfOk_core:
  "al_core s \<Longrightarrow> aliveStatus s = C_ok \<Longrightarrow> al_core (evaluateRefCycleOutOfOk s)"
  by (simp add: evaluateRefCycleOutOfOk_def al_switchToFailed_core setNextCycle_core)

lemma evaluateRefCycleOutOfFailed_core:
  assumes "al_core s" "aliveStatus s = C_failed"
  shows "al_core (evaluateRefCycleOutOfFailed s)"
proof -
  have "al_core (s\<lparr>failedSupervisionCycles := failedSupervisionCycles s + 1\<rparr>)"
    if "failedSupervisionCycles s \<noteq> UINT32_MAX"
      "failedSupervisionCycles s + 1 \<le> k_failedSupervisionCyclesTolerance s"
    using assms that by (auto simp: al_core_def al_cycle_ok_def word_le_nat_alt unat_Suc_word32)
  moreover have "al_core (s\<lparr>failedSupervisionCycles := failedSupervisionCycles s - 1\<rparr>)"
    if "\<not> failedSupervisionCycles s \<le> 1"
  proof -
    have "failedSupervisionCycles s \<noteq> 0" using that by auto
    with assms that show ?thesis
      by (auto simp: al_core_def al_cycle_ok_def word_le_nat_alt unat_pred_word32)
  qed
  moreover have "al_core (al_switchToOk s)" "aliveStatus (al_switchToOk s) = C_ok"
    using assms by (auto simp: al_core_def al_switchToOk_def al_pushResultToObservers_def al_cycle_ok_def)
  ultimately show ?thesis
    using assms by (simp add: evaluateRefCycleOutOfFailed_def setNextCycle_core Let_def)
qed

lemma incIndicationCount_core:
  "al_core s \<Longrightarrow> aliveStatus s = C_ok \<or> aliveStatus s = C_failed \<Longrightarrow> al_core (incIndicationCount t s)"
  by (cases "indicationCount s = UINT32_MAX") (auto simp: incIndicationCount_def al_core_def al_cycle_ok_def
      simp del: al_switchToExpired_core intro: al_switchToExpired_core(2) [unfolded al_core_def])

lemma al_dispatch_core: "al_core s \<Longrightarrow> al_core (al_dispatch u t s)"
proof -
  assume s: "al_core s"
  let ?s = "case aliveStatus s of
     C_deactivated \<Rightarrow> al_checkTransitionsOutOfDeactivated u t s
   | C_ok \<Rightarrow> al_checkTransitionsOutOfOk u t s
   | C_failed \<Rightarrow> al_checkTransitionsOutOfFailed u t s
   | C_expired \<Rightarrow> s"
  have "al_core ?s"
    using s setReference_switchToOk_core [of t s]
    by (auto simp: al_checkTransitionsOutOfDeactivated_def al_checkTransitionsOutOfOk_def
        al_checkTransitionsOutOfFailed_def evaluateRefCycleOutOfOk_core evaluateRefCycleOutOfFailed_core
        incIndicationCount_core split: CStatus.split)
  then show ?thesis
    by (simp add: al_dispatch_def Let_def case_prod_beta al_checkForRecoveryTransition_def
        setReference_switchToOk_core al_checkTransitionsToDeactivated_def)
qed

lemma al_core_getEventType [simp]: "al_core (snd (getEventType e s)) = al_core s"
  by (cases e) (simp_all add: Let_def setProcessExecutionErrorForProcess_def al_core_def al_idle_def
      al_cycle_ok_def split: prod.split CStatus.split)

lemma al_iteration_core: "al_core s \<Longrightarrow> al_core (snd (al_iteration e s))"
  by (cases "detectEvaluationEvent (getTimestampOfUpdateEvent e) e s")
    (simp_all add: al_iteration_evaluation al_iteration_event al_dispatch_core)

text \<open>No part of the state machine looks at the buffer.\<close>

lemma al_buffer_switch [simp]:
  "al_pushResultToObservers (s\<lparr>al_buffer := b\<rparr>) = (al_pushResultToObservers s)\<lparr>al_buffer := b\<rparr>"
  "al_switchToDeactivated (s\<lparr>al_buffer := b\<rparr>) = (al_switchToDeactivated s)\<lparr>al_buffer := b\<rparr>"
  "al_switchToOk (s\<lparr>al_buffer := b\<rparr>) = (al_switchToOk s)\<lparr>al_buffer := b\<rparr>"
  "al_switchToExpired r (s\<lparr>al_buffer := b\<rparr>) = (al_switchToExpired r s)\<lparr>al_buffer := b\<rparr>"
  "setNextCycle (s\<lparr>al_buffer := b\<rparr>) = (setNextCycle s)\<lparr>al_buffer := b\<rparr>"
  "al_switchToFailed (s\<lparr>al_buffer := b\<rparr>) = (al_switchToFailed s)\<lparr>al_buffer := b\<rparr>"
  "incIndicationCount t (s\<lparr>al_buffer := b\<rparr>) = (incIndicationCount t s)\<lparr>al_buffer := b\<rparr>"
  "al_checkTransitionsOutOfDeactivated u t (s\<lparr>al_buffer := b\<rparr>) =
     (al_checkTransitionsOutOfDeactivated u t s)\<lparr>al_buffer := b\<rparr>"
  by (simp_all add: al_switch_defs al_checkTransitionsOutOfDeactivated_def Let_def split: option.split)

lemma al_buffer_transition [simp]:
  "evaluateRefCycleOutOfOk (s\<lparr>al_buffer := b\<rparr>) = (evaluateRefCycleOutOfOk s)\<lparr>al_buffer := b\<rparr>"
  "evaluateRefCycleOutOfFailed (s\<lparr>al_buffer := b\<rparr>) = (evaluateRefCycleOutOfFailed s)\<lparr>al_buffer := b\<rparr>"
  "al_checkTransitionsToDeactivated u t (s\<lparr>al_buffer := b\<rparr>) =
     (al_checkTransitionsToDeactivated u t s)\<lparr>al_buffer := b\<rparr>"
  "al_checkForRecoveryTransition u t (s\<lparr>al_buffer := b\<rparr>) =
     map_prod id (\<lambda>s. s\<lparr>al_buffer := b\<rparr>) (al_checkForRecoveryTransition u t s)"
proof -
  have c: "s\<lparr>al_buffer := b, failedSupervisionCycles := n\<rparr> = s\<lparr>failedSupervisionCycles := n, al_buffer := b\<rparr>"
    "s\<lparr>al_buffer := b, al_eventTimestamp := t\<rparr> = s\<lparr>al_eventTimestamp := t, al_buffer := b\<rparr>" for n t by simp_all
  show "evaluateRefCycleOutOfOk (s\<lparr>al_buffer := b\<rparr>) = (evaluateRefCycleOutOfOk s)\<lparr>al_buffer := b\<rparr>"
    by (simp add: evaluateRefCycleOutOfOk_def isMinError_def isMaxError_def)
  show "evaluateRefCycleOutOfFailed (s\<lparr>al_buffer := b\<rparr>) = (evaluateRefCycleOutOfFailed s)\<lparr>al_buffer := b\<rparr>"
    by (simp add: evaluateRefCycleOutOfFailed_def isMinError_def isMaxError_def Let_def c)
  show "al_checkTransitionsToDeactivated u t (s\<lparr>al_buffer := b\<rparr>) =
     (al_checkTransitionsToDeactivated u t s)\<lparr>al_buffer := b\<rparr>"
    by (simp add: al_checkTransitionsToDeactivated_def c)
  show "al_checkForRecoveryTransition u t (s\<lparr>al_buffer := b\<rparr>) =
     map_prod id (\<lambda>s. s\<lparr>al_buffer := b\<rparr>) (al_checkForRecoveryTransition u t s)"
    by (simp add: al_checkForRecoveryTransition_def)
qed

lemma al_buffer_dispatch [simp]:
  "al_dispatch u t (s\<lparr>al_buffer := b\<rparr>) = (al_dispatch u t s)\<lparr>al_buffer := b\<rparr>"
  by (simp add: al_dispatch_def Let_def case_prod_beta al_checkTransitionsOutOfOk_def
      al_checkTransitionsOutOfFailed_def split: CStatus.split)

lemma al_buffer_getEventType [simp]:
  "getEventType e (s\<lparr>al_buffer := b\<rparr>) = map_prod id (\<lambda>s. s\<lparr>al_buffer := b\<rparr>) (getEventType e (s :: Alive))"
  by (cases e) (simp_all add: Let_def setProcessExecutionErrorForProcess_def split: prod.split)

lemma al_buffer_iteration:
  "al_iteration e (s\<lparr>al_buffer := b\<rparr>) = map_prod id (\<lambda>s. s\<lparr>al_buffer := b\<rparr>) (al_iteration e s)"
proof -
  have d: "detectEvaluationEvent t e (s\<lparr>al_buffer := b\<rparr>) = detectEvaluationEvent t e s" for t
    by (simp add: detectEvaluationEvent_def)
  have c: "s\<lparr>al_buffer := b, al_eventTimestamp := t\<rparr> = s\<lparr>al_eventTimestamp := t, al_buffer := b\<rparr>" for t by simp
  show ?thesis
    by (cases "detectEvaluationEvent (getTimestampOfUpdateEvent e) e s")
      (simp_all add: al_iteration_evaluation al_iteration_event d c)
qed

subsection \<open>The loop ends\<close>

text \<open>
  Evaluation events only happen while the supervision is active, and each one moves the end of the
  reference cycle forward by a non-zero amount or leaves the active states. So at most
  \<open>2 ^ 64 - unat referenceCycleEnd\<close> of them happen in a row.
\<close>

definition al_active :: "Alive \<Rightarrow> bool" where
  "al_active s \<longleftrightarrow> aliveStatus s = C_ok \<or> aliveStatus s = C_failed"

definition al_measure :: "Alive \<Rightarrow> nat" where
  "al_measure s = (if al_active s then 2 ^ 64 - unat (referenceCycleEnd s) else 0)"

lemma detectEvaluationEvent_active: "detectEvaluationEvent t e s \<Longrightarrow> al_active s"
  by (cases "aliveStatus s") (auto simp: detectEvaluationEvent_def al_active_def)

lemma setNextCycle_measure:
  assumes "al_active s" "k_aliveReferenceCycle s \<noteq> 0"
  shows "al_measure (setNextCycle s) < al_measure s"
proof (cases "unat (referenceCycleEnd s) + unat (k_aliveReferenceCycle s) < 2 ^ 64")
  case True
  moreover have "0 < unat (k_aliveReferenceCycle s)" using assms(2) by (simp add: unat_gt_0)
  ultimately show ?thesis
    using assms(1) by (auto simp: setNextCycle_fits al_measure_def al_active_def unat_add_no_wrap64)
next
  case False
  then show ?thesis
    using assms(1) unsigned_less [of "referenceCycleEnd s"]
    by (simp add: setNextCycle_overflow al_measure_def al_active_def)
qed

lemma al_measure_expired [simp]: "al_active s \<Longrightarrow> al_measure (al_switchToExpired r s') < al_measure s"
  using unsigned_less [of "referenceCycleEnd s"] by (simp add: al_measure_def al_active_def)

lemma al_dispatch_evaluation:
  "al_active s \<Longrightarrow> al_dispatch kEvaluation t s =
     (if aliveStatus s = C_ok then evaluateRefCycleOutOfOk s else evaluateRefCycleOutOfFailed s)"
  by (auto simp: al_active_def al_dispatch_def Let_def al_checkTransitionsOutOfOk_def
      al_checkTransitionsOutOfFailed_def al_checkForRecoveryTransition_def al_checkTransitionsToDeactivated_def)

text \<open>The states a cycle evaluation hands to \<open>setNextCycle\<close> have the same cycle end.\<close>

lemma setNextCycle_measure_from:
  assumes "al_active s" "k_aliveReferenceCycle s \<noteq> 0" "al_active s'"
    "referenceCycleEnd s' = referenceCycleEnd s" "k_aliveReferenceCycle s' = k_aliveReferenceCycle s"
  shows "al_measure (setNextCycle s') < al_measure s"
  using setNextCycle_measure [of s'] assms by (simp add: al_measure_def)

lemma evaluateRefCycle_measure:
  assumes "al_active s" "k_aliveReferenceCycle s \<noteq> 0"
  shows "al_measure (evaluateRefCycleOutOfOk s) < al_measure s"
    and "al_measure (evaluateRefCycleOutOfFailed s) < al_measure s"
  using assms
  by (auto simp: evaluateRefCycleOutOfOk_def evaluateRefCycleOutOfFailed_def al_switchToFailed_def Let_def
      al_switchToOk_def al_pushResultToObservers_def al_active_def intro!: setNextCycle_measure_from)

lemma al_iteration_measure:
  assumes "detectEvaluationEvent (getTimestampOfUpdateEvent e) e s" "k_aliveReferenceCycle s \<noteq> 0"
  shows "al_measure (snd (al_iteration e s)) < al_measure s"
proof -
  let ?s = "s\<lparr>al_eventTimestamp := referenceCycleEnd s\<rparr>"
  have act: "al_active ?s" and "al_measure ?s = al_measure s"
    using detectEvaluationEvent_active [OF assms(1)] by (simp_all add: al_active_def al_measure_def)
  then show ?thesis
    using evaluateRefCycle_measure [OF act] assms
    by (simp add: al_iteration_evaluation al_dispatch_evaluation)
qed

text \<open>
  The effect of one buffered event: cycle evaluations first, as long as a cycle ends before the
  event, then the event itself.
\<close>

partial_function (option) al_event :: "TimeSortedUpdateEvent \<Rightarrow> Alive \<Rightarrow> Alive option" where
  "al_event e s = (let (isEvaluationEvent, s) = al_iteration e s
                   in if isEvaluationEvent then al_event e s else Some s)"

lemma al_const_cycle: "al_const s' = al_const s \<Longrightarrow> k_aliveReferenceCycle s' = k_aliveReferenceCycle s"
  and al_const_al_buffer: "al_const s' = al_const s \<Longrightarrow> al_buffer s' = al_buffer s"
  by (simp_all add: al_const_def)

lemma al_event_ends:
  assumes "al_core s" "k_aliveReferenceCycle s \<noteq> 0"
  shows "\<exists>s'. al_event e s = Some s' \<and> al_core s' \<and> al_const s' = al_const s \<and>
    (\<forall>b. al_event e (s\<lparr>al_buffer := b\<rparr>) = Some (s'\<lparr>al_buffer := b\<rparr>)) \<and>
    al_loop (Some e) s = do { (e', b) \<leftarrow> tsb_getNextElement (al_buffer s'); al_loop e' (s'\<lparr>al_buffer := b\<rparr>) }"
  using assms
proof (induction "al_measure s" arbitrary: s rule: less_induct)
  case less
  obtain ev s1 where it: "al_iteration e s = (ev, s1)" by (cases "al_iteration e s")
  then have s1: "al_core s1" "al_const s1 = al_const s"
    using less.prems al_iteration_core [of s e] al_const_iteration [of e s] by simp_all
  show ?case
  proof (cases "detectEvaluationEvent (getTimestampOfUpdateEvent e) e s")
    case True
    then have ev using it by (simp add: al_iteration_evaluation)
    then have "al_event e s = al_event e s1" and "al_loop (Some e) s = al_loop (Some e) s1"
      and "\<And>b. al_event e (s\<lparr>al_buffer := b\<rparr>) = al_event e (s1\<lparr>al_buffer := b\<rparr>)"
      using it by (subst al_event.simps, simp, subst al_loop.simps, simp, subst al_event.simps,
          simp add: al_buffer_iteration)
    moreover have "al_measure s1 < al_measure s"
      using al_iteration_measure [OF True] less.prems it by simp
    ultimately show ?thesis
      using less.hyps [of s1] s1 less.prems al_const_cycle [OF s1(2)] by simp
  next
    case False
    then have "\<not> ev" using it by (simp add: al_iteration_event)
    then show ?thesis
      using it s1 by (subst al_loop.simps) (simp add: al_event.simps al_buffer_iteration)
  qed
qed

lemma al_events_end:
  assumes "al_core s" "k_aliveReferenceCycle s \<noteq> 0"
  shows "\<exists>s'. fold_opt al_event es s = Some s' \<and> al_core s' \<and> al_const s' = al_const s \<and>
    (\<forall>b. fold_opt al_event es (s\<lparr>al_buffer := b\<rparr>) = Some (s'\<lparr>al_buffer := b\<rparr>))"
  using assms
proof (induction es arbitrary: s)
  case (Cons e es)
  obtain s1 where s1: "al_event e s = Some s1" "al_core s1" "al_const s1 = al_const s"
    "\<And>b. al_event e (s\<lparr>al_buffer := b\<rparr>) = Some (s1\<lparr>al_buffer := b\<rparr>)"
    using al_event_ends [OF Cons.prems, of e] by blast
  then show ?case using Cons.IH [OF s1(2)] Cons.prems al_const_cycle [OF s1(3)] by simp
qed simp

text \<open>The loop is the fold of \<open>al_event\<close> over what the buffer still has to report.\<close>

lemma al_loop_fold:
  assumes "al_core s" "k_aliveReferenceCycle s \<noteq> 0" "tsb_inv (al_buffer s)"
  shows "\<exists>s' b'. fold_opt al_event (tsb_remaining (al_buffer s)) s = Some s' \<and> tsb_inv b' \<and>
    tsb_capacity b' = tsb_capacity (al_buffer s) \<and> al_core s' \<and> al_const s' = al_const s \<and>
    do { (e, b) \<leftarrow> tsb_getNextElement (al_buffer s); al_loop e (s\<lparr>al_buffer := b\<rparr>) } = Some (s'\<lparr>al_buffer := b'\<rparr>)"
  using assms
proof (induction "tsb_remaining (al_buffer s)" arbitrary: s)
  case Nil
  then have "tsb_getNextElement (al_buffer s) = Some (None, al_buffer s)"
    by (simp add: tsb_getNextElement_None)
  with Nil show ?case by (intro exI [of _ s] exI [of _ "al_buffer s"]) (simp add: al_loop.simps)
next
  case (Cons e es)
  then obtain b1 where b1: "tsb_getNextElement (al_buffer s) = Some (Some e, b1)" "tsb_inv b1"
    "tsb_remaining b1 = es" "tsb_capacity b1 = tsb_capacity (al_buffer s)"
    using tsb_getNextElement_Some [of "al_buffer s" e es] by auto
  let ?s = "s\<lparr>al_buffer := b1\<rparr>"
  obtain s1 where s1: "al_event e s = Some s1" "al_event e ?s = Some (s1\<lparr>al_buffer := b1\<rparr>)" "al_core s1"
    "al_const s1 = al_const s"
    using al_event_ends [of s e] Cons.prems by blast
  let ?s1 = "s1\<lparr>al_buffer := b1\<rparr>"
  have loop: "al_loop (Some e) ?s = do { (e', b) \<leftarrow> tsb_getNextElement b1; al_loop e' (?s1\<lparr>al_buffer := b\<rparr>) }"
    using al_event_ends [of ?s e] Cons.prems s1(2) by auto
  obtain s2 b2 where "fold_opt al_event es ?s1 = Some s2" "tsb_inv b2" "tsb_capacity b2 = tsb_capacity b1"
    "al_core s2" "al_const s2 = al_const ?s1"
    "do { (e, b) \<leftarrow> tsb_getNextElement b1; al_loop e (?s1\<lparr>al_buffer := b\<rparr>) } = Some (s2\<lparr>al_buffer := b2\<rparr>)"
    using Cons(1) [of ?s1] b1 s1 Cons.prems al_const_cycle [OF s1(4)] by auto
  moreover obtain s3 where "fold_opt al_event es s1 = Some s3" "al_core s3" "al_const s3 = al_const s1"
    "fold_opt al_event es ?s1 = Some (s3\<lparr>al_buffer := b1\<rparr>)"
    using al_events_end [OF s1(3), of es] Cons.prems al_const_cycle [OF s1(4)] by auto
  ultimately show ?case
    using b1 s1 loop Cons(2) [symmetric] by (intro exI [of _ s3] exI [of _ b2]) auto
qed

subsection \<open>The invariant of the supervision\<close>

lemma al_tracker_switch [simp]:
  "processTracker (al_pushResultToObservers s) = processTracker s"
  "processTracker (al_switchToDeactivated s) = processTracker s"
  "processTracker (al_switchToOk s) = processTracker s"
  "processTracker (al_switchToExpired r s) = processTracker s"
  "processTracker (snd (setReferenceCycleTimestamps t s)) = processTracker s"
  "processTracker (setNextCycle s) = processTracker s"
  "processTracker (al_switchToFailed s) = processTracker s"
  "processTracker (incIndicationCount t s) = processTracker s"
  by (simp_all add: al_switch_defs Let_def split: option.split)

lemma al_tracker_transition [simp]:
  "processTracker (evaluateRefCycleOutOfOk s) = processTracker s"
  "processTracker (evaluateRefCycleOutOfFailed s) = processTracker s"
  "processTracker (al_checkTransitionsOutOfDeactivated u t s) = processTracker s"
  "processTracker (al_checkTransitionsToDeactivated u t s) = processTracker s"
  "processTracker (snd (al_checkForRecoveryTransition u t s)) = processTracker s"
  by (simp_all add: al_transition_defs Let_def case_prod_beta)

lemma al_tracker_dispatch [simp]: "processTracker (al_dispatch u t s) = processTracker s"
  by (simp add: al_dispatch_def Let_def case_prod_beta al_checkTransitionsOutOfOk_def
      al_checkTransitionsOutOfFailed_def split: CStatus.split)

lemma al_iteration_tracker_inv: "sup_tracker_inv s \<Longrightarrow> sup_tracker_inv (snd (al_iteration e s))"
  by (cases "detectEvaluationEvent (getTimestampOfUpdateEvent e) e s")
    (simp_all add: al_iteration_evaluation al_iteration_event getEventType_tracker_inv)

text \<open>An invariant of the iterations is an invariant of the whole scan.\<close>

lemma al_event_invariant:
  assumes "\<And>s. P s \<Longrightarrow> P (snd (al_iteration e s))" "al_event e s = Some s'" "P s"
  shows "P s'"
proof -
  have "e = e \<longrightarrow> P s \<longrightarrow> P s'"
  proof (rule al_event.raw_induct [where P = "\<lambda>e' s s'. e' = e \<longrightarrow> P s \<longrightarrow> P s'", OF _ assms(2)])
    fix f e' s s'
    assume IH: "\<And>e' s s'. f e' s = Some s' \<Longrightarrow> e' = e \<longrightarrow> P s \<longrightarrow> P s'"
      and eq: "(let (isEvaluationEvent, s) = al_iteration e' s in if isEvaluationEvent then f e' s else Some s) = Some s'"
    obtain ev s1 where it: "al_iteration e s = (ev, s1)" by (cases "al_iteration e s")
    with assms(1) [of s] have "P s \<Longrightarrow> P s1" by simp
    with IH eq it show "e' = e \<longrightarrow> P s \<longrightarrow> P s'" by (cases ev) auto
  qed
  with assms(3) show ?thesis by simp
qed

lemma al_events_invariant:
  assumes "\<And>e s. e \<in> set es \<Longrightarrow> P s \<Longrightarrow> P (snd (al_iteration e s))" "fold_opt al_event es s = Some s'" "P s"
  shows "P s'"
  using assms
proof (induction es arbitrary: s)
  case (Cons e es)
  then obtain s1 where s1: "al_event e s = Some s1" "fold_opt al_event es s1 = Some s'"
    by (auto split: bind_splits)
  have "P s1" using al_event_invariant [of P e s s1] Cons.prems s1 by auto
  with Cons.IH [of s1] Cons.prems s1 show ?case by auto
qed simp

definition al_inv :: "Alive \<Rightarrow> bool" where
  "al_inv s \<longleftrightarrow> al_core s \<and> k_aliveReferenceCycle s \<noteq> 0 \<and> sup_tracker_inv s \<and>
     tsb_inv (al_buffer s) \<and> lastReportedElement_p (al_buffer s) = None"

lemma Alive_new_inv:
  "Alive_new cfg = Some s \<Longrightarrow> acfg_aliveReferenceCycle cfg \<noteq> 0 \<Longrightarrow> al_inv s \<and> aliveStatus s = C_deactivated"
  by (auto simp: Alive_new_def al_inv_def al_core_def al_idle_def split: list.splits)

text \<open>Recording an event either stores it in chronological order or records the data loss.\<close>

lemma al_push_stored:
  assumes "al_inv s" "length (tsb_contents (al_buffer s)) < tsb_capacity (al_buffer s)"
  shows "\<exists>b. al_push e t s = Some (s\<lparr>al_buffer := b\<rparr>) \<and> al_inv (s\<lparr>al_buffer := b\<rparr>) \<and>
    tsb_contents b = insert_stable fst (t, e) (tsb_contents (al_buffer s)) \<and>
    tsb_capacity b = tsb_capacity (al_buffer s)"
  using tsb.push_room [of "al_buffer s" e t] assms by (auto simp: al_push_def al_inv_def)

lemma al_push_lost:
  assumes "al_inv s" "\<not> length (tsb_contents (al_buffer s)) < tsb_capacity (al_buffer s)"
  shows "al_push e t s = Some (s\<lparr>dataLossReason := kBufferFull, al_eventTimestamp := al_lastSyncTimestamp s\<rparr>)"
  using tsb.push_full [of "al_buffer s" e t] assms by (simp add: al_push_def al_inv_def)

lemma al_core_dataLoss [simp]: "al_core (s\<lparr>dataLossReason := r\<rparr>) = al_core s"
  by (simp add: al_core_def al_idle_def al_cycle_ok_def split: CStatus.split)

lemma al_push_total: "al_inv s \<Longrightarrow> \<exists>s'. al_push e t s = Some s' \<and> al_inv s' \<and> aliveStatus s' = aliveStatus s"
proof (cases "length (tsb_contents (al_buffer s)) < tsb_capacity (al_buffer s)")
  case True
  assume "al_inv s"
  with al_push_stored [OF this True, of e t] show ?thesis by auto
next
  case False
  assume s: "al_inv s"
  then have "al_inv (s\<lparr>dataLossReason := kBufferFull, al_eventTimestamp := al_lastSyncTimestamp s\<rparr>)"
    by (simp add: al_inv_def)
  with al_push_lost [OF s False, of e t] show ?thesis by auto
qed

lemma al_handleDataLossReaction_inv:
  assumes "al_inv s"
  shows "al_inv (al_handleDataLossReaction s)" "aliveStatus (al_handleDataLossReaction s) = C_expired"
proof -
  let ?s = "if aliveStatus s \<noteq> C_expired then al_switchToExpired kDataLoss s else s"
  have s: "al_core ?s" "aliveStatus ?s = C_expired" "al_const ?s = al_const s" "processTracker ?s = processTracker s"
    using assms by (auto simp: al_inv_def)
  have "al_core (s'\<lparr>processTracker := t\<rparr>) = al_core s'" for s' t
    by (simp add: al_core_def al_idle_def al_cycle_ok_def split: CStatus.split)
  then show "al_inv (al_handleDataLossReaction s)"
    using assms s al_const_cycle [OF s(3)] al_const_al_buffer [OF s(3)]
    by (simp add: al_handleDataLossReaction_def al_inv_def Let_def)
  show "aliveStatus (al_handleDataLossReaction s) = C_expired"
    using s by (simp add: al_handleDataLossReaction_def Let_def)
qed

text \<open>Without data loss an evaluation is the fold over the buffered events with the sync event sorted in.\<close>

lemma al_evaluate_events:
  assumes "al_inv s" "dataLossReason s = kNoDataLoss"
    and "length (tsb_contents (al_buffer s)) < tsb_capacity (al_buffer s)"
    and es_def: "es = map snd (insert_stable fst (t, EvSync t) (tsb_contents (al_buffer s)))"
  shows "\<exists>s' b'. fold_opt al_event es s = Some s' \<and> al_core s' \<and> al_const s' = al_const s \<and> sup_tracker_inv s' \<and>
    tsb_inv b' \<and> tsb_capacity b' = tsb_capacity (al_buffer s) \<and>
    al_evaluate t s = Some (s'\<lparr>al_buffer := tsb_clear b', al_lastSyncTimestamp := t\<rparr>)"
proof -
  obtain b where b: "al_push (EvSync t) t s = Some (s\<lparr>al_buffer := b\<rparr>)" "al_inv (s\<lparr>al_buffer := b\<rparr>)"
    "map snd (tsb_contents b) = es" "tsb_capacity b = tsb_capacity (al_buffer s)"
    using al_push_stored [OF assms(1,3), of "EvSync t" t] by (auto simp: es_def)
  have rem: "tsb_remaining b = es"
    using b(2,3) by (simp add: al_inv_def tsb_fresh_remaining)
  obtain s2 b2 where s2: "fold_opt al_event es (s\<lparr>al_buffer := b\<rparr>) = Some s2" "tsb_inv b2"
    "tsb_capacity b2 = tsb_capacity b"
    "do { (e, b) \<leftarrow> tsb_getNextElement b; al_loop e (s\<lparr>al_buffer := b\<rparr>) } = Some (s2\<lparr>al_buffer := b2\<rparr>)"
    using al_loop_fold [of "s\<lparr>al_buffer := b\<rparr>"] b(2) rem by (auto simp: al_inv_def)
  obtain s1 where s1: "fold_opt al_event es s = Some s1" "al_core s1" "al_const s1 = al_const s"
    "fold_opt al_event es (s\<lparr>al_buffer := b\<rparr>) = Some (s1\<lparr>al_buffer := b\<rparr>)"
    using al_events_end [of s es] assms(1) by (auto simp: al_inv_def)
  have "sup_tracker_inv s1"
    using al_events_invariant [where P = sup_tracker_inv and es = es and s = s and s' = s1]
      al_iteration_tracker_inv s1(1) assms(1) by (simp add: al_inv_def)
  moreover have "al_evaluate t s = Some (s1\<lparr>al_buffer := tsb_clear b2, al_lastSyncTimestamp := t\<rparr>)"
    using b(1) s1(4) s2(1,4) assms(2) by (auto simp: al_evaluate_def al_storeSyncEvent_def split: bind_splits)
  ultimately show ?thesis using s1 s2 b by (intro exI [of _ s1] exI [of _ b2]) auto
qed

subsection \<open>An example supervision\<close>

text \<open>
  One process (index 7), active in process group state 1, reporting one to three times per cycle of
  100 ns, two failed cycles tolerated; and the same supervision activated at time 50.
\<close>

definition al_example_cfg :: AliveSupervisionCfg where
  "al_example_cfg = \<lparr>acfg_checkpointBufferSize = 4, acfg_refFuntionGroupStates = [1], acfg_refProcesses = [7],
     acfg_aliveReferenceCycle = 100, acfg_minAliveIndications = 1, acfg_maxAliveIndications = 3,
     acfg_isMinCheckDisabled = False, acfg_isMaxCheckDisabled = False, acfg_failedCyclesTolerance = 2\<rparr>"

definition al_example :: Alive where
  "al_example = the (Alive_new al_example_cfg)"

definition al_example_ok :: Alive where
  "al_example_ok = al_example\<lparr>aliveStatus := C_ok, referenceCycleStart := 50, referenceCycleEnd := 150,
     processTracker := setAllProcessesActive (processTracker al_example)\<rparr>"

lemma al_example_unfold:
  "Alive_new al_example_cfg = Some al_example" "al_buffer al_example = tsb_new 4"
  "k_aliveReferenceCycle al_example = 100" "k_failedSupervisionCyclesTolerance al_example = 2"
  "failedSupervisionCycles al_example = 0" "indicationCount al_example = 0" "aliveStatus al_example = C_deactivated"
  "al_isMinCheckDisabled al_example = False" "k_minAliveIndications al_example = 1"
  "dataLossReason al_example = kNoDataLoss"
  by (simp_all add: al_example_def Alive_new_def al_example_cfg_def)

lemma al_example_inv: "al_inv al_example" "al_inv al_example_ok"
proof -
  show *: "al_inv al_example"
    using Alive_new_inv [OF al_example_unfold(1)] by (simp add: al_example_cfg_def)
  then show "al_inv al_example_ok"
    by (simp add: al_example_ok_def al_inv_def al_core_def al_cycle_ok_def al_example_unfold)
qed

lemma al_example_buffer [simp]: "tsb_contents (al_buffer al_example) = []" "tsb_capacity (al_buffer al_example) = 4"
  by (simp_all add: al_example_unfold)

subsection \<open>Properties\<close>

lemma al_updateCheckpoint_inv: "al_inv s \<Longrightarrow> \<exists>s'. al_updateCheckpoint c cp s = Some s' \<and> al_inv s'"
  using al_push_total [of s "EvCheckpoint c (cp_timestamp cp)" "cp_timestamp cp"]
  by (auto simp: al_updateCheckpoint_def Let_def al_inv_def)

lemma al_updateProcessState_inv:
  assumes "al_inv s" "ProcessState_wf p"
  shows "\<exists>s'. al_updateProcessState a p s = Some s' \<and> al_inv s'"
proof -
  obtain err where err: "getProcessExecutionError p = Some err"
    using getProcessExecutionError_total [OF assms(2)] by blast
  let ?e = "EvProcess \<lparr>pss_identifier_p = a, pss_eProcState = eProcState p, pss_processGroupState = processGroupState p,
    pss_timestamp = ps_timestamp p, pss_executionError = err\<rparr>"
  show ?thesis
    using assms(1) err al_push_total [OF assms(1), of ?e "ps_timestamp p"]
    by (auto simp: al_updateProcessState_def Let_def)
qed

lemma al_evaluate_inv:
  assumes "al_inv s"
  shows "\<exists>s'. al_evaluate t s = Some s' \<and> al_inv s' \<and> tsb_contents (al_buffer s') = [] \<and>
    al_lastSyncTimestamp s' = t"
proof -
  have sync: "al_inv (s\<lparr>al_lastSyncTimestamp := t\<rparr>) = al_inv s" for s
    by (simp add: al_inv_def al_core_def al_idle_def al_cycle_ok_def split: CStatus.split)
  have lost: ?thesis if "al_push (EvSync t) t s = Some s1" "al_inv s1" "dataLossReason s1 \<noteq> kNoDataLoss" for s1
    using that al_handleDataLossReaction_inv(1) [OF that(2)]
    by (auto simp: al_evaluate_def al_storeSyncEvent_def sync) (simp add: al_handleDataLossReaction_def Let_def)
  show ?thesis
  proof (cases "length (tsb_contents (al_buffer s)) < tsb_capacity (al_buffer s)")
    case True
    show ?thesis
    proof (cases "dataLossReason s = kNoDataLoss")
      case ev: True
      obtain s' b' where s': "al_core s'" "al_const s' = al_const s" "sup_tracker_inv s'" "tsb_inv b'"
        "al_evaluate t s = Some (s'\<lparr>al_buffer := tsb_clear b', al_lastSyncTimestamp := t\<rparr>)"
        using al_evaluate_events [OF assms ev True refl, of t] by blast
      then show ?thesis
        using assms al_const_cycle [OF s'(2)] by (auto simp: sync) (simp add: al_inv_def)
    next
      case False
      with al_push_stored [OF assms True, of "EvSync t" t] show ?thesis by (auto intro: lost)
    qed
  next
    case False
    show ?thesis
      by (rule lost [OF al_push_lost [OF assms False]])
        (use assms in \<open>simp_all add: al_inv_def\<close>)
  qed
qed

text \<open>
  No operation of the alive supervision gets stuck: for a supervision with a non-zero reference
  cycle, recording a checkpoint or a change of a process with a well-formed configuration returns
  and keeps the invariant, and whatever events are buffered and whatever has been lost, an
  evaluation ends, keeps the invariant, empties the buffer and records the synchronisation time.
\<close>

theorem alive_evaluate_total:
  assumes "al_inv s" "ProcessState_wf p"
  shows "(\<exists>s'. al_updateCheckpoint c cp s = Some s' \<and> al_inv s') \<and>
    (\<exists>s'. al_updateProcessState a p s = Some s' \<and> al_inv s') \<and>
    (\<exists>s'. al_evaluate t s = Some s' \<and> al_inv s' \<and> tsb_contents (al_buffer s') = [] \<and> al_lastSyncTimestamp s' = t)"
  using al_updateCheckpoint_inv [OF assms(1)] al_updateProcessState_inv [OF assms] al_evaluate_inv [OF assms(1)] by blast

theorem alive_evaluate_total_witness:
  "\<exists>s'. al_evaluate 175 al_example_ok = Some s' \<and> al_inv s' \<and> tsb_contents (al_buffer s') = [] \<and>
    al_lastSyncTimestamp s' = 175"
proof -
  have "ProcessState_wf (ProcessState_new \<lparr>cfg_processShortName = ''p'', cfg_processId = 3,
      cfg_configuredProcessGroupStates = [1], cfg_processExecutionErrors = [1]\<rparr>)"
    by (simp add: ProcessState_wf_def ProcessState_new_def)
  from alive_evaluate_total [OF al_example_inv(2) this] show ?thesis by blast
qed

text \<open>The debouncing of failed cycles as an abstract counter.\<close>

datatype debounce = D_ok | D_failed nat | D_expired | D_off

fun debounce_step :: "nat \<Rightarrow> bool \<Rightarrow> debounce \<Rightarrow> debounce" where
  "debounce_step tol bad D_ok = (if \<not> bad then D_ok else if 0 < tol then D_failed 1 else D_expired)"
| "debounce_step tol bad (D_failed n) =
     (if bad then (if n < tol then D_failed (Suc n) else D_expired)
      else if n \<le> 1 then D_ok else D_failed (n - 1))"
| "debounce_step tol bad d = d"

definition al_debounce :: "Alive \<Rightarrow> debounce" where
  "al_debounce s = (case aliveStatus s of
     C_ok \<Rightarrow> D_ok | C_failed \<Rightarrow> D_failed (unat (failedSupervisionCycles s)) | C_expired \<Rightarrow> D_expired
   | C_deactivated \<Rightarrow> D_off)"

lemma al_debounce_setNextCycle:
  "unat (referenceCycleEnd s) + unat (k_aliveReferenceCycle s) < 2 ^ 64 \<Longrightarrow>
   al_debounce (setNextCycle s) = al_debounce s"
  by (simp add: setNextCycle_fits al_debounce_def split: CStatus.split)

text \<open>
  (C24) Evaluating a reference cycle is one step of the debounce counter, with the verdict that the
  number of indications is below the minimum or above the maximum; the counters of the code
  never wrap around on the way.
\<close>

theorem alive_cycle_refines_debounce:
  assumes "al_core s" "al_active s"
    and "unat (referenceCycleEnd s) + unat (k_aliveReferenceCycle s) < 2 ^ 64"
  shows "al_debounce (al_dispatch kEvaluation t s) =
    debounce_step (unat (k_failedSupervisionCyclesTolerance s)) (isMinError s \<or> isMaxError s) (al_debounce s)"
proof (cases "aliveStatus s = C_ok")
  case True
  then have "failedSupervisionCycles s = 0" using assms(1) by (simp add: al_core_def)
  then show ?thesis
    using True assms(2,3)
    by (auto simp: al_dispatch_evaluation evaluateRefCycleOutOfOk_def al_debounce_setNextCycle
        al_switchToFailed_def al_pushResultToObservers_def word_less_nat_alt)
      (auto simp: al_debounce_def)
next
  case False
  with assms(2) have st: "aliveStatus s = C_failed" by (simp add: al_active_def)
  let ?n = "failedSupervisionCycles s" and ?tol = "k_failedSupervisionCyclesTolerance s"
  have n: "0 < unat ?n" "unat ?n \<le> unat ?tol"
    using assms(1) st by (auto simp: al_core_def word_le_nat_alt)
  then have pred: "unat (?n - 1) = unat ?n - 1" by (intro unat_pred_word32) auto
  have max: "unat ?tol \<le> unat ?n" if "?n = UINT32_MAX"
    using that by (simp flip: word_le_nat_alt)
  show ?thesis
    using st assms(2,3) n max
    by (auto simp: al_dispatch_evaluation evaluateRefCycleOutOfFailed_def al_debounce_setNextCycle Let_def
        al_switchToOk_def al_pushResultToObservers_def word_le_nat_alt unat_Suc_word32 pred)
      (auto simp: al_debounce_def unat_Suc_word32 pred unsigned_minus_1_eq_mask mask_eq_exp_minus_1)
qed

theorem alive_cycle_refines_debounce_witness:
  "al_debounce (al_dispatch kEvaluation 150 al_example_ok) = D_failed 1"
proof -
  have "al_debounce (al_dispatch kEvaluation 150 al_example_ok) = debounce_step 2 True D_ok"
    using alive_cycle_refines_debounce [of al_example_ok 150] al_example_inv(2)
    by (simp add: al_inv_def al_active_def) (simp add: al_example_ok_def al_example_unfold isMinError_def al_debounce_def)
  then show ?thesis by simp
qed

lemma al_switchToExpired_timestamp [simp]:
  "al_eventTimestamp (al_switchToExpired r s) = al_eventTimestamp s"
  by (simp add: al_switch_defs Let_def split: option.split)

lemma al_event_expired_sync: "aliveStatus s = C_expired \<Longrightarrow> al_event (EvSync t) s = Some s"
  by (simp add: al_event.simps al_iteration_event detectEvaluationEvent_def al_dispatch_def
      al_checkForRecoveryTransition_def al_checkTransitionsToDeactivated_def)

lemma detectEvaluationEvent_sync:
  assumes "aliveStatus s = C_ok \<or> aliveStatus s = C_failed" "unat (referenceCycleEnd s) \<le> unat t"
  shows "detectEvaluationEvent t (EvSync t) s"
proof -
  have "referenceCycleEnd s \<le> t" using assms(2) by (simp add: word_le_nat_alt)
  with assms(1) show ?thesis by (auto simp: detectEvaluationEvent_def le_less)
qed

text \<open>From a failed cycle, \<open>k\<close> cycles before the tolerance is used up, without any indication.\<close>

lemma al_event_missing_failed:
  assumes "al_core s" "aliveStatus s = C_failed" "indicationCount s = 0" "k_aliveReferenceCycle s \<noteq> 0"
    and "\<not> al_isMinCheckDisabled s" "0 < k_minAliveIndications s"
    and "unat (failedSupervisionCycles s) + k = unat (k_failedSupervisionCyclesTolerance s)"
    and "unat (referenceCycleEnd s) + k * unat (k_aliveReferenceCycle s) \<le> unat t"
  shows "\<exists>s'. al_event (EvSync t) s = Some s' \<and> aliveStatus s' = C_expired \<and>
    unat (al_eventTimestamp s') = unat (referenceCycleEnd s) + k * unat (k_aliveReferenceCycle s)"
  using assms
proof (induction k arbitrary: s)
  case 0
  let ?s = "s\<lparr>al_eventTimestamp := referenceCycleEnd s\<rparr>"
  have "detectEvaluationEvent t (EvSync t) s"
    using "0.prems"(2,8) by (intro detectEvaluationEvent_sync) auto
  then have it: "al_iteration (EvSync t) s = (True, evaluateRefCycleOutOfFailed ?s)"
    using "0.prems"(2) by (simp add: al_iteration_evaluation al_dispatch_evaluation al_active_def)
  have "isMinError s" using "0.prems" by (simp add: isMinError_def)
  then have "aliveStatus (evaluateRefCycleOutOfFailed ?s) = C_expired \<and>
    al_eventTimestamp (evaluateRefCycleOutOfFailed ?s) = referenceCycleEnd s"
    using "0.prems"(7) by (auto simp: evaluateRefCycleOutOfFailed_def isMinError_def Let_def word_le_nat_alt unat_Suc_word32)
  then show ?case using it by (simp add: al_event.simps [of _ s] al_event_expired_sync)
next
  case (Suc k)
  let ?s = "s\<lparr>al_eventTimestamp := referenceCycleEnd s\<rparr>"
  let ?s1 = "setNextCycle (?s\<lparr>failedSupervisionCycles := failedSupervisionCycles s + 1\<rparr>)"
  have t: "unat t < 2 ^ 64" using unsigned_less [of t] by simp
  have ev: "detectEvaluationEvent t (EvSync t) s"
    using Suc.prems(2,8) by (intro detectEvaluationEvent_sync) auto
  have fits: "unat (referenceCycleEnd s) + unat (k_aliveReferenceCycle s) < 2 ^ 64"
    using Suc.prems(8) t by auto
  have "isMinError s" and ne: "failedSupervisionCycles s \<noteq> UINT32_MAX"
    using Suc.prems(3,5,6,7) word_n1_ge [of "k_failedSupervisionCyclesTolerance s"]
    by (auto simp: isMinError_def word_le_nat_alt)
  then have "evaluateRefCycleOutOfFailed ?s = ?s1"
    using Suc.prems(7) by (simp add: evaluateRefCycleOutOfFailed_def isMinError_def word_le_nat_alt unat_Suc_word32)
  then have it: "al_iteration (EvSync t) s = (True, ?s1)"
    using ev Suc.prems(2) by (simp add: al_iteration_evaluation al_dispatch_evaluation al_active_def)
  have s1: "al_core ?s1"
    using al_iteration_core [OF Suc.prems(1), of "EvSync t"] by (simp add: it)
  have "\<exists>s'. al_event (EvSync t) ?s1 = Some s' \<and> aliveStatus s' = C_expired \<and>
    unat (al_eventTimestamp s') = unat (referenceCycleEnd ?s1) + k * unat (k_aliveReferenceCycle ?s1)"
    using Suc.prems fits ne s1
    by (intro Suc.IH) (simp_all add: setNextCycle_fits unat_add_no_wrap64 unat_Suc_word32)
  then show ?case
    using it fits by (simp add: al_event.simps [of _ s] setNextCycle_fits unat_add_no_wrap64 add.assoc)
qed

text \<open>
  (C23) A process that stops reporting is detected: if no indication arrives from the start of a cycle
  on, an evaluation at any time at least \<open>tolerance\<close> cycles after the end of that cycle leaves the
  supervision expired, and the reported time is the end of the cycle that exceeded the
  tolerance, independent of when the evaluation ran.
\<close>

theorem alive_missing_indications_expire:
  assumes "al_inv s" "dataLossReason s = kNoDataLoss" "aliveStatus s = C_ok" "indicationCount s = 0"
    and "\<not> al_isMinCheckDisabled s" "0 < k_minAliveIndications s"
    and "tsb_contents (al_buffer s) = []" "0 < tsb_capacity (al_buffer s)"
    and "unat (referenceCycleEnd s) + unat (k_failedSupervisionCyclesTolerance s) * unat (k_aliveReferenceCycle s) \<le> unat t"
  shows "\<exists>s'. al_evaluate t s = Some s' \<and> aliveStatus s' = C_expired \<and>
    unat (al_eventTimestamp s') =
      unat (referenceCycleEnd s) + unat (k_failedSupervisionCyclesTolerance s) * unat (k_aliveReferenceCycle s)"
proof -
  let ?s = "s\<lparr>al_eventTimestamp := referenceCycleEnd s\<rparr>"
  let ?tol = "unat (k_failedSupervisionCyclesTolerance s)"
  have core: "al_core s" "k_aliveReferenceCycle s \<noteq> 0" and zero: "failedSupervisionCycles s = 0"
    using assms(1,3) by (auto simp: al_inv_def al_core_def)
  have "detectEvaluationEvent t (EvSync t) s"
    using assms(3,9) by (intro detectEvaluationEvent_sync) auto
  then have it: "al_iteration (EvSync t) s = (True, evaluateRefCycleOutOfOk ?s)"
    using assms(3) by (simp add: al_iteration_evaluation al_dispatch_evaluation al_active_def)
  have bad: "isMinError ?s" using assms(4-6) by (simp add: isMinError_def)
  have event: "\<exists>s'. al_event (EvSync t) s = Some s' \<and> aliveStatus s' = C_expired \<and>
    unat (al_eventTimestamp s') = unat (referenceCycleEnd s) + ?tol * unat (k_aliveReferenceCycle s)"
  proof (cases "?tol")
    case 0
    then have "evaluateRefCycleOutOfOk ?s = al_switchToExpired kFailedToleranceExceeded ?s"
      using bad zero by (simp add: evaluateRefCycleOutOfOk_def word_less_nat_alt)
    then show ?thesis using it 0 by (simp add: al_event.simps [of _ s] al_event_expired_sync)
  next
    case (Suc k)
    let ?s1 = "evaluateRefCycleOutOfOk ?s"
    have fits: "unat (referenceCycleEnd s) + unat (k_aliveReferenceCycle s) < 2 ^ 64"
      using assms(9) Suc unat64_less [of t] by auto
    have s1: "?s1 = setNextCycle (al_pushResultToObservers (?s\<lparr>aliveStatus := C_failed, failedSupervisionCycles := 1\<rparr>))"
      using bad zero Suc by (simp add: evaluateRefCycleOutOfOk_def word_less_nat_alt al_switchToFailed_def)
    have "al_core ?s1" using al_iteration_core [OF core(1), of "EvSync t"] it by simp
    then have "\<exists>s'. al_event (EvSync t) ?s1 = Some s' \<and> aliveStatus s' = C_expired \<and>
      unat (al_eventTimestamp s') = unat (referenceCycleEnd ?s1) + k * unat (k_aliveReferenceCycle ?s1)"
      using assms(5,6,9) core Suc fits
      by (intro al_event_missing_failed)
        (simp_all add: s1 setNextCycle_fits al_pushResultToObservers_def unat_add_no_wrap64)
    then show ?thesis
      using it fits Suc
      by (simp add: al_event.simps [of _ s])
        (simp add: s1 setNextCycle_fits al_pushResultToObservers_def unat_add_no_wrap64 add.assoc)
  qed
  show ?thesis
    using al_evaluate_events [OF assms(1,2) _ refl, of t] assms(7,8) event by auto
qed

theorem alive_missing_indications_expire_witness:
  "\<exists>s'. al_evaluate 420 al_example_ok = Some s' \<and> aliveStatus s' = C_expired \<and> unat (al_eventTimestamp s') = 350"
  using alive_missing_indications_expire [OF al_example_inv(2), of 420]
  by (simp add: al_example_ok_def al_example_unfold)

lemma al_handleDataLossReaction_simps [simp]:
  "tsb_contents (al_buffer (al_handleDataLossReaction s)) = []"
  "dataLossReason (al_handleDataLossReaction s) = kNoDataLoss"
  "processTracker (al_handleDataLossReaction s) = setAllProcessesActive (processTracker s)"
  by (simp_all add: al_handleDataLossReaction_def Let_def)

text \<open>
  Lost data is never ignored: after an update did not fit into the buffer or the monitored process
  signalled a loss, the next evaluation leaves the supervision expired, with an empty buffer, the
  loss acknowledged, and all processes regarded as active, whatever the supervision had observed.
\<close>

theorem alive_data_loss_expires:
  assumes "al_inv s"
    and "dataLossReason s \<noteq> kNoDataLoss \<or> tsb_capacity (al_buffer s) \<le> length (tsb_contents (al_buffer s))"
  shows "\<exists>s'. al_evaluate t s = Some s' \<and> aliveStatus s' = C_expired \<and> dataLossReason s' = kNoDataLoss \<and>
    tsb_contents (al_buffer s') = [] \<and> processTracker s' = setAllProcessesActive (processTracker s)"
proof -
  obtain s1 where s1: "al_push (EvSync t) t s = Some s1" "al_inv s1" "dataLossReason s1 \<noteq> kNoDataLoss"
    "processTracker s1 = processTracker s"
  proof (cases "length (tsb_contents (al_buffer s)) < tsb_capacity (al_buffer s)")
    case True
    with al_push_stored [OF assms(1) True, of "EvSync t" t] assms(2) that show ?thesis by auto
  next
    case False
    have "al_inv (s\<lparr>dataLossReason := kBufferFull, al_eventTimestamp := al_lastSyncTimestamp s\<rparr>)"
      using assms(1) by (simp add: al_inv_def)
    with al_push_lost [OF assms(1) False] that show ?thesis by simp
  qed
  then show ?thesis
    using al_handleDataLossReaction_inv(2) [OF s1(2)] by (simp add: al_evaluate_def al_storeSyncEvent_def)
qed

theorem alive_data_loss_expires_witness:
  "\<exists>s'. al_evaluate 175 (al_example_ok\<lparr>dataLossReason := kSharedMemory\<rparr>) = Some s' \<and> aliveStatus s' = C_expired"
proof -
  have "al_inv (al_example_ok\<lparr>dataLossReason := kSharedMemory\<rparr>)"
    using al_example_inv(2) by (simp add: al_inv_def)
  from alive_data_loss_expires [OF this, of 175] show ?thesis by auto
qed

text \<open>
  Expiry is final until the processes restart: whatever checkpoints an expired supervision receives,
  in whatever order, an evaluation reports nothing and keeps it expired.
\<close>

theorem alive_expired_is_sticky:
  assumes "al_inv s" "aliveStatus s = C_expired" "dataLossReason s = kNoDataLoss"
    and "length (tsb_contents (al_buffer s)) < tsb_capacity (al_buffer s)"
    and "\<And>u e. (u, e) \<in> set (tsb_contents (al_buffer s)) \<Longrightarrow> \<exists>c v. e = EvCheckpoint c v"
  shows "\<exists>s'. al_evaluate t s = Some s' \<and> aliveStatus s' = C_expired \<and> pushedResults s' = pushedResults s"
proof -
  define es where "es = map snd (insert_stable fst (t, EvSync t) (tsb_contents (al_buffer s)))"
  have es: "(\<exists>c v. e = EvCheckpoint c v) \<or> e = EvSync t" if "e \<in> set es" for e
    using that assms(5) by (auto simp: es_def)
  obtain s1 b where s1: "fold_opt al_event es s = Some s1"
    "al_evaluate t s = Some (s1\<lparr>al_buffer := tsb_clear b, al_lastSyncTimestamp := t\<rparr>)"
    using al_evaluate_events [OF assms(1,3,4) es_def] by blast
  have step: "snd (al_iteration e s') = s'" if "e \<in> set es" "aliveStatus s' = C_expired" for e s'
    using es [OF that(1)] that(2)
    by (auto simp: al_iteration_event detectEvaluationEvent_def al_dispatch_def
        al_checkForRecoveryTransition_def al_checkTransitionsToDeactivated_def)
  have "aliveStatus s1 = C_expired \<and> pushedResults s1 = pushedResults s"
    by (rule al_events_invariant [OF _ s1(1), of "\<lambda>s'. aliveStatus s' = C_expired \<and> pushedResults s' = pushedResults s"])
      (use step assms(2) in auto)
  with s1(2) show ?thesis by simp
qed

theorem alive_expired_is_sticky_witness:
  "\<exists>s'. al_evaluate 175 (al_switchToExpired kOverflow al_example_ok) = Some s' \<and> aliveStatus s' = C_expired \<and>
    length (pushedResults s') = 1"
proof -
  let ?s = "al_switchToExpired kOverflow al_example_ok"
  have b: "al_buffer ?s = tsb_new 4"
    by (simp add: al_switchToExpired_def al_example_ok_def al_pushResultToObservers_def al_example_unfold)
  have "al_inv ?s" "dataLossReason ?s = kNoDataLoss" "length (pushedResults ?s) = 1"
    using al_example_inv(2) by (simp_all add: al_inv_def al_switchToExpired_def al_pushResultToObservers_def
      al_core_def al_idle_def) (simp add: al_example_ok_def al_example_def Alive_new_def al_example_cfg_def)
  with alive_expired_is_sticky [of ?s 175] show ?thesis by (auto simp: b)
qed

end
