(* ===== verification/Deadline_Supervision.thy ===== *)
theory Deadline_Supervision
  imports Checkpoint_Supervision
begin

section \<open>Deadline supervision\<close>

text \<open>
  Models \<^verbatim>\<open>saf/supervision/Deadline.{hpp,cpp}\<close> and \<^verbatim>\<open>DeadlineSupervisionCfg\<close>: the time between a source and
  a target checkpoint has to lie in an interval.

  One definition per member function, with the source's names; the failure information that is kept
  for the log output is part of the state, the log output itself is not modelled. The theorems
  relate an evaluation to an abstract automaton over unbounded times.
\<close>

subsection \<open>State\<close>

datatype EDeadlineAdvState =
    DA_data_error | DA_deactivated | DA_ok | DA_ring_buffer_overflow | DA_history_buffer_overflow
  | DA_consecutive_source_error | DA_max_deadline_error | DA_min_deadline_error

record DeadlineFailureInfo =
  sourceTargetDiffTime :: NanoSecondType
  targetCheckpointReceived :: bool

definition DeadlineFailureInfo_new :: DeadlineFailureInfo where
  "DeadlineFailureInfo_new = \<lparr>sourceTargetDiffTime = 0, targetCheckpointReceived = False\<rparr>"

text \<open>A reference to a checkpoint is its address; its process is fixed when the checkpoint is built.\<close>

record DeadlineSupervisionCfg =
  dcfg_checkpointBufferSize :: u16
  dcfg_refFuntionGroupStates :: "ProcessGroupId list"
  dcfg_refProcesses :: "ProcessStateIdentifier list"
  dcfg_minDeadline :: NanoSecondType
  dcfg_maxDeadline :: NanoSecondType
  dcfg_isMinCheckDisabled :: bool
  dcfg_isMaxCheckDisabled :: bool
  dcfg_source_r :: CheckpointIdentifier
  dcfg_source_process :: ProcessStateIdentifier
  dcfg_target_r :: CheckpointIdentifier
  dcfg_target_process :: ProcessStateIdentifier

record Deadline = CheckpointSupervision +
  k_minDeadline :: NanoSecondType
  k_maxDeadline :: NanoSecondType
  dl_isMinCheckDisabled :: bool
  dl_isMaxCheckDisabled :: bool
  dl_isDataLossEvent :: bool
  deadlineStatus :: CStatus
  deadlineAdvState :: EDeadlineAdvState
  failureInfo :: DeadlineFailureInfo
  source_r :: CheckpointIdentifier
  source_process :: ProcessStateIdentifier
  target_r :: CheckpointIdentifier
  target_process :: ProcessStateIdentifier
  sourceTimestamp :: NanoSecondType
  targetTimestamp :: NanoSecondType
  dl_eventTimestamp :: NanoSecondType
  dl_lastSyncTimestamp :: NanoSecondType
  dl_buffer :: "TimeSortedUpdateEvent TimeSortingBuffer"

definition Deadline_new :: "DeadlineSupervisionCfg \<Rightarrow> Deadline" where
  "Deadline_new cfg =
     \<lparr>lastProcessExecutionError = kDefaultProcessExecutionError,
      processExecErrs = initProcessExecErrs (dcfg_refProcesses cfg),
      processTracker = ProcessStateTracker_new (dcfg_refFuntionGroupStates cfg) (dcfg_refProcesses cfg),
      pushedResults = [],
      k_minDeadline = dcfg_minDeadline cfg, k_maxDeadline = dcfg_maxDeadline cfg,
      dl_isMinCheckDisabled = dcfg_isMinCheckDisabled cfg, dl_isMaxCheckDisabled = dcfg_isMaxCheckDisabled cfg,
      dl_isDataLossEvent = False, deadlineStatus = C_deactivated, deadlineAdvState = DA_deactivated,
      failureInfo = DeadlineFailureInfo_new,
      source_r = dcfg_source_r cfg, source_process = dcfg_source_process cfg,
      target_r = dcfg_target_r cfg, target_process = dcfg_target_process cfg,
      sourceTimestamp = 0, targetTimestamp = 0, dl_eventTimestamp = 0, dl_lastSyncTimestamp = 0,
      dl_buffer = tsb_new (dcfg_checkpointBufferSize cfg)\<rparr>"

definition dl_pushResultToObservers :: "Deadline \<Rightarrow> Deadline" where
  "dl_pushResultToObservers s =
     s\<lparr>pushedResults := pushedResults s @
         [\<lparr>res_status = deadlineStatus s, res_timestamp = dl_eventTimestamp s,
           res_executionError = lastProcessExecutionError s\<rparr>]\<rparr>"

subsection \<open>Updates\<close>

definition dl_push :: "TimeSortedUpdateEvent \<Rightarrow> NanoSecondType \<Rightarrow> Deadline \<Rightarrow> Deadline option" where
  "dl_push e t s = do {
     (success, b) \<leftarrow> tsb_push e t (dl_buffer s);
     let s = s\<lparr>dl_buffer := b\<rparr>;
     Some (if success then s
           else s\<lparr>dl_isDataLossEvent := True, deadlineAdvState := DA_history_buffer_overflow,
                  dl_eventTimestamp := dl_lastSyncTimestamp s\<rparr>)
   }"

definition dl_updateCheckpoint :: "CheckpointIdentifier \<Rightarrow> Checkpoint \<Rightarrow> Deadline \<Rightarrow> Deadline option" where
  "dl_updateCheckpoint addr f_observable_r s =
     (let timestamp = cp_timestamp f_observable_r
      in if cp_isDataLossEvent f_observable_r
         then Some (s\<lparr>dl_isDataLossEvent := True, deadlineAdvState := DA_ring_buffer_overflow,
                      dl_eventTimestamp := dl_lastSyncTimestamp s\<rparr>)
         else dl_push (EvCheckpoint addr timestamp) timestamp s)"

definition dl_updateProcessState :: "ProcessStateIdentifier \<Rightarrow> ProcessState \<Rightarrow> Deadline \<Rightarrow> Deadline option" where
  "dl_updateProcessState addr f_observable_r s =
     (let state = eProcState f_observable_r
      in if isProcessStateRelevant state (processTracker s)
         then do {
           let timestamp = ps_timestamp f_observable_r;
           executionError \<leftarrow> getProcessExecutionError f_observable_r;
           dl_push (EvProcess \<lparr>pss_identifier_p = addr, pss_eProcState = state,
                                pss_processGroupState = processGroupState f_observable_r,
                                pss_timestamp = timestamp, pss_executionError = executionError\<rparr>) timestamp s
         }
         else Some s)"

subsection \<open>State switches\<close>

definition resetTimestamps :: "Deadline \<Rightarrow> Deadline" where
  "resetTimestamps s = s\<lparr>sourceTimestamp := 0, targetTimestamp := 0\<rparr>"

definition dl_switchToDeactivated :: "Deadline \<Rightarrow> Deadline" where
  "dl_switchToDeactivated s = dl_pushResultToObservers (resetTimestamps
     (s\<lparr>deadlineStatus := C_deactivated, deadlineAdvState := DA_deactivated\<rparr>))"

definition dl_switchToOk :: "Deadline \<Rightarrow> Deadline" where
  "dl_switchToOk s = dl_pushResultToObservers (s\<lparr>deadlineStatus := C_ok, deadlineAdvState := DA_ok\<rparr>)"

definition dl_blame :: "ProcessStateIdentifier \<Rightarrow> Deadline \<Rightarrow> Deadline" where
  "dl_blame process s =
     (let (err, s) = getProcessExecutionErrorForProcess process s in s\<lparr>lastProcessExecutionError := err\<rparr>)"

definition dl_switchToExpired :: "Deadline \<Rightarrow> Deadline" where
  "dl_switchToExpired s =
     (let s = s\<lparr>lastProcessExecutionError := kDefaultProcessExecutionError\<rparr>;
          s = (case deadlineAdvState s of
                 DA_consecutive_source_error \<Rightarrow> dl_blame (source_process s) s
               | DA_max_deadline_error \<Rightarrow> dl_blame (target_process s) s
               | DA_min_deadline_error \<Rightarrow> dl_blame (target_process s) s
               | _ \<Rightarrow> s)
      in dl_pushResultToObservers (resetTimestamps
           (s\<lparr>deadlineStatus := C_expired, dl_isDataLossEvent := False, failureInfo := DeadlineFailureInfo_new\<rparr>)))"

subsection \<open>Evaluation of checkpoints\<close>

definition evaluateDeadline :: "NanoSecondType \<Rightarrow> bool \<Rightarrow> Deadline \<Rightarrow> Deadline" where
  "evaluateDeadline f_timeLapsed f_targetCheckpointReceived s =
     (let s = (if \<not> dl_isMaxCheckDisabled s \<and> f_timeLapsed > k_maxDeadline s
               then resetTimestamps (s\<lparr>deadlineAdvState := DA_max_deadline_error,
                                       dl_eventTimestamp := sourceTimestamp s + k_maxDeadline s + 1\<rparr>)
               else if f_targetCheckpointReceived
               then resetTimestamps (s\<lparr>deadlineAdvState :=
                      (if \<not> dl_isMinCheckDisabled s \<and> f_timeLapsed < k_minDeadline s
                       then DA_min_deadline_error else DA_ok)\<rparr>)
               else s)
      in if deadlineAdvState s = DA_min_deadline_error \<or> deadlineAdvState s = DA_max_deadline_error
         then s\<lparr>failureInfo := \<lparr>sourceTargetDiffTime = f_timeLapsed,
                                targetCheckpointReceived = f_targetCheckpointReceived\<rparr>\<rparr>
         else s)"

definition evaluateSource :: "NanoSecondType \<Rightarrow> Deadline \<Rightarrow> Deadline" where
  "evaluateSource f_updateEventTimestamp s =
     (if sourceTimestamp s \<noteq> 0
      then resetTimestamps (s\<lparr>deadlineAdvState := DA_consecutive_source_error,
                              dl_eventTimestamp := f_updateEventTimestamp\<rparr>)
      else s\<lparr>sourceTimestamp := f_updateEventTimestamp\<rparr>)"

definition evaluateTarget :: "NanoSecondType \<Rightarrow> Deadline \<Rightarrow> Deadline" where
  "evaluateTarget f_updateEventTimestamp s =
     (let s = s\<lparr>targetTimestamp := f_updateEventTimestamp\<rparr>;
          timeDifference = targetTimestamp s - sourceTimestamp s;
          s = s\<lparr>dl_eventTimestamp := f_updateEventTimestamp\<rparr>
      in if sourceTimestamp s = 0 then s\<lparr>targetTimestamp := 0\<rparr>
         else evaluateDeadline timeDifference True s)"

definition evaluateMissingTarget :: "NanoSecondType \<Rightarrow> Deadline \<Rightarrow> Deadline" where
  "evaluateMissingTarget f_updateEventTimestamp s =
     (if sourceTimestamp s \<noteq> 0
      then evaluateDeadline (f_updateEventTimestamp - sourceTimestamp s) False s
      else s)"

subsection \<open>Transitions\<close>

definition dl_checkTransitionsOutOfDeactivated :: "EUpdateEventType \<Rightarrow> NanoSecondType \<Rightarrow> Deadline \<Rightarrow> Deadline" where
  "dl_checkTransitionsOutOfDeactivated f_updateEventType f_updateEventTimestamp s =
     (if f_updateEventType = kActivation
      then dl_switchToOk (s\<lparr>dl_eventTimestamp := f_updateEventTimestamp\<rparr>) else s)"

definition dl_checkTransitionsToDeactivated :: "EUpdateEventType \<Rightarrow> NanoSecondType \<Rightarrow> Deadline \<Rightarrow> Deadline" where
  "dl_checkTransitionsToDeactivated f_updateEventType f_updateEventTimestamp s =
     (if f_updateEventType = kDeactivation \<and> deadlineStatus s \<noteq> C_deactivated
      then dl_switchToDeactivated (s\<lparr>dl_eventTimestamp := f_updateEventTimestamp\<rparr>) else s)"

definition dl_checkForRecoveryTransition :: "EUpdateEventType \<Rightarrow> NanoSecondType \<Rightarrow> Deadline \<Rightarrow> bool \<times> Deadline" where
  "dl_checkForRecoveryTransition f_updateEventType f_updateEventTimestamp s =
     (if f_updateEventType = kRecoveredFromCrash
      then (True, dl_checkTransitionsOutOfDeactivated kActivation f_updateEventTimestamp (dl_switchToDeactivated s))
      else (False, s))"

definition dl_checkTransitionsOutOfOk ::
  "EUpdateEventType \<Rightarrow> NanoSecondType \<Rightarrow> TimeSortedUpdateEvent \<Rightarrow> Deadline \<Rightarrow> Deadline"
where
  "dl_checkTransitionsOutOfOk f_updateEventType f_updateEventTimestamp f_updateEvent s =
     (let s = (if f_updateEventType = kCheckpoint
               then (case f_updateEvent of
                       EvCheckpoint checkpoint_p _ \<Rightarrow>
                         (if checkpoint_p = source_r s then evaluateSource f_updateEventTimestamp s
                          else if checkpoint_p = target_r s then evaluateTarget f_updateEventTimestamp s
                          else s)
                     | _ \<Rightarrow> s)
               else evaluateMissingTarget f_updateEventTimestamp s)
      in if deadlineAdvState s \<noteq> DA_ok then dl_switchToExpired s else s)"

definition dl_dispatch :: "EUpdateEventType \<Rightarrow> NanoSecondType \<Rightarrow> TimeSortedUpdateEvent \<Rightarrow> Deadline \<Rightarrow> Deadline" where
  "dl_dispatch currentUpdateType timestampOfUpdateEvent f_sortedUpdateEvent_r s =
     (let s = (case deadlineStatus s of
                 C_deactivated \<Rightarrow> dl_checkTransitionsOutOfDeactivated currentUpdateType timestampOfUpdateEvent s
               | C_ok \<Rightarrow> dl_checkTransitionsOutOfOk currentUpdateType timestampOfUpdateEvent f_sortedUpdateEvent_r s
               | C_expired \<Rightarrow> s
               | C_failed \<Rightarrow> dl_switchToExpired (s\<lparr>dl_eventTimestamp := dl_lastSyncTimestamp s,
                                                   deadlineAdvState := DA_data_error\<rparr>));
          (recovered, s) = dl_checkForRecoveryTransition currentUpdateType timestampOfUpdateEvent s
      in if \<not> recovered then dl_checkTransitionsToDeactivated currentUpdateType timestampOfUpdateEvent s else s)"

definition dl_checkTransitions :: "TimeSortedUpdateEvent \<Rightarrow> Deadline \<Rightarrow> Deadline" where
  "dl_checkTransitions f_sortedUpdateEvent_r s =
     (let timestampOfUpdateEvent = getTimestampOfUpdateEvent f_sortedUpdateEvent_r;
          (currentUpdateType, s) = getEventType f_sortedUpdateEvent_r s
      in dl_dispatch currentUpdateType timestampOfUpdateEvent f_sortedUpdateEvent_r s)"

definition dl_handleDataLossReaction :: "Deadline \<Rightarrow> Deadline" where
  "dl_handleDataLossReaction s =
     (let s = (if deadlineStatus s \<noteq> C_expired then dl_switchToExpired s else s)
      in s\<lparr>dl_buffer := tsb_clear (dl_buffer s),
           processTracker := setAllProcessesActive (processTracker s),
           dl_isDataLossEvent := False\<rparr>)"

text \<open>The transitions do not touch the buffer, which the loop walks at the same time.\<close>

definition dl_evaluate :: "NanoSecondType \<Rightarrow> Deadline \<Rightarrow> Deadline option" where
  "dl_evaluate f_syncTimestamp s =
     (if dl_isDataLossEvent s
      then Some ((dl_handleDataLossReaction s)\<lparr>dl_lastSyncTimestamp := f_syncTimestamp\<rparr>)
      else do {
        (b, s) \<leftarrow> for_each tsb_getNextElement (\<lambda>e s. Some (dl_checkTransitions e s)) (dl_buffer s) s;
        let s = dl_checkTransitions (EvSync f_syncTimestamp) s;
        Some (s\<lparr>dl_buffer := tsb_clear b, dl_lastSyncTimestamp := f_syncTimestamp\<rparr>)
      })"

subsection \<open>Invariant\<close>

lemmas dl_switch_defs = dl_switchToDeactivated_def dl_switchToOk_def dl_switchToExpired_def dl_blame_def
  dl_pushResultToObservers_def resetTimestamps_def getProcessExecutionErrorForProcess_def

lemmas dl_evaluate_defs = evaluateDeadline_def evaluateSource_def evaluateTarget_def evaluateMissingTarget_def

lemmas dl_transition_defs = dl_checkTransitionsOutOfDeactivated_def dl_checkTransitionsToDeactivated_def
  dl_checkForRecoveryTransition_def dl_checkTransitionsOutOfOk_def

text \<open>
  The configuration, the buffer and the tracker are not touched by the switches and the evaluations,
  the tracker not by the transitions either.
\<close>

definition dl_const where
  "dl_const s = ((k_minDeadline s, k_maxDeadline s, dl_isMinCheckDisabled s, dl_isMaxCheckDisabled s),
     (source_r s, source_process s, target_r s, target_process s), dl_buffer s, dl_lastSyncTimestamp s)"

lemma dl_frame_switch [simp]:
  "dl_const (dl_switchToDeactivated s) = dl_const s" "processTracker (dl_switchToDeactivated s) = processTracker s"
  "dl_const (dl_switchToOk s) = dl_const s" "processTracker (dl_switchToOk s) = processTracker s"
  "dl_const (dl_switchToExpired s) = dl_const s" "processTracker (dl_switchToExpired s) = processTracker s"
  by (simp_all add: dl_switch_defs dl_const_def Let_def split: EDeadlineAdvState.split option.split)

lemma dl_frame_update [simp]:
  "dl_const (s\<lparr>dl_eventTimestamp := t\<rparr>) = dl_const s" "dl_const (s\<lparr>deadlineAdvState := a\<rparr>) = dl_const s"
  by (simp_all add: dl_const_def)

lemma dl_frame_evaluate [simp]:
  "dl_const (evaluateSource t s) = dl_const s" "processTracker (evaluateSource t s) = processTracker s"
  "dl_const (evaluateTarget t s) = dl_const s" "processTracker (evaluateTarget t s) = processTracker s"
  "dl_const (evaluateMissingTarget t s) = dl_const s" "processTracker (evaluateMissingTarget t s) = processTracker s"
  by (simp_all add: dl_evaluate_defs resetTimestamps_def dl_const_def Let_def)

lemma dl_frame_dispatch [simp]:
  "dl_const (dl_dispatch u t e s) = dl_const s" "processTracker (dl_dispatch u t e s) = processTracker s"
  by (simp_all add: dl_dispatch_def dl_transition_defs Let_def case_prod_beta
      split: CStatus.split TimeSortedUpdateEvent.split)

lemma dl_const_getEventType [simp]: "dl_const (snd (getEventType e s)) = dl_const (s :: Deadline)"
  by (cases e) (simp_all add: dl_const_def Let_def setProcessExecutionErrorForProcess_def split: prod.split)

lemma dl_checkTransitions_eq:
  "dl_checkTransitions e s = dl_dispatch (fst (getEventType e s)) (getTimestampOfUpdateEvent e) e (snd (getEventType e s))"
  by (simp add: dl_checkTransitions_def Let_def case_prod_beta)

lemma dl_frame_checkTransitions [simp]:
  "dl_const (dl_checkTransitions e s) = dl_const s"
  "sup_tracker_inv s \<Longrightarrow> sup_tracker_inv (dl_checkTransitions e s)"
  by (simp_all add: dl_checkTransitions_eq getEventType_tracker_inv)

lemma dl_const_simps:
  assumes "dl_const s = dl_const s'"
  shows "k_minDeadline s = k_minDeadline s'" "k_maxDeadline s = k_maxDeadline s'"
    "dl_isMinCheckDisabled s = dl_isMinCheckDisabled s'" "dl_isMaxCheckDisabled s = dl_isMaxCheckDisabled s'"
    "source_r s = source_r s'" "target_r s = target_r s'" "dl_buffer s = dl_buffer s'"
  using assms by (simp_all add: dl_const_def)

text \<open>
  The status is never \<open>failed\<close>, a source timestamp is pending only in \<open>ok\<close>, a target timestamp never,
  and unless a data loss is waiting for its evaluation the detailed state agrees with the status.
\<close>

definition dl_core :: "Deadline \<Rightarrow> bool" where
  "dl_core s \<longleftrightarrow> deadlineStatus s \<noteq> C_failed \<and> targetTimestamp s = 0 \<and>
     (deadlineStatus s \<noteq> C_ok \<longrightarrow> sourceTimestamp s = 0) \<and>
     (\<not> dl_isDataLossEvent s \<longrightarrow>
        (deadlineStatus s = C_ok \<longrightarrow> deadlineAdvState s = DA_ok) \<and>
        (deadlineStatus s = C_deactivated \<longrightarrow> deadlineAdvState s = DA_deactivated))"

definition dl_inv :: "Deadline \<Rightarrow> bool" where
  "dl_inv s \<longleftrightarrow> dl_core s \<and> sup_tracker_inv s \<and> tsb_inv (dl_buffer s) \<and>
     lastReportedElement_p (dl_buffer s) = None \<and> events_keyed (dl_buffer s)"

lemma Deadline_new_inv: "dl_inv (Deadline_new cfg)"
  by (simp add: Deadline_new_def dl_inv_def dl_core_def)

lemma dl_switchToExpired_core [simp]:
  "deadlineStatus (dl_switchToExpired s) = C_expired" "dl_isDataLossEvent (dl_switchToExpired s) = False"
  "sourceTimestamp (dl_switchToExpired s) = 0" "targetTimestamp (dl_switchToExpired s) = 0"
  "dl_eventTimestamp (dl_switchToExpired s) = dl_eventTimestamp s"
  by (simp_all add: dl_switch_defs Let_def split: EDeadlineAdvState.split option.split)

lemma dl_switchToDeactivated_core [simp]:
  "deadlineStatus (dl_switchToDeactivated s) = C_deactivated"
  "dl_isDataLossEvent (dl_switchToDeactivated s) = dl_isDataLossEvent s"
  "sourceTimestamp (dl_switchToDeactivated s) = 0" "targetTimestamp (dl_switchToDeactivated s) = 0"
  "deadlineAdvState (dl_switchToDeactivated s) = DA_deactivated"
  by (simp_all add: dl_switch_defs)

lemma dl_switchToOk_core [simp]:
  "deadlineStatus (dl_switchToOk s) = C_ok" "dl_isDataLossEvent (dl_switchToOk s) = dl_isDataLossEvent s"
  "sourceTimestamp (dl_switchToOk s) = sourceTimestamp s" "targetTimestamp (dl_switchToOk s) = targetTimestamp s"
  "deadlineAdvState (dl_switchToOk s) = DA_ok"
  by (simp_all add: dl_switch_defs)

lemma dl_evaluate_core [simp]:
  "deadlineStatus (evaluateSource t s) = deadlineStatus s" "dl_isDataLossEvent (evaluateSource t s) = dl_isDataLossEvent s"
  "deadlineStatus (evaluateTarget t s) = deadlineStatus s" "dl_isDataLossEvent (evaluateTarget t s) = dl_isDataLossEvent s"
  "deadlineStatus (evaluateMissingTarget t s) = deadlineStatus s"
  "dl_isDataLossEvent (evaluateMissingTarget t s) = dl_isDataLossEvent s"
  "targetTimestamp (evaluateTarget t s) = 0"
  "targetTimestamp s = 0 \<Longrightarrow> targetTimestamp (evaluateSource t s) = 0"
  "targetTimestamp s = 0 \<Longrightarrow> targetTimestamp (evaluateMissingTarget t s) = 0"
  by (simp_all add: dl_evaluate_defs resetTimestamps_def Let_def)

lemma dl_dispatch_core:
  assumes "dl_core s" "\<not> dl_isDataLossEvent s"
  shows "dl_core (dl_dispatch u t e s) \<and> \<not> dl_isDataLossEvent (dl_dispatch u t e s)"
  using assms
  by (cases "deadlineStatus s")
    (auto simp: dl_core_def dl_dispatch_def dl_transition_defs Let_def case_prod_beta
      split: TimeSortedUpdateEvent.split)

lemma dl_core_getEventType [simp]:
  "dl_core (snd (getEventType e s)) = dl_core s"
  "dl_isDataLossEvent (snd (getEventType e s)) = dl_isDataLossEvent (s :: Deadline)"
  by (cases e; simp add: dl_core_def Let_def setProcessExecutionErrorForProcess_def split: prod.split)+

lemma dl_checkTransitions_core:
  "dl_core s \<Longrightarrow> \<not> dl_isDataLossEvent s \<Longrightarrow>
   dl_core (dl_checkTransitions e s) \<and> \<not> dl_isDataLossEvent (dl_checkTransitions e s)"
  by (simp add: dl_checkTransitions_eq dl_dispatch_core)

lemma dl_core_buffer [simp]:
  "dl_core (s\<lparr>dl_buffer := b\<rparr>) = dl_core s" "dl_core (s\<lparr>dl_lastSyncTimestamp := t\<rparr>) = dl_core s"
  "dl_core (s\<lparr>processTracker := p\<rparr>) = dl_core s"
  by (simp_all add: dl_core_def)

lemma dl_scan_core:
  "dl_core s \<Longrightarrow> \<not> dl_isDataLossEvent s \<Longrightarrow> sup_tracker_inv s \<Longrightarrow>
   dl_core (fold dl_checkTransitions es s) \<and> \<not> dl_isDataLossEvent (fold dl_checkTransitions es s) \<and>
   sup_tracker_inv (fold dl_checkTransitions es s) \<and> dl_const (fold dl_checkTransitions es s) = dl_const s"
  by (induction es arbitrary: s) (simp_all add: dl_checkTransitions_core)


subsection \<open>The evaluation as a fold\<close>

lemma dl_evaluate_scan:
  assumes "dl_inv s" "\<not> dl_isDataLossEvent s"
    and es_def: "es = map snd (tsb_contents (dl_buffer s)) @ [EvSync t]"
  shows "\<exists>b'. tsb_inv b' \<and> tsb_capacity b' = tsb_capacity (dl_buffer s) \<and>
    dl_evaluate t s = Some ((fold dl_checkTransitions es s)\<lparr>dl_buffer := tsb_clear b', dl_lastSyncTimestamp := t\<rparr>)"
proof -
  have "tsb_remaining (dl_buffer s) = map snd (tsb_contents (dl_buffer s))"
    using assms(1) by (simp add: dl_inv_def tsb_fresh_remaining)
  then show ?thesis
    using tsb.for_each_fold [of "dl_buffer s" "\<lambda>e s. Some (dl_checkTransitions e s)" s] assms
    by (auto simp: dl_evaluate_def dl_inv_def)
qed

lemma dl_handleDataLossReaction_simps [simp]:
  "deadlineStatus (dl_handleDataLossReaction s) = C_expired"
  "dl_isDataLossEvent (dl_handleDataLossReaction s) = False"
  "processTracker (dl_handleDataLossReaction s) = setAllProcessesActive (processTracker s)"
  "dl_buffer (dl_handleDataLossReaction s) = tsb_clear (dl_buffer s)"
  using dl_const_simps(7) [OF dl_frame_switch(5) [of s]]
  by (simp_all add: dl_handleDataLossReaction_def Let_def)

lemma dl_handleDataLossReaction_core: "dl_core s \<Longrightarrow> dl_core (dl_handleDataLossReaction s)"
  by (simp add: dl_handleDataLossReaction_def Let_def) (simp add: dl_core_def)

subsection \<open>The abstract automaton\<close>

text \<open>
  What deadline supervision means, over unbounded times: \<open>lo\<close> and \<open>hi\<close> are the deadlines, \<open>None\<close> when
  the check is disabled; the automaton waits for a source, or for the target of a source, or has
  failed at a certain time.
\<close>

datatype dl_view = DV_off | DV_idle | DV_running nat | DV_expired nat

datatype dl_input = DI_source nat | DI_target nat | DI_tick nat | DI_other

definition late :: "nat option \<Rightarrow> nat \<Rightarrow> bool" where
  "late hi d = (case hi of None \<Rightarrow> False | Some m \<Rightarrow> m < d)"

definition early :: "nat option \<Rightarrow> nat \<Rightarrow> bool" where
  "early lo d = (case lo of None \<Rightarrow> False | Some m \<Rightarrow> d < m)"

fun deadline_step :: "nat option \<Rightarrow> nat option \<Rightarrow> dl_input \<Rightarrow> dl_view \<Rightarrow> dl_view" where
  "deadline_step lo hi (DI_source t) DV_idle = DV_running t"
| "deadline_step lo hi (DI_source t) (DV_running u) = DV_expired t"
| "deadline_step lo hi (DI_target t) (DV_running u) =
     (if late hi (t - u) then DV_expired (u + the hi + 1) else if early lo (t - u) then DV_expired t else DV_idle)"
| "deadline_step lo hi (DI_tick t) (DV_running u) =
     (if late hi (t - u) then DV_expired (u + the hi + 1) else DV_running u)"
| "deadline_step lo hi i v = v"

definition dl_abs :: "Deadline \<Rightarrow> dl_view" where
  "dl_abs s = (case deadlineStatus s of
     C_ok \<Rightarrow> if sourceTimestamp s = 0 then DV_idle else DV_running (unat (sourceTimestamp s))
   | C_expired \<Rightarrow> DV_expired (unat (dl_eventTimestamp s))
   | _ \<Rightarrow> DV_off)"

definition dl_lo :: "Deadline \<Rightarrow> nat option" where
  "dl_lo s = (if dl_isMinCheckDisabled s then None else Some (unat (k_minDeadline s)))"

definition dl_hi :: "Deadline \<Rightarrow> nat option" where
  "dl_hi s = (if dl_isMaxCheckDisabled s then None else Some (unat (k_maxDeadline s)))"

text \<open>A checkpoint with time \<open>0\<close> does not occur: the daemon reports it as a data loss.\<close>

fun dl_observe :: "Deadline \<Rightarrow> TimeSortedUpdateEvent \<Rightarrow> dl_input" where
  "dl_observe s (EvCheckpoint c t) =
     (if c = source_r s then DI_source (unat t) else if c = target_r s then DI_target (unat t) else DI_other)"
| "dl_observe s (EvSync t) = DI_tick (unat t)"
| "dl_observe s (EvProcess p) = DI_other"

lemma unat_diff64: "(b :: u64) \<le> a \<Longrightarrow> unat (a - b) = unat a - unat b"
  by (simp add: unat_sub)

lemma late_diff:
  assumes "(u :: u64) \<le> t"
  shows "late (dl_hi s) (unat t - unat u) \<longleftrightarrow> \<not> dl_isMaxCheckDisabled s \<and> k_maxDeadline s < t - u"
    and "early (dl_lo s) (unat t - unat u) \<longleftrightarrow> \<not> dl_isMinCheckDisabled s \<and> t - u < k_minDeadline s"
  using assms by (auto simp: late_def early_def dl_hi_def dl_lo_def word_less_nat_alt unat_diff64)

text \<open>The reported end of the deadline does not wrap around.\<close>

lemma unat_deadline_end:
  fixes u t m :: u64
  assumes "u \<le> t" "m < t - u"
  shows "unat (u + m + 1) = Suc (unat u + unat m)"
proof -
  have "unat u + unat m < unat t" using assms by (simp add: word_less_nat_alt word_le_nat_alt unat_diff64)
  moreover have "unat t < 2 ^ 64" by (rule unat64_less)
  ultimately show ?thesis by (simp add: unat_word_ariths)
qed

lemma dl_dispatch_checkpoint:
  assumes "u = kCheckpoint \<or> u = kSync" "dl_core s"
  shows "dl_dispatch u t e s = (if deadlineStatus s = C_ok then dl_checkTransitionsOutOfOk u t e s else s)"
  using assms
  by (cases "deadlineStatus s")
    (auto simp: dl_dispatch_def dl_checkForRecoveryTransition_def dl_checkTransitionsToDeactivated_def
      dl_checkTransitionsOutOfDeactivated_def dl_core_def)

lemma dl_checkTransitions_step:
  assumes "dl_core s" "\<not> dl_isDataLossEvent s" "\<not> is_process_event e"
    and "sourceTimestamp s \<le> getTimestampOfUpdateEvent e" "getTimestampOfUpdateEvent e \<noteq> 0"
  shows "dl_abs (dl_checkTransitions e s) = deadline_step (dl_lo s) (dl_hi s) (dl_observe s e) (dl_abs s)"
proof (cases "deadlineStatus s = C_ok")
  case False
  with assms(1,3) show ?thesis
    by (cases e) (auto simp: dl_checkTransitions_eq dl_dispatch_checkpoint dl_abs_def dl_core_def split: CStatus.split)
next
  case True
  with assms(1,2) have adv: "deadlineAdvState s = DA_ok" by (simp add: dl_core_def)
  show ?thesis
  proof (cases e)
    case (EvCheckpoint c t)
    then have t: "sourceTimestamp s \<le> t" "t \<noteq> 0" using assms by auto
    show ?thesis
      using EvCheckpoint True adv assms(1) t late_diff [OF t(1), of s] unat_deadline_end [OF t(1)]
      by (auto simp: dl_checkTransitions_eq dl_dispatch_checkpoint dl_checkTransitionsOutOfOk_def
          evaluateSource_def evaluateTarget_def evaluateDeadline_def resetTimestamps_def dl_abs_def dl_hi_def Let_def)
  next
    case (EvSync t)
    then have t: "sourceTimestamp s \<le> t" using assms by auto
    show ?thesis
      using EvSync True adv assms(1) late_diff [OF t, of s] unat_deadline_end [OF t]
      by (auto simp: dl_checkTransitions_eq dl_dispatch_checkpoint dl_checkTransitionsOutOfOk_def
          evaluateMissingTarget_def evaluateDeadline_def resetTimestamps_def dl_abs_def dl_hi_def Let_def)
  qed (use assms in simp)
qed

lemma dl_checkTransitions_source:
  assumes "dl_core s" "\<not> is_process_event e" "sourceTimestamp s \<le> getTimestampOfUpdateEvent e"
  shows "sourceTimestamp (dl_checkTransitions e s) \<le> getTimestampOfUpdateEvent e"
  using assms
  by (cases e)
    (auto simp: dl_checkTransitions_eq dl_dispatch_checkpoint dl_checkTransitionsOutOfOk_def dl_evaluate_defs
      resetTimestamps_def Let_def)

lemma dl_scan_refines:
  assumes "dl_core s" "\<not> dl_isDataLossEvent s" "\<And>e. e \<in> set es \<Longrightarrow> \<not> is_process_event e \<and> getTimestampOfUpdateEvent e \<noteq> 0"
    and "sorted (map getTimestampOfUpdateEvent es)"
    and "\<And>e. e \<in> set es \<Longrightarrow> sourceTimestamp s \<le> getTimestampOfUpdateEvent e"
  shows "dl_abs (fold dl_checkTransitions es s) = fold (deadline_step (dl_lo s) (dl_hi s)) (map (dl_observe s) es) (dl_abs s)"
  using assms
proof (induction es arbitrary: s)
  case (Cons e es)
  let ?s = "dl_checkTransitions e s"
  note const = dl_const_simps [OF dl_frame_checkTransitions(1) [of e s]]
  have "dl_lo ?s = dl_lo s" "dl_hi ?s = dl_hi s" by (simp_all add: dl_lo_def dl_hi_def const)
  moreover have "dl_observe ?s = dl_observe s"
    by (rule ext, rename_tac x, case_tac x) (simp_all add: const)
  moreover have "sourceTimestamp ?s \<le> getTimestampOfUpdateEvent e" 
    using Cons.prems by (intro dl_checkTransitions_source) auto
  then have "sourceTimestamp ?s \<le> getTimestampOfUpdateEvent e'" if "e' \<in> set es" for e'
    using that Cons.prems(4) by (auto intro: order_trans)
  ultimately show ?case
    using Cons.IH [of ?s] dl_checkTransitions_core [OF Cons.prems(1,2), of e] Cons.prems
      dl_checkTransitions_step [of s e]
    by (simp)
qed simp

subsection \<open>Every operation succeeds and keeps the invariant\<close>

lemma dl_push_inv:
  assumes "dl_inv s" "t = getTimestampOfUpdateEvent e"
  shows "\<exists>s'. dl_push e t s = Some s' \<and> dl_inv s' \<and> deadlineStatus s' = deadlineStatus s"
proof -
  obtain r b where b: "tsb_push e t (dl_buffer s) = Some (r, b)" "tsb_inv b" "lastReportedElement_p b = None"
    "tsb_contents b = (if r then insert_stable fst (t, e) (tsb_contents (dl_buffer s)) else tsb_contents (dl_buffer s))"
    using tsb.push_total [of "dl_buffer s" e t] assms(1) by (auto simp: dl_inv_def)
  have "events_keyed b"
    using b(4) assms events_keyed_push [of "dl_buffer s" b e] by (cases r) (simp_all add: dl_inv_def events_keyed_def)
  with b assms(1) show ?thesis by (cases r) (simp_all add: dl_push_def Let_def dl_inv_def dl_core_def)
qed

lemma dl_updateCheckpoint_inv:
  "dl_inv s \<Longrightarrow> \<exists>s'. dl_updateCheckpoint c cp s = Some s' \<and> dl_inv s'"
  using dl_push_inv [of s "cp_timestamp cp" "EvCheckpoint c (cp_timestamp cp)"]
  by (auto simp: dl_updateCheckpoint_def Let_def dl_inv_def dl_core_def)

lemma dl_updateProcessState_inv:
  assumes "dl_inv s" "ProcessState_wf p"
  shows "\<exists>s'. dl_updateProcessState a p s = Some s' \<and> dl_inv s'"
proof -
  obtain err where err: "getProcessExecutionError p = Some err"
    using getProcessExecutionError_total [OF assms(2)] by blast
  let ?e = "EvProcess \<lparr>pss_identifier_p = a, pss_eProcState = eProcState p, pss_processGroupState = processGroupState p,
    pss_timestamp = ps_timestamp p, pss_executionError = err\<rparr>"
  show ?thesis
    using assms(1) err dl_push_inv [OF assms(1), of "ps_timestamp p" ?e]
    by (auto simp: dl_updateProcessState_def Let_def)
qed

lemma dl_evaluate_inv:
  assumes "dl_inv s"
  shows "\<exists>s'. dl_evaluate t s = Some s' \<and> dl_inv s' \<and> tsb_contents (dl_buffer s') = [] \<and> \<not> dl_isDataLossEvent s'"
proof (cases "dl_isDataLossEvent s")
  case True
  then show ?thesis
    using assms dl_handleDataLossReaction_core [of s] by (auto simp: dl_evaluate_def dl_inv_def)
next
  case False
  let ?es = "map snd (tsb_contents (dl_buffer s)) @ [EvSync t]"
  obtain b' where "tsb_inv b'"
    "dl_evaluate t s = Some ((fold dl_checkTransitions ?es s)\<lparr>dl_buffer := tsb_clear b', dl_lastSyncTimestamp := t\<rparr>)"
    using dl_evaluate_scan [OF assms False refl, of t] by blast
  then show ?thesis
    using dl_scan_core [of s ?es] assms False by (auto simp: dl_inv_def)
qed

text \<open>The states of a supervision that is fed by the daemon.\<close>

inductive dl_reachable :: "DeadlineSupervisionCfg \<Rightarrow> Deadline \<Rightarrow> bool" for cfg where
  dl_init: "dl_reachable cfg (Deadline_new cfg)"
| dl_checkpoint: "dl_reachable cfg s \<Longrightarrow> dl_updateCheckpoint c cp s = Some s' \<Longrightarrow> dl_reachable cfg s'"
| dl_process: "dl_reachable cfg s \<Longrightarrow> ProcessState_wf p \<Longrightarrow> dl_updateProcessState a p s = Some s' \<Longrightarrow> dl_reachable cfg s'"
| dl_cycle: "dl_reachable cfg s \<Longrightarrow> dl_evaluate t s = Some s' \<Longrightarrow> dl_reachable cfg s'"

lemma dl_reachable_inv: "dl_reachable cfg s \<Longrightarrow> dl_inv s"
proof (induction rule: dl_reachable.induct)
  case dl_init
  then show ?case by (rule Deadline_new_inv)
next
  case (dl_checkpoint s c cp s')
  then show ?case using dl_updateCheckpoint_inv [of s c cp] by auto
next
  case (dl_process s p a s')
  then show ?case using dl_updateProcessState_inv [of s p a] by auto
next
  case (dl_cycle s t s')
  then show ?case using dl_evaluate_inv [of s t] by auto
qed

subsection \<open>An example supervision\<close>

text \<open>Source checkpoint 11, target checkpoint 12, between 10 and 50 ns apart; activated and a source pending.\<close>

definition dl_example_cfg :: DeadlineSupervisionCfg where
  "dl_example_cfg = \<lparr>dcfg_checkpointBufferSize = 4, dcfg_refFuntionGroupStates = [1], dcfg_refProcesses = [7],
     dcfg_minDeadline = 10, dcfg_maxDeadline = 50, dcfg_isMinCheckDisabled = False, dcfg_isMaxCheckDisabled = False,
     dcfg_source_r = 11, dcfg_source_process = 7, dcfg_target_r = 12, dcfg_target_process = 7\<rparr>"

definition dl_example :: Deadline where
  "dl_example = (Deadline_new dl_example_cfg)\<lparr>deadlineStatus := C_ok, deadlineAdvState := DA_ok, sourceTimestamp := 100\<rparr>"

lemma dl_example_inv: "dl_inv dl_example"
  by (simp add: dl_example_def Deadline_new_def dl_inv_def dl_core_def)

lemma dl_example_simps:
  "dl_buffer dl_example = tsb_new 4" "dl_isDataLossEvent dl_example = False" "sourceTimestamp dl_example = 100"
  "deadlineStatus dl_example = C_ok" "dl_lo dl_example = Some 10" "dl_hi dl_example = Some 50"
  "source_r dl_example = 11" "target_r dl_example = 12" "k_maxDeadline dl_example = 50"
  "dl_isMaxCheckDisabled dl_example = False"
  by (simp_all add: dl_example_def Deadline_new_def dl_example_cfg_def dl_lo_def dl_hi_def)

subsection \<open>Properties\<close>

text \<open>
  A supervision that is fed by the daemon in any order of checkpoints, process changes and
  evaluations never gets stuck: every further operation returns and keeps the invariant, and an
  evaluation leaves neither unprocessed events nor an unanswered data loss.
\<close>

theorem deadline_never_stuck:
  assumes "dl_reachable cfg s" "ProcessState_wf p"
  shows "(\<exists>s'. dl_updateCheckpoint c cp s = Some s' \<and> dl_inv s') \<and>
    (\<exists>s'. dl_updateProcessState a p s = Some s' \<and> dl_inv s') \<and>
    (\<exists>s'. dl_evaluate t s = Some s' \<and> dl_inv s' \<and> tsb_contents (dl_buffer s') = [] \<and> \<not> dl_isDataLossEvent s')"
  using dl_reachable_inv [OF assms(1)] assms(2) dl_updateCheckpoint_inv dl_updateProcessState_inv dl_evaluate_inv
  by blast

theorem deadline_never_stuck_witness:
  "\<exists>s'. dl_evaluate 500 (Deadline_new dl_example_cfg) = Some s' \<and> dl_inv s'"
proof -
  have "ProcessState_wf (ProcessState_new \<lparr>cfg_processShortName = ''p'', cfg_processId = 3,
      cfg_configuredProcessGroupStates = [1], cfg_processExecutionErrors = [1]\<rparr>)"
    by (simp add: ProcessState_wf_def ProcessState_new_def)
  from deadline_never_stuck [OF dl_init this] show ?thesis by blast
qed

text \<open>
  (C26) An evaluation is a run of the deadline automaton over the buffered checkpoints in order of time,
  followed by a tick at the synchronisation time: the verdict, the pending source and the reported
  time of a failure are those of the automaton over unbounded times, although the code computes
  with 64-bit differences.
\<close>

theorem deadline_evaluate_refines:
  assumes "dl_inv s" "\<not> dl_isDataLossEvent s" "sourceTimestamp s \<le> t" "t \<noteq> 0"
    and "\<And>e. e \<in> snd ` set (tsb_contents (dl_buffer s)) \<Longrightarrow> \<not> is_process_event e \<and> getTimestampOfUpdateEvent e \<noteq> 0 \<and>
      sourceTimestamp s \<le> getTimestampOfUpdateEvent e \<and> getTimestampOfUpdateEvent e \<le> t"
  shows "\<exists>s'. dl_evaluate t s = Some s' \<and>
    dl_abs s' = fold (deadline_step (dl_lo s) (dl_hi s))
      (map (dl_observe s \<circ> snd) (tsb_contents (dl_buffer s)) @ [DI_tick (unat t)]) (dl_abs s)"
proof -
  let ?es = "map snd (tsb_contents (dl_buffer s)) @ [EvSync t]"
  obtain b' where ev:
    "dl_evaluate t s = Some ((fold dl_checkTransitions ?es s)\<lparr>dl_buffer := tsb_clear b', dl_lastSyncTimestamp := t\<rparr>)"
    using dl_evaluate_scan [OF assms(1,2) refl, of t] by blast
  have "sorted (map getTimestampOfUpdateEvent ?es)"
    using assms(1,5) by (intro events_sorted) (auto simp: dl_inv_def)
  moreover have "\<not> is_process_event e \<and> getTimestampOfUpdateEvent e \<noteq> 0 \<and> sourceTimestamp s \<le> getTimestampOfUpdateEvent e"
    if "e \<in> set ?es" for e
    using that assms(3,4) assms(5) [of e] by auto
  ultimately have "dl_abs (fold dl_checkTransitions ?es s) =
    fold (deadline_step (dl_lo s) (dl_hi s)) (map (dl_observe s) ?es) (dl_abs s)"
    using assms(1,2) by (intro dl_scan_refines) (auto simp: dl_inv_def)
  moreover have "dl_abs (s'\<lparr>dl_buffer := b, dl_lastSyncTimestamp := u\<rparr>) = dl_abs s'" for s' b u
    by (simp add: dl_abs_def split: CStatus.split)
  ultimately show ?thesis using ev by simp
qed

theorem deadline_evaluate_refines_witness:
  "\<exists>s'. dl_evaluate 160 dl_example = Some s' \<and> dl_abs s' = DV_expired 151"
  using deadline_evaluate_refines [OF dl_example_inv, of 160]
  by (simp add: dl_example_simps dl_abs_def late_def)

text \<open>
  (C27) The maximum deadline is exact: with a pending source and no checkpoint reported, an evaluation
  leaves the supervision ok while the time since the source does not exceed the maximum deadline,
  and expires it from the next nanosecond on, with the reported time one nanosecond after the
  deadline, however late the evaluation runs.
\<close>

theorem deadline_timeout_exact:
  assumes "dl_inv s" "\<not> dl_isDataLossEvent s" "deadlineStatus s = C_ok" "tsb_contents (dl_buffer s) = []"
    and "sourceTimestamp s \<noteq> 0" "sourceTimestamp s \<le> t" "\<not> dl_isMaxCheckDisabled s"
  shows "\<exists>s'. dl_evaluate t s = Some s' \<and>
    (if unat t \<le> unat (sourceTimestamp s) + unat (k_maxDeadline s)
     then deadlineStatus s' = C_ok \<and> sourceTimestamp s' = sourceTimestamp s
     else deadlineStatus s' = C_expired \<and>
       unat (dl_eventTimestamp s') = unat (sourceTimestamp s) + unat (k_maxDeadline s) + 1)"
proof -
  obtain b' where ev: "dl_evaluate t s =
      Some ((dl_checkTransitions (EvSync t) s)\<lparr>dl_buffer := tsb_clear b', dl_lastSyncTimestamp := t\<rparr>)"
    using dl_evaluate_scan [OF assms(1,2) refl, of t] assms(4) by auto
  have core: "dl_core s" "deadlineAdvState s = DA_ok" using assms(1,2,3) by (auto simp: dl_inv_def dl_core_def)
  have le: "unat t \<le> unat (sourceTimestamp s) + unat (k_maxDeadline s) \<longleftrightarrow> \<not> k_maxDeadline s < t - sourceTimestamp s"
    using assms(6) by (simp add: word_less_nat_alt unat_diff64 word_le_nat_alt) linarith
  show ?thesis
    using ev core assms(3,5-7) le unat_deadline_end [OF assms(6), of "k_maxDeadline s"]
    by (auto simp: dl_checkTransitions_eq dl_dispatch_checkpoint dl_checkTransitionsOutOfOk_def
        evaluateMissingTarget_def evaluateDeadline_def resetTimestamps_def Let_def)
qed

theorem deadline_timeout_exact_witness:
  "(\<exists>s'. dl_evaluate 150 dl_example = Some s' \<and> deadlineStatus s' = C_ok) \<and>
   (\<exists>s'. dl_evaluate 151 dl_example = Some s' \<and> deadlineStatus s' = C_expired)"
  using deadline_timeout_exact [OF dl_example_inv, of 150] deadline_timeout_exact [OF dl_example_inv, of 151]
  by (auto simp: dl_example_simps)

text \<open>
  Lost data is never ignored: whatever an update that finds the buffer full or reports a loss follows,
  the next evaluation expires the supervision, attributes no process, and regards all processes as
  active.
\<close>

theorem deadline_data_loss_expires:
  assumes "dl_inv s" "cp_isDataLossEvent cp \<or> tsb_capacity (dl_buffer s) \<le> length (tsb_contents (dl_buffer s))"
    and "dl_updateCheckpoint c cp s = Some s1"
  shows "\<exists>s'. dl_evaluate t s1 = Some s' \<and> deadlineStatus s' = C_expired \<and> \<not> dl_isDataLossEvent s' \<and>
    processTracker s' = setAllProcessesActive (processTracker s) \<and>
    (deadlineStatus s \<noteq> C_expired \<longrightarrow> dl_eventTimestamp s' = dl_lastSyncTimestamp s \<and>
       lastProcessExecutionError s' = kDefaultProcessExecutionError)"
proof -
  have "tsb_push (EvCheckpoint c (cp_timestamp cp)) (cp_timestamp cp) (dl_buffer s) = Some (False, dl_buffer s)"
    if "\<not> cp_isDataLossEvent cp" using that assms(1,2) tsb.push_full [of "dl_buffer s"] by (auto simp: dl_inv_def)
  then have s1: "dl_isDataLossEvent s1" "processTracker s1 = processTracker s" "deadlineStatus s1 = deadlineStatus s"
    "dl_eventTimestamp s1 = dl_lastSyncTimestamp s"
    "deadlineAdvState s1 = DA_ring_buffer_overflow \<or> deadlineAdvState s1 = DA_history_buffer_overflow"
    using assms(3) by (auto simp: dl_updateCheckpoint_def dl_push_def Let_def split: if_splits)
  then show ?thesis
    by (auto simp: dl_evaluate_def) (auto simp: dl_handleDataLossReaction_def dl_switch_defs)
qed

theorem deadline_data_loss_expires_witness:
  "\<exists>s1 s'. dl_updateCheckpoint 11 (setDataLossEvent True (Checkpoint_new ''c'' 1 7)) dl_example = Some s1 \<and>
     dl_evaluate 200 s1 = Some s' \<and> deadlineStatus s' = C_expired"
proof -
  let ?cp = "setDataLossEvent True (Checkpoint_new ''c'' 1 7)"
  obtain s1 where s1: "dl_updateCheckpoint 11 ?cp dl_example = Some s1"
    using dl_updateCheckpoint_inv [OF dl_example_inv] by blast
  have "cp_isDataLossEvent ?cp" by (simp add: setDataLossEvent_def)
  with deadline_data_loss_expires [OF dl_example_inv _ s1, of 200] s1 show ?thesis by auto
qed

end
