(* ===== verification/Logical_Supervision.thy ===== *)
theory Logical_Supervision
  imports Checkpoint_Supervision
begin

section \<open>Logical supervision\<close>

text \<open>
  Models \<^verbatim>\<open>saf/supervision/Logical.{hpp,cpp}\<close>: the reported checkpoints have to follow a configured graph.

  A graph element is identified by its index in the element vector (the vector is moved once, so
  the addresses stay valid), a checkpoint by its address; \<open>checkpointAt\<close> gives the checkpoint
  object behind an address, of which only the constant id and process are read. A dangling element
  pointer has no defined result (\<open>None\<close>). Log output is not modelled, the failure information kept
  for it is.
\<close>

subsection \<open>The graph\<close>

record GraphElement =
  k_isFinalCheckpoint :: bool
  trackedCheckpoint_r :: CheckpointIdentifier
  validNextElements :: "nat list"

datatype EResult = R_valid | R_validFinal | R_error

record Graph =
  elements :: "GraphElement list"
  entries :: "nat list"
  isGraphActive :: bool
  currentGraphPosition_p :: "nat option"

definition GraphElement_new :: "CheckpointIdentifier \<Rightarrow> bool \<Rightarrow> GraphElement" where
  "GraphElement_new f_checkpoint_r f_isFinal =
     \<lparr>k_isFinalCheckpoint = f_isFinal, trackedCheckpoint_r = f_checkpoint_r, validNextElements = []\<rparr>"

definition addValidNextGraphElement :: "nat \<Rightarrow> GraphElement \<Rightarrow> GraphElement" where
  "addValidNextGraphElement f_element_r e = e\<lparr>validNextElements := validNextElements e @ [f_element_r]\<rparr>"

definition Graph_new :: "nat list \<Rightarrow> GraphElement list \<Rightarrow> Graph" where
  "Graph_new f_entries_r f_graphElements_r =
     \<lparr>elements = f_graphElements_r, entries = f_entries_r, isGraphActive = False, currentGraphPosition_p = None\<rparr>"

definition graph_deref :: "Graph \<Rightarrow> nat \<Rightarrow> GraphElement option" where
  "graph_deref g p = (if p < length (elements g) then Some (elements g ! p) else None)"

text \<open>The loop over the successors has no early exit: the last match determines the result.\<close>

fun getNextElement_loop ::
  "Graph \<Rightarrow> CheckpointIdentifier \<Rightarrow> nat list \<Rightarrow> EResult \<times> nat \<Rightarrow> (EResult \<times> nat) option"
where
  "getNextElement_loop g f_checkpoint_r [] (result, f_returnElement_pr) = Some (result, f_returnElement_pr)"
| "getNextElement_loop g f_checkpoint_r (n # ns) (result, f_returnElement_pr) = do {
     validNextGraphElement \<leftarrow> graph_deref g n;
     getNextElement_loop g f_checkpoint_r ns
       (if trackedCheckpoint_r validNextGraphElement = f_checkpoint_r
        then (if k_isFinalCheckpoint validNextGraphElement then R_validFinal else R_valid, n)
        else (result, f_returnElement_pr))
   }"

definition getNextElement :: "Graph \<Rightarrow> nat \<Rightarrow> CheckpointIdentifier \<Rightarrow> (EResult \<times> nat) option" where
  "getNextElement g this f_checkpoint_r = do {
     element \<leftarrow> graph_deref g this;
     getNextElement_loop g f_checkpoint_r (validNextElements element) (R_error, this)
   }"

fun isValidEntry_loop :: "CheckpointIdentifier \<Rightarrow> nat list \<Rightarrow> Graph \<Rightarrow> (bool \<times> Graph) option" where
  "isValidEntry_loop f_checkpoint_r [] g = Some (False, g)"
| "isValidEntry_loop f_checkpoint_r (entry # rest) g = do {
     element \<leftarrow> graph_deref g entry;
     (if trackedCheckpoint_r element = f_checkpoint_r
      then Some (True, g\<lparr>currentGraphPosition_p := Some entry\<rparr>)
      else isValidEntry_loop f_checkpoint_r rest g)
   }"

definition isValidEntry :: "CheckpointIdentifier \<Rightarrow> Graph \<Rightarrow> (bool \<times> Graph) option" where
  "isValidEntry f_checkpoint_r g = isValidEntry_loop f_checkpoint_r (entries g) g"

definition isValidTransition :: "CheckpointIdentifier \<Rightarrow> Graph \<Rightarrow> (bool \<times> Graph) option" where
  "isValidTransition f_checkpoint_r g =
     (if \<not> isGraphActive g
      then do {
        (isEntry, g) \<leftarrow> isValidEntry f_checkpoint_r g;
        Some (if isEntry then (True, g\<lparr>isGraphActive := True\<rparr>) else (False, g))
      }
      else do {
        pos \<leftarrow> currentGraphPosition_p g;
        (result, pos) \<leftarrow> getNextElement g pos f_checkpoint_r;
        let g = g\<lparr>currentGraphPosition_p := Some pos\<rparr>;
        Some (case result of
                R_validFinal \<Rightarrow> (True, g\<lparr>isGraphActive := False\<rparr>)
              | R_error \<Rightarrow> (False, g)
              | R_valid \<Rightarrow> (True, g))
      })"

definition resetGraph :: "Graph \<Rightarrow> Graph" where
  "resetGraph g = g\<lparr>isGraphActive := False, currentGraphPosition_p := None\<rparr>"

subsection \<open>State of the supervision\<close>

datatype ELogicalReason = LR_DataLoss | LR_DataCorruption | LR_InvalidTransition

record ExpiredFailureInfo =
  currentCheckpointId :: u32
  reportedCheckpointId :: u32
  processReportedInvalidCp :: "ProcessStateIdentifier option"

definition ExpiredFailureInfo_new :: ExpiredFailureInfo where
  "ExpiredFailureInfo_new = \<lparr>currentCheckpointId = 0, reportedCheckpointId = 0, processReportedInvalidCp = None\<rparr>"

record LogicalSupervisionCfg =
  lcfg_checkpointBufferSize :: u16
  lcfg_refFuntionGroupStates :: "ProcessGroupId list"
  lcfg_refProcesses :: "ProcessStateIdentifier list"

record Logical = CheckpointSupervision +
  checkpointAt :: "CheckpointIdentifier \<Rightarrow> Checkpoint"
  graph_p :: "Graph option"
  lg_isDataLossEvent :: bool
  logicalStatus :: CStatus
  lg_failureInfo :: ExpiredFailureInfo
  lg_eventTimestamp :: NanoSecondType
  lg_lastSyncTimestamp :: NanoSecondType
  lg_buffer :: "TimeSortedUpdateEvent TimeSortingBuffer"

definition Logical_new :: "(CheckpointIdentifier \<Rightarrow> Checkpoint) \<Rightarrow> LogicalSupervisionCfg \<Rightarrow> Logical" where
  "Logical_new heap cfg =
     \<lparr>lastProcessExecutionError = kDefaultProcessExecutionError,
      processExecErrs = initProcessExecErrs (lcfg_refProcesses cfg),
      processTracker = ProcessStateTracker_new (lcfg_refFuntionGroupStates cfg) (lcfg_refProcesses cfg),
      pushedResults = [], checkpointAt = heap,
      graph_p = None, lg_isDataLossEvent = False, logicalStatus = C_deactivated,
      lg_failureInfo = ExpiredFailureInfo_new, lg_eventTimestamp = 0, lg_lastSyncTimestamp = 0,
      lg_buffer = tsb_new (lcfg_checkpointBufferSize cfg)\<rparr>"

definition addGraph :: "nat list \<Rightarrow> GraphElement list \<Rightarrow> Logical \<Rightarrow> Logical" where
  "addGraph f_graphEntries_r f_graphElements_r s = s\<lparr>graph_p := Some (Graph_new f_graphEntries_r f_graphElements_r)\<rparr>"

definition lg_pushResultToObservers :: "Logical \<Rightarrow> Logical" where
  "lg_pushResultToObservers s =
     s\<lparr>pushedResults := pushedResults s @
         [\<lparr>res_status = logicalStatus s, res_timestamp = lg_eventTimestamp s,
           res_executionError = lastProcessExecutionError s\<rparr>]\<rparr>"

subsection \<open>Updates\<close>

definition lg_push :: "TimeSortedUpdateEvent \<Rightarrow> NanoSecondType \<Rightarrow> Logical \<Rightarrow> Logical option" where
  "lg_push e t s = do {
     (success, b) \<leftarrow> tsb_push e t (lg_buffer s);
     let s = s\<lparr>lg_buffer := b\<rparr>;
     Some (if success then s
           else s\<lparr>lg_isDataLossEvent := True, lg_eventTimestamp := lg_lastSyncTimestamp s\<rparr>)
   }"

definition lg_updateCheckpoint :: "CheckpointIdentifier \<Rightarrow> Checkpoint \<Rightarrow> Logical \<Rightarrow> Logical option" where
  "lg_updateCheckpoint addr f_observable_r s =
     (let timestamp = cp_timestamp f_observable_r
      in if cp_isDataLossEvent f_observable_r
         then Some (s\<lparr>lg_isDataLossEvent := True,
                      lg_eventTimestamp := (if timestamp = 0 then lg_lastSyncTimestamp s else timestamp)\<rparr>)
         else lg_push (EvCheckpoint addr timestamp) timestamp s)"

definition lg_updateProcessState :: "ProcessStateIdentifier \<Rightarrow> ProcessState \<Rightarrow> Logical \<Rightarrow> Logical option" where
  "lg_updateProcessState addr f_observable_r s =
     (let state = eProcState f_observable_r
      in if isProcessStateRelevant state (processTracker s)
         then do {
           let timestamp = ps_timestamp f_observable_r;
           executionError \<leftarrow> getProcessExecutionError f_observable_r;
           lg_push (EvProcess \<lparr>pss_identifier_p = addr, pss_eProcState = state,
                                pss_processGroupState = processGroupState f_observable_r,
                                pss_timestamp = timestamp, pss_executionError = executionError\<rparr>) timestamp s
         }
         else Some s)"

subsection \<open>State switches\<close>

definition lg_switchToDeactivated :: "Logical \<Rightarrow> Logical" where
  "lg_switchToDeactivated s = lg_pushResultToObservers
     (s\<lparr>logicalStatus := C_deactivated, graph_p := map_option resetGraph (graph_p s)\<rparr>)"

definition lg_switchToOk :: "Logical \<Rightarrow> Logical" where
  "lg_switchToOk s = lg_pushResultToObservers (s\<lparr>logicalStatus := C_ok\<rparr>)"

text \<open>
  The execution error is looked up for the process pointer of the failure information. For a null
  pointer the lookup would create an entry with the value 0 that no other lookup reads; the
  pointer is set before every switch with this reason.
\<close>

definition lg_switchToExpired :: "ELogicalReason \<Rightarrow> Logical \<Rightarrow> Logical" where
  "lg_switchToExpired reason s =
     (let s = s\<lparr>lastProcessExecutionError := kDefaultProcessExecutionError\<rparr>;
          s = (if reason = LR_InvalidTransition
               then (case processReportedInvalidCp (lg_failureInfo s) of
                       Some process \<Rightarrow>
                         (let (err, s) = getProcessExecutionErrorForProcess process s
                          in s\<lparr>lastProcessExecutionError := err\<rparr>)
                     | None \<Rightarrow> s\<lparr>lastProcessExecutionError := 0\<rparr>)
               else s)
      in lg_pushResultToObservers (s\<lparr>logicalStatus := C_expired\<rparr>))"

subsection \<open>Transitions\<close>

definition isValidGraphTransition :: "CheckpointIdentifier \<Rightarrow> Logical \<Rightarrow> (bool \<times> Logical) option" where
  "isValidGraphTransition f_checkpoint_r s =
     (case graph_p s of
        None \<Rightarrow> Some (False, s)
      | Some g \<Rightarrow> do {
          (isValid, g) \<leftarrow> isValidTransition f_checkpoint_r g;
          Some (isValid, s\<lparr>graph_p := Some g\<rparr>)
        })"

definition lg_checkTransitionsOutOfDeactivated :: "EUpdateEventType \<Rightarrow> NanoSecondType \<Rightarrow> Logical \<Rightarrow> Logical" where
  "lg_checkTransitionsOutOfDeactivated f_updateEventType f_updateEventTimestamp s =
     (if f_updateEventType = kActivation
      then lg_switchToOk (s\<lparr>lg_eventTimestamp := f_updateEventTimestamp\<rparr>) else s)"

definition lg_checkTransitionsToDeactivated :: "EUpdateEventType \<Rightarrow> NanoSecondType \<Rightarrow> Logical \<Rightarrow> Logical" where
  "lg_checkTransitionsToDeactivated f_updateEventType f_updateEventTimestamp s =
     (if f_updateEventType = kDeactivation \<and> logicalStatus s \<noteq> C_deactivated
      then lg_switchToDeactivated (s\<lparr>lg_eventTimestamp := f_updateEventTimestamp\<rparr>) else s)"

definition lg_checkForRecoveryTransition :: "EUpdateEventType \<Rightarrow> NanoSecondType \<Rightarrow> Logical \<Rightarrow> bool \<times> Logical" where
  "lg_checkForRecoveryTransition f_updateEventType f_updateEventTimestamp s =
     (if f_updateEventType = kRecoveredFromCrash
      then (True, lg_checkTransitionsOutOfDeactivated kActivation f_updateEventTimestamp (lg_switchToDeactivated s))
      else (False, s))"

definition lg_currentCheckpointId :: "Logical \<Rightarrow> u32 option" where
  "lg_currentCheckpointId s =
     (case graph_p s of
        None \<Rightarrow> Some 0
      | Some g \<Rightarrow>
          (if isGraphActive g
           then do {
             pos \<leftarrow> currentGraphPosition_p g;
             element \<leftarrow> graph_deref g pos;
             Some (cp_checkpointId (checkpointAt s (trackedCheckpoint_r element)))
           }
           else Some 0))"

definition lg_checkTransitionsOutOfOk ::
  "EUpdateEventType \<Rightarrow> NanoSecondType \<Rightarrow> TimeSortedUpdateEvent \<Rightarrow> Logical \<Rightarrow> Logical option"
where
  "lg_checkTransitionsOutOfOk f_updateEventType f_updateEventTimestamp f_updateEvent s =
     (case f_updateEvent of
        EvCheckpoint checkpoint_p _ \<Rightarrow>
          (if f_updateEventType = kCheckpoint
           then do {
             let s = s\<lparr>lg_eventTimestamp := f_updateEventTimestamp\<rparr>;
             (isValid, s) \<leftarrow> isValidGraphTransition checkpoint_p s;
             (if \<not> isValid
              then do {
                current \<leftarrow> lg_currentCheckpointId s;
                Some (lg_switchToExpired LR_InvalidTransition
                  (s\<lparr>lg_failureInfo :=
                      \<lparr>currentCheckpointId = current,
                       reportedCheckpointId = cp_checkpointId (checkpointAt s checkpoint_p),
                       processReportedInvalidCp = Some (cp_processState (checkpointAt s checkpoint_p))\<rparr>\<rparr>))
              }
              else Some s)
           }
           else Some s)
      | _ \<Rightarrow> Some s)"

text \<open>One iteration of the evaluation loop.\<close>

definition lg_iteration :: "TimeSortedUpdateEvent \<Rightarrow> Logical \<Rightarrow> Logical option" where
  "lg_iteration sortedUpdateEvent s = do {
     let timestampOfUpdateEvent = getTimestampOfUpdateEvent sortedUpdateEvent;
     let (currentUpdateType, s) = getEventType sortedUpdateEvent s;
     s \<leftarrow> (case logicalStatus s of
            C_deactivated \<Rightarrow> Some (lg_checkTransitionsOutOfDeactivated currentUpdateType timestampOfUpdateEvent s)
          | C_ok \<Rightarrow> lg_checkTransitionsOutOfOk currentUpdateType timestampOfUpdateEvent sortedUpdateEvent s
          | C_expired \<Rightarrow> Some s
          | C_failed \<Rightarrow> Some (lg_switchToExpired LR_DataCorruption (s\<lparr>lg_eventTimestamp := lg_lastSyncTimestamp s\<rparr>)));
     let (recovered, s) = lg_checkForRecoveryTransition currentUpdateType timestampOfUpdateEvent s;
     Some (if \<not> recovered then lg_checkTransitionsToDeactivated currentUpdateType timestampOfUpdateEvent s else s)
   }"

definition lg_evaluate :: "NanoSecondType \<Rightarrow> Logical \<Rightarrow> Logical option" where
  "lg_evaluate f_syncTimestamp s =
     (if lg_isDataLossEvent s
      then (let s = (if logicalStatus s \<noteq> C_expired then lg_switchToExpired LR_DataLoss s else s)
            in Some (s\<lparr>lg_buffer := tsb_clear (lg_buffer s),
                       processTracker := setAllProcessesActive (processTracker s),
                       lg_isDataLossEvent := False, lg_lastSyncTimestamp := f_syncTimestamp\<rparr>))
      else do {
        (b, s) \<leftarrow> for_each tsb_getNextElement lg_iteration (lg_buffer s) s;
        Some (s\<lparr>lg_buffer := tsb_clear b, lg_lastSyncTimestamp := f_syncTimestamp\<rparr>)
      })"

subsection \<open>Walking the graph\<close>

text \<open>
  Element pointers are valid, every element tracks another checkpoint, and an active graph has a
  position.
\<close>

definition graph_wf :: "Graph \<Rightarrow> bool" where
  "graph_wf g \<longleftrightarrow> distinct (map trackedCheckpoint_r (elements g)) \<and>
     (\<forall>i \<in> set (entries g). i < length (elements g)) \<and>
     (\<forall>e \<in> set (elements g). \<forall>i \<in> set (validNextElements e). i < length (elements g)) \<and>
     (isGraphActive g \<longrightarrow> (\<exists>p. currentGraphPosition_p g = Some p \<and> p < length (elements g)))"

text \<open>The configured graph as a relation on checkpoints, and the position in it.\<close>

definition is_entry :: "Graph \<Rightarrow> CheckpointIdentifier \<Rightarrow> bool" where
  "is_entry g c \<longleftrightarrow> (\<exists>i \<in> set (entries g). trackedCheckpoint_r (elements g ! i) = c)"

definition is_edge :: "Graph \<Rightarrow> CheckpointIdentifier \<Rightarrow> CheckpointIdentifier \<Rightarrow> bool" where
  "is_edge g p c \<longleftrightarrow> (\<exists>e \<in> set (elements g). trackedCheckpoint_r e = p \<and>
     (\<exists>i \<in> set (validNextElements e). trackedCheckpoint_r (elements g ! i) = c))"

definition is_final :: "Graph \<Rightarrow> CheckpointIdentifier \<Rightarrow> bool" where
  "is_final g c \<longleftrightarrow> (\<exists>e \<in> set (elements g). trackedCheckpoint_r e = c \<and> k_isFinalCheckpoint e)"

definition graph_abs :: "Graph \<Rightarrow> CheckpointIdentifier option" where
  "graph_abs g = (if isGraphActive g
     then map_option (\<lambda>p. trackedCheckpoint_r (elements g ! p)) (currentGraphPosition_p g) else None)"

text \<open>
  A sequence of timed checkpoints is checked against the graph from a position; the result is the
  first checkpoint that does not fit with its time, or the position reached.
\<close>

fun graph_run :: "Graph \<Rightarrow> CheckpointIdentifier option \<Rightarrow> (NanoSecondType \<times> CheckpointIdentifier) list \<Rightarrow>
    ((NanoSecondType \<times> CheckpointIdentifier) + CheckpointIdentifier option)" where
  "graph_run g pos [] = Inr pos"
| "graph_run g None ((t, c) # cs) = (if is_entry g c then graph_run g (Some c) cs else Inl (t, c))"
| "graph_run g (Some p) ((t, c) # cs) =
     (if is_edge g p c then graph_run g (if is_final g c then None else Some c) cs else Inl (t, c))"

definition same_graph :: "Graph \<Rightarrow> Graph \<Rightarrow> bool" where
  "same_graph g g' \<longleftrightarrow> elements g' = elements g \<and> entries g' = entries g"

lemma same_graph_spec:
  assumes "same_graph g g'"
  shows "is_entry g' = is_entry g" "is_edge g' = is_edge g" "is_final g' = is_final g"
  using assms by (auto simp: same_graph_def is_entry_def is_edge_def is_final_def fun_eq_iff)

lemma same_graph_run: "same_graph g g' \<Longrightarrow> graph_run g' pos cs = graph_run g pos cs"
  by (induction g pos cs rule: graph_run.induct) (simp_all add: same_graph_spec)

lemma graph_unique:
  assumes "graph_wf g" "e \<in> set (elements g)" "i < length (elements g)"
    and "trackedCheckpoint_r e = trackedCheckpoint_r (elements g ! i)"
  shows "e = elements g ! i"
proof -
  have "inj_on trackedCheckpoint_r (set (elements g))" using assms(1) by (simp add: graph_wf_def distinct_map)
  from inj_onD [OF this assms(4,2) nth_mem [OF assms(3)]] show ?thesis .
qed

lemma is_final_nth:
  assumes "graph_wf g" "i < length (elements g)"
  shows "is_final g (trackedCheckpoint_r (elements g ! i)) = k_isFinalCheckpoint (elements g ! i)"
  using graph_unique [OF assms(1) _ assms(2)] nth_mem [OF assms(2)] unfolding is_final_def by metis

lemma is_edge_nth:
  assumes "graph_wf g" "i < length (elements g)"
  shows "is_edge g (trackedCheckpoint_r (elements g ! i)) c \<longleftrightarrow>
    (\<exists>n \<in> set (validNextElements (elements g ! i)). trackedCheckpoint_r (elements g ! n) = c)"
  using graph_unique [OF assms(1) _ assms(2)] nth_mem [OF assms(2)] unfolding is_edge_def by metis

lemma getNextElement_loop_spec:
  assumes "\<forall>n \<in> set ns. n < length (elements g)"
  shows "(\<nexists>n. n \<in> set ns \<and> trackedCheckpoint_r (elements g ! n) = c) \<and>
           getNextElement_loop g c ns (r, q) = Some (r, q) \<or>
         (\<exists>n \<in> set ns. trackedCheckpoint_r (elements g ! n) = c \<and> getNextElement_loop g c ns (r, q) =
           Some (if k_isFinalCheckpoint (elements g ! n) then R_validFinal else R_valid, n))"
  using assms
proof (induction ns arbitrary: r q)
  case (Cons n ns)
  let ?r = "if k_isFinalCheckpoint (elements g ! n) then R_validFinal else R_valid"
  have ns: "\<forall>n \<in> set ns. n < length (elements g)" and n: "graph_deref g n = Some (elements g ! n)"
    using Cons.prems by (simp_all add: graph_deref_def)
  show ?case
  proof (cases "trackedCheckpoint_r (elements g ! n) = c")
    case True
    then have "getNextElement_loop g c (n # ns) (r, q) = getNextElement_loop g c ns (?r, n)" using n by simp
    with True Cons.IH [OF ns, of ?r n] show ?thesis by (metis list.set_intros)
  next
    case False
    then have "getNextElement_loop g c (n # ns) (r, q) = getNextElement_loop g c ns (r, q)" using n by simp
    with False Cons.IH [OF ns, of r q] show ?thesis by (metis list.set_intros(2) set_ConsD)
  qed
qed simp

lemma isValidEntry_loop_spec:
  assumes "\<forall>n \<in> set ns. n < length (elements g)"
  shows "(\<nexists>n. n \<in> set ns \<and> trackedCheckpoint_r (elements g ! n) = c) \<and> isValidEntry_loop c ns g = Some (False, g) \<or>
    (\<exists>n \<in> set ns. trackedCheckpoint_r (elements g ! n) = c \<and>
      isValidEntry_loop c ns g = Some (True, g\<lparr>currentGraphPosition_p := Some n\<rparr>))"
  using assms by (induction ns) (auto simp: graph_deref_def)

text \<open>One checkpoint is one step of \<open>graph_run\<close>; the walk never meets an invalid pointer.\<close>

lemma isValidTransition_entry:
  assumes "graph_wf g" "\<not> isGraphActive g"
  shows "\<exists>g'. isValidTransition c g = Some (is_entry g c, g') \<and> graph_wf g' \<and> same_graph g g' \<and>
    graph_abs g' = (if is_entry g c then Some c else None)"
proof -
  have "\<forall>n \<in> set (entries g). n < length (elements g)" using assms(1) by (simp add: graph_wf_def)
  from isValidEntry_loop_spec [OF this, of c] show ?thesis
  proof (elim disjE conjE bexE)
    assume "\<nexists>n. n \<in> set (entries g) \<and> trackedCheckpoint_r (elements g ! n) = c"
      and "isValidEntry_loop c (entries g) g = Some (False, g)"
    then show ?thesis
      using assms by (auto simp: isValidTransition_def isValidEntry_def same_graph_def graph_abs_def is_entry_def)
  next
    fix n assume n: "n \<in> set (entries g)" "trackedCheckpoint_r (elements g ! n) = c"
      and "isValidEntry_loop c (entries g) g = Some (True, g\<lparr>currentGraphPosition_p := Some n\<rparr>)"
    moreover have "is_entry g c" using n by (auto simp: is_entry_def)
    ultimately show ?thesis
      using assms by (simp add: isValidTransition_def isValidEntry_def same_graph_def graph_abs_def graph_wf_def)
  qed
qed

lemma isValidTransition_edge:
  assumes "graph_wf g" "graph_abs g = Some p"
  shows "\<exists>g'. isValidTransition c g = Some (is_edge g p c, g') \<and> graph_wf g' \<and> same_graph g g' \<and>
    graph_abs g' = (if \<not> is_edge g p c then Some p else if is_final g c then None else Some c)"
proof -
  obtain i where i: "isGraphActive g" "currentGraphPosition_p g = Some i" "i < length (elements g)"
    "p = trackedCheckpoint_r (elements g ! i)"
    using assms by (auto simp: graph_wf_def graph_abs_def split: if_splits)
  let ?ns = "validNextElements (elements g ! i)"
  note edge = is_edge_nth [OF assms(1) i(3), of c, folded i(4)]
  have ns: "\<forall>n \<in> set ?ns. n < length (elements g)" using assms(1) nth_mem [OF i(3)] by (auto simp: graph_wf_def)
  from getNextElement_loop_spec [OF this, of c R_error i] show ?thesis
  proof (elim disjE conjE bexE)
    assume "\<nexists>n. n \<in> set ?ns \<and> trackedCheckpoint_r (elements g ! n) = c"
      and "getNextElement_loop g c ?ns (R_error, i) = Some (R_error, i)"
    then show ?thesis
      using assms i edge
      by (auto simp: isValidTransition_def getNextElement_def graph_deref_def same_graph_def graph_abs_def graph_wf_def)
  next
    fix n assume n: "n \<in> set ?ns" "trackedCheckpoint_r (elements g ! n) = c"
      and "getNextElement_loop g c ?ns (R_error, i) =
        Some (if k_isFinalCheckpoint (elements g ! n) then R_validFinal else R_valid, n)"
    moreover have "n < length (elements g)" using n(1) ns by blast
    moreover have "is_edge g p c" using n edge by blast
    moreover have "is_final g c = k_isFinalCheckpoint (elements g ! n)"
      using is_final_nth [OF assms(1) \<open>n < length (elements g)\<close>] n(2) by simp
    ultimately show ?thesis
      using assms i
      by (auto simp: isValidTransition_def getNextElement_def graph_deref_def same_graph_def graph_abs_def graph_wf_def)
  qed
qed

subsection \<open>Invariant\<close>

definition lg_core :: "Logical \<Rightarrow> bool" where
  "lg_core s \<longleftrightarrow> logicalStatus s \<noteq> C_failed \<and>
     (\<forall>g. graph_p s = Some g \<longrightarrow> graph_wf g \<and> (logicalStatus s = C_deactivated \<longrightarrow> \<not> isGraphActive g))"

definition lg_inv :: "Logical \<Rightarrow> bool" where
  "lg_inv s \<longleftrightarrow> lg_core s \<and> sup_tracker_inv s \<and> tsb_inv (lg_buffer s) \<and>
     lastReportedElement_p (lg_buffer s) = None \<and> events_keyed (lg_buffer s)"

lemmas lg_switch_defs = lg_switchToDeactivated_def lg_switchToOk_def lg_switchToExpired_def
  lg_pushResultToObservers_def getProcessExecutionErrorForProcess_def

lemma lg_switch_simps [simp]:
  "logicalStatus (lg_switchToDeactivated s) = C_deactivated"
  "graph_p (lg_switchToDeactivated s) = map_option resetGraph (graph_p s)"
  "logicalStatus (lg_switchToOk s) = C_ok" "graph_p (lg_switchToOk s) = graph_p s"
  "logicalStatus (lg_switchToExpired r s) = C_expired" "graph_p (lg_switchToExpired r s) = graph_p s"
  "lg_eventTimestamp (lg_switchToExpired r s) = lg_eventTimestamp s"
  by (simp_all add: lg_switch_defs Let_def split: option.split)

lemma lg_switch_frame [simp]:
  "lg_buffer (lg_switchToDeactivated s) = lg_buffer s" "processTracker (lg_switchToDeactivated s) = processTracker s"
  "lg_buffer (lg_switchToOk s) = lg_buffer s" "processTracker (lg_switchToOk s) = processTracker s"
  "lg_buffer (lg_switchToExpired r s) = lg_buffer s" "processTracker (lg_switchToExpired r s) = processTracker s"
  "lg_isDataLossEvent (lg_switchToDeactivated s) = lg_isDataLossEvent s"
  "lg_isDataLossEvent (lg_switchToOk s) = lg_isDataLossEvent s"
  "lg_isDataLossEvent (lg_switchToExpired r s) = lg_isDataLossEvent s"
  by (simp_all add: lg_switch_defs Let_def split: option.split)

lemma resetGraph_wf [simp]: "graph_wf g \<Longrightarrow> graph_wf (resetGraph g)" "\<not> isGraphActive (resetGraph g)"
  by (simp_all add: graph_wf_def resetGraph_def)

lemma lg_getEventType [simp]:
  "lg_core (snd (getEventType e s)) = lg_core s" "logicalStatus (snd (getEventType e s)) = logicalStatus (s :: Logical)"
  "lg_buffer (snd (getEventType e s)) = lg_buffer s" "lg_isDataLossEvent (snd (getEventType e s)) = lg_isDataLossEvent s"
  "graph_p (snd (getEventType e s)) = graph_p s"
  by (cases e; simp add: lg_core_def Let_def setProcessExecutionErrorForProcess_def split: prod.split)+

lemma isValidTransition_total:
  assumes "graph_wf g"
  shows "\<exists>v g'. isValidTransition c g = Some (v, g') \<and> graph_wf g'"
proof (cases "graph_abs g")
  case None
  with assms have "\<not> isGraphActive g" by (auto simp: graph_abs_def graph_wf_def)
  with assms isValidTransition_entry show ?thesis by blast
next
  case (Some p)
  with assms isValidTransition_edge show ?thesis by blast
qed

lemma lg_currentCheckpointId_total:
  "(\<forall>g. graph_p s = Some g \<longrightarrow> graph_wf g) \<Longrightarrow> \<exists>i. lg_currentCheckpointId s = Some i"
  by (auto simp: lg_currentCheckpointId_def graph_wf_def graph_deref_def split: option.split)

lemma lg_checkTransitionsOutOfOk_total:
  assumes "lg_core s" "logicalStatus s = C_ok"
  shows "\<exists>s'. lg_checkTransitionsOutOfOk u t e s = Some s' \<and> lg_core s' \<and> lg_buffer s' = lg_buffer s \<and>
    processTracker s' = processTracker s \<and> lg_isDataLossEvent s' = lg_isDataLossEvent s"
proof (cases e)
  case (EvCheckpoint c v)
  let ?s = "s\<lparr>lg_eventTimestamp := t\<rparr>"
  obtain valid s1 where s1: "isValidGraphTransition c ?s = Some (valid, s1)" "lg_core s1" "logicalStatus s1 = C_ok"
    "lg_buffer s1 = lg_buffer s" "processTracker s1 = processTracker s" "lg_isDataLossEvent s1 = lg_isDataLossEvent s"
    using assms isValidTransition_total [of "the (graph_p s)" c]
    by (cases "graph_p s") (auto simp: isValidGraphTransition_def lg_core_def)
  obtain i where "lg_currentCheckpointId s1 = Some i"
    using lg_currentCheckpointId_total [of s1] s1(2) by (auto simp: lg_core_def)
  with s1 assms EvCheckpoint show ?thesis
    by (auto simp: lg_checkTransitionsOutOfOk_def lg_core_def Let_def)
qed (use assms in \<open>auto simp: lg_checkTransitionsOutOfOk_def\<close>)

text \<open>The second half of an iteration: recovery or deactivation.\<close>

definition lg_finish :: "EUpdateEventType \<Rightarrow> NanoSecondType \<Rightarrow> Logical \<Rightarrow> Logical" where
  "lg_finish u t s = (let (recovered, s) = lg_checkForRecoveryTransition u t s
     in if \<not> recovered then lg_checkTransitionsToDeactivated u t s else s)"

lemma lg_finish_core:
  "lg_core s \<Longrightarrow> lg_core (lg_finish u t s)" "lg_buffer (lg_finish u t s) = lg_buffer s"
  "processTracker (lg_finish u t s) = processTracker s" "lg_isDataLossEvent (lg_finish u t s) = lg_isDataLossEvent s"
  by (auto simp: lg_finish_def lg_checkForRecoveryTransition_def lg_checkTransitionsToDeactivated_def
      lg_checkTransitionsOutOfDeactivated_def lg_core_def)

lemma lg_iteration_unfold:
  "lg_iteration e s = do {
     s1 \<leftarrow> (case logicalStatus s of
            C_deactivated \<Rightarrow> Some (lg_checkTransitionsOutOfDeactivated (fst (getEventType e s)) (getTimestampOfUpdateEvent e) (snd (getEventType e s)))
          | C_ok \<Rightarrow> lg_checkTransitionsOutOfOk (fst (getEventType e s)) (getTimestampOfUpdateEvent e) e (snd (getEventType e s))
          | C_expired \<Rightarrow> Some (snd (getEventType e s))
          | C_failed \<Rightarrow> Some (lg_switchToExpired LR_DataCorruption ((snd (getEventType e s))\<lparr>lg_eventTimestamp := lg_lastSyncTimestamp (snd (getEventType e s))\<rparr>)));
     Some (lg_finish (fst (getEventType e s)) (getTimestampOfUpdateEvent e) s1)
   }"
  by (simp add: lg_iteration_def lg_finish_def Let_def case_prod_beta)

lemma lg_iteration_total:
  assumes "lg_core s" "sup_tracker_inv s"
  shows "\<exists>s'. lg_iteration e s = Some s' \<and> lg_core s' \<and> sup_tracker_inv s' \<and> lg_isDataLossEvent s' = lg_isDataLossEvent s"
proof -
  let ?s = "snd (getEventType e s)" and ?u = "fst (getEventType e s)" and ?t = "getTimestampOfUpdateEvent e"
  have s: "lg_core ?s" "sup_tracker_inv ?s" using assms by (simp_all add: getEventType_tracker_inv)
  have "\<exists>s1. lg_iteration e s = Some (lg_finish ?u ?t s1) \<and> lg_core s1 \<and> sup_tracker_inv s1 \<and>
    lg_isDataLossEvent s1 = lg_isDataLossEvent s"
  proof (cases "logicalStatus s")
    case C_ok
    then obtain s1 where "lg_checkTransitionsOutOfOk ?u ?t e ?s = Some s1" "lg_core s1"
      "processTracker s1 = processTracker ?s" "lg_isDataLossEvent s1 = lg_isDataLossEvent ?s"
      using lg_checkTransitionsOutOfOk_total [OF s(1), of ?u ?t e] by auto
    with C_ok s(2) show ?thesis by (intro exI [of _ s1]) (simp add: lg_iteration_unfold)
  next
    case C_deactivated
    with s show ?thesis
      by (auto simp: lg_iteration_unfold lg_checkTransitionsOutOfDeactivated_def lg_core_def)
  qed (use s assms in \<open>auto simp: lg_iteration_unfold lg_core_def\<close>)
  then show ?thesis using lg_finish_core by auto
qed

lemma lg_scan_total:
  assumes "lg_core s" "sup_tracker_inv s"
  shows "\<exists>s'. fold_opt lg_iteration es s = Some s' \<and> lg_core s' \<and> sup_tracker_inv s' \<and>
    lg_isDataLossEvent s' = lg_isDataLossEvent s"
  using assms
proof (induction es arbitrary: s)
  case (Cons e es)
  then obtain s1 where "lg_iteration e s = Some s1" "lg_core s1" "sup_tracker_inv s1"
    "lg_isDataLossEvent s1 = lg_isDataLossEvent s"
    using lg_iteration_total [of s e] by blast
  with Cons.IH [of s1] show ?case by auto
qed simp

lemma lg_evaluate_scan:
  assumes "lg_inv s" "\<not> lg_isDataLossEvent s"
  shows "\<exists>s' b'. fold_opt lg_iteration (map snd (tsb_contents (lg_buffer s))) s = Some s' \<and> lg_core s' \<and>
    sup_tracker_inv s' \<and> \<not> lg_isDataLossEvent s' \<and> tsb_inv b' \<and>
    lg_evaluate t s = Some (s'\<lparr>lg_buffer := tsb_clear b', lg_lastSyncTimestamp := t\<rparr>)"
proof -
  let ?es = "map snd (tsb_contents (lg_buffer s))"
  obtain s' where "fold_opt lg_iteration ?es s = Some s'" "lg_core s'" "sup_tracker_inv s'" "\<not> lg_isDataLossEvent s'"
    using lg_scan_total [of s ?es] assms by (auto simp: lg_inv_def)
  moreover have "tsb_remaining (lg_buffer s) = ?es"
    using assms(1) by (simp add: lg_inv_def tsb_fresh_remaining)
  ultimately show ?thesis
    using tsb.for_each_fold [of "lg_buffer s" lg_iteration s] assms
    by (auto simp: lg_evaluate_def lg_inv_def)
qed

subsection \<open>Checkpoints drive the graph\<close>

lemma lg_finish_checkpoint [simp]: "lg_finish kCheckpoint t s = s"
  by (simp add: lg_finish_def lg_checkForRecoveryTransition_def lg_checkTransitionsToDeactivated_def)

lemma lg_iteration_expired: "logicalStatus s = C_expired \<Longrightarrow> lg_iteration (EvCheckpoint c t) s = Some s"
  by (simp add: lg_iteration_unfold)

lemma lg_iteration_checkpoint:
  assumes "isValidTransition c g = Some (valid, g')" "graph_wf g'" "logicalStatus s = C_ok" "graph_p s = Some g"
  shows "\<exists>s'. lg_iteration (EvCheckpoint c t) s = Some s' \<and> graph_p s' = Some g' \<and> lg_eventTimestamp s' = t \<and>
    (if valid then logicalStatus s' = C_ok \<and> pushedResults s' = pushedResults s \<and>
       processExecErrs s' = processExecErrs s \<and> checkpointAt s' = checkpointAt s
     else logicalStatus s' = C_expired \<and>
       (\<forall>err. processExecErrs s (cp_processState (checkpointAt s c)) = Some err \<longrightarrow> lastProcessExecutionError s' = err))"
proof -
  let ?s = "s\<lparr>lg_eventTimestamp := t, graph_p := Some g'\<rparr>"
  obtain i where "lg_currentCheckpointId ?s = Some i"
    using lg_currentCheckpointId_total [of ?s] assms(2) by auto
  with assms show ?thesis
    by (cases valid)
      (auto simp: lg_iteration_unfold lg_checkTransitionsOutOfOk_def isValidGraphTransition_def,
       auto simp: lg_switch_defs)
qed

text \<open>The reported checkpoints with their times, in order of time.\<close>

definition reported_checkpoints :: "TimeSortedUpdateEvent list \<Rightarrow> (NanoSecondType \<times> CheckpointIdentifier) list" where
  "reported_checkpoints es = concat (map (\<lambda>e. case e of EvCheckpoint c t \<Rightarrow> [(t, c)] | _ \<Rightarrow> []) es)"

lemma lg_scan_expired:
  "logicalStatus s = C_expired \<Longrightarrow> (\<And>e. e \<in> set es \<Longrightarrow> \<exists>c t. e = EvCheckpoint c t) \<Longrightarrow>
   fold_opt lg_iteration es s = Some s"
proof (induction es)
  case (Cons e es)
  then obtain c t where "e = EvCheckpoint c t" by (metis list.set_intros(1))
  with Cons show ?case by (simp add: lg_iteration_expired)
qed simp

text \<open>The state after a scan agrees with the result of the run over the graph.\<close>

definition lg_agrees :: "Logical \<Rightarrow> Logical \<Rightarrow> (NanoSecondType \<times> CheckpointIdentifier) + CheckpointIdentifier option \<Rightarrow> bool" where
  "lg_agrees s s' r = (case r of
     Inl (u, c) \<Rightarrow> logicalStatus s' = C_expired \<and> lg_eventTimestamp s' = u \<and>
       (\<forall>err. processExecErrs s (cp_processState (checkpointAt s c)) = Some err \<longrightarrow> lastProcessExecutionError s' = err)
   | Inr pos \<Rightarrow> logicalStatus s' = C_ok \<and> pushedResults s' = pushedResults s \<and>
       (\<exists>g. graph_p s' = Some g \<and> graph_abs g = pos))"

lemma lg_scan_run:
  assumes "logicalStatus s = C_ok" "graph_p s = Some g" "graph_wf g"
    and "\<And>e. e \<in> set es \<Longrightarrow> \<exists>c t. e = EvCheckpoint c t"
  shows "\<exists>s'. fold_opt lg_iteration es s = Some s' \<and> lg_agrees s s' (graph_run g (graph_abs g) (reported_checkpoints es))"
  using assms
proof (induction es arbitrary: s g)
  case Nil
  then show ?case by (simp add: reported_checkpoints_def lg_agrees_def)
next
  case (Cons e es)
  then obtain c t where e: "e = EvCheckpoint c t" by (metis list.set_intros(1))
  obtain g' valid where g': "isValidTransition c g = Some (valid, g')" "graph_wf g'" "same_graph g g'"
    "graph_run g (graph_abs g) ((t, c) # cs) = (if valid then graph_run g (graph_abs g') cs else Inl (t, c))" for cs
  proof (cases "graph_abs g")
    case None
    with Cons.prems(3) have "\<not> isGraphActive g" by (auto simp: graph_abs_def graph_wf_def)
    with isValidTransition_entry [OF Cons.prems(3), of c] None that show ?thesis by auto
  next
    case (Some p)
    with isValidTransition_edge [OF Cons.prems(3), of p c] that show ?thesis by auto
  qed
  obtain s1 where s1: "lg_iteration e s = Some s1" "graph_p s1 = Some g'" "lg_eventTimestamp s1 = t"
    "if valid then logicalStatus s1 = C_ok \<and> pushedResults s1 = pushedResults s \<and>
       processExecErrs s1 = processExecErrs s \<and> checkpointAt s1 = checkpointAt s
     else logicalStatus s1 = C_expired \<and>
       (\<forall>err. processExecErrs s (cp_processState (checkpointAt s c)) = Some err \<longrightarrow> lastProcessExecutionError s1 = err)"
    using lg_iteration_checkpoint [OF g'(1,2) Cons.prems(1,2), of t] unfolding e by blast
  have run: "graph_run g (graph_abs g) (reported_checkpoints (e # es)) =
    (if valid then graph_run g' (graph_abs g') (reported_checkpoints es) else Inl (t, c))"
    using g'(4) e by (simp add: reported_checkpoints_def same_graph_run [OF g'(3)])
  show ?case
  proof (cases valid)
    case True
    with Cons.IH [of s1 g'] s1 g' Cons.prems(4) run show ?thesis by (auto simp: lg_agrees_def split: sum.splits)
  next
    case False
    with s1 run lg_scan_expired [of s1 es] Cons.prems(4) show ?thesis by (auto simp: lg_agrees_def)
  qed
qed

subsection \<open>Every operation succeeds and keeps the invariant\<close>

lemma lg_push_inv:
  assumes "lg_inv s" "t = getTimestampOfUpdateEvent e"
  shows "\<exists>s'. lg_push e t s = Some s' \<and> lg_inv s'"
proof -
  obtain r b where b: "tsb_push e t (lg_buffer s) = Some (r, b)" "tsb_inv b" "lastReportedElement_p b = None"
    "tsb_contents b = (if r then insert_stable fst (t, e) (tsb_contents (lg_buffer s)) else tsb_contents (lg_buffer s))"
    using tsb.push_total [of "lg_buffer s" e t] assms(1) by (auto simp: lg_inv_def)
  have "events_keyed b"
    using b(4) assms events_keyed_push [of "lg_buffer s" b e] by (cases r) (simp_all add: lg_inv_def events_keyed_def)
  with b assms(1) show ?thesis by (cases r) (simp_all add: lg_push_def Let_def lg_inv_def lg_core_def)
qed

lemma lg_updateCheckpoint_inv: "lg_inv s \<Longrightarrow> \<exists>s'. lg_updateCheckpoint c cp s = Some s' \<and> lg_inv s'"
  using lg_push_inv [of s "cp_timestamp cp" "EvCheckpoint c (cp_timestamp cp)"]
  by (auto simp: lg_updateCheckpoint_def Let_def lg_inv_def lg_core_def)

lemma lg_updateProcessState_inv:
  assumes "lg_inv s" "ProcessState_wf p"
  shows "\<exists>s'. lg_updateProcessState a p s = Some s' \<and> lg_inv s'"
proof -
  obtain err where err: "getProcessExecutionError p = Some err"
    using getProcessExecutionError_total [OF assms(2)] by blast
  let ?e = "EvProcess \<lparr>pss_identifier_p = a, pss_eProcState = eProcState p, pss_processGroupState = processGroupState p,
    pss_timestamp = ps_timestamp p, pss_executionError = err\<rparr>"
  show ?thesis
    using assms(1) err lg_push_inv [OF assms(1), of "ps_timestamp p" ?e]
    by (auto simp: lg_updateProcessState_def Let_def)
qed

lemma lg_evaluate_inv:
  assumes "lg_inv s"
  shows "\<exists>s'. lg_evaluate t s = Some s' \<and> lg_inv s' \<and> tsb_contents (lg_buffer s') = [] \<and> \<not> lg_isDataLossEvent s' \<and>
    (lg_isDataLossEvent s \<longrightarrow> logicalStatus s' = C_expired)"
proof (cases "lg_isDataLossEvent s")
  case True
  then show ?thesis using assms by (auto simp: lg_evaluate_def Let_def lg_inv_def lg_core_def)
next
  case False
  obtain s' b' where "lg_core s'" "sup_tracker_inv s'" "\<not> lg_isDataLossEvent s'" "tsb_inv b'"
    "lg_evaluate t s = Some (s'\<lparr>lg_buffer := tsb_clear b', lg_lastSyncTimestamp := t\<rparr>)"
    using lg_evaluate_scan [OF assms False, of t] by blast
  then show ?thesis using False by (simp add: lg_inv_def lg_core_def)
qed

lemma Logical_new_inv: "graph_wf (Graph_new es xs) \<Longrightarrow> lg_inv (addGraph es xs (Logical_new h cfg))"
  by (simp add: addGraph_def Logical_new_def lg_inv_def lg_core_def) (simp add: Graph_new_def)

text \<open>The states of a supervision with a well-formed graph that is fed by the daemon.\<close>

inductive lg_reachable :: "(CheckpointIdentifier \<Rightarrow> Checkpoint) \<Rightarrow> LogicalSupervisionCfg \<Rightarrow> nat list \<Rightarrow> GraphElement list \<Rightarrow> Logical \<Rightarrow> bool"
  for h cfg es xs where
  lg_init: "lg_reachable h cfg es xs (addGraph es xs (Logical_new h cfg))"
| lg_checkpoint: "lg_reachable h cfg es xs s \<Longrightarrow> lg_updateCheckpoint c cp s = Some s' \<Longrightarrow> lg_reachable h cfg es xs s'"
| lg_process: "lg_reachable h cfg es xs s \<Longrightarrow> ProcessState_wf p \<Longrightarrow> lg_updateProcessState a p s = Some s' \<Longrightarrow>
    lg_reachable h cfg es xs s'"
| lg_cycle: "lg_reachable h cfg es xs s \<Longrightarrow> lg_evaluate t s = Some s' \<Longrightarrow> lg_reachable h cfg es xs s'"

lemma lg_reachable_inv:
  assumes "graph_wf (Graph_new es xs)" "lg_reachable h cfg es xs s"
  shows "lg_inv s"
  using assms(2)
proof (induction rule: lg_reachable.induct)
  case lg_init
  then show ?case by (rule Logical_new_inv [OF assms(1)])
next
  case (lg_checkpoint s c cp s')
  then show ?case using lg_updateCheckpoint_inv [of s c cp] by auto
next
  case (lg_process s p a s')
  then show ?case using lg_updateProcessState_inv [of s p a] by auto
next
  case (lg_cycle s t s')
  then show ?case using lg_evaluate_inv [of s t] by auto
qed

subsection \<open>An example supervision\<close>

text \<open>Checkpoint 21 has to be followed by 22, then by 21 again or by the final checkpoint 23.\<close>

definition lg_example_graph :: "GraphElement list" where
  "lg_example_graph =
     [addValidNextGraphElement 1 (GraphElement_new 21 False),
      addValidNextGraphElement 2 (addValidNextGraphElement 0 (GraphElement_new 22 False)),
      GraphElement_new 23 True]"

definition lg_example_heap :: "CheckpointIdentifier \<Rightarrow> Checkpoint" where
  "lg_example_heap c = Checkpoint_new ''cp'' (of_nat c) 7"

definition lg_example :: Logical where
  "lg_example = addGraph [0] lg_example_graph (Logical_new lg_example_heap
     \<lparr>lcfg_checkpointBufferSize = 4, lcfg_refFuntionGroupStates = [1], lcfg_refProcesses = [7]\<rparr>)"

definition lg_example_ok :: Logical where
  "lg_example_ok = lg_switchToOk lg_example"

lemma lg_example_wf: "graph_wf (Graph_new [0] lg_example_graph)"
  by (simp add: graph_wf_def Graph_new_def lg_example_graph_def addValidNextGraphElement_def GraphElement_new_def)

lemma lg_example_inv: "lg_inv lg_example" "lg_inv lg_example_ok"
proof -
  show *: "lg_inv lg_example" unfolding lg_example_def by (rule Logical_new_inv [OF lg_example_wf])
  show "lg_inv lg_example_ok" using * by (simp add: lg_example_ok_def lg_inv_def lg_core_def)
qed

subsection \<open>Properties\<close>

text \<open>
  (C28) The verdict is the language of the configured graph: evaluating an active supervision over the
  reported checkpoints in order of time leaves it ok exactly when they continue a path of the
  graph, with the graph at the reached position and nothing reported; otherwise it is expired
  with the time of the first checkpoint that leaves the path and the execution error of the
  process that reported it.
\<close>

theorem logical_graph_language:
  assumes "lg_inv s" "\<not> lg_isDataLossEvent s" "logicalStatus s = C_ok" "graph_p s = Some g"
    and "\<And>e. e \<in> snd ` set (tsb_contents (lg_buffer s)) \<Longrightarrow> \<exists>c t. e = EvCheckpoint c t"
  shows "\<exists>s'. lg_evaluate t s = Some s' \<and>
    lg_agrees s s' (graph_run g (graph_abs g) (reported_checkpoints (map snd (tsb_contents (lg_buffer s)))))"
proof -
  have "graph_wf g" using assms(1,4) by (simp add: lg_inv_def lg_core_def)
  then obtain s1 where s1: "fold_opt lg_iteration (map snd (tsb_contents (lg_buffer s))) s = Some s1"
    "lg_agrees s s1 (graph_run g (graph_abs g) (reported_checkpoints (map snd (tsb_contents (lg_buffer s)))))"
    using lg_scan_run [OF assms(3,4), of "map snd (tsb_contents (lg_buffer s))"] assms(5) by auto
  have "lg_agrees s (s'\<lparr>lg_buffer := b, lg_lastSyncTimestamp := u\<rparr>) r = lg_agrees s s' r" for s' b u r
    by (simp add: lg_agrees_def split: sum.split)
  with s1 lg_evaluate_scan [OF assms(1,2), of t] show ?thesis by auto
qed

theorem logical_graph_language_witness:
  "\<exists>s1 s'. lg_push (EvCheckpoint 22 90) 90 lg_example_ok = Some s1 \<and> lg_evaluate 100 s1 = Some s' \<and>
     logicalStatus s' = C_expired \<and> lg_eventTimestamp s' = 90"
proof -
  have buf: "lg_buffer lg_example_ok = tsb_new 4" and ok: "logicalStatus lg_example_ok = C_ok"
    "\<not> lg_isDataLossEvent lg_example_ok" "graph_p lg_example_ok = Some (Graph_new [0] lg_example_graph)"
    by (simp_all add: lg_example_ok_def lg_example_def addGraph_def Logical_new_def)
  obtain b where b: "tsb_push (EvCheckpoint 22 90) 90 (tsb_new 4) = Some (True, b)"
    "tsb_contents b = [(90, EvCheckpoint 22 90)]" "tsb_inv b" "lastReportedElement_p b = None"
    using tsb.push_room [of "tsb_new 4" "EvCheckpoint 22 90" 90] by auto
  let ?s = "lg_example_ok\<lparr>lg_buffer := b\<rparr>"
  have push: "lg_push (EvCheckpoint 22 90) 90 lg_example_ok = Some ?s" by (simp add: lg_push_def buf b)
  have "lg_inv ?s"
    using lg_example_inv(2) b by (simp add: lg_inv_def lg_core_def events_keyed_def)
  from logical_graph_language [OF this, of "Graph_new [0] lg_example_graph" 100] ok b push show ?thesis
    by (auto simp: reported_checkpoints_def lg_agrees_def graph_abs_def Graph_new_def is_entry_def lg_example_graph_def
        addValidNextGraphElement_def GraphElement_new_def)
qed

text \<open>
  A supervision with a well-formed graph never gets stuck in whatever order the daemon feeds it: no
  operation meets an invalid graph element, every further operation returns, a data loss is
  answered by expiry in the next evaluation, and no evaluation leaves unprocessed events.
\<close>

theorem logical_never_stuck:
  assumes "graph_wf (Graph_new es xs)" "lg_reachable h cfg es xs s" "ProcessState_wf p"
  shows "(\<exists>s'. lg_updateCheckpoint c cp s = Some s' \<and> lg_inv s') \<and>
    (\<exists>s'. lg_updateProcessState a p s = Some s' \<and> lg_inv s') \<and>
    (\<exists>s'. lg_evaluate t s = Some s' \<and> lg_inv s' \<and> tsb_contents (lg_buffer s') = [] \<and> \<not> lg_isDataLossEvent s' \<and>
       (lg_isDataLossEvent s \<longrightarrow> logicalStatus s' = C_expired))"
  using lg_reachable_inv [OF assms(1,2)] assms(3) lg_updateCheckpoint_inv lg_updateProcessState_inv lg_evaluate_inv
  by blast

theorem logical_never_stuck_witness:
  "\<exists>s'. lg_evaluate 100 lg_example = Some s' \<and> lg_inv s'"
proof -
  have "ProcessState_wf (ProcessState_new \<lparr>cfg_processShortName = ''p'', cfg_processId = 3,
      cfg_configuredProcessGroupStates = [1], cfg_processExecutionErrors = [1]\<rparr>)"
    by (simp add: ProcessState_wf_def ProcessState_new_def)
  from logical_never_stuck [OF lg_example_wf lg_init this] show ?thesis unfolding lg_example_def by blast
qed

end
