(* ===== verification/Ordered_Map.thy ===== *)
theory Ordered_Map
  imports Prelude
begin

section \<open>Ordered maps\<close>

text \<open>
  \<^verbatim>\<open>std::map\<close> as the supervisions use it: a list of key-value pairs in increasing order of the key, so
  that a range-based loop visits the entries in that order. \<open>omap_assign\<close> is \<^verbatim>\<open>m[k] = v\<close>,
  \<open>omap_insert\<close> is \<^verbatim>\<open>m.insert({k, v})\<close>, which keeps an existing entry and reports whether it inserted.
\<close>

type_synonym ('k, 'v) omap = "('k \<times> 'v) list"

fun omap_assign :: "'k::linorder \<Rightarrow> 'v \<Rightarrow> ('k, 'v) omap \<Rightarrow> ('k, 'v) omap" where
  "omap_assign k v [] = [(k, v)]"
| "omap_assign k v ((k', v') # m) =
     (if k < k' then (k, v) # (k', v') # m else if k = k' then (k, v) # m else (k', v') # omap_assign k v m)"

definition omap_insert :: "'k::linorder \<Rightarrow> 'v \<Rightarrow> ('k, 'v) omap \<Rightarrow> bool \<times> ('k, 'v) omap" where
  "omap_insert k v m = (case map_of m k of None \<Rightarrow> (True, omap_assign k v m) | Some _ \<Rightarrow> (False, m))"

definition omap_wf :: "('k::linorder, 'v) omap \<Rightarrow> bool" where
  "omap_wf m \<longleftrightarrow> sorted (map fst m) \<and> distinct (map fst m)"

abbreviation omap_values :: "('k, 'v) omap \<Rightarrow> 'v set" where
  "omap_values m \<equiv> snd ` set m"

lemma omap_wf_Nil [simp]: "omap_wf []"
  by (simp add: omap_wf_def)

lemma omap_wf_Cons: "omap_wf ((k, v) # m) \<longleftrightarrow> (\<forall>k' \<in> fst ` set m. k < k') \<and> omap_wf m"
  by (auto simp: omap_wf_def less_le)

lemma fst_set_omap_assign: "fst ` set (omap_assign k v m) = insert k (fst ` set m)"
  by (induction k v m rule: omap_assign.induct) auto

lemma omap_assign_wf [simp]: "omap_wf m \<Longrightarrow> omap_wf (omap_assign k v m)"
proof (induction k v m rule: omap_assign.induct)
  case (2 k v k' v' m)
  then show ?case
    by (auto simp: omap_wf_Cons fst_set_omap_assign simp del: image_eqI)
qed (simp add: omap_wf_def)

lemma map_of_omap_assign [simp]: "omap_wf m \<Longrightarrow> map_of (omap_assign k v m) = (map_of m)(k \<mapsto> v)"
proof (induction k v m rule: omap_assign.induct)
  case (2 k v k' v' m)
  then show ?case by (auto simp: omap_wf_Cons fun_eq_iff)
qed auto

lemma omap_values_ran: "omap_wf m \<Longrightarrow> omap_values m = ran (map_of m)"
  by (simp add: ran_distinct omap_wf_def)

text \<open>The values after an assignment: the new one, and those of the other keys.\<close>

lemma omap_assign_values:
  assumes "omap_wf m"
  shows "omap_values (omap_assign k v m) = insert v (omap_values (filter (\<lambda>(k', _). k' \<noteq> k) m))"
  using assms
proof (induction k v m rule: omap_assign.induct)
  case (2 k v k' v' m)
  have same: "filter (\<lambda>(x, _). x \<noteq> k) m = m" if "k \<le> k'"
    using that 2(2) by (auto simp: omap_wf_Cons filter_id_conv)
  consider "k < k'" | "k = k'" | "k' < k" by fastforce
  then show ?case
  proof cases
    case 1
    then show ?thesis using same by auto
  next
    case 2
    then show ?thesis using same by simp
  next
    case 3
    with 2(1,2) show ?thesis by (auto simp: omap_wf_Cons)
  qed
qed simp

lemma omap_assign_values_subset:
  "omap_wf m \<Longrightarrow> omap_values (omap_assign k v m) \<subseteq> insert v (omap_values m)"
  by (auto simp: omap_assign_values)

lemma omap_assign_value_in [simp]: "omap_wf m \<Longrightarrow> v \<in> omap_values (omap_assign k v m)"
  by (simp add: omap_assign_values)

lemma omap_insert_wf [simp]: "omap_wf m \<Longrightarrow> omap_wf (snd (omap_insert k v m))"
  by (simp add: omap_insert_def split: option.split)

end
