(* ===== verification/Local_Supervision.thy ===== *)
theory Local_Supervision
  imports Checkpoint_Supervision Ordered_Map
begin

section \<open>Local supervision\<close>

text \<open>
  Models \<^verbatim>\<open>saf/supervision/Local.{hpp,cpp}\<close>: the status of one supervised entity, derived from the results
  of its alive, deadline and logical supervisions.

  A supervision is identified by its address. An update hands over what the code reads from the
  notifying supervision: the \<open>CheckpointResult\<close> that supervision pushed. Log output is not modelled,
  so the text of a reason is not part of the state.
\<close>

datatype LocalSupervisionStatus = L_OK | L_Failed | L_Expired | L_Deactivated

datatype EType = T_aliveSupervision | T_deadlineSupervision | T_logicalSupervision

record CheckpointSupervisionEvent =
  cse_checkpointSupervision_p :: nat
  cse_status :: CStatus
  cse_type :: EType
  cse_timestamp :: NanoSecondType
  cse_processExecutionError :: ProcessExecutionError

text \<open>What an observer reads of a local supervision.\<close>

record LocalResult =
  lr_status :: LocalSupervisionStatus
  lr_supervisionType :: EType
  lr_timestamp :: NanoSecondType
  lr_executionError :: ProcessExecutionError

record Local =
  localStatus :: LocalSupervisionStatus
  supervisionType :: EType
  lo_isDataLossEvent :: bool
  supervisionTypeDataLoss :: EType
  registeredSupervisionEvents :: "(nat, CStatus) omap"
  lo_eventTimestamp :: NanoSecondType
  lo_lastSyncTimestamp :: NanoSecondType
  lo_buffer :: "CheckpointSupervisionEvent TimeSortingBuffer"
  lo_processExecutionError :: ProcessExecutionError
  lo_results :: "LocalResult list"

definition Local_new :: "u16 \<Rightarrow> Local" where
  "Local_new checkpointEventBufferSize =
     \<lparr>localStatus = L_Deactivated, supervisionType = T_aliveSupervision, lo_isDataLossEvent = False,
      supervisionTypeDataLoss = T_aliveSupervision, registeredSupervisionEvents = [],
      lo_eventTimestamp = 0, lo_lastSyncTimestamp = 0, lo_buffer = tsb_new checkpointEventBufferSize,
      lo_processExecutionError = kDefaultProcessExecutionError, lo_results = []\<rparr>"

definition registerCheckpointSupervision :: "nat \<Rightarrow> Local \<Rightarrow> Local" where
  "registerCheckpointSupervision f_supervision_r s =
     s\<lparr>registeredSupervisionEvents :=
         snd (omap_insert f_supervision_r C_deactivated (registeredSupervisionEvents s))\<rparr>"

definition lo_pushResultToObservers :: "Local \<Rightarrow> Local" where
  "lo_pushResultToObservers s =
     s\<lparr>lo_results := lo_results s @
         [\<lparr>lr_status = localStatus s, lr_supervisionType = supervisionType s,
           lr_timestamp = lo_eventTimestamp s, lr_executionError = lo_processExecutionError s\<rparr>]\<rparr>"

definition lo_updateDataGeneralized :: "nat \<Rightarrow> CheckpointResult \<Rightarrow> EType \<Rightarrow> Local \<Rightarrow> Local option" where
  "lo_updateDataGeneralized addr f_observable_r f_type s = do {
     let timestamp = res_timestamp f_observable_r;
     (success, b) \<leftarrow> tsb_push
        \<lparr>cse_checkpointSupervision_p = addr, cse_status = res_status f_observable_r, cse_type = f_type,
         cse_timestamp = timestamp, cse_processExecutionError = res_executionError f_observable_r\<rparr>
        timestamp (lo_buffer s);
     let s = s\<lparr>lo_buffer := b\<rparr>;
     Some (if success then s
           else s\<lparr>lo_eventTimestamp := lo_lastSyncTimestamp s, lo_isDataLossEvent := True,
                  supervisionTypeDataLoss := f_type\<rparr>)
   }"

definition lo_updateAlive :: "nat \<Rightarrow> CheckpointResult \<Rightarrow> Local \<Rightarrow> Local option" where
  "lo_updateAlive addr f_observable_r s = lo_updateDataGeneralized addr f_observable_r T_aliveSupervision s"

definition lo_updateDeadline :: "nat \<Rightarrow> CheckpointResult \<Rightarrow> Local \<Rightarrow> Local option" where
  "lo_updateDeadline addr f_observable_r s = lo_updateDataGeneralized addr f_observable_r T_deadlineSupervision s"

definition lo_updateLogical :: "nat \<Rightarrow> CheckpointResult \<Rightarrow> Local \<Rightarrow> Local option" where
  "lo_updateLogical addr f_observable_r s = lo_updateDataGeneralized addr f_observable_r T_logicalSupervision s"

subsection \<open>State switches\<close>

definition lo_switchToDeactivated :: "EType \<Rightarrow> Local \<Rightarrow> Local" where
  "lo_switchToDeactivated f_type s =
     lo_pushResultToObservers (s\<lparr>supervisionType := f_type, localStatus := L_Deactivated\<rparr>)"

definition lo_switchToOk :: "EType \<Rightarrow> Local \<Rightarrow> Local" where
  "lo_switchToOk f_type s = lo_pushResultToObservers (s\<lparr>supervisionType := f_type, localStatus := L_OK\<rparr>)"

definition lo_switchToFailed :: "EType \<Rightarrow> Local \<Rightarrow> Local" where
  "lo_switchToFailed f_type s = lo_pushResultToObservers (s\<lparr>supervisionType := f_type, localStatus := L_Failed\<rparr>)"

definition lo_switchToExpired :: "EType \<Rightarrow> ProcessExecutionError \<Rightarrow> Local \<Rightarrow> Local" where
  "lo_switchToExpired f_type f_executionError s =
     lo_pushResultToObservers (s\<lparr>supervisionType := f_type, lo_processExecutionError := f_executionError,
                                 localStatus := L_Expired\<rparr>)"

fun isAllDeactivated_loop :: "(nat, CStatus) omap \<Rightarrow> bool" where
  "isAllDeactivated_loop [] = True"
| "isAllDeactivated_loop ((_, st) # m) = (if st \<noteq> C_deactivated then False else isAllDeactivated_loop m)"

definition isAllDeactivated :: "Local \<Rightarrow> bool" where
  "isAllDeactivated s = isAllDeactivated_loop (registeredSupervisionEvents s)"

fun isOneFailed_loop :: "(nat, CStatus) omap \<Rightarrow> bool" where
  "isOneFailed_loop [] = False"
| "isOneFailed_loop ((_, st) # m) = (if st = C_failed then True else isOneFailed_loop m)"

definition isOneFailed :: "Local \<Rightarrow> bool" where
  "isOneFailed s = isOneFailed_loop (registeredSupervisionEvents s)"

subsection \<open>Transitions\<close>

definition lo_checkTransitionsOutOfDeactivated :: "CheckpointSupervisionEvent \<Rightarrow> Local \<Rightarrow> Local" where
  "lo_checkTransitionsOutOfDeactivated e s =
     (let s' = s\<lparr>lo_eventTimestamp := cse_timestamp e\<rparr>
      in if cse_status e = C_ok then lo_switchToOk (cse_type e) s'
         else if cse_status e = C_failed then lo_switchToFailed (cse_type e) s'
         else if cse_status e = C_expired then lo_switchToExpired (cse_type e) (cse_processExecutionError e) s'
         else s)"

definition lo_checkTransitionsOutOfOk :: "CheckpointSupervisionEvent \<Rightarrow> Local \<Rightarrow> Local" where
  "lo_checkTransitionsOutOfOk e s =
     (let s' = s\<lparr>lo_eventTimestamp := cse_timestamp e\<rparr>
      in if cse_status e = C_deactivated
         then (if isAllDeactivated s then lo_switchToDeactivated (cse_type e) s' else s)
         else if cse_status e = C_failed then lo_switchToFailed (cse_type e) s'
         else if cse_status e = C_expired then lo_switchToExpired (cse_type e) (cse_processExecutionError e) s'
         else s)"

definition lo_checkTransitionsOutOfFailed :: "CheckpointSupervisionEvent \<Rightarrow> Local \<Rightarrow> Local" where
  "lo_checkTransitionsOutOfFailed e s =
     (let s' = s\<lparr>lo_eventTimestamp := cse_timestamp e\<rparr>
      in if cse_status e = C_deactivated
         then (if isAllDeactivated s then lo_switchToDeactivated (cse_type e) s' else s)
         else if cse_status e = C_ok
         then (if \<not> isOneFailed s then lo_switchToOk (cse_type e) s' else s)
         else if cse_status e = C_expired then lo_switchToExpired (cse_type e) (cse_processExecutionError e) s'
         else s)"

definition lo_checkTransitionsOutOfExpired :: "CheckpointSupervisionEvent \<Rightarrow> Local \<Rightarrow> Local" where
  "lo_checkTransitionsOutOfExpired e s =
     (if cse_status e = C_deactivated
      then (if isAllDeactivated s
            then lo_switchToDeactivated (cse_type e) (s\<lparr>lo_eventTimestamp := cse_timestamp e\<rparr>) else s)
      else s)"

definition lo_updateState :: "CheckpointSupervisionEvent \<Rightarrow> Local \<Rightarrow> Local" where
  "lo_updateState e s =
     (case localStatus s of
        L_Deactivated \<Rightarrow> lo_checkTransitionsOutOfDeactivated e s
      | L_OK \<Rightarrow> lo_checkTransitionsOutOfOk e s
      | L_Failed \<Rightarrow> lo_checkTransitionsOutOfFailed e s
      | L_Expired \<Rightarrow> lo_checkTransitionsOutOfExpired e s)"

text \<open>The body of the evaluation loop.\<close>

definition lo_process :: "CheckpointSupervisionEvent \<Rightarrow> Local \<Rightarrow> Local" where
  "lo_process e s =
     lo_updateState e (s\<lparr>registeredSupervisionEvents :=
       omap_assign (cse_checkpointSupervision_p e) (cse_status e) (registeredSupervisionEvents s)\<rparr>)"

definition lo_handleDataLossReaction :: "Local \<Rightarrow> Local" where
  "lo_handleDataLossReaction s =
     (let s = (if localStatus s \<noteq> L_Expired
               then lo_switchToExpired (supervisionTypeDataLoss s) kDefaultProcessExecutionError s else s)
      in s\<lparr>lo_isDataLossEvent := False, lo_buffer := tsb_clear (lo_buffer s)\<rparr>)"

definition lo_evaluate :: "NanoSecondType \<Rightarrow> Local \<Rightarrow> Local option" where
  "lo_evaluate f_syncTimestamp s =
     (if lo_isDataLossEvent s
      then Some ((lo_handleDataLossReaction s)\<lparr>lo_lastSyncTimestamp := f_syncTimestamp\<rparr>)
      else do {
        (b, s) \<leftarrow> for_each tsb_getNextElement (\<lambda>e s. Some (lo_process e s)) (lo_buffer s) s;
        Some (s\<lparr>lo_buffer := tsb_clear b, lo_lastSyncTimestamp := f_syncTimestamp\<rparr>)
      })"

subsection \<open>Status and registered results\<close>

lemmas lo_switch_defs = lo_switchToDeactivated_def lo_switchToOk_def lo_switchToFailed_def lo_switchToExpired_def
  lo_pushResultToObservers_def

lemmas lo_transition_defs = lo_checkTransitionsOutOfDeactivated_def lo_checkTransitionsOutOfOk_def
  lo_checkTransitionsOutOfFailed_def lo_checkTransitionsOutOfExpired_def

lemma isAllDeactivated_iff:
  "isAllDeactivated s \<longleftrightarrow> (\<forall>v \<in> omap_values (registeredSupervisionEvents s). v = C_deactivated)"
proof -
  have "isAllDeactivated_loop m \<longleftrightarrow> (\<forall>v \<in> omap_values m. v = C_deactivated)" for m
    by (induction m rule: isAllDeactivated_loop.induct) auto
  then show ?thesis by (simp add: isAllDeactivated_def)
qed

lemma isOneFailed_iff: "isOneFailed s \<longleftrightarrow> C_failed \<in> omap_values (registeredSupervisionEvents s)"
proof -
  have "isOneFailed_loop m \<longleftrightarrow> C_failed \<in> omap_values m" for m
    by (induction m rule: isOneFailed_loop.induct) auto
  then show ?thesis by (simp add: isOneFailed_def)
qed

text \<open>
  What a status says about the last results of the registered supervisions. \<open>Failed\<close> excludes
  \<open>expired\<close> results, \<open>OK\<close> in addition \<open>failed\<close> ones and that all are deactivated, \<open>Deactivated\<close> is only
  reported when all are.
\<close>

fun status_sound :: "LocalSupervisionStatus \<Rightarrow> CStatus set \<Rightarrow> bool" where
  "status_sound L_Deactivated R \<longleftrightarrow> R \<subseteq> {C_deactivated}"
| "status_sound L_OK R \<longleftrightarrow> R \<subseteq> {C_deactivated, C_ok} \<and> C_ok \<in> R"
| "status_sound L_Failed R \<longleftrightarrow> C_expired \<notin> R \<and> \<not> R \<subseteq> {C_deactivated}"
| "status_sound L_Expired R \<longleftrightarrow> True"

definition lo_core :: "Local \<Rightarrow> bool" where
  "lo_core s \<longleftrightarrow> omap_wf (registeredSupervisionEvents s) \<and>
     status_sound (localStatus s) (omap_values (registeredSupervisionEvents s))"

definition lo_inv :: "Local \<Rightarrow> bool" where
  "lo_inv s \<longleftrightarrow> lo_core s \<and> tsb_inv (lo_buffer s) \<and> lastReportedElement_p (lo_buffer s) = None"

lemma lo_updateState_frame [simp]:
  "registeredSupervisionEvents (lo_updateState e s) = registeredSupervisionEvents s"
  "lo_isDataLossEvent (lo_updateState e s) = lo_isDataLossEvent s"
  by (simp_all add: lo_updateState_def lo_transition_defs lo_switch_defs Let_def split: LocalSupervisionStatus.split)

text \<open>The next status as a function of the status, the reported result and the set of last results.\<close>

fun local_next :: "CStatus \<Rightarrow> CStatus set \<Rightarrow> LocalSupervisionStatus \<Rightarrow> LocalSupervisionStatus" where
  "local_next C_deactivated R st = (if R \<subseteq> {C_deactivated} then L_Deactivated else st)"
| "local_next C_ok R st = (if st = L_Deactivated \<or> st = L_Failed \<and> C_failed \<notin> R then L_OK else st)"
| "local_next C_failed R st = (if st = L_Expired then L_Expired else L_Failed)"
| "local_next C_expired R st = L_Expired"

lemma local_next_sound:
  "status_sound st R \<Longrightarrow> R' \<subseteq> insert c R \<Longrightarrow> c \<in> R' \<Longrightarrow> status_sound (local_next c R' st) R'"
  by (cases c; cases st) (auto, metis CStatus.exhaust CStatus.distinct(9) insertE subsetD)

text \<open>The abstract local supervision: the last result per supervision and the status.\<close>

fun local_step :: "CheckpointSupervisionEvent \<Rightarrow> (nat \<rightharpoonup> CStatus) \<times> LocalSupervisionStatus \<Rightarrow>
    (nat \<rightharpoonup> CStatus) \<times> LocalSupervisionStatus" where
  "local_step e (m, st) = (let m = m(cse_checkpointSupervision_p e \<mapsto> cse_status e)
     in (m, local_next (cse_status e) (ran m) st))"

definition lo_abs :: "Local \<Rightarrow> (nat \<rightharpoonup> CStatus) \<times> LocalSupervisionStatus" where
  "lo_abs s = (map_of (registeredSupervisionEvents s), localStatus s)"

lemma lo_updateState_status:
  "localStatus (lo_updateState e s) =
     local_next (cse_status e) (omap_values (registeredSupervisionEvents s)) (localStatus s)"
proof -
  have "isAllDeactivated s \<longleftrightarrow> omap_values (registeredSupervisionEvents s) \<subseteq> {C_deactivated}"
    using isAllDeactivated_iff by blast
  then show ?thesis
    by (cases "localStatus s"; cases "cse_status e")
      (simp_all add: lo_updateState_def lo_transition_defs lo_switch_defs Let_def isOneFailed_iff)
qed

lemma lo_process_core:
  assumes "lo_core s"
  shows "lo_core (lo_process e s)"
proof -
  let ?m = "registeredSupervisionEvents s"
  let ?m' = "omap_assign (cse_checkpointSupervision_p e) (cse_status e) ?m"
  have wf: "omap_wf ?m" and sound: "status_sound (localStatus s) (omap_values ?m)"
    using assms by (simp_all add: lo_core_def)
  have "status_sound (local_next (cse_status e) (omap_values ?m') (localStatus s)) (omap_values ?m')"
    by (rule local_next_sound [OF sound omap_assign_values_subset [OF wf] omap_assign_value_in [OF wf]])
  with wf show ?thesis by (simp add: lo_core_def lo_process_def lo_updateState_status)
qed

lemma lo_process_frame [simp]: "lo_isDataLossEvent (lo_process e s) = lo_isDataLossEvent s"
  by (simp add: lo_process_def)

lemma lo_scan_core:
  "lo_core s \<Longrightarrow> lo_core (fold lo_process es s)"
  "lo_isDataLossEvent (fold lo_process es s) = lo_isDataLossEvent s"
  by (induction es arbitrary: s) (simp_all add: lo_process_core)

lemma lo_process_step: "lo_core s \<Longrightarrow> lo_abs (lo_process e s) = local_step e (lo_abs s)"
  by (simp add: lo_core_def lo_abs_def lo_process_def lo_updateState_status omap_values_ran Let_def)

lemma lo_scan_step: "lo_core s \<Longrightarrow> lo_abs (fold lo_process es s) = fold local_step es (lo_abs s)"
  by (induction es arbitrary: s) (simp_all add: lo_process_core lo_process_step)

lemma lo_evaluate_scan:
  assumes "lo_inv s" "\<not> lo_isDataLossEvent s"
  shows "\<exists>b'. tsb_inv b' \<and> lo_evaluate t s =
    Some ((fold lo_process (map snd (tsb_contents (lo_buffer s))) s)\<lparr>lo_buffer := tsb_clear b', lo_lastSyncTimestamp := t\<rparr>)"
proof -
  have "tsb_remaining (lo_buffer s) = map snd (tsb_contents (lo_buffer s))"
    using assms(1) by (simp add: lo_inv_def tsb_fresh_remaining)
  then show ?thesis
    using tsb.for_each_fold [of "lo_buffer s" "\<lambda>e s. Some (lo_process e s)" s] assms
    by (auto simp: lo_evaluate_def lo_inv_def)
qed

lemma lo_evaluate_inv:
  assumes "lo_inv s"
  shows "\<exists>s'. lo_evaluate t s = Some s' \<and> lo_inv s' \<and> \<not> lo_isDataLossEvent s' \<and> tsb_contents (lo_buffer s') = [] \<and>
    (lo_isDataLossEvent s \<longrightarrow> localStatus s' = L_Expired)"
proof (cases "lo_isDataLossEvent s")
  case True
  then show ?thesis
    using assms
    by (auto simp: lo_evaluate_def lo_handleDataLossReaction_def lo_switch_defs lo_inv_def lo_core_def Let_def)
next
  case False
  then show ?thesis
    using lo_evaluate_scan [OF assms False, of t] lo_scan_core(1) [of s "map snd (tsb_contents (lo_buffer s))"]
      lo_scan_core(2) [of "map snd (tsb_contents (lo_buffer s))" s] assms
    by (auto simp: lo_inv_def lo_core_def)
qed

lemma lo_updateDataGeneralized_inv:
  assumes "lo_inv s"
  shows "\<exists>s'. lo_updateDataGeneralized a r ty s = Some s' \<and> lo_inv s' \<and> localStatus s' = localStatus s"
proof -
  let ?e = "\<lparr>cse_checkpointSupervision_p = a, cse_status = res_status r, cse_type = ty,
    cse_timestamp = res_timestamp r, cse_processExecutionError = res_executionError r\<rparr>"
  obtain ok b where "tsb_push ?e (res_timestamp r) (lo_buffer s) = Some (ok, b)" "tsb_inv b" "lastReportedElement_p b = None"
    using tsb.push_total [of "lo_buffer s" ?e "res_timestamp r"] assms by (auto simp: lo_inv_def)
  with assms show ?thesis by (cases ok) (simp_all add: lo_updateDataGeneralized_def Let_def lo_inv_def lo_core_def)
qed

lemma Local_new_inv: "lo_inv (Local_new n)"
  by (simp add: Local_new_def lo_inv_def lo_core_def)

lemma registerCheckpointSupervision_inv:
  assumes "lo_inv s" "localStatus s = L_Deactivated"
  shows "lo_inv (registerCheckpointSupervision a s)"
proof -
  let ?m = "registeredSupervisionEvents s"
  have wf: "omap_wf ?m" and "omap_values ?m \<subseteq> {C_deactivated}"
    using assms by (simp_all add: lo_inv_def lo_core_def)
  moreover have "omap_values (snd (omap_insert a C_deactivated ?m)) \<subseteq> insert C_deactivated (omap_values ?m)"
    using omap_assign_values_subset [OF wf] by (auto simp: omap_insert_def split: option.split)
  ultimately have "omap_values (snd (omap_insert a C_deactivated ?m)) \<subseteq> {C_deactivated}" by blast
  with wf show ?thesis
    using assms by (simp add: registerCheckpointSupervision_def lo_inv_def lo_core_def)
qed

text \<open>The states of a local supervision: registration first, then updates and evaluations in any order.\<close>

inductive lo_reachable :: "u16 \<Rightarrow> Local \<Rightarrow> bool" for n where
  lo_init: "lo_reachable n (fold registerCheckpointSupervision as (Local_new n))"
| lo_update: "lo_reachable n s \<Longrightarrow> lo_updateDataGeneralized a r ty s = Some s' \<Longrightarrow> lo_reachable n s'"
| lo_cycle: "lo_reachable n s \<Longrightarrow> lo_evaluate t s = Some s' \<Longrightarrow> lo_reachable n s'"

lemma lo_reachable_inv: "lo_reachable n s \<Longrightarrow> lo_inv s"
proof (induction rule: lo_reachable.induct)
  case (lo_init as)
  have "lo_inv s \<and> localStatus s = L_Deactivated \<Longrightarrow> lo_inv (fold registerCheckpointSupervision as s)" for s
  proof (induction as arbitrary: s)
    case (Cons a as)
    then show ?case
      using registerCheckpointSupervision_inv [of s a] by (simp add: registerCheckpointSupervision_def)
  qed simp
  then show ?case using Local_new_inv [of n] by (simp add: Local_new_def)
next
  case (lo_update s a r ty s')
  then show ?case using lo_updateDataGeneralized_inv [of s a r ty] by auto
next
  case (lo_cycle s t s')
  then show ?case using lo_evaluate_inv [of s t] by auto
qed

subsection \<open>Properties\<close>

text \<open>
  (C29) The reported status never understates the registered results: in every reachable state
  \<open>Deactivated\<close> means that all supervisions were last reported deactivated, \<open>OK\<close> that none was last
  reported failed or expired and at least one ok, \<open>Failed\<close> that none was last reported expired.
\<close>

theorem local_status_sound:
  assumes "lo_reachable n s"
  shows "status_sound (localStatus s) (omap_values (registeredSupervisionEvents s))"
  using lo_reachable_inv [OF assms] by (simp add: lo_inv_def lo_core_def)

definition lo_example :: Local where
  "lo_example = fold registerCheckpointSupervision [41, 42] (Local_new 4)"

theorem local_status_sound_witness:
  "status_sound (localStatus lo_example) (omap_values (registeredSupervisionEvents lo_example)) \<and>
   localStatus lo_example = L_Deactivated"
proof -
  have "localStatus lo_example = L_Deactivated"
    by (simp add: lo_example_def registerCheckpointSupervision_def Local_new_def)
  then show ?thesis using local_status_sound [OF lo_init] unfolding lo_example_def by blast
qed

text \<open>
  (C30) An evaluation is a fold of the status function over the buffered results in order of time, and the
  registered results afterwards are the last ones reported: no buffered result is skipped or
  reordered, and a lost one expires the supervision instead.
\<close>

theorem local_evaluate_refines:
  assumes "lo_inv s"
  shows "\<exists>s'. lo_evaluate t s = Some s' \<and> tsb_contents (lo_buffer s') = [] \<and>
    (if lo_isDataLossEvent s then localStatus s' = L_Expired
     else lo_abs s' = fold local_step (map snd (tsb_contents (lo_buffer s))) (lo_abs s))"
proof (cases "lo_isDataLossEvent s")
  case True
  with lo_evaluate_inv [OF assms, of t] show ?thesis by auto
next
  case False
  have "lo_abs (s'\<lparr>lo_buffer := b, lo_lastSyncTimestamp := u\<rparr>) = lo_abs s'" for s' b u by (simp add: lo_abs_def)
  with lo_evaluate_scan [OF assms False, of t] lo_scan_step [of s] assms False show ?thesis by (auto simp: lo_inv_def)
qed

theorem local_evaluate_refines_witness:
  "\<exists>s'. lo_evaluate 10 (lo_example\<lparr>lo_isDataLossEvent := True\<rparr>) = Some s' \<and> localStatus s' = L_Expired"
proof -
  have "lo_inv (lo_example\<lparr>lo_isDataLossEvent := True\<rparr>)"
    using lo_reachable_inv [OF lo_init, of "[41, 42]" 4] unfolding lo_example_def by (simp add: lo_inv_def lo_core_def)
  from local_evaluate_refines [OF this, of 10] show ?thesis by auto
qed

text \<open>
  A qualified failure is not healed by good news: an expired local supervision stays expired as long
  as the evaluated results leave one registered supervision that was not last reported deactivated.
\<close>

theorem local_expired_until_all_deactivated:
  assumes "localStatus s = L_Expired" "localStatus (lo_process e s) \<noteq> L_Expired"
  shows "localStatus (lo_process e s) = L_Deactivated \<and> cse_status e = C_deactivated \<and>
    omap_values (registeredSupervisionEvents (lo_process e s)) \<subseteq> {C_deactivated}"
  using assms by (cases "cse_status e") (auto simp: lo_process_def lo_updateState_status split: if_splits)

theorem local_expired_until_all_deactivated_witness:
  "localStatus (lo_process \<lparr>cse_checkpointSupervision_p = 41, cse_status = C_deactivated, cse_type = T_aliveSupervision,
     cse_timestamp = 5, cse_processExecutionError = 1\<rparr> (lo_example\<lparr>localStatus := L_Expired\<rparr>)) = L_Deactivated"
  by (rule local_expired_until_all_deactivated [THEN conjunct1])
    (simp_all add: lo_process_def lo_updateState_status lo_example_def Local_new_def registerCheckpointSupervision_def
      omap_insert_def)

end
