(* ===== verification/Global_Supervision.thy ===== *)
theory Global_Supervision
  imports Local_Supervision
begin

section \<open>Global supervision\<close>

text \<open>
  Models \<^verbatim>\<open>saf/supervision/Global.{hpp,cpp}\<close>: the status of all local supervisions together, debounced with the
  expiration tolerance of the current process group state, and the escalation to the recovery
  notifications.

  A local supervision and a recovery notification are identified by their addresses. Calling
  \<^verbatim>\<open>notification->send(errorInfo)\<close> is recorded in \<open>gl_sent\<close>. Log output is not modelled.
\<close>

datatype GlobalSupervisionStatus = G_OK | G_Failed | G_Expired | G_Stopped | G_Deactivated

record TimeSortedLocalSupState =
  tl_localId :: nat
  tl_state :: LocalSupervisionStatus
  tl_supervisionType :: EType
  tl_timestamp :: NanoSecondType
  tl_executionError :: ProcessExecutionError

record TimeSortedPGStateChange =
  pg_expiredTolerance :: NanoSecondType
  pg_timestamp :: NanoSecondType

datatype TimeSortedElem = LocalSupState TimeSortedLocalSupState | PGStateChange TimeSortedPGStateChange

datatype EGlobalStoppedReason = GR_expirationTimeout | GR_data_corruption | GR_history_buffer_overflow

text \<open>The fields of \<^verbatim>\<open>SupervisionErrorInfo\<close> the global supervision sets.\<close>

record SupervisionErrorInfo =
  failedProcessExecutionError :: u32
  failedSupervisionType :: u32

record GlobalSupervisionCfg =
  gcfg_refFuntionGroupStates :: "ProcessGroupId list"
  gcfg_localEventBufferSize :: u16
  gcfg_expiredTolerances :: "NanoSecondType list"

record Global =
  k_expiredTolerances :: "NanoSecondType list"
  k_refFuntionGroupStates :: "ProcessGroupId list"
  globalStatus :: GlobalSupervisionStatus
  startExpired :: NanoSecondType
  expiredTolerance :: NanoSecondType
  expiredSupervision :: EType
  gl_executionError :: ProcessExecutionError
  localStatusOverTime :: "(nat, LocalSupervisionStatus) omap"
  registeredRecoveryNotifications :: "nat list"
  gl_isDataLossEvent :: bool
  gl_buffer :: "TimeSortedElem TimeSortingBuffer"
  gl_sent :: "(nat \<times> SupervisionErrorInfo) list"

definition kInternalErrorSupervisionType :: EType where
  "kInternalErrorSupervisionType = T_aliveSupervision"

definition Global_new :: "GlobalSupervisionCfg \<Rightarrow> Global" where
  "Global_new cfg =
     \<lparr>k_expiredTolerances = gcfg_expiredTolerances cfg, k_refFuntionGroupStates = gcfg_refFuntionGroupStates cfg,
      globalStatus = G_Deactivated, startExpired = UINT64_MAX, expiredTolerance = 0,
      expiredSupervision = T_deadlineSupervision, gl_executionError = kDefaultProcessExecutionError,
      localStatusOverTime = [], registeredRecoveryNotifications = [], gl_isDataLossEvent = False,
      gl_buffer = tsb_new (gcfg_localEventBufferSize cfg), gl_sent = []\<rparr>"

subsection \<open>Updates and registration\<close>

definition gl_push :: "TimeSortedElem \<Rightarrow> NanoSecondType \<Rightarrow> Global \<Rightarrow> Global option" where
  "gl_push e t s = do {
     (success, b) \<leftarrow> tsb_push e t (gl_buffer s);
     let s = s\<lparr>gl_buffer := b\<rparr>;
     Some (if success then s else s\<lparr>gl_isDataLossEvent := True\<rparr>)
   }"

text \<open>
  \<^verbatim>\<open>k_expiredTolerances[index]\<close> is outside the vector when the two vectors differ in length, which the
  constructor's assertion rules out.
\<close>

definition gl_updateProcessState :: "ProcessState \<Rightarrow> Global \<Rightarrow> Global option" where
  "gl_updateProcessState f_observable_r s =
     (let procState = eProcState f_observable_r
      in if \<not> (procState = Starting \<or> procState = Running) then Some s
         else (let currentState = processGroupState f_observable_r;
                   timestamp = ps_timestamp f_observable_r
               in case index_of currentState (k_refFuntionGroupStates s) of
                    Some index \<Rightarrow>
                      (if index < length (k_expiredTolerances s)
                       then gl_push (PGStateChange \<lparr>pg_expiredTolerance = k_expiredTolerances s ! index,
                                                   pg_timestamp = timestamp\<rparr>) timestamp s
                       else None)
                  | None \<Rightarrow> gl_push (PGStateChange \<lparr>pg_expiredTolerance = 0, pg_timestamp = timestamp\<rparr>) timestamp s))"

definition gl_updateLocal :: "nat \<Rightarrow> LocalResult \<Rightarrow> Global \<Rightarrow> Global option" where
  "gl_updateLocal addr f_observable_r s =
     gl_push (LocalSupState \<lparr>tl_localId = addr, tl_state = lr_status f_observable_r,
                              tl_supervisionType = lr_supervisionType f_observable_r,
                              tl_timestamp = lr_timestamp f_observable_r,
                              tl_executionError = lr_executionError f_observable_r\<rparr>)
       (lr_timestamp f_observable_r) s"

definition registerLocalSupervision :: "nat \<Rightarrow> Global \<Rightarrow> Global" where
  "registerLocalSupervision f_localSupervision_r s =
     s\<lparr>localStatusOverTime := snd (omap_insert f_localSupervision_r L_Deactivated (localStatusOverTime s))\<rparr>"

definition registerRecoveryNotification :: "nat \<Rightarrow> Global \<Rightarrow> Global" where
  "registerRecoveryNotification f_notification_r s =
     s\<lparr>registeredRecoveryNotifications := registeredRecoveryNotifications s @ [f_notification_r]\<rparr>"

subsection \<open>The accumulated state\<close>

text \<open>The numeric values of the status, which the accumulation compares.\<close>

fun status_value :: "LocalSupervisionStatus \<Rightarrow> int" where
  "status_value L_OK = 0"
| "status_value L_Failed = 1"
| "status_value L_Expired = 2"
| "status_value L_Deactivated = 4"

definition status_of_value :: "int \<Rightarrow> LocalSupervisionStatus" where
  "status_of_value v = (if v = 0 then L_OK else if v = 1 then L_Failed else if v = 2 then L_Expired else L_Deactivated)"

fun getAccumulatedState_loop :: "(nat, LocalSupervisionStatus) omap \<Rightarrow> int \<Rightarrow> int" where
  "getAccumulatedState_loop [] aggregateState = aggregateState"
| "getAccumulatedState_loop ((_, status) # m) aggregateState =
     (if status \<noteq> L_Deactivated
      then (let aggregateState = max (status_value status) aggregateState
            in if status = L_Expired then aggregateState
               else getAccumulatedState_loop m aggregateState)
      else getAccumulatedState_loop m aggregateState)"

definition getAccumulatedState :: "Global \<Rightarrow> LocalSupervisionStatus" where
  "getAccumulatedState s =
     (let kDeactivatedPlaceholder = - 1;
          aggregateState = getAccumulatedState_loop (localStatusOverTime s) kDeactivatedPlaceholder
      in if aggregateState \<noteq> kDeactivatedPlaceholder then status_of_value aggregateState else L_Deactivated)"

subsection \<open>Debouncing and switches\<close>

definition isDebounced :: "NanoSecondType \<Rightarrow> Global \<Rightarrow> bool \<times> Global" where
  "isDebounced f_time s =
     (let (f_time, s) =
            (if f_time = 0
             then (UINT64_MAX, s\<lparr>expiredSupervision := kInternalErrorSupervisionType,
                                 gl_executionError := kDefaultProcessExecutionError\<rparr>)
             else (f_time, s))
      in if expiredTolerance s = 0 then (True, s)
         else (let toleranceEnd = startExpired s + expiredTolerance s;
                   toleranceEnd = (if toleranceEnd \<le> startExpired s then UINT64_MAX else toleranceEnd)
               in (f_time \<ge> toleranceEnd, s)))"

fun supervisionTypeValue :: "EType \<Rightarrow> u32" where
  "supervisionTypeValue T_aliveSupervision = 0"
| "supervisionTypeValue T_deadlineSupervision = 1"
| "supervisionTypeValue T_logicalSupervision = 2"

definition gl_switchToDeactivated :: "Global \<Rightarrow> Global" where
  "gl_switchToDeactivated s = s\<lparr>globalStatus := G_Deactivated, startExpired := UINT64_MAX, expiredTolerance := 0\<rparr>"

definition gl_switchToOk :: "Global \<Rightarrow> Global" where
  "gl_switchToOk s = s\<lparr>globalStatus := G_OK, startExpired := UINT64_MAX\<rparr>"

definition gl_switchToFailed :: "Global \<Rightarrow> Global" where
  "gl_switchToFailed s = s\<lparr>globalStatus := G_Failed, startExpired := UINT64_MAX\<rparr>"

definition gl_switchToExpired :: "NanoSecondType \<Rightarrow> Global \<Rightarrow> Global" where
  "gl_switchToExpired f_starttime s = s\<lparr>globalStatus := G_Expired, startExpired := f_starttime\<rparr>"

text \<open>The reason only selects the log message.\<close>

definition gl_switchToStopped :: "EGlobalStoppedReason \<Rightarrow> Global \<Rightarrow> Global" where
  "gl_switchToStopped f_reason s =
     (let s = s\<lparr>globalStatus := G_Stopped, startExpired := UINT64_MAX\<rparr>;
          errorInfo = \<lparr>failedProcessExecutionError = gl_executionError s,
                       failedSupervisionType = supervisionTypeValue (expiredSupervision s)\<rparr>
      in s\<lparr>gl_sent := gl_sent s @ map (\<lambda>notification. (notification, errorInfo)) (registeredRecoveryNotifications s)\<rparr>)"

subsection \<open>Transitions\<close>

text \<open>The escalation shared by the transitions out of \<open>Deactivated\<close>, \<open>OK\<close> and \<open>Failed\<close>.\<close>

definition gl_expire :: "TimeSortedLocalSupState \<Rightarrow> Global \<Rightarrow> Global" where
  "gl_expire f_local_r s =
     (let s = s\<lparr>expiredSupervision := tl_supervisionType f_local_r, gl_executionError := tl_executionError f_local_r\<rparr>;
          (debounced, s) = isDebounced (tl_timestamp f_local_r) s
      in if debounced then gl_switchToStopped GR_expirationTimeout s
         else gl_switchToExpired (tl_timestamp f_local_r) s)"

definition gl_checkTransitionsOutOfDeactivated :: "TimeSortedLocalSupState \<Rightarrow> Global \<Rightarrow> Global" where
  "gl_checkTransitionsOutOfDeactivated f_local_r s =
     (case tl_state f_local_r of
        L_OK \<Rightarrow> gl_switchToOk s
      | L_Failed \<Rightarrow> gl_switchToFailed s
      | L_Expired \<Rightarrow> gl_expire f_local_r s
      | L_Deactivated \<Rightarrow> s)"

definition gl_checkTransitionsOutOfOk :: "TimeSortedLocalSupState \<Rightarrow> Global \<Rightarrow> Global" where
  "gl_checkTransitionsOutOfOk f_local_r s =
     (case tl_state f_local_r of
        L_Deactivated \<Rightarrow> if getAccumulatedState s = L_Deactivated then gl_switchToDeactivated s else s
      | L_Failed \<Rightarrow> gl_switchToFailed s
      | L_Expired \<Rightarrow> gl_expire f_local_r s
      | L_OK \<Rightarrow> s)"

definition gl_checkTransitionsOutOfFailed :: "TimeSortedLocalSupState \<Rightarrow> Global \<Rightarrow> Global" where
  "gl_checkTransitionsOutOfFailed f_local_r s =
     (if tl_state f_local_r = L_Expired then gl_expire f_local_r s
      else if tl_state f_local_r = L_Failed then s
      else (let accState = getAccumulatedState s
            in if accState = L_Deactivated then gl_switchToDeactivated s
               else if accState = L_OK then gl_switchToOk s
               else s))"

definition gl_checkTransitionsOutOfStopped :: "Global \<Rightarrow> Global" where
  "gl_checkTransitionsOutOfStopped s =
     (let accState = getAccumulatedState s
      in if accState = L_Deactivated then gl_switchToDeactivated s
         else if accState = L_OK then gl_switchToOk s
         else if accState = L_Failed then gl_switchToFailed s
         else s)"

definition gl_checkTransitionsOutOfExpired :: "TimeSortedLocalSupState \<Rightarrow> Global \<Rightarrow> Global" where
  "gl_checkTransitionsOutOfExpired f_local_r s =
     (let (debounced, s) = isDebounced (tl_timestamp f_local_r) s
      in if debounced then gl_switchToStopped GR_expirationTimeout s
         else if tl_state f_local_r = L_Expired then s
         else (let accState = getAccumulatedState s
               in if accState = L_Deactivated then gl_switchToDeactivated s
                  else if accState = L_OK then gl_switchToOk s
                  else if accState = L_Failed then gl_switchToFailed s
                  else s))"

definition evaluateLocalSupervisionUpdate :: "TimeSortedLocalSupState \<Rightarrow> Global \<Rightarrow> Global" where
  "evaluateLocalSupervisionUpdate f_local_r s =
     (let s = s\<lparr>localStatusOverTime := omap_assign (tl_localId f_local_r) (tl_state f_local_r) (localStatusOverTime s)\<rparr>
      in case globalStatus s of
           G_Deactivated \<Rightarrow> gl_checkTransitionsOutOfDeactivated f_local_r s
         | G_OK \<Rightarrow> gl_checkTransitionsOutOfOk f_local_r s
         | G_Failed \<Rightarrow> gl_checkTransitionsOutOfFailed f_local_r s
         | G_Expired \<Rightarrow> gl_checkTransitionsOutOfExpired f_local_r s
         | G_Stopped \<Rightarrow> gl_checkTransitionsOutOfStopped s)"

definition evaluatePGStateChange :: "TimeSortedPGStateChange \<Rightarrow> Global \<Rightarrow> Global" where
  "evaluatePGStateChange f_pgChange s =
     (let s = s\<lparr>expiredTolerance := pg_expiredTolerance f_pgChange\<rparr>
      in if globalStatus s = G_Expired
         then (let (debounced, s) = isDebounced (pg_timestamp f_pgChange) s
               in if debounced then gl_switchToStopped GR_expirationTimeout s else s)
         else s)"

fun gl_process :: "TimeSortedElem \<Rightarrow> Global \<Rightarrow> Global" where
  "gl_process (PGStateChange c) s = evaluatePGStateChange c s"
| "gl_process (LocalSupState l) s = evaluateLocalSupervisionUpdate l s"

definition processTimeSortedEvents :: "Global \<Rightarrow> Global option" where
  "processTimeSortedEvents s = do {
     (b, s) \<leftarrow> for_each tsb_getNextElement (\<lambda>e s. Some (gl_process e s)) (gl_buffer s) s;
     Some (s\<lparr>gl_buffer := tsb_clear b\<rparr>)
   }"

definition gl_evaluate :: "NanoSecondType \<Rightarrow> Global \<Rightarrow> Global option" where
  "gl_evaluate f_syncTimestamp s =
     (if gl_isDataLossEvent s
      then (let s = s\<lparr>expiredSupervision := kInternalErrorSupervisionType,
                      gl_executionError := kDefaultProcessExecutionError\<rparr>;
                s = gl_switchToStopped GR_history_buffer_overflow s
            in Some (s\<lparr>gl_buffer := tsb_clear (gl_buffer s), gl_isDataLossEvent := False\<rparr>))
      else do {
        s \<leftarrow> processTimeSortedEvents s;
        Some (if globalStatus s = G_Expired
              then (let (debounced, s) = isDebounced f_syncTimestamp s
                    in if debounced then gl_switchToStopped GR_expirationTimeout s else s)
              else s)
      })"



subsection \<open>The accumulated state is the worst status\<close>

fun worst :: "LocalSupervisionStatus set \<Rightarrow> LocalSupervisionStatus" where
  "worst R = (if L_Expired \<in> R then L_Expired else if L_Failed \<in> R then L_Failed
     else if L_OK \<in> R then L_OK else L_Deactivated)"

fun global_of :: "LocalSupervisionStatus \<Rightarrow> GlobalSupervisionStatus" where
  "global_of L_OK = G_OK"
| "global_of L_Failed = G_Failed"
| "global_of L_Expired = G_Expired"
| "global_of L_Deactivated = G_Deactivated"

definition rank :: "LocalSupervisionStatus \<Rightarrow> int" where
  "rank st = (if st = L_Deactivated then - 1 else status_value st)"

declare worst.simps [simp del]

lemma worst_insert: "worst (insert st R) = status_of_value (max (rank st) (rank (worst R)))"
  by (cases st) (auto simp: worst.simps rank_def status_of_value_def)

lemma getAccumulatedState_loop_worst:
  assumes "- 1 \<le> a" "a \<le> 1"
  shows "status_of_value (getAccumulatedState_loop m a) = status_of_value (max a (rank (worst (omap_values m)))) \<and>
    - 1 \<le> getAccumulatedState_loop m a"
  using assms
proof (induction m a rule: getAccumulatedState_loop.induct)
  case (1 a)
  then show ?case by (simp add: rank_def worst.simps max_def)
next
  case (2 k st m a)
  show ?case
    using 2 by (cases st) (auto simp: worst_insert rank_def status_of_value_def worst.simps max_def)
qed

lemma getAccumulatedState_worst: "getAccumulatedState s = worst (omap_values (localStatusOverTime s))"
proof -
  have "status_of_value (max (- 1) (rank (worst R))) = worst R" for R
    by (cases "worst R") (auto simp: rank_def status_of_value_def)
  then show ?thesis
    using getAccumulatedState_loop_worst [of "- 1" "localStatusOverTime s"]
    by (auto simp: getAccumulatedState_def Let_def status_of_value_def split: if_splits)
qed

subsection \<open>Debouncing\<close>

text \<open>The end of the tolerance saturates at the largest time.\<close>

definition toleranceEnd :: "Global \<Rightarrow> nat" where
  "toleranceEnd s = min (unat (startExpired s) + unat (expiredTolerance s)) (2 ^ 64 - 1)"

definition debounced :: "NanoSecondType \<Rightarrow> Global \<Rightarrow> bool" where
  "debounced t s \<longleftrightarrow> expiredTolerance s = 0 \<or> t = 0 \<or> toleranceEnd s \<le> unat t"

text \<open>Only a clock error (time 0) changes the state: the failure is then attributed to the daemon itself.\<close>

definition clock_checked :: "NanoSecondType \<Rightarrow> Global \<Rightarrow> Global" where
  "clock_checked t s = (if t = 0 then s\<lparr>expiredSupervision := kInternalErrorSupervisionType,
     gl_executionError := kDefaultProcessExecutionError\<rparr> else s)"

lemma unat_max64: "unat UINT64_MAX = 2 ^ 64 - 1"
  by (simp add: unsigned_minus_1_eq_mask mask_eq_exp_minus_1)

lemma add_wraps_iff:
  fixes a d :: u64
  assumes "d \<noteq> 0"
  shows "a + d \<le> a \<longleftrightarrow> \<not> unat a + unat d < 2 ^ 64"
proof (cases "unat a + unat d < 2 ^ 64")
  case True
  with word_less_add_no_wrap64 [OF True assms] show ?thesis by simp
next
  case False
  then have "unat (a + d) = unat a + unat d - 2 ^ 64"
    using unat64_less [of a] unat64_less [of d] by (simp add: unat_word_ariths mod_if)
  with False show ?thesis using unat64_less [of d] by (simp add: word_le_nat_alt)
qed

lemma isDebounced_eq: "isDebounced t s = (debounced t s, clock_checked t s)"
proof -
  have "UINT64_MAX \<le> t \<longleftrightarrow> 2 ^ 64 - 1 \<le> unat t" for t :: u64
    using unat_max64 by (simp add: word_le_nat_alt)
  moreover have "startExpired s + expiredTolerance s \<le> t \<longleftrightarrow> unat (startExpired s) + unat (expiredTolerance s) \<le> unat t"
    if "unat (startExpired s) + unat (expiredTolerance s) < 2 ^ 64" for t
    using that by (simp add: word_le_nat_alt unat_add_no_wrap64)
  ultimately show ?thesis
    using add_wraps_iff [of "expiredTolerance s" "startExpired s"] unat64_less [of t]
    by (auto simp: isDebounced_def debounced_def clock_checked_def toleranceEnd_def Let_def min_def)
qed

subsection \<open>Invariant\<close>

lemmas gl_switch_defs = gl_switchToDeactivated_def gl_switchToOk_def gl_switchToFailed_def gl_switchToExpired_def
  gl_switchToStopped_def

lemmas gl_transition_defs = gl_checkTransitionsOutOfDeactivated_def gl_checkTransitionsOutOfOk_def
  gl_checkTransitionsOutOfFailed_def gl_checkTransitionsOutOfExpired_def gl_checkTransitionsOutOfStopped_def gl_expire_def

definition gl_core :: "Global \<Rightarrow> bool" where
  "gl_core s \<longleftrightarrow> omap_wf (localStatusOverTime s) \<and>
     (globalStatus s \<noteq> G_Stopped \<longrightarrow> globalStatus s = global_of (worst (omap_values (localStatusOverTime s)))) \<and>
     (globalStatus s \<noteq> G_Expired \<longrightarrow> startExpired s = UINT64_MAX)"

definition gl_inv :: "Global \<Rightarrow> bool" where
  "gl_inv s \<longleftrightarrow> gl_core s \<and> length (k_expiredTolerances s) = length (k_refFuntionGroupStates s) \<and>
     tsb_inv (gl_buffer s) \<and> lastReportedElement_p (gl_buffer s) = None"

definition gl_const where
  "gl_const s = (k_expiredTolerances s, k_refFuntionGroupStates s, registeredRecoveryNotifications s,
     gl_isDataLossEvent s, gl_buffer s)"

lemma gl_const_switch [simp]:
  "gl_const (gl_switchToDeactivated s) = gl_const s" "gl_const (gl_switchToOk s) = gl_const s"
  "gl_const (gl_switchToFailed s) = gl_const s" "gl_const (gl_switchToExpired t s) = gl_const s"
  "gl_const (gl_switchToStopped r s) = gl_const s" "gl_const (clock_checked t s) = gl_const s"
  by (simp_all add: gl_switch_defs gl_const_def clock_checked_def Let_def)

lemma gl_const_process [simp]: "gl_const (gl_process e s) = gl_const s"
  by (cases e)
    (simp_all add: evaluatePGStateChange_def evaluateLocalSupervisionUpdate_def gl_transition_defs isDebounced_eq Let_def
      split: GlobalSupervisionStatus.split LocalSupervisionStatus.split, simp_all add: gl_const_def)

lemma gl_locals_switch [simp]:
  "localStatusOverTime (gl_switchToDeactivated s) = localStatusOverTime s"
  "localStatusOverTime (gl_switchToOk s) = localStatusOverTime s"
  "localStatusOverTime (gl_switchToFailed s) = localStatusOverTime s"
  "localStatusOverTime (gl_switchToExpired t s) = localStatusOverTime s"
  "localStatusOverTime (gl_switchToStopped r s) = localStatusOverTime s"
  "localStatusOverTime (clock_checked t s) = localStatusOverTime s"
  by (simp_all add: gl_switch_defs clock_checked_def Let_def)

lemma gl_status_switch [simp]:
  "globalStatus (gl_switchToDeactivated s) = G_Deactivated" "globalStatus (gl_switchToOk s) = G_OK"
  "globalStatus (gl_switchToFailed s) = G_Failed" "globalStatus (gl_switchToExpired t s) = G_Expired"
  "globalStatus (gl_switchToStopped r s) = G_Stopped" "globalStatus (clock_checked t s) = globalStatus s"
  by (simp_all add: gl_switch_defs clock_checked_def Let_def)

lemma gl_start_switch [simp]:
  "startExpired (gl_switchToDeactivated s) = UINT64_MAX" "startExpired (gl_switchToOk s) = UINT64_MAX"
  "startExpired (gl_switchToFailed s) = UINT64_MAX" "startExpired (gl_switchToExpired t s) = t"
  "startExpired (gl_switchToStopped r s) = UINT64_MAX" "startExpired (clock_checked t s) = startExpired s"
  by (simp_all add: gl_switch_defs clock_checked_def Let_def)

lemma global_of_eq [simp]:
  "G_Deactivated = global_of st \<longleftrightarrow> st = L_Deactivated" "G_OK = global_of st \<longleftrightarrow> st = L_OK"
  "G_Failed = global_of st \<longleftrightarrow> st = L_Failed" "G_Expired = global_of st \<longleftrightarrow> st = L_Expired"
  "G_Stopped \<noteq> global_of st"
  by (cases st; simp)+

text \<open>How one assignment changes the worst status.\<close>

lemma worst_assign:
  assumes "R' \<subseteq> insert st R" "st \<in> R'"
  shows "st = L_Expired \<Longrightarrow> worst R' = L_Expired"
    and "worst R = L_Deactivated \<Longrightarrow> worst R' = st"
    and "worst R = L_OK \<Longrightarrow> st = L_OK \<or> st = L_Failed \<Longrightarrow> worst R' = st"
    and "worst R = L_OK \<Longrightarrow> st = L_Deactivated \<Longrightarrow> worst R' = L_OK \<or> worst R' = L_Deactivated"
    and "worst R = L_Failed \<Longrightarrow> st = L_Failed \<Longrightarrow> worst R' = L_Failed"
    and "worst R = L_Failed \<Longrightarrow> st \<noteq> L_Expired \<Longrightarrow> worst R' \<noteq> L_Expired"
  using assms by (cases st; auto simp: worst.simps split: if_splits)+

definition gl_dispatch :: "TimeSortedLocalSupState \<Rightarrow> Global \<Rightarrow> Global" where
  "gl_dispatch l s = (case globalStatus s of
     G_Deactivated \<Rightarrow> gl_checkTransitionsOutOfDeactivated l s
   | G_OK \<Rightarrow> gl_checkTransitionsOutOfOk l s
   | G_Failed \<Rightarrow> gl_checkTransitionsOutOfFailed l s
   | G_Expired \<Rightarrow> gl_checkTransitionsOutOfExpired l s
   | G_Stopped \<Rightarrow> gl_checkTransitionsOutOfStopped s)"

lemma evaluateLocalSupervisionUpdate_dispatch:
  "evaluateLocalSupervisionUpdate l s =
     gl_dispatch l (s\<lparr>localStatusOverTime := omap_assign (tl_localId l) (tl_state l) (localStatusOverTime s)\<rparr>)"
  by (simp add: evaluateLocalSupervisionUpdate_def gl_dispatch_def Let_def)

text \<open>
  The transitions restore the invariant after the table was updated: \<open>w\<close> and \<open>w'\<close> are the worst status
  before and after the update.
\<close>

lemma gl_dispatch_core:
  assumes "omap_wf (localStatusOverTime s)" "worst (omap_values (localStatusOverTime s)) = w'"
    and "globalStatus s \<noteq> G_Stopped \<longrightarrow> globalStatus s = global_of w"
    and "globalStatus s \<noteq> G_Expired \<longrightarrow> startExpired s = UINT64_MAX"
    and "tl_state l = L_Expired \<Longrightarrow> w' = L_Expired" "w = L_Deactivated \<Longrightarrow> w' = tl_state l"
    and "w = L_OK \<Longrightarrow> tl_state l = L_OK \<or> tl_state l = L_Failed \<Longrightarrow> w' = tl_state l"
    and "w = L_OK \<Longrightarrow> tl_state l = L_Deactivated \<Longrightarrow> w' = L_OK \<or> w' = L_Deactivated"
    and "w = L_Failed \<Longrightarrow> tl_state l = L_Failed \<Longrightarrow> w' = L_Failed"
    and "w = L_Failed \<Longrightarrow> tl_state l \<noteq> L_Expired \<Longrightarrow> w' \<noteq> L_Expired"
  shows "gl_core (gl_dispatch l s)"
proof -
  have "gl_core s" if "globalStatus s = global_of w'" using assms(1-4) that by (simp add: gl_core_def)
  then show ?thesis
    using assms
    by (cases "globalStatus s"; cases "tl_state l"; cases w')
      (simp_all add: gl_dispatch_def gl_transition_defs isDebounced_eq getAccumulatedState_worst Let_def gl_core_def)
qed

lemma gl_process_core:
  assumes "gl_core s"
  shows "gl_core (gl_process e s)"
proof (cases e)
  case (PGStateChange c)
  then show ?thesis
    using assms by (auto simp: evaluatePGStateChange_def isDebounced_eq gl_core_def Let_def)
next
  case (LocalSupState l)
  let ?m = "localStatusOverTime s"
  have wf: "omap_wf ?m" using assms by (simp add: gl_core_def)
  let ?s = "s\<lparr>localStatusOverTime := omap_assign (tl_localId l) (tl_state l) ?m\<rparr>"
  have "omap_values (localStatusOverTime ?s) \<subseteq> insert (tl_state l) (omap_values ?m)"
    and "tl_state l \<in> omap_values (localStatusOverTime ?s)"
    using omap_assign_values_subset [OF wf] omap_assign_value_in [OF wf] by simp_all
  note w = worst_assign [OF this]
  show ?thesis
    unfolding LocalSupState gl_process.simps evaluateLocalSupervisionUpdate_dispatch
    by (rule gl_dispatch_core [OF _ refl _ _ w]) (use assms wf in \<open>simp_all add: gl_core_def\<close>)
qed

subsection \<open>The evaluation\<close>

definition gl_timeout :: "NanoSecondType \<Rightarrow> Global \<Rightarrow> Global" where
  "gl_timeout t s = (if globalStatus s = G_Expired \<and> debounced t s
     then gl_switchToStopped GR_expirationTimeout (clock_checked t s)
     else if globalStatus s = G_Expired then clock_checked t s else s)"

lemma gl_const_timeout [simp]: "gl_const (gl_timeout t s) = gl_const s"
  by (simp add: gl_timeout_def)

lemma gl_timeout_core: "gl_core s \<Longrightarrow> gl_core (gl_timeout t s)"
  by (simp add: gl_timeout_def gl_core_def)

lemma gl_scan_core: "gl_core s \<Longrightarrow> gl_core (fold gl_process es s) \<and> gl_const (fold gl_process es s) = gl_const s"
  by (induction es arbitrary: s) (simp_all add: gl_process_core)

lemma gl_evaluate_scan:
  assumes "gl_inv s" "\<not> gl_isDataLossEvent s"
  shows "\<exists>b'. tsb_inv b' \<and> gl_evaluate t s =
    Some (gl_timeout t ((fold gl_process (map snd (tsb_contents (gl_buffer s))) s)\<lparr>gl_buffer := tsb_clear b'\<rparr>))"
proof -
  have "tsb_remaining (gl_buffer s) = map snd (tsb_contents (gl_buffer s))"
    using assms(1) by (simp add: gl_inv_def tsb_fresh_remaining)
  then show ?thesis
    using tsb.for_each_fold [of "gl_buffer s" "\<lambda>e s. Some (gl_process e s)" s] assms
    by (auto simp: gl_evaluate_def processTimeSortedEvents_def gl_inv_def gl_timeout_def isDebounced_eq Let_def)
qed

lemma gl_const_inv:
  "gl_const s' = gl_const s \<Longrightarrow> gl_core s' \<Longrightarrow> gl_inv s \<Longrightarrow> gl_inv s'"
  by (auto simp: gl_const_def gl_inv_def)

lemma gl_evaluate_inv:
  assumes "gl_inv s"
  shows "\<exists>s'. gl_evaluate t s = Some s' \<and> gl_inv s' \<and> \<not> gl_isDataLossEvent s' \<and> tsb_contents (gl_buffer s') = [] \<and>
    (gl_isDataLossEvent s \<longrightarrow> globalStatus s' = G_Stopped)"
proof (cases "gl_isDataLossEvent s")
  case True
  then show ?thesis
    using assms by (auto simp: gl_evaluate_def Let_def gl_inv_def gl_core_def gl_switchToStopped_def)
next
  case False
  let ?s = "fold gl_process (map snd (tsb_contents (gl_buffer s))) s"
  obtain b' where b': "tsb_inv b'" "gl_evaluate t s = Some (gl_timeout t (?s\<lparr>gl_buffer := tsb_clear b'\<rparr>))"
    using gl_evaluate_scan [OF assms False, of t] by blast
  have scan: "gl_core ?s" "gl_const ?s = gl_const s" using gl_scan_core [of s] assms by (auto simp: gl_inv_def)
  let ?s1 = "?s\<lparr>gl_buffer := tsb_clear b'\<rparr>"
  have s1: "gl_inv ?s1" "\<not> gl_isDataLossEvent ?s1"
    using scan b'(1) assms False by (auto simp: gl_inv_def gl_core_def gl_const_def)
  then have "gl_inv (gl_timeout t ?s1)"
    using gl_const_inv [OF gl_const_timeout gl_timeout_core] by (simp add: gl_inv_def)
  moreover have "gl_isDataLossEvent (gl_timeout t ?s1) = gl_isDataLossEvent ?s1" "gl_buffer (gl_timeout t ?s1) = tsb_clear b'"
    using gl_const_timeout [of t ?s1] by (simp_all add: gl_const_def)
  ultimately show ?thesis using b'(2) s1(2) False by simp
qed

lemma gl_push_inv:
  assumes "gl_inv s"
  shows "\<exists>s'. gl_push e t s = Some s' \<and> gl_inv s' \<and> globalStatus s' = globalStatus s"
proof -
  obtain r b where "tsb_push e t (gl_buffer s) = Some (r, b)" "tsb_inv b" "lastReportedElement_p b = None"
    using tsb.push_total [of "gl_buffer s" e t] assms by (auto simp: gl_inv_def)
  with assms show ?thesis by (cases r) (simp_all add: gl_push_def Let_def gl_inv_def gl_core_def)
qed

lemma gl_updateProcessState_inv:
  assumes "gl_inv s"
  shows "\<exists>s'. gl_updateProcessState p s = Some s' \<and> gl_inv s'"
proof -
  have push: "\<exists>s'. gl_push e t s = Some s' \<and> gl_inv s'" for e t using gl_push_inv [OF assms] by blast
  have "index_of x (k_refFuntionGroupStates s) = Some i \<Longrightarrow> i < length (k_expiredTolerances s)" for x i
    using assms index_of_Some by (fastforce simp: gl_inv_def)
  with push assms show ?thesis
    by (auto simp: gl_updateProcessState_def Let_def split: option.split)
qed

lemma gl_updateLocal_inv: "gl_inv s \<Longrightarrow> \<exists>s'. gl_updateLocal a r s = Some s' \<and> gl_inv s'"
  unfolding gl_updateLocal_def using gl_push_inv by blast

lemma Global_new_inv:
  "length (gcfg_expiredTolerances cfg) = length (gcfg_refFuntionGroupStates cfg) \<Longrightarrow> gl_inv (Global_new cfg)"
  by (simp add: Global_new_def gl_inv_def gl_core_def worst.simps)

lemma registerLocalSupervision_inv:
  assumes "gl_inv s" "globalStatus s = G_Deactivated"
  shows "gl_inv (registerLocalSupervision a s)"
proof -
  let ?m = "localStatusOverTime s"
  have wf: "omap_wf ?m" and w: "worst (omap_values ?m) = L_Deactivated"
    using assms by (simp_all add: gl_inv_def gl_core_def)
  have "omap_values (snd (omap_insert a L_Deactivated ?m)) \<subseteq> insert L_Deactivated (omap_values ?m)"
    using omap_assign_values_subset [OF wf] by (auto simp: omap_insert_def split: option.split)
  with w have "worst (omap_values (snd (omap_insert a L_Deactivated ?m))) = L_Deactivated"
    by (auto simp: worst.simps split: if_splits)
  with wf assms show ?thesis by (simp add: registerLocalSupervision_def gl_inv_def gl_core_def)
qed

text \<open>The states of a global supervision: registration first, then updates and evaluations in any order.\<close>

inductive gl_reachable :: "GlobalSupervisionCfg \<Rightarrow> Global \<Rightarrow> bool" for cfg where
  gl_init: "gl_reachable cfg (fold registerRecoveryNotification ns (fold registerLocalSupervision as (Global_new cfg)))"
| gl_process_state: "gl_reachable cfg s \<Longrightarrow> gl_updateProcessState p s = Some s' \<Longrightarrow> gl_reachable cfg s'"
| gl_local: "gl_reachable cfg s \<Longrightarrow> gl_updateLocal a r s = Some s' \<Longrightarrow> gl_reachable cfg s'"
| gl_cycle: "gl_reachable cfg s \<Longrightarrow> gl_evaluate t s = Some s' \<Longrightarrow> gl_reachable cfg s'"

lemma gl_init_inv:
  assumes "length (gcfg_expiredTolerances cfg) = length (gcfg_refFuntionGroupStates cfg)"
  shows "gl_inv (fold registerRecoveryNotification ns (fold registerLocalSupervision as (Global_new cfg)))"
proof -
  have "gl_inv s \<and> globalStatus s = G_Deactivated \<Longrightarrow> gl_inv (fold registerLocalSupervision as s)" for s
  proof (induction as arbitrary: s)
    case (Cons a as)
    then show ?case using registerLocalSupervision_inv [of s a] by (simp add: registerLocalSupervision_def)
  qed simp
  moreover have "gl_inv s \<Longrightarrow> gl_inv (fold registerRecoveryNotification ns s)" for s
    by (induction ns arbitrary: s) (simp_all add: registerRecoveryNotification_def gl_inv_def gl_core_def)
  moreover have "globalStatus (Global_new cfg) = G_Deactivated" by (simp add: Global_new_def)
  ultimately show ?thesis using Global_new_inv [OF assms] by blast
qed

lemma gl_reachable_inv:
  assumes "length (gcfg_expiredTolerances cfg) = length (gcfg_refFuntionGroupStates cfg)" "gl_reachable cfg s"
  shows "gl_inv s"
  using assms(2)
proof (induction rule: gl_reachable.induct)
  case gl_init
  then show ?case by (rule gl_init_inv [OF assms(1)])
next
  case (gl_process_state s p s')
  then show ?case using gl_updateProcessState_inv [of s p] by auto
next
  case (gl_local s a r s')
  then show ?case using gl_updateLocal_inv [of s a r] by auto
next
  case (gl_cycle s t s')
  then show ?case using gl_evaluate_inv [of s t] by auto
qed

subsection \<open>An example supervision\<close>

text \<open>Two local supervisions 51 and 52, one recovery notification 61, tolerance 100 ns in group state 1.\<close>

definition gl_example_cfg :: GlobalSupervisionCfg where
  "gl_example_cfg = \<lparr>gcfg_refFuntionGroupStates = [1], gcfg_localEventBufferSize = 4, gcfg_expiredTolerances = [100]\<rparr>"

definition gl_example :: Global where
  "gl_example = fold registerRecoveryNotification [61] (fold registerLocalSupervision [51, 52] (Global_new gl_example_cfg))"

definition gl_example_expired :: Global where
  "gl_example_expired = gl_example\<lparr>globalStatus := G_Expired, startExpired := 500, expiredTolerance := 100,
     localStatusOverTime := [(51, L_Expired), (52, L_OK)]\<rparr>"

lemma gl_example_inv: "gl_inv gl_example" "gl_inv gl_example_expired"
proof -
  show *: "gl_inv gl_example" unfolding gl_example_def by (rule gl_init_inv) (simp add: gl_example_cfg_def)
  then show "gl_inv gl_example_expired"
    by (simp add: gl_example_expired_def gl_inv_def gl_core_def worst.simps omap_wf_def)
qed

lemma gl_example_simps:
  "gl_buffer gl_example_expired = tsb_new 4" "gl_isDataLossEvent gl_example_expired = False"
  "globalStatus gl_example_expired = G_Expired" "startExpired gl_example_expired = 500"
  "expiredTolerance gl_example_expired = 100" "registeredRecoveryNotifications gl_example_expired = [61]"
  "gl_sent gl_example_expired = []"
  by (simp_all add: gl_example_expired_def gl_example_def registerRecoveryNotification_def registerLocalSupervision_def
      Global_new_def gl_example_cfg_def)

subsection \<open>Properties\<close>

text \<open>
  The accumulated state is the worst of the registered local supervisions (expired, failed, ok, in
  this order, deactivated if there is none of them), whatever the order of the table: the early
  exit of the loop and the numeric encoding do not change the result.
\<close>

theorem global_accumulated_is_worst:
  "getAccumulatedState s = worst (omap_values (localStatusOverTime s))"
  by (rule getAccumulatedState_worst)

text \<open>
  (C32) The reported status is the worst local status: in every reachable state that is not stopped the
  global status is that of the accumulated local supervisions, so no local failure is hidden and
  none is invented.
\<close>

theorem global_status_is_worst_local:
  assumes "gl_reachable cfg s" "length (gcfg_expiredTolerances cfg) = length (gcfg_refFuntionGroupStates cfg)"
    and "globalStatus s \<noteq> G_Stopped"
  shows "globalStatus s = global_of (worst (omap_values (localStatusOverTime s)))"
  using gl_reachable_inv [OF assms(2,1)] assms(3) by (simp add: gl_inv_def gl_core_def)

theorem global_status_is_worst_local_witness:
  "globalStatus gl_example = global_of (worst (omap_values (localStatusOverTime gl_example)))"
  unfolding gl_example_def
  by (rule global_status_is_worst_local [OF gl_init])
    (simp_all add: gl_example_cfg_def registerRecoveryNotification_def registerLocalSupervision_def Global_new_def)

text \<open>
  (C31) The expiration tolerance is exact and escalation happens once: with no further update an evaluation of
  an expired supervision at time \<open>t\<close> stops it precisely when the tolerance since the expiry has
  elapsed (saturating at the largest time, immediately for a zero tolerance or a clock error), and
  sends exactly one notification to every registered recovery notification; before that it
  sends none and keeps the start of the expiry.
\<close>

theorem global_expired_escalates:
  assumes "gl_inv s" "\<not> gl_isDataLossEvent s" "globalStatus s = G_Expired" "tsb_contents (gl_buffer s) = []"
    and "t \<noteq> 0"
  shows "\<exists>s'. gl_evaluate t s = Some s' \<and>
    (if expiredTolerance s = 0 \<or> min (unat (startExpired s) + unat (expiredTolerance s)) (2 ^ 64 - 1) \<le> unat t
     then globalStatus s' = G_Stopped \<and>
       gl_sent s' = gl_sent s @ map (\<lambda>n. (n, \<lparr>failedProcessExecutionError = gl_executionError s,
         failedSupervisionType = supervisionTypeValue (expiredSupervision s)\<rparr>)) (registeredRecoveryNotifications s)
     else globalStatus s' = G_Expired \<and> gl_sent s' = gl_sent s \<and> startExpired s' = startExpired s)"
proof -
  obtain b' where "gl_evaluate t s = Some (gl_timeout t (s\<lparr>gl_buffer := tsb_clear b'\<rparr>))"
    using gl_evaluate_scan [OF assms(1,2), of t] assms(4) by auto
  then show ?thesis
    using assms(3,5)
    by (simp add: gl_timeout_def clock_checked_def debounced_def toleranceEnd_def gl_switchToStopped_def Let_def)
qed

theorem global_expired_escalates_witness:
  "(\<exists>s'. gl_evaluate 599 gl_example_expired = Some s' \<and> globalStatus s' = G_Expired \<and> gl_sent s' = []) \<and>
   (\<exists>s'. gl_evaluate 600 gl_example_expired = Some s' \<and> globalStatus s' = G_Stopped \<and> map fst (gl_sent s') = [61])"
  using global_expired_escalates [OF gl_example_inv(2), of 599] global_expired_escalates [OF gl_example_inv(2), of 600]
  by (auto simp: gl_example_simps)

text \<open>
  A stopped supervision notifies no second time: processing any update or timeout in the stopped state
  sends nothing, and the supervision leaves it only for the status of the accumulated local
  supervisions, never for expired.
\<close>

theorem global_stopped_is_silent:
  assumes "globalStatus s = G_Stopped"
  shows "gl_sent (gl_process e s) = gl_sent s \<and>
    (globalStatus (gl_process e s) = G_Stopped \<or>
     globalStatus (gl_process e s) = global_of (getAccumulatedState (gl_process e s)) \<and>
     globalStatus (gl_process e s) \<noteq> G_Expired)"
proof (cases e)
  case (PGStateChange c)
  with assms show ?thesis by (simp add: evaluatePGStateChange_def)
next
  case (LocalSupState l)
  with assms show ?thesis
    by (simp add: evaluateLocalSupervisionUpdate_def gl_checkTransitionsOutOfStopped_def Let_def getAccumulatedState_worst
        gl_switch_defs)
qed

theorem global_stopped_is_silent_witness:
  "gl_sent (gl_process (PGStateChange \<lparr>pg_expiredTolerance = 5, pg_timestamp = 700\<rparr>)
     (gl_example_expired\<lparr>globalStatus := G_Stopped\<rparr>)) = []"
proof -
  have "gl_sent (gl_process (PGStateChange \<lparr>pg_expiredTolerance = 5, pg_timestamp = 700\<rparr>)
      (gl_example_expired\<lparr>globalStatus := G_Stopped\<rparr>)) = gl_sent (gl_example_expired\<lparr>globalStatus := G_Stopped\<rparr>)"
    by (rule global_stopped_is_silent [THEN conjunct1]) simp
  then show ?thesis by (simp add: gl_example_simps)
qed

text \<open>
  An expiry starts its tolerance at the time of the failure: when a local supervision expires while
  the global status is neither expired nor stopped and a tolerance is configured, the supervision is
  expired since the reported time, blames the reported supervision type and process, and sends
  nothing yet.
\<close>

theorem global_expiry_starts_tolerance:
  assumes "gl_core s" "globalStatus s \<noteq> G_Expired" "globalStatus s \<noteq> G_Stopped" "tl_state l = L_Expired"
    and "expiredTolerance s \<noteq> 0" "tl_timestamp l \<noteq> 0" "tl_timestamp l \<noteq> UINT64_MAX"
  shows "globalStatus (gl_process (LocalSupState l) s) = G_Expired \<and>
    startExpired (gl_process (LocalSupState l) s) = tl_timestamp l \<and>
    expiredSupervision (gl_process (LocalSupState l) s) = tl_supervisionType l \<and>
    gl_executionError (gl_process (LocalSupState l) s) = tl_executionError l \<and>
    gl_sent (gl_process (LocalSupState l) s) = gl_sent s"
proof -
  have start: "startExpired s = UINT64_MAX" using assms(1,2) by (simp add: gl_core_def)
  have "unat (tl_timestamp l) \<noteq> 2 ^ 64 - 1" using assms(7) unat_max64 by (metis unsigned_word_eqI)
  then have "unat (tl_timestamp l) < 2 ^ 64 - 1" using unat64_less [of "tl_timestamp l"] by linarith
  then have "\<not> debounced (tl_timestamp l) s'" if "startExpired s' = UINT64_MAX" "expiredTolerance s' \<noteq> 0" for s'
    using that assms(6) unat_max64 unat64_less [of "tl_timestamp l"]
    by (simp add: debounced_def toleranceEnd_def min_def unat_gt_0)
  then show ?thesis
    using assms(2-6) start
    by (cases "globalStatus s")
      (simp_all add: evaluateLocalSupervisionUpdate_def gl_transition_defs isDebounced_eq clock_checked_def
        gl_switchToExpired_def Let_def)
qed

theorem global_expiry_starts_tolerance_witness:
  "startExpired (gl_process (LocalSupState \<lparr>tl_localId = 51, tl_state = L_Expired, tl_supervisionType = T_logicalSupervision,
     tl_timestamp = 300, tl_executionError = 9\<rparr>) (gl_example\<lparr>expiredTolerance := 100\<rparr>)) = 300"
proof -
  have "gl_core (gl_example\<lparr>expiredTolerance := 100\<rparr>)" using gl_example_inv(1) by (simp add: gl_inv_def gl_core_def)
  moreover have "globalStatus gl_example = G_Deactivated"
    by (simp add: gl_example_def registerRecoveryNotification_def registerLocalSupervision_def Global_new_def)
  ultimately show ?thesis
    using global_expiry_starts_tolerance [of "gl_example\<lparr>expiredTolerance := 100\<rparr>" "\<lparr>tl_localId = 51, tl_state = L_Expired,
      tl_supervisionType = T_logicalSupervision, tl_timestamp = 300, tl_executionError = 9\<rparr>"] by simp
qed

text \<open>
  A lost update stops the supervision: the next evaluation after an overflow of the history buffer stops
  the global supervision and notifies every recovery notification of an internal error.
\<close>

theorem global_data_loss_stops:
  assumes "gl_isDataLossEvent s"
  shows "\<exists>s'. gl_evaluate t s = Some s' \<and> globalStatus s' = G_Stopped \<and> \<not> gl_isDataLossEvent s' \<and>
    tsb_contents (gl_buffer s') = [] \<and>
    gl_sent s' = gl_sent s @ map (\<lambda>n. (n, \<lparr>failedProcessExecutionError = 1, failedSupervisionType = 0\<rparr>))
      (registeredRecoveryNotifications s)"
  using assms
  by (simp add: gl_evaluate_def gl_switchToStopped_def Let_def kInternalErrorSupervisionType_def
      kDefaultProcessExecutionError_def)

theorem global_data_loss_stops_witness:
  "\<exists>s'. gl_evaluate 10 (gl_example_expired\<lparr>gl_isDataLossEvent := True\<rparr>) = Some s' \<and> globalStatus s' = G_Stopped"
  using global_data_loss_stops [of "gl_example_expired\<lparr>gl_isDataLossEvent := True\<rparr>" 10] by auto

end
