(* ===== verification/Ring_Buffer.thy ===== *)
theory Ring_Buffer
  imports Prelude
begin

section \<open>The ring buffer of the IPC layer\<close>

text \<open>
  Models \<^verbatim>\<open>externals/ipc_dropin/include/ipc_dropin/ringbuffer.hpp\<close>, the container below every
  channel of the system: checkpoint reports from the applications, process state changes and
  recovery requests.

  The array \<^verbatim>\<open>nodes_\<close> is a list whose length is the template parameter \<^verbatim>\<open>Capacity\<close>. The bytes in
  \<^verbatim>\<open>storage\<close> are represented by the value they were copied from (\<open>None\<close> for the zero bytes of the
  initial array); the size stored beside them is kept, and \<^verbatim>\<open>sizeof(T)\<close> is an argument of the
  operations that use it, so that reading with another type is the mismatch branch of the code.
  Each operation takes the buffer's mutex for its whole body, so an execution of several threads is
  a sequence of operations. The heads are indices below the capacity, which is itself a
  \<^verbatim>\<open>std::size_t\<close>, so that \<^verbatim>\<open>head + 1\<close> does not wrap before the remainder is taken.
\<close>

record 'a Node =
  nd_storage :: "'a option"
  nd_size :: nat

record 'a RingBuffer =
  rb_nodes :: "'a Node list"
  write_head :: nat
  read_head :: nat
  rb_size :: nat
  overflow_flag :: bool
  rb_initialized :: bool

definition RingBuffer_new :: "nat \<Rightarrow> 'a RingBuffer" where
  "RingBuffer_new Capacity =
     \<lparr>rb_nodes = replicate Capacity \<lparr>nd_storage = None, nd_size = 0\<rparr>, write_head = 0, read_head = 0,
      rb_size = 0, overflow_flag = False, rb_initialized = False\<rparr>"

definition rb_initialize :: "'a RingBuffer \<Rightarrow> 'a RingBuffer" where
  "rb_initialize b =
     (if rb_initialized b then b
      else b\<lparr>write_head := 0, read_head := 0, rb_size := 0, overflow_flag := False, rb_initialized := True\<rparr>)"

definition rb_capacity :: "'a RingBuffer \<Rightarrow> nat" where
  "rb_capacity b = length (rb_nodes b)"

definition rb_empty :: "'a RingBuffer \<Rightarrow> bool" where
  "rb_empty b \<longleftrightarrow> rb_size b = 0"

definition rb_full :: "'a RingBuffer \<Rightarrow> bool" where
  "rb_full b \<longleftrightarrow> rb_size b = rb_capacity b"

definition advanceWriteHead :: "'a RingBuffer \<Rightarrow> 'a RingBuffer" where
  "advanceWriteHead b =
     b\<lparr>write_head := (write_head b + 1) mod rb_capacity b, rb_size := rb_size b + 1\<rparr>"

definition advanceReadHead :: "'a RingBuffer \<Rightarrow> 'a RingBuffer" where
  "advanceReadHead b =
     b\<lparr>read_head := (read_head b + 1) mod rb_capacity b, rb_size := rb_size b - 1\<rparr>"

definition tryEnqueue :: "nat \<Rightarrow> 'a \<Rightarrow> 'a RingBuffer \<Rightarrow> bool \<times> 'a RingBuffer" where
  "tryEnqueue sizeof_T value b =
     (if rb_full b then (False, b\<lparr>overflow_flag := True\<rparr>)
      else (True, advanceWriteHead
             (b\<lparr>rb_nodes := (rb_nodes b)[write_head b := \<lparr>nd_storage = Some value, nd_size = sizeof_T\<rparr>]\<rparr>)))"

text \<open>
  Constructing the element in place stores the same bytes as copying it in: the payload types are
  trivially copyable.
\<close>

definition tryEmplace :: "nat \<Rightarrow> 'a \<Rightarrow> 'a RingBuffer \<Rightarrow> bool \<times> 'a RingBuffer" where
  "tryEmplace sizeof_T args b =
     (if rb_full b then (False, b\<lparr>overflow_flag := True\<rparr>)
      else (True, advanceWriteHead
             (b\<lparr>rb_nodes := (rb_nodes b)[write_head b := \<lparr>nd_storage = Some args, nd_size = sizeof_T\<rparr>]\<rparr>)))"

definition tryDequeue :: "nat \<Rightarrow> 'a RingBuffer \<Rightarrow> 'a option \<times> 'a RingBuffer" where
  "tryDequeue sizeof_T b =
     (if rb_empty b then (None, b)
      else (let n = rb_nodes b ! read_head b
            in if nd_size n \<noteq> sizeof_T then (None, b)
               else (nd_storage n, advanceReadHead b)))"

definition tryPop :: "'a RingBuffer \<Rightarrow> bool \<times> 'a RingBuffer" where
  "tryPop b = (if rb_empty b then (False, b) else (True, advanceReadHead b))"

definition tryPeek :: "nat \<Rightarrow> 'a RingBuffer \<Rightarrow> 'a option" where
  "tryPeek sizeof_T b =
     (if rb_empty b then None
      else (let n = rb_nodes b ! read_head b
            in if nd_size n \<noteq> sizeof_T then None else nd_storage n))"

definition rb_getOverflowFlag :: "bool \<Rightarrow> 'a RingBuffer \<Rightarrow> bool \<times> 'a RingBuffer" where
  "rb_getOverflowFlag reset b =
     (overflow_flag b, if reset then b\<lparr>overflow_flag := False\<rparr> else b)"

subsection \<open>The contract: a bounded first-in first-out queue\<close>

datatype 'a queue_op = Enq 'a | Deq

text \<open>
  A run of operations in the order in which they get hold of the mutex: the accepted values, the
  values handed out and the final buffer.
\<close>

fun queue_run ::
  "('a \<Rightarrow> 's \<Rightarrow> bool \<times> 's) \<Rightarrow> ('s \<Rightarrow> 'a option \<times> 's) \<Rightarrow> 'a queue_op list \<Rightarrow> 's \<Rightarrow> 'a list \<times> 'a list \<times> 's"
where
  "queue_run enq deq [] s = ([], [], s)"
| "queue_run enq deq (Enq x # ops) s =
     (let (stored, s) = enq x s; (acc, out, s) = queue_run enq deq ops s
      in (if stored then x # acc else acc, out, s))"
| "queue_run enq deq (Deq # ops) s =
     (let (r, s) = deq s; (acc, out, s) = queue_run enq deq ops s
      in (acc, (case r of Some x \<Rightarrow> x # out | None \<Rightarrow> out), s))"

locale bounded_queue =
  fixes queue_of :: "'s \<Rightarrow> 'a list" and cap :: "'s \<Rightarrow> nat" and ok :: "'s \<Rightarrow> bool"
    and enq :: "'a \<Rightarrow> 's \<Rightarrow> bool \<times> 's" and deq :: "'s \<Rightarrow> 'a option \<times> 's"
  assumes bounded: "ok s \<Longrightarrow> length (queue_of s) \<le> cap s"
    and enq_stored: "ok s \<Longrightarrow> fst (enq x s) \<longleftrightarrow> length (queue_of s) < cap s"
    and enq_queue: "ok s \<Longrightarrow> queue_of (snd (enq x s)) = queue_of s @ (if fst (enq x s) then [x] else [])"
    and enq_keeps: "ok s \<Longrightarrow> ok (snd (enq x s)) \<and> cap (snd (enq x s)) = cap s"
    and deq_result: "ok s \<Longrightarrow> fst (deq s) = (case queue_of s of [] \<Rightarrow> None | x # _ \<Rightarrow> Some x)"
    and deq_queue: "ok s \<Longrightarrow> queue_of (snd (deq s)) = tl (queue_of s)"
    and deq_keeps: "ok s \<Longrightarrow> ok (snd (deq s)) \<and> cap (snd (deq s)) = cap s"
begin

lemma fifo_run:
  assumes "ok s" "queue_run enq deq ops s = (acc, out, s')"
  shows "queue_of s @ acc = out @ queue_of s' \<and> ok s' \<and> cap s' = cap s"
  using assms
proof (induction ops arbitrary: s acc out)
  case Nil
  then show ?case by simp
next
  case (Cons p ops)
  show ?case
  proof (cases p)
    case (Enq x)
    obtain acc1 out1 where r: "queue_run enq deq ops (snd (enq x s)) = (acc1, out1, s')"
      "acc = (if fst (enq x s) then x # acc1 else acc1)" "out = out1"
      using Cons.prems(2) Enq by (auto simp: Let_def case_prod_beta prod_eq_iff)
    have "queue_of (snd (enq x s)) @ acc1 = out1 @ queue_of s' \<and> ok s' \<and> cap s' = cap (snd (enq x s))"
      using Cons.IH [OF _ r(1)] enq_keeps [OF Cons.prems(1)] by blast
    then show ?thesis
      using r enq_queue [OF Cons.prems(1), of x] enq_keeps [OF Cons.prems(1), of x] by (auto split: if_splits)
  next
    case Deq
    obtain out1 where r: "queue_run enq deq ops (snd (deq s)) = (acc, out1, s')"
      "out = (case fst (deq s) of Some x \<Rightarrow> x # out1 | None \<Rightarrow> out1)"
      using Cons.prems(2) Deq by (auto simp: Let_def case_prod_beta prod_eq_iff)
    have "queue_of (snd (deq s)) @ acc = out1 @ queue_of s' \<and> ok s' \<and> cap s' = cap (snd (deq s))"
      using Cons.IH [OF _ r(1)] deq_keeps [OF Cons.prems(1)] by blast
    then show ?thesis
      using r deq_queue [OF Cons.prems(1)] deq_result [OF Cons.prems(1)] deq_keeps [OF Cons.prems(1)]
      by (cases "queue_of s") auto
  qed
qed

text \<open>What fits is accepted completely and handed out in the same order.\<close>

lemma enqueue_all:
  assumes "ok s" "length (queue_of s) + length xs \<le> cap s" "queue_run enq deq (map Enq xs) s = (acc, out, s')"
  shows "acc = xs \<and> out = [] \<and> queue_of s' = queue_of s @ xs"
  using assms
proof (induction xs arbitrary: s acc)
  case (Cons x xs)
  have st: "fst (enq x s)" using enq_stored [OF Cons.prems(1)] Cons.prems(2) by simp
  obtain acc1 where r: "queue_run enq deq (map Enq xs) (snd (enq x s)) = (acc1, out, s')" "acc = x # acc1"
    using Cons.prems(3) st by (auto simp: Let_def case_prod_beta prod_eq_iff)
  have q: "queue_of (snd (enq x s)) = queue_of s @ [x]" using enq_queue [OF Cons.prems(1), of x] st by simp
  show ?case
    using Cons.IH [OF _ _ r(1)] enq_keeps [OF Cons.prems(1), of x] Cons.prems(2) q r(2) by simp
qed simp

end

subsection \<open>The ring buffer keeps the contract\<close>

definition rb_at :: "'a RingBuffer \<Rightarrow> nat \<Rightarrow> 'a Node" where
  "rb_at b i = rb_nodes b ! ((read_head b + i) mod rb_capacity b)"

definition rb_queue :: "'a RingBuffer \<Rightarrow> 'a list" where
  "rb_queue b = map (\<lambda>i. the (nd_storage (rb_at b i))) [0..<rb_size b]"

text \<open>The heads delimit the stored elements, all written with the size \<open>sizeof_T\<close>.\<close>

definition rb_inv :: "nat \<Rightarrow> 'a RingBuffer \<Rightarrow> bool" where
  "rb_inv sizeof_T b \<longleftrightarrow>
     read_head b < rb_capacity b \<and> rb_size b \<le> rb_capacity b \<and>
     write_head b = (read_head b + rb_size b) mod rb_capacity b \<and>
     (\<forall>i < rb_size b. nd_size (rb_at b i) = sizeof_T \<and> nd_storage (rb_at b i) \<noteq> None)"

lemma mod_add_inj:
  fixes r n :: nat
  assumes "(r + i) mod n = (r + j) mod n" "i < n" "j < n"
  shows "i = j"
proof -
  have "a = b" if "(r + a) mod n = (r + b) mod n" "a \<le> b" "b < n" for a b
  proof -
    have "n dvd b - a"
      using that mod_eq_dvd_iff_nat [of "r + a" "r + b" n] by simp
    then show ?thesis using that(2,3) by (metis diff_diff_cancel diff_is_0_eq dvd_imp_le less_imp_diff_less
          linorder_not_less minus_nat.diff_0 neq0_conv)
  qed
  then show ?thesis using assms by (metis nat_le_linear)
qed

lemma length_rb_queue [simp]: "length (rb_queue b) = rb_size b"
  by (simp add: rb_queue_def)

lemma rb_capacity_ops [simp]:
  "rb_capacity (snd (tryEnqueue z x b)) = rb_capacity b"
  "rb_capacity (snd (tryDequeue z b)) = rb_capacity b"
  "rb_capacity (advanceReadHead b) = rb_capacity b"
  "rb_capacity (rb_initialize b) = rb_capacity b"
  "rb_capacity (RingBuffer_new n) = n"
  by (simp_all add: tryEnqueue_def tryDequeue_def rb_capacity_def advanceWriteHead_def advanceReadHead_def
      rb_initialize_def RingBuffer_new_def Let_def)

lemma tryEmplace_eq: "tryEmplace = tryEnqueue"
  by (intro ext) (simp add: tryEmplace_def tryEnqueue_def)

lemma rb_at_enqueue:
  assumes "rb_inv z b" "\<not> rb_full b" "i \<le> rb_size b"
  shows "rb_at (snd (tryEnqueue z x b)) i =
    (if i = rb_size b then \<lparr>nd_storage = Some x, nd_size = z\<rparr> else rb_at b i)"
proof -
  have w: "(read_head b + i) mod length (rb_nodes b) = write_head b \<longleftrightarrow> i = rb_size b"
    using assms mod_add_inj [of "read_head b" i "length (rb_nodes b)" "rb_size b"]
    by (auto simp: rb_inv_def rb_full_def rb_capacity_def)
  have l: "(read_head b + k) mod length (rb_nodes b) < length (rb_nodes b)" for k
    using assms by (auto simp: rb_inv_def rb_capacity_def intro: mod_less_divisor)
  have "write_head b < length (rb_nodes b)"
    using assms l by (simp add: rb_inv_def rb_capacity_def)
  then show ?thesis
    using assms(2) w l [of i]
    by (auto simp: tryEnqueue_def rb_at_def advanceWriteHead_def rb_capacity_def nth_list_update)
qed

lemma rb_inv_enqueue: "rb_inv z b \<Longrightarrow> rb_inv z (snd (tryEnqueue z x b))"
proof (cases "rb_full b")
  case True
  moreover assume "rb_inv z b"
  ultimately show ?thesis by (simp add: tryEnqueue_def rb_inv_def rb_at_def rb_capacity_def)
next
  case False
  assume inv: "rb_inv z b"
  have s: "rb_size (snd (tryEnqueue z x b)) = Suc (rb_size b)" "read_head (snd (tryEnqueue z x b)) = read_head b"
    "write_head (snd (tryEnqueue z x b)) = (write_head b + 1) mod rb_capacity b"
    using False by (simp_all add: tryEnqueue_def advanceWriteHead_def rb_capacity_def)
  show ?thesis
    using inv False rb_at_enqueue [OF inv False]
    by (auto simp: rb_inv_def s less_Suc_eq rb_full_def mod_Suc_eq)
qed

lemma rb_queue_enqueue:
  assumes "rb_inv z b"
  shows "rb_queue (snd (tryEnqueue z x b)) = rb_queue b @ (if fst (tryEnqueue z x b) then [x] else [])"
proof (cases "rb_full b")
  case True
  then show ?thesis by (simp add: tryEnqueue_def rb_queue_def rb_at_def rb_capacity_def)
next
  case False
  have s: "rb_size (snd (tryEnqueue z x b)) = Suc (rb_size b)" "fst (tryEnqueue z x b)"
    using False by (simp_all add: tryEnqueue_def advanceWriteHead_def)
  show ?thesis
    using rb_at_enqueue [OF assms False] by (simp add: rb_queue_def s)
qed

lemma rb_at_advance: "rb_at (advanceReadHead b) i = rb_at b (Suc i)"
  by (simp add: rb_at_def advanceReadHead_def rb_capacity_def mod_add_left_eq)

lemma advanceReadHead_fields [simp]:
  "read_head (advanceReadHead b) = Suc (read_head b) mod rb_capacity b"
  "write_head (advanceReadHead b) = write_head b"
  "rb_size (advanceReadHead b) = rb_size b - 1"
  by (simp_all add: advanceReadHead_def)

lemma rb_inv_advance:
  assumes "rb_inv z b" "\<not> rb_empty b"
  shows "rb_inv z (advanceReadHead b)"
proof -
  obtain n where n: "rb_size b = Suc n" using assms(2) by (cases "rb_size b") (auto simp: rb_empty_def)
  have "Suc (read_head b) mod rb_capacity b < rb_capacity b"
    using assms(1) by (auto simp: rb_inv_def intro!: mod_less_divisor)
  moreover have "(Suc (read_head b) mod rb_capacity b + n) mod rb_capacity b = (read_head b + Suc n) mod rb_capacity b"
    by (simp add: mod_add_left_eq)
  ultimately show ?thesis
    using assms(1) by (auto simp: rb_inv_def rb_at_advance n)
qed

lemma rb_queue_advance: "\<not> rb_empty b \<Longrightarrow> rb_queue (advanceReadHead b) = tl (rb_queue b)"
  by (cases "rb_size b")
    (simp_all add: rb_queue_def rb_at_advance rb_empty_def map_Suc_upt [symmetric] upt_conv_Cons comp_def
      del: upt_Suc map_Suc_upt)

lemma rb_head:
  assumes "rb_inv z b"
  shows "tryPeek z b = (case rb_queue b of [] \<Rightarrow> None | x # _ \<Rightarrow> Some x)"
proof (cases "rb_size b")
  case (Suc n)
  have "rb_queue b = the (nd_storage (rb_at b 0)) # map (\<lambda>i. the (nd_storage (rb_at b i))) [1..<rb_size b]"
    by (simp add: rb_queue_def Suc upt_conv_Cons del: upt_Suc)
  moreover have "rb_at b 0 = rb_nodes b ! read_head b"
    using assms by (simp add: rb_at_def rb_inv_def)
  moreover have "nd_size (rb_at b 0) = z" "nd_storage (rb_at b 0) \<noteq> None"
    using assms Suc by (simp_all add: rb_inv_def)
  ultimately show ?thesis
    by (auto simp: tryPeek_def rb_empty_def Suc)
qed (simp add: tryPeek_def rb_empty_def rb_queue_def)

lemma tryDequeue_peek:
  "rb_inv z b \<Longrightarrow> tryDequeue z b = (if rb_empty b then (None, b) else (tryPeek z b, advanceReadHead b))"
  by (auto simp: tryDequeue_def tryPeek_def Let_def rb_inv_def rb_at_def rb_empty_def)

interpretation rb: bounded_queue rb_queue rb_capacity "rb_inv z" "tryEnqueue z" "tryDequeue z"
  for z :: nat
proof
  fix b :: "'a RingBuffer" and x
  assume inv: "rb_inv z b"
  then have e: "rb_queue b = [] \<longleftrightarrow> rb_empty b"
    by (metis length_0_conv length_rb_queue rb_empty_def)
  show "length (rb_queue b) \<le> rb_capacity b" using inv by (simp add: rb_inv_def)
  show "fst (tryEnqueue z x b) \<longleftrightarrow> length (rb_queue b) < rb_capacity b"
    using inv by (auto simp: tryEnqueue_def rb_full_def rb_inv_def)
  show "rb_queue (snd (tryEnqueue z x b)) = rb_queue b @ (if fst (tryEnqueue z x b) then [x] else [])"
    by (rule rb_queue_enqueue [OF inv])
  show "rb_inv z (snd (tryEnqueue z x b)) \<and> rb_capacity (snd (tryEnqueue z x b)) = rb_capacity b"
    by (simp add: rb_inv_enqueue inv)
  show "fst (tryDequeue z b) = (case rb_queue b of [] \<Rightarrow> None | x # _ \<Rightarrow> Some x)"
    using e by (auto simp: tryDequeue_peek [OF inv] rb_head [OF inv])
  show "rb_queue (snd (tryDequeue z b)) = tl (rb_queue b)"
    using e by (auto simp: tryDequeue_peek [OF inv] rb_queue_advance)
  show "rb_inv z (snd (tryDequeue z b)) \<and> rb_capacity (snd (tryDequeue z b)) = rb_capacity b"
    by (auto simp: tryDequeue_peek [OF inv] rb_inv_advance inv)
qed


lemma rb_inv_new: "0 < n \<Longrightarrow> rb_inv z (rb_initialize (RingBuffer_new n))"
  by (simp add: rb_inv_def rb_capacity_def rb_initialize_def RingBuffer_new_def)

lemma rb_queue_new [simp]: "rb_queue (rb_initialize (RingBuffer_new n)) = []"
  by (simp add: rb_queue_def rb_initialize_def RingBuffer_new_def)

fun enqueued :: "'a queue_op list \<Rightarrow> 'a list" where
  "enqueued [] = []"
| "enqueued (Enq x # ops) = x # enqueued ops"
| "enqueued (Deq # ops) = enqueued ops"

lemma overflow_flag_ops:
  "overflow_flag (snd (tryEnqueue z x b)) \<longleftrightarrow> overflow_flag b \<or> \<not> fst (tryEnqueue z x b)"
  "overflow_flag (snd (tryDequeue z b)) = overflow_flag b"
  by (auto simp: tryEnqueue_def tryDequeue_def advanceWriteHead_def advanceReadHead_def Let_def)

lemma overflow_flag_run:
  "queue_run (tryEnqueue z) (tryDequeue z) ops b = (acc, out, b') \<Longrightarrow>
   length acc \<le> length (enqueued ops) \<and>
   (overflow_flag b' \<longleftrightarrow> overflow_flag b \<or> length acc < length (enqueued ops)) \<and>
   (length acc = length (enqueued ops) \<longrightarrow> acc = enqueued ops)"
proof (induction ops arbitrary: b acc out rule: enqueued.induct)
  case (2 x ops)
  obtain acc1 where r: "queue_run (tryEnqueue z) (tryDequeue z) ops (snd (tryEnqueue z x b)) = (acc1, out, b')"
    "acc = (if fst (tryEnqueue z x b) then x # acc1 else acc1)"
    using "2.prems" by (auto simp: Let_def case_prod_beta prod_eq_iff)
  show ?case using "2.IH" [OF r(1)] r(2) by (auto simp: overflow_flag_ops)
next
  case (3 ops)
  obtain out1 where r: "queue_run (tryEnqueue z) (tryDequeue z) ops (snd (tryDequeue z b)) = (acc, out1, b')"
    using "3.prems" by (auto simp: Let_def case_prod_beta prod_eq_iff)
  show ?case using "3.IH" [OF r(1)] by (simp add: overflow_flag_ops)
qed simp

text \<open>
  (C39) An initialised ring buffer of any positive capacity is a first-in first-out channel: for
  every interleaving of writes and reads, the values handed out followed by the values still stored
  are the accepted values in the order in which they were accepted, never more than the capacity
  are stored, and the overflow flag is set exactly when a write was refused. As long as the flag is
  clear, no write was lost.
\<close>

theorem ring_buffer_fifo:
  assumes "0 < n"
    and "queue_run (tryEnqueue z) (tryDequeue z) ops (rb_initialize (RingBuffer_new n)) = (acc, out, b)"
  shows "(acc = out @ rb_queue b) \<and>
    (length (rb_queue b) \<le> n) \<and>
    (overflow_flag b \<longleftrightarrow> length acc < length (enqueued ops)) \<and>
    (\<not> overflow_flag b \<longrightarrow> (enqueued ops = out @ rb_queue b))"
proof -
  have f: "\<not> overflow_flag (rb_initialize (RingBuffer_new n) :: 'a RingBuffer)"
    by (simp add: rb_initialize_def RingBuffer_new_def)
  have r: "acc = out @ rb_queue b \<and> rb_inv z b \<and> rb_capacity b = n"
    using rb.fifo_run [OF rb_inv_new [OF assms(1)] assms(2)] by simp
  then have c1: "acc = out @ rb_queue b" "length (rb_queue b) \<le> n"
    using rb.bounded [of z b] by auto
  have c2: "overflow_flag b \<longleftrightarrow> length acc < length (enqueued ops)"
    "\<not> overflow_flag b \<Longrightarrow> enqueued ops = out @ rb_queue b"
    using overflow_flag_run [OF assms(2)] f r by auto
  from c1 c2 show ?thesis by blast
qed

theorem ring_buffer_fifo_witness:
  "\<exists>b. queue_run (tryEnqueue 8) (tryDequeue 8)
        [Enq (1::nat), Enq 2, Deq, Enq 3, Enq 4, Deq] (rb_initialize (RingBuffer_new 2)) = ([1, 2, 3], [1, 2], b) \<and>
     rb_queue b = [3] \<and> overflow_flag b"
proof -
  obtain b where b: "queue_run (tryEnqueue 8) (tryDequeue 8)
        [Enq (1::nat), Enq 2, Deq, Enq 3, Enq 4, Deq] (rb_initialize (RingBuffer_new 2)) = ([1, 2, 3], [1, 2], b)"
    by (simp add: RingBuffer_new_def rb_initialize_def tryEnqueue_def tryDequeue_def rb_full_def rb_empty_def
        rb_capacity_def advanceWriteHead_def advanceReadHead_def numeral_2_eq_2)
  have "rb_queue b = [3]" using ring_buffer_fifo [OF _ b] by simp
  moreover have "overflow_flag b" using ring_buffer_fifo [OF _ b] by simp
  ultimately show ?thesis using b by blast
qed

end
