(* ===== verification/Identifier_Hash.thy ===== *)
theory Identifier_Hash
  imports Prelude
begin

section \<open>Identifiers as hashes\<close>

text \<open>
  Models \<^verbatim>\<open>common/src/identifier_hash.cpp\<close> and the output operator of \<^verbatim>\<open>identifier_hash.hpp\<close>.
  \<^verbatim>\<open>std::hash\<close> is implementation defined, so it is an argument \<open>hash\<close> of the constructors; the
  standard requires \<^verbatim>\<open>std::hash<std::string>\<close> and \<^verbatim>\<open>std::hash<std::string_view>\<close> to agree. The
  static registry of the process is a map that the constructors update.
\<close>

record IdentifierHash =
  hash_id :: u64

type_synonym registry = "u64 \<rightharpoonup> string"

definition IdentifierHash_string :: "(string \<Rightarrow> u64) \<Rightarrow> string \<Rightarrow> registry \<Rightarrow> IdentifierHash \<times> registry" where
  "IdentifierHash_string hash name reg = (\<lparr>hash_id = hash name\<rparr>, reg(hash name \<mapsto> name))"

definition IdentifierHash_cstr :: "(string \<Rightarrow> u64) \<Rightarrow> string option \<Rightarrow> registry \<Rightarrow> IdentifierHash \<times> registry" where
  "IdentifierHash_cstr hash name reg =
     (let sv = (case name of Some s \<Rightarrow> s | None \<Rightarrow> '''')
      in (\<lparr>hash_id = hash sv\<rparr>, reg(hash sv \<mapsto> sv)))"

definition IdentifierHash_default :: "(string \<Rightarrow> u64) \<Rightarrow> registry \<Rightarrow> IdentifierHash \<times> registry" where
  "IdentifierHash_default hash reg = (\<lparr>hash_id = hash ''''\<rparr>, reg(hash '''' \<mapsto> ''''))"

definition ih_eq :: "IdentifierHash \<Rightarrow> IdentifierHash \<Rightarrow> bool" where
  "ih_eq this other \<longleftrightarrow> hash_id this = hash_id other"

definition ih_eq_view ::
  "(string \<Rightarrow> u64) \<Rightarrow> IdentifierHash \<Rightarrow> string \<Rightarrow> registry \<Rightarrow> bool \<times> registry"
where
  "ih_eq_view hash this other reg =
     (let (tmp, reg) = IdentifierHash_string hash other reg in (hash_id this = hash_id tmp, reg))"

definition ih_less :: "IdentifierHash \<Rightarrow> IdentifierHash \<Rightarrow> bool" where
  "ih_less this other \<longleftrightarrow> hash_id this < hash_id other"

text \<open>Decimal digits, as the output stream prints a \<^verbatim>\<open>std::size_t\<close>.\<close>

fun show_nat :: "nat \<Rightarrow> string" where
  "show_nat n = (if n < 10 then [char_of (48 + n)] else show_nat (n div 10) @ [char_of (48 + n mod 10)])"

definition ih_print :: "registry \<Rightarrow> IdentifierHash \<Rightarrow> string" where
  "ih_print reg i =
     (case reg (hash_id i) of
        Some s \<Rightarrow> s
      | None \<Rightarrow> ''<Unknown IdentifierHash: '' @ show_nat (unat (hash_id i)) @ ''>'')"

subsection \<open>Identifiers stand for their names\<close>

text \<open>The identifiers a process constructs, one after the other.\<close>

fun construct_all :: "(string \<Rightarrow> u64) \<Rightarrow> string list \<Rightarrow> registry \<Rightarrow> registry" where
  "construct_all hash [] reg = reg"
| "construct_all hash (s # ss) reg = construct_all hash ss (snd (IdentifierHash_string hash s reg))"

lemma construct_all_other:
  "h \<notin> hash ` set ss \<Longrightarrow> construct_all hash ss reg h = reg h"
  by (induction ss arbitrary: reg) (auto simp: IdentifierHash_string_def)

lemma construct_all_mem:
  "inj_on hash (set ss) \<Longrightarrow> s \<in> set ss \<Longrightarrow> construct_all hash ss reg (hash s) = Some s"
proof (induction ss arbitrary: reg)
  case (Cons a ss)
  show ?case
  proof (cases "s \<in> set ss")
    case True
    with Cons show ?thesis by (simp add: inj_on_def)
  next
    case False
    then have "s = a" "hash s \<notin> hash ` set ss" using Cons.prems by (auto simp: inj_on_def)
    then show ?thesis using construct_all_other [of "hash s" hash ss] by (auto simp: IdentifierHash_string_def)
  qed
qed simp

text \<open>
  As long as the names a process uses do not collide under the hash, an identifier is as good
  as its name: two identifiers compare equal exactly when their names are equal, printing an
  identifier yields the name it was constructed from, whatever was constructed in between, and the
  null pointer and the default constructor both denote the empty name.
\<close>

theorem identifier_hash_faithful:
  assumes "inj_on hash (insert '''' (set names))" "a \<in> set names" "b \<in> set names"
  shows "(ih_eq (fst (IdentifierHash_string hash a reg1)) (fst (IdentifierHash_string hash b reg2)) \<longleftrightarrow> a = b) \<and>
    ih_print (construct_all hash names reg) (fst (IdentifierHash_string hash a reg1)) = a \<and>
    (fst (ih_eq_view hash (fst (IdentifierHash_string hash a reg1)) b reg) \<longleftrightarrow> a = b) \<and>
    IdentifierHash_cstr hash None reg = IdentifierHash_default hash reg"
  using assms construct_all_mem [of hash names a reg]
  by (auto simp: ih_eq_def ih_eq_view_def ih_print_def IdentifierHash_string_def IdentifierHash_cstr_def
      IdentifierHash_default_def inj_on_def)

theorem identifier_hash_faithful_witness:
  "ih_print (construct_all (\<lambda>s. word_of_nat (length s)) [''MainPG'', ''On''] Map.empty)
     (fst (IdentifierHash_string (\<lambda>s. word_of_nat (length s)) ''MainPG'' Map.empty)) = ''MainPG''"
  using identifier_hash_faithful [of "\<lambda>s. word_of_nat (length s)" "[''MainPG'', ''On'']" "''MainPG''" "''On''"]
  by (simp add: inj_on_def)

end
