(* ===== verification/Recovery_Client.thy ===== *)
theory Recovery_Client
  imports Ring_Buffer Identifier_Hash
begin

section \<open>The recovery client\<close>

text \<open>
  Models \<^verbatim>\<open>recovery_client_lib/src/recovery_client.cpp\<close>: the channel on which the health monitor asks
  the launch manager for a recovery transition. A request reserves one of 128 slots that hold the
  promise of its answer and is queued in a ring buffer of the same capacity; the launch manager
  takes requests from the ring and answers them by slot.

  Promises and futures come from a library outside the repository. They are represented by a record
  of operations on a state \<open>'w\<close> of that library, which every operation here threads through:
  constructing a promise, obtaining its future (which may fail), setting a value and an error. A
  call of \<^verbatim>\<open>.value()\<close> on a failed result and an index beyond the slot array have no defined result
  (\<open>None\<close>).
\<close>

datatype ExecErrc = kGeneralError | kInvalidArguments | kCommunicationError | kMetaModelError | kCancelled
  | kFailed | kFailedUnexpectedTerminationOnExit | kFailedUnexpectedTerminationOnEnter | kInvalidTransition
  | kAlreadyInState | kInTransitionToSameState | kNoTimeStamp | kCycleOverrun

record ('w, 'p, 'f) promise_api =
  new_promise :: "'w \<Rightarrow> 'p \<times> 'w"
  get_future :: "'p \<Rightarrow> 'w \<Rightarrow> 'f option \<times> 'w"
  set_value :: "'p \<Rightarrow> 'w \<Rightarrow> 'w"
  set_error :: "'p \<Rightarrow> ExecErrc \<Rightarrow> 'w \<Rightarrow> 'w"

record RecoveryRequest =
  rr_pg_name :: IdentifierHash
  rr_pg_state_name :: IdentifierHash
  promise_id :: nat

record 'p RecoveryClientRequestInfo =
  promise :: 'p
  in_use :: bool

record 'p RecoveryClient =
  ringBuffer :: "RecoveryRequest RingBuffer"
  requests :: "'p RecoveryClientRequestInfo list"
  temp_request :: "RecoveryRequest option"

definition rc_capacity :: nat where
  "rc_capacity = 128"

text \<open>Two hashes and an index of eight bytes each.\<close>

definition rc_element_size :: nat where
  "rc_element_size = 24"

fun new_requests :: "('w, 'p, 'f) promise_api \<Rightarrow> nat \<Rightarrow> 'w \<Rightarrow> 'p RecoveryClientRequestInfo list \<times> 'w" where
  "new_requests api 0 w = ([], w)"
| "new_requests api (Suc n) w =
     (let (p, w) = new_promise api w; (rs, w) = new_requests api n w
      in (\<lparr>promise = p, in_use = False\<rparr> # rs, w))"

definition RecoveryClient_new :: "('w, 'p, 'f) promise_api \<Rightarrow> 'w \<Rightarrow> 'p RecoveryClient \<times> 'w" where
  "RecoveryClient_new api w =
     (let (rs, w) = new_requests api rc_capacity w
      in (\<lparr>ringBuffer = rb_initialize (RingBuffer_new rc_capacity), requests = rs, temp_request = None\<rparr>, w))"

definition GetErrorFuture :: "('w, 'p, 'f) promise_api \<Rightarrow> ExecErrc \<Rightarrow> 'w \<Rightarrow> ('f \<times> 'w) option" where
  "GetErrorFuture api errType w =
     (let (tmp, w) = new_promise api w;
          w = set_error api tmp errType w;
          (f, w) = get_future api tmp w
      in map_option (\<lambda>f. (f, w)) f)"

text \<open>The search for a free slot: \<^verbatim>\<open>compare_exchange_strong(false, true)\<close> on each slot in turn.\<close>

fun reserve_slot :: "'p RecoveryClientRequestInfo list \<Rightarrow> nat \<times> 'p RecoveryClientRequestInfo list" where
  "reserve_slot [] = (0, [])"
| "reserve_slot (r # rs) =
     (if \<not> in_use r then (0, r\<lparr>in_use := True\<rparr> # rs)
      else (let (i, rs) = reserve_slot rs in (Suc i, r # rs)))"

definition sendRecoveryRequest ::
  "('w, 'p, 'f) promise_api \<Rightarrow> IdentifierHash \<Rightarrow> IdentifierHash \<Rightarrow> 'p RecoveryClient \<Rightarrow> 'w \<Rightarrow>
   ('f \<times> 'p RecoveryClient \<times> 'w) option"
where
  "sendRecoveryRequest api pg_name pg_state c w =
     (let (i, rs) = reserve_slot (requests c);
          c = c\<lparr>requests := rs\<rparr>
      in if i < length (requests c)
         then (let (p, w) = new_promise api w;
                   c = c\<lparr>requests := (requests c)[i := (requests c ! i)\<lparr>promise := p\<rparr>]\<rparr>;
                   (futureResult, w) = get_future api p w
               in case futureResult of
                    Some retVal \<Rightarrow>
                      (let req = \<lparr>rr_pg_name = pg_name, rr_pg_state_name = pg_state, promise_id = i\<rparr>;
                           (stored, b) = tryEnqueue rc_element_size req (ringBuffer c);
                           c = c\<lparr>ringBuffer := b\<rparr>
                       in if \<not> stored
                          then Some (retVal,
                                 c\<lparr>requests := (requests c)[i := (requests c ! i)\<lparr>in_use := False\<rparr>]\<rparr>,
                                 set_error api p kFailed w)
                          else Some (retVal, c, w))
                  | None \<Rightarrow>
                      map_option (\<lambda>(f, w). (f, c\<lparr>requests := (requests c)[i := (requests c ! i)\<lparr>in_use := False\<rparr>]\<rparr>, w))
                        (GetErrorFuture api kFailed w))
         else map_option (\<lambda>(f, w). (f, c, w)) (GetErrorFuture api kFailed w))"

definition setResponseSuccess ::
  "('w, 'p, 'f) promise_api \<Rightarrow> nat \<Rightarrow> 'p RecoveryClient \<Rightarrow> 'w \<Rightarrow> ('p RecoveryClient \<times> 'w) option"
where
  "setResponseSuccess api i c w =
     (if i < length (requests c)
      then Some (c\<lparr>requests := (requests c)[i := (requests c ! i)\<lparr>in_use := False\<rparr>]\<rparr>,
                 set_value api (promise (requests c ! i)) w)
      else None)"

definition setResponseError ::
  "('w, 'p, 'f) promise_api \<Rightarrow> nat \<Rightarrow> ExecErrc \<Rightarrow> 'p RecoveryClient \<Rightarrow> 'w \<Rightarrow> ('p RecoveryClient \<times> 'w) option"
where
  "setResponseError api i errType c w =
     (if i < length (requests c)
      then Some (c\<lparr>requests := (requests c)[i := (requests c ! i)\<lparr>in_use := False\<rparr>]\<rparr>,
                 set_error api (promise (requests c ! i)) errType w)
      else None)"

definition getNextRequest :: "'p RecoveryClient \<Rightarrow> RecoveryRequest option \<times> 'p RecoveryClient" where
  "getNextRequest c =
     (let (r, b) = tryDequeue rc_element_size (ringBuffer c);
          c = c\<lparr>ringBuffer := b\<rparr>
      in case r of
           Some req \<Rightarrow> (Some req, c\<lparr>temp_request := Some req\<rparr>)
         | None \<Rightarrow> (None, c))"


subsection \<open>Slots and queued requests\<close>

definition rc_used :: "'p RecoveryClient \<Rightarrow> nat set" where
  "rc_used c = {i. i < length (requests c) \<and> in_use (requests c ! i)}"

definition rc_queued :: "'p RecoveryClient \<Rightarrow> nat list" where
  "rc_queued c = map promise_id (rb_queue (ringBuffer c))"

text \<open>
  The requests on their way: the ones queued in the ring and the ones \<open>taken\<close> by the launch manager
  but not answered yet. Each of them owns a slot of its own, and no other slot is in use.
\<close>

definition rc_inv :: "'p RecoveryClient \<Rightarrow> nat list \<Rightarrow> bool" where
  "rc_inv c taken \<longleftrightarrow>
     rb_inv rc_element_size (ringBuffer c) \<and> rb_capacity (ringBuffer c) = rc_capacity \<and>
     length (requests c) = rc_capacity \<and> distinct (rc_queued c @ taken) \<and>
     set (rc_queued c @ taken) = rc_used c \<and> \<not> overflow_flag (ringBuffer c)"

lemma reserve_slot_free:
  "\<exists>r \<in> set rs. \<not> in_use r \<Longrightarrow>
   \<exists>i < length rs. \<not> in_use (rs ! i) \<and> reserve_slot rs = (i, rs[i := (rs ! i)\<lparr>in_use := True\<rparr>])"
proof (induction rs)
  case (Cons r rs)
  show ?case
  proof (cases "in_use r")
    case True
    then obtain i where "i < length rs" "\<not> in_use (rs ! i)" "reserve_slot rs = (i, rs[i := (rs ! i)\<lparr>in_use := True\<rparr>])"
      using Cons by auto
    then show ?thesis using True by (intro exI [of _ "Suc i"]) simp
  qed (intro exI [of _ 0], simp)
qed simp

lemma reserve_slot_none:
  "\<forall>r \<in> set rs. in_use r \<Longrightarrow> reserve_slot rs = (length rs, rs)"
  by (induction rs) auto

lemma rc_used_finite [simp]: "finite (rc_used c)"
  by (simp add: rc_used_def)

lemma rc_used_all: "(\<forall>r \<in> set (requests c). in_use r) \<longleftrightarrow> rc_used c = {..<length (requests c)}"
  by (auto simp: rc_used_def all_set_conv_all_nth)

lemma rc_used_update:
  assumes "i < length (requests c)" "in_use r = u"
  shows "rc_used (c\<lparr>requests := (requests c)[i := r]\<rparr>) = (if u then insert i (rc_used c) else rc_used c - {i})"
  using assms by (auto simp: rc_used_def nth_list_update split: if_splits)

lemma rc_used_ring [simp]:
  "rc_used (c\<lparr>ringBuffer := b\<rparr>) = rc_used c" "rc_used (c\<lparr>temp_request := t\<rparr>) = rc_used c"
  by (simp_all add: rc_used_def)

lemma rc_queued_frame [simp]:
  "rc_queued (c\<lparr>requests := rs\<rparr>) = rc_queued c" "rc_queued (c\<lparr>temp_request := t\<rparr>) = rc_queued c"
  by (simp_all add: rc_queued_def)

text \<open>A free slot leaves room in the ring, so the write cannot be refused.\<close>

lemma free_slot_room:
  assumes "rc_inv c taken" "i < length (requests c)" "i \<notin> rc_used c"
  shows "length (rb_queue (ringBuffer c)) < rb_capacity (ringBuffer c)"
proof -
  have "set (rc_queued c) \<subseteq> rc_used c"
    using assms(1) unfolding rc_inv_def by (metis Un_upper1 set_append)
  moreover have "rc_used c \<subseteq> {..<rc_capacity}"
    using assms(1) unfolding rc_inv_def rc_used_def by auto
  ultimately have "set (rc_queued c) \<subseteq> {..<rc_capacity} - {i}"
    using assms(3) by blast
  then have "card (set (rc_queued c)) \<le> card ({..<rc_capacity} - {i})"
    by (intro card_mono) auto
  moreover have "card (set (rc_queued c)) = length (rc_queued c)"
    using assms(1) unfolding rc_inv_def by (intro distinct_card) simp
  moreover have "i < rc_capacity" using assms by (simp add: rc_inv_def)
  moreover from this have "card ({..<rc_capacity} - {i}) < rc_capacity"
    by (simp add: card_Diff_singleton)
  moreover have "length (rc_queued c) = length (rb_queue (ringBuffer c))"
    by (simp add: rc_queued_def)
  ultimately show ?thesis using assms(1) unfolding rc_inv_def by linarith
qed

text \<open>What a request does when a slot is free.\<close>

lemma send_free:
  assumes inv: "rc_inv c taken" and free: "\<exists>r \<in> set (requests c). \<not> in_use r"
    and p: "new_promise api w = (p, w1)" and f: "get_future api p w1 = (Some f, w2)"
  shows "\<exists>i c'. sendRecoveryRequest api n st c w = Some (f, c', w2) \<and> rc_inv c' taken \<and>
    i < rc_capacity \<and> i \<notin> rc_used c \<and> requests c' = (requests c)[i := \<lparr>promise = p, in_use = True\<rparr>] \<and>
    rb_queue (ringBuffer c') = rb_queue (ringBuffer c) @ [\<lparr>rr_pg_name = n, rr_pg_state_name = st, promise_id = i\<rparr>]"
proof -
  obtain i where i: "i < length (requests c)" "\<not> in_use (requests c ! i)"
    and r: "reserve_slot (requests c) = (i, (requests c)[i := (requests c ! i)\<lparr>in_use := True\<rparr>])"
    using reserve_slot_free [OF free] by blast
  let ?req = "\<lparr>rr_pg_name = n, rr_pg_state_name = st, promise_id = i\<rparr>"
  let ?b = "snd (tryEnqueue rc_element_size ?req (ringBuffer c))"
  let ?r = "(requests c ! i)\<lparr>in_use := True, promise := p\<rparr>"
  let ?c = "c\<lparr>requests := (requests c)[i := ?r], ringBuffer := ?b\<rparr>"
  have u: "i \<notin> rc_used c" using i(2) by (simp add: rc_used_def)
  have ok: "rb_inv rc_element_size (ringBuffer c)" using inv by (simp add: rc_inv_def)
  have st: "fst (tryEnqueue rc_element_size ?req (ringBuffer c))"
    using rb.enq_stored [OF ok] free_slot_room [OF inv i(1) u] by blast
  have q: "rb_queue ?b = rb_queue (ringBuffer c) @ [?req]"
    using rb.enq_queue [OF ok, of ?req] st by simp
  have s: "sendRecoveryRequest api n st c w = Some (f, ?c, w2)"
    using i p f st by (simp add: sendRecoveryRequest_def r case_prod_beta Let_def)
  have "?r = \<lparr>promise = p, in_use = True\<rparr>"
    by (cases "requests c ! i") simp
  then have e: "(requests c)[i := ?r] = (requests c)[i := \<lparr>promise = p, in_use = True\<rparr>]"
    by (simp only:)
  have "rc_used ?c = insert i (rc_used c)"
    using rc_used_update [OF i(1), of ?r True] by (simp add: rc_used_def)
  moreover have "rc_queued ?c = rc_queued c @ [i]"
    by (simp add: rc_queued_def q)
  moreover have "\<not> overflow_flag ?b"
    using inv st by (simp add: overflow_flag_ops rc_inv_def)
  ultimately have inv': "rc_inv ?c taken"
    using inv u rb.enq_keeps [OF ok, of ?req] i(1) by (auto simp: rc_inv_def)
  show ?thesis
  proof (intro exI conjI)
    show "sendRecoveryRequest api n st c w = Some (f, ?c, w2)" by (rule s)
    show "requests ?c = (requests c)[i := \<lparr>promise = p, in_use = True\<rparr>]" using e by simp
    show "i < rc_capacity" using i(1) inv by (simp add: rc_inv_def)
  qed (use inv' u q in simp_all)
qed


lemma send_full:
  assumes "\<forall>r \<in> set (requests c). in_use r"
  shows "sendRecoveryRequest api n st c w = map_option (\<lambda>(f, w). (f, c, w)) (GetErrorFuture api kFailed w)"
  using reserve_slot_none [OF assms] by (simp add: sendRecoveryRequest_def)

lemma send_no_future:
  assumes inv: "rc_inv c taken" and free: "\<exists>r \<in> set (requests c). \<not> in_use r"
    and nf: "fst (get_future api (fst (new_promise api w)) (snd (new_promise api w))) = None"
    and s: "sendRecoveryRequest api n st c w = Some (f, c', w')"
  shows "rc_inv c' taken \<and> rc_used c' = rc_used c"
proof -
  obtain i where i: "i < length (requests c)" "\<not> in_use (requests c ! i)"
    and r: "reserve_slot (requests c) = (i, (requests c)[i := (requests c ! i)\<lparr>in_use := True\<rparr>])"
    using reserve_slot_free [OF free] by blast
  obtain q where c': "c' = c\<lparr>requests := (requests c)[i := q]\<rparr>" "\<not> in_use q"
    using s i nf by (auto simp: sendRecoveryRequest_def r case_prod_beta Let_def)
  have u: "rc_used c' = rc_used c"
    using rc_used_update [OF i(1), of q False] i(2) c' by (simp add: rc_used_def)
  moreover have "ringBuffer c' = ringBuffer c" "length (requests c') = length (requests c)" "rc_queued c' = rc_queued c"
    by (simp_all add: c'(1))
  ultimately show ?thesis
    using inv by (simp add: rc_inv_def)
qed

lemma send_inv:
  assumes inv: "rc_inv c taken" and s: "sendRecoveryRequest api n st c w = Some (f, c', w')"
  shows "rc_inv c' taken"
proof (cases "\<exists>r \<in> set (requests c). \<not> in_use r")
  case True
  obtain p w1 where p: "new_promise api w = (p, w1)" by fastforce
  obtain fo w2 where g: "get_future api p w1 = (fo, w2)" by fastforce
  show ?thesis
  proof (cases fo)
    case None
    then show ?thesis using send_no_future [OF inv True _ s] p g by simp
  next
    case (Some f')
    then obtain c'' where "sendRecoveryRequest api n st c w = Some (f', c'', w2)" "rc_inv c'' taken"
      using send_free [OF inv True p, of f' w2 n st] g by blast
    then show ?thesis using s by simp
  qed
next
  case False
  then have "map_option (\<lambda>(f, w). (f, c, w)) (GetErrorFuture api kFailed w) = Some (f, c', w')"
    using send_full [of c api n st w] s by simp
  then show ?thesis using inv by auto
qed

lemma getNextRequest_inv:
  assumes inv: "rc_inv c taken"
  shows "rc_inv (snd (getNextRequest c))
    (case fst (getNextRequest c) of Some r \<Rightarrow> taken @ [promise_id r] | None \<Rightarrow> taken)"
    and "fst (getNextRequest c) = (case rb_queue (ringBuffer c) of [] \<Rightarrow> None | r # _ \<Rightarrow> Some r)"
proof -
  let ?d = "tryDequeue rc_element_size (ringBuffer c)"
  have ok: "rb_inv rc_element_size (ringBuffer c)" using inv by (simp add: rc_inv_def)
  note d = rb.deq_result [OF ok] rb.deq_queue [OF ok] rb.deq_keeps [OF ok]
  show r: "fst (getNextRequest c) = (case rb_queue (ringBuffer c) of [] \<Rightarrow> None | r # _ \<Rightarrow> Some r)"
    using d(1) by (auto simp: getNextRequest_def case_prod_beta Let_def split: option.split list.split)
  have b: "ringBuffer (snd (getNextRequest c)) = snd ?d" "requests (snd (getNextRequest c)) = requests c"
    by (simp_all add: getNextRequest_def case_prod_beta Let_def split: option.split)
  then have u: "rc_used (snd (getNextRequest c)) = rc_used c"
    by (simp add: rc_used_def)
  show "rc_inv (snd (getNextRequest c))
    (case fst (getNextRequest c) of Some r \<Rightarrow> taken @ [promise_id r] | None \<Rightarrow> taken)"
  proof (cases "rb_queue (ringBuffer c)")
    case Nil
    then show ?thesis
      using inv d b u r by (simp add: rc_inv_def rc_queued_def overflow_flag_ops)
  next
    case (Cons q qs)
    then show ?thesis
      using inv d b u r by (auto simp: rc_inv_def rc_queued_def overflow_flag_ops)
  qed
qed

lemma setResponse_inv:
  assumes inv: "rc_inv c taken" and i: "i \<in> set taken"
  shows "rc_inv (c\<lparr>requests := (requests c)[i := (requests c ! i)\<lparr>in_use := False\<rparr>]\<rparr>) (remove1 i taken)"
    and "i < length (requests c)"
proof -
  have "i \<in> rc_used c" using inv i by (auto simp: rc_inv_def)
  then show l: "i < length (requests c)" by (simp add: rc_used_def)
  have u: "rc_used (c\<lparr>requests := (requests c)[i := (requests c ! i)\<lparr>in_use := False\<rparr>]\<rparr>) = rc_used c - {i}"
    using rc_used_update [OF l, of "(requests c ! i)\<lparr>in_use := False\<rparr>" False] by simp
  have "set (remove1 i taken) = set taken - {i}"
    using inv by (simp add: rc_inv_def set_remove1_eq)
  then show "rc_inv (c\<lparr>requests := (requests c)[i := (requests c ! i)\<lparr>in_use := False\<rparr>]\<rparr>) (remove1 i taken)"
    using inv u i by (auto simp: rc_inv_def distinct_remove1)
qed

subsection \<open>The protocol between the two sides\<close>

text \<open>
  The reachable states of a client together with the requests the launch manager has taken and not
  answered: the health monitor sends, the launch manager takes and answers what it has taken, and
  the library's state changes on its own.
\<close>

inductive rc_reachable :: "('w, 'p, 'f) promise_api \<Rightarrow> 'p RecoveryClient \<Rightarrow> 'w \<Rightarrow> nat list \<Rightarrow> bool"
  for api :: "('w, 'p, 'f) promise_api"
where
  rc_start: "RecoveryClient_new api w = (c, w') \<Longrightarrow> rc_reachable api c w' []"
| rc_send: "rc_reachable api c w taken \<Longrightarrow> sendRecoveryRequest api n st c w = Some (f, c', w') \<Longrightarrow>
    rc_reachable api c' w' taken"
| rc_take: "rc_reachable api c w taken \<Longrightarrow> getNextRequest c = (Some r, c') \<Longrightarrow>
    rc_reachable api c' w (taken @ [promise_id r])"
| rc_poll: "rc_reachable api c w taken \<Longrightarrow> getNextRequest c = (None, c') \<Longrightarrow> rc_reachable api c' w taken"
| rc_succeed: "rc_reachable api c w taken \<Longrightarrow> i \<in> set taken \<Longrightarrow> setResponseSuccess api i c w = Some (c', w') \<Longrightarrow>
    rc_reachable api c' w' (remove1 i taken)"
| rc_fail: "rc_reachable api c w taken \<Longrightarrow> i \<in> set taken \<Longrightarrow> setResponseError api i e c w = Some (c', w') \<Longrightarrow>
    rc_reachable api c' w' (remove1 i taken)"
| rc_library: "rc_reachable api c w taken \<Longrightarrow> rc_reachable api c w' taken"

lemma new_requests_unused:
  "length (fst (new_requests api n w)) = n \<and> (\<forall>r \<in> set (fst (new_requests api n w)). \<not> in_use r)"
  by (induction n arbitrary: w) (auto simp: Let_def case_prod_beta)

lemma rc_inv_new: "RecoveryClient_new api w = (c, w') \<Longrightarrow> rc_inv c []"
  using new_requests_unused [of api rc_capacity w] rb_inv_new [of rc_capacity rc_element_size]
  by (auto simp: RecoveryClient_new_def Let_def case_prod_beta rc_inv_def rc_queued_def rc_used_def
      rc_capacity_def set_conv_nth, auto simp: rb_initialize_def RingBuffer_new_def)

lemma rc_reachable_inv: "rc_reachable api c w taken \<Longrightarrow> rc_inv c taken"
proof (induction rule: rc_reachable.induct)
  case (rc_take c w taken r c')
  then show ?case using getNextRequest_inv(1) [of c taken] by simp
next
  case (rc_poll c w taken c')
  then show ?case using getNextRequest_inv(1) [of c taken] by simp
next
  case (rc_succeed c w taken i c' w')
  then show ?case using setResponse_inv [of c taken i] by (auto simp: setResponseSuccess_def)
next
  case (rc_fail c w taken i e c' w')
  then show ?case using setResponse_inv [of c taken i] by (auto simp: setResponseError_def)
qed (auto intro: rc_inv_new send_inv)


text \<open>
  In every reachable state of the recovery channel, whatever the interleaving of requests,
  polls and answers, the requests on their way are in one-to-one correspondence with the slots in
  use: no slot is handed out twice, none leaks, at most 128 requests are on their way, the next
  request taken is the oldest one queued, and the ring has never refused a write.
\<close>

theorem recovery_slots_exact:
  assumes "rc_reachable api c w taken"
  shows "(distinct (rc_queued c @ taken)) \<and>
    (set (rc_queued c @ taken) = rc_used c) \<and>
    (length (rc_queued c @ taken) \<le> 128) \<and>
    (\<not> overflow_flag (ringBuffer c)) \<and>
    (fst (getNextRequest c) = (case rb_queue (ringBuffer c) of [] \<Rightarrow> None | r # _ \<Rightarrow> Some r))"
proof -
  note inv = rc_reachable_inv [OF assms]
  have d: "distinct (rc_queued c @ taken)" "set (rc_queued c @ taken) = rc_used c" "\<not> overflow_flag (ringBuffer c)"
    using inv by (simp_all add: rc_inv_def)
  have "rc_used c \<subseteq> {..<128}"
    using inv unfolding rc_inv_def rc_used_def rc_capacity_def by auto
  then have "card (rc_used c) \<le> 128"
    using card_mono [of "{..<128::nat}" "rc_used c"] by simp
  then have c1: "length (rc_queued c @ taken) \<le> 128"
    using d distinct_card [OF d(1)] by simp
  have c2: "fst (getNextRequest c) = (case rb_queue (ringBuffer c) of [] \<Rightarrow> None | r # _ \<Rightarrow> Some r)"
    by (rule getNextRequest_inv(2) [OF inv])
  from d c1 c2 show ?thesis by blast
qed

text \<open>
  A recovery request is never lost: in every reachable state with a free slot, if the promise
  library yields a future for a fresh promise, the request is queued last under a slot that no
  request on its way owns, with the fresh promise in it, all other slots are untouched, and the
  caller gets the future of that promise. With no free slot the caller gets the future of a failed
  promise and the client is unchanged.
\<close>

theorem recovery_request_queued:
  assumes "rc_reachable api c w taken" "new_promise api w = (p, w1)" "get_future api p w1 = (Some f, w2)"
  shows "(rc_used c \<noteq> {..<128} \<longrightarrow> (\<exists>i c'. sendRecoveryRequest api pg st c w = Some (f, c', w2) \<and> i < 128 \<and> i \<notin> set (rc_queued c @ taken) \<and>
      requests c' = (requests c)[i := \<lparr>promise = p, in_use = True\<rparr>] \<and>
      rb_queue (ringBuffer c') = rb_queue (ringBuffer c) @ [\<lparr>rr_pg_name = pg, rr_pg_state_name = st, promise_id = i\<rparr>])) \<and>
    (rc_used c = {..<128} \<longrightarrow> (sendRecoveryRequest api pg st c w = map_option (\<lambda>(f, w). (f, c, w)) (GetErrorFuture api kFailed w)))"
proof -
  note inv = rc_reachable_inv [OF assms(1)]
  have l: "length (requests c) = 128" and u: "set (rc_queued c @ taken) = rc_used c"
    using inv by (simp_all add: rc_inv_def rc_capacity_def)
  have c1: "\<exists>i c'. sendRecoveryRequest api pg st c w = Some (f, c', w2) \<and> i < 128 \<and> i \<notin> set (rc_queued c @ taken) \<and>
      requests c' = (requests c)[i := \<lparr>promise = p, in_use = True\<rparr>] \<and>
      rb_queue (ringBuffer c') = rb_queue (ringBuffer c) @ [\<lparr>rr_pg_name = pg, rr_pg_state_name = st, promise_id = i\<rparr>]"
    if "rc_used c \<noteq> {..<128}"
  proof -
    have "\<exists>r \<in> set (requests c). \<not> in_use r" using that rc_used_all [of c] l by metis
    from send_free [OF inv this assms(2,3), of pg st] show ?thesis
      unfolding u rc_capacity_def by metis
  qed
  have c2: "sendRecoveryRequest api pg st c w = map_option (\<lambda>(f, w). (f, c, w)) (GetErrorFuture api kFailed w)"
    if "rc_used c = {..<128}"
    by (rule send_full) (use that rc_used_all [of c] l in metis)
  from c1 c2 show ?thesis by blast
qed

text \<open>A promise library that counts the promises it has made.\<close>

definition counting_api :: "(nat, nat, nat) promise_api" where
  "counting_api = \<lparr>new_promise = (\<lambda>w. (w, w + 1)), get_future = (\<lambda>p w. (Some p, w)),
     set_value = (\<lambda>p w. w), set_error = (\<lambda>p e w. w)\<rparr>"

lemma counting_start:
  "rc_reachable counting_api (fst (RecoveryClient_new counting_api 0)) (snd (RecoveryClient_new counting_api 0)) []"
  "rc_used (fst (RecoveryClient_new counting_api 0)) = {}"
proof -
  show "rc_reachable counting_api (fst (RecoveryClient_new counting_api 0)) (snd (RecoveryClient_new counting_api 0)) []"
    by (rule rc_start) simp
  then show "rc_used (fst (RecoveryClient_new counting_api 0)) = {}"
    using rc_inv_new [of counting_api 0 "fst (RecoveryClient_new counting_api 0)" "snd (RecoveryClient_new counting_api 0)"]
    by (auto simp: rc_inv_def rc_queued_def RecoveryClient_new_def Let_def case_prod_beta)
qed

theorem recovery_slots_exact_witness:
  "length (rc_queued (fst (RecoveryClient_new counting_api 0)) @ []) \<le> 128 \<and>
   \<not> overflow_flag (ringBuffer (fst (RecoveryClient_new counting_api 0)))"
  using recovery_slots_exact [OF counting_start(1)] by simp

theorem recovery_request_queued_witness:
  "\<exists>f i c' w. sendRecoveryRequest counting_api \<lparr>hash_id = 1\<rparr> \<lparr>hash_id = 2\<rparr>
      (fst (RecoveryClient_new counting_api 0)) (snd (RecoveryClient_new counting_api 0)) = Some (f, c', w) \<and> i < 128 \<and>
     rb_queue (ringBuffer c') = [\<lparr>rr_pg_name = \<lparr>hash_id = 1\<rparr>, rr_pg_state_name = \<lparr>hash_id = 2\<rparr>, promise_id = i\<rparr>]"
proof -
  let ?w = "snd (RecoveryClient_new counting_api 0)"
  have p: "new_promise counting_api ?w = (?w, ?w + 1)" "get_future counting_api ?w (?w + 1) = (Some ?w, ?w + 1)"
    by (simp_all add: counting_api_def)
  have q: "rb_queue (ringBuffer (fst (RecoveryClient_new counting_api 0))) = []"
    by (simp add: RecoveryClient_new_def Let_def case_prod_beta)
  have "rc_used (fst (RecoveryClient_new counting_api 0)) \<noteq> {..<128}"
    by (simp add: counting_start(2) lessThan_def) (metis zero_less_numeral)
  with recovery_request_queued [OF counting_start(1) p] q show ?thesis
    by fastforce
qed

end
