(* ===== verification/Recovery_Notification.thy ===== *)
theory Recovery_Notification
  imports Identifier_Hash
begin

section \<open>Recovery notifications\<close>

text \<open>
  Models \<^verbatim>\<open>saf/recovery/Notification.{hpp,cpp}\<close>, the object a global supervision notifies when it
  stops: it asks the launch manager for the recovery state and waits for the answer, and its final
  timeout state makes the daemon stop servicing the watchdog.

  What a cycle reads from its environment is the record \<open>TriggerInput\<close>: the two readings of the
  clock (which returns 0 on failure) and the validity, readiness and result of the future handed out
  by the recovery client. The calls of \<^verbatim>\<open>sendRecoveryRequest\<close> are recorded in \<open>nt_requests\<close>. Strings
  used for logging only are left out.
\<close>

datatype NState = N_Idle | N_Timeout | N_Sending | N_WaitingForResponse

record NotificationConfig =
  configName :: string
  processGroupMetaModelIdentifier :: string
  nc_timeout :: NanoSecondType

record Notification =
  currentState :: NState
  k_notificationConfig :: NotificationConfig
  startTimestamp :: NanoSecondType
  isNotificationConfigAvailable :: bool
  recoveryProcessGroup :: IdentifierHash
  recoveryProcessGroupState :: IdentifierHash
  nt_requests :: "(IdentifierHash \<times> IdentifierHash) list"

record TriggerInput =
  ti_clockAtRequest :: NanoSecondType
  ti_futureValid :: bool
  ti_futureReady :: bool
  ti_clockAtCheck :: NanoSecondType
  ti_resultHasValue :: bool

definition defaultNotificationConfig :: NotificationConfig where
  "defaultNotificationConfig = \<lparr>configName = '''', processGroupMetaModelIdentifier = '''', nc_timeout = UINT64_MAX\<rparr>"

text \<open>Without configuration the notification only ever reaches the final timeout state.\<close>

definition Notification_unconfigured :: "(string \<Rightarrow> u64) \<Rightarrow> Notification" where
  "Notification_unconfigured hash =
     \<lparr>currentState = N_Idle, k_notificationConfig = defaultNotificationConfig, startTimestamp = 0,
      isNotificationConfigAvailable = False,
      recoveryProcessGroup = fst (IdentifierHash_default hash Map.empty),
      recoveryProcessGroupState = fst (IdentifierHash_default hash Map.empty), nt_requests = []\<rparr>"

definition Notification_new :: "(string \<Rightarrow> u64) \<Rightarrow> NotificationConfig \<Rightarrow> Notification" where
  "Notification_new hash f_notificationConfig_r =
     \<lparr>currentState = N_Idle, k_notificationConfig = f_notificationConfig_r, startTimestamp = 0,
      isNotificationConfigAvailable = True,
      recoveryProcessGroup = fst (IdentifierHash_default hash Map.empty),
      recoveryProcessGroupState = fst (IdentifierHash_default hash Map.empty), nt_requests = []\<rparr>"

text \<open>\<^verbatim>\<open>std::string::find_last_of\<close> for a single character; \<open>None\<close> is \<^verbatim>\<open>npos\<close>.\<close>

fun find_last_of :: "char \<Rightarrow> string \<Rightarrow> nat option" where
  "find_last_of c [] = None"
| "find_last_of c (x # xs) =
     (case find_last_of c xs of
        Some i \<Rightarrow> Some (Suc i)
      | None \<Rightarrow> if x = c then Some 0 else None)"

definition initProxy :: "(string \<Rightarrow> u64) \<Rightarrow> Notification \<Rightarrow> registry \<Rightarrow> bool \<times> Notification \<times> registry" where
  "initProxy hash n reg =
     (let identifier = processGroupMetaModelIdentifier (k_notificationConfig n)
      in case find_last_of (CHR ''/'') identifier of
           None \<Rightarrow> (False, n, reg)
         | Some processGroupStateStartPos \<Rightarrow>
             if processGroupStateStartPos = 0 then (False, n, reg)
             else (let recoveryProcessGroupId = take processGroupStateStartPos identifier;
                       (pg, reg) = IdentifierHash_string hash recoveryProcessGroupId reg;
                       (pgs, reg) = IdentifierHash_string hash identifier reg
                   in (True, n\<lparr>recoveryProcessGroup := pg, recoveryProcessGroupState := pgs\<rparr>, reg)))"

definition setFinalTimeoutState :: "Notification \<Rightarrow> Notification" where
  "setFinalTimeoutState n = n\<lparr>currentState := N_Timeout\<rparr>"

text \<open>The error information handed in is not used by the code.\<close>

definition nt_send :: "Notification \<Rightarrow> Notification" where
  "nt_send n =
     (if isNotificationConfigAvailable n
      then (if currentState n = N_Idle then n\<lparr>currentState := N_Sending\<rparr> else n)
      else setFinalTimeoutState n)"

definition invokeRecoveryHandler :: "TriggerInput \<Rightarrow> Notification \<Rightarrow> Notification" where
  "invokeRecoveryHandler i n =
     n\<lparr>nt_requests := nt_requests n @ [(recoveryProcessGroup n, recoveryProcessGroupState n)],
       startTimestamp := ti_clockAtRequest i,
       currentState := N_WaitingForResponse\<rparr>"

definition verifyRecoveryHandlerResponse :: "TriggerInput \<Rightarrow> Notification \<Rightarrow> Notification" where
  "verifyRecoveryHandlerResponse i n =
     (if \<not> ti_futureValid i then setFinalTimeoutState (n\<lparr>startTimestamp := 0\<rparr>)
      else if \<not> ti_futureReady i
      then (let endTimeStamp = ti_clockAtCheck i;
                lapsedTime = endTimeStamp - startTimestamp n
            in if lapsedTime > nc_timeout (k_notificationConfig n)
               then setFinalTimeoutState (n\<lparr>startTimestamp := 0\<rparr>)
               else n)
      else if \<not> ti_resultHasValue i then setFinalTimeoutState (n\<lparr>startTimestamp := 0\<rparr>)
      else n\<lparr>startTimestamp := 0, currentState := N_Idle\<rparr>)"

definition cyclicTrigger :: "TriggerInput \<Rightarrow> Notification \<Rightarrow> Notification" where
  "cyclicTrigger i n =
     (let n = (if currentState n = N_Sending then invokeRecoveryHandler i n else n)
      in if currentState n = N_WaitingForResponse then verifyRecoveryHandlerResponse i n else n)"

definition isFinalTimeoutStateReached :: "Notification \<Rightarrow> bool" where
  "isFinalTimeoutStateReached n \<longleftrightarrow> currentState n = N_Timeout"

subsection \<open>The recovery state identifier\<close>

lemma find_last_of_None: "find_last_of c xs = None \<longleftrightarrow> c \<notin> set xs"
  by (induction xs) (auto split: option.splits if_splits)

lemma find_last_of_Some:
  "find_last_of c xs = Some i \<longleftrightarrow> (\<exists>ys zs. xs = ys @ c # zs \<and> length ys = i \<and> c \<notin> set zs)"
proof (induction xs arbitrary: i)
  case (Cons x xs)
  show ?case
  proof (cases "find_last_of c xs")
    case None
    then have "c \<notin> set xs" by (simp add: find_last_of_None)
    then have "(\<exists>ys zs. x # xs = ys @ c # zs \<and> length ys = i \<and> c \<notin> set zs) \<longleftrightarrow> x = c \<and> i = 0"
      by (cases i) (auto simp: Cons_eq_append_conv)
    then show ?thesis using None by auto
  next
    case (Some j)
    then obtain ys zs where xs: "xs = ys @ c # zs" "length ys = j" "c \<notin> set zs" using Cons.IH by blast
    have "i = Suc j" if "x # xs = ys' @ c # zs'" "length ys' = i" "c \<notin> set zs'" for ys' zs'
      using that xs by (cases ys') (auto, metis Cons.IH Some option.inject)
    moreover have "x # xs = (x # ys) @ c # zs" "length (x # ys) = Suc j" using xs by simp_all
    ultimately show ?thesis
      using Some xs(3) unfolding find_last_of.simps by (metis option.inject option.simps(5))
  qed
qed simp

text \<open>
  The recovery state is addressed exactly when its identifier has the form of a non-empty
  process group path, a slash and a state name without slash: then the request names the process
  group by the path and the state by the whole identifier; otherwise the initialisation fails and
  changes nothing.
\<close>

theorem notification_identifier_split:
  "(fst (initProxy hash n reg) \<longleftrightarrow>
      (\<exists>pg st. processGroupMetaModelIdentifier (k_notificationConfig n) = pg @ CHR ''/'' # st \<and> pg \<noteq> '''' \<and> CHR ''/'' \<notin> set st)) \<and>
    (\<not> fst (initProxy hash n reg) \<longrightarrow> (initProxy hash n reg = (False, n, reg))) \<and>
    (processGroupMetaModelIdentifier (k_notificationConfig n) = pg @ CHR ''/'' # st \<and> pg \<noteq> '''' \<and> CHR ''/'' \<notin> set st \<longrightarrow> (fst (snd (initProxy hash n reg)) =
        n\<lparr>recoveryProcessGroup := \<lparr>hash_id = hash pg\<rparr>,
          recoveryProcessGroupState := \<lparr>hash_id = hash (pg @ CHR ''/'' # st)\<rparr>\<rparr>))"
proof -
  let ?m = "processGroupMetaModelIdentifier (k_notificationConfig n)"
  have f: "fst (initProxy hash n reg) \<longleftrightarrow> (\<exists>i. find_last_of (CHR ''/'') ?m = Some i \<and> i \<noteq> 0)"
    by (simp add: initProxy_def Let_def case_prod_beta split: option.split)
  then have c1: "fst (initProxy hash n reg) \<longleftrightarrow> (\<exists>pg st. ?m = pg @ CHR ''/'' # st \<and> pg \<noteq> '''' \<and> CHR ''/'' \<notin> set st)"
    by (auto simp: find_last_of_Some)
  have c2: "\<not> fst (initProxy hash n reg) \<Longrightarrow> initProxy hash n reg = (False, n, reg)"
    by (auto simp: initProxy_def Let_def case_prod_beta split: option.splits if_splits)
  have c3: "fst (snd (initProxy hash n reg)) =
        n\<lparr>recoveryProcessGroup := \<lparr>hash_id = hash pg\<rparr>,
          recoveryProcessGroupState := \<lparr>hash_id = hash (pg @ CHR ''/'' # st)\<rparr>\<rparr>"
    if m: "?m = pg @ CHR ''/'' # st" "pg \<noteq> ''''" "CHR ''/'' \<notin> set st"
  proof -
    have "find_last_of (CHR ''/'') ?m = Some (length pg)"
      using m by (auto simp: find_last_of_Some)
    then show ?thesis
      using m by (simp add: initProxy_def Let_def case_prod_beta IdentifierHash_string_def)
  qed
  from c1 c2 c3 show ?thesis by blast
qed

definition nt_example :: Notification where
  "nt_example = Notification_new (\<lambda>s. word_of_nat (length s))
     \<lparr>configName = ''R'', processGroupMetaModelIdentifier = ''MainPG/Recovery'', nc_timeout = 100\<rparr>"

theorem notification_identifier_split_witness:
  "recoveryProcessGroup (fst (snd (initProxy (\<lambda>s. word_of_nat (length s)) nt_example Map.empty))) = \<lparr>hash_id = 6\<rparr>"
  using notification_identifier_split [of "\<lambda>s. word_of_nat (length s)" nt_example Map.empty "''MainPG''" "''Recovery''"]
  by (simp add: nt_example_def Notification_new_def)

subsection \<open>Waiting for the answer\<close>

lemma cyclicTrigger_waiting:
  "currentState n = N_WaitingForResponse \<Longrightarrow> ti_futureValid i \<Longrightarrow> \<not> ti_futureReady i \<Longrightarrow>
   \<not> ti_clockAtCheck i - startTimestamp n > nc_timeout (k_notificationConfig n) \<Longrightarrow> cyclicTrigger i n = n"
  by (simp add: cyclicTrigger_def verifyRecoveryHandlerResponse_def)

lemma timeout_absorbing:
  "currentState n = N_Timeout \<Longrightarrow> cyclicTrigger i n = n"
  "currentState n = N_Timeout \<Longrightarrow> nt_send n = n"
  by (simp_all add: cyclicTrigger_def nt_send_def setFinalTimeoutState_def)

lemma fold_timeout_absorbing: "currentState n = N_Timeout \<Longrightarrow> fold cyclicTrigger is n = n"
  by (induction "is") (simp_all add: timeout_absorbing)

lemma waiting_run:
  assumes "currentState n = N_WaitingForResponse" "\<forall>i \<in> set is. ti_futureValid i \<and> \<not> ti_futureReady i"
  shows "fold cyclicTrigger is n =
    (if \<exists>i \<in> set is. ti_clockAtCheck i - startTimestamp n > nc_timeout (k_notificationConfig n)
     then n\<lparr>startTimestamp := 0, currentState := N_Timeout\<rparr> else n)"
  using assms
proof (induction "is")
  case (Cons i "is")
  show ?case
  proof (cases "ti_clockAtCheck i - startTimestamp n > nc_timeout (k_notificationConfig n)")
    case True
    then have "cyclicTrigger i n = n\<lparr>startTimestamp := 0, currentState := N_Timeout\<rparr>"
      using Cons.prems by (simp add: cyclicTrigger_def verifyRecoveryHandlerResponse_def setFinalTimeoutState_def)
    then show ?thesis using True by (simp add: fold_timeout_absorbing)
  next
    case False
    then show ?thesis using Cons cyclicTrigger_waiting [of n i] by simp
  qed
qed simp

text \<open>
  (C37) The timeout of a recovery notification is exact. After a notification was sent, the first
  cycle requests the recovery state once; as long as the answer is pending, the notification waits
  in every cycle whose clock is at most the timeout past the request, reaches its final timeout
  state in the first later one and never leaves it, and no second request is made. A positive
  answer returns it to idle, a negative answer or a broken future is escalated at once.
\<close>

theorem notification_timeout_exact:
  assumes "currentState n = N_Idle" "isNotificationConfigAvailable n"
    and "ti_futureValid i" "\<not> ti_futureReady i" "ti_clockAtRequest i \<le> ti_clockAtCheck i"
    and "\<forall>j \<in> set is. ti_futureValid j \<and> \<not> ti_futureReady j \<and> ti_clockAtRequest i \<le> ti_clockAtCheck j"
  defines "n' \<equiv> fold cyclicTrigger (i # is) (nt_send n)"
  shows "(isFinalTimeoutStateReached n' \<longleftrightarrow>
      (\<exists>j \<in> set (i # is). unat (ti_clockAtCheck j) > unat (ti_clockAtRequest i) + unat (nc_timeout (k_notificationConfig n)))) \<and>
    (nt_requests n' = nt_requests n @ [(recoveryProcessGroup n, recoveryProcessGroupState n)]) \<and>
    (\<not> isFinalTimeoutStateReached n' \<and> ti_futureValid k \<and> ti_futureReady k \<longrightarrow> (currentState (cyclicTrigger k n') = (if ti_resultHasValue k then N_Idle else N_Timeout)))"
proof -
  let ?w = "n\<lparr>nt_requests := nt_requests n @ [(recoveryProcessGroup n, recoveryProcessGroupState n)],
       startTimestamp := ti_clockAtRequest i, currentState := N_WaitingForResponse\<rparr>"
  have first: "cyclicTrigger i (nt_send n) = cyclicTrigger i ?w"
    using assms(1,2) by (simp add: cyclicTrigger_def nt_send_def invokeRecoveryHandler_def)
  have late: "(ti_clockAtCheck j - ti_clockAtRequest i > nc_timeout (k_notificationConfig n)) =
      (unat (ti_clockAtCheck j) > unat (ti_clockAtRequest i) + unat (nc_timeout (k_notificationConfig n)))"
    if "j \<in> set (i # is)" for j
    using that assms(5,6) by (auto simp: word_less_nat_alt word_le_nat_alt unat_sub)
  have n': "n' = (if \<exists>j \<in> set (i # is). unat (ti_clockAtCheck j) > unat (ti_clockAtRequest i) + unat (nc_timeout (k_notificationConfig n))
     then ?w\<lparr>startTimestamp := 0, currentState := N_Timeout\<rparr> else ?w)"
  proof -
    have "n' = fold cyclicTrigger (i # is) ?w" by (simp add: n'_def first)
    also have "\<dots> = (if \<exists>j \<in> set (i # is). ti_clockAtCheck j - startTimestamp ?w > nc_timeout (k_notificationConfig ?w)
       then ?w\<lparr>startTimestamp := 0, currentState := N_Timeout\<rparr> else ?w)"
      using assms(3,4,6) by (intro waiting_run) auto
    finally show ?thesis using late by auto
  qed
  have c1: "isFinalTimeoutStateReached n' \<longleftrightarrow>
      (\<exists>j \<in> set (i # is). unat (ti_clockAtCheck j) > unat (ti_clockAtRequest i) + unat (nc_timeout (k_notificationConfig n)))"
    unfolding n' by (auto simp: isFinalTimeoutStateReached_def)
  have c2: "nt_requests n' = nt_requests n @ [(recoveryProcessGroup n, recoveryProcessGroupState n)]"
    unfolding n' by simp
  have c3: "currentState (cyclicTrigger k n') = (if ti_resultHasValue k then N_Idle else N_Timeout)"
    if "\<not> isFinalTimeoutStateReached n'" "ti_futureValid k" "ti_futureReady k"
    using that unfolding n'
    by (auto simp: isFinalTimeoutStateReached_def cyclicTrigger_def verifyRecoveryHandlerResponse_def setFinalTimeoutState_def
        split: if_splits)
  from c1 c2 c3 show ?thesis by blast
qed

definition ti_pending :: "NanoSecondType \<Rightarrow> TriggerInput" where
  "ti_pending t = \<lparr>ti_clockAtRequest = t, ti_futureValid = True, ti_futureReady = False, ti_clockAtCheck = t,
     ti_resultHasValue = False\<rparr>"

theorem notification_timeout_exact_witness:
  "isFinalTimeoutStateReached (fold cyclicTrigger [ti_pending 5, ti_pending 105, ti_pending 106] (nt_send nt_example)) \<and>
   \<not> isFinalTimeoutStateReached (fold cyclicTrigger [ti_pending 5, ti_pending 105] (nt_send nt_example))"
  using notification_timeout_exact [of nt_example "ti_pending 5" "[ti_pending 105, ti_pending 106]"]
    notification_timeout_exact [of nt_example "ti_pending 5" "[ti_pending 105]"]
  by (simp add: nt_example_def Notification_new_def ti_pending_def)

subsection \<open>Reachable notifications\<close>

datatype nt_event = NE_send | NE_trigger TriggerInput

fun nt_step :: "nt_event \<Rightarrow> Notification \<Rightarrow> Notification" where
  "nt_step NE_send n = nt_send n"
| "nt_step (NE_trigger i) n = cyclicTrigger i n"

lemma nt_step_timeout: "currentState n = N_Timeout \<Longrightarrow> nt_step e n = n"
  by (cases e) (simp_all add: timeout_absorbing)

lemma nt_run_timeout: "currentState n = N_Timeout \<Longrightarrow> fold nt_step es n = n"
  by (induction es) (simp_all add: nt_step_timeout)

lemma nt_step_frame [simp]:
  "k_notificationConfig (nt_step e n) = k_notificationConfig n"
  "isNotificationConfigAvailable (nt_step e n) = isNotificationConfigAvailable n"
  "recoveryProcessGroup (nt_step e n) = recoveryProcessGroup n"
  "recoveryProcessGroupState (nt_step e n) = recoveryProcessGroupState n"
  by (cases e; simp add: cyclicTrigger_def verifyRecoveryHandlerResponse_def invokeRecoveryHandler_def nt_send_def
      setFinalTimeoutState_def Let_def)+

text \<open>
  The final timeout state is final, and it is the only reaction of a notification without
  configuration: once reached, no event changes the notification; an unconfigured notification is
  in it after any run in which it was notified at least once, and never requests a recovery state.
\<close>

theorem notification_final_timeout:
  "(currentState n = N_Timeout \<longrightarrow> (fold nt_step es n = n)) \<and>
    (isFinalTimeoutStateReached (fold nt_step es (Notification_unconfigured hash)) \<longleftrightarrow> NE_send \<in> set es) \<and>
    (nt_requests (fold nt_step es (Notification_unconfigured hash)) = [])"
proof -
  have idle: "fold nt_step es n = (if NE_send \<in> set es then n\<lparr>currentState := N_Timeout\<rparr> else n)"
    if "currentState n = N_Idle" "\<not> isNotificationConfigAvailable n" for es n
    using that
  proof (induction es)
    case (Cons e es)
    show ?case
    proof (cases e)
      case NE_send
      then show ?thesis
        using Cons.prems by (simp add: nt_send_def setFinalTimeoutState_def nt_run_timeout)
    next
      case (NE_trigger i)
      then have "nt_step e n = n" using Cons.prems by (simp add: cyclicTrigger_def)
      then show ?thesis using Cons NE_trigger by simp
    qed
  qed simp
  have c: "isFinalTimeoutStateReached (fold nt_step es (Notification_unconfigured hash)) \<longleftrightarrow> NE_send \<in> set es"
    "nt_requests (fold nt_step es (Notification_unconfigured hash)) = []"
    using idle [of "Notification_unconfigured hash" es]
    by (simp_all add: isFinalTimeoutStateReached_def Notification_unconfigured_def)
  from nt_run_timeout c show ?thesis by blast
qed

theorem notification_final_timeout_witness:
  "fold nt_step [NE_send, NE_trigger (ti_pending 3)] (nt_example\<lparr>currentState := N_Timeout\<rparr>)
     = nt_example\<lparr>currentState := N_Timeout\<rparr>"
  using notification_final_timeout [of "nt_example\<lparr>currentState := N_Timeout\<rparr>" "[NE_send, NE_trigger (ti_pending 3)]"] by simp

end
