(* ===== verification/Ipc_Channel.thy ===== *)
theory Ipc_Channel
  imports Ring_Buffer
begin

section \<open>Sockets and IPC channels\<close>

text \<open>
  Models \<^verbatim>\<open>externals/ipc_dropin/include/ipc_dropin/socket.hpp\<close> and \<^verbatim>\<open>saf/ipc/IpcBase.hpp\<close>,
  \<^verbatim>\<open>IpcServer.hpp\<close> and \<^verbatim>\<open>IpcClient.hpp\<close>. The ring buffer in shared memory is an object of its own,
  handed to every operation and returned updated, since the sockets of the server and of the
  client refer to the same one; a socket only knows whether it has mapped it. The outcome of the
  operating system's calls in \<^verbatim>\<open>create\<close> and \<^verbatim>\<open>connect\<close> is an argument, the calls of \<^verbatim>\<open>cleanup\<close> and
  \<^verbatim>\<open>close\<close> are recorded in the order they are made. \<^verbatim>\<open>sizeof(Payload)\<close> is also the element size of
  the buffer, so its static and dynamic checks cannot fail and only the size test of the reading
  operations remains.
\<close>

datatype ReturnCode = RC_Ok | RC_Error | RC_QueueEmpty | RC_PermissionDenied | RC_QueueStateCorrupt

datatype Errno = EACCES | EPERM | EOTHER

datatype OsCall = Close int | ShmUnlink string | Munmap

record Socket =
  is_server :: bool
  sk_name :: string
  sk_fd :: int
  sk_mapped :: bool
  sk_calls :: "OsCall list"

text \<open>What the operating system answers: the descriptor, and for each call that fails its error.\<close>

record ShmOutcome =
  os_fd :: int
  os_openErrno :: Errno
  os_ftruncateFails :: bool
  os_mmapFails :: bool
  os_errnoAfterCleanup :: Errno

definition Socket_new :: Socket where
  "Socket_new = \<lparr>is_server = False, sk_name = '''', sk_fd = - 1, sk_mapped = False, sk_calls = []\<rparr>"

definition shm_name :: "string \<Rightarrow> string" where
  "shm_name name = (case name of [] \<Rightarrow> name | c # _ \<Rightarrow> if c \<noteq> CHR ''/'' then CHR ''/'' # name else name)"

definition sk_cleanup :: "Socket \<Rightarrow> Socket" where
  "sk_cleanup s =
     (let s = (if sk_fd s \<ge> 0 then s\<lparr>sk_calls := sk_calls s @ [Close (sk_fd s)], sk_fd := - 1\<rparr> else s)
      in if is_server s \<and> sk_name s \<noteq> '''' then s\<lparr>sk_calls := sk_calls s @ [ShmUnlink (sk_name s)]\<rparr> else s)"

definition denied :: "Errno \<Rightarrow> ReturnCode" where
  "denied e = (if e = EACCES \<or> e = EPERM then RC_PermissionDenied else RC_Error)"

definition sk_create :: "string \<Rightarrow> ShmOutcome \<Rightarrow> Socket \<Rightarrow> 'a RingBuffer \<Rightarrow> ReturnCode \<times> Socket \<times> 'a RingBuffer" where
  "sk_create name os s b =
     (let s = s\<lparr>sk_name := shm_name name, sk_fd := os_fd os\<rparr>
      in if sk_fd s < 0 then (if os_openErrno os = EACCES then RC_PermissionDenied else RC_Error, s, b)
         else if os_ftruncateFails os then (denied (os_errnoAfterCleanup os), sk_cleanup s, b)
         else if os_mmapFails os then (denied (os_errnoAfterCleanup os), sk_cleanup s, b)
         else (RC_Ok, s\<lparr>sk_mapped := True, is_server := True\<rparr>, rb_initialize b))"

definition sk_connect :: "string \<Rightarrow> ShmOutcome \<Rightarrow> Socket \<Rightarrow> 'a RingBuffer \<Rightarrow> ReturnCode \<times> Socket" where
  "sk_connect name os s b =
     (let s = s\<lparr>sk_name := shm_name name, sk_fd := os_fd os\<rparr>
      in if sk_fd s < 0 then (if os_openErrno os = EACCES then RC_PermissionDenied else RC_Error, s)
         else if os_mmapFails os then (denied (os_errnoAfterCleanup os), sk_cleanup s)
         else (if rb_initialized b then RC_Ok else RC_Error, s\<lparr>sk_mapped := True\<rparr>))"

definition sk_close :: "Socket \<Rightarrow> Socket" where
  "sk_close s =
     (let s = (if sk_mapped s then s\<lparr>sk_calls := sk_calls s @ [Munmap], sk_mapped := False\<rparr> else s)
      in (sk_cleanup s)\<lparr>is_server := False\<rparr>)"

definition sk_getOverflowFlag :: "Socket \<Rightarrow> bool \<Rightarrow> 'a RingBuffer \<Rightarrow> bool \<times> 'a RingBuffer" where
  "sk_getOverflowFlag s reset b = (if \<not> sk_mapped s then (False, b) else rb_getOverflowFlag reset b)"

definition trySendEmplace :: "nat \<Rightarrow> Socket \<Rightarrow> 'a \<Rightarrow> 'a RingBuffer \<Rightarrow> ReturnCode \<times> 'a RingBuffer" where
  "trySendEmplace sizeof_Payload s args b =
     (if \<not> sk_mapped s then (RC_Error, b)
      else (let (r, b) = tryEmplace sizeof_Payload args b in (if r then RC_Ok else RC_Error, b)))"

definition sk_tryPeek :: "nat \<Rightarrow> Socket \<Rightarrow> 'a RingBuffer \<Rightarrow> ReturnCode \<times> 'a option" where
  "sk_tryPeek sizeof_Payload s b =
     (if \<not> sk_mapped s then (RC_Error, None)
      else if rb_empty b then (RC_QueueEmpty, None)
      else (case tryPeek sizeof_Payload b of Some e \<Rightarrow> (RC_Ok, Some e) | None \<Rightarrow> (RC_Error, None)))"

definition sk_tryPop :: "Socket \<Rightarrow> 'a RingBuffer \<Rightarrow> ReturnCode \<times> 'a RingBuffer" where
  "sk_tryPop s b =
     (if \<not> sk_mapped s then (RC_Error, b)
      else (let (r, b) = tryPop b in (if r then RC_Ok else RC_Error, b)))"

definition tryReceive :: "nat \<Rightarrow> Socket \<Rightarrow> 'a RingBuffer \<Rightarrow> ReturnCode \<times> 'a option \<times> 'a RingBuffer" where
  "tryReceive sizeof_Payload s b =
     (if \<not> sk_mapped s then (RC_QueueStateCorrupt, None, b)
      else if rb_empty b then (RC_QueueEmpty, None, b)
      else (case tryDequeue sizeof_Payload b of
              (Some e, b) \<Rightarrow> (RC_Ok, Some e, b)
            | (None, b) \<Rightarrow> (RC_Error, None, b)))"

definition trySend :: "nat \<Rightarrow> Socket \<Rightarrow> 'a \<Rightarrow> 'a RingBuffer \<Rightarrow> ReturnCode \<times> 'a RingBuffer" where
  "trySend sizeof_Payload s elem b =
     (if \<not> sk_mapped s then (RC_Error, b)
      else (let (r, b) = tryEnqueue sizeof_Payload elem b in (if r then RC_Ok else RC_Error, b)))"

subsection \<open>Channels\<close>

record Ipc =
  ipc_socket :: Socket
  isInitialized :: bool

datatype EIpcInitResult = Init_Ok | Init_Failed | Init_PermissionDenied
datatype EIpcPeekResult = Peek_Ok | Peek_NoDataToRead | Peek_IpcError

definition Ipc_new :: Ipc where
  "Ipc_new = \<lparr>ipc_socket = Socket_new, isInitialized = False\<rparr>"

definition hasOverflow :: "Ipc \<Rightarrow> 'a RingBuffer \<Rightarrow> bool" where
  "hasOverflow c b = (if \<not> isInitialized c then False else fst (sk_getOverflowFlag (ipc_socket c) False b))"

definition sendEmplace :: "nat \<Rightarrow> Ipc \<Rightarrow> 'a \<Rightarrow> 'a RingBuffer \<Rightarrow> bool \<times> 'a RingBuffer" where
  "sendEmplace sizeof_Payload c args b =
     (if \<not> isInitialized c then (False, b)
      else (let (r, b) = trySendEmplace sizeof_Payload (ipc_socket c) args b in (r = RC_Ok, b)))"

definition ipc_peek :: "nat \<Rightarrow> Ipc \<Rightarrow> 'a RingBuffer \<Rightarrow> EIpcPeekResult \<times> 'a option" where
  "ipc_peek sizeof_Payload c b =
     (if \<not> isInitialized c then (Peek_NoDataToRead, None)
      else (let (result, f_elem_p) = sk_tryPeek sizeof_Payload (ipc_socket c) b
            in (if result = RC_Ok then Peek_Ok
                else if result = RC_QueueEmpty then Peek_NoDataToRead else Peek_IpcError, f_elem_p)))"

definition ipc_pop :: "Ipc \<Rightarrow> 'a RingBuffer \<Rightarrow> bool \<times> 'a RingBuffer" where
  "ipc_pop c b =
     (if \<not> isInitialized c then (False, b)
      else (let (r, b) = sk_tryPop (ipc_socket c) b in (r = RC_Ok, b)))"

text \<open>The server refuses to take over an existing object, tested by opening it without creating it.\<close>

definition IpcServer_init ::
  "string \<Rightarrow> int \<Rightarrow> ShmOutcome \<Rightarrow> Ipc \<Rightarrow> 'a RingBuffer \<Rightarrow> EIpcInitResult \<times> Ipc \<times> 'a RingBuffer"
where
  "IpcServer_init f_ipcName_r fdOfExisting os c b =
     (if fdOfExisting \<ge> 0
      then (Init_Failed, c\<lparr>ipc_socket := (ipc_socket c)\<lparr>sk_calls := sk_calls (ipc_socket c) @ [Close fdOfExisting]\<rparr>\<rparr>, b)
      else (let (result, s, b) = sk_create f_ipcName_r os (ipc_socket c) b;
                c = c\<lparr>ipc_socket := s\<rparr>
            in if result = RC_Ok then (Init_Ok, c\<lparr>isInitialized := True\<rparr>, b)
               else if result = RC_PermissionDenied then (Init_PermissionDenied, c\<lparr>isInitialized := False\<rparr>, b)
               else (Init_Failed, c, b)))"

definition IpcClient_init :: "string \<Rightarrow> ShmOutcome \<Rightarrow> Ipc \<Rightarrow> 'a RingBuffer \<Rightarrow> EIpcInitResult \<times> Ipc" where
  "IpcClient_init f_ipcName_r os c b =
     (let (result, s) = sk_connect f_ipcName_r os (ipc_socket c) b;
          c = c\<lparr>ipc_socket := s\<rparr>
      in if result = RC_Ok then (Init_Ok, c\<lparr>isInitialized := True\<rparr>)
         else if result = RC_PermissionDenied then (Init_PermissionDenied, c)
         else (Init_Failed, c))"

definition Ipc_destroy :: "Ipc \<Rightarrow> Ipc" where
  "Ipc_destroy c = (if isInitialized c then c\<lparr>ipc_socket := sk_close (ipc_socket c)\<rparr> else c)"

subsection \<open>Channels as queues\<close>

text \<open>A channel that was initialised successfully has its buffer mapped.\<close>

definition ipc_ok :: "Ipc \<Rightarrow> bool" where
  "ipc_ok c \<longleftrightarrow> (isInitialized c \<longrightarrow> sk_mapped (ipc_socket c))"

lemma ipc_ok_new [simp]: "ipc_ok Ipc_new"
  by (simp add: ipc_ok_def Ipc_new_def)

lemma ipc_ok_server_init:
  "ipc_ok c \<Longrightarrow> ipc_ok (fst (snd (IpcServer_init n fd os c b)))"
  by (auto simp: ipc_ok_def IpcServer_init_def sk_create_def sk_cleanup_def denied_def Let_def split: if_splits)

lemma ipc_ok_client_init: "ipc_ok c \<Longrightarrow> ipc_ok (snd (IpcClient_init n os c b))"
  by (auto simp: ipc_ok_def IpcClient_init_def sk_connect_def sk_cleanup_def denied_def Let_def split: if_splits)

text \<open>The interface the daemon reads from: looking at the oldest element and removing it.\<close>

locale readable_channel =
  fixes queue_of :: "'s \<Rightarrow> 'a list" and ok :: "'s \<Rightarrow> bool"
    and peek :: "'s \<Rightarrow> EIpcPeekResult \<times> 'a option" and pop :: "'s \<Rightarrow> bool \<times> 's"
  assumes peek_spec: "ok s \<Longrightarrow>
      peek s = (case queue_of s of [] \<Rightarrow> (Peek_NoDataToRead, None) | e # _ \<Rightarrow> (Peek_Ok, Some e))"
    and pop_spec: "ok s \<Longrightarrow> queue_of s \<noteq> [] \<Longrightarrow>
      fst (pop s) \<and> queue_of (snd (pop s)) = tl (queue_of s) \<and> ok (snd (pop s))"
begin

lemma peek_then_pop:
  "ok s \<Longrightarrow> fst (peek s) = Peek_Ok \<Longrightarrow> fst (pop s) \<and> snd (peek s) = Some (hd (queue_of s))"
  using peek_spec [of s] pop_spec [of s] by (cases "queue_of s") auto

end

definition ipc_queue :: "Ipc \<Rightarrow> 'a RingBuffer \<Rightarrow> 'a list" where
  "ipc_queue c b = (if isInitialized c then rb_queue b else [])"

definition ipc_inv :: "nat \<Rightarrow> Ipc \<Rightarrow> 'a RingBuffer \<Rightarrow> bool" where
  "ipc_inv z c b \<longleftrightarrow> ipc_ok c \<and> rb_inv z b"

lemma rb_empty_queue: "rb_empty b \<longleftrightarrow> rb_queue b = []"
  by (metis length_0_conv length_rb_queue rb_empty_def)

interpretation ch: readable_channel "ipc_queue c" "ipc_inv z c" "ipc_peek z c" "ipc_pop c"
  for c :: Ipc and z :: nat
proof
  fix b :: "'a RingBuffer"
  assume inv: "ipc_inv z c b"
  then have h: "tryPeek z b = (case rb_queue b of [] \<Rightarrow> None | x # _ \<Rightarrow> Some x)"
    by (simp add: ipc_inv_def rb_head)
  show "ipc_peek z c b = (case ipc_queue c b of [] \<Rightarrow> (Peek_NoDataToRead, None) | e # _ \<Rightarrow> (Peek_Ok, Some e))"
    using inv by (auto simp: ipc_peek_def ipc_queue_def sk_tryPeek_def ipc_inv_def ipc_ok_def rb_empty_queue h
        split: list.split)
  assume ne: "ipc_queue c b \<noteq> []"
  then show "fst (ipc_pop c b) \<and> ipc_queue c (snd (ipc_pop c b)) = tl (ipc_queue c b) \<and> ipc_inv z c (snd (ipc_pop c b))"
    using inv by (auto simp: ipc_pop_def ipc_queue_def sk_tryPop_def ipc_inv_def ipc_ok_def tryPop_def rb_empty_queue
        rb_queue_advance rb_inv_advance split: if_splits)
qed


text \<open>
  The initialisation of the daemon's side of a channel succeeds exactly when no object of that
  name exists and opening, sizing and mapping it all succeed. It then yields a usable, empty
  channel whose destruction unmaps the buffer, closes the descriptor and removes the object, in
  this order; on every failure the channel is not usable, no descriptor stays open, nothing is
  mapped and the shared buffer is untouched.
\<close>

theorem ipc_server_init_outcome:
  assumes "IpcServer_init name fd0 os Ipc_new b = (r, c, b')" "b = RingBuffer_new n" "0 < n" "name \<noteq> ''''"
  shows "(r = Init_Ok \<longleftrightarrow> fd0 < 0 \<and> os_fd os \<ge> 0 \<and> \<not> os_ftruncateFails os \<and> \<not> os_mmapFails os) \<and>
    (r = Init_Ok \<longrightarrow> (isInitialized c \<and> ipc_inv z c b' \<and> ipc_queue c b' = [] \<and> \<not> hasOverflow c b' \<and>
      sk_calls (ipc_socket (Ipc_destroy c)) = [Munmap, Close (os_fd os), ShmUnlink (shm_name name)])) \<and>
    (r \<noteq> Init_Ok \<longrightarrow> (\<not> isInitialized c \<and> sk_fd (ipc_socket c) < 0 \<and> \<not> sk_mapped (ipc_socket c) \<and> b' = b))"
proof -
  note defs = IpcServer_init_def sk_create_def sk_cleanup_def denied_def Ipc_new_def Socket_new_def Let_def
  have n: "shm_name name \<noteq> ''''" using assms(4) by (auto simp: shm_name_def split: list.split)
  have i: "r = Init_Ok \<longleftrightarrow> fd0 < 0 \<and> os_fd os \<ge> 0 \<and> \<not> os_ftruncateFails os \<and> \<not> os_mmapFails os"
    using assms(1) by (auto simp: defs split: if_splits)
  have c1: "isInitialized c \<and> ipc_inv z c b' \<and> ipc_queue c b' = [] \<and> \<not> hasOverflow c b' \<and>
      sk_calls (ipc_socket (Ipc_destroy c)) = [Munmap, Close (os_fd os), ShmUnlink (shm_name name)]" if "r = Init_Ok"
  proof -
    have c: "c = \<lparr>ipc_socket = \<lparr>is_server = True, sk_name = shm_name name, sk_fd = os_fd os, sk_mapped = True, sk_calls = []\<rparr>,
        isInitialized = True\<rparr>" "b' = rb_initialize (RingBuffer_new n)"
      using assms(1,2) that i by (auto simp: defs split: if_splits)
    have "\<not> overflow_flag b'" unfolding c(2) by (simp add: rb_initialize_def RingBuffer_new_def)
    then show ?thesis
      using that i n rb_inv_new [OF assms(3), of z]
      by (simp add: c ipc_inv_def ipc_ok_def ipc_queue_def hasOverflow_def sk_getOverflowFlag_def rb_getOverflowFlag_def
          Ipc_destroy_def sk_close_def sk_cleanup_def)
  qed
  have c2: "r \<noteq> Init_Ok \<Longrightarrow> \<not> isInitialized c \<and> sk_fd (ipc_socket c) < 0 \<and> \<not> sk_mapped (ipc_socket c) \<and> b' = b"
    using assms(1) by (auto simp: defs split: if_splits)
  from i c1 c2 show ?thesis by blast
qed

theorem ipc_server_init_outcome_witness:
  "isInitialized (fst (snd (IpcServer_init ''hm'' (- 1)
     \<lparr>os_fd = 3, os_openErrno = EOTHER, os_ftruncateFails = False, os_mmapFails = False, os_errnoAfterCleanup = EOTHER\<rparr>
     Ipc_new (RingBuffer_new 4 :: nat RingBuffer))))"
proof -
  let ?os = "\<lparr>os_fd = 3, os_openErrno = EOTHER, os_ftruncateFails = False, os_mmapFails = False, os_errnoAfterCleanup = EOTHER\<rparr>"
  obtain r c b' where e: "IpcServer_init ''hm'' (- 1) ?os Ipc_new (RingBuffer_new 4 :: nat RingBuffer) = (r, c, b')"
    by (metis prod_cases3)
  show ?thesis
    using ipc_server_init_outcome [OF e refl, where z = 8] by (simp add: e)
qed

text \<open>Sending on an initialised channel is writing to the ring, and the flag is the ring's.\<close>

lemma sendEmplace_eq:
  "ipc_ok c \<Longrightarrow> isInitialized c \<Longrightarrow> sendEmplace z c x b = tryEnqueue z x b"
  by (simp add: sendEmplace_def trySendEmplace_def ipc_ok_def tryEmplace_eq case_prod_beta Let_def prod_eq_iff)

lemma hasOverflow_eq: "ipc_ok c \<Longrightarrow> isInitialized c \<Longrightarrow> hasOverflow c b = overflow_flag b"
  by (simp add: hasOverflow_def sk_getOverflowFlag_def rb_getOverflowFlag_def ipc_ok_def)

lemma overflow_flag_pop: "overflow_flag (snd (ipc_pop c b)) = overflow_flag b"
  by (simp add: ipc_pop_def sk_tryPop_def tryPop_def advanceReadHead_def Let_def)

end
