(* ===== verification/Monitor_Interface.thy ===== *)
theory Monitor_Interface
  imports Ipc_Channel Process_State
begin

section \<open>The monitor interface: checkpoint reports of an application\<close>

text \<open>
  Models \<^verbatim>\<open>saf/ifappl/MonitorIfDaemon.{hpp,cpp}\<close>, the element type of \<^verbatim>\<open>DataStructures.hpp\<close> and
  \<^verbatim>\<open>ReportCheckpoint\<close> of \<^verbatim>\<open>hmlib/MonitorImpl.cpp\<close>: an application writes its checkpoints with their
  time to a channel, the daemon's interface object reads them in every cycle and pushes them to the
  checkpoint objects attached to it.

  The checkpoint objects are a store indexed by their address; \<open>mi_pushed\<close> records every call of
  \<^verbatim>\<open>pushData\<close> as the address and the object handed to the observers, in order. The reading loop is a
  \<open>partial_function\<close>, its termination is part of what is proved.
\<close>

record CheckpointBufferElement =
  cbe_timestamp :: NanoSecondType
  cbe_checkpointId :: u32

definition k_maxCheckpointBufferElements :: nat where
  "k_maxCheckpointBufferElements = 512"

text \<open>Eight bytes of time, four of identifier and four of padding.\<close>

definition sizeof_CBE :: nat where
  "sizeof_CBE = 16"

datatype EInternalState = MI_Active | MI_Inactive | MI_InactiveOverflow

record MonitorIfDaemon =
  mi_status :: EInternalState
  isActivateRequest :: bool
  isDeactivateRequest :: bool
  isProcessRestarted :: bool
  checkpointObservers :: "CheckpointIdentifier list"
  mi_ipcserver :: Ipc
  mi_checkpoints :: "CheckpointIdentifier \<Rightarrow> Checkpoint"
  mi_pushed :: "(CheckpointIdentifier \<times> Checkpoint) list"

type_synonym CpBuffer = "CheckpointBufferElement RingBuffer"

definition MonitorIfDaemon_new :: "Ipc \<Rightarrow> (CheckpointIdentifier \<Rightarrow> Checkpoint) \<Rightarrow> MonitorIfDaemon" where
  "MonitorIfDaemon_new f_ipcServer_r cps =
     \<lparr>mi_status = MI_Inactive, isActivateRequest = False, isDeactivateRequest = False, isProcessRestarted = False,
      checkpointObservers = [], mi_ipcserver = f_ipcServer_r, mi_checkpoints = cps, mi_pushed = []\<rparr>"

definition attachCheckpoint :: "CheckpointIdentifier \<Rightarrow> MonitorIfDaemon \<Rightarrow> MonitorIfDaemon" where
  "attachCheckpoint f_checkpoint_r m = m\<lparr>checkpointObservers := checkpointObservers m @ [f_checkpoint_r]\<rparr>"

definition mi_updateData :: "ProcessState \<Rightarrow> MonitorIfDaemon \<Rightarrow> MonitorIfDaemon" where
  "mi_updateData f_observable_r m =
     (let state = eProcState f_observable_r
      in if state = Starting \<or> state = Running
         then (let m = (if isDeactivateRequest m then m\<lparr>isProcessRestarted := True\<rparr> else m)
               in m\<lparr>isActivateRequest := True, isDeactivateRequest := False\<rparr>)
         else if state = Off then m\<lparr>isDeactivateRequest := True\<rparr>
         else m)"

text \<open>\<^verbatim>\<open>Checkpoint::pushData\<close> on the object at an address.\<close>

definition mi_pushData :: "CheckpointIdentifier \<Rightarrow> NanoSecondType \<Rightarrow> MonitorIfDaemon \<Rightarrow> MonitorIfDaemon" where
  "mi_pushData observer t m =
     (let c = Checkpoint_pushData t (mi_checkpoints m observer)
      in m\<lparr>mi_checkpoints := (mi_checkpoints m)(observer := c), mi_pushed := mi_pushed m @ [(observer, c)]\<rparr>)"

definition pushCheckpointToObservers :: "CheckpointBufferElement \<Rightarrow> MonitorIfDaemon \<Rightarrow> MonitorIfDaemon" where
  "pushCheckpointToObservers f_elem_r m =
     fold (\<lambda>observer m. if cbe_checkpointId f_elem_r = cp_checkpointId (mi_checkpoints m observer)
                        then mi_pushData observer (cbe_timestamp f_elem_r) m else m)
       (checkpointObservers m) m"

definition mi_pushOverflow :: "CheckpointIdentifier \<Rightarrow> MonitorIfDaemon \<Rightarrow> MonitorIfDaemon" where
  "mi_pushOverflow observer m = mi_pushData observer 0
     (m\<lparr>mi_checkpoints := (mi_checkpoints m)(observer := setDataLossEvent True (mi_checkpoints m observer))\<rparr>)"

definition pushOverflowInfoToCheckpointObservers :: "MonitorIfDaemon \<Rightarrow> MonitorIfDaemon" where
  "pushOverflowInfoToCheckpointObservers m = fold mi_pushOverflow (checkpointObservers m) m"

definition handleOverflow :: "MonitorIfDaemon \<Rightarrow> MonitorIfDaemon" where
  "handleOverflow m = (pushOverflowInfoToCheckpointObservers m)\<lparr>mi_status := MI_InactiveOverflow\<rparr>"

text \<open>The do-while loop: the result is \<^verbatim>\<open>success\<close>, the interface and the buffer.\<close>

partial_function (option) pushNewDataToCheckpointObservers ::
  "NanoSecondType \<Rightarrow> MonitorIfDaemon \<Rightarrow> CpBuffer \<Rightarrow> (bool \<times> MonitorIfDaemon \<times> CpBuffer) option"
where
  "pushNewDataToCheckpointObservers f_syncTimestamp m b =
     (case ipc_peek sizeof_CBE (mi_ipcserver m) b of
        (Peek_Ok, Some elem_p) \<Rightarrow>
          (if cbe_timestamp elem_p \<le> f_syncTimestamp
           then (let m = pushCheckpointToObservers elem_p m;
                     (popped, b) = ipc_pop (mi_ipcserver m) b
                 in if popped then pushNewDataToCheckpointObservers f_syncTimestamp m b
                    else Some (False, m, b))
           else Some (True, m, b))
      | (Peek_Ok, None) \<Rightarrow> None
      | (Peek_NoDataToRead, _) \<Rightarrow> Some (True, m, b)
      | (Peek_IpcError, _) \<Rightarrow> Some (False, m, b))"

definition checkForNewData ::
  "NanoSecondType \<Rightarrow> MonitorIfDaemon \<Rightarrow> CpBuffer \<Rightarrow> (MonitorIfDaemon \<times> CpBuffer) option"
where
  "checkForNewData f_syncTimestamp m b =
     (let m = (if isActivateRequest m \<and> mi_status m = MI_Inactive then m\<lparr>mi_status := MI_Active\<rparr> else m)
      in case mi_status m of
           MI_Active \<Rightarrow>
             (if hasOverflow (mi_ipcserver m) b then Some (handleOverflow m, b)
              else do {
                (readingFromIpcSuccessful, m, b) \<leftarrow> pushNewDataToCheckpointObservers f_syncTimestamp m b;
                Some (if \<not> readingFromIpcSuccessful then handleOverflow m
                      else if isDeactivateRequest m
                      then m\<lparr>mi_status := MI_Inactive, isActivateRequest := False, isDeactivateRequest := False\<rparr>
                      else m, b)
              })
         | MI_InactiveOverflow \<Rightarrow>
             Some (if isProcessRestarted m
                   then pushOverflowInfoToCheckpointObservers (m\<lparr>isProcessRestarted := False\<rparr>)
                   else m, b)
         | MI_Inactive \<Rightarrow> Some (m, b))"

text \<open>The application's side; the clock reading is an argument and the result of sending is ignored.\<close>

definition ReportCheckpoint :: "Ipc \<Rightarrow> NanoSecondType \<Rightarrow> u32 \<Rightarrow> CpBuffer \<Rightarrow> CpBuffer" where
  "ReportCheckpoint ipcClient clock f_checkpointId b =
     snd (sendEmplace sizeof_CBE ipcClient \<lparr>cbe_timestamp = clock, cbe_checkpointId = f_checkpointId\<rparr> b)"

subsection \<open>Pushing to the observers\<close>

text \<open>The deliveries a run of elements causes: each to the observers of its identifier, in order.\<close>

definition deliveries ::
  "(CheckpointIdentifier \<Rightarrow> u32) \<Rightarrow> CheckpointIdentifier list \<Rightarrow> CheckpointBufferElement list \<Rightarrow>
   (CheckpointIdentifier \<times> NanoSecondType) list"
where
  "deliveries ids obs es =
     concat (map (\<lambda>e. map (\<lambda>ob. (ob, cbe_timestamp e)) (filter (\<lambda>ob. ids ob = cbe_checkpointId e) obs)) es)"

definition mi_ids :: "MonitorIfDaemon \<Rightarrow> CheckpointIdentifier \<Rightarrow> u32" where
  "mi_ids m ob = cp_checkpointId (mi_checkpoints m ob)"

definition mi_times :: "MonitorIfDaemon \<Rightarrow> (CheckpointIdentifier \<times> NanoSecondType) list" where
  "mi_times m = map (\<lambda>(ob, c). (ob, cp_timestamp c)) (mi_pushed m)"

text \<open>Which fields the pushes leave alone.\<close>

definition mi_same :: "MonitorIfDaemon \<Rightarrow> MonitorIfDaemon \<Rightarrow> bool" where
  "mi_same m m' \<longleftrightarrow> mi_status m' = mi_status m \<and> isActivateRequest m' = isActivateRequest m \<and>
     isDeactivateRequest m' = isDeactivateRequest m \<and> isProcessRestarted m' = isProcessRestarted m \<and>
     checkpointObservers m' = checkpointObservers m \<and> mi_ipcserver m' = mi_ipcserver m \<and> mi_ids m' = mi_ids m"

lemma mi_same_refl [simp]: "mi_same m m"
  by (simp add: mi_same_def)

lemma mi_same_trans: "mi_same a b \<Longrightarrow> mi_same b c \<Longrightarrow> mi_same a c"
  by (simp add: mi_same_def)

lemma mi_pushData_same [simp]: "mi_same m (mi_pushData ob t m)"
  by (auto simp: mi_same_def mi_pushData_def mi_ids_def Let_def Checkpoint_pushData_def setDataLossEvent_def)

lemma mi_pushData_times [simp]: "mi_times (mi_pushData ob t m) = mi_times m @ [(ob, t)]"
  by (simp add: mi_times_def mi_pushData_def Let_def Checkpoint_pushData_def setDataLossEvent_def)

lemma push_fold:
  "let m' = fold (\<lambda>ob m. if i = cp_checkpointId (mi_checkpoints m ob) then mi_pushData ob t m else m) obs m
   in mi_same m m' \<and> mi_times m' = mi_times m @ map (\<lambda>ob. (ob, t)) (filter (\<lambda>ob. mi_ids m ob = i) obs)"
proof (induction obs arbitrary: m)
  case (Cons ob obs)
  let ?m = "if i = cp_checkpointId (mi_checkpoints m ob) then mi_pushData ob t m else m"
  have s: "mi_same m ?m" by simp
  then have "mi_ids ?m = mi_ids m" by (simp add: mi_same_def)
  then show ?case
    using Cons.IH [of ?m] mi_same_trans [OF s] by (auto simp: Let_def mi_ids_def)
qed simp

lemma pushCheckpointToObservers_spec:
  "mi_same m (pushCheckpointToObservers e m)"
  "mi_times (pushCheckpointToObservers e m) = mi_times m @ deliveries (mi_ids m) (checkpointObservers m) [e]"
  using push_fold [of "cbe_checkpointId e" "cbe_timestamp e" "checkpointObservers m" m]
  by (simp_all add: pushCheckpointToObservers_def Let_def deliveries_def)

text \<open>A data loss is pushed once to every observer, in order.\<close>

definition loss_pushes :: "CheckpointIdentifier list \<Rightarrow> (CheckpointIdentifier \<times> Checkpoint) list \<Rightarrow> bool" where
  "loss_pushes obs ps \<longleftrightarrow> map fst ps = obs \<and> (\<forall>p \<in> set ps. cp_isDataLossEvent (snd p) \<and> cp_timestamp (snd p) = 0)"

lemma overflow_fold:
  "mi_same m (fold mi_pushOverflow obs m) \<and>
   (\<exists>ps. mi_pushed (fold mi_pushOverflow obs m) = mi_pushed m @ ps \<and> loss_pushes obs ps)"
proof (induction obs arbitrary: m)
  case (Cons ob obs)
  let ?m = "mi_pushOverflow ob m"
  have s: "mi_same m ?m"
    by (auto simp: mi_same_def mi_pushOverflow_def mi_pushData_def mi_ids_def Let_def Checkpoint_pushData_def setDataLossEvent_def)
  have p: "\<exists>c. mi_pushed ?m = mi_pushed m @ [(ob, c)] \<and> cp_isDataLossEvent c \<and> cp_timestamp c = 0"
    by (simp add: mi_pushOverflow_def mi_pushData_def Let_def Checkpoint_pushData_def setDataLossEvent_def)
  show ?case
    using mi_same_trans [OF s] p Cons.IH [of ?m] by (force simp: loss_pushes_def)
qed (simp add: loss_pushes_def)

lemma pushOverflowInfo_spec:
  "mi_same m (pushOverflowInfoToCheckpointObservers m)"
  "\<exists>ps. mi_pushed (pushOverflowInfoToCheckpointObservers m) = mi_pushed m @ ps \<and> loss_pushes (checkpointObservers m) ps"
  using overflow_fold [of m "checkpointObservers m"] by (simp_all add: pushOverflowInfoToCheckpointObservers_def)

subsection \<open>Reading the channel\<close>

lemma deliveries_Cons: "deliveries ids obs (e # es) = deliveries ids obs [e] @ deliveries ids obs es"
  by (simp add: deliveries_def)

lemma deliveries_append: "deliveries ids obs (es @ fs) = deliveries ids obs es @ deliveries ids obs fs"
  by (simp add: deliveries_def)

text \<open>The loop ends, removes the elements up to the first one of a later cycle and delivers them.\<close>

lemma reading_loop:
  assumes "ipc_inv sizeof_CBE (mi_ipcserver m) b" "ipc_queue (mi_ipcserver m) b = q"
  shows "\<exists>m' b'. pushNewDataToCheckpointObservers t m b = Some (True, m', b') \<and> mi_same m m' \<and>
    ipc_inv sizeof_CBE (mi_ipcserver m) b' \<and> overflow_flag b' = overflow_flag b \<and>
    ipc_queue (mi_ipcserver m) b' = dropWhile (\<lambda>e. cbe_timestamp e \<le> t) q \<and>
    mi_times m' = mi_times m @ deliveries (mi_ids m) (checkpointObservers m) (takeWhile (\<lambda>e. cbe_timestamp e \<le> t) q)"
  using assms
proof (induction q arbitrary: m b)
  case Nil
  then have "ipc_peek sizeof_CBE (mi_ipcserver m) b = (Peek_NoDataToRead, None)"
    using ch.peek_spec [OF Nil(1)] by simp
  then show ?case
    using Nil by (subst pushNewDataToCheckpointObservers.simps) (simp add: deliveries_def)
next
  case (Cons e q)
  have pk: "ipc_peek sizeof_CBE (mi_ipcserver m) b = (Peek_Ok, Some e)"
    using ch.peek_spec [OF Cons.prems(1)] Cons.prems(2) by simp
  show ?case
  proof (cases "cbe_timestamp e \<le> t")
    case False
    then show ?thesis
      using Cons.prems pk by (subst pushNewDataToCheckpointObservers.simps) (simp add: deliveries_def)
  next
    case True
    let ?m = "pushCheckpointToObservers e m" and ?b = "snd (ipc_pop (mi_ipcserver m) b)"
    have s: "mi_ipcserver ?m = mi_ipcserver m" "mi_ids ?m = mi_ids m" "checkpointObservers ?m = checkpointObservers m"
      using pushCheckpointToObservers_spec(1) [of m e] by (simp_all add: mi_same_def)
    have pop: "fst (ipc_pop (mi_ipcserver m) b)" "ipc_queue (mi_ipcserver m) ?b = q"
      "ipc_inv sizeof_CBE (mi_ipcserver m) ?b"
      using ch.pop_spec [OF Cons.prems(1)] Cons.prems(2) by simp_all
    have "pushNewDataToCheckpointObservers t m b = pushNewDataToCheckpointObservers t ?m ?b"
      using True pk pop(1) s(1) by (subst pushNewDataToCheckpointObservers.simps) (simp add: case_prod_beta)
    moreover obtain m' b' where r: "pushNewDataToCheckpointObservers t ?m ?b = Some (True, m', b')" "mi_same ?m m'"
        "ipc_inv sizeof_CBE (mi_ipcserver m) b'" "overflow_flag b' = overflow_flag ?b"
        "ipc_queue (mi_ipcserver m) b' = dropWhile (\<lambda>e. cbe_timestamp e \<le> t) q"
        "mi_times m' = mi_times ?m @ deliveries (mi_ids m) (checkpointObservers m) (takeWhile (\<lambda>e. cbe_timestamp e \<le> t) q)"
      using Cons.IH [of ?m ?b] pop(2,3) unfolding s by blast
    ultimately show ?thesis
      using True mi_same_trans [OF pushCheckpointToObservers_spec(1) r(2)]
      by (intro exI [of _ m'] exI [of _ b'])
        (simp add: overflow_flag_pop pushCheckpointToObservers_spec(2) deliveries_Cons [of _ _ e "takeWhile _ q"])
  qed
qed

subsection \<open>Cycles of the interface\<close>

text \<open>What a cycle treats as active: the activation request is taken over before anything is read.\<close>

definition mi_reads :: "MonitorIfDaemon \<Rightarrow> bool" where
  "mi_reads m \<longleftrightarrow> mi_status m = MI_Active \<or> mi_status m = MI_Inactive \<and> isActivateRequest m"

definition mi_after_read :: "MonitorIfDaemon \<Rightarrow> MonitorIfDaemon" where
  "mi_after_read m = (if isDeactivateRequest m
     then m\<lparr>mi_status := MI_Inactive, isActivateRequest := False, isDeactivateRequest := False\<rparr> else m)"

lemma checkForNewData_reads:
  "mi_reads m \<Longrightarrow> checkForNewData t m b =
     (if hasOverflow (mi_ipcserver m) b then Some (handleOverflow (m\<lparr>mi_status := MI_Active\<rparr>), b)
      else map_option (\<lambda>(r, m, b). (if r then mi_after_read m else handleOverflow m, b))
             (pushNewDataToCheckpointObservers t (m\<lparr>mi_status := MI_Active\<rparr>) b))"
proof -
  assume "mi_reads m"
  then have e: "(if isActivateRequest m \<and> mi_status m = MI_Inactive then m\<lparr>mi_status := MI_Active\<rparr> else m) = m\<lparr>mi_status := MI_Active\<rparr>"
    by (cases m) (auto simp: mi_reads_def)
  show ?thesis
    unfolding checkForNewData_def e
    by (cases "pushNewDataToCheckpointObservers t (m\<lparr>mi_status := MI_Active\<rparr>) b")
      (auto simp: mi_after_read_def)
qed

lemma checkForNewData_idle:
  "\<not> mi_reads m \<Longrightarrow> checkForNewData t m b =
     Some (if mi_status m = MI_InactiveOverflow \<and> isProcessRestarted m
           then pushOverflowInfoToCheckpointObservers (m\<lparr>isProcessRestarted := False\<rparr>) else m, b)"
  by (cases "mi_status m") (auto simp: checkForNewData_def mi_reads_def Let_def)

lemma mi_times_status [simp]:
  "mi_times (m\<lparr>mi_status := x\<rparr>) = mi_times m" "mi_ids (m\<lparr>mi_status := x\<rparr>) = mi_ids m"
  "mi_times (mi_after_read m) = mi_times m" "mi_ids (mi_after_read m) = mi_ids m"
  "mi_times (mi_updateData p m) = mi_times m" "mi_ids (mi_updateData p m) = mi_ids m"
  by (auto simp: mi_times_def mi_ids_def mi_after_read_def mi_updateData_def Let_def fun_eq_iff)

lemma mi_after_read_frame [simp]:
  "checkpointObservers (mi_after_read m) = checkpointObservers m" "mi_ipcserver (mi_after_read m) = mi_ipcserver m"
  "mi_status (mi_after_read m) = (if isDeactivateRequest m then MI_Inactive else mi_status m)"
  by (simp_all add: mi_after_read_def)

lemma handleOverflow_spec:
  "mi_status (handleOverflow m) = MI_InactiveOverflow" "checkpointObservers (handleOverflow m) = checkpointObservers m"
  "mi_ipcserver (handleOverflow m) = mi_ipcserver m" "mi_ids (handleOverflow m) = mi_ids m"
  "\<exists>ps. mi_pushed (handleOverflow m) = mi_pushed m @ ps \<and> loss_pushes (checkpointObservers m) ps"
  using pushOverflowInfo_spec [of m] by (simp_all add: handleOverflow_def mi_same_def mi_ids_def fun_eq_iff)

lemma checkForNewData_exact:
  assumes r: "mi_reads m" and inv: "ipc_inv sizeof_CBE (mi_ipcserver m) b" and i: "isInitialized (mi_ipcserver m)"
    and no: "\<not> overflow_flag b"
  shows "\<exists>m' b'. checkForNewData t m b = Some (m', b') \<and> \<not> overflow_flag b' \<and> ipc_inv sizeof_CBE (mi_ipcserver m) b' \<and>
    rb_queue b' = dropWhile (\<lambda>e. cbe_timestamp e \<le> t) (rb_queue b) \<and>
    mi_times m' = mi_times m @ deliveries (mi_ids m) (checkpointObservers m) (takeWhile (\<lambda>e. cbe_timestamp e \<le> t) (rb_queue b)) \<and>
    mi_status m' = (if isDeactivateRequest m then MI_Inactive else MI_Active) \<and>
    checkpointObservers m' = checkpointObservers m \<and> mi_ipcserver m' = mi_ipcserver m \<and> mi_ids m' = mi_ids m"
proof -
  let ?m = "m\<lparr>mi_status := MI_Active\<rparr>"
  have "ipc_queue (mi_ipcserver ?m) b = rb_queue b" using i by (simp add: ipc_queue_def)
  with inv obtain m' b' where l: "pushNewDataToCheckpointObservers t ?m b = Some (True, m', b')" "mi_same ?m m'"
      "ipc_inv sizeof_CBE (mi_ipcserver m) b'" "overflow_flag b' = overflow_flag b"
      "ipc_queue (mi_ipcserver m) b' = dropWhile (\<lambda>e. cbe_timestamp e \<le> t) (rb_queue b)"
      "mi_times m' = mi_times m @ deliveries (mi_ids m) (checkpointObservers m) (takeWhile (\<lambda>e. cbe_timestamp e \<le> t) (rb_queue b))"
    using reading_loop [of ?m b "rb_queue b" t] by auto
  have "\<not> hasOverflow (mi_ipcserver m) b" using inv i no by (simp add: hasOverflow_eq ipc_inv_def)
  then have "checkForNewData t m b = Some (mi_after_read m', b')"
    using l(1) by (simp add: checkForNewData_reads [OF r])
  then show ?thesis
    using l no i by (auto simp: mi_same_def ipc_queue_def)
qed

text \<open>
  A cycle of an active monitor interface without overflow returns, and reads exactly the
  reports up to the first one made after the cycle's time: each of them is handed, in the order of
  the reports and with its time, to every checkpoint attached under its identifier, all later
  reports stay in the channel for the next cycle, and nothing else is pushed. The interface becomes
  inactive afterwards exactly when the process was reported off.
\<close>

theorem monitor_cycle_exact:
  assumes "mi_reads m" "ipc_inv sizeof_CBE (mi_ipcserver m) b" "isInitialized (mi_ipcserver m)" "\<not> overflow_flag b"
  shows "\<exists>m' b'. checkForNewData t m b = Some (m', b') \<and>
    rb_queue b = takeWhile (\<lambda>e. cbe_timestamp e \<le> t) (rb_queue b) @ rb_queue b' \<and>
    mi_times m' = mi_times m @ deliveries (mi_ids m) (checkpointObservers m) (takeWhile (\<lambda>e. cbe_timestamp e \<le> t) (rb_queue b)) \<and>
    mi_status m' = (if isDeactivateRequest m then MI_Inactive else MI_Active)"
proof -
  obtain m' b' where "checkForNewData t m b = Some (m', b')"
    "rb_queue b' = dropWhile (\<lambda>e. cbe_timestamp e \<le> t) (rb_queue b)"
    "mi_times m' = mi_times m @ deliveries (mi_ids m) (checkpointObservers m) (takeWhile (\<lambda>e. cbe_timestamp e \<le> t) (rb_queue b))"
    "mi_status m' = (if isDeactivateRequest m then MI_Inactive else MI_Active)"
    using checkForNewData_exact [OF assms] by blast
  then show ?thesis by (intro exI [of _ m'] exI [of _ b']) simp
qed

definition ipc_example :: Ipc where
  "ipc_example = \<lparr>ipc_socket = \<lparr>is_server = True, sk_name = ''/hm'', sk_fd = 3, sk_mapped = True, sk_calls = []\<rparr>,
     isInitialized = True\<rparr>"

definition mi_example :: MonitorIfDaemon where
  "mi_example = attachCheckpoint 11 (attachCheckpoint 10
     ((MonitorIfDaemon_new ipc_example (\<lambda>a. Checkpoint_new ''cp'' (if a = 10 then 1 else 2) 0))\<lparr>isActivateRequest := True\<rparr>))"

definition mi_example_buffer :: CpBuffer where
  "mi_example_buffer = ReportCheckpoint ipc_example 9 1 (ReportCheckpoint ipc_example 5 2 (ReportCheckpoint ipc_example 4 1
     (rb_initialize (RingBuffer_new k_maxCheckpointBufferElements))))"

lemma ipc_example_ok: "ipc_ok ipc_example" "isInitialized ipc_example"
  by (simp_all add: ipc_example_def ipc_ok_def)

lemma report_example:
  "ReportCheckpoint ipc_example t i b = snd (tryEnqueue sizeof_CBE \<lparr>cbe_timestamp = t, cbe_checkpointId = i\<rparr> b)"
  using ipc_example_ok by (simp add: ReportCheckpoint_def sendEmplace_eq)

lemma report_in_room:
  assumes "rb_inv sizeof_CBE b" "rb_capacity b = 512" "length (rb_queue b) < 512" "\<not> overflow_flag b"
  shows "rb_inv sizeof_CBE (ReportCheckpoint ipc_example t i b)" "rb_capacity (ReportCheckpoint ipc_example t i b) = 512"
    "rb_queue (ReportCheckpoint ipc_example t i b) = rb_queue b @ [\<lparr>cbe_timestamp = t, cbe_checkpointId = i\<rparr>]"
    "\<not> overflow_flag (ReportCheckpoint ipc_example t i b)"
  using assms rb.enq_stored [OF assms(1)] rb.enq_queue [OF assms(1)] rb.enq_keeps [OF assms(1)]
  by (simp_all add: report_example overflow_flag_ops)

lemma mi_example_buffer_props:
  "rb_inv sizeof_CBE mi_example_buffer" "\<not> overflow_flag mi_example_buffer"
  "rb_queue mi_example_buffer = [\<lparr>cbe_timestamp = 4, cbe_checkpointId = 1\<rparr>, \<lparr>cbe_timestamp = 5, cbe_checkpointId = 2\<rparr>,
     \<lparr>cbe_timestamp = 9, cbe_checkpointId = 1\<rparr>]"
proof -
  let ?b0 = "rb_initialize (RingBuffer_new k_maxCheckpointBufferElements) :: CpBuffer"
  let ?b1 = "ReportCheckpoint ipc_example 4 1 ?b0" let ?b2 = "ReportCheckpoint ipc_example 5 2 ?b1"
  have b0: "rb_inv sizeof_CBE ?b0" "rb_capacity ?b0 = 512" "rb_queue ?b0 = []" "\<not> overflow_flag ?b0"
    by (simp_all add: rb_inv_new k_maxCheckpointBufferElements_def, simp add: rb_initialize_def RingBuffer_new_def)
  note b1 = report_in_room [OF b0(1,2) _ b0(4), of 4 1, unfolded b0(3), simplified]
  note b2 = report_in_room [OF b1(1,2) _ b1(4), of 5 2, unfolded b1(3), simplified]
  note b3 = report_in_room [OF b2(1,2) _ b2(4), of 9 1, unfolded b2(3), simplified]
  show "rb_inv sizeof_CBE mi_example_buffer" "\<not> overflow_flag mi_example_buffer"
    "rb_queue mi_example_buffer = [\<lparr>cbe_timestamp = 4, cbe_checkpointId = 1\<rparr>, \<lparr>cbe_timestamp = 5, cbe_checkpointId = 2\<rparr>,
     \<lparr>cbe_timestamp = 9, cbe_checkpointId = 1\<rparr>]"
    using b3 by (simp_all add: mi_example_buffer_def)
qed

lemma mi_example_fields:
  "mi_reads mi_example" "mi_ipcserver mi_example = ipc_example" "checkpointObservers mi_example = [10, 11]"
  "mi_ids mi_example = (\<lambda>a. if a = 10 then 1 else 2)" "mi_times mi_example = []" "mi_status mi_example = MI_Inactive"
  "mi_pushed mi_example = []"
  by (simp_all add: mi_example_def attachCheckpoint_def MonitorIfDaemon_new_def mi_reads_def mi_ids_def mi_times_def
      Checkpoint_new_def fun_eq_iff)

theorem monitor_cycle_exact_witness:
  "\<exists>m' b'. checkForNewData 7 mi_example mi_example_buffer = Some (m', b') \<and> mi_times m' = [(10, 4), (11, 5)] \<and>
     rb_queue b' = [\<lparr>cbe_timestamp = 9, cbe_checkpointId = 1\<rparr>]"
proof -
  have "ipc_inv sizeof_CBE (mi_ipcserver mi_example) mi_example_buffer" "isInitialized (mi_ipcserver mi_example)"
    using ipc_example_ok mi_example_buffer_props(1) by (simp_all add: ipc_inv_def mi_example_fields(2))
  from monitor_cycle_exact [OF mi_example_fields(1) this mi_example_buffer_props(2), of 7]
  show ?thesis
    by (auto simp: mi_example_buffer_props(3) mi_example_fields deliveries_def)
qed

subsection \<open>Nothing is lost silently\<close>

datatype mi_event = MI_report NanoSecondType u32 | MI_cycle NanoSecondType | MI_process ProcessState

fun mi_step :: "Ipc \<Rightarrow> mi_event \<Rightarrow> MonitorIfDaemon \<times> CpBuffer \<Rightarrow> (MonitorIfDaemon \<times> CpBuffer) option" where
  "mi_step client (MI_report t i) (m, b) = Some (m, ReportCheckpoint client t i b)"
| "mi_step client (MI_cycle t) (m, b) = checkForNewData t m b"
| "mi_step client (MI_process p) (m, b) = Some (mi_updateData p m, b)"

fun mi_run :: "Ipc \<Rightarrow> mi_event list \<Rightarrow> MonitorIfDaemon \<times> CpBuffer \<Rightarrow> (MonitorIfDaemon \<times> CpBuffer) option" where
  "mi_run client [] s = Some s"
| "mi_run client (e # es) s = do { s \<leftarrow> mi_step client e s; mi_run client es s }"

fun reported :: "mi_event list \<Rightarrow> CheckpointBufferElement list" where
  "reported [] = []"
| "reported (MI_report t i # es) = \<lparr>cbe_timestamp = t, cbe_checkpointId = i\<rparr> # reported es"
| "reported (_ # es) = reported es"

definition mi_inv ::
  "(CheckpointIdentifier \<Rightarrow> u32) \<Rightarrow> CheckpointIdentifier list \<Rightarrow> CheckpointBufferElement list \<Rightarrow> MonitorIfDaemon \<times> CpBuffer \<Rightarrow> bool"
where
  "mi_inv ids obs sent s \<longleftrightarrow> (case s of (m, b) \<Rightarrow>
     ipc_inv sizeof_CBE (mi_ipcserver m) b \<and> isInitialized (mi_ipcserver m) \<and> mi_ids m = ids \<and>
     checkpointObservers m = obs \<and>
     (\<not> overflow_flag b \<longrightarrow> mi_status m \<noteq> MI_InactiveOverflow \<and>
        (\<exists>got. sent = got @ rb_queue b \<and> mi_times m = deliveries ids obs got)))"

lemma mi_updateData_frame [simp]:
  "mi_status (mi_updateData p m) = mi_status m" "checkpointObservers (mi_updateData p m) = checkpointObservers m"
  "mi_ipcserver (mi_updateData p m) = mi_ipcserver m"
  by (simp_all add: mi_updateData_def Let_def)

lemma mi_inv_report:
  assumes "mi_inv ids obs sent (m, b)" "ipc_ok client" "isInitialized client"
  shows "mi_inv ids obs (sent @ [\<lparr>cbe_timestamp = t, cbe_checkpointId = i\<rparr>]) (m, ReportCheckpoint client t i b)"
proof -
  let ?e = "\<lparr>cbe_timestamp = t, cbe_checkpointId = i\<rparr>"
  have ok: "rb_inv sizeof_CBE b" using assms(1) by (simp add: mi_inv_def ipc_inv_def)
  have r: "ReportCheckpoint client t i b = snd (tryEnqueue sizeof_CBE ?e b)"
    using assms(2,3) by (simp add: ReportCheckpoint_def sendEmplace_eq)
  show ?thesis
    using assms(1) rb.enq_queue [OF ok, of ?e] rb.enq_keeps [OF ok, of ?e] overflow_flag_ops(1) [of sizeof_CBE ?e b]
    unfolding r by (auto simp: mi_inv_def ipc_inv_def)
qed

lemma mi_inv_cycle:
  assumes inv: "mi_inv ids obs sent (m, b)"
  shows "\<exists>m' b'. checkForNewData t m b = Some (m', b') \<and> mi_inv ids obs sent (m', b')"
proof (cases "mi_reads m")
  case True
  show ?thesis
  proof (cases "overflow_flag b")
    case True
    then have "checkForNewData t m b = Some (handleOverflow (m\<lparr>mi_status := MI_Active\<rparr>), b)"
      using inv \<open>mi_reads m\<close> by (simp add: checkForNewData_reads mi_inv_def hasOverflow_eq ipc_inv_def)
    then show ?thesis using inv True by (simp add: mi_inv_def handleOverflow_spec)
  next
    case False
    obtain got where got: "sent = got @ rb_queue b" "mi_times m = deliveries ids obs got"
      using inv False by (auto simp: mi_inv_def)
    obtain m' b' where c: "checkForNewData t m b = Some (m', b')" "\<not> overflow_flag b'" "ipc_inv sizeof_CBE (mi_ipcserver m) b'"
      "rb_queue b' = dropWhile (\<lambda>e. cbe_timestamp e \<le> t) (rb_queue b)"
      "mi_times m' = mi_times m @ deliveries ids obs (takeWhile (\<lambda>e. cbe_timestamp e \<le> t) (rb_queue b))"
      "mi_status m' = (if isDeactivateRequest m then MI_Inactive else MI_Active)"
      "checkpointObservers m' = obs" "mi_ipcserver m' = mi_ipcserver m" "mi_ids m' = ids"
      using checkForNewData_exact [OF True _ _ False, of t] inv by (auto simp: mi_inv_def)
    have "\<exists>got. sent = got @ rb_queue b' \<and> mi_times m' = deliveries ids obs got"
      using got c(4,5)
      by (intro exI [of _ "got @ takeWhile (\<lambda>e. cbe_timestamp e \<le> t) (rb_queue b)"]) (simp add: deliveries_append)
    moreover have "isInitialized (mi_ipcserver m)" using inv by (simp add: mi_inv_def)
    ultimately have "mi_inv ids obs sent (m', b')"
      using c(2,3,6-9) by (simp add: mi_inv_def)
    then show ?thesis using c(1) by blast
  qed
next
  case False
  have "mi_inv ids obs sent (pushOverflowInfoToCheckpointObservers (m\<lparr>isProcessRestarted := False\<rparr>), b)"
    if "mi_status m = MI_InactiveOverflow"
    using inv that pushOverflowInfo_spec(1) [of "m\<lparr>isProcessRestarted := False\<rparr>"]
    by (auto simp: mi_inv_def mi_same_def mi_ids_def fun_eq_iff)
  then show ?thesis using inv by (simp add: checkForNewData_idle [OF False])
qed

lemma mi_inv_process: "mi_inv ids obs sent (m, b) \<Longrightarrow> mi_inv ids obs sent (mi_updateData p m, b)"
  by (simp add: mi_inv_def)

lemma mi_run_inv:
  assumes "mi_inv ids obs sent s" "ipc_ok client" "isInitialized client"
  shows "\<exists>s'. mi_run client es s = Some s' \<and> mi_inv ids obs (sent @ reported es) s'"
  using assms(1)
proof (induction es arbitrary: s sent)
  case (Cons e es)
  obtain m b where s: "s = (m, b)" by fastforce
  show ?case
  proof (cases e)
    case (MI_report t i)
    then show ?thesis
      using Cons.IH [OF mi_inv_report [OF Cons.prems [unfolded s] assms(2,3), of t i]] s by simp
  next
    case (MI_cycle t)
    then show ?thesis
      using Cons.IH mi_inv_cycle [OF Cons.prems [unfolded s], of t] s by auto
  next
    case (MI_process p)
    then show ?thesis
      using Cons.IH [OF mi_inv_process [OF Cons.prems [unfolded s], of p]] s by simp
  qed
qed simp

text \<open>
  (C35) No checkpoint report is lost silently. Start with a fresh channel that application and
  daemon have initialised, and interleave reports, cycles of the daemon and process state changes in
  any way. The daemon's operations all return; as long as the overflow flag of the channel is clear,
  the reports made are exactly the ones delivered to the attached checkpoints, in order, followed by
  the ones still in the channel. Once it is set, the next cycle of an interface whose process is
  active pushes a data loss to every attached checkpoint and puts the interface out of service.
\<close>

theorem monitor_no_silent_loss:
  assumes "ipc_ok (mi_ipcserver m0)" "isInitialized (mi_ipcserver m0)" "ipc_ok client" "isInitialized client"
    and "mi_status m0 \<noteq> MI_InactiveOverflow" "mi_pushed m0 = []"
  shows "\<exists>m b. mi_run client es (m0, rb_initialize (RingBuffer_new k_maxCheckpointBufferElements)) = Some (m, b) \<and>
    (\<not> overflow_flag b \<longrightarrow>
       (\<exists>got. reported es = got @ rb_queue b \<and> mi_times m = deliveries (mi_ids m0) (checkpointObservers m0) got)) \<and>
    (overflow_flag b \<longrightarrow> mi_reads m \<longrightarrow>
       (\<forall>t. \<exists>m' ps. checkForNewData t m b = Some (m', b) \<and> mi_status m' = MI_InactiveOverflow \<and>
          mi_pushed m' = mi_pushed m @ ps \<and> loss_pushes (checkpointObservers m0) ps))"
proof -
  let ?b = "rb_initialize (RingBuffer_new k_maxCheckpointBufferElements) :: CpBuffer"
  have "mi_inv (mi_ids m0) (checkpointObservers m0) [] (m0, ?b)"
    using assms by (auto simp: mi_inv_def ipc_inv_def rb_inv_new k_maxCheckpointBufferElements_def deliveries_def mi_times_def)
  from mi_run_inv [OF this assms(3,4), of es] obtain m b
    where r: "mi_run client es (m0, ?b) = Some (m, b)" "mi_inv (mi_ids m0) (checkpointObservers m0) (reported es) (m, b)"
    by auto
  have "\<exists>m' ps. checkForNewData t m b = Some (m', b) \<and> mi_status m' = MI_InactiveOverflow \<and>
          mi_pushed m' = mi_pushed m @ ps \<and> loss_pushes (checkpointObservers m0) ps"
    if "overflow_flag b" "mi_reads m" for t
  proof -
    have "checkForNewData t m b = Some (handleOverflow (m\<lparr>mi_status := MI_Active\<rparr>), b)"
      using that r(2) by (simp add: checkForNewData_reads mi_inv_def hasOverflow_eq ipc_inv_def)
    moreover have "checkpointObservers m = checkpointObservers m0" using r(2) by (simp add: mi_inv_def)
    ultimately show ?thesis using handleOverflow_spec [of "m\<lparr>mi_status := MI_Active\<rparr>"] by auto
  qed
  then show ?thesis
    using r by (intro exI [of _ m] exI [of _ b]) (simp add: mi_inv_def)
qed

theorem monitor_no_silent_loss_witness:
  "\<exists>m b. mi_run ipc_example [MI_report 4 1, MI_report 5 2, MI_cycle 4]
        (mi_example, rb_initialize (RingBuffer_new k_maxCheckpointBufferElements)) = Some (m, b) \<and>
     (\<not> overflow_flag b \<longrightarrow> (\<exists>got. [\<lparr>cbe_timestamp = 4, cbe_checkpointId = 1\<rparr>, \<lparr>cbe_timestamp = 5, cbe_checkpointId = 2\<rparr>]
        = got @ rb_queue b))"
proof -
  have "ipc_ok (mi_ipcserver mi_example)" "isInitialized (mi_ipcserver mi_example)"
    "mi_status mi_example \<noteq> MI_InactiveOverflow"
    using ipc_example_ok by (simp_all add: mi_example_fields)
  from monitor_no_silent_loss [OF this(1,2) ipc_example_ok this(3) mi_example_fields(7),
      of "[MI_report 4 1, MI_report 5 2, MI_cycle 4]"]
  show ?thesis by auto
qed

subsection \<open>Restarts\<close>

text \<open>
  A restart that is seen while the interface is active leaves \<^verbatim>\<open>isProcessRestarted\<close> set, so a later
  overflow is pushed a second time in the following cycle although the process was not restarted
  after it.
\<close>

lemma stale_restart_notifies_twice:
  assumes "mi_status m = MI_InactiveOverflow" "isProcessRestarted m"
  shows "\<exists>m' ps. checkForNewData t m b = Some (m', b) \<and> mi_pushed m' = mi_pushed m @ ps \<and>
    loss_pushes (checkpointObservers m) ps \<and> \<not> isProcessRestarted m'"
    and "isProcessRestarted (handleOverflow m') = isProcessRestarted m'"
    and "isDeactivateRequest m' \<Longrightarrow> eProcState p = Starting \<Longrightarrow> isProcessRestarted (mi_updateData p m')"
proof -
  have "\<not> mi_reads m" using assms(1) by (simp add: mi_reads_def)
  then show "\<exists>m' ps. checkForNewData t m b = Some (m', b) \<and> mi_pushed m' = mi_pushed m @ ps \<and>
    loss_pushes (checkpointObservers m) ps \<and> \<not> isProcessRestarted m'"
    using assms pushOverflowInfo_spec [of "m\<lparr>isProcessRestarted := False\<rparr>"]
    by (auto simp: checkForNewData_idle mi_same_def)
  show "isProcessRestarted (handleOverflow m') = isProcessRestarted m'"
    using pushOverflowInfo_spec(1) [of m'] by (simp add: handleOverflow_def mi_same_def)
qed (simp add: mi_updateData_def)

end
