(* ===== verification/Timers.thy ===== *)
theory Timers
  imports Prelude
begin

section \<open>Clocks and the cycle timer\<close>

text \<open>
  Models \<^verbatim>\<open>saf/timers/TimeConversion.cpp\<close>, \<^verbatim>\<open>Timers_OsClock.cpp\<close>, \<^verbatim>\<open>CycleTimer.{hpp,cpp}\<close> and
  \<^verbatim>\<open>CycleTimeValidator.cpp\<close>. A \<^verbatim>\<open>timespec\<close> holds two signed 64-bit integers; a signed overflow has no
  defined result (\<open>None\<close>), casts to \<^verbatim>\<open>uint64_t\<close> wrap. The answers of the operating system's clock are
  arguments. The conversion of floating point milliseconds is in \<open>Time_Conversion\<close>.
\<close>

record timespec =
  tv_sec :: int
  tv_nsec :: int

definition in_long :: "int \<Rightarrow> bool" where
  "in_long x \<longleftrightarrow> - (2 ^ 63) \<le> x \<and> x < 2 ^ 63"

definition k_nanoSecInSec :: u64 where
  "k_nanoSecInSec = 1000000000"

definition k_nanoSecondsPerSecond :: int where
  "k_nanoSecondsPerSecond = 1000000000"

definition convertToNanoSec :: "timespec \<Rightarrow> NanoSecondType" where
  "convertToNanoSec f_timespec =
     (let timeMaxSecond = UINT64_MAX div k_nanoSecInSec
      in if tv_sec f_timespec \<ge> 0 \<and> tv_nsec f_timespec \<ge> 0 \<and> word_of_int (tv_sec f_timespec) \<le> timeMaxSecond
         then (let timeNanoSecPart1 = word_of_int (tv_sec f_timespec) * k_nanoSecInSec
               in if UINT64_MAX - timeNanoSecPart1 \<ge> word_of_int (tv_nsec f_timespec)
                  then timeNanoSecPart1 + word_of_int (tv_nsec f_timespec) else 0)
         else 0)"

text \<open>\<open>clock\<close> is what \<^verbatim>\<open>clock_gettime\<close> stores, \<open>None\<close> when it fails.\<close>

definition getMonotonicSystemClock :: "timespec option \<Rightarrow> NanoSecondType" where
  "getMonotonicSystemClock clock =
     (case clock of
        None \<Rightarrow> 0
      | Some systemClock \<Rightarrow>
          (let timeMaxSecond = UINT64_MAX div k_nanoSecInSec
           in if word_of_int (tv_sec systemClock) \<le> timeMaxSecond
              then (let timeNanoSecPart1 = word_of_int (tv_sec systemClock) * k_nanoSecInSec
                    in if UINT64_MAX - timeNanoSecPart1 \<ge> word_of_int (tv_nsec systemClock)
                       then timeNanoSecPart1 + word_of_int (tv_nsec systemClock) else 0)
              else 0))"

subsection \<open>The cycle timer\<close>

record CycleTimer =
  ct_hasInterface :: bool
  sleepIntervalNs :: int
  ct_deadline :: timespec

definition CycleTimer_new :: "bool \<Rightarrow> CycleTimer" where
  "CycleTimer_new f_osInterface =
     \<lparr>ct_hasInterface = f_osInterface, sleepIntervalNs = 0, ct_deadline = \<lparr>tv_sec = 0, tv_nsec = 0\<rparr>\<rparr>"

definition ct_init :: "int \<Rightarrow> int \<Rightarrow> CycleTimer \<Rightarrow> int \<times> CycleTimer" where
  "ct_init clockGetTimeResult f_sleepIntervalNs c =
     (let interval = (if \<not> ct_hasInterface c then - 2
                      else if f_sleepIntervalNs \<le> 0 then - 3
                      else if clockGetTimeResult = - 1 then - 1
                      else f_sleepIntervalNs)
      in (interval, c\<lparr>sleepIntervalNs := interval\<rparr>))"

text \<open>The clock is read into the deadline; a failed reading leaves \<open>untouched\<close> whatever it wrote.\<close>

definition ct_start :: "int \<Rightarrow> timespec \<Rightarrow> CycleTimer \<Rightarrow> NanoSecondType \<times> CycleTimer" where
  "ct_start result now c =
     (let c = c\<lparr>ct_deadline := now\<rparr>
      in (if result = 0 then convertToNanoSec (ct_deadline c) else 0, c))"

function handleNanoSecOverflow :: "timespec \<Rightarrow> timespec option" where
  "handleNanoSecOverflow deadline =
     (if tv_nsec deadline \<ge> k_nanoSecondsPerSecond
      then (if in_long (tv_sec deadline + 1)
            then handleNanoSecOverflow (deadline\<lparr>tv_nsec := tv_nsec deadline - k_nanoSecondsPerSecond,
                                                 tv_sec := tv_sec deadline + 1\<rparr>)
            else None)
      else Some deadline)"
  by pat_completeness auto
termination
  by (relation "measure (\<lambda>d. nat (tv_nsec d))") (auto simp: k_nanoSecondsPerSecond_def)

declare handleNanoSecOverflow.simps [simp del]

definition calcNextShot :: "CycleTimer \<Rightarrow> CycleTimer option" where
  "calcNextShot c =
     (let nsec = tv_nsec (ct_deadline c) + sleepIntervalNs c
      in if in_long nsec
         then map_option (\<lambda>d. c\<lparr>ct_deadline := d\<rparr>) (handleNanoSecOverflow ((ct_deadline c)\<lparr>tv_nsec := nsec\<rparr>))
         else None)"

definition kDeadlineAlreadyOver :: int where
  "kDeadlineAlreadyOver = - 1"

definition EINTR :: int where
  "EINTR = 4"

text \<open>
  The interruptible sleep: before each attempt the exit flag is read, and each attempt has a result.
  \<open>attempts\<close> lists the pairs in order; \<open>None\<close> is a sleep that has not ended within the list.
\<close>

fun ct_sleep_loop :: "int \<Rightarrow> (bool \<times> int) list \<Rightarrow> int option" where
  "ct_sleep_loop result attempts =
     (if result \<noteq> EINTR then Some result
      else (case attempts of
              [] \<Rightarrow> None
            | (exitRequested, r) # rest \<Rightarrow> if exitRequested then Some result else ct_sleep_loop r rest))"

declare ct_sleep_loop.simps [simp del]

definition ct_sleep :: "timespec option \<Rightarrow> (bool \<times> int) list \<Rightarrow> CycleTimer \<Rightarrow> (int \<times> u64) option" where
  "ct_sleep clock attempts c =
     (let deadline = ct_deadline c;
          over = (case clock of
                    None \<Rightarrow> False
                  | Some now \<Rightarrow> tv_sec now > tv_sec deadline \<or> tv_sec now = tv_sec deadline \<and> tv_nsec now > tv_nsec deadline)
      in if over
         then (let now = the clock;
                   secDiff = tv_sec now - tv_sec deadline;
                   nsDiff = tv_nsec now - tv_nsec deadline;
                   nsOverDeadlineSigned = nsDiff + k_nanoSecondsPerSecond * secDiff
               in if in_long secDiff \<and> in_long nsDiff \<and> in_long (k_nanoSecondsPerSecond * secDiff) \<and> in_long nsOverDeadlineSigned
                  then Some (kDeadlineAlreadyOver, word_of_int nsOverDeadlineSigned) else None)
         else map_option (\<lambda>result. (result, 0)) (ct_sleep_loop EINTR attempts))"

subsection \<open>The configured cycle time\<close>

definition getMonotonicClockAccuracy :: "timespec option \<Rightarrow> int" where
  "getMonotonicClockAccuracy clockRes = (case clockRes of Some r \<Rightarrow> tv_nsec r | None \<Rightarrow> - 1)"

definition adjustCycleTimeOnClockAccuracy :: "int \<Rightarrow> timespec option \<Rightarrow> int" where
  "adjustCycleTimeOnClockAccuracy f_requested_interval_ns clockRes =
     (let accuracyNs = getMonotonicClockAccuracy clockRes
      in if 0 < accuracyNs
         then (if f_requested_interval_ns \<ge> accuracyNs then f_requested_interval_ns else accuracyNs)
         else - 1)"

subsection \<open>Conversion is exact\<close>

definition ts_nanos :: "timespec \<Rightarrow> int" where
  "ts_nanos t = tv_sec t * k_nanoSecondsPerSecond + tv_nsec t"

lemma uint64_max: "uint UINT64_MAX = 2 ^ 64 - 1"
  by (simp add: unsigned_minus_1_eq_mask mask_eq_exp_minus_1)

lemma time_max_second: "uint (UINT64_MAX div k_nanoSecInSec) = 18446744073"
  by (simp add: uint_div_distrib k_nanoSecInSec_def uint64_max)

lemma uint_of_int64: "0 \<le> x \<Longrightarrow> x < 2 ^ 64 \<Longrightarrow> uint (word_of_int x :: u64) = x"
  by (simp add: uint_word_of_int take_bit_int_eq_self)

lemma nanos_guarded:
  assumes "0 \<le> s" "s < 2 ^ 64" "0 \<le> n" "n < 2 ^ 64"
  shows "(if word_of_int s \<le> UINT64_MAX div k_nanoSecInSec
      then (let p = word_of_int s * k_nanoSecInSec
            in if UINT64_MAX - p \<ge> word_of_int n then p + word_of_int n else 0) else 0)
    = (if s * 1000000000 + n < 2 ^ 64 then word_of_int (s * 1000000000 + n) else 0 :: u64)"
proof (cases "s \<le> 18446744073")
  case False
  then have "\<not> s * 1000000000 + n < 2 ^ 64" using assms by simp
  moreover have "\<not> (word_of_int s :: u64) \<le> UINT64_MAX div k_nanoSecInSec"
    using False assms by (simp add: word_le_def time_max_second uint_of_int64)
  ultimately show ?thesis by simp
next
  case True
  then have g: "(word_of_int s :: u64) \<le> UINT64_MAX div k_nanoSecInSec"
    using assms by (simp add: word_le_def time_max_second uint_of_int64)
  have p: "word_of_int s * k_nanoSecInSec = (word_of_int (s * 1000000000) :: u64)"
    by (simp add: k_nanoSecInSec_def)
  have u: "uint (word_of_int (s * 1000000000) :: u64) = s * 1000000000"
    using True assms by (intro uint_of_int64) simp_all
  have "uint (UINT64_MAX - word_of_int (s * 1000000000) :: u64) = 2 ^ 64 - 1 - s * 1000000000"
    using True assms u uint64_max by (subst uint_sub_lem [THEN iffD1]) (simp_all add: u)
  then have "UINT64_MAX - (word_of_int (s * 1000000000) :: u64) \<ge> word_of_int n \<longleftrightarrow> s * 1000000000 + n < 2 ^ 64"
    using assms by (auto simp: word_le_def uint_of_int64)
  then show ?thesis using g p by (simp add: Let_def)
qed

text \<open>
  The conversion of a point in time to nanoseconds is exact: for every \<^verbatim>\<open>timespec\<close> the system can
  hold, the result is the number of nanoseconds whenever both fields are non-negative and it fits
  into 64 bits, and 0, the error value, in every other case; it never wraps. The reading of the
  monotonic clock agrees with it on every valid reading.
\<close>

theorem time_conversion_exact:
  assumes "in_long (tv_sec t)" "in_long (tv_nsec t)"
  shows "(int (unat (convertToNanoSec t)) =
      (if tv_sec t \<ge> 0 \<and> tv_nsec t \<ge> 0 \<and> ts_nanos t < 2 ^ 64 then ts_nanos t else 0)) \<and>
    (tv_sec t \<ge> 0 \<and> tv_nsec t \<ge> 0 \<longrightarrow> (getMonotonicSystemClock (Some t) = convertToNanoSec t)) \<and>
    (tv_sec t < 0 \<longrightarrow> (getMonotonicSystemClock (Some t) = 0))"
proof -
  have b: "tv_sec t < 2 ^ 64" "tv_nsec t < 2 ^ 64" using assms by (simp_all add: in_long_def)
  have c1: "int (unat (convertToNanoSec t)) =
      (if tv_sec t \<ge> 0 \<and> tv_nsec t \<ge> 0 \<and> ts_nanos t < 2 ^ 64 then ts_nanos t else 0)"
  proof (cases "tv_sec t \<ge> 0 \<and> tv_nsec t \<ge> 0")
    case True
    then show ?thesis
      using nanos_guarded [OF _ b(1) _ b(2)] uint_of_int64 [of "tv_sec t * 1000000000 + tv_nsec t"]
      by (simp add: convertToNanoSec_def ts_nanos_def k_nanoSecondsPerSecond_def)
  qed (auto simp: convertToNanoSec_def Let_def)
  have c2: "tv_sec t \<ge> 0 \<Longrightarrow> tv_nsec t \<ge> 0 \<Longrightarrow> getMonotonicSystemClock (Some t) = convertToNanoSec t"
    by (simp add: getMonotonicSystemClock_def convertToNanoSec_def)
  have c3: "getMonotonicSystemClock (Some t) = 0" if "tv_sec t < 0"
  proof -
    have "tv_sec t mod 2 ^ 64 = (tv_sec t + 2 ^ 64) mod 2 ^ 64" by simp
    also have "\<dots> = tv_sec t + 2 ^ 64"
      using that assms by (intro mod_pos_pos_trivial) (simp_all add: in_long_def)
    finally have "uint (word_of_int (tv_sec t) :: u64) = tv_sec t + 2 ^ 64"
      by (simp add: uint_word_of_int take_bit_eq_mod)
    then have "\<not> (word_of_int (tv_sec t) :: u64) \<le> UINT64_MAX div k_nanoSecInSec"
      using assms by (simp add: word_le_def time_max_second in_long_def)
    then show ?thesis by (simp add: getMonotonicSystemClock_def)
  qed
  from c1 c2 c3 show ?thesis by blast
qed

theorem time_conversion_exact_witness:
  "int (unat (convertToNanoSec \<lparr>tv_sec = 18446744073, tv_nsec = 709551615\<rparr>)) = 18446744073709551615 \<and>
   int (unat (convertToNanoSec \<lparr>tv_sec = 18446744073, tv_nsec = 709551616\<rparr>)) = 0"
  using time_conversion_exact [of "\<lparr>tv_sec = 18446744073, tv_nsec = 709551615\<rparr>"]
    time_conversion_exact [of "\<lparr>tv_sec = 18446744073, tv_nsec = 709551616\<rparr>"]
  by (simp add: in_long_def ts_nanos_def k_nanoSecondsPerSecond_def)

subsection \<open>The cycle does not drift\<close>

definition ts_normal :: "timespec \<Rightarrow> bool" where
  "ts_normal t \<longleftrightarrow> 0 \<le> tv_sec t \<and> tv_sec t < 2 ^ 63 \<and> 0 \<le> tv_nsec t \<and> tv_nsec t < k_nanoSecondsPerSecond"

lemma handleNanoSecOverflow_spec:
  assumes "0 \<le> tv_sec d" "0 \<le> tv_nsec d" "ts_nanos d < 2 ^ 63 * k_nanoSecondsPerSecond"
  shows "\<exists>d'. handleNanoSecOverflow d = Some d' \<and> ts_normal d' \<and> ts_nanos d' = ts_nanos d"
  using assms
proof (induction d rule: handleNanoSecOverflow.induct)
  case (1 d)
  show ?case
  proof (cases "tv_nsec d \<ge> k_nanoSecondsPerSecond")
    case True
    let ?d = "d\<lparr>tv_nsec := tv_nsec d - k_nanoSecondsPerSecond, tv_sec := tv_sec d + 1\<rparr>"
    have n: "ts_nanos ?d = ts_nanos d"
      by (simp add: ts_nanos_def algebra_simps)
    moreover have "in_long (tv_sec d + 1)"
      using "1.prems" True by (simp add: in_long_def ts_nanos_def k_nanoSecondsPerSecond_def)
    ultimately show ?thesis
      using "1.IH" [OF True] "1.prems" True by (subst handleNanoSecOverflow.simps) simp
  next
    case False
    moreover have "tv_sec d < 2 ^ 63"
      using "1.prems" by (simp add: ts_nanos_def k_nanoSecondsPerSecond_def)
    ultimately show ?thesis
      using "1.prems" by (subst handleNanoSecOverflow.simps) (simp add: ts_normal_def)
  qed
qed

fun next_shots :: "nat \<Rightarrow> CycleTimer \<Rightarrow> CycleTimer option" where
  "next_shots 0 c = Some c"
| "next_shots (Suc n) c = do { c \<leftarrow> calcNextShot c; next_shots n c }"

lemma calcNextShot_spec:
  assumes "ts_normal (ct_deadline c)" "0 < sleepIntervalNs c" "sleepIntervalNs c < 2 ^ 62"
    and "ts_nanos (ct_deadline c) + sleepIntervalNs c < 2 ^ 63 * k_nanoSecondsPerSecond"
  shows "\<exists>d. calcNextShot c = Some (c\<lparr>ct_deadline := d\<rparr>) \<and> ts_normal d \<and> ts_nanos d = ts_nanos (ct_deadline c) + sleepIntervalNs c"
proof -
  let ?d = "(ct_deadline c)\<lparr>tv_nsec := tv_nsec (ct_deadline c) + sleepIntervalNs c\<rparr>"
  have "in_long (tv_nsec (ct_deadline c) + sleepIntervalNs c)"
    using assms(1-3) by (simp add: in_long_def ts_normal_def k_nanoSecondsPerSecond_def)
  moreover have "ts_nanos ?d = ts_nanos (ct_deadline c) + sleepIntervalNs c"
    by (simp add: ts_nanos_def)
  moreover from this have "\<exists>d'. handleNanoSecOverflow ?d = Some d' \<and> ts_normal d' \<and> ts_nanos d' = ts_nanos ?d"
    using assms by (intro handleNanoSecOverflow_spec) (simp_all add: ts_normal_def)
  ultimately show ?thesis by (auto simp: calcNextShot_def Let_def)
qed

text \<open>
  The cycle timer does not drift: after any number of cycles the deadline is exactly the start
  time plus that many intervals, however long each cycle took, it is a normalised \<^verbatim>\<open>timespec\<close>, and
  neither the loop that normalises it nor the additions overflow, as long as the time stays within
  the range of the seconds field.
\<close>

theorem cycle_deadline_exact:
  assumes "ts_normal (ct_deadline c)" "0 < sleepIntervalNs c" "sleepIntervalNs c < 2 ^ 62"
    and "ts_nanos (ct_deadline c) + int n * sleepIntervalNs c < 2 ^ 63 * k_nanoSecondsPerSecond"
  shows "\<exists>d. next_shots n c = Some (c\<lparr>ct_deadline := d\<rparr>) \<and> ts_normal d \<and>
    ts_nanos d = ts_nanos (ct_deadline c) + int n * sleepIntervalNs c"
  using assms
proof (induction n arbitrary: c)
  case 0
  then show ?case by (intro exI [of _ "ct_deadline c"]) simp
next
  case (Suc n)
  have a: "int (Suc n) * sleepIntervalNs c = sleepIntervalNs c + int n * sleepIntervalNs c"
    by (simp add: algebra_simps)
  moreover have "0 \<le> int n * sleepIntervalNs c" using Suc.prems by simp
  ultimately have "ts_nanos (ct_deadline c) + sleepIntervalNs c < 2 ^ 63 * k_nanoSecondsPerSecond"
    using Suc.prems(4) by linarith
  then obtain d where d: "calcNextShot c = Some (c\<lparr>ct_deadline := d\<rparr>)" "ts_normal d"
      "ts_nanos d = ts_nanos (ct_deadline c) + sleepIntervalNs c"
    using calcNextShot_spec [OF Suc.prems(1-3)] by blast
  show ?case
    using Suc.IH [of "c\<lparr>ct_deadline := d\<rparr>"] Suc.prems a d by (auto simp: algebra_simps)
qed

theorem cycle_deadline_exact_witness:
  "\<exists>d. next_shots 3 ((CycleTimer_new True)\<lparr>sleepIntervalNs := 400000000, ct_deadline := \<lparr>tv_sec = 5, tv_nsec = 900000000\<rparr>\<rparr>)
      = Some ((CycleTimer_new True)\<lparr>sleepIntervalNs := 400000000, ct_deadline := d\<rparr>) \<and> ts_nanos d = 7100000000"
  using cycle_deadline_exact [of "(CycleTimer_new True)\<lparr>sleepIntervalNs := 400000000, ct_deadline := \<lparr>tv_sec = 5, tv_nsec = 900000000\<rparr>\<rparr>" 3]
  by (auto simp: ts_normal_def ts_nanos_def k_nanoSecondsPerSecond_def)

text \<open>A sleep ends with the first result that is not an interruption, unless the exit is requested.\<close>

lemma ct_sleep_loop_interrupted:
  "\<forall>a \<in> set as. a = (False, EINTR) \<Longrightarrow> r \<noteq> EINTR \<Longrightarrow> ct_sleep_loop EINTR (as @ (False, r) # rest) = Some r"
  by (induction as) (simp_all add: ct_sleep_loop.simps)

lemma ct_sleep_loop_exit:
  "\<forall>a \<in> set as. a = (False, EINTR) \<Longrightarrow> ct_sleep_loop EINTR (as @ (True, r) # rest) = Some EINTR"
  by (induction as) (simp_all add: ct_sleep_loop.simps)

end
