(* ===== verification/Process_State_Reader.thy ===== *)
theory Process_State_Reader
  imports Recovery_Client Process_State Timers
begin

section \<open>Process state changes from the launch manager\<close>

text \<open>
  Models \<^verbatim>\<open>process_state_client_lib\<close> (the notifier of the launch manager and the receiver of the health
  monitor, two ends of one ring buffer) and \<^verbatim>\<open>saf/ifexm/ProcessStateReader.{hpp,cpp}\<close>, which
  distributes the received changes to the process state objects.

  The process state objects are a store indexed by their address; \<open>psr_pushed\<close> records every call of
  \<^verbatim>\<open>pushData\<close> as the address and the object handed to the observers. The distribution loop is a
  \<open>partial_function\<close>; its termination is part of what is proved.
\<close>

datatype LcmProcessState = LPS_Idle | LPS_Starting | LPS_Running | LPS_Terminating | LPS_Terminated

record PosixProcess =
  pp_id :: IdentifierHash
  pp_processStateId :: LcmProcessState
  pp_processGroupStateId :: IdentifierHash
  pp_systemClockTimestamp :: timespec

definition BUFFER_QUEUE_SIZE :: nat where
  "BUFFER_QUEUE_SIZE = 4096"

text \<open>\<^verbatim>\<open>sizeof(PosixProcess)\<close>: two hashes, a padded state and a \<^verbatim>\<open>timespec\<close>.\<close>

definition BUFFER_MAXPAYLOAD :: nat where
  "BUFFER_MAXPAYLOAD = 40"

type_synonym PsBuffer = "PosixProcess RingBuffer"

definition ProcessStateNotifier_new :: PsBuffer where
  "ProcessStateNotifier_new = rb_initialize (RingBuffer_new BUFFER_QUEUE_SIZE)"

definition queuePosixProcess :: "PosixProcess \<Rightarrow> PsBuffer \<Rightarrow> bool \<times> PsBuffer" where
  "queuePosixProcess f_posixProcess ring_buffer = tryEnqueue BUFFER_MAXPAYLOAD f_posixProcess ring_buffer"

definition getNextChangedPosixProcess :: "PsBuffer \<Rightarrow> (ExecErrc + PosixProcess option) \<times> PsBuffer" where
  "getNextChangedPosixProcess ring_buffer =
     (if fst (rb_getOverflowFlag False ring_buffer) then (Inl kCommunicationError, ring_buffer)
      else if rb_empty ring_buffer then (Inr None, ring_buffer)
      else (case tryDequeue BUFFER_MAXPAYLOAD ring_buffer of
              (Some changedProcess, b) \<Rightarrow> (Inr (Some changedProcess), b)
            | (None, b) \<Rightarrow> (Inl kGeneralError, b)))"

subsection \<open>The reader\<close>

record ProcessStateReader =
  processStateMap :: "ProcessId \<rightharpoonup> ProcessStateIdentifier"
  isPushPending :: bool
  lastChangedProcess_p :: "ProcessStateIdentifier option"
  psr_store :: "ProcessStateIdentifier \<Rightarrow> ProcessState"
  psr_pushed :: "(ProcessStateIdentifier \<times> ProcessState) list"

definition ProcessStateReader_new :: "(ProcessStateIdentifier \<Rightarrow> ProcessState) \<Rightarrow> ProcessStateReader" where
  "ProcessStateReader_new store =
     \<lparr>processStateMap = Map.empty, isPushPending = False, lastChangedProcess_p = None, psr_store = store, psr_pushed = []\<rparr>"

definition registerProcessState :: "ProcessStateIdentifier \<Rightarrow> ProcessId \<Rightarrow> ProcessStateReader \<Rightarrow> bool \<times> ProcessStateReader" where
  "registerProcessState f_processState_r f_processId r =
     (if processStateMap r f_processId = None
      then (True, r\<lparr>processStateMap := (processStateMap r)(f_processId \<mapsto> f_processState_r)\<rparr>)
      else (False, r))"

definition deregisterProcessState :: "ProcessId \<Rightarrow> ProcessStateReader \<Rightarrow> ProcessStateReader" where
  "deregisterProcessState f_processId r = r\<lparr>processStateMap := (processStateMap r)(f_processId := None)\<rparr>"

fun translateProcessState :: "LcmProcessState \<Rightarrow> EProcState" where
  "translateProcessState LPS_Idle = Idle"
| "translateProcessState LPS_Starting = Starting"
| "translateProcessState LPS_Running = Running"
| "translateProcessState LPS_Terminating = Sigterm"
| "translateProcessState LPS_Terminated = Off"

definition psr_pushData :: "ProcessStateIdentifier \<Rightarrow> ProcessStateReader \<Rightarrow> ProcessStateReader" where
  "psr_pushData p r = r\<lparr>psr_pushed := psr_pushed r @ [(p, psr_store r p)]\<rparr>"

definition pushUpdateTill :: "PosixProcess \<Rightarrow> NanoSecondType \<Rightarrow> ProcessStateReader \<Rightarrow> bool \<times> ProcessStateReader" where
  "pushUpdateTill f_changedPosixProcess_r f_syncTimestamp r =
     (case processStateMap r (hash_id (pp_id f_changedPosixProcess_r)) of
        None \<Rightarrow> (False, r)
      | Some p \<Rightarrow>
          (let pgStateId = hash_id (pp_processGroupStateId f_changedPosixProcess_r);
               changedProcessTimestamp = convertToNanoSec (pp_systemClockTimestamp f_changedPosixProcess_r);
               ps = setTimestamp changedProcessTimestamp
                      (setProcessGroupState pgStateId
                        (setState (translateProcessState (pp_processStateId f_changedPosixProcess_r)) (psr_store r p)));
               r = r\<lparr>psr_store := (psr_store r)(p := ps)\<rparr>
           in if changedProcessTimestamp \<le> f_syncTimestamp
              then (False, psr_pushData p r)
              else (True, r\<lparr>lastChangedProcess_p := Some p\<rparr>)))"

partial_function (option) distributeChanges_loop ::
  "NanoSecondType \<Rightarrow> ProcessStateReader \<Rightarrow> PsBuffer \<Rightarrow> (bool \<times> ProcessStateReader \<times> PsBuffer) option"
where
  "distributeChanges_loop f_syncTimestamp r b =
     (case getNextChangedPosixProcess b of
        (Inr (Some changedPosixProcess), b) \<Rightarrow>
          (let (pending, r) = pushUpdateTill changedPosixProcess f_syncTimestamp r;
               r = r\<lparr>isPushPending := pending\<rparr>
           in if \<not> isPushPending r then distributeChanges_loop f_syncTimestamp r b else Some (True, r, b))
      | (Inr None, b) \<Rightarrow> Some (True, r, b)
      | (Inl _, b) \<Rightarrow> Some (False, r, b))"

definition distributeChanges ::
  "NanoSecondType \<Rightarrow> ProcessStateReader \<Rightarrow> PsBuffer \<Rightarrow> (bool \<times> ProcessStateReader \<times> PsBuffer) option"
where
  "distributeChanges f_syncTimestamp r b = do {
     r \<leftarrow> (if isPushPending r
           then map_option (\<lambda>p. (psr_pushData p r)\<lparr>isPushPending := False\<rparr>) (lastChangedProcess_p r)
           else Some r);
     distributeChanges_loop f_syncTimestamp r b
   }"

subsection \<open>Changes of registered processes\<close>

text \<open>A change as the observers see it: the object, the new state, the process group state and the time.\<close>

type_synonym change = "ProcessStateIdentifier \<times> EProcState \<times> ProcessGroupId \<times> NanoSecondType"

definition change_of :: "PosixProcess \<Rightarrow> ProcessStateIdentifier \<Rightarrow> change" where
  "change_of c p = (p, translateProcessState (pp_processStateId c), hash_id (pp_processGroupStateId c),
     convertToNanoSec (pp_systemClockTimestamp c))"

definition observed :: "ProcessStateIdentifier \<times> ProcessState \<Rightarrow> change" where
  "observed x = (fst x, eProcState (snd x), processGroupState (snd x), ps_timestamp (snd x))"

fun changes :: "(ProcessId \<rightharpoonup> ProcessStateIdentifier) \<Rightarrow> PosixProcess list \<Rightarrow> change list" where
  "changes reg [] = []"
| "changes reg (c # cs) =
     (case reg (hash_id (pp_id c)) of Some p \<Rightarrow> change_of c p # changes reg cs | None \<Rightarrow> changes reg cs)"

definition pending_changes :: "ProcessStateReader \<Rightarrow> change list" where
  "pending_changes r =
     (if isPushPending r then [observed (the (lastChangedProcess_p r), psr_store r (the (lastChangedProcess_p r)))] else [])"

abbreviation change_time :: "change \<Rightarrow> NanoSecondType" where
  "change_time c \<equiv> snd (snd (snd c))"

lemma changes_append: "changes reg (cs @ ds) = changes reg cs @ changes reg ds"
  by (induction cs) (auto split: option.split)

definition psr_ok :: "ProcessStateReader \<Rightarrow> bool" where
  "psr_ok r \<longleftrightarrow> (isPushPending r \<longrightarrow> lastChangedProcess_p r \<noteq> None)"

lemma pushUpdateTill_spec:
  assumes "pushUpdateTill c t r = (pending, r')"
  shows "processStateMap r' = processStateMap r"
    and "processStateMap r (hash_id (pp_id c)) = None \<Longrightarrow> \<not> pending \<and> r' = r"
    and "processStateMap r (hash_id (pp_id c)) = Some p \<Longrightarrow> pending = (change_time (change_of c p) > t)"
    and "processStateMap r (hash_id (pp_id c)) = Some p \<Longrightarrow> \<not> pending \<Longrightarrow>
      map observed (psr_pushed r') = map observed (psr_pushed r) @ [change_of c p]"
    and "processStateMap r (hash_id (pp_id c)) = Some p \<Longrightarrow> pending \<Longrightarrow>
      psr_pushed r' = psr_pushed r \<and> lastChangedProcess_p r' = Some p \<and> observed (p, psr_store r' p) = change_of c p"
  using assms
  by (auto simp: pushUpdateTill_def Let_def change_of_def observed_def psr_pushData_def setTimestamp_def setProcessGroupState_def
      setState_def split: option.splits if_splits)

lemma getNext_spec:
  assumes "rb_inv BUFFER_MAXPAYLOAD b" "\<not> overflow_flag b"
  shows "fst (getNextChangedPosixProcess b) = Inr (case rb_queue b of [] \<Rightarrow> None | c # _ \<Rightarrow> Some c)"
    and "rb_queue (snd (getNextChangedPosixProcess b)) = tl (rb_queue b)"
    and "rb_inv BUFFER_MAXPAYLOAD (snd (getNextChangedPosixProcess b))"
    and "\<not> overflow_flag (snd (getNextChangedPosixProcess b))"
proof -
  have e: "rb_empty b \<longleftrightarrow> rb_queue b = []" by (metis length_0_conv length_rb_queue rb_empty_def)
  note d = rb.deq_result [OF assms(1)] rb.deq_queue [OF assms(1)] rb.deq_keeps [OF assms(1)]
    overflow_flag_ops(2) [of BUFFER_MAXPAYLOAD b]
  show "fst (getNextChangedPosixProcess b) = Inr (case rb_queue b of [] \<Rightarrow> None | c # _ \<Rightarrow> Some c)"
    "rb_queue (snd (getNextChangedPosixProcess b)) = tl (rb_queue b)"
    "rb_inv BUFFER_MAXPAYLOAD (snd (getNextChangedPosixProcess b))"
    "\<not> overflow_flag (snd (getNextChangedPosixProcess b))"
    using d assms e
    by (auto simp: getNextChangedPosixProcess_def rb_getOverflowFlag_def split: prod.splits option.splits list.splits)
qed

lemma distribute_loop:
  assumes "rb_inv BUFFER_MAXPAYLOAD b" "\<not> overflow_flag b" "rb_queue b = q" "\<not> isPushPending r"
  shows "\<exists>r' b'. distributeChanges_loop t r b = Some (True, r', b') \<and> rb_inv BUFFER_MAXPAYLOAD b' \<and> \<not> overflow_flag b' \<and>
    processStateMap r' = processStateMap r \<and> psr_ok r' \<and>
    map observed (psr_pushed r') =
      map observed (psr_pushed r) @ takeWhile (\<lambda>c. change_time c \<le> t) (changes (processStateMap r) q) \<and>
    pending_changes r' @ changes (processStateMap r) (rb_queue b') =
      dropWhile (\<lambda>c. change_time c \<le> t) (changes (processStateMap r) q)"
  using assms
proof (induction q arbitrary: r b)
  case Nil
  have "fst (getNextChangedPosixProcess b) = Inr None"
    using getNext_spec(1) [OF Nil(1,2)] Nil(3) by simp
  then have "distributeChanges_loop t r b = Some (True, r, snd (getNextChangedPosixProcess b))"
    by (subst distributeChanges_loop.simps) (simp add: case_prod_beta)
  then show ?case
    using getNext_spec [OF Nil(1,2)] Nil by (simp add: psr_ok_def pending_changes_def)
next
  case (Cons c q)
  let ?b = "snd (getNextChangedPosixProcess b)"
  have g: "getNextChangedPosixProcess b = (Inr (Some c), ?b)" "rb_queue ?b = q"
    "rb_inv BUFFER_MAXPAYLOAD ?b" "\<not> overflow_flag ?b"
    using getNext_spec [OF Cons.prems(1,2)] Cons.prems(3) by (simp_all add: prod_eq_iff)
  obtain pending r1 where p: "pushUpdateTill c t r = (pending, r1)" by fastforce
  note spec = pushUpdateTill_spec [OF p]
  have step: "distributeChanges_loop t r b =
      (if \<not> pending then distributeChanges_loop t (r1\<lparr>isPushPending := pending\<rparr>) ?b
       else Some (True, r1\<lparr>isPushPending := pending\<rparr>, ?b))"
    by (subst distributeChanges_loop.simps, subst g(1)) (simp add: p)
  show ?case
  proof (cases pending)
    case True
    then obtain a where a: "processStateMap r (hash_id (pp_id c)) = Some a"
      using spec(2) by (cases "processStateMap r (hash_id (pp_id c))") auto
    show ?thesis
      using step True g spec(1) spec(3,5) [OF a] a
      by (simp add: psr_ok_def pending_changes_def change_of_def)
  next
    case False
    then have e: "r1\<lparr>isPushPending := pending\<rparr> = r1\<lparr>isPushPending := False\<rparr>" by simp
    have ih: "\<exists>r' b'. distributeChanges_loop t r b = Some (True, r', b') \<and> rb_inv BUFFER_MAXPAYLOAD b' \<and> \<not> overflow_flag b' \<and>
      processStateMap r' = processStateMap r \<and> psr_ok r' \<and>
      map observed (psr_pushed r') =
        map observed (psr_pushed r1) @ takeWhile (\<lambda>c. change_time c \<le> t) (changes (processStateMap r) q) \<and>
      pending_changes r' @ changes (processStateMap r) (rb_queue b') =
        dropWhile (\<lambda>c. change_time c \<le> t) (changes (processStateMap r) q)"
      using Cons.IH [OF g(3,4,2), of "r1\<lparr>isPushPending := False\<rparr>"] step False spec(1) e by simp
    show ?thesis
    proof (cases "processStateMap r (hash_id (pp_id c))")
      case None
      then show ?thesis using ih spec(2) by simp
    next
      case (Some a)
      then have "change_time (change_of c a) \<le> t" "map observed (psr_pushed r1) = map observed (psr_pushed r) @ [change_of c a]"
        using spec(3,4) [OF Some] False by simp_all
      then show ?thesis using ih Some by simp
    qed
  qed
qed

lemma distributeChanges_exact:
  assumes "rb_inv BUFFER_MAXPAYLOAD b" "\<not> overflow_flag b" "psr_ok r"
  shows "\<exists>r' b'. distributeChanges t r b = Some (True, r', b') \<and> rb_inv BUFFER_MAXPAYLOAD b' \<and> \<not> overflow_flag b' \<and>
    processStateMap r' = processStateMap r \<and> psr_ok r' \<and>
    map observed (psr_pushed r') = map observed (psr_pushed r) @ pending_changes r @
      takeWhile (\<lambda>c. change_time c \<le> t) (changes (processStateMap r) (rb_queue b)) \<and>
    pending_changes r' @ changes (processStateMap r) (rb_queue b') =
      dropWhile (\<lambda>c. change_time c \<le> t) (changes (processStateMap r) (rb_queue b))"
proof (cases "isPushPending r")
  case False
  then show ?thesis
    using distribute_loop [OF assms(1,2) refl False, of t] by (simp add: distributeChanges_def pending_changes_def)
next
  case True
  then obtain p where p: "lastChangedProcess_p r = Some p" using assms(3) by (auto simp: psr_ok_def)
  let ?r = "(psr_pushData p r)\<lparr>isPushPending := False\<rparr>"
  have "distributeChanges t r b = distributeChanges_loop t ?r b"
    using True p by (simp add: distributeChanges_def)
  moreover have "map observed (psr_pushed ?r) = map observed (psr_pushed r) @ pending_changes r"
    "processStateMap ?r = processStateMap r"
    using True p by (simp_all add: psr_pushData_def pending_changes_def)
  ultimately show ?thesis
    using distribute_loop [OF assms(1,2) refl, of ?r t] by simp
qed

text \<open>Once the ring has refused a change, every distribution reports a failure.\<close>

lemma distributeChanges_overflow:
  assumes "overflow_flag b" "psr_ok r"
  shows "\<exists>r'. distributeChanges t r b = Some (False, r', b) \<and> processStateMap r' = processStateMap r \<and> psr_ok r'"
proof -
  have l: "distributeChanges_loop t r' b = Some (False, r', b)" for r'
    using assms(1) by (subst distributeChanges_loop.simps) (simp add: getNextChangedPosixProcess_def rb_getOverflowFlag_def)
  show ?thesis
    using assms(2) by (auto simp: distributeChanges_def l psr_ok_def psr_pushData_def)
qed

subsection \<open>No change is lost\<close>

datatype ps_event = PS_queue PosixProcess | PS_distribute NanoSecondType

fun ps_step :: "ps_event \<Rightarrow> ProcessStateReader \<times> PsBuffer \<Rightarrow> (ProcessStateReader \<times> PsBuffer) option" where
  "ps_step (PS_queue c) (r, b) = Some (r, snd (queuePosixProcess c b))"
| "ps_step (PS_distribute t) (r, b) = map_option snd (distributeChanges t r b)"

fun ps_run :: "ps_event list \<Rightarrow> ProcessStateReader \<times> PsBuffer \<Rightarrow> (ProcessStateReader \<times> PsBuffer) option" where
  "ps_run [] s = Some s"
| "ps_run (e # es) s = do { s \<leftarrow> ps_step e s; ps_run es s }"

fun queued :: "ps_event list \<Rightarrow> PosixProcess list" where
  "queued [] = []"
| "queued (PS_queue c # es) = c # queued es"
| "queued (PS_distribute t # es) = queued es"

definition ps_inv :: "(ProcessId \<rightharpoonup> ProcessStateIdentifier) \<Rightarrow> change list \<Rightarrow> ProcessStateReader \<times> PsBuffer \<Rightarrow> bool" where
  "ps_inv reg sent s \<longleftrightarrow> (case s of (r, b) \<Rightarrow>
     psr_ok r \<and> rb_inv BUFFER_MAXPAYLOAD b \<and> processStateMap r = reg \<and>
     (\<not> overflow_flag b \<longrightarrow>
        sent = map observed (psr_pushed r) @ pending_changes r @ changes reg (rb_queue b)))"

lemma ps_inv_queue:
  assumes "ps_inv reg sent (r, b)"
  shows "ps_inv reg (sent @ changes reg [c]) (r, snd (queuePosixProcess c b))"
proof -
  have ok: "rb_inv BUFFER_MAXPAYLOAD b" using assms by (simp add: ps_inv_def)
  show ?thesis
    using assms rb.enq_queue [OF ok, of c] rb.enq_keeps [OF ok, of c] overflow_flag_ops(1) [of BUFFER_MAXPAYLOAD c b]
    by (auto simp: ps_inv_def queuePosixProcess_def changes_append)
qed

lemma ps_inv_distribute:
  assumes "ps_inv reg sent (r, b)"
  shows "\<exists>ok r' b'. distributeChanges t r b = Some (ok, r', b') \<and> ps_inv reg sent (r', b') \<and> ok = (\<not> overflow_flag b)"
proof (cases "overflow_flag b")
  case True
  then show ?thesis
    using distributeChanges_overflow [of b r t] assms by (auto simp: ps_inv_def)
next
  case False
  have i: "rb_inv BUFFER_MAXPAYLOAD b" "psr_ok r" "processStateMap r = reg"
    "sent = map observed (psr_pushed r) @ pending_changes r @ changes reg (rb_queue b)"
    using assms False by (simp_all add: ps_inv_def)
  obtain r' b' where d: "distributeChanges t r b = Some (True, r', b')" "rb_inv BUFFER_MAXPAYLOAD b'" "\<not> overflow_flag b'"
    "processStateMap r' = reg" "psr_ok r'"
    "map observed (psr_pushed r') = map observed (psr_pushed r) @ pending_changes r @
      takeWhile (\<lambda>c. change_time c \<le> t) (changes reg (rb_queue b))"
    "pending_changes r' @ changes reg (rb_queue b') = dropWhile (\<lambda>c. change_time c \<le> t) (changes reg (rb_queue b))"
    using distributeChanges_exact [OF i(1) False i(2), of t] i(3) by auto
  have "sent = map observed (psr_pushed r') @ pending_changes r' @ changes reg (rb_queue b')"
    unfolding d(6,7) using i(4) by simp
  then have "ps_inv reg sent (r', b')" using d(2-5) by (simp add: ps_inv_def)
  then show ?thesis using d(1) False by blast
qed

lemma ps_run_inv:
  "ps_inv reg sent s \<Longrightarrow> \<exists>s'. ps_run es s = Some s' \<and> ps_inv reg (sent @ changes reg (queued es)) s'"
proof (induction es arbitrary: s sent)
  case (Cons e es)
  obtain r b where s: "s = (r, b)" by fastforce
  show ?case
  proof (cases e)
    case (PS_queue c)
    then show ?thesis
      using Cons.IH [OF ps_inv_queue [OF Cons.prems [unfolded s], of c]] s changes_append [of reg "[c]" "queued es"] by simp
  next
    case (PS_distribute t)
    obtain ok r' b' where "distributeChanges t r b = Some (ok, r', b')" "ps_inv reg sent (r', b')"
      using ps_inv_distribute [OF Cons.prems [unfolded s], of t] by blast
    then show ?thesis using Cons.IH PS_distribute s by simp
  qed
qed simp

text \<open>
  (C36) Every change of a registered process reaches its process state object exactly once and in
  order. For any interleaving of changes queued by the launch manager and distribution cycles of
  the health monitor, starting from a fresh channel, the cycles return; as long as the channel has
  not overflowed, the changes queued for registered processes are exactly the ones pushed to the
  observers, followed by the one held back for the next cycle, followed by the ones still queued.
  A cycle pushes the change held back and then all changes up to the first one after its time; and
  it reports a failure exactly when the channel has overflowed.
\<close>

theorem process_changes_exact:
  assumes "psr_ok r0" "\<not> isPushPending r0" "psr_pushed r0 = []"
  shows "\<exists>r b. ps_run es (r0, ProcessStateNotifier_new) = Some (r, b) \<and>
    (\<not> overflow_flag b \<longrightarrow>
       changes (processStateMap r0) (queued es) =
         map observed (psr_pushed r) @ pending_changes r @ changes (processStateMap r0) (rb_queue b)) \<and>
    (\<forall>t. \<exists>r' b'. distributeChanges t r b = Some (\<not> overflow_flag b, r', b') \<and>
       (\<not> overflow_flag b \<longrightarrow> map observed (psr_pushed r') = map observed (psr_pushed r) @ pending_changes r @
          takeWhile (\<lambda>c. change_time c \<le> t) (changes (processStateMap r0) (rb_queue b))))"
proof -
  have "ps_inv (processStateMap r0) [] (r0, ProcessStateNotifier_new)"
    using assms by (simp add: ps_inv_def ProcessStateNotifier_new_def rb_inv_new BUFFER_QUEUE_SIZE_def pending_changes_def)
  from ps_run_inv [OF this, of es] obtain r b where r: "ps_run es (r0, ProcessStateNotifier_new) = Some (r, b)"
      "ps_inv (processStateMap r0) (changes (processStateMap r0) (queued es)) (r, b)"
    by auto
  have "\<exists>r' b'. distributeChanges t r b = Some (\<not> overflow_flag b, r', b') \<and>
       (\<not> overflow_flag b \<longrightarrow> map observed (psr_pushed r') = map observed (psr_pushed r) @ pending_changes r @
          takeWhile (\<lambda>c. change_time c \<le> t) (changes (processStateMap r0) (rb_queue b)))" for t
    using distributeChanges_exact [of b r t] distributeChanges_overflow [of b r t] r(2)
    by (cases "overflow_flag b") (fastforce simp: ps_inv_def)+
  then show ?thesis
    using r by (intro exI [of _ r] exI [of _ b]) (simp add: ps_inv_def)
qed

definition psr_example :: ProcessStateReader where
  "psr_example = snd (registerProcessState 7 42 (ProcessStateReader_new (\<lambda>p.
     ProcessState_new \<lparr>cfg_processShortName = ''app'', cfg_processId = 42, cfg_configuredProcessGroupStates = [],
       cfg_processExecutionErrors = []\<rparr>)))"

definition pp_example :: "u64 \<Rightarrow> LcmProcessState \<Rightarrow> int \<Rightarrow> PosixProcess" where
  "pp_example i s t = \<lparr>pp_id = \<lparr>hash_id = i\<rparr>, pp_processStateId = s, pp_processGroupStateId = \<lparr>hash_id = 1\<rparr>,
     pp_systemClockTimestamp = \<lparr>tv_sec = 0, tv_nsec = t\<rparr>\<rparr>"

theorem process_changes_exact_witness:
  "\<exists>r b. ps_run [PS_queue (pp_example 42 LPS_Starting 5), PS_queue (pp_example 9 LPS_Running 6), PS_distribute 10,
        PS_queue (pp_example 42 LPS_Running 12)] (psr_example, ProcessStateNotifier_new) = Some (r, b) \<and>
     (\<not> overflow_flag b \<longrightarrow>
        changes [42 \<mapsto> 7] [pp_example 42 LPS_Starting 5, pp_example 9 LPS_Running 6, pp_example 42 LPS_Running 12]
        = map observed (psr_pushed r) @ pending_changes r @ changes [42 \<mapsto> 7] (rb_queue b))"
proof -
  have e: "psr_ok psr_example" "\<not> isPushPending psr_example" "psr_pushed psr_example = []" "processStateMap psr_example = [42 \<mapsto> 7]"
    by (simp_all add: psr_example_def registerProcessState_def ProcessStateReader_new_def psr_ok_def)
  show ?thesis
    using process_changes_exact [OF e(1-3), of "[PS_queue (pp_example 42 LPS_Starting 5), PS_queue (pp_example 9 LPS_Running 6),
        PS_distribute 10, PS_queue (pp_example 42 LPS_Running 12)]"]
    unfolding e(4) queued.simps by blast
qed

end
