(* ===== verification/Watchdog.thy ===== *)
theory Watchdog
  imports Prelude
begin

section \<open>The watchdog\<close>

text \<open>
  Models \<^verbatim>\<open>saf/watchdog/WatchdogImpl.{hpp,cpp}\<close> with the constants and states of \<^verbatim>\<open>IWatchdogIf.hpp\<close> and
  \<^verbatim>\<open>IDeviceConfigFactory.hpp\<close>, in the Linux variant (device timeouts in seconds). The system calls that
  \<^verbatim>\<open>DeviceIf.cpp\<close> forwards to are a record of operations on the state \<open>'w\<close> of the devices, which
  every operation threads through. A 32-bit overflow in the conversion to milliseconds has no
  defined result (\<open>None\<close>); so has firing the watchdog, which does not return: it is modelled as a
  flag beside the final state.
\<close>

datatype ELibState = WD_idle | WD_activated | WD_react

datatype IoctlRequest = WDIOC_KEEPALIVE | WDIOC_SETOPTIONS | WDIOC_GETTIMEOUT | WDIOC_GETTIMELEFT | WDIOC_SETTIMEOUT

record 'w DeviceIf =
  dev_open :: "string \<Rightarrow> 'w \<Rightarrow> int \<times> 'w"
  dev_ioctl :: "int \<Rightarrow> IoctlRequest \<Rightarrow> int \<Rightarrow> 'w \<Rightarrow> int \<times> int \<times> 'w"
  dev_write :: "int \<Rightarrow> string \<Rightarrow> 'w \<Rightarrow> 'w"
  dev_close :: "int \<Rightarrow> 'w \<Rightarrow> 'w"

record DeviceConfig =
  fileName :: string
  timeoutMin :: u16
  timeoutMax :: u16
  canBeDeactivated :: bool
  needsMagicClose :: bool

record WatchdogDevice =
  wd_config :: DeviceConfig
  fileDescriptor :: int

record WatchdogImpl =
  watchdogDevices :: "WatchdogDevice list"
  wd_state :: ELibState

definition WDIOS_DISABLECARD :: int where "WDIOS_DISABLECARD = 1"
definition WDIOS_ENABLECARD :: int where "WDIOS_ENABLECARD = 2"
definition kTimeoutMinMillis :: u16 where "kTimeoutMinMillis = 1000"
definition kTimeoutResolution :: u16 where "kTimeoutResolution = 1000"
definition kTimeoutMaxMillis :: u16 where "kTimeoutMaxMillis = 30 * 1000"

definition WatchdogImpl_new :: WatchdogImpl where
  "WatchdogImpl_new = \<lparr>watchdogDevices = [], wd_state = WD_idle\<rparr>"

definition msToSec :: "u16 \<Rightarrow> u16" where
  "msToSec f_timeout = f_timeout div 1000"

definition secToMs :: "int \<Rightarrow> int option" where
  "secToMs f_timeout =
     (if - (2 ^ 31) \<le> f_timeout * 1000 \<and> f_timeout * 1000 < 2 ^ 31 then Some (f_timeout * 1000) else None)"

subsection \<open>Configuration\<close>

definition hasValidTimeout :: "DeviceConfig \<Rightarrow> bool" where
  "hasValidTimeout f_config_r \<longleftrightarrow>
     timeoutMax f_config_r \<ge> kTimeoutMinMillis \<and> timeoutMax f_config_r \<le> kTimeoutMaxMillis \<and>
     timeoutMax f_config_r mod kTimeoutResolution = 0"

definition deviceAlreadyConfigured :: "DeviceConfig \<Rightarrow> WatchdogImpl \<Rightarrow> bool" where
  "deviceAlreadyConfigured f_config_r w \<longleftrightarrow>
     list_ex (\<lambda>device. fileName (wd_config device) = fileName f_config_r) (watchdogDevices w)"

text \<open>C++ division of the signed cycle time truncates towards zero.\<close>

definition validateTimeoutWithCycleTime :: "int \<Rightarrow> DeviceConfig \<Rightarrow> bool" where
  "validateTimeoutWithCycleTime f_cycleTimeInNs f_config_r \<longleftrightarrow>
     uint (timeoutMax f_config_r) \<ge> sgn f_cycleTimeInNs * (\<bar>f_cycleTimeInNs\<bar> div 1000000)"

definition isValidDeviceConfig :: "DeviceConfig \<Rightarrow> int \<Rightarrow> WatchdogImpl \<Rightarrow> bool" where
  "isValidDeviceConfig f_config_r f_cycleTimeInNs w \<longleftrightarrow>
     \<not> deviceAlreadyConfigured f_config_r w \<and> hasValidTimeout f_config_r \<and>
     validateTimeoutWithCycleTime f_cycleTimeInNs f_config_r"

definition configureDevice :: "DeviceConfig \<Rightarrow> int \<Rightarrow> WatchdogImpl \<Rightarrow> bool \<times> WatchdogImpl" where
  "configureDevice f_config_r f_cycleTimeInNs w =
     (if wd_state w \<noteq> WD_idle then (False, w)
      else if \<not> isValidDeviceConfig f_config_r f_cycleTimeInNs w then (False, w)
      else (True, w\<lparr>watchdogDevices := watchdogDevices w @ [\<lparr>wd_config = f_config_r, fileDescriptor = - 1\<rparr>]\<rparr>))"

text \<open>\<open>None\<close> as configuration is a factory that could not read it.\<close>

definition wd_init :: "int \<Rightarrow> DeviceConfig list option \<Rightarrow> WatchdogImpl \<Rightarrow> bool \<times> WatchdogImpl" where
  "wd_init f_cycleTimeInNs configurations w =
     (case configurations of
        None \<Rightarrow> (False, w)
      | Some cs \<Rightarrow> fold (\<lambda>config (isSuccess, w). let (ok, w) = configureDevice config f_cycleTimeInNs w
                                                in (isSuccess \<and> ok, w)) cs (True, w))"

subsection \<open>Device access\<close>

definition setEnableCardOption :: "'w DeviceIf \<Rightarrow> int \<Rightarrow> 'w \<Rightarrow> bool \<times> 'w" where
  "setEnableCardOption d f_fd w =
     (let (result, options, w) = dev_ioctl d f_fd WDIOC_SETOPTIONS WDIOS_ENABLECARD w in (result \<ge> 0, w))"

definition getConfiguredTimeout :: "'w DeviceIf \<Rightarrow> int \<Rightarrow> 'w \<Rightarrow> (int \<times> int \<times> 'w) option" where
  "getConfiguredTimeout d f_fd w =
     (let (result, f_configuredTimeout_r, w) = dev_ioctl d f_fd WDIOC_GETTIMEOUT (- 1) w
      in if result < 0 then Some (- 1, f_configuredTimeout_r, w)
         else map_option (\<lambda>t. (0, t, w)) (secToMs f_configuredTimeout_r))"

definition getRemainingTime :: "'w DeviceIf \<Rightarrow> int \<Rightarrow> 'w \<Rightarrow> (int \<times> int \<times> 'w) option" where
  "getRemainingTime d f_fd w =
     (let (result, f_remainingTime_r, w) = dev_ioctl d f_fd WDIOC_GETTIMELEFT (- 1) w
      in if result < 0 then Some (- 1, f_remainingTime_r, w)
         else map_option (\<lambda>t. (0, t, w)) (secToMs f_remainingTime_r))"

definition wd_setTimeout :: "'w DeviceIf \<Rightarrow> int \<Rightarrow> u16 \<Rightarrow> 'w \<Rightarrow> (bool \<times> 'w) option" where
  "wd_setTimeout d f_fd f_timeoutInMs w =
     (let timeout = uint (msToSec f_timeoutInMs);
          timeoutBefore = timeout;
          (result, timeout, w) = dev_ioctl d f_fd WDIOC_SETTIMEOUT timeout w
      in do {
        timeout \<leftarrow> secToMs timeout;
        timeoutBefore \<leftarrow> secToMs timeoutBefore;
        Some (result \<ge> 0 \<and> timeoutBefore = timeout, w)
      })"

definition updateTimeout :: "'w DeviceIf \<Rightarrow> WatchdogDevice \<Rightarrow> int \<Rightarrow> 'w \<Rightarrow> (bool \<times> 'w) option" where
  "updateTimeout d f_state_r f_configuredTimeoutOld w =
     (if f_configuredTimeoutOld \<noteq> uint (timeoutMax (wd_config f_state_r))
      then do {
        (result, _, w) \<leftarrow> getRemainingTime d (fileDescriptor f_state_r) w;
        (if result \<ge> 0 then wd_setTimeout d (fileDescriptor f_state_r) (timeoutMax (wd_config f_state_r)) w
         else Some (False, w))
      }
      else Some (True, w))"

definition enableDevice :: "'w DeviceIf \<Rightarrow> WatchdogDevice \<Rightarrow> 'w \<Rightarrow> (bool \<times> WatchdogDevice \<times> 'w) option" where
  "enableDevice d f_state_r w =
     (let (fd, w) = dev_open d (fileName (wd_config f_state_r)) w;
          f_state_r = f_state_r\<lparr>fileDescriptor := fd\<rparr>
      in if fileDescriptor f_state_r \<ge> 0
         then do {
           (result, configuredTimeout, w) \<leftarrow> getConfiguredTimeout d (fileDescriptor f_state_r) w;
           (if result \<ge> 0
            then do {
              (updated, w) \<leftarrow> updateTimeout d f_state_r configuredTimeout w;
              (if updated
               then (let (ok, w) = setEnableCardOption d (fileDescriptor f_state_r) w in Some (ok, f_state_r, w))
               else Some (False, f_state_r, w))
            }
            else Some (False, f_state_r, w))
         }
         else Some (False, f_state_r, w))"

definition kMagicCloseChar :: string where
  "kMagicCloseChar = ''V''"

definition disableDevice :: "'w DeviceIf \<Rightarrow> WatchdogDevice \<Rightarrow> 'w \<Rightarrow> bool \<times> WatchdogDevice \<times> 'w" where
  "disableDevice d f_watchdogDevice_r w =
     (if fileDescriptor f_watchdogDevice_r < 0 \<or> \<not> canBeDeactivated (wd_config f_watchdogDevice_r)
      then (False, f_watchdogDevice_r, w)
      else (let fd = fileDescriptor f_watchdogDevice_r;
                w = (if needsMagicClose (wd_config f_watchdogDevice_r) then dev_write d fd kMagicCloseChar w else w);
                (r, opt, w) = dev_ioctl d fd WDIOC_SETOPTIONS WDIOS_DISABLECARD w;
                w = dev_close d fd w
            in (True, f_watchdogDevice_r\<lparr>fileDescriptor := - 1\<rparr>, w)))"

subsection \<open>The library\<close>

text \<open>The loops over the devices, each device updated in place.\<close>

fun enable_loop ::
  "'w DeviceIf \<Rightarrow> WatchdogDevice list \<Rightarrow> bool \<times> ELibState \<Rightarrow> 'w \<Rightarrow> (bool \<times> ELibState \<times> WatchdogDevice list \<times> 'w) option"
where
  "enable_loop d [] (result, st) w = Some (result, st, [], w)"
| "enable_loop d (dv # dvs) (result, st) w = do {
     (wasEnabled, dv, w) \<leftarrow> enableDevice d dv w;
     (result, st, dvs, w) \<leftarrow> enable_loop d dvs (result \<and> wasEnabled, if wasEnabled then WD_activated else st) w;
     Some (result, st, dv # dvs, w)
   }"

definition wd_enable :: "'w DeviceIf \<Rightarrow> WatchdogImpl \<Rightarrow> 'w \<Rightarrow> (bool \<times> WatchdogImpl \<times> 'w) option" where
  "wd_enable d i w =
     (if wd_state i \<noteq> WD_idle then Some (False, i, w)
      else map_option (\<lambda>(result, st, dvs, w). (result, i\<lparr>watchdogDevices := dvs, wd_state := st\<rparr>, w))
             (enable_loop d (watchdogDevices i) (True, wd_state i) w))"

fun disable_loop :: "'w DeviceIf \<Rightarrow> WatchdogDevice list \<Rightarrow> bool \<Rightarrow> 'w \<Rightarrow> bool \<times> WatchdogDevice list \<times> 'w" where
  "disable_loop d [] allDisabled w = (allDisabled, [], w)"
| "disable_loop d (dv # dvs) allDisabled w =
     (let (wasDisabled, dv, w) = disableDevice d dv w;
          (allDisabled, dvs, w) = disable_loop d dvs (allDisabled \<and> wasDisabled) w
      in (allDisabled, dv # dvs, w))"

definition wd_disable :: "'w DeviceIf \<Rightarrow> WatchdogImpl \<Rightarrow> 'w \<Rightarrow> WatchdogImpl \<times> 'w" where
  "wd_disable d i w =
     (if wd_state i \<noteq> WD_activated then (i, w)
      else (let (allDisabled, dvs, w) = disable_loop d (watchdogDevices i) True w;
                i = i\<lparr>watchdogDevices := dvs\<rparr>
            in (if allDisabled then i\<lparr>wd_state := WD_idle\<rparr> else i, w)))"

definition serviceWatchdog :: "'w DeviceIf \<Rightarrow> WatchdogImpl \<Rightarrow> 'w \<Rightarrow> 'w" where
  "serviceWatchdog d i w =
     (if wd_state i \<noteq> WD_activated then w
      else fold (\<lambda>dv w. if fileDescriptor dv \<ge> 0
                        then snd (snd (dev_ioctl d (fileDescriptor dv) WDIOC_KEEPALIVE 0 w)) else w)
             (watchdogDevices i) w)"

text \<open>The flag tells that the call waits forever.\<close>

fun fire_loop :: "'w DeviceIf \<Rightarrow> WatchdogDevice list \<Rightarrow> 'w \<Rightarrow> 'w option" where
  "fire_loop d [] w = Some w"
| "fire_loop d (dv # dvs) w =
     (if fileDescriptor dv \<ge> 0
      then do { (_, w) \<leftarrow> wd_setTimeout d (fileDescriptor dv) 0 w; fire_loop d dvs w }
      else fire_loop d dvs w)"

definition fireWatchdogReaction :: "'w DeviceIf \<Rightarrow> WatchdogImpl \<Rightarrow> 'w \<Rightarrow> (bool \<times> WatchdogImpl \<times> 'w) option" where
  "fireWatchdogReaction d i w =
     (if wd_state i \<noteq> WD_activated then Some (False, i, w)
      else map_option (\<lambda>w. (True, i\<lparr>wd_state := WD_react\<rparr>, w)) (fire_loop d (watchdogDevices i) w))"

subsection \<open>What is accepted as configuration\<close>

lemma word16_le_iff: "(a :: u16) \<le> b \<longleftrightarrow> uint a \<le> uint b"
  by (simp add: word_le_def)

text \<open>
  The acceptance of the configurations in order: the first one of each device file that is valid.
\<close>

fun accepted :: "int \<Rightarrow> DeviceConfig list \<Rightarrow> string set \<Rightarrow> DeviceConfig list" where
  "accepted cyc [] seen = []"
| "accepted cyc (c # cs) seen =
     (if fileName c \<notin> seen \<and> hasValidTimeout c \<and> validateTimeoutWithCycleTime cyc c
      then c # accepted cyc cs (insert (fileName c) seen) else accepted cyc cs seen)"

lemma wd_init_accepted_aux:
  assumes "wd_state i = WD_idle"
  shows "fold (\<lambda>config (isSuccess, w). let (ok, w) = configureDevice config cyc w in (isSuccess \<and> ok, w)) cs (r, i) =
    (let acc = accepted cyc cs (fileName ` wd_config ` set (watchdogDevices i))
     in (r \<and> length acc = length cs,
         i\<lparr>watchdogDevices := watchdogDevices i @ map (\<lambda>c. \<lparr>wd_config = c, fileDescriptor = - 1\<rparr>) acc\<rparr>))"
  using assms
proof (induction cs arbitrary: r i)
  case (Cons c cs)
  have l: "length (accepted cyc cs s) \<le> length cs" for s
    by (induction cs arbitrary: s) (auto simp: le_SucI)
  have d: "deviceAlreadyConfigured c i \<longleftrightarrow> fileName c \<in> fileName ` wd_config ` set (watchdogDevices i)"
    by (auto simp: deviceAlreadyConfigured_def list_ex_iff image_iff eq_commute)
  show ?case
  proof (cases "isValidDeviceConfig c cyc i")
    case True
    let ?i = "i\<lparr>watchdogDevices := watchdogDevices i @ [\<lparr>wd_config = c, fileDescriptor = - 1\<rparr>]\<rparr>"
    have "configureDevice c cyc i = (True, ?i)"
      using True Cons.prems by (simp add: configureDevice_def)
    then show ?thesis
      using Cons.IH [of ?i r] Cons.prems True d by (simp add: isValidDeviceConfig_def Let_def)
  next
    case False
    then have "configureDevice c cyc i = (False, i)" by (simp add: configureDevice_def)
    then show ?thesis
      using Cons.IH [of i False] Cons.prems False d l [of "fileName ` wd_config ` set (watchdogDevices i)"]
      by (auto simp: isValidDeviceConfig_def Let_def)
  qed
qed simp

lemma accepted_sound:
  "c \<in> set (accepted cyc cs seen) \<Longrightarrow> hasValidTimeout c \<and> validateTimeoutWithCycleTime cyc c \<and> fileName c \<notin> seen"
  by (induction cs arbitrary: seen) (auto split: if_splits)

lemma accepted_all: "length (accepted cyc cs s) = length cs \<Longrightarrow> accepted cyc cs s = cs"
proof (induction cs arbitrary: s)
  case (Cons c cs)
  have "length (accepted cyc cs s) \<le> length cs" for s
    by (induction cs arbitrary: s) (auto simp: le_SucI)
  then have "length (accepted cyc cs s) \<noteq> Suc (length cs)" by (metis Suc_n_not_le_n)
  with Cons show ?case by (auto split: if_splits)
qed simp

lemma accepted_distinct: "distinct (map fileName (accepted cyc cs seen))"
  by (induction cs arbitrary: seen) (auto dest: accepted_sound)

lemma valid_timeout_bounds:
  assumes "hasValidTimeout c"
  shows "1000 \<le> uint (timeoutMax c)" "uint (timeoutMax c) \<le> 30000" "uint (timeoutMax c) mod 1000 = 0"
proof -
  show "1000 \<le> uint (timeoutMax c)" "uint (timeoutMax c) \<le> 30000"
    using assms by (simp_all add: hasValidTimeout_def word16_le_iff kTimeoutMinMillis_def kTimeoutMaxMillis_def)
  have "uint (timeoutMax c mod 1000) = 0"
    using assms by (simp add: hasValidTimeout_def kTimeoutResolution_def)
  then show "uint (timeoutMax c) mod 1000 = 0"
    by (simp add: uint_mod_distrib)
qed


text \<open>
  The initialisation of the watchdog takes over exactly the configurations that are valid, the
  first one for each device file, and succeeds exactly when that is all of them. Every device taken
  over has a timeout between one and thirty seconds, in whole seconds, that the cycle time, rounded
  down to milliseconds, does not exceed; no two devices share a file and none is open.
\<close>

theorem watchdog_init_valid:
  assumes "wd_init cyc (Some cs) WatchdogImpl_new = (ok, i)" "0 \<le> cyc"
  shows "(map wd_config (watchdogDevices i) = accepted cyc cs {}) \<and>
    (ok \<longleftrightarrow> accepted cyc cs {} = cs) \<and>
    (dv \<in> set (watchdogDevices i) \<longrightarrow> (1000 \<le> uint (timeoutMax (wd_config dv)) \<and> uint (timeoutMax (wd_config dv)) \<le> 30000 \<and>
      uint (timeoutMax (wd_config dv)) mod 1000 = 0 \<and> cyc < (uint (timeoutMax (wd_config dv)) + 1) * 1000000 \<and>
      fileDescriptor dv = - 1)) \<and>
    (distinct (map (fileName \<circ> wd_config) (watchdogDevices i)))"
proof -
  have e: "ok \<longleftrightarrow> length (accepted cyc cs {}) = length cs"
    "watchdogDevices i = map (\<lambda>c. \<lparr>wd_config = c, fileDescriptor = - 1\<rparr>) (accepted cyc cs {})"
    using assms(1) wd_init_accepted_aux [of WatchdogImpl_new cyc cs True]
    by (auto simp: wd_init_def WatchdogImpl_new_def Let_def)
  have m: "map wd_config (watchdogDevices i) = accepted cyc cs {}"
    by (simp add: e(2) comp_def)
  have c1: "ok \<longleftrightarrow> accepted cyc cs {} = cs" using e(1) accepted_all by metis
  have c2: "1000 \<le> uint (timeoutMax (wd_config dv)) \<and> uint (timeoutMax (wd_config dv)) \<le> 30000 \<and>
      uint (timeoutMax (wd_config dv)) mod 1000 = 0 \<and> cyc < (uint (timeoutMax (wd_config dv)) + 1) * 1000000 \<and>
      fileDescriptor dv = - 1" if dv: "dv \<in> set (watchdogDevices i)"
  proof -
    obtain c where c: "c \<in> set (accepted cyc cs {})" "dv = \<lparr>wd_config = c, fileDescriptor = - 1\<rparr>"
      using dv unfolding e(2) set_map by blast
    have "cyc div 1000000 \<le> uint (timeoutMax c)"
      using accepted_sound [OF c(1)] assms(2) by (auto simp: validateTimeoutWithCycleTime_def sgn_if split: if_splits)
    moreover have "cyc < (cyc div 1000000 + 1) * 1000000"
      using pos_mod_bound [of 1000000 cyc] div_mult_mod_eq [of cyc 1000000] by simp
    ultimately have "cyc < (uint (timeoutMax c) + 1) * 1000000"
      by (smt (verit) mult_right_mono)
    then show ?thesis
      using accepted_sound [OF c(1)] valid_timeout_bounds [of c] c(2) by simp
  qed
  have c3: "distinct (map (fileName \<circ> wd_config) (watchdogDevices i))"
    using accepted_distinct [of cyc cs "{}"] m by (metis map_map)
  from m c1 c2 c3 show ?thesis by blast
qed

definition wd_config_example :: "string \<Rightarrow> u16 \<Rightarrow> DeviceConfig" where
  "wd_config_example f t = \<lparr>fileName = f, timeoutMin = 0, timeoutMax = t, canBeDeactivated = True, needsMagicClose = False\<rparr>"

theorem watchdog_init_valid_witness:
  "map wd_config (watchdogDevices (snd (wd_init 50000000 (Some [wd_config_example ''/dev/watchdog'' 2000,
      wd_config_example ''/dev/watchdog'' 3000, wd_config_example ''/dev/wd1'' 1500]) WatchdogImpl_new)))
   = [wd_config_example ''/dev/watchdog'' 2000]"
proof -
  obtain ok i where e: "wd_init 50000000 (Some [wd_config_example ''/dev/watchdog'' 2000,
      wd_config_example ''/dev/watchdog'' 3000, wd_config_example ''/dev/wd1'' 1500]) WatchdogImpl_new = (ok, i)"
    by fastforce
  from watchdog_init_valid [OF this] show ?thesis
    unfolding e snd_conv by (simp add: wd_config_example_def hasValidTimeout_def validateTimeoutWithCycleTime_def word16_le_iff
        kTimeoutMinMillis_def kTimeoutMaxMillis_def kTimeoutResolution_def)
qed

text \<open>The truncation in the check against the cycle time accepts a cycle longer than the timeout.\<close>

lemma cycle_longer_than_timeout_accepted:
  "validateTimeoutWithCycleTime 1000999999 (wd_config_example ''/dev/watchdog'' 1000)"
  "1000999999 > uint (timeoutMax (wd_config_example ''/dev/watchdog'' 1000)) * 1000000"
  by (simp_all add: validateTimeoutWithCycleTime_def wd_config_example_def)

subsection \<open>Enabling programs the timeout\<close>

text \<open>
  The documented behaviour of the watchdog driver: the timeout can be read, and a successful write
  stores the value it reports back; no other request and no opening changes it.
\<close>

definition honest_device :: "'w DeviceIf \<Rightarrow> ('w \<Rightarrow> int \<Rightarrow> int) \<Rightarrow> bool" where
  "honest_device d timeout_of \<longleftrightarrow>
     (\<forall>fd p w r q w'. dev_ioctl d fd WDIOC_GETTIMEOUT p w = (r, q, w') \<longrightarrow> timeout_of w' = timeout_of w \<and> (r \<ge> 0 \<longrightarrow> q = timeout_of w fd)) \<and>
     (\<forall>fd p w r q w'. dev_ioctl d fd WDIOC_GETTIMELEFT p w = (r, q, w') \<longrightarrow> timeout_of w' = timeout_of w) \<and>
     (\<forall>fd p w r q w'. dev_ioctl d fd WDIOC_SETOPTIONS p w = (r, q, w') \<longrightarrow> timeout_of w' = timeout_of w) \<and>
     (\<forall>fd p w r q w'. dev_ioctl d fd WDIOC_SETTIMEOUT p w = (r, q, w') \<longrightarrow> r \<ge> 0 \<longrightarrow> timeout_of w' fd = q)"

lemma secToMs_Some: "secToMs x = Some y \<Longrightarrow> y = x * 1000"
  by (auto simp: secToMs_def split: if_splits)

lemma wd_setTimeout_success:
  assumes h: "honest_device d timeout_of" and s: "wd_setTimeout d fd t w = Some (True, w')"
  shows "timeout_of w' fd = uint (msToSec t)"
proof -
  obtain r q w1 where q: "dev_ioctl d fd WDIOC_SETTIMEOUT (uint (msToSec t)) w = (r, q, w1)" by (metis prod_cases3)
  have r: "r \<ge> 0" "w1 = w'" "\<exists>y. secToMs q = Some y \<and> secToMs (uint (msToSec t)) = Some y"
    using s by (auto simp: wd_setTimeout_def q Let_def bind_eq_Some_conv)
  then have "q = uint (msToSec t)" using secToMs_Some by (metis mult_right_cancel zero_neq_numeral)
  moreover have "timeout_of w' fd = q" using h q r(1,2) unfolding honest_device_def by blast
  ultimately show ?thesis by simp
qed

lemma updateTimeout_programs:
  assumes h: "honest_device d timeout_of" and v: "hasValidTimeout (wd_config dv)"
    and u: "updateTimeout d dv old w = Some (True, w')" and old: "old = timeout_of w (fileDescriptor dv) * 1000"
  shows "timeout_of w' (fileDescriptor dv) * 1000 = uint (timeoutMax (wd_config dv))"
proof (cases "old = uint (timeoutMax (wd_config dv))")
  case True
  then show ?thesis using u old by (simp add: updateTimeout_def)
next
  case False
  obtain w1 where "wd_setTimeout d (fileDescriptor dv) (timeoutMax (wd_config dv)) w1 = Some (True, w')"
    using u False by (auto simp: updateTimeout_def bind_eq_Some_conv split: if_splits)
  from wd_setTimeout_success [OF h this]
  have "timeout_of w' (fileDescriptor dv) = uint (timeoutMax (wd_config dv)) div 1000"
    by (simp add: msToSec_def uint_div_distrib)
  moreover have "uint (timeoutMax (wd_config dv)) div 1000 * 1000 = uint (timeoutMax (wd_config dv))"
    using valid_timeout_bounds(3) [OF v] div_mult_mod_eq [of "uint (timeoutMax (wd_config dv))" 1000] by simp
  ultimately show ?thesis by simp
qed

lemma enableDevice_success:
  assumes "enableDevice d dv w = Some (True, dv', w')"
  obtains w0 r t w1 old w2 where
    "fileDescriptor dv' \<ge> 0" "wd_config dv' = wd_config dv" "r \<ge> 0"
    "dev_ioctl d (fileDescriptor dv') WDIOC_GETTIMEOUT (- 1) w0 = (r, t, w1)" "secToMs t = Some old"
    "updateTimeout d dv' old w1 = Some (True, w2)" "setEnableCardOption d (fileDescriptor dv') w2 = (True, w')"
proof -
  obtain fd w0 where o: "dev_open d (fileName (wd_config dv)) w = (fd, w0)" by fastforce
  obtain r t w1 where g: "dev_ioctl d fd WDIOC_GETTIMEOUT (- 1) w0 = (r, t, w1)" by (metis prod_cases3)
  have fd: "fd \<ge> 0" "r \<ge> 0"
    using assms by (auto simp: enableDevice_def o Let_def getConfiguredTimeout_def g split: if_splits)
  obtain old where old: "secToMs t = Some old"
    using assms fd by (cases "secToMs t") (auto simp: enableDevice_def o Let_def getConfiguredTimeout_def g)
  obtain b w2 where u: "updateTimeout d (dv\<lparr>fileDescriptor := fd\<rparr>) old w1 = Some (b, w2)"
    using assms fd old
    by (cases "updateTimeout d (dv\<lparr>fileDescriptor := fd\<rparr>) old w1")
      (auto simp: enableDevice_def o Let_def getConfiguredTimeout_def g)
  have b: "b" "dv' = dv\<lparr>fileDescriptor := fd\<rparr>" "setEnableCardOption d fd w2 = (True, w')"
    using assms fd old u
    by (auto simp: enableDevice_def o Let_def getConfiguredTimeout_def g split: if_splits prod.splits)
  show thesis
    by (rule that [of r w0 t w1 old w2]) (use fd g old u b in simp_all)
qed

text \<open>
  (C38) A device that the watchdog enables successfully runs with the configured timeout: for a driver
  that behaves as documented and a configuration that passed the initialisation, opening the device,
  reading its timeout, programming it when it differs and enabling it leaves the device with exactly
  the configured maximum timeout, also when the driver only supports whole seconds or rounds.
\<close>

theorem watchdog_enable_programs_timeout:
  assumes "honest_device d timeout_of" "hasValidTimeout (wd_config dv)"
    and "enableDevice d dv w = Some (True, dv', w')"
  shows "(fileDescriptor dv' \<ge> 0) \<and>
    (wd_config dv' = wd_config dv) \<and>
    (timeout_of w' (fileDescriptor dv') * 1000 = uint (timeoutMax (wd_config dv)))"
proof -
  obtain w0 r t w1 old w2 where a: "fileDescriptor dv' \<ge> 0" "wd_config dv' = wd_config dv" "r \<ge> 0"
    "dev_ioctl d (fileDescriptor dv') WDIOC_GETTIMEOUT (- 1) w0 = (r, t, w1)" "secToMs t = Some old"
    "updateTimeout d dv' old w1 = Some (True, w2)" "setEnableCardOption d (fileDescriptor dv') w2 = (True, w')"
    by (rule enableDevice_success [OF assms(3)])
  then have c1: "fileDescriptor dv' \<ge> 0" "wd_config dv' = wd_config dv" by simp_all
  have t: "timeout_of w1 = timeout_of w0 \<and> t = timeout_of w0 (fileDescriptor dv')"
    using assms(1) [unfolded honest_device_def, THEN conjunct1, rule_format, OF a(4)] a(3) by simp
  then have "timeout_of w2 (fileDescriptor dv') * 1000 = uint (timeoutMax (wd_config dv))"
    using updateTimeout_programs [OF assms(1) _ a(6)] assms(2) a(2) secToMs_Some [OF a(5)] by simp
  moreover obtain r' q where "dev_ioctl d (fileDescriptor dv') WDIOC_SETOPTIONS WDIOS_ENABLECARD w2 = (r', q, w')"
    using a(7) by (auto simp: setEnableCardOption_def split: prod.splits)
  moreover from this have "timeout_of w' = timeout_of w2" using assms(1) unfolding honest_device_def by blast
  ultimately have c2: "timeout_of w' (fileDescriptor dv') * 1000 = uint (timeoutMax (wd_config dv))"
    by simp
  from c1 c2 show ?thesis by blast
qed

text \<open>A driver for one device whose state is its timeout in seconds.\<close>

definition one_device :: "int DeviceIf" where
  "one_device = \<lparr>dev_open = (\<lambda>f w. (3, w)),
     dev_ioctl = (\<lambda>fd r p w. case r of WDIOC_SETTIMEOUT \<Rightarrow> (0, p, p) | WDIOC_GETTIMEOUT \<Rightarrow> (0, w, w) | _ \<Rightarrow> (0, p, w)),
     dev_write = (\<lambda>fd s w. w), dev_close = (\<lambda>fd w. w)\<rparr>"

theorem watchdog_enable_programs_timeout_witness:
  "\<exists>dv' w'. enableDevice one_device \<lparr>wd_config = wd_config_example ''/dev/watchdog'' 2000, fileDescriptor = - 1\<rparr> 60 = Some (True, dv', w') \<and>
     w' * 1000 = 2000"
proof -
  let ?dv = "\<lparr>wd_config = wd_config_example ''/dev/watchdog'' 2000, fileDescriptor = - 1\<rparr>"
  have h: "honest_device one_device (\<lambda>w fd. w)"
    by (auto simp: honest_device_def one_device_def)
  have v: "hasValidTimeout (wd_config ?dv)"
    by (simp add: wd_config_example_def hasValidTimeout_def word16_le_iff kTimeoutMinMillis_def kTimeoutMaxMillis_def kTimeoutResolution_def)
  obtain dv' w' where e: "enableDevice one_device ?dv 60 = Some (True, dv', w')"
    by (simp add: enableDevice_def one_device_def getConfiguredTimeout_def updateTimeout_def getRemainingTime_def wd_setTimeout_def
        setEnableCardOption_def secToMs_def wd_config_example_def msToSec_def)
  from watchdog_enable_programs_timeout [OF h v e] e show ?thesis
    by (auto simp: wd_config_example_def)
qed

subsection \<open>An armed device is serviced until it is disarmed\<close>

definition wd_closable :: "WatchdogDevice \<Rightarrow> bool" where
  "wd_closable dv \<longleftrightarrow> fileDescriptor dv \<ge> 0 \<and> canBeDeactivated (wd_config dv)"

lemma disable_loop_spec:
  "fst (disable_loop d dvs r w) \<longleftrightarrow> r \<and> list_all wd_closable dvs"
  "fst (snd (disable_loop d dvs r w)) = map (\<lambda>dv. if wd_closable dv then dv\<lparr>fileDescriptor := - 1\<rparr> else dv) dvs"
proof (induction dvs arbitrary: r w)
  case (Cons dv dvs)
  have s: "fst (disableDevice d dv w) = wd_closable dv"
    "fst (snd (disableDevice d dv w)) = (if wd_closable dv then dv\<lparr>fileDescriptor := - 1\<rparr> else dv)" for w
    by (auto simp: disableDevice_def wd_closable_def Let_def case_prod_beta)
  { case 1
    then show ?case using Cons.IH(1) s by (auto simp: case_prod_beta Let_def)
  next
    case 2
    then show ?case using Cons.IH(2) s by (auto simp: case_prod_beta Let_def) }
qed simp_all

definition open_fds :: "WatchdogImpl \<Rightarrow> int list" where
  "open_fds i = filter (\<lambda>fd. fd \<ge> 0) (map fileDescriptor (watchdogDevices i))"

lemma service_pings:
  assumes "\<And>fd p w. pings (snd (snd (dev_ioctl d fd WDIOC_KEEPALIVE p w))) = pings w @ [fd]"
  shows "pings (serviceWatchdog d i w) = pings w @ (if wd_state i = WD_activated then open_fds i else [])"
proof -
  have "pings (fold (\<lambda>dv w. if fileDescriptor dv \<ge> 0 then snd (snd (dev_ioctl d (fileDescriptor dv) WDIOC_KEEPALIVE 0 w)) else w) dvs w)
      = pings w @ filter (\<lambda>fd. fd \<ge> 0) (map fileDescriptor dvs)" for dvs :: "WatchdogDevice list" and w
    by (induction dvs arbitrary: w) (simp_all add: assms)
  then show ?thesis by (simp add: serviceWatchdog_def open_fds_def)
qed

text \<open>
  Deactivation is complete or the watchdog stays in service: deactivating the activated library
  closes exactly the open devices that can be deactivated and makes the library idle exactly when
  every device was one of them. Otherwise the library stays activated, and every following service
  pings exactly the devices that are still open, once each and in their order, so a device that
  cannot be stopped is not left to fire. An idle library pings nothing.
\<close>

theorem watchdog_disable_or_serve:
  assumes "wd_state i = WD_activated" "wd_disable d i w = (i', w')"
    and "\<And>fd p w. pings (snd (snd (dev_ioctl d fd WDIOC_KEEPALIVE p w))) = pings w @ [fd]"
  shows "(wd_state i' = (if list_all wd_closable (watchdogDevices i) then WD_idle else WD_activated)) \<and>
    (open_fds i' = map fileDescriptor (filter (\<lambda>dv. fileDescriptor dv \<ge> 0 \<and> \<not> canBeDeactivated (wd_config dv)) (watchdogDevices i))) \<and>
    (pings (serviceWatchdog d i' w'') = pings w'' @ open_fds i')"
proof -
  have i': "watchdogDevices i' = map (\<lambda>dv. if wd_closable dv then dv\<lparr>fileDescriptor := - 1\<rparr> else dv) (watchdogDevices i)"
    "wd_state i' = (if list_all wd_closable (watchdogDevices i) then WD_idle else WD_activated)"
    using assms(1,2) disable_loop_spec [of d "watchdogDevices i" True w]
    by (auto simp: wd_disable_def Let_def case_prod_beta)
  have s: "wd_state i' = (if list_all wd_closable (watchdogDevices i) then WD_idle else WD_activated)" by (rule i'(2))
  have "filter (\<lambda>fd. fd \<ge> 0) (map fileDescriptor (map (\<lambda>dv. if wd_closable dv then dv\<lparr>fileDescriptor := - 1\<rparr> else dv) dvs))
      = map fileDescriptor (filter (\<lambda>dv. fileDescriptor dv \<ge> 0 \<and> \<not> canBeDeactivated (wd_config dv)) dvs)" for dvs :: "WatchdogDevice list"
    by (induction dvs) (auto simp: wd_closable_def)
  then have o: "open_fds i' = map fileDescriptor
      (filter (\<lambda>dv. fileDescriptor dv \<ge> 0 \<and> \<not> canBeDeactivated (wd_config dv)) (watchdogDevices i))"
    by (simp add: open_fds_def i'(1))
  have "open_fds i' = []" if "wd_state i' = WD_idle"
    unfolding o using that s by (auto simp: filter_empty_conv list_all_iff wd_closable_def split: if_splits)
  then have p: "pings (serviceWatchdog d i' w'') = pings w'' @ open_fds i'"
    using service_pings [where pings = pings and d = d and i = i' and w = w'', OF assms(3)] s by (auto split: if_splits)
  from s o p show ?thesis by blast
qed

text \<open>A driver whose state is the list of pings.\<close>

definition ping_device :: "int list DeviceIf" where
  "ping_device = \<lparr>dev_open = (\<lambda>f w. (3, w)), dev_ioctl = (\<lambda>fd r p w. (0, p, if r = WDIOC_KEEPALIVE then w @ [fd] else w)),
     dev_write = (\<lambda>fd s w. w), dev_close = (\<lambda>fd w. w)\<rparr>"

definition wd_two_devices :: WatchdogImpl where
  "wd_two_devices = \<lparr>watchdogDevices = [\<lparr>wd_config = wd_config_example ''/dev/wd0'' 2000, fileDescriptor = 3\<rparr>,
     \<lparr>wd_config = (wd_config_example ''/dev/wd1'' 2000)\<lparr>canBeDeactivated := False\<rparr>, fileDescriptor = 4\<rparr>], wd_state = WD_activated\<rparr>"

theorem watchdog_disable_or_serve_witness:
  "\<exists>i' w'. wd_disable ping_device wd_two_devices [] = (i', w') \<and> wd_state i' = WD_activated \<and>
     serviceWatchdog ping_device i' [] = [4]"
proof -
  obtain i' w' where e: "wd_disable ping_device wd_two_devices [] = (i', w')" by fastforce
  have a: "wd_state wd_two_devices = WD_activated" by (simp add: wd_two_devices_def)
  have p: "(\<lambda>w. w) (snd (snd (dev_ioctl ping_device fd WDIOC_KEEPALIVE p w))) = (\<lambda>w. w) w @ [fd]" for fd p w
    by (simp add: ping_device_def)
  show ?thesis
    using watchdog_disable_or_serve [OF a e p] e
    by (simp add: wd_two_devices_def wd_closable_def wd_config_example_def)
qed

end
