(* ===== verification/Phm_Daemon.thy ===== *)
theory Phm_Daemon
  imports Alive_Supervision Deadline_Supervision Logical_Supervision Global_Supervision
    Recovery_Notification Monitor_Interface Process_State_Reader Watchdog
begin

section \<open>The health monitoring daemon\<close>

text \<open>
  Models \<^verbatim>\<open>saf/daemon/SwClusterHandler.cpp\<close> and the cyclic execution of \<^verbatim>\<open>saf/daemon/PhmDaemon.{hpp,cpp}\<close>:
  the objects of a software cluster, how the results of one are handed to the next, and what the
  cycle decides about the watchdog.

  The objects of each kind are a list; an observer registration is an index into such a list, kept
  in the record \<open>Wiring\<close>, which the configuration fixes before the first cycle. An object notifies
  its observers by a synchronous call; the components record these calls in order
  (\<open>mi_pushed\<close>, \<open>psr_pushed\<close>, \<open>pushedResults\<close>, \<open>lo_results\<close>, \<open>gl_sent\<close>), and here the calls recorded
  by an operation are made on the observers right after it. Since an observer's update never calls
  back into the object that notifies it, this is the same as making them during the operation. A
  registration outside the list would be a dangling reference: \<open>None\<close>.
\<close>

record Wiring =
  w_cpAlives :: "CheckpointIdentifier \<Rightarrow> nat list"
  w_cpDeadlines :: "CheckpointIdentifier \<Rightarrow> nat list"
  w_cpLogicals :: "CheckpointIdentifier \<Rightarrow> nat list"
  w_psMonitors :: "ProcessStateIdentifier \<Rightarrow> nat list"
  w_psAlives :: "ProcessStateIdentifier \<Rightarrow> nat list"
  w_psDeadlines :: "ProcessStateIdentifier \<Rightarrow> nat list"
  w_psLogicals :: "ProcessStateIdentifier \<Rightarrow> nat list"
  w_psGlobals :: "ProcessStateIdentifier \<Rightarrow> nat list"
  w_aliveAddr :: "nat \<Rightarrow> nat"
  w_deadlineAddr :: "nat \<Rightarrow> nat"
  w_logicalAddr :: "nat \<Rightarrow> nat"
  w_localAddr :: "nat \<Rightarrow> nat"
  w_aliveLocals :: "nat \<Rightarrow> nat list"
  w_deadlineLocals :: "nat \<Rightarrow> nat list"
  w_logicalLocals :: "nat \<Rightarrow> nat list"
  w_localGlobals :: "nat \<Rightarrow> nat list"

record SwClusterHandler =
  sw_wiring :: Wiring
  monitorInterfaces :: "(MonitorIfDaemon \<times> CpBuffer) list"
  aliveSupervisions :: "Alive list"
  deadlineSupervisions :: "Deadline list"
  logicalSupervisions :: "Logical list"
  localSupervisions :: "Local list"
  globalSupervisions :: "Global list"
  recoveryNotifications :: "Notification list"

text \<open>A call on the objects registered as observers, in the order of their registration.\<close>

fun notify :: "nat list \<Rightarrow> ('a \<Rightarrow> 'a option) \<Rightarrow> 'a list \<Rightarrow> 'a list option" where
  "notify [] f xs = Some xs"
| "notify (i # is) f xs =
     (if i < length xs then do { x \<leftarrow> f (xs ! i); notify is f (xs[i := x]) } else None)"

text \<open>A range-based loop over a container.\<close>

fun iterate :: "('a \<Rightarrow> 's \<Rightarrow> 's option) \<Rightarrow> 'a list \<Rightarrow> 's \<Rightarrow> 's option" where
  "iterate f [] s = Some s"
| "iterate f (x # xs) s = do { s \<leftarrow> f x s; iterate f xs s }"

subsection \<open>Notifications between the objects\<close>

definition notifyCheckpoint :: "CheckpointIdentifier \<times> Checkpoint \<Rightarrow> SwClusterHandler \<Rightarrow> SwClusterHandler option" where
  "notifyCheckpoint p c = (let (addr, cp) = p; w = sw_wiring c in do {
     as \<leftarrow> notify (w_cpAlives w addr) (al_updateCheckpoint addr cp) (aliveSupervisions c);
     ds \<leftarrow> notify (w_cpDeadlines w addr) (dl_updateCheckpoint addr cp) (deadlineSupervisions c);
     ls \<leftarrow> notify (w_cpLogicals w addr) (lg_updateCheckpoint addr cp) (logicalSupervisions c);
     Some (c\<lparr>aliveSupervisions := as, deadlineSupervisions := ds, logicalSupervisions := ls\<rparr>)
   })"

definition notifyProcessState :: "ProcessStateIdentifier \<times> ProcessState \<Rightarrow> SwClusterHandler \<Rightarrow> SwClusterHandler option" where
  "notifyProcessState p c = (let (addr, ps) = p; w = sw_wiring c in do {
     ms \<leftarrow> notify (w_psMonitors w addr) (\<lambda>(m, b). Some (mi_updateData ps m, b)) (monitorInterfaces c);
     as \<leftarrow> notify (w_psAlives w addr) (al_updateProcessState addr ps) (aliveSupervisions c);
     ds \<leftarrow> notify (w_psDeadlines w addr) (dl_updateProcessState addr ps) (deadlineSupervisions c);
     ls \<leftarrow> notify (w_psLogicals w addr) (lg_updateProcessState addr ps) (logicalSupervisions c);
     gs \<leftarrow> notify (w_psGlobals w addr) (gl_updateProcessState ps) (globalSupervisions c);
     Some (c\<lparr>monitorInterfaces := ms, aliveSupervisions := as, deadlineSupervisions := ds,
             logicalSupervisions := ls, globalSupervisions := gs\<rparr>)
   })"

definition notifyLocals ::
  "nat list \<Rightarrow> nat \<Rightarrow> EType \<Rightarrow> CheckpointResult list \<Rightarrow> SwClusterHandler \<Rightarrow> SwClusterHandler option"
where
  "notifyLocals obs addr ty results c = do {
     ls \<leftarrow> iterate (\<lambda>r. notify obs (lo_updateDataGeneralized addr r ty)) results (localSupervisions c);
     Some (c\<lparr>localSupervisions := ls\<rparr>)
   }"

definition notifyGlobals :: "nat list \<Rightarrow> nat \<Rightarrow> LocalResult list \<Rightarrow> SwClusterHandler \<Rightarrow> SwClusterHandler option" where
  "notifyGlobals obs addr results c = do {
     gs \<leftarrow> iterate (\<lambda>r. notify obs (gl_updateLocal addr r)) results (globalSupervisions c);
     Some (c\<lparr>globalSupervisions := gs\<rparr>)
   }"

definition notifyRecovery :: "(nat \<times> SupervisionErrorInfo) list \<Rightarrow> SwClusterHandler \<Rightarrow> SwClusterHandler option" where
  "notifyRecovery sent c = do {
     ns \<leftarrow> notify (map fst sent) (\<lambda>n. Some (nt_send n)) (recoveryNotifications c);
     Some (c\<lparr>recoveryNotifications := ns\<rparr>)
   }"

subsection \<open>The software cluster\<close>

definition sw_checkInterface :: "NanoSecondType \<Rightarrow> nat \<Rightarrow> SwClusterHandler \<Rightarrow> SwClusterHandler option" where
  "sw_checkInterface t i c = (let (m, b) = monitorInterfaces c ! i in do {
     (m', b') \<leftarrow> checkForNewData t m b;
     iterate notifyCheckpoint (drop (length (mi_pushed m)) (mi_pushed m'))
       (c\<lparr>monitorInterfaces := (monitorInterfaces c)[i := (m', b')]\<rparr>)
   })"

definition checkInterfaceForNewData :: "NanoSecondType \<Rightarrow> SwClusterHandler \<Rightarrow> SwClusterHandler option" where
  "checkInterfaceForNewData f_syncTimestamp c =
     iterate (sw_checkInterface f_syncTimestamp) [0..<length (monitorInterfaces c)] c"

definition sw_evaluateAlive :: "NanoSecondType \<Rightarrow> nat \<Rightarrow> SwClusterHandler \<Rightarrow> SwClusterHandler option" where
  "sw_evaluateAlive t i c = (let s = aliveSupervisions c ! i in do {
     s' \<leftarrow> al_evaluate t s;
     notifyLocals (w_aliveLocals (sw_wiring c) i) (w_aliveAddr (sw_wiring c) i) T_aliveSupervision
       (drop (length (pushedResults s)) (pushedResults s')) (c\<lparr>aliveSupervisions := (aliveSupervisions c)[i := s']\<rparr>)
   })"

definition sw_evaluateDeadline :: "NanoSecondType \<Rightarrow> nat \<Rightarrow> SwClusterHandler \<Rightarrow> SwClusterHandler option" where
  "sw_evaluateDeadline t i c = (let s = deadlineSupervisions c ! i in do {
     s' \<leftarrow> dl_evaluate t s;
     notifyLocals (w_deadlineLocals (sw_wiring c) i) (w_deadlineAddr (sw_wiring c) i) T_deadlineSupervision
       (drop (length (pushedResults s)) (pushedResults s')) (c\<lparr>deadlineSupervisions := (deadlineSupervisions c)[i := s']\<rparr>)
   })"

definition sw_evaluateLogical :: "NanoSecondType \<Rightarrow> nat \<Rightarrow> SwClusterHandler \<Rightarrow> SwClusterHandler option" where
  "sw_evaluateLogical t i c = (let s = logicalSupervisions c ! i in do {
     s' \<leftarrow> lg_evaluate t s;
     notifyLocals (w_logicalLocals (sw_wiring c) i) (w_logicalAddr (sw_wiring c) i) T_logicalSupervision
       (drop (length (pushedResults s)) (pushedResults s')) (c\<lparr>logicalSupervisions := (logicalSupervisions c)[i := s']\<rparr>)
   })"

definition sw_evaluateLocal :: "NanoSecondType \<Rightarrow> nat \<Rightarrow> SwClusterHandler \<Rightarrow> SwClusterHandler option" where
  "sw_evaluateLocal t i c = (let s = localSupervisions c ! i in do {
     s' \<leftarrow> lo_evaluate t s;
     notifyGlobals (w_localGlobals (sw_wiring c) i) (w_localAddr (sw_wiring c) i)
       (drop (length (lo_results s)) (lo_results s')) (c\<lparr>localSupervisions := (localSupervisions c)[i := s']\<rparr>)
   })"

definition sw_evaluateGlobal :: "NanoSecondType \<Rightarrow> nat \<Rightarrow> SwClusterHandler \<Rightarrow> SwClusterHandler option" where
  "sw_evaluateGlobal t i c = (let s = globalSupervisions c ! i in do {
     s' \<leftarrow> gl_evaluate t s;
     notifyRecovery (drop (length (gl_sent s)) (gl_sent s')) (c\<lparr>globalSupervisions := (globalSupervisions c)[i := s']\<rparr>)
   })"

definition evaluateSupervisions :: "NanoSecondType \<Rightarrow> SwClusterHandler \<Rightarrow> SwClusterHandler option" where
  "evaluateSupervisions f_syncTimestamp c = do {
     c \<leftarrow> iterate (sw_evaluateAlive f_syncTimestamp) [0..<length (aliveSupervisions c)] c;
     c \<leftarrow> iterate (sw_evaluateDeadline f_syncTimestamp) [0..<length (deadlineSupervisions c)] c;
     c \<leftarrow> iterate (sw_evaluateLogical f_syncTimestamp) [0..<length (logicalSupervisions c)] c;
     c \<leftarrow> iterate (sw_evaluateLocal f_syncTimestamp) [0..<length (localSupervisions c)] c;
     iterate (sw_evaluateGlobal f_syncTimestamp) [0..<length (globalSupervisions c)] c
   }"

text \<open>What each notification reads in this cycle is given by its index.\<close>

definition evaluateRecoveryNotifications :: "(nat \<Rightarrow> TriggerInput) \<Rightarrow> SwClusterHandler \<Rightarrow> SwClusterHandler" where
  "evaluateRecoveryNotifications inp c =
     c\<lparr>recoveryNotifications := map (\<lambda>(i, n). cyclicTrigger (inp i) n)
         (zip [0..<length (recoveryNotifications c)] (recoveryNotifications c))\<rparr>"

definition hasRecoveryNotificationTimeout :: "SwClusterHandler \<Rightarrow> bool" where
  "hasRecoveryNotificationTimeout c \<longleftrightarrow> list_ex isFinalTimeoutStateReached (recoveryNotifications c)"

definition sw_performCyclicTriggers ::
  "NanoSecondType \<Rightarrow> (nat \<Rightarrow> TriggerInput) \<Rightarrow> SwClusterHandler \<Rightarrow> SwClusterHandler option"
where
  "sw_performCyclicTriggers f_syncTimestamp inp c = do {
     c \<leftarrow> checkInterfaceForNewData f_syncTimestamp c;
     c \<leftarrow> evaluateSupervisions f_syncTimestamp c;
     Some (evaluateRecoveryNotifications inp c)
   }"

text \<open>
  The last step of \<^verbatim>\<open>constructWorkers\<close>: every notification must address its recovery state.
\<close>

fun initProxies :: "(string \<Rightarrow> u64) \<Rightarrow> Notification list \<Rightarrow> registry \<Rightarrow> bool \<times> Notification list \<times> registry" where
  "initProxies hash [] reg = (True, [], reg)"
| "initProxies hash (n # ns) reg =
     (let (ok, n, reg) = initProxy hash n reg
      in if ok then (let (ok, ns, reg) = initProxies hash ns reg in (ok, n # ns, reg))
         else (False, n # ns, reg))"

subsection \<open>The daemon\<close>

record PhmDaemon =
  swClusterHandlers :: "SwClusterHandler list"
  processStateReader :: ProcessStateReader
  pd_psBuffer :: PsBuffer
  pd_watchdog :: WatchdogImpl

definition pd_syncTimestamp :: "timespec option \<Rightarrow> NanoSecondType" where
  "pd_syncTimestamp clock =
     (let syncTimestamp = getMonotonicSystemClock clock in if syncTimestamp = 0 then UINT64_MAX else syncTimestamp)"

text \<open>Every cluster registers its objects with the one reader; each change goes to all of them.\<close>

fun map_opt :: "('a \<Rightarrow> 'b option) \<Rightarrow> 'a list \<Rightarrow> 'b list option" where
  "map_opt f [] = Some []"
| "map_opt f (x # xs) = do { y \<leftarrow> f x; ys \<leftarrow> map_opt f xs; Some (y # ys) }"

text \<open>
  The evaluation of a cycle: whether there was a critical failure, and the daemon before the
  watchdog is served. \<open>inp\<close> gives the inputs of the notifications by cluster and index.
\<close>

definition pd_evaluateCycle ::
  "timespec option \<Rightarrow> (nat \<Rightarrow> nat \<Rightarrow> TriggerInput) \<Rightarrow> PhmDaemon \<Rightarrow> (bool \<times> PhmDaemon) option"
where
  "pd_evaluateCycle clock inp d = (let syncTimestamp = pd_syncTimestamp clock; r = processStateReader d in do {
     (success, r', b') \<leftarrow> distributeChanges syncTimestamp r (pd_psBuffer d);
     hs \<leftarrow> map_opt (iterate notifyProcessState (drop (length (psr_pushed r)) (psr_pushed r'))) (swClusterHandlers d);
     let d = d\<lparr>processStateReader := r', pd_psBuffer := b', swClusterHandlers := hs\<rparr>;
     (if success
      then do {
        hs \<leftarrow> map_opt (\<lambda>(k, h). sw_performCyclicTriggers syncTimestamp (inp k) h) (zip [0..<length hs] hs);
        Some (list_ex hasRecoveryNotificationTimeout hs, d\<lparr>swClusterHandlers := hs\<rparr>)
      }
      else Some (True, d))
   })"

text \<open>The result also tells whether the call waits forever after firing the watchdog.\<close>

definition performCyclicTriggers ::
  "'w DeviceIf \<Rightarrow> timespec option \<Rightarrow> (nat \<Rightarrow> nat \<Rightarrow> TriggerInput) \<Rightarrow> PhmDaemon \<Rightarrow> 'w \<Rightarrow> (bool \<times> PhmDaemon \<times> 'w) option"
where
  "performCyclicTriggers dev clock inp d w = do {
     (isCriticalFailure, d) \<leftarrow> pd_evaluateCycle clock inp d;
     (if \<not> isCriticalFailure then Some (False, d, serviceWatchdog dev (pd_watchdog d) w)
      else do {
        (waits, wd, w) \<leftarrow> fireWatchdogReaction dev (pd_watchdog d) w;
        Some (waits, d\<lparr>pd_watchdog := wd\<rparr>, w)
      })
   }"


subsection \<open>Loops that keep an invariant return\<close>

lemma list_all_update: "list_all P xs \<Longrightarrow> (i < length xs \<Longrightarrow> P x) \<Longrightarrow> list_all P (xs[i := x])"
  by (cases "i < length xs") (auto simp: list_all_length nth_list_update)

lemma list_all2_update:
  "(\<And>x. R x x) \<Longrightarrow> (i < length xs \<Longrightarrow> R (xs ! i) x) \<Longrightarrow> list_all2 R xs (xs[i := x])"
  by (cases "i < length xs") (auto simp: list_all2_conv_all_nth nth_list_update)

lemma notify_total:
  assumes "\<And>x. P x \<Longrightarrow> \<exists>y. f x = Some y \<and> P y" "\<forall>i \<in> set is. i < length xs" "list_all P xs"
  shows "\<exists>ys. notify is f xs = Some ys \<and> length ys = length xs \<and> list_all P ys"
  using assms(2,3)
proof (induction "is" arbitrary: xs)
  case (Cons i "is")
  then have "P (xs ! i)" by (simp add: list_all_length)
  then obtain x where x: "f (xs ! i) = Some x" "P x" using assms(1) by blast
  have "list_all P (xs[i := x])"
    using Cons.prems x(2) by (auto simp: list_all_length nth_list_update)
  then show ?case using Cons.IH [of "xs[i := x]"] Cons.prems x(1) by auto
qed simp

lemma iterate_total:
  assumes "\<And>x s. x \<in> set xs \<Longrightarrow> P s \<Longrightarrow> \<exists>s'. f x s = Some s' \<and> P s'" "P s"
  shows "\<exists>s'. iterate f xs s = Some s' \<and> P s'"
  using assms
proof (induction xs arbitrary: s)
  case (Cons x xs)
  then obtain s1 where s1: "f x s = Some s1" "P s1" by (meson list.set_intros(1))
  then show ?case using Cons.IH [of s1] Cons.prems(1) by auto
qed simp

lemma map_opt_total:
  assumes "\<And>x. x \<in> set xs \<Longrightarrow> \<exists>y. f x = Some y \<and> Q x y"
  shows "\<exists>ys. map_opt f xs = Some ys \<and> list_all2 Q xs ys"
  using assms
proof (induction xs)
  case (Cons x xs)
  obtain y where "f x = Some y" "Q x y" using Cons.prems by auto
  moreover obtain ys where "map_opt f xs = Some ys" "list_all2 Q xs ys" using Cons by auto
  ultimately show ?case by auto
qed simp

subsection \<open>What the operations keep\<close>

definition psr_wf :: "ProcessStateReader \<Rightarrow> bool" where
  "psr_wf r \<longleftrightarrow> (\<forall>p. ProcessState_wf (psr_store r p)) \<and> (\<forall>x \<in> set (psr_pushed r). ProcessState_wf (snd x))"

lemma pushUpdateTill_wf: "psr_wf r \<Longrightarrow> psr_wf (snd (pushUpdateTill c t r))"
  by (auto simp: pushUpdateTill_def psr_wf_def psr_pushData_def Let_def ProcessState_wf_def setTimestamp_def
      setProcessGroupState_def setState_def split: option.split)

lemma psr_wf_pending [simp]: "psr_wf (r\<lparr>isPushPending := x\<rparr>) = psr_wf r"
  by (simp add: psr_wf_def)

lemma distributeChanges_loop_wf:
  assumes "distributeChanges_loop t r b = Some x" "psr_wf r"
  shows "psr_wf (fst (snd x))"
proof -
  have "psr_wf r \<longrightarrow> psr_wf (fst (snd x))"
  proof (rule distributeChanges_loop.raw_induct [OF _ assms(1), where P = "\<lambda>t r b x. psr_wf r \<longrightarrow> psr_wf (fst (snd x))"])
    fix f t r b x
    assume IH: "\<And>t r b x. f t r b = Some x \<Longrightarrow> psr_wf r \<longrightarrow> psr_wf (fst (snd x))"
      and "(case getNextChangedPosixProcess b of
          (Inr (Some changedPosixProcess), b) \<Rightarrow>
            (let (pending, r) = pushUpdateTill changedPosixProcess t r; r = r\<lparr>isPushPending := pending\<rparr>
             in if \<not> isPushPending r then f t r b else Some (True, r, b))
        | (Inr None, b) \<Rightarrow> Some (True, r, b)
        | (Inl _, b) \<Rightarrow> Some (False, r, b)) = Some x"
    then show "psr_wf r \<longrightarrow> psr_wf (fst (snd x))"
      using pushUpdateTill_wf [of r _ t]
      by (fastforce simp: Let_def case_prod_beta dest: IH split: sum.splits option.splits if_splits prod.splits)
  qed
  then show ?thesis using assms(2) by blast
qed

lemma distributeChanges_wf:
  assumes "distributeChanges t r b = Some (ok, r', b')" "psr_wf r"
  shows "psr_wf r'"
proof -
  have "psr_wf (psr_pushData p r)" for p using assms(2) by (simp add: psr_wf_def psr_pushData_def)
  then show ?thesis
    using assms distributeChanges_loop_wf
    by (fastforce simp: distributeChanges_def bind_eq_Some_conv split: if_splits)
qed

definition gl_targets :: "nat \<Rightarrow> Global \<Rightarrow> bool" where
  "gl_targets n s \<longleftrightarrow> (\<forall>i \<in> set (registeredRecoveryNotifications s). i < n) \<and> (\<forall>x \<in> set (gl_sent s). fst x < n)"

lemma gl_targets_push: "gl_push e t s = Some s' \<Longrightarrow> gl_targets n s \<Longrightarrow> gl_targets n s'"
  by (auto simp: gl_push_def gl_targets_def Let_def bind_eq_Some_conv split: if_splits)

lemma gl_targets_update:
  "gl_updateLocal a r s = Some s' \<Longrightarrow> gl_targets n s \<Longrightarrow> gl_targets n s'"
  "gl_updateProcessState p s = Some s' \<Longrightarrow> gl_targets n s \<Longrightarrow> gl_targets n s'"
  by (auto simp: gl_updateLocal_def gl_updateProcessState_def Let_def dest: gl_targets_push split: if_splits option.splits)

lemma gl_targets_switch:
  "gl_targets n (gl_switchToStopped r s) = gl_targets n s" "gl_targets n (gl_switchToOk s) = gl_targets n s"
  "gl_targets n (gl_switchToFailed s) = gl_targets n s" "gl_targets n (gl_switchToDeactivated s) = gl_targets n s"
  "gl_targets n (gl_switchToExpired t s) = gl_targets n s" "gl_targets n (clock_checked t s) = gl_targets n s"
  by (auto simp: gl_switch_defs gl_targets_def clock_checked_def Let_def)

lemma gl_targets_update_simps [simp]:
  "gl_targets n (s\<lparr>expiredSupervision := a, gl_executionError := e\<rparr>) = gl_targets n s"
  "gl_targets n (s\<lparr>localStatusOverTime := m\<rparr>) = gl_targets n s"
  "gl_targets n (s\<lparr>expiredTolerance := x\<rparr>) = gl_targets n s"
  "gl_targets n (s\<lparr>gl_buffer := b\<rparr>) = gl_targets n s"
  "gl_targets n (s\<lparr>gl_buffer := b, gl_isDataLossEvent := l\<rparr>) = gl_targets n s"
  by (simp_all add: gl_targets_def)

lemma gl_targets_process: "gl_targets n s \<Longrightarrow> gl_targets n (gl_process e s)"
  by (cases e)
    (simp_all add: evaluatePGStateChange_def evaluateLocalSupervisionUpdate_def gl_transition_defs gl_expire_def isDebounced_eq Let_def
      gl_targets_switch split: GlobalSupervisionStatus.split LocalSupervisionStatus.split)

lemma gl_targets_scan: "gl_targets n s \<Longrightarrow> gl_targets n (fold gl_process es s)"
  by (induction es arbitrary: s) (simp_all add: gl_targets_process)

lemma gl_evaluate_targets:
  assumes "gl_inv s" "gl_targets n s"
  shows "\<exists>s'. gl_evaluate t s = Some s' \<and> gl_inv s' \<and> gl_targets n s'"
proof (cases "gl_isDataLossEvent s")
  case True
  then have "gl_targets n s'" if "gl_evaluate t s = Some s'" for s'
    using that assms(2) by (auto simp: gl_evaluate_def Let_def gl_targets_switch)
  then show ?thesis using gl_evaluate_inv [OF assms(1), of t] by blast
next
  case False
  then obtain b' where "gl_evaluate t s =
      Some (gl_timeout t ((fold gl_process (map snd (tsb_contents (gl_buffer s))) s)\<lparr>gl_buffer := tsb_clear b'\<rparr>))"
    using gl_evaluate_scan [OF assms(1)] by blast
  then have "gl_targets n s'" if "gl_evaluate t s = Some s'" for s'
    using that gl_targets_scan [OF assms(2), of "map snd (tsb_contents (gl_buffer s))"]
    by (auto simp: gl_timeout_def gl_targets_switch)
  then show ?thesis using gl_evaluate_inv [OF assms(1), of t] by blast
qed

subsection \<open>The invariant of a cluster\<close>

definition mon_ok :: "MonitorIfDaemon \<times> CpBuffer \<Rightarrow> bool" where
  "mon_ok mb \<longleftrightarrow> (\<exists>ids obs sent. mi_inv ids obs sent mb)"

definition in_range :: "('k \<Rightarrow> nat list) \<Rightarrow> nat \<Rightarrow> bool" where
  "in_range f n \<longleftrightarrow> (\<forall>a. \<forall>i \<in> set (f a). i < n)"

definition sw_wired :: "SwClusterHandler \<Rightarrow> bool" where
  "sw_wired c \<longleftrightarrow> (let w = sw_wiring c in
     in_range (w_cpAlives w) (length (aliveSupervisions c)) \<and> in_range (w_psAlives w) (length (aliveSupervisions c)) \<and>
     in_range (w_cpDeadlines w) (length (deadlineSupervisions c)) \<and> in_range (w_psDeadlines w) (length (deadlineSupervisions c)) \<and>
     in_range (w_cpLogicals w) (length (logicalSupervisions c)) \<and> in_range (w_psLogicals w) (length (logicalSupervisions c)) \<and>
     in_range (w_psMonitors w) (length (monitorInterfaces c)) \<and> in_range (w_psGlobals w) (length (globalSupervisions c)) \<and>
     in_range (w_aliveLocals w) (length (localSupervisions c)) \<and> in_range (w_deadlineLocals w) (length (localSupervisions c)) \<and>
     in_range (w_logicalLocals w) (length (localSupervisions c)) \<and> in_range (w_localGlobals w) (length (globalSupervisions c)))"

definition sw_inv :: "SwClusterHandler \<Rightarrow> bool" where
  "sw_inv c \<longleftrightarrow> sw_wired c \<and> list_all mon_ok (monitorInterfaces c) \<and>
     list_all al_inv (aliveSupervisions c) \<and> list_all dl_inv (deadlineSupervisions c) \<and>
     list_all lg_inv (logicalSupervisions c) \<and> list_all lo_inv (localSupervisions c) \<and>
     list_all (\<lambda>g. gl_inv g \<and> gl_targets (length (recoveryNotifications c)) g) (globalSupervisions c)"

text \<open>What never changes after the construction, and that a timed out notification stays timed out.\<close>

definition sw_shape where
  "sw_shape c = (sw_wiring c, length (monitorInterfaces c), length (aliveSupervisions c), length (deadlineSupervisions c),
     length (logicalSupervisions c), length (localSupervisions c), length (globalSupervisions c),
     length (recoveryNotifications c))"

definition sw_keeps :: "SwClusterHandler \<Rightarrow> SwClusterHandler \<Rightarrow> bool" where
  "sw_keeps c c' \<longleftrightarrow> sw_shape c' = sw_shape c \<and>
     list_all2 (\<lambda>n n'. isFinalTimeoutStateReached n \<longrightarrow> isFinalTimeoutStateReached n')
       (recoveryNotifications c) (recoveryNotifications c')"

lemma sw_keeps_refl [simp]: "sw_keeps c c"
  by (simp add: sw_keeps_def list_all2_refl)

lemma sw_keeps_trans: "sw_keeps a b \<Longrightarrow> sw_keeps b c \<Longrightarrow> sw_keeps a c"
  unfolding sw_keeps_def by (auto elim: list_all2_trans [rotated])

lemma mon_ok_updateData: "mon_ok mb \<Longrightarrow> \<exists>x. (case mb of (m, b) \<Rightarrow> Some (mi_updateData p m, b)) = Some x \<and> mon_ok x"
  by (cases mb) (auto simp: mon_ok_def intro: mi_inv_process)

lemmas sw_inv_defs = sw_inv_def sw_wired_def sw_keeps_def sw_shape_def Let_def list_all2_refl

lemma sw_range:
  assumes "sw_inv c"
  shows "\<forall>i \<in> set (w_cpAlives (sw_wiring c) a). i < length (aliveSupervisions c)"
    and "\<forall>i \<in> set (w_psAlives (sw_wiring c) q). i < length (aliveSupervisions c)"
    and "\<forall>i \<in> set (w_cpDeadlines (sw_wiring c) a). i < length (deadlineSupervisions c)"
    and "\<forall>i \<in> set (w_psDeadlines (sw_wiring c) q). i < length (deadlineSupervisions c)"
    and "\<forall>i \<in> set (w_cpLogicals (sw_wiring c) a). i < length (logicalSupervisions c)"
    and "\<forall>i \<in> set (w_psLogicals (sw_wiring c) q). i < length (logicalSupervisions c)"
    and "\<forall>i \<in> set (w_psMonitors (sw_wiring c) q). i < length (monitorInterfaces c)"
    and "\<forall>i \<in> set (w_psGlobals (sw_wiring c) q). i < length (globalSupervisions c)"
    and "\<forall>i \<in> set (w_aliveLocals (sw_wiring c) k). i < length (localSupervisions c)"
    and "\<forall>i \<in> set (w_deadlineLocals (sw_wiring c) k). i < length (localSupervisions c)"
    and "\<forall>i \<in> set (w_logicalLocals (sw_wiring c) k). i < length (localSupervisions c)"
    and "\<forall>i \<in> set (w_localGlobals (sw_wiring c) k). i < length (globalSupervisions c)"
  using assms by (simp_all add: sw_inv_def sw_wired_def Let_def in_range_def)

lemma sw_objects:
  assumes "sw_inv c"
  shows "list_all mon_ok (monitorInterfaces c)" "list_all al_inv (aliveSupervisions c)"
    "list_all dl_inv (deadlineSupervisions c)" "list_all lg_inv (logicalSupervisions c)"
    "list_all lo_inv (localSupervisions c)"
    "list_all (\<lambda>g. gl_inv g \<and> gl_targets (length (recoveryNotifications c)) g) (globalSupervisions c)"
  using assms by (simp_all add: sw_inv_def)

lemma notifyCheckpoint_inv:
  assumes "sw_inv c"
  shows "\<exists>c'. notifyCheckpoint p c = Some c' \<and> sw_inv c' \<and> sw_keeps c c'"
proof -
  obtain addr cp where p: "p = (addr, cp)" by fastforce
  obtain as where as: "notify (w_cpAlives (sw_wiring c) addr) (al_updateCheckpoint addr cp) (aliveSupervisions c) = Some as"
    "length as = length (aliveSupervisions c)" "list_all al_inv as"
    using notify_total [of al_inv "al_updateCheckpoint addr cp", OF al_updateCheckpoint_inv sw_range(1) [OF assms] sw_objects(2) [OF assms]] by blast
  obtain ds where ds: "notify (w_cpDeadlines (sw_wiring c) addr) (dl_updateCheckpoint addr cp) (deadlineSupervisions c) = Some ds"
    "length ds = length (deadlineSupervisions c)" "list_all dl_inv ds"
    using notify_total [of dl_inv "dl_updateCheckpoint addr cp", OF dl_updateCheckpoint_inv sw_range(3) [OF assms] sw_objects(3) [OF assms]] by blast
  obtain ls where ls: "notify (w_cpLogicals (sw_wiring c) addr) (lg_updateCheckpoint addr cp) (logicalSupervisions c) = Some ls"
    "length ls = length (logicalSupervisions c)" "list_all lg_inv ls"
    using notify_total [of lg_inv "lg_updateCheckpoint addr cp", OF lg_updateCheckpoint_inv sw_range(5) [OF assms] sw_objects(4) [OF assms]] by blast
  show ?thesis using p as ds ls assms by (simp add: notifyCheckpoint_def sw_inv_defs)
qed

lemma notifyProcessState_inv:
  assumes "sw_inv c" "ProcessState_wf (snd p)"
  shows "\<exists>c'. notifyProcessState p c = Some c' \<and> sw_inv c' \<and> sw_keeps c c'"
proof -
  obtain addr ps where p: "p = (addr, ps)" "ProcessState_wf ps" using assms(2) by (cases p) auto
  let ?w = "sw_wiring c" and ?G = "\<lambda>g. gl_inv g \<and> gl_targets (length (recoveryNotifications c)) g"
  obtain ms where ms: "notify (w_psMonitors ?w addr) (\<lambda>(m, b). Some (mi_updateData ps m, b)) (monitorInterfaces c) = Some ms"
    "length ms = length (monitorInterfaces c)" "list_all mon_ok ms"
    using notify_total [of mon_ok "\<lambda>(m, b). Some (mi_updateData ps m, b)", OF mon_ok_updateData sw_range(7) [OF assms(1)] sw_objects(1) [OF assms(1)]] by blast
  obtain as where as: "notify (w_psAlives ?w addr) (al_updateProcessState addr ps) (aliveSupervisions c) = Some as"
    "length as = length (aliveSupervisions c)" "list_all al_inv as"
    using notify_total [of al_inv "al_updateProcessState addr ps", OF al_updateProcessState_inv [OF _ p(2)] sw_range(2) [OF assms(1)] sw_objects(2) [OF assms(1)]] by blast
  obtain ds where ds: "notify (w_psDeadlines ?w addr) (dl_updateProcessState addr ps) (deadlineSupervisions c) = Some ds"
    "length ds = length (deadlineSupervisions c)" "list_all dl_inv ds"
    using notify_total [of dl_inv "dl_updateProcessState addr ps", OF dl_updateProcessState_inv [OF _ p(2)] sw_range(4) [OF assms(1)] sw_objects(3) [OF assms(1)]] by blast
  obtain ls where ls: "notify (w_psLogicals ?w addr) (lg_updateProcessState addr ps) (logicalSupervisions c) = Some ls"
    "length ls = length (logicalSupervisions c)" "list_all lg_inv ls"
    using notify_total [of lg_inv "lg_updateProcessState addr ps", OF lg_updateProcessState_inv [OF _ p(2)] sw_range(6) [OF assms(1)] sw_objects(4) [OF assms(1)]] by blast
  have g: "\<exists>y. gl_updateProcessState ps x = Some y \<and> ?G y" if "?G x" for x
    using gl_updateProcessState_inv [of x ps] gl_targets_update(2) that by blast
  obtain gs where gs: "notify (w_psGlobals ?w addr) (gl_updateProcessState ps) (globalSupervisions c) = Some gs"
    "length gs = length (globalSupervisions c)" "list_all ?G gs"
    using notify_total [of ?G "gl_updateProcessState ps", OF g sw_range(8) [OF assms(1)] sw_objects(6) [OF assms(1)]] by blast
  show ?thesis using p ms as ds ls gs assms by (simp add: notifyProcessState_def sw_inv_defs)
qed

lemma notifyLocals_inv:
  assumes "sw_inv c" "\<forall>i \<in> set obs. i < length (localSupervisions c)"
  shows "\<exists>c'. notifyLocals obs a ty rs c = Some c' \<and> sw_inv c' \<and> sw_keeps c c'"
proof -
  let ?P = "\<lambda>ls. length ls = length (localSupervisions c) \<and> list_all lo_inv ls"
  have u: "\<exists>y. lo_updateDataGeneralized a r ty x = Some y \<and> lo_inv y" if "lo_inv x" for r x
    using lo_updateDataGeneralized_inv [OF that] by blast
  have "\<exists>ls. iterate (\<lambda>r. notify obs (lo_updateDataGeneralized a r ty)) rs (localSupervisions c) = Some ls \<and> ?P ls"
  proof (rule iterate_total)
    fix r ls assume "?P ls"
    then show "\<exists>ls'. notify obs (lo_updateDataGeneralized a r ty) ls = Some ls' \<and> ?P ls'"
      using notify_total [of lo_inv _ obs ls, OF u] assms(2) by auto
  qed (use assms(1) in \<open>simp add: sw_inv_def\<close>)
  then show ?thesis using assms by (auto simp: notifyLocals_def sw_inv_defs)
qed

lemma notifyGlobals_inv:
  assumes "sw_inv c" "\<forall>i \<in> set obs. i < length (globalSupervisions c)"
  shows "\<exists>c'. notifyGlobals obs a rs c = Some c' \<and> sw_inv c' \<and> sw_keeps c c'"
proof -
  let ?G = "\<lambda>g. gl_inv g \<and> gl_targets (length (recoveryNotifications c)) g"
  let ?P = "\<lambda>gs. length gs = length (globalSupervisions c) \<and> list_all ?G gs"
  have u: "\<exists>y. gl_updateLocal a r x = Some y \<and> ?G y" if "?G x" for r x
    using gl_updateLocal_inv [of x a r] gl_targets_update(1) that by blast
  have "\<exists>gs. iterate (\<lambda>r. notify obs (gl_updateLocal a r)) rs (globalSupervisions c) = Some gs \<and> ?P gs"
  proof (rule iterate_total)
    fix r gs assume "?P gs"
    then show "\<exists>gs'. notify obs (gl_updateLocal a r) gs = Some gs' \<and> ?P gs'"
      using notify_total [of ?G _ obs gs, OF u] assms(2) by auto
  qed (use assms(1) in \<open>simp add: sw_inv_def\<close>)
  then show ?thesis using assms by (auto simp: notifyGlobals_def sw_inv_defs)
qed

lemma notify_sent:
  assumes "\<forall>i \<in> set is. i < length ns"
  shows "\<exists>ns'. notify is (\<lambda>n. Some (nt_send n)) ns = Some ns' \<and>
    list_all2 (\<lambda>n n'. isFinalTimeoutStateReached n \<longrightarrow> isFinalTimeoutStateReached n') ns ns'"
  using assms
proof (induction "is" arbitrary: ns)
  case Nil
  then show ?case by (simp add: list_all2_refl)
next
  case (Cons i "is")
  let ?ns = "ns[i := nt_send (ns ! i)]"
  have "list_all2 (\<lambda>n n'. isFinalTimeoutStateReached n \<longrightarrow> isFinalTimeoutStateReached n') ns ?ns"
    using Cons.prems by (auto simp: list_all2_conv_all_nth nth_list_update isFinalTimeoutStateReached_def timeout_absorbing)
  moreover obtain ns' where "notify is (\<lambda>n. Some (nt_send n)) ?ns = Some ns'"
    "list_all2 (\<lambda>n n'. isFinalTimeoutStateReached n \<longrightarrow> isFinalTimeoutStateReached n') ?ns ns'"
    using Cons.IH [of ?ns] Cons.prems by auto
  ultimately show ?case using Cons.prems by (auto elim: list_all2_trans [rotated])
qed

lemma notifyRecovery_inv:
  assumes "sw_inv c" "\<forall>x \<in> set sent. fst x < length (recoveryNotifications c)"
  shows "\<exists>c'. notifyRecovery sent c = Some c' \<and> sw_inv c' \<and> sw_keeps c c'"
proof -
  obtain ns where "notify (map fst sent) (\<lambda>n. Some (nt_send n)) (recoveryNotifications c) = Some ns"
    "list_all2 (\<lambda>n n'. isFinalTimeoutStateReached n \<longrightarrow> isFinalTimeoutStateReached n') (recoveryNotifications c) ns"
    using notify_sent [of "map fst sent" "recoveryNotifications c"] assms(2) by auto
  then show ?thesis
    using assms(1) list_all2_lengthD [of _ "recoveryNotifications c" ns] by (simp add: notifyRecovery_def sw_inv_defs)
qed

text \<open>A loop of operations that each keep the invariant keeps it.\<close>

lemma sw_iterate:
  assumes "\<And>x c. x \<in> set xs \<Longrightarrow> sw_inv c \<Longrightarrow> sw_shape c = sw_shape c0 \<Longrightarrow> \<exists>c'. f x c = Some c' \<and> sw_inv c' \<and> sw_keeps c c'"
    "sw_inv c0"
  shows "\<exists>c'. iterate f xs c0 = Some c' \<and> sw_inv c' \<and> sw_keeps c0 c'"
proof (rule iterate_total)
  fix x c
  assume "x \<in> set xs" "sw_inv c \<and> sw_keeps c0 c"
  then show "\<exists>c'. f x c = Some c' \<and> sw_inv c' \<and> sw_keeps c0 c'"
    using assms(1) [of x c] sw_keeps_trans by (metis sw_keeps_def)
qed (simp add: assms(2))

lemma sw_checkInterface_inv:
  assumes "sw_inv c" "i < length (monitorInterfaces c)"
  shows "\<exists>c'. sw_checkInterface t i c = Some c' \<and> sw_inv c' \<and> sw_keeps c c'"
proof -
  obtain m b where mb: "monitorInterfaces c ! i = (m, b)" by fastforce
  then have "mon_ok (m, b)" using assms by (metis list_all_length sw_objects(1))
  then obtain m' b' where m': "checkForNewData t m b = Some (m', b')" "mon_ok (m', b')"
    unfolding mon_ok_def using mi_inv_cycle by blast
  let ?c = "c\<lparr>monitorInterfaces := (monitorInterfaces c)[i := (m', b')]\<rparr>"
  have c: "sw_inv ?c" "sw_keeps c ?c"
    using assms m'(2) by (auto simp: sw_inv_defs list_all_length nth_list_update)
  show ?thesis
    using sw_iterate [of "drop (length (mi_pushed m)) (mi_pushed m')" ?c notifyCheckpoint, OF notifyCheckpoint_inv c(1)]
      sw_keeps_trans [OF c(2)] mb m'(1) by (auto simp: sw_checkInterface_def)
qed

lemma checkInterfaceForNewData_inv:
  "sw_inv c \<Longrightarrow> \<exists>c'. checkInterfaceForNewData t c = Some c' \<and> sw_inv c' \<and> sw_keeps c c'"
  unfolding checkInterfaceForNewData_def
  by (rule sw_iterate) (auto intro!: sw_checkInterface_inv simp: sw_shape_def)

lemma sw_evaluateAlive_inv:
  assumes "sw_inv c" "i < length (aliveSupervisions c)"
  shows "\<exists>c'. sw_evaluateAlive t i c = Some c' \<and> sw_inv c' \<and> sw_keeps c c'"
proof -
  obtain s' where s': "al_evaluate t (aliveSupervisions c ! i) = Some s'" "al_inv s'"
    using al_evaluate_inv [of "aliveSupervisions c ! i" t] sw_objects(2) [OF assms(1)] assms(2)
    by (auto simp: list_all_length)
  let ?c = "c\<lparr>aliveSupervisions := (aliveSupervisions c)[i := s']\<rparr>"
  have c: "sw_inv ?c" "sw_keeps c ?c"
    using assms s'(2) by (auto simp: sw_inv_defs list_all_length nth_list_update)
  show ?thesis
    using notifyLocals_inv [OF c(1), of "w_aliveLocals (sw_wiring c) i"] sw_range(9) [OF assms(1)] sw_keeps_trans [OF c(2)] s'(1)
    by (fastforce simp: sw_evaluateAlive_def Let_def)
qed

lemma sw_evaluateDeadline_inv:
  assumes "sw_inv c" "i < length (deadlineSupervisions c)"
  shows "\<exists>c'. sw_evaluateDeadline t i c = Some c' \<and> sw_inv c' \<and> sw_keeps c c'"
proof -
  obtain s' where s': "dl_evaluate t (deadlineSupervisions c ! i) = Some s'" "dl_inv s'"
    using dl_evaluate_inv [of "deadlineSupervisions c ! i" t] sw_objects(3) [OF assms(1)] assms(2)
    by (auto simp: list_all_length)
  let ?c = "c\<lparr>deadlineSupervisions := (deadlineSupervisions c)[i := s']\<rparr>"
  have c: "sw_inv ?c" "sw_keeps c ?c"
    using assms s'(2) by (auto simp: sw_inv_defs list_all_length nth_list_update)
  show ?thesis
    using notifyLocals_inv [OF c(1), of "w_deadlineLocals (sw_wiring c) i"] sw_range(10) [OF assms(1)] sw_keeps_trans [OF c(2)] s'(1)
    by (fastforce simp: sw_evaluateDeadline_def Let_def)
qed

lemma sw_evaluateLogical_inv:
  assumes "sw_inv c" "i < length (logicalSupervisions c)"
  shows "\<exists>c'. sw_evaluateLogical t i c = Some c' \<and> sw_inv c' \<and> sw_keeps c c'"
proof -
  obtain s' where s': "lg_evaluate t (logicalSupervisions c ! i) = Some s'" "lg_inv s'"
    using lg_evaluate_inv [of "logicalSupervisions c ! i" t] sw_objects(4) [OF assms(1)] assms(2)
    by (auto simp: list_all_length)
  let ?c = "c\<lparr>logicalSupervisions := (logicalSupervisions c)[i := s']\<rparr>"
  have c: "sw_inv ?c" "sw_keeps c ?c"
    using assms s'(2) by (auto simp: sw_inv_defs list_all_length nth_list_update)
  show ?thesis
    using notifyLocals_inv [OF c(1), of "w_logicalLocals (sw_wiring c) i"] sw_range(11) [OF assms(1)] sw_keeps_trans [OF c(2)] s'(1)
    by (fastforce simp: sw_evaluateLogical_def Let_def)
qed

lemma sw_evaluateLocal_inv:
  assumes "sw_inv c" "i < length (localSupervisions c)"
  shows "\<exists>c'. sw_evaluateLocal t i c = Some c' \<and> sw_inv c' \<and> sw_keeps c c'"
proof -
  obtain s' where s': "lo_evaluate t (localSupervisions c ! i) = Some s'" "lo_inv s'"
    using lo_evaluate_inv [of "localSupervisions c ! i" t] sw_objects(5) [OF assms(1)] assms(2)
    by (auto simp: list_all_length)
  let ?c = "c\<lparr>localSupervisions := (localSupervisions c)[i := s']\<rparr>"
  have c: "sw_inv ?c" "sw_keeps c ?c"
    using assms s'(2) by (auto simp: sw_inv_defs list_all_length nth_list_update)
  show ?thesis
    using notifyGlobals_inv [OF c(1), of "w_localGlobals (sw_wiring c) i"] sw_range(12) [OF assms(1)] sw_keeps_trans [OF c(2)] s'(1)
    by (fastforce simp: sw_evaluateLocal_def Let_def)
qed

lemma sw_evaluateGlobal_inv:
  assumes "sw_inv c" "i < length (globalSupervisions c)"
  shows "\<exists>c'. sw_evaluateGlobal t i c = Some c' \<and> sw_inv c' \<and> sw_keeps c c'"
proof -
  let ?n = "length (recoveryNotifications c)"
  obtain s' where s': "gl_evaluate t (globalSupervisions c ! i) = Some s'" "gl_inv s'" "gl_targets ?n s'"
    using gl_evaluate_targets [of "globalSupervisions c ! i" ?n t] sw_objects(6) [OF assms(1)] assms(2)
    by (auto simp: list_all_length)
  let ?c = "c\<lparr>globalSupervisions := (globalSupervisions c)[i := s']\<rparr>"
  let ?sent = "drop (length (gl_sent (globalSupervisions c ! i))) (gl_sent s')"
  have c: "sw_inv ?c" "sw_keeps c ?c"
    using assms s'(2,3) by (auto simp: sw_inv_defs list_all_length nth_list_update)
  have "\<forall>x \<in> set ?sent. fst x < ?n" using s'(3) by (auto simp: gl_targets_def dest: in_set_dropD)
  then show ?thesis
    using notifyRecovery_inv [OF c(1), of ?sent] sw_keeps_trans [OF c(2)] s'(1)
    by (auto simp: sw_evaluateGlobal_def Let_def)
qed

text \<open>Sequencing two operations that keep the invariant.\<close>

lemma sw_then:
  assumes "\<exists>c'. a = Some c' \<and> sw_inv c' \<and> sw_keeps c c'" "\<And>c'. sw_inv c' \<Longrightarrow> \<exists>c''. f c' = Some c'' \<and> sw_inv c'' \<and> sw_keeps c' c''"
  shows "\<exists>c''. a \<bind> f = Some c'' \<and> sw_inv c'' \<and> sw_keeps c c''"
  using assms sw_keeps_trans by fastforce

lemma evaluateSupervisions_inv:
  assumes "sw_inv c"
  shows "\<exists>c'. evaluateSupervisions t c = Some c' \<and> sw_inv c' \<and> sw_keeps c c'"
  unfolding evaluateSupervisions_def
  by (intro sw_then sw_iterate assms)
    (auto simp: sw_shape_def intro!: sw_evaluateAlive_inv sw_evaluateDeadline_inv sw_evaluateLogical_inv sw_evaluateLocal_inv
      sw_evaluateGlobal_inv)

lemma evaluateRecoveryNotifications_inv:
  assumes "sw_inv c"
  shows "sw_inv (evaluateRecoveryNotifications inp c)" "sw_keeps c (evaluateRecoveryNotifications inp c)"
  using assms
  by (auto simp: evaluateRecoveryNotifications_def sw_inv_defs list_all2_conv_all_nth isFinalTimeoutStateReached_def timeout_absorbing)

lemma sw_performCyclicTriggers_inv:
  assumes "sw_inv c"
  shows "\<exists>c'. sw_performCyclicTriggers t inp c = Some c' \<and> sw_inv c' \<and> sw_keeps c c'"
  unfolding sw_performCyclicTriggers_def
  by (intro sw_then checkInterfaceForNewData_inv evaluateSupervisions_inv assms) (auto simp: evaluateRecoveryNotifications_inv)

lemma sw_keeps_timeout:
  "sw_keeps c c' \<Longrightarrow> hasRecoveryNotificationTimeout c \<Longrightarrow> hasRecoveryNotificationTimeout c'"
  by (fastforce simp: sw_keeps_def hasRecoveryNotificationTimeout_def list_ex_length list_all2_conv_all_nth)

subsection \<open>The invariant of the daemon\<close>

definition pd_inv :: "PhmDaemon \<Rightarrow> bool" where
  "pd_inv d \<longleftrightarrow> list_all sw_inv (swClusterHandlers d) \<and> psr_ok (processStateReader d) \<and> psr_wf (processStateReader d) \<and>
     rb_inv BUFFER_MAXPAYLOAD (pd_psBuffer d)"

definition pd_critical :: "PhmDaemon \<Rightarrow> bool" where
  "pd_critical d \<longleftrightarrow> overflow_flag (pd_psBuffer d) \<or> list_ex hasRecoveryNotificationTimeout (swClusterHandlers d)"

lemma distributeChanges_total:
  assumes "psr_ok r" "psr_wf r" "rb_inv BUFFER_MAXPAYLOAD b"
  shows "\<exists>r' b'. distributeChanges t r b = Some (\<not> overflow_flag b, r', b') \<and> psr_ok r' \<and> psr_wf r' \<and>
    rb_inv BUFFER_MAXPAYLOAD b' \<and> overflow_flag b' = overflow_flag b"
proof (cases "overflow_flag b")
  case True
  then show ?thesis using distributeChanges_overflow [OF True assms(1), of t] distributeChanges_wf assms(2,3) by auto
next
  case False
  then show ?thesis using distributeChanges_exact [OF assms(3) False assms(1), of t] distributeChanges_wf assms(2) by auto
qed

lemma clusters_total:
  assumes "\<And>x. x \<in> set xs \<Longrightarrow> \<exists>y. f x = Some y \<and> sw_inv y \<and> sw_keeps (g x) y"
  shows "\<exists>ys. map_opt f xs = Some ys \<and> list_all sw_inv ys \<and> list_all2 sw_keeps (map g xs) ys"
proof -
  obtain ys where ys: "map_opt f xs = Some ys" "list_all2 (\<lambda>x y. sw_inv y \<and> sw_keeps (g x) y) xs ys"
    using map_opt_total [of xs f "\<lambda>x y. sw_inv y \<and> sw_keeps (g x) y", OF assms] by blast
  then show ?thesis by (auto simp: list_all2_conv_all_nth list_all_length)
qed

lemma clusters_timeout:
  "list_all2 sw_keeps hs hs' \<Longrightarrow> list_ex hasRecoveryNotificationTimeout hs \<Longrightarrow> list_ex hasRecoveryNotificationTimeout hs'"
  using sw_keeps_timeout by (fastforce simp: list_ex_length list_all2_conv_all_nth)

lemma pd_evaluateCycle_inv:
  assumes "pd_inv d"
  shows "\<exists>d'. pd_evaluateCycle clock inp d = Some (pd_critical d', d') \<and> pd_inv d' \<and> (pd_critical d \<longrightarrow> pd_critical d') \<and>
    pd_watchdog d' = pd_watchdog d"
proof -
  let ?r = "processStateReader d" and ?b = "pd_psBuffer d" and ?t = "pd_syncTimestamp clock"
  obtain r' b' where r': "distributeChanges ?t ?r ?b = Some (\<not> overflow_flag ?b, r', b')" "psr_ok r'" "psr_wf r'"
    "rb_inv BUFFER_MAXPAYLOAD b'" "overflow_flag b' = overflow_flag ?b"
    using distributeChanges_total [of ?r ?b ?t] assms by (auto simp: pd_inv_def)
  let ?ps = "drop (length (psr_pushed ?r)) (psr_pushed r')"
  have wf: "ProcessState_wf (snd p)" if "p \<in> set ?ps" for p using r'(3) that in_set_dropD by (fastforce simp: psr_wf_def)
  have "\<exists>h'. iterate notifyProcessState ?ps h = Some h' \<and> sw_inv h' \<and> sw_keeps h h'" if "h \<in> set (swClusterHandlers d)" for h
    using that assms by (intro sw_iterate notifyProcessState_inv wf) (auto simp: pd_inv_def list_all_iff)
  then obtain hs where hs: "map_opt (iterate notifyProcessState ?ps) (swClusterHandlers d) = Some hs" "list_all sw_inv hs"
    "list_all2 sw_keeps (swClusterHandlers d) hs"
    using clusters_total [of "swClusterHandlers d" "iterate notifyProcessState ?ps" "\<lambda>h. h"] by auto
  let ?f = "\<lambda>(k, h). sw_performCyclicTriggers ?t (inp k) h"
  have "\<exists>y. ?f x = Some y \<and> sw_inv y \<and> sw_keeps (snd x) y" if "x \<in> set (zip [0..<length hs] hs)" for x
  proof -
    obtain k h where x: "x = (k, h)" by fastforce
    then have "sw_inv h" using that hs(2) set_zip_rightD [of k h] by (auto simp: list_all_iff)
    then show ?thesis using sw_performCyclicTriggers_inv x by simp
  qed
  then obtain hs' where hs': "map_opt ?f (zip [0..<length hs] hs) = Some hs'" "list_all sw_inv hs'" "list_all2 sw_keeps hs hs'"
    using clusters_total [of "zip [0..<length hs] hs" ?f snd] by auto
  show ?thesis
    using r' hs hs' clusters_timeout [OF hs(3)] clusters_timeout [OF hs'(3)]
    by (auto simp: pd_evaluateCycle_def Let_def pd_inv_def pd_critical_def)
qed

subsection \<open>Construction with a notification without configuration\<close>

text \<open>
  A notification without configuration, which only exists to fire the watchdog, has no recovery state
  identifier. The loop over \<^verbatim>\<open>initProxy\<close> therefore rejects every cluster that has one.
\<close>

lemma initProxies_rejects_unconfigured:
  assumes "n \<in> set ns" "k_notificationConfig n = defaultNotificationConfig"
  shows "\<not> fst (initProxies hash ns reg)"
  using assms
proof (induction ns arbitrary: reg)
  case (Cons m ns)
  have "initProxy hash n reg = (False, n, reg)"
    using Cons.prems(2) by (simp add: initProxy_def defaultNotificationConfig_def)
  then show ?case using Cons by (auto simp: case_prod_beta Let_def)
qed simp

subsection \<open>Runs of the daemon\<close>

text \<open>
  Between the cycles, and in any order, the launch manager queues process changes and the supervised
  applications report checkpoints.
\<close>

datatype pd_event =
  PD_cycle "timespec option" "nat \<Rightarrow> nat \<Rightarrow> TriggerInput"
| PD_process PosixProcess
| PD_checkpoint nat nat Ipc NanoSecondType u32

definition sw_report :: "nat \<Rightarrow> Ipc \<Rightarrow> NanoSecondType \<Rightarrow> u32 \<Rightarrow> SwClusterHandler \<Rightarrow> SwClusterHandler" where
  "sw_report i client t cid c = c\<lparr>monitorInterfaces := (monitorInterfaces c)
     [i := (fst (monitorInterfaces c ! i), ReportCheckpoint client t cid (snd (monitorInterfaces c ! i)))]\<rparr>"

fun pd_step :: "pd_event \<Rightarrow> PhmDaemon \<Rightarrow> (bool list \<times> PhmDaemon) option" where
  "pd_step (PD_cycle clock inp) d = map_option (\<lambda>(c, d). ([c], d)) (pd_evaluateCycle clock inp d)"
| "pd_step (PD_process p) d = Some ([], d\<lparr>pd_psBuffer := snd (queuePosixProcess p (pd_psBuffer d))\<rparr>)"
| "pd_step (PD_checkpoint k i client t cid) d =
     Some ([], d\<lparr>swClusterHandlers := (swClusterHandlers d)[k := sw_report i client t cid (swClusterHandlers d ! k)]\<rparr>)"

fun pd_run :: "pd_event list \<Rightarrow> PhmDaemon \<Rightarrow> (bool list \<times> PhmDaemon) option" where
  "pd_run [] d = Some ([], d)"
| "pd_run (e # es) d = do { (cs, d) \<leftarrow> pd_step e d; (cs', d) \<leftarrow> pd_run es d; Some (cs @ cs', d) }"

fun pd_client_ok :: "pd_event \<Rightarrow> bool" where
  "pd_client_ok (PD_checkpoint k i client t cid) = (ipc_ok client \<and> isInitialized client)"
| "pd_client_ok _ = True"

fun is_cycle :: "pd_event \<Rightarrow> bool" where
  "is_cycle (PD_cycle clock inp) = True"
| "is_cycle _ = False"

lemma mon_ok_report: "mon_ok (m, b) \<Longrightarrow> ipc_ok client \<Longrightarrow> isInitialized client \<Longrightarrow> mon_ok (m, ReportCheckpoint client t i b)"
  unfolding mon_ok_def using mi_inv_report by blast

lemma sw_report_inv:
  assumes "sw_inv c" "ipc_ok client" "isInitialized client"
  shows "sw_inv (sw_report i client t cid c)" "sw_keeps c (sw_report i client t cid c)"
proof -
  have "mon_ok (fst (monitorInterfaces c ! i), ReportCheckpoint client t cid (snd (monitorInterfaces c ! i)))"
    if "i < length (monitorInterfaces c)"
    using mon_ok_report assms that sw_objects(1) [OF assms(1)] by (simp add: list_all_length)
  then have "list_all mon_ok (monitorInterfaces (sw_report i client t cid c))"
    using sw_objects(1) [OF assms(1)] by (simp add: sw_report_def list_all_update)
  then show "sw_inv (sw_report i client t cid c)" "sw_keeps c (sw_report i client t cid c)"
    using assms(1) by (auto simp: sw_report_def sw_inv_defs)
qed

lemma pd_step_inv:
  assumes "pd_inv d" "pd_client_ok e"
  shows "\<exists>cs d'. pd_step e d = Some (cs, d') \<and> pd_inv d' \<and> (pd_critical d \<longrightarrow> pd_critical d' \<and> list_all (\<lambda>b. b) cs) \<and>
    length cs = (if is_cycle e then 1 else 0)"
proof (cases e)
  case (PD_cycle clock inp)
  obtain d' where "pd_evaluateCycle clock inp d = Some (pd_critical d', d')" "pd_inv d'" "pd_critical d \<longrightarrow> pd_critical d'"
    using pd_evaluateCycle_inv [OF assms(1)] by blast
  then show ?thesis using PD_cycle by (intro exI [of _ "[pd_critical d']"] exI [of _ d']) simp
next
  case (PD_process p)
  then show ?thesis
    using assms(1) rb.enq_keeps [of BUFFER_MAXPAYLOAD "pd_psBuffer d" p] overflow_flag_ops(1) [of BUFFER_MAXPAYLOAD p "pd_psBuffer d"]
    by (auto simp: pd_inv_def pd_critical_def queuePosixProcess_def)
next
  case (PD_checkpoint k i client t cid)
  let ?h = "swClusterHandlers d ! k" and ?h' = "sw_report i client t cid (swClusterHandlers d ! k)"
  have h: "sw_inv ?h'" "sw_keeps ?h ?h'" if "k < length (swClusterHandlers d)"
    using sw_report_inv [of ?h client] assms that PD_checkpoint by (auto simp: pd_inv_def list_all_length)
  then have "list_all2 sw_keeps (swClusterHandlers d) ((swClusterHandlers d)[k := ?h'])"
    by (simp add: list_all2_update)
  from clusters_timeout [OF this] show ?thesis
    using assms(1) h PD_checkpoint by (auto simp: pd_inv_def pd_critical_def list_all_update)
qed

lemma pd_run_inv:
  assumes "pd_inv d" "list_all pd_client_ok es"
  shows "\<exists>cs d'. pd_run es d = Some (cs, d') \<and> pd_inv d' \<and> length cs = length (filter is_cycle es) \<and>
    (pd_critical d \<longrightarrow> pd_critical d' \<and> list_all (\<lambda>b. b) cs)"
  using assms
proof (induction es arbitrary: d)
  case (Cons e es)
  obtain cs d1 where 1: "pd_step e d = Some (cs, d1)" "pd_inv d1" "pd_critical d \<longrightarrow> pd_critical d1 \<and> list_all (\<lambda>b. b) cs"
    "length cs = (if is_cycle e then 1 else 0)"
    using pd_step_inv [of d e] Cons.prems by auto
  obtain cs' d' where 2: "pd_run es d1 = Some (cs', d')" "pd_inv d'" "length cs' = length (filter is_cycle es)"
    "pd_critical d1 \<longrightarrow> pd_critical d' \<and> list_all (\<lambda>b. b) cs'"
    using Cons.IH [OF 1(2)] Cons.prems(2) by (metis list.pred_inject(2))
  show ?case using 1 2 by auto
qed simp

subsection \<open>Properties\<close>

text \<open>
  A daemon with one cluster: a monitor interface with a fresh channel, one global supervision and
  its notification without configuration.
\<close>

definition sw_example :: SwClusterHandler where
  "sw_example = \<lparr>sw_wiring = \<lparr>w_cpAlives = \<lambda>_. [], w_cpDeadlines = \<lambda>_. [], w_cpLogicals = \<lambda>_. [], w_psMonitors = \<lambda>_. [0],
       w_psAlives = \<lambda>_. [], w_psDeadlines = \<lambda>_. [], w_psLogicals = \<lambda>_. [], w_psGlobals = \<lambda>_. [0], w_aliveAddr = id,
       w_deadlineAddr = id, w_logicalAddr = id, w_localAddr = id, w_aliveLocals = \<lambda>_. [], w_deadlineLocals = \<lambda>_. [],
       w_logicalLocals = \<lambda>_. [], w_localGlobals = \<lambda>_. []\<rparr>,
     monitorInterfaces = [(mi_example, rb_initialize (RingBuffer_new k_maxCheckpointBufferElements))],
     aliveSupervisions = [], deadlineSupervisions = [], logicalSupervisions = [], localSupervisions = [],
     globalSupervisions = [registerRecoveryNotification 0 (Global_new gl_example_cfg)],
     recoveryNotifications = [Notification_unconfigured (\<lambda>s. 0)]\<rparr>"

definition pd_example :: PhmDaemon where
  "pd_example = \<lparr>swClusterHandlers = [sw_example],
     processStateReader = ProcessStateReader_new (\<lambda>_. ProcessState_new \<lparr>cfg_processShortName = ''p'', cfg_processId = 1,
       cfg_configuredProcessGroupStates = [], cfg_processExecutionErrors = []\<rparr>), pd_psBuffer = ProcessStateNotifier_new,
     pd_watchdog = WatchdogImpl_new\<rparr>"

definition pd_example_failed :: PhmDaemon where
  "pd_example_failed = pd_example\<lparr>swClusterHandlers := [sw_example\<lparr>recoveryNotifications :=
     [nt_send (Notification_unconfigured (\<lambda>s. 0))]\<rparr>]\<rparr>"

lemma sw_example_inv: "sw_inv sw_example" "sw_inv (sw_example\<lparr>recoveryNotifications := [n]\<rparr>)"
proof -
  let ?b = "rb_initialize (RingBuffer_new k_maxCheckpointBufferElements) :: CpBuffer"
  have b: "rb_inv sizeof_CBE ?b" "rb_queue ?b = []" "\<not> overflow_flag ?b"
    by (simp_all add: rb_inv_new k_maxCheckpointBufferElements_def, simp add: rb_initialize_def RingBuffer_new_def)
  have "mi_inv (mi_ids mi_example) [10, 11] [] (mi_example, ?b)"
    using b ipc_example_ok by (simp add: mi_inv_def ipc_inv_def mi_example_fields deliveries_def)
  then have m: "mon_ok (mi_example, ?b)" unfolding mon_ok_def by blast
  have "gl_inv (Global_new gl_example_cfg)" by (rule Global_new_inv) (simp add: gl_example_cfg_def)
  then have g: "gl_inv (registerRecoveryNotification 0 (Global_new gl_example_cfg))"
    by (simp add: registerRecoveryNotification_def gl_inv_def gl_core_def)
  have t: "gl_targets 1 (registerRecoveryNotification 0 (Global_new gl_example_cfg))"
    by (simp add: registerRecoveryNotification_def gl_targets_def Global_new_def)
  show "sw_inv sw_example" "sw_inv (sw_example\<lparr>recoveryNotifications := [n]\<rparr>)"
    using m g t by (simp_all add: sw_example_def sw_inv_def sw_wired_def in_range_def Let_def)
qed

lemma pd_example_inv: "pd_inv pd_example" "pd_inv pd_example_failed" "pd_critical pd_example_failed"
proof -
  have b: "rb_inv BUFFER_MAXPAYLOAD ProcessStateNotifier_new"
    by (simp add: ProcessStateNotifier_new_def BUFFER_QUEUE_SIZE_def rb_inv_new)
  show "pd_inv pd_example" "pd_inv pd_example_failed"
    using b sw_example_inv
    by (simp_all add: pd_example_def pd_example_failed_def pd_inv_def psr_ok_def psr_wf_def ProcessStateReader_new_def
        ProcessState_wf_def ProcessState_new_def)
  show "pd_critical pd_example_failed"
    by (simp add: pd_critical_def pd_example_failed_def pd_example_def hasRecoveryNotificationTimeout_def nt_send_def
        isFinalTimeoutStateReached_def setFinalTimeoutState_def Notification_unconfigured_def)
qed

text \<open>
  The cyclic execution never gets stuck and never leaves its object graph: from a daemon whose
  objects satisfy their invariants and whose registrations are in range, every interleaving of
  cycles, queued process changes and checkpoint reports runs to the end. No loop of a cycle hangs,
  no observer or notification out of range is called, and the invariant holds again at the end.
\<close>

theorem daemon_run_total:
  "pd_inv d \<Longrightarrow> list_all pd_client_ok es \<Longrightarrow>
   \<exists>cs d'. pd_run es d = Some (cs, d') \<and> pd_inv d' \<and> length cs = length (filter is_cycle es)"
  using pd_run_inv by blast

theorem daemon_run_total_witness:
  "\<exists>cs d'. pd_run [PD_checkpoint 0 0 ipc_example 5 1, PD_cycle (Some \<lparr>tv_sec = 1, tv_nsec = 0\<rparr>) (\<lambda>_ _. ti_pending 0), PD_cycle None (\<lambda>_ _. ti_pending 0)]
     pd_example = Some (cs, d') \<and> length cs = 2"
  using daemon_run_total [OF pd_example_inv(1), of "[PD_checkpoint 0 0 ipc_example 5 1,
      PD_cycle (Some \<lparr>tv_sec = 1, tv_nsec = 0\<rparr>) (\<lambda>_ _. ti_pending 0), PD_cycle None (\<lambda>_ _. ti_pending 0)]"]
  by (auto simp del: pd_run.simps simp add: ipc_example_ok)

text \<open>
  (C3) The watchdog is served in a cycle exactly when, after it, the buffer of process changes has
  not overflowed and no recovery notification is in its final timeout state; otherwise it is fired.
  The failure is final: whatever happens afterwards, every later cycle is critical, so the watchdog
  is never served again.
\<close>

theorem daemon_critical_is_final:
  assumes "pd_inv d" "list_all pd_client_ok es"
  shows "(\<exists>d'. pd_evaluateCycle clock inp d = Some (pd_critical d', d') \<and>
      performCyclicTriggers dev clock inp d w =
        (if pd_critical d' then map_option (\<lambda>(waits, wd, w). (waits, d'\<lparr>pd_watchdog := wd\<rparr>, w)) (fireWatchdogReaction dev (pd_watchdog d) w)
         else Some (False, d', serviceWatchdog dev (pd_watchdog d) w))) \<and>
    (pd_critical d \<longrightarrow> (\<exists>d'. pd_run es d = Some (replicate (length (filter is_cycle es)) True, d')))"
proof
  obtain d' where d': "pd_evaluateCycle clock inp d = Some (pd_critical d', d')" "pd_watchdog d' = pd_watchdog d"
    using pd_evaluateCycle_inv [OF assms(1)] by blast
  then show "\<exists>d'. pd_evaluateCycle clock inp d = Some (pd_critical d', d') \<and>
      performCyclicTriggers dev clock inp d w =
        (if pd_critical d' then map_option (\<lambda>(waits, wd, w). (waits, d'\<lparr>pd_watchdog := wd\<rparr>, w)) (fireWatchdogReaction dev (pd_watchdog d) w)
         else Some (False, d', serviceWatchdog dev (pd_watchdog d) w))"
    by (cases "fireWatchdogReaction dev (pd_watchdog d) w") (auto simp: performCyclicTriggers_def)
  show "pd_critical d \<longrightarrow> (\<exists>d'. pd_run es d = Some (replicate (length (filter is_cycle es)) True, d'))"
  proof
    assume "pd_critical d"
    then obtain cs d' where "pd_run es d = Some (cs, d')" "length cs = length (filter is_cycle es)" "list_all (\<lambda>b. b) cs"
      using pd_run_inv [OF assms] by blast
    moreover from this have "cs = replicate (length (filter is_cycle es)) True"
      by (auto simp: list_eq_iff_nth_eq list_all_length)
    ultimately show "\<exists>d'. pd_run es d = Some (replicate (length (filter is_cycle es)) True, d')" by blast
  qed
qed

theorem daemon_critical_is_final_witness:
  "\<exists>d'. pd_run [PD_cycle None (\<lambda>_ _. ti_pending 0), PD_checkpoint 0 0 ipc_example 5 1, PD_cycle None (\<lambda>_ _. ti_pending 0)]
     pd_example_failed = Some ([True, True], d')"
  using daemon_critical_is_final [OF pd_example_inv(2), of "[PD_cycle None (\<lambda>_ _. ti_pending 0),
      PD_checkpoint 0 0 ipc_example 5 1, PD_cycle None (\<lambda>_ _. ti_pending 0)]", THEN conjunct2] pd_example_inv(3)
  by (simp del: pd_run.simps add: ipc_example_ok)

end
