(* ===== verification/Safe_Process_Map.thy ===== *)
theory Safe_Process_Map
  imports Prelude
begin

unbundle bit_operations_syntax

section \<open>The map of process identifiers\<close>

text \<open>
  Models \<^verbatim>\<open>process_group_manager/safeprocessmap.{hpp,cpp}\<close>: a binary tree over an array of nodes, in
  which the bits of a process identifier, lowest first, select the branch. The thread that starts a
  process and the thread that collects exit statuses meet in it: whoever comes first leaves an entry,
  whoever comes second removes it and hands the status to the process' node.

  Links are 32-bit indices into the array; an access outside of it has no defined result
  (\<open>None\<close>). The root doubles as a spin lock: between the \<^verbatim>\<open>exchange\<close> that takes it and the
  \<^verbatim>\<open>store\<close> that releases it no other thread gets past its own loop, so that the code in between,
  \<open>search_locked\<close>, is one step of the system. A process identifier is an integer in the range of
  \<^verbatim>\<open>int32_t\<close>; the pointer to a node is an optional address.
\<close>

type_synonym ProcessID = int

record ProcessInfoData =
  sp_status :: int
  sp_pin :: "nat option"

record ProcessTreeNode =
  pid_left :: u32
  pid_right :: u32
  tn_pid :: ProcessID
  tn_data :: ProcessInfoData

record SafeProcessMap =
  items :: "ProcessTreeNode list"
  pid_root :: u32
  free_root :: u32
  rover :: u32

definition LINK_NO_VALUE :: u32 where "LINK_NO_VALUE = 0xFFFFFFFF"
definition LINK_LOCKED :: u32 where "LINK_LOCKED = 0xFFFFFFFE"

definition kNoData :: ProcessInfoData where
  "kNoData = \<lparr>sp_status = - 1, sp_pin = None\<rparr>"

text \<open>Reading and writing \<^verbatim>\<open>items_[i]\<close>.\<close>

definition item :: "SafeProcessMap \<Rightarrow> u32 \<Rightarrow> ProcessTreeNode option" where
  "item m i = (if unat i < length (items m) then Some (items m ! unat i) else None)"

definition set_item :: "u32 \<Rightarrow> (ProcessTreeNode \<Rightarrow> ProcessTreeNode) \<Rightarrow> SafeProcessMap \<Rightarrow> SafeProcessMap option" where
  "set_item i f m =
     (if unat i < length (items m) then Some (m\<lparr>items := (items m)[unat i := f (items m ! unat i)]\<rparr>) else None)"

definition SafeProcessMap_new :: "u32 \<Rightarrow> SafeProcessMap" where
  "SafeProcessMap_new capacity =
     (let n = unat capacity
      in if n = 0 then \<lparr>items = [], pid_root = LINK_NO_VALUE, free_root = LINK_NO_VALUE, rover = LINK_NO_VALUE\<rparr>
         else \<lparr>items = map (\<lambda>i. \<lparr>pid_left = LINK_NO_VALUE,
                                  pid_right = (if i = n - 1 then LINK_NO_VALUE else word_of_nat (i + 1)),
                                  tn_pid = 0, tn_data = kNoData\<rparr>) [0..<n],
                pid_root = LINK_NO_VALUE, free_root = 0, rover = LINK_NO_VALUE\<rparr>)"

partial_function (option) findNode ::
  "u32 \<Rightarrow> u32 \<Rightarrow> ProcessID \<Rightarrow> SafeProcessMap \<Rightarrow> (u32 \<times> u32 \<times> SafeProcessMap) option"
where
  "findNode bitmask last' key m =
     (if rover m = LINK_NO_VALUE then Some (bitmask, last', m)
      else do {
        n \<leftarrow> item m (rover m);
        (if key = tn_pid n then Some (bitmask, last', m)
         else findNode (push_bit 1 bitmask) (rover m) key
                (m\<lparr>rover := if word_of_int key AND bitmask \<noteq> 0 then pid_left n else pid_right n\<rparr>))
      })"

definition insertNode ::
  "u32 \<Rightarrow> u32 \<Rightarrow> ProcessID \<Rightarrow> ProcessInfoData \<Rightarrow> SafeProcessMap \<Rightarrow> (int \<times> SafeProcessMap) option"
where
  "insertNode bitmask last' key data m =
     (let m = m\<lparr>rover := free_root m\<rparr>
      in if rover m = LINK_NO_VALUE then Some (- 1, m)
         else do {
           let bitmask = drop_bit 1 bitmask;
           n \<leftarrow> item m (rover m);
           let m = m\<lparr>free_root := pid_right n\<rparr>;
           m \<leftarrow> set_item (rover m) (\<lambda>_. \<lparr>pid_left = LINK_NO_VALUE, pid_right = LINK_NO_VALUE, tn_pid = key, tn_data = data\<rparr>) m;
           m \<leftarrow> (if word_of_int key AND bitmask \<noteq> 0 then set_item last' (\<lambda>n. n\<lparr>pid_left := rover m\<rparr>) m
                 else set_item last' (\<lambda>n. n\<lparr>pid_right := rover m\<rparr>) m);
           Some (if sp_pin data = None then 1 else 0, m)
         })"

partial_function (option) findLeaf :: "u32 \<Rightarrow> u32 \<Rightarrow> SafeProcessMap \<Rightarrow> (u32 \<times> u32) option" where
  "findLeaf leaf previous m = do {
     n \<leftarrow> item m leaf;
     (if pid_left n \<noteq> LINK_NO_VALUE then findLeaf (pid_left n) leaf m
      else if pid_right n \<noteq> LINK_NO_VALUE then findLeaf (pid_right n) leaf m
      else Some (leaf, previous))
   }"

text \<open>Removing the link of \<open>i\<close> to \<open>child\<close>.\<close>

definition unlink_child :: "u32 \<Rightarrow> u32 \<Rightarrow> SafeProcessMap \<Rightarrow> SafeProcessMap option" where
  "unlink_child i child m = do {
     n \<leftarrow> item m i;
     (if pid_left n = child then set_item i (\<lambda>n. n\<lparr>pid_left := LINK_NO_VALUE\<rparr>) m
      else set_item i (\<lambda>n. n\<lparr>pid_right := LINK_NO_VALUE\<rparr>) m)
   }"

text \<open>The result carries the updated local root.\<close>

definition deleteNode :: "u32 \<Rightarrow> u32 \<Rightarrow> u32 \<Rightarrow> u32 \<Rightarrow> SafeProcessMap \<Rightarrow> (u32 \<times> SafeProcessMap) option" where
  "deleteNode last' leaf local_root previous m = do {
     (local_root, m) \<leftarrow>
       (if leaf = local_root then Some (LINK_NO_VALUE, m)
        else if leaf = rover m then map_option (\<lambda>m. (local_root, m)) (unlink_child last' (rover m) m)
        else do {
          l \<leftarrow> item m leaf;
          m \<leftarrow> set_item (rover m) (\<lambda>n. n\<lparr>tn_pid := tn_pid l, tn_data := tn_data l\<rparr>) m;
          map_option (\<lambda>m. (local_root, m)) (unlink_child previous leaf m)
        });
     m \<leftarrow> set_item leaf (\<lambda>_. \<lparr>pid_left = LINK_NO_VALUE, pid_right = free_root m, tn_pid = 0, tn_data = kNoData\<rparr>) m;
     Some (local_root, m\<lparr>free_root := leaf\<rparr>)
   }"

definition removeNode ::
  "ProcessInfoData \<Rightarrow> ProcessInfoData \<Rightarrow> u32 \<Rightarrow> u32 \<Rightarrow> SafeProcessMap \<Rightarrow> (int \<times> ProcessInfoData \<times> u32 \<times> SafeProcessMap) option"
where
  "removeNode target data last' local_root m = do {
     n \<leftarrow> item m (rover m);
     (if (sp_pin data = None) \<noteq> (sp_pin (tn_data n) = None)
      then do {
        let target = tn_data n;
        let target = (if sp_pin target \<noteq> None then target\<lparr>sp_status := sp_status data\<rparr> else target\<lparr>sp_pin := sp_pin data\<rparr>);
        let ret_value = (if sp_pin data \<noteq> None then 1 else 0);
        (leaf, previous) \<leftarrow> findLeaf (rover m) (rover m) m;
        (local_root, m) \<leftarrow> deleteNode last' leaf local_root previous m;
        Some (ret_value, target, local_root, m)
      }
      else Some (- 2, target, local_root, m))
   }"

text \<open>
  One turn of the loop of \<^verbatim>\<open>search\<close>, from taking the lock to releasing it: the return value, the data for
  the call of \<^verbatim>\<open>terminated\<close>, and the map.
\<close>

definition search_locked ::
  "ProcessID \<Rightarrow> ProcessInfoData \<Rightarrow> SafeProcessMap \<Rightarrow> (int \<times> ProcessInfoData \<times> SafeProcessMap) option"
where
  "search_locked key data m =
     (let target = \<lparr>sp_status = sp_status data, sp_pin = None\<rparr>;
          local_root = pid_root m;
          m = m\<lparr>pid_root := LINK_LOCKED, rover := local_root\<rparr>
      in if local_root = LINK_NO_VALUE
         then do {
           let m = m\<lparr>rover := free_root m\<rparr>;
           n \<leftarrow> item m (rover m);
           let m = m\<lparr>free_root := pid_right n\<rparr>;
           m \<leftarrow> set_item (rover m) (\<lambda>_. \<lparr>pid_left = LINK_NO_VALUE, pid_right = LINK_NO_VALUE, tn_pid = key, tn_data = data\<rparr>) m;
           Some (if sp_pin data = None then 1 else 0, target, m\<lparr>pid_root := rover m\<rparr>)
         }
         else do {
           (bitmask, last', m) \<leftarrow> findNode 1 LINK_NO_VALUE key m;
           (if rover m = LINK_NO_VALUE
            then do {
              (ret_value, m) \<leftarrow> insertNode bitmask last' key data m;
              Some (ret_value, target, m\<lparr>pid_root := local_root\<rparr>)
            }
            else do {
              (ret_value, target, local_root, m) \<leftarrow> removeNode target data last' local_root m;
              Some (ret_value, target, m\<lparr>pid_root := local_root\<rparr>)
            })
         })"

text \<open>
  The whole operation. \<open>others\<close> gives, turn by turn, what the other threads do to the map while this
  one yields; \<open>None\<close> is an operation that has not returned within these turns. The result carries the
  call of \<^verbatim>\<open>terminated\<close>, if any.
\<close>

fun sp_search ::
  "(SafeProcessMap \<Rightarrow> SafeProcessMap) list \<Rightarrow> ProcessID \<Rightarrow> ProcessInfoData \<Rightarrow> SafeProcessMap \<Rightarrow>
   (int \<times> (nat \<times> int) option \<times> SafeProcessMap) option"
where
  "sp_search others key data m =
     (if key \<ge> 0
      then (case search_locked key data m of
              None \<Rightarrow> None
            | Some (ret_value, target, m) \<Rightarrow>
                (if ret_value = - 2
                 then (case others of [] \<Rightarrow> None | f # others \<Rightarrow> sp_search others key data (f m))
                 else Some (ret_value, map_option (\<lambda>pin. (pin, sp_status target)) (sp_pin target), m)))
      else Some (- 2, None, m))"

declare sp_search.simps [simp del]

definition findTerminated ::
  "(SafeProcessMap \<Rightarrow> SafeProcessMap) list \<Rightarrow> ProcessID \<Rightarrow> int \<Rightarrow> SafeProcessMap \<Rightarrow> (int \<times> (nat \<times> int) option \<times> SafeProcessMap) option"
where
  "findTerminated others key status m = sp_search others key \<lparr>sp_status = status, sp_pin = None\<rparr> m"

definition insertIfNotTerminated ::
  "(SafeProcessMap \<Rightarrow> SafeProcessMap) list \<Rightarrow> ProcessID \<Rightarrow> nat \<Rightarrow> SafeProcessMap \<Rightarrow> (int \<times> (nat \<times> int) option \<times> SafeProcessMap) option"
where
  "insertIfNotTerminated others key object m = sp_search others key \<lparr>sp_status = 0, sp_pin = Some object\<rparr> m"

subsection \<open>The tree in the array\<close>

datatype ptree = PLf | PNd nat ptree ptree

fun tree_nodes :: "ptree \<Rightarrow> nat list" where
  "tree_nodes PLf = []"
| "tree_nodes (PNd i l r) = i # tree_nodes l @ tree_nodes r"

fun tree_link :: "ptree \<Rightarrow> u32" where
  "tree_link PLf = LINK_NO_VALUE"
| "tree_link (PNd i l r) = word_of_nat i"

fun list_link :: "nat list \<Rightarrow> u32" where
  "list_link [] = LINK_NO_VALUE"
| "list_link (i # is) = word_of_nat i"

fun tree_rep :: "ProcessTreeNode list \<Rightarrow> ptree \<Rightarrow> bool" where
  "tree_rep xs PLf = True"
| "tree_rep xs (PNd i l r) \<longleftrightarrow> i < length xs \<and> pid_left (xs ! i) = tree_link l \<and> pid_right (xs ! i) = tree_link r \<and>
     tree_rep xs l \<and> tree_rep xs r"

fun free_rep :: "ProcessTreeNode list \<Rightarrow> nat list \<Rightarrow> bool" where
  "free_rep xs [] = True"
| "free_rep xs (i # is) \<longleftrightarrow> i < length xs \<and> pid_right (xs ! i) = list_link is \<and> free_rep xs is"

text \<open>Below a node at depth \<open>d\<close> bit \<open>d\<close> of the identifiers is set on the left and clear on the right.\<close>

fun trie :: "(nat \<Rightarrow> int) \<Rightarrow> nat \<Rightarrow> ptree \<Rightarrow> bool" where
  "trie f d PLf = True"
| "trie f d (PNd i l r) \<longleftrightarrow> (\<forall>j \<in> set (tree_nodes l). bit (f j) d) \<and> (\<forall>j \<in> set (tree_nodes r). \<not> bit (f j) d) \<and>
     trie f (Suc d) l \<and> trie f (Suc d) r"

definition small :: "ProcessTreeNode list \<Rightarrow> bool" where
  "small xs \<longleftrightarrow> length xs < 2 ^ 32 - 2"

lemma unat_index: "small xs \<Longrightarrow> i < length xs \<Longrightarrow> unat (word_of_nat i :: u32) = i"
  by (simp add: small_def unsigned_of_nat take_bit_nat_eq_self)

lemma link_not_special:
  assumes "small xs" "i < length xs"
  shows "(word_of_nat i :: u32) \<noteq> LINK_NO_VALUE" "(word_of_nat i :: u32) \<noteq> LINK_LOCKED"
proof -
  have "unat (word_of_nat i :: u32) = i" "i < 2 ^ 32 - 2" using assms unat_index by (auto simp: small_def)
  then show "(word_of_nat i :: u32) \<noteq> LINK_NO_VALUE" "(word_of_nat i :: u32) \<noteq> LINK_LOCKED"
    by (auto simp: LINK_NO_VALUE_def LINK_LOCKED_def)
qed

lemma link_inj:
  "small xs \<Longrightarrow> i < length xs \<Longrightarrow> j < length xs \<Longrightarrow> (word_of_nat i :: u32) = word_of_nat j \<longleftrightarrow> i = j"
  using unat_index by metis

lemma tree_link_NO [simp]: "small xs \<Longrightarrow> tree_rep xs t \<Longrightarrow> tree_link t = LINK_NO_VALUE \<longleftrightarrow> t = PLf"
  by (cases t) (auto simp: link_not_special)

lemma list_link_NO [simp]: "small xs \<Longrightarrow> free_rep xs is \<Longrightarrow> list_link is = LINK_NO_VALUE \<longleftrightarrow> is = []"
  by (cases "is") (auto simp: link_not_special)

lemma tree_rep_range: "tree_rep xs t \<Longrightarrow> i \<in> set (tree_nodes t) \<Longrightarrow> i < length xs"
  by (induction t) auto

lemma tree_rep_cong:
  "tree_rep xs t \<Longrightarrow> length ys = length xs \<Longrightarrow>
   (\<And>i. i \<in> set (tree_nodes t) \<Longrightarrow> pid_left (ys ! i) = pid_left (xs ! i) \<and> pid_right (ys ! i) = pid_right (xs ! i)) \<Longrightarrow> tree_rep ys t"
  by (induction t) auto

lemma free_rep_cong:
  "free_rep xs fl \<Longrightarrow> length ys = length xs \<Longrightarrow> (\<And>i. i \<in> set fl \<Longrightarrow> pid_right (ys ! i) = pid_right (xs ! i)) \<Longrightarrow> free_rep ys fl"
  by (induction fl) auto

lemma trie_cong: "trie f d t \<Longrightarrow> (\<And>i. i \<in> set (tree_nodes t) \<Longrightarrow> g i = f i) \<Longrightarrow> trie g d t"
  by (induction t arbitrary: d) auto

lemma item_link: "small (items m) \<Longrightarrow> i < length (items m) \<Longrightarrow> item m (word_of_nat i) = Some (items m ! i)"
  by (simp add: item_def unat_index)

lemma set_item_link:
  "small (items m) \<Longrightarrow> i < length (items m) \<Longrightarrow>
   set_item (word_of_nat i) f m = Some (m\<lparr>items := (items m)[i := f (items m ! i)]\<rparr>)"
  by (simp add: set_item_def unat_index)

subsection \<open>Descending by the bits of the key\<close>

lemma key_bit_test:
  assumes "d < 32"
  shows "word_of_int key AND push_bit d (1 :: u32) \<noteq> 0 \<longleftrightarrow> bit key d"
proof -
  have "word_of_int key AND push_bit d (1 :: u32) = (if bit (word_of_int key :: u32) d then push_bit d 1 else 0)"
    by (rule bit_eqI) (auto simp: bit_and_iff bit_exp_iff)
  moreover have "push_bit d (1 :: u32) \<noteq> 0"
    using assms by (simp add: push_bit_of_1)
  ultimately show ?thesis using assms by (simp add: bit_word_of_int_iff)
qed

lemma agree_all_bits:
  fixes a b :: int
  assumes "0 \<le> a" "a < 2 ^ n" "0 \<le> b" "b < 2 ^ n" "\<forall>k < n. bit a k = bit b k"
  shows "a = b"
proof -
  have "take_bit n a = take_bit n b"
    using assms(5) by (intro bit_eqI) (auto simp: bit_take_bit_iff)
  then show ?thesis using assms by (simp add: take_bit_int_eq_self)
qed

text \<open>Where a missing key will be attached, and the link to the parent of a node.\<close>

fun slot :: "nat \<Rightarrow> int \<Rightarrow> ptree \<Rightarrow> nat \<times> nat" where
  "slot d key PLf = (0, d)"
| "slot d key (PNd i l r) =
     (let c = (if bit key d then l else r) in if c = PLf then (i, d) else slot (Suc d) key c)"

fun t_insert :: "nat \<Rightarrow> int \<Rightarrow> nat \<Rightarrow> ptree \<Rightarrow> ptree" where
  "t_insert d key j PLf = PNd j PLf PLf"
| "t_insert d key j (PNd i l r) =
     (if bit key d then PNd i (t_insert (Suc d) key j l) r else PNd i l (t_insert (Suc d) key j r))"

fun parent_link :: "nat \<Rightarrow> u32 \<Rightarrow> ptree \<Rightarrow> u32" where
  "parent_link i q PLf = q"
| "parent_link i q (PNd k l r) =
     (if k = i then q else if i \<in> set (tree_nodes l) then parent_link i (word_of_nat k) l else parent_link i (word_of_nat k) r)"

definition on_path :: "(nat \<Rightarrow> int) \<Rightarrow> nat \<Rightarrow> int \<Rightarrow> ptree \<Rightarrow> bool" where
  "on_path f d key t \<longleftrightarrow> (\<forall>i \<in> set (tree_nodes t). 0 \<le> f i \<and> f i < 2 ^ 31 \<and> (\<forall>b < d. bit (f i) b = bit key b))"

lemma on_path_child:
  "on_path f d key (PNd i l r) \<Longrightarrow> trie f d (PNd i l r) \<Longrightarrow> on_path f (Suc d) key (if bit key d then l else r)"
  by (auto simp: on_path_def less_Suc_eq)

lemma on_path_depth:
  assumes "on_path f d key (PNd i l r)" "0 \<le> key" "key < 2 ^ 31" "f i \<noteq> key"
  shows "d < 31"
proof (rule ccontr)
  assume "\<not> d < 31"
  then have "f i = key"
    using assms by (intro agree_all_bits [of "f i" 31 key]) (auto simp: on_path_def)
  with assms(4) show False by simp
qed

abbreviation pid_at :: "ProcessTreeNode list \<Rightarrow> nat \<Rightarrow> int" where
  "pid_at xs i \<equiv> tn_pid (xs ! i)"

lemma rover_idem: "rover m = x \<Longrightarrow> m\<lparr>rover := x\<rparr> = m"
  by simp

lemma findNode_end: "findNode b q key (m\<lparr>rover := LINK_NO_VALUE\<rparr>) = Some (b, q, m\<lparr>rover := LINK_NO_VALUE\<rparr>)"
  by (subst findNode.simps) simp

lemma findNode_step:
  assumes "small (items m)" "tree_rep (items m) (PNd i l r)" "rover m = word_of_nat i" "d < 32"
  shows "findNode (2 ^ d) q key m =
    (if key = pid_at (items m) i then Some (2 ^ d, q, m)
     else findNode (2 ^ Suc d) (word_of_nat i) key (m\<lparr>rover := tree_link (if bit key d then l else r)\<rparr>))"
  using assms link_not_special(1) [OF assms(1), of i] key_bit_test [OF assms(4), of key]
  by (subst findNode.simps) (auto simp: item_link mult.commute)

lemma findNode_missing:
  assumes "small (items m)" "tree_rep (items m) t" "trie (pid_at (items m)) d t" "on_path (pid_at (items m)) d key t"
    and "0 \<le> key" "key < 2 ^ 31" "rover m = tree_link t" "t \<noteq> PLf" "\<forall>i \<in> set (tree_nodes t). pid_at (items m) i \<noteq> key"
  shows "findNode (2 ^ d) q key m =
      Some (2 ^ Suc (snd (slot d key t)), word_of_nat (fst (slot d key t)), m\<lparr>rover := LINK_NO_VALUE\<rparr>) \<and>
    snd (slot d key t) < 31 \<and> fst (slot d key t) \<in> set (tree_nodes t)"
  using assms
proof (induction t arbitrary: d q m)
  case (PNd i l r)
  have k: "pid_at (items m) i \<noteq> key" using PNd.prems(9) by simp
  have d: "d < 31" using on_path_depth [OF PNd.prems(4-6) k] .
  let ?c = "if bit key d then l else r" let ?m = "m\<lparr>rover := tree_link ?c\<rparr>"
  have step: "findNode (2 ^ d) q key m = findNode (2 ^ Suc d) (word_of_nat i) key ?m"
    using findNode_step [OF PNd.prems(1,2)] PNd.prems(7) d k by simp
  show ?case
  proof (cases "?c = PLf")
    case True
    then have "findNode (2 ^ d) q key m = Some (2 ^ Suc d, word_of_nat i, m\<lparr>rover := LINK_NO_VALUE\<rparr>)"
      unfolding step by (simp add: findNode_end del: power_Suc)
    then show ?thesis using True d by (simp add: Let_def del: power_Suc split: if_splits)
  next
    case False
    have p: "on_path (pid_at (items m)) (Suc d) key ?c" using on_path_child [OF PNd.prems(4,3)] .
    have "findNode (2 ^ Suc d) (word_of_nat i) key ?m =
        Some (2 ^ Suc (snd (slot (Suc d) key ?c)), word_of_nat (fst (slot (Suc d) key ?c)), ?m\<lparr>rover := LINK_NO_VALUE\<rparr>) \<and>
      snd (slot (Suc d) key ?c) < 31 \<and> fst (slot (Suc d) key ?c) \<in> set (tree_nodes ?c)"
    proof (cases "bit key d")
      case True
      then show ?thesis using PNd.IH(1) [of ?m "Suc d" "word_of_nat i"] PNd.prems p False by (simp del: power_Suc)
    next
      case b: False
      then show ?thesis using PNd.IH(2) [of ?m "Suc d" "word_of_nat i"] PNd.prems p False by (simp del: power_Suc)
    qed
    then show ?thesis using step False by (auto simp: Let_def simp del: power_Suc)
  qed
qed simp

lemma findNode_found:
  assumes "small (items m)" "tree_rep (items m) t" "trie (pid_at (items m)) d t" "on_path (pid_at (items m)) d key t"
    and "0 \<le> key" "key < 2 ^ 31" "rover m = tree_link t" "i \<in> set (tree_nodes t)" "pid_at (items m) i = key"
    and "inj_on (pid_at (items m)) (set (tree_nodes t))" "d < 32"
  shows "\<exists>b. findNode (2 ^ d) q key m = Some (b, parent_link i q t, m\<lparr>rover := word_of_nat i\<rparr>)"
  using assms
proof (induction t arbitrary: d q m)
  case (PNd k l r)
  show ?case
  proof (cases "k = i")
    case True
    then show ?thesis
      using findNode_step [OF PNd.prems(1,2) _ PNd.prems(11)] PNd.prems(7,9) by simp
  next
    case False
    then have k: "pid_at (items m) k \<noteq> key"
      using PNd.prems(8-10) by (metis inj_onD list.set_intros(1) tree_nodes.simps(2))
    have d: "d < 31" using on_path_depth [OF PNd.prems(4-6) k] .
    let ?c = "if bit key d then l else r" let ?m = "m\<lparr>rover := tree_link ?c\<rparr>"
    have step: "findNode (2 ^ d) q key m = findNode (2 ^ Suc d) (word_of_nat k) key ?m"
      using findNode_step [OF PNd.prems(1,2)] PNd.prems(7) d k by simp
    have c: "i \<in> set (tree_nodes ?c)" "i \<in> set (tree_nodes l) \<longleftrightarrow> bit key d"
      using PNd.prems(3,8,9) False by auto
    have p: "on_path (pid_at (items m)) (Suc d) key ?c" using on_path_child [OF PNd.prems(4,3)] .
    have j: "inj_on (pid_at (items m)) (set (tree_nodes ?c))" using PNd.prems(10) by (auto simp: inj_on_def)
    have "\<exists>b. findNode (2 ^ Suc d) (word_of_nat k) key ?m =
        Some (b, parent_link i (word_of_nat k) ?c, ?m\<lparr>rover := word_of_nat i\<rparr>)"
    proof (cases "bit key d")
      case True
      then show ?thesis using PNd.IH(1) [of ?m "Suc d" "word_of_nat k"] PNd.prems p c(1) j d by (simp del: power_Suc)
    next
      case b: False
      then show ?thesis using PNd.IH(2) [of ?m "Suc d" "word_of_nat k"] PNd.prems p c(1) j d by (simp del: power_Suc)
    qed
    then show ?thesis using step c(2) False by (auto simp del: power_Suc)
  qed
qed simp

subsection \<open>Attaching a node\<close>

lemma set_nodes_insert: "set (tree_nodes (t_insert d key j t)) = insert j (set (tree_nodes t))"
  by (induction t arbitrary: d) auto

lemma distinct_nodes_insert:
  "distinct (tree_nodes t) \<Longrightarrow> j \<notin> set (tree_nodes t) \<Longrightarrow> distinct (tree_nodes (t_insert d key j t))"
  by (induction t arbitrary: d) (auto simp: set_nodes_insert)

lemma trie_insert:
  "trie f d t \<Longrightarrow> f j = key \<Longrightarrow> trie f d (t_insert d key j t)"
  by (induction t arbitrary: d) (auto simp: set_nodes_insert)

lemma tree_link_insert: "t \<noteq> PLf \<Longrightarrow> tree_link (t_insert d key j t) = tree_link t"
  by (cases t) auto

definition attach :: "nat \<Rightarrow> bool \<Rightarrow> nat \<Rightarrow> ProcessTreeNode list \<Rightarrow> ProcessTreeNode list" where
  "attach k left j xs =
     xs[k := (if left then (xs ! k)\<lparr>pid_left := word_of_nat j\<rparr> else (xs ! k)\<lparr>pid_right := word_of_nat j\<rparr>)]"

lemma attach_other [simp]: "i \<noteq> k \<Longrightarrow> attach k b j xs ! i = xs ! i" "length (attach k b j xs) = length xs"
  by (simp_all add: attach_def)

lemma attach_content [simp]: "tn_pid (attach k b j xs ! i) = tn_pid (xs ! i)" "tn_data (attach k b j xs ! i) = tn_data (xs ! i)"
  by (cases "i = k \<and> k < length xs"; auto simp: attach_def list_update_beyond not_less nth_list_update_neq)+

lemma slot_in_tree: "t \<noteq> PLf \<Longrightarrow> fst (slot d key t) \<in> set (tree_nodes t)"
  by (induction t arbitrary: d) (auto simp: Let_def)

lemma tree_rep_insert:
  assumes "tree_rep xs t" "distinct (tree_nodes t)" "j \<notin> set (tree_nodes t)" "j < length xs" "t \<noteq> PLf"
    and "pid_left (xs ! j) = LINK_NO_VALUE" "pid_right (xs ! j) = LINK_NO_VALUE"
  shows "tree_rep (attach (fst (slot d key t)) (bit key (snd (slot d key t))) j xs) (t_insert d key j t)"
  using assms
proof (induction t arbitrary: d)
  case (PNd i l r)
  let ?c = "if bit key d then l else r" let ?o = "if bit key d then r else l"
  let ?xs = "attach (fst (slot d key (PNd i l r))) (bit key (snd (slot d key (PNd i l r)))) j xs"
  have sl: "fst (slot d key (PNd i l r)) \<in> insert i (set (tree_nodes ?c))"
    using slot_in_tree [of ?c "Suc d" key] by (auto simp: Let_def)
  have o: "tree_rep ?xs ?o"
  proof (rule tree_rep_cong)
    show "tree_rep xs ?o" using PNd.prems(1) by simp
    show "pid_left (?xs ! k) = pid_left (xs ! k) \<and> pid_right (?xs ! k) = pid_right (xs ! k)" if "k \<in> set (tree_nodes ?o)" for k
    proof -
      have "k \<noteq> fst (slot d key (PNd i l r))" using sl that PNd.prems(2) by (auto split: if_splits)
      then show ?thesis by simp
    qed
  qed simp
  show ?case
  proof (cases "?c = PLf")
    case True
    then have s: "slot d key (PNd i l r) = (i, d)" by (auto simp: Let_def)
    have "i \<noteq> j" "i < length xs" using PNd.prems by auto
    then show ?thesis
      using o True PNd.prems unfolding s by (auto simp: attach_def split: if_splits)
  next
    case False
    then have s: "slot d key (PNd i l r) = slot (Suc d) key ?c" by (simp add: Let_def)
    have "fst (slot (Suc d) key ?c) \<noteq> i" using slot_in_tree [OF False] PNd.prems(2) by (auto split: if_splits)
    then have n: "?xs ! i = xs ! i" unfolding s by simp
    have "tree_rep ?xs (t_insert (Suc d) key j ?c)"
      unfolding s using PNd.IH(1) [of "Suc d"] PNd.IH(2) [of "Suc d"] PNd.prems False by (cases "bit key d") simp_all
    then show ?thesis
      using o n PNd.prems(1) False tree_link_insert [OF False] by (cases "bit key d") simp_all
  qed
qed simp

subsection \<open>Removing a leaf\<close>

fun subtree :: "nat \<Rightarrow> ptree \<Rightarrow> ptree" where
  "subtree i PLf = PLf"
| "subtree i (PNd k l r) = (if k = i then PNd k l r else if i \<in> set (tree_nodes l) then subtree i l else subtree i r)"

fun leaf_of :: "ptree \<Rightarrow> nat" where
  "leaf_of PLf = 0"
| "leaf_of (PNd i l r) = (if l \<noteq> PLf then leaf_of l else if r \<noteq> PLf then leaf_of r else i)"

fun unlink :: "nat \<Rightarrow> ptree \<Rightarrow> ptree" where
  "unlink j PLf = PLf"
| "unlink j (PNd k l r) = (if k = j then PLf else PNd k (unlink j l) (unlink j r))"

lemma subtree_root: "i \<in> set (tree_nodes t) \<Longrightarrow> \<exists>l r. subtree i t = PNd i l r"
  by (induction t) auto

lemma subtree_nodes: "set (tree_nodes (subtree i t)) \<subseteq> set (tree_nodes t)"
  by (induction t) auto

lemma leaf_in_tree: "t \<noteq> PLf \<Longrightarrow> leaf_of t \<in> set (tree_nodes t)"
  by (induction t) auto

lemma subtree_leaf: "t \<noteq> PLf \<Longrightarrow> distinct (tree_nodes t) \<Longrightarrow> subtree (leaf_of t) t = PNd (leaf_of t) PLf PLf"
proof (induction t)
  case (PNd i l r)
  then show ?case using leaf_in_tree [of l] leaf_in_tree [of r] by auto
qed simp

lemma subtree_subtree:
  "distinct (tree_nodes t) \<Longrightarrow> i \<in> set (tree_nodes t) \<Longrightarrow> j \<in> set (tree_nodes (subtree i t)) \<Longrightarrow> subtree j t = subtree j (subtree i t)"
proof (induction t)
  case (PNd k l r)
  then show ?case using subtree_nodes [of i l] subtree_nodes [of i r] by auto
qed simp

lemma distinct_subtree: "distinct (tree_nodes t) \<Longrightarrow> distinct (tree_nodes (subtree i t))"
  by (induction t) auto

lemma tree_rep_subtree: "tree_rep xs t \<Longrightarrow> tree_rep xs (subtree i t)"
  by (induction t) auto

lemma parent_link_subtree:
  "distinct (tree_nodes t) \<Longrightarrow> i \<in> set (tree_nodes t) \<Longrightarrow> j \<in> set (tree_nodes (subtree i t)) \<Longrightarrow> j \<noteq> i \<Longrightarrow>
   parent_link j q t = parent_link j q' (subtree i t)"
proof (induction t arbitrary: q)
  case (PNd k l r)
  then show ?case using subtree_nodes [of i l] subtree_nodes [of i r] by auto
qed simp

lemma findLeaf_tree:
  assumes "small (items m)" "tree_rep (items m) t" "distinct (tree_nodes t)" "t \<noteq> PLf"
  shows "findLeaf (tree_link t) q m = Some (word_of_nat (leaf_of t), parent_link (leaf_of t) q t)"
  using assms
proof (induction t arbitrary: q)
  case (PNd i l r)
  have it: "item m (word_of_nat i) = Some (items m ! i)" using PNd.prems item_link by simp
  have l: "pid_left (items m ! i) = LINK_NO_VALUE \<longleftrightarrow> l = PLf" "pid_right (items m ! i) = LINK_NO_VALUE \<longleftrightarrow> r = PLf"
    using PNd.prems by auto
  show ?case
    using PNd.IH PNd.prems it l leaf_in_tree [of l] leaf_in_tree [of r]
    by (subst findLeaf.simps) auto
qed simp

lemma unlink_other: "j \<notin> set (tree_nodes t) \<Longrightarrow> unlink j t = t"
  by (induction t) auto

lemma set_nodes_unlink:
  "distinct (tree_nodes t) \<Longrightarrow> subtree j t = PNd j PLf PLf \<Longrightarrow> set (tree_nodes (unlink j t)) = set (tree_nodes t) - {j}"
proof (induction t)
  case (PNd k l r)
  show ?case
  proof (cases "k = j")
    case False
    consider "j \<in> set (tree_nodes l)" "j \<notin> set (tree_nodes r)" | "j \<notin> set (tree_nodes l)" "j \<in> set (tree_nodes r)" | "j \<notin> set (tree_nodes l)" "j \<notin> set (tree_nodes r)"
      using PNd.prems(1) by auto
    then show ?thesis
      using PNd False by cases (auto simp: unlink_other)
  qed (use PNd in auto)
qed simp

lemma distinct_nodes_unlink:
  "distinct (tree_nodes t) \<Longrightarrow> distinct (tree_nodes (unlink j t)) \<and> set (tree_nodes (unlink j t)) \<subseteq> set (tree_nodes t)"
  by (induction t) auto

lemma trie_unlink: "trie f d t \<Longrightarrow> distinct (tree_nodes t) \<Longrightarrow> trie f d (unlink j t)"
  using distinct_nodes_unlink by (induction t arbitrary: d) (auto, blast+)

definition detach :: "nat \<Rightarrow> nat \<Rightarrow> ProcessTreeNode list \<Rightarrow> ProcessTreeNode list" where
  "detach q j xs =
     xs[q := (if pid_left (xs ! q) = word_of_nat j then (xs ! q)\<lparr>pid_left := LINK_NO_VALUE\<rparr>
              else (xs ! q)\<lparr>pid_right := LINK_NO_VALUE\<rparr>)]"

lemma detach_other [simp]: "i \<noteq> q \<Longrightarrow> detach q j xs ! i = xs ! i" "length (detach q j xs) = length xs"
  by (simp_all add: detach_def)

lemma detach_content [simp]: "tn_pid (detach q j xs ! i) = tn_pid (xs ! i)" "tn_data (detach q j xs ! i) = tn_data (xs ! i)"
  by (cases "i = q \<and> q < length xs"; auto simp: detach_def list_update_beyond not_less nth_list_update_neq)+

lemma unlink_child_link:
  "small (items m) \<Longrightarrow> q < length (items m) \<Longrightarrow> unlink_child (word_of_nat q) (word_of_nat j) m = Some (m\<lparr>items := detach q j (items m)\<rparr>)"
  by (simp add: unlink_child_def item_link set_item_link detach_def)

lemma tree_link_eq:
  "small xs \<Longrightarrow> tree_rep xs t \<Longrightarrow> j < length xs \<Longrightarrow> tree_link t = word_of_nat j \<longleftrightarrow> (\<exists>l r. t = PNd j l r)"
  using link_not_special [of xs j] link_inj by (cases t) auto

lemma subtree_Nd_in: "subtree j t = PNd j l r \<Longrightarrow> j \<in> set (tree_nodes t)"
  using subtree_nodes [of j t] by auto

lemma tree_rep_unlink:
  assumes "small xs" "tree_rep xs t" "distinct (tree_nodes t)" "subtree j t = PNd j PLf PLf" "tree_link t \<noteq> word_of_nat j"
  shows "\<exists>q. parent_link j u t = word_of_nat q \<and> q \<in> set (tree_nodes t) \<and> q \<noteq> j \<and> tree_rep (detach q j xs) (unlink j t) \<and>
    tree_link (unlink j t) = tree_link t"
  using assms
proof (induction t arbitrary: u)
  case (PNd k l r)
  then have k: "k \<noteq> j" by auto
  have jl: "j < length xs" using subtree_Nd_in [OF PNd.prems(4)] tree_rep_range [OF PNd.prems(2)] by blast
  have keep: "tree_rep (detach q j xs) t'" if "tree_rep xs t'" "q \<notin> set (tree_nodes t')" for q t'
  proof (rule tree_rep_cong [OF that(1)])
    show "pid_left (detach q j xs ! i) = pid_left (xs ! i) \<and> pid_right (detach q j xs ! i) = pid_right (xs ! i)"
      if "i \<in> set (tree_nodes t')" for i
      using that \<open>q \<notin> set (tree_nodes t')\<close> by (metis detach_other(1))
  qed simp
  show ?case
  proof (cases "j \<in> set (tree_nodes l)")
    case True
    then have r: "j \<notin> set (tree_nodes r)" using PNd.prems(3) by auto
    note r = r unlink_other [OF r]
    have sl: "subtree j l = PNd j PLf PLf" using PNd.prems(4) k True by simp
    show ?thesis
    proof (cases "tree_link l = word_of_nat j")
      case True
      then have l: "l = PNd j PLf PLf" using tree_link_eq [OF PNd.prems(1) _ jl, of l] PNd.prems(2) sl by auto
      have "tree_rep (detach k j xs) r" using PNd.prems keep by simp
      then show ?thesis
        using l r k PNd.prems(2) by (intro exI [of _ k]) (auto simp: detach_def)
    next
      case False
      then obtain q where q: "parent_link j (word_of_nat k) l = word_of_nat q" "q \<in> set (tree_nodes l)" "q \<noteq> j"
        "tree_rep (detach q j xs) (unlink j l)" "tree_link (unlink j l) = tree_link l"
        using PNd.IH(1) [of "word_of_nat k"] PNd.prems sl by auto
      have "q \<notin> set (tree_nodes r)" "q \<noteq> k" using q(2) PNd.prems(3) by auto
      then show ?thesis using q r k True \<open>j \<in> set (tree_nodes l)\<close> PNd.prems(2) keep by (intro exI [of _ q]) auto
    qed
  next
    case False
    then have l: "unlink j l = l" by (simp add: unlink_other)
    have sr: "subtree j r = PNd j PLf PLf" using PNd.prems(4) k False by simp
    show ?thesis
    proof (cases "tree_link r = word_of_nat j")
      case True
      then have r: "r = PNd j PLf PLf" using tree_link_eq [OF PNd.prems(1) _ jl, of r] PNd.prems(2) sr by auto
      have nl: "pid_left (xs ! k) \<noteq> word_of_nat j"
        using tree_link_eq [OF PNd.prems(1) _ jl, of l] PNd.prems(2) False by auto
      have "tree_rep (detach k j xs) l" using PNd.prems keep by simp
      then show ?thesis
        using l r k PNd.prems(2) nl False by (intro exI [of _ k]) (auto simp: detach_def)
    next
      case neq: False
      then obtain q where q: "parent_link j (word_of_nat k) r = word_of_nat q" "q \<in> set (tree_nodes r)" "q \<noteq> j"
        "tree_rep (detach q j xs) (unlink j r)" "tree_link (unlink j r) = tree_link r"
        using PNd.IH(2) [of "word_of_nat k"] PNd.prems sr by auto
      have "q \<notin> set (tree_nodes l)" "q \<noteq> k" using q(2) PNd.prems(3) by auto
      then show ?thesis using q l k False PNd.prems(2) keep by (intro exI [of _ q]) auto
    qed
  qed
qed simp

text \<open>Moving the content of a node upwards within its branch keeps the bits on the path.\<close>

lemma trie_move_up:
  assumes "trie f d t" "distinct (tree_nodes t)" "i \<in> set (tree_nodes t)" "j \<in> set (tree_nodes (subtree i t))"
    and g: "g i = f j" "\<And>k. k \<noteq> i \<Longrightarrow> g k = f k"
  shows "trie g d t"
  using assms(1-4)
proof (induction t arbitrary: d)
  case (PNd k l r)
  have c: "trie g e t'" if "trie f e t'" "i \<notin> set (tree_nodes t')" for e t'
    by (rule trie_cong [OF that(1)]) (use that(2) g(2) in metis)
  have b: "bit (g a) d = bit (f a) d" if "a \<noteq> i" for a using g(2) [OF that] by simp
  consider "k = i" | "k \<noteq> i" "i \<in> set (tree_nodes l)" "i \<notin> set (tree_nodes r)" | "k \<noteq> i" "i \<notin> set (tree_nodes l)" "i \<in> set (tree_nodes r)"
    using PNd.prems(2,3) by auto
  then show ?case
  proof cases
    case 1
    then have "i \<notin> set (tree_nodes l)" "i \<notin> set (tree_nodes r)" using PNd.prems(2) by auto
    then show ?thesis using PNd.prems(1) c b by (auto, metis+)
  next
    case 2
    then have "j \<in> set (tree_nodes l)" using PNd.prems(4) subtree_nodes by auto
    then show ?thesis using 2 PNd c b g(1) by (auto, metis+)
  next
    case 3
    then have "j \<in> set (tree_nodes r)" using PNd.prems(4) subtree_nodes by auto
    then show ?thesis using 3 PNd c b g(1) by (auto, metis+)
  qed
qed simp

subsection \<open>The map the tree stands for\<close>

definition sp_core :: "ProcessTreeNode list \<Rightarrow> ptree \<Rightarrow> nat list \<Rightarrow> bool" where
  "sp_core xs t fl \<longleftrightarrow> small xs \<and> tree_rep xs t \<and> free_rep xs fl \<and> distinct (tree_nodes t @ fl) \<and>
     set (tree_nodes t @ fl) = {..<length xs} \<and> trie (pid_at xs) 0 t \<and> inj_on (pid_at xs) (set (tree_nodes t)) \<and>
     (\<forall>i \<in> set (tree_nodes t). 0 \<le> pid_at xs i \<and> pid_at xs i < 2 ^ 31)"

definition sp_content :: "ProcessTreeNode list \<Rightarrow> ptree \<Rightarrow> (ProcessID \<rightharpoonup> ProcessInfoData) \<Rightarrow> bool" where
  "sp_content xs t A \<longleftrightarrow> (\<forall>k d. A k = Some d \<longleftrightarrow> (\<exists>i \<in> set (tree_nodes t). pid_at xs i = k \<and> tn_data (xs ! i) = d))"

definition sp_abs :: "SafeProcessMap \<Rightarrow> (ProcessID \<rightharpoonup> ProcessInfoData) \<Rightarrow> bool" where
  "sp_abs m A \<longleftrightarrow> (\<exists>t fl. sp_core (items m) t fl \<and> pid_root m = tree_link t \<and> free_root m = list_link fl \<and>
     sp_content (items m) t A)"

text \<open>The operation on the abstract map of at most \<open>cap\<close> entries: the result, the call of \<^verbatim>\<open>terminated\<close>, the map.\<close>

definition am_search ::
  "nat \<Rightarrow> ProcessID \<Rightarrow> ProcessInfoData \<Rightarrow> (ProcessID \<rightharpoonup> ProcessInfoData) \<Rightarrow>
   int \<times> (nat \<times> int) option \<times> (ProcessID \<rightharpoonup> ProcessInfoData)"
where
  "am_search cap key data A =
     (case A key of
        None \<Rightarrow> if card (dom A) < cap then (if sp_pin data = None then 1 else 0, None, A(key \<mapsto> data)) else (- 1, None, A)
      | Some stored \<Rightarrow>
          (case (sp_pin data, sp_pin stored) of
             (Some pin, None) \<Rightarrow> (1, Some (pin, sp_status stored), A(key := None))
           | (None, Some pin) \<Rightarrow> (0, Some (pin, sp_status data), A(key := None))
           | _ \<Rightarrow> (- 2, None, A)))"

lemma sp_content_None: "sp_content xs t A \<Longrightarrow> A k = None \<longleftrightarrow> (\<forall>i \<in> set (tree_nodes t). pid_at xs i \<noteq> k)"
  unfolding sp_content_def by (metis not_Some_eq)

lemma sp_card:
  assumes "sp_core xs t fl" "sp_content xs t A"
  shows "card (dom A) + length fl = length xs"
proof -
  have d: "distinct (tree_nodes t)" "distinct fl" "set (tree_nodes t) \<inter> set fl = {}" "set (tree_nodes t) \<union> set fl = {..<length xs}"
    and inj: "inj_on (pid_at xs) (set (tree_nodes t))"
    using assms(1) by (auto simp: sp_core_def)
  have "dom A = pid_at xs ` set (tree_nodes t)" using assms(2) unfolding sp_content_def dom_def by (auto 0 4)
  then have "card (dom A) = card (set (tree_nodes t))" using card_image [OF inj] by simp
  moreover have "card (set (tree_nodes t)) + card (set fl) = length xs"
    using card_Un_disjoint [of "set (tree_nodes t)" "set fl"] d(3,4) by simp
  ultimately show ?thesis using distinct_card [OF d(2)] by simp
qed

lemma sp_core_path: "sp_core xs t fl \<Longrightarrow> on_path (pid_at xs) 0 key t"
  by (simp add: sp_core_def on_path_def)

definition new_node :: "ProcessID \<Rightarrow> ProcessInfoData \<Rightarrow> ProcessTreeNode" where
  "new_node key data = \<lparr>pid_left = LINK_NO_VALUE, pid_right = LINK_NO_VALUE, tn_pid = key, tn_data = data\<rparr>"

definition grown :: "ProcessID \<Rightarrow> ProcessInfoData \<Rightarrow> nat \<Rightarrow> ptree \<Rightarrow> ProcessTreeNode list \<Rightarrow> ProcessTreeNode list" where
  "grown key data j t xs =
     (let xs = xs[j := new_node key data]
      in if t = PLf then xs else attach (fst (slot 0 key t)) (bit key (snd (slot 0 key t))) j xs)"

lemma grown_content:
  assumes "j < length xs"
  shows "length (grown key data j t xs) = length xs"
    and "tn_pid (grown key data j t xs ! i) = (if i = j then key else tn_pid (xs ! i))"
    and "tn_data (grown key data j t xs ! i) = (if i = j then data else tn_data (xs ! i))"
  using assms by (auto simp: grown_def Let_def new_node_def nth_list_update)

lemma sp_core_insert:
  assumes core: "sp_core xs t (j # fl)" and con: "sp_content xs t A" and key: "A key = None" "0 \<le> key" "key < 2 ^ 31"
  shows "sp_core (grown key data j t xs) (t_insert 0 key j t) fl"
    and "sp_content (grown key data j t xs) (t_insert 0 key j t) (A(key \<mapsto> data))"
proof -
  let ?xs = "xs[j := new_node key data]" and ?ys = "grown key data j t xs" and ?t = "t_insert 0 key j t"
  have c: "small xs" "tree_rep xs t" "free_rep xs (j # fl)" "distinct (tree_nodes t)" "distinct (j # fl)" "set (tree_nodes t) \<inter> set (j # fl) = {}"
    "set (tree_nodes t) \<union> set (j # fl) = {..<length xs}" "trie (pid_at xs) 0 t" "inj_on (pid_at xs) (set (tree_nodes t))"
    "\<forall>i \<in> set (tree_nodes t). 0 \<le> pid_at xs i \<and> pid_at xs i < 2 ^ 31"
    using core by (auto simp: sp_core_def)
  have j: "j < length xs" "j \<notin> set (tree_nodes t)" using c(3,6) by auto
  note g = grown_content [OF j(1), of key data t]
  have rt: "tree_rep ?xs t" by (rule tree_rep_cong [OF c(2)]) (use j in \<open>auto simp: nth_list_update\<close>)
  have "tree_rep ?ys ?t"
  proof (cases "t = PLf")
    case True
    then show ?thesis using j(1) by (simp add: grown_def new_node_def)
  next
    case False
    then show ?thesis using tree_rep_insert [OF rt c(4) j(2)] j(1) by (simp add: grown_def new_node_def)
  qed
  moreover have "free_rep ?ys fl"
  proof (rule free_rep_cong)
    show "free_rep xs fl" using c(3) by simp
    show "pid_right (?ys ! i) = pid_right (xs ! i)" if "i \<in> set fl" for i
    proof -
      have "i \<noteq> j" "i \<notin> set (tree_nodes t)" using that c(5,6) by auto
      then show ?thesis using slot_in_tree [of t 0 key] by (cases "i = fst (slot 0 key t)") (auto simp: grown_def Let_def)
    qed
  qed (simp add: g)
  moreover have "trie (pid_at ?ys) 0 ?t"
    by (rule trie_insert, rule trie_cong [OF c(8)]) (use j in \<open>auto simp: g\<close>)
  moreover have "inj_on (pid_at ?ys) (set (tree_nodes ?t))"
    using c(9) j(2) sp_content_None [OF con, of key] key(1) by (auto simp: set_nodes_insert g inj_on_def)
  ultimately show "sp_core ?ys ?t fl"
    using c(1,5,6,7,10) key j distinct_nodes_insert [OF c(4) j(2), of 0 key]
    by (auto simp: sp_core_def small_def set_nodes_insert g)
  show "sp_content ?ys ?t (A(key \<mapsto> data))"
    unfolding sp_content_def
  proof (intro allI)
    fix k d
    show "(A(key \<mapsto> data)) k = Some d \<longleftrightarrow> (\<exists>i \<in> set (tree_nodes ?t). pid_at ?ys i = k \<and> tn_data (?ys ! i) = d)"
      using con key(1) j(2) sp_content_None [OF con, of key]
      by (cases "k = key") (auto simp: sp_content_def set_nodes_insert g)
  qed
qed

text \<open>The array after the content of the leaf \<open>j\<close> has moved to \<open>i\<close> and the leaf has been unlinked.\<close>

definition moved :: "nat \<Rightarrow> nat \<Rightarrow> ProcessTreeNode list \<Rightarrow> ProcessTreeNode list" where
  "moved i j xs = xs[i := (xs ! i)\<lparr>tn_pid := tn_pid (xs ! j), tn_data := tn_data (xs ! j)\<rparr>]"

definition free_node :: "u32 \<Rightarrow> ProcessTreeNode" where
  "free_node next' = \<lparr>pid_left = LINK_NO_VALUE, pid_right = next', tn_pid = 0, tn_data = kNoData\<rparr>"

lemma moved_simps:
  assumes "i < length xs"
  shows "length (moved i j xs) = length xs" "pid_left (moved i j xs ! k) = pid_left (xs ! k)"
    "pid_right (moved i j xs ! k) = pid_right (xs ! k)"
    "tn_pid (moved i j xs ! k) = tn_pid (xs ! (if k = i then j else k))"
    "tn_data (moved i j xs ! k) = tn_data (xs ! (if k = i then j else k))"
  using assms by (auto simp: moved_def nth_list_update)

lemma sp_core_remove:
  assumes core: "sp_core xs t fl" and con: "sp_content xs t A"
    and i: "i \<in> set (tree_nodes t)" and j: "j \<in> set (tree_nodes (subtree i t))" "subtree j t = PNd j PLf PLf"
    and ys: "tree_rep ys (unlink j t)" "length ys = length xs"
      "\<And>k. tn_pid (ys ! k) = tn_pid (moved i j xs ! k)" "\<And>k. tn_data (ys ! k) = tn_data (moved i j xs ! k)"
      "\<And>k. k \<in> set fl \<Longrightarrow> pid_right (ys ! k) = pid_right (xs ! k)"
  shows "sp_core (ys[j := free_node (list_link fl)]) (unlink j t) (j # fl)"
    and "sp_content (ys[j := free_node (list_link fl)]) (unlink j t) (A(pid_at xs i := None))"
proof -
  let ?zs = "ys[j := free_node (list_link fl)]" and ?t = "unlink j t"
  have c: "small xs" "tree_rep xs t" "free_rep xs fl" "distinct (tree_nodes t)" "distinct fl" "set (tree_nodes t) \<inter> set fl = {}"
    "set (tree_nodes t) \<union> set fl = {..<length xs}" "trie (pid_at xs) 0 t" "inj_on (pid_at xs) (set (tree_nodes t))"
    "\<forall>i \<in> set (tree_nodes t). 0 \<le> pid_at xs i \<and> pid_at xs i < 2 ^ 31"
    using core by (auto simp: sp_core_def)
  have jt: "j \<in> set (tree_nodes t)" using subtree_nodes j(1) by blast
  have len: "i < length xs" "j < length xs" using i jt tree_rep_range [OF c(2)] by auto
  note mv = moved_simps [OF len(1), of j]
  have st: "set (tree_nodes ?t) = set (tree_nodes t) - {j}" "distinct (tree_nodes ?t)"
    using set_nodes_unlink [OF c(4) j(2)] distinct_nodes_unlink [OF c(4)] by auto
  have at: "tn_pid (?zs ! k) = tn_pid (xs ! (if k = i then j else k))" "tn_data (?zs ! k) = tn_data (xs ! (if k = i then j else k))"
    if "k \<in> set (tree_nodes ?t)" for k
    using that st(1) ys(3,4) mv(4,5) by (auto simp: nth_list_update_neq)
  have inj: "inj_on (\<lambda>k. if k = i then j else k) (set (tree_nodes ?t))" "(\<lambda>k. if k = i then j else k) ` set (tree_nodes ?t) \<subseteq> set (tree_nodes t)"
    using st(1) jt by (auto simp: inj_on_def)
  have "tree_rep ?zs ?t"
    by (rule tree_rep_cong [OF ys(1)]) (use st(1) in \<open>auto simp: nth_list_update_neq\<close>)
  moreover have "free_rep ?zs (j # fl)"
  proof -
    have "j \<notin> set fl" using jt c(6) by auto
    moreover have "free_rep ?zs fl"
      by (rule free_rep_cong [OF c(3)]) (use ys(2) in simp, metis \<open>j \<notin> set fl\<close> nth_list_update_neq ys(5))
    ultimately show ?thesis using len ys(2) by (simp add: free_node_def)
  qed
  moreover have "trie (pid_at ?zs) 0 ?t"
  proof -
    have "trie (pid_at (moved i j xs)) 0 t"
      by (rule trie_move_up [OF c(8,4) i j(1)]) (auto simp: mv)
    from trie_unlink [OF this c(4)] show ?thesis
      by (rule trie_cong) (simp add: at(1) mv(4))
  qed
  moreover have "inj_on (pid_at ?zs) (set (tree_nodes ?t))"
    using comp_inj_on [OF inj(1) inj_on_subset [OF c(9) inj(2)]] inj_on_cong [of "set (tree_nodes ?t)" "pid_at ?zs"] at(1)
    by (simp add: comp_def)
  moreover have "\<forall>k \<in> set (tree_nodes ?t). 0 \<le> pid_at ?zs k \<and> pid_at ?zs k < 2 ^ 31"
  proof
    fix k assume k: "k \<in> set (tree_nodes ?t)"
    then have "(if k = i then j else k) \<in> set (tree_nodes t)" using inj(2) by blast
    from c(10) [rule_format, OF this] show "0 \<le> pid_at ?zs k \<and> pid_at ?zs k < 2 ^ 31" unfolding at(1) [OF k] .
  qed
  ultimately show "sp_core ?zs ?t (j # fl)"
    using c(1,5,6,7) st jt len ys(2) by (auto simp: sp_core_def small_def)
  have old: "A k = Some d \<longleftrightarrow> (\<exists>b \<in> set (tree_nodes t). pid_at xs b = k \<and> tn_data (xs ! b) = d)" for k d
    using con by (simp add: sp_content_def)
  have img: "(\<lambda>k. if k = i then j else k) ` set (tree_nodes ?t) = set (tree_nodes t) - {i}"
    using st(1) i jt by (auto simp: image_iff)
  show "sp_content ?zs ?t (A(pid_at xs i := None))"
    unfolding sp_content_def
  proof (intro allI)
    fix k d
    have "(\<exists>b \<in> set (tree_nodes ?t). pid_at ?zs b = k \<and> tn_data (?zs ! b) = d) \<longleftrightarrow>
        (\<exists>b \<in> (\<lambda>k. if k = i then j else k) ` set (tree_nodes ?t). pid_at xs b = k \<and> tn_data (xs ! b) = d)"
      unfolding bex_simps(7) by (intro bex_cong refl) (simp only: at)
    also have "\<dots> \<longleftrightarrow> (A(pid_at xs i := None)) k = Some d"
      unfolding img using old c(9) i by (auto simp: inj_on_def)
    finally show "(A(pid_at xs i := None)) k = Some d \<longleftrightarrow> (\<exists>b \<in> set (tree_nodes ?t). pid_at ?zs b = k \<and> tn_data (?zs ! b) = d)"
      by simp
  qed
qed

subsection \<open>The code implements the map\<close>

lemma insertNode_attach:
  assumes "small (items m)" "free_root m = word_of_nat j" "j < length (items m)" "k < length (items m)" "k \<noteq> j" "e < 31"
  shows "insertNode (2 ^ Suc e) (word_of_nat k) key data m = Some (if sp_pin data = None then 1 else 0,
    m\<lparr>items := attach k (bit key e) j ((items m)[j := new_node key data]), free_root := pid_right (items m ! j), rover := word_of_nat j\<rparr>)"
proof -
  have b: "drop_bit 1 (2 ^ Suc e :: u32) = push_bit e 1"
    by (rule bit_eqI) (use assms(6) in \<open>auto simp: bit_drop_bit_eq bit_exp_iff simp del: power_Suc\<close>)
  have s: "small ((items m)[j := new_node key data])" using assms(1) by (simp add: small_def)
  have n: "(word_of_nat j :: u32) \<noteq> LINK_NO_VALUE" using link_not_special(1) [OF assms(1,3)] .
  have t: "word_of_int key AND push_bit e (1 :: u32) \<noteq> 0 \<longleftrightarrow> bit key e" using key_bit_test [of e key] assms(6) by simp
  let ?m1 = "m\<lparr>rover := word_of_nat j, free_root := pid_right (items m ! j), items := (items m)[j := new_node key data]\<rparr>"
  have "set_item (word_of_nat k) f ?m1 = Some (?m1\<lparr>items := (items ?m1)[k := f (items m ! k)]\<rparr>)" for f
    using assms set_item_link [of ?m1 k f] s by simp
  then show ?thesis
    using assms n t
    unfolding insertNode_def b Let_def
    by (cases "bit key e") (simp_all add: item_link set_item_link attach_def new_node_def)
qed

lemma search_insert:
  assumes abs: "sp_core (items m) t fl" "pid_root m = tree_link t" "free_root m = list_link fl" "sp_content (items m) t A"
    and key: "A key = None" "0 \<le> key" "key < 2 ^ 31" and ne: "items m \<noteq> []"
  shows "\<exists>m'. search_locked key data m = Some (case am_search (length (items m)) key data A of (ret, _) \<Rightarrow>
      (ret, \<lparr>sp_status = sp_status data, sp_pin = None\<rparr>, m')) \<and>
    sp_abs m' (snd (snd (am_search (length (items m)) key data A))) \<and> length (items m') = length (items m)"
proof -
  note c = abs(1) [unfolded sp_core_def]
  have full: "card (dom A) < length (items m) \<longleftrightarrow> fl \<noteq> []" using sp_card [OF abs(1,4)] by (cases fl) auto
  show ?thesis
  proof (cases fl)
    case Nil
    then have t: "t \<noteq> PLf" using c ne by auto
    have "findNode (2 ^ 0) LINK_NO_VALUE key (m\<lparr>pid_root := LINK_LOCKED, rover := pid_root m\<rparr>) =
        Some (2 ^ Suc (snd (slot 0 key t)), word_of_nat (fst (slot 0 key t)), m\<lparr>pid_root := LINK_LOCKED, rover := LINK_NO_VALUE\<rparr>)"
      using findNode_missing [of "m\<lparr>pid_root := LINK_LOCKED, rover := pid_root m\<rparr>" t 0 key LINK_NO_VALUE] c abs t key
        sp_core_path [OF abs(1)] sp_content_None [OF abs(4)] by simp
    moreover have "tree_link t \<noteq> LINK_NO_VALUE" using c t tree_link_NO by blast
    ultimately have "search_locked key data m = Some (- 1, \<lparr>sp_status = sp_status data, sp_pin = None\<rparr>,
        m\<lparr>pid_root := tree_link t, rover := LINK_NO_VALUE\<rparr>)"
      using abs(2,3) Nil by (simp add: search_locked_def insertNode_def)
    moreover have "sp_abs (m\<lparr>pid_root := tree_link t, rover := LINK_NO_VALUE\<rparr>) A"
      unfolding sp_abs_def using abs by (intro exI [of _ t] exI [of _ fl]) simp
    ultimately show ?thesis
      using full Nil key(1) by (simp add: am_search_def)
  next
    case (Cons j fl')
    have j: "j < length (items m)" "small (items m)" "pid_right (items m ! j) = list_link fl'" "j \<notin> set (tree_nodes t)"
      using c Cons by auto
    let ?m = "m\<lparr>items := grown key data j t (items m), pid_root := (if t = PLf then word_of_nat j else tree_link t),
      free_root := list_link fl', rover := word_of_nat j\<rparr>"
    have "search_locked key data m = Some (if sp_pin data = None then 1 else 0, \<lparr>sp_status = sp_status data, sp_pin = None\<rparr>, ?m)"
    proof (cases "t = PLf")
      case True
      then show ?thesis
        using abs(2,3) Cons j by (simp add: search_locked_def item_link set_item_link grown_def new_node_def)
    next
      case False
      define e where "e = snd (slot 0 key t)"
      define k where "k = fst (slot 0 key t)"
      have f: "findNode (2 ^ 0) LINK_NO_VALUE key (m\<lparr>pid_root := LINK_LOCKED, rover := pid_root m\<rparr>) =
          Some (2 ^ Suc e, word_of_nat k, m\<lparr>pid_root := LINK_LOCKED, rover := LINK_NO_VALUE\<rparr>)" and ek: "e < 31" "k \<in> set (tree_nodes t)"
        using findNode_missing [of "m\<lparr>pid_root := LINK_LOCKED, rover := pid_root m\<rparr>" t 0 key LINK_NO_VALUE] c abs False key
          sp_core_path [OF abs(1)] sp_content_None [OF abs(4)] by (simp_all add: e_def k_def)
      have k: "k < length (items m)" "k \<noteq> j" using tree_rep_range [of "items m" t k] c ek(2) j(4) by auto
      have "insertNode (2 ^ Suc e) (word_of_nat k) key data (m\<lparr>pid_root := LINK_LOCKED, rover := LINK_NO_VALUE\<rparr>) =
          Some (if sp_pin data = None then 1 else 0, m\<lparr>pid_root := LINK_LOCKED, items := grown key data j t (items m),
            free_root := list_link fl', rover := word_of_nat j\<rparr>)"
        using insertNode_attach [of "m\<lparr>pid_root := LINK_LOCKED, rover := LINK_NO_VALUE\<rparr>" j k e key data] j k ek(1) abs(3) Cons False
        by (simp add: grown_def Let_def e_def k_def del: power_Suc)
      moreover have "tree_link t \<noteq> LINK_NO_VALUE" using c False tree_link_NO by blast
      ultimately show ?thesis
        using f abs(2) False by (simp add: search_locked_def del: power_Suc)
    qed
    moreover have "sp_abs ?m (A(key \<mapsto> data))"
      unfolding sp_abs_def
      using sp_core_insert [OF abs(1) [unfolded Cons] abs(4) key, of data] tree_link_insert [of t 0 key j]
      by (intro exI [of _ "t_insert 0 key j t"] exI [of _ fl']) simp
    ultimately show ?thesis
      using full Cons key(1) grown_content(1) [OF j(1)] by (simp add: am_search_def)
  qed
qed

lemma moved_self: "moved i i xs = xs"
  by (simp add: moved_def)

lemma deleteNode_spec:
  assumes core: "sp_core (items m) t fl" and fr: "free_root m = list_link fl" and rv: "rover m = word_of_nat i"
    and i: "i \<in> set (tree_nodes t)" and j: "j = leaf_of (subtree i t)"
  shows "\<exists>ys. deleteNode (parent_link i u t) (word_of_nat j) (tree_link t) (parent_link j (word_of_nat i) (subtree i t)) m =
      Some (tree_link (unlink j t), m\<lparr>items := ys[j := free_node (list_link fl)], free_root := word_of_nat j\<rparr>) \<and>
    tree_rep ys (unlink j t) \<and> length ys = length (items m) \<and> (\<forall>k. tn_pid (ys ! k) = tn_pid (moved i j (items m) ! k)) \<and>
    (\<forall>k. tn_data (ys ! k) = tn_data (moved i j (items m) ! k)) \<and> (\<forall>k \<in> set fl. pid_right (ys ! k) = pid_right (items m ! k))"
proof -
  let ?xs = "items m"
  have c: "small ?xs" "tree_rep ?xs t" "distinct (tree_nodes t)" "set (tree_nodes t) \<inter> set fl = {}"
    using core by (auto simp: sp_core_def)
  obtain l r where s: "subtree i t = PNd i l r" using subtree_root [OF i] by blast
  have js: "j \<in> set (tree_nodes (subtree i t))" using leaf_in_tree [of "subtree i t"] s j by simp
  have jl: "subtree j t = PNd j PLf PLf"
    unfolding subtree_subtree [OF c(3) i js] unfolding j
    by (rule subtree_leaf) (simp add: s, rule distinct_subtree [OF c(3)])
  have len: "i < length ?xs" "j < length ?xs"
    using i js subtree_nodes tree_rep_range [OF c(2)] by (blast+)
  note mv = moved_simps [OF len(1), of j]
  have inj: "(word_of_nat j :: u32) = word_of_nat i \<longleftrightarrow> j = i" using link_inj [OF c(1) len(2,1)] .
  have fin: "set_item (word_of_nat j) (\<lambda>_. \<lparr>pid_left = LINK_NO_VALUE, pid_right = free_root m', tn_pid = 0, tn_data = kNoData\<rparr>) m' =
      Some (m'\<lparr>items := (items m')[j := free_node (free_root m')]\<rparr>)" if "length (items m') = length ?xs" for m'
    using set_item_link [of m' j] c(1) len(2) that by (simp add: free_node_def small_def)
  show ?thesis
  proof (cases "tree_link t = word_of_nat j")
    case True
    then have t: "t = PNd j PLf PLf" using tree_link_eq [OF c(1,2) len(2)] jl by auto
    then have "i = j" using i by simp
    then show ?thesis
      using t fr fin [of m] moved_self by (intro exI [of _ ?xs]) (simp add: deleteNode_def)
  next
    case False
    define ms where "ms = moved i j ?xs"
    have ms: "small ms" "tree_rep ms t" "length ms = length ?xs"
      using c(1) mv tree_rep_cong [OF c(2), of ms] by (simp_all add: ms_def small_def)
    obtain q where q: "parent_link j u t = word_of_nat q" "q \<in> set (tree_nodes t)" "q \<noteq> j" "tree_rep (detach q j ms) (unlink j t)"
      "tree_link (unlink j t) = tree_link t"
      using tree_rep_unlink [OF ms(1,2) c(3) jl False, of u] by blast
    have ql: "q < length ?xs" using q(2) tree_rep_range [OF c(2)] by blast
    have fl: "pid_right (detach q j ms ! k) = pid_right (?xs ! k)" if "k \<in> set fl" for k
    proof -
      have "k \<noteq> q" using that q(2) c(4) by auto
      then show ?thesis using mv(3) by (simp add: ms_def)
    qed
    have "deleteNode (parent_link i u t) (word_of_nat j) (tree_link t) (parent_link j (word_of_nat i) (subtree i t)) m =
      Some (tree_link t, m\<lparr>items := (detach q j ms)[j := free_node (list_link fl)], free_root := word_of_nat j\<rparr>)"
    proof (cases "j = i")
      case True
      then have "unlink_child (parent_link i u t) (word_of_nat i) m = Some (m\<lparr>items := detach q j ms\<rparr>)"
        using unlink_child_link [OF c(1) ql, of i] q(1) moved_self by (simp add: ms_def)
      then show ?thesis
        using True False rv fin [of "m\<lparr>items := detach q j ms\<rparr>"] fr ms(3) by (simp add: deleteNode_def)
    next
      case ne: False
      have "parent_link j (word_of_nat i) (subtree i t) = word_of_nat q"
        using parent_link_subtree [OF c(3) i js ne] q(1) by metis
      moreover have "unlink_child (word_of_nat q) (word_of_nat j) (m\<lparr>items := ms\<rparr>) = Some (m\<lparr>items := detach q j ms\<rparr>)"
        using unlink_child_link [of "m\<lparr>items := ms\<rparr>" q j] ms ql by simp
      ultimately show ?thesis
        using ne False inj rv fin [of "m\<lparr>items := detach q j ms\<rparr>"] fr ms(3) c(1) len
        by (auto simp: deleteNode_def item_link set_item_link moved_def [symmetric] ms_def [symmetric])
    qed
    then show ?thesis
      using q(4,5) ms(3) fl by (intro exI [of _ "detach q j ms"]) (simp add: ms_def)
  qed
qed

lemma search_found:
  assumes abs: "sp_core (items m) t fl" "pid_root m = tree_link t" "free_root m = list_link fl" "sp_content (items m) t A"
    and key: "A key = Some stored" "0 \<le> key" "key < 2 ^ 31"
  shows "\<exists>target m'. search_locked key data m = Some (fst (am_search (length (items m)) key data A), target, m') \<and>
    map_option (\<lambda>pin. (pin, sp_status target)) (sp_pin target) = fst (snd (am_search (length (items m)) key data A)) \<and>
    sp_abs m' (snd (snd (am_search (length (items m)) key data A))) \<and> length (items m') = length (items m)"
proof -
  note c = abs(1) [unfolded sp_core_def]
  obtain i where i: "i \<in> set (tree_nodes t)" "pid_at (items m) i = key" "tn_data (items m ! i) = stored"
    using abs(4) key(1) unfolding sp_content_def by blast
  have il: "i < length (items m)" using tree_rep_range [of "items m" t i] c i(1) by blast
  have t: "tree_link t \<noteq> LINK_NO_VALUE" "t \<noteq> PLf" using c i(1) tree_link_NO by fastforce+
  let ?start = "m\<lparr>pid_root := LINK_LOCKED, rover := pid_root m\<rparr>"
  let ?m = "m\<lparr>pid_root := LINK_LOCKED, rover := word_of_nat i\<rparr>"
  have "\<exists>b. findNode (2 ^ 0) LINK_NO_VALUE key ?start = Some (b, parent_link i LINK_NO_VALUE t, ?start\<lparr>rover := word_of_nat i\<rparr>)"
    by (rule findNode_found [of ?start]) (use c abs(2) i key sp_core_path [OF abs(1)] in simp_all)
  then obtain b where f: "findNode 1 LINK_NO_VALUE key ?start = Some (b, parent_link i LINK_NO_VALUE t, ?m)"
    by fastforce
  have it: "item ?m (word_of_nat i) = Some (items m ! i)" using item_link [of ?m i] c il by simp
  have ni: "(word_of_nat i :: u32) \<noteq> LINK_NO_VALUE" using link_not_special c il by blast
  show ?thesis
  proof (cases "(sp_pin data = None) = (sp_pin stored = None)")
    case True
    have "search_locked key data m = Some (- 2, \<lparr>sp_status = sp_status data, sp_pin = None\<rparr>,
        m\<lparr>rover := word_of_nat i, pid_root := tree_link t\<rparr>)"
      using f it ni abs(2) t(1) True i(3) by (auto simp: search_locked_def removeNode_def Let_def)
    moreover have "sp_abs (m\<lparr>rover := word_of_nat i, pid_root := tree_link t\<rparr>) A"
      unfolding sp_abs_def using abs by (intro exI [of _ t] exI [of _ fl]) simp
    moreover have "am_search (length (items m)) key data A = (- 2, None, A)"
      using True key(1) by (auto simp: am_search_def split: option.splits)
    ultimately show ?thesis by simp
  next
    case False
    define j where "j = leaf_of (subtree i t)"
    obtain l r where s: "subtree i t = PNd i l r" using subtree_root [OF i(1)] by blast
    have js: "j \<in> set (tree_nodes (subtree i t))" using leaf_in_tree [of "subtree i t"] s by (simp add: j_def)
    have jl: "subtree j t = PNd j PLf PLf"
      using c subtree_subtree [of t i j] i(1) js subtree_leaf [of "subtree i t"] distinct_subtree [of t i] s
      by (simp add: j_def del: leaf_of.simps subtree.simps tree_nodes.simps)
    have leaf: "findLeaf (word_of_nat i) (word_of_nat i) ?m = Some (word_of_nat j, parent_link j (word_of_nat i) (subtree i t))"
      using findLeaf_tree [of ?m "subtree i t" "word_of_nat i"] c tree_rep_subtree [of "items m" t i] distinct_subtree [of t i] s
      by (simp add: j_def del: tree_rep.simps leaf_of.simps parent_link.simps tree_nodes.simps)
    obtain ys where d: "deleteNode (parent_link i LINK_NO_VALUE t) (word_of_nat j) (tree_link t) (parent_link j (word_of_nat i) (subtree i t)) ?m =
        Some (tree_link (unlink j t), ?m\<lparr>items := ys[j := free_node (list_link fl)], free_root := word_of_nat j\<rparr>)"
      "tree_rep ys (unlink j t)" "length ys = length (items m)" "\<And>k. tn_pid (ys ! k) = tn_pid (moved i j (items m) ! k)"
      "\<And>k. tn_data (ys ! k) = tn_data (moved i j (items m) ! k)" "\<And>k. k \<in> set fl \<Longrightarrow> pid_right (ys ! k) = pid_right (items m ! k)"
      using deleteNode_spec [of ?m t fl i j LINK_NO_VALUE] abs(1,3) i(1) by (auto simp: j_def)
    let ?m' = "m\<lparr>rover := word_of_nat i, items := ys[j := free_node (list_link fl)], free_root := word_of_nat j,
      pid_root := tree_link (unlink j t)\<rparr>"
    let ?target = "if sp_pin stored \<noteq> None then stored\<lparr>sp_status := sp_status data\<rparr> else stored\<lparr>sp_pin := sp_pin data\<rparr>"
    have "search_locked key data m = Some (if sp_pin data \<noteq> None then 1 else 0, ?target, ?m')"
      using f it ni abs(2) t(1) False i(3) leaf d(1) by (simp add: search_locked_def removeNode_def Let_def)
    moreover have "sp_abs ?m' (A(key := None))"
      unfolding sp_abs_def i(2) [symmetric]
      using sp_core_remove [OF abs(1,4) i(1) js jl d(2-6)] d(3)
      by (intro exI [of _ "unlink j t"] exI [of _ "j # fl"]) simp
    ultimately show ?thesis
      using False key(1) d(3) by (auto simp: am_search_def split: option.splits)
  qed
qed

lemma search_locked_refines:
  assumes "sp_abs m A" "0 \<le> key" "key < 2 ^ 31" "items m \<noteq> []"
  shows "\<exists>target m'. search_locked key data m = Some (fst (am_search (length (items m)) key data A), target, m') \<and>
    map_option (\<lambda>pin. (pin, sp_status target)) (sp_pin target) = fst (snd (am_search (length (items m)) key data A)) \<and>
    sp_abs m' (snd (snd (am_search (length (items m)) key data A))) \<and> length (items m') = length (items m)"
proof -
  obtain t fl where r: "sp_core (items m) t fl" "pid_root m = tree_link t" "free_root m = list_link fl" "sp_content (items m) t A"
    using assms(1) by (auto simp: sp_abs_def)
  show ?thesis
  proof (cases "A key")
    case None
    have "fst (snd (am_search (length (items m)) key data A)) = None" using None by (simp add: am_search_def)
    then show ?thesis using search_insert [OF r None assms(2-4), of data] by (auto simp: case_prod_beta)
  next
    case (Some stored)
    then show ?thesis using search_found [OF r Some assms(2,3)] by blast
  qed
qed

lemma free_rep_upt:
  "free_rep xs [k..<length xs]" if "\<And>i. i < length xs \<Longrightarrow> pid_right (xs ! i) = (if i = length xs - 1 then LINK_NO_VALUE else word_of_nat (i + 1))"
proof (induction "length xs - k" arbitrary: k)
  case (Suc n)
  then have k: "k < length xs" "[k..<length xs] = k # [Suc k..<length xs]" by (simp_all add: upt_conv_Cons)
  have "pid_right (xs ! k) = list_link [Suc k..<length xs]"
  proof (cases "k = length xs - 1")
    case True
    then have "[Suc k..<length xs] = []" by simp
    then show ?thesis using that [OF k(1)] True by simp
  next
    case False
    then have "Suc k < length xs" using k(1) by simp
    then have "[Suc k..<length xs] = Suc k # [Suc (Suc k)..<length xs]" by (simp add: upt_conv_Cons)
    then show ?thesis using that [OF k(1)] False by simp
  qed
  then show ?case using k Suc.hyps(1) [of "Suc k"] Suc.hyps(2) by simp
qed simp

lemma sp_abs_new:
  assumes "0 < unat c" "unat c < 2 ^ 32 - 2"
  shows "sp_abs (SafeProcessMap_new c) Map.empty" "length (items (SafeProcessMap_new c)) = unat c"
proof -
  let ?m = "SafeProcessMap_new c" let ?xs = "items ?m"
  show l: "length ?xs = unat c" using assms by (simp add: SafeProcessMap_new_def Let_def)
  have "free_rep ?xs [0..<length ?xs]"
    by (rule free_rep_upt) (use assms in \<open>simp add: SafeProcessMap_new_def Let_def\<close>)
  then have "sp_core ?xs PLf [0..<unat c]"
    using l assms by (auto simp: sp_core_def small_def)
  moreover have "free_root ?m = list_link [0..<unat c]" "pid_root ?m = tree_link PLf"
    using assms by (simp_all add: SafeProcessMap_new_def Let_def upt_conv_Cons)
  ultimately show "sp_abs ?m Map.empty"
    unfolding sp_abs_def by (intro exI [of _ PLf] exI [of _ "[0..<unat c]"]) (simp add: sp_content_def)
qed

text \<open>The locked sections of all threads in the order in which they take the lock.\<close>

fun sp_run ::
  "(ProcessID \<times> ProcessInfoData) list \<Rightarrow> SafeProcessMap \<Rightarrow> ((int \<times> (nat \<times> int) option) list \<times> SafeProcessMap) option"
where
  "sp_run [] m = Some ([], m)"
| "sp_run ((key, data) # reqs) m = do {
     (ret_value, target, m) \<leftarrow> search_locked key data m;
     (outs, m) \<leftarrow> sp_run reqs m;
     Some ((ret_value, map_option (\<lambda>pin. (pin, sp_status target)) (sp_pin target)) # outs, m)
   }"

definition started :: "nat \<Rightarrow> ProcessInfoData" where
  "started object = \<lparr>sp_status = 0, sp_pin = Some object\<rparr>"

definition exited :: "int \<Rightarrow> ProcessInfoData" where
  "exited status = \<lparr>sp_status = status, sp_pin = None\<rparr>"

lemma am_search_other: "k \<noteq> key \<Longrightarrow> snd (snd (am_search n k d A)) key = A key"
  by (auto simp: am_search_def split: option.splits)

lemma am_search_card:
  assumes "finite (dom A)"
  shows "finite (dom (snd (snd (am_search n k d A))))" "card (dom (snd (snd (am_search n k d A)))) \<le> Suc (card (dom A))"
  using assms card_insert_le_m1 [of "Suc (card (dom A))" "dom A" k] card_Diff_subset [of "{k}" "dom A"]
  by (auto simp: am_search_def card_insert_if dom_fun_upd card_Diff1_le le_SucI split: option.splits)

lemma sp_abs_finite: "sp_abs m A \<Longrightarrow> finite (dom A)"
proof -
  assume "sp_abs m A"
  then obtain t where "sp_content (items m) t A" by (auto simp: sp_abs_def)
  then have "dom A \<subseteq> pid_at (items m) ` set (tree_nodes t)" by (auto simp: sp_content_def)
  then show ?thesis by (rule finite_subset) simp
qed

lemma sp_run_other:
  assumes "sp_abs m A" "items m \<noteq> []" "\<forall>(k, d) \<in> set reqs. 0 \<le> k \<and> k < 2 ^ 31 \<and> k \<noteq> key"
  shows "\<exists>outs m' A'. sp_run reqs m = Some (outs, m') \<and> length outs = length reqs \<and> sp_abs m' A' \<and> A' key = A key \<and>
    length (items m') = length (items m) \<and> card (dom A') \<le> card (dom A) + length reqs"
  using assms
proof (induction reqs arbitrary: m A)
  case (Cons req reqs)
  obtain k d where kd: "req = (k, d)" by fastforce
  let ?A = "snd (snd (am_search (length (items m)) k d A))"
  have k: "0 \<le> k" "k < 2 ^ 31" "k \<noteq> key" using Cons.prems(3) kd by auto
  obtain ret target m1 where 1: "search_locked k d m = Some (ret, target, m1)" "sp_abs m1 ?A" "length (items m1) = length (items m)"
    using search_locked_refines [OF Cons.prems(1) k(1,2) Cons.prems(2), of d] by blast
  have i1: "items m1 \<noteq> []" using 1(3) Cons.prems(2) by (metis length_0_conv)
  have r1: "\<forall>(k, d) \<in> set reqs. 0 \<le> k \<and> k < 2 ^ 31 \<and> k \<noteq> key" using Cons.prems(3) by simp
  obtain outs m' A' where 2: "sp_run reqs m1 = Some (outs, m')" "length outs = length reqs" "sp_abs m' A'" "A' key = ?A key"
    "length (items m') = length (items m1)" "card (dom A') \<le> card (dom ?A) + length reqs"
    using Cons.IH [OF 1(2) i1 r1] by blast
  have "card (dom ?A) \<le> Suc (card (dom A))" using am_search_card(2) sp_abs_finite [OF Cons.prems(1)] by blast
  then have "card (dom A') \<le> card (dom A) + length (req # reqs)" using 2(6) by simp
  moreover have "A' key = A key" using 2(4) am_search_other [OF k(3)] by simp
  ultimately show ?case using 1(1,3) 2(1-3,5) kd by auto
qed auto

lemma sp_run_append:
  "sp_run (xs @ ys) m = do { (o1, m) \<leftarrow> sp_run xs m; (o2, m) \<leftarrow> sp_run ys m; Some (o1 @ o2, m) }"
proof (induction xs arbitrary: m)
  case Nil
  then show ?case by (cases "sp_run ys m") auto
next
  case (Cons x xs)
  obtain k d where "x = (k, d)" by fastforce
  then show ?case using Cons by (cases "search_locked k d m") (auto simp: bind_assoc split: bind_splits)
qed

subsection \<open>Properties\<close>

text \<open>
  (C5) The process map is correct: for every state that stands for a map \<open>A\<close> and every process
  identifier the locked section returns, never reads or writes outside the array, and does what the
  map of at most \<open>length (items m)\<close> entries does. A first arrival leaves an entry, or reports that
  the map is full; a second arrival of the other kind removes the entry and hands the exit status to
  the node; two arrivals of the same kind change nothing and are repeated. The mask never shifts out
  of its 32 bits, and the node that replaces a removed one keeps every other key reachable. A new
  map stands for the empty one.
\<close>

theorem process_map_refines:
  assumes "0 \<le> key" "key < 2 ^ 31"
  shows "(\<forall>m A. sp_abs m A \<and> items m \<noteq> [] \<longrightarrow>
      (\<exists>target m'. search_locked key data m = Some (fst (am_search (length (items m)) key data A), target, m') \<and>
        map_option (\<lambda>pin. (pin, sp_status target)) (sp_pin target) = fst (snd (am_search (length (items m)) key data A)) \<and>
        sp_abs m' (snd (snd (am_search (length (items m)) key data A))) \<and> length (items m') = length (items m))) \<and>
    (\<forall>c. 0 < unat c \<and> unat c < 2 ^ 32 - 2 \<longrightarrow> sp_abs (SafeProcessMap_new c) Map.empty)"
  using search_locked_refines assms sp_abs_new(1) by blast

theorem process_map_refines_witness:
  "\<exists>target m'. search_locked 7 (exited 3) (SafeProcessMap_new 4) = Some (1, target, m') \<and> sp_abs m' [7 \<mapsto> exited 3]"
proof -
  have n: "sp_abs (SafeProcessMap_new 4) Map.empty" "length (items (SafeProcessMap_new 4)) = 4"
    using sp_abs_new [of 4] by simp_all
  then have "items (SafeProcessMap_new 4) \<noteq> []" by (metis length_0_conv zero_neq_numeral)
  with process_map_refines [of 7 "exited 3", THEN conjunct1, rule_format, OF _ _ conjI [OF n(1)]] n(2) show ?thesis
    by (auto simp: am_search_def exited_def)
qed

text \<open>
  (C19) The starting thread and the thread that collects exit statuses always meet, in whichever
  order they come and whatever the other threads do in between: with room in the map, the first one
  makes no call, the second one calls \<^verbatim>\<open>terminated\<close> on the started node with the exit status, and the
  identifier is free again afterwards.
\<close>

theorem process_map_rendezvous:
  assumes "sp_abs m A" "A key = None" "0 \<le> key" "key < 2 ^ 31"
    and "\<forall>(k, d) \<in> set others. 0 \<le> k \<and> k < 2 ^ 31 \<and> k \<noteq> key" "card (dom A) < length (items m)"
    and "(first, second) = (started object, exited status) \<or> (first, second) = (exited status, started object)"
  shows "\<exists>r outs r' m' A'. sp_run ((key, first) # others @ [(key, second)]) m = Some ((r, None) # outs @ [(r', Some (object, status))], m') \<and>
    r \<noteq> - 1 \<and> r' \<noteq> - 1 \<and> length outs = length others \<and> sp_abs m' A' \<and> A' key = None"
proof -
  let ?n = "length (items m)"
  have ne: "items m \<noteq> []" using assms(6) by auto
  have a1: "am_search ?n key first A = (if sp_pin first = None then 1 else 0, None, A(key \<mapsto> first))"
    using assms(2,6) by (simp add: am_search_def)
  obtain t1 m1 where 1: "search_locked key first m = Some (if sp_pin first = None then 1 else 0, t1, m1)" "sp_pin t1 = None"
    "sp_abs m1 (A(key \<mapsto> first))" "length (items m1) = ?n"
    using search_locked_refines [OF assms(1,3,4) ne, of first] a1 by auto
  have ne1: "items m1 \<noteq> []" using 1(4) ne by (metis length_0_conv)
  obtain outs m2 A2 where 2: "sp_run others m1 = Some (outs, m2)" "length outs = length others" "sp_abs m2 A2"
    "A2 key = Some first" "length (items m2) = ?n"
    using sp_run_other [OF 1(3) ne1 assms(5)] 1(4) by auto
  have ne2: "items m2 \<noteq> []" using 2(5) ne by (metis length_0_conv)
  have a2: "am_search ?n key second A2 = (if sp_pin second = None then 0 else 1, Some (object, status), A2(key := None))"
    using 2(4) assms(7) by (auto simp: am_search_def started_def exited_def)
  obtain t3 m3 where 3: "search_locked key second m2 = Some (if sp_pin second = None then 0 else 1, t3, m3)"
    "map_option (\<lambda>pin. (pin, sp_status t3)) (sp_pin t3) = Some (object, status)" "sp_abs m3 (A2(key := None))"
    using search_locked_refines [OF 2(3) assms(3,4) ne2, of second] a2 2(5) by auto
  have "sp_run ((key, first) # others @ [(key, second)]) m =
      Some ((if sp_pin first = None then 1 else 0, None) # outs @ [(if sp_pin second = None then 0 else 1, Some (object, status))], m3)"
    using 1(1,2) 2(1) 3(1,2) by (simp add: sp_run_append)
  moreover have "(if sp_pin first = None then 1 else 0) \<noteq> (- 1 :: int)" "(if sp_pin second = None then 0 else 1) \<noteq> (- 1 :: int)"
    by simp_all
  moreover have "(A2(key := None)) key = None" by simp
  ultimately show ?thesis using 2(2) 3(3) by blast
qed

theorem process_map_rendezvous_witness:
  "\<exists>r outs r' m'. sp_run [(7, exited 3), (6, started 20), (7, started 10)] (SafeProcessMap_new 4) =
     Some ((r, None) # outs @ [(r', Some (10, 3))], m')"
  using process_map_rendezvous [of "SafeProcessMap_new 4" Map.empty 7 "[(6, started 20)]" "exited 3" "started 10" 10 3]
    sp_abs_new [of 4] by fastforce

end
