(* ===== verification/Job_Queue.thy ===== *)
theory Job_Queue
  imports Ring_Buffer
begin

section \<open>The queue of the worker threads\<close>

text \<open>
  Models \<^verbatim>\<open>process_group_manager/jobqueue.{hpp,cpp}\<close> and the loop of \<^verbatim>\<open>workerthread.cpp\<close>. The queue has no
  lock: two semaphores count items and free places, two atomic counters hand out the places. An
  operation is therefore four steps (wait for a semaphore, fetch an index, access the place, post the
  other semaphore), and the steps of several threads interleave. A thread is represented by what it
  does next; \<open>jq_micro\<close> is one step of it, \<open>None\<close> while it waits for a semaphore.
  \<open>addJobToQueue\<close> and \<open>getJobFromQueue\<close> are the operations without interleaving.

  The semaphores are natural numbers: their values never exceed the capacity, which is at most the
  maximum number of processes. A wait that runs into its time limit without seeing a post is the
  operation that is not scheduled any further.
\<close>

record 'j JobQueue =
  num_items :: nat
  num_spaces :: nat
  in_index :: u32
  out_index :: u32
  the_items :: "'j option list"
  is_running :: bool

definition JobQueue_new :: "nat \<Rightarrow> 'j JobQueue" where
  "JobQueue_new capacity =
     \<lparr>num_items = 0, num_spaces = capacity, in_index = 0, out_index = 0, the_items = replicate capacity None, is_running = True\<rparr>"

abbreviation jq_capacity :: "'j JobQueue \<Rightarrow> nat" where
  "jq_capacity q \<equiv> length (the_items q)"

datatype 'j JobThread =
  Add_wait 'j | Add_index 'j | Add_store 'j nat | Add_post | Add_done
| Get_wait | Get_index | Get_load nat | Get_post "'j option" | Get_done "'j option"

fun jq_micro :: "'j JobThread \<Rightarrow> 'j JobQueue \<Rightarrow> ('j JobThread \<times> 'j JobQueue) option" where
  "jq_micro (Add_wait job) q =
     (if num_spaces q > 0 then Some (Add_index job, q\<lparr>num_spaces := num_spaces q - 1\<rparr>) else None)"
| "jq_micro (Add_index job) q =
     Some (Add_store job (unat (in_index q) mod jq_capacity q), q\<lparr>in_index := in_index q + 1\<rparr>)"
| "jq_micro (Add_store job index) q = Some (Add_post, q\<lparr>the_items := (the_items q)[index := Some job]\<rparr>)"
| "jq_micro Add_post q = Some (Add_done, q\<lparr>num_items := num_items q + 1\<rparr>)"
| "jq_micro Add_done q = None"
| "jq_micro Get_wait q =
     (if num_items q > 0
      then Some (if is_running q then Get_index else Get_done None, q\<lparr>num_items := num_items q - 1\<rparr>) else None)"
| "jq_micro Get_index q = Some (Get_load (unat (out_index q) mod jq_capacity q), q\<lparr>out_index := out_index q + 1\<rparr>)"
| "jq_micro (Get_load index) q = Some (Get_post (the_items q ! index), q)"
| "jq_micro (Get_post result) q = Some (Get_done result, q\<lparr>num_spaces := num_spaces q + 1\<rparr>)"
| "jq_micro (Get_done result) q = None"

definition stopQueue :: "nat \<Rightarrow> 'j JobQueue \<Rightarrow> 'j JobQueue" where
  "stopQueue nr_threads q = q\<lparr>is_running := False, num_items := num_items q + nr_threads\<rparr>"

text \<open>A schedule of threads, by their numbers.\<close>

fun jq_schedule :: "nat list \<Rightarrow> 'j JobThread list \<times> 'j JobQueue \<Rightarrow> ('j JobThread list \<times> 'j JobQueue) option" where
  "jq_schedule [] s = Some s"
| "jq_schedule (i # is) (ts, q) =
     (if i < length ts
      then (case jq_micro (ts ! i) q of
              None \<Rightarrow> None
            | Some (t, q) \<Rightarrow> jq_schedule is (ts[i := t], q))
      else None)"

text \<open>The operations run without interleaving: the result, or \<open>None\<close> when the thread would wait.\<close>

definition addJobToQueue :: "'j \<Rightarrow> 'j JobQueue \<Rightarrow> bool \<times> 'j JobQueue" where
  "addJobToQueue job q =
     (if num_spaces q > 0
      then (let q = q\<lparr>num_spaces := num_spaces q - 1\<rparr>;
                index = unat (in_index q) mod jq_capacity q;
                q = q\<lparr>in_index := in_index q + 1\<rparr>;
                q = q\<lparr>the_items := (the_items q)[index := Some job]\<rparr>
            in (True, q\<lparr>num_items := num_items q + 1\<rparr>))
      else (False, q))"

definition getJobFromQueue :: "'j JobQueue \<Rightarrow> ('j option \<times> 'j JobQueue) option" where
  "getJobFromQueue q =
     (if num_items q > 0
      then (let q = q\<lparr>num_items := num_items q - 1\<rparr>
            in if is_running q
               then (let index = unat (out_index q) mod jq_capacity q;
                         q = q\<lparr>out_index := out_index q + 1\<rparr>;
                         result = the_items q ! index
                     in Some (result, q\<lparr>num_spaces := num_spaces q + 1\<rparr>))
               else Some (None, q))
      else None)"

text \<open>One turn of the worker's loop: the job it works on, if any.\<close>

definition wt_turn :: "'j JobQueue \<Rightarrow> ('j option \<times> 'j JobQueue) option" where
  "wt_turn q = (if is_running q then getJobFromQueue q else Some (None, q))"

lemma addJob_micro:
  "num_spaces q > 0 \<Longrightarrow> jq_schedule [0, 0, 0, 0] ([Add_wait job], q) = Some ([Add_done], snd (addJobToQueue job q))"
  by (simp add: addJobToQueue_def Let_def)

lemma getJob_micro:
  "num_items q > 0 \<Longrightarrow> is_running q \<Longrightarrow>
   jq_schedule [0, 0, 0, 0] ([Get_wait], q) = map_option (\<lambda>(r, q). ([Get_done r], q)) (getJobFromQueue q)"
  by (simp add: getJobFromQueue_def Let_def)

subsection \<open>Semaphores\<close>

text \<open>The places a thread has taken from a semaphore and not yet given back.\<close>

fun in_progress :: "'j JobThread \<Rightarrow> nat" where
  "in_progress (Add_index job) = 1"
| "in_progress (Add_store job i) = 1"
| "in_progress Add_post = 1"
| "in_progress Get_index = 1"
| "in_progress (Get_load i) = 1"
| "in_progress (Get_post r) = 1"
| "in_progress _ = 0"

fun thread_ok :: "nat \<Rightarrow> 'j JobThread \<Rightarrow> bool" where
  "thread_ok n (Add_store job i) = (i < n)"
| "thread_ok n (Get_load i) = (i < n)"
| "thread_ok n _ = True"

definition jq_inv :: "nat \<Rightarrow> 'j JobThread list \<times> 'j JobQueue \<Rightarrow> bool" where
  "jq_inv n s \<longleftrightarrow> (case s of (ts, q) \<Rightarrow> jq_capacity q = n \<and> is_running q \<and> list_all (thread_ok n) ts \<and>
     num_items q + num_spaces q + sum_list (map in_progress ts) = n)"

lemma jq_micro_inv:
  assumes "jq_micro t q = Some (t', q')" "0 < jq_capacity q" "is_running q"
  shows "num_items q' + num_spaces q' + in_progress t' = num_items q + num_spaces q + in_progress t"
    "jq_capacity q' = jq_capacity q" "is_running q'" "thread_ok (jq_capacity q) t'"
  using assms by (cases t; auto split: if_splits)+

lemma sum_list_map_update:
  "i < length xs \<Longrightarrow> sum_list (map f (xs[i := x])) + f (xs ! i) = sum_list (map f xs) + (f x :: nat)"
  by (induction xs arbitrary: i) (auto split: nat.split)

lemma jq_schedule_inv:
  assumes "jq_inv n s" "0 < n" "jq_schedule is s = Some s'"
  shows "jq_inv n s'"
  using assms
proof (induction "is" arbitrary: s)
  case (Cons i "is")
  obtain ts q where s: "s = (ts, q)" by fastforce
  obtain t q1 where m: "i < length ts" "jq_micro (ts ! i) q = Some (t, q1)" "jq_schedule is (ts[i := t], q1) = Some s'"
    using Cons.prems(3) s by (auto split: if_splits option.splits)
  have q: "jq_capacity q = n" "is_running q" "list_all (thread_ok n) ts"
    "num_items q + num_spaces q + sum_list (map in_progress ts) = n"
    using Cons.prems(1) s by (auto simp: jq_inv_def)
  note mi = jq_micro_inv [OF m(2)]
  have "jq_inv n (ts[i := t], q1)"
    using mi q Cons.prems(2) sum_list_map_update [OF m(1), of in_progress t] m(1)
    by (auto simp: jq_inv_def list_all_length nth_list_update)
  then show ?case using Cons.IH Cons.prems(2) m(3) by blast
qed simp

subsection \<open>Without interleaving the queue is first-in first-out\<close>

definition jq_rep :: "'j JobQueue \<Rightarrow> nat \<Rightarrow> 'j list \<Rightarrow> bool" where
  "jq_rep q k xs \<longleftrightarrow> 0 < jq_capacity q \<and> is_running q \<and> unat (out_index q) = k \<and> unat (in_index q) = k + length xs \<and>
     length xs \<le> jq_capacity q \<and> num_items q = length xs \<and> num_spaces q = jq_capacity q - length xs \<and>
     (\<forall>i < length xs. the_items q ! ((k + i) mod jq_capacity q) = Some (xs ! i))"

definition jq_deq :: "'j JobQueue \<Rightarrow> 'j option \<times> 'j JobQueue" where
  "jq_deq q = (case getJobFromQueue q of Some r \<Rightarrow> r | None \<Rightarrow> (None, q))"

lemma jq_rep_new: "0 < n \<Longrightarrow> jq_rep (JobQueue_new n) 0 []"
  by (simp add: jq_rep_def JobQueue_new_def)

lemma unat_inc: "unat (x :: u32) + 1 < 2 ^ 32 \<Longrightarrow> unat (x + 1) = unat x + 1"
  by (simp add: unat_word_ariths)

lemma jq_rep_add:
  assumes "jq_rep q k xs" "k + length xs + 1 < 2 ^ 32"
  shows "fst (addJobToQueue job q) \<longleftrightarrow> length xs < jq_capacity q"
    and "jq_rep (snd (addJobToQueue job q)) k (if fst (addJobToQueue job q) then xs @ [job] else xs)"
proof -
  let ?n = "jq_capacity q"
  have r: "0 < ?n" "is_running q" "unat (out_index q) = k" "unat (in_index q) = k + length xs" "length xs \<le> ?n"
    "num_items q = length xs" "num_spaces q = ?n - length xs"
    "\<And>i. i < length xs \<Longrightarrow> the_items q ! ((k + i) mod ?n) = Some (xs ! i)"
    using assms(1) by (auto simp: jq_rep_def)
  show f: "fst (addJobToQueue job q) \<longleftrightarrow> length xs < ?n" using r(7) by (simp add: addJobToQueue_def Let_def)
  have ne: "(k + i) mod ?n \<noteq> (k + length xs) mod ?n" if "i < length xs" "length xs < ?n" for i
    using mod_add_inj [of k i ?n "length xs"] that by auto
  note ne' = ne [THEN not_sym]
  show "jq_rep (snd (addJobToQueue job q)) k (if fst (addJobToQueue job q) then xs @ [job] else xs)"
  proof (cases "length xs < ?n")
    case True
    have "unat (in_index q + 1) = k + length xs + 1" using unat_inc [of "in_index q"] r(4) assms(2) by simp
    then show ?thesis
      using True r ne ne' unfolding f by (auto simp: jq_rep_def addJobToQueue_def Let_def nth_append nth_list_update less_Suc_eq)
  next
    case False
    then show ?thesis using assms(1) f r(7) by (simp add: addJobToQueue_def)
  qed
qed

lemma jq_rep_get:
  assumes "jq_rep q k xs" "k + length xs < 2 ^ 32"
  shows "fst (jq_deq q) = (case xs of [] \<Rightarrow> None | x # _ \<Rightarrow> Some x)"
    and "\<exists>k'. jq_rep (snd (jq_deq q)) k' (tl xs) \<and> k' + length (tl xs) \<le> k + length xs"
proof -
  let ?n = "jq_capacity q"
  have r: "0 < ?n" "is_running q" "unat (out_index q) = k" "unat (in_index q) = k + length xs" "length xs \<le> ?n"
    "num_items q = length xs" "num_spaces q = ?n - length xs"
    "\<And>i. i < length xs \<Longrightarrow> the_items q ! ((k + i) mod ?n) = Some (xs ! i)"
    using assms(1) by (auto simp: jq_rep_def)
  show "fst (jq_deq q) = (case xs of [] \<Rightarrow> None | x # _ \<Rightarrow> Some x)"
    using r(2,3,6) r(8) [of 0] by (cases xs) (auto simp: jq_deq_def getJobFromQueue_def Let_def)
  show "\<exists>k'. jq_rep (snd (jq_deq q)) k' (tl xs) \<and> k' + length (tl xs) \<le> k + length xs"
  proof (cases xs)
    case Nil
    then show ?thesis using assms(1) r(6) by (auto simp: jq_deq_def getJobFromQueue_def)
  next
    case (Cons x ys)
    have "unat (out_index q + 1) = k + 1" using unat_inc [of "out_index q"] r(3) assms(2) Cons by simp
    moreover have "the_items q ! ((k + 1 + i) mod ?n) = Some (ys ! i)" if "i < length ys" for i
      using r(8) [of "Suc i"] that Cons by simp
    ultimately have "jq_rep (snd (jq_deq q)) (k + 1) ys"
      using r Cons by (auto simp: jq_rep_def jq_deq_def getJobFromQueue_def Let_def)
    then show ?thesis using Cons by auto
  qed
qed

lemma jq_run_fifo:
  assumes "jq_rep q k xs" "k + length xs + length ops < 2 ^ 32" "queue_run addJobToQueue jq_deq ops q = (acc, out, q')"
  shows "\<exists>k' xs'. jq_rep q' k' xs' \<and> xs @ acc = out @ xs' \<and> jq_capacity q' = jq_capacity q"
  using assms
proof (induction ops arbitrary: q k xs acc out)
  case Nil
  then show ?case by auto
next
  case (Cons p ops)
  show ?case
  proof (cases p)
    case (Enq x)
    let ?q = "snd (addJobToQueue x q)" let ?ys = "if fst (addJobToQueue x q) then xs @ [x] else xs"
    obtain acc1 where r: "queue_run addJobToQueue jq_deq ops ?q = (acc1, out, q')"
      "acc = (if fst (addJobToQueue x q) then x # acc1 else acc1)"
      using Cons.prems(3) Enq by (auto simp: Let_def case_prod_beta prod_eq_iff)
    have "jq_rep ?q k ?ys" using jq_rep_add(2) [OF Cons.prems(1)] Cons.prems(2) by simp
    moreover have "jq_capacity ?q = jq_capacity q" by (simp add: addJobToQueue_def Let_def)
    ultimately show ?thesis
      using Cons.IH [OF _ _ r(1), of k ?ys] Cons.prems(2) r(2) by (auto split: if_splits)
  next
    case Deq
    let ?q = "snd (jq_deq q)"
    obtain out1 where r: "queue_run addJobToQueue jq_deq ops ?q = (acc, out1, q')"
      "out = (case fst (jq_deq q) of Some x \<Rightarrow> x # out1 | None \<Rightarrow> out1)"
      using Cons.prems(3) Deq by (auto simp: Let_def case_prod_beta prod_eq_iff)
    obtain k' where k': "jq_rep ?q k' (tl xs)" "k' + length (tl xs) \<le> k + length xs"
      using jq_rep_get(2) [OF Cons.prems(1)] Cons.prems(2) by auto
    have "jq_capacity ?q = jq_capacity q" by (simp add: jq_deq_def getJobFromQueue_def Let_def)
    moreover obtain k'' xs' where "jq_rep q' k'' xs'" "tl xs @ acc = out1 @ xs'" "jq_capacity q' = jq_capacity ?q"
      using Cons.IH [OF k'(1) _ r(1)] k'(2) Cons.prems(2) by auto
    ultimately show ?thesis
      using r(2) jq_rep_get(1) [OF Cons.prems(1)] Cons.prems(2) by (cases xs) auto
  qed
qed

subsection \<open>Properties\<close>

text \<open>
  (C22) As long as the operations of different threads do not overlap, and for fewer than \<open>2\<close> to the \<open>32\<close>
  operations in all, before the counters wrap around, the job queue hands out every accepted job
  exactly once and in order: what was accepted is what was handed out followed by what is still
  waiting, and never more jobs wait than there are places. Under every interleaving the semaphores
  keep count: waiting jobs, free places and operations under way always add up to the capacity.
\<close>

theorem job_queue_fifo:
  assumes "0 < n"
  shows "(\<forall>ops acc out q. length ops < 2 ^ 32 \<and> queue_run addJobToQueue jq_deq ops (JobQueue_new n) = (acc, out, q) \<longrightarrow>
      (\<exists>waiting. acc = out @ waiting \<and> length waiting = num_items q \<and> num_items q \<le> n \<and> num_spaces q = n - num_items q)) \<and>
    (\<forall>sched ts ts' q. list_all (\<lambda>t. in_progress t = 0) ts \<and> jq_schedule sched (ts, JobQueue_new n) = Some (ts', q) \<longrightarrow>
      num_items q + num_spaces q + sum_list (map in_progress ts') = n)"
proof (intro conjI allI impI)
  fix ops :: "'a queue_op list" and acc out q
  assume "length ops < 2 ^ 32 \<and> queue_run addJobToQueue jq_deq ops (JobQueue_new n) = (acc, out, q)"
  then obtain k' xs' where "jq_rep q k' xs'" "acc = out @ xs'" "jq_capacity q = n"
    using jq_run_fifo [OF jq_rep_new [OF assms], of ops acc out q] by (auto simp: JobQueue_new_def)
  then show "\<exists>waiting. acc = out @ waiting \<and> length waiting = num_items q \<and> num_items q \<le> n \<and> num_spaces q = n - num_items q"
    by (auto simp: jq_rep_def)
next
  fix sched and ts ts' :: "'b JobThread list" and q
  assume a: "list_all (\<lambda>t. in_progress t = 0) ts \<and> jq_schedule sched (ts, JobQueue_new n) = Some (ts', q)"
  have "thread_ok n t" if "in_progress t = 0" for t :: "'b JobThread" using that by (cases t) auto
  then have "jq_inv n (ts, JobQueue_new n)"
    using a by (auto simp: jq_inv_def JobQueue_new_def list_all_iff sum_list_eq_0_iff)
  then have "jq_inv n (ts', q)" using jq_schedule_inv assms a by blast
  then show "num_items q + num_spaces q + sum_list (map in_progress ts') = n" by (simp add: jq_inv_def)
qed

theorem job_queue_fifo_witness:
  "\<exists>q waiting. queue_run addJobToQueue jq_deq [Enq (10 :: nat), Enq 20, Enq 30, Deq, Enq 40] (JobQueue_new 2) = ([10, 20, 40], [10], q) \<and>
     [10, 20, 40 :: nat] = [10] @ waiting \<and> length waiting = num_items q \<and> num_items q = 2 \<and> num_spaces q = 0 \<and>
     (\<exists>ts' q'. jq_schedule [0, 1, 1, 0, 1, 1, 2] ([Add_wait (1 :: nat), Add_wait 2, Get_wait], JobQueue_new 2) = Some (ts', q') \<and>
        map in_progress ts' = [1, 0, 1] \<and> num_items q' + num_spaces q' + sum_list (map in_progress ts') = 2)"
proof -
  let ?ops = "[Enq (10 :: nat), Enq 20, Enq 30, Deq, Enq 40]"
  let ?run = "queue_run addJobToQueue jq_deq ?ops (JobQueue_new 2)"
  have "fst ?run = [10, 20, 40] \<and> fst (snd ?run) = [10] \<and> num_items (snd (snd ?run)) = 2" by code_simp
  then obtain q where q: "?run = ([10, 20, 40], [10], q)" "num_items q = 2" by (metis prod.collapse)
  let ?ts = "[Add_wait (1 :: nat), Add_wait 2, Get_wait]"
  let ?sched = "jq_schedule [0, 1, 1, 0, 1, 1, 2] (?ts, JobQueue_new 2)"
  have "?sched \<noteq> None \<and> map in_progress (fst (the ?sched)) = [1, 0, 1]" by code_simp
  then obtain ts' q' where s: "?sched = Some (ts', q')" "map in_progress ts' = [1, 0, 1]" by auto
  have ts: "list_all (\<lambda>t. in_progress t = 0) ?ts" by simp
  note t = job_queue_fifo [of 2, OF zero_less_numeral]
  have k: "num_items q' + num_spaces q' + sum_list (map in_progress ts') = 2" by (rule t [THEN conjunct2, rule_format]) (rule conjI [OF ts s(1)])
  obtain waiting where w: "[10, 20, 40 :: nat] = [10] @ waiting" "length waiting = num_items q" "num_spaces q = 0"
    using t [THEN conjunct1, rule_format, of ?ops "[10, 20, 40]" "[10]" q] q by auto
  show ?thesis
    by (intro exI [of _ q] exI [of _ waiting] exI [of _ ts'] exI [of _ q'] conjI) (fact q s k w)+
qed

text \<open>
  With interleaving a job can be lost. Two threads add the jobs \<open>a\<close> and \<open>b\<close>; the first has
  fetched its index when the second completes its operation. The consumer that this wakes up is sent to the
  place of the first, which is still empty, and returns without a job. Afterwards both operations
  have reported success and the second consumer has received \<open>b\<close>, no job is waiting, and \<open>a\<close> is never handed
  out: the next job goes to its place and overwrites it. The node of \<open>a\<close> stays in flight forever.
\<close>

theorem job_queue_loses_job:
  "\<exists>q. jq_schedule [0, 0, 1, 1, 1, 1, 2, 2, 2, 2, 0, 0, 3, 3, 3, 3]
       ([Add_wait a, Add_wait b, Get_wait, Get_wait], JobQueue_new 2) =
     Some ([Add_done, Add_done, Get_done None, Get_done (Some b)], q) \<and>
     num_items q = 0 \<and> num_spaces q = 2 \<and> fst (jq_deq (snd (addJobToQueue c q))) = Some c \<and>
     the_items (snd (addJobToQueue c q)) = [Some c, Some b]"
proof -
  have "(JobQueue_new 2 :: 'a JobQueue) = \<lparr>num_items = 0, num_spaces = 2, in_index = 0, out_index = 0, the_items = [None, None], is_running = True\<rparr>"
    by (simp add: JobQueue_new_def numeral_2_eq_2)
  moreover have "(2 :: nat) mod Suc (Suc 0) = 0" by (simp add: numeral_2_eq_2)
  ultimately show ?thesis by (simp add: addJobToQueue_def jq_deq_def getJobFromQueue_def Let_def)
qed

end
