(* ===== verification/Configuration_Manager.thy ===== *)
theory Configuration_Manager
  imports Process_State_Reader
begin

unbundle bit_operations_syntax

section \<open>The configuration of the launch manager\<close>

text \<open>
  Models \<^verbatim>\<open>configuration_manager/configurationmanager.{hpp,cpp}\<close>: building the process groups, their
  states and their processes out of the flatbuffer tree, resolving the dependencies between the
  processes, and the queries the process group manager makes.

  The accessors of the generated flatbuffer classes are the fields of the input records; an accessor
  that may return a null pointer is an \<open>option\<close>, and the elements of a vector are never null. Reading
  the file, and reading and setting the environment variable, are inputs. \<open>hash\<close> is \<^verbatim>\<open>std::hash\<close>
  (see \<open>Identifier_Hash\<close>); the registry of names, which serves the log output only, is left out. A
  number that \<^verbatim>\<open>std::stoi\<close> or \<^verbatim>\<open>std::stoul\<close> cannot read raises an exception that nobody catches:
  \<open>None\<close>. The number of processor cores is an input.
\<close>

subsection \<open>The flatbuffer tree\<close>

record ModeGroup =
  mg_identifier :: "string option"
  mg_recoveryMode_name :: "string option"
  mg_modeDeclaration :: "string option list option"

record ProcessExecutionDependency =
  ped_stateName :: "string option"
  ped_targetProcess_identifier :: "string option"

record ProcessGroupStateDependency =
  pgd_stateMachine_name :: "string option"
  pgd_stateName :: "string option"

record EnvironmentVariable =
  ev_key :: "string option"
  ev_value :: "string option"

datatype TerminationBehaviorEnum = ProcessIsNotSelfTerminating | ProcessIsSelfTerminating

datatype ExecutionStateReportingBehaviorEnum = ReportsExecutionState | DoesNotReportExecutionState

record ProcessStartupConfig =
  sc_enterTimeoutValue :: u32
  sc_exitTimeoutValue :: u32
  sc_schedulingPriority :: "string option"
  sc_schedulingPolicy :: "string option"
  sc_executionError :: "string option"
  sc_terminationBehavior :: TerminationBehaviorEnum
  sc_executionDependency :: "ProcessExecutionDependency list option"
  sc_processGroupStateDependency :: "ProcessGroupStateDependency list option"
  sc_environmentVariable :: "EnvironmentVariable list option"
  sc_processArgument :: "string option list option"
  sc_memoryUsage :: u64

record ProcessNode =
  pn_identifier :: "string option"
  pn_numberOfRestartAttempts :: u32
  pn_functionClusterAffiliation :: "string option"
  pn_coremask :: "string option"
  pn_uid :: u32
  pn_gid :: u32
  pn_path :: "string option"
  pn_securityPolicyDetails :: "string option"
  pn_reportingBehavior :: ExecutionStateReportingBehaviorEnum
  pn_startupConfig :: "ProcessStartupConfig list option"
  pn_sgids :: "u32 list option"

record LMEcuCfg =
  root_ModeGroup :: "ModeGroup list option"
  root_Process :: "ProcessNode list option"

subsection \<open>The configuration\<close>

datatype CommsType = kNoComms | kReporting | kControlClient | kLaunchManager

datatype SchedulingPolicy = SCHED_OTHER | SCHED_FIFO | SCHED_RR

record OsalLimits =
  lim_data :: u64
  lim_as :: u64
  lim_stack :: u64
  lim_cpu :: u64

record OsalConfig =
  executable_path :: string
  short_name :: string
  oc_argv :: "string option list"
  oc_envp :: "string option list"
  security_policy :: string
  oc_uid :: u32
  oc_gid :: u32
  supplementary_gids :: "u32 list"
  comms_type :: CommsType
  cpu_mask :: u32
  scheduling_policy :: SchedulingPolicy
  scheduling_priority :: int
  resource_limits :: OsalLimits

record PgManagerConfig =
  is_self_terminating :: bool
  startup_timeout_ms :: u32
  termination_timeout_ms :: u32
  number_of_restart_attempts :: u32
  execution_error_code :: u32

record Dependency =
  dep_process_state :: LcmProcessState
  target_process_id :: IdentifierHash
  os_process_index :: u32

record OsProcess =
  process_id :: IdentifierHash
  process_number :: u32
  startup_config :: OsalConfig
  pgm_config :: PgManagerConfig
  dependencies_of :: "Dependency list"

record ProcessGroupState =
  pgs_name :: IdentifierHash
  process_indexes :: "u32 list"

record ProcessGroup =
  pg_name :: IdentifierHash
  sw_cluster :: IdentifierHash
  off_state :: IdentifierHash
  recovery_state :: IdentifierHash
  pg_states :: "ProcessGroupState list"
  pg_processes :: "OsProcess list"

record ProcessGroupStateID =
  id_pg_name :: IdentifierHash
  id_pg_state_name :: IdentifierHash

record ConfigurationManager =
  cm_sw_clusters :: "string list"
  cm_process_groups :: "ProcessGroup list"
  cm_process_group_names :: "IdentifierHash list"
  cm_main_pg_startup_state :: ProcessGroupStateID
  cm_process_index :: u32

definition kMaxArg :: nat where "kMaxArg = 20"
definition kMaxEnv :: nat where "kMaxEnv = 100"
definition kArgvArraySize :: nat where "kArgvArraySize = kMaxArg + 2"
definition kEnvArraySize :: nat where "kEnvArraySize = kMaxEnv + 1"

definition kDefaultExecutionError :: u32 where "kDefaultExecutionError = 1"
definition kDefaultRealtimeSchedulingPriority :: int where "kDefaultRealtimeSchedulingPriority = 99"
definition kDefaultNormalSchedulingPriority :: int where "kDefaultNormalSchedulingPriority = 0"

text \<open>An identifier, without the registry that is used for printing.\<close>

definition make_id :: "(string \<Rightarrow> u64) \<Rightarrow> string \<Rightarrow> IdentifierHash" where
  "make_id hash name = fst (IdentifierHash_string hash name Map.empty)"

definition ConfigurationManager_new :: "(string \<Rightarrow> u64) \<Rightarrow> ConfigurationManager" where
  "ConfigurationManager_new hash =
     \<lparr>cm_sw_clusters = [], cm_process_groups = [], cm_process_group_names = [],
      cm_main_pg_startup_state = \<lparr>id_pg_name = make_id hash ''MainPG'', id_pg_state_name = make_id hash ''MainPG/Startup''\<rparr>,
      cm_process_index = 0\<rparr>"

subsection \<open>Library functions\<close>

definition char_code :: "char \<Rightarrow> nat" where
  "char_code c = of_char c"

definition is_space :: "char \<Rightarrow> bool" where
  "is_space c \<longleftrightarrow> char_code c = 32 \<or> (9 \<le> char_code c \<and> char_code c \<le> 13)"

definition is_digit :: "char \<Rightarrow> bool" where
  "is_digit c \<longleftrightarrow> 48 \<le> char_code c \<and> char_code c \<le> 57"

fun digits_value :: "nat \<Rightarrow> string \<Rightarrow> nat" where
  "digits_value acc [] = acc"
| "digits_value acc (c # cs) = (if is_digit c then digits_value (10 * acc + (char_code c - 48)) cs else acc)"

text \<open>The number at the front of a string as \<^verbatim>\<open>strtol\<close> reads it in base ten.\<close>

definition strto :: "string \<Rightarrow> (bool \<times> nat) option" where
  "strto s =
     (let s = dropWhile is_space s;
          (negative, s) = (case s of c # cs \<Rightarrow> (if c = CHR ''-'' then (True, cs) else if c = CHR ''+'' then (False, cs) else (False, s))
                                   | [] \<Rightarrow> (False, s))
      in case s of [] \<Rightarrow> None | c # cs \<Rightarrow> if is_digit c then Some (negative, digits_value 0 s) else None)"

definition stoi :: "string \<Rightarrow> int option" where
  "stoi s =
     (case strto s of
        None \<Rightarrow> None
      | Some (negative, n) \<Rightarrow>
          (let v = (if negative then - int n else int n) in if - (2 ^ 31) \<le> v \<and> v < 2 ^ 31 then Some v else None))"

definition stoul :: "string \<Rightarrow> u64 option" where
  "stoul s =
     (case strto s of
        None \<Rightarrow> None
      | Some (negative, n) \<Rightarrow>
          if n < 2 ^ 64 then Some (if negative then - word_of_nat n else word_of_nat n) else None)"

definition to_lower :: "char \<Rightarrow> nat" where
  "to_lower c = (if 65 \<le> char_code c \<and> char_code c \<le> 90 then char_code c + 32 else char_code c)"

definition strcasecmp_eq :: "string \<Rightarrow> string \<Rightarrow> bool" where
  "strcasecmp_eq a b \<longleftrightarrow> map to_lower a = map to_lower b"

text \<open>\<^verbatim>\<open>std::find_if\<close>: the position of the first match.\<close>

fun find_index :: "('a \<Rightarrow> bool) \<Rightarrow> 'a list \<Rightarrow> nat option" where
  "find_index P [] = None"
| "find_index P (x # xs) = (if P x then Some 0 else map_option Suc (find_index P xs))"

definition getStringFromFlatBuffer :: "string option \<Rightarrow> string" where
  "getStringFromFlatBuffer flat_string = (case flat_string of Some s \<Rightarrow> s | None \<Rightarrow> '''')"

definition getStringViewFromFlatBuffer :: "(string \<Rightarrow> u64) \<Rightarrow> string option \<Rightarrow> IdentifierHash" where
  "getStringViewFromFlatBuffer hash flat_string =
     (case flat_string of
        Some s \<Rightarrow> fst (IdentifierHash_cstr hash (Some s) Map.empty)
      | None \<Rightarrow> fst (IdentifierHash_default hash Map.empty))"

subsection \<open>Queries\<close>

definition getProcessGroupByID :: "IdentifierHash \<Rightarrow> ConfigurationManager \<Rightarrow> nat option" where
  "getProcessGroupByID name cm = find_index (\<lambda>pg. ih_eq (pg_name pg) name) (cm_process_groups cm)"

definition getProcessGroupStateInGroup :: "ProcessGroup \<Rightarrow> IdentifierHash \<Rightarrow> nat option" where
  "getProcessGroupStateInGroup pg state_name = find_index (\<lambda>st. ih_eq (pgs_name st) state_name) (pg_states pg)"

definition getProcessGroupStateByID :: "ProcessGroupStateID \<Rightarrow> ConfigurationManager \<Rightarrow> ProcessGroupState option" where
  "getProcessGroupStateByID pg_id cm =
     (case getProcessGroupByID (id_pg_name pg_id) cm of
        None \<Rightarrow> None
      | Some g \<Rightarrow>
          (let pg = cm_process_groups cm ! g
           in map_option (\<lambda>k. pg_states pg ! k) (find_index (\<lambda>st. ih_eq (pgs_name st) (id_pg_state_name pg_id)) (pg_states pg))))"

definition getProcessGroupByNameAndIndex :: "IdentifierHash \<Rightarrow> u32 \<Rightarrow> ConfigurationManager \<Rightarrow> ProcessGroup option" where
  "getProcessGroupByNameAndIndex name index cm =
     (case getProcessGroupByID name cm of
        None \<Rightarrow> None
      | Some g \<Rightarrow> (let pg = cm_process_groups cm ! g in if unat index < length (pg_processes pg) then Some pg else None))"

definition getNumberOfOsProcesses :: "IdentifierHash \<Rightarrow> ConfigurationManager \<Rightarrow> u32 option" where
  "getNumberOfOsProcesses name cm =
     map_option (\<lambda>g. word_of_nat (length (pg_processes (cm_process_groups cm ! g)))) (getProcessGroupByID name cm)"

definition getNameOfOffState :: "(string \<Rightarrow> u64) \<Rightarrow> IdentifierHash \<Rightarrow> ConfigurationManager \<Rightarrow> IdentifierHash" where
  "getNameOfOffState hash name cm =
     (case getProcessGroupByID name cm of None \<Rightarrow> make_id hash ''Off'' | Some g \<Rightarrow> off_state (cm_process_groups cm ! g))"

definition getNameOfRecoveryState :: "(string \<Rightarrow> u64) \<Rightarrow> IdentifierHash \<Rightarrow> ConfigurationManager \<Rightarrow> IdentifierHash" where
  "getNameOfRecoveryState hash name cm =
     (case getProcessGroupByID name cm of None \<Rightarrow> make_id hash ''Recovery'' | Some g \<Rightarrow> recovery_state (cm_process_groups cm ! g))"

definition getMainPGStartupState :: "ConfigurationManager \<Rightarrow> ProcessGroupStateID option" where
  "getMainPGStartupState cm =
     (case getProcessGroupByID (id_pg_name (cm_main_pg_startup_state cm)) cm of
        None \<Rightarrow> None
      | Some g \<Rightarrow>
          (case getProcessGroupStateInGroup (cm_process_groups cm ! g) (id_pg_state_name (cm_main_pg_startup_state cm)) of
             None \<Rightarrow> None
           | Some _ \<Rightarrow> Some (cm_main_pg_startup_state cm)))"

definition getListOfProcessGroups :: "ConfigurationManager \<Rightarrow> IdentifierHash list option" where
  "getListOfProcessGroups cm = (if cm_process_group_names cm \<noteq> [] then Some (cm_process_group_names cm) else None)"

definition getProcessIndexesList :: "ProcessGroupStateID \<Rightarrow> ConfigurationManager \<Rightarrow> u32 list option" where
  "getProcessIndexesList pg_state_id cm = map_option process_indexes (getProcessGroupStateByID pg_state_id cm)"

definition getOsProcessConfiguration :: "IdentifierHash \<Rightarrow> u32 \<Rightarrow> ConfigurationManager \<Rightarrow> OsProcess option" where
  "getOsProcessConfiguration name index cm =
     map_option (\<lambda>pg. pg_processes pg ! unat index) (getProcessGroupByNameAndIndex name index cm)"

definition getOsProcessDependencies :: "IdentifierHash \<Rightarrow> u32 \<Rightarrow> ConfigurationManager \<Rightarrow> Dependency list option" where
  "getOsProcessDependencies name index cm =
     map_option (\<lambda>pg. dependencies_of (pg_processes pg ! unat index)) (getProcessGroupByNameAndIndex name index cm)"

subsection \<open>Machine configuration\<close>

definition ends_with_Off :: "string \<Rightarrow> bool" where
  "ends_with_Off s \<longleftrightarrow> length s > 3 \<and> drop (length s - 4) s = ''/Off''"

fun parseModeGroups_loop :: "(string \<Rightarrow> u64) \<Rightarrow> string option list \<Rightarrow> ProcessGroup \<Rightarrow> ProcessGroup" where
  "parseModeGroups_loop hash [] pg = pg"
| "parseModeGroups_loop hash (None # ds) pg = parseModeGroups_loop hash ds pg"
| "parseModeGroups_loop hash (Some s # ds) pg =
     (let st = \<lparr>pgs_name = getStringViewFromFlatBuffer hash (Some s), process_indexes = []\<rparr>;
          pg = pg\<lparr>pg_states := pg_states pg @ [st]\<rparr>;
          pg = (if ends_with_Off s then pg\<lparr>off_state := pgs_name st\<rparr> else pg)
      in parseModeGroups_loop hash ds pg)"

definition parseModeGroups :: "(string \<Rightarrow> u64) \<Rightarrow> ModeGroup \<Rightarrow> ProcessGroup \<Rightarrow> ConfigurationManager \<Rightarrow> bool \<times> ConfigurationManager" where
  "parseModeGroups hash node pg cm =
     (case mg_modeDeclaration node of
        Some (d # ds) \<Rightarrow>
          (let pg = pg\<lparr>off_state := make_id hash ''Off''\<rparr>;
               pg = pg\<lparr>recovery_state := (case mg_recoveryMode_name node of
                       Some s \<Rightarrow> getStringViewFromFlatBuffer hash (Some s) | None \<Rightarrow> make_id hash ''Recovery'')\<rparr>;
               pg = parseModeGroups_loop hash (d # ds) pg
           in (True, cm\<lparr>cm_process_groups := cm_process_groups cm @ [pg]\<rparr>))
      | _ \<Rightarrow> (False, cm))"

definition parseMachineConfigurations ::
  "(string \<Rightarrow> u64) \<Rightarrow> IdentifierHash \<Rightarrow> ModeGroup \<Rightarrow> ConfigurationManager \<Rightarrow> bool \<times> ConfigurationManager"
where
  "parseMachineConfigurations hash cluster node cm =
     (let default_id = make_id hash '''';
          pg = \<lparr>pg_name = getStringViewFromFlatBuffer hash (mg_identifier node), sw_cluster = cluster,
                off_state = default_id, recovery_state = default_id, pg_states = [], pg_processes = []\<rparr>
      in if \<not> ih_eq (pg_name pg) (make_id hash '''')
         then parseModeGroups hash node pg (cm\<lparr>cm_process_group_names := cm_process_group_names cm @ [pg_name pg]\<rparr>)
         else (False, cm))"

fun loadMachineConfigs_loop ::
  "(string \<Rightarrow> u64) \<Rightarrow> IdentifierHash \<Rightarrow> ModeGroup list \<Rightarrow> ConfigurationManager \<Rightarrow> bool \<times> ConfigurationManager"
where
  "loadMachineConfigs_loop hash cluster [] cm = (True, cm)"
| "loadMachineConfigs_loop hash cluster (m # ms) cm =
     (let (ok, cm) = parseMachineConfigurations hash cluster m cm
      in if ok then loadMachineConfigs_loop hash cluster ms cm else (False, cm))"

definition loadMachineConfigs ::
  "(string \<Rightarrow> u64) \<Rightarrow> LMEcuCfg \<Rightarrow> IdentifierHash \<Rightarrow> ConfigurationManager \<Rightarrow> bool \<times> ConfigurationManager"
where
  "loadMachineConfigs hash root_node cluster cm =
     (case root_ModeGroup root_node of
        Some mode_group \<Rightarrow> loadMachineConfigs_loop hash cluster mode_group cm
      | None \<Rightarrow> (False, cm))"

subsection \<open>Process configuration\<close>

definition isReportingProcess :: "ExecutionStateReportingBehaviorEnum \<Rightarrow> CommsType" where
  "isReportingProcess b = (if b = ReportsExecutionState then kReporting else kNoComms)"

definition getfunctionClusterAffiliation :: "CommsType \<Rightarrow> string \<Rightarrow> CommsType" where
  "getfunctionClusterAffiliation current_comms attribute =
     (if attribute = ''STATE_MANAGEMENT'' then kControlClient
      else if attribute = ''PLATFORM_HEALTH_MANAGEMENT'' then current_comms
      else if attribute = ''LAUNCH_MANAGEMENT'' then kLaunchManager
      else current_comms)"

definition getCommsType :: "ProcessNode \<Rightarrow> CommsType" where
  "getCommsType node =
     getfunctionClusterAffiliation (isReportingProcess (pn_reportingBehavior node))
       (getStringFromFlatBuffer (pn_functionClusterAffiliation node))"

definition isSelfTerminatingProcess :: "TerminationBehaviorEnum \<Rightarrow> bool" where
  "isSelfTerminatingProcess b \<longleftrightarrow> b = ProcessIsSelfTerminating"

text \<open>Shifting \<^verbatim>\<open>1U\<close> by its width or more has no defined result.\<close>

definition kDefaultProcessorAffinityMask :: "nat \<Rightarrow> u32 option" where
  "kDefaultProcessorAffinityMask num_cores = (if num_cores < 32 then Some (push_bit num_cores 1 - 1) else None)"

definition setSchedulingParameters :: "nat \<Rightarrow> ProcessNode \<Rightarrow> ProcessStartupConfig \<Rightarrow> OsalConfig \<Rightarrow> OsalConfig option" where
  "setSchedulingParameters num_cores node config oc = do {
     default_mask \<leftarrow> kDefaultProcessorAffinityMask num_cores;
     let oc = oc\<lparr>cpu_mask := default_mask, scheduling_policy := SCHED_OTHER,
                 scheduling_priority := kDefaultNormalSchedulingPriority\<rparr>;
     let oc = (case sc_schedulingPolicy config of
                 None \<Rightarrow> oc
               | Some attribute \<Rightarrow>
                   if strcasecmp_eq ''SCHED_FIFO'' attribute
                   then oc\<lparr>scheduling_policy := SCHED_FIFO, scheduling_priority := kDefaultRealtimeSchedulingPriority\<rparr>
                   else if strcasecmp_eq ''SCHED_RR'' attribute
                   then oc\<lparr>scheduling_policy := SCHED_RR, scheduling_priority := kDefaultRealtimeSchedulingPriority\<rparr>
                   else if strcasecmp_eq ''SCHED_OTHER'' attribute then oc\<lparr>scheduling_policy := SCHED_OTHER\<rparr>
                   else oc);
     oc \<leftarrow> (case sc_schedulingPriority config of
               None \<Rightarrow> Some oc
             | Some attribute \<Rightarrow> map_option (\<lambda>p. oc\<lparr>scheduling_priority := p\<rparr>) (stoi attribute));
     (case pn_coremask node of
        None \<Rightarrow> Some oc
      | Some attribute \<Rightarrow> map_option (\<lambda>m. oc\<lparr>cpu_mask := ucast m\<rparr>) (stoul attribute))
   }"

definition setResourceLimits :: "ProcessStartupConfig \<Rightarrow> OsalConfig \<Rightarrow> OsalConfig" where
  "setResourceLimits startup_config_node oc =
     (let lim = (resource_limits oc)\<lparr>lim_stack := 0, lim_cpu := 0, lim_data := 0\<rparr>;
          lim = (if sc_memoryUsage startup_config_node > 0 then lim\<lparr>lim_as := sc_memoryUsage startup_config_node\<rparr> else lim)
      in oc\<lparr>resource_limits := lim\<rparr>)"

text \<open>Storing at the next place of \<^verbatim>\<open>argv_\<close> and \<^verbatim>\<open>envp_\<close>; a store past the end has no defined result.\<close>

fun store_from :: "nat \<Rightarrow> string list \<Rightarrow> string option list \<Rightarrow> string option list option" where
  "store_from i [] arr = Some arr"
| "store_from i (s # ss) arr = (if i < length arr then store_from (i + 1) ss (arr[i := Some s]) else None)"

definition parseProcessArguments :: "string option list option \<Rightarrow> OsalConfig \<Rightarrow> OsalConfig option" where
  "parseProcessArguments process_arg_list oc =
     (let args = (case process_arg_list of
                    None \<Rightarrow> []
                  | Some as \<Rightarrow> map getStringFromFlatBuffer (take (min (length as) kMaxArg) as))
      in map_option (\<lambda>argv. oc\<lparr>oc_argv := argv\<rparr>) (store_from 0 (executable_path oc # args) (oc_argv oc)))"

definition parseProcessEnvironmentVars :: "EnvironmentVariable list option \<Rightarrow> OsalConfig \<Rightarrow> OsalConfig option" where
  "parseProcessEnvironmentVars env_var_list oc =
     (let vars = (case env_var_list of
                    None \<Rightarrow> []
                  | Some es \<Rightarrow> map (\<lambda>e. getStringFromFlatBuffer (ev_key e) @ ''='' @ getStringFromFlatBuffer (ev_value e))
                                 (take (min (length es) kMaxEnv) es))
      in do {
        envp \<leftarrow> store_from 0 vars (oc_envp oc);
        (if length vars < length envp then Some (oc\<lparr>oc_envp := envp[length vars := None]\<rparr>) else None)
      })"

definition getProcessState :: "(string \<Rightarrow> u64) \<Rightarrow> IdentifierHash \<Rightarrow> LcmProcessState" where
  "getProcessState hash state_name =
     (if ih_eq state_name (make_id hash ''Running'') then LPS_Running
      else if ih_eq state_name (make_id hash ''Terminated'') then LPS_Terminated
      else LPS_Idle)"

text \<open>\<^verbatim>\<open>Dependency dep{}\<close>: the index starts at zero until the dependencies are resolved.\<close>

definition parseExecutionDependency ::
  "(string \<Rightarrow> u64) \<Rightarrow> ProcessExecutionDependency list option \<Rightarrow> OsProcess \<Rightarrow> OsProcess"
where
  "parseExecutionDependency hash process_dependency_list instance' =
     (case process_dependency_list of
        None \<Rightarrow> instance'
      | Some ds \<Rightarrow>
          instance'\<lparr>dependencies_of := dependencies_of instance' @
            map (\<lambda>d. \<lparr>dep_process_state = getProcessState hash (getStringViewFromFlatBuffer hash (ped_stateName d)),
                      target_process_id = getStringViewFromFlatBuffer hash (ped_targetProcess_identifier d),
                      os_process_index = 0\<rparr>) ds\<rparr>)"

definition addProcessToGroup :: "OsProcess \<Rightarrow> ProcessGroup \<Rightarrow> u32 \<times> ProcessGroup" where
  "addProcessToGroup process_instance pg =
     (case find_index (\<lambda>inst. process_number process_instance = process_number inst) (pg_processes pg) of
        None \<Rightarrow> (word_of_nat (length (pg_processes pg)), pg\<lparr>pg_processes := pg_processes pg @ [process_instance]\<rparr>)
      | Some i \<Rightarrow> (word_of_nat i AND 0x7FFFFFFF, pg))"

definition addIndexToState :: "u32 \<Rightarrow> ProcessGroupState \<Rightarrow> ProcessGroupState" where
  "addIndexToState index_in_pg st =
     (if index_in_pg \<in> set (process_indexes st) then st
      else st\<lparr>process_indexes := process_indexes st @ [index_in_pg]\<rparr>)"

definition AssignOsProcessInstanceToProcessGroup ::
  "ProcessGroupStateID \<Rightarrow> OsProcess \<Rightarrow> ConfigurationManager \<Rightarrow> ConfigurationManager"
where
  "AssignOsProcessInstanceToProcessGroup process_pg process_instance cm =
     (case getProcessGroupByID (id_pg_name process_pg) cm of
        None \<Rightarrow> cm
      | Some g \<Rightarrow>
          (let pg = cm_process_groups cm ! g
           in case getProcessGroupStateInGroup pg (id_pg_state_name process_pg) of
                None \<Rightarrow> cm
              | Some k \<Rightarrow>
                  (let (index_in_pg, pg) = addProcessToGroup process_instance pg;
                       pg = pg\<lparr>pg_states := (pg_states pg)[k := addIndexToState index_in_pg (pg_states pg ! k)]\<rparr>
                   in cm\<lparr>cm_process_groups := (cm_process_groups cm)[g := pg]\<rparr>)))"

definition parseProcessGroup ::
  "(string \<Rightarrow> u64) \<Rightarrow> ProcessGroupStateDependency list option \<Rightarrow> OsProcess \<Rightarrow> ConfigurationManager \<Rightarrow> ConfigurationManager"
where
  "parseProcessGroup hash process_pg_list process_instance cm =
     (case process_pg_list of
        None \<Rightarrow> cm
      | Some ps \<Rightarrow>
          fold (\<lambda>n. AssignOsProcessInstanceToProcessGroup
                      \<lparr>id_pg_name = getStringViewFromFlatBuffer hash (pgd_stateMachine_name n),
                       id_pg_state_name = getStringViewFromFlatBuffer hash (pgd_stateName n)\<rparr> process_instance) ps cm)"

text \<open>\<^verbatim>\<open>OsProcess instance;\<close> with the members value-initialised.\<close>

definition OsalConfig_new :: OsalConfig where
  "OsalConfig_new = \<lparr>executable_path = '''', short_name = '''', oc_argv = replicate kArgvArraySize None,
     oc_envp = replicate kEnvArraySize None, security_policy = '''', oc_uid = 0, oc_gid = 0, supplementary_gids = [],
     comms_type = kNoComms, cpu_mask = 0, scheduling_policy = SCHED_OTHER, scheduling_priority = 0,
     resource_limits = \<lparr>lim_data = 0, lim_as = 0, lim_stack = 0, lim_cpu = 0\<rparr>\<rparr>"

definition parseStartupConfig ::
  "(string \<Rightarrow> u64) \<Rightarrow> nat \<Rightarrow> ProcessNode \<Rightarrow> u32 \<Rightarrow> ProcessStartupConfig \<Rightarrow> OsProcess option"
where
  "parseStartupConfig hash num_cores node number startup_config_node = do {
     oc \<leftarrow> setSchedulingParameters num_cores node startup_config_node OsalConfig_new;
     let oc = oc\<lparr>executable_path := getStringFromFlatBuffer (pn_path node),
                 short_name := (case pn_identifier node of Some s \<Rightarrow> s | None \<Rightarrow> ''Unknown''),
                 oc_uid := pn_uid node AND 0x7FFFFFFF, oc_gid := pn_gid node AND 0x7FFFFFFF,
                 security_policy := getStringFromFlatBuffer (pn_securityPolicyDetails node),
                 supplementary_gids := (case pn_sgids node of Some gs \<Rightarrow> gs | None \<Rightarrow> []),
                 comms_type := getCommsType node\<rparr>;
     let oc = setResourceLimits startup_config_node oc;
     code \<leftarrow> (case sc_executionError startup_config_node of
                Some s \<Rightarrow> map_option word_of_int (stoi s)
              | None \<Rightarrow> Some kDefaultExecutionError);
     let pgm = \<lparr>is_self_terminating = isSelfTerminatingProcess (sc_terminationBehavior startup_config_node),
                startup_timeout_ms = sc_enterTimeoutValue startup_config_node,
                termination_timeout_ms = sc_exitTimeoutValue startup_config_node,
                number_of_restart_attempts = pn_numberOfRestartAttempts node,
                execution_error_code = code\<rparr>;
     oc \<leftarrow> parseProcessArguments (sc_processArgument startup_config_node) oc;
     oc \<leftarrow> parseProcessEnvironmentVars (sc_environmentVariable startup_config_node) oc;
     Some (parseExecutionDependency hash (sc_executionDependency startup_config_node)
             \<lparr>process_id = getStringViewFromFlatBuffer hash (pn_identifier node), process_number = number,
              startup_config = oc, pgm_config = pgm, dependencies_of = []\<rparr>)
   }"

fun parseProcess_loop ::
  "(string \<Rightarrow> u64) \<Rightarrow> nat \<Rightarrow> ProcessNode \<Rightarrow> ProcessStartupConfig list \<Rightarrow> ConfigurationManager \<Rightarrow> ConfigurationManager option"
where
  "parseProcess_loop hash num_cores node [] cm = Some cm"
| "parseProcess_loop hash num_cores node (c # cs) cm = do {
     let number = cm_process_index cm;
     let cm = (if cm_process_index cm < 0xFFFFFFFF then cm\<lparr>cm_process_index := cm_process_index cm + 1\<rparr> else cm);
     instance' \<leftarrow> parseStartupConfig hash num_cores node number c;
     parseProcess_loop hash num_cores node cs (parseProcessGroup hash (sc_processGroupStateDependency c) instance' cm)
   }"

definition parseProcessConfigurations ::
  "(string \<Rightarrow> u64) \<Rightarrow> nat \<Rightarrow> ProcessNode \<Rightarrow> ConfigurationManager \<Rightarrow> (bool \<times> ConfigurationManager) option"
where
  "parseProcessConfigurations hash num_cores node cm =
     (case pn_startupConfig node of
        Some (c # cs) \<Rightarrow> map_option (Pair True) (parseProcess_loop hash num_cores node (c # cs) cm)
      | _ \<Rightarrow> Some (False, cm))"

fun loadProcessConfigs_loop ::
  "(string \<Rightarrow> u64) \<Rightarrow> nat \<Rightarrow> ProcessNode list \<Rightarrow> ConfigurationManager \<Rightarrow> (bool \<times> ConfigurationManager) option"
where
  "loadProcessConfigs_loop hash num_cores [] cm = Some (True, cm)"
| "loadProcessConfigs_loop hash num_cores (p # ps) cm = do {
     (ok, cm) \<leftarrow> parseProcessConfigurations hash num_cores p cm;
     (if ok then loadProcessConfigs_loop hash num_cores ps cm else Some (False, cm))
   }"

definition loadProcessConfigs ::
  "(string \<Rightarrow> u64) \<Rightarrow> nat \<Rightarrow> LMEcuCfg \<Rightarrow> ConfigurationManager \<Rightarrow> (bool \<times> ConfigurationManager) option"
where
  "loadProcessConfigs hash num_cores root_node cm =
     (case root_Process root_node of
        Some process \<Rightarrow> loadProcessConfigs_loop hash num_cores process cm
      | None \<Rightarrow> Some (False, cm))"

subsection \<open>Resolving dependencies and initialisation\<close>

definition resolveDependency :: "ProcessGroup \<Rightarrow> Dependency \<Rightarrow> Dependency" where
  "resolveDependency pg dependency =
     (case find_index (\<lambda>os_process. ih_eq (target_process_id dependency) (process_id os_process)) (pg_processes pg) of
        Some i \<Rightarrow> dependency\<lparr>os_process_index := word_of_nat i\<rparr>
      | None \<Rightarrow> dependency)"

definition UpdateOsProcessIndexInDependencyList :: "ProcessGroup \<Rightarrow> Dependency list \<Rightarrow> Dependency list" where
  "UpdateOsProcessIndexInDependencyList pg dep_list = map (resolveDependency pg) dep_list"

definition AssignOsProcessIndexesInDependencyList :: "ConfigurationManager \<Rightarrow> ConfigurationManager" where
  "AssignOsProcessIndexesInDependencyList cm =
     cm\<lparr>cm_process_groups := map (\<lambda>pg. pg\<lparr>pg_processes := map (\<lambda>process.
           process\<lparr>dependencies_of := UpdateOsProcessIndexInDependencyList pg (dependencies_of process)\<rparr>) (pg_processes pg)\<rparr>)
         (cm_process_groups cm)\<rparr>"

definition loadListOfSWClusters :: "ConfigurationManager \<Rightarrow> bool \<times> ConfigurationManager" where
  "loadListOfSWClusters cm = (True, cm\<lparr>cm_sw_clusters := [''DefaultSoftwareCluster'']\<rparr>)"

definition loadSWClusterConfiguration ::
  "(string \<Rightarrow> u64) \<Rightarrow> nat \<Rightarrow> LMEcuCfg option option \<Rightarrow> nat \<Rightarrow> ConfigurationManager \<Rightarrow> (bool \<times> ConfigurationManager) option"
where
  "loadSWClusterConfiguration hash num_cores file sw_cluster_index cm =
     (case file of
        None \<Rightarrow> Some (False, cm)
      | Some None \<Rightarrow> Some (False, cm)
      | Some (Some root_node) \<Rightarrow>
          (let (ok, cm) = loadMachineConfigs hash root_node (make_id hash (cm_sw_clusters cm ! sw_cluster_index)) cm
           in if ok then loadProcessConfigs hash num_cores root_node cm else Some (False, cm)))"

fun loadSWClusters_loop ::
  "(string \<Rightarrow> u64) \<Rightarrow> nat \<Rightarrow> LMEcuCfg option option \<Rightarrow> nat list \<Rightarrow> bool \<Rightarrow> ConfigurationManager \<Rightarrow> (bool \<times> ConfigurationManager) option"
where
  "loadSWClusters_loop hash num_cores file [] result cm = Some (result, cm)"
| "loadSWClusters_loop hash num_cores file (i # is) result cm = do {
     (ok, cm) \<leftarrow> loadSWClusterConfiguration hash num_cores file i cm;
     loadSWClusters_loop hash num_cores file is (if ok then result else False) cm
   }"

definition initializeSoftwareClusterConfigurations ::
  "(string \<Rightarrow> u64) \<Rightarrow> nat \<Rightarrow> LMEcuCfg option option \<Rightarrow> ConfigurationManager \<Rightarrow> (bool \<times> ConfigurationManager) option"
where
  "initializeSoftwareClusterConfigurations hash num_cores file cm =
     (let (loaded, cm) = loadListOfSWClusters cm
      in if loaded then loadSWClusters_loop hash num_cores file [0..<length (cm_sw_clusters cm)] True cm else Some (False, cm))"

text \<open>\<open>getenv_value\<close> is what \<^verbatim>\<open>getenv\<close> returns, \<open>setenv_ok\<close> whether \<^verbatim>\<open>setenv\<close> succeeds.\<close>

definition checkOrSetFlatConfigEnvVar :: "string option \<Rightarrow> bool \<Rightarrow> bool" where
  "checkOrSetFlatConfigEnvVar getenv_value setenv_ok =
     (case getenv_value of Some (_ # _) \<Rightarrow> True | _ \<Rightarrow> setenv_ok)"

definition cm_initialize ::
  "(string \<Rightarrow> u64) \<Rightarrow> nat \<Rightarrow> string option \<Rightarrow> bool \<Rightarrow> LMEcuCfg option option \<Rightarrow> ConfigurationManager \<Rightarrow>
   (bool \<times> ConfigurationManager) option"
where
  "cm_initialize hash num_cores getenv_value setenv_ok file cm =
     (let cm = cm\<lparr>cm_process_index := 0\<rparr>
      in if checkOrSetFlatConfigEnvVar getenv_value setenv_ok
         then do {
           (result, cm) \<leftarrow> initializeSoftwareClusterConfigurations hash num_cores file cm;
           Some (result, AssignOsProcessIndexesInDependencyList cm)
         }
         else Some (False, cm))"

fun clear_strings :: "string option list \<Rightarrow> string option list" where
  "clear_strings [] = []"
| "clear_strings (None # ss) = None # ss"
| "clear_strings (Some _ # ss) = None # clear_strings ss"

definition cm_deinitialize :: "ConfigurationManager \<Rightarrow> ConfigurationManager" where
  "cm_deinitialize cm =
     cm\<lparr>cm_process_groups := map (\<lambda>pg. pg\<lparr>pg_processes := map (\<lambda>process.
           process\<lparr>startup_config := (startup_config process)\<lparr>oc_argv := clear_strings (oc_argv (startup_config process)),
             oc_envp := clear_strings (oc_envp (startup_config process))\<rparr>\<rparr>) (pg_processes pg)\<rparr>) (cm_process_groups cm)\<rparr>"

subsection \<open>What is loaded\<close>

text \<open>
  The startup configurations of the file in order; the position of one is its process number. The
  invariant relates the configuration loaded so far to the list of the instances created so far, each
  with the process group states it has been assigned to.
\<close>

lemma ih_eq_iff [simp]: "ih_eq a b \<longleftrightarrow> a = b"
  by (cases a; cases b) (simp add: ih_eq_def)

lemma find_index_None [simp]: "find_index P xs = None \<longleftrightarrow> (\<forall>x \<in> set xs. \<not> P x)"
  by (induction xs) auto

lemma find_index_Some: "find_index P xs = Some i \<longleftrightarrow> i < length xs \<and> P (xs ! i) \<and> (\<forall>j < i. \<not> P (xs ! j))"
proof (induction xs arbitrary: i)
  case (Cons x xs)
  show ?case by (cases i) (auto simp: Cons All_less_Suc2)
qed simp

type_synonym assigned = "OsProcess \<times> ProcessGroupStateID list"

definition in_state :: "ProcessGroup \<Rightarrow> IdentifierHash \<Rightarrow> assigned \<Rightarrow> bool" where
  "in_state pg name a \<longleftrightarrow> \<lparr>id_pg_name = pg_name pg, id_pg_state_name = name\<rparr> \<in> set (snd a)"

definition in_group :: "ProcessGroup \<Rightarrow> assigned \<Rightarrow> bool" where
  "in_group pg a \<longleftrightarrow> (\<exists>st \<in> set (pg_states pg). in_state pg (pgs_name st) a)"

definition members :: "(assigned \<Rightarrow> bool) \<Rightarrow> assigned list \<Rightarrow> nat list" where
  "members P as = filter (\<lambda>k. P (as ! k)) [0..<length as]"

definition first_in :: "('a \<Rightarrow> 'b) \<Rightarrow> 'a list \<Rightarrow> nat \<Rightarrow> bool" where
  "first_in f xs i \<longleftrightarrow> (\<forall>j < i. f (xs ! j) \<noteq> f (xs ! i))"

definition state_ok :: "assigned list \<Rightarrow> ProcessGroup \<Rightarrow> ProcessGroupState \<Rightarrow> bool" where
  "state_ok as pg st \<longleftrightarrow> (\<forall>i \<in> set (process_indexes st). unat i < length (pg_processes pg)) \<and>
     map (\<lambda>i. process_number (pg_processes pg ! unat i)) (process_indexes st) = map word_of_nat (members (in_state pg (pgs_name st)) as)"

definition group_ok :: "assigned list \<Rightarrow> ProcessGroup \<Rightarrow> bool" where
  "group_ok as pg \<longleftrightarrow> pg_processes pg = map (\<lambda>k. fst (as ! k)) (members (in_group pg) as) \<and>
     (\<forall>j < length (pg_states pg). state_ok (if first_in pgs_name (pg_states pg) j then as else []) pg (pg_states pg ! j))"

definition cfg_inv :: "assigned list \<Rightarrow> ConfigurationManager \<Rightarrow> bool" where
  "cfg_inv as cm \<longleftrightarrow> (\<forall>k < length as. process_number (fst (as ! k)) = word_of_nat k) \<and> length as < 2 ^ 31 \<and>
     cm_process_index cm = word_of_nat (length as) \<and>
     (\<forall>g < length (cm_process_groups cm).
        group_ok (if first_in pg_name (cm_process_groups cm) g then as else []) (cm_process_groups cm ! g))"

lemma members_snoc: "members P (as @ [a]) = members P as @ (if P a then [length as] else [])"
  by (auto simp: members_def nth_append intro: filter_cong)

lemma members_less: "k \<in> set (members P as) \<Longrightarrow> k < length as"
  by (auto simp: members_def)

lemma members_Nil [simp]: "members P [] = []"
  by (simp add: members_def)

lemma distinct_members: "distinct (members P as)"
  by (simp add: members_def)

lemma length_members: "length (members P as) \<le> length as"
  unfolding members_def using length_filter_le [of "\<lambda>k. P (as ! k)" "[0..<length as]"] by simp

lemma unat_u32: "a < 2 ^ 32 \<Longrightarrow> unat (word_of_nat a :: u32) = a"
  by (simp add: unsigned_of_nat take_bit_nat_eq_self)

lemma word_of_nat_eq_31: "a < 2 ^ 31 \<Longrightarrow> b < 2 ^ 31 \<Longrightarrow> (word_of_nat a :: u32) = word_of_nat b \<longleftrightarrow> a = b"
  by (rule iffI, drule arg_cong [where f = unat]) (simp_all add: unat_u32)

lemma and_31: "a < 2 ^ 31 \<Longrightarrow> (word_of_nat a AND 0x7FFFFFFF :: u32) = word_of_nat a"
proof -
  assume a: "a < 2 ^ 31"
  then have u: "unat (word_of_nat a :: u32) = a" using unat_u32 [of a] by simp
  then have "unat (take_bit 31 (word_of_nat a :: u32)) = a" using a by (simp add: unsigned_take_bit_eq take_bit_nat_eq_self)
  then have t: "take_bit 31 (word_of_nat a :: u32) = word_of_nat a" by (simp only: word_unat_eq_iff u)
  have m: "(0x7FFFFFFF :: u32) = mask 31" by (simp add: mask_eq_exp_minus_1)
  show ?thesis unfolding m using t by (subst take_bit_eq_mask [symmetric])
qed

lemma numbers_distinct:
  assumes "\<forall>k < length as. process_number (fst (as ! k)) = word_of_nat k" "length as < 2 ^ 31"
  shows "distinct (map process_number (map (\<lambda>k. fst (as ! k)) (members P as)))"
proof -
  have "x = y" if "x < length as" "y < length as" "(word_of_nat x :: u32) = word_of_nat y" for x y
    using that assms(2) word_of_nat_eq_31 [of x y] by simp
  then show ?thesis
    by (auto simp: distinct_map distinct_members inj_on_def assms(1) dest!: members_less)
qed

text \<open>Assigning an instance once more, to a state of a group it may already be in.\<close>

lemma addProcessToGroup_ok:
  assumes nums: "\<forall>k < Suc (length as). process_number (fst ((as @ [(inst, ids)]) ! k)) = word_of_nat k" "Suc (length as) < 2 ^ 31"
    and ok: "pg_processes pg = map (\<lambda>k. fst ((as @ [(inst, ids)]) ! k)) (members (in_group pg) (as @ [(inst, ids)]))"
    and st: "st \<in> set (pg_states pg)"
    and r: "addProcessToGroup inst pg = (i, pg')"
  shows "pg_processes pg' = map (\<lambda>k. fst ((as @ [(inst, ids)]) ! k))
           (members (in_group pg) (as @ [(inst, ids @ [\<lparr>id_pg_name = pg_name pg, id_pg_state_name = pgs_name st\<rparr>])]))"
    and "unat i < length (pg_processes pg')" "pg_processes pg' ! unat i = inst"
    and "\<exists>ps. pg' = pg\<lparr>pg_processes := pg_processes pg @ ps\<rparr>"
proof -
  let ?id = "\<lparr>id_pg_name = pg_name pg, id_pg_state_name = pgs_name st\<rparr>"
  let ?old = "map (\<lambda>k. fst ((as @ [(inst, ids)]) ! k)) (members (in_group pg) as)"
  have number: "process_number inst = word_of_nat (length as)" using nums(1) by auto
  have new: "in_group pg (inst, ids @ [?id])" using st by (auto simp: in_group_def in_state_def)
  have other: "process_number x \<noteq> process_number inst" if x: "x \<in> set ?old" for x
  proof -
    obtain k where k: "k < length as" "x = fst ((as @ [(inst, ids)]) ! k)" using x by (auto dest: members_less)
    then have "process_number x = word_of_nat k" using nums(1) by auto
    then show ?thesis using number k(1) nums(2) by (simp add: word_of_nat_eq_31)
  qed
  have len: "length (members (in_group pg) as) < 2 ^ 31" using length_members [of "in_group pg" as] nums(2) by linarith
  note u = unat_u32 [of "length (members (in_group pg) as)"]
  have "pg_processes pg' = ?old @ [inst] \<and> unat i = length ?old \<and> (\<exists>ps. pg' = pg\<lparr>pg_processes := pg_processes pg @ ps\<rparr>)"
  proof (cases "in_group pg (inst, ids)")
    case True
    then have p: "pg_processes pg = ?old @ [inst]" using ok by (simp add: members_snoc)
    have "find_index (\<lambda>x. process_number inst = process_number x) (pg_processes pg) = Some (length ?old)"
      unfolding find_index_Some
    proof (intro conjI allI impI)
      fix j assume "j < length ?old"
      then show "process_number inst \<noteq> process_number (pg_processes pg ! j)"
        using p other [of "?old ! j"] by (simp only: nth_append if_True nth_mem) simp
    qed (use nth_append_length [of ?old inst] in \<open>simp_all add: p\<close>)
    moreover have "unat (word_of_nat (length ?old) AND 0x7FFFFFFF :: u32) = length ?old"
      using and_31 len u by simp
    ultimately have "unat i = length ?old" "pg' = pg" using r unfolding addProcessToGroup_def by auto
    then show ?thesis using p by (intro conjI exI [of _ "[]"]) simp_all
  next
    case False
    then have p: "pg_processes pg = ?old" using ok by (simp add: members_snoc)
    then have f: "find_index (\<lambda>inst'. process_number inst = process_number inst') (pg_processes pg) = None"
      unfolding find_index_None using other by metis
    have "i = word_of_nat (length ?old)" "pg' = pg\<lparr>pg_processes := ?old @ [inst]\<rparr>"
      using r p unfolding addProcessToGroup_def f by auto
    then show ?thesis using p len u by (intro conjI exI [of _ "[inst]"]) simp_all
  qed
  then show "pg_processes pg' = map (\<lambda>k. fst ((as @ [(inst, ids)]) ! k)) (members (in_group pg) (as @ [(inst, ids @ [?id])]))"
    "unat i < length (pg_processes pg')" "pg_processes pg' ! unat i = inst"
    "\<exists>ps. pg' = pg\<lparr>pg_processes := pg_processes pg @ ps\<rparr>"
    using new by (auto simp: members_snoc nth_append)
qed

text \<open>The place of an instance in its group is the only one with its number.\<close>

lemma addIndexToState_ok:
  assumes nums: "distinct (map process_number ps)" and i: "unat i < length ps"
    and idx: "\<forall>j \<in> set (process_indexes st). unat j < length ps"
    and ns: "map (\<lambda>j. process_number (ps ! unat j)) (process_indexes st) = xs @ (if b then [n] else [])"
    and n: "process_number (ps ! unat i) = n" "n \<notin> set xs"
  shows "(\<forall>j \<in> set (process_indexes (addIndexToState i st)). unat j < length ps) \<and>
    map (\<lambda>j. process_number (ps ! unat j)) (process_indexes (addIndexToState i st)) = xs @ [n]"
proof -
  have inj: "process_number (ps ! unat j) = n \<longleftrightarrow> j = i" if "j \<in> set (process_indexes st)" for j
    using nth_eq_iff_index_eq [OF nums, of "unat j" "unat i"] that idx i n(1) by (auto simp: word_unat_eq_iff)
  have "b \<longleftrightarrow> n \<in> set (map (\<lambda>j. process_number (ps ! unat j)) (process_indexes st))" using n(2) unfolding ns by simp
  also have "\<dots> \<longleftrightarrow> i \<in> set (process_indexes st)" using inj by auto
  finally show ?thesis using ns idx i n(1) by (auto simp: addIndexToState_def)
qed

lemma in_state_update [simp]:
  "in_state (pg\<lparr>pg_processes := ps\<rparr>) = in_state pg" "in_state (pg\<lparr>pg_states := ss\<rparr>) = in_state pg"
  by (simp_all add: in_state_def fun_eq_iff)

lemma state_ok_extend:
  assumes "state_ok as pg st"
  shows "state_ok as (pg\<lparr>pg_processes := pg_processes pg @ ps\<rparr>) st"
proof -
  have "map (\<lambda>i. process_number ((pg_processes pg @ ps) ! unat i)) (process_indexes st) =
      map (\<lambda>i. process_number (pg_processes pg ! unat i)) (process_indexes st)"
    using assms by (intro map_cong) (auto simp: state_ok_def nth_append)
  then show ?thesis using assms by (simp add: state_ok_def trans_less_add1 del: map_eq_conv)
qed

lemma members_cong: "length as = length bs \<Longrightarrow> (\<And>k. k < length as \<Longrightarrow> P (as ! k) \<longleftrightarrow> Q (bs ! k)) \<Longrightarrow> members P as = members Q bs"
  by (auto simp: members_def intro: filter_cong)

lemma group_ok_assign:
  assumes nums: "\<forall>k < Suc (length as). process_number (fst ((as @ [(inst, ids)]) ! k)) = word_of_nat k" "Suc (length as) < 2 ^ 31"
    and ok: "group_ok (as @ [(inst, ids)]) pg"
    and k: "getProcessGroupStateInGroup pg name = Some k"
    and r: "addProcessToGroup inst pg = (i, pg')"
    and q: "q = pg'\<lparr>pg_states := (pg_states pg')[k := addIndexToState i (pg_states pg' ! k)]\<rparr>"
  shows "group_ok (as @ [(inst, ids @ [\<lparr>id_pg_name = pg_name pg, id_pg_state_name = name\<rparr>])]) q"
    and "map pgs_name (pg_states q) = map pgs_name (pg_states pg)" "pg_name q = pg_name pg"
proof -
  let ?bs = "as @ [(inst, ids @ [\<lparr>id_pg_name = pg_name pg, id_pg_state_name = name\<rparr>])]"
  let ?as = "as @ [(inst, ids)]" let ?st = "pg_states pg ! k"
  have kl: "k < length (pg_states pg)" "pgs_name ?st = name" "first_in pgs_name (pg_states pg) k"
    using k by (auto simp: getProcessGroupStateInGroup_def find_index_Some first_in_def)
  have p: "pg_processes pg = map (\<lambda>k. fst (?as ! k)) (members (in_group pg) ?as)" using ok by (simp add: group_ok_def)
  note add = addProcessToGroup_ok [OF nums p _ r, of ?st, unfolded kl(2)]
  note add' = add [OF nth_mem [OF kl(1)]]
  obtain ps where pg': "pg' = pg\<lparr>pg_processes := pg_processes pg @ ps\<rparr>" using add'(4) by blast
  have nm: "pgs_name (addIndexToState i s) = pgs_name s" for s by (simp add: addIndexToState_def)
  show names: "map pgs_name (pg_states q) = map pgs_name (pg_states pg)" "pg_name q = pg_name pg"
    using kl(1) pg' q by (simp_all add: nm map_update list_update_same_conv)
  have sn: "pgs_name (pg_states q ! j) = pgs_name (pg_states pg ! j)" if "j < length (pg_states pg)" for j
    using arg_cong [OF names(1), of "\<lambda>xs. xs ! j"] that pg' q by (simp del: map_update)
  have ins: "in_state q = in_state pg" using names(2) by (simp add: in_state_def fun_eq_iff)
  have ing: "in_group q = in_group pg"
  proof
    fix a
    have "in_group q a \<longleftrightarrow> (\<exists>n \<in> set (map pgs_name (pg_states q)). in_state q n a)" for q by (auto simp: in_group_def)
    then show "in_group q a = in_group pg a" using names ins by metis
  qed
  have procs: "pg_processes q = map (\<lambda>k. fst (?bs ! k)) (members (in_group q) ?bs)"
    using add'(1) q unfolding ing by (auto simp: nth_append members_snoc dest: members_less)
  have dist: "distinct (map process_number (pg_processes q))"
    unfolding procs by (rule numbers_distinct) (use nums in \<open>auto simp: nth_append dest: spec split: if_splits\<close>)
  have "state_ok (if first_in pgs_name (pg_states q) j then ?bs else []) q (pg_states q ! j)" if j: "j < length (pg_states pg)" for j
  proof (cases "j = k")
    case True
    have old: "state_ok ?as pg ?st" using ok kl j by (auto simp: group_ok_def)
    have "state_ok ?as pg' ?st" unfolding pg' by (rule state_ok_extend [OF old])
    then have st: "\<forall>i \<in> set (process_indexes ?st). unat i < length (pg_processes pg')"
      "map (\<lambda>i. process_number (pg_processes pg' ! unat i)) (process_indexes ?st) =
         map word_of_nat (members (in_state pg name) as) @ (if in_state pg name (inst, ids) then [word_of_nat (length as)] else [])"
      using kl(2) pg' by (auto simp: state_ok_def members_snoc)
    have n: "process_number (pg_processes pg' ! unat i) = word_of_nat (length as)" using add'(3) nums(1) by auto
    have "(word_of_nat (length as) :: u32) \<notin> word_of_nat ` set (members (in_state pg name) as)"
      using nums(2) word_of_nat_eq_31 by (auto dest!: members_less)
    then have "(\<forall>j \<in> set (process_indexes (addIndexToState i ?st)). unat j < length (pg_processes pg')) \<and>
      map (\<lambda>j. process_number (pg_processes pg' ! unat j)) (process_indexes (addIndexToState i ?st)) =
        map word_of_nat (members (in_state pg name) as) @ [word_of_nat (length as)]"
      using addIndexToState_ok [OF _ add'(2) st n] dist q by simp
    moreover have "in_state pg name (inst, ids @ [\<lparr>id_pg_name = pg_name pg, id_pg_state_name = name\<rparr>])" by (simp add: in_state_def)
    moreover have "first_in pgs_name (pg_states q) k" using kl(1,3) sn by (auto simp: first_in_def)
    ultimately show ?thesis using True kl pg' ins q by (auto simp: state_ok_def members_snoc nm)
  next
    case False
    then have same: "pg_states q ! j = pg_states pg ! j" using pg' q by simp
    have f: "first_in pgs_name (pg_states q) j \<longleftrightarrow> first_in pgs_name (pg_states pg) j" using sn j by (auto simp: first_in_def)
    have "state_ok (if first_in pgs_name (pg_states pg) j then ?as else []) pg (pg_states pg ! j)" using ok j by (simp add: group_ok_def)
    then have o: "state_ok (if first_in pgs_name (pg_states pg) j then ?as else []) pg' (pg_states pg ! j)"
      unfolding pg' by (rule state_ok_extend)
    have "members (in_state pg (pgs_name (pg_states pg ! j))) ?bs = members (in_state pg (pgs_name (pg_states pg ! j))) ?as"
      if "first_in pgs_name (pg_states pg) j"
    proof -
      have "pgs_name (pg_states pg ! j) \<noteq> name"
        using False kl j that by (metis first_in_def linorder_neqE_nat)
      then show ?thesis by (auto simp: members_snoc in_state_def)
    qed
    then show ?thesis using o f same ins pg' q by (auto simp: state_ok_def in_state_def)
  qed
  then show "group_ok ?bs q" unfolding group_ok_def using procs pg' q by simp
qed

lemma group_ok_other:
  assumes "id_pg_name sid = pg_name pg \<Longrightarrow> id_pg_state_name sid \<notin> pgs_name ` set (pg_states pg)"
  shows "group_ok (as @ [(inst, ids @ [sid])]) pg \<longleftrightarrow> group_ok (as @ [(inst, ids)]) pg"
proof -
  have st: "in_state pg (pgs_name st) (inst, ids @ [sid]) \<longleftrightarrow> in_state pg (pgs_name st) (inst, ids)"
    if "st \<in> set (pg_states pg)" for st
    using assms that by (auto simp: in_state_def)
  have g: "in_group pg (inst, ids @ [sid]) \<longleftrightarrow> in_group pg (inst, ids)" using st by (auto simp: in_group_def)
  have "state_ok (as @ [(inst, ids @ [sid])]) pg (pg_states pg ! j) \<longleftrightarrow> state_ok (as @ [(inst, ids)]) pg (pg_states pg ! j)"
    if "j < length (pg_states pg)" for j
    using st [OF nth_mem [OF that]] by (simp add: state_ok_def members_snoc)
  moreover have "map (\<lambda>k. fst ((as @ [(inst, ids @ [sid])]) ! k)) ks = map (\<lambda>k. fst ((as @ [(inst, ids)]) ! k)) ks"
    if "\<forall>k \<in> set ks. k < Suc (length as)" for ks
    using that by (auto simp: nth_append less_Suc_eq)
  then have "map (\<lambda>k. fst ((as @ [(inst, ids @ [sid])]) ! k)) (members (in_group pg) (as @ [(inst, ids @ [sid])])) =
      map (\<lambda>k. fst ((as @ [(inst, ids)]) ! k)) (members (in_group pg) (as @ [(inst, ids)]))"
    using g by (auto simp: members_snoc nth_append dest: members_less)
  ultimately show ?thesis by (auto simp: group_ok_def)
qed

lemma group_ok_start: "group_ok (as @ [(inst, [])]) pg \<longleftrightarrow> group_ok as pg"
proof -
  have "\<not> in_state pg n (inst, [])" "\<not> in_group pg (inst, [])" for n by (simp_all add: in_state_def in_group_def)
  moreover from this have "map (\<lambda>k. fst ((as @ [(inst, [])]) ! k)) (members (in_group pg) (as @ [(inst, [])])) =
      map (\<lambda>k. fst (as ! k)) (members (in_group pg) as)"
    by (auto simp: members_snoc nth_append dest: members_less)
  ultimately show ?thesis by (simp add: group_ok_def state_ok_def members_snoc del: map_eq_conv)
qed

lemma first_in_update:
  "f y = f (xs ! g) \<Longrightarrow> i < length xs \<Longrightarrow> g < length xs \<Longrightarrow> first_in f (xs[g := y]) i \<longleftrightarrow> first_in f xs i"
  by (auto simp: first_in_def nth_list_update)

lemma cfg_inv_assign:
  assumes inv: "cfg_inv (as @ [(inst, ids)]) cm"
  shows "cfg_inv (as @ [(inst, ids @ [sid])]) (AssignOsProcessInstanceToProcessGroup sid inst cm)" (is "cfg_inv ?bs ?cm")
proof -
  let ?as = "as @ [(inst, ids)]" let ?gs = "cm_process_groups cm"
  have nums: "\<forall>k < Suc (length as). process_number (fst (?as ! k)) = word_of_nat k" "Suc (length as) < 2 ^ 31"
    and grp: "\<And>g. g < length ?gs \<Longrightarrow> group_ok (if first_in pg_name ?gs g then ?as else []) (?gs ! g)"
    using inv by (auto simp: cfg_inv_def)
  have nums': "\<forall>k < Suc (length as). process_number (fst (?bs ! k)) = word_of_nat k"
    using nums(1) by (auto simp: nth_append less_Suc_eq)
  show ?thesis
  proof (cases "getProcessGroupByID (id_pg_name sid) cm")
    case None
    then have "id_pg_name sid \<noteq> pg_name (?gs ! g)" if "g < length ?gs" for g
      using that by (auto simp: getProcessGroupByID_def dest: nth_mem)
    then have "group_ok (if first_in pg_name ?gs g then ?bs else []) (?gs ! g)" if "g < length ?gs" for g
      using that grp [OF that] group_ok_other [of sid "?gs ! g" as inst ids] by auto
    then show ?thesis
      using None inv nums'
      by (auto simp: AssignOsProcessInstanceToProcessGroup_def cfg_inv_def)
  next
    case (Some g)
    have g: "g < length ?gs" "pg_name (?gs ! g) = id_pg_name sid" "first_in pg_name ?gs g"
      using Some by (auto simp: getProcessGroupByID_def find_index_Some first_in_def)
    have others: "group_ok (if first_in pg_name ?gs h then ?bs else []) (?gs ! h)" if h: "h < length ?gs" "h \<noteq> g" for h
    proof (cases "first_in pg_name ?gs h")
      case True
      then have "pg_name (?gs ! h) \<noteq> id_pg_name sid" using g h by (metis first_in_def linorder_neqE_nat)
      then show ?thesis using grp [OF h(1)] True group_ok_other [of sid "?gs ! h" as inst ids] by auto
    qed (use grp [OF h(1)] in simp)
    show ?thesis
    proof (cases "getProcessGroupStateInGroup (?gs ! g) (id_pg_state_name sid)")
      case None
      then have "id_pg_state_name sid \<notin> pgs_name ` set (pg_states (?gs ! g))" by (auto simp: getProcessGroupStateInGroup_def)
      then have "group_ok ?bs (?gs ! g)"
        using grp [OF g(1)] g(3) group_ok_other [of sid "?gs ! g" as inst ids] by simp
      then have "group_ok (if first_in pg_name ?gs h then ?bs else []) (?gs ! h)" if "h < length ?gs" for h
        using others [OF that] g(3) by (cases "h = g") simp_all
      then show ?thesis
        using Some None inv nums' by (auto simp: AssignOsProcessInstanceToProcessGroup_def cfg_inv_def)
    next
      case k: (Some k)
      obtain i pg' where r: "addProcessToGroup inst (?gs ! g) = (i, pg')" by fastforce
      define q where "q = pg'\<lparr>pg_states := (pg_states pg')[k := addIndexToState i (pg_states pg' ! k)]\<rparr>"
      have sid: "\<lparr>id_pg_name = pg_name (?gs ! g), id_pg_state_name = id_pg_state_name sid\<rparr> = sid" using g(2) by (cases sid) simp
      have q: "group_ok ?bs q" "pg_name q = pg_name (?gs ! g)"
        using group_ok_assign [OF nums _ k r q_def] grp [OF g(1)] g(3) unfolding sid by auto
      have cm: "?cm = cm\<lparr>cm_process_groups := ?gs[g := q]\<rparr>"
        using Some k r by (simp add: AssignOsProcessInstanceToProcessGroup_def q_def Let_def)
      have "group_ok (if first_in pg_name (?gs[g := q]) h then ?bs else []) (?gs[g := q] ! h)" if h: "h < length ?gs" for h
        using others [OF h] q g h first_in_update [of pg_name q ?gs g h] by (cases "h = g") auto
      then show ?thesis unfolding cm using inv nums' by (auto simp: cfg_inv_def)
    qed
  qed
qed

definition state_id :: "(string \<Rightarrow> u64) \<Rightarrow> ProcessGroupStateDependency \<Rightarrow> ProcessGroupStateID" where
  "state_id hash n = \<lparr>id_pg_name = getStringViewFromFlatBuffer hash (pgd_stateMachine_name n),
     id_pg_state_name = getStringViewFromFlatBuffer hash (pgd_stateName n)\<rparr>"

definition assigned_states :: "(string \<Rightarrow> u64) \<Rightarrow> ProcessStartupConfig \<Rightarrow> ProcessGroupStateID list" where
  "assigned_states hash c = (case sc_processGroupStateDependency c of None \<Rightarrow> [] | Some ps \<Rightarrow> map (state_id hash) ps)"

lemma cfg_inv_parseProcessGroup:
  assumes "cfg_inv (as @ [(inst, [])]) cm"
  shows "cfg_inv (as @ [(inst, assigned_states hash c)]) (parseProcessGroup hash (sc_processGroupStateDependency c) inst cm)"
proof -
  have "cfg_inv (as @ [(inst, ids @ map (state_id hash) ps)])
      (fold (\<lambda>n. AssignOsProcessInstanceToProcessGroup (state_id hash n) inst) ps cm)"
    if "cfg_inv (as @ [(inst, ids)]) cm" for ps ids cm
    using that by (induction ps arbitrary: ids cm) (use cfg_inv_assign in fastforce)+
  from this [OF assms] show ?thesis
    using assms by (auto simp: assigned_states_def parseProcessGroup_def state_id_def [abs_def] split: option.splits)
qed

definition loaded :: "(string \<Rightarrow> u64) \<Rightarrow> nat \<Rightarrow> nat \<Rightarrow> (ProcessNode \<times> ProcessStartupConfig) list \<Rightarrow> assigned list \<Rightarrow> bool" where
  "loaded hash num_cores base pcs as \<longleftrightarrow> length as = length pcs \<and> (\<forall>k < length pcs.
     parseStartupConfig hash num_cores (fst (pcs ! k)) (word_of_nat (base + k)) (snd (pcs ! k)) = Some (fst (as ! k)) \<and>
     snd (as ! k) = assigned_states hash (snd (pcs ! k)))"

lemma loaded_append:
  assumes "loaded hash n base xs as" "loaded hash n (base + length xs) ys bs"
  shows "loaded hash n base (xs @ ys) (as @ bs)"
proof -
  let ?P = "\<lambda>base pcs as k. parseStartupConfig hash n (fst (pcs ! k)) (word_of_nat (base + k)) (snd (pcs ! k)) = Some (fst (as ! k)) \<and>
     snd (as ! k) = assigned_states hash (snd (pcs ! k))"
  have len: "length as = length xs" "length bs = length ys" using assms by (simp_all add: loaded_def)
  have "?P base (xs @ ys) (as @ bs) k" if k: "k < length xs + length ys" for k
  proof (cases "k < length xs")
    case True
    then have "?P base xs as k" using assms(1) unfolding loaded_def by blast
    then show ?thesis using True len by (simp only: nth_append if_True)
  next
    case False
    then have "k - length xs < length ys" using k by linarith
    then have "?P (base + length xs) ys bs (k - length xs)" using assms(2) unfolding loaded_def by blast
    moreover have "base + length xs + (k - length xs) = base + k" using False by simp
    ultimately show ?thesis using False len by (simp only: nth_append if_False)
  qed
  then show ?thesis unfolding loaded_def using len by simp
qed

lemma parseStartupConfig_number:
  "parseStartupConfig hash n node number c = Some inst \<Longrightarrow> process_number inst = number"
  by (auto simp: parseStartupConfig_def parseExecutionDependency_def Let_def split: bind_splits option.splits)

lemma cfg_inv_parseProcess:
  assumes "cfg_inv as cm" "length as + length cs < 2 ^ 31" "parseProcess_loop hash n node cs cm = Some cm'"
  shows "\<exists>bs. loaded hash n (length as) (map (Pair node) cs) bs \<and> cfg_inv (as @ bs) cm'"
  using assms
proof (induction cs arbitrary: as cm)
  case Nil
  then show ?case by (auto simp: loaded_def)
next
  case (Cons c cs)
  have idx: "cm_process_index cm = word_of_nat (length as)" using Cons.prems(1) by (simp add: cfg_inv_def)
  moreover have len: "length as < 2 ^ 31" using Cons.prems(2) by simp
  ultimately have lt: "cm_process_index cm < 0xFFFFFFFF"
    using unat_u32 [of "length as"] by (simp add: word_less_nat_alt)
  obtain inst where i: "parseStartupConfig hash n node (cm_process_index cm) c = Some inst"
    "parseProcess_loop hash n node cs (parseProcessGroup hash (sc_processGroupStateDependency c) inst
       (cm\<lparr>cm_process_index := cm_process_index cm + 1\<rparr>)) = Some cm'"
    using Cons.prems(3) lt by (auto split: bind_splits)
  have num: "process_number inst = word_of_nat (length as)" using parseStartupConfig_number [OF i(1)] idx by simp
  have "cfg_inv (as @ [(inst, [])]) (cm\<lparr>cm_process_index := cm_process_index cm + 1\<rparr>)"
    using Cons.prems(1,2) num idx unfolding cfg_inv_def by (auto simp: nth_append group_ok_start less_Suc_eq)
  from cfg_inv_parseProcessGroup [OF this] Cons.IH [OF _ _ i(2), of "as @ [(inst, assigned_states hash c)]"] Cons.prems(2)
  obtain bs where bs: "loaded hash n (Suc (length as)) (map (Pair node) cs) bs"
    "cfg_inv ((as @ [(inst, assigned_states hash c)]) @ bs) cm'" by auto
  have "loaded hash n (length as) [(node, c)] [(inst, assigned_states hash c)]" using i(1) idx by (simp add: loaded_def)
  from loaded_append [OF this] bs(1) have "loaded hash n (length as) (map (Pair node) (c # cs)) ((inst, assigned_states hash c) # bs)"
    by simp
  then show ?case using bs(2) by (intro exI [of _ "(inst, assigned_states hash c) # bs"]) simp
qed

definition node_configs :: "ProcessNode \<Rightarrow> (ProcessNode \<times> ProcessStartupConfig) list" where
  "node_configs node = (case pn_startupConfig node of None \<Rightarrow> [] | Some cs \<Rightarrow> map (Pair node) cs)"

definition startup_configs :: "LMEcuCfg \<Rightarrow> (ProcessNode \<times> ProcessStartupConfig) list" where
  "startup_configs root = concat (map node_configs (case root_Process root of None \<Rightarrow> [] | Some ps \<Rightarrow> ps))"

lemma cfg_inv_loadProcess:
  assumes "cfg_inv as cm" "length as + length (concat (map node_configs ps)) < 2 ^ 31"
    "loadProcessConfigs_loop hash n ps cm = Some (True, cm')"
  shows "\<exists>bs. loaded hash n (length as) (concat (map node_configs ps)) bs \<and> cfg_inv (as @ bs) cm'"
  using assms
proof (induction ps arbitrary: as cm)
  case Nil
  then show ?case by (auto simp: loaded_def)
next
  case (Cons p ps)
  obtain cm1 where 1: "parseProcessConfigurations hash n p cm = Some (True, cm1)" "loadProcessConfigs_loop hash n ps cm1 = Some (True, cm')"
    using Cons.prems(3) by (auto split: bind_splits if_splits)
  then obtain cs where cs: "pn_startupConfig p = Some cs" "parseProcess_loop hash n p cs cm = Some cm1"
    by (auto simp: parseProcessConfigurations_def split: option.splits list.splits)
  then have nc: "node_configs p = map (Pair p) cs" by (simp add: node_configs_def)
  obtain bs where bs: "loaded hash n (length as) (node_configs p) bs" "cfg_inv (as @ bs) cm1"
    using cfg_inv_parseProcess [OF Cons.prems(1) _ cs(2)] Cons.prems(2) nc by auto
  moreover have "length bs = length (node_configs p)" using bs(1) by (simp add: loaded_def)
  ultimately obtain bs' where "loaded hash n (length as + length (node_configs p)) (concat (map node_configs ps)) bs'" "cfg_inv ((as @ bs) @ bs') cm'"
    using Cons.IH [OF bs(2) _ 1(2)] Cons.prems(2) by auto
  then show ?case using loaded_append [OF bs(1)] by (intro exI [of _ "bs @ bs'"]) simp
qed

text \<open>Before the processes are read the groups are empty.\<close>

definition empty_groups :: "ConfigurationManager \<Rightarrow> bool" where
  "empty_groups cm \<longleftrightarrow> (\<forall>pg \<in> set (cm_process_groups cm). pg_processes pg = [] \<and> (\<forall>st \<in> set (pg_states pg). process_indexes st = []))"

lemma parseModeGroups_loop_processes [simp]: "pg_processes (parseModeGroups_loop hash ds pg) = pg_processes pg"
proof (induction ds arbitrary: pg)
  case (Cons d ds)
  then show ?case by (cases d) (simp_all add: Let_def)
qed simp

lemma parseModeGroups_loop_states:
  "st \<in> set (pg_states (parseModeGroups_loop hash ds pg)) \<Longrightarrow> st \<in> set (pg_states pg) \<or> process_indexes st = []"
proof (induction ds arbitrary: pg)
  case (Cons d ds)
  show ?case
  proof (cases d)
    case None
    then show ?thesis using Cons by simp
  next
    case (Some s)
    obtain pg' where "parseModeGroups_loop hash (d # ds) pg = parseModeGroups_loop hash ds pg'"
      "pg_states pg' = pg_states pg @ [\<lparr>pgs_name = getStringViewFromFlatBuffer hash (Some s), process_indexes = []\<rparr>]"
      using Some by (cases "ends_with_Off s") (simp_all add: Let_def)
    then show ?thesis using Cons.IH [of pg'] Cons.prems by auto
  qed
qed simp

lemma loadMachineConfigs_empty:
  assumes "empty_groups cm" "cm_process_index cm = 0" "loadMachineConfigs_loop hash cluster ms cm = (r, cm')"
  shows "empty_groups cm' \<and> cm_process_index cm' = 0"
  using assms
proof (induction ms arbitrary: cm)
  case (Cons m ms)
  obtain ok cm1 where 1: "parseMachineConfigurations hash cluster m cm = (ok, cm1)" by fastforce
  have "empty_groups cm1 \<and> cm_process_index cm1 = 0"
    using 1 Cons.prems(1,2)
    by (auto dest!: parseModeGroups_loop_states simp: parseMachineConfigurations_def parseModeGroups_def empty_groups_def Let_def
        split: if_splits option.splits list.splits)
  then show ?case using Cons 1 by (auto split: if_splits)
qed simp

lemma cfg_inv_empty: "empty_groups cm \<Longrightarrow> cm_process_index cm = 0 \<Longrightarrow> cfg_inv [] cm"
  unfolding cfg_inv_def empty_groups_def group_ok_def state_ok_def by (auto dest!: nth_mem)

definition resolved :: "ProcessGroup \<Rightarrow> OsProcess \<Rightarrow> OsProcess" where
  "resolved pg p = p\<lparr>dependencies_of := map (resolveDependency pg) (dependencies_of p)\<rparr>"

definition resolved_group :: "ProcessGroup \<Rightarrow> ProcessGroup" where
  "resolved_group pg = pg\<lparr>pg_processes := map (resolved pg) (pg_processes pg)\<rparr>"

lemma Assign_resolved:
  "AssignOsProcessIndexesInDependencyList cm = cm\<lparr>cm_process_groups := map resolved_group (cm_process_groups cm)\<rparr>"
  by (simp add: AssignOsProcessIndexesInDependencyList_def resolved_group_def [abs_def] resolved_def [abs_def] UpdateOsProcessIndexInDependencyList_def)

lemma initialize_one_cluster:
  "initializeSoftwareClusterConfigurations hash n file cm =
     loadSWClusterConfiguration hash n file 0 (cm\<lparr>cm_sw_clusters := [''DefaultSoftwareCluster'']\<rparr>)"
proof -
  let ?r = "loadSWClusterConfiguration hash n file 0 (cm\<lparr>cm_sw_clusters := [''DefaultSoftwareCluster'']\<rparr>)"
  show ?thesis
    by (cases ?r) (auto simp: initializeSoftwareClusterConfigurations_def loadListOfSWClusters_def)
qed

lemma cm_initialize_inv:
  assumes "cm_initialize hash n env ok (Some (Some root)) (ConfigurationManager_new hash) = Some (True, cm)"
    "length (startup_configs root) < 2 ^ 31"
  obtains as cm0 where "loaded hash n 0 (startup_configs root) as" "cfg_inv as cm0"
    "cm_process_groups cm = map resolved_group (cm_process_groups cm0)"
proof -
  let ?cm = "(ConfigurationManager_new hash)\<lparr>cm_process_index := 0, cm_sw_clusters := [''DefaultSoftwareCluster'']\<rparr>"
  obtain cm0 where cm0: "loadSWClusterConfiguration hash n (Some (Some root)) 0 ?cm = Some (True, cm0)"
    "cm = AssignOsProcessIndexesInDependencyList cm0"
    using assms(1) unfolding cm_initialize_def initialize_one_cluster
    by (auto simp: Let_def split: if_splits bind_splits)
  then obtain cm1 ps where 1: "loadMachineConfigs hash root (make_id hash ''DefaultSoftwareCluster'') ?cm = (True, cm1)"
    "root_Process root = Some ps" "loadProcessConfigs_loop hash n ps cm1 = Some (True, cm0)"
    by (auto simp: loadSWClusterConfiguration_def loadProcessConfigs_def split: if_splits prod.splits option.splits)
  have "empty_groups cm1 \<and> cm_process_index cm1 = 0"
    using 1(1) loadMachineConfigs_empty [of ?cm hash]
    by (auto simp: loadMachineConfigs_def ConfigurationManager_new_def empty_groups_def split: option.splits)
  then have "cfg_inv [] cm1" using cfg_inv_empty by blast
  moreover have "startup_configs root = concat (map node_configs ps)" using 1(2) by (simp add: startup_configs_def)
  ultimately obtain as where "loaded hash n 0 (startup_configs root) as" "cfg_inv as cm0"
    using cfg_inv_loadProcess [of "[]" cm1 ps hash n cm0] 1(3) assms(2) by auto
  then show ?thesis using that cm0(2) by (simp add: Assign_resolved)
qed

lemma resolveDependency_index:
  assumes "os_process_index d = 0" "length (pg_processes pg) < 2 ^ 31" "pg_processes pg \<noteq> []"
  shows "unat (os_process_index (resolveDependency pg d)) < length (pg_processes pg)"
    "unat (os_process_index (resolveDependency pg d)) =
       (case find_index (\<lambda>p. process_id p = target_process_id d) (pg_processes pg) of Some i \<Rightarrow> i | None \<Rightarrow> 0)"
proof -
  have e: "(\<lambda>os_process. ih_eq (target_process_id d) (process_id os_process)) = (\<lambda>p. process_id p = target_process_id d)" by auto
  show f: "unat (os_process_index (resolveDependency pg d)) =
       (case find_index (\<lambda>p. process_id p = target_process_id d) (pg_processes pg) of Some i \<Rightarrow> i | None \<Rightarrow> 0)"
  proof (cases "find_index (\<lambda>p. process_id p = target_process_id d) (pg_processes pg)")
    case None
    show ?thesis unfolding resolveDependency_def e None using assms(1) by simp
  next
    case (Some i)
    then have "i < 2 ^ 32" using assms(2) by (simp add: find_index_Some)
    then show ?thesis unfolding resolveDependency_def e Some by (simp add: unat_u32)
  qed
  show "unat (os_process_index (resolveDependency pg d)) < length (pg_processes pg)"
    unfolding f using assms(3) by (auto split: option.splits simp: find_index_Some)
qed

lemma parseStartupConfig_dependencies:
  "parseStartupConfig hash n node number c = Some inst \<Longrightarrow> \<forall>d \<in> set (dependencies_of inst). os_process_index d = 0"
  by (auto simp: parseStartupConfig_def parseExecutionDependency_def Let_def split: bind_splits option.splits)

lemma cfg_inv_group:
  assumes "cfg_inv as cm" "getProcessGroupByID name cm = Some g"
  shows "group_ok as (cm_process_groups cm ! g)" "pg_name (cm_process_groups cm ! g) = name" "g < length (cm_process_groups cm)"
  using assms by (auto simp: cfg_inv_def getProcessGroupByID_def find_index_Some first_in_def split: if_splits)

text \<open>
  What the file says of the process groups: the name of a group, the names of its states in order, its off state (the
  last one whose name ends in \<^verbatim>\<open>/Off\<close>) and its recovery state. Reading the processes does not change them.
\<close>

type_synonym group_shape = "IdentifierHash \<times> IdentifierHash list \<times> IdentifierHash \<times> IdentifierHash"

definition shape :: "ProcessGroup \<Rightarrow> group_shape" where
  "shape pg = (pg_name pg, map pgs_name (pg_states pg), off_state pg, recovery_state pg)"

definition mode_groups :: "LMEcuCfg \<Rightarrow> ModeGroup list" where
  "mode_groups root = (case root_ModeGroup root of None \<Rightarrow> [] | Some ms \<Rightarrow> ms)"

definition declared :: "string option list \<Rightarrow> string list" where
  "declared ds = concat (map (case_option [] (\<lambda>s. [s])) ds)"

definition configured_shape :: "(string \<Rightarrow> u64) \<Rightarrow> ModeGroup \<Rightarrow> group_shape" where
  "configured_shape hash m =
     (let ss = declared (case mg_modeDeclaration m of None \<Rightarrow> [] | Some ds \<Rightarrow> ds); offs = filter ends_with_Off ss
      in (getStringViewFromFlatBuffer hash (mg_identifier m), map (\<lambda>s. getStringViewFromFlatBuffer hash (Some s)) ss,
          if offs = [] then make_id hash ''Off'' else getStringViewFromFlatBuffer hash (Some (last offs)),
          case mg_recoveryMode_name m of None \<Rightarrow> make_id hash ''Recovery'' | Some s \<Rightarrow> getStringViewFromFlatBuffer hash (Some s)))"

lemma declared_simps [simp]: "declared [] = []" "declared (None # ds) = declared ds" "declared (Some s # ds) = s # declared ds"
  by (simp_all add: declared_def)

lemma parseModeGroups_loop_shape:
  "shape (parseModeGroups_loop hash ds pg) =
     (pg_name pg, map pgs_name (pg_states pg) @ map (\<lambda>s. getStringViewFromFlatBuffer hash (Some s)) (declared ds),
      if filter ends_with_Off (declared ds) = [] then off_state pg else getStringViewFromFlatBuffer hash (Some (last (filter ends_with_Off (declared ds)))),
      recovery_state pg)"
proof (induction ds arbitrary: pg)
  case Nil
  show ?case by (simp add: shape_def)
next
  case (Cons d ds)
  show ?case by (cases d) (simp_all add: Cons Let_def)
qed

lemma parseMachineConfigurations_shape:
  assumes "parseMachineConfigurations hash cluster m cm = (True, cm')"
  shows "map shape (cm_process_groups cm') = map shape (cm_process_groups cm) @ [configured_shape hash m] \<and>
    cm_process_group_names cm' = cm_process_group_names cm @ [getStringViewFromFlatBuffer hash (mg_identifier m)]"
proof -
  obtain d ds where d: "mg_modeDeclaration m = Some (d # ds)"
    using assms by (auto simp: parseMachineConfigurations_def parseModeGroups_def Let_def split: if_splits option.splits list.splits)
  let ?id = "make_id hash ''''"
  let ?pg = "\<lparr>pg_name = getStringViewFromFlatBuffer hash (mg_identifier m), sw_cluster = cluster, off_state = ?id,
      recovery_state = ?id, pg_states = [], pg_processes = []\<rparr>"
  let ?pg1 = "?pg\<lparr>off_state := make_id hash ''Off'', recovery_state := (case mg_recoveryMode_name m of
      Some s \<Rightarrow> getStringViewFromFlatBuffer hash (Some s) | None \<Rightarrow> make_id hash ''Recovery'')\<rparr>"
  have "cm' = cm\<lparr>cm_process_group_names := cm_process_group_names cm @ [pg_name ?pg],
      cm_process_groups := cm_process_groups cm @ [parseModeGroups_loop hash (d # ds) ?pg1]\<rparr>"
    using assms d unfolding parseMachineConfigurations_def parseModeGroups_def Let_def by (auto split: if_splits)
  moreover have "shape (parseModeGroups_loop hash (d # ds) ?pg1) = configured_shape hash m"
    unfolding parseModeGroups_loop_shape configured_shape_def d option.case Let_def by simp
  ultimately show ?thesis by simp
qed

lemma loadMachineConfigs_shape:
  assumes "loadMachineConfigs_loop hash cluster ms cm = (True, cm')"
  shows "map shape (cm_process_groups cm') = map shape (cm_process_groups cm) @ map (configured_shape hash) ms \<and>
    cm_process_group_names cm' = cm_process_group_names cm @ map (\<lambda>m. getStringViewFromFlatBuffer hash (mg_identifier m)) ms"
  using assms
proof (induction ms arbitrary: cm)
  case (Cons m ms)
  obtain cm1 where 1: "parseMachineConfigurations hash cluster m cm = (True, cm1)" "loadMachineConfigs_loop hash cluster ms cm1 = (True, cm')"
    using Cons.prems by (auto split: if_splits prod.splits)
  then show ?case using parseMachineConfigurations_shape [OF 1(1)] Cons.IH [OF 1(2)] by simp
qed simp

text \<open>The shapes and the list of names, which only reading the groups changes.\<close>

definition outline :: "ConfigurationManager \<Rightarrow> group_shape list \<times> IdentifierHash list" where
  "outline cm = (map shape (cm_process_groups cm), cm_process_group_names cm)"

lemma assign_outline: "outline (AssignOsProcessInstanceToProcessGroup sid inst cm) = outline cm"
proof -
  have p: "shape (snd (addProcessToGroup inst pg)) = shape pg" for pg
    by (simp add: addProcessToGroup_def shape_def split: option.split)
  have "map pgs_name (xs[k := addIndexToState i (xs ! k)]) = map pgs_name xs" for xs k i
  proof (cases "k < length xs")
    case True
    have "pgs_name (addIndexToState i st) = pgs_name st" for st by (simp add: addIndexToState_def)
    then show ?thesis by (metis True list_update_id map_update nth_map)
  qed (simp add: list_update_beyond)
  then have u: "shape (pg\<lparr>pg_states := (pg_states pg)[k := addIndexToState i (pg_states pg ! k)]\<rparr>) = shape pg" for pg k i
    by (simp add: shape_def)
  have m: "map shape (xs[g := q]) = map shape xs" if "shape q = shape (xs ! g)" "g < length xs" for xs g q
    using that by (metis list_update_id map_update nth_map)
  show ?thesis
  proof (cases "getProcessGroupByID (id_pg_name sid) cm")
    case None
    then show ?thesis by (simp add: AssignOsProcessInstanceToProcessGroup_def)
  next
    case (Some g)
    then have g: "g < length (cm_process_groups cm)" by (simp add: getProcessGroupByID_def find_index_Some)
    show ?thesis
      unfolding AssignOsProcessInstanceToProcessGroup_def Some option.case Let_def case_prod_beta
      using m [OF _ g] by (simp add: outline_def u p split: option.split)
  qed
qed

lemma parseProcess_outline: "parseProcess_loop hash n node cs cm = Some cm' \<Longrightarrow> outline cm' = outline cm"
proof (induction cs arbitrary: cm)
  case (Cons c cs)
  have "outline (fold (\<lambda>n. AssignOsProcessInstanceToProcessGroup (f n) inst) ps cm) = outline cm" for f inst cm and ps :: "ProcessGroupStateDependency list"
    by (induction ps arbitrary: cm) (simp_all add: assign_outline)
  then have g: "outline (parseProcessGroup hash ps inst cm) = outline cm" for ps inst cm by (simp add: parseProcessGroup_def split: option.split)
  let ?cm = "if cm_process_index cm < 0xFFFFFFFF then cm\<lparr>cm_process_index := cm_process_index cm + 1\<rparr> else cm"
  obtain inst where i: "parseProcess_loop hash n node cs (parseProcessGroup hash (sc_processGroupStateDependency c) inst ?cm) = Some cm'"
    using Cons.prems by (auto simp: Let_def split: bind_splits)
  have "outline ?cm = outline cm" by (simp add: outline_def)
  then show ?case using Cons.IH [OF i] g by simp
qed simp

lemma loadProcess_outline: "loadProcessConfigs_loop hash n ps cm = Some (True, cm') \<Longrightarrow> outline cm' = outline cm"
proof (induction ps arbitrary: cm)
  case (Cons p ps)
  obtain cm1 where 1: "parseProcessConfigurations hash n p cm = Some (True, cm1)" "loadProcessConfigs_loop hash n ps cm1 = Some (True, cm')"
    using Cons.prems by (auto split: bind_splits if_splits)
  obtain cs where "parseProcess_loop hash n p cs cm = Some cm1"
    using 1(1) by (auto simp: parseProcessConfigurations_def simp del: parseProcess_loop.simps split: option.splits list.splits)
  then have "outline cm1 = outline cm" by (rule parseProcess_outline)
  then show ?case using Cons.IH [OF 1(2)] by simp
qed simp

lemma configured_outline:
  assumes "cm_initialize hash n env ok (Some (Some root)) (ConfigurationManager_new hash) = Some (True, cm)"
  shows "map shape (cm_process_groups cm) = map (configured_shape hash) (mode_groups root) \<and>
    cm_process_group_names cm = map (\<lambda>m. getStringViewFromFlatBuffer hash (mg_identifier m)) (mode_groups root)"
proof -
  let ?cm = "(ConfigurationManager_new hash)\<lparr>cm_process_index := 0, cm_sw_clusters := [''DefaultSoftwareCluster'']\<rparr>"
  obtain cm0 where cm0: "loadSWClusterConfiguration hash n (Some (Some root)) 0 ?cm = Some (True, cm0)"
    "cm = AssignOsProcessIndexesInDependencyList cm0"
    using assms unfolding cm_initialize_def initialize_one_cluster by (auto simp: Let_def split: if_splits bind_splits)
  then obtain cm1 ps ms where 1: "root_ModeGroup root = Some ms" "loadMachineConfigs_loop hash (make_id hash ''DefaultSoftwareCluster'') ms ?cm = (True, cm1)"
    "loadProcessConfigs_loop hash n ps cm1 = Some (True, cm0)"
    by (auto simp: loadSWClusterConfiguration_def loadMachineConfigs_def loadProcessConfigs_def split: if_splits prod.splits option.splits)
  have "shape (resolved_group pg) = shape pg" for pg by (simp add: shape_def resolved_group_def)
  then have "outline cm = outline cm0" by (simp add: cm0(2) Assign_resolved outline_def)
  moreover have "outline cm0 = outline cm1" by (rule loadProcess_outline [OF 1(3)])
  ultimately have "outline cm = outline cm1" by simp
  moreover have "cm_process_groups ?cm = []" "cm_process_group_names ?cm = []" by (simp_all add: ConfigurationManager_new_def)
  ultimately show ?thesis
    using loadMachineConfigs_shape [OF 1(2)] 1(1) by (simp add: mode_groups_def outline_def)
qed

text \<open>The numbers of the startup configurations that name a state, and that name a state of a group.\<close>

definition state_members :: "(string \<Rightarrow> u64) \<Rightarrow> LMEcuCfg \<Rightarrow> ProcessGroupStateID \<Rightarrow> nat list" where
  "state_members hash root sid =
     filter (\<lambda>k. sid \<in> set (assigned_states hash (snd (startup_configs root ! k)))) [0..<length (startup_configs root)]"

definition group_members :: "(string \<Rightarrow> u64) \<Rightarrow> LMEcuCfg \<Rightarrow> ProcessGroup \<Rightarrow> nat list" where
  "group_members hash root pg =
     filter (\<lambda>k. \<exists>st \<in> set (pg_states pg). \<lparr>id_pg_name = pg_name pg, id_pg_state_name = pgs_name st\<rparr> \<in>
         set (assigned_states hash (snd (startup_configs root ! k)))) [0..<length (startup_configs root)]"

lemma loaded_members:
  assumes "loaded hash n 0 (startup_configs root) as"
  shows "members (in_state pg name) as = state_members hash root \<lparr>id_pg_name = pg_name pg, id_pg_state_name = name\<rparr>"
    "members (in_group pg) as = group_members hash root pg"
  using assms unfolding members_def state_members_def group_members_def
  by (auto intro!: filter_cong simp: in_state_def in_group_def loaded_def)

lemma resolved_processes:
  assumes inv: "cfg_inv as cm0" and grp: "group_ok as pg" and l: "loaded hash n 0 (startup_configs root) as"
    and p: "p \<in> set (pg_processes (resolved_group pg))"
  shows "\<exists>k < length as. process_number p = word_of_nat k \<and> p = (fst (as ! k))\<lparr>dependencies_of := map (resolveDependency pg) (dependencies_of (fst (as ! k)))\<rparr> \<and>
    (\<forall>d \<in> set (dependencies_of (fst (as ! k))). unat (os_process_index (resolveDependency pg d)) < length (pg_processes pg) \<and>
       unat (os_process_index (resolveDependency pg d)) =
         (case find_index (\<lambda>q. process_id q = target_process_id d) (pg_processes pg) of Some i \<Rightarrow> i | None \<Rightarrow> 0))"
proof -
  have procs: "pg_processes pg = map (\<lambda>k. fst (as ! k)) (members (in_group pg) as)" using grp by (simp add: group_ok_def)
  obtain p0 where p0: "p0 \<in> set (pg_processes pg)" "p = resolved pg p0" using p by (auto simp: resolved_group_def)
  then obtain k where k: "k \<in> set (members (in_group pg) as)" "p0 = fst (as ! k)" using procs by auto
  have kl: "k < length as" using members_less [OF k(1)] .
  have num: "process_number p0 = word_of_nat k" using inv kl k(2) by (simp add: cfg_inv_def)
  have len: "length (pg_processes pg) < 2 ^ 31" "pg_processes pg \<noteq> []"
    using procs length_members [of "in_group pg" as] inv p0(1) by (auto simp: cfg_inv_def)
  have "parseStartupConfig hash n (fst (startup_configs root ! k)) (word_of_nat (0 + k)) (snd (startup_configs root ! k)) = Some p0"
    using l kl k(2) unfolding loaded_def by auto
  then have "\<forall>d \<in> set (dependencies_of p0). os_process_index d = 0" by (rule parseStartupConfig_dependencies)
  then show ?thesis
    using kl num p0(2) k(2) resolveDependency_index [OF _ len] by (intro exI [of _ k]) (simp add: resolved_def)
qed

text \<open>A process of a group is an instance whose dependencies have been resolved.\<close>

definition is_instance :: "ProcessGroup \<Rightarrow> OsProcess \<Rightarrow> OsProcess \<Rightarrow> bool" where
  "is_instance pg inst p \<longleftrightarrow>
     process_id p = process_id inst \<and> startup_config p = startup_config inst \<and> pgm_config p = pgm_config inst \<and>
     map (\<lambda>d. (dep_process_state d, target_process_id d, unat (os_process_index d))) (dependencies_of p) =
       map (\<lambda>d. (dep_process_state d, target_process_id d,
                  case find_index (\<lambda>q. process_id q = target_process_id d) (pg_processes pg) of Some i \<Rightarrow> i | None \<Rightarrow> 0)) (dependencies_of inst) \<and>
     (\<forall>d \<in> set (dependencies_of p). unat (os_process_index d) < length (pg_processes pg))"

lemma find_index_map: "find_index P (map f xs) = find_index (\<lambda>x. P (f x)) xs"
  by (induction xs) auto

lemma resolved_lookup:
  "find_index (\<lambda>q. process_id q = t) (pg_processes (resolved_group pg)) = find_index (\<lambda>q. process_id q = t) (pg_processes pg)"
  by (simp add: resolved_group_def find_index_map resolved_def)

lemma resolved_group_simps [simp]:
  "pg_name (resolved_group pg) = pg_name pg" "pg_states (resolved_group pg) = pg_states pg"
  "length (pg_processes (resolved_group pg)) = length (pg_processes pg)"
  "map process_number (pg_processes (resolved_group pg)) = map process_number (pg_processes pg)"
  by (simp_all add: resolved_group_def resolved_def)

lemma resolved_instance:
  assumes "cfg_inv as cm0" "group_ok as pg" "loaded hash n 0 (startup_configs root) as"
    and p: "p \<in> set (pg_processes (resolved_group pg))" "process_number p = word_of_nat k" and k: "k < length as"
  shows "is_instance (resolved_group pg) (fst (as ! k)) p"
proof -
  obtain j where j: "j < length as" "process_number p = word_of_nat j"
      "p = (fst (as ! j))\<lparr>dependencies_of := map (resolveDependency pg) (dependencies_of (fst (as ! j)))\<rparr>"
      "\<forall>d \<in> set (dependencies_of (fst (as ! j))). unat (os_process_index (resolveDependency pg d)) < length (pg_processes pg) \<and>
       unat (os_process_index (resolveDependency pg d)) =
         (case find_index (\<lambda>q. process_id q = target_process_id d) (pg_processes pg) of Some i \<Rightarrow> i | None \<Rightarrow> 0)"
    using resolved_processes [OF assms(1-3) p(1)] by blast
  have "length as < 2 ^ 31" using assms(1) by (simp add: cfg_inv_def)
  then have "j = k" using p(2) j(1,2) k word_of_nat_eq_31 [of j k] by simp
  moreover have "dep_process_state (resolveDependency pg d) = dep_process_state d" "target_process_id (resolveDependency pg d) = target_process_id d" for d
    by (simp_all add: resolveDependency_def split: option.split)
  ultimately show ?thesis using j by (auto simp: is_instance_def resolved_lookup)
qed

lemma group_ok_numbers:
  "group_ok as pg \<Longrightarrow> cfg_inv as cm0 \<Longrightarrow> map process_number (pg_processes pg) = map word_of_nat (members (in_group pg) as)"
  by (auto simp: group_ok_def cfg_inv_def dest: members_less)

lemma getProcessIndexesList_ok:
  assumes "group_ok as (cm_process_groups cm ! g)" "getProcessGroupByID name cm = Some g"
    "getProcessIndexesList \<lparr>id_pg_name = name, id_pg_state_name = state\<rparr> cm = Some indexes"
  shows "(\<forall>i \<in> set indexes. unat i < length (pg_processes (cm_process_groups cm ! g))) \<and>
    map (\<lambda>i. process_number (pg_processes (cm_process_groups cm ! g) ! unat i)) indexes =
      map word_of_nat (members (in_state (cm_process_groups cm ! g) state) as)"
proof -
  let ?pg = "cm_process_groups cm ! g"
  obtain k where k: "find_index (\<lambda>st. pgs_name st = state) (pg_states ?pg) = Some k" "indexes = process_indexes (pg_states ?pg ! k)"
    using assms(2,3) by (auto simp: getProcessIndexesList_def getProcessGroupStateByID_def Let_def)
  then have "k < length (pg_states ?pg)" "pgs_name (pg_states ?pg ! k) = state" "first_in pgs_name (pg_states ?pg) k"
    by (auto simp: find_index_Some first_in_def)
  then have "state_ok as ?pg (pg_states ?pg ! k)" using assms(1) by (auto simp: group_ok_def)
  then show ?thesis using k(2) \<open>pgs_name _ = state\<close> by (simp add: state_ok_def)
qed

lemma group_loaded:
  assumes "cm_initialize hash num_cores env ok (Some (Some root)) (ConfigurationManager_new hash) = Some (True, cm)"
    and "length (startup_configs root) < 2 ^ 31" and "getProcessGroupByID name cm = Some g" and "pg = cm_process_groups cm ! g"
  shows "(\<forall>k < length (startup_configs root). \<exists>inst.
      parseStartupConfig hash num_cores (fst (startup_configs root ! k)) (word_of_nat k) (snd (startup_configs root ! k)) = Some inst \<and>
      (\<forall>p \<in> set (pg_processes pg). process_number p = word_of_nat k \<longrightarrow> is_instance pg inst p)) \<and>
    map process_number (pg_processes pg) = map word_of_nat (group_members hash root pg) \<and>
    (\<forall>state indexes. getProcessIndexesList \<lparr>id_pg_name = name, id_pg_state_name = state\<rparr> cm = Some indexes \<longrightarrow>
       (\<forall>i \<in> set indexes. unat i < length (pg_processes pg)) \<and>
       map (\<lambda>i. process_number (pg_processes pg ! unat i)) indexes =
         map word_of_nat (state_members hash root \<lparr>id_pg_name = name, id_pg_state_name = state\<rparr>))"
proof -
  obtain as cm0 where as: "loaded hash num_cores 0 (startup_configs root) as" "cfg_inv as cm0"
    "cm_process_groups cm = map resolved_group (cm_process_groups cm0)"
    using cm_initialize_inv [OF assms(1,2)] by blast
  have g0: "getProcessGroupByID name cm0 = Some g"
    using assms(3) by (simp add: getProcessGroupByID_def as(3) find_index_map)
  let ?pg = "cm_process_groups cm0 ! g"
  note grp = cfg_inv_group [OF as(2) g0] and lm = loaded_members [OF as(1)]
  have q: "pg = resolved_group ?pg" using grp(3) as(3) assms(4) by simp
  have nums: "map process_number (pg_processes pg) = map word_of_nat (group_members hash root pg)"
    using group_ok_numbers [OF grp(1) as(2)] lm(2) q by (simp add: group_members_def)
  have idx: "(\<forall>i \<in> set indexes. unat i < length (pg_processes pg)) \<and>
       map (\<lambda>i. process_number (pg_processes pg ! unat i)) indexes =
         map word_of_nat (state_members hash root \<lparr>id_pg_name = name, id_pg_state_name = state\<rparr>)"
    if "getProcessIndexesList \<lparr>id_pg_name = name, id_pg_state_name = state\<rparr> cm = Some indexes" for state indexes
  proof -
    have "getProcessIndexesList \<lparr>id_pg_name = name, id_pg_state_name = state\<rparr> cm0 = Some indexes"
      using that g0 assms(3) q assms(4) by (simp add: getProcessIndexesList_def getProcessGroupStateByID_def Let_def)
    note ok = getProcessIndexesList_ok [OF grp(1) g0 this, unfolded lm(1) grp(2)]
    have "process_number (pg_processes pg ! unat i) = process_number (pg_processes ?pg ! unat i)" if "i \<in> set indexes" for i
      using ok that q by (auto simp: resolved_group_def resolved_def)
    then show ?thesis using ok q by (simp cong: map_cong)
  qed
  have "\<exists>inst. parseStartupConfig hash num_cores (fst (startup_configs root ! k)) (word_of_nat k) (snd (startup_configs root ! k)) = Some inst \<and>
      (\<forall>p \<in> set (pg_processes pg). process_number p = word_of_nat k \<longrightarrow> is_instance pg inst p)" if "k < length (startup_configs root)" for k
    using that as(1) resolved_instance [OF as(2) grp(1) as(1)] q unfolding loaded_def by (intro exI [of _ "fst (as ! k)"]) auto
  then show ?thesis using nums idx by blast
qed

lemma state_found:
  assumes "getProcessGroupByID name cm = Some g"
  shows "getProcessIndexesList \<lparr>id_pg_name = name, id_pg_state_name = state\<rparr> cm \<noteq> None \<longleftrightarrow>
    state \<in> set (map pgs_name (pg_states (cm_process_groups cm ! g)))"
  using assms by (auto simp: getProcessIndexesList_def getProcessGroupStateByID_def Let_def)

lemma configured_group_found:
  assumes "cm_initialize hash n env ok (Some (Some root)) (ConfigurationManager_new hash) = Some (True, cm)"
    and "name \<in> set (cm_process_group_names cm)"
  shows "\<exists>g. getProcessGroupByID name cm = Some g \<and> g < length (cm_process_groups cm) \<and> pg_name (cm_process_groups cm ! g) = name"
proof -
  have "map pg_name (cm_process_groups cm) = map fst (map shape (cm_process_groups cm))" by (simp add: shape_def)
  also have "\<dots> = cm_process_group_names cm" using configured_outline [OF assms(1)] by (simp add: configured_shape_def Let_def)
  finally have "name \<in> pg_name ` set (cm_process_groups cm)" using assms(2) by (metis set_map)
  then have "getProcessGroupByID name cm \<noteq> None" by (auto simp: getProcessGroupByID_def)
  then obtain g where "getProcessGroupByID name cm = Some g" by blast
  then show ?thesis by (auto simp: getProcessGroupByID_def find_index_Some)
qed

subsection \<open>Properties\<close>


definition hash_length :: "string \<Rightarrow> u64" where
  "hash_length s = word_of_nat (length s)"

definition example_startup :: "ProcessExecutionDependency list option \<Rightarrow> ProcessStartupConfig" where
  "example_startup deps = \<lparr>sc_enterTimeoutValue = 1000, sc_exitTimeoutValue = 1000, sc_schedulingPriority = None,
     sc_schedulingPolicy = None, sc_executionError = Some ''42'', sc_terminationBehavior = ProcessIsNotSelfTerminating,
     sc_executionDependency = deps,
     sc_processGroupStateDependency = Some [\<lparr>pgd_stateMachine_name = Some ''G'', pgd_stateName = Some ''GS''\<rparr>],
     sc_environmentVariable = None, sc_processArgument = None, sc_memoryUsage = 0\<rparr>"

definition example_node :: "string \<Rightarrow> ProcessExecutionDependency list option \<Rightarrow> ProcessNode" where
  "example_node name deps = \<lparr>pn_identifier = Some name, pn_numberOfRestartAttempts = 0, pn_functionClusterAffiliation = None,
     pn_coremask = None, pn_uid = 0, pn_gid = 0, pn_path = Some ''x'', pn_securityPolicyDetails = None,
     pn_reportingBehavior = ReportsExecutionState, pn_startupConfig = Some [example_startup deps], pn_sgids = None\<rparr>"

definition example_root :: LMEcuCfg where
  "example_root = \<lparr>root_ModeGroup = Some [\<lparr>mg_identifier = Some ''G'', mg_recoveryMode_name = None, mg_modeDeclaration = Some [Some ''GS'', Some ''G/Off'']\<rparr>],
     root_Process = Some [example_node ''abc'' None,
       example_node ''abcd'' (Some [\<lparr>ped_stateName = Some ''Running'', ped_targetProcess_identifier = Some ''abc''\<rparr>])]\<rparr>"

lemma example_ids:
  "make_id hash_length s = \<lparr>hash_id = word_of_nat (length s)\<rparr>"
  "getStringViewFromFlatBuffer hash_length (Some s) = \<lparr>hash_id = word_of_nat (length s)\<rparr>"
  by (simp_all add: make_id_def getStringViewFromFlatBuffer_def IdentifierHash_string_def IdentifierHash_cstr_def hash_length_def)

lemma example_startup_parsed:
  "\<exists>inst. parseStartupConfig hash_length 4 (example_node name deps) number (example_startup deps') = Some inst \<and> process_number inst = number"
proof -
  have "stoi ''42'' = Some 42"
    by (simp add: stoi_def strto_def is_space_def is_digit_def char_code_def)
  then show ?thesis
    by (cases deps') (simp_all add: Let_def parseStartupConfig_def setSchedulingParameters_def kDefaultProcessorAffinityMask_def example_startup_def example_node_def
        parseProcessArguments_def parseProcessEnvironmentVars_def OsalConfig_new_def setResourceLimits_def kArgvArraySize_def kEnvArraySize_def
        kMaxArg_def kMaxEnv_def parseExecutionDependency_def)
qed


end
