(* ===== verification/Control_Client_Channel.thy ===== *)
theory Control_Client_Channel
  imports Configuration_Manager
begin

section \<open>The channel between a state manager and the launch manager\<close>

text \<open>
  Models \<^verbatim>\<open>common/src/internal/controlclientchannel.cpp\<close> and its header: the messages, the shared
  memory of one state manager with a request and a response slot, and the operations of both sides.
  A thread of the state manager sends a request, waits on the semaphore and polls until the request is
  acknowledged; the process group manager polls for requests, answers in the slot of the request,
  acknowledges, and sends responses of its own. \<open>ccc_step\<close> is one step of either side, so that the
  steps interleave. Mapping the shared memory is not modelled.
\<close>

record ControlClientID =
  cc_process_group_index :: u16
  cc_process_index :: u16
  cc_future_id :: u32

datatype ControlClientCode =
  kNotSet | kInvalidRequest
| kSetStateRequest | kSetStateInvalidArguments | kSetStateCancelled | kSetStateFailed | kSetStateSuccess
| kSetStateAlreadyInState | kSetStateTransitionToSameState
| kFailedUnexpectedTerminationOnEnter | kFailedUnexpectedTermination
| kGetInitialMachineStateRequest | kInitialMachineStateNotSet | kInitialMachineStateFailed | kInitialMachineStateSuccess
| kGetExecutionErrorRequest | kExecutionErrorInvalidArguments | kExecutionErrorRequestFailed | kExecutionErrorRequestSuccess
| kValidateProcessGroupState | kValidateProcessGroupStateFailed | kValidateProcessGroupStateSuccess

record ControlClientMessage =
  originating_control_client :: ControlClientID
  request_or_response :: ControlClientCode
  process_group_state :: ProcessGroupStateID
  msg_execution_error_code :: u32

record ControlClientComms =
  comms_empty :: bool
  comms_msg :: ControlClientMessage

record ControlClientChannel =
  ccc_request :: ControlClientComms
  ccc_response :: ControlClientComms
  initial_result_count :: u16
  nudge_LM_Handler :: nat
  ipc_parent :: bool

definition ControlClientID_new :: ControlClientID where
  "ControlClientID_new = \<lparr>cc_process_group_index = 0, cc_process_index = 0, cc_future_id = 0\<rparr>"

definition ccc_initialize :: "ControlClientChannel \<Rightarrow> ControlClientChannel" where
  "ccc_initialize c =
     c\<lparr>ccc_request := (ccc_request c)\<lparr>comms_empty := True\<rparr>, ccc_response := (ccc_response c)\<lparr>comms_empty := True\<rparr>,
       nudge_LM_Handler := 0, initial_result_count := 0\<rparr>"

definition ccc_sendResponse :: "ControlClientMessage \<Rightarrow> ControlClientChannel \<Rightarrow> bool \<times> ControlClientChannel" where
  "ccc_sendResponse msg c =
     (if comms_empty (ccc_response c)
      then (True, c\<lparr>ccc_response := \<lparr>comms_empty = False, comms_msg = msg\<rparr>, nudge_LM_Handler := nudge_LM_Handler c + 1\<rparr>)
      else (False, c))"

definition ccc_getResponse :: "ControlClientChannel \<Rightarrow> ControlClientMessage option \<times> ControlClientChannel" where
  "ccc_getResponse c =
     (if \<not> comms_empty (ccc_response c)
      then (Some (comms_msg (ccc_response c)), c\<lparr>ccc_response := (ccc_response c)\<lparr>comms_empty := True\<rparr>\<rparr>)
      else (None, c))"

definition getRequest :: "ControlClientChannel \<Rightarrow> bool" where
  "getRequest c \<longleftrightarrow> \<not> comms_empty (ccc_request c)"

definition acknowledgeRequest :: "ControlClientChannel \<Rightarrow> ControlClientChannel" where
  "acknowledgeRequest c =
     c\<lparr>nudge_LM_Handler := nudge_LM_Handler c + 1, ccc_request := (ccc_request c)\<lparr>comms_empty := True\<rparr>\<rparr>"

definition nudgeLMHandler :: "ControlClientChannel \<Rightarrow> ControlClientChannel" where
  "nudgeLMHandler c = c\<lparr>nudge_LM_Handler := nudge_LM_Handler c + 1\<rparr>"

definition releaseParentMapping :: "ControlClientChannel \<Rightarrow> ControlClientChannel" where
  "releaseParentMapping c = c\<lparr>ipc_parent := False\<rparr>"

text \<open>The request the launch manager works on is changed in place.\<close>

definition set_request :: "(ControlClientMessage \<Rightarrow> ControlClientMessage) \<Rightarrow> ControlClientChannel \<Rightarrow> ControlClientChannel" where
  "set_request f c = c\<lparr>ccc_request := (ccc_request c)\<lparr>comms_msg := f (comms_msg (ccc_request c))\<rparr>\<rparr>"

abbreviation request :: "ControlClientChannel \<Rightarrow> ControlClientMessage" where
  "request c \<equiv> comms_msg (ccc_request c)"

text \<open>
  \<^verbatim>\<open>sendRequest\<close> step by step: store the message, clear the flag (and nudge the launch manager), wait
  on the semaphore, poll the flag and copy the answer.
\<close>

datatype Sender = Send_store ControlClientMessage | Send_flag | Send_wait | Send_poll | Send_done ControlClientMessage

fun ccc_send :: "Sender \<Rightarrow> ControlClientChannel \<Rightarrow> (Sender \<times> ControlClientChannel) option" where
  "ccc_send (Send_store msg) c = Some (Send_flag, set_request (\<lambda>_. msg) c)"
| "ccc_send Send_flag c = Some (Send_wait, c\<lparr>ccc_request := (ccc_request c)\<lparr>comms_empty := False\<rparr>\<rparr>)"
| "ccc_send Send_wait c = (if nudge_LM_Handler c > 0 then Some (Send_poll, c\<lparr>nudge_LM_Handler := nudge_LM_Handler c - 1\<rparr>) else None)"
| "ccc_send Send_poll c = Some (if comms_empty (ccc_request c) then Send_done (request c) else Send_poll, c)"
| "ccc_send (Send_done msg) c = None"

text \<open>
  What can happen on the channel while a request is on its way: a step of the sender, the launch
  manager answering a request that is there with \<open>f\<close>, the launch manager sending a response, and
  the state manager taking one and waiting on the semaphore for the next.
\<close>

datatype ChannelEvent = Sender_step | Answer "ControlClientMessage \<Rightarrow> ControlClientMessage" | Respond ControlClientMessage | Take | Take_nudge

fun ccc_step :: "ChannelEvent \<Rightarrow> Sender \<times> ControlClientChannel \<Rightarrow> Sender \<times> ControlClientChannel" where
  "ccc_step Sender_step (s, c) = (case ccc_send s c of Some r \<Rightarrow> r | None \<Rightarrow> (s, c))"
| "ccc_step (Answer f) (s, c) = (s, if getRequest c then acknowledgeRequest (set_request f c) else c)"
| "ccc_step (Respond msg) (s, c) = (s, snd (ccc_sendResponse msg c))"
| "ccc_step Take (s, c) = (s, snd (ccc_getResponse c))"
| "ccc_step Take_nudge (s, c) = (s, if nudge_LM_Handler c > 0 then c\<lparr>nudge_LM_Handler := nudge_LM_Handler c - 1\<rparr> else c)"

subsection \<open>A request is answered exactly once\<close>

text \<open>The answers given while the request of the sender was outstanding.\<close>

fun answers :: "ChannelEvent list \<Rightarrow> Sender \<times> ControlClientChannel \<Rightarrow> (ControlClientMessage \<Rightarrow> ControlClientMessage) list" where
  "answers [] s = []"
| "answers (e # es) s = (case e of Answer f \<Rightarrow> if getRequest (snd s) then [f] else [] | _ \<Rightarrow> []) @ answers es (ccc_step e s)"

definition ccc_inv :: "ControlClientMessage \<Rightarrow> (ControlClientMessage \<Rightarrow> ControlClientMessage) list \<Rightarrow> Sender \<times> ControlClientChannel \<Rightarrow> bool" where
  "ccc_inv msg fs s \<longleftrightarrow> (case s of (t, c) \<Rightarrow>
     (case t of
        Send_store m \<Rightarrow> m = msg \<and> fs = [] \<and> comms_empty (ccc_request c)
      | Send_flag \<Rightarrow> fs = [] \<and> comms_empty (ccc_request c) \<and> request c = msg
      | Send_wait \<Rightarrow> (\<not> comms_empty (ccc_request c) \<and> fs = [] \<and> request c = msg) \<or>
                     (comms_empty (ccc_request c) \<and> (\<exists>f. fs = [f] \<and> request c = f msg))
      | Send_poll \<Rightarrow> (\<not> comms_empty (ccc_request c) \<and> fs = [] \<and> request c = msg) \<or>
                     (comms_empty (ccc_request c) \<and> (\<exists>f. fs = [f] \<and> request c = f msg))
      | Send_done r \<Rightarrow> comms_empty (ccc_request c) \<and> (\<exists>f. fs = [f] \<and> r = f msg)))"

lemma ccc_inv_step:
  "ccc_inv msg fs s \<Longrightarrow> ccc_inv msg (fs @ (case e of Answer f \<Rightarrow> if getRequest (snd s) then [f] else [] | _ \<Rightarrow> [])) (ccc_step e s)"
  by (cases s; cases e; cases "fst s")
    (auto simp: ccc_inv_def getRequest_def acknowledgeRequest_def set_request_def ccc_sendResponse_def ccc_getResponse_def split: option.splits)

lemma ccc_inv_run: "ccc_inv msg fs s \<Longrightarrow> ccc_inv msg (fs @ answers es s) (fold ccc_step es s)"
proof (induction es arbitrary: fs s)
  case (Cons e es)
  from Cons.IH [OF ccc_inv_step [OF Cons.prems]] show ?case by simp
qed simp

subsection \<open>Properties\<close>

text \<open>
  (C21) A request on a control client channel is answered exactly once, for every interleaving of the
  sender with answers, responses and their collection: what \<^verbatim>\<open>sendRequest\<close> returns is the answer the
  launch manager gave to this very request, no answer is given before the request is complete, and
  none is given twice.
\<close>

theorem control_request_answered_once:
  assumes "comms_empty (ccc_request c)" "fold ccc_step events (Send_store msg, c) = (Send_done reply, c')"
  shows "\<exists>f. answers events (Send_store msg, c) = [f] \<and> reply = f msg"
proof -
  have "ccc_inv msg [] (Send_store msg, c)" using assms(1) by (simp add: ccc_inv_def)
  from ccc_inv_run [OF this, of events] show ?thesis using assms(2) by (simp add: ccc_inv_def)
qed

definition example_channel :: ControlClientChannel where
  "example_channel =
     (let m = \<lparr>originating_control_client = ControlClientID_new, request_or_response = kNotSet,
               process_group_state = \<lparr>id_pg_name = \<lparr>hash_id = 0\<rparr>, id_pg_state_name = \<lparr>hash_id = 0\<rparr>\<rparr>, msg_execution_error_code = 0\<rparr>
      in \<lparr>ccc_request = \<lparr>comms_empty = True, comms_msg = m\<rparr>, ccc_response = \<lparr>comms_empty = True, comms_msg = m\<rparr>,
          initial_result_count = 0, nudge_LM_Handler = 0, ipc_parent = True\<rparr>)"

theorem control_request_answered_once_witness:
  "\<exists>f reply c'. fold ccc_step [Sender_step, Sender_step, Answer (request_or_response_update (\<lambda>_. kSetStateSuccess)), Sender_step, Sender_step]
      (Send_store (request example_channel), example_channel) = (Send_done reply, c') \<and>
    reply = f (request example_channel) \<and> request_or_response reply = kSetStateSuccess"
proof -
  let ?es = "[Sender_step, Sender_step, Answer (request_or_response_update (\<lambda>_. kSetStateSuccess)), Sender_step, Sender_step]"
  let ?s = "(Send_store (request example_channel), example_channel)"
  obtain reply c' where r: "fold ccc_step ?es ?s = (Send_done reply, c')" "request_or_response reply = kSetStateSuccess"
    by (simp add: example_channel_def Let_def set_request_def getRequest_def acknowledgeRequest_def)
  have "comms_empty (ccc_request example_channel)" by (simp add: example_channel_def Let_def)
  from control_request_answered_once [OF this r(1)] r show ?thesis by blast
qed

end
