(* ===== verification/Process_Graph.thy ===== *)
theory Process_Graph
  imports Control_Client_Channel
begin

section \<open>Process groups as graphs of process nodes\<close>

text \<open>
  Models \<^verbatim>\<open>process_group_manager/graph.{hpp,cpp}\<close> and \<^verbatim>\<open>processinfonode.{hpp,cpp}\<close>. A graph holds the
  nodes of a process group, one for each process, and drives the transition to another state: first
  the processes that are not in the requested state are stopped, then the missing ones are started,
  both in the order of their dependencies, by jobs that worker threads execute.

  Nodes are addressed by their position. \<open>pgm\<close> is the part of the process group manager that the
  graph reaches through its pointer \<^verbatim>\<open>pgm_\<close>: the queue of the worker threads, the configuration, the
  result of the initial transition, the channel to the health monitor, the clock and the semaphore of
  the control client handler.

  Several threads work on a graph: the manager's own thread, the worker threads, and the thread that
  collects exit statuses. The code between two calls that block is one step here; a blocking call and
  every call of the process interface takes a \<open>Call\<close>, the result of the call together with what the
  other threads do to the graph meanwhile. The loop that retries until the job queue accepts a job has
  no result (\<open>None\<close>) while the queue is full. The compare-and-exchange loop of \<^verbatim>\<open>Graph::setState\<close> is
  modelled with the changes of other threads in between. A null pointer that is dereferenced and an
  index beyond the node list have no result.
\<close>

subsection \<open>Types\<close>

datatype GraphState = GS_Success | GS_InTransition | GS_Aborting | GS_Cancelled | GS_UndefinedState

fun gs_code :: "GraphState \<Rightarrow> nat" where
  "gs_code GS_Success = 0"
| "gs_code GS_InTransition = 1"
| "gs_code GS_Aborting = 2"
| "gs_code GS_Cancelled = 3"
| "gs_code GS_UndefinedState = 4"

definition state_results :: "GraphState list list" where
  "state_results =
     [[GS_Success, GS_Success, GS_UndefinedState, GS_UndefinedState, GS_UndefinedState],
      [GS_InTransition, GS_InTransition, GS_Aborting, GS_Cancelled, GS_InTransition],
      [GS_UndefinedState, GS_Aborting, GS_Aborting, GS_Cancelled, GS_UndefinedState],
      [GS_UndefinedState, GS_Cancelled, GS_Cancelled, GS_Cancelled, GS_UndefinedState],
      [GS_UndefinedState, GS_Aborting, GS_UndefinedState, GS_UndefinedState, GS_UndefinedState]]"

fun lps_code :: "LcmProcessState \<Rightarrow> nat" where
  "lps_code LPS_Idle = 0"
| "lps_code LPS_Starting = 1"
| "lps_code LPS_Running = 2"
| "lps_code LPS_Terminating = 3"
| "lps_code LPS_Terminated = 4"

record ProcessInfoNode =
  terminator :: nat
  has_semaphore :: bool
  process_index :: u32
  n_pid :: int
  n_status :: int
  process_state :: LcmProcessState
  dependencies :: u32
  start_dependencies :: u32
  stop_dependencies :: u32
  dependent_on_running :: "nat list"
  dependent_on_terminating :: "nat list"
  in_requested_state :: bool
  is_included :: bool
  is_head_node :: bool
  n_config :: "OsProcess option"
  dependency_list :: "Dependency list option"
  control_client_channel :: "ControlClientChannel option"
  next_state_manager :: "nat option"
  n_sync :: "nat option"
  restart_counter :: u32

record PgmEnv =
  worker_jobs :: "(u32 \<times> nat) list"
  job_capacity :: nat
  configuration_manager :: ConfigurationManager
  pe_hash :: "string \<Rightarrow> u64"
  initial_state_transition_result :: ControlClientCode
  launch_manager_config :: "OsProcess option"
  process_state_notifier :: PsBuffer
  pe_clock :: timespec
  nudges :: nat

record Graph =
  pg_index :: u32
  nodes :: "ProcessInfoNode list"
  nodes_to_execute :: u32
  nodes_in_flight :: int
  starting :: bool
  g_state :: GraphState
  requested_state :: ProcessGroupStateID
  last_state_manager :: ControlClientID
  last_execution_error :: u32
  is_initial_state_transition :: bool
  pending_state :: IdentifierHash
  event :: ControlClientCode
  abort_code :: ControlClientCode
  cancel_message :: ControlClientMessage
  g_off_state :: IdentifierHash
  pgm :: PgmEnv

abbreviation node :: "Graph \<Rightarrow> nat \<Rightarrow> ProcessInfoNode" where
  "node g n \<equiv> nodes g ! n"

definition upd_node :: "nat \<Rightarrow> (ProcessInfoNode \<Rightarrow> ProcessInfoNode) \<Rightarrow> Graph \<Rightarrow> Graph" where
  "upd_node n f g = g\<lparr>nodes := (nodes g)[n := f (node g n)]\<rparr>"

definition upd_pgm :: "(PgmEnv \<Rightarrow> PgmEnv) \<Rightarrow> Graph \<Rightarrow> Graph" where
  "upd_pgm f g = g\<lparr>pgm := f (pgm g)\<rparr>"

fun iterate_opt :: "('i \<Rightarrow> 'a \<Rightarrow> 'a option) \<Rightarrow> 'i list \<Rightarrow> 'a \<Rightarrow> 'a option" where
  "iterate_opt f [] a = Some a"
| "iterate_opt f (i # is) a = do { a \<leftarrow> f i a; iterate_opt f is a }"

subsection \<open>Small operations of the manager and the graph\<close>

definition nudgeControlClientHandler :: "Graph \<Rightarrow> Graph" where
  "nudgeControlClientHandler g = upd_pgm (\<lambda>e. e\<lparr>nudges := nudges e + 1\<rparr>) g"

definition setInitialStateTransitionResult :: "ControlClientCode \<Rightarrow> Graph \<Rightarrow> Graph" where
  "setInitialStateTransitionResult result g =
     nudgeControlClientHandler (upd_pgm (\<lambda>e. e\<lparr>initial_state_transition_result := result\<rparr>) g)"

definition setLaunchManagerConfiguration :: "OsProcess \<Rightarrow> Graph \<Rightarrow> Graph" where
  "setLaunchManagerConfiguration c g =
     upd_pgm (\<lambda>e. if launch_manager_config e = None then e\<lparr>launch_manager_config := Some c\<rparr> else e) g"

text \<open>\<^verbatim>\<open>addJobToQueue\<close>: the jobs waiting in the queue, see \<open>Job_Queue\<close>.\<close>

definition add_job :: "nat \<Rightarrow> Graph \<Rightarrow> (bool \<times> Graph)" where
  "add_job n g =
     (if length (worker_jobs (pgm g)) < job_capacity (pgm g)
      then (True, upd_pgm (\<lambda>e. e\<lparr>worker_jobs := worker_jobs e @ [(pg_index g, n)]\<rparr>) g)
      else (False, g))"

definition markNodeInFlight :: "Graph \<Rightarrow> Graph" where
  "markNodeInFlight g = g\<lparr>nodes_in_flight := nodes_in_flight g + 1\<rparr>"

definition setPendingEvent :: "ControlClientCode \<Rightarrow> Graph \<Rightarrow> Graph" where
  "setPendingEvent ev g = nudgeControlClientHandler (g\<lparr>event := ev\<rparr>)"

definition clearPendingEvent :: "ControlClientCode \<Rightarrow> Graph \<Rightarrow> Graph" where
  "clearPendingEvent expected g = (if event g = expected then g\<lparr>event := kNotSet\<rparr> else g)"

definition setPendingState :: "IdentifierHash \<Rightarrow> Graph \<Rightarrow> IdentifierHash \<times> Graph" where
  "setPendingState new_state g = (pending_state g, g\<lparr>pending_state := new_state\<rparr>)"

definition setStateManager :: "ControlClientID \<Rightarrow> Graph \<Rightarrow> Graph" where
  "setStateManager control_client_id g =
     (let code = event g;
          g = (if code \<noteq> kNotSet
               then clearPendingEvent code (g\<lparr>cancel_message := (cancel_message g)\<lparr>process_group_state := requested_state g,
                      originating_control_client := last_state_manager g, request_or_response := code\<rparr>\<rparr>)
               else g)
      in g\<lparr>last_state_manager := control_client_id\<rparr>)"

definition getProcessInfoNode :: "nat \<Rightarrow> Graph \<Rightarrow> nat option" where
  "getProcessInfoNode n g = (if n < length (nodes g) then Some n else None)"

definition setLastExecutionError :: "u32 \<Rightarrow> Graph \<Rightarrow> Graph" where
  "setLastExecutionError code g = g\<lparr>last_execution_error := code\<rparr>"

subsection \<open>The state of a graph\<close>

text \<open>
  The loop of \<^verbatim>\<open>Graph::setState\<close>: \<open>old\<close> is the value read last, \<open>actual\<close> the value of the atomic
  variable, and before each compare-and-exchange another thread may store the next value of the list.
\<close>

definition result_state :: "GraphState \<Rightarrow> GraphState \<Rightarrow> GraphState" where
  "result_state new_state old_state = state_results ! gs_code new_state ! gs_code old_state"

function setState_loop :: "GraphState \<Rightarrow> GraphState option list \<Rightarrow> GraphState \<Rightarrow> GraphState \<Rightarrow> GraphState \<Rightarrow> GraphState" where
  "setState_loop new_state others old target actual =
     (if old = target then actual
      else (let target = result_state new_state old;
                (actual, others) = (case others of [] \<Rightarrow> (actual, []) | None # os \<Rightarrow> (actual, os) | Some s # os \<Rightarrow> (s, os))
            in if actual = old then target
               else setState_loop new_state others actual target actual))"
  by pat_completeness auto
termination
  by (relation "measure (\<lambda>(new_state, others, old, target, actual). length others + (if old = actual then 0 else 1))")
    (auto split: list.splits option.splits)

declare setState_loop.simps [simp del]

definition g_setState :: "GraphState \<Rightarrow> Graph \<Rightarrow> Graph" where
  "g_setState new_state g = g\<lparr>g_state := setState_loop new_state [] (g_state g) new_state (g_state g)\<rparr>"

definition g_abort :: "u32 \<Rightarrow> ControlClientCode \<Rightarrow> Graph \<Rightarrow> Graph" where
  "g_abort code reason g =
     (if gs_code (g_state g) < gs_code GS_Aborting
      then (g_setState GS_Aborting g)\<lparr>last_execution_error := code, abort_code := reason\<rparr>
      else g)"

definition g_cancel :: "Graph \<Rightarrow> Graph" where
  "g_cancel g =
     (let g = g_setState GS_Cancelled g;
          g = (if g_state g = GS_Cancelled then setPendingEvent kSetStateCancelled g else g)
      in if nodes_in_flight g = 0
         then (let g = (if is_initial_state_transition g
                        then setInitialStateTransitionResult kInitialMachineStateFailed (g\<lparr>is_initial_state_transition := False\<rparr>)
                        else g)
               in g_setState GS_UndefinedState g)
         else g)"

subsection \<open>Building the phases of a transition\<close>

text \<open>A dependency whose process is already in the required state does not count.\<close>

definition drop_satisfied :: "Graph \<Rightarrow> Dependency \<Rightarrow> u32 \<Rightarrow> u32 option" where
  "drop_satisfied g dep k =
     (if unat (os_process_index dep) < length (nodes g)
      then Some (if dep_process_state dep = process_state (node g (unat (os_process_index dep))) then k - 1 else k)
      else None)"

definition constructGraphNode :: "nat \<Rightarrow> bool \<Rightarrow> Graph \<Rightarrow> (bool \<times> Graph) option" where
  "constructGraphNode n is_starting g =
     (let this = node g n
      in if \<not> is_starting
         then (let count = length (filter (\<lambda>d. process_state (node g d) = LPS_Running) (dependent_on_running this));
                   stop = (if count > 0 then word_of_nat count else 0);
                   included = (\<not> (process_state this = LPS_Idle \<or> process_state this = LPS_Terminated) \<and> \<not> in_requested_state this)
               in Some (included, upd_node n (\<lambda>t. t\<lparr>stop_dependencies := stop, dependencies := stop,
                                                    is_included := included, is_head_node := included \<and> stop = 0\<rparr>) g))
         else do {
           deps \<leftarrow> iterate_opt (drop_satisfied g) (case dependency_list this of Some ds \<Rightarrow> ds | None \<Rightarrow> []) (start_dependencies this);
           let included = (in_requested_state this \<and> process_state this \<noteq> LPS_Running);
           Some (included, upd_node n (\<lambda>t. t\<lparr>dependencies := deps, is_included := included, is_head_node := included \<and> deps = 0\<rparr>) g)
         })"

definition countExecutableNodes :: "bool \<Rightarrow> Graph \<Rightarrow> (u32 \<times> Graph) option" where
  "countExecutableNodes start g =
     iterate_opt (\<lambda>n (executable_nodes, g). map_option (\<lambda>(included, g). (if included then executable_nodes + 1 else executable_nodes, g))
                                       (constructGraphNode n start g))
       [0..<length (nodes g)] (0, g)"

text \<open>Retried until the queue accepts the job or the graph leaves the transition.\<close>

definition tryQueueNode :: "nat \<Rightarrow> Graph \<Rightarrow> Graph option" where
  "tryQueueNode n g =
     (if g_state g = GS_InTransition
      then (let (accepted, g) = add_job n g in if accepted then Some (markNodeInFlight g) else None)
      else Some g)"

definition queueHeadNodesForExecution :: "Graph \<Rightarrow> Graph option" where
  "queueHeadNodesForExecution g =
     iterate_opt (\<lambda>n g. if is_head_node (node g n) then tryQueueNode n g else Some g) [0..<length (nodes g)] g"

definition queueHeadNodes :: "bool \<Rightarrow> Graph \<Rightarrow> (bool \<times> Graph) option" where
  "queueHeadNodes start g = do {
     let g = g\<lparr>starting := start\<rparr>;
     (executing_nodes, g) \<leftarrow> countExecutableNodes start g;
     let g = g\<lparr>nodes_to_execute := executing_nodes, nodes_in_flight := 0\<rparr>;
     g \<leftarrow> (if executing_nodes > 0 then queueHeadNodesForExecution g else Some g);
     Some (nodes_in_flight g > 0, g)
   }"

definition queueStartJobs :: "Graph \<Rightarrow> Graph option" where
  "queueStartJobs g = do {
     (queued, g) \<leftarrow> queueHeadNodes True g;
     Some (if \<not> queued then setPendingEvent kSetStateSuccess (g_setState GS_Success g) else g)
   }"

definition markRequested :: "bool \<Rightarrow> nat \<Rightarrow> Graph \<Rightarrow> Graph" where
  "markRequested requested n g = upd_node n (\<lambda>t. t\<lparr>in_requested_state := requested\<rparr>) g"

definition queueStopJobs :: "u32 list \<Rightarrow> Graph \<Rightarrow> Graph option" where
  "queueStopJobs process_index_list g = do {
     let g = fold (markRequested False) [0..<length (nodes g)] g;
     let g = fold (\<lambda>i g. if unat i < length (nodes g) then markRequested True (unat i) g else g) process_index_list g;
     (queued, g) \<leftarrow> queueHeadNodes False g;
     (if \<not> queued then queueStartJobs g else Some g)
   }"

definition startTransition :: "ProcessGroupStateID \<Rightarrow> Graph \<Rightarrow> (bool \<times> Graph) option" where
  "startTransition pg_state g =
     (let old_state_name = id_pg_state_name (requested_state g);
          restore = (\<lambda>g. g\<lparr>requested_state := (requested_state g)\<lparr>id_pg_state_name := old_state_name\<rparr>\<rparr>);
          g = g\<lparr>requested_state := (requested_state g)\<lparr>id_pg_state_name := id_pg_state_name pg_state\<rparr>\<rparr>
      in case getProcessIndexesList (requested_state g) (configuration_manager (pgm g)) of
           Some process_index_list \<Rightarrow>
             (let g = g_setState GS_InTransition g
              in if g_state g = GS_InTransition
                 then map_option (Pair True) (queueStopJobs process_index_list g)
                 else Some (False, restore g))
         | None \<Rightarrow> Some (False, restore g))"

definition g_startInitialTransition :: "ProcessGroupStateID \<Rightarrow> Graph \<Rightarrow> (bool \<times> Graph) option" where
  "g_startInitialTransition pg_state g = do {
     (result, g) \<leftarrow> startTransition pg_state (g\<lparr>is_initial_state_transition := True\<rparr>);
     Some (result, if \<not> result
                   then setInitialStateTransitionResult kInitialMachineStateFailed (g\<lparr>is_initial_state_transition := False\<rparr>)
                   else g)
   }"

definition startTransitionToOffState :: "Graph \<Rightarrow> (bool \<times> Graph) option" where
  "startTransitionToOffState g =
     (let g = g\<lparr>requested_state := (requested_state g)\<lparr>id_pg_state_name := g_off_state g\<rparr>\<rparr>;
          g = g_setState GS_InTransition g
      in if g_state g = GS_InTransition then map_option (Pair True) (queueStopJobs [] g) else Some (False, g))"

definition handleTransitionExecution :: "Graph \<Rightarrow> Graph option" where
  "handleTransitionExecution g =
     (if nodes_to_execute g > 0
      then (let g = g\<lparr>nodes_in_flight := nodes_in_flight g - 1\<rparr>;
                g = g\<lparr>nodes_to_execute := nodes_to_execute g - 1\<rparr>
            in if nodes_to_execute g = 0
               then (if starting g
                     then (let g = (if is_initial_state_transition g
                                    then setInitialStateTransitionResult kInitialMachineStateSuccess (g\<lparr>is_initial_state_transition := False\<rparr>)
                                    else g)
                           in Some (setPendingEvent kSetStateSuccess (g_setState GS_Success g)))
                     else queueStartJobs g)
               else Some g)
      else Some g)"

definition handleNonTransitionExecution :: "GraphState \<Rightarrow> Graph \<Rightarrow> Graph" where
  "handleNonTransitionExecution current_state g =
     (let g = g\<lparr>nodes_in_flight := nodes_in_flight g - 1\<rparr>
      in if nodes_in_flight g \<le> 0
         then (let g = (if is_initial_state_transition g
                        then setInitialStateTransitionResult kInitialMachineStateFailed (g\<lparr>is_initial_state_transition := False\<rparr>)
                        else g);
                   g = g_setState GS_UndefinedState g
               in if current_state = GS_Aborting then setPendingEvent (abort_code g) g else nudgeControlClientHandler g)
         else g)"

definition nodeExecuted :: "Graph \<Rightarrow> Graph option" where
  "nodeExecuted g =
     (if g_state g = GS_InTransition then handleTransitionExecution g
      else Some (handleNonTransitionExecution (g_state g) g))"

subsection \<open>Process nodes\<close>

definition n_setState :: "LcmProcessState \<Rightarrow> nat \<Rightarrow> Graph \<Rightarrow> (bool \<times> Graph) option" where
  "n_setState new_state n g =
     (let old_state = process_state (node g n);
          (success, g) =
            (if new_state = LPS_Terminated \<or> (new_state = LPS_Idle \<and> old_state = LPS_Terminated)
             then (True, upd_node n (\<lambda>t. t\<lparr>process_state := new_state\<rparr>) g)
             else if lps_code new_state \<ge> lps_code old_state
             then (True, upd_node n (\<lambda>t. t\<lparr>process_state := new_state\<rparr>) g)
             else (False, g))
      in if success
         then do {
           c \<leftarrow> n_config (node g n);
           Some (True, if comms_type (startup_config c) \<noteq> kNoComms \<and> new_state \<noteq> LPS_Idle
                       then upd_pgm (\<lambda>e. e\<lparr>process_state_notifier := snd (queuePosixProcess
                              \<lparr>pp_id = process_id c, pp_processStateId = new_state,
                               pp_processGroupStateId = id_pg_state_name (requested_state g),
                               pp_systemClockTimestamp = pe_clock e\<rparr> (process_state_notifier e))\<rparr>) g
                       else g)
         }
         else Some (False, g))"

text \<open>One dependency of a successor is satisfied.\<close>

definition processJob :: "nat \<Rightarrow> Graph \<Rightarrow> Graph option" where
  "processJob successor_node g =
     (if is_included (node g successor_node) \<and> dependencies (node g successor_node) > 0
      then (let g = upd_node successor_node (\<lambda>t. t\<lparr>dependencies := dependencies t - 1\<rparr>) g
            in if dependencies (node g successor_node) = 0 then tryQueueNode successor_node g else Some g)
      else Some g)"

definition queueTerminationSuccessorJobs :: "nat \<Rightarrow> Graph \<Rightarrow> Graph option" where
  "queueTerminationSuccessorJobs n g =
     (if starting g then iterate_opt processJob (dependent_on_terminating (node g n)) g
      else (case dependency_list (node g n) of
              None \<Rightarrow> Some g
            | Some ds \<Rightarrow>
                iterate_opt (\<lambda>dependency g. do {
                    successorNode \<leftarrow> getProcessInfoNode (unat (os_process_index dependency)) g;
                    (if process_state (node g successorNode) \<noteq> LPS_Terminated then processJob successorNode g else Some g)
                  }) ds g))"

definition unexpectedTermination :: "nat \<Rightarrow> Graph \<Rightarrow> Graph option" where
  "unexpectedTermination n g = do {
     c \<leftarrow> n_config (node g n);
     let code = execution_error_code (pgm_config c);
     Some (if g_state g = GS_Success then g_abort code kFailedUnexpectedTermination g
           else if process_state (node g n) = LPS_Starting
           then upd_node n (\<lambda>t. t\<lparr>n_sync := map_option Suc (n_sync t)\<rparr>) g
           else if g_state g = GS_InTransition then g_abort code kFailedUnexpectedTerminationOnEnter g
           else g)
   }"

definition n_terminated :: "nat \<Rightarrow> int \<Rightarrow> Graph \<Rightarrow> Graph option" where
  "n_terminated n process_status g = do {
     c \<leftarrow> n_config (node g n);
     let g = upd_node n (\<lambda>t. t\<lparr>n_status := process_status\<rparr>) g;
     g \<leftarrow> (if \<not> is_self_terminating (pgm_config c) \<or> process_status \<noteq> 0
           then (let g = (if n_status (node g n) = 0 then upd_node n (\<lambda>t. t\<lparr>n_status := - 1\<rparr>) g else g)
                 in if starting g then unexpectedTermination n g else Some g)
           else Some g);
     (_, g) \<leftarrow> n_setState LPS_Terminated n g;
     let g = upd_node n (\<lambda>t. t\<lparr>control_client_channel := None\<rparr>) g;
     g \<leftarrow> (if is_self_terminating (pgm_config c) \<and> dependent_on_terminating (node g n) \<noteq> []
           then queueTerminationSuccessorJobs n g else Some g);
     Some (if has_semaphore (node g n)
           then upd_node n (\<lambda>t. t\<lparr>has_semaphore := False, terminator := terminator t + 1\<rparr>) g
           else g)
   }"

definition checkForEmptyDependencies :: "nat \<Rightarrow> Graph \<Rightarrow> Graph option" where
  "checkForEmptyDependencies successor_node g =
     (let g = upd_node successor_node (\<lambda>t. t\<lparr>dependencies := dependencies t - 1\<rparr>) g
      in if dependencies (node g successor_node) = 0 then tryQueueNode successor_node g else Some g)"

definition processSuccessorNodes :: "nat \<Rightarrow> Graph \<Rightarrow> Graph option" where
  "processSuccessorNodes n g =
     iterate_opt (\<lambda>successor_node g.
         if is_included (node g successor_node) \<and> dependencies (node g successor_node) > 0
         then checkForEmptyDependencies successor_node g else Some g)
       (dependent_on_running (node g n)) g"

subsection \<open>The jobs of the worker threads\<close>

text \<open>
  The result of a call of the process interface or of the process map, and what the other threads do
  before it returns.
\<close>

record Call =
  c_ok :: bool
  c_value :: int
  c_meanwhile :: "Graph \<Rightarrow> Graph option"

type_synonym 'a job = "Call list \<Rightarrow> Graph \<Rightarrow> ('a \<times> Call list \<times> Graph) option"

definition next_call :: "Call job" where
  "next_call calls g =
     (case calls of [] \<Rightarrow> None | c # cs \<Rightarrow> do { g \<leftarrow> c_meanwhile c g; Some (c, cs, g) })"

text \<open>\<^verbatim>\<open>terminator_.timedWait\<close> succeeds when the semaphore has been posted.\<close>

definition terminator_wait :: "nat \<Rightarrow> bool job" where
  "terminator_wait n calls g = do {
     (_, calls, g) \<leftarrow> next_call calls g;
     Some (if terminator (node g n) > 0
           then (True, calls, upd_node n (\<lambda>t. t\<lparr>terminator := terminator t - 1\<rparr>) g)
           else (False, calls, g))
   }"

partial_function (option) handleForcedTermination :: "nat \<Rightarrow> Call list \<Rightarrow> Graph \<Rightarrow> (Call list \<times> Graph) option" where
  "handleForcedTermination n calls g = do {
     (forced, calls, g) \<leftarrow> next_call calls g;
     (if c_ok forced \<and> g_state g = GS_InTransition
      then do {
        (woken, calls, g) \<leftarrow> terminator_wait n calls g;
        (if \<not> woken then handleForcedTermination n calls g else Some (calls, g))
      }
      else Some (calls, g))
   }"

definition handleTerminationProcess :: "nat \<Rightarrow> Call list \<Rightarrow> Graph \<Rightarrow> (Call list \<times> Graph) option" where
  "handleTerminationProcess n calls g = do {
     let g = upd_node n (\<lambda>t. t\<lparr>terminator := 0, has_semaphore := True\<rparr>) g;
     (requested, calls, g) \<leftarrow> next_call calls g;
     (calls, g) \<leftarrow> (if \<not> c_ok requested then Some (calls, g)
                    else do {
                      (woken, calls, g) \<leftarrow> terminator_wait n calls g;
                      (if woken then Some (calls, g) else handleForcedTermination n calls g)
                    });
     Some (calls, upd_node n (\<lambda>t. t\<lparr>has_semaphore := False\<rparr>) g)
   }"

definition terminateProcess :: "nat \<Rightarrow> Call list \<Rightarrow> Graph \<Rightarrow> (Call list \<times> Graph) option" where
  "terminateProcess n calls g = do {
     c \<leftarrow> n_config (node g n);
     (success, g) \<leftarrow> n_setState LPS_Terminating n g;
     (calls, g) \<leftarrow> (if success
                    then (if comms_type (startup_config c) = kLaunchManager
                          then do { (_, g) \<leftarrow> n_setState LPS_Terminated n g; Some (calls, g) }
                          else handleTerminationProcess n calls g)
                    else Some (calls, g));
     g \<leftarrow> (if \<not> starting g \<or> n_status (node g n) = 0 then queueTerminationSuccessorJobs n g else Some g);
     Some (calls, g)
   }"

definition handleProcessRunning :: "u32 \<Rightarrow> nat \<Rightarrow> Graph \<Rightarrow> Graph option" where
  "handleProcessRunning code n g = do {
     c \<leftarrow> n_config (node g n);
     (success, g) \<leftarrow> n_setState LPS_Running n g;
     (if success \<or> (is_self_terminating (pgm_config c) \<and> n_status (node g n) = 0) then processSuccessorNodes n g
      else Some (if restart_counter (node g n) = 0 then g_abort code kSetStateFailed g else g))
   }"

definition handleProcessStillStarting :: "u32 \<Rightarrow> nat \<Rightarrow> Call list \<Rightarrow> Graph \<Rightarrow> (Call list \<times> Graph) option" where
  "handleProcessStillStarting code n calls g =
     (if g_state g = GS_InTransition
      then do {
        c \<leftarrow> n_config (node g n);
        (running, calls, g) \<leftarrow> (if comms_type (startup_config c) = kNoComms then Some (True, calls, g)
                               else do { (r, calls, g) \<leftarrow> next_call calls g; Some (c_ok r, calls, g) });
        (if running \<and> n_status (node g n) = 0
         then do { g \<leftarrow> handleProcessRunning code n g; Some (calls, g) }
         else do {
           let errcode = (if n_status (node g n) \<noteq> 0 then kFailedUnexpectedTerminationOnEnter else kSetStateFailed);
           (calls, g) \<leftarrow> terminateProcess n calls g;
           Some (calls, if restart_counter (node g n) = 0 then g_abort code errcode g else g)
         })
      }
      else Some (calls, g))"

definition handleProcessAlreadyTerminated :: "u32 \<Rightarrow> nat \<Rightarrow> Graph \<Rightarrow> Graph option" where
  "handleProcessAlreadyTerminated code n g = do {
     c \<leftarrow> n_config (node g n);
     (if n_status (node g n) \<noteq> 0 \<or> comms_type (startup_config c) \<noteq> kNoComms
      then Some (if restart_counter (node g n) = 0 then g_abort code kFailedUnexpectedTerminationOnEnter g else g)
      else queueTerminationSuccessorJobs n g)
   }"

text \<open>
  \<open>insertIfNotTerminated\<close> is a call with the results \<open>0\<close>, \<open>1\<close> and \<open>-1\<close>; when the process has
  already exited it calls \<^verbatim>\<open>terminated\<close> on this node, which is what happens meanwhile
  (see \<open>Safe_Process_Map\<close>).
\<close>

definition handleProcessStarted :: "u32 \<Rightarrow> nat \<Rightarrow> Call list \<Rightarrow> Graph \<Rightarrow> (Call list \<times> Graph) option" where
  "handleProcessStarted code n calls g = do {
     (inserted, calls, g) \<leftarrow> next_call calls g;
     (if c_value inserted = 0 then handleProcessStillStarting code n calls g
      else if c_value inserted = 1 then do { g \<leftarrow> handleProcessAlreadyTerminated code n g; Some (calls, g) }
      else do {
        (calls, g) \<leftarrow> terminateProcess n calls (upd_node n (\<lambda>t. t\<lparr>restart_counter := 0\<rparr>) g);
        Some (calls, g_abort code kSetStateFailed g)
      })
   }"

text \<open>The channel of a started state manager is in the shared memory that \<open>startProcess\<close> has set up.\<close>

definition setupControlClientChannel :: "ControlClientChannel option \<Rightarrow> nat \<Rightarrow> Graph \<Rightarrow> Graph" where
  "setupControlClientChannel channel n g =
     (let g = upd_node n (\<lambda>t. t\<lparr>control_client_channel := channel\<rparr>) g
      in if channel \<noteq> None \<and> n \<noteq> 0
         then upd_node 0 (\<lambda>t. t\<lparr>next_state_manager := Some n\<rparr>)
                (upd_node n (\<lambda>t. t\<lparr>next_state_manager := next_state_manager (node g 0)\<rparr>) g)
         else g)"

text \<open>One attempt of the restart loop; the boolean says that the function returns from within the loop.\<close>

definition start_attempt :: "ControlClientChannel option \<Rightarrow> int \<Rightarrow> nat \<Rightarrow> Call list \<Rightarrow> Graph \<Rightarrow> (bool \<times> Call list \<times> Graph) option" where
  "start_attempt channel own_pid n calls g = do {
     c \<leftarrow> n_config (node g n);
     let code = execution_error_code (pgm_config c);
     let g = upd_node n (\<lambda>t. t\<lparr>n_status := 0\<rparr>) g;
     (idle, g) \<leftarrow> n_setState LPS_Idle n g;
     (if idle
      then do {
        let g = upd_node n (\<lambda>t. t\<lparr>n_pid := 0, n_status := 0\<rparr>) g;
        (_, g) \<leftarrow> n_setState LPS_Starting n g;
        (if comms_type (startup_config c) = kLaunchManager
         then do {
           (_, g) \<leftarrow> n_setState LPS_Running n (upd_node n (\<lambda>t. t\<lparr>n_pid := own_pid\<rparr>) g);
           g \<leftarrow> processSuccessorNodes n g;
           Some (True, calls, g)
         }
         else do {
           (launched, calls, g) \<leftarrow> next_call calls g;
           (calls, g) \<leftarrow>
             (if c_ok launched
              then (let g = upd_node n (\<lambda>t. t\<lparr>n_pid := c_value launched, n_sync := (if comms_type (startup_config c) = kNoComms then None else Some 0)\<rparr>) g;
                        g = (if comms_type (startup_config c) = kControlClient then setupControlClientChannel channel n g else g)
                    in handleProcessStarted code n calls g)
              else do {
                (_, g) \<leftarrow> n_setState LPS_Terminated n g;
                Some (calls, g_abort code kSetStateFailed g)
              });
           Some (False, calls, upd_node n (\<lambda>t. t\<lparr>n_sync := None\<rparr>) g)
         })
      }
      else Some (False, calls, upd_node n (\<lambda>t. t\<lparr>n_sync := None\<rparr>) g))
   }"

partial_function (option) startProcess_loop ::
  "ControlClientChannel option \<Rightarrow> int \<Rightarrow> nat \<Rightarrow> Call list \<Rightarrow> Graph \<Rightarrow> (Call list \<times> Graph) option"
where
  "startProcess_loop channel own_pid n calls g = do {
     (returned, calls, g) \<leftarrow> start_attempt channel own_pid n calls g;
     (if returned then Some (calls, g)
      else if n_status (node g n) \<noteq> 0
      then (let attempts = restart_counter (node g n); g = upd_node n (\<lambda>t. t\<lparr>restart_counter := attempts - 1\<rparr>) g
            in if attempts \<noteq> 0 then startProcess_loop channel own_pid n calls g else Some (calls, g))
      else Some (calls, g))
   }"

definition n_startProcess :: "ControlClientChannel option \<Rightarrow> int \<Rightarrow> nat \<Rightarrow> Call list \<Rightarrow> Graph \<Rightarrow> (Call list \<times> Graph) option" where
  "n_startProcess channel own_pid n calls g = do {
     c \<leftarrow> n_config (node g n);
     startProcess_loop channel own_pid n calls (upd_node n (\<lambda>t. t\<lparr>restart_counter := number_of_restart_attempts (pgm_config c)\<rparr>) g)
   }"

definition doWork :: "ControlClientChannel option \<Rightarrow> int \<Rightarrow> nat \<Rightarrow> Call list \<Rightarrow> Graph \<Rightarrow> (Call list \<times> Graph) option" where
  "doWork channel own_pid n calls g = do {
     (calls, g) \<leftarrow> (if g_state g = GS_InTransition
                    then (if starting g then n_startProcess channel own_pid n calls g else terminateProcess n calls g)
                    else Some (calls, g));
     g \<leftarrow> nodeExecuted g;
     Some (calls, g)
   }"

text \<open>Dead state managers are taken out of the chain on the way.\<close>

partial_function (option) getNextStateManager :: "nat \<Rightarrow> Graph \<Rightarrow> (nat option \<times> Graph) option" where
  "getNextStateManager n g =
     (case next_state_manager (node g n) of
        None \<Rightarrow> Some (None, g)
      | Some m \<Rightarrow>
          if control_client_channel (node g m) = None
          then getNextStateManager n (upd_node n (\<lambda>t. t\<lparr>next_state_manager := next_state_manager (node g m)\<rparr>) g)
          else Some (Some m, g))"

subsection \<open>Construction\<close>

definition ProcessInfoNode_new :: ProcessInfoNode where
  "ProcessInfoNode_new = \<lparr>terminator = 0, has_semaphore = False, process_index = 0, n_pid = 0, n_status = 0, process_state = LPS_Idle,
     dependencies = 0, start_dependencies = 0, stop_dependencies = 0, dependent_on_running = [], dependent_on_terminating = [],
     in_requested_state = False, is_included = False, is_head_node = False, n_config = None, dependency_list = None,
     control_client_channel = None, next_state_manager = None, n_sync = None, restart_counter = 0\<rparr>"

definition Graph_new :: "(string \<Rightarrow> u64) \<Rightarrow> PgmEnv \<Rightarrow> Graph" where
  "Graph_new hash env =
     (let empty_id = make_id hash ''''; no_state = \<lparr>id_pg_name = empty_id, id_pg_state_name = empty_id\<rparr>
      in \<lparr>pg_index = 0, nodes = [], nodes_to_execute = 0, nodes_in_flight = 0, starting = False, g_state = GS_Success,
          requested_state = no_state, last_state_manager = \<lparr>cc_process_group_index = 0xFFFF, cc_process_index = 0xFFFF, cc_future_id = 0\<rparr>,
          last_execution_error = 0, is_initial_state_transition = False, pending_state = empty_id, event = kNotSet, abort_code = kNotSet,
          cancel_message = \<lparr>originating_control_client = ControlClientID_new, request_or_response = kNotSet,
                            process_group_state = no_state, msg_execution_error_code = 0\<rparr>,
          g_off_state = empty_id, pgm = env\<rparr>)"

definition initNode :: "nat \<Rightarrow> Graph \<Rightarrow> Graph" where
  "initNode n g =
     (let group = id_pg_name (requested_state g); cm = configuration_manager (pgm g); index = word_of_nat n;
          config = getOsProcessConfiguration group index cm;
          g = upd_node n (\<lambda>t. t\<lparr>process_index := index, n_pid := 0, n_status := 0, process_state := LPS_Idle, dependencies := 0,
                dependency_list := None, dependent_on_running := [], dependent_on_terminating := [], start_dependencies := 0,
                n_config := config\<rparr>) g
      in case config of
           None \<Rightarrow> g
         | Some c \<Rightarrow>
             (let g = (if comms_type (startup_config c) = kLaunchManager then setLaunchManagerConfiguration c g else g)
              in case getOsProcessDependencies group index cm of
                   None \<Rightarrow> g
                 | Some ds \<Rightarrow> upd_node n (\<lambda>t. t\<lparr>dependency_list := Some ds, start_dependencies := word_of_nat (length ds)\<rparr>) g))"

definition createProcessInfoNodes :: "nat \<Rightarrow> Graph \<Rightarrow> Graph" where
  "createProcessInfoNodes num_processes g =
     fold (\<lambda>n g. initNode n (g\<lparr>nodes := nodes g @ [ProcessInfoNode_new]\<rparr>)) [0..<num_processes] g"

definition addSuccessorNode :: "nat \<Rightarrow> LcmProcessState \<Rightarrow> ProcessInfoNode \<Rightarrow> ProcessInfoNode" where
  "addSuccessorNode successor_node dependency t =
     (if dependency = LPS_Terminated then t\<lparr>dependent_on_terminating := dependent_on_terminating t @ [successor_node]\<rparr>
      else if dependency = LPS_Running then t\<lparr>dependent_on_running := dependent_on_running t @ [successor_node]\<rparr>
      else t)"

definition createSuccessorLists :: "IdentifierHash \<Rightarrow> Graph \<Rightarrow> Graph" where
  "createSuccessorLists name g =
     fold (\<lambda>n g.
         case getOsProcessDependencies name (process_index (node g n)) (configuration_manager (pgm g)) of
           None \<Rightarrow> g
         | Some ds \<Rightarrow>
             fold (\<lambda>dep g. if unat (os_process_index dep) < length (nodes g)
                            then upd_node (unat (os_process_index dep)) (addSuccessorNode n (dep_process_state dep)) g else g) ds g)
       [0..<length (nodes g)] g"

definition initProcessGroupNodes :: "IdentifierHash \<Rightarrow> u32 \<Rightarrow> u32 \<Rightarrow> Graph \<Rightarrow> Graph" where
  "initProcessGroupNodes name num_processes index g =
     (let off = getNameOfOffState (pe_hash (pgm g)) name (configuration_manager (pgm g));
          g = g\<lparr>pg_index := index, g_off_state := off, requested_state := \<lparr>id_pg_name = name, id_pg_state_name = off\<rparr>\<rparr>;
          g = createProcessInfoNodes (unat num_processes) g
      in if length (nodes g) = unat num_processes then createSuccessorLists name g else g)"

end
