(* ===== verification/Transition_Countdown.thy ===== *)
theory Transition_Countdown
  imports Process_Graph
begin

section \<open>The countdown of dependencies in a transition\<close>

text \<open>
  The library behind the theorem on transitions (\<open>Transition_Order\<close>). Both phases of a transition are runs
  of the same countdown: every node that takes part waits for a number of other nodes and is queued when
  the number reaches zero. The predicate \<open>countdown\<close> relates the counters, the queue and the set of nodes
  whose turn has not come; \<open>processJob_countdown\<close> shows that satisfying one dependency keeps it,
  \<open>queueHeadNodes_spec\<close> that the set-up of a phase establishes it, and \<open>start_job\<close> and \<open>stop_job\<close> reduce
  the job of a cooperating process to the update of its state followed by the countdown of its successors.
\<close>

subsection \<open>Frames\<close>

lemma upd_node_simps [simp]:
  "length (nodes (upd_node n f g)) = length (nodes g)"
  "g_state (upd_node n f g) = g_state g" "starting (upd_node n f g) = starting g" "pgm (upd_node n f g) = pgm g"
  "pg_index (upd_node n f g) = pg_index g" "nodes_in_flight (upd_node n f g) = nodes_in_flight g"
  "nodes_to_execute (upd_node n f g) = nodes_to_execute g" "requested_state (upd_node n f g) = requested_state g"
  "is_initial_state_transition (upd_node n f g) = is_initial_state_transition g" "event (upd_node n f g) = event g"
  by (simp_all add: upd_node_def)

lemma node_upd_node: "node (upd_node n f g) m = (if m = n \<and> n < length (nodes g) then f (node g n) else node g m)"
  by (cases "n < length (nodes g)") (auto simp: upd_node_def nth_list_update list_update_beyond)

lemma node_upd_same [simp]: "n < length (nodes g) \<Longrightarrow> node (upd_node n f g) n = f (node g n)"
  by (simp add: node_upd_node)

lemma node_upd_other [simp]: "m \<noteq> n \<Longrightarrow> node (upd_node n f g) m = node g m"
  by (simp add: node_upd_node)

lemma upd_pgm_simps [simp]:
  "nodes (upd_pgm f g) = nodes g" "g_state (upd_pgm f g) = g_state g" "starting (upd_pgm f g) = starting g"
  "pgm (upd_pgm f g) = f (pgm g)" "pg_index (upd_pgm f g) = pg_index g" "nodes_in_flight (upd_pgm f g) = nodes_in_flight g"
  "nodes_to_execute (upd_pgm f g) = nodes_to_execute g" "requested_state (upd_pgm f g) = requested_state g"
  "is_initial_state_transition (upd_pgm f g) = is_initial_state_transition g" "event (upd_pgm f g) = event g"
  by (simp_all add: upd_pgm_def)

lemma result_state_simps [simp]:
  "result_state s s = s"
  "result_state GS_InTransition GS_Success = GS_InTransition" "result_state GS_InTransition GS_UndefinedState = GS_InTransition"
  "result_state GS_Success GS_InTransition = GS_Success"
  by (cases s) (simp_all add: result_state_def state_results_def numeral_eq_Suc)

lemma g_setState_eq: "g_setState new_state g = g\<lparr>g_state := result_state new_state (g_state g)\<rparr>"
  by (simp add: g_setState_def setState_loop.simps [of new_state "[]"])

lemma g_setState_simps [simp]:
  "g_state (g_setState s g) = result_state s (g_state g)" "nodes (g_setState s g) = nodes g" "starting (g_setState s g) = starting g"
  "pgm (g_setState s g) = pgm g" "pg_index (g_setState s g) = pg_index g" "nodes_in_flight (g_setState s g) = nodes_in_flight g"
  "nodes_to_execute (g_setState s g) = nodes_to_execute g" "requested_state (g_setState s g) = requested_state g"
  "is_initial_state_transition (g_setState s g) = is_initial_state_transition g" "event (g_setState s g) = event g"
  by (simp_all add: g_setState_eq)

subsection \<open>Well-formed graphs\<close>

definition deps_of :: "Graph \<Rightarrow> nat \<Rightarrow> nat list" where
  "deps_of g n = (case dependency_list (node g n) of Some ds \<Rightarrow> map (\<lambda>d. unat (os_process_index d)) ds | None \<Rightarrow> [])"

text \<open>All dependencies are on running processes, and the successor lists are the reverse of the dependencies.\<close>

definition node_wf :: "Graph \<Rightarrow> nat \<Rightarrow> bool" where
  "node_wf g n \<longleftrightarrow> n_config (node g n) \<noteq> None \<and>
     (\<exists>ds. dependency_list (node g n) = Some ds \<and> start_dependencies (node g n) = word_of_nat (length ds) \<and> length ds < 2 ^ 32 \<and>
        (\<forall>d \<in> set ds. dep_process_state d = LPS_Running \<and> unat (os_process_index d) < length (nodes g))) \<and>
     dependent_on_terminating (node g n) = [] \<and> length (dependent_on_running (node g n)) < 2 ^ 32 \<and>
     set (dependent_on_running (node g n)) \<subseteq> {..<length (nodes g)} \<and>
     (\<forall>m < length (nodes g). count_list (dependent_on_running (node g n)) m = count_list (deps_of g m) n)"

definition graph_wf :: "Graph \<Rightarrow> bool" where
  "graph_wf g \<longleftrightarrow> length (nodes g) < 2 ^ 32 \<and> (\<forall>n < length (nodes g). node_wf g n)"

text \<open>The fields of a node that a transition does not touch.\<close>

definition static :: "ProcessInfoNode \<Rightarrow> OsProcess option \<times> Dependency list option \<times> u32 \<times> nat list \<times> nat list" where
  "static t = (n_config t, dependency_list t, start_dependencies t, dependent_on_running t, dependent_on_terminating t)"

definition same_static :: "Graph \<Rightarrow> Graph \<Rightarrow> bool" where
  "same_static g g' \<longleftrightarrow> map static (nodes g') = map static (nodes g)"

lemma same_static_refl [simp]: "same_static g g"
  by (simp add: same_static_def)

lemma same_static_trans: "same_static a b \<Longrightarrow> same_static b c \<Longrightarrow> same_static a c"
  by (simp add: same_static_def)

lemma same_static_node:
  assumes "same_static g g'"
  shows "length (nodes g') = length (nodes g)" "n < length (nodes g) \<Longrightarrow> static (node g' n) = static (node g n)"
proof -
  show l: "length (nodes g') = length (nodes g)" using assms by (metis length_map same_static_def)
  assume n: "n < length (nodes g)"
  have "map static (nodes g') ! n = map static (nodes g) ! n" using assms by (simp add: same_static_def)
  then show "static (node g' n) = static (node g n)" using n l by simp
qed

lemma same_static_fields:
  assumes "same_static g g'" "n < length (nodes g)"
  shows "n_config (node g' n) = n_config (node g n)" "dependency_list (node g' n) = dependency_list (node g n)"
    "start_dependencies (node g' n) = start_dependencies (node g n)" "dependent_on_running (node g' n) = dependent_on_running (node g n)"
    "dependent_on_terminating (node g' n) = dependent_on_terminating (node g n)" "deps_of g' n = deps_of g n"
  using same_static_node(2) [OF assms] by (simp_all add: static_def deps_of_def)

lemma same_static_wf: "same_static g g' \<Longrightarrow> graph_wf g \<Longrightarrow> graph_wf g'"
  by (simp add: graph_wf_def node_wf_def same_static_node(1) same_static_fields)

lemma same_static_upd:
  "(\<And>t. static (f t) = static t) \<Longrightarrow> same_static g (upd_node n f g)"
  by (cases "n < length (nodes g)") (simp_all add: same_static_def upd_node_def map_update list_update_same_conv list_update_beyond)

lemma same_static_pgm [simp]: "same_static g (upd_pgm f g')  \<longleftrightarrow> same_static g g'"
  by (simp add: same_static_def)

subsection \<open>The countdown of dependencies\<close>

text \<open>The jobs of this graph in the queue, and that the queue has room for all nodes of the graph.\<close>

definition jobs :: "Graph \<Rightarrow> nat list" where
  "jobs g = map snd (filter (\<lambda>j. fst j = pg_index g) (worker_jobs (pgm g)))"

definition other_jobs :: "Graph \<Rightarrow> (u32 \<times> nat) list" where
  "other_jobs g = filter (\<lambda>j. fst j \<noteq> pg_index g) (worker_jobs (pgm g))"

definition room :: "Graph \<Rightarrow> bool" where
  "room g \<longleftrightarrow> length (other_jobs g) + length (nodes g) \<le> job_capacity (pgm g)"

text \<open>
  \<open>left\<close> are the nodes whose turn has not come, \<open>W n\<close> is the number of dependencies \<open>n\<close> waits for.
\<close>

definition countdown :: "nat set \<Rightarrow> (nat \<Rightarrow> nat) \<Rightarrow> Graph \<Rightarrow> bool" where
  "countdown left W g \<longleftrightarrow> g_state g = GS_InTransition \<and> room g \<and>
     left \<subseteq> {n. n < length (nodes g) \<and> is_included (node g n)} \<and> distinct (jobs g) \<and> set (jobs g) = {n \<in> left. W n = 0} \<and>
     (\<forall>n < length (nodes g). is_included (node g n) \<longrightarrow> dependencies (node g n) = (if n \<in> left then word_of_nat (W n) else 0)) \<and>
     (\<forall>n. W n < 2 ^ 32)"

definition counted :: "Graph \<Rightarrow> Graph \<Rightarrow> bool" where
  "counted g g' \<longleftrightarrow> (\<exists>ns f js. g' = g\<lparr>nodes := ns, nodes_in_flight := f, pgm := (pgm g)\<lparr>worker_jobs := js\<rparr>\<rparr>) \<and>
     length (nodes g') = length (nodes g) \<and> (\<forall>n < length (nodes g). node g' n = (node g n)\<lparr>dependencies := dependencies (node g' n)\<rparr>) \<and>
     nodes_in_flight g' - int (length (jobs g')) = nodes_in_flight g - int (length (jobs g)) \<and> other_jobs g' = other_jobs g"

lemma counted_refl: "counted g g"
  unfolding counted_def by (intro conjI exI [of _ "nodes g"] exI [of _ "nodes_in_flight g"] exI [of _ "worker_jobs (pgm g)"]) simp_all

lemma counted_trans: "counted a b \<Longrightarrow> counted b c \<Longrightarrow> counted a c"
  unfolding counted_def
  by (elim conjE exE, intro conjI, rule exI, rule exI, rule exI) (simp_all, metis ProcessInfoNode.fold_congs(7) ProcessInfoNode.surjective ProcessInfoNode.update_convs(7))

lemma length_worker_jobs: "length (worker_jobs (pgm g)) = length (jobs g) + length (other_jobs g)"
  using sum_length_filter_compl [of "\<lambda>j. fst j = pg_index g" "worker_jobs (pgm g)"] by (simp add: jobs_def other_jobs_def)

lemma countdown_jobs_bound:
  assumes "countdown left W g" "n < length (nodes g)" "n \<notin> set (jobs g)"
  shows "length (worker_jobs (pgm g)) < job_capacity (pgm g)"
proof -
  have "set (jobs g) \<subseteq> {..<length (nodes g)} - {n}" using assms by (auto simp: countdown_def)
  then have "card (set (jobs g)) \<le> length (nodes g) - 1"
    using card_mono [of "{..<length (nodes g)} - {n}"] assms(2) by fastforce
  then have "length (jobs g) < length (nodes g)" using distinct_card [of "jobs g"] assms(1,2) by (simp add: countdown_def)
  then show ?thesis using assms(1) by (simp add: countdown_def room_def length_worker_jobs)
qed

lemma processJob_countdown:
  assumes c: "countdown left W g" and s: "s < length (nodes g)" "s \<in> left \<Longrightarrow> 0 < W s"
  shows "\<exists>g'. processJob s g = Some g' \<and> countdown left (W(s := W s - 1)) g' \<and> counted g g'"
proof (cases "s \<in> left")
  case False
  then have "processJob s g = Some g" using c s(1) by (auto simp: processJob_def countdown_def)
  moreover have "countdown left (W(s := W s - 1)) g"
    using c False unfolding countdown_def by (auto intro: le_less_trans [OF diff_le_self])
  ultimately show ?thesis using counted_refl by blast
next
  case True
  then have inc: "is_included (node g s)" "dependencies (node g s) = word_of_nat (W s)" "0 < W s" "W s < 2 ^ 32"
    using c s by (auto simp: countdown_def)
  have dpos: "dependencies (node g s) > 0" using inc unat_u32 [of "W s"] by (auto simp: word_less_nat_alt)
  have d1: "dependencies (node g s) - 1 = word_of_nat (W s - 1)" using inc(2,3) by (simp add: of_nat_diff)
  let ?g = "upd_node s (\<lambda>t. t\<lparr>dependencies := dependencies t - 1\<rparr>) g"
  have jobs: "jobs ?g = jobs g" "other_jobs ?g = other_jobs g" by (simp_all add: jobs_def other_jobs_def)
  have cnt: "counted g ?g"
    unfolding counted_def jobs
    by (intro conjI exI [of _ "nodes ?g"] exI [of _ "nodes_in_flight g"] exI [of _ "worker_jobs (pgm g)"])
      (auto simp: node_upd_node, simp add: upd_node_def)
  show ?thesis
  proof (cases "W s = 1")
    case False
    then have "unat (dependencies (node ?g s)) = W s - 1" "W s - 1 \<noteq> 0"
      using d1 inc(3,4) s(1) unat_u32 [of "W s - 1"] by simp_all
    then have "dependencies (node ?g s) \<noteq> 0" by (metis unsigned_0)
    then have "processJob s g = Some ?g" using inc(1) dpos by (simp add: processJob_def)
    moreover have "countdown left (W(s := W s - 1)) ?g"
      using c d1 s(1) True False inc(3) unfolding countdown_def room_def jobs
      by (auto simp: node_upd_node intro: le_less_trans [OF diff_le_self])
    ultimately show ?thesis using cnt by blast
  next
    case W1: True
    then have d0: "dependencies (node ?g s) = 0" using d1 s(1) by simp
    have notin: "s \<notin> set (jobs g)" using c W1 by (simp add: countdown_def)
    let ?h = "markNodeInFlight (upd_pgm (\<lambda>e. e\<lparr>worker_jobs := worker_jobs e @ [(pg_index g, s)]\<rparr>) ?g)"
    have "processJob s g = Some ?h"
      using inc(1) dpos d0 c countdown_jobs_bound [OF c s(1) notin]
      by (simp add: processJob_def tryQueueNode_def add_job_def countdown_def)
    moreover have hj: "jobs ?h = jobs g @ [s]" "other_jobs ?h = other_jobs g"
      by (simp_all add: jobs_def other_jobs_def markNodeInFlight_def)
    moreover have "countdown left (W(s := W s - 1)) ?h"
      using c d0 s(1) True W1 inc(3) notin unfolding countdown_def room_def hj
      by (auto simp: node_upd_node markNodeInFlight_def intro: le_less_trans [OF diff_le_self])
    moreover have "counted g ?h"
      unfolding counted_def hj
      by (intro conjI exI [of _ "nodes ?h"] exI [of _ "nodes_in_flight ?h"] exI [of _ "worker_jobs (pgm ?h)"])
        (auto simp: node_upd_node markNodeInFlight_def, simp add: upd_node_def upd_pgm_def)
    ultimately show ?thesis by blast
  qed
qed

lemma processJobs_countdown:
  assumes "countdown left W g" "\<forall>s \<in> set ss. s < length (nodes g)" "\<forall>n \<in> left. count_list ss n \<le> W n"
  shows "\<exists>g'. iterate_opt processJob ss g = Some g' \<and> countdown left (\<lambda>n. W n - count_list ss n) g' \<and> counted g g'"
  using assms
proof (induction ss arbitrary: g W)
  case Nil
  then show ?case using counted_refl by auto
next
  case (Cons s ss)
  have "s \<in> left \<Longrightarrow> 0 < W s" using Cons.prems(3) by (metis count_list.simps(2) less_le_trans zero_less_Suc less_eq_Suc_le Suc_eq_plus1 le_add2 add.commute)
  then obtain g1 where g1: "processJob s g = Some g1" "countdown left (W(s := W s - 1)) g1" "counted g g1"
    using processJob_countdown [OF Cons.prems(1)] Cons.prems(2) by auto
  have len: "length (nodes g1) = length (nodes g)" using g1(3) by (simp add: counted_def)
  have "\<forall>n \<in> left. count_list ss n \<le> (W(s := W s - 1)) n" using Cons.prems(3) by (auto split: if_splits)
  then obtain g2 where g2: "iterate_opt processJob ss g1 = Some g2"
    "countdown left (\<lambda>n. (W(s := W s - 1)) n - count_list ss n) g2" "counted g1 g2"
    using Cons.IH [OF g1(2)] Cons.prems(2) len by auto
  have "(\<lambda>n. (W(s := W s - 1)) n - count_list ss n) = (\<lambda>n. W n - count_list (s # ss) n)" by auto
  then show ?case using g1 g2 counted_trans by auto
qed

subsection \<open>Setting up a phase\<close>

text \<open>What the set-up of a phase reads of the nodes, which nodes take part and what they wait for.\<close>

definition view :: "Graph \<Rightarrow> (LcmProcessState \<times> bool \<times> OsProcess option \<times> Dependency list option \<times> u32 \<times> nat list \<times> nat list) list" where
  "view g = map (\<lambda>t. (process_state t, in_requested_state t, static t)) (nodes g)"

definition included :: "bool \<Rightarrow> Graph \<Rightarrow> nat \<Rightarrow> bool" where
  "included start g n \<longleftrightarrow>
     (if start then in_requested_state (node g n) \<and> process_state (node g n) \<noteq> LPS_Running
      else process_state (node g n) \<noteq> LPS_Idle \<and> process_state (node g n) \<noteq> LPS_Terminated \<and> \<not> in_requested_state (node g n))"

definition waits_for :: "bool \<Rightarrow> Graph \<Rightarrow> nat \<Rightarrow> nat" where
  "waits_for start g n =
     (if n < length (nodes g)
      then (if start then length (filter (\<lambda>m. process_state (node g m) \<noteq> LPS_Running) (deps_of g n))
            else length (filter (\<lambda>m. process_state (node g m) = LPS_Running) (dependent_on_running (node g n))))
      else 0)"

definition prep :: "bool \<Rightarrow> Graph \<Rightarrow> nat \<Rightarrow> ProcessInfoNode \<Rightarrow> ProcessInfoNode" where
  "prep start g n t =
     (let t = (if start then t else t\<lparr>stop_dependencies := word_of_nat (waits_for start g n)\<rparr>)
      in t\<lparr>dependencies := word_of_nat (waits_for start g n), is_included := included start g n,
           is_head_node := included start g n \<and> waits_for start g n = 0\<rparr>)"

lemma view_nodes:
  assumes "view g' = view g"
  shows "length (nodes g') = length (nodes g)"
    "n < length (nodes g) \<Longrightarrow> process_state (node g' n) = process_state (node g n)"
    "n < length (nodes g) \<Longrightarrow> in_requested_state (node g' n) = in_requested_state (node g n)"
    "same_static g g'"
proof -
  show l: "length (nodes g') = length (nodes g)" using arg_cong [OF assms, of length] by (simp add: view_def)
  have e: "view g' ! n = (process_state (node g' n), in_requested_state (node g' n), static (node g' n))"
    "view g ! n = (process_state (node g n), in_requested_state (node g n), static (node g n))" if "n < length (nodes g)" for n
    using that l by (simp_all add: view_def)
  then show "n < length (nodes g) \<Longrightarrow> process_state (node g' n) = process_state (node g n)"
    "n < length (nodes g) \<Longrightarrow> in_requested_state (node g' n) = in_requested_state (node g n)" using assms by simp_all
  have "map static (nodes h) = map (\<lambda>x. snd (snd x)) (view h)" for h by (simp add: view_def)
  then show "same_static g g'" using assms by (simp only: same_static_def)
qed

lemma waits_for_bound: "graph_wf g \<Longrightarrow> waits_for start g n < 2 ^ 32"
  by (auto simp: waits_for_def graph_wf_def node_wf_def deps_of_def intro!: le_less_trans [OF length_filter_le] split: option.splits)

lemma word_count_eq_0: "k < 2 ^ 32 \<Longrightarrow> (word_of_nat k :: u32) = 0 \<longleftrightarrow> k = 0"
  by (rule iffI, drule arg_cong [where f = unat]) (simp_all add: unat_u32)

lemma dependencies_unsatisfied:
  assumes "\<forall>d \<in> set ds. dep_process_state d = LPS_Running \<and> unat (os_process_index d) < length (nodes g)"
  shows "iterate_opt (drop_satisfied g) ds (k + word_of_nat (length ds)) =
    Some (k + word_of_nat (length (filter (\<lambda>m. process_state (node g m) \<noteq> LPS_Running) (map (\<lambda>d. unat (os_process_index d)) ds))))"
  using assms
proof (induction ds arbitrary: k)
  case (Cons d ds)
  have "(k + word_of_nat (length (d # ds)) :: u32) - 1 = k + word_of_nat (length ds)"
    "(k + word_of_nat (length (d # ds)) :: u32) = (k + 1) + word_of_nat (length ds)" by simp_all
  then show ?case using Cons.IH [of k] Cons.IH [of "k + 1"] Cons.prems
    by (cases "process_state (node g (unat (os_process_index d))) = LPS_Running") (simp_all add: drop_satisfied_def algebra_simps)
qed simp

lemma constructGraphNode_eq:
  assumes wf: "graph_wf g" and v: "view g' = view g" and n: "n < length (nodes g)"
  shows "constructGraphNode n start g' = Some (included start g n, upd_node n (prep start g n) g')"
proof -
  note vn = view_nodes [OF v] and sf = same_static_fields [OF view_nodes(4) [OF v] n]
  obtain ds where ds: "dependency_list (node g n) = Some ds" "start_dependencies (node g n) = word_of_nat (length ds)"
    "\<forall>d \<in> set ds. dep_process_state d = LPS_Running \<and> unat (os_process_index d) < length (nodes g)"
    "set (dependent_on_running (node g n)) \<subseteq> {..<length (nodes g)}"
    using wf n by (auto simp: graph_wf_def node_wf_def)
  note w0 = word_count_eq_0 [OF waits_for_bound [OF wf, of start n]]
  show ?thesis
  proof (cases start)
    case True
    have "filter (\<lambda>m. process_state (node g' m) \<noteq> LPS_Running) (map (\<lambda>d. unat (os_process_index d)) ds) =
        filter (\<lambda>m. process_state (node g m) \<noteq> LPS_Running) (map (\<lambda>d. unat (os_process_index d)) ds)"
      using ds(3) vn(2) by (intro filter_cong) auto
    then have "iterate_opt (drop_satisfied g') ds (0 + word_of_nat (length ds)) = Some (word_of_nat (waits_for True g n))"
      using dependencies_unsatisfied [of ds g' 0] ds(1,3) n vn(1) by (simp only: waits_for_def deps_of_def) simp
    then show ?thesis
      using True n ds(1,2) sf vn(1-3) w0 unfolding constructGraphNode_def Let_def
      by (simp add: prep_def [abs_def] included_def [of True])
  next
    case False
    have f: "filter (\<lambda>d. process_state (node g' d) = LPS_Running) (dependent_on_running (node g n)) =
        filter (\<lambda>d. process_state (node g d) = LPS_Running) (dependent_on_running (node g n))"
      using ds(4) vn(2) by (intro filter_cong) auto
    have "(if length (filter (\<lambda>d. process_state (node g' d) = LPS_Running) (dependent_on_running (node g' n))) > 0
      then word_of_nat (length (filter (\<lambda>d. process_state (node g' d) = LPS_Running) (dependent_on_running (node g' n)))) else 0) =
      (word_of_nat (waits_for False g n) :: u32)"
      unfolding sf f using n by (simp add: waits_for_def)
    then show ?thesis
      using False n sf vn(1-3) w0 unfolding constructGraphNode_def Let_def
      by (simp add: prep_def [abs_def] included_def [of False] Let_def)
  qed
qed

lemma view_upd_prep: "view (upd_node n (prep start g n) g') = view g'"
proof (cases "n < length (nodes g')")
  case True
  have "(process_state (prep start g n t), in_requested_state (prep start g n t), static (prep start g n t)) =
      (process_state t, in_requested_state t, static t)" for t by (simp add: prep_def static_def Let_def)
  then show ?thesis using True by (simp add: view_def upd_node_def map_update list_update_same_conv)
qed (simp add: view_def upd_node_def list_update_beyond)

lemma count_iter:
  assumes wf: "graph_wf g" and v: "view g' = view g" and ns: "set ns \<subseteq> {..<length (nodes g)}"
  shows "iterate_opt (\<lambda>n (k, g). map_option (\<lambda>(inc, g). (if inc then k + 1 else k, g)) (constructGraphNode n start g)) ns (k, g') =
    Some (k + word_of_nat (length (filter (included start g) ns)), fold (\<lambda>n. upd_node n (prep start g n)) ns g')"
  using v ns
proof (induction ns arbitrary: k g')
  case (Cons n ns)
  then show ?case using constructGraphNode_eq [OF wf Cons.prems(1)] by (simp add: view_upd_prep)
qed simp

lemma fold_upd:
  assumes "distinct ns"
  shows "node (fold (\<lambda>n. upd_node n (f n)) ns g) m = (if m \<in> set ns \<and> m < length (nodes g) then f m (node g m) else node g m)"
    "length (nodes (fold (\<lambda>n. upd_node n (f n)) ns g)) = length (nodes g)"
  using assms by (induction ns arbitrary: g) (auto simp: node_upd_node)

lemma fold_upd_frame: "\<exists>xs. fold (\<lambda>n. upd_node n (f n)) ns g = g\<lparr>nodes := xs\<rparr>"
proof (induction ns arbitrary: g)
  case Nil
  show ?case by (rule exI [of _ "nodes g"]) simp
next
  case (Cons n ns)
  obtain xs where "fold (\<lambda>n. upd_node n (f n)) ns (upd_node n (f n) g) = (upd_node n (f n) g)\<lparr>nodes := xs\<rparr>" using Cons by blast
  moreover have "(upd_node n (f n) g)\<lparr>nodes := xs\<rparr> = g\<lparr>nodes := xs\<rparr>" by (simp add: upd_node_def)
  ultimately show ?case by (intro exI [of _ xs]) simp
qed

lemma queue_heads:
  assumes "g_state g = GS_InTransition" "length (worker_jobs (pgm g)) + length (filter (\<lambda>n. is_head_node (node g n)) ns) \<le> job_capacity (pgm g)"
  shows "iterate_opt (\<lambda>n g. if is_head_node (node g n) then tryQueueNode n g else Some g) ns g =
    Some (g\<lparr>nodes_in_flight := nodes_in_flight g + int (length (filter (\<lambda>n. is_head_node (node g n)) ns)),
            pgm := (pgm g)\<lparr>worker_jobs := worker_jobs (pgm g) @ map (Pair (pg_index g)) (filter (\<lambda>n. is_head_node (node g n)) ns)\<rparr>\<rparr>)"
  using assms
proof (induction ns arbitrary: g)
  case (Cons n ns)
  show ?case
  proof (cases "is_head_node (node g n)")
    case True
    let ?h = "g\<lparr>nodes_in_flight := nodes_in_flight g + 1, pgm := (pgm g)\<lparr>worker_jobs := worker_jobs (pgm g) @ [(pg_index g, n)]\<rparr>\<rparr>"
    have "tryQueueNode n g = Some ?h"
      using True Cons.prems by (simp add: tryQueueNode_def add_job_def markNodeInFlight_def upd_pgm_def)
    then show ?thesis using Cons.IH [of ?h] Cons.prems True by (simp add: algebra_simps)
  qed (use Cons in simp)
qed simp

definition phase_frame :: "Graph \<Rightarrow> Graph \<Rightarrow> bool" where
  "phase_frame g g' \<longleftrightarrow> (\<exists>st xs e f js. g' = g\<lparr>starting := st, nodes := xs, nodes_to_execute := e, nodes_in_flight := f,
     pgm := (pgm g)\<lparr>worker_jobs := js\<rparr>\<rparr>)"

lemma phase_frame_simps:
  assumes "phase_frame g g'"
  shows "g_state g' = g_state g" "requested_state g' = requested_state g" "pg_index g' = pg_index g" "event g' = event g"
    "is_initial_state_transition g' = is_initial_state_transition g" "job_capacity (pgm g') = job_capacity (pgm g)"
    "configuration_manager (pgm g') = configuration_manager (pgm g)"
  using assms by (auto simp: phase_frame_def)

lemma queueHeadNodes_spec:
  fixes start :: bool
  assumes wf: "graph_wf g" and st: "g_state g = GS_InTransition" and rm: "room g" "jobs g = []"
  defines "L \<equiv> {n. n < length (nodes g) \<and> included start g n}"
    and "h \<equiv> filter (\<lambda>n. included start g n \<and> waits_for start g n = 0) [0..<length (nodes g)]"
  shows "\<exists>g'. queueHeadNodes start g = Some (h \<noteq> [], g') \<and> countdown L (waits_for start g) g' \<and> view g' = view g \<and> starting g' = start \<and>
    nodes_in_flight g' = int (length h) \<and> jobs g' = h \<and> nodes_to_execute g' = word_of_nat (card L) \<and> other_jobs g' = other_jobs g \<and> phase_frame g g'"
proof -
  let ?n = "length (nodes g)" let ?ns = "[0..<?n]"
  define g1 where "g1 = g\<lparr>starting := start\<rparr>"
  define g2 where "g2 = fold (\<lambda>n. upd_node n (prep start g n)) ?ns g1"
  have v1: "view g1 = view g" by (simp add: g1_def view_def)
  have v2: "view g2 = view g"
  proof -
    have "view (fold (\<lambda>n. upd_node n (prep start g n)) ns g1) = view g1" for ns
      by (induction ns arbitrary: g1) (simp_all add: view_upd_prep)
    then show ?thesis using v1 by (simp add: g2_def)
  qed
  obtain xs where g2: "g2 = g1\<lparr>nodes := xs\<rparr>" using fold_upd_frame unfolding g2_def by blast
  have len: "length xs = ?n" and nd: "\<And>m. m < ?n \<Longrightarrow> xs ! m = prep start g m (node g m)"
    using fold_upd [of ?ns "prep start g" g1] g2 unfolding g2_def [symmetric] by (auto simp: g1_def)
  have L: "L = set (filter (included start g) ?ns)" by (auto simp: L_def)
  have card: "card L = length (filter (included start g) ?ns)" unfolding L by (rule distinct_card) simp
  have cnt: "countExecutableNodes start g1 = Some (word_of_nat (card L), g2)"
    using count_iter [OF wf v1, of ?ns start 0] unfolding countExecutableNodes_def g2_def card by (simp add: g1_def lessThan_atLeast0)
  have cl: "card L < 2 ^ 32" using card wf length_filter_le [of "included start g" ?ns] by (simp add: graph_wf_def)
  then have pos: "(word_of_nat (card L) :: u32) > 0 \<longleftrightarrow> L \<noteq> {}"
    using word_count_eq_0 [OF cl] L by (auto simp: word_neq_0_conv [symmetric] card_0_eq)
  define g3 where "g3 = g2\<lparr>nodes_to_execute := word_of_nat (card L), nodes_in_flight := 0\<rparr>"
  have heads: "filter (\<lambda>n. is_head_node (node g3 n)) ?ns = h"
    unfolding h_def g3_def g2 using nd by (auto intro!: filter_cong simp: prep_def Let_def)
  have others: "worker_jobs (pgm g) = other_jobs g"
    using rm(2) by (auto simp: jobs_def other_jobs_def filter_empty_conv filter_id_conv)
  define g4 where "g4 = g3\<lparr>nodes_in_flight := int (length h), pgm := (pgm g)\<lparr>worker_jobs := worker_jobs (pgm g) @ map (Pair (pg_index g)) h\<rparr>\<rparr>"
  have capa: "length (worker_jobs (pgm g)) + length h \<le> job_capacity (pgm g)"
    using rm(1) others length_filter_le [of "\<lambda>n. included start g n \<and> waits_for start g n = 0" ?ns] by (simp add: room_def h_def)
  have q: "queueHeadNodesForExecution g3 = Some g4"
    using queue_heads [of g3 ?ns] st capa heads len unfolding queueHeadNodesForExecution_def
    by (simp add: g3_def g2 g1_def g4_def)
  have h0: "L = {} \<Longrightarrow> h = []" by (auto simp: L_def h_def filter_empty_conv)
  have e4: "L = {} \<Longrightarrow> g4 = g3" using h0 by (simp add: g4_def g3_def g2 g1_def)
  have "(if (word_of_nat (card L) :: u32) > 0 then queueHeadNodesForExecution g3 else Some g3) = Some g4"
    using q pos e4 by simp
  moreover have "nodes_in_flight g4 > 0 \<longleftrightarrow> h \<noteq> []" by (simp add: g4_def)
  ultimately have "queueHeadNodes start g = Some (h \<noteq> [], g4)"
    using cnt unfolding queueHeadNodes_def g1_def [symmetric] by (simp add: g3_def [symmetric])
  moreover have j4: "jobs g4 = h" "other_jobs g4 = other_jobs g"
    using rm(2) by (simp_all add: jobs_def other_jobs_def g4_def g3_def g2 g1_def o_def)
  moreover have "countdown L (waits_for start g) g4"
    using st rm(1) nd len waits_for_bound [OF wf] unfolding countdown_def room_def j4
    by (auto simp: g4_def g3_def g2 g1_def L_def h_def prep_def Let_def)
  moreover have "phase_frame g g4"
    unfolding phase_frame_def
    by (rule exI [of _ start], rule exI [of _ xs], rule exI, rule exI, rule exI) (simp add: g4_def g3_def g2 g1_def)
  moreover have "view g4 = view g" using v2 by (simp add: view_def g4_def g3_def)
  ultimately show ?thesis by (intro exI [of _ g4]) (simp add: g4_def g3_def g2 g1_def)
qed

subsection \<open>Executing a job\<close>

text \<open>A job changes fields of its own node that the countdown does not read, and its process state.\<close>

definition ctx :: "Graph \<Rightarrow> u32 \<times> u32 \<times> int \<times> bool \<times> GraphState \<times> ProcessGroupStateID \<times> (u32 \<times> nat) list \<times> nat \<times> ConfigurationManager" where
  "ctx g = (pg_index g, nodes_to_execute g, nodes_in_flight g, starting g, g_state g, requested_state g,
     worker_jobs (pgm g), job_capacity (pgm g), configuration_manager (pgm g))"

definition core :: "ProcessInfoNode \<Rightarrow> (OsProcess option \<times> Dependency list option \<times> u32 \<times> nat list \<times> nat list) \<times> bool \<times> bool \<times> u32" where
  "core t = (static t, in_requested_state t, is_included t, dependencies t)"

definition touch :: "nat \<Rightarrow> LcmProcessState \<Rightarrow> Graph \<Rightarrow> Graph \<Rightarrow> bool" where
  "touch x s g g' \<longleftrightarrow> ctx g' = ctx g \<and> map core (nodes g') = map core (nodes g) \<and>
     map process_state (nodes g') = (map process_state (nodes g))[x := s]"

lemma touch_trans: "touch x s g h \<Longrightarrow> touch x s' h k \<Longrightarrow> touch x s' g k"
  by (simp add: touch_def)

lemma touch_nodes:
  assumes "touch x s g g'"
  shows "length (nodes g') = length (nodes g)" "n < length (nodes g) \<Longrightarrow> core (node g' n) = core (node g n)"
    "n < length (nodes g) \<Longrightarrow> process_state (node g' n) = (if n = x then s else process_state (node g n))"
    "same_static g g'" "jobs g' = jobs g" "other_jobs g' = other_jobs g"
proof -
  show l: "length (nodes g') = length (nodes g)" using assms by (metis length_map touch_def)
  have m: "map core (nodes g') = map core (nodes g)" "map process_state (nodes g') = (map process_state (nodes g))[x := s]"
    "ctx g' = ctx g" using assms by (simp_all add: touch_def)
  show "core (node g' n) = core (node g n)" if "n < length (nodes g)" using arg_cong [OF m(1), of "\<lambda>xs. xs ! n"] that l by simp
  show "process_state (node g' n) = (if n = x then s else process_state (node g n))" if "n < length (nodes g)"
    using arg_cong [OF m(2), of "\<lambda>xs. xs ! n"] that l by (auto simp: nth_list_update)
  have "map static xs = map (\<lambda>c. fst c) (map core xs)" for xs by (simp add: core_def)
  then show "same_static g g'" using m(1) by (simp only: same_static_def)
  show "jobs g' = jobs g" "other_jobs g' = other_jobs g" using m(3) by (simp_all add: ctx_def jobs_def other_jobs_def)
qed

lemma map_update_id [simp]: "(map F xs)[y := F (xs ! y)] = map F xs"
  by (metis list_update_id map_update)

lemma touch_upd:
  "(\<And>t. core (f t) = core t) \<Longrightarrow> (\<And>t. process_state (f t) = s) \<Longrightarrow> x < length (nodes g) \<Longrightarrow> touch x s g (upd_node x f g)"
  by (simp add: touch_def ctx_def upd_node_def map_update)

lemma touch_same:
  assumes "\<And>t. core (f t) = core t" "\<And>t. process_state (f t) = process_state t" "touch x s g h"
  shows "touch x s g (upd_node y f h)"
proof -
  have "map core (nodes (upd_node y f h)) = map core (nodes h)" "map process_state (nodes (upd_node y f h)) = map process_state (nodes h)"
    using assms(1,2) by (simp_all add: upd_node_def map_update)
  then show ?thesis using assms(3) by (simp add: touch_def ctx_def)
qed

lemma touch_refl: "process_state (node g x) = s \<Longrightarrow> touch x s g g"
  by (simp add: touch_def) (metis map_update_id)

lemma touch_pgm:
  "(\<And>e. worker_jobs (f e) = worker_jobs e \<and> job_capacity (f e) = job_capacity e \<and> configuration_manager (f e) = configuration_manager e) \<Longrightarrow>
   touch x s g h \<Longrightarrow> touch x s g (upd_pgm f h)"
  by (simp add: touch_def ctx_def)

definition own :: "ProcessInfoNode \<Rightarrow> int \<times> nat \<times> bool \<times> u32" where
  "own t = (n_status t, terminator t, has_semaphore t, restart_counter t)"

lemma n_setState_touch:
  assumes x: "x < length (nodes g)" "n_config (node g x) = Some c"
    and ok: "s = LPS_Terminated \<or> (s = LPS_Idle \<and> process_state (node g x) = LPS_Terminated) \<or> lps_code s \<ge> lps_code (process_state (node g x))"
  shows "\<exists>g'. n_setState s x g = Some (True, g') \<and> touch x s g g' \<and> own (node g' x) = own (node g x)"
proof -
  let ?g = "upd_node x (\<lambda>t. t\<lparr>process_state := s\<rparr>) g"
  have "touch x s g ?g" using x(1) by (intro touch_upd) (simp_all add: core_def static_def)
  then show ?thesis
    using x ok unfolding n_setState_def Let_def by (auto simp: own_def intro!: touch_pgm)
qed

lemma countdown_touch:
  assumes "countdown left W g" "touch x s g g'"
  shows "countdown left W g'"
proof -
  note t = touch_nodes [OF assms(2)]
  have "is_included (node g' n) = is_included (node g n)" "dependencies (node g' n) = dependencies (node g n)" if "n < length (nodes g)" for n
    using t(2) [OF that] by (simp_all add: core_def)
  moreover have "g_state g' = g_state g" "job_capacity (pgm g') = job_capacity (pgm g)" using assms(2) by (simp_all add: touch_def ctx_def)
  ultimately show ?thesis using assms(1) unfolding countdown_def room_def t(1,5,6) by auto
qed

lemma counted_touch:
  assumes "counted g g'"
  shows "same_static g g'" "length (nodes g') = length (nodes g)" "g_state g' = g_state g" "starting g' = starting g"
    "nodes_to_execute g' = nodes_to_execute g" "pg_index g' = pg_index g" "requested_state g' = requested_state g"
    "n < length (nodes g) \<Longrightarrow> process_state (node g' n) = process_state (node g n)"
    "n < length (nodes g) \<Longrightarrow> in_requested_state (node g' n) = in_requested_state (node g n)"
    "n < length (nodes g) \<Longrightarrow> own (node g' n) = own (node g n)"
    "is_initial_state_transition g' = is_initial_state_transition g"
proof -
  obtain ns f js where g': "g' = g\<lparr>nodes := ns, nodes_in_flight := f, pgm := (pgm g)\<lparr>worker_jobs := js\<rparr>\<rparr>"
    and len: "length (nodes g') = length (nodes g)"
    and nd: "\<And>n. n < length (nodes g) \<Longrightarrow> node g' n = (node g n)\<lparr>dependencies := dependencies (node g' n)\<rparr>"
    using assms by (auto simp: counted_def)
  show "length (nodes g') = length (nodes g)" by (rule len)
  show "g_state g' = g_state g" "starting g' = starting g" "nodes_to_execute g' = nodes_to_execute g" "pg_index g' = pg_index g"
    "requested_state g' = requested_state g" "is_initial_state_transition g' = is_initial_state_transition g" using g' by simp_all
  have e: "static (node g' n) = static (node g n) \<and> process_state (node g' n) = process_state (node g n) \<and>
      in_requested_state (node g' n) = in_requested_state (node g n) \<and> own (node g' n) = own (node g n)" if "n < length (nodes g)" for n
    by (subst (1 2 3 4) nd [OF that]) (simp add: static_def own_def)
  then show "n < length (nodes g) \<Longrightarrow> process_state (node g' n) = process_state (node g n)"
    "n < length (nodes g) \<Longrightarrow> in_requested_state (node g' n) = in_requested_state (node g n)"
    "n < length (nodes g) \<Longrightarrow> own (node g' n) = own (node g n)" by simp_all
  show "same_static g g'" unfolding same_static_def using len e by (auto intro!: nth_equalityI)
qed

lemma processSuccessorNodes_eq: "processSuccessorNodes n g = iterate_opt processJob (dependent_on_running (node g n)) g"
proof -
  have "(\<lambda>s g. if is_included (node g s) \<and> dependencies (node g s) > 0 then checkForEmptyDependencies s g else Some g) = processJob"
    by (intro ext) (simp add: processJob_def checkForEmptyDependencies_def Let_def)
  then show ?thesis by (simp add: processSuccessorNodes_def)
qed

text \<open>The calls of a process that cooperates: launched with process identifier \<open>p\<close>, exiting with \<open>status\<close> when asked to.\<close>

definition quiet :: "int \<Rightarrow> Call" where
  "quiet v = \<lparr>c_ok = True, c_value = v, c_meanwhile = Some\<rparr>"

lemma next_call_quiet [simp]: "next_call (quiet v # cs) g = Some (quiet v, cs, g)" "c_ok (quiet v)" "c_value (quiet v) = v"
  by (simp_all add: next_call_def quiet_def)

definition exits :: "nat \<Rightarrow> int \<Rightarrow> Call" where
  "exits x status = \<lparr>c_ok = True, c_value = 0, c_meanwhile = n_terminated x status\<rparr>"

definition coop_calls :: "bool \<Rightarrow> OsProcess \<Rightarrow> nat \<Rightarrow> int \<Rightarrow> int \<Rightarrow> Call list" where
  "coop_calls start c x p status =
     (if comms_type (startup_config c) = kLaunchManager then []
      else if start then (if comms_type (startup_config c) = kNoComms then [quiet p, quiet 0] else [quiet p, quiet 0, quiet 0])
      else [quiet 0, exits x status])"

lemma touch_setup:
  assumes "touch x s g h"
  shows "touch x s g (setupControlClientChannel channel x h)"
  using assms unfolding setupControlClientChannel_def Let_def
  by (auto intro!: touch_same simp: core_def static_def)

lemma setup_own: "x < length (nodes h) \<Longrightarrow> own (node (setupControlClientChannel channel x h) x) = own (node h x)"
  by (cases "x = 0") (simp_all add: setupControlClientChannel_def Let_def own_def)

lemma touch_state: "touch x s g h \<Longrightarrow> x < length (nodes g) \<Longrightarrow> process_state (node h x) = s"
  using touch_nodes(3) by fastforce

lemma touch_config: "touch x s g h \<Longrightarrow> x < length (nodes g) \<Longrightarrow> n_config (node h x) = n_config (node g x)"
  using same_static_fields(1) touch_nodes(4) by blast

lemma touch_graph: "touch x s g h \<Longrightarrow> g_state h = g_state g \<and> starting h = starting g \<and> length (nodes h) = length (nodes g)"
  using touch_nodes(1) by (auto simp: touch_def ctx_def)

text \<open>A job of the start phase: the node reaches \<^verbatim>\<open>kRunning\<close>, then its successors are counted down.\<close>

lemma start_job:
  assumes x: "x < length (nodes g)" "n_config (node g x) = Some c"
    and st: "process_state (node g x) = LPS_Idle \<or> process_state (node g x) = LPS_Terminated"
    and gs: "g_state g = GS_InTransition" "starting g"
    and succ: "\<And>g1. touch x LPS_Running g g1 \<Longrightarrow> \<exists>g2. processSuccessorNodes x g1 = Some g2 \<and> counted g1 g2"
  shows "\<exists>g1 g2 g3. touch x LPS_Running g g1 \<and> processSuccessorNodes x g1 = Some g2 \<and> touch x LPS_Running g2 g3 \<and>
    doWork channel own_pid x (coop_calls True c x p status) g = do { g' \<leftarrow> nodeExecuted g3; Some ([], g') }"
proof -
  let ?s0 = "process_state (node g x)"
  define a where "a = upd_node x (\<lambda>t. t\<lparr>restart_counter := number_of_restart_attempts (pgm_config c)\<rparr>) g"
  define b where "b = upd_node x (\<lambda>t. t\<lparr>n_status := 0\<rparr>) a"
  have tb: "touch x ?s0 g b" unfolding b_def a_def by (intro touch_same touch_refl) (simp_all add: core_def static_def)
  note xb = touch_graph [OF tb] touch_state [OF tb x(1)] touch_config [OF tb x(1), unfolded x(2)]
  have "\<exists>d. n_setState LPS_Idle x b = Some (True, d) \<and> touch x LPS_Idle b d \<and> own (node d x) = own (node b x)"
    using xb x st by (intro n_setState_touch) auto
  then obtain d where d: "n_setState LPS_Idle x b = Some (True, d)" "touch x LPS_Idle b d" "own (node d x) = own (node b x)" by blast
  define e where "e = upd_node x (\<lambda>t. t\<lparr>n_pid := 0, n_status := 0\<rparr>) d"
  have te: "touch x LPS_Idle g e" unfolding e_def
    by (intro touch_same touch_trans [OF tb d(2)]) (simp_all add: core_def static_def)
  note xe = touch_graph [OF te] touch_state [OF te x(1)] touch_config [OF te x(1), unfolded x(2)]
  have "\<exists>f. n_setState LPS_Starting x e = Some (True, f) \<and> touch x LPS_Starting e f \<and> own (node f x) = own (node e x)"
    using xe x by (intro n_setState_touch) auto
  then obtain f where f: "n_setState LPS_Starting x e = Some (True, f)" "touch x LPS_Starting e f" "own (node f x) = own (node e x)" by blast
  have tf: "touch x LPS_Starting g f" by (rule touch_trans [OF te f(2)])
  have ld: "x < length (nodes d)" using touch_graph [OF d(2)] xb x(1) by simp
  have nf: "n_status (node f x) = 0" using f(3) ld by (simp add: own_def e_def)
  have run: "\<exists>k. n_setState LPS_Running x h = Some (True, k) \<and> touch x LPS_Running g k \<and> own (node k x) = own (node h x)"
    if h: "touch x LPS_Starting g h" for h
  proof -
    have "\<exists>k. n_setState LPS_Running x h = Some (True, k) \<and> touch x LPS_Running h k \<and> own (node k x) = own (node h x)"
      using touch_graph [OF h] touch_state [OF h x(1)] touch_config [OF h x(1), unfolded x(2)] x by (intro n_setState_touch) auto
    then show ?thesis using touch_trans [OF h] by blast
  qed
  have dw: "doWork channel own_pid x calls g = startProcess_loop channel own_pid x calls a \<bind> (\<lambda>(calls, g). nodeExecuted g \<bind> (\<lambda>g. Some (calls, g)))" for calls
    using gs x(2) by (simp add: doWork_def n_startProcess_def a_def)
  have ca: "n_config (node a x) = Some c" using x by (simp add: a_def)
  show ?thesis
  proof (cases "comms_type (startup_config c) = kLaunchManager")
    case True
    let ?h = "upd_node x (\<lambda>t. t\<lparr>n_pid := own_pid\<rparr>) f"
    have "touch x LPS_Starting g ?h" by (intro touch_same tf) (simp_all add: core_def static_def)
    from run [OF this] obtain g1 where g1: "n_setState LPS_Running x ?h = Some (True, g1)" "touch x LPS_Running g g1" by blast
    obtain g2 where g2: "processSuccessorNodes x g1 = Some g2" "counted g1 g2" using succ [OF g1(2)] by blast
    have s2: "process_state (node g2 x) = LPS_Running"
      using touch_state [OF g1(2) x(1)] counted_touch(8) [OF g2(2), of x] touch_graph [OF g1(2)] x(1) by simp
    have "startProcess_loop channel own_pid x [] a = Some ([], g2)"
      using True ca d(1) f(1) g1(1) g2(1) unfolding startProcess_loop.simps [of channel own_pid x "[]" a]
      by (simp add: start_attempt_def b_def [symmetric] e_def [symmetric])
    then show ?thesis using True g1(2) g2(1) touch_refl [OF s2] by (intro exI [of _ g1] exI [of _ g2]) (auto simp: dw coop_calls_def)
  next
    case False
    define sv :: "nat option" where "sv = (if comms_type (startup_config c) = kNoComms then None else Some 0)"
    let ?h = "upd_node x (\<lambda>t. t\<lparr>n_pid := p, n_sync := sv\<rparr>) f"
    define h where "h = (if comms_type (startup_config c) = kControlClient then setupControlClientChannel channel x ?h else ?h)"
    have "touch x LPS_Starting g ?h" by (intro touch_same tf) (simp_all add: core_def static_def)
    then have th: "touch x LPS_Starting g h" unfolding h_def by (auto intro: touch_setup)
    have lf: "x < length (nodes f)" using touch_graph [OF tf] x(1) by simp
    have nh: "n_status (node h x) = 0" using nf lf setup_own [of x ?h channel] by (simp add: h_def own_def)
    from run [OF th] obtain g1 where g1: "n_setState LPS_Running x h = Some (True, g1)" "touch x LPS_Running g g1" "own (node g1 x) = own (node h x)" by blast
    obtain g2 where g2: "processSuccessorNodes x g1 = Some g2" "counted g1 g2" using succ [OF g1(2)] by blast
    let ?g3 = "upd_node x (\<lambda>t. t\<lparr>n_sync := None\<rparr>) g2"
    have l2: "x < length (nodes g2)" using counted_touch(2) [OF g2(2)] touch_graph [OF g1(2)] x(1) by simp
    have s2: "process_state (node g2 x) = LPS_Running" "own (node g2 x) = own (node g1 x)"
      using touch_state [OF g1(2) x(1)] counted_touch(8,10) [OF g2(2), of x] touch_graph [OF g1(2)] x(1) by simp_all
    have t3: "touch x LPS_Running g2 ?g3" by (intro touch_same touch_refl s2) (simp_all add: core_def static_def)
    have n3: "n_status (node ?g3 x) = 0" using s2(2) g1(3) nh l2 by (simp add: own_def)
    have xh: "g_state h = GS_InTransition" "n_config (node h x) = Some c" using touch_graph [OF th] gs touch_config [OF th x(1)] x(2) by simp_all
    have hs: "handleProcessStarted (execution_error_code (pgm_config c)) x (tl (coop_calls True c x p status)) h = Some ([], g2)"
      using False xh nh g1(1) g2(1)
      by (auto simp: coop_calls_def handleProcessStarted_def handleProcessStillStarting_def handleProcessRunning_def)
    have "start_attempt channel own_pid x (coop_calls True c x p status) a = Some (False, [], ?g3)"
      using False ca d(1) f(1) hs
      by (cases "comms_type (startup_config c) = kNoComms")
        (auto simp: start_attempt_def b_def [symmetric] e_def [symmetric] coop_calls_def h_def sv_def Let_def)
    then have "startProcess_loop channel own_pid x (coop_calls True c x p status) a = Some ([], ?g3)"
      using n3 unfolding startProcess_loop.simps [of channel own_pid x _ a] by simp
    then show ?thesis using g1(2) g2(1) t3 by (intro exI [of _ g1] exI [of _ g2] exI [of _ ?g3]) (simp add: dw)
  qed
qed

end
