(* ===== verification/Transition_Order.thy ===== *)
theory Transition_Order
  imports Transition_Countdown
begin

section \<open>The order in which a transition stops and starts processes\<close>

text \<open>
  What a transition does when the processes cooperate: they start, report that they run, and terminate
  when they are asked to (\<open>coop_calls\<close>). The jobs are taken out of the queue in any order and executed one after
  the other: jobs that overlap, and launches and terminations that fail, are not covered here. The
  invariant \<open>moving\<close> holds between the jobs: the counters, the queue and the states of the processes fit
  together and some job can be taken; \<open>moving_step\<close> shows that every job keeps it and reduces the number
  of remaining jobs by one, up to \<open>arrived\<close>. \<open>queueStopJobs_reaches\<close> is the result for both kinds of
  transition; the theorems about them are in \<open>Group_Construction\<close>.
\<close>

subsection \<open>Stopping a process\<close>

lemma next_call_exits:
  "next_call (exits x status # cs) g = do { g \<leftarrow> n_terminated x status g; Some (exits x status, cs, g) }" "c_ok (exits x status)"
  by (simp_all add: next_call_def exits_def)

text \<open>The exit of a process that was asked to terminate wakes the job that waits for it.\<close>

lemma terminated_wakes:
  assumes x: "x < length (nodes g)" "n_config (node g x) = Some c" "dependent_on_terminating (node g x) = []"
    and g: "\<not> starting g" "has_semaphore (node g x)" "terminator (node g x) = 0"
  shows "\<exists>g'. n_terminated x status g = Some g' \<and> touch x LPS_Terminated g g' \<and> terminator (node g' x) = 1"
proof -
  define a where "a = upd_node x (\<lambda>t. t\<lparr>n_status := status\<rparr>) g"
  define b where "b = (if \<not> is_self_terminating (pgm_config c) \<or> status \<noteq> 0
    then if n_status (node a x) = 0 then upd_node x (\<lambda>t. t\<lparr>n_status := - 1\<rparr>) a else a else a)"
  have tb: "touch x (process_state (node g x)) g b"
    unfolding b_def a_def by (auto intro!: touch_same touch_refl simp: core_def static_def)
  have ob: "has_semaphore (node b x)" "terminator (node b x) = 0" using g(2,3) x(1) by (simp_all add: b_def a_def)
  note xb = touch_graph [OF tb] touch_config [OF tb x(1), unfolded x(2)]
  have "\<exists>d. n_setState LPS_Terminated x b = Some (True, d) \<and> touch x LPS_Terminated b d \<and> own (node d x) = own (node b x)"
    using xb x by (intro n_setState_touch) auto
  then obtain d where d: "n_setState LPS_Terminated x b = Some (True, d)" "touch x LPS_Terminated b d" "own (node d x) = own (node b x)"
    by blast
  define e where "e = upd_node x (\<lambda>t. t\<lparr>control_client_channel := None\<rparr>) d"
  have td: "touch x LPS_Terminated g d" by (rule touch_trans [OF tb d(2)])
  have te: "touch x LPS_Terminated g e" unfolding e_def by (intro touch_same td) (simp_all add: core_def static_def)
  have ld: "x < length (nodes d)" using touch_graph [OF td] x(1) by simp
  have oe: "has_semaphore (node e x)" "terminator (node e x) = 0" using d(3) ob ld by (simp_all add: own_def e_def)
  have de: "dependent_on_terminating (node e x) = []" using same_static_fields(5) [OF touch_nodes(4) [OF te] x(1)] x(3) by simp
  have sa: "\<not> starting a" using g(1) by (simp add: a_def)
  let ?f = "upd_node x (\<lambda>t. t\<lparr>has_semaphore := False, terminator := terminator t + 1\<rparr>) e"
  have "touch x LPS_Terminated g ?f" by (intro touch_same te) (simp_all add: core_def static_def)
  moreover have "terminator (node ?f x) = 1" using oe(2) ld by (simp add: e_def)
  moreover have "n_terminated x status g = Some ?f"
    using x(2) sa d(1) [unfolded b_def] oe de unfolding n_terminated_def Let_def unfolding a_def [symmetric]
    by (cases "\<not> is_self_terminating (pgm_config c) \<or> status \<noteq> 0"; cases "n_status (node a x) = 0")
      (simp_all add: e_def [symmetric])
  ultimately show ?thesis by blast
qed

lemma stop_job:
  assumes x: "x < length (nodes g)" "n_config (node g x) = Some c" "dependent_on_terminating (node g x) = []"
    and st: "process_state (node g x) = LPS_Running"
    and gs: "g_state g = GS_InTransition" "\<not> starting g"
  shows "\<exists>g1. touch x LPS_Terminated g g1 \<and>
    doWork channel own_pid x (coop_calls False c x p status) g =
      do { g2 \<leftarrow> queueTerminationSuccessorJobs x g1; g' \<leftarrow> nodeExecuted g2; Some ([], g') }"
proof -
  have "\<exists>a. n_setState LPS_Terminating x g = Some (True, a) \<and> touch x LPS_Terminating g a \<and> own (node a x) = own (node g x)"
    using x st by (intro n_setState_touch) auto
  then obtain a where a: "n_setState LPS_Terminating x g = Some (True, a)" "touch x LPS_Terminating g a" by blast
  note xa = touch_graph [OF a(2)] touch_config [OF a(2) x(1), unfolded x(2)] touch_state [OF a(2) x(1)]
  show ?thesis
  proof (cases "comms_type (startup_config c) = kLaunchManager")
    case True
    have "\<exists>b. n_setState LPS_Terminated x a = Some (True, b) \<and> touch x LPS_Terminated a b \<and> own (node b x) = own (node a x)"
      using xa x by (intro n_setState_touch) auto
    then obtain b where b: "n_setState LPS_Terminated x a = Some (True, b)" "touch x LPS_Terminated a b" by blast
    have tb: "touch x LPS_Terminated g b" by (rule touch_trans [OF a(2) b(2)])
    have "\<not> starting b" using touch_graph [OF tb] gs(2) by simp
    then show ?thesis using True tb gs x(2) a(1) b(1)
      by (intro exI [of _ b]) (simp add: doWork_def terminateProcess_def coop_calls_def Option.bind_assoc)
  next
    case False
    define d where "d = upd_node x (\<lambda>t. t\<lparr>terminator := 0, has_semaphore := True\<rparr>) a"
    have td: "touch x LPS_Terminating g d" unfolding d_def by (intro touch_same a(2)) (simp_all add: core_def static_def)
    note xd = touch_graph [OF td] touch_config [OF td x(1), unfolded x(2)] same_static_fields(5) [OF touch_nodes(4) [OF td] x(1)]
    have od: "has_semaphore (node d x)" "terminator (node d x) = 0" using xa x(1) by (simp_all add: d_def)
    obtain e where e: "n_terminated x status d = Some e" "touch x LPS_Terminated d e" "terminator (node e x) = 1"
      using terminated_wakes [of x d c status] xd x gs(2) od by auto
    define f where "f = upd_node x (\<lambda>t. t\<lparr>has_semaphore := False\<rparr>) (upd_node x (\<lambda>t. t\<lparr>terminator := terminator t - 1\<rparr>) e)"
    have tf: "touch x LPS_Terminated g f"
      unfolding f_def by (intro touch_same touch_trans [OF td e(2)]) (simp_all add: core_def static_def)
    have nf: "\<not> starting f" using touch_graph [OF tf] gs(2) by simp
    have "handleTerminationProcess x (coop_calls False c x p status) a = Some ([], f)"
      using False e by (simp add: handleTerminationProcess_def coop_calls_def terminator_wait_def next_call_exits d_def [symmetric] f_def)
    then show ?thesis using False tf gs x(2) a(1) nf
      by (intro exI [of _ f]) (simp add: doWork_def terminateProcess_def Option.bind_assoc)
  qed
qed

text \<open>A stopped process counts down its own dependencies; those that are no longer left are skipped either way.\<close>

lemma stop_successors:
  assumes "countdown left W g" "\<forall>d \<in> set ds. unat (os_process_index d) < length (nodes g)"
    "\<forall>n \<in> left. count_list (map (\<lambda>d. unat (os_process_index d)) ds) n \<le> W n" "\<forall>n \<in> left. process_state (node g n) \<noteq> LPS_Terminated"
  shows "iterate_opt (\<lambda>dependency g. do {
      successorNode \<leftarrow> getProcessInfoNode (unat (os_process_index dependency)) g;
      (if process_state (node g successorNode) \<noteq> LPS_Terminated then processJob successorNode g else Some g) }) ds g =
    iterate_opt processJob (map (\<lambda>d. unat (os_process_index d)) ds) g"
  using assms
proof (induction ds arbitrary: g W)
  case (Cons d ds)
  let ?m = "unat (os_process_index d)"
  have m: "?m < length (nodes g)" using Cons.prems(2) by simp
  have "?m \<in> left \<Longrightarrow> count_list (map (\<lambda>d. unat (os_process_index d)) (d # ds)) ?m \<le> W ?m" using Cons.prems(3) by blast
  then have "?m \<in> left \<Longrightarrow> 0 < W ?m" by simp
  then obtain g1 where g1: "processJob ?m g = Some g1" "countdown left (W(?m := W ?m - 1)) g1" "counted g g1"
    using processJob_countdown [OF Cons.prems(1) m] by blast
  have skip: "process_state (node g ?m) = LPS_Terminated \<Longrightarrow> g1 = g"
    using g1(1) Cons.prems(1,4) m by (auto simp: processJob_def countdown_def split: if_splits)
  have "\<forall>n \<in> left. process_state (node g1 n) \<noteq> LPS_Terminated"
    using Cons.prems(1,4) counted_touch(8) [OF g1(3)] by (auto simp: countdown_def)
  moreover have "\<forall>n \<in> left. count_list (map (\<lambda>d. unat (os_process_index d)) ds) n \<le> (W(?m := W ?m - 1)) n"
    using Cons.prems(3) by (auto split: if_splits)
  ultimately have "iterate_opt (\<lambda>dependency g. do {
      successorNode \<leftarrow> getProcessInfoNode (unat (os_process_index dependency)) g;
      (if process_state (node g successorNode) \<noteq> LPS_Terminated then processJob successorNode g else Some g) }) ds g1 =
    iterate_opt processJob (map (\<lambda>d. unat (os_process_index d)) ds) g1"
    using Cons.IH [OF g1(2)] Cons.prems(2) counted_touch(2) [OF g1(3)] by simp
  then show ?case using g1(1) m skip by (cases "process_state (node g ?m) = LPS_Terminated") (simp_all add: getProcessInfoNode_def)
qed simp


subsection \<open>One job of a phase\<close>

text \<open>The nodes whose turn in the phase has not come, and the states between the jobs.\<close>

definition todo :: "bool \<Rightarrow> Graph \<Rightarrow> nat set" where
  "todo start g = {n. n < length (nodes g) \<and> included start g n}"

definition settled :: "Graph \<Rightarrow> bool" where
  "settled g \<longleftrightarrow> (\<forall>n < length (nodes g). process_state (node g n) \<in> {LPS_Idle, LPS_Running, LPS_Terminated})"

definition phase :: "bool \<Rightarrow> Graph \<Rightarrow> bool" where
  "phase start g \<longleftrightarrow> graph_wf g \<and> settled g \<and> starting g = start \<and> countdown (todo start g) (waits_for start g) g \<and>
     nodes_in_flight g = int (length (jobs g)) \<and> nodes_to_execute g = word_of_nat (card (todo start g))"

text \<open>A worker takes a job of the graph out of the queue and executes it.\<close>

definition take_job :: "nat \<Rightarrow> Graph \<Rightarrow> Graph" where
  "take_job x g = upd_pgm (\<lambda>e. e\<lparr>worker_jobs := remove1 (pg_index g, x) (worker_jobs e)\<rparr>) g"

type_synonym JobEnv = "ControlClientChannel option \<times> int \<times> int \<times> int"

definition coop_job :: "JobEnv \<Rightarrow> nat \<Rightarrow> Graph \<Rightarrow> Graph option" where
  "coop_job e x g =
     (if x \<in> set (jobs g)
      then (case e of (channel, own_pid, p, status) \<Rightarrow> do {
              c \<leftarrow> n_config (node g x);
              (_, g') \<leftarrow> doWork channel own_pid x (coop_calls (starting g) c x p status) (take_job x g);
              Some g' })
      else None)"

text \<open>What a job changes: the state of its node, the counters and the queue.\<close>

definition moved :: "nat \<Rightarrow> LcmProcessState \<Rightarrow> Graph \<Rightarrow> Graph \<Rightarrow> bool" where
  "moved x s g g' \<longleftrightarrow> same_static g g' \<and> map process_state (nodes g') = (map process_state (nodes g))[x := s] \<and>
     map in_requested_state (nodes g') = map in_requested_state (nodes g) \<and> other_jobs g' = other_jobs g \<and>
     job_capacity (pgm g') = job_capacity (pgm g)"

lemma moved_nodes:
  assumes "moved x s g g'"
  shows "length (nodes g') = length (nodes g)"
    "n < length (nodes g) \<Longrightarrow> process_state (node g' n) = (if n = x then s else process_state (node g n))"
    "n < length (nodes g) \<Longrightarrow> in_requested_state (node g' n) = in_requested_state (node g n)"
    "n < length (nodes g) \<Longrightarrow> deps_of g' n = deps_of g n"
    "n < length (nodes g) \<Longrightarrow> dependent_on_running (node g' n) = dependent_on_running (node g n)"
proof -
  have m: "same_static g g'" "map process_state (nodes g') = (map process_state (nodes g))[x := s]"
    "map in_requested_state (nodes g') = map in_requested_state (nodes g)" using assms by (simp_all add: moved_def)
  show l: "length (nodes g') = length (nodes g)" by (rule same_static_node(1) [OF m(1)])
  show "process_state (node g' n) = (if n = x then s else process_state (node g n))" if "n < length (nodes g)"
    using arg_cong [OF m(2), of "\<lambda>xs. xs ! n"] that l by (auto simp: nth_list_update)
  show "in_requested_state (node g' n) = in_requested_state (node g n)" if "n < length (nodes g)"
    using arg_cong [OF m(3), of "\<lambda>xs. xs ! n"] that l by simp
  show "n < length (nodes g) \<Longrightarrow> deps_of g' n = deps_of g n"
    "n < length (nodes g) \<Longrightarrow> dependent_on_running (node g' n) = dependent_on_running (node g n)"
    using same_static_fields(4,6) [OF m(1)] by simp_all
qed

lemma length_filter_count:
  assumes "P x" "\<not> Q x" "\<And>y. y \<in> set xs \<Longrightarrow> y \<noteq> x \<Longrightarrow> Q y = P y"
  shows "length (filter P xs) = length (filter Q xs) + count_list xs x"
  using assms(3) by (induction xs) (use assms(1,2) in auto)

text \<open>The successors of a started process, and the dependencies of a stopped one.\<close>

definition successors :: "bool \<Rightarrow> Graph \<Rightarrow> nat \<Rightarrow> nat list" where
  "successors start g x = (if start then dependent_on_running (node g x) else deps_of g x)"

definition goal_state :: "bool \<Rightarrow> LcmProcessState" where
  "goal_state start = (if start then LPS_Running else LPS_Terminated)"

lemma node_wf_sets:
  assumes "graph_wf g" "n < length (nodes g)"
  shows "set (deps_of g n) \<subseteq> {..<length (nodes g)}" "set (dependent_on_running (node g n)) \<subseteq> {..<length (nodes g)}"
proof -
  have w: "node_wf g n" using assms by (simp add: graph_wf_def)
  then obtain ds where "dependency_list (node g n) = Some ds" "\<forall>d \<in> set ds. unat (os_process_index d) < length (nodes g)"
    by (auto simp: node_wf_def)
  then show "set (deps_of g n) \<subseteq> {..<length (nodes g)}" by (auto simp: deps_of_def)
  show "set (dependent_on_running (node g n)) \<subseteq> {..<length (nodes g)}" using w by (simp add: node_wf_def)
qed

lemma waits_for_moved:
  assumes wf: "graph_wf g" and x: "x \<in> todo start g" and st: "settled g" and m: "moved x (goal_state start) g g'"
  shows "waits_for start g n = waits_for start g' n + count_list (successors start g x) n"
proof (cases "n < length (nodes g)")
  case True
  note mn = moved_nodes [OF m]
  have xl: "x < length (nodes g)" using x by (simp add: todo_def)
  have wx: "node_wf g x" "node_wf g n" using wf xl True by (auto simp: graph_wf_def)
  then have cnt: "count_list (successors start g x) n = count_list (if start then deps_of g n else dependent_on_running (node g n)) x"
    using True xl by (simp add: successors_def node_wf_def)
  note d = node_wf_sets(1) [OF wf True] and r = node_wf_sets(2) [OF wf True]
  show ?thesis
  proof (cases start)
    case start: True
    have "length (filter (\<lambda>m. process_state (node g m) \<noteq> LPS_Running) (deps_of g n)) =
        length (filter (\<lambda>m. process_state (node g' m) \<noteq> LPS_Running) (deps_of g n)) + count_list (deps_of g n) x"
      using x start mn(2) xl d by (intro length_filter_count) (auto simp: todo_def included_def goal_state_def)
    then show ?thesis using start True mn(1) mn(4) [OF True] cnt by (simp add: waits_for_def)
  next
    case stop: False
    have "process_state (node g x) = LPS_Running" using x stop st by (auto simp: todo_def included_def settled_def)
    then have "length (filter (\<lambda>m. process_state (node g m) = LPS_Running) (dependent_on_running (node g n))) =
        length (filter (\<lambda>m. process_state (node g' m) = LPS_Running) (dependent_on_running (node g n))) + count_list (dependent_on_running (node g n)) x"
      using stop mn(2) xl r by (intro length_filter_count) (auto simp: goal_state_def)
    then show ?thesis using stop True mn(1) mn(5) [OF True] cnt by (simp add: waits_for_def)
  qed
next
  case False
  have "x < length (nodes g)" using x by (simp add: todo_def)
  then have "set (successors start g x) \<subseteq> {..<length (nodes g)}" using node_wf_sets [OF wf] by (simp add: successors_def)
  then have "n \<notin> set (successors start g x)" using False by auto
  then show ?thesis using False moved_nodes(1) [OF m] by (simp add: waits_for_def count_list_0_iff)
qed

lemma todo_moved:
  assumes "x \<in> todo start g" "moved x (goal_state start) g g'"
  shows "todo start g' = todo start g - {x}"
  using assms(1) moved_nodes [OF assms(2)] by (auto simp: todo_def included_def goal_state_def split: if_splits)

lemma moved_trans: "moved x s g h \<Longrightarrow> moved x s' h k \<Longrightarrow> moved x s' g k"
  by (auto simp: moved_def intro: same_static_trans)

lemma moved_touch:
  assumes "touch x s g g'"
  shows "moved x s g g'"
proof -
  have "map in_requested_state xs = map (\<lambda>c. fst (snd c)) (map core xs)" for xs by (simp add: core_def)
  then show ?thesis using assms touch_nodes(4,6) [OF assms] by (simp only: moved_def touch_def ctx_def prod.inject)
qed

lemma moved_counted:
  assumes "counted g g'"
  shows "moved x (process_state (node g x)) g g'"
proof -
  have "map process_state (nodes g') = map process_state (nodes g)" "map in_requested_state (nodes g') = map in_requested_state (nodes g)"
    using counted_touch [OF assms] by (auto intro!: nth_equalityI)
  moreover have "other_jobs g' = other_jobs g" "job_capacity (pgm g') = job_capacity (pgm g)" using assms by (auto simp: counted_def)
  ultimately show ?thesis using counted_touch(1) [OF assms] by (simp add: moved_def)
qed

lemma remove1_jobs: "map snd (filter (\<lambda>j. fst j = i) (remove1 (i, x) js)) = remove1 x (map snd (filter (\<lambda>j. fst j = i) js))"
  by (induction js) auto

lemma take_job_simps:
  "nodes (take_job x g) = nodes g" "jobs (take_job x g) = remove1 x (jobs g)" "other_jobs (take_job x g) = other_jobs g"
  "g_state (take_job x g) = g_state g" "starting (take_job x g) = starting g" "nodes_in_flight (take_job x g) = nodes_in_flight g"
  "nodes_to_execute (take_job x g) = nodes_to_execute g" "job_capacity (pgm (take_job x g)) = job_capacity (pgm g)"
proof -
  show "jobs (take_job x g) = remove1 x (jobs g)" by (simp add: take_job_def jobs_def remove1_jobs)
  have "filter (\<lambda>j. fst j \<noteq> i) (remove1 (i, x) js) = filter (\<lambda>j. fst j \<noteq> i) js" for i and js :: "(u32 \<times> nat) list"
    by (induction js) auto
  then show "other_jobs (take_job x g) = other_jobs g" by (simp add: take_job_def other_jobs_def)
qed (simp_all add: take_job_def)

lemma moved_take_job: "moved x (process_state (node g x)) g (take_job x g)"
  by (simp add: moved_def same_static_def take_job_simps)

lemma countdown_take_job:
  assumes "countdown left W g" "x \<in> set (jobs g)"
  shows "countdown (left - {x}) W (take_job x g)"
  using assms unfolding countdown_def room_def take_job_simps by (auto simp: set_remove1_eq)

lemma successors_countdown:
  assumes wf: "graph_wf g" and st: "settled g" and x: "x \<in> todo start g" and c: "countdown (todo start g - {x}) (waits_for start g) g1"
    and m: "moved x (goal_state start) g g1"
  shows "\<exists>g2. iterate_opt processJob (successors start g x) g1 = Some g2 \<and> counted g1 g2 \<and> countdown (todo start g - {x}) (waits_for start g1) g2"
proof -
  note w = waits_for_moved [OF wf x st m]
  have "x < length (nodes g)" using x by (simp add: todo_def)
  then have "\<forall>s \<in> set (successors start g x). s < length (nodes g1)"
    using node_wf_sets [OF wf] moved_nodes(1) [OF m] by (auto simp: successors_def split: if_splits)
  moreover have "\<forall>n \<in> todo start g - {x}. count_list (successors start g x) n \<le> waits_for start g n" using w by simp
  moreover have "(\<lambda>n. waits_for start g n - count_list (successors start g x) n) = waits_for start g1" using w by (intro ext) simp
  ultimately show ?thesis using processJobs_countdown [OF c, of "successors start g x"] by auto
qed

text \<open>
  Up to the report that the node has been executed, a job sets the state of its node and keeps the
  countdown for the nodes that are left.
\<close>

lemma coop_job_moved:
  assumes ph: "phase start g" and x: "x \<in> set (jobs g)"
  shows "\<exists>g2. coop_job e x g = nodeExecuted g2 \<and> moved x (goal_state start) g g2 \<and>
    countdown (todo start g2) (waits_for start g2) g2 \<and> starting g2 = start \<and>
    nodes_in_flight g2 = int (length (jobs g2)) + 1 \<and> nodes_to_execute g2 = nodes_to_execute g"
proof -
  obtain channel own_pid p status where e: "e = (channel, own_pid, p, status)" by (cases e)
  define g0 where "g0 = take_job x g"
  have wf: "graph_wf g" and st: "settled g" and s: "starting g = start" and c: "countdown (todo start g) (waits_for start g) g"
    and fl: "nodes_in_flight g = int (length (jobs g))" using ph by (simp_all add: phase_def)
  have xt: "x \<in> todo start g" and xl: "x < length (nodes g)" and gs: "g_state g = GS_InTransition"
    using c x by (auto simp: countdown_def)
  obtain cf where cf: "n_config (node g x) = Some cf" using wf xl by (auto simp: graph_wf_def node_wf_def)
  have job: "coop_job e x g = do { (_, g') \<leftarrow> doWork channel own_pid x (coop_calls start cf x p status) g0; Some g' }"
    using x cf s by (simp add: coop_job_def e g0_def)
  note t0 = take_job_simps [of x g, folded g0_def]
  have c0: "countdown (todo start g - {x}) (waits_for start g) g0" unfolding g0_def by (rule countdown_take_job [OF c x])
  have m0: "moved x (process_state (node g x)) g g0" unfolding g0_def by (rule moved_take_job)
  have f0: "nodes_in_flight g0 = int (length (jobs g0)) + 1"
    using fl x t0(2,6) by (simp add: length_remove1) (metis length_pos_if_in_set One_nat_def Suc_pred of_nat_Suc add.commute)
  have done2: ?thesis if j: "coop_job e x g = nodeExecuted g3" and t1: "touch x (goal_state start) g0 g1"
    and it: "iterate_opt processJob (successors start g x) g1 = Some g2" and t3: "touch x (goal_state start) g2 g3" for g1 g2 g3
  proof -
    have m1: "moved x (goal_state start) g g1" by (rule moved_trans [OF m0 moved_touch [OF t1]])
    obtain h where h: "iterate_opt processJob (successors start g x) g1 = Some h" "counted g1 h"
      "countdown (todo start g - {x}) (waits_for start g1) h"
      using successors_countdown [OF wf st xt countdown_touch [OF c0 t1] m1] by blast
    then have g2: "counted g1 g2" "countdown (todo start g - {x}) (waits_for start g1) g2" using it by simp_all
    have s1: "process_state (node g1 x) = goal_state start" using moved_nodes(2) [OF m1 xl] by simp
    have m3: "moved x (goal_state start) g g3"
      by (rule moved_trans [OF moved_trans [OF m1 moved_counted [OF g2(1)]] moved_touch [OF t3]])
    have "waits_for start g1 = waits_for start g3"
      using waits_for_moved [OF wf xt st m1] waits_for_moved [OF wf xt st m3] by (intro ext) (metis add_right_cancel)
    then have "countdown (todo start g3) (waits_for start g3) g3"
      using countdown_touch [OF g2(2) t3] todo_moved [OF xt m3] by simp
    moreover have "nodes_in_flight g3 = int (length (jobs g3)) + 1"
      using f0 g2(1) t1 t3 touch_nodes(5) [OF t1] touch_nodes(5) [OF t3] by (simp add: touch_def ctx_def counted_def)
    moreover have "starting g3 = start" "nodes_to_execute g3 = nodes_to_execute g"
      using counted_touch(4,5) [OF g2(1)] t1 t3 s t0(5,7) by (simp_all add: touch_def ctx_def)
    ultimately show ?thesis using j m3 by blast
  qed
  show ?thesis
  proof (cases start)
    case True
    have sx: "process_state (node g0 x) = LPS_Idle \<or> process_state (node g0 x) = LPS_Terminated"
      using xt st True t0(1) by (auto simp: todo_def included_def settled_def)
    have succ: "processSuccessorNodes x g1 = iterate_opt processJob (successors start g x) g1" if "touch x LPS_Running g0 g1" for g1
      using same_static_fields(4) [OF touch_nodes(4) [OF that], of x] t0(1) xl True
      by (simp add: processSuccessorNodes_eq successors_def)
    have ex: "\<exists>g2. processSuccessorNodes x g1 = Some g2 \<and> counted g1 g2" if t: "touch x LPS_Running g0 g1" for g1
      using successors_countdown [OF wf st xt countdown_touch [OF c0 t] moved_trans [OF m0]] moved_touch [OF t] True succ [OF t]
      by (auto simp: goal_state_def)
    obtain g1 g2 g3 where g: "touch x LPS_Running g0 g1" "processSuccessorNodes x g1 = Some g2" "touch x LPS_Running g2 g3"
      "doWork channel own_pid x (coop_calls True cf x p status) g0 = do { g' \<leftarrow> nodeExecuted g3; Some ([], g') }"
      using start_job [of x g0 cf channel own_pid p status, OF _ _ sx _ _ ex] xl cf gs s True t0 by auto
    show ?thesis
      using g(1,3) g(2) [unfolded succ [OF g(1)]] job g(4) True by (intro done2 [of g3 g1 g2]) (auto simp: goal_state_def Option.bind_assoc)
  next
    case False
    have sx: "process_state (node g0 x) = LPS_Running" "dependent_on_terminating (node g0 x) = []"
      using xt st False t0(1) wf by (auto simp: todo_def included_def settled_def graph_wf_def node_wf_def)
    obtain g1 where g1: "touch x LPS_Terminated g0 g1"
      "doWork channel own_pid x (coop_calls False cf x p status) g0 =
        do { g2 \<leftarrow> queueTerminationSuccessorJobs x g1; g' \<leftarrow> nodeExecuted g2; Some ([], g') }"
      using stop_job [of x g0 cf channel own_pid p status] sx xl cf gs s False t0 by auto
    have m1: "moved x (goal_state start) g g1" using moved_trans [OF m0 moved_touch [OF g1(1)]] False by (simp add: goal_state_def)
    have c1: "countdown (todo start g - {x}) (waits_for start g) g1" by (rule countdown_touch [OF c0 g1(1)])
    obtain g2 where g2: "iterate_opt processJob (successors start g x) g1 = Some g2" "counted g1 g2"
      using successors_countdown [OF wf st xt c1 m1] by blast
    obtain ds where ds: "dependency_list (node g x) = Some ds" "\<forall>d \<in> set ds. unat (os_process_index d) < length (nodes g)"
      using wf xl by (auto simp: graph_wf_def node_wf_def)
    have sc: "successors start g x = map (\<lambda>d. unat (os_process_index d)) ds" using False ds(1) by (simp add: successors_def deps_of_def)
    have dl: "dependency_list (node g1 x) = Some ds"
      using ds(1) same_static_fields(2) [OF touch_nodes(4) [OF g1(1)], of x] xl t0(1) by simp
    have ns: "\<not> starting g1" using touch_graph [OF g1(1)] t0(5) s False by simp
    have "\<forall>n \<in> todo start g - {x}. process_state (node g1 n) \<noteq> LPS_Terminated"
      using moved_nodes(2) [OF m1] False by (auto simp: todo_def included_def)
    moreover have "\<forall>n \<in> todo start g - {x}. count_list (map (\<lambda>d. unat (os_process_index d)) ds) n \<le> waits_for start g n"
      using waits_for_moved [OF wf xt st m1] sc by simp
    ultimately have "queueTerminationSuccessorJobs x g1 = Some g2"
      using stop_successors [OF c1, of ds] ds(2) moved_nodes(1) [OF m1] g2(1) dl ns sc by (simp add: queueTerminationSuccessorJobs_def)
    moreover have "touch x LPS_Terminated g2 g2"
      using touch_state [OF g1(1)] xl t0(1) counted_touch(8) [OF g2(2), of x] moved_nodes(1) [OF m1] by (intro touch_refl) simp
    ultimately show ?thesis
      using g1 g2(1) job False by (intro done2 [of g2 g1 g2]) (auto simp: goal_state_def Option.bind_assoc)
  qed
qed


subsection \<open>Progress\<close>

text \<open>
  \<open>rk\<close> witnesses that the dependencies have no cycle; the requested nodes are closed under dependencies.
\<close>

definition ordered :: "(nat \<Rightarrow> nat) \<Rightarrow> Graph \<Rightarrow> bool" where
  "ordered rk g \<longleftrightarrow> (\<forall>n < length (nodes g). \<forall>m \<in> set (deps_of g n). rk m < rk n \<and>
     (in_requested_state (node g n) \<longrightarrow> in_requested_state (node g m)))"

lemma finite_todo [simp]: "finite (todo start g)"
  by (simp add: todo_def)

lemma dependent_iff:
  assumes "graph_wf g" "n < length (nodes g)" "m < length (nodes g)"
  shows "m \<in> set (dependent_on_running (node g n)) \<longleftrightarrow> n \<in> set (deps_of g m)"
proof -
  have "count_list (dependent_on_running (node g n)) m = count_list (deps_of g m) n"
    using assms by (simp add: graph_wf_def node_wf_def)
  then show ?thesis by (metis count_list_0_iff)
qed

text \<open>Some node that is left does not wait: the one of least rank when starting, of greatest rank when stopping.\<close>

lemma head_exists:
  assumes wf: "graph_wf g" and st: "settled g" and o: "ordered rk g" and ne: "todo start g \<noteq> {}"
  shows "\<exists>n \<in> todo start g. waits_for start g n = 0"
proof (cases start)
  case True
  obtain n where n: "n \<in> todo start g" "\<And>m. m \<in> todo start g \<Longrightarrow> rk n \<le> rk m"
    using ex_min_if_finite [of "rk ` todo start g"] ne by (auto simp: not_less)
  have nl: "n < length (nodes g)" "in_requested_state (node g n)" using n(1) True by (auto simp: todo_def included_def)
  have "process_state (node g m) = LPS_Running" if "m \<in> set (deps_of g n)" for m
  proof (rule ccontr)
    assume "process_state (node g m) \<noteq> LPS_Running"
    moreover have "m < length (nodes g)" "in_requested_state (node g m)" "rk m < rk n"
      using that nl o node_wf_sets(1) [OF wf nl(1)] by (auto simp: ordered_def)
    ultimately show False using n(2) [of m] True by (simp add: todo_def included_def)
  qed
  then have "waits_for start g n = 0" using True by (simp add: waits_for_def filter_empty_conv)
  then show ?thesis using n(1) by blast
next
  case False
  have "Max (rk ` todo start g) \<in> rk ` todo start g" using ne by (intro Max_in) auto
  then obtain n where nm: "n \<in> todo start g" "Max (rk ` todo start g) = rk n" by auto
  then have n: "n \<in> todo start g" "\<And>m. m \<in> todo start g \<Longrightarrow> rk m \<le> rk n"
    using Max_ge [of "rk ` todo start g"] by (auto simp flip: nm(2))
  have nl: "n < length (nodes g)" "\<not> in_requested_state (node g n)" using n(1) False by (auto simp: todo_def included_def)
  have "process_state (node g m) \<noteq> LPS_Running" if m: "m \<in> set (dependent_on_running (node g n))" for m
  proof
    assume r: "process_state (node g m) = LPS_Running"
    have ml: "m < length (nodes g)" using m node_wf_sets(2) [OF wf nl(1)] by auto
    then have "n \<in> set (deps_of g m)" using m dependent_iff [OF wf nl(1)] by blast
    then have "rk n < rk m" "\<not> in_requested_state (node g m)" using o ml nl(2) by (auto simp: ordered_def)
    then show False using n(2) [of m] False r ml by (simp add: todo_def included_def)
  qed
  then have "waits_for start g n = 0" using False by (simp add: waits_for_def filter_empty_conv)
  then show ?thesis using n(1) by blast
qed

lemma phase_jobs:
  assumes "phase start g" "ordered rk g" "todo start g \<noteq> {}"
  shows "jobs g \<noteq> []"
proof -
  obtain n where "n \<in> todo start g" "waits_for start g n = 0" using head_exists assms by (metis phase_def)
  then have "n \<in> set (jobs g)" using assms(1) by (simp add: phase_def countdown_def)
  then show ?thesis by auto
qed

text \<open>
  \<open>moving\<close>: a transition under way with \<open>k\<close> jobs to go; \<open>arrived\<close>: its end.
\<close>

definition rest :: "Graph \<Rightarrow> nat" where
  "rest g = (if starting g then 0 else card (todo False g)) + card (todo True g)"

definition moving :: "(nat \<Rightarrow> nat) \<Rightarrow> Graph \<Rightarrow> bool" where
  "moving rk g \<longleftrightarrow> phase (starting g) g \<and> todo (starting g) g \<noteq> {} \<and> ordered rk g \<and> (starting g \<longrightarrow> todo False g = {})"

definition arrived :: "Graph \<Rightarrow> bool" where
  "arrived g \<longleftrightarrow> g_state g = GS_Success \<and> event g = kSetStateSuccess \<and> jobs g = [] \<and> settled g \<and>
     (\<forall>n < length (nodes g). process_state (node g n) = LPS_Running \<longleftrightarrow> in_requested_state (node g n))"

definition kept :: "Graph \<Rightarrow> Graph \<Rightarrow> bool" where
  "kept g g' \<longleftrightarrow> same_static g g' \<and> map in_requested_state (nodes g') = map in_requested_state (nodes g)"

lemma kept_trans: "kept a b \<Longrightarrow> kept b c \<Longrightarrow> kept a c"
  by (auto simp: kept_def intro: same_static_trans)

lemma kept_moved: "moved x s g g' \<Longrightarrow> kept g g'"
  by (simp add: kept_def moved_def)

lemma kept_nodes:
  assumes "kept g g'"
  shows "length (nodes g') = length (nodes g)" "n < length (nodes g) \<Longrightarrow> in_requested_state (node g' n) = in_requested_state (node g n)"
    "n < length (nodes g) \<Longrightarrow> deps_of g' n = deps_of g n"
proof -
  have m: "same_static g g'" "map in_requested_state (nodes g') = map in_requested_state (nodes g)" using assms by (simp_all add: kept_def)
  show l: "length (nodes g') = length (nodes g)" by (rule same_static_node(1) [OF m(1)])
  show "in_requested_state (node g' n) = in_requested_state (node g n)" if "n < length (nodes g)"
    using arg_cong [OF m(2), of "\<lambda>xs. xs ! n"] that l by simp
  show "n < length (nodes g) \<Longrightarrow> deps_of g' n = deps_of g n" using same_static_fields(6) [OF m(1)] by simp
qed

lemma kept_ordered:
  assumes k: "kept g g'" and wf: "graph_wf g" and o: "ordered rk g"
  shows "ordered rk g'"
  unfolding ordered_def kept_nodes(1) [OF k]
proof (intro allI impI ballI)
  fix n m assume n: "n < length (nodes g)" and m: "m \<in> set (deps_of g' n)"
  then have m: "m \<in> set (deps_of g n)" "m < length (nodes g)" using kept_nodes(3) [OF k n] node_wf_sets(1) [OF wf n] by auto
  then show "rk m < rk n \<and> (in_requested_state (node g' n) \<longrightarrow> in_requested_state (node g' m))"
    using o n kept_nodes(2) [OF k] by (auto simp: ordered_def)
qed

lemma kept_wf: "kept g g' \<Longrightarrow> graph_wf g \<Longrightarrow> graph_wf g'"
  by (auto simp: kept_def intro: same_static_wf)

lemma view_kept:
  assumes "view g' = view g"
  shows "kept g g'" "todo start g' = todo start g" "settled g' = settled g" "waits_for start g' = waits_for start g \<or> \<not> graph_wf g"
proof -
  note v = view_nodes [OF assms]
  show k: "kept g g'" unfolding kept_def using v by (auto intro!: nth_equalityI)
  show "todo start g' = todo start g" using v by (auto simp: todo_def included_def)
  show "settled g' = settled g" using v by (simp add: settled_def)
  have "waits_for start g' n = waits_for start g n" if wf: "graph_wf g" for n
  proof (cases "n < length (nodes g)")
    case True
    have "filter (\<lambda>m. process_state (node g' m) \<noteq> LPS_Running) (deps_of g n) = filter (\<lambda>m. process_state (node g m) \<noteq> LPS_Running) (deps_of g n)"
      "filter (\<lambda>m. process_state (node g' m) = LPS_Running) (dependent_on_running (node g n)) =
       filter (\<lambda>m. process_state (node g m) = LPS_Running) (dependent_on_running (node g n))"
      using node_wf_sets [OF wf True] v(2) by (auto intro!: filter_cong)
    then show ?thesis using True v(1) same_static_fields(4,6) [OF v(4) True] by (simp add: waits_for_def)
  qed (simp add: waits_for_def v(1))
  then show "waits_for start g' = waits_for start g \<or> \<not> graph_wf g" by blast
qed


subsection \<open>Entering and leaving a phase\<close>

lemma enter_phase:
  assumes wf: "graph_wf g" and st: "settled g" and o: "ordered rk g" and gs: "g_state g = GS_InTransition" and rm: "room g" "jobs g = []"
  shows "\<exists>g'. queueHeadNodes start g = Some (todo start g \<noteq> {}, g') \<and> view g' = view g \<and> phase start g' \<and> phase_frame g g' \<and>
    (todo start g = {} \<longrightarrow> jobs g' = []) \<and> room g'"
proof -
  let ?h = "filter (\<lambda>n. included start g n \<and> waits_for start g n = 0) [0..<length (nodes g)]"
  obtain g' where g': "queueHeadNodes start g = Some (?h \<noteq> [], g')" "countdown (todo start g) (waits_for start g) g'" "view g' = view g"
    "starting g' = start" "nodes_in_flight g' = int (length ?h)" "jobs g' = ?h" "nodes_to_execute g' = word_of_nat (card (todo start g))"
    "phase_frame g g'"
    using queueHeadNodes_spec [OF wf gs rm, of start] unfolding todo_def by blast
  have heads: "?h \<noteq> [] \<longleftrightarrow> todo start g \<noteq> {}"
    using head_exists [OF wf st o, of start] unfolding todo_def filter_empty_conv by fastforce
  note v = view_kept [OF g'(3)]
  have "waits_for start g' = waits_for start g" using v(4) wf by blast
  then have "phase start g'"
    using g' v(2,3) kept_wf [OF v(1) wf] st by (simp add: phase_def)
  moreover have "room g'" using g'(2) by (simp add: countdown_def)
  ultimately show ?thesis using g'(1,3,6,8) heads by (intro exI [of _ g']) (auto simp: todo_def)
qed

lemma arrivedI:
  assumes "g_state g = GS_Success" "event g = kSetStateSuccess" "jobs g = []" "settled g" "todo False g = {}" "todo True g = {}"
  shows "arrived g"
  using assms unfolding arrived_def settled_def todo_def included_def by (auto split: if_splits)

lemma setPendingEvent_simps [simp]:
  "g_state (setPendingEvent e g) = g_state g" "event (setPendingEvent e g) = e" "nodes (setPendingEvent e g) = nodes g"
  "jobs (setPendingEvent e g) = jobs g" "other_jobs (setPendingEvent e g) = other_jobs g"
  by (simp_all add: setPendingEvent_def nudgeControlClientHandler_def jobs_def other_jobs_def)

lemma jobs_g_setState [simp]: "jobs (g_setState s g) = jobs g"
  by (simp add: jobs_def)

lemma nodes_view: "nodes g' = nodes g \<Longrightarrow> view g' = view g"
  by (simp add: view_def)

lemma reach_success:
  assumes "settled g" "todo False g = {}" "todo True g = {}" "jobs g = []" "g_state g = GS_InTransition"
  shows "arrived (setPendingEvent kSetStateSuccess (g_setState GS_Success g))"
proof -
  have "view (setPendingEvent kSetStateSuccess (g_setState GS_Success g)) = view g" by (rule nodes_view) simp
  note v = view_kept [OF this]
  show ?thesis using assms v(2,3) by (intro arrivedI) simp_all
qed

lemma enter_start:
  assumes wf: "graph_wf g" and st: "settled g" and o: "ordered rk g" and gs: "g_state g = GS_InTransition" and rm: "room g" "jobs g = []"
    and stopped: "todo False g = {}"
  shows "\<exists>g'. queueStartJobs g = Some g' \<and> view g' = view g \<and> (todo True g = {} \<longrightarrow> arrived g') \<and>
    (todo True g \<noteq> {} \<longrightarrow> moving rk g' \<and> rest g' = card (todo True g))"
proof -
  obtain g1 where g1: "queueHeadNodes True g = Some (todo True g \<noteq> {}, g1)" "view g1 = view g" "phase True g1" "phase_frame g g1"
    "todo True g = {} \<longrightarrow> jobs g1 = []"
    using enter_phase [OF wf st o gs rm, of True] by blast
  note v = view_kept [OF g1(2)]
  have gs1: "g_state g1 = GS_InTransition" "starting g1" using g1(3) by (simp_all add: phase_def countdown_def)
  show ?thesis
  proof (cases "todo True g = {}")
    case True
    let ?g = "setPendingEvent kSetStateSuccess (g_setState GS_Success g1)"
    have "arrived ?g" using st stopped True v(2,3) g1(5) gs1(1) by (intro reach_success) simp_all
    moreover have "view ?g = view g" using g1(2) nodes_view [of ?g g1] by simp
    ultimately show ?thesis using True g1(1) by (intro exI [of _ ?g]) (simp add: queueStartJobs_def)
  next
    case False
    have "moving rk g1" using g1(3) gs1 v(2) False stopped kept_ordered [OF v(1) wf o] by (simp add: moving_def)
    moreover have "rest g1 = card (todo True g)" using gs1 v(2) by (simp add: rest_def)
    ultimately show ?thesis using False g1(1,2) by (intro exI [of _ g1]) (simp add: queueStartJobs_def)
  qed
qed

text \<open>The states of the processes; a job sets the state of its own process and of no other.\<close>

abbreviation proc_states :: "Graph \<Rightarrow> LcmProcessState list" where
  "proc_states g \<equiv> map process_state (nodes g)"

lemma view_states: "view g' = view g \<Longrightarrow> proc_states g' = proc_states g"
  using view_nodes by (metis (no_types, lifting) length_map nth_equalityI nth_map)

lemma moved_settled: "moved x (goal_state start) g g' \<Longrightarrow> settled g \<Longrightarrow> settled g'"
  using moved_nodes(1,2) by (auto simp: settled_def goal_state_def)

lemma moving_step:
  assumes mv: "moving rk g" and x: "x \<in> set (jobs g)"
  shows "\<exists>g'. coop_job e x g = Some g' \<and> kept g g' \<and> proc_states g' = (proc_states g)[x := goal_state (starting g)] \<and> rest g > 0 \<and> (rest g = 1 \<longrightarrow> arrived g') \<and>
    (rest g > 1 \<longrightarrow> moving rk g' \<and> rest g' = rest g - 1)"
proof -
  define start where "start = starting g"
  have ph: "phase start g" and o: "ordered rk g" and so: "start \<Longrightarrow> todo False g = {}" using mv by (simp_all add: moving_def start_def)
  have wf: "graph_wf g" and st: "settled g" and ne: "nodes_to_execute g = word_of_nat (card (todo start g))"
    and c: "countdown (todo start g) (waits_for start g) g" using ph by (simp_all add: phase_def)
  have xt: "x \<in> todo start g" using x c by (simp add: countdown_def)
  obtain g2 where g2: "coop_job e x g = nodeExecuted g2" "moved x (goal_state start) g g2" "countdown (todo start g2) (waits_for start g2) g2"
    "starting g2 = start" "nodes_in_flight g2 = int (length (jobs g2)) + 1" "nodes_to_execute g2 = nodes_to_execute g"
    using coop_job_moved [OF ph x] by blast
  have k2: "kept g g2" by (rule kept_moved [OF g2(2)])
  have t2: "todo start g2 = todo start g - {x}" by (rule todo_moved [OF xt g2(2)])
  have cd: "card (todo start g) = card (todo start g2) + 1" using t2 xt card_Suc_Diff1 [of "todo start g" x] by simp
  have bound: "card (todo start g) < 2 ^ 32"
  proof -
    have "card (todo start g) \<le> card {..<length (nodes g)}" by (rule card_mono) (auto simp: todo_def)
    then show ?thesis using wf by (simp add: graph_wf_def)
  qed
  define g3 where "g3 = g2\<lparr>nodes_in_flight := nodes_in_flight g2 - 1, nodes_to_execute := nodes_to_execute g2 - 1\<rparr>"
  have j3: "jobs g3 = jobs g2" "other_jobs g3 = other_jobs g2" by (simp_all add: g3_def jobs_def other_jobs_def)
  have view3: "view g3 = view g2" by (simp add: g3_def view_def)
  note v3 = view_kept [OF view3]
  have k3: "kept g g3" by (rule kept_trans [OF k2 v3(1)])
  have wf2: "graph_wf g2" and wf3: "graph_wf g3" and o3: "ordered rk g3" and st3: "settled g3"
    using kept_wf [OF k2 wf] kept_wf [OF k3 wf] kept_ordered [OF k3 wf o] moved_settled [OF g2(2) st] v3(3) by simp_all
  have pos: "nodes_to_execute g2 > 0"
    using g2(6) ne word_count_eq_0 [OF bound] cd by (simp add: word_neq_0_conv [symmetric])
  have ne3: "nodes_to_execute g3 = word_of_nat (card (todo start g3))" using g2(6) ne cd v3(2) by (simp add: g3_def)
  have z3: "nodes_to_execute g3 = 0 \<longleftrightarrow> todo start g3 = {}"
    using word_count_eq_0 [of "card (todo start g3)"] ne3 bound cd v3(2) by simp
  have gs3: "g_state g3 = GS_InTransition" "starting g3 = start" using g2(3,4) by (simp_all add: g3_def countdown_def)
  have c3: "countdown (todo start g3) (waits_for start g3) g3"
    using g2(3) v3(2) v3(4) wf2 unfolding countdown_def room_def j3 by (simp add: g3_def)
  have mn: "\<And>n. n < length (nodes g) \<Longrightarrow> process_state (node g3 n) = (if n = x then goal_state start else process_state (node g n))"
    "\<And>n. n < length (nodes g) \<Longrightarrow> in_requested_state (node g3 n) = in_requested_state (node g n)" "length (nodes g3) = length (nodes g)"
    using moved_nodes [OF g2(2)] by (simp_all add: g3_def)
  have s3: "proc_states g3 = (proc_states g)[x := goal_state (starting g)]"
    using g2(2) view_states [OF view3] by (simp add: moved_def start_def)
  have other: "todo (\<not> start) g3 = todo (\<not> start) g"
    using xt so unfolding todo_def mn(3) by (cases start) (auto simp: included_def mn goal_state_def split: if_splits)
  have ex: "coop_job e x g = (if nodes_to_execute g3 = 0
      then (if start then (let g = (if is_initial_state_transition g3
                                    then setInitialStateTransitionResult kInitialMachineStateSuccess (g3\<lparr>is_initial_state_transition := False\<rparr>)
                                    else g3)
                           in Some (setPendingEvent kSetStateSuccess (g_setState GS_Success g)))
            else queueStartJobs g3)
      else Some g3)"
    using g2(1,3) pos gs3(2) by (simp add: nodeExecuted_def countdown_def handleTransitionExecution_def g3_def Let_def)
  show ?thesis
  proof (cases "todo start g3 = {}")
    case False
    have "phase start g3" using wf3 st3 gs3 c3 ne3 j3 g2(5) by (simp add: phase_def) (simp add: g3_def)
    then have "moving rk g3" using False gs3 o3 other so by (cases start) (simp_all add: moving_def)
    moreover have "rest g3 = rest g - 1" "rest g > 1"
      using cd v3(2) other gs3(2) start_def False card_gt_0_iff [of "todo start g3"] by (cases start; simp add: rest_def)+
    ultimately show ?thesis using ex z3 False k3 s3 by (intro exI [of _ g3]) simp
  next
    case True
    have j0: "jobs g3 = []" "room g3" using c3 True by (simp_all add: countdown_def)
    show ?thesis
    proof (cases start)
      case s: True
      let ?h = "if is_initial_state_transition g3
        then setInitialStateTransitionResult kInitialMachineStateSuccess (g3\<lparr>is_initial_state_transition := False\<rparr>) else g3"
      have hv: "view ?h = view g3" and hj: "jobs ?h = jobs g3" "g_state ?h = g_state g3"
        by (simp_all add: view_def jobs_def setInitialStateTransitionResult_def nudgeControlClientHandler_def)
      note vh = view_kept [OF hv]
      have "arrived (setPendingEvent kSetStateSuccess (g_setState GS_Success ?h))"
        using True s so other j0 hj gs3 st3 vh(2,3) by (intro reach_success) simp_all
      moreover have vf: "view (setPendingEvent kSetStateSuccess (g_setState GS_Success ?h)) = view g3"
        using hv nodes_view [of "setPendingEvent kSetStateSuccess (g_setState GS_Success ?h)" ?h] by simp
      moreover have "rest g = 1" using cd True v3(2) s start_def by (simp add: rest_def)
      ultimately show ?thesis
        using ex z3 True s kept_trans [OF k3 view_kept(1) [OF vf]] view_states [OF vf] s3
        by (intro exI [of _ "setPendingEvent kSetStateSuccess (g_setState GS_Success ?h)"]) (simp add: Let_def)
    next
      case s: False
      obtain g' where g': "queueStartJobs g3 = Some g'" "view g' = view g3" "todo True g3 = {} \<longrightarrow> arrived g'"
        "todo True g3 \<noteq> {} \<longrightarrow> moving rk g' \<and> rest g' = card (todo True g3)"
        using enter_start [OF wf3 st3 o3 gs3(1) j0(2,1)] True s by auto
      have r: "rest g = card (todo True g3) + 1" using cd True v3(2) s start_def other by (simp add: rest_def)
      show ?thesis using ex z3 True s g' r kept_trans [OF k3 view_kept(1) [OF g'(2)]] view_states [OF g'(2)] s3
        by (intro exI [of _ g']) (auto simp: card_gt_0_iff)
    qed
  qed
qed


subsection \<open>Transitions\<close>

text \<open>The worker threads take the jobs in the order of a list.\<close>

fun run_jobs :: "(nat \<times> JobEnv) list \<Rightarrow> Graph \<Rightarrow> Graph option" where
  "run_jobs [] g = Some g"
| "run_jobs ((x, e) # js) g = do { g \<leftarrow> coop_job e x g; run_jobs js g }"

text \<open>
  A process may be started when the processes it depends on run, and stopped when no process that
  depends on it runs.
\<close>

definition in_order :: "nat \<Rightarrow> Graph \<Rightarrow> bool" where
  "in_order x g \<longleftrightarrow>
     (if starting g then \<forall>m \<in> set (deps_of g x). process_state (node g m) = LPS_Running
      else \<forall>m < length (nodes g). x \<in> set (deps_of g m) \<longrightarrow> process_state (node g m) \<noteq> LPS_Running)"

lemma moving_in_order:
  assumes mv: "moving rk g" and x: "x \<in> set (jobs g)"
  shows "in_order x g"
proof -
  have wf: "graph_wf g" and c: "countdown (todo (starting g) g) (waits_for (starting g) g) g" using mv by (simp_all add: moving_def phase_def)
  then have xl: "x < length (nodes g)" and w: "waits_for (starting g) g x = 0" using x by (auto simp: countdown_def)
  show ?thesis
    using w xl dependent_iff [OF wf xl] by (auto simp: in_order_def waits_for_def filter_empty_conv split: if_splits)
qed

lemma coop_job_in_jobs: "coop_job e x g = Some g' \<Longrightarrow> x \<in> set (jobs g)"
  by (simp add: coop_job_def split: if_splits)

lemma arrived_run: "arrived g \<Longrightarrow> run_jobs js g = Some g' \<Longrightarrow> js = [] \<and> g' = g"
  by (cases js) (auto simp: arrived_def coop_job_def split: bind_splits)

text \<open>A process that is not requested keeps its state, or it was running and has been terminated.\<close>

definition left_or_stopped :: "Graph \<Rightarrow> Graph \<Rightarrow> bool" where
  "left_or_stopped g g' \<longleftrightarrow> (\<forall>n < length (nodes g). \<not> in_requested_state (node g n) \<longrightarrow>
     process_state (node g' n) = process_state (node g n) \<or>
     process_state (node g n) = LPS_Running \<and> process_state (node g' n) = LPS_Terminated)"

lemma left_or_stopped_trans:
  "kept a b \<Longrightarrow> left_or_stopped a b \<Longrightarrow> left_or_stopped b c \<Longrightarrow> left_or_stopped a c"
  using kept_nodes(1,2) [of a b] unfolding left_or_stopped_def by (metis LcmProcessState.distinct(17))

lemma moving_job_stops:
  assumes mv: "moving rk g" and x: "x \<in> set (jobs g)" and k: "kept g g'" and s: "proc_states g' = (proc_states g)[x := goal_state (starting g)]"
  shows "left_or_stopped g g'"
  unfolding left_or_stopped_def
proof (intro allI impI)
  fix n assume n: "n < length (nodes g)" and r: "\<not> in_requested_state (node g n)"
  have xt: "x \<in> todo (starting g) g" and st: "settled g" using mv x by (simp_all add: moving_def phase_def countdown_def)
  have "process_state (node g' n) = (if n = x then goal_state (starting g) else process_state (node g n))"
    using arg_cong [OF s, of "\<lambda>ys. ys ! n"] n kept_nodes(1) [OF k] by (auto simp: nth_list_update)
  then show "process_state (node g' n) = process_state (node g n) \<or>
     process_state (node g n) = LPS_Running \<and> process_state (node g' n) = LPS_Terminated"
    using xt st r n by (auto simp: todo_def included_def settled_def goal_state_def split: if_splits)
qed

lemma moving_run:
  assumes "moving rk g" "run_jobs js g = Some g'"
  shows "length js \<le> rest g \<and> kept g g' \<and> left_or_stopped g g' \<and> (length js < rest g \<longrightarrow> moving rk g' \<and> rest g' = rest g - length js) \<and>
    (length js = rest g \<longrightarrow> arrived g')"
  using assms
proof (induction js arbitrary: g)
  case Nil
  have "rest g > 0" using Nil.prems(1) by (auto simp: moving_def rest_def card_gt_0_iff split: if_splits)
  then show ?case using Nil.prems by (simp add: kept_def left_or_stopped_def)
next
  case (Cons j js)
  obtain x e where j: "j = (x, e)" by (cases j)
  obtain g1 where g1: "coop_job e x g = Some g1" "run_jobs js g1 = Some g'" using Cons.prems(2) j by (auto split: bind_splits)
  then have x: "x \<in> set (jobs g)" by (blast dest: coop_job_in_jobs)
  have s: "kept g g1" "rest g > 0" "rest g = 1 \<longrightarrow> arrived g1" "rest g > 1 \<longrightarrow> moving rk g1 \<and> rest g1 = rest g - 1"
    "proc_states g1 = (proc_states g)[x := goal_state (starting g)]"
    using moving_step [OF Cons.prems(1) x, of e] g1(1) by auto
  have l: "left_or_stopped g g1" by (rule moving_job_stops [OF Cons.prems(1) x s(1,5)])
  show ?case
  proof (cases "rest g = 1")
    case True
    then have "js = []" "g' = g1" using arrived_run [OF _ g1(2)] s(3) by auto
    then show ?thesis using True s l by simp
  next
    case False
    then have m: "moving rk g1" "rest g1 = rest g - 1" "rest g > 1" using s(2,4) by auto
    have r: "length js \<le> rest g1" "kept g1 g'" "left_or_stopped g1 g'" "length js < rest g1 \<longrightarrow> moving rk g' \<and> rest g' = rest g1 - length js"
      "length js = rest g1 \<longrightarrow> arrived g'" using Cons.IH [OF m(1) g1(2)] by auto
    then show ?thesis using m(2,3) kept_trans [OF s(1) r(2)] left_or_stopped_trans [OF s(1) l r(3)] by auto
  qed
qed

lemma mark_true:
  fixes idx :: "u32 list"
  shows "\<exists>xs. fold (\<lambda>i g. if unat i < length (nodes g) then markRequested True (unat i) g else g) idx g = g\<lparr>nodes := xs\<rparr> \<and>
    length xs = length (nodes g) \<and>
    (\<forall>n < length (nodes g). xs ! n = (node g n)\<lparr>in_requested_state := in_requested_state (node g n) \<or> n \<in> unat ` set idx\<rparr>)"
proof (induction idx arbitrary: g)
  case Nil
  show ?case by (intro exI [of _ "nodes g"]) simp
next
  case (Cons i idx)
  define g1 where "g1 = (if unat i < length (nodes g) then markRequested True (unat i) g else g)"
  obtain xs where xs: "fold (\<lambda>i g. if unat i < length (nodes g) then markRequested True (unat i) g else g) idx g1 = g1\<lparr>nodes := xs\<rparr>"
    "length xs = length (nodes g1)"
    "\<forall>n < length (nodes g1). xs ! n = (node g1 n)\<lparr>in_requested_state := in_requested_state (node g1 n) \<or> n \<in> unat ` set idx\<rparr>"
    using Cons [of g1] by blast
  have "g1\<lparr>nodes := xs\<rparr> = g\<lparr>nodes := xs\<rparr>" "length (nodes g1) = length (nodes g)"
    by (simp_all add: g1_def markRequested_def upd_node_def)
  moreover have "node g1 n = (node g n)\<lparr>in_requested_state := in_requested_state (node g n) \<or> n = unat i\<rparr>" if "n < length (nodes g)" for n
    using that by (simp add: g1_def markRequested_def node_upd_node)
  ultimately show ?case using xs by (intro exI [of _ xs]) (auto simp: g1_def [symmetric])
qed

lemma mark_requested:
  "\<exists>xs. fold (\<lambda>i g. if unat i < length (nodes g) then markRequested True (unat i) g else g) (idx :: u32 list)
      (fold (markRequested False) [0..<length (nodes g)] g) = g\<lparr>nodes := xs\<rparr> \<and> length xs = length (nodes g) \<and>
    (\<forall>n < length (nodes g). xs ! n = (node g n)\<lparr>in_requested_state := n \<in> unat ` set idx\<rparr>)"
proof -
  define g1 where "g1 = fold (markRequested False) [0..<length (nodes g)] g"
  have f: "markRequested False = (\<lambda>n. upd_node n (\<lambda>t. t\<lparr>in_requested_state := False\<rparr>))" by (intro ext) (simp add: markRequested_def)
  obtain ys where ys: "g1 = g\<lparr>nodes := ys\<rparr>" 
    using fold_upd_frame [of "\<lambda>n t. t\<lparr>in_requested_state := False\<rparr>" "[0..<length (nodes g)]" g] unfolding g1_def f by blast
  have n1: "length (nodes g1) = length (nodes g)" "\<And>n. n < length (nodes g) \<Longrightarrow> node g1 n = (node g n)\<lparr>in_requested_state := False\<rparr>"
    using fold_upd [of "[0..<length (nodes g)]" "\<lambda>n t. t\<lparr>in_requested_state := False\<rparr>" g] unfolding g1_def f by simp_all
  obtain xs where xs: "fold (\<lambda>i g. if unat i < length (nodes g) then markRequested True (unat i) g else g) idx g1 = g1\<lparr>nodes := xs\<rparr>"
    "length xs = length (nodes g1)"
    "\<forall>n < length (nodes g1). xs ! n = (node g1 n)\<lparr>in_requested_state := in_requested_state (node g1 n) \<or> n \<in> unat ` set idx\<rparr>"
    using mark_true by blast
  then show ?thesis using n1 ys by (intro exI [of _ xs]) (simp add: g1_def [symmetric])
qed

text \<open>
  The jobs of a transition to the processes \<open>Q\<close>, and the state in which it leaves a process: a requested process
  runs, a process that was running and is not requested is terminated, every other process keeps its state.
\<close>

definition work :: "nat set \<Rightarrow> Graph \<Rightarrow> nat" where
  "work Q g = card {n. n < length (nodes g) \<and> process_state (node g n) = LPS_Running \<and> n \<notin> Q} +
     card {n. n < length (nodes g) \<and> process_state (node g n) \<noteq> LPS_Running \<and> n \<in> Q}"

definition final_state :: "nat set \<Rightarrow> Graph \<Rightarrow> nat \<Rightarrow> LcmProcessState" where
  "final_state Q g n = (if n \<in> Q then LPS_Running else if process_state (node g n) = LPS_Running then LPS_Terminated
     else process_state (node g n))"

text \<open>
  What a job does when it is taken: it is in order, it succeeds whatever the process identifiers, the exit status and
  the channel are, and it brings its own process, and no other, into the state running or terminated.
\<close>

definition job_succeeds :: "nat \<Rightarrow> Graph \<Rightarrow> bool" where
  "job_succeeds x g \<longleftrightarrow> in_order x g \<and>
     (\<forall>e. \<exists>g'. coop_job e x g = Some g' \<and> proc_states g' = (proc_states g)[x := if starting g then LPS_Running else LPS_Terminated])"

text \<open>
  Everything about the transition of the graph \<open>h\<close> to the processes \<open>Q\<close> whose first jobs have been queued in \<open>g\<close>:
  it takes \<open>k\<close> jobs; before that a job can be taken, and every job that can be taken succeeds; then the transition
  is over and every process is in its final state.
\<close>

definition reaches :: "nat set \<Rightarrow> Graph \<Rightarrow> nat \<Rightarrow> Graph \<Rightarrow> bool" where
  "reaches Q h k g \<longleftrightarrow> (\<forall>js g'. run_jobs js g = Some g' \<longrightarrow> length js \<le> k \<and>
     (length js < k \<longrightarrow> g_state g' = GS_InTransition \<and> jobs g' \<noteq> [] \<and> (\<forall>x \<in> set (jobs g'). job_succeeds x g')) \<and>
     (length js = k \<longrightarrow> g_state g' = GS_Success \<and> event g' = kSetStateSuccess \<and> jobs g' = [] \<and>
        proc_states g' = map (final_state Q h) [0..<length (nodes h)]))"

lemma moving_job_succeeds:
  assumes "moving rk g" "x \<in> set (jobs g)"
  shows "job_succeeds x g"
  using moving_in_order [OF assms] moving_step [OF assms] unfolding job_succeeds_def goal_state_def by blast

lemma arrived_states:
  assumes a: "arrived g'" and k: "kept g g'" and l: "left_or_stopped g g'" and s: "proc_states g = proc_states h"
    and q: "\<And>n. n < length (nodes g) \<Longrightarrow> in_requested_state (node g n) \<longleftrightarrow> n \<in> Q"
  shows "proc_states g' = map (final_state Q h) [0..<length (nodes h)]"
proof (rule nth_equalityI)
  have len: "length (nodes g) = length (nodes h)" using arg_cong [OF s, of length] by simp
  show "length (proc_states g') = length (map (final_state Q h) [0..<length (nodes h)])" using kept_nodes(1) [OF k] len by simp
  fix n assume "n < length (proc_states g')"
  then have n: "n < length (nodes g')" "n < length (nodes g)" "n < length (nodes h)" using kept_nodes(1) [OF k] len by simp_all
  have h: "process_state (node h n) = process_state (node g n)" using arg_cong [OF s, of "\<lambda>ys. ys ! n"] n by simp
  have "process_state (node g' n) = LPS_Running \<longleftrightarrow> n \<in> Q" using a n q kept_nodes(2) [OF k n(2)] by (simp add: arrived_def)
  moreover have "n \<notin> Q \<longrightarrow> process_state (node g' n) = process_state (node g n) \<or>
      process_state (node g n) = LPS_Running \<and> process_state (node g' n) = LPS_Terminated"
    using l n(2) q by (auto simp: left_or_stopped_def)
  ultimately have "process_state (node g' n) = final_state Q h n" using h by (auto simp: final_state_def)
  then show "proc_states g' ! n = map (final_state Q h) [0..<length (nodes h)] ! n" using n by simp
qed

lemma moving_reaches:
  assumes mv: "moving rk g" and s: "proc_states g = proc_states h"
    and q: "\<And>n. n < length (nodes g) \<Longrightarrow> in_requested_state (node g n) \<longleftrightarrow> n \<in> Q"
  shows "reaches Q h (rest g) g"
  unfolding reaches_def
proof (intro allI impI conjI)
  fix js g' assume r: "run_jobs js g = Some g'"
  note m = moving_run [OF mv r]
  show "length js \<le> rest g" using m by blast
  show "g_state g' = GS_InTransition" "jobs g' \<noteq> []" "\<forall>x \<in> set (jobs g'). job_succeeds x g'" if "length js < rest g"
  proof -
    have mv': "moving rk g'" using m that by blast
    then show "g_state g' = GS_InTransition" by (simp add: moving_def phase_def countdown_def)
    show "jobs g' \<noteq> []" using mv' phase_jobs by (auto simp: moving_def)
    show "\<forall>x \<in> set (jobs g'). job_succeeds x g'" using moving_job_succeeds [OF mv'] by blast
  qed
  show "g_state g' = GS_Success" "event g' = kSetStateSuccess" "jobs g' = []" "proc_states g' = map (final_state Q h) [0..<length (nodes h)]"
    if "length js = rest g"
    using m that arrived_states [of g' g h Q] s q by (auto simp: arrived_def)
qed

lemma arrived_reaches:
  assumes "arrived g" "proc_states g = proc_states h" "\<And>n. n < length (nodes g) \<Longrightarrow> in_requested_state (node g n) \<longleftrightarrow> n \<in> Q"
  shows "reaches Q h 0 g"
proof -
  have "kept g g" "left_or_stopped g g" by (simp_all add: kept_def left_or_stopped_def)
  then have "proc_states g = map (final_state Q h) [0..<length (nodes h)]" using arrived_states assms by blast
  then show ?thesis unfolding reaches_def using arrived_run [OF assms(1)] assms(1) by (auto simp: arrived_def)
qed

text \<open>Marking the requested processes sets up a transition whose phases are determined by the request.\<close>

lemma mark_spec:
  fixes rk :: "nat \<Rightarrow> nat"
  assumes wf: "graph_wf g" and st: "settled g" and gs: "g_state g = GS_InTransition" and rm: "room g" "jobs g = []"
    and rk: "\<forall>n < length (nodes g). \<forall>m \<in> set (deps_of g n). rk m < rk n"
    and closed: "\<forall>n < length (nodes g). n \<in> unat ` set idx \<longrightarrow> set (deps_of g n) \<subseteq> unat ` set idx"
  shows "\<exists>g1. queueStopJobs idx g = do { (queued, g) \<leftarrow> queueHeadNodes False g1; (if \<not> queued then queueStartJobs g else Some g) } \<and>
    graph_wf g1 \<and> settled g1 \<and> ordered rk g1 \<and> g_state g1 = GS_InTransition \<and> room g1 \<and> jobs g1 = [] \<and> proc_states g1 = proc_states g \<and>
    (\<forall>n < length (nodes g1). in_requested_state (node g1 n) \<longleftrightarrow> n \<in> unat ` set idx) \<and>
    card (todo False g1) + card (todo True g1) = work (unat ` set idx) g"
proof -
  let ?Q = "unat ` set idx"
  obtain xs where xs: "fold (\<lambda>i g. if unat i < length (nodes g) then markRequested True (unat i) g else g) idx
      (fold (markRequested False) [0..<length (nodes g)] g) = g\<lparr>nodes := xs\<rparr>" "length xs = length (nodes g)"
    "\<forall>n < length (nodes g). xs ! n = (node g n)\<lparr>in_requested_state := n \<in> ?Q\<rparr>"
    using mark_requested [of idx g] by blast
  define g1 where "g1 = g\<lparr>nodes := xs\<rparr>"
  have n1: "length (nodes g1) = length (nodes g)" "\<And>n. n < length (nodes g) \<Longrightarrow> node g1 n = (node g n)\<lparr>in_requested_state := n \<in> ?Q\<rparr>"
    using xs(2,3) by (simp_all add: g1_def)
  have ss: "same_static g g1" unfolding same_static_def using n1 by (auto intro!: nth_equalityI simp: static_def)
  have "ordered rk g1"
    unfolding ordered_def n1(1)
  proof (intro allI impI ballI)
    fix n m assume n: "n < length (nodes g)" and "m \<in> set (deps_of g1 n)"
    then have m: "m \<in> set (deps_of g n)" "m < length (nodes g)"
      using same_static_fields(6) [OF ss n] node_wf_sets(1) [OF wf n] by auto
    then show "rk m < rk n \<and> (in_requested_state (node g1 n) \<longrightarrow> in_requested_state (node g1 m))"
      using rk closed n n1(2) [OF n] n1(2) [OF m(2)] by auto
  qed
  moreover have "todo False g1 = {n. n < length (nodes g) \<and> process_state (node g n) = LPS_Running \<and> n \<notin> ?Q}"
    "todo True g1 = {n. n < length (nodes g) \<and> process_state (node g n) \<noteq> LPS_Running \<and> n \<in> ?Q}"
    using st n1 by (auto simp: todo_def included_def settled_def)
  then have "card (todo False g1) + card (todo True g1) = work ?Q g" by (simp add: work_def)
  moreover have "settled g1" using st n1 by (simp add: settled_def)
  moreover have "proc_states g1 = proc_states g" using n1 by (intro nth_equalityI) simp_all
  moreover have "g_state g1 = GS_InTransition" "room g1" "jobs g1 = []"
    using gs rm xs(2) by (simp_all add: g1_def room_def jobs_def other_jobs_def)
  moreover have "queueStopJobs idx g = do { (queued, g) \<leftarrow> queueHeadNodes False g1; (if \<not> queued then queueStartJobs g else Some g) }"
    by (simp add: queueStopJobs_def xs(1) g1_def)
  ultimately show ?thesis using n1 same_static_wf [OF ss wf] by (intro exI [of _ g1]) simp
qed

lemma queueStopJobs_reaches:
  fixes rk :: "nat \<Rightarrow> nat"
  assumes "graph_wf g" "settled g" "g_state g = GS_InTransition" "room g" "jobs g = []"
    and "\<forall>n < length (nodes g). \<forall>m \<in> set (deps_of g n). rk m < rk n"
    and "\<forall>n < length (nodes g). n \<in> unat ` set idx \<longrightarrow> set (deps_of g n) \<subseteq> unat ` set idx"
  shows "\<exists>g0. queueStopJobs idx g = Some g0 \<and> reaches (unat ` set idx) g (work (unat ` set idx) g) g0"
proof -
  let ?Q = "unat ` set idx"
  obtain g1 where qs: "queueStopJobs idx g = do { (queued, g) \<leftarrow> queueHeadNodes False g1; (if \<not> queued then queueStartJobs g else Some g) }"
    and wf1: "graph_wf g1" "settled g1" "ordered rk g1" "g_state g1 = GS_InTransition" "room g1" "jobs g1 = []"
    and s1: "proc_states g1 = proc_states g"
    and req: "\<forall>n < length (nodes g1). in_requested_state (node g1 n) \<longleftrightarrow> n \<in> ?Q"
    and wk: "card (todo False g1) + card (todo True g1) = work ?Q g"
    using mark_spec [OF assms] by blast
  obtain g2 where g2: "queueHeadNodes False g1 = Some (todo False g1 \<noteq> {}, g2)" "view g2 = view g1" "phase False g2" "phase_frame g1 g2"
    "todo False g1 = {} \<longrightarrow> jobs g2 = []" "room g2"
    using enter_phase [OF wf1, of False] by blast
  note v = view_kept [OF g2(2)]
  have s2: "proc_states g2 = proc_states g" using view_states [OF g2(2)] s1 by simp
  have gs2: "g_state g2 = GS_InTransition" "\<not> starting g2" using g2(3) by (simp_all add: phase_def countdown_def)
  have wf2: "graph_wf g2" "settled g2" "ordered rk g2" using kept_wf [OF v(1) wf1(1)] v(3) wf1(2) kept_ordered [OF v(1) wf1(1,3)] by simp_all
  have req2: "in_requested_state (node g2 n) \<longleftrightarrow> n \<in> ?Q" if "n < length (nodes g2)" for n
    using req that kept_nodes(1,2) [OF v(1)] by simp
  show ?thesis
  proof (cases "todo False g1 = {}")
    case True
    obtain g0 where g0: "queueStartJobs g2 = Some g0" "view g0 = view g2" "todo True g2 = {} \<longrightarrow> arrived g0"
      "todo True g2 \<noteq> {} \<longrightarrow> moving rk g0 \<and> rest g0 = card (todo True g2)"
      using enter_start [OF wf2 gs2(1) g2(6)] g2(5) True v(2) by auto
    have req0: "in_requested_state (node g0 n) \<longleftrightarrow> n \<in> ?Q" if "n < length (nodes g0)" for n
      using req2 that kept_nodes(1,2) [OF view_kept(1) [OF g0(2)]] by simp
    have s0: "proc_states g0 = proc_states g" using view_states [OF g0(2)] s2 by simp
    have w: "work ?Q g = card (todo True g2)" using True wk v(2) by simp
    have q: "queueStopJobs idx g = Some g0" using qs g2(1) True g0(1) by simp
    show ?thesis
    proof (cases "todo True g2 = {}")
      case True
      then show ?thesis using q w g0(3) arrived_reaches [OF _ s0 req0] by simp
    next
      case False
      then show ?thesis using q w g0(4) moving_reaches [OF _ s0 req0, of rk] by (intro exI [of _ g0]) simp
    qed
  next
    case False
    have "moving rk g2" using g2(3) gs2 False v(2) wf2(3) by (simp add: moving_def)
    then have "reaches ?Q g (rest g2) g2" using moving_reaches [OF _ s2 req2] by blast
    moreover have "rest g2 = work ?Q g" using gs2 v(2) wk by (simp add: rest_def)
    ultimately show ?thesis using qs g2(1) False by simp
  qed
qed

end
