(* ===== verification/Group_Construction.thy ===== *)
theory Group_Construction
  imports Transition_Order
begin

section \<open>From the configuration to the graph of a process group\<close>

text \<open>
  The graph that \<^verbatim>\<open>Graph::initProcessGroupNodes\<close> builds for a configured process group is well-formed in the
  sense of \<open>Transition_Countdown\<close>: the successor lists are the reverse of the configured dependencies. So the theorems
  on transitions apply to every group whose dependencies are on running processes.
\<close>

definition built_node :: "IdentifierHash \<Rightarrow> ConfigurationManager \<Rightarrow> nat \<Rightarrow> ProcessInfoNode" where
  "built_node name cm i = ProcessInfoNode_new\<lparr>process_index := word_of_nat i, n_config := getOsProcessConfiguration name (word_of_nat i) cm,
     dependency_list := getOsProcessDependencies name (word_of_nat i) cm,
     start_dependencies := word_of_nat (length (the (getOsProcessDependencies name (word_of_nat i) cm)))\<rparr>"

lemma config_deps: "getOsProcessConfiguration name i cm = Some c \<Longrightarrow> getOsProcessDependencies name i cm = Some (dependencies_of c)"
  by (auto simp: getOsProcessConfiguration_def getOsProcessDependencies_def)

lemma setLaunchManagerConfiguration_eq:
  "\<exists>lm. setLaunchManagerConfiguration c g = g\<lparr>pgm := (pgm g)\<lparr>launch_manager_config := lm\<rparr>\<rparr>"
  by (rule exI [of _ "if launch_manager_config (pgm g) = None then Some c else launch_manager_config (pgm g)"])
    (simp add: setLaunchManagerConfiguration_def upd_pgm_def)

lemma createProcessInfoNodes_eq:
  assumes "nodes g = []" "\<forall>i < n. getOsProcessConfiguration (id_pg_name (requested_state g)) (word_of_nat i) (configuration_manager (pgm g)) \<noteq> None"
  shows "\<exists>lm. createProcessInfoNodes n g =
    g\<lparr>nodes := map (built_node (id_pg_name (requested_state g)) (configuration_manager (pgm g))) [0..<n], pgm := (pgm g)\<lparr>launch_manager_config := lm\<rparr>\<rparr>"
  using assms(2)
proof (induction n)
  case 0
  show ?case using assms(1) by (intro exI [of _ "launch_manager_config (pgm g)"]) (simp add: createProcessInfoNodes_def)
next
  case (Suc n)
  let ?name = "id_pg_name (requested_state g)" let ?cm = "configuration_manager (pgm g)"
  let ?b = "built_node ?name ?cm"
  obtain lm where ih: "createProcessInfoNodes n g = g\<lparr>nodes := map ?b [0..<n], pgm := (pgm g)\<lparr>launch_manager_config := lm\<rparr>\<rparr>"
    using Suc by auto
  obtain c where c: "getOsProcessConfiguration ?name (word_of_nat n) ?cm = Some c" using Suc.prems by auto
  let ?g = "g\<lparr>nodes := map ?b [0..<n] @ [ProcessInfoNode_new], pgm := (pgm g)\<lparr>launch_manager_config := lm\<rparr>\<rparr>"
  have "\<exists>lm'. initNode n ?g = ?g\<lparr>nodes := map ?b [0..<Suc n], pgm := (pgm ?g)\<lparr>launch_manager_config := lm'\<rparr>\<rparr>"
  proof -
    define h where "h = upd_node n (\<lambda>t. t\<lparr>process_index := word_of_nat n, n_pid := 0, n_status := 0, process_state := LPS_Idle, dependencies := 0,
        dependency_list := None, dependent_on_running := [], dependent_on_terminating := [], start_dependencies := 0, n_config := Some c\<rparr>) ?g"
    define k where "k = (if comms_type (startup_config c) = kLaunchManager then setLaunchManagerConfiguration c h else h)"
    obtain lm' where k: "k = h\<lparr>pgm := (pgm h)\<lparr>launch_manager_config := lm'\<rparr>\<rparr>"
    proof (cases "comms_type (startup_config c) = kLaunchManager")
      case True
      then show ?thesis using setLaunchManagerConfiguration_eq [of c h] that by (auto simp: k_def)
    next
      case False
      then show ?thesis using that [of "launch_manager_config (pgm h)"] by (simp add: k_def)
    qed
    have "initNode n ?g = upd_node n (\<lambda>t. t\<lparr>dependency_list := Some (dependencies_of c), start_dependencies := word_of_nat (length (dependencies_of c))\<rparr>) k"
      unfolding initNode_def Let_def by (simp add: c config_deps [OF c] k_def h_def Let_def)
    also have "\<dots> = ?g\<lparr>nodes := map ?b [0..<Suc n], pgm := (pgm ?g)\<lparr>launch_manager_config := lm'\<rparr>\<rparr>"
      unfolding k by (simp add: h_def upd_node_def nth_append list_update_append built_node_def c config_deps [OF c] ProcessInfoNode_new_def)
    finally show ?thesis by blast
  qed
  then obtain lm' where "initNode n ?g = ?g\<lparr>nodes := map ?b [0..<Suc n], pgm := (pgm ?g)\<lparr>launch_manager_config := lm'\<rparr>\<rparr>" by blast
  moreover have "createProcessInfoNodes (Suc n) g = initNode n ((createProcessInfoNodes n g)\<lparr>nodes := nodes (createProcessInfoNodes n g) @ [ProcessInfoNode_new]\<rparr>)"
    by (simp add: createProcessInfoNodes_def)
  moreover have "(createProcessInfoNodes n g)\<lparr>nodes := nodes (createProcessInfoNodes n g) @ [ProcessInfoNode_new]\<rparr> = ?g" unfolding ih by simp
  ultimately show ?case by (intro exI [of _ lm']) simp
qed

text \<open>The successor lists, as one pass over the edges of the group.\<close>

definition add_edge :: "nat \<times> Dependency \<Rightarrow> Graph \<Rightarrow> Graph" where
  "add_edge e g = (if unat (os_process_index (snd e)) < length (nodes g)
     then upd_node (unat (os_process_index (snd e))) (addSuccessorNode (fst e) (dep_process_state (snd e))) g else g)"

lemma add_edge_pair:
  "add_edge (n, d) = (\<lambda>g. if unat (os_process_index d) < length (nodes g)
     then upd_node (unat (os_process_index d)) (addSuccessorNode n (dep_process_state d)) g else g)"
  by (intro ext) (simp add: add_edge_def)

definition edges :: "(nat \<Rightarrow> Dependency list) \<Rightarrow> nat list \<Rightarrow> (nat \<times> Dependency) list" where
  "edges ds ns = concat (map (\<lambda>n. map (Pair n) (ds n)) ns)"

lemma add_edge_frame:
  "\<exists>xs. add_edge e g = g\<lparr>nodes := xs\<rparr> \<and> map process_index xs = map process_index (nodes g)"
proof (cases "unat (os_process_index (snd e)) < length (nodes g)")
  case True
  have "process_index (addSuccessorNode n s t) = process_index t" for n s t by (simp add: addSuccessorNode_def)
  then have "map process_index (nodes (add_edge e g)) = map process_index (nodes g)" using True by (simp add: add_edge_def upd_node_def map_update)
  then show ?thesis using True by (intro exI [of _ "nodes (add_edge e g)"]) (simp add: add_edge_def upd_node_def)
next
  case False
  then show ?thesis by (intro exI [of _ "nodes g"]) (simp add: add_edge_def)
qed

lemma fold_add_edge_frame:
  "\<exists>xs. fold add_edge es g = g\<lparr>nodes := xs\<rparr> \<and> map process_index xs = map process_index (nodes g)"
proof (induction es arbitrary: g)
  case Nil
  show ?case by (intro exI [of _ "nodes g"]) simp
next
  case (Cons e es)
  obtain xs where xs: "add_edge e g = g\<lparr>nodes := xs\<rparr>" "map process_index xs = map process_index (nodes g)" using add_edge_frame by blast
  obtain ys where "fold add_edge es (g\<lparr>nodes := xs\<rparr>) = g\<lparr>nodes := xs, nodes := ys\<rparr>" "map process_index ys = map process_index xs"
    using Cons [of "g\<lparr>nodes := xs\<rparr>"] by auto
  then show ?case using xs by auto
qed

lemma createSuccessorLists_eq:
  assumes "\<forall>n \<in> set ns. n < length (nodes g)" "\<forall>n < length (nodes g). process_index (node g n) = word_of_nat n"
    "\<forall>n \<in> set ns. getOsProcessDependencies name (word_of_nat n) (configuration_manager (pgm g)) = Some (ds n)"
  shows "fold (\<lambda>n g. case getOsProcessDependencies name (process_index (node g n)) (configuration_manager (pgm g)) of None \<Rightarrow> g
      | Some ds \<Rightarrow> fold (\<lambda>dep g. if unat (os_process_index dep) < length (nodes g)
                                  then upd_node (unat (os_process_index dep)) (addSuccessorNode n (dep_process_state dep)) g else g) ds g) ns g =
    fold add_edge (edges ds ns) g"
  using assms
proof (induction ns arbitrary: g)
  case (Cons n ns)
  obtain xs where xs: "fold add_edge (map (Pair n) (ds n)) g = g\<lparr>nodes := xs\<rparr>" "map process_index xs = map process_index (nodes g)"
    using fold_add_edge_frame by blast
  have len: "length xs = length (nodes g)" using arg_cong [OF xs(2), of length] by simp
  have "process_index (xs ! k) = word_of_nat k" if "k < length (nodes g)" for k
    using arg_cong [OF xs(2), of "\<lambda>ys. ys ! k"] that len Cons.prems(2) by simp
  then have ih: "fold (\<lambda>n g. case getOsProcessDependencies name (process_index (node g n)) (configuration_manager (pgm g)) of None \<Rightarrow> g
      | Some ds \<Rightarrow> fold (\<lambda>dep g. if unat (os_process_index dep) < length (nodes g)
                                  then upd_node (unat (os_process_index dep)) (addSuccessorNode n (dep_process_state dep)) g else g) ds g) ns
      (g\<lparr>nodes := xs\<rparr>) = fold add_edge (edges ds ns) (g\<lparr>nodes := xs\<rparr>)"
    using Cons.prems len by (intro Cons.IH) simp_all
  have "fold (\<lambda>dep g. if unat (os_process_index dep) < length (nodes g)
      then upd_node (unat (os_process_index dep)) (addSuccessorNode n (dep_process_state dep)) g else g) (ds n) g = g\<lparr>nodes := xs\<rparr>"
    using xs(1) by (simp add: fold_map o_def add_edge_pair)
  then show ?case using Cons.prems ih xs(1) by (simp add: edges_def)
qed (simp add: edges_def)

lemma fold_add_edge_node:
  assumes "\<forall>(n, d) \<in> set es. dep_process_state d = LPS_Running \<and> unat (os_process_index d) < length (nodes g)" "m < length (nodes g)"
  shows "node (fold add_edge es g) m = (node g m)\<lparr>dependent_on_running :=
    dependent_on_running (node g m) @ map fst (filter (\<lambda>e. unat (os_process_index (snd e)) = m) es)\<rparr>"
  using assms
proof (induction es arbitrary: g)
  case (Cons e es)
  obtain n d where e: "e = (n, d)" by (cases e)
  have a: "add_edge (n, d) g = upd_node (unat (os_process_index d)) (\<lambda>t. t\<lparr>dependent_on_running := dependent_on_running t @ [n]\<rparr>) g"
    using Cons.prems(1) by (auto simp: e add_edge_pair addSuccessorNode_def [abs_def])
  have "node (fold add_edge es (add_edge e g)) m = (node (add_edge e g) m)\<lparr>dependent_on_running :=
    dependent_on_running (node (add_edge e g) m) @ map fst (filter (\<lambda>e. unat (os_process_index (snd e)) = m) es)\<rparr>"
    using Cons.prems by (intro Cons.IH) (auto simp: a e)
  then show ?case using Cons.prems(2) by (auto simp: a e node_upd_node)
qed simp

lemma count_edges:
  "count_list (map fst (filter (\<lambda>e. unat (os_process_index (snd e)) = m) (edges ds [0..<N]))) n =
   (if n < N then count_list (map (\<lambda>d. unat (os_process_index d)) (ds n)) m else 0)"
proof -
  have blk: "count_list (map fst (filter (\<lambda>e. unat (os_process_index (snd e)) = m) (map (Pair k) xs))) n =
      (if k = n then count_list (map (\<lambda>d. unat (os_process_index d)) xs) m else 0)" for k xs
    by (induction xs) auto
  show ?thesis by (induction N) (auto simp: edges_def blk less_Suc_eq)
qed

lemma length_edges: "length (edges ds ns) = sum_list (map (\<lambda>n. length (ds n)) ns)"
  by (simp add: edges_def length_concat o_def)

text \<open>The configuration of a group whose processes only depend on running processes of the group.\<close>

definition group_deps :: "ProcessGroup \<Rightarrow> nat \<Rightarrow> Dependency list" where
  "group_deps pg n = dependencies_of (pg_processes pg ! n)"

definition deps_valid :: "ProcessGroup \<Rightarrow> bool" where
  "deps_valid pg \<longleftrightarrow> length (pg_processes pg) < 2 ^ 32 \<and>
     sum_list (map (\<lambda>n. length (group_deps pg n)) [0..<length (pg_processes pg)]) < 2 ^ 32 \<and>
     (\<forall>n < length (pg_processes pg). \<forall>d \<in> set (group_deps pg n). dep_process_state d = LPS_Running \<and>
        unat (os_process_index d) < length (pg_processes pg))"

definition group_graph :: "(string \<Rightarrow> u64) \<Rightarrow> PgmEnv \<Rightarrow> IdentifierHash \<Rightarrow> u32 \<Rightarrow> Graph" where
  "group_graph hash env name index =
     (case getProcessGroupByID name (configuration_manager env) of
        None \<Rightarrow> Graph_new hash env
      | Some k \<Rightarrow> initProcessGroupNodes name (word_of_nat (length (pg_processes (cm_process_groups (configuration_manager env) ! k)))) index
                    (Graph_new hash env))"

lemma group_graph_nodes:
  fixes env :: PgmEnv and k :: nat
  defines "cm \<equiv> configuration_manager env"
  defines "pg \<equiv> cm_process_groups cm ! k"
  assumes k: "getProcessGroupByID name cm = Some k" and v: "deps_valid pg"
  shows "\<exists>xs lm. group_graph hash env name index =
      (Graph_new hash env)\<lparr>pg_index := index, g_off_state := off_state pg, requested_state := \<lparr>id_pg_name = name, id_pg_state_name = off_state pg\<rparr>,
        nodes := xs, pgm := env\<lparr>launch_manager_config := lm\<rparr>\<rparr> \<and> length xs = length (pg_processes pg) \<and>
    (\<forall>n < length (pg_processes pg). xs ! n = (built_node name cm n)\<lparr>dependent_on_running :=
        map fst (filter (\<lambda>e. unat (os_process_index (snd e)) = n) (edges (group_deps pg) [0..<length (pg_processes pg)]))\<rparr>)"
proof -
  let ?N = "length (pg_processes pg)"
  have N: "?N < 2 ^ 32" using v by (simp add: deps_valid_def)
  define g0 where "g0 = (Graph_new hash env)\<lparr>pg_index := index, g_off_state := off_state pg,
    requested_state := \<lparr>id_pg_name = name, id_pg_state_name = off_state pg\<rparr>\<rparr>"
  have e0: "pgm (Graph_new hash env) = env" "nodes (Graph_new hash env) = []" by (simp_all add: Graph_new_def Let_def)
  have off: "getNameOfOffState (pe_hash env) name cm = off_state pg" using k by (simp add: getNameOfOffState_def pg_def)
  have cfg: "getOsProcessConfiguration name (word_of_nat n) cm = Some (pg_processes pg ! n)"
    "getOsProcessDependencies name (word_of_nat n) cm = Some (group_deps pg n)" if "n < ?N" for n
    using k that N unat_u32 [of n]
    by (simp_all add: getOsProcessConfiguration_def getOsProcessDependencies_def getProcessGroupByNameAndIndex_def pg_def group_deps_def Let_def)
  obtain lm where c: "createProcessInfoNodes ?N g0 = g0\<lparr>nodes := map (built_node name cm) [0..<?N], pgm := env\<lparr>launch_manager_config := lm\<rparr>\<rparr>"
    using createProcessInfoNodes_eq [of g0 ?N] cfg(1) e0 by (auto simp: g0_def cm_def)
  define g1 where "g1 = g0\<lparr>nodes := map (built_node name cm) [0..<?N], pgm := env\<lparr>launch_manager_config := lm\<rparr>\<rparr>"
  have n1: "length (nodes g1) = ?N" "configuration_manager (pgm g1) = cm" "\<And>n. n < ?N \<Longrightarrow> node g1 n = built_node name cm n"
    by (simp_all add: g1_def cm_def)
  let ?es = "edges (group_deps pg) [0..<?N]"
  have "createSuccessorLists name g1 = fold add_edge ?es g1"
    unfolding createSuccessorLists_def n1(1) using cfg(2) n1 by (intro createSuccessorLists_eq) (simp_all add: built_node_def)
  moreover have "group_graph hash env name index = createSuccessorLists name g1"
    using k c N unat_u32 [of ?N] unfolding group_graph_def initProcessGroupNodes_def Let_def
    by (simp add: cm_def [symmetric] pg_def [symmetric] e0 off g0_def [symmetric] g1_def [symmetric] n1(1))
  moreover obtain xs where xs: "fold add_edge ?es g1 = g1\<lparr>nodes := xs\<rparr>" "map process_index xs = map process_index (nodes g1)"
    using fold_add_edge_frame by blast
  moreover have "length xs = ?N" using arg_cong [OF xs(2), of length] n1(1) by simp
  moreover have "xs ! n = (built_node name cm n)\<lparr>dependent_on_running := map fst (filter (\<lambda>e. unat (os_process_index (snd e)) = n) ?es)\<rparr>" if "n < ?N" for n
  proof -
    have "\<forall>(n, d) \<in> set ?es. dep_process_state d = LPS_Running \<and> unat (os_process_index d) < length (nodes g1)"
      using v n1(1) by (auto simp: deps_valid_def edges_def)
    then show ?thesis using fold_add_edge_node [of ?es g1 n] that n1 xs(1) by (simp add: built_node_def ProcessInfoNode_new_def)
  qed
  ultimately show ?thesis by (intro exI [of _ xs] exI [of _ lm]) (simp add: g1_def g0_def)
qed

lemma group_graph_spec:
  assumes "getProcessGroupByID name (configuration_manager env) = Some k"
    and "pg = cm_process_groups (configuration_manager env) ! k" and "deps_valid pg"
    and "g = group_graph hash env name index"
  shows "graph_wf g \<and> g_state g = GS_Success \<and> nodes_in_flight g = 0 \<and> nodes_to_execute g = 0 \<and> event g = kNotSet \<and>
    requested_state g = \<lparr>id_pg_name = name, id_pg_state_name = off_state pg\<rparr> \<and> worker_jobs (pgm g) = worker_jobs env \<and>
    length (nodes g) = length (pg_processes pg) \<and>
    (\<forall>n < length (nodes g). process_state (node g n) = LPS_Idle \<and> \<not> in_requested_state (node g n) \<and> n_pid (node g n) = 0 \<and>
       n_config (node g n) = Some (pg_processes pg ! n) \<and>
       deps_of g n = map (\<lambda>d. unat (os_process_index d)) (dependencies_of (pg_processes pg ! n)))"
proof -
  let ?cm = "configuration_manager env" and ?N = "length (pg_processes pg)"
  let ?es = "edges (group_deps pg) [0..<?N]"
  obtain xs lm where g: "g = (Graph_new hash env)\<lparr>pg_index := index, g_off_state := off_state pg,
        requested_state := \<lparr>id_pg_name = name, id_pg_state_name = off_state pg\<rparr>, nodes := xs, pgm := env\<lparr>launch_manager_config := lm\<rparr>\<rparr>"
    and len: "length xs = ?N" and nd: "\<And>n. n < ?N \<Longrightarrow> xs ! n = (built_node name ?cm n)\<lparr>dependent_on_running :=
        map fst (filter (\<lambda>e. unat (os_process_index (snd e)) = n) ?es)\<rparr>"
    using group_graph_nodes [OF assms(1), of hash index] assms(2-4) by auto
  have N: "?N < 2 ^ 32" using assms(3) by (simp add: deps_valid_def)
  have cfg: "getOsProcessConfiguration name (word_of_nat n) ?cm = Some (pg_processes pg ! n)"
    "getOsProcessDependencies name (word_of_nat n) ?cm = Some (group_deps pg n)" if "n < ?N" for n
    using assms(1,2) that N unat_u32 [of n]
    by (simp_all add: getOsProcessConfiguration_def getOsProcessDependencies_def getProcessGroupByNameAndIndex_def group_deps_def Let_def)
  have el: "length ?es < 2 ^ 32" using assms(3) by (simp add: deps_valid_def length_edges)
  have fields: "n_config (node g n) = Some (pg_processes pg ! n)" "dependency_list (node g n) = Some (group_deps pg n)"
    "start_dependencies (node g n) = word_of_nat (length (group_deps pg n))" "dependent_on_terminating (node g n) = []"
    "dependent_on_running (node g n) = map fst (filter (\<lambda>e. unat (os_process_index (snd e)) = n) ?es)" "process_state (node g n) = LPS_Idle"
    "\<not> in_requested_state (node g n)" "n_pid (node g n) = 0"
    if "n < ?N" for n
    using nd [OF that] cfg [OF that] by (simp_all add: g built_node_def ProcessInfoNode_new_def)
  have deps: "deps_of g n = map (\<lambda>d. unat (os_process_index d)) (group_deps pg n)" if "n < ?N" for n
    using fields(2) [OF that] by (simp add: deps_of_def)
  have "node_wf g n" if n: "n < ?N" for n
  proof -
    have "length (group_deps pg n) \<le> sum_list (map (\<lambda>n. length (group_deps pg n)) [0..<?N])" using n by (intro member_le_sum_list) auto
    then have "length (group_deps pg n) < 2 ^ 32" using assms(3) by (simp add: deps_valid_def)
    moreover have "length (dependent_on_running (node g n)) < 2 ^ 32"
      using el le_less_trans [OF length_filter_le] fields(5) [OF n] by fastforce
    moreover have "set (dependent_on_running (node g n)) \<subseteq> {..<?N}" using fields(5) [OF n] by (auto simp: edges_def)
    moreover have "count_list (dependent_on_running (node g n)) m = count_list (deps_of g m) n" if "m < ?N" for m
      using fields(5) [OF n] deps [OF that] count_edges that by simp
    ultimately show ?thesis
      using fields [OF n] assms(3) n unfolding node_wf_def by (simp add: g len deps_valid_def)
  qed
  then show ?thesis using N fields deps by (simp add: graph_wf_def g len group_deps_def Graph_new_def Let_def)
qed

text \<open>
  (C6) The graph built for a configured group is well-formed and quiet, provided that the processes of the group only
  depend on the running state of processes of the same group (\<open>deps_valid\<close>: the indexes of the dependencies are in
  range, every dependency is on \<^verbatim>\<open>kRunning\<close>, and there are fewer than $2^{32}$ processes and dependencies). It has a
  node for each configured process, idle, without a process, not requested and with the configured dependencies; the
  lists of dependent nodes are exactly the reverse of the dependencies with their multiplicities; the requested state is
  the off state, no node is in flight or left to execute, no event is pending and no job has been queued.
\<close>

theorem group_graph_wf:
  assumes "getProcessGroupByID name (configuration_manager env) = Some k"
    and "pg = cm_process_groups (configuration_manager env) ! k" and "deps_valid pg"
    and "g = group_graph hash env name index"
  shows "graph_wf g \<and> g_state g = GS_Success \<and> nodes_in_flight g = 0 \<and> nodes_to_execute g = 0 \<and> event g = kNotSet \<and>
    requested_state g = \<lparr>id_pg_name = name, id_pg_state_name = off_state pg\<rparr> \<and> worker_jobs (pgm g) = worker_jobs env \<and>
    length (nodes g) = length (pg_processes pg) \<and>
    (\<forall>n < length (nodes g). process_state (node g n) = LPS_Idle \<and> \<not> in_requested_state (node g n) \<and> n_pid (node g n) = 0 \<and>
       n_config (node g n) = Some (pg_processes pg ! n) \<and>
       deps_of g n = map (\<lambda>d. unat (os_process_index d)) (dependencies_of (pg_processes pg ! n)))"
  by (rule group_graph_spec [OF assms])

subsection \<open>Transitions of a group\<close>

lemma same_nodes:
  assumes "nodes g' = nodes g"
  shows "graph_wf g' = graph_wf g" "settled g' = settled g" "deps_of g' = deps_of g" "work Q g' = work Q g"
    "reaches Q g' k = reaches Q g k"
proof -
  show d: "deps_of g' = deps_of g" using assms by (intro ext) (simp add: deps_of_def)
  show "graph_wf g' = graph_wf g" "settled g' = settled g" "work Q g' = work Q g"
    using assms d by (simp_all add: graph_wf_def node_wf_def settled_def work_def)
  have "final_state Q g' = final_state Q g" using assms by (intro ext) (simp add: final_state_def)
  then show "reaches Q g' k = reaches Q g k" using assms by (intro ext) (simp add: reaches_def)
qed

lemma off_final_states:
  "map (final_state {} g) [0..<length (nodes g)] = map (\<lambda>s. if s = LPS_Running then LPS_Terminated else s) (map process_state (nodes g))"
  by (intro nth_equalityI) (simp_all add: final_state_def)

text \<open>
  (C1) Every transition of a quiet process group completes, in the order of the dependencies, when the processes
  cooperate. The group is well-formed (\<open>graph_wf\<close>: every dependency is on the running state of a process of the group),
  its dependencies have no cycle, and with every process the requested state contains the processes it depends on. The
  processes cooperate (\<open>coop_calls\<close>): every launch succeeds, every process reports in time that it runs and
  exits when it is asked to. The jobs are taken out of the queue in an arbitrary order and executed one after the other;
  nothing is shown here of jobs that overlap, and faults are the subject of \<open>Transition_Faults\<close>.

  Then the transition is accepted and takes exactly one job for every process to stop and every process to start. Until
  then a job can be taken, and every job that can be taken succeeds: it brings its own process, and no other,
  into the state running, when all processes it depends on are running, or into the state terminated, when no process
  that depends on it is running. In the end the graph is in success with the event \<^verbatim>\<open>kSetStateSuccess\<close> pending,
  the processes of the requested state are running, every other process that was running is terminated, and the rest
  have kept their states.
\<close>

theorem transition_completes_in_order:
  fixes rk :: "nat \<Rightarrow> nat"
  assumes "graph_wf g" "settled g" "g_state g = GS_Success \<or> g_state g = GS_UndefinedState" "room g" "jobs g = []"
    and idx: "getProcessIndexesList ((requested_state g)\<lparr>id_pg_state_name := id_pg_state_name s\<rparr>) (configuration_manager (pgm g)) = Some idx"
    and "\<forall>n < length (nodes g). \<forall>m \<in> set (deps_of g n). rk m < rk n"
    and "\<forall>n < length (nodes g). n \<in> unat ` set idx \<longrightarrow> set (deps_of g n) \<subseteq> unat ` set idx"
  shows "\<exists>g0. startTransition s g = Some (True, g0) \<and> reaches (unat ` set idx) g (work (unat ` set idx) g) g0"
proof -
  let ?g = "g_setState GS_InTransition (g\<lparr>requested_state := (requested_state g)\<lparr>id_pg_state_name := id_pg_state_name s\<rparr>\<rparr>)"
  have gs: "g_state ?g = GS_InTransition" using assms(3) by auto
  have nn: "nodes ?g = nodes g" by simp
  have rm: "room ?g" "jobs ?g = []" using assms(4,5) by (simp_all add: room_def jobs_def other_jobs_def)
  obtain g0 where g0: "queueStopJobs idx ?g = Some g0" "reaches (unat ` set idx) g (work (unat ` set idx) g) g0"
    using queueStopJobs_reaches [of ?g rk idx] gs rm assms(1,2,7,8) unfolding same_nodes [OF nn] nn by blast
  then show ?thesis using idx gs by (simp add: startTransition_def)
qed

text \<open>
  (C2) The transition to the off state terminates every process that runs. It needs no configured state: it is accepted
  from every quiet state of a well-formed group whose dependencies have no cycle. When the processes cooperate and the
  jobs are executed one after the other, in any order, it takes exactly one job for every running process, each
  stopped when no process that depends on it is running any more. In the end every process that was running
  is in the state \<^verbatim>\<open>kTerminated\<close>, the others, idle or terminated before, have kept their states, and the event
  \<^verbatim>\<open>kSetStateSuccess\<close> is pending.
\<close>

theorem off_transition_stops_all:
  fixes rk :: "nat \<Rightarrow> nat"
  assumes "graph_wf g" "settled g" "g_state g = GS_Success \<or> g_state g = GS_UndefinedState" "room g" "jobs g = []"
    and "\<forall>n < length (nodes g). \<forall>m \<in> set (deps_of g n). rk m < rk n"
  shows "\<exists>g0. startTransitionToOffState g = Some (True, g0) \<and>
    reaches {} g (card {n. n < length (nodes g) \<and> process_state (node g n) = LPS_Running}) g0 \<and>
    (\<forall>js g'. run_jobs js g0 = Some g' \<and> length js = card {n. n < length (nodes g) \<and> process_state (node g n) = LPS_Running} \<longrightarrow>
       map process_state (nodes g') = map (\<lambda>s. if s = LPS_Running then LPS_Terminated else s) (map process_state (nodes g)))"
proof -
  let ?g = "g_setState GS_InTransition (g\<lparr>requested_state := (requested_state g)\<lparr>id_pg_state_name := g_off_state g\<rparr>\<rparr>)"
  have gs: "g_state ?g = GS_InTransition" using assms(3) by auto
  have nn: "nodes ?g = nodes g" by simp
  have rm: "room ?g" "jobs ?g = []" using assms(4,5) by (simp_all add: room_def jobs_def other_jobs_def)
  obtain g0 where g0: "queueStopJobs [] ?g = Some g0" "reaches {} g (work {} g) g0"
    using queueStopJobs_reaches [of ?g rk "[]"] gs rm assms(1,2,6) unfolding same_nodes [OF nn] nn by auto
  have w: "work {} g = card {n. n < length (nodes g) \<and> process_state (node g n) = LPS_Running}" by (simp add: work_def)
  have "map process_state (nodes g') = map (\<lambda>s. if s = LPS_Running then LPS_Terminated else s) (map process_state (nodes g))"
    if "run_jobs js g0 = Some g'" "length js = work {} g" for js g'
    using g0(2) that off_final_states [of g] by (simp add: reaches_def)
  then show ?thesis using gs g0 w by (auto simp: startTransitionToOffState_def)
qed

subsection \<open>An example\<close>

text \<open>A group of two processes, the second depends on the first, with a state in which both run.\<close>

definition example_process :: "Dependency list \<Rightarrow> OsProcess" where
  "example_process ds = \<lparr>process_id = \<lparr>hash_id = 7\<rparr>, process_number = 0, startup_config = OsalConfig_new,
     pgm_config = \<lparr>is_self_terminating = False, startup_timeout_ms = 100, termination_timeout_ms = 100, number_of_restart_attempts = 0,
       execution_error_code = 1\<rparr>, dependencies_of = ds\<rparr>"

definition example_group :: ProcessGroup where
  "example_group = \<lparr>pg_name = \<lparr>hash_id = 1\<rparr>, sw_cluster = \<lparr>hash_id = 2\<rparr>, off_state = \<lparr>hash_id = 3\<rparr>, recovery_state = \<lparr>hash_id = 4\<rparr>,
     pg_states = [\<lparr>pgs_name = \<lparr>hash_id = 5\<rparr>, process_indexes = [1, 0]\<rparr>],
     pg_processes = [example_process [], example_process [\<lparr>dep_process_state = LPS_Running, target_process_id = \<lparr>hash_id = 7\<rparr>, os_process_index = 0\<rparr>]]\<rparr>"

definition example_env :: PgmEnv where
  "example_env = \<lparr>worker_jobs = [], job_capacity = 8,
     configuration_manager = (ConfigurationManager_new hash_length)\<lparr>cm_process_groups := [example_group]\<rparr>, pe_hash = hash_length,
     initial_state_transition_result = kInitialMachineStateNotSet, launch_manager_config = None,
     process_state_notifier = RingBuffer_new 8, pe_clock = \<lparr>tv_sec = 0, tv_nsec = 0\<rparr>, nudges = 0\<rparr>"

definition example_graph :: Graph where
  "example_graph = group_graph hash_length example_env \<lparr>hash_id = 1\<rparr> 0"

lemma example_ids_found:
  "getProcessGroupByID \<lparr>hash_id = 1\<rparr> (configuration_manager example_env) = Some 0"
  "cm_process_groups (configuration_manager example_env) ! 0 = example_group" "deps_valid example_group"
  by (simp_all add: getProcessGroupByID_def example_env_def example_group_def ih_eq_def deps_valid_def group_deps_def example_process_def
      less_Suc_eq)

lemmas example_spec = group_graph_spec [OF example_ids_found(1) example_ids_found(2) [symmetric] example_ids_found(3), of example_graph hash_length 0,
  unfolded example_graph_def, OF refl, folded example_graph_def]

lemma example_graph_facts:
  "length (nodes example_graph) = 2" "deps_of example_graph 0 = []" "deps_of example_graph 1 = [0]" "g_state example_graph = GS_Success"
  "graph_wf example_graph" "n < 2 \<Longrightarrow> process_state (node example_graph n) = LPS_Idle"
  using example_spec by (simp_all add: example_group_def example_process_def)

lemma example_graph_rest:
  "pgm example_graph = (example_env\<lparr>launch_manager_config := launch_manager_config (pgm example_graph)\<rparr>)" "pg_index example_graph = 0"
  "requested_state example_graph = \<lparr>id_pg_name = \<lparr>hash_id = 1\<rparr>, id_pg_state_name = \<lparr>hash_id = 3\<rparr>\<rparr>"
proof -
  obtain xs lm where e: "example_graph =
      (Graph_new hash_length example_env)\<lparr>pg_index := 0, g_off_state := off_state example_group,
        requested_state := \<lparr>id_pg_name = \<lparr>hash_id = 1\<rparr>, id_pg_state_name = off_state example_group\<rparr>,
        nodes := xs, pgm := example_env\<lparr>launch_manager_config := lm\<rparr>\<rparr>"
    using group_graph_nodes [OF example_ids_found(1), of hash_length 0] example_ids_found(2,3) unfolding example_graph_def by auto
  then show "pgm example_graph = (example_env\<lparr>launch_manager_config := launch_manager_config (pgm example_graph)\<rparr>)" "pg_index example_graph = 0"
    "requested_state example_graph = \<lparr>id_pg_name = \<lparr>hash_id = 1\<rparr>, id_pg_state_name = \<lparr>hash_id = 3\<rparr>\<rparr>" by (simp_all add: e example_group_def)
qed

lemma example_quiet:
  "jobs example_graph = []" "room example_graph" "settled example_graph"
proof -
  have w: "worker_jobs (pgm example_graph) = []" "job_capacity (pgm example_graph) = 8"
    by (subst example_graph_rest(1), simp add: example_env_def)+
  show "jobs example_graph = []" using w by (simp add: jobs_def)
  show "room example_graph" using w example_graph_facts(1) by (simp add: room_def other_jobs_def)
  show "settled example_graph" using example_graph_facts(1,6) by (simp add: settled_def)
qed

theorem group_graph_wf_witness:
  "graph_wf (group_graph hash_length example_env \<lparr>hash_id = 1\<rparr> 0) \<and>
   nodes_in_flight (group_graph hash_length example_env \<lparr>hash_id = 1\<rparr> 0) = 0 \<and>
   deps_of (group_graph hash_length example_env \<lparr>hash_id = 1\<rparr> 0) 1 = [0] \<and>
   \<not> in_requested_state (node (group_graph hash_length example_env \<lparr>hash_id = 1\<rparr> 0) 1) \<and>
   length (nodes (group_graph hash_length example_env \<lparr>hash_id = 1\<rparr> 0)) = 2"
  using group_graph_wf [OF example_ids_found(1) refl _ refl, of hash_length 0] example_ids_found(2,3)
  by (simp add: example_group_def example_process_def)

lemma example_ordered: "\<forall>n < length (nodes example_graph). \<forall>m \<in> set (deps_of example_graph n). id m < id n"
  using example_graph_facts(1-3) by (auto simp: less_2_cases_iff)

theorem transition_completes_in_order_witness:
  "\<exists>g0. startTransition \<lparr>id_pg_name = \<lparr>hash_id = 1\<rparr>, id_pg_state_name = \<lparr>hash_id = 5\<rparr>\<rparr> example_graph = Some (True, g0) \<and>
    reaches {0, 1} example_graph 2 g0"
proof -
  let ?s = "\<lparr>id_pg_name = \<lparr>hash_id = 1\<rparr>, id_pg_state_name = \<lparr>hash_id = 5\<rparr>\<rparr>"
  have i: "getProcessIndexesList ((requested_state example_graph)\<lparr>id_pg_state_name := id_pg_state_name ?s\<rparr>)
      (configuration_manager (pgm example_graph)) = Some [1, 0]"
    by (subst example_graph_rest(1), simp add: example_graph_rest(3) getProcessIndexesList_def getProcessGroupStateByID_def
        getProcessGroupByID_def example_env_def example_group_def ih_eq_def Let_def)
  have u: "unat ` set [1, 0 :: u32] = {0, 1}" by auto
  have "{n. n < length (nodes example_graph) \<and> process_state (node example_graph n) = LPS_Running \<and> n \<notin> {0, 1}} = {}"
    "{n. n < length (nodes example_graph) \<and> process_state (node example_graph n) \<noteq> LPS_Running \<and> n \<in> {0, 1}} = {0, 1}"
    using example_graph_facts(1,6) by auto
  then have w: "work {0, 1} example_graph = 2" by (simp add: work_def)
  have c: "\<forall>n < length (nodes example_graph). n \<in> unat ` set [1, 0 :: u32] \<longrightarrow> set (deps_of example_graph n) \<subseteq> unat ` set [1, 0 :: u32]"
    unfolding u using example_graph_facts(1-3) by (auto simp: less_2_cases_iff)
  show ?thesis
    using transition_completes_in_order [OF example_graph_facts(5) example_quiet(3) _ example_quiet(2,1) i example_ordered c]
    unfolding u w by (simp add: example_graph_facts(4))
qed

definition running_graph :: Graph where
  "running_graph = example_graph\<lparr>nodes := map (\<lambda>t. t\<lparr>process_state := LPS_Running\<rparr>) (nodes example_graph)\<rparr>"

theorem off_transition_stops_all_witness:
  "\<exists>g0. startTransitionToOffState running_graph = Some (True, g0) \<and> reaches {} running_graph 2 g0 \<and>
     (\<forall>js g'. run_jobs js g0 = Some g' \<and> length js = 2 \<longrightarrow> map process_state (nodes g') = [LPS_Terminated, LPS_Terminated])"
proof -
  have ss: "same_static example_graph running_graph" by (simp add: same_static_def running_graph_def static_def)
  have l: "length (nodes running_graph) = 2" "\<And>n. n < 2 \<Longrightarrow> process_state (node running_graph n) = LPS_Running"
    using example_graph_facts(1) by (simp_all add: running_graph_def)
  have "{n. n < length (nodes running_graph) \<and> process_state (node running_graph n) = LPS_Running} = {..<2}" using l by auto
  then have k: "card {n. n < length (nodes running_graph) \<and> process_state (node running_graph n) = LPS_Running} = 2" by simp
  have "\<forall>n < length (nodes running_graph). \<forall>m \<in> set (deps_of running_graph n). id m < id n"
    using example_ordered same_static_node(1) [OF ss] same_static_fields(6) [OF ss] by simp
  moreover have "settled running_graph" "room running_graph" "jobs running_graph = []" "g_state running_graph = GS_Success"
    using example_quiet(1,2) l example_graph_facts(1,4) by (simp_all add: settled_def room_def jobs_def other_jobs_def running_graph_def)
  moreover have "map process_state (nodes running_graph) = [LPS_Running, LPS_Running]"
    using l by (intro nth_equalityI) (auto simp: less_2_cases_iff)
  ultimately show ?thesis
    using off_transition_stops_all [of running_graph id] same_static_wf [OF ss example_graph_facts(5)] unfolding k by simp
qed

end
