(* ===== verification/Transition_Faults.thy ===== *)
theory Transition_Faults
  imports Group_Construction
begin

section \<open>Transitions that fail\<close>

text \<open>
  What happens to a transition that is aborted or cancelled, and two ways in which the counting of
  dependencies goes wrong: dependencies that can never be satisfied, and a process that is counted twice.
\<close>

declare handleForcedTermination.simps [code] startProcess_loop.simps [code]

subsection \<open>Abort and cancellation\<close>

text \<open>The worker threads execute the given nodes one after the other.\<close>

fun run_nodes :: "(ControlClientChannel option \<times> int) list \<Rightarrow> nat list \<Rightarrow> Graph \<Rightarrow> Graph option" where
  "run_nodes es [] g = Some g"
| "run_nodes es (x # xs) g = do { (_, g) \<leftarrow> doWork (fst (hd es)) (snd (hd es)) x [] g; run_nodes (tl es) xs g }"

lemma doWork_outside:
  assumes "g_state g \<noteq> GS_InTransition"
  shows "doWork channel own_pid x calls g = Some (calls, handleNonTransitionExecution (g_state g) g)"
  using assms by (simp add: doWork_def nodeExecuted_def)

lemma drain_step:
  assumes "nodes_in_flight g > 1"
  shows "handleNonTransitionExecution s g = g\<lparr>nodes_in_flight := nodes_in_flight g - 1\<rparr>"
  using assms by (simp add: handleNonTransitionExecution_def Let_def)

lemma drain:
  assumes "g_state g \<noteq> GS_InTransition" "nodes_in_flight g = int (length xs) + k" "k > 0"
  shows "run_nodes es xs g = Some (g\<lparr>nodes_in_flight := k\<rparr>)"
  using assms
proof (induction xs arbitrary: g es)
  case (Cons x xs)
  have "doWork (fst (hd es)) (snd (hd es)) x [] g = Some ([], g\<lparr>nodes_in_flight := nodes_in_flight g - 1\<rparr>)"
    using Cons.prems by (simp add: doWork_outside drain_step)
  then show ?case using Cons.IH [of "g\<lparr>nodes_in_flight := nodes_in_flight g - 1\<rparr>" "tl es"] Cons.prems by simp
qed simp

text \<open>
  (C7) An aborted or cancelled transition drains: the jobs that are still queued start and stop no process, and the
  last one leaves the graph in the undefined state; an aborted transition then has the reason of the abort as
  pending event, a failed initial transition is reported as failed.
\<close>

theorem abandoned_transition_drains:
  assumes "g_state g = GS_Aborting \<or> g_state g = GS_Cancelled" "nodes_in_flight g = int (length xs)" "xs \<noteq> []"
  shows "\<exists>g'. run_nodes es xs g = Some g' \<and> g_state g' = GS_UndefinedState \<and> nodes g' = nodes g \<and> nodes_in_flight g' = 0 \<and>
    worker_jobs (pgm g') = worker_jobs (pgm g) \<and> event g' = (if g_state g = GS_Aborting then abort_code g else event g) \<and>
    \<not> is_initial_state_transition g' \<and>
    initial_state_transition_result (pgm g') =
      (if is_initial_state_transition g then kInitialMachineStateFailed else initial_state_transition_result (pgm g))"
proof -
  obtain ys y where xs: "xs = ys @ [y]" using assms(3) by (meson rev_exhaust)
  have app: "run_nodes es (ys @ [y]) g = do { g \<leftarrow> run_nodes es ys g; run_nodes (drop (length ys) es) [y] g }" for es g
    by (induction ys arbitrary: es g) (simp_all add: drop_Suc split: Option.bind_split prod.splits)
  have ne: "g_state g \<noteq> GS_InTransition" using assms(1) by auto
  have d: "run_nodes es ys g = Some (g\<lparr>nodes_in_flight := 1\<rparr>)" using drain [OF ne, of ys 1] assms(2) xs by simp
  have u: "result_state GS_UndefinedState (g_state g) = GS_UndefinedState"
    using assms(1) by (auto simp: result_state_def state_results_def numeral_eq_Suc)
  show ?thesis
    unfolding xs app d using ne assms(1) u
    by (auto simp: doWork_outside handleNonTransitionExecution_def Let_def setInitialStateTransitionResult_def nudgeControlClientHandler_def
        setPendingEvent_def g_setState_eq upd_pgm_def)
qed

theorem abandoned_transition_drains_witness:
  "\<exists>g'. run_nodes [(None, 1), (None, 1)] [1, 0] (example_graph\<lparr>g_state := GS_Aborting, nodes_in_flight := 2, abort_code := kSetStateFailed\<rparr>) = Some g' \<and>
     g_state g' = GS_UndefinedState \<and> event g' = kSetStateFailed"
  using abandoned_transition_drains [of "example_graph\<lparr>g_state := GS_Aborting, nodes_in_flight := 2, abort_code := kSetStateFailed\<rparr>" "[1, 0]"
      "[(None, 1), (None, 1)]"] by auto

subsection \<open>A start phase that starts nothing\<close>

text \<open>
  A start phase in which every node waits, for instance because of a cyclic dependency, reports success
  although none of the requested processes has been started; and when it ends an initial transition, the result of
  the initial transition is not recorded.
\<close>

theorem start_phase_without_head:
  assumes wf: "graph_wf g" and gs: "g_state g = GS_InTransition" and rm: "room g" "jobs g = []"
    and blocked: "\<forall>n \<in> todo True g. waits_for True g n > 0"
  shows "\<exists>g'. queueStartJobs g = Some g' \<and> g_state g' = GS_Success \<and> event g' = kSetStateSuccess \<and>
    map process_state (nodes g') = map process_state (nodes g) \<and> is_initial_state_transition g' = is_initial_state_transition g \<and>
    initial_state_transition_result (pgm g') = initial_state_transition_result (pgm g)"
proof -
  let ?h = "filter (\<lambda>n. included True g n \<and> waits_for True g n = 0) [0..<length (nodes g)]"
  have h: "?h = []" using blocked by (auto simp: todo_def filter_empty_conv)
  obtain g1 where g1: "queueHeadNodes True g = Some (?h \<noteq> [], g1)" "view g1 = view g" "phase_frame g g1"
    using queueHeadNodes_spec [OF wf gs rm, of True] by blast
  have "map process_state (nodes g1) = map process_state (nodes g)" using view_nodes(1,2) [OF g1(2)] by (auto intro!: nth_equalityI)
  moreover have "initial_state_transition_result (pgm g1) = initial_state_transition_result (pgm g)"
    using g1(3) by (auto simp: phase_frame_def)
  ultimately show ?thesis
    using g1(1) h phase_frame_simps(1,5) [OF g1(3)] gs
    by (simp add: queueStartJobs_def setPendingEvent_def nudgeControlClientHandler_def g_setState_eq upd_pgm_def)
qed

text \<open>Two processes that depend on each other.\<close>

definition cyclic_group :: ProcessGroup where
  "cyclic_group = example_group\<lparr>pg_processes :=
     [example_process [\<lparr>dep_process_state = LPS_Running, target_process_id = \<lparr>hash_id = 7\<rparr>, os_process_index = 1\<rparr>],
      example_process [\<lparr>dep_process_state = LPS_Running, target_process_id = \<lparr>hash_id = 7\<rparr>, os_process_index = 0\<rparr>]]\<rparr>"

definition cyclic_env :: PgmEnv where
  "cyclic_env = example_env\<lparr>configuration_manager := (configuration_manager example_env)\<lparr>cm_process_groups := [cyclic_group]\<rparr>\<rparr>"

definition cyclic_graph :: Graph where
  "cyclic_graph = (let g = group_graph hash_length cyclic_env \<lparr>hash_id = 1\<rparr> 0
     in g\<lparr>g_state := GS_InTransition, is_initial_state_transition := True, nodes := map (\<lambda>t. t\<lparr>in_requested_state := True\<rparr>) (nodes g)\<rparr>)"

theorem start_phase_without_head_witness:
  "\<exists>g'. queueStartJobs cyclic_graph = Some g' \<and> g_state g' = GS_Success \<and> event g' = kSetStateSuccess \<and>
     map process_state (nodes g') = [LPS_Idle, LPS_Idle] \<and> is_initial_state_transition g' \<and>
     initial_state_transition_result (pgm g') = kInitialMachineStateNotSet"
proof -
  let ?g = "group_graph hash_length cyclic_env \<lparr>hash_id = 1\<rparr> 0"
  have found: "getProcessGroupByID \<lparr>hash_id = 1\<rparr> (configuration_manager cyclic_env) = Some 0"
    "cm_process_groups (configuration_manager cyclic_env) ! 0 = cyclic_group" "deps_valid cyclic_group"
    by (simp_all add: getProcessGroupByID_def cyclic_env_def cyclic_group_def example_env_def example_group_def ih_eq_def deps_valid_def
        group_deps_def example_process_def less_Suc_eq)
  have sp: "graph_wf ?g" "length (nodes ?g) = 2" "\<And>n. n < 2 \<Longrightarrow> process_state (node ?g n) = LPS_Idle"
    "deps_of ?g 0 = [1]" "deps_of ?g 1 = [0]"
    using group_graph_spec [OF found(1) found(2) [symmetric] found(3) refl, of hash_length 0]
    by (simp_all add: cyclic_group_def example_process_def)
  have env: "worker_jobs (pgm ?g) = []" "job_capacity (pgm ?g) = 8" "initial_state_transition_result (pgm ?g) = kInitialMachineStateNotSet"
    using group_graph_nodes [OF found(1), of hash_length 0] found(2,3) by (auto simp: cyclic_env_def example_env_def)
  have ss: "same_static ?g cyclic_graph" by (simp add: same_static_def cyclic_graph_def Let_def static_def)
  have n: "length (nodes cyclic_graph) = 2" "\<And>n. n < 2 \<Longrightarrow> process_state (node cyclic_graph n) = LPS_Idle"
    using sp by (simp_all add: cyclic_graph_def Let_def)
  have d: "deps_of cyclic_graph 0 = [1]" "deps_of cyclic_graph 1 = [0]" using same_static_fields(6) [OF ss] sp(2,4,5) by simp_all
  have "waits_for True cyclic_graph 0 = 1" "waits_for True cyclic_graph 1 = 1" using n d by (simp_all add: waits_for_def)
  then have w: "\<forall>n \<in> todo True cyclic_graph. waits_for True cyclic_graph n > 0" using n(1) by (auto simp: todo_def less_2_cases_iff)
  have ps: "map process_state (nodes cyclic_graph) = [LPS_Idle, LPS_Idle]"
    using n by (intro nth_equalityI) (auto simp: less_2_cases_iff)
  have q: "room cyclic_graph" "jobs cyclic_graph = []" "g_state cyclic_graph = GS_InTransition" "is_initial_state_transition cyclic_graph"
    "initial_state_transition_result (pgm cyclic_graph) = kInitialMachineStateNotSet"
    using env sp(2) by (simp_all add: room_def jobs_def other_jobs_def cyclic_graph_def Let_def)
  show ?thesis using start_phase_without_head [OF same_static_wf [OF ss sp(1)] q(3,1,2) w] ps q(4,5) by simp
qed

subsection \<open>Dependencies that are counted twice\<close>

definition dep_on :: "LcmProcessState \<Rightarrow> u32 \<Rightarrow> Dependency" where
  "dep_on s i = \<lparr>dep_process_state = s, target_process_id = \<lparr>hash_id = 7\<rparr>, os_process_index = i\<rparr>"

definition self_terminating :: "OsProcess \<Rightarrow> OsProcess" where
  "self_terminating p = p\<lparr>pgm_config := (pgm_config p)\<lparr>is_self_terminating := True\<rparr>\<rparr>"

text \<open>The graph of a group with the given processes, all of them requested in its only state, in the given states.\<close>

definition graph_of :: "OsProcess list \<Rightarrow> LcmProcessState list \<Rightarrow> Graph" where
  "graph_of ps states =
     (let group = example_group\<lparr>pg_states := [\<lparr>pgs_name = \<lparr>hash_id = 5\<rparr>, process_indexes = map word_of_nat [0..<length ps]\<rparr>], pg_processes := ps\<rparr>;
          env = example_env\<lparr>configuration_manager := (configuration_manager example_env)\<lparr>cm_process_groups := [group]\<rparr>\<rparr>;
          g = group_graph hash_length env \<lparr>hash_id = 1\<rparr> 0
      in g\<lparr>nodes := map2 (\<lambda>t s. t\<lparr>process_state := s\<rparr>) (nodes g) states\<rparr>)"

text \<open>
  \<open>twice_graph\<close>: process 0, two processes 1 and 2 that need it, of which 1 is self-terminating, and process 3 that waits for the
  termination of 1. \<open>again_graph\<close>: process 1 needs the termination of the self-terminating process 0, which has terminated before
  and is started again, and that process 2 runs.
\<close>

definition twice_graph :: Graph where
  "twice_graph = graph_of [example_process [], self_terminating (example_process [dep_on LPS_Running 0]), example_process [dep_on LPS_Running 0],
     example_process [dep_on LPS_Terminated 1]] [LPS_Running, LPS_Running, LPS_Running, LPS_Idle]"

definition again_graph :: Graph where
  "again_graph = graph_of [self_terminating (example_process []), example_process [dep_on LPS_Terminated 0, dep_on LPS_Running 2], example_process []]
    [LPS_Terminated, LPS_Idle, LPS_Idle]"

text \<open>
  Two runs in which a dependency is counted twice and so a process is queued too early. In the first the
  self-terminating process 1 is stopped; afterwards the stop of process 0 is queued although process 2, which depends
  on it, is still running. In the second process 0 is started again and terminates; afterwards the start of process 1 is
  queued although process 2, on which it depends, has not been started.
\<close>

theorem dependencies_counted_twice:
  "(do { (_, g) \<leftarrow> startTransitionToOffState twice_graph;
         g \<leftarrow> coop_job (None, 1, 5, 0) 1 g;
         Some (jobs g, deps_of g 2, map process_state (nodes g)) }
    = Some ([2, 0], [0], [LPS_Running, LPS_Terminated, LPS_Running, LPS_Idle])) \<and>
   (do { (_, g) \<leftarrow> startTransition \<lparr>id_pg_name = \<lparr>hash_id = 1\<rparr>, id_pg_state_name = \<lparr>hash_id = 5\<rparr>\<rparr> again_graph;
         g \<leftarrow> coop_job (None, 1, 5, 0) 0 g;
         g \<leftarrow> n_terminated 0 0 g;
         Some (jobs g, deps_of g 1, map process_state (nodes g)) }
    = Some ([2, 1], [0, 2], [LPS_Terminated, LPS_Idle, LPS_Idle]))"
proof
  show "do { (_, g) \<leftarrow> startTransitionToOffState twice_graph;
         g \<leftarrow> coop_job (None, 1, 5, 0) 1 g;
         Some (jobs g, deps_of g 2, map process_state (nodes g)) }
    = Some ([2, 0], [0], [LPS_Running, LPS_Terminated, LPS_Running, LPS_Idle])" by code_simp
  show "do { (_, g) \<leftarrow> startTransition \<lparr>id_pg_name = \<lparr>hash_id = 1\<rparr>, id_pg_state_name = \<lparr>hash_id = 5\<rparr>\<rparr> again_graph;
         g \<leftarrow> coop_job (None, 1, 5, 0) 0 g;
         g \<leftarrow> n_terminated 0 0 g;
         Some (jobs g, deps_of g 1, map process_state (nodes g)) }
    = Some ([2, 1], [0, 2], [LPS_Terminated, LPS_Idle, LPS_Idle])" by code_simp
qed

end
