(* ===== verification/Process_Group_Manager.thy ===== *)
theory Process_Group_Manager
  imports Safe_Process_Map Transition_Faults
begin

section \<open>The process group manager\<close>

text \<open>
  Models \<^verbatim>\<open>process_group_manager/processgroupmanager.{hpp,cpp}\<close>: the object that owns the configuration, the
  graphs of the process groups, the job queue and the process map, and whose thread serves the control
  clients, starts transitions and recovery actions.

  The graphs share the part of the manager that they reach through their pointer \<^verbatim>\<open>pgm_\<close>; here the manager
  holds it as \<open>pm_env\<close> and lends it to a graph for the time of a call (\<open>with_graph\<close>). A process group is
  addressed by its position, the channel of a control client by its group and node. The system calls of
  the initialisation and the starts of other threads have their outcome as arguments. While the thread
  sleeps the other threads work: a sleep takes the next function of a list of arguments, and a loop whose
  list has come to its end has no result, as well as the use of a null pointer. Signals set \<open>em_cancelled\<close>.
\<close>

subsection \<open>The state\<close>

record ('p, 'w) ProcessGroupManager =
  pm_env :: PgmEnv
  process_groups :: "Graph list"
  total_processes :: u32
  num_process_groups :: u32
  machine_process_group :: "nat option"
  process_map :: "SafeProcessMap option"
  queue_stopped :: bool
  recovery_client :: "'p RecoveryClient option"
  promises :: 'w
  em_cancelled :: bool

definition with_graph ::
  "nat \<Rightarrow> (Graph \<Rightarrow> ('a \<times> Graph) option) \<Rightarrow> ('p, 'w) ProcessGroupManager \<Rightarrow> ('a \<times> ('p, 'w) ProcessGroupManager) option"
where
  "with_graph k f m =
     (if k < length (process_groups m)
      then do {
        (r, g) \<leftarrow> f ((process_groups m ! k)\<lparr>pgm := pm_env m\<rparr>);
        Some (r, m\<lparr>process_groups := (process_groups m)[k := g], pm_env := pgm g\<rparr>)
      }
      else None)"

definition upd_group :: "nat \<Rightarrow> (Graph \<Rightarrow> Graph) \<Rightarrow> ('p, 'w) ProcessGroupManager \<Rightarrow> ('p, 'w) ProcessGroupManager" where
  "upd_group k f m =
     (let g = f ((process_groups m ! k)\<lparr>pgm := pm_env m\<rparr>) in m\<lparr>process_groups := (process_groups m)[k := g], pm_env := pgm g\<rparr>)"

abbreviation group :: "('p, 'w) ProcessGroupManager \<Rightarrow> nat \<Rightarrow> Graph" where
  "group m k \<equiv> process_groups m ! k"

abbreviation channel :: "('p, 'w) ProcessGroupManager \<Rightarrow> nat \<Rightarrow> nat \<Rightarrow> ControlClientChannel option" where
  "channel m k n \<equiv> control_client_channel (node (group m k) n)"

definition upd_channel ::
  "nat \<Rightarrow> nat \<Rightarrow> (ControlClientChannel \<Rightarrow> ControlClientChannel) \<Rightarrow> ('p, 'w) ProcessGroupManager \<Rightarrow> ('p, 'w) ProcessGroupManager"
where
  "upd_channel k n f m =
     m\<lparr>process_groups := (process_groups m)[k :=
        upd_node n (\<lambda>t. t\<lparr>control_client_channel := map_option f (control_client_channel t)\<rparr>) (group m k)]\<rparr>"

definition pm_nudge :: "('p, 'w) ProcessGroupManager \<Rightarrow> ('p, 'w) ProcessGroupManager" where
  "pm_nudge m = m\<lparr>pm_env := (pm_env m)\<lparr>nudges := nudges (pm_env m) + 1\<rparr>\<rparr>"

definition kMaxProcesses :: nat where "kMaxProcesses = 1024"

text \<open>\<^verbatim>\<open>getProcessGroup\<close> and \<^verbatim>\<open>getProcessInfoNode\<close>.\<close>

definition getProcessGroup :: "IdentifierHash \<Rightarrow> ('p, 'w) ProcessGroupManager \<Rightarrow> nat option" where
  "getProcessGroup name m = find_index (\<lambda>g. ih_eq (id_pg_name (requested_state g)) name) (process_groups m)"

definition pm_getProcessInfoNode :: "nat \<Rightarrow> nat \<Rightarrow> ('p, 'w) ProcessGroupManager \<Rightarrow> (nat \<times> nat) option" where
  "pm_getProcessInfoNode pg_idx process_idx m =
     (if pg_idx < length (process_groups m) then map_option (Pair pg_idx) (getProcessInfoNode process_idx (group m pg_idx)) else None)"

definition pm_cancel :: "('p, 'w) ProcessGroupManager \<Rightarrow> ('p, 'w) ProcessGroupManager" where
  "pm_cancel m = m\<lparr>em_cancelled := True\<rparr>"

subsection \<open>Initialisation\<close>

text \<open>The outcome of \<^verbatim>\<open>shm_open\<close>, \<^verbatim>\<open>ftruncate\<close>, \<^verbatim>\<open>dup2\<close> and \<^verbatim>\<open>mmap\<close>.\<close>

definition initializeControlClientHandler ::
  "bool \<times> bool \<times> bool \<times> bool \<Rightarrow> ('p, 'w) ProcessGroupManager \<Rightarrow> bool \<times> ('p, 'w) ProcessGroupManager"
where
  "initializeControlClientHandler calls m =
     (case calls of (opened, truncated, duplicated, mapped) \<Rightarrow>
        if opened then
          (if truncated then
             (if duplicated then
                (if mapped then (True, m\<lparr>pm_env := (pm_env m)\<lparr>nudges := 0\<rparr>\<rparr>) else (False, m))
              else (False, m))
           else (False, m))
        else (False, m))"

fun createGraphs :: "IdentifierHash list \<Rightarrow> ('p, 'w) ProcessGroupManager \<Rightarrow> bool \<times> ('p, 'w) ProcessGroupManager" where
  "createGraphs [] m = (True, m)"
| "createGraphs (name # names) m =
     (let num_processes = (case getNumberOfOsProcesses name (configuration_manager (pm_env m)) of Some n \<Rightarrow> n | None \<Rightarrow> 0)
      in if unat (total_processes m) + unat num_processes \<le> kMaxProcesses
         then createGraphs names (m\<lparr>process_groups := process_groups m @ [Process_Graph.Graph_new (pe_hash (pm_env m)) (pm_env m)],
                                    total_processes := total_processes m + num_processes\<rparr>)
         else (False, m))"

definition initializeProcessGroups ::
  "nat \<Rightarrow> string option \<Rightarrow> bool \<Rightarrow> LMEcuCfg option option \<Rightarrow> ('p, 'w) ProcessGroupManager \<Rightarrow> (bool \<times> ('p, 'w) ProcessGroupManager) option"
where
  "initializeProcessGroups num_cores getenv_value setenv_ok file m = do {
     (loaded, cm) \<leftarrow> cm_initialize (pe_hash (pm_env m)) num_cores getenv_value setenv_ok file (configuration_manager (pm_env m));
     let m = m\<lparr>pm_env := (pm_env m)\<lparr>configuration_manager := cm\<rparr>\<rparr>;
     Some (if loaded
           then (case getListOfProcessGroups cm of
                   Some pg_list \<Rightarrow> createGraphs pg_list (m\<lparr>num_process_groups := word_of_nat (length pg_list)\<rparr>)
                 | None \<Rightarrow> (False, m))
           else (False, m))
   }"

definition createProcessComponentsObjects :: "('p, 'w) ProcessGroupManager \<Rightarrow> ('p, 'w) ProcessGroupManager" where
  "createProcessComponentsObjects m =
     m\<lparr>process_map := Some (SafeProcessMap_new (total_processes m)),
       pm_env := (pm_env m)\<lparr>worker_jobs := [], job_capacity := unat (total_processes m)\<rparr>, queue_stopped := False\<rparr>"

definition initializeGraphNodes :: "('p, 'w) ProcessGroupManager \<Rightarrow> ('p, 'w) ProcessGroupManager option" where
  "initializeGraphNodes m =
     iterate_opt (\<lambda>idx m. do {
         pg_list \<leftarrow> getListOfProcessGroups (configuration_manager (pm_env m));
         (if idx < length pg_list
          then Some (upd_group idx (initProcessGroupNodes (pg_list ! idx)
                 (case getNumberOfOsProcesses (pg_list ! idx) (configuration_manager (pm_env m)) of Some n \<Rightarrow> n | None \<Rightarrow> 0)
                 (word_of_nat idx)) m)
          else None)
       }) [0..<length (process_groups m)] m"

definition pm_initialize ::
  "bool \<times> bool \<times> bool \<times> bool \<Rightarrow> nat \<Rightarrow> string option \<Rightarrow> bool \<Rightarrow> LMEcuCfg option option \<Rightarrow> bool \<Rightarrow> bool \<Rightarrow>
   ('p, 'w) ProcessGroupManager \<Rightarrow> (bool \<times> ('p, 'w) ProcessGroupManager) option"
where
  "pm_initialize calls num_cores getenv_value setenv_ok file monitor_started scheduling_set m = do {
     let m = m\<lparr>em_cancelled := False\<rparr>;
     let (handler, m) = initializeControlClientHandler calls m;
     (if \<not> handler then Some (False, m)
      else do {
        (groups, m) \<leftarrow> initializeProcessGroups num_cores getenv_value setenv_ok file m;
        (if \<not> groups then Some (False, m)
         else do {
           m \<leftarrow> initializeGraphNodes (createProcessComponentsObjects m);
           (if \<not> monitor_started then Some (False, m)
            else if launch_manager_config (pm_env m) \<noteq> None \<and> \<not> scheduling_set then Some (False, m)
            else Some (True, m))
         })
      })
   }"

definition pm_deinitialize :: "('p, 'w) ProcessGroupManager \<Rightarrow> ('p, 'w) ProcessGroupManager" where
  "pm_deinitialize m =
     m\<lparr>pm_env := (pm_env m)\<lparr>configuration_manager := cm_deinitialize (configuration_manager (pm_env m)), worker_jobs := [], job_capacity := 0\<rparr>,
       process_groups := [], process_map := None\<rparr>"

subsection \<open>Responses to control clients\<close>

definition pm_sendResponse :: "ControlClientMessage \<Rightarrow> ('p, 'w) ProcessGroupManager \<Rightarrow> bool \<times> ('p, 'w) ProcessGroupManager" where
  "pm_sendResponse msg m =
     (case pm_getProcessInfoNode (unat (cc_process_group_index (originating_control_client msg)))
             (unat (cc_process_index (originating_control_client msg))) m of
        None \<Rightarrow> (True, m)
      | Some (k, n) \<Rightarrow>
          (case channel m k n of
             None \<Rightarrow> (True, m)
           | Some scc \<Rightarrow>
               (let (ret, scc') = ccc_sendResponse msg scc; m = upd_channel k n (\<lambda>_. scc') m
                in (ret, if \<not> ret then pm_nudge m else m))))"

definition controlClientResponses :: "nat \<Rightarrow> ('p, 'w) ProcessGroupManager \<Rightarrow> ('p, 'w) ProcessGroupManager" where
  "controlClientResponses k m =
     (let pg = group m k; pending = event pg;
          m = (if pending \<noteq> kNotSet
               then (let (sent, m) = pm_sendResponse \<lparr>originating_control_client = last_state_manager pg, request_or_response = pending,
                                        process_group_state = requested_state pg, msg_execution_error_code = last_execution_error pg\<rparr> m
                     in if sent then upd_group k (clearPendingEvent pending) m else m)
               else m);
          cancel_msg = cancel_message (group m k)
      in if request_or_response cancel_msg \<noteq> kNotSet
         then (let (sent, m) = pm_sendResponse cancel_msg m
               in if sent then upd_group k (\<lambda>g. g\<lparr>cancel_message := (cancel_message g)\<lparr>request_or_response := kNotSet\<rparr>\<rparr>) m else m)
         else m)"

subsection \<open>Requests of control clients\<close>

text \<open>The operations change the request in the channel of node \<open>n\<close> of group \<open>k\<close> in place.\<close>

definition answer :: "nat \<Rightarrow> nat \<Rightarrow> ControlClientCode \<Rightarrow> ('p, 'w) ProcessGroupManager \<Rightarrow> ('p, 'w) ProcessGroupManager" where
  "answer k n code m = upd_channel k n (set_request (\<lambda>msg. msg\<lparr>request_or_response := code\<rparr>)) m"

definition processStateTransition :: "nat \<Rightarrow> nat \<Rightarrow> ControlClientMessage \<Rightarrow> ('p, 'w) ProcessGroupManager \<Rightarrow> ('p, 'w) ProcessGroupManager" where
  "processStateTransition k n msg m =
     (case getProcessGroup (id_pg_name (process_group_state msg)) m of
        None \<Rightarrow> answer k n kSetStateInvalidArguments m
      | Some p \<Rightarrow>
          (let old_state = id_pg_state_name (requested_state (group m p)); new_state = id_pg_state_name (process_group_state msg);
               graph_state = g_state (group m p);
               m = answer k n kSetStateSuccess m;
               m = (if graph_state = GS_InTransition
                    then (if \<not> ih_eq old_state new_state
                          then upd_group p (\<lambda>g. g_cancel (snd (setPendingState new_state g))) m
                          else answer k n kSetStateTransitionToSameState m)
                    else if graph_state = GS_Success \<and> ih_eq old_state new_state then answer k n kSetStateAlreadyInState m
                    else upd_group p (\<lambda>g. snd (setPendingState new_state g)) m)
           in upd_group p (setStateManager (originating_control_client msg)) m))"

definition processGetExecutionError :: "nat \<Rightarrow> nat \<Rightarrow> ControlClientMessage \<Rightarrow> ('p, 'w) ProcessGroupManager \<Rightarrow> ('p, 'w) ProcessGroupManager" where
  "processGetExecutionError k n msg m =
     (case getProcessGroup (id_pg_name (process_group_state msg)) m of
        None \<Rightarrow> answer k n kExecutionErrorInvalidArguments m
      | Some p \<Rightarrow>
          if g_state (group m p) \<noteq> GS_UndefinedState then answer k n kExecutionErrorRequestFailed m
          else upd_channel k n (set_request (\<lambda>msg. msg\<lparr>msg_execution_error_code := last_execution_error (group m p),
                 request_or_response := kExecutionErrorRequestSuccess\<rparr>)) m)"

definition processGetInitialMachineStateTransitionResult :: "nat \<Rightarrow> nat \<Rightarrow> ControlClientChannel \<Rightarrow> ('p, 'w) ProcessGroupManager \<Rightarrow> ('p, 'w) ProcessGroupManager" where
  "processGetInitialMachineStateTransitionResult k n scc m =
     (if machine_process_group m = None \<or> unat (initial_result_count scc) = 2 ^ 16 - 1
      then answer k n kInitialMachineStateNotSet m
      else upd_channel k n (\<lambda>c. c\<lparr>initial_result_count := initial_result_count c + 1\<rparr>) m)"

definition processValidateFunctionStateID :: "nat \<Rightarrow> nat \<Rightarrow> ControlClientMessage \<Rightarrow> ('p, 'w) ProcessGroupManager \<Rightarrow> ('p, 'w) ProcessGroupManager" where
  "processValidateFunctionStateID k n msg m =
     answer k n (if getProcessIndexesList (process_group_state msg) (configuration_manager (pm_env m)) \<noteq> None
                 then kValidateProcessGroupStateSuccess else kValidateProcessGroupStateFailed) m"

definition serve_request :: "nat \<Rightarrow> nat \<Rightarrow> ControlClientChannel \<Rightarrow> ('p, 'w) ProcessGroupManager \<Rightarrow> ('p, 'w) ProcessGroupManager" where
  "serve_request k n scc m =
     (let routed = set_request (\<lambda>msg. msg\<lparr>originating_control_client := (originating_control_client msg)\<lparr>
              cc_process_group_index := ucast (pg_index (group m k)), cc_process_index := ucast (process_index (node (group m k) n))\<rparr>\<rparr>);
          m = upd_channel k n routed m; scc = routed scc; msg = request scc;
          m = (case request_or_response msg of
                 kSetStateRequest \<Rightarrow> processStateTransition k n msg m
               | kGetExecutionErrorRequest \<Rightarrow> processGetExecutionError k n msg m
               | kGetInitialMachineStateRequest \<Rightarrow> processGetInitialMachineStateTransitionResult k n scc m
               | kValidateProcessGroupState \<Rightarrow> processValidateFunctionStateID k n msg m
               | _ \<Rightarrow> answer k n kInvalidRequest m)
      in upd_channel k n acknowledgeRequest m)"

definition ControlClientMessage_new :: "(string \<Rightarrow> u64) \<Rightarrow> ControlClientMessage" where
  "ControlClientMessage_new hash = \<lparr>originating_control_client = ControlClientID_new, request_or_response = kNotSet,
     process_group_state = \<lparr>id_pg_name = make_id hash '''', id_pg_state_name = make_id hash ''''\<rparr>, msg_execution_error_code = 0\<rparr>"

definition serve_deferred :: "nat \<Rightarrow> nat \<Rightarrow> ('p, 'w) ProcessGroupManager \<Rightarrow> ('p, 'w) ProcessGroupManager" where
  "serve_deferred k n m =
     (case channel m k n of
        None \<Rightarrow> m
      | Some scc \<Rightarrow>
          if initial_state_transition_result (pm_env m) \<noteq> kInitialMachineStateNotSet \<and> initial_result_count scc \<noteq> 0
          then (let msg = (ControlClientMessage_new (pe_hash (pm_env m)))\<lparr>request_or_response := initial_state_transition_result (pm_env m),
                            originating_control_client := originating_control_client (request scc)\<rparr>;
                    (sent, scc') = ccc_sendResponse msg scc
                in if sent then upd_channel k n (\<lambda>_. scc'\<lparr>initial_result_count := initial_result_count scc' - 1\<rparr>) m else pm_nudge m)
          else m)"

definition serve_node :: "nat \<Rightarrow> nat \<Rightarrow> ('p, 'w) ProcessGroupManager \<Rightarrow> ('p, 'w) ProcessGroupManager" where
  "serve_node k n m =
     (case channel m k n of
        None \<Rightarrow> m
      | Some scc \<Rightarrow> serve_deferred k n (if getRequest scc then serve_request k n scc m else m))"

partial_function (option) serve_nodes :: "nat \<Rightarrow> nat \<Rightarrow> ('p, 'w) ProcessGroupManager \<Rightarrow> ('p, 'w) ProcessGroupManager option" where
  "serve_nodes k n m = do {
     (next, m) \<leftarrow> with_graph k (getNextStateManager n) (serve_node k n m);
     (case next of None \<Rightarrow> Some m | Some n' \<Rightarrow> serve_nodes k n' m)
   }"

definition controlClientRequests :: "nat \<Rightarrow> ('p, 'w) ProcessGroupManager \<Rightarrow> ('p, 'w) ProcessGroupManager option" where
  "controlClientRequests k m = (if nodes (group m k) = [] then Some m else serve_nodes k 0 m)"

definition controlClientHandler :: "nat \<Rightarrow> ('p, 'w) ProcessGroupManager \<Rightarrow> ('p, 'w) ProcessGroupManager option" where
  "controlClientHandler k m = do { m \<leftarrow> controlClientRequests k m; Some (controlClientResponses k m) }"

subsection \<open>Recovery actions\<close>

definition respond_success ::
  "('w, 'p, 'f) promise_api \<Rightarrow> nat \<Rightarrow> ('p, 'w) ProcessGroupManager \<Rightarrow> ('p, 'w) ProcessGroupManager option"
where
  "respond_success api i m = do {
     c \<leftarrow> recovery_client m;
     (c, w) \<leftarrow> setResponseSuccess api i c (promises m);
     Some (m\<lparr>recovery_client := Some c, promises := w\<rparr>)
   }"

definition respond_error ::
  "('w, 'p, 'f) promise_api \<Rightarrow> nat \<Rightarrow> ExecErrc \<Rightarrow> ('p, 'w) ProcessGroupManager \<Rightarrow> ('p, 'w) ProcessGroupManager option"
where
  "respond_error api i err m = do {
     c \<leftarrow> recovery_client m;
     (c, w) \<leftarrow> setResponseError api i err c (promises m);
     Some (m\<lparr>recovery_client := Some c, promises := w\<rparr>)
   }"

definition recovery_action ::
  "('w, 'p, 'f) promise_api \<Rightarrow> RecoveryRequest \<Rightarrow> ('p, 'w) ProcessGroupManager \<Rightarrow> ('p, 'w) ProcessGroupManager option"
where
  "recovery_action api req m =
     (case getProcessGroup (rr_pg_name req) m of
        None \<Rightarrow> respond_error api (promise_id req) kInvalidArguments m
      | Some p \<Rightarrow>
          (let old_state = id_pg_state_name (requested_state (group m p)); graph_state = g_state (group m p)
           in if graph_state = GS_InTransition
              then (if \<not> ih_eq old_state (rr_pg_state_name req)
                    then respond_success api (promise_id req)
                           (controlClientResponses p (upd_group p (\<lambda>g. g_cancel (snd (setPendingState (rr_pg_state_name req) g))) m))
                    else respond_error api (promise_id req) kInTransitionToSameState m)
              else if graph_state = GS_Success \<and> ih_eq old_state (rr_pg_state_name req)
              then respond_error api (promise_id req) kAlreadyInState m
              else respond_success api (promise_id req) (upd_group p (\<lambda>g. snd (setPendingState (rr_pg_state_name req) g)) m)))"

partial_function (option) recovery_loop ::
  "('w, 'p, 'f) promise_api \<Rightarrow> ('p, 'w) ProcessGroupManager \<Rightarrow> ('p, 'w) ProcessGroupManager option"
where
  "recovery_loop api m = do {
     c \<leftarrow> recovery_client m;
     (case getNextRequest c of
        (None, c) \<Rightarrow> Some (m\<lparr>recovery_client := Some c\<rparr>)
      | (Some req, c) \<Rightarrow> do { m \<leftarrow> recovery_action api req (m\<lparr>recovery_client := Some c\<rparr>); recovery_loop api m })
   }"

definition recoveryActionHandler ::
  "('w, 'p, 'f) promise_api \<Rightarrow> ('p, 'w) ProcessGroupManager \<Rightarrow> ('p, 'w) ProcessGroupManager option"
where
  "recoveryActionHandler api m = (if recovery_client m = None then Some m else recovery_loop api m)"

subsection \<open>Starting transitions\<close>

definition group_handler :: "Graph \<Rightarrow> (unit \<times> Graph) option" where
  "group_handler pg =
     (let graph_state = g_state pg; no_id = make_id (pe_hash (pgm pg)) ''''
      in if graph_state = GS_Success \<or> graph_state = GS_UndefinedState
         then do {
           let (pending, pg) = setPendingState no_id pg;
           pg \<leftarrow> (if \<not> ih_eq pending no_id \<and> (\<not> ih_eq pending (id_pg_state_name (requested_state pg)) \<or> graph_state = GS_UndefinedState)
                  then do {
                    (started, pg) \<leftarrow> startTransition \<lparr>id_pg_name = id_pg_name (requested_state pg), id_pg_state_name = pending\<rparr> pg;
                    Some (if \<not> started then setPendingEvent kSetStateInvalidArguments pg else pg)
                  }
                  else Some pg);
           (if graph_state = GS_UndefinedState
            then do {
              let name = id_pg_name (requested_state pg);
              (_, pg) \<leftarrow> startTransition \<lparr>id_pg_name = name,
                  id_pg_state_name = getNameOfRecoveryState (pe_hash (pgm pg)) name (configuration_manager (pgm pg))\<rparr> pg;
              Some ((), pg)
            }
            else Some ((), pg))
         }
         else Some ((), pg))"

definition processGroupHandler :: "nat \<Rightarrow> ('p, 'w) ProcessGroupManager \<Rightarrow> ('p, 'w) ProcessGroupManager option" where
  "processGroupHandler k m = map_option snd (with_graph k group_handler m)"

definition pm_startInitialTransition :: "('p, 'w) ProcessGroupManager \<Rightarrow> (bool \<times> ('p, 'w) ProcessGroupManager) option" where
  "pm_startInitialTransition m =
     (case getMainPGStartupState (configuration_manager (pm_env m)) of
        Some pg_startup_id \<Rightarrow>
          (let mpg = getProcessGroup (id_pg_name pg_startup_id) m; m = m\<lparr>machine_process_group := mpg\<rparr>
           in case mpg of Some k \<Rightarrow> with_graph k (g_startInitialTransition pg_startup_id) m | None \<Rightarrow> Some (False, m))
      | None \<Rightarrow> Some (False, m))"

subsection \<open>The main loop\<close>

type_synonym ('p, 'w) meanwhile = "('p, 'w) ProcessGroupManager \<Rightarrow> ('p, 'w) ProcessGroupManager option"

definition pm_cycle :: "('w, 'p, 'f) promise_api \<Rightarrow> ('p, 'w) ProcessGroupManager \<Rightarrow> ('p, 'w) ProcessGroupManager option" where
  "pm_cycle api m = do {
     m \<leftarrow> iterate_opt (\<lambda>k m. do { m \<leftarrow> controlClientHandler k m; processGroupHandler k m }) [0..<length (process_groups m)] m;
     recoveryActionHandler api m
   }"

fun pm_loop ::
  "('w, 'p, 'f) promise_api \<Rightarrow> ('p, 'w) meanwhile list \<Rightarrow> ('p, 'w) ProcessGroupManager \<Rightarrow>
   (('p, 'w) meanwhile list \<times> ('p, 'w) ProcessGroupManager) option"
where
  "pm_loop api others m =
     (if em_cancelled m then Some (others, m)
      else case others of
             [] \<Rightarrow> None
           | other # others \<Rightarrow> do { m \<leftarrow> other m; m \<leftarrow> pm_cycle api m; pm_loop api others m })"

text \<open>\<^verbatim>\<open>waitForStateCompletion\<close>: every sleep of 10 ms reduces the counter, which all groups share.\<close>

fun wait_group ::
  "GraphState \<Rightarrow> nat \<Rightarrow> int \<Rightarrow> ('p, 'w) meanwhile list \<Rightarrow> ('p, 'w) ProcessGroupManager \<Rightarrow>
   (int \<times> ('p, 'w) meanwhile list \<times> ('p, 'w) ProcessGroupManager) option"
where
  "wait_group s k counter others m =
     (if g_state (group m k) = s \<and> counter > 1
      then (case others of [] \<Rightarrow> None | other # others \<Rightarrow> do { m \<leftarrow> other m; wait_group s k (counter - 10) others m })
      else Some (counter, others, m))"

fun wait_groups ::
  "GraphState \<Rightarrow> nat list \<Rightarrow> int \<Rightarrow> ('p, 'w) meanwhile list \<Rightarrow> ('p, 'w) ProcessGroupManager \<Rightarrow>
   (bool \<times> ('p, 'w) meanwhile list \<times> ('p, 'w) ProcessGroupManager) option"
where
  "wait_groups s [] counter others m = Some (counter > 0, others, m)"
| "wait_groups s (k # ks) counter others m = do {
     (counter, others, m) \<leftarrow> wait_group s k counter others m;
     wait_groups s ks counter others m
   }"

text \<open>The result holds the processes that are killed.\<close>

definition allProcessGroupsOff ::
  "('p, 'w) meanwhile list \<Rightarrow> ('p, 'w) ProcessGroupManager \<Rightarrow> (int list \<times> ('p, 'w) ProcessGroupManager) option"
where
  "allProcessGroupsOff others m = do {
     let ks = [0..<length (process_groups m)];
     let m = fold (\<lambda>k. upd_group k g_cancel) ks m;
     (_, others, m) \<leftarrow> wait_groups GS_Cancelled ks 2000 others m;
     m \<leftarrow> iterate_opt (\<lambda>k m. map_option snd (with_graph k startTransitionToOffState m)) ks m;
     (completed, others, m) \<leftarrow> wait_groups GS_InTransition ks 1000 others m;
     Some (if \<not> completed
           then (filter (\<lambda>pid. pid > 0) (map n_pid (concat (map nodes (process_groups m)))), m\<lparr>queue_stopped := True\<rparr>)
           else ([], m))
   }"

definition pm_run ::
  "('w, 'p, 'f) promise_api \<Rightarrow> ('p, 'w) meanwhile list \<Rightarrow> ('p, 'w) ProcessGroupManager \<Rightarrow>
   (bool \<times> int list \<times> ('p, 'w) ProcessGroupManager) option"
where
  "pm_run api others m = do {
     (result, m) \<leftarrow> pm_startInitialTransition m;
     (others, m) \<leftarrow> (if result then pm_loop api others m else Some (others, m));
     (killed, m) \<leftarrow> allProcessGroupsOff others m;
     Some (result, killed, m)
   }"

end
