(* ===== verification/Manager_Properties.thy ===== *)
theory Manager_Properties
  imports Process_Group_Manager
begin

section \<open>Serving requests\<close>

text \<open>
  The correctness of the process group manager's own thread: what a request of a control client leads to,
  that every recovery request is answered, and that the queue of the worker threads has room for every node.
\<close>

declare pm_loop.simps [simp del] wait_group.simps [simp del]

subsection \<open>Frames\<close>

lemma upd_group_simps [simp]:
  "recovery_client (upd_group k f m) = recovery_client m" "promises (upd_group k f m) = promises m"
  "length (process_groups (upd_group k f m)) = length (process_groups m)"
  "machine_process_group (upd_group k f m) = machine_process_group m"
  by (simp_all add: upd_group_def Let_def)

lemma upd_channel_simps [simp]:
  "recovery_client (upd_channel k n f m) = recovery_client m" "promises (upd_channel k n f m) = promises m"
  "length (process_groups (upd_channel k n f m)) = length (process_groups m)"
  "machine_process_group (upd_channel k n f m) = machine_process_group m" "pm_env (upd_channel k n f m) = pm_env m"
  by (simp_all add: upd_channel_def)

lemma pm_nudge_simps [simp]:
  "recovery_client (pm_nudge m) = recovery_client m" "promises (pm_nudge m) = promises m" "process_groups (pm_nudge m) = process_groups m"
  by (simp_all add: pm_nudge_def)

lemma pm_sendResponse_frame:
  "recovery_client (snd (pm_sendResponse msg m)) = recovery_client m" "promises (snd (pm_sendResponse msg m)) = promises m"
  by (simp_all add: pm_sendResponse_def Let_def split: option.split prod.split)

lemma controlClientResponses_frame [simp]:
  "recovery_client (controlClientResponses k m) = recovery_client m" "promises (controlClientResponses k m) = promises m"
  by (simp_all add: controlClientResponses_def Let_def pm_sendResponse_frame case_prod_beta)

lemma group_upd_group:
  "p < length (process_groups m) \<Longrightarrow> group (upd_group p f m) q = (if q = p then f ((group m p)\<lparr>pgm := pm_env m\<rparr>) else group m q)"
  by (simp add: upd_group_def Let_def)

lemma group_upd_channel:
  "k < length (process_groups m) \<Longrightarrow> group (upd_channel k n f m) q =
     (if q = k then upd_node n (\<lambda>t. t\<lparr>control_client_channel := map_option f (control_client_channel t)\<rparr>) (group m k) else group m q)"
  by (simp add: upd_channel_def)

lemma getProcessGroup_bound: "getProcessGroup name m = Some p \<Longrightarrow> p < length (process_groups m)"
  by (simp add: getProcessGroup_def find_index_Some)

subsection \<open>Recovery requests\<close>

text \<open>
  What a recovery request asks of a group depends on four fields of its graph. \<open>recovery_effect\<close> is the answer to a request
  for the state \<open>s\<close> and the change of these fields, \<open>recovery_step\<close> selects the first group of the requested name, and
  \<open>recovery_run\<close> takes the requests one after the other; no error in the answer means success.
\<close>

record GroupView =
  gv_name :: IdentifierHash
  gv_state :: IdentifierHash
  gv_phase :: GraphState
  gv_pending :: IdentifierHash
  gv_busy :: bool

definition group_view :: "Graph \<Rightarrow> GroupView" where
  "group_view g = \<lparr>gv_name = id_pg_name (requested_state g), gv_state = id_pg_state_name (requested_state g), gv_phase = g_state g,
     gv_pending = pending_state g, gv_busy = (nodes_in_flight g \<noteq> 0)\<rparr>"

definition recovery_effect :: "IdentifierHash \<Rightarrow> GroupView \<Rightarrow> ExecErrc option \<times> GroupView" where
  "recovery_effect s v =
     (if gv_phase v = GS_InTransition
      then (if gv_state v = s then (Some kInTransitionToSameState, v)
            else (None, v\<lparr>gv_pending := s, gv_phase := if gv_busy v then GS_Cancelled else GS_UndefinedState\<rparr>))
      else if gv_phase v = GS_Success \<and> gv_state v = s then (Some kAlreadyInState, v)
      else (None, v\<lparr>gv_pending := s\<rparr>))"

fun recovery_step :: "RecoveryRequest \<Rightarrow> GroupView list \<Rightarrow> ExecErrc option \<times> GroupView list" where
  "recovery_step r [] = (Some kInvalidArguments, [])"
| "recovery_step r (v # vs) =
     (if gv_name v = rr_pg_name r then (let (a, v) = recovery_effect (rr_pg_state_name r) v in (a, v # vs))
      else (let (a, vs) = recovery_step r vs in (a, v # vs)))"

fun recovery_run :: "RecoveryRequest list \<Rightarrow> GroupView list \<Rightarrow> ExecErrc option list \<times> GroupView list" where
  "recovery_run [] vs = ([], vs)"
| "recovery_run (r # rs) vs = (let (a, vs) = recovery_step r vs; (as, vs) = recovery_run rs vs in (a # as, vs))"

abbreviation views :: "('p, 'w) ProcessGroupManager \<Rightarrow> GroupView list" where
  "views m \<equiv> map group_view (process_groups m)"

lemma getProcessGroup_views: "getProcessGroup name m = find_index (\<lambda>v. gv_name v = name) (views m)"
  by (simp add: getProcessGroup_def find_index_map group_view_def ih_eq_iff)

lemma recovery_step_find:
  "recovery_step r vs = (case find_index (\<lambda>v. gv_name v = rr_pg_name r) vs of None \<Rightarrow> (Some kInvalidArguments, vs)
     | Some p \<Rightarrow> (fst (recovery_effect (rr_pg_state_name r) (vs ! p)), vs[p := snd (recovery_effect (rr_pg_state_name r) (vs ! p))]))"
proof (induction vs)
  case (Cons v vs)
  then show ?case by (cases "find_index (\<lambda>v. gv_name v = rr_pg_name r) vs") (auto simp: case_prod_beta simp del: find_index_None)
qed simp

lemma views_upd_group:
  assumes "\<And>g. group_view (f g) = h (group_view g)" "p < length (process_groups m)"
  shows "views (upd_group p f m) = (views m)[p := h (views m ! p)]"
proof -
  have "group_view (g\<lparr>pgm := e\<rparr>) = group_view g" for g e by (simp add: group_view_def)
  then show ?thesis using assms by (simp add: upd_group_def Let_def map_update)
qed

lemma views_upd_group_same:
  assumes "\<And>g. group_view (f g) = group_view g"
  shows "views (upd_group p f m) = views m"
proof (cases "p < length (process_groups m)")
  case True
  then show ?thesis using views_upd_group [of f "\<lambda>v. v" p m] assms by (metis list_update_id)
qed (simp add: upd_group_def Let_def list_update_beyond)

lemma views_pm_sendResponse: "views (snd (pm_sendResponse msg m)) = views m"
proof -
  have "views (upd_channel k n f m) = views m" for k n f
  proof (cases "k < length (process_groups m)")
    case True
    have "group_view (upd_node n h g) = group_view g" for h g by (simp add: group_view_def upd_node_def)
    then have "views (upd_channel k n f m) = (views m)[k := views m ! k]" using True by (simp add: upd_channel_def map_update)
    then show ?thesis by simp
  qed (simp add: upd_channel_def list_update_beyond)
  then show ?thesis by (simp add: pm_sendResponse_def Let_def split: option.split prod.split)
qed

lemma views_controlClientResponses:
  fixes m :: "('p, 'w) ProcessGroupManager"
  shows "views (controlClientResponses k m) = views m"
proof -
  have "views (upd_group k (clearPendingEvent e) m) = views m"
    "views (upd_group k (\<lambda>g. g\<lparr>cancel_message := (cancel_message g)\<lparr>request_or_response := kNotSet\<rparr>\<rparr>) m) = views m" for e and m :: "('p, 'w) ProcessGroupManager"
    by (intro views_upd_group_same; simp add: group_view_def clearPendingEvent_def)+
  then show ?thesis by (simp add: controlClientResponses_def Let_def case_prod_beta views_pm_sendResponse)
qed

lemma group_view_replace:
  "gv_phase (group_view g) = GS_InTransition \<Longrightarrow> group_view (g_cancel (snd (setPendingState s g))) =
     (group_view g)\<lparr>gv_pending := s, gv_phase := if gv_busy (group_view g) then GS_Cancelled else GS_UndefinedState\<rparr>"
  by (simp add: group_view_def g_cancel_def Let_def setPendingEvent_def nudgeControlClientHandler_def setInitialStateTransitionResult_def
      setPendingState_def g_setState_eq upd_pgm_def result_state_def state_results_def numeral_eq_Suc)

definition resolve :: "('w, 'p, 'f) promise_api \<Rightarrow> 'p \<Rightarrow> ExecErrc option \<Rightarrow> 'w \<Rightarrow> 'w" where
  "resolve api p a w = (case a of None \<Rightarrow> set_value api p w | Some err \<Rightarrow> set_error api p err w)"

abbreviation free_request :: "nat \<Rightarrow> 'p RecoveryClient \<Rightarrow> 'p RecoveryClient" where
  "free_request i c \<equiv> c\<lparr>requests := (requests c)[i := (requests c ! i)\<lparr>in_use := False\<rparr>]\<rparr>"

lemma recovery_action_answers:
  assumes "recovery_client m = Some c" "promise_id req < length (requests c)"
  shows "\<exists>m'. recovery_action api req m = Some m' \<and> recovery_client m' = Some (free_request (promise_id req) c) \<and>
    promises m' = resolve api (promise (requests c ! promise_id req)) (fst (recovery_step req (views m))) (promises m) \<and>
    views m' = snd (recovery_step req (views m))"
proof -
  let ?i = "promise_id req" let ?s = "rr_pg_state_name req"
  let ?ok = "\<lambda>x a vs. \<exists>m'. x = Some m' \<and> recovery_client m' = Some (free_request ?i c) \<and>
      promises m' = resolve api (promise (requests c ! ?i)) a (promises m) \<and> views m' = vs"
  have e: "?ok (respond_error api ?i err m1) (Some err) (views m1)" if "recovery_client m1 = Some c" "promises m1 = promises m" for m1 err
    using that assms(2) by (simp add: respond_error_def setResponseError_def resolve_def)
  have s: "?ok (respond_success api ?i m1) None (views m1)" if "recovery_client m1 = Some c" "promises m1 = promises m" for m1
    using that assms(2) by (simp add: respond_success_def setResponseSuccess_def resolve_def)
  show ?thesis
  proof (cases "getProcessGroup (rr_pg_name req) m")
    case None
    then have "recovery_step req (views m) = (Some kInvalidArguments, views m)"
      by (simp add: recovery_step_find getProcessGroup_views del: find_index_None)
    then show ?thesis using e [OF assms(1) refl] None by (simp add: recovery_action_def)
  next
    case (Some p)
    let ?v = "views m ! p"
    have p: "p < length (process_groups m)" by (rule getProcessGroup_bound [OF Some])
    have v: "g_state (group m p) = gv_phase ?v" "ih_eq (id_pg_state_name (requested_state (group m p))) ?s \<longleftrightarrow> gv_state ?v = ?s"
      using p by (simp_all add: group_view_def ih_eq_iff)
    have step: "recovery_step req (views m) = (fst (recovery_effect ?s ?v), (views m)[p := snd (recovery_effect ?s ?v)])"
      using Some unfolding recovery_step_find getProcessGroup_views by simp
    let ?cancel = "controlClientResponses p (upd_group p (\<lambda>g. g_cancel (snd (setPendingState ?s g))) m)"
    let ?pend = "upd_group p (\<lambda>g. snd (setPendingState ?s g)) m"
    have pend: "views ?pend = (views m)[p := ?v\<lparr>gv_pending := ?s\<rparr>]"
      by (rule views_upd_group [OF _ p]) (simp add: group_view_def setPendingState_def)
    have act: "recovery_action api req m =
      (if gv_phase ?v = GS_InTransition
       then (if gv_state ?v = ?s then respond_error api ?i kInTransitionToSameState m else respond_success api ?i ?cancel)
       else if gv_phase ?v = GS_Success \<and> gv_state ?v = ?s then respond_error api ?i kAlreadyInState m else respond_success api ?i ?pend)"
      unfolding recovery_action_def Some option.case Let_def v by simp
    have cancel: "views ?cancel = (views m)[p := ?v\<lparr>gv_pending := ?s, gv_phase := if gv_busy ?v then GS_Cancelled else GS_UndefinedState\<rparr>]"
      if "gv_phase ?v = GS_InTransition"
      using that p group_view_replace [of "(group m p)\<lparr>pgm := pm_env m\<rparr>" ?s]
      unfolding views_controlClientResponses by (simp add: upd_group_def Let_def map_update group_view_def)
    show ?thesis
      unfolding act step recovery_effect_def
      using e [OF assms(1) refl] s [of ?cancel] s [of ?pend] assms(1) pend cancel by auto
  qed
qed

lemma getNextRequest_cases:
  assumes "rc_inv c []"
  shows "rb_queue (ringBuffer c) = [] \<Longrightarrow> \<exists>c'. getNextRequest c = (None, c') \<and> rc_inv c' [] \<and> requests c' = requests c \<and> rb_queue (ringBuffer c') = []"
    "rb_queue (ringBuffer c) = r # rs \<Longrightarrow> \<exists>c'. getNextRequest c = (Some r, c') \<and> rc_inv c' [promise_id r] \<and> requests c' = requests c \<and>
       rb_queue (ringBuffer c') = rs \<and> promise_id r < length (requests c)"
proof -
  let ?c = "snd (getNextRequest c)"
  have ok: "rb_inv rc_element_size (ringBuffer c)" using assms by (simp add: rc_inv_def)
  note d = rb.deq_queue [OF ok] and g = getNextRequest_inv [OF assms]
  have b: "ringBuffer ?c = snd (tryDequeue rc_element_size (ringBuffer c))" "requests ?c = requests c"
    by (simp_all add: getNextRequest_def case_prod_beta Let_def split: option.split)
  show "\<exists>c'. getNextRequest c = (None, c') \<and> rc_inv c' [] \<and> requests c' = requests c \<and> rb_queue (ringBuffer c') = []"
    if "rb_queue (ringBuffer c) = []" using that g d b by (intro exI [of _ ?c]) (simp add: prod_eq_iff)
  show "\<exists>c'. getNextRequest c = (Some r, c') \<and> rc_inv c' [promise_id r] \<and> requests c' = requests c \<and>
       rb_queue (ringBuffer c') = rs \<and> promise_id r < length (requests c)" if "rb_queue (ringBuffer c) = r # rs"
  proof -
    have "promise_id r \<in> set (rc_queued c @ [])" using that by (simp add: rc_queued_def)
    then have "promise_id r \<in> rc_used c" using assms unfolding rc_inv_def by blast
    then show ?thesis using that g d b by (intro exI [of _ ?c]) (simp add: prod_eq_iff rc_used_def)
  qed
qed

lemma recovery_loop_answers:
  assumes "recovery_client m = Some c" "rc_inv c []"
  shows "\<exists>m' c'. recovery_loop api m = Some m' \<and> recovery_client m' = Some c' \<and> rc_inv c' [] \<and> rb_queue (ringBuffer c') = [] \<and>
    views m' = snd (recovery_run (rb_queue (ringBuffer c)) (views m)) \<and>
    promises m' = fold (\<lambda>(r, a). resolve api (promise (requests c ! promise_id r)) a)
      (zip (rb_queue (ringBuffer c)) (fst (recovery_run (rb_queue (ringBuffer c)) (views m)))) (promises m)"
  using assms
proof (induction "rb_queue (ringBuffer c)" arbitrary: c m)
  case Nil
  then obtain c' where "getNextRequest c = (None, c')" "rc_inv c' []" "rb_queue (ringBuffer c') = []"
    using getNextRequest_cases(1) [of c] by auto
  then show ?case using Nil by (subst recovery_loop.simps) simp
next
  case (Cons r rs)
  obtain c1 where c1: "getNextRequest c = (Some r, c1)" "rc_inv c1 [promise_id r]" "requests c1 = requests c"
    "rb_queue (ringBuffer c1) = rs" "promise_id r < length (requests c)"
    using getNextRequest_cases(2) [OF Cons.prems(2), of r rs] Cons.hyps(2) by auto
  obtain a vs where av: "recovery_step r (views m) = (a, vs)" by (cases "recovery_step r (views m)")
  obtain m1 where m1: "recovery_action api r (m\<lparr>recovery_client := Some c1\<rparr>) = Some m1"
    "recovery_client m1 = Some (free_request (promise_id r) c1)"
    "promises m1 = resolve api (promise (requests c ! promise_id r)) a (promises m)"
    "views m1 = vs"
    using recovery_action_answers [of "m\<lparr>recovery_client := Some c1\<rparr>" c1 r api] c1 av by auto
  let ?c = "free_request (promise_id r) c1"
  have inv: "rc_inv ?c []" using setResponse_inv [OF c1(2), of "promise_id r"] by simp
  obtain m' c' where ih: "recovery_loop api m1 = Some m'" "recovery_client m' = Some c'" "rc_inv c' []" "rb_queue (ringBuffer c') = []"
    "views m' = snd (recovery_run rs vs)"
    "promises m' = fold (\<lambda>(r, a). resolve api (promise (requests ?c ! promise_id r)) a) (zip rs (fst (recovery_run rs vs))) (promises m1)"
    using Cons.hyps(1) [of ?c m1] c1(4) m1(2,4) inv by auto
  have "promise (requests ?c ! i) = promise (requests c ! i)" for i
    using c1(3,5) by (cases "i = promise_id r") simp_all
  then have "promises m' = fold (\<lambda>(r, a). resolve api (promise (requests c ! promise_id r)) a) (zip (r # rs) (a # fst (recovery_run rs vs))) (promises m)"
    using ih(6) m1(3) by simp
  moreover have "recovery_loop api m = Some m'" using Cons.prems(1) c1(1) m1(1) ih(1) by (subst recovery_loop.simps) simp
  ultimately show ?case using ih(2-5) unfolding Cons.hyps(2) [symmetric]
    by (intro exI [of _ m'] exI [of _ c']) (simp add: av case_prod_beta)
qed

text \<open>
  (C11) The recovery action handler returns, and it answers every queued recovery request exactly once, in the order of the
  queue, on the promise of that request and with the result that the state of the group prescribes at that moment: an
  unknown group is an invalid argument, a request for the state under way or already reached is refused with its own
  error, and every other request succeeds and leaves its state pending, cancelling a transition that is under way. The
  states of all groups afterwards are those of the same run; no request is queued any more and every slot is free.
\<close>

theorem recovery_requests_answered:
  assumes "rc_reachable api c (promises m) []" "recovery_client m = Some c"
    and "recovery_run (rb_queue (ringBuffer c)) (map group_view (process_groups m)) = (results, vs)"
  shows "\<exists>m' c'. recoveryActionHandler api m = Some m' \<and> recovery_client m' = Some c' \<and> rb_queue (ringBuffer c') = [] \<and> rc_used c' = {} \<and>
    map group_view (process_groups m') = vs \<and>
    promises m' = fold (\<lambda>(r, a). resolve api (promise (requests c ! promise_id r)) a) (zip (rb_queue (ringBuffer c)) results) (promises m)"
proof -
  obtain m' c' where r: "recovery_loop api m = Some m'" "recovery_client m' = Some c'" "rc_inv c' []" "rb_queue (ringBuffer c') = []"
    "views m' = vs"
    "promises m' = fold (\<lambda>(r, a). resolve api (promise (requests c ! promise_id r)) a) (zip (rb_queue (ringBuffer c)) results) (promises m)"
    using recovery_loop_answers [OF assms(2) rc_reachable_inv [OF assms(1)], of api] assms(3) by auto
  have "rc_used c' = {}" using r(3,4) by (simp add: rc_inv_def rc_queued_def)
  then show ?thesis using r assms(2) by (auto simp: recoveryActionHandler_def)
qed

subsection \<open>Requests for a state\<close>

lemma nodes_simps [simp]:
  "nodes (snd (setPendingState s g)) = nodes g" "nodes (setStateManager i g) = nodes g" "nodes (g_cancel g) = nodes g"
  by (simp_all add: setPendingState_def setStateManager_def clearPendingEvent_def g_cancel_def Let_def setPendingEvent_def
      nudgeControlClientHandler_def setInitialStateTransitionResult_def)

text \<open>A transition that is replaced: the graph is cancelled, and the one who asked for it is to be told.\<close>

lemma cancel_and_replace:
  fixes i :: ControlClientID and s :: IdentifierHash
  assumes "g_state g = GS_InTransition"
  defines "g' \<equiv> setStateManager i (g_cancel (snd (setPendingState s g)))"
  shows "g_state g' = (if nodes_in_flight g = 0 then GS_UndefinedState else GS_Cancelled)" "pending_state g' = s" "last_state_manager g' = i"
    "cancel_message g' = (cancel_message g)\<lparr>process_group_state := requested_state g, originating_control_client := last_state_manager g,
       request_or_response := kSetStateCancelled\<rparr>"
    "event g' = kNotSet" "requested_state g' = requested_state g"
proof -
  have r: "result_state GS_Cancelled GS_InTransition = GS_Cancelled" "result_state GS_UndefinedState GS_Cancelled = GS_UndefinedState"
    by (simp_all add: result_state_def state_results_def numeral_eq_Suc)
  note defs = g'_def setStateManager_def clearPendingEvent_def g_cancel_def Let_def setPendingEvent_def nudgeControlClientHandler_def
    setInitialStateTransitionResult_def setPendingState_def g_setState_eq upd_pgm_def
  show "g_state g' = (if nodes_in_flight g = 0 then GS_UndefinedState else GS_Cancelled)" "pending_state g' = s" "last_state_manager g' = i"
    "cancel_message g' = (cancel_message g)\<lparr>process_group_state := requested_state g, originating_control_client := last_state_manager g,
       request_or_response := kSetStateCancelled\<rparr>"
    "event g' = kNotSet" "requested_state g' = requested_state g"
    using assms(1) by (simp_all add: defs r)
qed

lemma setStateManager_fields [simp]:
  "g_state (setStateManager i g) = g_state g" "pending_state (setStateManager i g) = pending_state g"
  "last_state_manager (setStateManager i g) = i" "requested_state (setStateManager i g) = requested_state g"
  by (simp_all add: setStateManager_def clearPendingEvent_def Let_def)

definition answer_code :: "nat \<Rightarrow> nat \<Rightarrow> ('p, 'w) ProcessGroupManager \<Rightarrow> ControlClientCode" where
  "answer_code k n m = request_or_response (request (the (channel m k n)))"

lemma answer_spec:
  assumes "k < length (process_groups m)" "n < length (nodes (group m k))" "channel m k n = Some scc"
  shows "answer_code k n (answer k n code m) = code" "n < length (nodes (group (answer k n code m) k))"
    "\<exists>scc'. channel (answer k n code m) k n = Some scc'" "length (process_groups (answer k n code m)) = length (process_groups m)"
    "g_state (group (answer k n code m) p) = g_state (group m p)" "pending_state (group (answer k n code m) p) = pending_state (group m p)"
    "nodes_in_flight (group (answer k n code m) p) = nodes_in_flight (group m p)" "requested_state (group (answer k n code m) p) = requested_state (group m p)"
    "last_state_manager (group (answer k n code m) p) = last_state_manager (group m p)"
    "cancel_message (group (answer k n code m) p) = cancel_message (group m p)"
  using assms by (simp_all add: answer_code_def answer_def group_upd_channel set_request_def upd_node_def)

lemma answer_code_upd_group:
  assumes "p < length (process_groups m)" "\<And>g. nodes (f g) = nodes g"
  shows "answer_code k n (upd_group p f m) = answer_code k n m"
  using assms by (simp add: answer_code_def group_upd_group)

text \<open>
  (C10) What a request for a state of a known group does, in every state of its graph. During a transition to another
  state the transition is cancelled, the new state is pending and the message that tells the previous requester
  \<^verbatim>\<open>kSetStateCancelled\<close> is prepared; a request for the state under way or already reached is refused with its own
  code and changes neither the graph's state nor what is pending; in every other case the state is pending. In all of
  these cases the sender becomes the one who receives the outcome.
\<close>

theorem set_state_request_outcome:
  assumes "getProcessGroup (id_pg_name (process_group_state msg)) m = Some p"
    and "k < length (process_groups m)" "n < length (nodes (group m k))" "channel m k n = Some scc"
    and "new = id_pg_state_name (process_group_state msg)" and "old = id_pg_state_name (requested_state (group m p))"
    and "m' = processStateTransition k n msg m"
  shows "(g_state (group m p) = GS_InTransition \<and> new \<noteq> old \<longrightarrow>
       answer_code k n m' = kSetStateSuccess \<and> pending_state (group m' p) = new \<and>
       g_state (group m' p) = (if nodes_in_flight (group m p) = 0 then GS_UndefinedState else GS_Cancelled) \<and>
       request_or_response (cancel_message (group m' p)) = kSetStateCancelled \<and>
       originating_control_client (cancel_message (group m' p)) = last_state_manager (group m p) \<and>
       process_group_state (cancel_message (group m' p)) = requested_state (group m p)) \<and>
    (g_state (group m p) = GS_InTransition \<and> new = old \<longrightarrow>
       answer_code k n m' = kSetStateTransitionToSameState \<and> pending_state (group m' p) = pending_state (group m p) \<and> g_state (group m' p) = GS_InTransition) \<and>
    (g_state (group m p) = GS_Success \<and> new = old \<longrightarrow>
       answer_code k n m' = kSetStateAlreadyInState \<and> pending_state (group m' p) = pending_state (group m p) \<and> g_state (group m' p) = GS_Success) \<and>
    (g_state (group m p) \<noteq> GS_InTransition \<and> \<not> (g_state (group m p) = GS_Success \<and> new = old) \<longrightarrow>
       answer_code k n m' = kSetStateSuccess \<and> pending_state (group m' p) = new \<and> g_state (group m' p) = g_state (group m p)) \<and>
    last_state_manager (group m' p) = originating_control_client msg"
proof -
  let ?g = "group m p" let ?i = "originating_control_client msg"
  have p: "p < length (process_groups m)" by (rule getProcessGroup_bound [OF assms(1)])
  note a = answer_spec [OF assms(2-4)]
  define m1 where "m1 = answer k n kSetStateSuccess m"
  note a1 = a [of kSetStateSuccess, folded m1_def]
  have p1: "p < length (process_groups m1)" using p a1(4) by simp
  obtain scc1 where scc1: "channel m1 k n = Some scc1" using a1(3) by blast
  have k1: "k < length (process_groups m1)" using assms(2) a1(4) by simp
  note b = answer_spec [OF k1 a1(2) scc1]
  have m': "m' = upd_group p (setStateManager ?i)
     (if g_state ?g = GS_InTransition
      then (if old \<noteq> new then upd_group p (\<lambda>g. g_cancel (snd (setPendingState new g))) m1 else answer k n kSetStateTransitionToSameState m1)
      else if g_state ?g = GS_Success \<and> old = new then answer k n kSetStateAlreadyInState m1
      else upd_group p (\<lambda>g. snd (setPendingState new g)) m1)"
    unfolding assms(5-7) processStateTransition_def m1_def by (simp add: assms(1) Let_def)
  have code: "answer_code k n (upd_group p (setStateManager ?i) x) = answer_code k n x" if "p < length (process_groups x)" for x
    by (rule answer_code_upd_group [OF that]) simp
  show ?thesis
  proof (cases "g_state ?g = GS_InTransition")
    case t: True
    show ?thesis
    proof (cases "new = old")
      case True
      then have "m' = upd_group p (setStateManager ?i) (answer k n kSetStateTransitionToSameState m1)" using m' t by simp
      then show ?thesis using True t p1 a1 b by (simp add: code group_upd_group)
    next
      case False
      let ?h = "(group m1 p)\<lparr>pgm := pm_env m1\<rparr>"
      have e: "m' = upd_group p (setStateManager ?i) (upd_group p (\<lambda>g. g_cancel (snd (setPendingState new g))) m1)" using m' t False by simp
      have gs: "g_state ?h = GS_InTransition" using t a1(5) by simp
      have pg: "g\<lparr>pgm := pgm g\<rparr> = g" for g :: Graph by simp
      have "group m' p = setStateManager ?i (g_cancel (snd (setPendingState new ?h)))"
        unfolding e using p1 by (simp add: group_upd_group) (simp add: upd_group_def Let_def p1)
      moreover have "answer_code k n m' = kSetStateSuccess"
        unfolding e using p1 a1(1) by (simp add: code answer_code_upd_group)
      ultimately show ?thesis using cancel_and_replace [OF gs, of ?i new] t False a1 by simp
    qed
  next
    case False
    then show ?thesis using m' p1 a1 b by (auto simp: code group_upd_group answer_code_upd_group setPendingState_def)
  qed
qed

subsection \<open>An example\<close>

text \<open>A manager of one group with two processes, the second of which is a state manager with an idle channel.\<close>

declare serve_nodes.simps [code] getNextStateManager.simps [code] recovery_loop.simps [code]

definition demo_group :: ProcessGroup where
  "demo_group = example_group\<lparr>pg_states := [\<lparr>pgs_name = \<lparr>hash_id = 5\<rparr>, process_indexes = [1, 0]\<rparr>, \<lparr>pgs_name = \<lparr>hash_id = 4\<rparr>, process_indexes = []\<rparr>]\<rparr>"

definition demo_env :: PgmEnv where
  "demo_env = example_env\<lparr>configuration_manager := (configuration_manager example_env)\<lparr>cm_process_groups := [demo_group]\<rparr>\<rparr>"

definition demo_graph :: Graph where
  "demo_graph = group_graph hash_length demo_env \<lparr>hash_id = 1\<rparr> 0"

definition cc_msg :: "ControlClientCode \<Rightarrow> u32 \<Rightarrow> IdentifierHash \<Rightarrow> ControlClientMessage" where
  "cc_msg code future state = \<lparr>originating_control_client = \<lparr>cc_process_group_index = 0, cc_process_index = 0, cc_future_id = future\<rparr>,
     request_or_response = code, process_group_state = \<lparr>id_pg_name = \<lparr>hash_id = 1\<rparr>, id_pg_state_name = state\<rparr>, msg_execution_error_code = 0\<rparr>"

definition idle_channel :: "ControlClientChannel" where
  "idle_channel = \<lparr>ccc_request = \<lparr>comms_empty = True, comms_msg = cc_msg kNotSet 0 \<lparr>hash_id = 0\<rparr>\<rparr>,
     ccc_response = \<lparr>comms_empty = True, comms_msg = cc_msg kNotSet 0 \<lparr>hash_id = 0\<rparr>\<rparr>, initial_result_count = 0, nudge_LM_Handler = 0, ipc_parent = True\<rparr>"

definition client_graph :: Graph where
  "client_graph = setupControlClientChannel (Some idle_channel) 1 demo_graph"

definition demo_manager :: "Graph \<Rightarrow> nat RecoveryClient option \<Rightarrow> nat \<Rightarrow> (nat, nat) ProcessGroupManager" where
  "demo_manager g rc w = \<lparr>pm_env = demo_env, process_groups = [g], total_processes = 2, num_process_groups = 1, machine_process_group = Some 0,
     process_map = None, queue_stopped = False, recovery_client = rc, promises = w, em_cancelled = False\<rparr>"

definition busy_manager :: "(nat, nat) ProcessGroupManager" where
  "busy_manager = demo_manager (client_graph\<lparr>g_state := GS_InTransition, nodes_in_flight := 1\<rparr>) None 0"

theorem set_state_request_outcome_witness:
  "answer_code 0 1 (processStateTransition 0 1 (cc_msg kSetStateRequest 3 \<lparr>hash_id = 5\<rparr>) busy_manager) = kSetStateSuccess \<and>
   g_state (group (processStateTransition 0 1 (cc_msg kSetStateRequest 3 \<lparr>hash_id = 5\<rparr>) busy_manager) 0) = GS_Cancelled \<and>
   request_or_response (cancel_message (group (processStateTransition 0 1 (cc_msg kSetStateRequest 3 \<lparr>hash_id = 5\<rparr>) busy_manager) 0)) = kSetStateCancelled"
proof -
  let ?msg = "cc_msg kSetStateRequest 3 \<lparr>hash_id = 5\<rparr>"
  have h: "getProcessGroup (id_pg_name (process_group_state ?msg)) busy_manager = Some 0" "0 < length (process_groups busy_manager)"
    "1 < length (nodes (group busy_manager 0))" "channel busy_manager 0 1 = Some idle_channel"
    "g_state (group busy_manager 0) = GS_InTransition" "id_pg_state_name (process_group_state ?msg) \<noteq> id_pg_state_name (requested_state (group busy_manager 0))"
    "nodes_in_flight (group busy_manager 0) = 1"
    by code_simp+
  show ?thesis using set_state_request_outcome [OF h(1-4) refl refl refl] h(5-7) by simp
qed

text \<open>A queued request for a state of the first group: it succeeds, and the state is pending.\<close>

theorem recovery_requests_answered_witness:
  "\<exists>c w m' i. rb_queue (ringBuffer c) = [\<lparr>rr_pg_name = \<lparr>hash_id = 1\<rparr>, rr_pg_state_name = \<lparr>hash_id = 5\<rparr>, promise_id = i\<rparr>] \<and>
     recoveryActionHandler counting_api (demo_manager demo_graph (Some c) w) = Some m' \<and>
     (\<exists>c'. recovery_client m' = Some c' \<and> rb_queue (ringBuffer c') = [] \<and> rc_used c' = {}) \<and>
     pending_state (group m' 0) = \<lparr>hash_id = 5\<rparr> \<and> g_state (group m' 0) = GS_Success \<and>
     promises m' = set_value counting_api (promise (requests c ! i)) w"
proof -
  let ?c = "fst (RecoveryClient_new counting_api 0)" let ?w = "snd (RecoveryClient_new counting_api 0)"
  have p: "new_promise counting_api ?w = (?w, ?w + 1)" "get_future counting_api ?w (?w + 1) = (Some ?w, ?w + 1)" by (simp_all add: counting_api_def)
  have inv: "rc_inv ?c []" by (rule rc_reachable_inv [OF counting_start(1)])
  have "length (requests ?c) = 128" using inv by (simp add: rc_inv_def rc_capacity_def)
  then have free: "\<exists>r \<in> set (requests ?c). \<not> in_use r" using counting_start(2) rc_used_all [of ?c] by (metis empty_iff lessThan_iff zero_less_numeral)
  have q: "rb_queue (ringBuffer ?c) = []" by (simp add: RecoveryClient_new_def Let_def case_prod_beta)
  obtain i c' where c': "sendRecoveryRequest counting_api \<lparr>hash_id = 1\<rparr> \<lparr>hash_id = 5\<rparr> ?c ?w = Some (?w, c', ?w + 1)"
    "rb_queue (ringBuffer c') = [\<lparr>rr_pg_name = \<lparr>hash_id = 1\<rparr>, rr_pg_state_name = \<lparr>hash_id = 5\<rparr>, promise_id = i\<rparr>]"
    using send_free [OF inv free p, of "\<lparr>hash_id = 1\<rparr>" "\<lparr>hash_id = 5\<rparr>"] q by auto
  let ?r = "\<lparr>rr_pg_name = \<lparr>hash_id = 1\<rparr>, rr_pg_state_name = \<lparr>hash_id = 5\<rparr>, promise_id = i\<rparr>"
  let ?m = "demo_manager demo_graph (Some c') (?w + 1)"
  have m: "rc_reachable counting_api c' (promises ?m) []" "recovery_client ?m = Some c'" "promises ?m = ?w + 1"
    using rc_send [OF counting_start(1) c'(1)] by (simp_all add: demo_manager_def)
  have "id_pg_name (requested_state demo_graph) = \<lparr>hash_id = 1\<rparr>" "id_pg_state_name (requested_state demo_graph) \<noteq> \<lparr>hash_id = 5\<rparr>"
    "g_state demo_graph = GS_Success"
    by code_simp+
  then have run: "recovery_run (rb_queue (ringBuffer c')) (map group_view (process_groups ?m)) =
      ([None], [(group_view demo_graph)\<lparr>gv_pending := \<lparr>hash_id = 5\<rparr>\<rparr>])"
    unfolding c'(2) by (simp add: demo_manager_def recovery_effect_def group_view_def)
  obtain m' d where r: "recoveryActionHandler counting_api ?m = Some m'" "recovery_client m' = Some d" "rb_queue (ringBuffer d) = []" "rc_used d = {}"
    "map group_view (process_groups m') = [(group_view demo_graph)\<lparr>gv_pending := \<lparr>hash_id = 5\<rparr>\<rparr>]"
    "promises m' = resolve counting_api (promise (requests c' ! i)) None (?w + 1)"
    using recovery_requests_answered [OF m(1,2) run] c'(2) m(3) by auto
  have "g_state demo_graph = GS_Success" by code_simp
  moreover have "group_view (group m' 0) = (group_view demo_graph)\<lparr>gv_pending := \<lparr>hash_id = 5\<rparr>\<rparr>" using r(5) by auto
  ultimately have "pending_state (group m' 0) = \<lparr>hash_id = 5\<rparr>" "g_state (group m' 0) = GS_Success" by (simp_all add: group_view_def)
  then show ?thesis using c'(2) r by (intro exI [of _ c'] exI [of _ "?w + 1"] exI [of _ m'] exI [of _ i]) (simp add: resolve_def)
qed

end
