(* ===== verification/Manager_Init.thy ===== *)
theory Manager_Init
  imports Manager_Properties
begin

section \<open>The initialised manager\<close>

text \<open>
  The condition under which the initialisation succeeds, and what it leaves: every configured process group has its graph, and the queue of the worker
  threads has a place for every node of every graph. This discharges, for the real program, the assumption on the
  queue under which the theorems on transitions hold.
\<close>

definition env_ext :: "PgmEnv \<Rightarrow> PgmEnv \<Rightarrow> bool" where
  "env_ext e e' \<longleftrightarrow> (\<exists>lm. e' = e\<lparr>launch_manager_config := lm\<rparr>)"

lemma env_ext_refl [simp]: "env_ext e e"
  unfolding env_ext_def by (intro exI [of _ "launch_manager_config e"]) simp

lemma env_ext_trans: "env_ext a b \<Longrightarrow> env_ext b c \<Longrightarrow> env_ext a c"
  by (auto simp: env_ext_def)

lemma env_ext_simps:
  assumes "env_ext e e'"
  shows "configuration_manager e' = configuration_manager e" "pe_hash e' = pe_hash e" "worker_jobs e' = worker_jobs e" "job_capacity e' = job_capacity e"
  using assms by (auto simp: env_ext_def)

lemma initNode_frame: "env_ext (pgm g) (pgm (initNode n g))" "length (nodes (initNode n g)) = length (nodes g)"
proof -
  have s: "env_ext (pgm h) (pgm (setLaunchManagerConfiguration c h))" "nodes (setLaunchManagerConfiguration c h) = nodes h" for c h
    using setLaunchManagerConfiguration_eq [of c h] by (auto simp: env_ext_def)
  show "env_ext (pgm g) (pgm (initNode n g))" "length (nodes (initNode n g)) = length (nodes g)"
    unfolding initNode_def Let_def using s(1) [of "upd_node _ _ g"] by (auto split: option.split simp: s(2))
qed

lemma createProcessInfoNodes_frame:
  "env_ext (pgm g) (pgm (createProcessInfoNodes n g))" "length (nodes (createProcessInfoNodes n g)) = length (nodes g) + n"
proof (induction n)
  case (Suc n)
  let ?h = "(createProcessInfoNodes n g)\<lparr>nodes := nodes (createProcessInfoNodes n g) @ [ProcessInfoNode_new]\<rparr>"
  have "createProcessInfoNodes (Suc n) g = initNode n ?h" by (simp add: createProcessInfoNodes_def)
  then show "env_ext (pgm g) (pgm (createProcessInfoNodes (Suc n) g))" "length (nodes (createProcessInfoNodes (Suc n) g)) = length (nodes g) + Suc n"
    using initNode_frame [where g = ?h and n = n] Suc env_ext_trans by auto
qed (simp_all add: createProcessInfoNodes_def)

lemma createSuccessorLists_frame:
  "pgm (createSuccessorLists name g) = pgm g" "length (nodes (createSuccessorLists name g)) = length (nodes g)"
proof -
  define e where "e = (\<lambda>n (dep :: Dependency) g. if unat (os_process_index dep) < length (nodes g)
    then upd_node (unat (os_process_index dep)) (addSuccessorNode n (dep_process_state dep)) g else g)"
  have i: "pgm (fold (e n) ds h) = pgm h" "length (nodes (fold (e n) ds h)) = length (nodes h)" for n ds h
    by (induction ds arbitrary: h) (simp_all add: e_def)
  define f where "f = (\<lambda>n g. case getOsProcessDependencies name (process_index (node g n)) (configuration_manager (pgm g)) of None \<Rightarrow> g | Some ds \<Rightarrow> fold (e n) ds g)"
  have j: "pgm (f n h) = pgm h" "length (nodes (f n h)) = length (nodes h)" for n h
    by (simp_all add: f_def i split: option.split)
  have "pgm (fold f ns h) = pgm h \<and> length (nodes (fold f ns h)) = length (nodes h)" for ns h
    by (induction ns arbitrary: h) (simp_all add: j)
  then show "pgm (createSuccessorLists name g) = pgm g" "length (nodes (createSuccessorLists name g)) = length (nodes g)"
    unfolding createSuccessorLists_def f_def e_def by simp_all
qed

lemma initProcessGroupNodes_frame:
  "env_ext (pgm g) (pgm (initProcessGroupNodes name n i g))" "length (nodes (initProcessGroupNodes name n i g)) = length (nodes g) + unat n"
proof -
  let ?g = "g\<lparr>pg_index := i, g_off_state := getNameOfOffState (pe_hash (pgm g)) name (configuration_manager (pgm g)),
    requested_state := \<lparr>id_pg_name = name, id_pg_state_name = getNameOfOffState (pe_hash (pgm g)) name (configuration_manager (pgm g))\<rparr>\<rparr>"
  show "env_ext (pgm g) (pgm (initProcessGroupNodes name n i g))" "length (nodes (initProcessGroupNodes name n i g)) = length (nodes g) + unat n"
    using createProcessInfoNodes_frame [where g = ?g and n = "unat n"] by (simp_all add: initProcessGroupNodes_def Let_def createSuccessorLists_frame)
qed

subsection \<open>The graphs of the manager\<close>

definition group_size :: "IdentifierHash \<Rightarrow> ConfigurationManager \<Rightarrow> u32" where
  "group_size name cm = (case getNumberOfOsProcesses name cm of Some n \<Rightarrow> n | None \<Rightarrow> 0)"

lemma createGraphs_True:
  assumes "createGraphs names m = (True, m')"
  shows "process_groups m' = process_groups m @ replicate (length names) (Process_Graph.Graph_new (pe_hash (pm_env m)) (pm_env m)) \<and>
    pm_env m' = pm_env m \<and> unat (total_processes m') = unat (total_processes m) + (\<Sum>name\<leftarrow>names. unat (group_size name (configuration_manager (pm_env m)))) \<and>
    (names \<noteq> [] \<longrightarrow> unat (total_processes m') \<le> kMaxProcesses)"
  using assms
proof (induction names arbitrary: m)
  case (Cons name names)
  let ?n = "group_size name (configuration_manager (pm_env m))"
  let ?m = "m\<lparr>process_groups := process_groups m @ [Process_Graph.Graph_new (pe_hash (pm_env m)) (pm_env m)], total_processes := total_processes m + ?n\<rparr>"
  have c: "unat (total_processes m) + unat ?n \<le> kMaxProcesses" "createGraphs names ?m = (True, m')"
    using Cons.prems by (simp_all add: group_size_def Let_def split: if_splits)
  have u: "unat (total_processes m + ?n) = unat (total_processes m) + unat ?n"
    using c(1) by (intro unat_add_lem [THEN iffD1]) (simp add: kMaxProcesses_def)
  show ?case using Cons.IH [OF c(2)] u c(1) by (cases names) (simp_all add: replicate_append_same)
qed simp

text \<open>The limit is checked after every group; as the sum only grows, it is the limit on the sum of all groups that decides.\<close>

lemma createGraphs_accepts:
  "fst (createGraphs names m) \<longleftrightarrow>
     names = [] \<or> unat (total_processes m) + (\<Sum>name\<leftarrow>names. unat (group_size name (configuration_manager (pm_env m)))) \<le> kMaxProcesses"
proof (induction names arbitrary: m)
  case (Cons name names)
  let ?n = "group_size name (configuration_manager (pm_env m))"
  let ?m = "m\<lparr>process_groups := process_groups m @ [Process_Graph.Graph_new (pe_hash (pm_env m)) (pm_env m)], total_processes := total_processes m + ?n\<rparr>"
  have c: "createGraphs (name # names) m = (if unat (total_processes m) + unat ?n \<le> kMaxProcesses then createGraphs names ?m else (False, m))"
    by (simp add: group_size_def Let_def)
  have u: "unat (total_processes m + ?n) = unat (total_processes m) + unat ?n" if "unat (total_processes m) + unat ?n \<le> kMaxProcesses"
    using that by (intro unat_add_lem [THEN iffD1]) (simp add: kMaxProcesses_def)
  show ?case using Cons.IH [of ?m] u unfolding c by (cases names) auto
qed simp

lemma Graph_new_pgm: "(Process_Graph.Graph_new h e)\<lparr>pgm := e'\<rparr> = Process_Graph.Graph_new h e'"
  by (simp add: Process_Graph.Graph_new_def Let_def)

definition init_step :: "nat \<Rightarrow> ('p, 'w) ProcessGroupManager \<Rightarrow> ('p, 'w) ProcessGroupManager option" where
  "init_step idx m = do {
     pg_list \<leftarrow> getListOfProcessGroups (configuration_manager (pm_env m));
     (if idx < length pg_list
      then Some (upd_group idx (initProcessGroupNodes (pg_list ! idx) (group_size (pg_list ! idx) (configuration_manager (pm_env m))) (word_of_nat idx)) m)
      else None) }"

lemma iterate_opt_append: "iterate_opt f (xs @ ys) a = do { a \<leftarrow> iterate_opt f xs a; iterate_opt f ys a }"
  by (induction xs arbitrary: a) (simp_all split: Option.bind_split)

lemma init_steps:
  assumes names: "getListOfProcessGroups (configuration_manager (pm_env m)) = Some names"
    and groups: "process_groups m = replicate (length names) (Process_Graph.Graph_new h e)" and j: "j \<le> length names"
  shows "\<exists>m'. iterate_opt init_step [0..<j] m = Some m' \<and> env_ext (pm_env m) (pm_env m') \<and> total_processes m' = total_processes m \<and>
    length (process_groups m') = length names \<and> (\<forall>i. j \<le> i \<and> i < length names \<longrightarrow> group m' i = Process_Graph.Graph_new h e) \<and>
    (\<forall>i < j. \<exists>e'. env_ext (pm_env m) e' \<and>
       group m' i = initProcessGroupNodes (names ! i) (group_size (names ! i) (configuration_manager (pm_env m))) (word_of_nat i) (Process_Graph.Graph_new h e'))"
  using j
proof (induction j)
  case 0
  then show ?case using groups by simp
next
  case (Suc j)
  then obtain m1 where m1: "iterate_opt init_step [0..<j] m = Some m1" "env_ext (pm_env m) (pm_env m1)" "total_processes m1 = total_processes m"
    "length (process_groups m1) = length names" "\<forall>i. j \<le> i \<and> i < length names \<longrightarrow> group m1 i = Process_Graph.Graph_new h e"
    "\<forall>i < j. \<exists>e'. env_ext (pm_env m) e' \<and>
       group m1 i = initProcessGroupNodes (names ! i) (group_size (names ! i) (configuration_manager (pm_env m))) (word_of_nat i) (Process_Graph.Graph_new h e')"
    by auto
  have j: "j < length names" using Suc.prems by simp
  let ?init = "initProcessGroupNodes (names ! j) (group_size (names ! j) (configuration_manager (pm_env m))) (word_of_nat j)"
  let ?m = "upd_group j ?init m1"
  have new: "(group m1 j)\<lparr>pgm := pm_env m1\<rparr> = Process_Graph.Graph_new h (pm_env m1)" using m1(5) j by (simp add: Graph_new_pgm)
  have s: "init_step j m1 = Some ?m" using names j env_ext_simps(1) [OF m1(2)] by (simp add: init_step_def)
  have pg: "pgm (Process_Graph.Graph_new h (pm_env m1)) = pm_env m1" by (simp add: Process_Graph.Graph_new_def Let_def)
  have e: "env_ext (pm_env m) (pm_env ?m)"
    using initProcessGroupNodes_frame(1) [where g = "Process_Graph.Graph_new h (pm_env m1)"] env_ext_trans [OF m1(2)] by (simp add: upd_group_def Let_def new pg)
  have g: "group ?m i = (if i = j then ?init (Process_Graph.Graph_new h (pm_env m1)) else group m1 i)" for i
    using j m1(4) new by (simp add: group_upd_group)
  have it: "iterate_opt init_step [0..<Suc j] m = Some ?m" using m1(1) s by (simp add: iterate_opt_append)
  have "\<exists>e'. env_ext (pm_env m) e' \<and>
       group ?m i = initProcessGroupNodes (names ! i) (group_size (names ! i) (configuration_manager (pm_env m))) (word_of_nat i) (Process_Graph.Graph_new h e')"
    if "i < Suc j" for i
  proof (cases "i = j")
    case True
    then show ?thesis using g m1(2) by (intro exI [of _ "pm_env m1"]) simp
  qed (use that m1(6) g in simp)
  then show ?case using it e g m1(3,4,5) by (intro exI [of _ ?m]) (simp add: upd_group_def Let_def)
qed

lemma initializeGraphNodes_eq: "initializeGraphNodes m = iterate_opt init_step [0..<length (process_groups m)] m"
  unfolding initializeGraphNodes_def init_step_def [abs_def] group_size_def by (rule refl)

text \<open>What a successful initialisation leaves behind.\<close>

definition initialised ::
  "(string \<Rightarrow> u64) \<Rightarrow> ConfigurationManager \<Rightarrow> IdentifierHash list \<Rightarrow> ('p, 'w) ProcessGroupManager \<Rightarrow> bool"
where
  "initialised h cm names m \<longleftrightarrow> configuration_manager (pm_env m) = cm \<and> length (process_groups m) = length names \<and>
     worker_jobs (pm_env m) = [] \<and> unat (total_processes m) = (\<Sum>name\<leftarrow>names. unat (group_size name cm)) \<and>
     job_capacity (pm_env m) = (\<Sum>g\<leftarrow>process_groups m. length (nodes g)) \<and>
     (\<forall>i < length names. \<exists>e. configuration_manager e = cm \<and>
        group m i = initProcessGroupNodes (names ! i) (group_size (names ! i) cm) (word_of_nat i) (Process_Graph.Graph_new h e))"

lemma graphs_initialised:
  assumes names: "getListOfProcessGroups cm = Some names"
    and m1: "createGraphs names m0 = (True, m1)" "process_groups m0 = []" "total_processes m0 = 0" "configuration_manager (pm_env m0) = cm"
  shows "\<exists>m'. initializeGraphNodes (createProcessComponentsObjects m1) = Some m' \<and> initialised (pe_hash (pm_env m0)) cm names m'"
proof -
  let ?h = "pe_hash (pm_env m0)"
  have c: "process_groups m1 = replicate (length names) (Process_Graph.Graph_new ?h (pm_env m0))" "pm_env m1 = pm_env m0"
    "unat (total_processes m1) = (\<Sum>name\<leftarrow>names. unat (group_size name cm))"
    using createGraphs_True [OF m1(1)] m1(2-4) by auto
  define m2 where "m2 = createProcessComponentsObjects m1"
  have m2: "process_groups m2 = process_groups m1" "total_processes m2 = total_processes m1" "configuration_manager (pm_env m2) = cm"
    "worker_jobs (pm_env m2) = []" "job_capacity (pm_env m2) = unat (total_processes m1)"
    using c(2) m1(4) by (simp_all add: m2_def createProcessComponentsObjects_def)
  have nm: "getListOfProcessGroups (configuration_manager (pm_env m2)) = Some names" using names m2(3) by simp
  have grp: "process_groups m2 = replicate (length names) (Process_Graph.Graph_new ?h (pm_env m0))" using c(1) m2(1) by simp
  have "initializeGraphNodes m2 = iterate_opt init_step [0..<length names] m2" using grp by (simp add: initializeGraphNodes_eq)
  then obtain m' where m': "initializeGraphNodes m2 = Some m'" and e: "env_ext (pm_env m2) (pm_env m')"
    and t: "total_processes m' = total_processes m2" and l: "length (process_groups m') = length names"
    and g: "\<And>i. i < length names \<Longrightarrow> \<exists>e'. env_ext (pm_env m2) e' \<and>
       group m' i = initProcessGroupNodes (names ! i) (group_size (names ! i) cm) (word_of_nat i) (Process_Graph.Graph_new ?h e')"
    using init_steps [OF nm grp order_refl] m2(3) by auto
  have len: "length (nodes (group m' i)) = unat (group_size (names ! i) cm)" if i: "i < length names" for i
  proof -
    obtain e' where "group m' i = initProcessGroupNodes (names ! i) (group_size (names ! i) cm) (word_of_nat i) (Process_Graph.Graph_new ?h e')"
      using g [OF i] by blast
    then show ?thesis by (simp add: initProcessGroupNodes_frame(2)) (simp add: Process_Graph.Graph_new_def Let_def)
  qed
  have "map (\<lambda>g. length (nodes g)) (process_groups m') = map (\<lambda>name. unat (group_size name cm)) names"
    using l len by (intro nth_equalityI) simp_all
  then have sum: "(\<Sum>g\<leftarrow>process_groups m'. length (nodes g)) = unat (total_processes m1)" using c(3) by simp
  note ee = env_ext_simps [OF e]
  have "\<exists>e. configuration_manager e = cm \<and>
       group m' i = initProcessGroupNodes (names ! i) (group_size (names ! i) cm) (word_of_nat i) (Process_Graph.Graph_new ?h e)"
    if "i < length names" for i
    using g [OF that] env_ext_simps(1) m2(3) by metis
  then have "initialised ?h cm names m'" using l t c(3) m2 ee sum by (simp add: initialised_def)
  then show ?thesis using m' by (auto simp: m2_def)
qed

lemma initializeProcessGroups_cases:
  assumes fresh: "process_groups m = []" "total_processes m = 0"
    and cm: "cm_initialize (pe_hash (pm_env m)) num_cores getenv_value setenv_ok file (configuration_manager (pm_env m)) = Some (True, cm)"
    and names: "getListOfProcessGroups cm = Some names"
  shows "\<exists>m0. initializeProcessGroups num_cores getenv_value setenv_ok file m = Some (createGraphs names m0) \<and>
    process_groups m0 = [] \<and> total_processes m0 = 0 \<and> configuration_manager (pm_env m0) = cm \<and> pe_hash (pm_env m0) = pe_hash (pm_env m)"
  using assms by (intro exI [of _ "m\<lparr>pm_env := (pm_env m)\<lparr>configuration_manager := cm\<rparr>, num_process_groups := word_of_nat (length names)\<rparr>"])
    (simp add: initializeProcessGroups_def Let_def)

text \<open>
  (C8) The initialisation of the launch manager on a fresh object. When the monitor thread of the health monitoring starts
  and the launch manager's own scheduling can be set, it succeeds exactly when the four system calls for the control client
  handler succeed, the configuration can be loaded, it has at least one process group, and all groups together have at
  most 1024 processes. Whenever it succeeds, every configured process group has its graph, built from the
  configuration that was loaded, the total is the number of configured processes, and the job queue is
  empty and has exactly one place for every process node of all graphs.
\<close>

theorem manager_initialised:
  assumes fresh: "process_groups m = []" "total_processes m = 0"
  shows "((\<exists>m'. pm_initialize calls num_cores getenv_value setenv_ok file True True m = Some (True, m')) \<longleftrightarrow>
      calls = (True, True, True, True) \<and>
      (\<exists>cm names. cm_initialize (pe_hash (pm_env m)) num_cores getenv_value setenv_ok file (configuration_manager (pm_env m)) = Some (True, cm) \<and>
         getListOfProcessGroups cm = Some names \<and> (\<Sum>name\<leftarrow>names. unat (group_size name cm)) \<le> 1024)) \<and>
    (\<forall>monitor_started scheduling_set m'.
       pm_initialize calls num_cores getenv_value setenv_ok file monitor_started scheduling_set m = Some (True, m') \<longrightarrow>
       monitor_started \<and> (launch_manager_config (pm_env m') \<noteq> None \<longrightarrow> scheduling_set) \<and>
       (\<exists>cm names. cm_initialize (pe_hash (pm_env m)) num_cores getenv_value setenv_ok file (configuration_manager (pm_env m)) = Some (True, cm) \<and>
          getListOfProcessGroups cm = Some names \<and> initialised (pe_hash (pm_env m)) cm names m' \<and> unat (total_processes m') \<le> 1024))"
proof -
  let ?m = "m\<lparr>em_cancelled := False, pm_env := (pm_env m)\<lparr>nudges := 0\<rparr>\<rparr>"
  let ?load = "cm_initialize (pe_hash (pm_env m)) num_cores getenv_value setenv_ok file (configuration_manager (pm_env m))"
  have ok: "initializeControlClientHandler calls (m\<lparr>em_cancelled := False\<rparr>) =
      (if calls = (True, True, True, True) then (True, ?m) else (False, m\<lparr>em_cancelled := False\<rparr>))"
    by (simp add: initializeControlClientHandler_def split: prod.split)
  have run: "pm_initialize calls num_cores getenv_value setenv_ok file mon sch m = do {
      (groups, m1) \<leftarrow> initializeProcessGroups num_cores getenv_value setenv_ok file ?m;
      (if \<not> groups then Some (False, m1)
       else do { m2 \<leftarrow> initializeGraphNodes (createProcessComponentsObjects m1);
                 (if \<not> mon then Some (False, m2)
                  else if launch_manager_config (pm_env m2) \<noteq> None \<and> \<not> sch then Some (False, m2) else Some (True, m2)) }) }"
    if "calls = (True, True, True, True)" for mon sch
    using that ok by (simp add: pm_initialize_def Let_def)
  have succ: "calls = (True, True, True, True) \<and> mon \<and> (launch_manager_config (pm_env m') \<noteq> None \<longrightarrow> sch) \<and>
      (\<exists>cm names. ?load = Some (True, cm) \<and> getListOfProcessGroups cm = Some names \<and> initialised (pe_hash (pm_env m)) cm names m' \<and>
        (\<Sum>name\<leftarrow>names. unat (group_size name cm)) \<le> 1024)"
    if r: "pm_initialize calls num_cores getenv_value setenv_ok file mon sch m = Some (True, m')" for mon sch m'
  proof -
    have calls: "calls = (True, True, True, True)" using r ok by (auto simp: pm_initialize_def Let_def split: if_splits)
    obtain m1 where m1: "initializeProcessGroups num_cores getenv_value setenv_ok file ?m = Some (True, m1)"
      "initializeGraphNodes (createProcessComponentsObjects m1) = Some m'" "mon" "launch_manager_config (pm_env m') \<noteq> None \<longrightarrow> sch"
      using r unfolding run [OF calls] by (auto split: bind_splits if_splits)
    obtain cm names where cm: "?load = Some (True, cm)" "getListOfProcessGroups cm = Some names"
      using m1(1) by (auto simp: initializeProcessGroups_def Let_def split: bind_splits if_splits option.splits)
    obtain m0 where m0: "createGraphs names m0 = (True, m1)" "process_groups m0 = []" "total_processes m0 = 0"
      "configuration_manager (pm_env m0) = cm" "pe_hash (pm_env m0) = pe_hash (pm_env m)"
      using initializeProcessGroups_cases [of ?m num_cores getenv_value setenv_ok "file" cm names] fresh cm m1(1) by auto
    have "names \<noteq> []" using cm(2) by (auto simp: getListOfProcessGroups_def split: if_splits)
    then have "(\<Sum>name\<leftarrow>names. unat (group_size name cm)) \<le> 1024" using createGraphs_accepts [of names m0] m0 by (simp add: kMaxProcesses_def)
    then show ?thesis using graphs_initialised [OF cm(2) m0(1-4)] m0(5) calls m1 cm by auto
  qed
  have conv: "\<exists>m'. pm_initialize calls num_cores getenv_value setenv_ok file True True m = Some (True, m')"
    if calls: "calls = (True, True, True, True)" and cm: "?load = Some (True, cm)" "getListOfProcessGroups cm = Some names"
      and sum: "(\<Sum>name\<leftarrow>names. unat (group_size name cm)) \<le> 1024" for cm names
  proof -
    obtain m0 where m0: "initializeProcessGroups num_cores getenv_value setenv_ok file ?m = Some (createGraphs names m0)"
      "process_groups m0 = []" "total_processes m0 = 0" "configuration_manager (pm_env m0) = cm"
      using initializeProcessGroups_cases [of ?m num_cores getenv_value setenv_ok "file" cm names] fresh cm by auto
    obtain m1 where m1: "createGraphs names m0 = (True, m1)"
      using createGraphs_accepts [of names m0] m0(3,4) sum by (cases "createGraphs names m0") (simp add: kMaxProcesses_def)
    show ?thesis using graphs_initialised [OF cm(2) m1 m0(2-4)] m0(1) m1 unfolding run [OF calls] by auto
  qed
  have "(\<exists>m'. pm_initialize calls num_cores getenv_value setenv_ok file True True m = Some (True, m')) \<longleftrightarrow>
      calls = (True, True, True, True) \<and> (\<exists>cm names. ?load = Some (True, cm) \<and> getListOfProcessGroups cm = Some names \<and>
         (\<Sum>name\<leftarrow>names. unat (group_size name cm)) \<le> 1024)"
    using succ [of True True] conv by blast
  moreover have "mon \<and> (launch_manager_config (pm_env m') \<noteq> None \<longrightarrow> sch) \<and>
      (\<exists>cm names. ?load = Some (True, cm) \<and> getListOfProcessGroups cm = Some names \<and> initialised (pe_hash (pm_env m)) cm names m' \<and>
        unat (total_processes m') \<le> 1024)"
    if "pm_initialize calls num_cores getenv_value setenv_ok file mon sch m = Some (True, m')" for mon sch m'
    using succ [OF that] by (auto simp: initialised_def)
  ultimately show ?thesis by blast
qed

definition empty_manager :: "(nat, nat) ProcessGroupManager" where
  "empty_manager = \<lparr>pm_env = example_env\<lparr>configuration_manager := ConfigurationManager_new hash_length\<rparr>, process_groups = [], total_processes = 0,
     num_process_groups = 0, machine_process_group = None, process_map = None, queue_stopped = False, recovery_client = None, promises = 0,
     em_cancelled = False\<rparr>"

lemma example_loads:
  "\<exists>cm. cm_initialize hash_length 4 None True (Some (Some example_root)) (ConfigurationManager_new hash_length) = Some (True, cm) \<and>
     map (\<lambda>name. unat (group_size name cm)) (the (getListOfProcessGroups cm)) = [2] \<and> getListOfProcessGroups cm \<noteq> None"
proof -
  have "map_option (\<lambda>(r, cm). (r, map (\<lambda>name. unat (group_size name cm)) (the (getListOfProcessGroups cm)), getListOfProcessGroups cm \<noteq> None))
      (cm_initialize hash_length 4 None True (Some (Some example_root)) (ConfigurationManager_new hash_length)) = Some (True, [2], True)"
    by code_simp
  then show ?thesis by auto
qed

theorem manager_initialised_witness:
  "\<exists>m'. pm_initialize (True, True, True, True) 4 None True (Some (Some example_root)) True True empty_manager = Some (True, m') \<and>
     unat (total_processes m') = 2 \<and> job_capacity (pm_env m') = (\<Sum>g\<leftarrow>process_groups m'. length (nodes g)) \<and> worker_jobs (pm_env m') = []"
proof -
  have fresh: "process_groups empty_manager = []" "total_processes empty_manager = 0" by (simp_all add: empty_manager_def)
  have e: "pe_hash (pm_env empty_manager) = hash_length" "configuration_manager (pm_env empty_manager) = ConfigurationManager_new hash_length"
    by (simp_all add: empty_manager_def example_env_def)
  obtain cm names where cm: "cm_initialize hash_length 4 None True (Some (Some example_root)) (ConfigurationManager_new hash_length) = Some (True, cm)"
    "getListOfProcessGroups cm = Some names" "map (\<lambda>name. unat (group_size name cm)) names = [2]"
    using example_loads by fastforce
  note t = manager_initialised [OF fresh, of "(True, True, True, True)" 4 None True "Some (Some example_root)", unfolded e]
  obtain m' where m': "pm_initialize (True, True, True, True) 4 None True (Some (Some example_root)) True True empty_manager = Some (True, m')"
    using conjunct1 [OF t] cm by (auto 0 4)
  then have i: "initialised hash_length cm names m'" using conjunct2 [OF t] cm by fastforce
  then have "unat (total_processes m') = 2" using cm(3) by (simp add: initialised_def)
  then show ?thesis using m' i by (auto simp: initialised_def)
qed

end
