(* ===== verification/Manager_Faults.thy ===== *)
theory Manager_Faults
  imports Manager_Properties
begin

section \<open>Faults of the process group manager\<close>

text \<open>
  Four situations in which the manager does not do what its comments say: a pending request that is
  overridden by the recovery state, the result of the initial transition sent to the wrong request, a
  shutdown that leaves processes running, and a list of state managers that has become a cycle.
\<close>

subsection \<open>The recovery state overrides a valid request\<close>

text \<open>
  A group whose transition has been cancelled for a new request is in the undefined state with the new state
  pending. The handler starts the transition to it and then, although the request was valid, also the one to the
  recovery state: the recovery state is the one that is requested and reported as reached, the job of the first
  transition is still in the queue, and when it is executed the group becomes undefined once more.
\<close>

theorem pending_request_overridden:
  "do { (_, g) \<leftarrow> group_handler (demo_graph\<lparr>g_state := GS_UndefinedState, pending_state := \<lparr>hash_id = 5\<rparr>\<rparr>);
        (_, g') \<leftarrow> doWork None 1 0 [] (take_job 0 g);
        Some (id_pg_state_name (requested_state g), g_state g, jobs g, g_state g') }
   = Some (recovery_state demo_group, GS_Success, [0], GS_UndefinedState)"
  by code_simp

subsection \<open>The deferred result of the initial transition\<close>

definition client_puts :: "ControlClientMessage \<Rightarrow> ControlClientChannel \<Rightarrow> ControlClientChannel" where
  "client_puts msg c = c\<lparr>ccc_request := \<lparr>comms_empty = False, comms_msg = msg\<rparr>\<rparr>"

lemma channel_upd_channel:
  assumes "k < length (process_groups m)" "n < length (nodes (group m k))"
  shows "channel (upd_channel k n f m) k n = map_option f (channel m k n)" "n < length (nodes (group (upd_channel k n f m) k))"
    "pg_index (group (upd_channel k n f m) k) = pg_index (group m k)" "process_index (node (group (upd_channel k n f m) k) n) = process_index (node (group m k) n)"
  using assms by (simp_all add: group_upd_channel node_upd_node)

text \<open>
  A state manager asks for the result of the initial transition and, while it has no answer yet, sends another
  request. When the initial transition has ended its result is sent under the identifier of the second request, and
  nothing is left to answer the first one.
\<close>

theorem deferred_result_misrouted:
  assumes "k < length (process_groups m)" "n < length (nodes (group m k))" "channel m k n = Some scc" "comms_empty (ccc_response scc)"
    and "initial_result_count scc = 0" "machine_process_group m \<noteq> None" "initial_state_transition_result (pm_env m) = kInitialMachineStateNotSet"
    and "request_or_response msg1 = kGetInitialMachineStateRequest" "request_or_response msg2 = kValidateProcessGroupState"
    and "m1 = serve_node k n (upd_channel k n (client_puts msg1) m)" "m2 = serve_node k n (upd_channel k n (client_puts msg2) m1)"
    and "m3 = serve_node k n (m2\<lparr>pm_env := (pm_env m2)\<lparr>initial_state_transition_result := r\<rparr>\<rparr>)" "r \<noteq> kInitialMachineStateNotSet"
  shows "\<exists>c answer. channel m3 k n = Some c \<and> initial_result_count c = 0 \<and> fst (ccc_getResponse c) = Some answer \<and>
    request_or_response answer = r \<and> cc_future_id (originating_control_client answer) = cc_future_id (originating_control_client msg2)"
proof -
  note defs = serve_node_def serve_request_def serve_deferred_def client_puts_def getRequest_def set_request_def acknowledgeRequest_def
    processGetInitialMachineStateTransitionResult_def processValidateFunctionStateID_def answer_def Let_def
  obtain c1 where c1: "channel m1 k n = Some c1" "initial_result_count c1 = 1" "comms_empty (ccc_response c1)" "comms_empty (ccc_request c1)"
    "length (process_groups m1) = length (process_groups m)" "n < length (nodes (group m1 k))" "pm_env m1 = pm_env m"
    using assms(1-8) unfolding assms(10) by (simp add: defs channel_upd_channel)
  obtain c2 where c2: "channel m2 k n = Some c2" "initial_result_count c2 = 1" "comms_empty (ccc_response c2)" "comms_empty (ccc_request c2)"
    "length (process_groups m2) = length (process_groups m)" "n < length (nodes (group m2 k))" "pm_env m2 = pm_env m"
    "cc_future_id (originating_control_client (request c2)) = cc_future_id (originating_control_client msg2)"
    using assms(1,7,9) c1 unfolding assms(11) by (simp add: defs channel_upd_channel)
  show ?thesis using assms(1,13) c2 unfolding assms(12) by (simp add: defs channel_upd_channel ccc_sendResponse_def ccc_getResponse_def)
qed

theorem deferred_result_misrouted_witness:
  "\<exists>c answer. channel (serve_node 0 1 ((serve_node 0 1 (upd_channel 0 1 (client_puts (cc_msg kValidateProcessGroupState 2 \<lparr>hash_id = 5\<rparr>))
       (serve_node 0 1 (upd_channel 0 1 (client_puts (cc_msg kGetInitialMachineStateRequest 1 \<lparr>hash_id = 0\<rparr>)) (demo_manager client_graph None 0)))))
       \<lparr>pm_env := (pm_env (serve_node 0 1 (upd_channel 0 1 (client_puts (cc_msg kValidateProcessGroupState 2 \<lparr>hash_id = 5\<rparr>))
       (serve_node 0 1 (upd_channel 0 1 (client_puts (cc_msg kGetInitialMachineStateRequest 1 \<lparr>hash_id = 0\<rparr>)) (demo_manager client_graph None 0))))))
         \<lparr>initial_state_transition_result := kInitialMachineStateSuccess\<rparr>\<rparr>)) 0 1 = Some c \<and>
     fst (ccc_getResponse c) = Some answer \<and> cc_future_id (originating_control_client answer) = 2"
proof -
  have h: "0 < length (process_groups (demo_manager client_graph None 0))" "1 < length (nodes (group (demo_manager client_graph None 0) 0))"
    "channel (demo_manager client_graph None 0) 0 1 = Some idle_channel" "comms_empty (ccc_response idle_channel)"
    "initial_result_count idle_channel = 0" "machine_process_group (demo_manager client_graph None 0) \<noteq> None"
    "initial_state_transition_result (pm_env (demo_manager client_graph None 0)) = kInitialMachineStateNotSet"
    by code_simp+
  have c: "request_or_response (cc_msg kGetInitialMachineStateRequest 1 \<lparr>hash_id = 0\<rparr>) = kGetInitialMachineStateRequest"
    "request_or_response (cc_msg kValidateProcessGroupState 2 \<lparr>hash_id = 5\<rparr>) = kValidateProcessGroupState"
    "cc_future_id (originating_control_client (cc_msg kValidateProcessGroupState 2 \<lparr>hash_id = 5\<rparr>)) = 2"
    by (simp_all add: cc_msg_def)
  show ?thesis using deferred_result_misrouted [OF h c(1,2) refl refl refl, of kInitialMachineStateSuccess] c(3) by auto
qed

subsection \<open>Shutdown\<close>

text \<open>
  When the cancellation of a group takes longer than two seconds at shutdown, the transition to the off state is
  refused, the wait for it ends at once as completed, and the processes of the group are neither stopped nor killed.
\<close>

theorem shutdown_leaves_processes:
  "map_option (\<lambda>(killed, m). (killed, g_state (group m 0), map process_state (nodes (group m 0))))
     (allProcessGroupsOff (replicate 200 Some)
        (demo_manager (demo_graph\<lparr>g_state := GS_InTransition, nodes_in_flight := 1,
           nodes := map (\<lambda>t. t\<lparr>process_state := LPS_Running, n_pid := 77\<rparr>) (nodes demo_graph)\<rparr>) None 0))
   = Some ([], GS_Cancelled, [LPS_Running, LPS_Running])"
  by code_simp

subsection \<open>The list of state managers\<close>

text \<open>The part of the nodes that the traversal of the list reads; no request changes it.\<close>

definition links :: "Graph \<Rightarrow> (nat option \<times> bool) list" where
  "links g = map (\<lambda>t. (next_state_manager t, control_client_channel t = None)) (nodes g)"

definition same_links :: "('p, 'w) ProcessGroupManager \<Rightarrow> ('p, 'w) ProcessGroupManager \<Rightarrow> bool" where
  "same_links m m' \<longleftrightarrow> map links (process_groups m') = map links (process_groups m)"

lemma same_links_refl [simp]: "same_links m m"
  by (simp add: same_links_def)

lemma same_links_trans: "same_links a b \<Longrightarrow> same_links b c \<Longrightarrow> same_links a c"
  by (simp add: same_links_def)

lemma same_links_group:
  assumes "same_links m m'" "k < length (process_groups m)"
  shows "links (group m' k) = links (group m k)" "length (process_groups m') = length (process_groups m)"
proof -
  have e: "map links (process_groups m') = map links (process_groups m)" using assms(1) by (simp add: same_links_def)
  show l: "length (process_groups m') = length (process_groups m)" using arg_cong [OF e, of length] by simp
  show "links (group m' k) = links (group m k)" using arg_cong [OF e, of "\<lambda>xs. xs ! k"] assms(2) l by simp
qed

lemma links_upd_node: "links (upd_node n (\<lambda>t. t\<lparr>control_client_channel := map_option f (control_client_channel t)\<rparr>) g) = links g"
  by (cases "n < length (nodes g)") (simp_all add: links_def upd_node_def map_update list_update_beyond list_update_same_conv)

lemma same_links_channel [simp]: "same_links m (upd_channel k n f m')  \<longleftrightarrow> same_links m m'"
  by (cases "k < length (process_groups m')")
    (simp_all add: same_links_def upd_channel_def map_update links_upd_node list_update_same_conv list_update_beyond)

lemma same_links_group_upd:
  assumes "\<And>g. nodes (f g) = nodes g"
  shows "same_links m (upd_group k f m') \<longleftrightarrow> same_links m m'"
proof -
  have "links (f ((group m' k)\<lparr>pgm := pm_env m'\<rparr>)) = links (group m' k)" using assms by (simp add: links_def)
  then show ?thesis
    by (cases "k < length (process_groups m')")
      (simp_all add: same_links_def upd_group_def Let_def map_update list_update_same_conv list_update_beyond)
qed

lemma same_links_nudge [simp]: "same_links m (pm_nudge m') \<longleftrightarrow> same_links m m'"
  by (simp add: same_links_def)

lemma same_links_answer [simp]: "same_links m (answer k n code m') \<longleftrightarrow> same_links m m'"
  by (simp add: answer_def)

lemma processStateTransition_links:
  "same_links m m' \<Longrightarrow> same_links m (processStateTransition k n msg m')"
  unfolding processStateTransition_def Let_def by (simp add: same_links_group_upd split: option.split)

lemma serve_request_links: "same_links m (serve_request k n scc m)"
  unfolding serve_request_def Let_def
  by (simp add: processStateTransition_links processGetExecutionError_def processGetInitialMachineStateTransitionResult_def
      processValidateFunctionStateID_def split: ControlClientCode.split option.split)

lemma serve_node_links: "same_links m (serve_node k n m)"
proof -
  have "same_links m (serve_deferred k n m')" if "same_links m m'" for m'
    unfolding serve_deferred_def Let_def using that by (simp split: option.split prod.split)
  then show ?thesis by (simp add: serve_node_def serve_request_links split: option.split)
qed

text \<open>A live node that is its own successor.\<close>

definition stuck :: "nat \<Rightarrow> nat \<Rightarrow> ('p, 'w) ProcessGroupManager \<Rightarrow> bool" where
  "stuck k n m \<longleftrightarrow> k < length (process_groups m) \<and> n < length (links (group m k)) \<and> links (group m k) ! n = (Some n, False)"

lemma next_of_live:
  assumes "n < length (nodes g)" "n' < length (nodes g)" "next_state_manager (node g n) = Some n'" "control_client_channel (node g n') \<noteq> None"
  shows "getNextStateManager n g = Some (Some n', g)"
  using assms by (subst getNextStateManager.simps) auto

lemma stuck_step:
  assumes "stuck k n m"
  shows "\<exists>m'. with_graph k (getNextStateManager n) (serve_node k n m) = Some (Some n, m') \<and> stuck k n m'"
proof -
  define s where "s = serve_node k n m"
  have l: "links (group s k) = links (group m k)" "length (process_groups s) = length (process_groups m)"
    using same_links_group [OF serve_node_links] assms by (auto simp: s_def stuck_def)
  let ?g = "(group s k)\<lparr>pgm := pm_env s\<rparr>"
  have n: "n < length (links (group s k))" "links (group s k) ! n = (Some n, False)" using assms l by (simp_all add: stuck_def)
  then have g: "n < length (nodes ?g)" "next_state_manager (node ?g n) = Some n" "control_client_channel (node ?g n) \<noteq> None"
    by (auto simp: links_def)
  have "with_graph k (getNextStateManager n) s = Some (Some n, s\<lparr>process_groups := (process_groups s)[k := ?g], pm_env := pm_env s\<rparr>)"
    using next_of_live [OF g(1,1,2,3)] assms l by (simp add: with_graph_def stuck_def)
  moreover have "stuck k n (s\<lparr>process_groups := (process_groups s)[k := ?g], pm_env := pm_env s\<rparr>)"
    using assms l by (simp add: stuck_def) (simp add: links_def)
  ultimately show ?thesis unfolding s_def by blast
qed

lemma stuck_diverges: "serve_nodes k n m = Some m' \<Longrightarrow> \<not> stuck k n m"
proof (erule serve_nodes.raw_induct [rotated])
  fix serve :: "nat \<Rightarrow> nat \<Rightarrow> ('a, 'b) ProcessGroupManager \<Rightarrow> ('a, 'b) ProcessGroupManager option" and k n m m'
  assume ih: "\<And>k n m m'. serve k n m = Some m' \<Longrightarrow> \<not> stuck k n m"
    and body: "with_graph k (getNextStateManager n) (serve_node k n m) \<bind>
      (\<lambda>(next, m). case next of None \<Rightarrow> Some m | Some n' \<Rightarrow> serve k n' m) = Some m'"
  show "\<not> stuck k n m"
  proof
    assume "stuck k n m"
    then obtain m1 where m1: "with_graph k (getNextStateManager n) (serve_node k n m) = Some (Some n, m1)" "stuck k n m1"
      using stuck_step by blast
    then have "serve k n m1 = Some m'" using body by simp
    then show False using ih m1(2) by blast
  qed
qed

text \<open>
  (C18) A state manager process that is set up again while its node is still the first in the list of state managers of its
  group: it was linked there by its previous start, and the list has not been walked through since it terminated, as
  a walk removes the nodes without a channel. The comment at the insertion says that the node is put into the list if it is
  not there already, but this is not checked: the node is linked to itself, and from then on serving the requests of
  the group never returns.
\<close>

theorem restarted_state_manager_hangs:
  assumes "k < length (process_groups m)" "n \<noteq> 0" "n < length (nodes g)" "next_state_manager (node g 0) = Some n"
    and "group m k = setupControlClientChannel (Some c) n g"
  shows "controlClientRequests k m = None"
proof -
  have n0: "0 < length (nodes g)" using assms(3) by (metis gr_zeroI not_less0)
  have len: "length (nodes (group m k)) = length (nodes g)" by (simp add: assms(5) setupControlClientChannel_def Let_def)
  have nx: "next_state_manager (node (group m k) n) = Some n" "next_state_manager (node (group m k) 0) = Some n"
    "control_client_channel (node (group m k) n) = Some c"
    using assms(2-4) n0 by (simp_all add: assms(5) setupControlClientChannel_def Let_def node_upd_node)
  have st: "stuck k n m" using assms(1,3) len nx by (simp add: stuck_def links_def)
  define s where "s = serve_node k 0 m"
  have l: "links (group s k) = links (group m k)" "length (process_groups s) = length (process_groups m)"
    using same_links_group [OF serve_node_links assms(1)] by (auto simp: s_def)
  let ?g = "(group s k)\<lparr>pgm := pm_env s\<rparr>"
  have ls: "length (nodes ?g) = length (nodes g)" using arg_cong [OF l(1), of length] len by (simp add: links_def)
  have "links (group s k) ! 0 = links (group m k) ! 0" "links (group s k) ! n = links (group m k) ! n" using l(1) by simp_all
  then have g: "next_state_manager (node ?g 0) = Some n" "control_client_channel (node ?g n) \<noteq> None"
    using nx ls len assms(3) n0 by (auto simp: links_def)
  let ?m = "s\<lparr>process_groups := (process_groups s)[k := ?g], pm_env := pm_env s\<rparr>"
  have "getNextStateManager 0 ?g = Some (Some n, ?g)" using ls n0 assms(3) g by (intro next_of_live) simp_all
  then have w: "with_graph k (getNextStateManager 0) s = Some (Some n, ?m)" using assms(1) l(2) by (simp add: with_graph_def)
  have "stuck k n ?m" using st l by (simp add: stuck_def) (simp add: links_def)
  then have "serve_nodes k n ?m = None" using stuck_diverges by fastforce
  then have "serve_nodes k 0 m = None" using w by (subst serve_nodes.simps) (simp add: s_def)
  moreover have "nodes (group m k) \<noteq> []" using len n0 by auto
  ultimately show ?thesis by (simp add: controlClientRequests_def)
qed

text \<open>The second process of the example is set up, terminates and is set up again.\<close>

definition terminated_graph :: Graph where
  "terminated_graph = the (n_terminated 1 (- 1) (client_graph\<lparr>nodes := map (\<lambda>t. t\<lparr>process_state := LPS_Running\<rparr>) (nodes client_graph)\<rparr>))"

theorem restarted_state_manager_hangs_witness:
  "channel (demo_manager terminated_graph None 0) 0 1 = None \<and>
   controlClientRequests 0 (demo_manager (setupControlClientChannel (Some idle_channel) 1 terminated_graph) None 0) = None"
proof -
  have "1 < length (nodes terminated_graph)" "next_state_manager (node terminated_graph 0) = Some 1"
    "channel (demo_manager terminated_graph None 0) 0 1 = None" by code_simp+
  then show ?thesis
    using restarted_state_manager_hangs [of 0 "demo_manager (setupControlClientChannel (Some idle_channel) 1 terminated_graph) None 0" 1 terminated_graph]
    by (simp add: demo_manager_def)
qed

end
