(* ===== verification/Manager_Service.thy ===== *)
theory Manager_Service
  imports Manager_Faults
begin

section \<open>Every request is served\<close>

text \<open>
  As long as the list of state managers is a chain, serving the requests of a group ends and every request that was
  waiting in a channel of the list has been answered.
\<close>

fun chain :: "Graph \<Rightarrow> nat \<Rightarrow> nat list \<Rightarrow> bool" where
  "chain g n [] \<longleftrightarrow> n < length (nodes g) \<and> next_state_manager (node g n) = None"
| "chain g n (x # xs) \<longleftrightarrow> n < length (nodes g) \<and> next_state_manager (node g n) = Some x \<and> control_client_channel (node g x) \<noteq> None \<and> chain g x xs"

lemma chain_bound: "chain g n xs \<Longrightarrow> n < length (nodes g)"
  by (cases xs) simp_all

lemma chain_links:
  assumes "links g' = links g"
  shows "chain g' n xs = chain g n xs"
proof (induction xs arbitrary: n)
  have l: "length (nodes g') = length (nodes g)" using arg_cong [OF assms, of length] by (simp add: links_def)
  have e: "next_state_manager (node g' n) = next_state_manager (node g n) \<and> (control_client_channel (node g' n) = None \<longleftrightarrow> control_client_channel (node g n) = None)"
    if "n < length (nodes g)" for n
    using arg_cong [OF assms, of "\<lambda>xs. xs ! n"] that l by (simp add: links_def)
  {
    case Nil
    then show ?case using e l by auto
  next
    case (Cons x xs)
    have "chain g x xs \<Longrightarrow> x < length (nodes g)" by (rule chain_bound)
    then show ?case using Cons e [of n] e [of x] l by auto
  }
qed

subsection \<open>What serving a node does to the channels\<close>

lemma channel_upd_other: "(k', n') \<noteq> (k, n) \<Longrightarrow> channel (upd_channel k n f m) k' n' = channel m k' n'"
  by (cases "k < length (process_groups m)") (auto simp: upd_channel_def nth_list_update list_update_beyond)

lemma channel_upd_group: "(\<And>g. nodes (f g) = nodes g) \<Longrightarrow> channel (upd_group p f m) k n = channel m k n"
  by (cases "p < length (process_groups m)") (auto simp: upd_group_def Let_def nth_list_update list_update_beyond)

lemma channel_answer_other: "(k', n') \<noteq> (k, n) \<Longrightarrow> channel (answer k n code m) k' n' = channel m k' n'"
  by (simp add: answer_def channel_upd_other)

lemma serve_node_other:
  assumes "(k', n') \<noteq> (k, n)"
  shows "channel (serve_node k n m) k' n' = channel m k' n'"
proof -
  note o = channel_upd_other [OF assms] channel_answer_other [OF assms]
  have t: "channel (processStateTransition k n msg m1) k' n' = channel m1 k' n'" for msg m1
    unfolding processStateTransition_def Let_def by (simp add: channel_upd_group o split: option.split)
  have r: "channel (serve_request k n scc m1) k' n' = channel m1 k' n'" for scc m1
    unfolding serve_request_def Let_def
    by (simp add: t o processGetExecutionError_def processGetInitialMachineStateTransitionResult_def processValidateFunctionStateID_def
        split: ControlClientCode.split option.split)
  have d: "channel (serve_deferred k n m1) k' n' = channel m1 k' n'" for m1
    unfolding serve_deferred_def Let_def by (simp add: o split: option.split prod.split)
  show ?thesis by (simp add: serve_node_def r d split: option.split)
qed

lemma sendResponse_request: "ccc_request (snd (ccc_sendResponse msg c)) = ccc_request c"
  by (simp add: ccc_sendResponse_def)

lemma serve_deferred_self:
  assumes "k < length (process_groups m)" "n < length (nodes (group m k))" "channel m k n = Some c" "comms_empty (ccc_request c)"
  shows "\<exists>c'. channel (serve_deferred k n m) k n = Some c' \<and> comms_empty (ccc_request c')"
proof -
  let ?msg = "(ControlClientMessage_new (pe_hash (pm_env m)))\<lparr>request_or_response := initial_state_transition_result (pm_env m),
    originating_control_client := originating_control_client (request c)\<rparr>"
  obtain sent c1 where c1: "ccc_sendResponse ?msg c = (sent, c1)" by fastforce
  have e: "comms_empty (ccc_request c1)" using sendResponse_request [of ?msg c] c1 assms(4) by simp
  consider (none) "serve_deferred k n m = m" | (busy) "serve_deferred k n m = pm_nudge m"
    | (sent) "serve_deferred k n m = upd_channel k n (\<lambda>_. c1\<lparr>initial_result_count := initial_result_count c1 - 1\<rparr>) m"
    unfolding serve_deferred_def Let_def assms(3) option.case c1 prod.case by metis
  then show ?thesis
  proof cases
    case none
    then show ?thesis using assms(3,4) by simp
  next
    case busy
    then show ?thesis using assms(3,4) by simp
  next
    case sent
    have "channel (serve_deferred k n m) k n = Some (c1\<lparr>initial_result_count := initial_result_count c1 - 1\<rparr>)"
      unfolding sent using assms(1-3) by (simp add: channel_upd_channel)
    then show ?thesis using e by simp
  qed
qed

lemma acknowledged:
  assumes "k < length (process_groups m)" "n < length (nodes (group m k))" "channel (upd_channel k n acknowledgeRequest m) k n = Some c"
  shows "comms_empty (ccc_request c)"
  using assms by (auto simp: upd_channel_def upd_node_def acknowledgeRequest_def)

lemma same_links_bounds:
  assumes "same_links m m'" "k < length (process_groups m)" "n < length (nodes (group m k))"
  shows "k < length (process_groups m')" "n < length (nodes (group m' k))" "(channel m' k n = None) = (channel m k n = None)"
proof -
  have l: "links (group m' k) = links (group m k)" "length (process_groups m') = length (process_groups m)"
    using same_links_group [OF assms(1,2)] by simp_all
  have n': "length (nodes (group m' k)) = length (nodes (group m k))" using arg_cong [OF l(1), of length] by (simp add: links_def)
  have "links (group m' k) ! n = links (group m k) ! n" using l(1) by simp
  then show "(channel m' k n = None) = (channel m k n = None)" using n' assms(3) by (simp add: links_def)
  show "k < length (process_groups m')" "n < length (nodes (group m' k))" using l(2) n' assms(2,3) by simp_all
qed

lemma serve_node_self:
  assumes k: "k < length (process_groups m)" and n: "n < length (nodes (group m k))" and c: "channel m k n = Some c"
  shows "\<exists>c'. channel (serve_node k n m) k n = Some c' \<and> comms_empty (ccc_request c')"
proof (cases "getRequest c")
  case True
  obtain m2 where m2: "serve_request k n c m = upd_channel k n acknowledgeRequest m2" unfolding serve_request_def Let_def by blast
  note b = same_links_bounds [OF serve_request_links [of m k n c] k n]
  obtain c1 where c1: "channel (serve_request k n c m) k n = Some c1" using b(3) c by auto
  have "k < length (process_groups m2)" "n < length (nodes (group m2 k))" using b(1,2) unfolding m2 by (simp_all add: upd_channel_def upd_node_def)
  then have "comms_empty (ccc_request c1)" using acknowledged c1 unfolding m2 by blast
  then show ?thesis using serve_deferred_self [OF b(1,2) c1] True c by (simp add: serve_node_def)
next
  case False
  then show ?thesis using serve_deferred_self [OF k n c] c by (simp add: serve_node_def getRequest_def)
qed

lemma serve_nodes_chain:
  assumes "k < length (process_groups m)" "chain (group m k) n xs" "distinct (n # xs)"
  shows "\<exists>m'. serve_nodes k n m = Some m' \<and> (\<forall>x c. channel m' k x = Some c \<and> x \<in> set (n # xs) \<longrightarrow> comms_empty (ccc_request c)) \<and>
    (\<forall>x. x \<notin> set (n # xs) \<longrightarrow> channel m' k x = channel m k x)"
  using assms
proof (induction xs arbitrary: n m)
  case Nil
  define s where "s = serve_node k n m"
  have l: "links (group s k) = links (group m k)" "length (process_groups s) = length (process_groups m)"
    using same_links_group [OF serve_node_links Nil.prems(1)] by (simp_all add: s_def)
  have nx: "next_state_manager (node (group s k) n) = None" using chain_links [OF l(1), of n "[]"] Nil.prems(2) by simp
  let ?m = "s\<lparr>process_groups := (process_groups s)[k := (group s k)\<lparr>pgm := pm_env s\<rparr>], pm_env := pm_env s\<rparr>"
  have "serve_nodes k n m = Some ?m"
    using nx Nil.prems(1) l(2) by (subst serve_nodes.simps) (simp add: s_def [symmetric] with_graph_def getNextStateManager.simps [of n])
  moreover have "channel ?m k x = channel s k x" for x using Nil.prems(1) l(2) by simp
  ultimately show ?case
    using serve_node_self [OF Nil.prems(1), of n] serve_node_other [of k _ k n m] Nil.prems(2) unfolding s_def [symmetric]
    by (cases "channel m k n") (auto simp: s_def serve_node_def)
next
  case (Cons y ys)
  define s where "s = serve_node k n m"
  have l: "links (group s k) = links (group m k)" "length (process_groups s) = length (process_groups m)"
    using same_links_group [OF serve_node_links Cons.prems(1)] by (simp_all add: s_def)
  have ch: "chain (group s k) n (y # ys)" using chain_links [OF l(1)] Cons.prems(2) by blast
  let ?m = "s\<lparr>process_groups := (process_groups s)[k := (group s k)\<lparr>pgm := pm_env s\<rparr>], pm_env := pm_env s\<rparr>"
  have gm: "channel ?m k x = channel s k x" "k < length (process_groups ?m)" "links (group ?m k) = links (group s k)" for x
    using Cons.prems(1) l(2) by (simp_all add: links_def)
  have "chain (group s k) y ys" using ch by simp
  then have cm: "chain (group ?m k) y ys" using chain_links [OF gm(3)] by blast
  have "distinct (y # ys)" using Cons.prems(3) by simp
  from Cons.IH [OF gm(2) cm this] obtain m' where m': "serve_nodes k y ?m = Some m'"
    "\<forall>x c. channel m' k x = Some c \<and> x \<in> set (y # ys) \<longrightarrow> comms_empty (ccc_request c)"
    "\<forall>x. x \<notin> set (y # ys) \<longrightarrow> channel m' k x = channel ?m k x"
    by blast
  let ?g = "(group s k)\<lparr>pgm := pm_env s\<rparr>"
  have "getNextStateManager n ?g = Some (Some y, ?g)"
    using ch chain_bound by (intro next_of_live) auto
  then have "serve_nodes k n m = Some m'"
    using m'(1) Cons.prems(1) l(2) by (subst serve_nodes.simps) (simp add: s_def [symmetric] with_graph_def)
  moreover have "comms_empty (ccc_request c)" if "channel m' k n = Some c" for c
  proof -
    have "channel s k n = Some c" using that m'(3) Cons.prems(3) gm(1) by auto
    moreover have "n < length (nodes (group m k))" using Cons.prems(2) by simp
    ultimately show ?thesis using serve_node_self [OF Cons.prems(1), of n]
      by (cases "channel m k n") (auto simp: s_def serve_node_def)
  qed
  moreover have "channel m' k x = channel m k x" if "x \<notin> set (n # y # ys)" for x
    using that m'(3) gm(1) serve_node_other [of k x k n m] by (auto simp: s_def)
  ultimately show ?case using m'(2) by (intro exI [of _ m']) auto
qed

text \<open>
  (C9) If the state managers of a group are linked in a chain of live nodes from the first node on, serving the requests
  of the group returns, and afterwards no request is waiting in any channel of the chain: each has been answered and
  acknowledged; the channels outside the chain are untouched.
\<close>

theorem control_clients_served:
  assumes "k < length (process_groups m)" "chain (group m k) 0 xs" "distinct (0 # xs)"
  shows "\<exists>m'. controlClientRequests k m = Some m' \<and>
    (\<forall>x c. channel m' k x = Some c \<and> x \<in> set (0 # xs) \<longrightarrow> \<not> getRequest c) \<and>
    (\<forall>x. x \<notin> set (0 # xs) \<longrightarrow> channel m' k x = channel m k x)"
  using serve_nodes_chain [OF assms] chain_bound [OF assms(2)] by (auto simp: controlClientRequests_def getRequest_def)

theorem control_clients_served_witness:
  "\<exists>m'. controlClientRequests 0 (upd_channel 0 1 (client_puts (cc_msg kSetStateRequest 2 \<lparr>hash_id = 5\<rparr>)) (demo_manager client_graph None 0)) = Some m' \<and>
     (\<forall>c. channel m' 0 1 = Some c \<longrightarrow> \<not> getRequest c)"
proof -
  let ?m = "upd_channel 0 1 (client_puts (cc_msg kSetStateRequest 2 \<lparr>hash_id = 5\<rparr>)) (demo_manager client_graph None 0)"
  have "0 < length (process_groups ?m)" "chain (group ?m 0) 0 [1]" by code_simp+
  then show ?thesis using control_clients_served [of 0 ?m "[1]"] by auto
qed

end
