(* ===== verification/Semaphores.thy ===== *)
theory Semaphores
  imports Prelude "HOL-Library.Monad_Syntax"
begin

section \<open>Semaphores\<close>

text \<open>
  Models \<^verbatim>\<open>common/src/internal/osal/posix/semaphore.cpp\<close>. A semaphore is its value; \<^verbatim>\<open>sem_init\<close> and
  \<^verbatim>\<open>sem_destroy\<close> have their outcome as argument, \<^verbatim>\<open>sem_post\<close> fails when the value is at its maximum and a
  \<^verbatim>\<open>sem_wait\<close> on zero blocks (\<open>None\<close>). \<^verbatim>\<open>timedWait\<close> polls every two milliseconds; between two polls
  the other threads and processes work on the state that the semaphore is a part of, so the operation
  takes what they do as a list, one function for every sleep.
\<close>

datatype OsalReturnType = Osal_kFail | Osal_kSuccess

definition SEM_VALUE_MAX :: nat where
  "SEM_VALUE_MAX = 2 ^ 31 - 1"

definition sem_init :: "bool \<Rightarrow> nat \<Rightarrow> nat \<Rightarrow> OsalReturnType \<times> nat" where
  "sem_init done_ok v s = (if done_ok then (Osal_kSuccess, v) else (Osal_kFail, s))"

definition sem_deinit :: "bool \<Rightarrow> OsalReturnType" where
  "sem_deinit done_ok = (if done_ok then Osal_kSuccess else Osal_kFail)"

definition sem_post :: "nat \<Rightarrow> OsalReturnType \<times> nat" where
  "sem_post s = (if s < SEM_VALUE_MAX then (Osal_kSuccess, s + 1) else (Osal_kFail, s))"

definition sem_wait :: "nat \<Rightarrow> nat option" where
  "sem_wait s = (if s > 0 then Some (s - 1) else None)"

fun timedWait ::
  "('s \<Rightarrow> nat) \<Rightarrow> (nat \<Rightarrow> 's \<Rightarrow> 's) \<Rightarrow> int \<Rightarrow> ('s \<Rightarrow> 's option) list \<Rightarrow> 's \<Rightarrow> (OsalReturnType \<times> ('s \<Rightarrow> 's option) list \<times> 's) option"
where
  "timedWait sem put delay others s =
     (if sem s > 0 then Some (Osal_kSuccess, others, put (sem s - 1) s)
      else if delay \<ge> 2
      then (case others of
              [] \<Rightarrow> None
            | other # others \<Rightarrow> do { s \<leftarrow> other s; timedWait sem put (delay - 2) others s })
      else Some (Osal_kFail, others, s))"

declare timedWait.simps [simp del]

subsection \<open>Waiting with a bound\<close>

text \<open>What the others have done after \<open>others\<close>.\<close>

fun run_others :: "('s \<Rightarrow> 's option) list \<Rightarrow> 's \<Rightarrow> 's option" where
  "run_others [] s = Some s"
| "run_others (other # others) s = do { s \<leftarrow> other s; run_others others s }"

text \<open>The wait ends after at most half the delay of polls if the others never block.\<close>

lemma timedWait_ends:
  assumes "\<And>other s. other \<in> set others \<Longrightarrow> other s \<noteq> None" "delay < 2 * int (length others) + 2"
  shows "\<exists>r rest s'. timedWait sem put delay others s = Some (r, rest, s')"
  using assms
proof (induction others arbitrary: delay s)
  case Nil
  then show ?case by (simp add: timedWait.simps [of _ _ _ "[]"])
next
  case (Cons other others)
  obtain s1 where s1: "other s = Some s1" using Cons.prems(1) by fastforce
  show ?case
    using Cons.IH [of "delay - 2" s1] Cons.prems s1 by (simp add: timedWait.simps [of _ _ _ "other # others"])
qed

text \<open>It succeeds in the first state in which the semaphore is positive and fails in a state in which it is zero.\<close>

lemma timedWait_outcome:
  assumes "timedWait sem put delay others s = Some (r, rest, s')"
  obtains n x where "run_others (take n others) s = Some x" "rest = drop n others" "2 * int n \<le> max 0 delay"
    "s' = (if r = Osal_kSuccess then put (sem x - 1) x else x)" "r = Osal_kSuccess \<longleftrightarrow> sem x > 0"
proof -
  have "\<exists>n x. run_others (take n others) s = Some x \<and> rest = drop n others \<and> 2 * int n \<le> max 0 delay \<and>
    s' = (if r = Osal_kSuccess then put (sem x - 1) x else x) \<and> (r = Osal_kSuccess \<longleftrightarrow> sem x > 0)"
    using assms
  proof (induction others arbitrary: delay s)
    case Nil
    then show ?case by (auto simp: timedWait.simps [of _ _ _ "[]"] split: if_splits intro!: exI [of _ 0])
  next
    case (Cons other others)
    show ?case
    proof (cases "sem s = 0 \<and> delay \<ge> 2")
      case True
      then obtain s1 where s1: "other s = Some s1" "timedWait sem put (delay - 2) others s1 = Some (r, rest, s')"
        using Cons.prems by (auto simp: timedWait.simps [of _ _ _ "other # others"] split: Option.bind_splits)
      from Cons.IH [OF s1(2)] show ?thesis
      proof (elim exE conjE)
        fix n x
        assume "run_others (take n others) s1 = Some x" "rest = drop n others" "2 * int n \<le> max 0 (delay - 2)"
          "s' = (if r = Osal_kSuccess then put (sem x - 1) x else x)" "r = Osal_kSuccess \<longleftrightarrow> sem x > 0"
        then show ?thesis using s1(1) True by (intro exI [of _ "Suc n"] exI [of _ x]) auto
      qed
    next
      case False
      then show ?thesis
        using Cons.prems by (intro exI [of _ 0] exI [of _ s]) (auto simp: timedWait.simps [of _ _ _ "other # others"] split: if_splits)
    qed
  qed
  then show thesis by (elim exE conjE) (rule that)
qed

lemma sem_post_positive: "s < SEM_VALUE_MAX \<Longrightarrow> sem_post s = (Osal_kSuccess, Suc s)"
  by (simp add: sem_post_def)

end
