(* ===== verification/Control_Client.thy ===== *)
theory Control_Client
  imports Control_Client_Channel Recovery_Client Semaphores
begin

section \<open>The control client library\<close>

text \<open>
  Models \<^verbatim>\<open>control_client_lib/src/control_client_impl.cpp\<close> and \<^verbatim>\<open>control_client.cpp\<close>: the library with
  which a state manager asks the launch manager for state transitions. A request claims one of 512
  slots that hold the promise of its result, is sent over the channel of the process (only one request
  at a time, guarded by a semaphore) and is either refused at once or answered later; a background thread
  reads the responses and fulfils the promises.

  Promises and futures are the operations of \<open>promise_api\<close>, as for the recovery client. While a
  thread sleeps or waits, the background thread, the other callers and the launch manager work: this is
  an argument of the operation, a function on the state. The callback for undefined states is recorded
  as the list of events it was called with. The singleton flag of the class is an argument and a result
  of the constructor.
\<close>

subsection \<open>Mapping the channel\<close>

text \<open>
  The shared memory of a process holds the type of its communication and the channel. The flag tells
  whether \<^verbatim>\<open>mmap\<close> succeeded; the launch manager creates the channel, the process attaches to it.
\<close>

record SharedBlock =
  blk_comms_type :: CommsType
  blk_channel :: ControlClientChannel

definition initializeControlClientChannel :: "bool \<Rightarrow> bool \<Rightarrow> SharedBlock \<Rightarrow> SharedBlock option" where
  "initializeControlClientChannel mapped create blk =
     (if \<not> mapped then None
      else if create then Some (blk\<lparr>blk_comms_type := kControlClient\<rparr>)
      else if blk_comms_type blk \<noteq> kControlClient then None
      else Some blk)"

definition getControlClientChannel :: "bool \<Rightarrow> SharedBlock option \<Rightarrow> ControlClientChannel option option" where
  "getControlClientChannel is_initialized sync =
     (if \<not> is_initialized then None
      else Some (case sync of
                   Some blk \<Rightarrow> if blk_comms_type blk = kControlClient then Some ((blk_channel blk)\<lparr>ipc_parent := True\<rparr>) else None
                 | None \<Rightarrow> None))"

subsection \<open>The state of the client\<close>

record 'p ControlClientRequestInfo =
  cr_promise :: 'p
  cr_in_use :: bool
  cr_initial :: bool

record ExecutionErrorEvent =
  executionError :: u32
  processGroup :: IdentifierHash

record ('p, 'w) ControlClientImpl =
  undefined_state_events :: "ExecutionErrorEvent list"
  control_client_requests :: "'p ControlClientRequestInfo list"
  ipc_request_semaphore :: nat
  ipc_response_thread_running :: bool
  ipc_channel :: "ControlClientChannel option"
  cc_world :: 'w

definition kControlClientMaxRequests :: nat where "kControlClientMaxRequests = 512"

definition kControlClientMaxIpcDelay :: int where "kControlClientMaxIpcDelay = 500"

fun scErrorMap :: "ControlClientCode \<Rightarrow> ExecErrc option" where
  "scErrorMap kSetStateInvalidArguments = Some kInvalidArguments"
| "scErrorMap kSetStateCancelled = Some kCancelled"
| "scErrorMap kSetStateFailed = Some kFailed"
| "scErrorMap kSetStateAlreadyInState = Some kAlreadyInState"
| "scErrorMap kSetStateTransitionToSameState = Some kInTransitionToSameState"
| "scErrorMap kFailedUnexpectedTerminationOnEnter = Some ExecErrc.kFailedUnexpectedTerminationOnEnter"
| "scErrorMap _ = None"

definition errorFuture :: "('w, 'p, 'f) promise_api \<Rightarrow> ExecErrc \<Rightarrow> ('p, 'w) ControlClientImpl \<Rightarrow> ('f \<times> ('p, 'w) ControlClientImpl) option" where
  "errorFuture api errType c =
     (let (tmp, w) = new_promise api (cc_world c);
          w = set_error api tmp errType w;
          (f, w) = get_future api tmp w
      in map_option (\<lambda>f. (f, c\<lparr>cc_world := w\<rparr>)) f)"

fun new_slots :: "('w, 'p, 'f) promise_api \<Rightarrow> nat \<Rightarrow> 'w \<Rightarrow> 'p ControlClientRequestInfo list \<times> 'w" where
  "new_slots api 0 w = ([], w)"
| "new_slots api (Suc n) w =
     (let (p, w) = new_promise api w; (rs, w) = new_slots api n w
      in (\<lparr>cr_promise = p, cr_in_use = False, cr_initial = False\<rparr> # rs, w))"

text \<open>A second instance aborts the process (\<open>None\<close>).\<close>

definition ControlClientImpl_new ::
  "('w, 'p, 'f) promise_api \<Rightarrow> bool \<Rightarrow> bool \<Rightarrow> SharedBlock \<Rightarrow> 'w \<Rightarrow> (bool \<times> ('p, 'w) ControlClientImpl) option"
where
  "ControlClientImpl_new api instance_created mapped blk w =
     (if instance_created then None
      else (let (rs, w) = new_slots api kControlClientMaxRequests w
            in Some (True, \<lparr>undefined_state_events = [], control_client_requests = rs, ipc_request_semaphore = 1,
                 ipc_response_thread_running = True,
                 ipc_channel = map_option blk_channel (initializeControlClientChannel mapped False blk), cc_world = w\<rparr>)))"

definition ControlClientImpl_delete :: "('p, 'w) ControlClientImpl \<Rightarrow> bool \<times> ('p, 'w) ControlClientImpl" where
  "ControlClientImpl_delete c = (False, c\<lparr>ipc_response_thread_running := False\<rparr>)"

abbreviation slot :: "('p, 'w) ControlClientImpl \<Rightarrow> nat \<Rightarrow> 'p ControlClientRequestInfo" where
  "slot c i \<equiv> control_client_requests c ! i"

definition upd_slot ::
  "nat \<Rightarrow> ('p ControlClientRequestInfo \<Rightarrow> 'p ControlClientRequestInfo) \<Rightarrow> ('p, 'w) ControlClientImpl \<Rightarrow> ('p, 'w) ControlClientImpl"
where
  "upd_slot i f c = c\<lparr>control_client_requests := (control_client_requests c)[i := f (slot c i)]\<rparr>"

subsection \<open>The background thread\<close>

text \<open>The functions that the thread calls for a message; an index beyond the array has no result.\<close>

definition funcSetError :: "('w, 'p, 'f) promise_api \<Rightarrow> ControlClientMessage \<Rightarrow> ('p, 'w) ControlClientImpl \<Rightarrow> ('p, 'w) ControlClientImpl option" where
  "funcSetError api msg c =
     (let i = unat (cc_future_id (originating_control_client msg))
      in if i < length (control_client_requests c)
         then do {
           err \<leftarrow> scErrorMap (request_or_response msg);
           Some (upd_slot i (\<lambda>r. r\<lparr>cr_in_use := False\<rparr>) (c\<lparr>cc_world := set_error api (cr_promise (slot c i)) err (cc_world c)\<rparr>))
         }
         else None)"

definition funcSetValue :: "('w, 'p, 'f) promise_api \<Rightarrow> ControlClientMessage \<Rightarrow> ('p, 'w) ControlClientImpl \<Rightarrow> ('p, 'w) ControlClientImpl option" where
  "funcSetValue api msg c =
     (let i = unat (cc_future_id (originating_control_client msg))
      in if i < length (control_client_requests c)
         then Some (upd_slot i (\<lambda>r. r\<lparr>cr_in_use := False\<rparr>) (c\<lparr>cc_world := set_value api (cr_promise (slot c i)) (cc_world c)\<rparr>))
         else None)"

definition funcUtermination :: "ControlClientMessage \<Rightarrow> ('p, 'w) ControlClientImpl \<Rightarrow> ('p, 'w) ControlClientImpl" where
  "funcUtermination msg c =
     c\<lparr>undefined_state_events := undefined_state_events c @
         [\<lparr>executionError = msg_execution_error_code msg, processGroup = id_pg_name (process_group_state msg)\<rparr>]\<rparr>"

text \<open>All requests for the result of the initial transition are fulfilled with one response.\<close>

fun fulfil_initial ::
  "('p \<Rightarrow> 'w \<Rightarrow> 'w) \<Rightarrow> 'p ControlClientRequestInfo list \<Rightarrow> 'w \<Rightarrow> 'p ControlClientRequestInfo list \<times> 'w"
where
  "fulfil_initial fulfil [] w = ([], w)"
| "fulfil_initial fulfil (r # rs) w =
     (let (r, w) = (if cr_in_use r \<and> cr_initial r then (r\<lparr>cr_initial := False, cr_in_use := False\<rparr>, fulfil (cr_promise r) w) else (r, w));
          (rs, w) = fulfil_initial fulfil rs w
      in (r # rs, w))"

definition funcMcState :: "('p \<Rightarrow> 'w \<Rightarrow> 'w) \<Rightarrow> ('p, 'w) ControlClientImpl \<Rightarrow> ('p, 'w) ControlClientImpl" where
  "funcMcState fulfil c =
     (let (rs, w) = fulfil_initial fulfil (control_client_requests c) (cc_world c)
      in c\<lparr>control_client_requests := rs, cc_world := w\<rparr>)"

definition funcMcStateWrong :: "('w, 'p, 'f) promise_api \<Rightarrow> ('p, 'w) ControlClientImpl \<Rightarrow> ('p, 'w) ControlClientImpl" where
  "funcMcStateWrong api = funcMcState (\<lambda>p. set_error api p kFailed)"

definition funcMcStateSuccess :: "('w, 'p, 'f) promise_api \<Rightarrow> ('p, 'w) ControlClientImpl \<Rightarrow> ('p, 'w) ControlClientImpl" where
  "funcMcStateSuccess api = funcMcState (set_value api)"

definition cc_dispatch ::
  "('w, 'p, 'f) promise_api \<Rightarrow> ControlClientMessage \<Rightarrow> ('p, 'w) ControlClientImpl \<Rightarrow> ('p, 'w) ControlClientImpl option"
where
  "cc_dispatch api msg c =
     (case request_or_response msg of
        kSetStateInvalidArguments \<Rightarrow> funcSetError api msg c
      | kSetStateCancelled \<Rightarrow> funcSetError api msg c
      | kSetStateFailed \<Rightarrow> funcSetError api msg c
      | kSetStateAlreadyInState \<Rightarrow> funcSetError api msg c
      | kSetStateTransitionToSameState \<Rightarrow> funcSetError api msg c
      | ControlClientCode.kFailedUnexpectedTerminationOnEnter \<Rightarrow> funcSetError api msg c
      | kSetStateSuccess \<Rightarrow> funcSetValue api msg c
      | kFailedUnexpectedTermination \<Rightarrow> Some (funcUtermination msg c)
      | kInitialMachineStateNotSet \<Rightarrow> Some (funcMcStateWrong api c)
      | kInitialMachineStateFailed \<Rightarrow> Some (funcMcStateWrong api c)
      | kInitialMachineStateSuccess \<Rightarrow> Some (funcMcStateSuccess api c)
      | _ \<Rightarrow> Some c)"

definition run_turn :: "('w, 'p, 'f) promise_api \<Rightarrow> ('p, 'w) ControlClientImpl \<Rightarrow> ('p, 'w) ControlClientImpl option" where
  "run_turn api c = do {
     ch \<leftarrow> ipc_channel c;
     (case ccc_getResponse ch of
        (None, ch) \<Rightarrow> Some (c\<lparr>ipc_channel := Some ch\<rparr>)
      | (Some msg, ch) \<Rightarrow> cc_dispatch api msg (c\<lparr>ipc_channel := Some ch\<rparr>))
   }"

type_synonym ('p, 'w) cc_others = "('p, 'w) ControlClientImpl \<Rightarrow> ('p, 'w) ControlClientImpl option"

fun run_loop ::
  "('w, 'p, 'f) promise_api \<Rightarrow> ('p, 'w) cc_others list \<Rightarrow> ('p, 'w) ControlClientImpl \<Rightarrow> ('p, 'w) ControlClientImpl option"
where
  "run_loop api others c =
     (if \<not> ipc_response_thread_running c then Some c
      else case others of
             [] \<Rightarrow> None
           | other # others \<Rightarrow> do { c \<leftarrow> run_turn api c; c \<leftarrow> other c; run_loop api others c })"

definition cc_run ::
  "('w, 'p, 'f) promise_api \<Rightarrow> ('p, 'w) cc_others list \<Rightarrow> ('p, 'w) ControlClientImpl \<Rightarrow> ('p, 'w) ControlClientImpl option"
where
  "cc_run api others c = (if ipc_channel c \<noteq> None then run_loop api others c else Some c)"

subsection \<open>Sending a request\<close>

fun claim_slot :: "'p ControlClientRequestInfo list \<Rightarrow> nat \<times> 'p ControlClientRequestInfo list" where
  "claim_slot [] = (0, [])"
| "claim_slot (r # rs) =
     (if \<not> cr_in_use r then (0, r\<lparr>cr_in_use := True\<rparr> # rs)
      else (let (i, rs) = claim_slot rs in (Suc i, r # rs)))"

text \<open>
  Steps 1 to 3: claim a slot, put a fresh promise into it, mark it, and take its future. Without a
  free slot nothing is sent. \<^verbatim>\<open>.value()\<close> of a failed result has no result.
\<close>

definition send_begin ::
  "('w, 'p, 'f) promise_api \<Rightarrow> ControlClientMessage \<Rightarrow> ('p, 'w) ControlClientImpl \<Rightarrow>
   ((nat \<times> 'f \<times> ControlClientMessage) option \<times> ('p, 'w) ControlClientImpl) option"
where
  "send_begin api msg c =
     (let (i, rs) = claim_slot (control_client_requests c)
      in if i < length rs
         then (let c = c\<lparr>control_client_requests := rs\<rparr>;
                   (p, w) = new_promise api (cc_world c);
                   c = upd_slot i (\<lambda>r. r\<lparr>cr_promise := p\<rparr>) c;
                   c = (if request_or_response msg = kGetInitialMachineStateRequest then upd_slot i (\<lambda>r. r\<lparr>cr_initial := True\<rparr>) c else c);
                   (f, w) = get_future api p w
               in map_option (\<lambda>f. (Some (i, f, msg\<lparr>originating_control_client := (originating_control_client msg)\<lparr>cc_future_id := word_of_nat i\<rparr>\<rparr>),
                                   c\<lparr>cc_world := w\<rparr>)) f)
         else Some (None, c))"

text \<open>\<^verbatim>\<open>sendRequest\<close> of the channel, until the launch manager has acknowledged.\<close>

definition store_request :: "ControlClientMessage \<Rightarrow> ('p, 'w) ControlClientImpl \<Rightarrow> ('p, 'w) ControlClientImpl option" where
  "store_request msg c = do {
     ch \<leftarrow> ipc_channel c;
     (s, ch) \<leftarrow> ccc_send (Send_store msg) ch;
     (s, ch) \<leftarrow> ccc_send s ch;
     Some (c\<lparr>ipc_channel := Some ch\<rparr>)
   }"

definition await_answer :: "('p, 'w) ControlClientImpl \<Rightarrow> (ControlClientMessage \<times> ('p, 'w) ControlClientImpl) option" where
  "await_answer c = do {
     ch \<leftarrow> ipc_channel c;
     (s, ch) \<leftarrow> ccc_send Send_wait ch;
     (s, ch) \<leftarrow> ccc_send s ch;
     (case s of Send_done msg \<Rightarrow> Some (msg, c\<lparr>ipc_channel := Some ch\<rparr>) | _ \<Rightarrow> None)
   }"

definition cc_sendRequest ::
  "('p, 'w) cc_others \<Rightarrow> ControlClientMessage \<Rightarrow> ('p, 'w) ControlClientImpl \<Rightarrow> (ControlClientMessage \<times> ('p, 'w) ControlClientImpl) option"
where
  "cc_sendRequest other msg c = do { c \<leftarrow> store_request msg c; c \<leftarrow> other c; await_answer c }"

text \<open>Step 5: a request that is refused at once.\<close>

definition send_end :: "('w, 'p, 'f) promise_api \<Rightarrow> nat \<Rightarrow> ControlClientMessage \<Rightarrow> ('p, 'w) ControlClientImpl \<Rightarrow> ('p, 'w) ControlClientImpl" where
  "send_end api i msg c =
     (case scErrorMap (request_or_response msg) of
        Some err \<Rightarrow> upd_slot i (\<lambda>r. r\<lparr>cr_in_use := False\<rparr>) (c\<lparr>cc_world := set_error api (cr_promise (slot c i)) err (cc_world c)\<rparr>)
      | None \<Rightarrow> c)"

definition cc_post :: "('p, 'w) ControlClientImpl \<Rightarrow> ('p, 'w) ControlClientImpl" where
  "cc_post c = c\<lparr>ipc_request_semaphore := snd (sem_post (ipc_request_semaphore c))\<rparr>"

definition cc_acquire ::
  "('p, 'w) cc_others list \<Rightarrow> ('p, 'w) ControlClientImpl \<Rightarrow> (OsalReturnType \<times> ('p, 'w) cc_others list \<times> ('p, 'w) ControlClientImpl) option"
where
  "cc_acquire = timedWait ipc_request_semaphore (\<lambda>n c. c\<lparr>ipc_request_semaphore := n\<rparr>) kControlClientMaxIpcDelay"

definition SendIpcMessage ::
  "('w, 'p, 'f) promise_api \<Rightarrow> ('p, 'w) cc_others list \<Rightarrow> ('p, 'w) cc_others \<Rightarrow> ControlClientMessage \<Rightarrow> ('p, 'w) ControlClientImpl \<Rightarrow>
   ('f \<times> ('p, 'w) ControlClientImpl) option"
where
  "SendIpcMessage api waiting other msg c = do {
     (r, _, c) \<leftarrow> cc_acquire waiting c;
     (if r = Osal_kSuccess
      then do {
        (claimed, c) \<leftarrow> send_begin api msg c;
        (case claimed of
           Some (i, retVal, msg) \<Rightarrow> do {
             (msg, c) \<leftarrow> cc_sendRequest other msg c;
             Some (retVal, cc_post (send_end api i msg c))
           }
         | None \<Rightarrow> do { (retVal, c) \<leftarrow> errorFuture api kFailed c; Some (retVal, cc_post c) })
      }
      else errorFuture api kCommunicationError c)
   }"

text \<open>The requests of the interface; the constructor of a message hashes the empty string (\<open>new_msg\<close>).\<close>

definition SetState ::
  "('w, 'p, 'f) promise_api \<Rightarrow> ('p, 'w) cc_others list \<Rightarrow> ('p, 'w) cc_others \<Rightarrow> ControlClientMessage \<Rightarrow> IdentifierHash \<Rightarrow> IdentifierHash \<Rightarrow>
   ('p, 'w) ControlClientImpl \<Rightarrow> ('f \<times> ('p, 'w) ControlClientImpl) option"
where
  "SetState api waiting other new_msg pg target c =
     (if ipc_channel c \<noteq> None
      then SendIpcMessage api waiting other
             (new_msg\<lparr>request_or_response := kSetStateRequest, process_group_state := \<lparr>id_pg_name = pg, id_pg_state_name = target\<rparr>\<rparr>) c
      else errorFuture api kCommunicationError c)"

definition GetInitialMachineStateTransitionResult ::
  "('w, 'p, 'f) promise_api \<Rightarrow> ('p, 'w) cc_others list \<Rightarrow> ('p, 'w) cc_others \<Rightarrow> ControlClientMessage \<Rightarrow>
   ('p, 'w) ControlClientImpl \<Rightarrow> ('f \<times> ('p, 'w) ControlClientImpl) option"
where
  "GetInitialMachineStateTransitionResult api waiting other new_msg c =
     (if ipc_channel c \<noteq> None
      then SendIpcMessage api waiting other (new_msg\<lparr>request_or_response := kGetInitialMachineStateRequest\<rparr>) c
      else errorFuture api kCommunicationError c)"

definition GetExecutionError ::
  "('p, 'w) cc_others list \<Rightarrow> ('p, 'w) cc_others \<Rightarrow> ControlClientMessage \<Rightarrow> IdentifierHash \<Rightarrow>
   ('p, 'w) ControlClientImpl \<Rightarrow> ((ExecErrc + ExecutionErrorEvent) \<times> ('p, 'w) ControlClientImpl) option"
where
  "GetExecutionError waiting other new_msg pg c =
     (if ipc_channel c \<noteq> None
      then do {
        (r, _, c) \<leftarrow> cc_acquire waiting c;
        (if r = Osal_kSuccess
         then do {
           (msg, c) \<leftarrow> cc_sendRequest other (new_msg\<lparr>request_or_response := kGetExecutionErrorRequest,
                         process_group_state := (process_group_state new_msg)\<lparr>id_pg_name := pg\<rparr>\<rparr>) c;
           Some (case request_or_response msg of
                   kExecutionErrorInvalidArguments \<Rightarrow> Inl kFailed
                 | kExecutionErrorRequestFailed \<Rightarrow> Inl kFailed
                 | kExecutionErrorRequestSuccess \<Rightarrow>
                     Inr \<lparr>executionError = msg_execution_error_code msg, processGroup = id_pg_name (process_group_state msg)\<rparr>
                 | _ \<Rightarrow> Inl kFailed, cc_post c)
         }
         else Some (Inl kCommunicationError, c))
      }
      else Some (Inl kCommunicationError, c))"

end
