(* ===== verification/Client_Slots.thy ===== *)
theory Client_Slots
  imports Control_Client
begin

section \<open>Every promise is fulfilled at most once\<close>

text \<open>
  What the control client relies on from the promise library, and the invariant of its slots: a slot that
  is in use holds a promise of its own that has not been fulfilled. The interleaving of the callers,
  of the background thread and of the launch manager is the relation \<open>cc_reach\<close>.
\<close>

locale promise_laws =
  fixes api :: "('w, 'p, 'f) promise_api" and known :: "'w \<Rightarrow> 'p set" and fulfilled :: "'p \<Rightarrow> 'w \<Rightarrow> nat"
  assumes new_known: "new_promise api w = (p, w') \<Longrightarrow> p \<notin> known w \<and> known w' = insert p (known w)"
    and new_count: "new_promise api w = (p, w') \<Longrightarrow> fulfilled q w' = (if q = p then 0 else fulfilled q w)"
    and future_frame: "get_future api p w = (f, w') \<Longrightarrow> known w' = known w \<and> fulfilled q w' = fulfilled q w"
    and value_known: "known (set_value api p w) = known w"
    and value_count: "fulfilled q (set_value api p w) = (if q = p then Suc (fulfilled q w) else fulfilled q w)"
    and error_known: "known (set_error api p e w) = known w"
    and error_count: "fulfilled q (set_error api p e w) = (if q = p then Suc (fulfilled q w) else fulfilled q w)"
begin

definition counts :: "('p \<Rightarrow> 'w \<Rightarrow> 'w) \<Rightarrow> bool" where
  "counts fulfil \<longleftrightarrow> (\<forall>p w. known (fulfil p w) = known w \<and>
     (\<forall>q. fulfilled q (fulfil p w) = (if q = p then Suc (fulfilled q w) else fulfilled q w)))"

lemma counts_api: "counts (set_value api)" "counts (\<lambda>p. set_error api p e)"
  by (simp_all add: counts_def value_known value_count error_known error_count)

definition slots_ok :: "'p ControlClientRequestInfo list \<Rightarrow> 'w \<Rightarrow> bool" where
  "slots_ok rs w \<longleftrightarrow>
     (\<forall>r \<in> set rs. if cr_in_use r then cr_promise r \<in> known w \<and> fulfilled (cr_promise r) w = 0 else \<not> cr_initial r) \<and>
     distinct (map cr_promise (filter cr_in_use rs)) \<and> (\<forall>p \<in> known w. fulfilled p w \<le> 1)"

lemma slots_ok_fulfil:
  assumes "slots_ok rs w" "i < length rs" "cr_in_use (rs ! i)" "\<not> cr_initial (rs ! i)" "counts fulfil"
  shows "slots_ok (rs[i := (rs ! i)\<lparr>cr_in_use := False\<rparr>]) (fulfil (cr_promise (rs ! i)) w)"
proof -
  define as r bs where "as = take i rs" and "r = rs ! i" and "bs = drop (Suc i) rs"
  have rs: "rs = as @ r # bs" using assms(2) by (simp add: as_def r_def bs_def id_take_nth_drop)
  have u: "rs[i := r\<lparr>cr_in_use := False\<rparr>] = as @ r\<lparr>cr_in_use := False\<rparr> # bs"
    using assms(2) by (simp add: as_def r_def bs_def upd_conv_take_nth_drop)
  have r: "cr_in_use r" "\<not> cr_initial r" using assms(3,4) by (simp_all add: r_def)
  have ok: "slots_ok (as @ r # bs) w" using assms(1) rs by simp
  have other: "cr_promise x \<noteq> cr_promise r" if "x \<in> set as \<union> set bs" "cr_in_use x" for x
  proof -
    have "cr_promise x \<in> cr_promise ` (set (filter cr_in_use as) \<union> set (filter cr_in_use bs))" using that by auto
    then show ?thesis using ok r(1) unfolding slots_ok_def by force
  qed
  have zero: "fulfilled (cr_promise r) w = 0" using ok r(1) by (simp add: slots_ok_def)
  have f: "known (fulfil p w) = known w" "fulfilled q (fulfil p w) = (if q = p then Suc (fulfilled q w) else fulfilled q w)" for p q
    using assms(5) by (simp_all add: counts_def)
  have "distinct (map cr_promise (filter cr_in_use (as @ r\<lparr>cr_in_use := False\<rparr> # bs)))"
    using ok r(1) by (simp add: slots_ok_def)
  moreover have "\<forall>p \<in> known w. fulfilled p (fulfil (cr_promise r) w) \<le> 1"
    using ok zero by (simp add: slots_ok_def f(2))
  moreover have "if cr_in_use x then cr_promise x \<in> known w \<and> fulfilled (cr_promise x) (fulfil (cr_promise r) w) = 0 else \<not> cr_initial x"
    if "x \<in> set as \<union> set bs" for x
    using ok other [OF that] that by (auto simp: slots_ok_def f(2))
  ultimately show ?thesis unfolding r_def [symmetric] u using r(2) by (auto simp: slots_ok_def f(1))
qed

lemma fold_fulfil:
  assumes "counts fulfil"
  shows "known (fold fulfil ps w) = known w \<and> fulfilled q (fold fulfil ps w) = fulfilled q w + count_list ps q"
  using assms by (induction ps arbitrary: w) (auto simp: counts_def)

end

lemma fulfil_initial_eq:
  "fulfil_initial fulfil rs w =
     (map (\<lambda>r. if cr_in_use r \<and> cr_initial r then r\<lparr>cr_initial := False, cr_in_use := False\<rparr> else r) rs,
      fold fulfil (map cr_promise (filter (\<lambda>r. cr_in_use r \<and> cr_initial r) rs)) w)"
  by (induction rs arbitrary: w) (simp_all add: Let_def)

lemma distinct_map_filter_sub:
  assumes "distinct (map f (filter P xs))" "\<And>x. Q x \<Longrightarrow> P x"
  shows "distinct (map f (filter Q xs))"
proof -
  have "filter Q xs = filter Q (filter P xs)" using assms(2) by (auto intro: filter_cong)
  then show ?thesis using assms(1) by (metis distinct_map_filter)
qed

lemma count_list_distinct: "distinct xs \<Longrightarrow> count_list xs x = (if x \<in> set xs then 1 else 0)"
  by (induction xs) auto

lemma distinct_disjoint:
  assumes "distinct (map f (filter P xs))" "x \<in> set xs" "y \<in> set xs" "P x" "P y" "f x = f y"
  shows "x = y"
proof -
  have "x \<in> set (filter P xs)" "y \<in> set (filter P xs)" using assms(2-5) by simp_all
  then show ?thesis using assms(1,6) by (meson distinct_map inj_onD)
qed

context promise_laws
begin

lemma slots_ok_initial:
  assumes ok: "slots_ok rs w" and c: "counts fulfil"
  shows "slots_ok (fst (fulfil_initial fulfil rs w)) (snd (fulfil_initial fulfil rs w))"
proof -
  define sel where "sel = (\<lambda>r :: 'p ControlClientRequestInfo. cr_in_use r \<and> cr_initial r)"
  define ps where "ps = map cr_promise (filter sel rs)"
  define W where "W = fold fulfil ps w"
  define u where "u = (\<lambda>r. if sel r then r\<lparr>cr_initial := False, cr_in_use := False\<rparr> else r)"
  have eq: "fulfil_initial fulfil rs w = (map u rs, W)" by (simp add: fulfil_initial_eq sel_def ps_def W_def u_def)
  have ok_slot: "if cr_in_use r then cr_promise r \<in> known w \<and> fulfilled (cr_promise r) w = 0 else \<not> cr_initial r" if "r \<in> set rs" for r
    using ok that by (simp add: slots_ok_def)
  have ok_dist: "distinct (map cr_promise (filter cr_in_use rs))" using ok by (simp add: slots_ok_def)
  have sel_use: "sel r \<Longrightarrow> cr_in_use r" for r by (simp add: sel_def)
  have d: "distinct ps" using distinct_map_filter_sub [OF ok_dist sel_use] by (simp add: ps_def)
  have new: "known W = known w" "fulfilled q W = fulfilled q w + (if q \<in> set ps then 1 else 0)" for q
    using fold_fulfil [OF c] count_list_distinct [OF d] by (simp_all add: W_def)
  have keep: "cr_promise r \<notin> set ps" if "r \<in> set rs" "cr_in_use r" "\<not> sel r" for r
  proof
    assume "cr_promise r \<in> set ps"
    then obtain y where "y \<in> set rs" "sel y" "cr_promise r = cr_promise y" by (auto simp: ps_def)
    then show False using that distinct_disjoint [OF ok_dist, of r y] sel_use by blast
  qed
  have zero: "fulfilled p w = 0" if "p \<in> set ps" for p
  proof -
    from that obtain y where "y \<in> set rs" "sel y" "p = cr_promise y" by (auto simp: ps_def)
    then show ?thesis using ok_slot sel_use by simp
  qed
  have "filter cr_in_use (map u rs) = filter (\<lambda>r. cr_in_use r \<and> \<not> sel r) rs"
    unfolding u_def by (induction rs) (auto simp: sel_def)
  then have "distinct (map cr_promise (filter cr_in_use (map u rs)))"
    using distinct_map_filter_sub [OF ok_dist, of "\<lambda>r. cr_in_use r \<and> \<not> sel r"] by simp
  moreover have "\<forall>p \<in> known W. fulfilled p W \<le> 1" using ok zero by (simp add: slots_ok_def new)
  moreover have "\<forall>r \<in> set (map u rs). if cr_in_use r then cr_promise r \<in> known W \<and> fulfilled (cr_promise r) W = 0 else \<not> cr_initial r"
    using ok_slot keep by (auto simp: new u_def sel_def)
  ultimately show ?thesis unfolding eq fst_conv snd_conv slots_ok_def by (intro conjI)
qed

lemma slots_ok_claim:
  assumes "slots_ok rs w" "i < length rs" "\<not> cr_in_use (rs ! i)" "p \<notin> known w" "known w' = insert p (known w)"
    "\<And>q. fulfilled q w' = (if q = p then 0 else fulfilled q w)"
  shows "slots_ok (rs[i := \<lparr>cr_promise = p, cr_in_use = True, cr_initial = b\<rparr>]) w'"
proof -
  define as r bs where "as = take i rs" and "r = rs ! i" and "bs = drop (Suc i) rs"
  have rs: "rs = as @ r # bs" using assms(2) by (simp add: as_def r_def bs_def id_take_nth_drop)
  have u: "rs[i := x] = as @ x # bs" for x using assms(2) by (simp add: as_def bs_def upd_conv_take_nth_drop)
  have ok: "slots_ok (as @ r # bs) w" using assms(1) rs by simp
  have keep: "if cr_in_use x then cr_promise x \<in> known w \<and> fulfilled (cr_promise x) w = 0 else \<not> cr_initial x"
    if "x \<in> set as \<union> set bs" for x
    using ok that by (auto simp: slots_ok_def)
  have fresh: "p \<notin> cr_promise ` (set (filter cr_in_use as) \<union> set (filter cr_in_use bs))" using keep assms(4) by fastforce
  have "distinct (map cr_promise (filter cr_in_use (as @ \<lparr>cr_promise = p, cr_in_use = True, cr_initial = b\<rparr> # bs)))"
    using ok fresh assms(3) by (auto simp: slots_ok_def r_def)
  moreover have "\<forall>q \<in> known w'. fulfilled q w' \<le> 1" using ok assms(5,6) by (simp add: slots_ok_def)
  moreover have "if cr_in_use x then cr_promise x \<in> known w' \<and> fulfilled (cr_promise x) w' = 0 else \<not> cr_initial x"
    if "x \<in> set as \<union> set bs" for x
    using keep [OF that] assms(4-6) by (cases "cr_promise x = p") (auto split: if_splits)
  moreover have "p \<in> known w'" "fulfilled p w' = 0" using assms(5,6) by simp_all
  ultimately show ?thesis unfolding u slots_ok_def by auto
qed

lemma slots_ok_world:
  assumes "slots_ok rs w" "new_promise api w = (p, w1)" "get_future api p (set_error api p e w1) = (f, w2)"
  shows "slots_ok rs w2"
proof -
  have k: "known w2 = insert p (known w)" "p \<notin> known w" using new_known assms(2) future_frame [OF assms(3)] error_known by simp_all
  have c: "fulfilled q w2 = (if q = p then 1 else fulfilled q w)" for q
    using new_count [OF assms(2)] future_frame [OF assms(3)] error_count by simp
  have "cr_in_use r \<Longrightarrow> r \<in> set rs \<Longrightarrow> cr_promise r \<noteq> p" for r using assms(1) k(2) by (auto simp: slots_ok_def split: if_splits)
  then show ?thesis using assms(1) by (auto simp: slots_ok_def k(1) c)
qed

lemma new_slots_ok:
  assumes "\<forall>p \<in> known w. fulfilled p w \<le> 1" "new_slots api n w = (rs, w')"
  shows "slots_ok rs w' \<and> length rs = n \<and> (\<forall>r \<in> set rs. \<not> cr_in_use r)"
  using assms
proof (induction n arbitrary: w rs)
  case 0
  then show ?case by (simp add: slots_ok_def)
next
  case (Suc n)
  obtain p w1 rs1 where n: "new_promise api w = (p, w1)" "new_slots api n w1 = (rs1, w')"
    "rs = \<lparr>cr_promise = p, cr_in_use = False, cr_initial = False\<rparr> # rs1"
    using Suc.prems(2) by (auto simp: Let_def split: prod.splits)
  have "\<forall>p \<in> known w1. fulfilled p w1 \<le> 1" using Suc.prems(1) new_known [OF n(1)] new_count [OF n(1)] by simp
  then show ?case using Suc.IH [OF _ n(2)] n(3) by (simp add: slots_ok_def)
qed

end

end
