(* ===== verification/Client_Protocol.thy ===== *)
theory Client_Protocol
  imports Manager_Service Client_Slots
begin

section \<open>The protocol between control client and launch manager\<close>

text \<open>
  The callers of the client, its background thread and the launch manager work on one client and its
  channel in any order. The semaphore admits one caller at a time. A request is answered by \<^const>\<open>serve_request\<close> of a
  process group manager in any state, and the deferred results of the initial transition are sent by
  \<^const>\<open>serve_deferred\<close>. The results of transitions are the one thing that is assumed: the launch manager sends a result
  only for a request that it has accepted and not yet answered (\<open>owed\<close>). It does not always keep to this
  (\<open>refused_request_steals_result\<close> in \<open>Client_Manager\<close>).
\<close>

datatype Caller = Idle | Sending nat | Asking

abbreviation fid :: "ControlClientMessage \<Rightarrow> nat" where
  "fid msg \<equiv> unat (cc_future_id (originating_control_client msg))"

definition final_code :: "ControlClientCode \<Rightarrow> bool" where
  "final_code k \<longleftrightarrow> k = kSetStateSuccess \<or> scErrorMap k \<noteq> None"

text \<open>
  How the handler of the launch manager answers: a request to set a state with a refusal that the client knows or with
  \<^const>\<open>kSetStateSuccess\<close>; a request for the initial result is counted or refused with \<^const>\<open>kInitialMachineStateNotSet\<close>.
\<close>

definition answered_as :: "ControlClientChannel \<Rightarrow> ControlClientMessage \<Rightarrow> u16 \<Rightarrow> bool" where
  "answered_as ch ans cnt \<longleftrightarrow> fid ans = fid (request ch) \<and>
     (request_or_response (request ch) = kSetStateRequest \<longrightarrow> final_code (request_or_response ans) \<and> cnt = initial_result_count ch) \<and>
     (request_or_response (request ch) = kGetInitialMachineStateRequest \<longrightarrow> scErrorMap (request_or_response ans) = None \<and>
        (if request_or_response ans = kInitialMachineStateNotSet then cnt = initial_result_count ch
         else cnt = initial_result_count ch + 1 \<and> cnt \<noteq> 0)) \<and>
     (request_or_response (request ch) = kGetExecutionErrorRequest \<longrightarrow> cnt = initial_result_count ch)"

definition answered_channel :: "ControlClientMessage \<Rightarrow> u16 \<Rightarrow> ControlClientChannel \<Rightarrow> ControlClientChannel" where
  "answered_channel ans cnt ch = (acknowledgeRequest (set_request (\<lambda>_. ans) ch))\<lparr>initial_result_count := cnt\<rparr>"

lemma channel_answer:
  assumes "k < length (process_groups m)" "n < length (nodes (group m k))" "channel m k n = Some ch"
  shows "channel (answer k n code m) k n = Some (set_request (\<lambda>msg. msg\<lparr>request_or_response := code\<rparr>) ch)"
    "length (process_groups (answer k n code m)) = length (process_groups m)"
    "length (nodes (group (answer k n code m) k)) = length (nodes (group m k))"
  using assms by (simp_all add: answer_def channel_upd_channel group_upd_channel upd_node_def)

lemma transition_answer:
  assumes "k < length (process_groups m)" "n < length (nodes (group m k))" "channel m k n = Some ch"
  shows "\<exists>code. final_code code \<and> channel (processStateTransition k n msg m) k n = Some (set_request (\<lambda>msg. msg\<lparr>request_or_response := code\<rparr>) ch)"
proof (cases "getProcessGroup (id_pg_name (process_group_state msg)) m")
  case None
  then show ?thesis using channel_answer(1) [OF assms] by (intro exI [of _ kSetStateInvalidArguments]) (simp add: processStateTransition_def final_code_def)
next
  case (Some p)
  let ?m1 = "answer k n kSetStateSuccess m"
  note a = channel_answer [OF assms, of kSetStateSuccess]
  have b: "channel (answer k n code ?m1) k n = Some (set_request (\<lambda>msg. msg\<lparr>request_or_response := code\<rparr>) ch)" for code
    using channel_answer(1) [of k ?m1 n _ code] assms(1,2) a by (simp add: set_request_def)
  have f: "final_code kSetStateSuccess" "final_code kSetStateTransitionToSameState" "final_code kSetStateAlreadyInState"
    by (simp_all add: final_code_def)
  have u: "channel (upd_group p (setStateManager (originating_control_client msg)) x) k n = channel x k n"
    "channel (upd_group p (\<lambda>g. g_cancel (snd (setPendingState st g))) x) k n = channel x k n"
    "channel (upd_group p (\<lambda>g. snd (setPendingState st g)) x) k n = channel x k n" for x st
    by (subst channel_upd_group; simp)+
  show ?thesis
    unfolding processStateTransition_def Some option.case Let_def using a(1) b f by (auto simp: u)
qed

lemma serve_request_answers:
  assumes "k < length (process_groups m)" "n < length (nodes (group m k))" "channel m k n = Some ch"
  shows "\<exists>ans cnt. channel (serve_request k n ch m) k n = Some (answered_channel ans cnt ch) \<and> answered_as ch ans cnt"
proof -
  define route :: "ControlClientMessage \<Rightarrow> ControlClientMessage" where "route = (\<lambda>msg. msg\<lparr>originating_control_client := (originating_control_client msg)\<lparr>
      cc_process_group_index := ucast (pg_index (group m k)), cc_process_index := ucast (process_index (node (group m k) n))\<rparr>\<rparr>)"
  define ch0 where "ch0 = set_request route ch"
  define m0 where "m0 = upd_channel k n (set_request route) m"
  have m0: "k < length (process_groups m0)" "n < length (nodes (group m0 k))" "channel m0 k n = Some ch0"
    using assms by (simp_all add: m0_def ch0_def channel_upd_channel group_upd_channel upd_node_def)
  have r: "request_or_response (route msg) = request_or_response msg" "fid (route msg) = fid msg" for msg by (simp_all add: route_def)
  let ?req = "request ch0"
  define m1 where "m1 = (case request_or_response ?req of
                 kSetStateRequest \<Rightarrow> processStateTransition k n ?req m0
               | kGetExecutionErrorRequest \<Rightarrow> processGetExecutionError k n ?req m0
               | kGetInitialMachineStateRequest \<Rightarrow> processGetInitialMachineStateTransitionResult k n ch0 m0
               | kValidateProcessGroupState \<Rightarrow> processValidateFunctionStateID k n ?req m0
               | _ \<Rightarrow> answer k n kInvalidRequest m0)"
  have s: "serve_request k n ch m = upd_channel k n acknowledgeRequest m1"
    unfolding serve_request_def Let_def m1_def m0_def ch0_def route_def by simp
  note b = same_links_bounds [OF serve_request_links [of m k n ch] assms(1,2)]
  have m1: "k < length (process_groups m1)" "n < length (nodes (group m1 k))" using b(1,2) unfolding s by (simp_all add: upd_channel_def upd_node_def)
  have c: "request_or_response ?req = request_or_response (request ch)" "fid ?req = fid (request ch)"
    "initial_result_count ch0 = initial_result_count ch"
    by (simp_all add: ch0_def set_request_def r)
  have "\<exists>ans cnt. channel m1 k n = Some ((set_request (\<lambda>_. ans) ch)\<lparr>initial_result_count := cnt\<rparr>) \<and> answered_as ch ans cnt"
  proof -
    have code: "\<exists>ans cnt. x = Some ((set_request (\<lambda>_. ans) ch)\<lparr>initial_result_count := cnt\<rparr>) \<and> answered_as ch ans cnt"
      if "x = Some (set_request (\<lambda>msg. msg\<lparr>request_or_response := code\<rparr>) ch0)"
        "request_or_response (request ch) = kSetStateRequest \<longrightarrow> final_code code"
        "request_or_response (request ch) = kGetInitialMachineStateRequest \<longrightarrow> code = kInitialMachineStateNotSet" for x code
      using that c by (intro exI [of _ "?req\<lparr>request_or_response := code\<rparr>"] exI [of _ "initial_result_count ch"])
        (auto simp: answered_as_def ch0_def set_request_def)
    show ?thesis
    proof (cases "request_or_response ?req = kSetStateRequest")
      case True
      obtain code' where "final_code code'" "channel m1 k n = Some (set_request (\<lambda>msg. msg\<lparr>request_or_response := code'\<rparr>) ch0)"
        using transition_answer [OF m0, of ?req] True by (auto simp: m1_def)
      then show ?thesis using code [of "channel m1 k n" code'] True c(1) by simp
    next
      case False
      show ?thesis
      proof (cases "request_or_response ?req = kGetInitialMachineStateRequest")
        case init: True
        show ?thesis
        proof (cases "machine_process_group m0 = None \<or> unat (initial_result_count ch0) = 2 ^ 16 - 1")
          case True
          then show ?thesis
            using init code [of "channel m1 k n" kInitialMachineStateNotSet] channel_answer(1) [OF m0] False c(1)
            by (simp add: m1_def processGetInitialMachineStateTransitionResult_def)
        next
          case cnt: False
          have "initial_result_count ch + 1 \<noteq> 0"
          proof
            assume "initial_result_count ch + 1 = 0"
            then have "initial_result_count ch = - 1" by (simp add: eq_neg_iff_add_eq_0)
            then show False using cnt c(3) by (simp add: unsigned_minus_1_eq_mask mask_eq_exp_minus_1)
          qed
          then show ?thesis
            using init cnt m0 c by (intro exI [of _ ?req] exI [of _ "initial_result_count ch + 1"])
              (auto simp: m1_def processGetInitialMachineStateTransitionResult_def channel_upd_channel answered_as_def ch0_def set_request_def)
        qed
      next
        case other: False
        show ?thesis
        proof (cases "request_or_response ?req = kGetExecutionErrorRequest \<and>
            (\<exists>p. getProcessGroup (id_pg_name (process_group_state ?req)) m0 = Some p \<and> g_state (group m0 p) = GS_UndefinedState)")
          case True
          then obtain e where "channel m1 k n = Some (set_request (\<lambda>msg. msg\<lparr>msg_execution_error_code := e,
              request_or_response := kExecutionErrorRequestSuccess\<rparr>) ch0)"
            using m0 by (auto simp: m1_def processGetExecutionError_def channel_upd_channel)
          then show ?thesis
            using True c by (intro exI [of _ "?req\<lparr>msg_execution_error_code := e, request_or_response := kExecutionErrorRequestSuccess\<rparr>"]
                exI [of _ "initial_result_count ch"]) (auto simp: answered_as_def ch0_def set_request_def)
        next
          case plain: False
          have "\<exists>code. m1 = answer k n code m0"
            using False other plain unfolding m1_def
            by (cases "request_or_response ?req") (auto simp: processGetExecutionError_def processValidateFunctionStateID_def split: option.splits)
          then show ?thesis using code [of "channel m1 k n"] channel_answer(1) [OF m0] False other c(1) by auto
        qed
      qed
    qed
  qed
  then obtain ans cnt where "channel m1 k n = Some ((set_request (\<lambda>_. ans) ch)\<lparr>initial_result_count := cnt\<rparr>)" "answered_as ch ans cnt" by blast
  then show ?thesis
    unfolding s using channel_upd_channel(1) [OF m1, of acknowledgeRequest]
    by (intro exI [of _ ans] exI [of _ cnt]) (simp add: answered_channel_def acknowledgeRequest_def)
qed

definition accepts :: "ControlClientMessage \<Rightarrow> ControlClientMessage \<Rightarrow> bool" where
  "accepts req ans \<longleftrightarrow> request_or_response req = kSetStateRequest \<and> request_or_response ans = kSetStateSuccess"

text \<open>\<open>refused\<close> are the slots whose request for the initial result has been refused.\<close>

inductive cc_reach ::
  "('w, 'p, 'f) promise_api \<Rightarrow> 'w \<Rightarrow> ('p, 'w) ControlClientImpl \<Rightarrow> Caller \<Rightarrow> nat set \<Rightarrow> nat set \<Rightarrow> bool" for api w0 where
  created: "ControlClientImpl_new api False mapped \<lparr>blk_comms_type = t, blk_channel = ccc_initialize ch\<rparr> w0 = Some (b, c) \<Longrightarrow>
    cc_reach api w0 c Idle {} {}"
| called: "cc_reach api w0 c Idle owed refused \<Longrightarrow> request_or_response msg \<in> {kSetStateRequest, kGetInitialMachineStateRequest} \<Longrightarrow>
    send_begin api msg c = Some (Some (i, f, msg'), c1) \<Longrightarrow> store_request msg' c1 = Some c2 \<Longrightarrow> cc_reach api w0 c2 (Sending i) owed (refused - {i})"
| failed: "cc_reach api w0 c caller owed refused \<Longrightarrow> errorFuture api e c = Some (f, c1) \<Longrightarrow> cc_reach api w0 c1 caller owed refused"
| asked: "cc_reach api w0 c Idle owed refused \<Longrightarrow> request_or_response msg = kGetExecutionErrorRequest \<Longrightarrow>
    store_request msg c = Some c1 \<Longrightarrow> cc_reach api w0 c1 Asking owed refused"
| answered: "cc_reach api w0 c caller owed refused \<Longrightarrow> ipc_channel c = Some ch \<Longrightarrow> getRequest ch \<Longrightarrow>
    channel (m :: (nat, nat) ProcessGroupManager) k n = Some ch \<Longrightarrow> k < length (process_groups m) \<Longrightarrow> n < length (nodes (group m k)) \<Longrightarrow>
    channel (serve_request k n ch m) k n = Some ch1 \<Longrightarrow>
    cc_reach api w0 (c\<lparr>ipc_channel := Some ch1\<rparr>) caller
      (if accepts (request ch) (request ch1) then insert (fid (request ch1)) owed else owed)
      (if request_or_response (request ch1) = kInitialMachineStateNotSet then insert (fid (request ch1)) refused else refused)"
| deferred: "cc_reach api w0 c caller owed refused \<Longrightarrow> ipc_channel c = Some ch \<Longrightarrow>
    channel (m :: (nat, nat) ProcessGroupManager) k n = Some ch \<Longrightarrow> k < length (process_groups m) \<Longrightarrow> n < length (nodes (group m k)) \<Longrightarrow>
    initial_state_transition_result (pm_env m) \<in> {kInitialMachineStateNotSet, kInitialMachineStateSuccess, kInitialMachineStateFailed} \<Longrightarrow>
    channel (serve_deferred k n m) k n = Some ch1 \<Longrightarrow> cc_reach api w0 (c\<lparr>ipc_channel := Some ch1\<rparr>) caller owed refused"
| sent: "cc_reach api w0 c (Sending i) owed refused \<Longrightarrow> await_answer c = Some (msg, c1) \<Longrightarrow>
    cc_reach api w0 (send_end api i msg c1) Idle owed refused"
| told: "cc_reach api w0 c Asking owed refused \<Longrightarrow> await_answer c = Some (msg, c1) \<Longrightarrow> cc_reach api w0 c1 Idle owed refused"
| responded: "cc_reach api w0 c caller owed refused \<Longrightarrow> ipc_channel c = Some ch \<Longrightarrow> ccc_sendResponse msg ch = (True, ch1) \<Longrightarrow>
    (final_code (request_or_response msg) \<Longrightarrow> fid msg \<in> owed) \<Longrightarrow>
    cc_reach api w0 (c\<lparr>ipc_channel := Some ch1\<rparr>) caller (if final_code (request_or_response msg) then owed - {fid msg} else owed) refused"
| background: "cc_reach api w0 c caller owed refused \<Longrightarrow> run_turn api c = Some c1 \<Longrightarrow> cc_reach api w0 c1 caller owed refused"
| semaphore: "cc_reach api w0 c caller owed refused \<Longrightarrow> cc_reach api w0 (c\<lparr>ipc_request_semaphore := n\<rparr>) caller owed refused"

subsection \<open>The invariant\<close>

definition busy :: "'p ControlClientRequestInfo list \<Rightarrow> nat \<Rightarrow> bool" where
  "busy rs i \<longleftrightarrow> i < length rs \<and> cr_in_use (rs ! i) \<and> \<not> cr_initial (rs ! i)"

text \<open>A result for slot \<open>i\<close> is in the response link; the request in the channel is not decided yet, or refused.\<close>

definition arriving :: "ControlClientChannel \<Rightarrow> nat \<Rightarrow> bool" where
  "arriving ch i \<longleftrightarrow> \<not> comms_empty (ccc_response ch) \<and> final_code (request_or_response (comms_msg (ccc_response ch))) \<and>
     fid (comms_msg (ccc_response ch)) = i"

definition undecided :: "ControlClientChannel \<Rightarrow> bool" where
  "undecided ch \<longleftrightarrow> (if getRequest ch then request_or_response (request ch) = kSetStateRequest
                     else scErrorMap (request_or_response (request ch)) \<noteq> None)"

fun caller_ok :: "ControlClientChannel \<Rightarrow> Caller \<Rightarrow> bool" where
  "caller_ok ch Idle \<longleftrightarrow> \<not> getRequest ch"
| "caller_ok ch Asking \<longleftrightarrow> (getRequest ch \<longrightarrow> request_or_response (request ch) = kGetExecutionErrorRequest)"
| "caller_ok ch (Sending i) \<longleftrightarrow> (getRequest ch \<longrightarrow> fid (request ch) = i \<and>
     request_or_response (request ch) \<in> {kSetStateRequest, kGetInitialMachineStateRequest})"

text \<open>Each busy slot is in exactly one place: with its caller, with the launch manager, or in the response link.\<close>

definition places_ok :: "(nat \<Rightarrow> bool) \<Rightarrow> ControlClientChannel \<Rightarrow> Caller \<Rightarrow> nat set \<Rightarrow> bool" where
  "places_ok bs ch caller owed \<longleftrightarrow>
     (\<forall>i. bs i = (i \<in> owed \<or> arriving ch i \<or> (caller = Sending i \<and> undecided ch))) \<and>
     (\<forall>i. \<not> (i \<in> owed \<and> arriving ch i)) \<and> (\<forall>i. caller = Sending i \<and> undecided ch \<longrightarrow> i \<notin> owed \<and> \<not> arriving ch i)"

definition protocol_ok :: "'p ControlClientRequestInfo list \<Rightarrow> ControlClientChannel option \<Rightarrow> Caller \<Rightarrow> nat set \<Rightarrow> bool" where
  "protocol_ok rs mapped caller owed \<longleftrightarrow> length rs = kControlClientMaxRequests \<and>
     (case mapped of None \<Rightarrow> caller = Idle \<and> owed = {} \<and> (\<forall>i. \<not> busy rs i)
      | Some ch \<Rightarrow> caller_ok ch caller \<and> places_ok (busy rs) ch caller owed)"

lemma claim_slot_spec:
  assumes "claim_slot rs = (i, rs')" "i < length rs'"
  shows "i < length rs" "\<not> cr_in_use (rs ! i)" "rs' = rs[i := (rs ! i)\<lparr>cr_in_use := True\<rparr>]"
  using assms
  by (induction rs arbitrary: i rs') (auto simp: Let_def split: if_splits prod.splits)

lemma send_begin_spec:
  assumes "send_begin api msg c = Some (Some (i, f, msg'), c')" "length (control_client_requests c) = kControlClientMaxRequests"
  obtains p w1 w2 where "i < kControlClientMaxRequests" "\<not> cr_in_use (slot c i)" "new_promise api (cc_world c) = (p, w1)"
    "get_future api p w1 = (Some f, w2)" "fid msg' = i" "request_or_response msg' = request_or_response msg"
    "c' = c\<lparr>control_client_requests := (control_client_requests c)[i := \<lparr>cr_promise = p, cr_in_use = True,
       cr_initial = (cr_initial (slot c i) \<or> request_or_response msg = kGetInitialMachineStateRequest)\<rparr>], cc_world := w2\<rparr>"
proof -
  obtain k rs' where k: "claim_slot (control_client_requests c) = (k, rs')" by fastforce
  obtain p w1 where p: "new_promise api (cc_world c) = (p, w1)" by fastforce
  obtain g w2 where g: "get_future api p w1 = (g, w2)" by fastforce
  have kl: "k < length rs'" using assms(1) k by (auto simp: send_begin_def split: if_splits)
  note cl = claim_slot_spec [OF k kl]
  have i: "i = k" "g = Some f" using assms(1) k p g kl by (auto simp: send_begin_def Let_def split: if_splits)
  have "unat (word_of_nat k :: 32 word) = k" using cl(1) assms(2) by (simp add: unat_of_nat kControlClientMaxRequests_def)
  moreover have e: "(slot c k)\<lparr>cr_in_use := True, cr_promise := p\<rparr> = \<lparr>cr_promise = p, cr_in_use = True, cr_initial = cr_initial (slot c k)\<rparr>"
    "(slot c k)\<lparr>cr_in_use := True, cr_promise := p, cr_initial := True\<rparr> = \<lparr>cr_promise = p, cr_in_use = True, cr_initial = True\<rparr>"
    by (cases "slot c k", simp)+
  ultimately show thesis
    using assms k p g kl cl i
    by (intro that [of p w1 w2]) (auto simp: send_begin_def Let_def upd_slot_def e split: if_splits)
qed

lemma store_request_spec:
  "store_request msg c = Some c' \<longleftrightarrow> (\<exists>ch. ipc_channel c = Some ch \<and> c' = c\<lparr>ipc_channel := Some (ch\<lparr>ccc_request := \<lparr>comms_empty = False, comms_msg = msg\<rparr>\<rparr>)\<rparr>)"
  by (auto simp: store_request_def set_request_def split: Option.bind_splits)

lemma await_answer_spec:
  assumes "await_answer c = Some (msg, c')"
  obtains ch where "ipc_channel c = Some ch" "\<not> getRequest ch" "msg = request ch"
    "c' = c\<lparr>ipc_channel := Some (ch\<lparr>nudge_LM_Handler := nudge_LM_Handler ch - 1\<rparr>)\<rparr>"
  using assms by (auto simp: await_answer_def getRequest_def split: Option.bind_splits if_splits)

lemma busy_update:
  "i < length rs \<Longrightarrow> busy (rs[i := r]) j = (if j = i then cr_in_use r \<and> \<not> cr_initial r else busy rs j)"
  by (auto simp: busy_def nth_list_update)

lemma busy_fulfil_initial: "busy (fst (fulfil_initial fulfil rs w)) = busy rs"
  by (rule ext) (auto simp: busy_def fulfil_initial_eq split: if_splits)

lemma length_fulfil_initial: "length (fst (fulfil_initial fulfil rs w)) = length rs"
  by (simp add: fulfil_initial_eq)

lemma channel_nudge_frame:
  "arriving (ch\<lparr>nudge_LM_Handler := n\<rparr>) = arriving ch" "undecided (ch\<lparr>nudge_LM_Handler := n\<rparr>) = undecided ch"
  "getRequest (ch\<lparr>nudge_LM_Handler := n\<rparr>) = getRequest ch"
  by (simp_all add: fun_eq_iff arriving_def undecided_def getRequest_def)

text \<open>The slots that wait for the result of the initial transition.\<close>

definition initial_arriving :: "ControlClientChannel \<Rightarrow> bool" where
  "initial_arriving ch \<longleftrightarrow> \<not> comms_empty (ccc_response ch) \<and> request_or_response (comms_msg (ccc_response ch)) \<in>
     {kInitialMachineStateNotSet, kInitialMachineStateSuccess, kInitialMachineStateFailed}"

definition initial_ok :: "'p ControlClientRequestInfo list \<Rightarrow> ControlClientChannel option \<Rightarrow> Caller \<Rightarrow> nat set \<Rightarrow> bool" where
  "initial_ok rs mapped caller refused \<longleftrightarrow> (\<forall>i < length rs. cr_in_use (rs ! i) \<and> cr_initial (rs ! i) \<longrightarrow>
     i \<in> refused \<or> (\<exists>ch. mapped = Some ch \<and> (initial_result_count ch \<noteq> 0 \<or> initial_arriving ch \<or> caller = Sending i \<and> getRequest ch)))"

text \<open>What sending a deferred result does to the channel.\<close>

definition deferred_channel :: "ControlClientChannel \<Rightarrow> ControlClientChannel \<Rightarrow> bool" where
  "deferred_channel ch ch1 \<longleftrightarrow> ch1 = ch \<or> (\<exists>msg cnt. comms_empty (ccc_response ch) \<and>
     request_or_response msg \<in> {kInitialMachineStateSuccess, kInitialMachineStateFailed} \<and>
     ch1 = ch\<lparr>ccc_response := \<lparr>comms_empty = False, comms_msg = msg\<rparr>, nudge_LM_Handler := nudge_LM_Handler ch + 1, initial_result_count := cnt\<rparr>)"

lemma serve_deferred_channel:
  assumes "k < length (process_groups m)" "n < length (nodes (group m k))" "channel m k n = Some ch"
    "initial_state_transition_result (pm_env m) \<in> {kInitialMachineStateNotSet, kInitialMachineStateSuccess, kInitialMachineStateFailed}"
    "channel (serve_deferred k n m) k n = Some ch1"
  shows "deferred_channel ch ch1"
proof (cases "initial_state_transition_result (pm_env m) \<noteq> kInitialMachineStateNotSet \<and> initial_result_count ch \<noteq> 0")
  case True
  let ?msg = "(ControlClientMessage_new (pe_hash (pm_env m)))\<lparr>request_or_response := initial_state_transition_result (pm_env m),
    originating_control_client := originating_control_client (request ch)\<rparr>"
  have "serve_deferred k n m = (if comms_empty (ccc_response ch)
      then upd_channel k n (\<lambda>_. ch\<lparr>ccc_response := \<lparr>comms_empty = False, comms_msg = ?msg\<rparr>, nudge_LM_Handler := nudge_LM_Handler ch + 1,
        initial_result_count := initial_result_count ch - 1\<rparr>) m
      else pm_nudge m)"
    using True assms(3) by (simp add: serve_deferred_def ccc_sendResponse_def)
  then show ?thesis
    using assms True by (auto simp: deferred_channel_def channel_upd_channel split: if_splits intro!: exI [of _ ?msg])
next
  case False
  then have "serve_deferred k n m = m" using assms(3) by (auto simp: serve_deferred_def)
  then show ?thesis using assms(3,5) by (simp add: deferred_channel_def)
qed

subsection \<open>The invariant is kept\<close>

context promise_laws
begin

definition cc_inv :: "('p, 'w) ControlClientImpl \<Rightarrow> Caller \<Rightarrow> nat set \<Rightarrow> bool" where
  "cc_inv c caller owed \<longleftrightarrow> slots_ok (control_client_requests c) (cc_world c) \<and> protocol_ok (control_client_requests c) (ipc_channel c) caller owed"

lemma inv_called:
  assumes inv: "cc_inv c Idle owed" and code: "request_or_response msg \<in> {kSetStateRequest, kGetInitialMachineStateRequest}"
    and b: "send_begin api msg c = Some (Some (i, f, msg'), c1)" and s: "store_request msg' c1 = Some c2"
  shows "cc_inv c2 (Sending i) owed"
proof -
  have len: "length (control_client_requests c) = kControlClientMaxRequests" and ok: "slots_ok (control_client_requests c) (cc_world c)"
    using inv by (simp_all add: cc_inv_def protocol_ok_def)
  obtain p w1 w2 where e: "i < kControlClientMaxRequests" "\<not> cr_in_use (slot c i)" "new_promise api (cc_world c) = (p, w1)"
    "get_future api p w1 = (Some f, w2)" "fid msg' = i" "request_or_response msg' = request_or_response msg"
    "c1 = c\<lparr>control_client_requests := (control_client_requests c)[i := \<lparr>cr_promise = p, cr_in_use = True,
       cr_initial = (cr_initial (slot c i) \<or> request_or_response msg = kGetInitialMachineStateRequest)\<rparr>], cc_world := w2\<rparr>"
    using send_begin_spec [OF b len] by metis
  have w: "p \<notin> known (cc_world c)" "known w2 = insert p (known (cc_world c))" "fulfilled q w2 = (if q = p then 0 else fulfilled q (cc_world c))" for q
    using new_known [OF e(3)] new_count [OF e(3)] future_frame [OF e(4)] by simp_all
  have init: "\<not> cr_initial (slot c i)" using ok e(1,2) len by (auto simp: slots_ok_def)
  obtain ch where ch: "ipc_channel c = Some ch" "c2 = c1\<lparr>ipc_channel := Some (ch\<lparr>ccc_request := \<lparr>comms_empty = False, comms_msg = msg'\<rparr>\<rparr>)\<rparr>"
    using s by (auto simp: store_request_spec e(7))
  let ?ch = "ch\<lparr>ccc_request := \<lparr>comms_empty = False, comms_msg = msg'\<rparr>\<rparr>"
  have idle: "busy (control_client_requests c) j = (j \<in> owed \<or> arriving ch j)" "\<not> (j \<in> owed \<and> arriving ch j)" for j
    using inv ch(1) by (simp_all add: cc_inv_def protocol_ok_def places_ok_def)
  have free: "\<not> busy (control_client_requests c) i" using e(2) by (simp add: busy_def)
  have a: "arriving ?ch = arriving ch" by (simp add: fun_eq_iff arriving_def)
  have u: "undecided ?ch \<longleftrightarrow> request_or_response msg = kSetStateRequest" using e(6) by (simp add: undecided_def getRequest_def)
  have "busy (control_client_requests c2) j = (if j = i then request_or_response msg \<noteq> kGetInitialMachineStateRequest else busy (control_client_requests c) j)" for j
    using e(1) len init by (simp add: ch(2) e(7) busy_update)
  then have "places_ok (busy (control_client_requests c2)) ?ch (Sending i) owed"
    using idle free code unfolding places_ok_def a u by auto
  moreover have "caller_ok ?ch (Sending i)" using e(5,6) code by (simp add: getRequest_def)
  moreover have "slots_ok (control_client_requests c2) (cc_world c2)"
    using slots_ok_claim [OF ok _ e(2) w] e(1) len by (simp add: ch(2) e(7))
  ultimately show ?thesis using len by (simp add: cc_inv_def protocol_ok_def ch(2) e(7))
qed

lemma inv_refused:
  assumes "cc_inv c caller owed" "errorFuture api e c = Some (f, c1)"
  shows "cc_inv c1 caller owed"
proof -
  obtain p w1 w2 where n: "new_promise api (cc_world c) = (p, w1)" "get_future api p (set_error api p e w1) = (Some f, w2)" "c1 = c\<lparr>cc_world := w2\<rparr>"
    using assms(2) by (auto simp: errorFuture_def Let_def split: prod.splits)
  then show ?thesis using assms(1) slots_ok_world [OF _ n(1,2)] by (simp add: cc_inv_def)
qed

lemma inv_asked:
  assumes "cc_inv c Idle owed" "request_or_response msg = kGetExecutionErrorRequest" "store_request msg c = Some c1"
  shows "cc_inv c1 Asking owed"
  using assms by (auto simp: cc_inv_def protocol_ok_def places_ok_def store_request_spec getRequest_def arriving_def)

lemma inv_answered:
  assumes inv: "cc_inv c caller owed" and ch: "ipc_channel c = Some ch" "getRequest ch" and adm: "answered_as ch msg cnt"
  shows "cc_inv (c\<lparr>ipc_channel := Some (answered_channel msg cnt ch)\<rparr>) caller
    (if accepts (request ch) msg then insert (fid msg) owed else owed)"
proof -
  let ?ch = "answered_channel msg cnt ch"
  let ?owed = "if accepts (request ch) msg then insert (fid msg) owed else owed"
  have k: "caller_ok ch caller" "places_ok (busy (control_client_requests c)) ch caller owed"
    using inv ch(1) by (simp_all add: cc_inv_def protocol_ok_def)
  have a: "arriving ?ch = arriving ch" by (simp add: fun_eq_iff arriving_def answered_channel_def acknowledgeRequest_def set_request_def)
  have u: "undecided ?ch \<longleftrightarrow> scErrorMap (request_or_response msg) \<noteq> None" "\<not> getRequest ?ch"
    by (simp_all add: undecided_def getRequest_def answered_channel_def acknowledgeRequest_def set_request_def)
  have u0: "undecided ch \<longleftrightarrow> request_or_response (request ch) = kSetStateRequest" using ch(2) by (simp add: undecided_def)
  have "places_ok (busy (control_client_requests c)) ?ch caller ?owed"
  proof (cases caller)
    case (Sending i)
    have "fid msg = i" "request_or_response (request ch) \<in> {kSetStateRequest, kGetInitialMachineStateRequest}"
      using k(1) ch(2) adm Sending by (simp_all add: answered_as_def)
    then show ?thesis
      using k(2) adm Sending unfolding places_ok_def a u u0 by (auto simp: answered_as_def accepts_def final_code_def)
  qed (use k ch(2) in \<open>auto simp: places_ok_def a accepts_def\<close>)
  moreover have "caller_ok ?ch caller" using u(2) by (cases caller) simp_all
  ultimately show ?thesis using inv ch(1) by (simp add: cc_inv_def protocol_ok_def)
qed

lemma inv_deferred:
  assumes inv: "cc_inv c caller owed" and ch: "ipc_channel c = Some ch" and d: "deferred_channel ch ch1"
  shows "cc_inv (c\<lparr>ipc_channel := Some ch1\<rparr>) caller owed"
proof -
  have f: "arriving ch1 i = arriving ch i" "undecided ch1 = undecided ch" "getRequest ch1 = getRequest ch" "request ch1 = request ch" for i
    using d by (auto simp: deferred_channel_def arriving_def undecided_def getRequest_def final_code_def)
  have "caller_ok ch1 caller = caller_ok ch caller" by (cases caller) (simp_all add: f)
  then show ?thesis using inv ch by (simp add: cc_inv_def protocol_ok_def places_ok_def f)
qed

lemma inv_told:
  assumes "cc_inv c Asking owed" "await_answer c = Some (msg, c1)"
  shows "cc_inv c1 Idle owed"
  using assms(2)
  by (rule await_answer_spec) (use assms(1) in \<open>auto simp: cc_inv_def protocol_ok_def places_ok_def channel_nudge_frame\<close>)

lemma inv_sent:
  assumes inv: "cc_inv c (Sending i) owed" and a: "await_answer c = Some (msg, c1)"
  shows "cc_inv (send_end api i msg c1) Idle owed"
proof -
  obtain ch where ch: "ipc_channel c = Some ch" "\<not> getRequest ch" "msg = request ch"
    "c1 = c\<lparr>ipc_channel := Some (ch\<lparr>nudge_LM_Handler := nudge_LM_Handler ch - 1\<rparr>)\<rparr>"
    using await_answer_spec [OF a] by metis
  have p: "places_ok (busy (control_client_requests c)) ch (Sending i) owed" and len: "length (control_client_requests c) = kControlClientMaxRequests"
    and ok: "slots_ok (control_client_requests c) (cc_world c)"
    using inv ch(1) by (simp_all add: cc_inv_def protocol_ok_def)
  have u: "undecided ch \<longleftrightarrow> scErrorMap (request_or_response msg) \<noteq> None" using ch(2,3) by (simp add: undecided_def)
  show ?thesis
  proof (cases "scErrorMap (request_or_response msg)")
    case None
    then show ?thesis
      using p len ok ch u by (simp add: send_end_def cc_inv_def protocol_ok_def places_ok_def channel_nudge_frame)
  next
    case (Some err)
    then have b: "busy (control_client_requests c) i" "i \<notin> owed" "\<not> arriving ch i" using p u by (auto simp: places_ok_def)
    then have i: "i < length (control_client_requests c)" "cr_in_use (slot c i)" "\<not> cr_initial (slot c i)" by (simp_all add: busy_def)
    have "places_ok (busy ((control_client_requests c)[i := (slot c i)\<lparr>cr_in_use := False\<rparr>])) ch Idle owed"
      using p u Some b i by (auto simp: places_ok_def busy_update)
    then show ?thesis
      using slots_ok_fulfil [OF ok i counts_api(2)] Some len ch
      by (simp add: send_end_def upd_slot_def cc_inv_def protocol_ok_def places_ok_def channel_nudge_frame)
  qed
qed

lemma inv_responded:
  assumes inv: "cc_inv c caller owed" and ch: "ipc_channel c = Some ch" "ccc_sendResponse msg ch = (True, ch1)"
    and o: "final_code (request_or_response msg) \<Longrightarrow> fid msg \<in> owed"
  shows "cc_inv (c\<lparr>ipc_channel := Some ch1\<rparr>) caller (if final_code (request_or_response msg) then owed - {fid msg} else owed)"
proof -
  have e: "comms_empty (ccc_response ch)" "ch1 = ch\<lparr>ccc_response := \<lparr>comms_empty = False, comms_msg = msg\<rparr>, nudge_LM_Handler := nudge_LM_Handler ch + 1\<rparr>"
    using ch(2) by (auto simp: ccc_sendResponse_def split: if_splits)
  have f: "arriving ch1 i \<longleftrightarrow> final_code (request_or_response msg) \<and> fid msg = i" "\<not> arriving ch i" "undecided ch1 = undecided ch" for i
    using e by (simp_all add: arriving_def undecided_def getRequest_def)
  have "caller_ok ch1 caller = caller_ok ch caller" using e(2) by (cases caller) (simp_all add: getRequest_def)
  then show ?thesis using inv ch(1) o unfolding cc_inv_def protocol_ok_def places_ok_def by (auto simp: f)
qed

lemma protocol_taken:
  assumes "places_ok (busy rs) ch caller owed" "arriving ch i" "r = (rs ! i)\<lparr>cr_in_use := False\<rparr>"
  shows "places_ok (busy (rs[i := r])) (ch\<lparr>ccc_response := (ccc_response ch)\<lparr>comms_empty := True\<rparr>\<rparr>) caller owed"
proof -
  let ?ch = "ch\<lparr>ccc_response := (ccc_response ch)\<lparr>comms_empty := True\<rparr>\<rparr>"
  have f: "\<not> arriving ?ch j" "undecided ?ch = undecided ch" for j by (simp_all add: arriving_def undecided_def getRequest_def)
  have "i < length rs" using assms(1,2) by (auto simp: places_ok_def busy_def)
  moreover have "arriving ch j \<longleftrightarrow> j = i" for j using assms(2) by (auto simp: arriving_def)
  ultimately show ?thesis using assms unfolding places_ok_def by (auto simp: busy_update f)
qed

lemma dispatch_final:
  assumes "final_code (request_or_response msg)" "fid msg < length (control_client_requests c)"
  obtains fulfil where "counts fulfil" "cc_dispatch api msg c = Some (upd_slot (fid msg) (\<lambda>r. r\<lparr>cr_in_use := False\<rparr>)
    (c\<lparr>cc_world := fulfil (cr_promise (slot c (fid msg))) (cc_world c)\<rparr>))"
proof (cases "request_or_response msg = kSetStateSuccess")
  case True
  then show thesis using that [OF counts_api(1)] assms(2) by (simp add: cc_dispatch_def funcSetValue_def Let_def)
next
  case False
  then obtain err where "scErrorMap (request_or_response msg) = Some err" using assms(1) by (auto simp: final_code_def)
  then show thesis
    using that [OF counts_api(2) [of err]] assms(2) by (cases "request_or_response msg") (simp_all add: cc_dispatch_def funcSetError_def Let_def)
qed

lemma dispatch_other:
  assumes "\<not> final_code (request_or_response msg)" "cc_dispatch api msg c = Some c1"
    "slots_ok (control_client_requests c) (cc_world c)"
  shows "slots_ok (control_client_requests c1) (cc_world c1)" "busy (control_client_requests c1) = busy (control_client_requests c)"
    "length (control_client_requests c1) = length (control_client_requests c)" "ipc_channel c1 = ipc_channel c"
proof -
  have "c1 = c \<or> c1 = funcUtermination msg c \<or> c1 = funcMcStateWrong api c \<or> c1 = funcMcStateSuccess api c"
    using assms(1,2) by (cases "request_or_response msg") (simp_all add: cc_dispatch_def final_code_def)
  then show "slots_ok (control_client_requests c1) (cc_world c1)" "busy (control_client_requests c1) = busy (control_client_requests c)"
    "length (control_client_requests c1) = length (control_client_requests c)" "ipc_channel c1 = ipc_channel c"
    using assms(3) slots_ok_initial [OF assms(3) counts_api(1)] slots_ok_initial [OF assms(3) counts_api(2)]
    by (auto simp: funcUtermination_def funcMcStateWrong_def funcMcStateSuccess_def funcMcState_def case_prod_beta busy_fulfil_initial length_fulfil_initial)
qed

lemma inv_background:
  assumes inv: "cc_inv c caller owed" and r: "run_turn api c = Some c1"
  shows "cc_inv c1 caller owed"
proof -
  obtain ch where ch: "ipc_channel c = Some ch" using r by (auto simp: run_turn_def split: Option.bind_splits)
  have ok: "slots_ok (control_client_requests c) (cc_world c)" and len: "length (control_client_requests c) = kControlClientMaxRequests"
    and k: "caller_ok ch caller" "places_ok (busy (control_client_requests c)) ch caller owed"
    using inv ch by (simp_all add: cc_inv_def protocol_ok_def)
  show ?thesis
  proof (cases "comms_empty (ccc_response ch)")
    case True
    then show ?thesis using inv r ch by (auto simp: run_turn_def ccc_getResponse_def cc_inv_def)
  next
    case False
    define msg where "msg = comms_msg (ccc_response ch)"
    define ch1 where "ch1 = ch\<lparr>ccc_response := (ccc_response ch)\<lparr>comms_empty := True\<rparr>\<rparr>"
    define c0 where "c0 = c\<lparr>ipc_channel := Some ch1\<rparr>"
    have d: "cc_dispatch api msg c0 = Some c1"
      using r ch False by (simp add: run_turn_def ccc_getResponse_def msg_def ch1_def c0_def)
    have c1: "caller_ok ch1 caller" using k(1) by (cases caller) (simp_all add: ch1_def getRequest_def)
    show ?thesis
    proof (cases "final_code (request_or_response msg)")
      case True
      then have ar: "arriving ch (fid msg)" using False by (simp add: arriving_def msg_def)
      then have b: "busy (control_client_requests c) (fid msg)" using k(2) by (simp add: places_ok_def)
      then obtain fulfil where f: "counts fulfil" "c1 = upd_slot (fid msg) (\<lambda>r. r\<lparr>cr_in_use := False\<rparr>)
          (c0\<lparr>cc_world := fulfil (cr_promise (slot c0 (fid msg))) (cc_world c0)\<rparr>)"
        using dispatch_final [OF True, of c0] d by (auto simp: busy_def c0_def)
      show ?thesis
        using slots_ok_fulfil [OF ok _ _ _ f(1), of "fid msg"] protocol_taken [OF k(2) ar refl] b c1 len
        by (simp add: f(2) c0_def upd_slot_def cc_inv_def protocol_ok_def ch1_def busy_def)
    next
      case other: False
      have "places_ok (busy (control_client_requests c)) ch1 caller owed"
        using k(2) other unfolding places_ok_def ch1_def by (simp add: arriving_def undecided_def getRequest_def msg_def)
      then show ?thesis
        using dispatch_other [OF other d] ok c1 len by (simp add: cc_inv_def protocol_ok_def c0_def)
    qed
  qed
qed

lemma inv_created:
  assumes "\<forall>p \<in> known w. fulfilled p w \<le> 1"
    "ControlClientImpl_new api False mapped \<lparr>blk_comms_type = t, blk_channel = ccc_initialize ch\<rparr> w = Some (b, c)"
  shows "cc_inv c Idle {}"
proof -
  obtain rs w1 where n: "new_slots api kControlClientMaxRequests w = (rs, w1)" by fastforce
  have s: "slots_ok rs w1" "length rs = kControlClientMaxRequests" "\<forall>r \<in> set rs. \<not> cr_in_use r" using new_slots_ok [OF assms(1) n] by simp_all
  then have idle: "\<not> busy rs i" for i by (auto simp: busy_def)
  have c: "control_client_requests c = rs" "cc_world c = w1" "ipc_channel c = None \<or> ipc_channel c = Some (ccc_initialize ch)"
    using assms(2) n by (auto simp: ControlClientImpl_new_def initializeControlClientChannel_def)
  moreover have "places_ok (busy rs) (ccc_initialize ch) Idle {}" using idle by (simp add: places_ok_def arriving_def ccc_initialize_def)
  moreover have "caller_ok (ccc_initialize ch) Idle" by (simp add: getRequest_def ccc_initialize_def)
  ultimately show ?thesis using s idle by (auto simp: cc_inv_def protocol_ok_def)
qed

lemma reach_inv:
  assumes reach: "cc_reach api w0 c caller owed refused" and start: "\<forall>p \<in> known w0. fulfilled p w0 \<le> 1"
  shows "cc_inv c caller owed"
  using reach
proof induction
  case created
  show ?case by (rule inv_created [OF start created])
next
  case called
  show ?case by (rule inv_called [OF called.IH called.hyps(2-4)])
next
  case failed
  show ?case by (rule inv_refused [OF failed.IH failed.hyps(2)])
next
  case asked
  show ?case by (rule inv_asked [OF asked.IH asked.hyps(2,3)])
next
  case (answered c caller owed refused ch m k n ch1)
  obtain ans cnt where a: "ch1 = answered_channel ans cnt ch" "answered_as ch ans cnt"
    using serve_request_answers [OF answered.hyps(5,6,4)] answered.hyps(7) by auto
  then have "request ch1 = ans" by (simp add: answered_channel_def acknowledgeRequest_def set_request_def)
  then show ?case using inv_answered [OF answered.IH answered.hyps(2,3) a(2)] a(1) by (cases "accepts (request ch) ans") simp_all
next
  case (deferred c caller owed refused ch m k n ch1)
  show ?case by (rule inv_deferred [OF deferred.IH deferred.hyps(2) serve_deferred_channel [OF deferred.hyps(4,5,3,6,7)]])
next
  case sent
  show ?case by (rule inv_sent [OF sent.IH sent.hyps(2)])
next
  case told
  show ?case by (rule inv_told [OF told.IH told.hyps(2)])
next
  case responded
  show ?case by (rule inv_responded [OF responded.IH responded.hyps(2-4)])
next
  case background
  show ?case by (rule inv_background [OF background.IH background.hyps(2)])
next
  case semaphore
  then show ?case by (simp add: cc_inv_def)
qed

text \<open>
  A slot that waits for the initial result: its request is still in the channel, a result is still to be sent to this
  client, one is in the response link, or the request has been refused.
\<close>

lemma initial_okI:
  assumes "initial_ok rs mapped caller refused"
    "\<And>i. i < length rs' \<Longrightarrow> cr_in_use (rs' ! i) \<Longrightarrow> cr_initial (rs' ! i) \<Longrightarrow> i < length rs \<and> cr_in_use (rs ! i) \<and> cr_initial (rs ! i)"
  shows "initial_ok rs' mapped caller refused"
  using assms unfolding initial_ok_def by blast

lemma initial_ok_release:
  "initial_ok rs mapped caller refused \<Longrightarrow> initial_ok (rs[i := (rs ! i)\<lparr>cr_in_use := False\<rparr>]) mapped caller refused"
  by (erule initial_okI) (cases "i < length rs"; auto simp: nth_list_update split: if_splits)

lemma initial_called:
  assumes inv: "cc_inv c Idle owed" and ini: "initial_ok (control_client_requests c) (ipc_channel c) Idle refused"
    and b: "send_begin api msg c = Some (Some (i, f, msg'), c1)" and s: "store_request msg' c1 = Some c2"
  shows "initial_ok (control_client_requests c2) (ipc_channel c2) (Sending i) (refused - {i})"
proof -
  have len: "length (control_client_requests c) = kControlClientMaxRequests" using inv by (simp add: cc_inv_def protocol_ok_def)
  obtain p w2 where e: "i < kControlClientMaxRequests" "c1 = c\<lparr>control_client_requests := (control_client_requests c)[i := \<lparr>cr_promise = p, cr_in_use = True,
       cr_initial = (cr_initial (slot c i) \<or> request_or_response msg = kGetInitialMachineStateRequest)\<rparr>], cc_world := w2\<rparr>"
    using send_begin_spec [OF b len] by metis
  obtain ch where ch: "ipc_channel c = Some ch" "c2 = c1\<lparr>ipc_channel := Some (ch\<lparr>ccc_request := \<lparr>comms_empty = False, comms_msg = msg'\<rparr>\<rparr>)\<rparr>"
    using s by (auto simp: store_request_spec e(2))
  show ?thesis
    using ini ch e len unfolding initial_ok_def initial_arriving_def
    by (auto simp: getRequest_def nth_list_update split: if_splits)
qed

lemma initial_answered:
  assumes inv: "cc_inv c caller owed" and ini: "initial_ok (control_client_requests c) (ipc_channel c) caller refused"
    and ch: "ipc_channel c = Some ch" "getRequest ch" and adm: "answered_as ch msg cnt"
  shows "initial_ok (control_client_requests c) (Some (answered_channel msg cnt ch)) caller
    (if request_or_response msg = kInitialMachineStateNotSet then insert (fid msg) refused else refused)"
  unfolding initial_ok_def
proof (intro allI impI)
  let ?r = "if request_or_response msg = kInitialMachineStateNotSet then insert (fid msg) refused else refused"
  fix i assume i: "i < length (control_client_requests c)" "cr_in_use (slot c i) \<and> cr_initial (slot c i)"
  have k: "caller_ok ch caller" "places_ok (busy (control_client_requests c)) ch caller owed"
    using inv ch(1) by (simp_all add: cc_inv_def protocol_ok_def)
  have a: "initial_arriving (answered_channel msg cnt ch) = initial_arriving ch" "initial_result_count (answered_channel msg cnt ch) = cnt"
    by (simp_all add: initial_arriving_def answered_channel_def acknowledgeRequest_def set_request_def)
  have kinds: "caller = Asking \<longrightarrow> request_or_response (request ch) = kGetExecutionErrorRequest" "caller \<noteq> Idle"
    "caller = Sending j \<longrightarrow> fid (request ch) = j \<and> request_or_response (request ch) \<in> {kSetStateRequest, kGetInitialMachineStateRequest}" for j
    using k(1) ch(2) by auto
  have "cnt \<noteq> 0 \<or> initial_result_count ch = 0"
    using adm kinds by (cases caller) (auto simp: answered_as_def split: if_splits)
  moreover have "i \<in> refused \<or> initial_result_count ch \<noteq> 0 \<or> initial_arriving ch \<or> caller = Sending i" using ini i ch(1) by (auto simp: initial_ok_def)
  moreover have "i \<in> ?r \<or> cnt \<noteq> 0" if c: "caller = Sending i"
  proof -
    have "\<not> busy (control_client_requests c) i" using i by (simp add: busy_def)
    then have "\<not> undecided ch" using k(2) c by (auto simp: places_ok_def)
    then have "request_or_response (request ch) = kGetInitialMachineStateRequest" "fid (request ch) = i"
      using kinds(3) [of i] c ch(2) by (auto simp: undecided_def)
    then show ?thesis using adm by (auto simp: answered_as_def split: if_splits)
  qed
  ultimately show "i \<in> ?r \<or> (\<exists>ch'. Some (answered_channel msg cnt ch) = Some ch' \<and>
      (initial_result_count ch' \<noteq> 0 \<or> initial_arriving ch' \<or> caller = Sending i \<and> getRequest ch'))"
    unfolding option.inject using a by auto
qed

lemma initial_background:
  assumes inv: "cc_inv c caller owed" and ini: "initial_ok (control_client_requests c) (ipc_channel c) caller refused"
    and r: "run_turn api c = Some c1"
  shows "initial_ok (control_client_requests c1) (ipc_channel c1) caller refused"
proof -
  obtain ch where ch: "ipc_channel c = Some ch" using r by (auto simp: run_turn_def split: Option.bind_splits)
  show ?thesis
  proof (cases "comms_empty (ccc_response ch)")
    case True
    then show ?thesis using ini r ch by (auto simp: run_turn_def ccc_getResponse_def)
  next
    case False
    define msg where "msg = comms_msg (ccc_response ch)"
    define ch1 where "ch1 = ch\<lparr>ccc_response := (ccc_response ch)\<lparr>comms_empty := True\<rparr>\<rparr>"
    define c0 where "c0 = c\<lparr>ipc_channel := Some ch1\<rparr>"
    have d: "cc_dispatch api msg c0 = Some c1"
      using r ch False by (simp add: run_turn_def ccc_getResponse_def msg_def ch1_def c0_def)
    show ?thesis
    proof (cases "initial_arriving ch")
      case True
      then have "request_or_response msg \<in> {kInitialMachineStateNotSet, kInitialMachineStateSuccess, kInitialMachineStateFailed}"
        by (auto simp: initial_arriving_def msg_def)
      then obtain fulfil where "c1 = funcMcState fulfil c0" using d by (auto simp: cc_dispatch_def funcMcStateWrong_def funcMcStateSuccess_def)
      then show ?thesis by (auto simp: initial_ok_def funcMcState_def case_prod_beta fulfil_initial_eq split: if_splits)
    next
      case other: False
      have ok: "initial_ok (control_client_requests c) (Some ch1) caller refused"
        using ini ch other unfolding initial_ok_def by (auto simp: ch1_def getRequest_def)
      have code: "request_or_response msg \<notin> {kInitialMachineStateNotSet, kInitialMachineStateSuccess, kInitialMachineStateFailed}"
        using other False by (auto simp: initial_arriving_def msg_def)
      have "ipc_channel c1 = Some ch1 \<and> (\<forall>i < length (control_client_requests c1). cr_in_use (slot c1 i) \<and> cr_initial (slot c1 i) \<longrightarrow>
          i < length (control_client_requests c) \<and> cr_in_use (slot c i) \<and> cr_initial (slot c i))"
      proof (cases "final_code (request_or_response msg)")
        case True
        then have "arriving ch (fid msg)" using False by (simp add: arriving_def msg_def)
        then have b: "busy (control_client_requests c) (fid msg)" using inv ch by (simp add: cc_inv_def protocol_ok_def places_ok_def)
        then obtain fulfil where "c1 = upd_slot (fid msg) (\<lambda>r. r\<lparr>cr_in_use := False\<rparr>)
            (c0\<lparr>cc_world := fulfil (cr_promise (slot c0 (fid msg))) (cc_world c0)\<rparr>)"
          using dispatch_final [OF True, of c0] d by (auto simp: busy_def c0_def)
        then show ?thesis using b by (auto simp: upd_slot_def c0_def busy_def nth_list_update split: if_splits)
      next
        case False
        then have "c1 = c0 \<or> c1 = funcUtermination msg c0"
          using d code by (cases "request_or_response msg") (simp_all add: cc_dispatch_def final_code_def)
        then show ?thesis by (auto simp: funcUtermination_def c0_def)
      qed
      then show ?thesis using initial_okI [OF ok] by (metis (no_types, lifting))
    qed
  qed
qed

lemma reach_initial:
  assumes reach: "cc_reach api w0 c caller owed refused" and start: "\<forall>p \<in> known w0. fulfilled p w0 \<le> 1"
  shows "initial_ok (control_client_requests c) (ipc_channel c) caller refused"
  using reach
proof induction
  case (created mapped t ch b c)
  obtain rs w1 where n: "new_slots api kControlClientMaxRequests w0 = (rs, w1)" by fastforce
  then have "control_client_requests c = rs" using created by (auto simp: ControlClientImpl_new_def)
  then show ?case using new_slots_ok [OF start n] by (auto simp: initial_ok_def)
next
  case (called c owed refused msg i f msg' c1 c2)
  show ?case by (rule initial_called [OF reach_inv [OF called.hyps(1) start] called.IH called.hyps(3,4)])
next
  case failed
  then show ?case by (auto simp: errorFuture_def Let_def split: prod.splits)
next
  case asked
  then show ?case by (auto simp: store_request_spec initial_ok_def initial_arriving_def)
next
  case (answered c caller owed refused ch m k n ch1)
  obtain ans cnt where a: "ch1 = answered_channel ans cnt ch" "answered_as ch ans cnt"
    using serve_request_answers [OF answered.hyps(5,6,4)] answered.hyps(7) by auto
  then have "request ch1 = ans" by (simp add: answered_channel_def acknowledgeRequest_def set_request_def)
  then show ?case
    using initial_answered [OF reach_inv [OF answered.hyps(1) start] answered.IH answered.hyps(2,3) a(2)] a(1)
    by (cases "request_or_response ans = kInitialMachineStateNotSet") simp_all
next
  case (deferred c caller owed refused ch m k n ch1)
  have "deferred_channel ch ch1" by (rule serve_deferred_channel [OF deferred.hyps(4,5,3,6,7)])
  then show ?case
    using deferred.IH deferred.hyps(2) unfolding initial_ok_def by (auto simp: deferred_channel_def initial_arriving_def getRequest_def)
next
  case (sent c i owed refused msg c1)
  obtain ch where ch: "ipc_channel c = Some ch" "\<not> getRequest ch" "c1 = c\<lparr>ipc_channel := Some (ch\<lparr>nudge_LM_Handler := nudge_LM_Handler ch - 1\<rparr>)\<rparr>"
    using await_answer_spec [OF sent.hyps(2)] by metis
  have "ipc_channel (send_end api i msg c1) = ipc_channel c1" by (simp add: send_end_def upd_slot_def split: option.split)
  moreover have "initial_ok (control_client_requests c) (ipc_channel c1) Idle refused"
    using sent.IH ch by (auto simp: initial_ok_def initial_arriving_def)
  moreover have "control_client_requests c1 = control_client_requests c" by (simp add: ch(3))
  ultimately show ?case
    using initial_ok_release [of "control_client_requests c" "ipc_channel c1" Idle refused i]
    by (simp add: send_end_def upd_slot_def split: option.split)
next
  case (told c owed refused msg c1)
  then show ?case by (auto elim!: await_answer_spec simp: initial_ok_def initial_arriving_def)
next
  case responded
  then show ?case by (auto simp: initial_ok_def initial_arriving_def ccc_sendResponse_def getRequest_def split: if_splits)
next
  case (background c caller owed refused c1)
  show ?case by (rule initial_background [OF reach_inv [OF background.hyps(1) start] background.IH background.hyps(2)])
next
  case semaphore
  then show ?case by simp
qed

end

subsection \<open>A promise library\<close>

text \<open>A library that keeps the list of outcomes of every promise: \<open>None\<close> for a value, \<open>Some e\<close> for an error.\<close>

type_synonym outcomes = "nat \<times> (nat \<Rightarrow> ExecErrc option list)"

definition logging_api :: "(outcomes, nat, nat) promise_api" where
  "logging_api = \<lparr>new_promise = (\<lambda>(n, f). (n, Suc n, f(n := []))), get_future = (\<lambda>p w. (Some p, w)),
     set_value = (\<lambda>p (n, f). (n, f(p := f p @ [None]))), set_error = (\<lambda>p e (n, f). (n, f(p := f p @ [Some e])))\<rparr>"

definition log_known :: "outcomes \<Rightarrow> nat set" where
  "log_known w = {..<fst w}"

definition log_fulfilled :: "nat \<Rightarrow> outcomes \<Rightarrow> nat" where
  "log_fulfilled p w = length (snd w p)"

interpretation log: promise_laws logging_api log_known log_fulfilled
  by unfold_locales (auto simp: logging_api_def log_known_def log_fulfilled_def)

subsection \<open>The properties of the client\<close>

text \<open>
  (C12) The callers, the background thread and the handler of the launch manager (\<^const>\<open>serve_request\<close> and
  \<^const>\<open>serve_deferred\<close> of a process group manager in any state) work on one client in any order. What is assumed is that
  the launch manager sends a result of a transition only for a request that it has accepted and whose result it has not
  sent yet (the rule \<open>responded\<close> of \<open>cc_reach\<close>), and that it knows the initial result only as success or failure. Then
  no promise is ever fulfilled twice, a slot in use holds a promise that is still open, and it is known where the slot
  waits: a request for a state is with its caller, with the launch manager, or its result is in the response link; a
  request for the initial result is in the channel, or the launch manager still has a result to send to this client,
  or one is in the response link, or the request has been refused with \<^verbatim>\<open>kInitialMachineStateNotSet\<close>, which
  the client does not take for an error.
\<close>

theorem client_promises_once:
  assumes "promise_laws api known fulfilled" "\<forall>p \<in> known w0. fulfilled p w0 \<le> 1" "cc_reach api w0 c caller owed refused"
  shows "(\<forall>p \<in> known (cc_world c). fulfilled p (cc_world c) \<le> 1) \<and>
    (\<forall>i < length (control_client_requests c). cr_in_use (slot c i) \<longrightarrow>
       fulfilled (cr_promise (slot c i)) (cc_world c) = 0 \<and>
       (if cr_initial (slot c i)
        then i \<in> refused \<or> (\<exists>ch. ipc_channel c = Some ch \<and> (initial_result_count ch \<noteq> 0 \<or> initial_arriving ch \<or> caller = Sending i \<and> getRequest ch))
        else i \<in> owed \<or> (\<exists>ch. ipc_channel c = Some ch \<and> (arriving ch i \<or> caller = Sending i \<and> undecided ch))))"
proof -
  have inv: "promise_laws.cc_inv known fulfilled c caller owed" by (rule promise_laws.reach_inv [OF assms(1,3,2)])
  have ini: "initial_ok (control_client_requests c) (ipc_channel c) caller refused" by (rule promise_laws.reach_initial [OF assms(1,3,2)])
  have ok: "promise_laws.slots_ok known fulfilled (control_client_requests c) (cc_world c)"
    and pr: "protocol_ok (control_client_requests c) (ipc_channel c) caller owed"
    using inv by (simp_all add: promise_laws.cc_inv_def [OF assms(1)])
  have "cr_initial (slot c i) \<or> i \<in> owed \<or> (\<exists>ch. ipc_channel c = Some ch \<and> (arriving ch i \<or> caller = Sending i \<and> undecided ch))"
    if "i < length (control_client_requests c)" "cr_in_use (slot c i)" for i
    using pr that by (cases "ipc_channel c") (auto simp: protocol_ok_def places_ok_def busy_def)
  then show ?thesis using ok ini unfolding promise_laws.slots_ok_def [OF assms(1)] initial_ok_def by (auto split: if_splits)
qed

definition demo_msg :: ControlClientMessage where
  "demo_msg = \<lparr>originating_control_client = ControlClientID_new, request_or_response = kSetStateRequest,
     process_group_state = \<lparr>id_pg_name = \<lparr>hash_id = 1\<rparr>, id_pg_state_name = \<lparr>hash_id = 2\<rparr>\<rparr>, msg_execution_error_code = 0\<rparr>"

theorem client_promises_once_witness:
  "\<exists>c. cc_reach logging_api (0, \<lambda>_. []) c (Sending 0) {} {} \<and> cr_in_use (slot c 0) \<and> log_fulfilled (cr_promise (slot c 0)) (cc_world c) = 0"
proof -
  let ?api = "logging_api :: (outcomes, nat, nat) promise_api" and ?w0 = "(0, \<lambda>_. []) :: outcomes"
  define ch where "ch = ccc_initialize \<lparr>ccc_request = \<lparr>comms_empty = True, comms_msg = demo_msg\<rparr>,
    ccc_response = \<lparr>comms_empty = True, comms_msg = demo_msg\<rparr>, initial_result_count = 0, nudge_LM_Handler = 0, ipc_parent = False\<rparr>"
  obtain rs w1 where n: "new_slots ?api kControlClientMaxRequests ?w0 = (rs, w1)" by (meson surj_pair)
  define c where "c = \<lparr>undefined_state_events = [], control_client_requests = rs, ipc_request_semaphore = 1, ipc_response_thread_running = True,
    ipc_channel = Some ch, cc_world = w1\<rparr>"
  have start: "\<forall>p \<in> log_known ?w0. log_fulfilled p ?w0 \<le> 1" by (simp add: log_known_def)
  have "ControlClientImpl_new ?api False True \<lparr>blk_comms_type = kControlClient, blk_channel = ch\<rparr> ?w0 = Some (True, c)"
    using n by (simp add: ControlClientImpl_new_def initializeControlClientChannel_def c_def)
  then have idle: "cc_reach ?api ?w0 c Idle {} {}" unfolding ch_def by (rule cc_reach.created)
  have rs: "length rs = Suc 511" "\<forall>r \<in> set rs. \<not> cr_in_use r"
    using log.new_slots_ok [OF start n] by (simp_all add: kControlClientMaxRequests_def)
  then obtain r rest where r: "rs = r # rest" "\<not> cr_in_use r" by (cases rs) auto
  obtain c1 where c1: "send_begin ?api demo_msg c = Some (Some (0, fst w1, demo_msg), c1)" "ipc_channel c1 = Some ch"
    "cr_in_use (slot c1 0)" "control_client_requests c1 \<noteq> []"
    using r by (cases w1) (simp add: send_begin_def c_def logging_api_def upd_slot_def demo_msg_def ControlClientID_new_def)
  obtain c2 where c2: "store_request demo_msg c1 = Some c2" "cr_in_use (slot c2 0)" "length (control_client_requests c2) > 0"
    using c1(2-4) by (auto simp: store_request_spec)
  have "request_or_response demo_msg \<in> {kSetStateRequest, kGetInitialMachineStateRequest}" by (simp add: demo_msg_def)
  then have "cc_reach ?api ?w0 c2 (Sending 0) {} ({} - {0})" by (rule cc_reach.called [OF idle _ c1(1) c2(1)])
  then have "cc_reach ?api ?w0 c2 (Sending 0) {} {}" by simp
  then show ?thesis using client_promises_once [OF log.promise_laws_axioms start] c2(2,3) by blast
qed

text \<open>What a call does when the request link is free and the launch manager answers with \<open>f\<close>.\<close>

definition answering :: "(ControlClientMessage \<Rightarrow> ControlClientMessage) \<Rightarrow> ('p, 'w) cc_others" where
  "answering f c = map_option (\<lambda>ch. c\<lparr>ipc_channel := Some (acknowledgeRequest (set_request f ch))\<rparr>) (ipc_channel c)"

lemma claim_slot_full: "claim_slot rs = (i, rs') \<Longrightarrow> length rs' \<le> i \<longleftrightarrow> (\<forall>r \<in> set rs. cr_in_use r)"
  by (induction rs arbitrary: i rs') (auto simp: Let_def split: if_splits prod.splits)

lemma claim_slot_first: "claim_slot rs = (i, rs') \<Longrightarrow> j < i \<Longrightarrow> j < length rs \<Longrightarrow> cr_in_use (rs ! j)"
  by (induction rs arbitrary: i rs' j) (auto simp: Let_def nth_Cons split: if_splits prod.splits nat.splits)

lemma sendRequest_answered:
  assumes "ipc_channel c = Some ch"
  shows "cc_sendRequest (answering f) msg c =
    Some (f msg, c\<lparr>ipc_channel := Some (ch\<lparr>ccc_request := \<lparr>comms_empty = True, comms_msg = f msg\<rparr>\<rparr>)\<rparr>)"
  using assms by (simp add: cc_sendRequest_def store_request_def await_answer_def answering_def set_request_def acknowledgeRequest_def)



end
