(* ===== verification/Client_Manager.thy ===== *)
theory Client_Manager
  imports Manager_Service Client_Protocol
begin

section \<open>Control client and process group manager together\<close>

text \<open>
  The channel of a control client is the one that the process group manager has in the node of its process. The outcome
  of a transition travels from the graph through the manager and the channel to the promise of the request.
\<close>

lemma pm_getProcessInfoNode_bounds:
  "pm_getProcessInfoNode a b m = Some (k, n) \<Longrightarrow> k < length (process_groups m) \<and> n < length (nodes (group m k))"
  by (auto simp: pm_getProcessInfoNode_def getProcessInfoNode_def split: if_splits)

lemma pm_sendResponse_delivers:
  assumes "pm_getProcessInfoNode (unat (cc_process_group_index (originating_control_client msg)))
      (unat (cc_process_index (originating_control_client msg))) m = Some (k, n)"
    "channel m k n = Some ch" "comms_empty (ccc_response ch)"
  shows "fst (pm_sendResponse msg m)" "channel (snd (pm_sendResponse msg m)) k n =
    Some (ch\<lparr>ccc_response := \<lparr>comms_empty = False, comms_msg = msg\<rparr>, nudge_LM_Handler := nudge_LM_Handler ch + 1\<rparr>)"
    "length (process_groups (snd (pm_sendResponse msg m))) = length (process_groups m)"
  using assms pm_getProcessInfoNode_bounds [OF assms(1)]
  by (simp_all add: pm_sendResponse_def ccc_sendResponse_def channel_upd_channel)

lemma pm_sendResponse_full:
  assumes "channel m k n = Some ch" "\<not> comms_empty (ccc_response ch)"
  shows "channel (snd (pm_sendResponse msg m)) k n = Some ch"
proof (cases "pm_getProcessInfoNode (unat (cc_process_group_index (originating_control_client msg)))
      (unat (cc_process_index (originating_control_client msg))) m")
  case None
  then show ?thesis using assms by (simp add: pm_sendResponse_def)
next
  case (Some kn)
  obtain k' n' where kn: "kn = (k', n')" by fastforce
  note b = pm_getProcessInfoNode_bounds [OF Some [unfolded kn]]
  show ?thesis
  proof (cases "(k', n') = (k, n)")
    case True
    then show ?thesis using assms Some kn b by (simp add: pm_sendResponse_def ccc_sendResponse_def channel_upd_channel)
  next
    case False
    then have ne: "(k, n) \<noteq> (k', n')" by blast
    show ?thesis
      using assms Some kn by (simp add: pm_sendResponse_def Let_def channel_upd_other [OF ne] split: option.split prod.split)
  qed
qed

lemma controlClientResponses_event:
  assumes k: "k < length (process_groups m)" and e: "event (group m k) \<noteq> kNotSet"
    and node: "pm_getProcessInfoNode (unat (cc_process_group_index (last_state_manager (group m k))))
      (unat (cc_process_index (last_state_manager (group m k)))) m = Some (k', n)"
    and ch: "channel m k' n = Some ch" "comms_empty (ccc_response ch)"
  shows "channel (controlClientResponses k m) k' n = Some (ch\<lparr>ccc_response := \<lparr>comms_empty = False,
    comms_msg = \<lparr>originating_control_client = last_state_manager (group m k), request_or_response = event (group m k),
      process_group_state = requested_state (group m k), msg_execution_error_code = last_execution_error (group m k)\<rparr>\<rparr>,
    nudge_LM_Handler := nudge_LM_Handler ch + 1\<rparr>)"
proof -
  let ?msg = "\<lparr>originating_control_client = last_state_manager (group m k), request_or_response = event (group m k),
      process_group_state = requested_state (group m k), msg_execution_error_code = last_execution_error (group m k)\<rparr>"
  define m1 where "m1 = upd_group k (clearPendingEvent (event (group m k))) (snd (pm_sendResponse ?msg m))"
  let ?ch = "ch\<lparr>ccc_response := \<lparr>comms_empty = False, comms_msg = ?msg\<rparr>, nudge_LM_Handler := nudge_LM_Handler ch + 1\<rparr>"
  have "pm_getProcessInfoNode (unat (cc_process_group_index (originating_control_client ?msg)))
      (unat (cc_process_index (originating_control_client ?msg))) m = Some (k', n)" using node by simp
  note d = pm_sendResponse_delivers [OF this ch]
  have c1: "channel m1 k' n = Some ?ch"
    using d(2) unfolding m1_def by (subst channel_upd_group) (simp_all add: clearPendingEvent_def)
  let ?m2 = "snd (pm_sendResponse (cancel_message (group m1 k)) m1)"
  have c2: "channel ?m2 k' n = Some ?ch" by (rule pm_sendResponse_full [OF c1]) simp
  have u: "channel (upd_group k (\<lambda>g. g\<lparr>cancel_message := (cancel_message g)\<lparr>request_or_response := kNotSet\<rparr>\<rparr>) ?m2) k' n = Some ?ch"
    using c2 by (subst channel_upd_group) simp_all
  have "controlClientResponses k m = (if request_or_response (cancel_message (group m1 k)) \<noteq> kNotSet
      then (if fst (pm_sendResponse (cancel_message (group m1 k)) m1)
            then upd_group k (\<lambda>g. g\<lparr>cancel_message := (cancel_message g)\<lparr>request_or_response := kNotSet\<rparr>\<rparr>) ?m2 else ?m2)
      else m1)"
    unfolding controlClientResponses_def Let_def case_prod_beta m1_def using e d(1) by simp
  then show ?thesis using c1 c2 u by (simp split: if_split)
qed

text \<open>
  (C13) The outcome of a transition that is pending in a graph reaches the request of the state manager that asked last:
  the manager puts it into the channel of that process, and the next turn of the background thread of the client
  fulfils the promise of that request, with the error that the outcome stands for, and frees its slot.
\<close>

theorem outcome_delivered:
  assumes "k < length (process_groups m)" "event (group m k) = code" "final_code code"
    and "pm_getProcessInfoNode (unat (cc_process_group_index (last_state_manager (group m k))))
      (unat (cc_process_index (last_state_manager (group m k)))) m = Some (k', n)"
    and "channel m k' n = Some ch" "comms_empty (ccc_response ch)"
    and "i = unat (cc_future_id (last_state_manager (group m k)))" "i < length (control_client_requests c)"
  shows "\<exists>c'. run_turn api (c\<lparr>ipc_channel := channel (controlClientResponses k m) k' n\<rparr>) = Some c' \<and>
    control_client_requests c' = (control_client_requests c)[i := (slot c i)\<lparr>cr_in_use := False\<rparr>] \<and>
    cc_world c' = (case scErrorMap code of Some err \<Rightarrow> set_error api (cr_promise (slot c i)) err (cc_world c)
                   | None \<Rightarrow> set_value api (cr_promise (slot c i)) (cc_world c)) \<and>
    (\<exists>ch'. ipc_channel c' = Some ch' \<and> comms_empty (ccc_response ch'))"
proof -
  have e: "event (group m k) \<noteq> kNotSet" using assms(2,3) by (auto simp: final_code_def)
  show ?thesis
    using controlClientResponses_event [OF assms(1) e assms(4-6)] assms(2,3,7,8)
    by (cases code) (simp_all add: run_turn_def ccc_getResponse_def cc_dispatch_def funcSetError_def funcSetValue_def upd_slot_def final_code_def Let_def)
qed

definition demo_client :: "(nat, outcomes) ControlClientImpl" where
  "demo_client = \<lparr>undefined_state_events = [],
     control_client_requests = [\<lparr>cr_promise = 0, cr_in_use = True, cr_initial = False\<rparr>, \<lparr>cr_promise = 1, cr_in_use = False, cr_initial = False\<rparr>],
     ipc_request_semaphore = 1, ipc_response_thread_running = True, ipc_channel = Some idle_channel, cc_world = (2, \<lambda>_. [])\<rparr>"

definition asking_manager :: "(nat, nat) ProcessGroupManager" where
  "asking_manager = demo_manager (client_graph\<lparr>g_state := GS_InTransition, nodes_in_flight := 1, event := kNotSet,
     last_state_manager := \<lparr>cc_process_group_index = 0, cc_process_index = 1, cc_future_id = 0\<rparr>\<rparr>) None 0"

definition transition_done :: "(nat, nat) ProcessGroupManager \<Rightarrow> (nat, nat) ProcessGroupManager" where
  "transition_done = upd_group 0 (\<lambda>g. setPendingEvent kSetStateSuccess (g\<lparr>g_state := GS_Success, nodes_in_flight := 0\<rparr>))"

theorem outcome_delivered_witness:
  "\<exists>c'. run_turn logging_api (demo_client\<lparr>ipc_channel := channel (controlClientResponses 0 (transition_done asking_manager)) 0 1\<rparr>) = Some c' \<and>
     snd (cc_world c') 0 = [None] \<and> \<not> cr_in_use (slot c' 0)"
proof -
  let ?m = "transition_done asking_manager"
  have h: "0 < length (process_groups ?m)" "event (group ?m 0) = kSetStateSuccess" "final_code kSetStateSuccess"
    "pm_getProcessInfoNode (unat (cc_process_group_index (last_state_manager (group ?m 0))))
      (unat (cc_process_index (last_state_manager (group ?m 0)))) ?m = Some (0, 1)"
    "channel ?m 0 1 = Some idle_channel" "comms_empty (ccc_response idle_channel)"
    "0 = unat (cc_future_id (last_state_manager (group ?m 0)))" "0 < length (control_client_requests demo_client)"
    by code_simp+
  show ?thesis
    using outcome_delivered [OF h, of logging_api] by (force simp: demo_client_def logging_api_def)
qed

text \<open>
  A client asks a second time for the state of a transition under way. The second request is refused and its promise gets the
  error, but the manager sends the outcome of the transition to it: the promise of the refused request is fulfilled
  a second time, and the first request, which was accepted, never gets its result and keeps its slot.
\<close>

theorem refused_request_steals_result:
  "do { (claimed, c) \<leftarrow> send_begin logging_api
          (cc_msg kSetStateRequest 0 (id_pg_state_name (requested_state (group asking_manager 0)))) demo_client;
        (i, f, msg) \<leftarrow> claimed;
        c \<leftarrow> store_request msg c;
        ch \<leftarrow> ipc_channel c;
        let m = serve_node 0 1 (upd_channel 0 1 (\<lambda>_. ch) asking_manager);
        (answer, c) \<leftarrow> await_answer (c\<lparr>ipc_channel := channel m 0 1\<rparr>);
        ch \<leftarrow> ipc_channel c;
        let m = controlClientResponses 0 (transition_done (upd_channel 0 1 (\<lambda>_. ch) m));
        c \<leftarrow> run_turn logging_api (send_end logging_api i answer c\<lparr>ipc_channel := channel m 0 1\<rparr>);
        Some (map cr_promise (control_client_requests c), map cr_in_use (control_client_requests c), snd (cc_world c) 0, snd (cc_world c) 2, event (group m 0)) }
   = Some ([0, 2], [True, False], [], [Some kInTransitionToSameState, None], kNotSet)"
  by code_simp

end
