(* ===== verification/Process_Launcher.thy ===== *)
theory Process_Launcher
  imports Control_Client
begin

section \<open>Starting processes\<close>

text \<open>
  Models \<^verbatim>\<open>process_group_manager/processlauncher.cpp\<close> with the wrappers of
  \<^verbatim>\<open>common/src/internal/osal/linux\<close> that it calls: what the launch manager does to start a process, and what the
  forked child does to itself before it executes the program.

  The attributes of a process that the operating system keeps are a record. The child carries a table
  of file descriptors with their close-on-exec flag. Whether a system call succeeds is a function of the
  call and the state of the process (\<open>permits\<close>), as it depends on its privileges. A child that leaves by
  \<^verbatim>\<open>sysexit(EXIT_FAILURE)\<close> has the result \<open>None\<close>.
\<close>

subsection \<open>The process as the operating system sees it\<close>

datatype FdObject = Sync_block | Nudge_semaphore | Dummy_memory | Other_file nat

record FdEntry =
  fd_object :: FdObject
  fd_cloexec :: bool

record Child =
  ch_fds :: "int \<Rightarrow> FdEntry option"
  ch_pid :: int
  ch_pgid :: int
  ch_sched :: "SchedulingPolicy \<times> int"
  ch_affinity :: "nat set"
  ch_uid :: u32
  ch_gid :: u32
  ch_groups :: "u32 list"
  ch_cwd :: string
  ch_limits :: OsalLimits
  ch_sync_pid :: "int option"

datatype Syscall = Sys_fcntl int | Sys_shm_open | Sys_shm_unlink | Sys_setpgid | Sys_sched_setscheduler "SchedulingPolicy \<times> int"
  | Sys_setaffinity "nat set" | Sys_setgid u32 | Sys_setgroups "u32 list" | Sys_setuid u32 | Sys_chdir string
  | Sys_setrlimit_data u64 | Sys_setrlimit_as u64 | Sys_setrlimit_stack u64 | Sys_setrlimit_cpu u64 | Sys_execve "string option"

type_synonym permits = "Syscall \<Rightarrow> Child \<Rightarrow> bool"

definition sync_fd :: int where "sync_fd = 3"

definition control_client_handler_nudge_fd :: int where "control_client_handler_nudge_fd = 4"

definition fd_close :: "int \<Rightarrow> Child \<Rightarrow> Child" where
  "fd_close fd c = c\<lparr>ch_fds := (ch_fds c)(fd := None)\<rparr>"

text \<open>
  \<^verbatim>\<open>dup2\<close> makes the new descriptor refer to the same object without close-on-exec; it does nothing if the two are
  equal and leaves the table alone if the old one is not open. \<^verbatim>\<open>fcntl(fd, F_SETFD, 0)\<close> clears close-on-exec.
\<close>

definition fd_dup2 :: "int \<Rightarrow> int \<Rightarrow> Child \<Rightarrow> int \<times> Child" where
  "fd_dup2 old new c =
     (case ch_fds c old of
        None \<Rightarrow> (- 1, c)
      | Some e \<Rightarrow> (new, if old = new then c else c\<lparr>ch_fds := (ch_fds c)(new \<mapsto> e\<lparr>fd_cloexec := False\<rparr>)\<rparr>))"

definition fd_setfd0 :: "permits \<Rightarrow> int \<Rightarrow> Child \<Rightarrow> bool \<times> Child" where
  "fd_setfd0 permits fd c =
     (case ch_fds c fd of
        Some e \<Rightarrow> if permits (Sys_fcntl fd) c then (True, c\<lparr>ch_fds := (ch_fds c)(fd \<mapsto> e\<lparr>fd_cloexec := False\<rparr>)\<rparr>) else (False, c)
      | None \<Rightarrow> (False, c))"

fun lowest_free :: "nat \<Rightarrow> int \<Rightarrow> (int \<Rightarrow> FdEntry option) \<Rightarrow> int" where
  "lowest_free 0 n t = n"
| "lowest_free (Suc k) n t = (if t n = None then n else lowest_free k (n + 1) t)"

text \<open>\<^verbatim>\<open>shm_open\<close> uses the lowest free descriptor, with close-on-exec. The table has \<open>OPEN_MAX\<close> places.\<close>

definition OPEN_MAX :: nat where "OPEN_MAX = 1024"

definition fd_shm_open :: "FdObject \<Rightarrow> Child \<Rightarrow> int \<times> Child" where
  "fd_shm_open obj c =
     (let fd = lowest_free OPEN_MAX 0 (ch_fds c) in (fd, c\<lparr>ch_fds := (ch_fds c)(fd \<mapsto> \<lparr>fd_object = obj, fd_cloexec = True\<rparr>)\<rparr>))"

subsection \<open>The child process\<close>

text \<open>The descriptor of the shared block and its communication type, if the process has one.\<close>

definition handleComms :: "permits \<Rightarrow> int \<Rightarrow> CommsType option \<Rightarrow> Child \<Rightarrow> Child option" where
  "handleComms permits fd shared_block c =
     (case shared_block of
        Some t \<Rightarrow>
          (let (_, c) = fd_dup2 fd sync_fd c; c = c\<lparr>ch_sync_pid := Some (ch_pid c)\<rparr>
           in case t of
                kNoComms \<Rightarrow> Some c
              | kReporting \<Rightarrow>
                  (let (done, c) = fd_setfd0 permits sync_fd c
                   in if \<not> done then None else Some (fd_close control_client_handler_nudge_fd c))
              | kControlClient \<Rightarrow>
                  (let (done, c) = fd_setfd0 permits sync_fd c
                   in if \<not> done then None else Some (snd (fd_setfd0 permits control_client_handler_nudge_fd c)))
              | kLaunchManager \<Rightarrow> Some c)
      | None \<Rightarrow>
          (let c = fd_close control_client_handler_nudge_fd (fd_close sync_fd c)
           in if \<not> permits Sys_shm_open c then None
              else (let c = snd (fd_shm_open Dummy_memory c) in if \<not> permits Sys_shm_unlink c then None else Some c)))"

text \<open>\<^verbatim>\<open>setaffinity\<close> builds the set of processors from the bits of the mask.\<close>

definition setaffinity_mask :: "u32 \<Rightarrow> nat set" where
  "setaffinity_mask cpumask = set (filter (\<lambda>i. bit cpumask i) [0..<32])"

definition setaffinity :: "permits \<Rightarrow> u32 \<Rightarrow> Child \<Rightarrow> bool \<times> Child" where
  "setaffinity permits cpumask c =
     (if permits (Sys_setaffinity (setaffinity_mask cpumask)) c then (True, c\<lparr>ch_affinity := setaffinity_mask cpumask\<rparr>) else (False, c))"

definition clamp_priority :: "(SchedulingPolicy \<Rightarrow> int) \<Rightarrow> (SchedulingPolicy \<Rightarrow> int) \<Rightarrow> OsalConfig \<Rightarrow> int" where
  "clamp_priority prio_min prio_max config =
     (if scheduling_priority config < prio_min (scheduling_policy config) then prio_min (scheduling_policy config)
      else if scheduling_priority config > prio_max (scheduling_policy config) then prio_max (scheduling_policy config)
      else scheduling_priority config)"

text \<open>All calls are made even if an earlier one has failed; the result says whether all of them succeeded.\<close>

definition attempt :: "permits \<Rightarrow> Syscall \<Rightarrow> (Child \<Rightarrow> Child) \<Rightarrow> OsalReturnType \<times> Child \<Rightarrow> OsalReturnType \<times> Child" where
  "attempt permits call f = (\<lambda>(r, c). if permits call c then (r, f c) else (Osal_kFail, c))"

definition setSchedulingAndSecurity ::
  "permits \<Rightarrow> (SchedulingPolicy \<Rightarrow> int) \<Rightarrow> (SchedulingPolicy \<Rightarrow> int) \<Rightarrow> OsalConfig \<Rightarrow> Child \<Rightarrow> OsalReturnType \<times> Child"
where
  "setSchedulingAndSecurity permits prio_min prio_max config c =
     (let s = (Osal_kSuccess, c);
          s = (if comms_type config \<noteq> kLaunchManager then attempt permits Sys_setpgid (\<lambda>c. c\<lparr>ch_pgid := ch_pid c\<rparr>) s else s);
          sched = (scheduling_policy config, clamp_priority prio_min prio_max config);
          s = attempt permits (Sys_sched_setscheduler sched) (\<lambda>c. c\<lparr>ch_sched := sched\<rparr>) s;
          s = (case setaffinity permits (cpu_mask config) (snd s) of (done, c) \<Rightarrow> (if done then fst s else Osal_kFail, c));
          s = attempt permits (Sys_setgid (oc_gid config)) (\<lambda>c. c\<lparr>ch_gid := oc_gid config\<rparr>) s;
          s = (if length (supplementary_gids config) > 0
               then attempt permits (Sys_setgroups (supplementary_gids config)) (\<lambda>c. c\<lparr>ch_groups := supplementary_gids config\<rparr>) s else s)
      in attempt permits (Sys_setuid (oc_uid config)) (\<lambda>c. c\<lparr>ch_uid := oc_uid config\<rparr>) s)"

text \<open>\<^verbatim>\<open>dirname\<close> of the C library.\<close>

definition dirname :: "string \<Rightarrow> string" where
  "dirname path =
     (let q = dropWhile (\<lambda>x. x = CHR ''/'') (rev path)
      in if q = [] then (if path = [] then ''.'' else ''/'')
         else (let q = dropWhile (\<lambda>x. x \<noteq> CHR ''/'') q
               in if q = [] then ''.''
                  else (let q = dropWhile (\<lambda>x. x = CHR ''/'') q in if q = [] then ''/'' else rev q)))"

definition PATH_MAX :: nat where "PATH_MAX = 4096"

definition changeCurrentWorkingDirectory :: "permits \<Rightarrow> OsalConfig \<Rightarrow> Child \<Rightarrow> Child option" where
  "changeCurrentWorkingDirectory permits config c =
     (if length (executable_path config) \<ge> PATH_MAX then None
      else if \<not> permits (Sys_chdir (dirname (executable_path config))) c then None
      else Some (c\<lparr>ch_cwd := dirname (executable_path config)\<rparr>))"

definition set_limit :: "permits \<Rightarrow> (u64 \<Rightarrow> Syscall) \<Rightarrow> u64 \<Rightarrow> (OsalLimits \<Rightarrow> OsalLimits) \<Rightarrow> Child \<Rightarrow> Child option" where
  "set_limit permits call v f c =
     (if v \<noteq> 0 then (if permits (call v) c then Some (c\<lparr>ch_limits := f (ch_limits c)\<rparr>) else None) else Some c)"

definition implementMemoryResourceLimits :: "permits \<Rightarrow> OsalConfig \<Rightarrow> Child \<Rightarrow> Child option" where
  "implementMemoryResourceLimits permits config c = do {
     let l = resource_limits config;
     c \<leftarrow> set_limit permits Sys_setrlimit_data (lim_data l) (\<lambda>x. x\<lparr>lim_data := lim_data l\<rparr>) c;
     c \<leftarrow> set_limit permits Sys_setrlimit_as (lim_as l) (\<lambda>x. x\<lparr>lim_as := lim_as l\<rparr>) c;
     c \<leftarrow> set_limit permits Sys_setrlimit_stack (lim_stack l) (\<lambda>x. x\<lparr>lim_stack := lim_stack l\<rparr>) c;
     set_limit permits Sys_setrlimit_cpu (lim_cpu l) (\<lambda>x. x\<lparr>lim_cpu := lim_cpu l\<rparr>) c
   }"

text \<open>The wrapper for Linux accepts every policy and does nothing.\<close>

definition setSecurityPolicy :: "string \<Rightarrow> Child \<Rightarrow> int \<times> Child" where
  "setSecurityPolicy policy c = (0, c)"

definition changeSecurityPolicy :: "OsalConfig \<Rightarrow> Child \<Rightarrow> Child option" where
  "changeSecurityPolicy config c =
     (if security_policy config \<noteq> ''''
      then (let (r, c) = setSecurityPolicy (security_policy config) c in if r \<noteq> 0 then None else Some c)
      else Some c)"

text \<open>The program that is executed, its arguments and environment, and the process it runs in: the descriptors with close-on-exec are gone.\<close>

record Image =
  im_path :: "string option"
  im_argv :: "string option list"
  im_envp :: "string option list"
  im_process :: Child

definition exec_fds :: "(int \<Rightarrow> FdEntry option) \<Rightarrow> int \<Rightarrow> FdEntry option" where
  "exec_fds t fd = (case t fd of Some e \<Rightarrow> if fd_cloexec e then None else Some e | None \<Rightarrow> None)"

definition handleChildProcess ::
  "permits \<Rightarrow> (SchedulingPolicy \<Rightarrow> int) \<Rightarrow> (SchedulingPolicy \<Rightarrow> int) \<Rightarrow> OsalConfig \<Rightarrow> int \<Rightarrow> CommsType option \<Rightarrow> Child \<Rightarrow> Image option"
where
  "handleChildProcess permits prio_min prio_max config fd shared_block c = do {
     c \<leftarrow> handleComms permits fd shared_block c;
     let (r, c) = setSchedulingAndSecurity permits prio_min prio_max config c;
     (if r \<noteq> Osal_kSuccess then None
      else do {
        c \<leftarrow> changeCurrentWorkingDirectory permits config c;
        c \<leftarrow> implementMemoryResourceLimits permits config c;
        c \<leftarrow> changeSecurityPolicy config c;
        (if permits (Sys_execve (oc_argv config ! 0)) c
         then Some \<lparr>im_path = oc_argv config ! 0, im_argv = takeWhile (\<lambda>a. a \<noteq> None) (oc_argv config),
                im_envp = takeWhile (\<lambda>a. a \<noteq> None) (oc_envp config), im_process = c\<lparr>ch_fds := exec_fds (ch_fds c)\<rparr>\<rparr>
         else None)
      })
   }"

subsection \<open>The launch manager\<close>

text \<open>
  The shared memory of a process that communicates: the semaphores, the process identifier, the type and, for a
  control client, the channel. The outcome of the system calls is given; \<open>fork\<close> yields the identifier of
  the new process in the launch manager, \<open>0\<close> in the child and a negative value if it fails.
\<close>

record IpcCommsSync =
  reply_sync :: nat
  send_sync :: nat
  sync_pid :: int
  sync_comms_type :: CommsType
  sync_channel :: "ControlClientChannel option"

record LaunchCalls =
  lc_access :: bool
  lc_shm_open :: int
  lc_ftruncate :: bool
  lc_mmap :: bool
  lc_sem_init_send :: bool
  lc_sem_init_reply :: bool
  lc_fork :: int

definition getCommsObject :: "bool \<Rightarrow> IpcCommsSync \<Rightarrow> IpcCommsSync option" where
  "getCommsObject mapped memory = (if mapped then Some memory else None)"

text \<open>
  Memory of an object that \<^verbatim>\<open>ftruncate\<close> has not extended has no pages: reading or writing it faults, and the
  operation has no result (\<open>None\<close>).
\<close>

definition initializeControlClient :: "LaunchCalls \<Rightarrow> ControlClientChannel \<Rightarrow> IpcCommsSync \<Rightarrow> IpcCommsSync option option" where
  "initializeControlClient calls raw memory =
     (if lc_mmap calls \<and> \<not> lc_ftruncate calls then None
      else Some (case initializeControlClientChannel (lc_mmap calls) True \<lparr>blk_comms_type = sync_comms_type memory, blk_channel = raw\<rparr> of
                   None \<Rightarrow> None
                 | Some blk \<Rightarrow> Some (memory\<lparr>sync_comms_type := blk_comms_type blk, sync_channel := Some (ccc_initialize (blk_channel blk))\<rparr>)))"

definition initializeSemaphores :: "LaunchCalls \<Rightarrow> IpcCommsSync \<Rightarrow> bool \<times> IpcCommsSync" where
  "initializeSemaphores calls b =
     (let (r, send) = sem_init (lc_sem_init_send calls) 0 (send_sync b); b = b\<lparr>send_sync := send\<rparr>
      in if r = Osal_kFail then (False, b)
         else (let (r, reply) = sem_init (lc_sem_init_reply calls) 0 (reply_sync b); b = b\<lparr>reply_sync := reply\<rparr>
               in (r \<noteq> Osal_kFail, b)))"

text \<open>The result is the outcome, the block and the counter of the names.\<close>

definition setupComms ::
  "LaunchCalls \<Rightarrow> ControlClientChannel \<Rightarrow> IpcCommsSync \<Rightarrow> OsalConfig \<Rightarrow> u32 \<Rightarrow> (bool \<times> IpcCommsSync option \<times> u32) option"
where
  "setupComms calls raw memory config shm_name_counter =
     (let counter = shm_name_counter + 1
      in if lc_shm_open calls < 0 then Some (False, None, counter)
         else do {
           let comms_result = lc_ftruncate calls;
           block \<leftarrow> (if comms_type config = kControlClient then initializeControlClient calls raw memory
                     else Some (getCommsObject (lc_mmap calls) memory));
           (case block of
              None \<Rightarrow> Some (False, None, counter)
            | Some b \<Rightarrow>
                if \<not> lc_ftruncate calls then None
                else (let b = b\<lparr>sync_comms_type := comms_type config\<rparr>; (inited, b) = initializeSemaphores calls b
                      in Some (if \<not> inited then False else comms_result, Some b, counter)))
         })"

text \<open>\<^verbatim>\<open>startProcess\<close> in the launch manager: the outcome, the process identifier, the block and the counter.\<close>

definition startProcess ::
  "LaunchCalls \<Rightarrow> ControlClientChannel \<Rightarrow> IpcCommsSync \<Rightarrow> OsalConfig option \<Rightarrow> int \<times> IpcCommsSync option \<Rightarrow> u32 \<Rightarrow>
   (OsalReturnType \<times> int \<times> IpcCommsSync option \<times> u32) option"
where
  "startProcess calls raw memory config out counter =
     (case config of
        None \<Rightarrow> Some (Osal_kFail, fst out, snd out, counter)
      | Some config \<Rightarrow>
          if executable_path config \<noteq> '''' \<and> oc_argv config ! 0 \<noteq> None
          then (if \<not> lc_access calls then Some (Osal_kFail, fst out, snd out, counter)
                else do {
                  (comms_result, block, counter) \<leftarrow>
                    (if comms_type config \<noteq> kNoComms then setupComms calls raw memory config counter else Some (True, None, counter));
                  Some (if comms_result
                        then (if lc_fork calls > 0 then (Osal_kSuccess, lc_fork calls, block, counter)
                              else (Osal_kFail, lc_fork calls, block, counter))
                        else (Osal_kFail, - 1, block, counter))
                })
          else Some (Osal_kFail, fst out, snd out, counter))"

text \<open>The outcome of \<^verbatim>\<open>kill\<close> and of \<^verbatim>\<open>wait\<close> is given.\<close>

definition requestTermination :: "bool \<Rightarrow> int \<Rightarrow> OsalReturnType" where
  "requestTermination killed pid = (if pid > 0 then (if killed then Osal_kSuccess else Osal_kFail) else Osal_kFail)"

definition forceTermination :: "bool \<Rightarrow> int \<Rightarrow> OsalReturnType" where
  "forceTermination killed pid = (if pid > 0 then (if killed then Osal_kSuccess else Osal_kFail) else Osal_kFail)"

definition waitForTermination :: "int \<times> int \<Rightarrow> int \<times> int \<Rightarrow> OsalReturnType \<times> int \<times> int" where
  "waitForTermination waited out =
     (case waited of (terminated_pid, wait_status) \<Rightarrow>
        if terminated_pid > 0 then (Osal_kSuccess, terminated_pid, wait_status) else (Osal_kFail, out))"

subsection \<open>The report that a process is running\<close>

text \<open>The block is a part of a state on which the process works while the launch manager sleeps, and the other way round.\<close>

record 'c Handshake =
  hs_sync :: IpcCommsSync
  hs_other :: 'c

type_synonym 'c hs_others = "'c Handshake \<Rightarrow> 'c Handshake option"

definition wait_send :: "int \<Rightarrow> 'c hs_others list \<Rightarrow> 'c Handshake \<Rightarrow> (OsalReturnType \<times> 'c hs_others list \<times> 'c Handshake) option" where
  "wait_send = timedWait (\<lambda>s. send_sync (hs_sync s)) (\<lambda>n s. s\<lparr>hs_sync := (hs_sync s)\<lparr>send_sync := n\<rparr>\<rparr>)"

definition wait_reply :: "int \<Rightarrow> 'c hs_others list \<Rightarrow> 'c Handshake \<Rightarrow> (OsalReturnType \<times> 'c hs_others list \<times> 'c Handshake) option" where
  "wait_reply = timedWait (\<lambda>s. reply_sync (hs_sync s)) (\<lambda>n s. s\<lparr>hs_sync := (hs_sync s)\<lparr>reply_sync := n\<rparr>\<rparr>)"

definition post_reply :: "'c Handshake \<Rightarrow> OsalReturnType \<times> 'c Handshake" where
  "post_reply s = (case sem_post (reply_sync (hs_sync s)) of (r, n) \<Rightarrow> (r, s\<lparr>hs_sync := (hs_sync s)\<lparr>reply_sync := n\<rparr>\<rparr>))"

definition post_send :: "'c Handshake \<Rightarrow> OsalReturnType \<times> 'c Handshake" where
  "post_send s = (case sem_post (send_sync (hs_sync s)) of (r, n) \<Rightarrow> (r, s\<lparr>hs_sync := (hs_sync s)\<lparr>send_sync := n\<rparr>\<rparr>))"

text \<open>The flag tells whether there is a block; the destruction of the semaphores at the end has no effect on the outcome.\<close>

definition waitForkRunning ::
  "bool \<Rightarrow> int \<Rightarrow> 'c hs_others list \<Rightarrow> 'c Handshake \<Rightarrow> (OsalReturnType \<times> 'c hs_others list \<times> 'c Handshake) option"
where
  "waitForkRunning sync timeout others s =
     (if sync
      then do {
        (r, others, s) \<leftarrow> wait_send timeout others s;
        (if r = Osal_kFail then Some (Osal_kFail, others, s)
         else (let (r, s) = post_reply s in if r = Osal_kFail then Some (Osal_kFail, others, s) else wait_send 100 others s))
      }
      else Some (Osal_kFail, others, s))"

text \<open>
  The process, \<^verbatim>\<open>lifecycle_client_lib/src/lifecycleclientimpl.cpp\<close>: \<open>reported\<close> is the flag of the class; whether the
  block can be mapped, the descriptor can be closed and the identifier of the process are given.
\<close>

datatype ExecutionState = ES_kRunning | ES_kOther

definition kMaxKRunningDelay :: int where "kMaxKRunningDelay = 1000"

definition reportKRunningtoDaemon ::
  "bool \<Rightarrow> bool \<Rightarrow> int \<Rightarrow> 'c hs_others list \<Rightarrow> bool \<Rightarrow> 'c Handshake \<Rightarrow> (ExecErrc option \<times> bool \<times> 'c Handshake) option"
where
  "reportKRunningtoDaemon mapped closed getpid others reported s =
     (if \<not> mapped then Some (Some kCommunicationError, reported, s)
      else if sync_comms_type (hs_sync s) = kReporting \<and> \<not> closed then Some (Some kCommunicationError, reported, s)
      else if sync_pid (hs_sync s) \<noteq> getpid then Some (Some kCommunicationError, reported, s)
      else (let (r, s) = post_send s
            in if r = Osal_kFail then Some (Some kCommunicationError, reported, s)
               else do {
                 (r, _, s) \<leftarrow> wait_reply kMaxKRunningDelay others s;
                 Some (if r = Osal_kFail then (Some kCommunicationError, reported, s) else (None, True, snd (post_send s)))
               }))"

definition ReportExecutionState ::
  "bool \<Rightarrow> bool \<Rightarrow> int \<Rightarrow> 'c hs_others list \<Rightarrow> ExecutionState \<Rightarrow> bool \<Rightarrow> 'c Handshake \<Rightarrow> (ExecErrc option \<times> bool \<times> 'c Handshake) option"
where
  "ReportExecutionState mapped closed getpid others state reported s =
     (if state \<noteq> ES_kRunning then Some (Some kInvalidTransition, reported, s)
      else if reported then Some (Some kInvalidTransition, reported, s)
      else reportKRunningtoDaemon mapped closed getpid others reported s)"

end
