(* ===== verification/Launcher_Properties.thy ===== *)
theory Launcher_Properties
  imports Process_Launcher Safe_Process_Map
begin

section \<open>Started processes\<close>

text \<open>
  A child that executes its program has the identity, the scheduling and the limits of its configuration and the
  descriptors of its communication type. On a kernel that behaves as documented it gets there, with one exception that
  is characterised exactly: limits that need a privilege which has been given up. The launch manager and the process
  agree that the process is running. The thread that collects terminated processes is at the end.
\<close>

subsection \<open>The identity of the program\<close>

lemma attempt_success:
  assumes "attempt permits call f s = (Osal_kSuccess, c')"
  obtains c where "s = (Osal_kSuccess, c)" "permits call c" "c' = f c"
  using assms by (cases s) (auto simp: attempt_def split: if_splits)

lemma scheduling_success:
  assumes "setSchedulingAndSecurity permits prio_min prio_max config c = (Osal_kSuccess, c')"
  shows "c' = (if comms_type config \<noteq> kLaunchManager then c\<lparr>ch_pgid := ch_pid c\<rparr> else c)
    \<lparr>ch_sched := (scheduling_policy config, clamp_priority prio_min prio_max config), ch_affinity := setaffinity_mask (cpu_mask config),
     ch_gid := oc_gid config, ch_groups := (if supplementary_gids config \<noteq> [] then supplementary_gids config else ch_groups c), ch_uid := oc_uid config\<rparr>"
proof -
  let ?sched = "(scheduling_policy config, clamp_priority prio_min prio_max config)"
  define s1 where "s1 = (if comms_type config \<noteq> kLaunchManager then attempt permits Sys_setpgid (\<lambda>c. c\<lparr>ch_pgid := ch_pid c\<rparr>) (Osal_kSuccess, c) else (Osal_kSuccess, c))"
  define s2 where "s2 = attempt permits (Sys_sched_setscheduler ?sched) (\<lambda>c. c\<lparr>ch_sched := ?sched\<rparr>) s1"
  define s3 where "s3 = (case setaffinity permits (cpu_mask config) (snd s2) of (done, c) \<Rightarrow> (if done then fst s2 else Osal_kFail, c))"
  define s4 where "s4 = attempt permits (Sys_setgid (oc_gid config)) (\<lambda>c. c\<lparr>ch_gid := oc_gid config\<rparr>) s3"
  define s5 where "s5 = (if length (supplementary_gids config) > 0
     then attempt permits (Sys_setgroups (supplementary_gids config)) (\<lambda>c. c\<lparr>ch_groups := supplementary_gids config\<rparr>) s4 else s4)"
  have "attempt permits (Sys_setuid (oc_uid config)) (\<lambda>c. c\<lparr>ch_uid := oc_uid config\<rparr>) s5 = (Osal_kSuccess, c')"
    using assms unfolding setSchedulingAndSecurity_def Let_def s5_def s4_def s3_def s2_def s1_def .
  then obtain c5 where c5: "s5 = (Osal_kSuccess, c5)" "c' = c5\<lparr>ch_uid := oc_uid config\<rparr>" by (rule attempt_success)
  obtain c4 where c4: "s4 = (Osal_kSuccess, c4)" "c5 = c4\<lparr>ch_groups := (if supplementary_gids config \<noteq> [] then supplementary_gids config else ch_groups c4)\<rparr>"
    using c5(1) by (auto simp: s5_def split: if_splits elim: attempt_success)
  obtain c3 where c3: "s3 = (Osal_kSuccess, c3)" "c4 = c3\<lparr>ch_gid := oc_gid config\<rparr>" using c4(1) unfolding s4_def by (rule attempt_success)
  obtain c2 where c2: "s2 = (Osal_kSuccess, c2)" "c3 = c2\<lparr>ch_affinity := setaffinity_mask (cpu_mask config)\<rparr>"
    using c3(1) by (cases s2) (auto simp: s3_def setaffinity_def split: if_splits)
  obtain c1 where c1: "s1 = (Osal_kSuccess, c1)" "c2 = c1\<lparr>ch_sched := ?sched\<rparr>" using c2(1) unfolding s2_def by (rule attempt_success)
  have "c1 = (if comms_type config \<noteq> kLaunchManager then c\<lparr>ch_pgid := ch_pid c\<rparr> else c)"
    using c1(1) by (auto simp: s1_def split: if_splits elim: attempt_success)
  then show ?thesis using c1 c2 c3 c4 c5 by simp
qed

lemma handleComms_frame:
  assumes "handleComms permits fd blk c = Some c'"
  shows "c' = c\<lparr>ch_fds := ch_fds c', ch_sync_pid := ch_sync_pid c'\<rparr>"
  using assms
  by (auto simp: handleComms_def fd_dup2_def fd_setfd0_def fd_close_def fd_shm_open_def Let_def
      split: option.splits CommsType.splits if_splits)

lemma limits_result:
  assumes "implementMemoryResourceLimits permits config c = Some c'"
  shows "c' = c\<lparr>ch_limits := ch_limits c'\<rparr> \<and>
    lim_data (ch_limits c') = (if lim_data (resource_limits config) \<noteq> 0 then lim_data (resource_limits config) else lim_data (ch_limits c)) \<and>
    lim_as (ch_limits c') = (if lim_as (resource_limits config) \<noteq> 0 then lim_as (resource_limits config) else lim_as (ch_limits c)) \<and>
    lim_stack (ch_limits c') = (if lim_stack (resource_limits config) \<noteq> 0 then lim_stack (resource_limits config) else lim_stack (ch_limits c)) \<and>
    lim_cpu (ch_limits c') = (if lim_cpu (resource_limits config) \<noteq> 0 then lim_cpu (resource_limits config) else lim_cpu (ch_limits c))"
  using assms by (auto simp: implementMemoryResourceLimits_def set_limit_def Let_def split: if_splits Option.bind_splits)

lemma handleChildProcess_stages:
  assumes "handleChildProcess permits prio_min prio_max config fd blk c = Some img"
  obtains c1 c2 c3 where "handleComms permits fd blk c = Some c1"
    "setSchedulingAndSecurity permits prio_min prio_max config c1 = (Osal_kSuccess, c2)"
    "implementMemoryResourceLimits permits config (c2\<lparr>ch_cwd := dirname (executable_path config)\<rparr>) = Some c3"
    "im_process img = c3\<lparr>ch_fds := exec_fds (ch_fds c3)\<rparr>" "im_path img = oc_argv config ! 0"
  using assms
  by (auto simp: handleChildProcess_def changeCurrentWorkingDirectory_def changeSecurityPolicy_def setSecurityPolicy_def
      split: Option.bind_splits prod.splits if_splits)

text \<open>
  (C15) A program that is executed runs with the user, group, scheduling, processors, directory and limits of its
  configuration, and in a process group of its own; a limit that is configured as zero stays what it was. A process that
  cannot get all of this has exited and executes nothing.
\<close>

theorem child_confined:
  assumes "handleChildProcess permits prio_min prio_max config fd blk c = Some img" and "p = im_process img"
  shows "ch_uid p = oc_uid config \<and> ch_gid p = oc_gid config \<and>
    ch_groups p = (if supplementary_gids config \<noteq> [] then supplementary_gids config else ch_groups c) \<and>
    ch_sched p = (scheduling_policy config, clamp_priority prio_min prio_max config) \<and>
    ch_affinity p = setaffinity_mask (cpu_mask config) \<and> (comms_type config \<noteq> kLaunchManager \<longrightarrow> ch_pgid p = ch_pid c) \<and>
    ch_cwd p = dirname (executable_path config) \<and>
    lim_data (ch_limits p) = (if lim_data (resource_limits config) \<noteq> 0 then lim_data (resource_limits config) else lim_data (ch_limits c)) \<and>
    lim_as (ch_limits p) = (if lim_as (resource_limits config) \<noteq> 0 then lim_as (resource_limits config) else lim_as (ch_limits c)) \<and>
    lim_stack (ch_limits p) = (if lim_stack (resource_limits config) \<noteq> 0 then lim_stack (resource_limits config) else lim_stack (ch_limits c)) \<and>
    lim_cpu (ch_limits p) = (if lim_cpu (resource_limits config) \<noteq> 0 then lim_cpu (resource_limits config) else lim_cpu (ch_limits c)) \<and>
    im_path img = oc_argv config ! 0"
proof -
  obtain c1 c2 c3 where h: "handleComms permits fd blk c = Some c1"
    "setSchedulingAndSecurity permits prio_min prio_max config c1 = (Osal_kSuccess, c2)"
    "implementMemoryResourceLimits permits config (c2\<lparr>ch_cwd := dirname (executable_path config)\<rparr>) = Some c3"
    "im_process img = c3\<lparr>ch_fds := exec_fds (ch_fds c3)\<rparr>" "im_path img = oc_argv config ! 0"
    using handleChildProcess_stages [OF assms(1)] by metis
  obtain t sp where c1: "c1 = c\<lparr>ch_fds := t, ch_sync_pid := sp\<rparr>" using handleComms_frame [OF h(1)] by blast
  note l = limits_result [OF h(3)]
  obtain lim where c3: "c3 = c2\<lparr>ch_cwd := dirname (executable_path config), ch_limits := lim\<rparr>" using l by blast
  show ?thesis using l scheduling_success [OF h(2)] by (simp add: assms(2) h(4,5) c3 c1)
qed

subsection \<open>The descriptors of the program\<close>

text \<open>
  What a program finds at its descriptors 3 and 4. A reporting process has the block of the launch manager at 3
  and nothing at 4, a control client has in addition the semaphore of the handler at 4 (if the flag of that
  descriptor could be cleared), and a process without communication has neither of the two.
\<close>

theorem child_descriptors:
  assumes "handleChildProcess permits prio_min prio_max config fd blk c = Some img" and "t = ch_fds (im_process img)"
    and "ch_fds c fd = Some \<lparr>fd_object = Sync_block, fd_cloexec = True\<rparr>" "ch_fds c 4 = Some \<lparr>fd_object = Nudge_semaphore, fd_cloexec = True\<rparr>"
    and "ch_fds c 0 \<noteq> None" "ch_fds c 1 \<noteq> None" "ch_fds c 2 \<noteq> None" "fd \<noteq> 4"
  shows "(blk = Some kReporting \<longrightarrow> (\<exists>e. t 3 = Some e \<and> fd_object e = Sync_block) \<and> t 4 = None) \<and>
    (blk = Some kControlClient \<longrightarrow> (\<exists>e. t 3 = Some e \<and> fd_object e = Sync_block) \<and>
       ((\<forall>x. ch_uid x = ch_uid c \<longrightarrow> permits (Sys_fcntl 4) x) \<longrightarrow> (\<exists>e. t 4 = Some e \<and> fd_object e = Nudge_semaphore))) \<and>
    (blk = None \<longrightarrow> t 3 = None \<and> t 4 = None)"
proof -
  obtain c1 c2 c3 where h: "handleComms permits fd blk c = Some c1"
    "setSchedulingAndSecurity permits prio_min prio_max config c1 = (Osal_kSuccess, c2)"
    "implementMemoryResourceLimits permits config (c2\<lparr>ch_cwd := dirname (executable_path config)\<rparr>) = Some c3"
    "im_process img = c3\<lparr>ch_fds := exec_fds (ch_fds c3)\<rparr>" "im_path img = oc_argv config ! 0"
    using handleChildProcess_stages [OF assms(1)] by metis
  obtain lim where c3: "c3 = c2\<lparr>ch_cwd := dirname (executable_path config), ch_limits := lim\<rparr>" using limits_result [OF h(3)] by blast
  have "ch_fds c2 = ch_fds c1" using scheduling_success [OF h(2)] by simp
  then have t: "t = exec_fds (ch_fds c1)" using assms(2) h(4) c3 by simp
  have free: "lowest_free OPEN_MAX 0 ((ch_fds c)(3 := None, 4 := None)) = 3"
    using assms(5-7) by (simp add: OPEN_MAX_def eval_nat_numeral)
  consider (reporting) "blk = Some kReporting" | (client) "blk = Some kControlClient" | (none) "blk = None" | (other) "blk \<noteq> Some kReporting" "blk \<noteq> Some kControlClient" "blk \<noteq> None"
    by blast
  then show ?thesis
  proof cases
    case reporting
    then show ?thesis using h(1) assms(3,8) unfolding t
      by (auto simp: handleComms_def fd_dup2_def fd_setfd0_def fd_close_def sync_fd_def control_client_handler_nudge_fd_def exec_fds_def Let_def split: if_splits)
  next
    case client
    then show ?thesis using h(1) assms(3,4,8) unfolding t
      by (auto simp: handleComms_def fd_dup2_def fd_setfd0_def fd_close_def sync_fd_def control_client_handler_nudge_fd_def exec_fds_def Let_def split: if_splits)
  next
    case none
    then show ?thesis using h(1) free unfolding t
      by (auto simp: handleComms_def fd_close_def fd_shm_open_def sync_fd_def control_client_handler_nudge_fd_def exec_fds_def Let_def split: if_splits)
  next
    case other
    then show ?thesis by auto
  qed
qed

subsection \<open>With the privileges of the launch manager\<close>

text \<open>
  What the manual pages say of the calls that the child makes. With the privileges of the super-user a process may change
  its process group, its user and groups, its scheduling (with a priority in the range of the policy) and its
  processors (with at least one that exists), open and unlink shared memory, and set the flags of a descriptor.
  \<^verbatim>\<open>setrlimit\<close> sets both limits to the same value; a process may do so with privileges, and without them only if this
  does not raise the hard limit.
\<close>

definition posix_kernel :: "nat set \<Rightarrow> (SchedulingPolicy \<Rightarrow> int) \<Rightarrow> (SchedulingPolicy \<Rightarrow> int) \<Rightarrow> permits \<Rightarrow> bool" where
  "posix_kernel cores prio_min prio_max permits \<longleftrightarrow> (\<forall>x.
     (ch_uid x = 0 \<longrightarrow> permits Sys_shm_open x \<and> permits Sys_shm_unlink x \<and> permits Sys_setpgid x \<and>
        (\<forall>fd. permits (Sys_fcntl fd) x) \<and> (\<forall>g. permits (Sys_setgid g) x) \<and> (\<forall>gs. permits (Sys_setgroups gs) x) \<and>
        (\<forall>u. permits (Sys_setuid u) x) \<and>
        (\<forall>pol p. prio_min pol \<le> p \<and> p \<le> prio_max pol \<longrightarrow> permits (Sys_sched_setscheduler (pol, p)) x) \<and>
        (\<forall>cpus. cpus \<inter> cores \<noteq> {} \<longrightarrow> permits (Sys_setaffinity cpus) x)) \<and>
     (\<forall>v. permits (Sys_setrlimit_data v) x \<longleftrightarrow> ch_uid x = 0 \<or> v \<le> lim_data (ch_limits x)) \<and>
     (\<forall>v. permits (Sys_setrlimit_as v) x \<longleftrightarrow> ch_uid x = 0 \<or> v \<le> lim_as (ch_limits x)) \<and>
     (\<forall>v. permits (Sys_setrlimit_stack v) x \<longleftrightarrow> ch_uid x = 0 \<or> v \<le> lim_stack (ch_limits x)) \<and>
     (\<forall>v. permits (Sys_setrlimit_cpu v) x \<longleftrightarrow> ch_uid x = 0 \<or> v \<le> lim_cpu (ch_limits x)))"

lemma clamp_range:
  "prio_min (scheduling_policy config) \<le> prio_max (scheduling_policy config) \<Longrightarrow>
   prio_min (scheduling_policy config) \<le> clamp_priority prio_min prio_max config \<and>
   clamp_priority prio_min prio_max config \<le> prio_max (scheduling_policy config)"
  by (simp add: clamp_priority_def)

lemma scheduling_root:
  assumes k: "posix_kernel cores prio_min prio_max permits" and u: "ch_uid c = 0"
    and pr: "prio_min (scheduling_policy config) \<le> prio_max (scheduling_policy config)" and co: "setaffinity_mask (cpu_mask config) \<inter> cores \<noteq> {}"
  shows "fst (setSchedulingAndSecurity permits prio_min prio_max config c) = Osal_kSuccess"
proof -
  have "permits Sys_setpgid x \<and> permits (Sys_setgid g) x \<and> permits (Sys_setgroups gs) x \<and> permits (Sys_setuid v) x \<and>
      permits (Sys_sched_setscheduler (scheduling_policy config, clamp_priority prio_min prio_max config)) x \<and>
      permits (Sys_setaffinity (setaffinity_mask (cpu_mask config))) x" if "ch_uid x = 0" for x g gs v
    using k clamp_range [of prio_min config prio_max, OF pr] co that unfolding posix_kernel_def by blast
  then show ?thesis using u by (simp add: setSchedulingAndSecurity_def Let_def attempt_def setaffinity_def)
qed

lemma comms_root:
  assumes k: "posix_kernel cores prio_min prio_max permits" and u: "ch_uid c = 0" and f: "blk \<noteq> None \<Longrightarrow> ch_fds c fd \<noteq> None"
  shows "\<exists>c'. handleComms permits fd blk c = Some c'"
proof -
  have p: "permits Sys_shm_open x \<and> permits Sys_shm_unlink x \<and> permits (Sys_fcntl d) x" if "ch_uid x = 0" for x d
    using k that unfolding posix_kernel_def by blast
  show ?thesis
  proof (cases blk)
    case None
    then show ?thesis using u p by (simp add: handleComms_def fd_close_def fd_shm_open_def Let_def)
  next
    case (Some t)
    then obtain e where e: "ch_fds c fd = Some e" using f by auto
    let ?c = "snd (fd_dup2 fd sync_fd c)\<lparr>ch_sync_pid := Some (ch_pid (snd (fd_dup2 fd sync_fd c)))\<rparr>"
    have "ch_uid ?c = 0" "ch_fds ?c sync_fd \<noteq> None" using u e by (auto simp: fd_dup2_def)
    then have "fst (fd_setfd0 permits sync_fd ?c)" using p [of ?c] by (auto simp: fd_setfd0_def)
    then show ?thesis using Some by (cases t) (simp_all add: handleComms_def Let_def case_prod_beta)
  qed
qed

text \<open>The limits that a process may set: every limit that is configured stays within the one it has.\<close>

definition limits_kept :: "OsalConfig \<Rightarrow> Child \<Rightarrow> bool" where
  "limits_kept config c \<longleftrightarrow> lim_data (resource_limits config) \<le> lim_data (ch_limits c) \<and> lim_as (resource_limits config) \<le> lim_as (ch_limits c) \<and>
     lim_stack (resource_limits config) \<le> lim_stack (ch_limits c) \<and> lim_cpu (resource_limits config) \<le> lim_cpu (ch_limits c)"

lemma limits_permitted:
  assumes "posix_kernel cores prio_min prio_max permits"
  shows "implementMemoryResourceLimits permits config c \<noteq> None \<longleftrightarrow> ch_uid c = 0 \<or> limits_kept config c"
proof -
  have p: "permits (Sys_setrlimit_data v) x \<longleftrightarrow> ch_uid x = 0 \<or> v \<le> lim_data (ch_limits x)"
    "permits (Sys_setrlimit_as v) x \<longleftrightarrow> ch_uid x = 0 \<or> v \<le> lim_as (ch_limits x)"
    "permits (Sys_setrlimit_stack v) x \<longleftrightarrow> ch_uid x = 0 \<or> v \<le> lim_stack (ch_limits x)"
    "permits (Sys_setrlimit_cpu v) x \<longleftrightarrow> ch_uid x = 0 \<or> v \<le> lim_cpu (ch_limits x)" for v x
    using assms unfolding posix_kernel_def by blast+
  show ?thesis by (auto simp: implementMemoryResourceLimits_def set_limit_def Let_def p limits_kept_def)
qed

text \<open>
  (C16) When a child that is forked by the super-user reaches its program, for every kernel that behaves as the manual
  pages say. The configuration can be used: the file name is not too long, the configured processors exist, the directory
  and the program are accessible to every process with the configured user and groups, and the descriptor of the shared
  block is open. Then the child executes the program if and only if the program is to run as the super-user or none of the
  configured limits is above the hard limit that it inherits: the privileges for scheduling, groups and user are
  still there when they are needed, as the user is changed last, but the limits are set when they are gone.
\<close>

theorem child_starts:
  assumes kernel: "posix_kernel cores prio_min prio_max permits" and root: "ch_uid c = 0"
    and prio: "prio_min (scheduling_policy config) \<le> prio_max (scheduling_policy config)"
    and cores: "setaffinity_mask (cpu_mask config) \<inter> cores \<noteq> {}"
    and block: "blk \<noteq> None \<Longrightarrow> ch_fds c fd \<noteq> None" and path: "length (executable_path config) < PATH_MAX"
    and access: "\<And>x. ch_uid x = oc_uid config \<Longrightarrow> ch_gid x = oc_gid config \<Longrightarrow>
      ch_groups x = (if supplementary_gids config \<noteq> [] then supplementary_gids config else ch_groups c) \<Longrightarrow>
      permits (Sys_chdir (dirname (executable_path config))) x \<and> permits (Sys_execve (oc_argv config ! 0)) x"
  shows "(\<exists>img. handleChildProcess permits prio_min prio_max config fd blk c = Some img) \<longleftrightarrow> oc_uid config = 0 \<or> limits_kept config c"
proof -
  obtain c1 where c1: "handleComms permits fd blk c = Some c1" using comms_root [OF kernel root block] by blast
  obtain t sp where f1: "c1 = c\<lparr>ch_fds := t, ch_sync_pid := sp\<rparr>" using handleComms_frame [OF c1] by blast
  obtain c2 where c2: "setSchedulingAndSecurity permits prio_min prio_max config c1 = (Osal_kSuccess, c2)"
    using scheduling_root [OF kernel _ prio cores, of c1] root f1 by (metis Child.select_convs(6) Child.surjective Child.update_convs(1,11) prod.collapse)
  let ?c2 = "c2\<lparr>ch_cwd := dirname (executable_path config)\<rparr>"
  have f2: "ch_uid c2 = oc_uid config" "ch_gid c2 = oc_gid config" "ch_limits c2 = ch_limits c"
    "ch_groups c2 = (if supplementary_gids config \<noteq> [] then supplementary_gids config else ch_groups c)"
    using scheduling_success [OF c2] f1 by simp_all
  have ex: "permits (Sys_execve (oc_argv config ! 0)) c3" if l: "implementMemoryResourceLimits permits config ?c2 = Some c3" for c3
  proof -
    obtain lim where "c3 = ?c2\<lparr>ch_limits := lim\<rparr>" using limits_result [OF l] by blast
    then show ?thesis using access [of c3] f2 by simp
  qed
  have "(\<exists>img. handleChildProcess permits prio_min prio_max config fd blk c = Some img) \<longleftrightarrow> implementMemoryResourceLimits permits config ?c2 \<noteq> None"
    using c1 c2 path access [of c2] f2 ex
    by (auto simp: handleChildProcess_def changeCurrentWorkingDirectory_def changeSecurityPolicy_def setSecurityPolicy_def split: Option.bind_splits)
  also have "\<dots> \<longleftrightarrow> oc_uid config = 0 \<or> limits_kept config c"
    using limits_permitted [OF kernel, of config ?c2] f2 by (simp add: limits_kept_def)
  finally show ?thesis .
qed

text \<open>A kernel with four processors and priorities from 1 to 99, on which every directory and program is accessible.\<close>

fun demo_kernel :: permits where
  "demo_kernel (Sys_chdir _) c = True"
| "demo_kernel (Sys_execve _) c = True"
| "demo_kernel (Sys_setrlimit_data v) c = (ch_uid c = 0 \<or> v \<le> lim_data (ch_limits c))"
| "demo_kernel (Sys_setrlimit_as v) c = (ch_uid c = 0 \<or> v \<le> lim_as (ch_limits c))"
| "demo_kernel (Sys_setrlimit_stack v) c = (ch_uid c = 0 \<or> v \<le> lim_stack (ch_limits c))"
| "demo_kernel (Sys_setrlimit_cpu v) c = (ch_uid c = 0 \<or> v \<le> lim_cpu (ch_limits c))"
| "demo_kernel (Sys_sched_setscheduler (_, p)) c = (ch_uid c = 0 \<and> 1 \<le> p \<and> p \<le> 99)"
| "demo_kernel (Sys_setaffinity cpus) c = (ch_uid c = 0 \<and> cpus \<inter> {0, 1, 2, 3} \<noteq> {})"
| "demo_kernel (Sys_fcntl _) c = True"
| "demo_kernel _ c = (ch_uid c = 0)"

definition demo_child :: Child where
  "demo_child = \<lparr>ch_fds = (\<lambda>_. None)(0 \<mapsto> \<lparr>fd_object = Other_file 0, fd_cloexec = False\<rparr>, 1 \<mapsto> \<lparr>fd_object = Other_file 1, fd_cloexec = False\<rparr>,
       2 \<mapsto> \<lparr>fd_object = Other_file 2, fd_cloexec = False\<rparr>, 4 \<mapsto> \<lparr>fd_object = Nudge_semaphore, fd_cloexec = True\<rparr>,
       5 \<mapsto> \<lparr>fd_object = Sync_block, fd_cloexec = True\<rparr>),
     ch_pid = 77, ch_pgid = 1, ch_sched = (SCHED_OTHER, 0), ch_affinity = {}, ch_uid = 0, ch_gid = 0, ch_groups = [], ch_cwd = ''/'',
     ch_limits = \<lparr>lim_data = 9000, lim_as = 8192, lim_stack = 9000, lim_cpu = 60\<rparr>, ch_sync_pid = None\<rparr>"

definition demo_config :: OsalConfig where
  "demo_config = \<lparr>executable_path = ''/opt/app/bin'', short_name = ''app'', oc_argv = [Some ''/opt/app/bin'', None], oc_envp = [None],
     security_policy = '''', oc_uid = 1000, oc_gid = 1001, supplementary_gids = [5], comms_type = kControlClient, cpu_mask = 5,
     scheduling_policy = SCHED_FIFO, scheduling_priority = 200, resource_limits = \<lparr>lim_data = 0, lim_as = 4096, lim_stack = 0, lim_cpu = 0\<rparr>\<rparr>"

definition greedy_config :: OsalConfig where
  "greedy_config = demo_config\<lparr>resource_limits := \<lparr>lim_data = 0, lim_as = 16384, lim_stack = 0, lim_cpu = 0\<rparr>\<rparr>"

lemma demo_mask: "setaffinity_mask 5 \<inter> {0, 1, 2, 3} \<noteq> {}"
proof -
  have "0 \<in> setaffinity_mask 5" by (simp add: setaffinity_mask_def)
  then show ?thesis by blast
qed

theorem child_starts_witness:
  "(\<exists>img. handleChildProcess demo_kernel (\<lambda>_. 1) (\<lambda>_. 99) demo_config 5 (Some kControlClient) demo_child = Some img) \<and>
   handleChildProcess demo_kernel (\<lambda>_. 1) (\<lambda>_. 99) greedy_config 5 (Some kControlClient) demo_child = None"
proof -
  have k: "posix_kernel {0, 1, 2, 3} (\<lambda>_. 1) (\<lambda>_. 99) demo_kernel" by (simp add: posix_kernel_def)
  have l: "limits_kept demo_config demo_child" "\<not> limits_kept greedy_config demo_child"
    by (simp_all add: limits_kept_def demo_child_def demo_config_def greedy_config_def)
  have c: "ch_uid demo_child = 0" "ch_fds demo_child 5 \<noteq> None" "length (executable_path demo_config) < PATH_MAX" "oc_uid demo_config = 1000"
    "setaffinity_mask (cpu_mask demo_config) \<inter> {0, 1, 2, 3} \<noteq> {}"
    using demo_mask by (simp_all add: demo_child_def demo_config_def PATH_MAX_def)
  have g: "length (executable_path greedy_config) < PATH_MAX" "oc_uid greedy_config = 1000"
    "setaffinity_mask (cpu_mask greedy_config) \<inter> {0, 1, 2, 3} \<noteq> {}"
    using c by (simp_all add: greedy_config_def)
  show ?thesis
    using child_starts [OF k, of demo_child demo_config "Some kControlClient" 5]
      child_starts [OF k, of demo_child greedy_config "Some kControlClient" 5] c g l by auto
qed

definition demo_image :: Image where
  "demo_image = the (handleChildProcess demo_kernel (\<lambda>_. 1) (\<lambda>_. 99) demo_config 5 (Some kControlClient) demo_child)"

lemma demo_image: "handleChildProcess demo_kernel (\<lambda>_. 1) (\<lambda>_. 99) demo_config 5 (Some kControlClient) demo_child = Some demo_image"
proof -
  have "handleChildProcess demo_kernel (\<lambda>_. 1) (\<lambda>_. 99) demo_config 5 (Some kControlClient) demo_child \<noteq> None"
    using demo_mask
    by (simp add: handleChildProcess_def changeCurrentWorkingDirectory_def changeSecurityPolicy_def setSecurityPolicy_def handleComms_def fd_dup2_def
        fd_setfd0_def setSchedulingAndSecurity_def setaffinity_def sync_fd_def control_client_handler_nudge_fd_def clamp_priority_def
        implementMemoryResourceLimits_def set_limit_def Let_def demo_child_def demo_config_def PATH_MAX_def attempt_def)
  then show ?thesis by (auto simp: demo_image_def)
qed

theorem child_confined_witness:
  "ch_uid (im_process demo_image) = 1000 \<and> ch_groups (im_process demo_image) = [5] \<and> ch_sched (im_process demo_image) = (SCHED_FIFO, 99) \<and>
   ch_cwd (im_process demo_image) = ''/opt/app'' \<and> lim_as (ch_limits (im_process demo_image)) = 4096"
proof -
  have "dirname ''/opt/app/bin'' = ''/opt/app''" by code_simp
  then show ?thesis using child_confined [OF demo_image refl] by (simp add: demo_config_def clamp_priority_def)
qed

theorem child_descriptors_witness:
  "(\<exists>e. ch_fds (im_process demo_image) 3 = Some e \<and> fd_object e = Sync_block) \<and>
   (\<exists>e. ch_fds (im_process demo_image) 4 = Some e \<and> fd_object e = Nudge_semaphore)"
  using child_descriptors [OF demo_image refl] by (simp add: demo_child_def)

subsection \<open>Starting a process\<close>

text \<open>
  The launch manager reports success exactly for a complete configuration whose file is executable, whose
  communication could be set up and which could be forked; then a process that communicates has a block of its type
  with both semaphores at zero, and a control client an empty channel in it.
\<close>

theorem start_process_outcome:
  assumes "lc_ftruncate calls \<or> comms_type config = kNoComms \<or> lc_shm_open calls < 0"
  shows "\<exists>r pid block counter'. startProcess calls raw memory (Some config) out counter = Some (r, pid, block, counter') \<and>
    (r = Osal_kSuccess \<longleftrightarrow> executable_path config \<noteq> '''' \<and> oc_argv config ! 0 \<noteq> None \<and> lc_access calls \<and> lc_fork calls > 0 \<and>
       (comms_type config \<noteq> kNoComms \<longrightarrow> lc_shm_open calls \<ge> 0 \<and> lc_mmap calls \<and> lc_sem_init_send calls \<and> lc_sem_init_reply calls)) \<and>
    (r = Osal_kSuccess \<longrightarrow> pid = lc_fork calls \<and> (block = None \<longleftrightarrow> comms_type config = kNoComms) \<and>
       (\<forall>b. block = Some b \<longrightarrow> sync_comms_type b = comms_type config \<and> send_sync b = 0 \<and> reply_sync b = 0 \<and>
          (comms_type config = kControlClient \<longrightarrow> (\<exists>ch. sync_channel b = Some ch \<and> comms_empty (ccc_request ch) \<and> comms_empty (ccc_response ch)))))"
  using assms
  by (auto simp: startProcess_def setupComms_def initializeControlClient_def initializeControlClientChannel_def getCommsObject_def
      initializeSemaphores_def sem_init_def ccc_initialize_def Let_def)

definition good_calls :: LaunchCalls where
  "good_calls = \<lparr>lc_access = True, lc_shm_open = 5, lc_ftruncate = True, lc_mmap = True, lc_sem_init_send = True, lc_sem_init_reply = True, lc_fork = 77\<rparr>"

definition demo_sync :: IpcCommsSync where
  "demo_sync = \<lparr>reply_sync = 0, send_sync = 0, sync_pid = 77, sync_comms_type = kReporting, sync_channel = None\<rparr>"

theorem start_process_outcome_witness:
  "\<exists>r pid block counter'. startProcess good_calls example_channel demo_sync (Some demo_config) (- 1, None) 0 = Some (r, pid, block, counter') \<and> r = Osal_kSuccess \<and> pid = 77"
  using start_process_outcome [of good_calls demo_config example_channel demo_sync "(- 1, None)" 0] by (auto simp: good_calls_def demo_config_def)

text \<open>If the memory cannot be extended, the launch manager itself uses memory that is not there.\<close>

lemma failed_ftruncate_faults:
  assumes "\<not> lc_ftruncate calls" "comms_type config \<noteq> kNoComms" "lc_shm_open calls \<ge> 0" "lc_mmap calls" "lc_access calls"
    "executable_path config \<noteq> ''''" "oc_argv config ! 0 \<noteq> None"
  shows "startProcess calls raw memory (Some config) out counter = None"
  using assms
  by (auto simp: startProcess_def setupComms_def initializeControlClient_def getCommsObject_def Let_def)

subsection \<open>The two sides agree that the process is running\<close>

text \<open>
  What happens between two polls of the launch manager. The process makes a step of \<^const>\<open>reportKRunningtoDaemon\<close>: it
  posts the report, takes the reply and posts once more, or gives up waiting. Or it has terminated, which the
  launch manager notes in \<^verbatim>\<open>status_\<close> before \<^verbatim>\<open>unexpectedTermination\<close> posts on the semaphore to end the waiting; from then
  on the process does nothing. The second component says that the termination has been noted.
\<close>

datatype Reporter = Ready | Waiting | Reported bool

type_synonym Reporting = "Reporter \<times> bool"

definition report_step :: "Reporting hs_others" where
  "report_step s =
     (case hs_other s of
        (Ready, False) \<Rightarrow> (let (r, s) = post_send s in Some (s\<lparr>hs_other := (if r = Osal_kFail then Reported False else Waiting, False)\<rparr>))
      | (Waiting, False) \<Rightarrow>
          if reply_sync (hs_sync s) > 0
          then Some (snd (post_send (s\<lparr>hs_sync := (hs_sync s)\<lparr>reply_sync := reply_sync (hs_sync s) - 1\<rparr>\<rparr>))\<lparr>hs_other := (Reported True, False)\<rparr>)
          else Some s
      | _ \<Rightarrow> Some s)"

definition give_up :: "Reporting hs_others" where
  "give_up s = Some (if hs_other s = (Waiting, False) then s\<lparr>hs_other := (Reported False, False)\<rparr> else s)"

definition unexpected_post :: "Reporting hs_others" where
  "unexpected_post s = Some (if snd (hs_other s) then s else (snd (post_send s))\<lparr>hs_other := (fst (hs_other s), True)\<rparr>)"

definition between_polls :: "Reporting hs_others set" where
  "between_polls = {report_step, give_up, unexpected_post, Some}"

text \<open>The steps are those of the code: a call of \<^const>\<open>reportKRunningtoDaemon\<close> is a run of them.\<close>

lemma report_is_steps:
  assumes "reportKRunningtoDaemon True True (sync_pid (hs_sync s)) others False s = Some (e, reported, s')" "hs_other s = (Ready, False)"
    and blind: "\<And>f x o'. f \<in> set others \<Longrightarrow> f (x\<lparr>hs_other := o'\<rparr>) = map_option (\<lambda>y. y\<lparr>hs_other := o'\<rparr>) (f x)"
  shows "\<exists>n. run_others (report_step # take n others @ [if reported then report_step else give_up]) s = Some (s'\<lparr>hs_other := (Reported reported, False)\<rparr>)"
proof -
  obtain r1 s1 where s1: "post_send s = (r1, s1)" by fastforce
  show ?thesis
  proof (cases "r1 = Osal_kFail")
    case True
    then show ?thesis using assms(1,2) s1
      by (intro exI [of _ 0]) (auto simp: reportKRunningtoDaemon_def report_step_def give_up_def)
  next
    case False
    obtain r rest s2 where w: "wait_reply kMaxKRunningDelay others s1 = Some (r, rest, s2)"
      and e: "(e, reported, s') = (if r = Osal_kFail then (Some kCommunicationError, False, s2) else (None, True, snd (post_send s2)))"
      using assms(1) s1 False by (auto simp: reportKRunningtoDaemon_def split: Option.bind_splits if_splits)
    obtain n x where x: "run_others (take n others) s1 = Some x" "r = Osal_kSuccess \<longleftrightarrow> reply_sync (hs_sync x) > 0"
      "s2 = (if r = Osal_kSuccess then x\<lparr>hs_sync := (hs_sync x)\<lparr>reply_sync := reply_sync (hs_sync x) - 1\<rparr>\<rparr> else x)"
      using timedWait_outcome [OF w [unfolded wait_reply_def]] by metis
    have run: "run_others os (y\<lparr>hs_other := o'\<rparr>) = map_option (\<lambda>z. z\<lparr>hs_other := o'\<rparr>) (run_others os y)" if "set os \<subseteq> set others" for os y o'
      using that by (induction os arbitrary: y) (auto simp: blind split: Option.bind_splits)
    have app: "run_others (os @ os') y = do { z \<leftarrow> run_others os y; run_others os' z }" for os os' and y :: "Reporting Handshake"
      by (induction os arbitrary: y) (auto split: Option.bind_splits)
    have "report_step s = Some (s1\<lparr>hs_other := (Waiting, False)\<rparr>)" using assms(2) s1 False by (simp add: report_step_def)
    moreover have "z \<bind> run_others [] = z" for z :: "Reporting Handshake option" by (cases z) simp_all
    ultimately have "run_others (report_step # take n others @ [f]) s = f (x\<lparr>hs_other := (Waiting, False)\<rparr>)" for f
      using run [where os = "take n others" and y = s1] x(1) set_take_subset [of n others] by (simp add: app)
    moreover have "(if reported then report_step else give_up) (x\<lparr>hs_other := (Waiting, False)\<rparr>) = Some (s'\<lparr>hs_other := (Reported reported, False)\<rparr>)"
      using e x(2,3) by (cases r) (auto simp: report_step_def give_up_def post_send_def Let_def split: prod.splits if_splits)
    ultimately show ?thesis by (intro exI [of _ n]) simp
  qed
qed

definition unanswered :: "Reporting Handshake \<Rightarrow> bool" where
  "unanswered s \<longleftrightarrow> snd (hs_other s) \<or> reply_sync (hs_sync s) = 0 \<and>
     (case fst (hs_other s) of Ready \<Rightarrow> send_sync (hs_sync s) = 0 | Waiting \<Rightarrow> send_sync (hs_sync s) = 1
      | Reported b \<Rightarrow> \<not> b \<and> send_sync (hs_sync s) \<le> 1)"

definition replied :: "Reporting Handshake \<Rightarrow> bool" where
  "replied s \<longleftrightarrow> snd (hs_other s) \<or>
     (case fst (hs_other s) of Ready \<Rightarrow> False | Waiting \<Rightarrow> send_sync (hs_sync s) = 0
      | Reported b \<Rightarrow> send_sync (hs_sync s) = (if b then 1 else 0))"

lemma run_others_invariant:
  assumes "run_others os s = Some x" "P s" "\<And>f s s'. f \<in> set os \<Longrightarrow> P s \<Longrightarrow> f s = Some s' \<Longrightarrow> P s'"
  shows "P x"
  using assms
proof (induction os arbitrary: s)
  case (Cons f os)
  then obtain s1 where s1: "f s = Some s1" "run_others os s1 = Some x" by (auto split: Option.bind_splits)
  have "P s1" using Cons.prems(2,3) s1(1) by auto
  then show ?case using Cons.IH [OF s1(2)] Cons.prems(3) by auto
qed simp

lemma process_steps:
  assumes "f \<in> between_polls" "f s = Some s'"
  shows "unanswered s \<Longrightarrow> unanswered s'" "replied s \<Longrightarrow> replied s'"
  using assms
  by (auto simp: between_polls_def report_step_def give_up_def unexpected_post_def unanswered_def replied_def post_send_def sem_post_def
      SEM_VALUE_MAX_def split: Reporter.splits bool.splits prod.splits if_splits)

lemma wait_send_outcome:
  assumes "wait_send t others s = Some (r, rest, s')" "P s" "set others \<subseteq> between_polls"
    "\<And>f s s'. f \<in> between_polls \<Longrightarrow> f s = Some s' \<Longrightarrow> P s \<Longrightarrow> P s'"
  obtains x where "P x" "r = Osal_kSuccess \<longleftrightarrow> send_sync (hs_sync x) > 0" "set rest \<subseteq> between_polls"
    "s' = (if r = Osal_kSuccess then x\<lparr>hs_sync := (hs_sync x)\<lparr>send_sync := send_sync (hs_sync x) - 1\<rparr>\<rparr> else x)"
proof -
  obtain n x where x: "run_others (take n others) s = Some x" "rest = drop n others"
    "s' = (if r = Osal_kSuccess then x\<lparr>hs_sync := (hs_sync x)\<lparr>send_sync := send_sync (hs_sync x) - 1\<rparr>\<rparr> else x)"
    "r = Osal_kSuccess \<longleftrightarrow> send_sync (hs_sync x) > 0"
    using timedWait_outcome [OF assms(1) [unfolded wait_send_def]] by metis
  have "P x"
  proof (rule run_others_invariant [where P = P, OF x(1) assms(2)])
    fix f s s'
    assume "f \<in> set (take n others)" "P s" "f s = Some s'"
    moreover from this(1) have "f \<in> between_polls" using assms(3) in_set_takeD [of f n others] by blast
    ultimately show "P s'" using assms(4) by blast
  qed
  moreover have "set rest \<subseteq> between_polls" using x(2) assms(3) set_drop_subset [of n others] by auto
  ultimately show thesis using x(3,4) by (intro that [of x])
qed

lemma running_agreed_block:
  assumes "waitForkRunning True timeout others \<lparr>hs_sync = sync, hs_other = (Ready, False)\<rparr> = Some (r, rest, s)"
    and "set others \<subseteq> between_polls" "send_sync sync = 0" "reply_sync sync = 0"
  shows "r = Osal_kSuccess \<and> \<not> snd (hs_other s) \<longrightarrow> fst (hs_other s) = Reported True \<and> send_sync (hs_sync s) = 0"
proof -
  let ?s = "\<lparr>hs_sync = sync, hs_other = (Ready, False)\<rparr>"
  obtain r1 rest1 s1 where s1: "wait_send timeout others ?s = Some (r1, rest1, s1)"
    using assms(1) by (auto simp: waitForkRunning_def split: Option.bind_splits)
  obtain x where x: "unanswered x" "r1 = Osal_kSuccess \<longleftrightarrow> send_sync (hs_sync x) > 0" "set rest1 \<subseteq> between_polls"
    "s1 = (if r1 = Osal_kSuccess then x\<lparr>hs_sync := (hs_sync x)\<lparr>send_sync := send_sync (hs_sync x) - 1\<rparr>\<rparr> else x)"
    by (rule wait_send_outcome [where P = unanswered, OF s1]) (use assms(2-4) process_steps(1) in \<open>auto simp: unanswered_def\<close>)
  show ?thesis
  proof (cases "r1 = Osal_kSuccess")
    case True
    obtain r2 s2 where s2: "post_reply s1 = (r2, s2)" by fastforce
    have rep: "replied s2"
      using x(1,2,4) True s2 by (auto simp: unanswered_def replied_def post_reply_def split: Reporter.splits prod.splits if_splits)
    show ?thesis
    proof (cases "r2 = Osal_kFail")
      case True
      then show ?thesis using assms(1) s1 s2 \<open>r1 = Osal_kSuccess\<close> by (auto simp: waitForkRunning_def)
    next
      case False
      then have w: "wait_send 100 rest1 s2 = Some (r, rest, s)" using assms(1) s1 s2 True by (simp add: waitForkRunning_def)
      obtain y where "replied y" "r = Osal_kSuccess \<longleftrightarrow> send_sync (hs_sync y) > 0"
        "s = (if r = Osal_kSuccess then y\<lparr>hs_sync := (hs_sync y)\<lparr>send_sync := send_sync (hs_sync y) - 1\<rparr>\<rparr> else y)"
        by (rule wait_send_outcome [where P = replied, OF w rep x(3)]) (use process_steps(2) in auto)
      then show ?thesis by (auto simp: replied_def split: Reporter.splits if_splits)
    qed
  next
    case False
    then have "r1 = Osal_kFail" by (cases r1) simp_all
    then show ?thesis using assms(1) s1 by (auto simp: waitForkRunning_def)
  qed
qed

text \<open>
  (C17) The process reports once, at any time and giving up whenever it likes, or it terminates, which the launch manager
  notes and then posts on the same semaphore itself. If \<^verbatim>\<open>waitForkRunning\<close> succeeds and no termination has been noted
  (the caller checks \<^verbatim>\<open>status_\<close> after it), the process has taken the reply, its report has succeeded, and all its
  posts have been consumed. A second report of a process whose first one failed is not covered: the post of the first one
  would be taken for it.
\<close>

theorem running_agreed:
  assumes "waitForkRunning sync_ok timeout others \<lparr>hs_sync = sync, hs_other = (Ready, False)\<rparr> = Some (r, rest, s)"
    and "set others \<subseteq> between_polls" "send_sync sync = 0" "reply_sync sync = 0"
  shows "r = Osal_kSuccess \<and> \<not> snd (hs_other s) \<longrightarrow> fst (hs_other s) = Reported True \<and> send_sync (hs_sync s) = 0"
  using running_agreed_block [OF _ assms(2-4)] assms(1) by (cases sync_ok) (auto simp: waitForkRunning_def [of False])

theorem running_agreed_witness:
  "\<exists>rest s. waitForkRunning True 10 [Some, report_step, report_step] \<lparr>hs_sync = demo_sync, hs_other = (Ready, False)\<rparr> = Some (Osal_kSuccess, rest, s) \<and>
     hs_other s = (Reported True, False)"
proof -
  let ?others = "[Some, report_step, report_step]" and ?s = "\<lparr>hs_sync = demo_sync, hs_other = (Ready, False)\<rparr>"
  obtain rest s where w: "waitForkRunning True 10 ?others ?s = Some (Osal_kSuccess, rest, s)" and alive: "\<not> snd (hs_other s)"
    by (simp add: waitForkRunning_def wait_send_def timedWait.simps report_step_def post_send_def post_reply_def sem_post_def SEM_VALUE_MAX_def demo_sync_def)
  have "set ?others \<subseteq> between_polls" "send_sync demo_sync = 0" "reply_sync demo_sync = 0" by (auto simp: demo_sync_def between_polls_def)
  then have "fst (hs_other s) = Reported True" using running_agreed [OF w] alive by blast
  then show ?thesis using w alive by (cases "hs_other s") auto
qed

text \<open>
  The other way round they need not agree: the process has reported successfully, but its last post came after the hundred
  milliseconds for which the launch manager waits.
\<close>

lemma wait_send_idle:
  assumes "send_sync (hs_sync s) = 0" "2 * int n \<le> t" "t < 2 * int n + 2"
  shows "wait_send t (replicate n Some) s = Some (Osal_kFail, [], s)"
  using assms
proof (induction n arbitrary: t)
  case 0
  then show ?case by (simp add: wait_send_def timedWait.simps)
next
  case (Suc n)
  have "wait_send (t - 2) (replicate n Some) s = Some (Osal_kFail, [], s)" using Suc.prems by (intro Suc.IH) simp_all
  then show ?case using Suc.prems unfolding wait_send_def by (subst timedWait.simps) simp
qed

lemma running_not_agreed:
  "map_option (\<lambda>(r, rest, s). (r, map_option hs_other (report_step s)))
     (waitForkRunning True 2 (report_step # replicate 50 Some) \<lparr>hs_sync = demo_sync, hs_other = (Ready, False)\<rparr>) = Some (Osal_kFail, Some (Reported True, False))"
proof -
  have "wait_send 2 (report_step # replicate 50 Some) \<lparr>hs_sync = demo_sync, hs_other = (Ready, False)\<rparr> =
    Some (Osal_kSuccess, replicate 50 Some, \<lparr>hs_sync = demo_sync, hs_other = (Waiting, False)\<rparr>)"
    by (simp add: wait_send_def timedWait.simps report_step_def post_send_def sem_post_def SEM_VALUE_MAX_def demo_sync_def)
  moreover have "post_reply \<lparr>hs_sync = demo_sync, hs_other = (Waiting, False)\<rparr> = (Osal_kSuccess, \<lparr>hs_sync = demo_sync\<lparr>reply_sync := 1\<rparr>, hs_other = (Waiting, False)\<rparr>)"
    by (simp add: post_reply_def sem_post_def SEM_VALUE_MAX_def demo_sync_def)
  moreover have "wait_send 100 (replicate 50 Some) \<lparr>hs_sync = demo_sync\<lparr>reply_sync := 1\<rparr>, hs_other = (Waiting, False)\<rparr> =
      Some (Osal_kFail, [], \<lparr>hs_sync = demo_sync\<lparr>reply_sync := 1\<rparr>, hs_other = (Waiting, False)\<rparr>)"
    by (rule wait_send_idle) (simp_all add: demo_sync_def)
  ultimately show ?thesis
    by (simp add: waitForkRunning_def report_step_def post_send_def sem_post_def SEM_VALUE_MAX_def demo_sync_def)
qed

subsection \<open>Collecting terminated processes\<close>

text \<open>
  \<^verbatim>\<open>oshandler.cpp\<close>: every turn of the thread waits for a process; the turns are given by what \<^verbatim>\<open>wait\<close> returned and
  what other threads did to the map while the handler waited for it. The result is the notifications.
\<close>

fun os_run ::
  "((int \<times> int) \<times> (SafeProcessMap \<Rightarrow> SafeProcessMap) list) list \<Rightarrow> SafeProcessMap \<Rightarrow> ((int \<times> (nat \<times> int) option) list \<times> SafeProcessMap) option"
where
  "os_run [] m = Some ([], m)"
| "os_run ((waited, others) # turns) m =
     (case waitForTermination waited (0, 0) of
        (Osal_kSuccess, pid, status) \<Rightarrow> do {
          (r, note, m) \<leftarrow> findTerminated others pid status m;
          (notes, m) \<leftarrow> os_run turns m;
          Some ((r, note) # notes, m)
        }
      | (Osal_kFail, _) \<Rightarrow> os_run turns m)"

end
