(* ===== verification/Time_Conversion.thy ===== *)
theory Time_Conversion
  imports Timers
begin

section \<open>Times given as floating point milliseconds\<close>

text \<open>
  Models \<^verbatim>\<open>TimeConversion::convertMilliSecToNanoSec\<close> of \<^verbatim>\<open>saf/timers/TimeConversion.cpp\<close>, through which
  every time of the health monitor's configuration passes. A \<^verbatim>\<open>double\<close> is a finite number
  \<open>m \<cdot> 2 ^ e\<close>, an infinity or not a number; a product is the exact one rounded to 53 significant bits,
  to the nearest and to even between two, with gradual underflow and overflow to infinity. Converting
  what is not a number to an integer has no defined result: \<open>None\<close>.
\<close>

datatype double = Finite int int | Infinity bool | NotANumber

definition isfinite :: "double \<Rightarrow> bool" where
  "isfinite d \<longleftrightarrow> (case d of Finite m e \<Rightarrow> True | _ \<Rightarrow> False)"

fun bits :: "nat \<Rightarrow> nat" where
  "bits n = (if n = 0 then 0 else Suc (bits (n div 2)))"

declare bits.simps [simp del]

text \<open>The number of low bits of \<open>m\<close> that a double at exponent \<open>e\<close> cannot keep.\<close>

definition dbl_excess :: "int \<Rightarrow> int \<Rightarrow> nat" where
  "dbl_excess m e = max (bits (nat \<bar>m\<bar>) - 53) (nat (- 1074 - e))"

definition round_even :: "nat \<Rightarrow> nat \<Rightarrow> nat" where
  "round_even k n =
     (let q = n div 2 ^ k; r = 2 * (n mod 2 ^ k)
      in if r > 2 ^ k \<or> r = 2 ^ k \<and> odd q then q + 1 else q)"

definition dbl_round :: "int \<Rightarrow> int \<Rightarrow> double" where
  "dbl_round m e =
     (let k = dbl_excess m e;
          n = (if k = 0 then m else sgn m * int (round_even k (nat \<bar>m\<bar>)));
          x = e + int k
      in if bits (nat \<bar>n\<bar>) > nat (1024 - x) \<and> n \<noteq> 0 then Infinity (m < 0) else Finite n x)"

fun dbl_mult :: "double \<Rightarrow> double \<Rightarrow> double" where
  "dbl_mult (Finite m e) (Finite n f) = dbl_round (m * n) (e + f)"
| "dbl_mult (Infinity s) (Finite n f) = (if n = 0 then NotANumber else Infinity (s \<noteq> (n < 0)))"
| "dbl_mult (Finite m e) (Infinity t) = (if m = 0 then NotANumber else Infinity ((m < 0) \<noteq> t))"
| "dbl_mult (Infinity s) (Infinity t) = Infinity (s \<noteq> t)"
| "dbl_mult NotANumber d = NotANumber"
| "dbl_mult d NotANumber = NotANumber"

text \<open>Comparison with an integer that is itself a double; nothing compares with what is not a number.\<close>

definition dbl_ge :: "double \<Rightarrow> int \<Rightarrow> bool" where
  "dbl_ge d c \<longleftrightarrow> (case d of
     Finite m e \<Rightarrow> if 0 \<le> e then c \<le> m * 2 ^ nat e else c * 2 ^ nat (- e) \<le> m
   | Infinity negative \<Rightarrow> \<not> negative
   | NotANumber \<Rightarrow> False)"

definition dbl_less :: "double \<Rightarrow> int \<Rightarrow> bool" where
  "dbl_less d c \<longleftrightarrow> d \<noteq> NotANumber \<and> \<not> dbl_ge d c"

text \<open>\<^verbatim>\<open>static_cast<uint64_t>\<close>: defined only when the truncated value fits.\<close>

definition dbl_to_u64 :: "double \<Rightarrow> u64 option" where
  "dbl_to_u64 d = (case d of
     Finite m e \<Rightarrow>
       (let v = (if 0 \<le> e then m * 2 ^ nat e else sgn m * (\<bar>m\<bar> div 2 ^ nat (- e)))
        in if 0 \<le> v \<and> v < 2 ^ 64 then Some (word_of_int v) else None)
   | _ \<Rightarrow> None)"

definition k_nanoSecInMilliSec :: double where
  "k_nanoSecInMilliSec = dbl_mult (Finite 1000 0) (Finite 1000 0)"

text \<open>The largest \<^verbatim>\<open>uint64_t\<close> as a double is \<open>2 ^ 64\<close>.\<close>

definition convertMilliSecToNanoSec :: "double \<Rightarrow> NanoSecondType option" where
  "convertMilliSecToNanoSec f_timeValueMilliSec =
     (let timeValue = dbl_mult f_timeValueMilliSec k_nanoSecInMilliSec
      in if dbl_ge timeValue (2 ^ 64) then Some UINT64_MAX
         else if dbl_less timeValue 0 then Some 0
         else dbl_to_u64 timeValue)"

text \<open>\<^verbatim>\<open>static_cast<double>(std::uint32_t)\<close> is exact.\<close>

definition dbl_of_u32 :: "u32 \<Rightarrow> double" where
  "dbl_of_u32 x = Finite (uint x) 0"

subsection \<open>Whole milliseconds are exact\<close>

lemma bits_le: "n < 2 ^ k \<Longrightarrow> bits n \<le> k"
proof (induction n arbitrary: k rule: bits.induct)
  case (1 n)
  show ?case
  proof (cases "n = 0")
    case False
    then obtain j where "k = Suc j" using "1.prems" by (cases k) auto
    with "1" False show ?thesis by (subst bits.simps) (auto simp: less_mult_imp_div_less mult.commute)
  qed (simp add: bits.simps)
qed

lemma dbl_round_exact:
  assumes "\<bar>m\<bar> < 2 ^ 53" "- 1074 \<le> e" "e \<le> 971"
  shows "dbl_round m e = Finite m e"
proof -
  have "nat \<bar>m\<bar> < 2 ^ 53" using assms(1) by (simp add: nat_less_iff)
  then have "bits (nat \<bar>m\<bar>) \<le> 53" by (rule bits_le)
  then show ?thesis using assms(2,3) by (auto simp: dbl_round_def dbl_excess_def Let_def)
qed

lemma k_nanoSecInMilliSec_eq: "k_nanoSecInMilliSec = Finite 1000000 0"
  by (simp add: k_nanoSecInMilliSec_def dbl_round_exact)

lemma convertMilliSecToNanoSec_exact:
  assumes "0 \<le> n" "n * 1000000 < 2 ^ 53"
  shows "convertMilliSecToNanoSec (Finite n 0) = Some (word_of_int (n * 1000000))"
proof -
  have "dbl_mult (Finite n 0) k_nanoSecInMilliSec = Finite (n * 1000000) 0"
    using assms by (simp add: k_nanoSecInMilliSec_eq dbl_round_exact)
  then show ?thesis using assms by (simp add: convertMilliSecToNanoSec_def dbl_ge_def dbl_less_def dbl_to_u64_def)
qed

text \<open>Every time in milliseconds that fits 32 bits is converted exactly.\<close>

lemma convertMilliSecToNanoSec_u32: "convertMilliSecToNanoSec (dbl_of_u32 x) = Some (ucast x * 1000000)"
proof -
  have "uint x < 2 ^ 32" using uint_bounded [of x] by simp
  then have "convertMilliSecToNanoSec (Finite (uint x) 0) = Some (word_of_int (uint x * 1000000))"
    by (intro convertMilliSecToNanoSec_exact) simp_all
  also have "word_of_int (uint x * 1000000) = (ucast x * 1000000 :: u64)"
    unfolding ucast_eq by (simp only: of_int_mult of_int_numeral)
  finally show ?thesis unfolding dbl_of_u32_def .
qed

text \<open>A finite time is always converted, and an infinite one saturates.\<close>

lemma dbl_ge_Finite: "dbl_ge (Finite m e) c \<longleftrightarrow> c \<le> (if 0 \<le> e then m * 2 ^ nat e else m div 2 ^ nat (- e))"
proof -
  have "c * b \<le> m \<longleftrightarrow> c \<le> m div b" if "0 < b" for b :: int
  proof
    assume "c * b \<le> m"
    then show "c \<le> m div b" using zdiv_mono1 [of "c * b" m b] that by simp
  next
    assume "c \<le> m div b"
    then have "c * b \<le> m div b * b" using that by (simp add: mult_right_mono)
    also have "\<dots> \<le> m" using div_mult_mod_eq [of m b] pos_mod_sign [OF that, of m] by linarith
    finally show "c * b \<le> m" .
  qed
  then show ?thesis by (simp add: dbl_ge_def)
qed

lemma convertMilliSecToNanoSec_defined:
  assumes "d \<noteq> NotANumber"
  shows "\<exists>t. convertMilliSecToNanoSec d = Some t"
proof -
  have t: "dbl_mult d k_nanoSecInMilliSec \<noteq> NotANumber"
    using assms by (cases d) (auto simp: k_nanoSecInMilliSec_eq dbl_round_def Let_def)
  have "\<exists>t. dbl_to_u64 x = Some t" if "x \<noteq> NotANumber" "\<not> dbl_ge x (2 ^ 64)" "\<not> dbl_less x 0" for x
  proof (cases x)
    case (Finite m e)
    then have "0 \<le> (if 0 \<le> e then m * 2 ^ nat e else m div 2 ^ nat (- e))"
      "(if 0 \<le> e then m * 2 ^ nat e else m div 2 ^ nat (- e)) < 2 ^ 64"
      using that unfolding dbl_less_def Finite dbl_ge_Finite by auto
    moreover from this have "0 \<le> m" by (auto split: if_splits simp: pos_imp_zdiv_nonneg_iff zero_le_mult_iff)
    ultimately show ?thesis using Finite by (auto simp: dbl_to_u64_def Let_def sgn_if)
  qed (use that in \<open>auto simp: dbl_ge_def dbl_less_def\<close>)
  with t show ?thesis by (auto simp: convertMilliSecToNanoSec_def Let_def)
qed

lemma convertMilliSecToNanoSec_infinite: "convertMilliSecToNanoSec (Infinity False) = Some UINT64_MAX"
  by (simp add: convertMilliSecToNanoSec_def k_nanoSecInMilliSec_eq dbl_ge_def)

end
