(* ===== verification/Machine_Config.thy ===== *)
theory Machine_Config
  imports Time_Conversion Watchdog Monitor_Interface
begin

section \<open>The machine configuration of the health monitor\<close>

text \<open>
  Models \<^verbatim>\<open>saf/factory/MachineConfigFactory.{hpp,cpp}\<close> and the constants of \<^verbatim>\<open>StaticConfig.hpp\<close>: the buffer
  sizes, the cycle time and the watchdog devices, read from \<^verbatim>\<open>hmcore.bin\<close> when that file exists.

  The accessors of the generated flatbuffer classes are the fields of the input records; one that may
  return a null pointer is an \<open>option\<close>, an absent number reads as 0. Opening the file and locating the
  root table are inputs. Assertions are those of a release build, where they are not evaluated.
\<close>

subsection \<open>The flatbuffer tree\<close>

record HmcoreWatchdog =
  hw_deviceFilePath :: "string option"
  hw_maxTimeout :: u32
  hw_deactivateOnShutdown :: bool
  hw_hasValueDeactivateOnShutdown :: bool
  hw_requireMagicClose :: bool
  hw_hasValueRequireMagicClose :: bool

record HmConfig =
  hc_periodicity :: u32
  hc_bufferSizeMonitor :: u16
  hc_bufferSizeAliveSupervision :: u16
  hc_bufferSizeDeadlineSupervision :: u16
  hc_bufferSizeLogicalSupervision :: u16
  hc_bufferSizeLocalSupervision :: u16
  hc_bufferSizeGlobalSupervision :: u16

record HMCOREEcuCfg =
  hmcore_watchdogs :: "HmcoreWatchdog list option"
  hmcore_config :: "HmConfig list option"

subsection \<open>The factory\<close>

definition k_DefaultSupBufferElements :: u16 where
  "k_DefaultSupBufferElements = 100"

definition k_DefaultMonitorBufferElements :: u16 where
  "k_DefaultMonitorBufferElements = of_nat k_maxCheckpointBufferElements"

definition k_hmDaemonDefaultCycleTime :: NanoSecondType where
  "k_hmDaemonDefaultCycleTime = 10000000"

record SupervisionBufferConfig =
  bufferSizeAliveSupervision :: u16
  bufferSizeDeadlineSupervision :: u16
  bufferSizeLogicalSupervision :: u16
  bufferSizeLocalSupervision :: u16
  bufferSizeGlobalSupervision :: u16
  bufferSizeMonitor :: u16

record MachineConfigFactory =
  watchdogConfigs :: "DeviceConfig list"
  cycleTimeNs :: NanoSecondType
  supBufferCfg :: SupervisionBufferConfig

definition SupervisionBufferConfig_new :: SupervisionBufferConfig where
  "SupervisionBufferConfig_new =
     \<lparr>bufferSizeAliveSupervision = k_DefaultSupBufferElements, bufferSizeDeadlineSupervision = k_DefaultSupBufferElements,
      bufferSizeLogicalSupervision = k_DefaultSupBufferElements, bufferSizeLocalSupervision = k_DefaultSupBufferElements,
      bufferSizeGlobalSupervision = k_DefaultSupBufferElements, bufferSizeMonitor = k_DefaultMonitorBufferElements\<rparr>"

definition MachineConfigFactory_new :: MachineConfigFactory where
  "MachineConfigFactory_new =
     \<lparr>watchdogConfigs = [], cycleTimeNs = k_hmDaemonDefaultCycleTime, supBufferCfg = SupervisionBufferConfig_new\<rparr>"

definition updateNonDefaultValue :: "u16 \<Rightarrow> u16 \<Rightarrow> u16" where
  "updateNonDefaultValue f_field_r f_value = (if f_value \<noteq> 0 then f_value else f_field_r)"

definition loadHmSettings :: "HMCOREEcuCfg \<Rightarrow> MachineConfigFactory \<Rightarrow> MachineConfigFactory option" where
  "loadHmSettings f_flatBuffer_r f =
     (case hmcore_config f_flatBuffer_r of
        Some [config] \<Rightarrow>
          (let b = supBufferCfg f;
               b = b\<lparr>bufferSizeAliveSupervision := updateNonDefaultValue (bufferSizeAliveSupervision b) (hc_bufferSizeAliveSupervision config)\<rparr>;
               b = b\<lparr>bufferSizeDeadlineSupervision := updateNonDefaultValue (bufferSizeDeadlineSupervision b) (hc_bufferSizeDeadlineSupervision config)\<rparr>;
               b = b\<lparr>bufferSizeLogicalSupervision := updateNonDefaultValue (bufferSizeLogicalSupervision b) (hc_bufferSizeLogicalSupervision config)\<rparr>;
               b = b\<lparr>bufferSizeLocalSupervision := updateNonDefaultValue (bufferSizeLocalSupervision b) (hc_bufferSizeLocalSupervision config)\<rparr>;
               b = b\<lparr>bufferSizeGlobalSupervision := updateNonDefaultValue (bufferSizeGlobalSupervision b) (hc_bufferSizeGlobalSupervision config)\<rparr>;
               b = b\<lparr>bufferSizeMonitor := updateNonDefaultValue (bufferSizeMonitor b) (hc_bufferSizeMonitor config)\<rparr>
           in do {
             t \<leftarrow> (if hc_periodicity config \<noteq> 0 then convertMilliSecToNanoSec (dbl_of_u32 (hc_periodicity config))
                    else Some (cycleTimeNs f));
             let b = (if bufferSizeMonitor b \<noteq> k_DefaultMonitorBufferElements
                      then b\<lparr>bufferSizeMonitor := k_DefaultMonitorBufferElements\<rparr> else b);
             Some (f\<lparr>supBufferCfg := b, cycleTimeNs := t\<rparr>)
           })
      | _ \<Rightarrow> Some f)"

text \<open>The cast of the timeout keeps the low 16 bits; a missing path would be a null dereference.\<close>

definition loadWatchdogDevice :: "HmcoreWatchdog \<Rightarrow> DeviceConfig option" where
  "loadWatchdogDevice wdg =
     (let config = \<lparr>fileName = '''', timeoutMin = 0, timeoutMax = 0, canBeDeactivated = True, needsMagicClose = False\<rparr>;
          config = config\<lparr>timeoutMax := ucast (hw_maxTimeout wdg)\<rparr>
      in do {
        path \<leftarrow> hw_deviceFilePath wdg;
        let config = config\<lparr>fileName := path\<rparr>;
        let config = (if hw_hasValueDeactivateOnShutdown wdg
                      then config\<lparr>canBeDeactivated := hw_deactivateOnShutdown wdg\<rparr> else config);
        Some (if hw_hasValueRequireMagicClose wdg then config\<lparr>needsMagicClose := hw_requireMagicClose wdg\<rparr> else config)
      })"

fun loadWatchdogDevices_loop :: "HmcoreWatchdog list \<Rightarrow> MachineConfigFactory \<Rightarrow> MachineConfigFactory option" where
  "loadWatchdogDevices_loop [] f = Some f"
| "loadWatchdogDevices_loop (wdg # wdgs) f = do {
     config \<leftarrow> loadWatchdogDevice wdg;
     loadWatchdogDevices_loop wdgs (f\<lparr>watchdogConfigs := watchdogConfigs f @ [config]\<rparr>)
   }"

definition loadWatchdogDevices :: "HMCOREEcuCfg \<Rightarrow> MachineConfigFactory \<Rightarrow> MachineConfigFactory option" where
  "loadWatchdogDevices f_flatBuffer_r f =
     (case hmcore_watchdogs f_flatBuffer_r of
        None \<Rightarrow> Some f
      | Some watchdogs \<Rightarrow> if watchdogs = [] then Some f else loadWatchdogDevices_loop watchdogs f)"

definition loadHmCoreConfig :: "HMCOREEcuCfg \<Rightarrow> MachineConfigFactory \<Rightarrow> (bool \<times> MachineConfigFactory) option" where
  "loadHmCoreConfig f_cfg_r f = do {
     f \<leftarrow> loadHmSettings f_cfg_r f;
     f \<leftarrow> loadWatchdogDevices f_cfg_r f;
     Some (True, f)
   }"

text \<open>The file: \<open>None\<close> when it cannot be opened, \<open>Some None\<close> when it has no root table.\<close>

definition mc_init :: "HMCOREEcuCfg option option \<Rightarrow> MachineConfigFactory \<Rightarrow> (bool \<times> MachineConfigFactory) option" where
  "mc_init file f =
     (case file of
        None \<Rightarrow> Some (True, f)
      | Some None \<Rightarrow> Some (False, f)
      | Some (Some flatBuffer) \<Rightarrow> loadHmCoreConfig flatBuffer f)"

definition getDeviceConfigurations :: "MachineConfigFactory \<Rightarrow> DeviceConfig list option" where
  "getDeviceConfigurations f = Some (watchdogConfigs f)"

definition getCycleTimeInNs :: "MachineConfigFactory \<Rightarrow> NanoSecondType" where
  "getCycleTimeInNs f = cycleTimeNs f"

definition getSupervisionBufferConfig :: "MachineConfigFactory \<Rightarrow> SupervisionBufferConfig" where
  "getSupervisionBufferConfig f = supBufferCfg f"

subsection \<open>What is loaded\<close>

text \<open>The settings in force: those of the only configuration entry, where they are not 0.\<close>

definition hm_setting :: "HMCOREEcuCfg \<Rightarrow> (HmConfig \<Rightarrow> u16) \<Rightarrow> u16" where
  "hm_setting cfg get =
     (case hmcore_config cfg of
        Some [c] \<Rightarrow> if get c = 0 then k_DefaultSupBufferElements else get c
      | _ \<Rightarrow> k_DefaultSupBufferElements)"

definition hm_periodicity :: "HMCOREEcuCfg \<Rightarrow> u32" where
  "hm_periodicity cfg =
     (case hmcore_config cfg of Some [c] \<Rightarrow> if hc_periodicity c = 0 then 10 else hc_periodicity c | _ \<Rightarrow> 10)"

definition hm_device :: "HmcoreWatchdog \<Rightarrow> DeviceConfig" where
  "hm_device w =
     \<lparr>fileName = the (hw_deviceFilePath w), timeoutMin = 0, timeoutMax = ucast (hw_maxTimeout w),
      canBeDeactivated = (hw_hasValueDeactivateOnShutdown w \<longrightarrow> hw_deactivateOnShutdown w),
      needsMagicClose = (hw_hasValueRequireMagicClose w \<and> hw_requireMagicClose w)\<rparr>"

definition hm_devices :: "HMCOREEcuCfg \<Rightarrow> HmcoreWatchdog list" where
  "hm_devices cfg = (case hmcore_watchdogs cfg of None \<Rightarrow> [] | Some ws \<Rightarrow> ws)"

lemma loadHmSettings_eq:
  "loadHmSettings cfg MachineConfigFactory_new = Some (MachineConfigFactory_new
     \<lparr>supBufferCfg := \<lparr>bufferSizeAliveSupervision = hm_setting cfg hc_bufferSizeAliveSupervision,
        bufferSizeDeadlineSupervision = hm_setting cfg hc_bufferSizeDeadlineSupervision,
        bufferSizeLogicalSupervision = hm_setting cfg hc_bufferSizeLogicalSupervision,
        bufferSizeLocalSupervision = hm_setting cfg hc_bufferSizeLocalSupervision,
        bufferSizeGlobalSupervision = hm_setting cfg hc_bufferSizeGlobalSupervision,
        bufferSizeMonitor = k_DefaultMonitorBufferElements\<rparr>,
      cycleTimeNs := ucast (hm_periodicity cfg) * 1000000\<rparr>)"
  by (auto simp: loadHmSettings_def MachineConfigFactory_new_def SupervisionBufferConfig_new_def hm_setting_def hm_periodicity_def
      updateNonDefaultValue_def convertMilliSecToNanoSec_u32 k_hmDaemonDefaultCycleTime_def Let_def split: option.split list.split)

lemma loadWatchdogDevice_eq:
  "hw_deviceFilePath w \<noteq> None \<Longrightarrow> loadWatchdogDevice w = Some (hm_device w)"
  by (auto simp: loadWatchdogDevice_def hm_device_def Let_def)

lemma loadWatchdogDevices_loop_eq:
  assumes "\<forall>w \<in> set ws. hw_deviceFilePath w \<noteq> None"
  shows "loadWatchdogDevices_loop ws f = Some (f\<lparr>watchdogConfigs := watchdogConfigs f @ map hm_device ws\<rparr>)"
  using assms by (induction ws arbitrary: f) (simp_all add: loadWatchdogDevice_eq)

lemma mc_init_loaded:
  assumes "\<forall>w \<in> set (hm_devices cfg). hw_deviceFilePath w \<noteq> None"
  shows "\<exists>f. mc_init (Some (Some cfg)) MachineConfigFactory_new = Some (True, f) \<and>
     getSupervisionBufferConfig f =
       \<lparr>bufferSizeAliveSupervision = hm_setting cfg hc_bufferSizeAliveSupervision,
        bufferSizeDeadlineSupervision = hm_setting cfg hc_bufferSizeDeadlineSupervision,
        bufferSizeLogicalSupervision = hm_setting cfg hc_bufferSizeLogicalSupervision,
        bufferSizeLocalSupervision = hm_setting cfg hc_bufferSizeLocalSupervision,
        bufferSizeGlobalSupervision = hm_setting cfg hc_bufferSizeGlobalSupervision,
        bufferSizeMonitor = k_DefaultMonitorBufferElements\<rparr> \<and>
     unat (getCycleTimeInNs f) = unat (hm_periodicity cfg) * 1000000 \<and>
     getDeviceConfigurations f = Some (map hm_device (hm_devices cfg))"
proof -
  have p: "unat (ucast x * 1000000 :: u64) = unat x * 1000000" for x :: u32
  proof -
    have "unat x < 2 ^ 32" using unsigned_less [of x] by simp
    then show ?thesis by (simp add: unat_word_ariths unsigned_ucast_eq take_bit_nat_eq_self)
  qed
  have "loadWatchdogDevices cfg f = Some (f\<lparr>watchdogConfigs := watchdogConfigs f @ map hm_device (hm_devices cfg)\<rparr>)" for f
    using assms loadWatchdogDevices_loop_eq
    by (auto simp: loadWatchdogDevices_def hm_devices_def split: option.splits)
  then show ?thesis
    by (simp add: mc_init_def loadHmCoreConfig_def loadHmSettings_eq getSupervisionBufferConfig_def getCycleTimeInNs_def
        getDeviceConfigurations_def p) (simp add: MachineConfigFactory_new_def)
qed

text \<open>
  The machine configuration that is loaded: a missing file and every missing entry stand for the
  defaults (100 elements per buffer, a cycle of 10 milliseconds, no watchdog), the configured period is
  converted without loss for every 32 bit number of milliseconds, the devices are taken over in order,
  and the size of the monitor's buffer is always the one compiled into the client library.
\<close>

theorem machine_config_loaded:
  assumes "\<forall>w \<in> set (hm_devices cfg). hw_deviceFilePath w \<noteq> None"
  shows "\<exists>f. mc_init (Some (Some cfg)) MachineConfigFactory_new = Some (True, f) \<and>
     getSupervisionBufferConfig f =
       \<lparr>bufferSizeAliveSupervision = hm_setting cfg hc_bufferSizeAliveSupervision,
        bufferSizeDeadlineSupervision = hm_setting cfg hc_bufferSizeDeadlineSupervision,
        bufferSizeLogicalSupervision = hm_setting cfg hc_bufferSizeLogicalSupervision,
        bufferSizeLocalSupervision = hm_setting cfg hc_bufferSizeLocalSupervision,
        bufferSizeGlobalSupervision = hm_setting cfg hc_bufferSizeGlobalSupervision,
        bufferSizeMonitor = k_DefaultMonitorBufferElements\<rparr> \<and>
     unat (getCycleTimeInNs f) = unat (hm_periodicity cfg) * 1000000 \<and>
     getDeviceConfigurations f = Some (map hm_device (hm_devices cfg))"
  using mc_init_loaded [OF assms] .

definition mc_example :: HMCOREEcuCfg where
  "mc_example = \<lparr>hmcore_watchdogs = Some [\<lparr>hw_deviceFilePath = Some ''/dev/watchdog'', hw_maxTimeout = 2000,
       hw_deactivateOnShutdown = False, hw_hasValueDeactivateOnShutdown = True, hw_requireMagicClose = False,
       hw_hasValueRequireMagicClose = False\<rparr>],
     hmcore_config = Some [\<lparr>hc_periodicity = 50, hc_bufferSizeMonitor = 64, hc_bufferSizeAliveSupervision = 0,
       hc_bufferSizeDeadlineSupervision = 20, hc_bufferSizeLogicalSupervision = 0, hc_bufferSizeLocalSupervision = 0,
       hc_bufferSizeGlobalSupervision = 0\<rparr>]\<rparr>"

theorem machine_config_loaded_witness:
  "\<exists>f. mc_init (Some (Some mc_example)) MachineConfigFactory_new = Some (True, f) \<and> unat (getCycleTimeInNs f) = 50000000 \<and>
     bufferSizeAliveSupervision (getSupervisionBufferConfig f) = 100 \<and> bufferSizeDeadlineSupervision (getSupervisionBufferConfig f) = 20"
proof -
  have "\<forall>w \<in> set (hm_devices mc_example). hw_deviceFilePath w \<noteq> None" by (simp add: hm_devices_def mc_example_def)
  from machine_config_loaded [OF this] show ?thesis
    by (auto simp: hm_periodicity_def hm_setting_def mc_example_def k_DefaultSupBufferElements_def)
qed

text \<open>The cast of a timeout above 16 bits keeps a number that may pass the watchdog's own check.\<close>

lemma watchdog_timeout_truncated:
  "\<exists>w c. loadWatchdogDevice w = Some c \<and> unat (hw_maxTimeout w) = 67536 \<and> timeoutMax c = 2000 \<and> hasValidTimeout c"
  by (intro exI [of _ "\<lparr>hw_deviceFilePath = Some ''/dev/watchdog'', hw_maxTimeout = 67536, hw_deactivateOnShutdown = False,
        hw_hasValueDeactivateOnShutdown = False, hw_requireMagicClose = False, hw_hasValueRequireMagicClose = False\<rparr>"])
    (simp add: loadWatchdogDevice_def hasValidTimeout_def kTimeoutMinMillis_def kTimeoutMaxMillis_def kTimeoutResolution_def Let_def)

end
