(* ===== verification/Ipc_Access.thy ===== *)
theory Ipc_Access
  imports Ipc_Channel
begin

section \<open>Access rights of a channel\<close>

text \<open>
  Models \<^verbatim>\<open>IpcServer::setAccessRights\<close> of \<^verbatim>\<open>saf/ipc/IpcServer.hpp\<close>: the access control list that admits
  one more user to the shared memory of a channel. \<open>ok\<close> tells which of the system's calls succeed;
  the calls made are recorded in order, and so is the list built so far and the one put in force.
\<close>

datatype AclTag = ACL_MASK | ACL_USER_OBJ | ACL_GROUP_OBJ | ACL_OTHER | ACL_USER

datatype AclCall =
  Acl_open | Acl_init | Acl_create_entry AclTag | Acl_set_tag_type AclTag | Acl_set_qualifier AclTag
| Acl_get_permset AclTag | Acl_add_read AclTag | Acl_add_write AclTag | Acl_valid | Acl_set_fd | Acl_free | Acl_close

record AclEntry =
  ae_tag :: AclTag
  ae_read :: bool
  ae_write :: bool
  ae_user :: "u32 option"

record AclState =
  acl_calls :: "AclCall list"
  acl_built :: "AclEntry list"
  acl_inForce :: "AclEntry list option"

definition AclState_new :: AclState where
  "AclState_new = \<lparr>acl_calls = [], acl_built = [], acl_inForce = None\<rparr>"

definition acl_call :: "(AclCall \<Rightarrow> bool) \<Rightarrow> AclCall \<Rightarrow> AclState \<Rightarrow> bool \<times> AclState" where
  "acl_call ok c s = (ok c, s\<lparr>acl_calls := acl_calls s @ [c]\<rparr>)"

text \<open>Calls in a row, each made only when the ones before succeeded.\<close>

fun acl_seq :: "(AclCall \<Rightarrow> bool) \<Rightarrow> AclCall list \<Rightarrow> AclState \<Rightarrow> bool \<times> AclState" where
  "acl_seq ok [] s = (True, s)"
| "acl_seq ok (c # cs) s = (let (r, s) = acl_call ok c s in if r then acl_seq ok cs s else (False, s))"

definition entry_calls :: "AclTag \<Rightarrow> bool \<Rightarrow> bool \<Rightarrow> bool \<Rightarrow> AclCall list" where
  "entry_calls tag read write useQualifier =
     [Acl_create_entry tag, Acl_set_tag_type tag] @ (if useQualifier then [Acl_set_qualifier tag] else []) @
     [Acl_get_permset tag] @ (if read then [Acl_add_read tag] else []) @ (if write then [Acl_add_write tag] else [])"

definition addPermissionEntry ::
  "(AclCall \<Rightarrow> bool) \<Rightarrow> AclTag \<Rightarrow> bool \<Rightarrow> bool \<Rightarrow> u32 option \<Rightarrow> AclState \<Rightarrow> bool \<times> AclState"
where
  "addPermissionEntry ok tag read write user s =
     (let (r, s) = acl_seq ok (entry_calls tag read write (user \<noteq> None)) s
      in if r then (True, s\<lparr>acl_built := acl_built s @ [\<lparr>ae_tag = tag, ae_read = read, ae_write = write, ae_user = user\<rparr>]\<rparr>)
         else (False, s))"

text \<open>\<^verbatim>\<open>exit_function\<close>\<close>

definition acl_exit :: "(AclCall \<Rightarrow> bool) \<Rightarrow> bool \<Rightarrow> AclState \<Rightarrow> bool \<times> AclState" where
  "acl_exit ok return_value s =
     (return_value, snd (acl_call ok Acl_close (snd (acl_call ok Acl_free s))))"

definition and_then :: "bool \<times> AclState \<Rightarrow> (AclState \<Rightarrow> bool \<times> AclState) \<Rightarrow> bool \<times> AclState" where
  "and_then p f = (let (r, s) = p in if r then f s else (False, s))"

definition setAccessRights :: "(AclCall \<Rightarrow> bool) \<Rightarrow> u32 \<Rightarrow> AclState \<Rightarrow> bool \<times> AclState" where
  "setAccessRights ok f_uid s =
     (let (opened, s) = acl_call ok Acl_open s
      in if \<not> opened then (False, s)
         else (let (inited, s) = acl_call ok Acl_init s
               in if \<not> inited then (False, snd (acl_call ok Acl_close s))
                  else (let (r, s) = addPermissionEntry ok ACL_MASK True True None s;
                            (r, s) = and_then (r, s) (addPermissionEntry ok ACL_USER_OBJ True True None);
                            (r, s) = and_then (r, s) (addPermissionEntry ok ACL_GROUP_OBJ False False None);
                            (r, s) = and_then (r, s) (addPermissionEntry ok ACL_OTHER False False None);
                            (r, s) = and_then (r, s) (addPermissionEntry ok ACL_USER True True (Some f_uid))
                        in if \<not> r then acl_exit ok False s
                           else (let (valid, s) = acl_call ok Acl_valid s
                                 in if \<not> valid then acl_exit ok False s
                                    else (let (set, s) = acl_call ok Acl_set_fd s
                                          in if \<not> set then acl_exit ok False s
                                             else acl_exit ok True (s\<lparr>acl_inForce := Some (acl_built s)\<rparr>))))))"

subsection \<open>What the calls amount to\<close>

text \<open>A sequence of calls whose outcome decides a value, with the state threaded through it.\<close>

lemma acl_seq_spec:
  "\<exists>made. acl_seq ok cs s = (list_all ok cs, s\<lparr>acl_calls := acl_calls s @ made\<rparr>) \<and> set made \<subseteq> set cs"
proof (induction cs arbitrary: s)
  case (Cons c cs)
  show ?case
  proof (cases "ok c")
    case True
    obtain made where "acl_seq ok cs (s\<lparr>acl_calls := acl_calls s @ [c]\<rparr>) =
        (list_all ok cs, s\<lparr>acl_calls := (acl_calls s @ [c]) @ made\<rparr>)" "set made \<subseteq> set cs"
      using Cons.IH [of "s\<lparr>acl_calls := acl_calls s @ [c]\<rparr>"] by auto
    then show ?thesis using True by (intro exI [of _ "c # made"]) (auto simp: acl_call_def)
  qed (auto simp: acl_call_def intro!: exI [of _ "[c]"])
qed (auto intro!: exI [of _ "[]"])

text \<open>The calls that neither open nor release anything.\<close>

definition neutral :: "AclCall list \<Rightarrow> bool" where
  "neutral cs \<longleftrightarrow> set cs \<inter> {Acl_open, Acl_init, Acl_free, Acl_close, Acl_set_fd} = {}"

lemma neutral_append [simp]: "neutral (xs @ ys) \<longleftrightarrow> neutral xs \<and> neutral ys"
  by (auto simp: neutral_def)

lemma entry_calls_neutral: "set made \<subseteq> set (entry_calls tag read write q) \<Longrightarrow> neutral made"
  by (auto simp: neutral_def entry_calls_def split: if_splits)

definition entry_ok :: "(AclCall \<Rightarrow> bool) \<Rightarrow> AclTag \<Rightarrow> bool \<Rightarrow> bool \<Rightarrow> u32 option \<Rightarrow> bool" where
  "entry_ok ok tag read write user = list_all ok (entry_calls tag read write (user \<noteq> None))"

lemma addPermissionEntry_spec:
  "\<exists>made. addPermissionEntry ok tag read write user s =
     (entry_ok ok tag read write user, s\<lparr>acl_calls := acl_calls s @ made,
        acl_built := acl_built s @ (if entry_ok ok tag read write user
           then [\<lparr>ae_tag = tag, ae_read = read, ae_write = write, ae_user = user\<rparr>] else [])\<rparr>) \<and> neutral made"
proof -
  obtain made where "acl_seq ok (entry_calls tag read write (user \<noteq> None)) s =
      (list_all ok (entry_calls tag read write (user \<noteq> None)), s\<lparr>acl_calls := acl_calls s @ made\<rparr>)"
    "set made \<subseteq> set (entry_calls tag read write (user \<noteq> None))"
    using acl_seq_spec by blast
  then show ?thesis
    by (intro exI [of _ made]) (simp add: addPermissionEntry_def entry_ok_def entry_calls_neutral)
qed

definition entry_of :: "AclTag \<Rightarrow> bool \<Rightarrow> bool \<Rightarrow> u32 option \<Rightarrow> AclEntry" where
  "entry_of tag read write user = \<lparr>ae_tag = tag, ae_read = read, ae_write = write, ae_user = user\<rparr>"

text \<open>The state after some of the entries: what was built when all went well so far.\<close>

definition acl_progress :: "AclState \<Rightarrow> AclEntry list \<Rightarrow> bool \<Rightarrow> bool \<times> AclState \<Rightarrow> bool" where
  "acl_progress s0 es r p \<longleftrightarrow> fst p = r \<and> (r \<longrightarrow> acl_built (snd p) = acl_built s0 @ es) \<and>
     acl_inForce (snd p) = acl_inForce s0 \<and> (\<exists>made. acl_calls (snd p) = acl_calls s0 @ made \<and> neutral made)"

lemma acl_progress_start: "acl_progress s [] True (True, s)"
  by (simp add: acl_progress_def neutral_def)

lemma acl_progress_step:
  assumes "acl_progress s0 es r p"
  shows "acl_progress s0 (es @ [entry_of tag read write user]) (r \<and> entry_ok ok tag read write user)
    (and_then p (addPermissionEntry ok tag read write user))"
proof (cases r)
  case True
  obtain made where "addPermissionEntry ok tag read write user (snd p) =
     (entry_ok ok tag read write user, (snd p)\<lparr>acl_calls := acl_calls (snd p) @ made,
        acl_built := acl_built (snd p) @ (if entry_ok ok tag read write user
           then [entry_of tag read write user] else [])\<rparr>)" "neutral made"
    using addPermissionEntry_spec [of ok tag read "write" user "snd p"] unfolding entry_of_def by blast
  then show ?thesis
    using True assms by (cases p) (auto simp: acl_progress_def and_then_def)
next
  case False
  then show ?thesis using assms by (cases p) (auto simp: acl_progress_def and_then_def)
qed

text \<open>The list that admits the owner and one user.\<close>

definition acl_of_user :: "u32 \<Rightarrow> AclEntry list" where
  "acl_of_user uid =
     [entry_of ACL_MASK True True None, entry_of ACL_USER_OBJ True True None, entry_of ACL_GROUP_OBJ False False None,
      entry_of ACL_OTHER False False None, entry_of ACL_USER True True (Some uid)]"

definition acl_entries_ok :: "(AclCall \<Rightarrow> bool) \<Rightarrow> u32 \<Rightarrow> bool" where
  "acl_entries_ok ok uid \<longleftrightarrow>
     entry_ok ok ACL_MASK True True None \<and> entry_ok ok ACL_USER_OBJ True True None \<and> entry_ok ok ACL_GROUP_OBJ False False None \<and>
     entry_ok ok ACL_OTHER False False None \<and> entry_ok ok ACL_USER True True (Some uid)"

lemma acl_entries_built:
  "acl_progress s (acl_of_user uid) (acl_entries_ok ok uid)
     (and_then (and_then (and_then (and_then (addPermissionEntry ok ACL_MASK True True None s)
        (addPermissionEntry ok ACL_USER_OBJ True True None)) (addPermissionEntry ok ACL_GROUP_OBJ False False None))
        (addPermissionEntry ok ACL_OTHER False False None)) (addPermissionEntry ok ACL_USER True True (Some uid)))"
proof -
  have "addPermissionEntry ok ACL_MASK True True None s = and_then (True, s) (addPermissionEntry ok ACL_MASK True True None)"
    by (simp add: and_then_def)
  then show ?thesis
    using acl_progress_step [OF acl_progress_step [OF acl_progress_step [OF acl_progress_step [OF acl_progress_step
      [OF acl_progress_start [of s], of ACL_MASK True True None ok], of ACL_USER_OBJ True True None ok], of ACL_GROUP_OBJ False False None ok],
      of ACL_OTHER False False None ok], of ACL_USER True True "Some uid" ok]
    by (simp add: acl_of_user_def acl_entries_ok_def conj_assoc)
qed

definition acl_ok :: "(AclCall \<Rightarrow> bool) \<Rightarrow> u32 \<Rightarrow> bool" where
  "acl_ok ok uid \<longleftrightarrow> ok Acl_open \<and> ok Acl_init \<and> acl_entries_ok ok uid \<and> ok Acl_valid \<and> ok Acl_set_fd"

lemma setAccessRights_unfold:
  assumes "ok Acl_open" "ok Acl_init"
  shows "\<exists>s1. acl_progress (s\<lparr>acl_calls := acl_calls s @ [Acl_open, Acl_init]\<rparr>) (acl_of_user uid) (acl_entries_ok ok uid) (acl_entries_ok ok uid, s1) \<and>
    setAccessRights ok uid s =
      (if \<not> acl_entries_ok ok uid then acl_exit ok False s1
       else if \<not> ok Acl_valid then acl_exit ok False (s1\<lparr>acl_calls := acl_calls s1 @ [Acl_valid]\<rparr>)
       else if \<not> ok Acl_set_fd then acl_exit ok False (s1\<lparr>acl_calls := acl_calls s1 @ [Acl_valid, Acl_set_fd]\<rparr>)
       else acl_exit ok True (s1\<lparr>acl_calls := acl_calls s1 @ [Acl_valid, Acl_set_fd], acl_inForce := Some (acl_built s1)\<rparr>))"
proof -
  let ?s = "s\<lparr>acl_calls := acl_calls s @ [Acl_open, Acl_init]\<rparr>"
  let ?p = "and_then (and_then (and_then (and_then (addPermissionEntry ok ACL_MASK True True None ?s)
        (addPermissionEntry ok ACL_USER_OBJ True True None)) (addPermissionEntry ok ACL_GROUP_OBJ False False None))
        (addPermissionEntry ok ACL_OTHER False False None)) (addPermissionEntry ok ACL_USER True True (Some uid))"
  have p: "acl_progress ?s (acl_of_user uid) (acl_entries_ok ok uid) ?p" by (rule acl_entries_built)
  then have f: "?p = (acl_entries_ok ok uid, snd ?p)" by (simp add: acl_progress_def prod_eq_iff)
  have "setAccessRights ok uid s =
      (if \<not> fst ?p then acl_exit ok False (snd ?p)
       else if \<not> ok Acl_valid then acl_exit ok False ((snd ?p)\<lparr>acl_calls := acl_calls (snd ?p) @ [Acl_valid]\<rparr>)
       else if \<not> ok Acl_set_fd then acl_exit ok False ((snd ?p)\<lparr>acl_calls := acl_calls (snd ?p) @ [Acl_valid, Acl_set_fd]\<rparr>)
       else acl_exit ok True ((snd ?p)\<lparr>acl_calls := acl_calls (snd ?p) @ [Acl_valid, Acl_set_fd], acl_inForce := Some (acl_built (snd ?p))\<rparr>))"
    using assms by (simp add: setAccessRights_def acl_call_def case_prod_beta Let_def)
  with p f show ?thesis by (metis fst_conv snd_conv)
qed

lemma setAccessRights_spec:
  "(fst (setAccessRights ok uid AclState_new) \<longleftrightarrow> acl_ok ok uid) \<and>
   acl_inForce (snd (setAccessRights ok uid AclState_new)) = (if acl_ok ok uid then Some (acl_of_user uid) else None) \<and>
   count_list (acl_calls (snd (setAccessRights ok uid AclState_new))) Acl_close = (if ok Acl_open then 1 else 0) \<and>
   count_list (acl_calls (snd (setAccessRights ok uid AclState_new))) Acl_free = (if ok Acl_open \<and> ok Acl_init then 1 else 0)"
proof (cases "ok Acl_open \<and> ok Acl_init")
  case True
  let ?s = "AclState_new\<lparr>acl_calls := acl_calls AclState_new @ [Acl_open, Acl_init]\<rparr>"
  obtain s1 where s1: "acl_progress ?s (acl_of_user uid) (acl_entries_ok ok uid) (acl_entries_ok ok uid, s1)"
    and e: "setAccessRights ok uid AclState_new =
      (if \<not> acl_entries_ok ok uid then acl_exit ok False s1
       else if \<not> ok Acl_valid then acl_exit ok False (s1\<lparr>acl_calls := acl_calls s1 @ [Acl_valid]\<rparr>)
       else if \<not> ok Acl_set_fd then acl_exit ok False (s1\<lparr>acl_calls := acl_calls s1 @ [Acl_valid, Acl_set_fd]\<rparr>)
       else acl_exit ok True (s1\<lparr>acl_calls := acl_calls s1 @ [Acl_valid, Acl_set_fd], acl_inForce := Some (acl_built s1)\<rparr>))"
    using setAccessRights_unfold [of ok AclState_new uid] True by auto
  obtain made where m: "acl_calls s1 = [Acl_open, Acl_init] @ made" "neutral made"
    using s1 by (auto simp: acl_progress_def AclState_new_def)
  have "Acl_close \<notin> set made" "Acl_free \<notin> set made" using m(2) by (auto simp: neutral_def)
  then show ?thesis
    using True s1 m unfolding e acl_ok_def
    by (auto simp: acl_exit_def acl_call_def acl_progress_def AclState_new_def count_list_0_iff)
next
  case False
  then show ?thesis by (auto simp: setAccessRights_def acl_call_def acl_ok_def AclState_new_def)
qed

text \<open>
  (C40) The access rights of a channel: the operation succeeds exactly when every call it needs succeeds,
  and then the list in force is the one that lets the owner and the configured user read and write and
  nobody else; otherwise the rights are as before. On every path what was opened is closed once
  and the list that was allocated is freed once.
\<close>

theorem access_rights_exact:
  "(fst (setAccessRights ok uid AclState_new) \<longleftrightarrow> acl_ok ok uid) \<and>
   acl_inForce (snd (setAccessRights ok uid AclState_new)) = (if acl_ok ok uid then Some (acl_of_user uid) else None) \<and>
   count_list (acl_calls (snd (setAccessRights ok uid AclState_new))) Acl_close = (if ok Acl_open then 1 else 0) \<and>
   count_list (acl_calls (snd (setAccessRights ok uid AclState_new))) Acl_free = (if ok Acl_open \<and> ok Acl_init then 1 else 0)"
  by (rule setAccessRights_spec)

text \<open>
  A channel whose memory cannot be sized or mapped is closed but its name is not unlinked, since the socket
  counts as the server only after the last step; the object that stays makes the next start fail.
\<close>

lemma failed_create_keeps_object:
  assumes "os_fd os \<ge> 0" "os_ftruncateFails os \<or> os_mmapFails os"
  shows "sk_calls (fst (snd (sk_create name os Socket_new b))) = [Close (os_fd os)]"
  using assms by (auto simp: sk_create_def sk_cleanup_def Socket_new_def Let_def)

end
