(* ===== verification/Worker_Factory.thy ===== *)
theory Worker_Factory
  imports Phm_Daemon Machine_Config Ipc_Access
begin

section \<open>The construction of a software cluster\<close>

text \<open>
  Models \<^verbatim>\<open>saf/factory/FlatCfgFactory.cpp\<close> and \<^verbatim>\<open>SwClusterHandler::constructWorkers\<close>: the objects of the
  health monitor are built from the tables of \<^verbatim>\<open>hm_demo.bin\<close> and registered with each other by the
  indexes the tables hold.

  The accessors of the generated flatbuffer classes are the fields of the input records; an accessor
  that may return a null pointer is an \<open>option\<close>, and the elements of a vector of tables are never null.
  Dereferencing a null pointer and an unchecked access outside a vector have no defined result: \<open>None\<close>.
  A checked access (\<^verbatim>\<open>at\<close>) throws; the functions catch every exception, so an iteration has the result
  \<open>False\<close> both for an exception and for a \<^verbatim>\<open>break\<close>. Exhausted memory and log output are not modelled.

  Every vector is reserved before its objects are created, so an object never moves and its place in
  its vector serves as the address of a process state or a checkpoint; the addresses of the
  supervisions, which order the maps of the local and global ones, are arbitrary. A process state
  lives in the store of the reader, a checkpoint also in the interface it is attached to.
\<close>

subsection \<open>The flatbuffer tree\<close>

datatype HmProcessType = REGULAR_PROCESS | LM_PROCESS | STM_PROCESS

record HmProcess =
  hp_shortName :: "string option"
  hp_identifier :: "string option"
  hp_processType :: HmProcessType
  hp_refProcessGroupStates :: "string option list option"
  hp_processExecutionErrors :: "u32 list option"

record HmMonitorInterface =
  hi_interfacePath :: "string option"
  hi_refProcessIndex :: nat
  hi_permittedUid :: u32

record HmSupervisionCheckpoint =
  hs_shortName :: "string option"
  hs_checkpointId :: u32
  hs_refInterfaceIndex :: nat

record HmAliveSupervision =
  ha_ruleContextKey :: "string option"
  ha_refCheckPointIndex :: nat
  ha_aliveReferenceCycle :: double
  ha_minAliveIndications :: u32
  ha_maxAliveIndications :: u32
  ha_isMinCheckDisabled :: bool
  ha_isMaxCheckDisabled :: bool
  ha_failedSupervisionCyclesTolerance :: u32
  ha_refProcessIndex :: nat
  ha_refProcessGroupStates :: "string option list option"

record HmDeadlineSupervision =
  hd_ruleContextKey :: "string option"
  hd_maxDeadline :: double
  hd_minDeadline :: double
  hd_checkpointTransition :: "(nat \<times> nat) option"
  hd_refProcessIndices :: "nat list option"
  hd_refProcessGroupStates :: "string option list option"

record HmLogicalCheckpoint =
  hlc_refCheckPointIndex :: nat
  hlc_isInitial :: bool
  hlc_isFinal :: bool

record HmLogicalSupervision =
  hl_ruleContextKey :: "string option"
  hl_checkpoints :: "HmLogicalCheckpoint list option"
  hl_transitions :: "(nat \<times> nat) list option"
  hl_refProcessIndices :: "nat list option"
  hl_refProcessGroupStates :: "string option list option"

record HmLocalSupervision =
  ho_ruleContextKey :: "string option"
  ho_refAliveSupervision :: "nat list option"
  ho_refDeadlineSupervision :: "nat list option"
  ho_refLogicalSupervision :: "nat list option"

record HmGlobalSupervision =
  hg_ruleContextKey :: "string option"
  hg_localSupervision :: "nat list option"
  hg_refProcesses :: "nat list option"
  hg_refProcessGroupStates :: "(string option \<times> double) list option"

record HmRecoveryNotification =
  hr_shortName :: "string option"
  hr_recoveryNotificationTimeout :: double
  hr_processGroupMetaModelIdentifier :: "string option"
  hr_refGlobalSupervisionIndex :: nat
  hr_instanceSpecifier :: "string option"
  hr_shouldFireWatchdog :: bool

record HMEcuCfg =
  hm_process :: "HmProcess list option"
  hm_monitorInterface :: "HmMonitorInterface list option"
  hm_supervisionCheckpoint :: "HmSupervisionCheckpoint list option"
  hm_aliveSupervision :: "HmAliveSupervision list option"
  hm_deadlineSupervision :: "HmDeadlineSupervision list option"
  hm_logicalSupervision :: "HmLogicalSupervision list option"
  hm_localSupervision :: "HmLocalSupervision list option"
  hm_globalSupervision :: "HmGlobalSupervision list option"
  hm_recoveryNotification :: "HmRecoveryNotification list option"

subsection \<open>The state of the construction\<close>

record CheckpointIpcServer =
  cis_ipc :: Ipc
  cis_buffer :: CpBuffer
  cis_acl :: AclState

record Workers =
  wk_cluster :: SwClusterHandler
  wk_reader :: ProcessStateReader
  wk_processStates :: nat
  wk_monitorIfIpcs :: "CheckpointIpcServer list"
  wk_checkpoints :: "Checkpoint list"
  wk_destroyedIpcs :: "Ipc list"

text \<open>What the operating system answers for one channel.\<close>

record IpcEnv =
  ie_existing :: int
  ie_shm :: ShmOutcome
  ie_acl :: "AclCall \<Rightarrow> bool"

definition upd_wiring :: "(Wiring \<Rightarrow> Wiring) \<Rightarrow> Workers \<Rightarrow> Workers" where
  "upd_wiring f s = s\<lparr>wk_cluster := (wk_cluster s)\<lparr>sw_wiring := f (sw_wiring (wk_cluster s))\<rparr>\<rparr>"

text \<open>The wiring and the vectors of the cluster, changed by a function.\<close>

definition upd_cluster :: "(SwClusterHandler \<Rightarrow> SwClusterHandler) \<Rightarrow> Workers \<Rightarrow> Workers" where
  "upd_cluster f s = s\<lparr>wk_cluster := f (wk_cluster s)\<rparr>"

definition attachObserver :: "nat \<Rightarrow> nat \<Rightarrow> (nat \<Rightarrow> nat list) \<Rightarrow> nat \<Rightarrow> nat list" where
  "attachObserver observable f_observer_r observers = observers(observable := observers observable @ [f_observer_r])"

definition detachObserver :: "nat \<Rightarrow> nat \<Rightarrow> (nat \<Rightarrow> nat list) \<Rightarrow> nat \<Rightarrow> nat list" where
  "detachObserver observable f_observer_r observers =
     observers(observable := filter (\<lambda>k. k \<noteq> f_observer_r) (observers observable))"

text \<open>A loop that an exception or a \<^verbatim>\<open>break\<close> leaves early.\<close>

fun each :: "('a \<Rightarrow> 's \<Rightarrow> (bool \<times> 's) option) \<Rightarrow> 'a list \<Rightarrow> 's \<Rightarrow> (bool \<times> 's) option" where
  "each f [] s = Some (True, s)"
| "each f (x # xs) s = do { (ok, s) \<leftarrow> f x s; if ok then each f xs s else Some (False, s) }"

text \<open>The strings of a vector of tables; a null string is dereferenced.\<close>

definition strings :: "string option list \<Rightarrow> string list option" where
  "strings xs = map_opt (\<lambda>x. x) xs"

definition getProcessGroupStateIds :: "(string \<Rightarrow> u64) \<Rightarrow> string list \<Rightarrow> ProcessGroupId list" where
  "getProcessGroupStateIds hash f_pgStatePaths_r =
     map (\<lambda>pgStatePath. hash_id (fst (IdentifierHash_string hash pgStatePath Map.empty))) f_pgStatePaths_r"

definition getProcessId :: "(string \<Rightarrow> u64) \<Rightarrow> string \<Rightarrow> ProcessId" where
  "getProcessId hash f_processPath_r = hash_id (fst (IdentifierHash_string hash f_processPath_r Map.empty))"

subsection \<open>Process states\<close>

definition emplaceProcessState :: "ProcessState \<Rightarrow> Workers \<Rightarrow> Workers" where
  "emplaceProcessState p s =
     s\<lparr>wk_reader := (wk_reader s)\<lparr>psr_store := (psr_store (wk_reader s))(wk_processStates s := p)\<rparr>,
       wk_processStates := wk_processStates s + 1\<rparr>"

text \<open>The process id of the launch manager's own process; \<^verbatim>\<open>back\<close> of an empty vector is undefined.\<close>

definition createProcessState :: "(string \<Rightarrow> u64) \<Rightarrow> HmProcess \<Rightarrow> Workers \<Rightarrow> (bool \<times> Workers) option" where
  "createProcessState hash process_p s = do {
     shortName \<leftarrow> hp_shortName process_p;
     pgStates \<leftarrow> hp_refProcessGroupStates process_p;
     refProcessGroupStatePaths \<leftarrow> strings pgStates;
     errors \<leftarrow> hp_processExecutionErrors process_p;
     let states = getProcessGroupStateIds hash refProcessGroupStatePaths;
     let processCfg = \<lparr>cfg_processShortName = shortName, cfg_processId = 0, cfg_configuredProcessGroupStates = states,
                       cfg_processExecutionErrors = errors\<rparr>;
     (if hp_processType process_p \<noteq> LM_PROCESS
      then do {
        processPath \<leftarrow> hp_identifier process_p;
        let processCfg = processCfg\<lparr>cfg_processId := getProcessId hash processPath\<rparr>;
        let i = wk_processStates s;
        let s = emplaceProcessState (ProcessState_new processCfg) s;
        let (isSuccess, r) = registerProcessState i (cfg_processId processCfg) (wk_reader s);
        Some (isSuccess, s\<lparr>wk_reader := r\<rparr>)
      }
      else if states = [] then None
      else Some (True, emplaceProcessState
             (setProcessGroupState (last states) (ProcessState_new (processCfg\<lparr>cfg_processId := - 2\<rparr>))) s))
   }"

definition deregisterProcessStates :: "Workers \<Rightarrow> Workers" where
  "deregisterProcessStates s =
     s\<lparr>wk_reader := fold (\<lambda>i r. deregisterProcessState (k_processId (psr_store r i)) r) [0..<wk_processStates s] (wk_reader s),
       wk_processStates := 0\<rparr>"

definition createProcessStates :: "(string \<Rightarrow> u64) \<Rightarrow> HMEcuCfg \<Rightarrow> Workers \<Rightarrow> (bool \<times> Workers) option" where
  "createProcessStates hash flatBuffer_p s = do {
     (isSuccess, s) \<leftarrow> (case hm_process flatBuffer_p of
        Some ps \<Rightarrow> each (createProcessState hash) ps s
      | None \<Rightarrow> Some (False, s));
     Some (isSuccess, if isSuccess then s else deregisterProcessStates s)
   }"

subsection \<open>Interfaces and checkpoints\<close>

definition CheckpointIpcServer_new :: CheckpointIpcServer where
  "CheckpointIpcServer_new =
     \<lparr>cis_ipc = Ipc_new, cis_buffer = RingBuffer_new k_maxCheckpointBufferElements, cis_acl = AclState_new\<rparr>"

definition initIpcServerWithUidBasedAccess ::
  "IpcEnv \<Rightarrow> string \<Rightarrow> u32 \<Rightarrow> CheckpointIpcServer \<Rightarrow> bool \<times> CheckpointIpcServer"
where
  "initIpcServerWithUidBasedAccess env f_ipcPath_r f_uid f_ipcServer_r =
     (let (result, c, b) = IpcServer_init f_ipcPath_r (ie_existing env) (ie_shm env) (cis_ipc f_ipcServer_r) (cis_buffer f_ipcServer_r);
          server = f_ipcServer_r\<lparr>cis_ipc := c, cis_buffer := b\<rparr>
      in if result \<noteq> Init_Ok then (False, server)
         else (let (ok, a) = setAccessRights (ie_acl env) f_uid (cis_acl server)
               in (ok, server\<lparr>cis_acl := a\<rparr>)))"

text \<open>\<open>env\<close> gives the answers of the operating system for the channel of each index.\<close>

definition createMonitorIfIpc :: "(nat \<Rightarrow> IpcEnv) \<Rightarrow> HmMonitorInterface \<Rightarrow> Workers \<Rightarrow> (bool \<times> Workers) option" where
  "createMonitorIfIpc env hmMonitorInterface_p s = do {
     pathInterface \<leftarrow> hi_interfacePath hmMonitorInterface_p;
     let (isSuccess, server) = initIpcServerWithUidBasedAccess (env (length (wk_monitorIfIpcs s))) pathInterface
                                 (hi_permittedUid hmMonitorInterface_p) CheckpointIpcServer_new;
     Some (isSuccess, s\<lparr>wk_monitorIfIpcs := wk_monitorIfIpcs s @ [server]\<rparr>)
   }"

definition createMonitorIfIpcs :: "(nat \<Rightarrow> IpcEnv) \<Rightarrow> HMEcuCfg \<Rightarrow> Workers \<Rightarrow> (bool \<times> Workers) option" where
  "createMonitorIfIpcs env flatBuffer_p s = do {
     (isSuccess, s) \<leftarrow> (case hm_monitorInterface flatBuffer_p of
        Some ms \<Rightarrow> each (createMonitorIfIpc env) ms s
      | None \<Rightarrow> Some (False, s));
     Some (isSuccess, if isSuccess then s
       else s\<lparr>wk_destroyedIpcs := wk_destroyedIpcs s @ map (\<lambda>c. Ipc_destroy (cis_ipc c)) (wk_monitorIfIpcs s),
              wk_monitorIfIpcs := []\<rparr>)
   }"

text \<open>\<^verbatim>\<open>Get\<close> of a vector of the flatbuffer is not checked.\<close>

definition fb_Get :: "'a list option \<Rightarrow> nat \<Rightarrow> 'a option" where
  "fb_Get v i = (case v of Some xs \<Rightarrow> if i < length xs then Some (xs ! i) else None | None \<Rightarrow> None)"

definition createMonitorInterface :: "HMEcuCfg \<Rightarrow> CheckpointIpcServer \<Rightarrow> Workers \<Rightarrow> (bool \<times> Workers) option" where
  "createMonitorInterface flatBuffer_p interfaceIpc s = do {
     let k = length (monitorInterfaces (wk_cluster s));
     let m = MonitorIfDaemon_new (cis_ipc interfaceIpc) (\<lambda>_. Checkpoint_new '''' 0 0);
     let s = upd_cluster (\<lambda>c. c\<lparr>monitorInterfaces := monitorInterfaces c @ [(m, cis_buffer interfaceIpc)]\<rparr>) s;
     hmMonitorInterface_p \<leftarrow> fb_Get (hm_monitorInterface flatBuffer_p) k;
     let refProcessIndex = hi_refProcessIndex hmMonitorInterface_p;
     Some (if refProcessIndex < wk_processStates s
           then (True, upd_wiring (\<lambda>w. w\<lparr>w_psMonitors := attachObserver refProcessIndex k (w_psMonitors w)\<rparr>) s)
           else (False, s))
   }"

definition createMonitorIf :: "HMEcuCfg \<Rightarrow> Workers \<Rightarrow> (bool \<times> Workers) option" where
  "createMonitorIf flatBuffer_p s = do {
     (isSuccess, s) \<leftarrow> each (createMonitorInterface flatBuffer_p) (wk_monitorIfIpcs s) s;
     Some (isSuccess, if isSuccess then s else upd_cluster (\<lambda>c. c\<lparr>monitorInterfaces := []\<rparr>) s)
   }"

text \<open>Attaching a checkpoint puts the object at its address within reach of the interface.\<close>

definition attach_at :: "nat \<Rightarrow> CheckpointIdentifier \<Rightarrow> Checkpoint \<Rightarrow> (MonitorIfDaemon \<times> CpBuffer) list \<Rightarrow> (MonitorIfDaemon \<times> CpBuffer) list" where
  "attach_at i addr cp ms =
     (let (m, b) = ms ! i
      in ms[i := (attachCheckpoint addr (m\<lparr>mi_checkpoints := (mi_checkpoints m)(addr := cp)\<rparr>), b)])"

definition createSupervisionCheckpoint :: "HMEcuCfg \<Rightarrow> HmSupervisionCheckpoint \<Rightarrow> Workers \<Rightarrow> (bool \<times> Workers) option" where
  "createSupervisionCheckpoint flatBuffer_p hmSupervisionCheckpoint_p s = do {
     checkpointCfgName \<leftarrow> hs_shortName hmSupervisionCheckpoint_p;
     let refInterfaceIndex = hs_refInterfaceIndex hmSupervisionCheckpoint_p;
     hmMonitorInterface_p \<leftarrow> fb_Get (hm_monitorInterface flatBuffer_p) refInterfaceIndex;
     let refProcessIndex = hi_refProcessIndex hmMonitorInterface_p;
     Some (if refProcessIndex < wk_processStates s
      then (let cp = Checkpoint_new checkpointCfgName (hs_checkpointId hmSupervisionCheckpoint_p) refProcessIndex;
                addr = length (wk_checkpoints s);
                s = s\<lparr>wk_checkpoints := wk_checkpoints s @ [cp]\<rparr>
            in if refInterfaceIndex < length (monitorInterfaces (wk_cluster s))
               then (True, upd_cluster (\<lambda>c. c\<lparr>monitorInterfaces := attach_at refInterfaceIndex addr cp (monitorInterfaces c)\<rparr>) s)
               else (False, s))
      else (False, s))
   }"

definition createSupervisionCheckpoints :: "HMEcuCfg \<Rightarrow> Workers \<Rightarrow> (bool \<times> Workers) option" where
  "createSupervisionCheckpoints flatBuffer_p s = do {
     (isSuccess, s) \<leftarrow> (case hm_supervisionCheckpoint flatBuffer_p of
        Some cs \<Rightarrow> each (createSupervisionCheckpoint flatBuffer_p) cs s
      | None \<Rightarrow> Some (False, s));
     Some (isSuccess, if isSuccess then s else s\<lparr>wk_checkpoints := []\<rparr>)
   }"

subsection \<open>Supervisions\<close>

text \<open>The indexes of a vector of process references, each checked.\<close>

definition all_at :: "nat list \<Rightarrow> nat \<Rightarrow> bool" where
  "all_at is n = list_all (\<lambda>i. i < n) is"

definition createAliveSupervision ::
  "(string \<Rightarrow> u64) \<Rightarrow> SupervisionBufferConfig \<Rightarrow> HmAliveSupervision \<Rightarrow> Workers \<Rightarrow> (bool \<times> Workers) option"
where
  "createAliveSupervision hash bufferConfig_r hmAliveSupervision_p s = do {
     nameCfgAlive \<leftarrow> ha_ruleContextKey hmAliveSupervision_p;
     aliveReferenceCycleCfg \<leftarrow> convertMilliSecToNanoSec (ha_aliveReferenceCycle hmAliveSupervision_p);
     pgStates \<leftarrow> ha_refProcessGroupStates hmAliveSupervision_p;
     refProcessGroupStates \<leftarrow> strings pgStates;
     let refProcessGroupStateIds = getProcessGroupStateIds hash refProcessGroupStates;
     let processIndex = ha_refProcessIndex hmAliveSupervision_p;
     let checkpoint = ha_refCheckPointIndex hmAliveSupervision_p;
     (if \<not> processIndex < wk_processStates s then Some (False, s)
      else if \<not> checkpoint < length (wk_checkpoints s) then Some (False, s)
      else do {
        alive \<leftarrow> Alive_new
          \<lparr>acfg_checkpointBufferSize = bufferSizeAliveSupervision bufferConfig_r,
           acfg_refFuntionGroupStates = refProcessGroupStateIds, acfg_refProcesses = [processIndex],
           acfg_aliveReferenceCycle = aliveReferenceCycleCfg,
           acfg_minAliveIndications = ha_minAliveIndications hmAliveSupervision_p,
           acfg_maxAliveIndications = ha_maxAliveIndications hmAliveSupervision_p,
           acfg_isMinCheckDisabled = ha_isMinCheckDisabled hmAliveSupervision_p,
           acfg_isMaxCheckDisabled = ha_isMaxCheckDisabled hmAliveSupervision_p,
           acfg_failedCyclesTolerance = ha_failedSupervisionCyclesTolerance hmAliveSupervision_p\<rparr>;
        let k = length (aliveSupervisions (wk_cluster s));
        let s = upd_cluster (\<lambda>c. c\<lparr>aliveSupervisions := aliveSupervisions c @ [alive]\<rparr>) s;
        let s = upd_wiring (\<lambda>w. w\<lparr>w_cpAlives := attachObserver checkpoint k (w_cpAlives w)\<rparr>) s;
        Some (True, upd_wiring (\<lambda>w. w\<lparr>w_psAlives := attachObserver processIndex k (w_psAlives w)\<rparr>) s)
      })
   }"

definition createAliveSupervisions ::
  "(string \<Rightarrow> u64) \<Rightarrow> SupervisionBufferConfig \<Rightarrow> HMEcuCfg \<Rightarrow> Workers \<Rightarrow> (bool \<times> Workers) option"
where
  "createAliveSupervisions hash bufferConfig_r flatBuffer_p s = do {
     (isSuccess, s) \<leftarrow> (case hm_aliveSupervision flatBuffer_p of
        Some as \<Rightarrow> each (createAliveSupervision hash bufferConfig_r) as s
      | None \<Rightarrow> Some (True, s));
     Some (isSuccess, if isSuccess then s else upd_cluster (\<lambda>c. c\<lparr>aliveSupervisions := []\<rparr>) s)
   }"

text \<open>The limits of a deadline: a minimum of 0 and a maximum that is not finite are not checked.\<close>

definition deadlineLimits :: "HmDeadlineSupervision \<Rightarrow> (NanoSecondType \<times> bool \<times> NanoSecondType \<times> bool) option" where
  "deadlineLimits hmDeadlineSupervision_p = do {
     minDeadlineTemp \<leftarrow> convertMilliSecToNanoSec (hd_minDeadline hmDeadlineSupervision_p);
     let flagMinCheckDisabled = (minDeadlineTemp = 0);
     (if isfinite (hd_maxDeadline hmDeadlineSupervision_p)
      then do {
        maxDeadlineTemp \<leftarrow> convertMilliSecToNanoSec (hd_maxDeadline hmDeadlineSupervision_p);
        Some (minDeadlineTemp, flagMinCheckDisabled, maxDeadlineTemp, False)
      }
      else Some (minDeadlineTemp, flagMinCheckDisabled, UINT64_MAX, True))
   }"

definition createDeadlineSupervision ::
  "(string \<Rightarrow> u64) \<Rightarrow> SupervisionBufferConfig \<Rightarrow> HmDeadlineSupervision \<Rightarrow> Workers \<Rightarrow> (bool \<times> Workers) option"
where
  "createDeadlineSupervision hash bufferConfig_r hmDeadlineSupervision_p s = do {
     nameCfgDeadline \<leftarrow> hd_ruleContextKey hmDeadlineSupervision_p;
     (minDeadlineTemp, flagMinCheckDisabled, maxDeadlineTemp, flagMaxCheckDisabled) \<leftarrow> deadlineLimits hmDeadlineSupervision_p;
     pgStates \<leftarrow> hd_refProcessGroupStates hmDeadlineSupervision_p;
     refProcessGroupStates \<leftarrow> strings pgStates;
     let refProcessGroupStateIds = getProcessGroupStateIds hash refProcessGroupStates;
     refProcesses \<leftarrow> hd_refProcessIndices hmDeadlineSupervision_p;
     (if \<not> all_at refProcesses (wk_processStates s) then Some (False, s)
      else do {
        (source, target) \<leftarrow> hd_checkpointTransition hmDeadlineSupervision_p;
        (if \<not> (source < length (wk_checkpoints s) \<and> target < length (wk_checkpoints s)) then Some (False, s)
         else do {
           let deadline = Deadline_new
             \<lparr>dcfg_checkpointBufferSize = bufferSizeDeadlineSupervision bufferConfig_r,
              dcfg_refFuntionGroupStates = refProcessGroupStateIds, dcfg_refProcesses = refProcesses,
              dcfg_minDeadline = minDeadlineTemp, dcfg_maxDeadline = maxDeadlineTemp,
              dcfg_isMinCheckDisabled = flagMinCheckDisabled, dcfg_isMaxCheckDisabled = flagMaxCheckDisabled,
              dcfg_source_r = source, dcfg_source_process = cp_processState (wk_checkpoints s ! source),
              dcfg_target_r = target, dcfg_target_process = cp_processState (wk_checkpoints s ! target)\<rparr>;
           let k = length (deadlineSupervisions (wk_cluster s));
           let s = upd_cluster (\<lambda>c. c\<lparr>deadlineSupervisions := deadlineSupervisions c @ [deadline]\<rparr>) s;
           let s = upd_wiring (\<lambda>w. w\<lparr>w_cpDeadlines := attachObserver target k (attachObserver source k (w_cpDeadlines w))\<rparr>) s;
           Some (True, upd_wiring (\<lambda>w. w\<lparr>w_psDeadlines := fold (\<lambda>p. attachObserver p k) refProcesses (w_psDeadlines w)\<rparr>) s)
         })
      })
   }"

text \<open>The destructor of a deadline supervision detaches it from its two checkpoints.\<close>

definition clearDeadlines :: "Workers \<Rightarrow> Workers" where
  "clearDeadlines s = upd_cluster (\<lambda>c. c\<lparr>deadlineSupervisions := []\<rparr>)
     (upd_wiring (\<lambda>w. w\<lparr>w_cpDeadlines := fold (\<lambda>(k, d) f. detachObserver (target_r d) k (detachObserver (source_r d) k f))
        (zip [0..<length (deadlineSupervisions (wk_cluster s))] (deadlineSupervisions (wk_cluster s))) (w_cpDeadlines w)\<rparr>) s)"

definition createDeadlineSupervisions ::
  "(string \<Rightarrow> u64) \<Rightarrow> SupervisionBufferConfig \<Rightarrow> HMEcuCfg \<Rightarrow> Workers \<Rightarrow> (bool \<times> Workers) option"
where
  "createDeadlineSupervisions hash bufferConfig_r flatBuffer_p s = do {
     (isDeadlineSupCfgSuccess, s) \<leftarrow> (case hm_deadlineSupervision flatBuffer_p of
        Some ds \<Rightarrow> each (createDeadlineSupervision hash bufferConfig_r) ds s
      | None \<Rightarrow> Some (True, s));
     Some (isDeadlineSupCfgSuccess, if isDeadlineSupCfgSuccess then s else clearDeadlines s)
   }"

text \<open>
  The nodes of a graph: an exception leaves the graph unfinished. Then its edges: the two places are
  not checked.
\<close>

fun graphNodes :: "nat \<Rightarrow> HmLogicalCheckpoint list \<Rightarrow> GraphElement list \<times> nat list \<Rightarrow> (GraphElement list \<times> nat list) option" where
  "graphNodes n [] (graph, graphEntries) = Some (graph, graphEntries)"
| "graphNodes n (cp # cps) (graph, graphEntries) =
     (if hlc_refCheckPointIndex cp < n
      then graphNodes n cps (graph @ [GraphElement_new (hlc_refCheckPointIndex cp) (hlc_isFinal cp)],
             if hlc_isInitial cp then graphEntries @ [length graph] else graphEntries)
      else None)"

fun graphEdges :: "(nat \<times> nat) list \<Rightarrow> GraphElement list \<Rightarrow> GraphElement list option" where
  "graphEdges [] graph = Some graph"
| "graphEdges ((source, target) # ts) graph =
     (if source < length graph \<and> target < length graph
      then graphEdges ts (graph[source := addValidNextGraphElement target (graph ! source)])
      else None)"

text \<open>What is behind the address of a checkpoint.\<close>

definition checkpoint_at :: "Checkpoint list \<Rightarrow> CheckpointIdentifier \<Rightarrow> Checkpoint" where
  "checkpoint_at cps i = (if i < length cps then cps ! i else Checkpoint_new '''' 0 0)"

definition createLogicalSupervision ::
  "(string \<Rightarrow> u64) \<Rightarrow> SupervisionBufferConfig \<Rightarrow> HmLogicalSupervision \<Rightarrow> Workers \<Rightarrow> (bool \<times> Workers) option"
where
  "createLogicalSupervision hash bufferConfig_r supervision_p s = do {
     pgStates \<leftarrow> hl_refProcessGroupStates supervision_p;
     states \<leftarrow> strings pgStates;
     let stateIds = getProcessGroupStateIds hash states;
     refProcesses \<leftarrow> hl_refProcessIndices supervision_p;
     (if \<not> all_at refProcesses (wk_processStates s) then Some (False, s)
      else do {
        cfgName \<leftarrow> hl_ruleContextKey supervision_p;
        let logical = Logical_new (checkpoint_at (wk_checkpoints s))
          \<lparr>lcfg_checkpointBufferSize = bufferSizeLogicalSupervision bufferConfig_r,
           lcfg_refFuntionGroupStates = stateIds, lcfg_refProcesses = refProcesses\<rparr>;
        let k = length (logicalSupervisions (wk_cluster s));
        let s = upd_cluster (\<lambda>c. c\<lparr>logicalSupervisions := logicalSupervisions c @ [logical]\<rparr>) s;
        checkpoints \<leftarrow> hl_checkpoints supervision_p;
        (case graphNodes (length (wk_checkpoints s)) checkpoints ([], []) of
           None \<Rightarrow> Some (False, s)
         | Some (graph, graphEntries) \<Rightarrow> do {
             transitions \<leftarrow> hl_transitions supervision_p;
             graph \<leftarrow> graphEdges transitions graph;
             let s = upd_wiring (\<lambda>w. w\<lparr>w_cpLogicals := fold (\<lambda>e. attachObserver (trackedCheckpoint_r e) k) graph (w_cpLogicals w)\<rparr>) s;
             let s = upd_cluster (\<lambda>c. c\<lparr>logicalSupervisions := (logicalSupervisions c)[k := addGraph graphEntries graph (logicalSupervisions c ! k)]\<rparr>) s;
             Some (True, upd_wiring (\<lambda>w. w\<lparr>w_psLogicals := fold (\<lambda>p. attachObserver p k) refProcesses (w_psLogicals w)\<rparr>) s)
           })
      })
   }"

definition createLogicalSupervisions ::
  "(string \<Rightarrow> u64) \<Rightarrow> SupervisionBufferConfig \<Rightarrow> HMEcuCfg \<Rightarrow> Workers \<Rightarrow> (bool \<times> Workers) option"
where
  "createLogicalSupervisions hash bufferConfig_r flatBuffer_p s = do {
     (isSuccess, s) \<leftarrow> (case hm_logicalSupervision flatBuffer_p of
        Some ls \<Rightarrow> each (createLogicalSupervision hash bufferConfig_r) ls s
      | None \<Rightarrow> Some (True, s));
     Some (isSuccess, if isSuccess then s else upd_cluster (\<lambda>c. c\<lparr>logicalSupervisions := []\<rparr>) s)
   }"

text \<open>Subscribing the local supervision created last to one supervision of each kind.\<close>

definition registerLast :: "nat \<Rightarrow> SwClusterHandler \<Rightarrow> SwClusterHandler" where
  "registerLast addr c = (let k = length (localSupervisions c) - 1
     in c\<lparr>localSupervisions := (localSupervisions c)[k := registerCheckpointSupervision addr (localSupervisions c ! k)]\<rparr>)"

definition subscribeAlive :: "nat \<Rightarrow> Workers \<Rightarrow> (bool \<times> Workers) option" where
  "subscribeAlive refAliveIndex s = (let c = wk_cluster s; k = length (localSupervisions c) - 1 in
     Some (if refAliveIndex < length (aliveSupervisions c)
       then (True, upd_cluster (registerLast (w_aliveAddr (sw_wiring c) refAliveIndex))
              (upd_wiring (\<lambda>w. w\<lparr>w_aliveLocals := attachObserver refAliveIndex k (w_aliveLocals w)\<rparr>) s))
       else (False, s)))"

definition subscribeDeadline :: "nat \<Rightarrow> Workers \<Rightarrow> (bool \<times> Workers) option" where
  "subscribeDeadline refDeadlineIndex s = (let c = wk_cluster s; k = length (localSupervisions c) - 1 in
     Some (if refDeadlineIndex < length (deadlineSupervisions c)
       then (True, upd_cluster (registerLast (w_deadlineAddr (sw_wiring c) refDeadlineIndex))
              (upd_wiring (\<lambda>w. w\<lparr>w_deadlineLocals := attachObserver refDeadlineIndex k (w_deadlineLocals w)\<rparr>) s))
       else (False, s)))"

definition subscribeLogical :: "nat \<Rightarrow> Workers \<Rightarrow> (bool \<times> Workers) option" where
  "subscribeLogical refLogicalIndex s = (let c = wk_cluster s; k = length (localSupervisions c) - 1 in
     Some (if refLogicalIndex < length (logicalSupervisions c)
       then (True, upd_cluster (registerLast (w_logicalAddr (sw_wiring c) refLogicalIndex))
              (upd_wiring (\<lambda>w. w\<lparr>w_logicalLocals := attachObserver refLogicalIndex k (w_logicalLocals w)\<rparr>) s))
       else (False, s)))"

text \<open>A vector that may be missing is then empty.\<close>

definition refs :: "nat list option \<Rightarrow> nat list" where
  "refs v = (case v of Some is \<Rightarrow> is | None \<Rightarrow> [])"

text \<open>A step made only when the one before was not left by an exception.\<close>

definition unless_thrown :: "(bool \<times> 's) option \<Rightarrow> ('s \<Rightarrow> (bool \<times> 's) option) \<Rightarrow> (bool \<times> 's) option" where
  "unless_thrown r f = do { (ok, s) \<leftarrow> r; if ok then f s else Some (False, s) }"

definition createLocalSupervision :: "SupervisionBufferConfig \<Rightarrow> HmLocalSupervision \<Rightarrow> Workers \<Rightarrow> (bool \<times> Workers) option" where
  "createLocalSupervision bufferConfig_r hmLocalSupervision_p s = do {
     cfgName \<leftarrow> ho_ruleContextKey hmLocalSupervision_p;
     let s = upd_cluster (\<lambda>c. c\<lparr>localSupervisions := localSupervisions c @ [Local_new (bufferSizeLocalSupervision bufferConfig_r)]\<rparr>) s;
     unless_thrown (unless_thrown (each subscribeAlive (refs (ho_refAliveSupervision hmLocalSupervision_p)) s)
       (each subscribeDeadline (refs (ho_refDeadlineSupervision hmLocalSupervision_p))))
       (each subscribeLogical (refs (ho_refLogicalSupervision hmLocalSupervision_p)))
   }"

definition createLocalSupervisions :: "SupervisionBufferConfig \<Rightarrow> HMEcuCfg \<Rightarrow> Workers \<Rightarrow> (bool \<times> Workers) option" where
  "createLocalSupervisions bufferConfig_r flatBuffer_p s = do {
     (isSuccess, s) \<leftarrow> (case hm_localSupervision flatBuffer_p of
        Some ls \<Rightarrow> each (createLocalSupervision bufferConfig_r) ls s
      | None \<Rightarrow> Some (False, s));
     Some (isSuccess, if isSuccess then s else upd_cluster (\<lambda>c. c\<lparr>localSupervisions := []\<rparr>) s)
   }"

definition globalTolerance :: "double \<Rightarrow> NanoSecondType option" where
  "globalTolerance tolerance = (if isfinite tolerance then convertMilliSecToNanoSec tolerance else Some UINT64_MAX)"

definition updateLastGlobal :: "(Global \<Rightarrow> Global) \<Rightarrow> SwClusterHandler \<Rightarrow> SwClusterHandler" where
  "updateLastGlobal f c = (let k = length (globalSupervisions c) - 1
     in c\<lparr>globalSupervisions := (globalSupervisions c)[k := f (globalSupervisions c ! k)]\<rparr>)"

definition subscribeLocal :: "nat \<Rightarrow> Workers \<Rightarrow> (bool \<times> Workers) option" where
  "subscribeLocal refLocalSupIndex s = (let c = wk_cluster s; k = length (globalSupervisions c) - 1 in
     Some (if refLocalSupIndex < length (localSupervisions c)
       then (True, upd_cluster (updateLastGlobal (registerLocalSupervision (w_localAddr (sw_wiring c) refLocalSupIndex)))
              (upd_wiring (\<lambda>w. w\<lparr>w_localGlobals := attachObserver refLocalSupIndex k (w_localGlobals w)\<rparr>) s))
       else (False, s)))"

definition subscribeProcess :: "nat \<Rightarrow> Workers \<Rightarrow> (bool \<times> Workers) option" where
  "subscribeProcess refProcess s = (let k = length (globalSupervisions (wk_cluster s)) - 1 in
     Some (if refProcess < wk_processStates s
       then (True, upd_wiring (\<lambda>w. w\<lparr>w_psGlobals := attachObserver refProcess k (w_psGlobals w)\<rparr>) s)
       else (False, s)))"

definition createGlobalSupervision ::
  "(string \<Rightarrow> u64) \<Rightarrow> SupervisionBufferConfig \<Rightarrow> HmGlobalSupervision \<Rightarrow> Workers \<Rightarrow> (bool \<times> Workers) option"
where
  "createGlobalSupervision hash bufferConfig_r hmGlobalSupervision_p s = do {
     name \<leftarrow> hg_ruleContextKey hmGlobalSupervision_p;
     pgStates \<leftarrow> hg_refProcessGroupStates hmGlobalSupervision_p;
     refProcessGroupStates \<leftarrow> strings (map fst pgStates);
     expiredSupervisionTolerances \<leftarrow> map_opt globalTolerance (map snd pgStates);
     let refProcessGroupStateIds = getProcessGroupStateIds hash refProcessGroupStates;
     let global = Global_new
       \<lparr>gcfg_refFuntionGroupStates = refProcessGroupStateIds, gcfg_localEventBufferSize = bufferSizeGlobalSupervision bufferConfig_r,
        gcfg_expiredTolerances = expiredSupervisionTolerances\<rparr>;
     let s = upd_cluster (\<lambda>c. c\<lparr>globalSupervisions := globalSupervisions c @ [global]\<rparr>) s;
     localSupervision \<leftarrow> hg_localSupervision hmGlobalSupervision_p;
     unless_thrown (each subscribeLocal localSupervision s)
       (\<lambda>s. do { refProcesses \<leftarrow> hg_refProcesses hmGlobalSupervision_p; each subscribeProcess refProcesses s })
   }"

definition createGlobalSupervisions ::
  "(string \<Rightarrow> u64) \<Rightarrow> SupervisionBufferConfig \<Rightarrow> HMEcuCfg \<Rightarrow> Workers \<Rightarrow> (bool \<times> Workers) option"
where
  "createGlobalSupervisions hash bufferConfig_r flatBuffer_p s = do {
     (isGlobalSupCfgSuccess, s) \<leftarrow> (case hm_globalSupervision flatBuffer_p of
        Some gs \<Rightarrow> each (createGlobalSupervision hash bufferConfig_r) gs s
      | None \<Rightarrow> Some (False, s));
     Some (isGlobalSupCfgSuccess, if isGlobalSupCfgSuccess then s else upd_cluster (\<lambda>c. c\<lparr>globalSupervisions := []\<rparr>) s)
   }"

subsection \<open>Notifications\<close>

definition createNotification :: "(string \<Rightarrow> u64) \<Rightarrow> HmRecoveryNotification \<Rightarrow> Workers \<Rightarrow> Workers option" where
  "createNotification hash f_recoveryNotificationData_r s =
     (if hr_shouldFireWatchdog f_recoveryNotificationData_r
      then Some (upd_cluster (\<lambda>c. c\<lparr>recoveryNotifications := recoveryNotifications c @ [Notification_unconfigured hash]\<rparr>) s)
      else do {
        name \<leftarrow> hr_shortName f_recoveryNotificationData_r;
        path \<leftarrow> hr_instanceSpecifier f_recoveryNotificationData_r;
        identifier \<leftarrow> hr_processGroupMetaModelIdentifier f_recoveryNotificationData_r;
        timeout \<leftarrow> convertMilliSecToNanoSec (hr_recoveryNotificationTimeout f_recoveryNotificationData_r);
        let notifConfig = \<lparr>configName = name, processGroupMetaModelIdentifier = identifier, nc_timeout = timeout\<rparr>;
        Some (upd_cluster (\<lambda>c. c\<lparr>recoveryNotifications := recoveryNotifications c @ [Notification_new hash notifConfig]\<rparr>) s)
      })"

definition createRecoveryNotification :: "(string \<Rightarrow> u64) \<Rightarrow> HmRecoveryNotification \<Rightarrow> Workers \<Rightarrow> (bool \<times> Workers) option" where
  "createRecoveryNotification hash recoveryNotification_p s = do {
     s \<leftarrow> createNotification hash recoveryNotification_p s;
     let refGlobalSupIndex = hr_refGlobalSupervisionIndex recoveryNotification_p;
     let k = length (recoveryNotifications (wk_cluster s)) - 1;
     Some (if refGlobalSupIndex < length (globalSupervisions (wk_cluster s))
           then (True, upd_cluster (\<lambda>c. c\<lparr>globalSupervisions := (globalSupervisions c)
                  [refGlobalSupIndex := registerRecoveryNotification k (globalSupervisions c ! refGlobalSupIndex)]\<rparr>) s)
           else (False, s))
   }"

definition createRecoveryNotifications :: "(string \<Rightarrow> u64) \<Rightarrow> HMEcuCfg \<Rightarrow> Workers \<Rightarrow> (bool \<times> Workers) option" where
  "createRecoveryNotifications hash flatBuffer_p s = do {
     (isRecoverySuccess, s) \<leftarrow> (case hm_recoveryNotification flatBuffer_p of
        Some rs \<Rightarrow> each (createRecoveryNotification hash) rs s
      | None \<Rightarrow> Some (True, s));
     Some (isRecoverySuccess, if isRecoverySuccess then s else upd_cluster (\<lambda>c. c\<lparr>recoveryNotifications := []\<rparr>) s)
   }"

subsection \<open>The cluster\<close>

text \<open>The file: \<open>None\<close> when it cannot be opened, \<open>Some None\<close> when it has no root table.\<close>

definition ff_init :: "HMEcuCfg option option \<Rightarrow> HMEcuCfg option" where
  "ff_init file = (case file of None \<Rightarrow> None | Some flatBuffer_p \<Rightarrow> flatBuffer_p)"

definition initWorkers :: "(string \<Rightarrow> u64) \<Rightarrow> Workers \<Rightarrow> (bool \<times> Workers) option" where
  "initWorkers hash s =
     (let (ok, ns, reg) = initProxies hash (recoveryNotifications (wk_cluster s)) Map.empty
      in Some (ok, upd_cluster (\<lambda>c. c\<lparr>recoveryNotifications := ns\<rparr>) s))"

definition constructWorkers ::
  "(string \<Rightarrow> u64) \<Rightarrow> (nat \<Rightarrow> IpcEnv) \<Rightarrow> SupervisionBufferConfig \<Rightarrow> HMEcuCfg option option \<Rightarrow> Workers \<Rightarrow> (bool \<times> Workers) option"
where
  "constructWorkers hash env bufferConfig_r file s =
     (case ff_init file of
        None \<Rightarrow> Some (False, s)
      | Some fb \<Rightarrow>
          unless_thrown (unless_thrown (unless_thrown (unless_thrown (unless_thrown (unless_thrown (unless_thrown
            (unless_thrown (unless_thrown (unless_thrown (createProcessStates hash fb s)
              (createMonitorIfIpcs env fb)) (createMonitorIf fb)) (createSupervisionCheckpoints fb))
              (createAliveSupervisions hash bufferConfig_r fb)) (createDeadlineSupervisions hash bufferConfig_r fb))
              (createLogicalSupervisions hash bufferConfig_r fb)) (createLocalSupervisions bufferConfig_r fb))
              (createGlobalSupervisions hash bufferConfig_r fb)) (createRecoveryNotifications hash fb)) (initWorkers hash))"

text \<open>A cluster before its construction; the addresses of the supervisions are wherever their vectors are.\<close>

definition SwClusterHandler_new :: "(nat \<Rightarrow> nat) \<Rightarrow> (nat \<Rightarrow> nat) \<Rightarrow> (nat \<Rightarrow> nat) \<Rightarrow> (nat \<Rightarrow> nat) \<Rightarrow> SwClusterHandler" where
  "SwClusterHandler_new al dl lg lo =
     \<lparr>sw_wiring = \<lparr>w_cpAlives = \<lambda>_. [], w_cpDeadlines = \<lambda>_. [], w_cpLogicals = \<lambda>_. [], w_psMonitors = \<lambda>_. [],
        w_psAlives = \<lambda>_. [], w_psDeadlines = \<lambda>_. [], w_psLogicals = \<lambda>_. [], w_psGlobals = \<lambda>_. [],
        w_aliveAddr = al, w_deadlineAddr = dl, w_logicalAddr = lg, w_localAddr = lo,
        w_aliveLocals = \<lambda>_. [], w_deadlineLocals = \<lambda>_. [], w_logicalLocals = \<lambda>_. [], w_localGlobals = \<lambda>_. []\<rparr>,
      monitorInterfaces = [], aliveSupervisions = [], deadlineSupervisions = [], logicalSupervisions = [],
      localSupervisions = [], globalSupervisions = [], recoveryNotifications = []\<rparr>"

definition Workers_new :: "SwClusterHandler \<Rightarrow> ProcessStateReader \<Rightarrow> Workers" where
  "Workers_new c r = \<lparr>wk_cluster = c, wk_reader = r, wk_processStates = 0, wk_monitorIfIpcs = [], wk_checkpoints = [],
     wk_destroyedIpcs = []\<rparr>"

end
