(* ===== verification/Worker_Construction.thy ===== *)
theory Worker_Construction
  imports Worker_Factory
begin

section \<open>A well-formed configuration gives a sound cluster\<close>

text \<open>
  What the factory builds: a small logic for its loops, the invariant of the construction, one lemma
  per kind of object, and the theorem that ties the construction to the cyclic execution of
  \<open>Phm_Daemon\<close>.
\<close>

subsection \<open>Steps that may throw\<close>

text \<open>
  \<open>goes r q p\<close>: the step \<open>r\<close> has a defined result, its state satisfies \<open>p\<close> when nothing was thrown, and
  nothing was thrown when \<open>q\<close> holds.
\<close>

definition goes :: "(bool \<times> 's) option \<Rightarrow> bool \<Rightarrow> ('s \<Rightarrow> bool) \<Rightarrow> bool" where
  "goes r q p \<longleftrightarrow> (case r of Some (ok, s) \<Rightarrow> (ok \<longrightarrow> p s) \<and> (q \<longrightarrow> ok) | None \<Rightarrow> False)"

lemma goes_value: "(ok \<Longrightarrow> p s) \<Longrightarrow> (q \<Longrightarrow> ok) \<Longrightarrow> goes (Some (ok, s)) q p"
  by (auto simp: goes_def)

lemma goes_thrown: "\<not> q \<Longrightarrow> goes (Some (False, s)) q p"
  by (simp add: goes_def)

lemma goes_weaken: "goes r q p \<Longrightarrow> (q' \<Longrightarrow> q) \<Longrightarrow> (\<And>s. p s \<Longrightarrow> p' s) \<Longrightarrow> goes r q' p'"
  by (auto simp: goes_def split: option.splits)

lemma goes_unless_thrown:
  assumes "goes r q p" "\<And>s. p s \<Longrightarrow> goes (f s) q' p'"
  shows "goes (unless_thrown r f) (q \<and> q') p'"
proof -
  obtain ok s where r: "r = Some (ok, s)" "ok \<longrightarrow> p s" "q \<longrightarrow> ok" using assms(1) by (auto simp: goes_def split: option.splits)
  show ?thesis
  proof (cases ok)
    case True
    then show ?thesis using r assms(2) [of s] by (auto simp: unless_thrown_def goes_def split: option.splits)
  qed (use r in \<open>simp add: unless_thrown_def goes_def\<close>)
qed

lemma goes_cleanup: "goes r q p \<Longrightarrow> goes (do { (ok, s) \<leftarrow> r; Some (ok, if ok then s else g s) }) q p"
  by (auto simp: goes_def split: option.splits)

text \<open>The invariant of a loop speaks of the number of elements that are done.\<close>

lemma goes_each:
  assumes "\<And>i s. i < length xs \<Longrightarrow> p i s \<Longrightarrow> goes (f (xs ! i) s) (q i) (p (Suc i))" "p 0 s"
  shows "goes (each f xs s) (\<forall>i < length xs. q i) (p (length xs))"
  using assms
proof (induction xs arbitrary: p q s)
  case (Cons x xs)
  have "goes (f x s) (q 0) (p 1)" using Cons.prems(1) [of 0 s] Cons.prems(2) by simp
  then obtain ok s1 where s1: "f x s = Some (ok, s1)" "ok \<longrightarrow> p 1 s1" "q 0 \<longrightarrow> ok"
    by (auto simp: goes_def split: option.splits)
  show ?case
  proof (cases ok)
    case True
    have "goes (each f xs s1) (\<forall>i < length xs. q (Suc i)) (p (Suc (length xs)))"
      using Cons.IH [of "\<lambda>i. p (Suc i)" "\<lambda>i. q (Suc i)" s1] Cons.prems(1) [of "Suc i" for i] s1(2) True by auto
    then show ?thesis using s1 True by (fastforce simp: goes_def split: option.splits)
  next
    case False
    then show ?thesis using s1 by (auto simp: goes_def)
  qed
qed (simp add: goes_def)

lemma goes_each_vector:
  assumes "\<And>xs i s. v = Some xs \<Longrightarrow> i < length xs \<Longrightarrow> p i s \<Longrightarrow> goes (f (xs ! i) s) (q i) (p (Suc i))" "p 0 s"
    and "\<And>xs. v = Some xs \<Longrightarrow> n = length xs" "v = None \<Longrightarrow> n = 0 \<and> missing"
  shows "goes (case v of Some xs \<Rightarrow> each f xs s | None \<Rightarrow> Some (missing, s)) (\<forall>i < n. q i) (p n)"
  using assms goes_each [of _ p f q s] by (cases v) (auto simp: goes_def)

subsection \<open>The invariant of the construction\<close>

definition mon_fresh :: "MonitorIfDaemon \<times> CpBuffer \<Rightarrow> bool" where
  "mon_fresh mb \<longleftrightarrow> (case mb of (m, b) \<Rightarrow>
     ipc_inv sizeof_CBE (mi_ipcserver m) b \<and> isInitialized (mi_ipcserver m) \<and> mi_status m = MI_Inactive \<and>
     mi_pushed m = [] \<and> rb_queue b = [] \<and> \<not> overflow_flag b)"

lemma mon_fresh_ok: "mon_fresh mb \<Longrightarrow> mon_ok mb"
  unfolding mon_ok_def
  by (cases mb)
    (auto simp: mon_fresh_def mi_inv_def mi_times_def deliveries_def intro!: exI [of _ "mi_ids (fst mb)"]
      exI [of _ "checkpointObservers (fst mb)"] exI [of _ "[]"])

definition cis_fresh :: "CheckpointIpcServer \<Rightarrow> bool" where
  "cis_fresh c \<longleftrightarrow> ipc_inv sizeof_CBE (cis_ipc c) (cis_buffer c) \<and> isInitialized (cis_ipc c) \<and>
     rb_queue (cis_buffer c) = [] \<and> \<not> overflow_flag (cis_buffer c)"

definition wk_inv :: "Workers \<Rightarrow> bool" where
  "wk_inv s \<longleftrightarrow> sw_inv (wk_cluster s) \<and> list_all mon_fresh (monitorInterfaces (wk_cluster s)) \<and>
     list_all (\<lambda>l. localStatus l = L_Deactivated) (localSupervisions (wk_cluster s)) \<and>
     list_all (\<lambda>g. globalStatus g = G_Deactivated) (globalSupervisions (wk_cluster s)) \<and>
     list_all cis_fresh (wk_monitorIfIpcs s) \<and> psr_ok (wk_reader s) \<and> psr_wf (wk_reader s) \<and> psr_pushed (wk_reader s) = []"

text \<open>How many objects of each kind there are, in the order of their creation.\<close>

definition wk_sizes :: "Workers \<Rightarrow> nat list" where
  "wk_sizes s = [wk_processStates s, length (wk_monitorIfIpcs s), length (monitorInterfaces (wk_cluster s)),
     length (wk_checkpoints s), length (aliveSupervisions (wk_cluster s)), length (deadlineSupervisions (wk_cluster s)),
     length (logicalSupervisions (wk_cluster s)), length (localSupervisions (wk_cluster s)),
     length (globalSupervisions (wk_cluster s)), length (recoveryNotifications (wk_cluster s))]"

lemma in_range_attach [simp]: "in_range (attachObserver a k f) n \<longleftrightarrow> in_range f n \<and> k < n"
  by (auto simp: in_range_def attachObserver_def)

lemma in_range_fold [simp]:
  "in_range (fold (\<lambda>x. attachObserver (g x) k) xs f) n \<longleftrightarrow> in_range f n \<and> (xs = [] \<or> k < n)"
  by (induction xs arbitrary: f) auto

lemma in_range_Suc: "in_range f n \<Longrightarrow> in_range f (Suc n)"
  by (auto simp: in_range_def less_Suc_eq)

lemma gl_targets_Suc: "gl_targets n g \<Longrightarrow> gl_targets (Suc n) g"
  by (auto simp: gl_targets_def less_Suc_eq)

lemmas wk_defs = wk_inv_def wk_sizes_def sw_inv_def sw_wired_def Let_def upd_cluster_def upd_wiring_def

subsection \<open>Tables without missing parts\<close>

text \<open>
  A table is well formed when what the factory dereferences is there, the indexes it does not check are
  in range, the times are numbers and no reference cycle is 0. It is valid when in addition the
  checked indexes are in range.
\<close>

definition strings_wf :: "string option list option \<Rightarrow> bool" where
  "strings_wf v \<longleftrightarrow> (case v of Some xs \<Rightarrow> list_all (\<lambda>x. x \<noteq> None) xs | None \<Rightarrow> False)"

lemma strings_total: "list_all (\<lambda>x. x \<noteq> None) xs \<Longrightarrow> strings xs = Some (map the xs)"
  by (induction xs) (auto simp: strings_def)

lemma strings_wf_total: "strings_wf v \<Longrightarrow> \<exists>xs. v = Some xs \<and> strings xs = Some (map the xs)"
  by (auto simp: strings_wf_def strings_total split: option.splits)

definition alive_wf :: "HmAliveSupervision \<Rightarrow> bool" where
  "alive_wf x \<longleftrightarrow> ha_ruleContextKey x \<noteq> None \<and> strings_wf (ha_refProcessGroupStates x) \<and>
     (case convertMilliSecToNanoSec (ha_aliveReferenceCycle x) of Some t \<Rightarrow> t \<noteq> 0 | None \<Rightarrow> False)"

lemma createAliveSupervision_goes:
  assumes "wk_inv s" "wk_sizes s = [np, ni, nm, nc, a, nd, nl, no, ng, nn]" "alive_wf x"
  shows "goes (createAliveSupervision hash buf x s) (ha_refProcessIndex x < np \<and> ha_refCheckPointIndex x < nc)
    (\<lambda>s'. wk_inv s' \<and> wk_sizes s' = [np, ni, nm, nc, Suc a, nd, nl, no, ng, nn])"
proof -
  obtain name t pg where x: "ha_ruleContextKey x = Some name" "convertMilliSecToNanoSec (ha_aliveReferenceCycle x) = Some t" "t \<noteq> 0"
    "ha_refProcessGroupStates x = Some pg" "strings pg = Some (map the pg)"
    using assms(3) strings_wf_total [of "ha_refProcessGroupStates x"] by (auto simp: alive_wf_def split: option.splits)
  let ?cfg = "\<lparr>acfg_checkpointBufferSize = bufferSizeAliveSupervision buf,
           acfg_refFuntionGroupStates = getProcessGroupStateIds hash (map the pg), acfg_refProcesses = [ha_refProcessIndex x],
           acfg_aliveReferenceCycle = t, acfg_minAliveIndications = ha_minAliveIndications x,
           acfg_maxAliveIndications = ha_maxAliveIndications x, acfg_isMinCheckDisabled = ha_isMinCheckDisabled x,
           acfg_isMaxCheckDisabled = ha_isMaxCheckDisabled x, acfg_failedCyclesTolerance = ha_failedSupervisionCyclesTolerance x\<rparr>"
  obtain al where al: "Alive_new ?cfg = Some al" by (simp add: Alive_new_def)
  then have "al_inv al" using Alive_new_inv [of ?cfg al] x(3) by simp
  then show ?thesis
    using assms(1,2) x al
    by (auto simp: createAliveSupervision_def wk_defs intro!: goes_value in_range_Suc)
qed

definition deadline_wf :: "HmDeadlineSupervision \<Rightarrow> bool" where
  "deadline_wf x \<longleftrightarrow> hd_ruleContextKey x \<noteq> None \<and> strings_wf (hd_refProcessGroupStates x) \<and>
     hd_minDeadline x \<noteq> NotANumber \<and> hd_refProcessIndices x \<noteq> None \<and> hd_checkpointTransition x \<noteq> None"

definition deadline_valid :: "nat \<Rightarrow> nat \<Rightarrow> HmDeadlineSupervision \<Rightarrow> bool" where
  "deadline_valid np nc x \<longleftrightarrow> all_at (the (hd_refProcessIndices x)) np \<and>
     (case the (hd_checkpointTransition x) of (source, target) \<Rightarrow> source < nc \<and> target < nc)"

lemma deadlineLimits_total:
  assumes "hd_minDeadline x \<noteq> NotANumber"
  shows "\<exists>a b c d. deadlineLimits x = Some (a, b, c, d)"
proof -
  obtain t where t: "convertMilliSecToNanoSec (hd_minDeadline x) = Some t"
    using convertMilliSecToNanoSec_defined [OF assms] by blast
  show ?thesis
  proof (cases "isfinite (hd_maxDeadline x)")
    case True
    then have "hd_maxDeadline x \<noteq> NotANumber" by (auto simp: isfinite_def)
    then obtain u where "convertMilliSecToNanoSec (hd_maxDeadline x) = Some u"
      using convertMilliSecToNanoSec_defined by blast
    then have "deadlineLimits x = Some (t, t = 0, u, False)" using t True by (simp add: deadlineLimits_def)
    then show ?thesis by blast
  next
    case False
    then have "deadlineLimits x = Some (t, t = 0, UINT64_MAX, True)" using t by (simp add: deadlineLimits_def)
    then show ?thesis by blast
  qed
qed

lemma createDeadlineSupervision_goes:
  assumes "wk_inv s" "wk_sizes s = [np, ni, nm, nc, na, d, nl, no, ng, nn]" "deadline_wf x"
  shows "goes (createDeadlineSupervision hash buf x s) (deadline_valid np nc x)
    (\<lambda>s'. wk_inv s' \<and> wk_sizes s' = [np, ni, nm, nc, na, Suc d, nl, no, ng, nn])"
proof -
  obtain name a b c e where x1: "hd_ruleContextKey x = Some name" "deadlineLimits x = Some (a, b, c, e)"
    using assms(3) deadlineLimits_total [of x] by (auto simp: deadline_wf_def)
  obtain pg ps so ta where x2: "hd_refProcessGroupStates x = Some pg" "strings pg = Some (map the pg)"
    "hd_refProcessIndices x = Some ps" "hd_checkpointTransition x = Some (so, ta)"
    using assms(3) strings_wf_total [of "hd_refProcessGroupStates x"] by (auto simp: deadline_wf_def)
  show ?thesis
    using assms(1,2) x1 x2
    by (auto simp: createDeadlineSupervision_def deadline_valid_def wk_defs Deadline_new_inv intro!: goes_value in_range_Suc)
qed

text \<open>A graph: the nodes are distinct checkpoints and the edges run between them.\<close>

definition graph_nodes_of :: "HmLogicalCheckpoint list \<Rightarrow> GraphElement list" where
  "graph_nodes_of cps = map (\<lambda>cp. GraphElement_new (hlc_refCheckPointIndex cp) (hlc_isFinal cp)) cps"

lemma graphNodes_spec:
  "if list_all (\<lambda>cp. hlc_refCheckPointIndex cp < n) cps
   then \<exists>es. graphNodes n cps (graph, ents) = Some (graph @ graph_nodes_of cps, ents @ es) \<and>
          (\<forall>i \<in> set es. i < length graph + length cps)
   else graphNodes n cps (graph, ents) = None"
proof (induction cps arbitrary: graph ents)
  case (Cons cp cps)
  let ?g = "graph @ [GraphElement_new (hlc_refCheckPointIndex cp) (hlc_isFinal cp)]"
  let ?e = "if hlc_isInitial cp then ents @ [length graph] else ents"
  show ?case
  proof (cases "list_all (\<lambda>cp. hlc_refCheckPointIndex cp < n) (cp # cps)")
    case True
    then obtain es where es: "graphNodes n cps (?g, ?e) = Some (?g @ graph_nodes_of cps, ?e @ es)"
      "\<forall>i \<in> set es. i < length ?g + length cps"
      using Cons.IH [of ?g ?e] by auto
    define es' where "es' = (if hlc_isInitial cp then [length graph] else []) @ es"
    have "graphNodes n (cp # cps) (graph, ents) = Some (graph @ graph_nodes_of (cp # cps), ents @ es')"
      using True es(1) by (simp add: graph_nodes_of_def es'_def split: if_splits)
    moreover have "\<forall>i \<in> set es'. i < length graph + length (cp # cps)" using es(2) by (auto simp: es'_def)
    ultimately show ?thesis using True by (simp only: if_True) blast
  next
    case False
    then show ?thesis using Cons.IH [of ?g ?e] by (auto split: if_splits)
  qed
qed (simp add: graph_nodes_of_def)

definition edges_ok :: "GraphElement list \<Rightarrow> bool" where
  "edges_ok g \<longleftrightarrow> (\<forall>e \<in> set g. \<forall>i \<in> set (validNextElements e). i < length g)"

lemma graphEdges_spec:
  assumes "list_all (\<lambda>(a, b). a < length g \<and> b < length g) ts" "edges_ok g"
  shows "\<exists>g'. graphEdges ts g = Some g' \<and> edges_ok g' \<and> map trackedCheckpoint_r g' = map trackedCheckpoint_r g \<and> length g' = length g"
  using assms
proof (induction ts arbitrary: g)
  case (Cons t ts)
  obtain a b where t: "t = (a, b)" "a < length g" "b < length g" using Cons.prems(1) by auto
  let ?g = "g[a := addValidNextGraphElement b (g ! a)]"
  have e: "edges_ok ?g"
    using Cons.prems(2) t(2,3) nth_mem [OF t(2)] set_update_subset_insert [of g a "addValidNextGraphElement b (g ! a)"]
    by (fastforce simp: edges_ok_def addValidNextGraphElement_def)
  have m: "map trackedCheckpoint_r ?g = map trackedCheckpoint_r g"
    using t(2) by (simp add: map_update addValidNextGraphElement_def list_update_same_conv)
  from Cons.IH [of ?g, OF _ e] Cons.prems(1) show ?case using t m by auto
qed simp

definition logical_wf :: "HmLogicalSupervision \<Rightarrow> bool" where
  "logical_wf x \<longleftrightarrow> hl_ruleContextKey x \<noteq> None \<and> strings_wf (hl_refProcessGroupStates x) \<and> hl_refProcessIndices x \<noteq> None \<and>
     (case hl_checkpoints x of
        Some cps \<Rightarrow> distinct (map hlc_refCheckPointIndex cps) \<and>
          (case hl_transitions x of Some ts \<Rightarrow> list_all (\<lambda>(a, b). a < length cps \<and> b < length cps) ts | None \<Rightarrow> False)
      | None \<Rightarrow> False)"

definition logical_valid :: "nat \<Rightarrow> nat \<Rightarrow> HmLogicalSupervision \<Rightarrow> bool" where
  "logical_valid np nc x \<longleftrightarrow> all_at (the (hl_refProcessIndices x)) np \<and>
     list_all (\<lambda>cp. hlc_refCheckPointIndex cp < nc) (the (hl_checkpoints x))"

lemma built_graph:
  assumes "logical_wf x" "list_all (\<lambda>cp. hlc_refCheckPointIndex cp < nc) (the (hl_checkpoints x))"
  shows "\<exists>g0 g es ts. graphNodes nc (the (hl_checkpoints x)) ([], []) = Some (g0, es) \<and> hl_transitions x = Some ts \<and>
    graphEdges ts g0 = Some g \<and> graph_wf (Graph_new es g)"
proof -
  obtain cps ts where x: "hl_checkpoints x = Some cps" "hl_transitions x = Some ts" "distinct (map hlc_refCheckPointIndex cps)"
    "list_all (\<lambda>(a, b). a < length cps \<and> b < length cps) ts"
    using assms(1) by (auto simp: logical_wf_def split: option.splits)
  obtain es where es: "graphNodes nc cps ([], []) = Some (graph_nodes_of cps, es)" "\<forall>i \<in> set es. i < length cps"
    using graphNodes_spec [of nc cps "[]" "[]"] assms(2) x(1) by auto
  have "list_all (\<lambda>(a, b). a < length (graph_nodes_of cps) \<and> b < length (graph_nodes_of cps)) ts" "edges_ok (graph_nodes_of cps)"
    using x(4) by (auto simp: graph_nodes_of_def edges_ok_def GraphElement_new_def)
  from graphEdges_spec [OF this] obtain g where g: "graphEdges ts (graph_nodes_of cps) = Some g" "edges_ok g"
    "map trackedCheckpoint_r g = map trackedCheckpoint_r (graph_nodes_of cps)" "length g = length cps"
    by (auto simp: graph_nodes_of_def)
  have "map trackedCheckpoint_r (graph_nodes_of cps) = map hlc_refCheckPointIndex cps"
    by (simp add: graph_nodes_of_def GraphElement_new_def)
  then have "graph_wf (Graph_new es g)"
    using g es(2) x(3) by (auto simp: graph_wf_def Graph_new_def edges_ok_def)
  then show ?thesis using x es(1) g(1) by auto
qed

lemma createLogicalSupervision_goes:
  assumes "wk_inv s" "wk_sizes s = [np, ni, nm, nc, na, nd, l, no, ng, nn]" "logical_wf x"
  shows "goes (createLogicalSupervision hash buf x s) (logical_valid np nc x)
    (\<lambda>s'. wk_inv s' \<and> wk_sizes s' = [np, ni, nm, nc, na, nd, Suc l, no, ng, nn])"
proof -
  obtain name pg ps cps where x: "hl_ruleContextKey x = Some name" "hl_refProcessGroupStates x = Some pg" "strings pg = Some (map the pg)"
    "hl_refProcessIndices x = Some ps" "hl_checkpoints x = Some cps"
    using assms(3) strings_wf_total [of "hl_refProcessGroupStates x"] by (auto simp: logical_wf_def split: option.splits)
  show ?thesis
  proof (cases "list_all (\<lambda>cp. hlc_refCheckPointIndex cp < nc) cps")
    case True
    obtain g0 g es ts where g: "graphNodes nc cps ([], []) = Some (g0, es)" "hl_transitions x = Some ts"
      "graphEdges ts g0 = Some g" "graph_wf (Graph_new es g)"
      using built_graph [OF assms(3), of nc] True x(5) by auto
    show ?thesis
      using assms(1,2) x g Logical_new_inv [OF g(4)]
      by (auto simp: createLogicalSupervision_def logical_valid_def wk_defs intro!: goes_value in_range_Suc)
  next
    case False
    then have "graphNodes nc cps ([], []) = None" using graphNodes_spec [of nc cps "[]" "[]"] by auto
    then show ?thesis
      using assms(1,2) x False by (auto simp: createLogicalSupervision_def logical_valid_def wk_defs intro!: goes_thrown)
  qed
qed

text \<open>Local supervisions: each subscription registers the last one created.\<close>

lemma registerLast_keeps:
  assumes "wk_inv s" "localSupervisions (wk_cluster s) \<noteq> []"
  shows "wk_inv (upd_cluster (registerLast a) s) \<and> wk_sizes (upd_cluster (registerLast a) s) = wk_sizes s"
proof -
  let ?ls = "localSupervisions (wk_cluster s)" and ?k = "length (localSupervisions (wk_cluster s)) - 1"
  have "lo_inv (?ls ! ?k)" "localStatus (?ls ! ?k) = L_Deactivated"
    using assms by (simp_all add: wk_inv_def sw_inv_def list_all_length)
  then have "lo_inv (registerCheckpointSupervision a (?ls ! ?k))" "localStatus (registerCheckpointSupervision a (?ls ! ?k)) = L_Deactivated"
    using registerCheckpointSupervision_inv by (simp_all add: registerCheckpointSupervision_def)
  then show ?thesis
    using assms(1) by (auto simp: wk_defs registerLast_def list_all_update)
qed

lemma subscribe_goes:
  assumes "wk_inv s" "wk_sizes s = [np, ni, nm, nc, na, nd, nl, Suc no, ng, nn]"
  shows "goes (subscribeAlive i s) (i < na) (\<lambda>s'. wk_inv s' \<and> wk_sizes s' = [np, ni, nm, nc, na, nd, nl, Suc no, ng, nn])"
    and "goes (subscribeDeadline i s) (i < nd) (\<lambda>s'. wk_inv s' \<and> wk_sizes s' = [np, ni, nm, nc, na, nd, nl, Suc no, ng, nn])"
    and "goes (subscribeLogical i s) (i < nl) (\<lambda>s'. wk_inv s' \<and> wk_sizes s' = [np, ni, nm, nc, na, nd, nl, Suc no, ng, nn])"
proof -
  have k: "length (localSupervisions (wk_cluster s)) - 1 < length (localSupervisions (wk_cluster s))"
    using assms(2) by (simp add: wk_sizes_def)
  let ?w1 = "upd_wiring (\<lambda>w. w\<lparr>w_aliveLocals := attachObserver i (length (localSupervisions (wk_cluster s)) - 1) (w_aliveLocals w)\<rparr>) s"
    and ?w2 = "upd_wiring (\<lambda>w. w\<lparr>w_deadlineLocals := attachObserver i (length (localSupervisions (wk_cluster s)) - 1) (w_deadlineLocals w)\<rparr>) s"
    and ?w3 = "upd_wiring (\<lambda>w. w\<lparr>w_logicalLocals := attachObserver i (length (localSupervisions (wk_cluster s)) - 1) (w_logicalLocals w)\<rparr>) s"
  have "wk_inv w \<and> wk_sizes w = wk_sizes s \<and> localSupervisions (wk_cluster w) \<noteq> []" if "w \<in> {?w1, ?w2, ?w3}" for w
    using that assms k by (auto simp: wk_defs)
  then have "wk_inv (upd_cluster (registerLast a) w) \<and> wk_sizes (upd_cluster (registerLast a) w) = wk_sizes s" if "w \<in> {?w1, ?w2, ?w3}" for w a
    using that registerLast_keeps [of w a] by auto
  then show "goes (subscribeAlive i s) (i < na) (\<lambda>s'. wk_inv s' \<and> wk_sizes s' = [np, ni, nm, nc, na, nd, nl, Suc no, ng, nn])"
    "goes (subscribeDeadline i s) (i < nd) (\<lambda>s'. wk_inv s' \<and> wk_sizes s' = [np, ni, nm, nc, na, nd, nl, Suc no, ng, nn])"
    "goes (subscribeLogical i s) (i < nl) (\<lambda>s'. wk_inv s' \<and> wk_sizes s' = [np, ni, nm, nc, na, nd, nl, Suc no, ng, nn])"
    using assms(2)
    by (auto simp: subscribeAlive_def subscribeDeadline_def subscribeLogical_def Let_def wk_sizes_def goes_def)
qed

definition local_valid :: "nat \<Rightarrow> nat \<Rightarrow> nat \<Rightarrow> HmLocalSupervision \<Rightarrow> bool" where
  "local_valid na nd nl x \<longleftrightarrow> all_at (refs (ho_refAliveSupervision x)) na \<and> all_at (refs (ho_refDeadlineSupervision x)) nd \<and>
     all_at (refs (ho_refLogicalSupervision x)) nl"

text \<open>A loop that keeps its invariant at every element.\<close>

lemma goes_each_same:
  assumes "\<And>x s. x \<in> set xs \<Longrightarrow> p s \<Longrightarrow> goes (f x s) (q x) p" "p s"
  shows "goes (each f xs s) (list_all q xs) p"
  using goes_each [of xs "\<lambda>_. p" f "\<lambda>i. q (xs ! i)" s] assms by (simp add: list_all_length)

lemma createLocalSupervision_goes:
  assumes "wk_inv s" "wk_sizes s = [np, ni, nm, nc, na, nd, nl, no, ng, nn]" "ho_ruleContextKey x \<noteq> None"
  shows "goes (createLocalSupervision buf x s) (local_valid na nd nl x)
    (\<lambda>s'. wk_inv s' \<and> wk_sizes s' = [np, ni, nm, nc, na, nd, nl, Suc no, ng, nn])"
proof -
  let ?s = "upd_cluster (\<lambda>c. c\<lparr>localSupervisions := localSupervisions c @ [Local_new (bufferSizeLocalSupervision buf)]\<rparr>) s"
  let ?p = "\<lambda>s'. wk_inv s' \<and> wk_sizes s' = [np, ni, nm, nc, na, nd, nl, Suc no, ng, nn]"
  have p: "?p ?s" using assms(1,2) Local_new_inv by (auto simp: wk_defs Local_new_def intro: in_range_Suc)
  have "goes (unless_thrown (unless_thrown (each subscribeAlive (refs (ho_refAliveSupervision x)) ?s)
       (each subscribeDeadline (refs (ho_refDeadlineSupervision x)))) (each subscribeLogical (refs (ho_refLogicalSupervision x))))
     ((list_all (\<lambda>i. i < na) (refs (ho_refAliveSupervision x)) \<and> list_all (\<lambda>i. i < nd) (refs (ho_refDeadlineSupervision x))) \<and>
       list_all (\<lambda>i. i < nl) (refs (ho_refLogicalSupervision x))) ?p"
    by (intro goes_unless_thrown [where p = ?p] goes_each_same) (use p in \<open>auto intro: subscribe_goes\<close>)
  then show ?thesis using assms(3) by (auto simp: createLocalSupervision_def local_valid_def all_at_def Let_def conj_assoc)
qed

text \<open>Global supervisions.\<close>

definition global_wf :: "HmGlobalSupervision \<Rightarrow> bool" where
  "global_wf x \<longleftrightarrow> hg_ruleContextKey x \<noteq> None \<and> hg_localSupervision x \<noteq> None \<and> hg_refProcesses x \<noteq> None \<and>
     (case hg_refProcessGroupStates x of Some ps \<Rightarrow> list_all (\<lambda>p. fst p \<noteq> None) ps | None \<Rightarrow> False)"

definition global_valid :: "nat \<Rightarrow> nat \<Rightarrow> HmGlobalSupervision \<Rightarrow> bool" where
  "global_valid np no x \<longleftrightarrow> all_at (the (hg_localSupervision x)) no \<and> all_at (the (hg_refProcesses x)) np"

lemma map_opt_length: "map_opt f xs = Some ys \<Longrightarrow> length ys = length xs"
  by (induction xs arbitrary: ys) (auto simp: bind_eq_Some_conv)

lemma globalTolerance_total: "\<exists>t. globalTolerance d = Some t"
  using convertMilliSecToNanoSec_defined [of d] by (cases d) (auto simp: globalTolerance_def isfinite_def)

lemma updateLastGlobal_keeps:
  assumes "wk_inv s" "globalSupervisions (wk_cluster s) \<noteq> []"
  shows "wk_inv (upd_cluster (updateLastGlobal (registerLocalSupervision a)) s) \<and>
    wk_sizes (upd_cluster (updateLastGlobal (registerLocalSupervision a)) s) = wk_sizes s"
proof -
  let ?gs = "globalSupervisions (wk_cluster s)" and ?k = "length (globalSupervisions (wk_cluster s)) - 1"
  have g: "gl_inv (?gs ! ?k)" "globalStatus (?gs ! ?k) = G_Deactivated" "gl_targets (length (recoveryNotifications (wk_cluster s))) (?gs ! ?k)"
    using assms by (simp_all add: wk_inv_def sw_inv_def list_all_length)
  then have "gl_inv (registerLocalSupervision a (?gs ! ?k))" "globalStatus (registerLocalSupervision a (?gs ! ?k)) = G_Deactivated"
    "gl_targets (length (recoveryNotifications (wk_cluster s))) (registerLocalSupervision a (?gs ! ?k))"
    using registerLocalSupervision_inv by (simp_all add: registerLocalSupervision_def)
  then show ?thesis
    using assms(1) by (auto simp: wk_defs updateLastGlobal_def list_all_update)
qed

lemma subscribeGlobal_goes:
  assumes "wk_inv s" "wk_sizes s = [np, ni, nm, nc, na, nd, nl, no, Suc g, nn]"
  shows "goes (subscribeLocal i s) (i < no) (\<lambda>s'. wk_inv s' \<and> wk_sizes s' = [np, ni, nm, nc, na, nd, nl, no, Suc g, nn])"
    and "goes (subscribeProcess i s) (i < np) (\<lambda>s'. wk_inv s' \<and> wk_sizes s' = [np, ni, nm, nc, na, nd, nl, no, Suc g, nn])"
proof -
  have k: "length (globalSupervisions (wk_cluster s)) - 1 < length (globalSupervisions (wk_cluster s))"
    using assms(2) by (simp add: wk_sizes_def)
  let ?w = "upd_wiring (\<lambda>w. w\<lparr>w_localGlobals := attachObserver i (length (globalSupervisions (wk_cluster s)) - 1) (w_localGlobals w)\<rparr>) s"
  have "wk_inv ?w \<and> wk_sizes ?w = wk_sizes s \<and> globalSupervisions (wk_cluster ?w) \<noteq> []"
    using assms k by (auto simp: wk_defs)
  then have "wk_inv (upd_cluster (updateLastGlobal (registerLocalSupervision a)) ?w) \<and>
      wk_sizes (upd_cluster (updateLastGlobal (registerLocalSupervision a)) ?w) = wk_sizes s" for a
    using updateLastGlobal_keeps [of ?w a] by auto
  then show "goes (subscribeLocal i s) (i < no) (\<lambda>s'. wk_inv s' \<and> wk_sizes s' = [np, ni, nm, nc, na, nd, nl, no, Suc g, nn])"
    using assms(2) by (auto simp: subscribeLocal_def Let_def wk_sizes_def goes_def)
  show "goes (subscribeProcess i s) (i < np) (\<lambda>s'. wk_inv s' \<and> wk_sizes s' = [np, ni, nm, nc, na, nd, nl, no, Suc g, nn])"
    using assms k by (auto simp: subscribeProcess_def wk_defs goes_def)
qed

lemma createGlobalSupervision_goes:
  assumes "wk_inv s" "wk_sizes s = [np, ni, nm, nc, na, nd, nl, no, g, nn]" "global_wf x"
  shows "goes (createGlobalSupervision hash buf x s) (global_valid np no x)
    (\<lambda>s'. wk_inv s' \<and> wk_sizes s' = [np, ni, nm, nc, na, nd, nl, no, Suc g, nn])"
proof -
  let ?p = "\<lambda>s'. wk_inv s' \<and> wk_sizes s' = [np, ni, nm, nc, na, nd, nl, no, Suc g, nn]"
  obtain name pg ls ps where x: "hg_ruleContextKey x = Some name" "hg_refProcessGroupStates x = Some pg"
    "hg_localSupervision x = Some ls" "hg_refProcesses x = Some ps" "list_all (\<lambda>p. fst p \<noteq> None) pg"
    using assms(3) by (auto simp: global_wf_def split: option.splits)
  have st: "strings (map fst pg) = Some (map the (map fst pg))"
    using x(5) by (intro strings_total) (simp add: list.pred_map comp_def)
  obtain ts where ts: "map_opt globalTolerance (map snd pg) = Some ts" "length ts = length pg"
    using map_opt_total [of "map snd pg" globalTolerance "\<lambda>_ _. True"] globalTolerance_total map_opt_length by fastforce
  let ?cfg = "\<lparr>gcfg_refFuntionGroupStates = getProcessGroupStateIds hash (map the (map fst pg)),
     gcfg_localEventBufferSize = bufferSizeGlobalSupervision buf, gcfg_expiredTolerances = ts\<rparr>"
  let ?s = "upd_cluster (\<lambda>c. c\<lparr>globalSupervisions := globalSupervisions c @ [Global_new ?cfg]\<rparr>) s"
  have "gl_inv (Global_new ?cfg)" by (rule Global_new_inv) (simp add: ts(2) getProcessGroupStateIds_def)
  moreover have "globalStatus (Global_new ?cfg) = G_Deactivated" "gl_targets n (Global_new ?cfg)" for n
    by (simp_all add: Global_new_def gl_targets_def)
  ultimately have p: "?p ?s" using assms(1,2) by (auto simp: wk_defs intro: in_range_Suc)
  have "goes (unless_thrown (each subscribeLocal ls ?s) (each subscribeProcess ps))
     (list_all (\<lambda>i. i < no) ls \<and> list_all (\<lambda>i. i < np) ps) ?p"
    by (intro goes_unless_thrown [where p = ?p] goes_each_same) (use p in \<open>auto intro: subscribeGlobal_goes\<close>)
  then show ?thesis
    using x st ts(1) by (simp add: createGlobalSupervision_def global_valid_def all_at_def Let_def)
qed

text \<open>Notifications: the identifier of each decides whether its proxy can be set up.\<close>

definition notif_wf :: "HmRecoveryNotification \<Rightarrow> bool" where
  "notif_wf x \<longleftrightarrow> hr_shouldFireWatchdog x \<or> hr_shortName x \<noteq> None \<and> hr_instanceSpecifier x \<noteq> None \<and>
     hr_processGroupMetaModelIdentifier x \<noteq> None \<and> hr_recoveryNotificationTimeout x \<noteq> NotANumber"

definition notif_ident :: "HmRecoveryNotification \<Rightarrow> string" where
  "notif_ident x = (if hr_shouldFireWatchdog x then '''' else the (hr_processGroupMetaModelIdentifier x))"

definition wk_idents :: "Workers \<Rightarrow> string list" where
  "wk_idents s = map (\<lambda>n. processGroupMetaModelIdentifier (k_notificationConfig n)) (recoveryNotifications (wk_cluster s))"

lemma createNotification_appends:
  assumes "notif_wf x"
  shows "\<exists>n. createNotification hash x s =
      Some (upd_cluster (\<lambda>c. c\<lparr>recoveryNotifications := recoveryNotifications c @ [n]\<rparr>) s) \<and>
    processGroupMetaModelIdentifier (k_notificationConfig n) = notif_ident x"
proof (cases "hr_shouldFireWatchdog x")
  case True
  then show ?thesis
    by (auto simp: createNotification_def notif_ident_def Notification_unconfigured_def defaultNotificationConfig_def)
next
  case False
  then have "hr_shortName x \<noteq> None" "hr_instanceSpecifier x \<noteq> None" "hr_processGroupMetaModelIdentifier x \<noteq> None"
    "hr_recoveryNotificationTimeout x \<noteq> NotANumber"
    using assms by (auto simp: notif_wf_def)
  then show ?thesis
    using False convertMilliSecToNanoSec_defined [of "hr_recoveryNotificationTimeout x"]
    by (auto simp: createNotification_def notif_ident_def Notification_new_def)
qed

lemma createRecoveryNotification_goes:
  assumes "wk_inv s" "wk_sizes s = [np, ni, nm, nc, na, nd, nl, no, ng, n]" "notif_wf x"
  shows "goes (createRecoveryNotification hash x s) (hr_refGlobalSupervisionIndex x < ng)
    (\<lambda>s'. wk_inv s' \<and> wk_sizes s' = [np, ni, nm, nc, na, nd, nl, no, ng, Suc n] \<and> wk_idents s' = wk_idents s @ [notif_ident x])"
proof -
  obtain m where m: "createNotification hash x s =
      Some (upd_cluster (\<lambda>c. c\<lparr>recoveryNotifications := recoveryNotifications c @ [m]\<rparr>) s)"
    "processGroupMetaModelIdentifier (k_notificationConfig m) = notif_ident x"
    using createNotification_appends [OF assms(3)] by blast
  let ?s = "upd_cluster (\<lambda>c. c\<lparr>recoveryNotifications := recoveryNotifications c @ [m]\<rparr>) s"
  let ?i = "hr_refGlobalSupervisionIndex x" and ?gs = "globalSupervisions (wk_cluster s)"
  have gs: "list_all (\<lambda>g. gl_inv g \<and> gl_targets (Suc n) g) ?gs" "list_all (\<lambda>g. globalStatus g = G_Deactivated) ?gs"
    using assms(1,2) gl_targets_Suc by (auto simp: wk_inv_def sw_inv_def wk_sizes_def list_all_iff)
  have r: "gl_inv g \<Longrightarrow> gl_inv (registerRecoveryNotification n g)" "gl_targets (Suc n) g \<Longrightarrow> gl_targets (Suc n) (registerRecoveryNotification n g)"
    "globalStatus (registerRecoveryNotification n g) = globalStatus g" for g
    by (auto simp: registerRecoveryNotification_def gl_inv_def gl_core_def gl_targets_def)
  have "list_all (\<lambda>g. gl_inv g \<and> gl_targets (Suc n) g) (?gs[?i := registerRecoveryNotification n (?gs ! ?i)])"
    "list_all (\<lambda>g. globalStatus g = G_Deactivated) (?gs[?i := registerRecoveryNotification n (?gs ! ?i)])"
    by (rule list_all_update [OF gs(1)], use gs r in \<open>simp add: list_all_length\<close>)
      (rule list_all_update [OF gs(2)], use gs r in \<open>simp add: list_all_length\<close>)
  then show ?thesis
    using assms(1,2) m
    by (auto simp: createRecoveryNotification_def wk_defs wk_idents_def intro!: goes_value)
qed

definition ident_ok :: "string \<Rightarrow> bool" where
  "ident_ok m \<longleftrightarrow> (case find_last_of (CHR ''/'') m of Some i \<Rightarrow> i \<noteq> 0 | None \<Rightarrow> False)"

lemma initProxies_outcome:
  "length (fst (snd (initProxies hash ns reg))) = length ns \<and>
   (fst (initProxies hash ns reg) \<longleftrightarrow> list_all (\<lambda>n. ident_ok (processGroupMetaModelIdentifier (k_notificationConfig n))) ns)"
proof (induction ns arbitrary: reg)
  case (Cons n ns)
  have "fst (initProxy hash n reg) \<longleftrightarrow> ident_ok (processGroupMetaModelIdentifier (k_notificationConfig n))"
    by (auto simp: initProxy_def ident_ok_def Let_def case_prod_beta split: option.split)
  then show ?case using Cons.IH by (simp add: case_prod_beta Let_def)
qed simp

lemma initWorkers_goes:
  assumes "wk_inv s \<and> wk_sizes s = z \<and> wk_idents s = is"
  shows "goes (initWorkers hash s) (list_all ident_ok is) (\<lambda>s'. wk_inv s' \<and> wk_sizes s' = z)"
  using assms initProxies_outcome [of hash "recoveryNotifications (wk_cluster s)" Map.empty]
  by (auto simp: initWorkers_def wk_defs wk_idents_def list.pred_map comp_def case_prod_beta intro!: goes_value)

subsection \<open>Process states, interfaces and checkpoints\<close>

definition process_wf :: "HmProcess \<Rightarrow> bool" where
  "process_wf x \<longleftrightarrow> hp_shortName x \<noteq> None \<and> strings_wf (hp_refProcessGroupStates x) \<and>
     (case hp_processExecutionErrors x of Some es \<Rightarrow> length es = length (the (hp_refProcessGroupStates x)) | None \<Rightarrow> False) \<and>
     (if hp_processType x = LM_PROCESS then the (hp_refProcessGroupStates x) \<noteq> [] else hp_identifier x \<noteq> None)"

text \<open>The ids under which processes are registered: that of the launch manager is not.\<close>

definition process_ids :: "(string \<Rightarrow> u64) \<Rightarrow> HmProcess list \<Rightarrow> ProcessId list" where
  "process_ids hash xs = map (\<lambda>x. hash (the (hp_identifier x))) (filter (\<lambda>x. hp_processType x \<noteq> LM_PROCESS) xs)"

lemma process_ids_append: "process_ids hash (xs @ ys) = process_ids hash xs @ process_ids hash ys"
  by (simp add: process_ids_def)

lemma createProcessState_goes:
  assumes "wk_inv s" "wk_sizes s = [p, 0, 0, 0, 0, 0, 0, 0, 0, 0]" "process_wf x"
  shows "goes (createProcessState hash x s) (set (process_ids hash [x]) \<inter> dom (processStateMap (wk_reader s)) = {})
    (\<lambda>s'. wk_inv s' \<and> wk_sizes s' = [Suc p, 0, 0, 0, 0, 0, 0, 0, 0, 0] \<and>
       dom (processStateMap (wk_reader s')) = dom (processStateMap (wk_reader s)) \<union> set (process_ids hash [x]))"
proof -
  obtain name pg es where x: "hp_shortName x = Some name" "hp_refProcessGroupStates x = Some pg" "strings pg = Some (map the pg)"
    "hp_processExecutionErrors x = Some es" "length es = length pg"
    "if hp_processType x = LM_PROCESS then pg \<noteq> [] else \<exists>i. hp_identifier x = Some i"
    using assms(3) strings_wf_total [of "hp_refProcessGroupStates x"] by (auto simp: process_wf_def split: option.splits if_splits)
  define ids where "ids = getProcessGroupStateIds hash (map the pg)"
  have wf: "ProcessState_wf (ProcessState_new \<lparr>cfg_processShortName = name, cfg_processId = i, cfg_configuredProcessGroupStates = ids,
      cfg_processExecutionErrors = es\<rparr>)" for i
    using x(5) by (simp add: ids_def ProcessState_wf_def ProcessState_new_def getProcessGroupStateIds_def)
  have ne: "hp_processType x = LM_PROCESS \<Longrightarrow> ids \<noteq> []"
    using x(6) by (simp add: ids_def getProcessGroupStateIds_def)
  show ?thesis
    using assms(1,2) x wf ne
    by (auto simp: createProcessState_def ids_def [symmetric] process_ids_def wk_defs emplaceProcessState_def registerProcessState_def
        getProcessId_def IdentifierHash_string_def psr_ok_def psr_wf_def setProcessGroupState_def ProcessState_wf_def goes_def
        split: if_splits)
qed

definition iface_wf :: "HmMonitorInterface \<Rightarrow> bool" where
  "iface_wf x \<longleftrightarrow> (case hi_interfacePath x of Some p \<Rightarrow> p \<noteq> '''' | None \<Rightarrow> False)"

text \<open>The channel of an interface can be set up.\<close>

definition channel_ok :: "IpcEnv \<Rightarrow> u32 \<Rightarrow> bool" where
  "channel_ok env uid \<longleftrightarrow> ie_existing env < 0 \<and> os_fd (ie_shm env) \<ge> 0 \<and> \<not> os_ftruncateFails (ie_shm env) \<and>
     \<not> os_mmapFails (ie_shm env) \<and> acl_ok (ie_acl env) uid"

lemma initIpcServer_outcome:
  assumes "path \<noteq> ''''" "initIpcServerWithUidBasedAccess env path uid CheckpointIpcServer_new = (ok, c)"
  shows "(ok \<longleftrightarrow> channel_ok env uid) \<and> (ok \<longrightarrow> cis_fresh c \<and> acl_inForce (cis_acl c) = Some (acl_of_user uid))"
proof -
  let ?b = "RingBuffer_new k_maxCheckpointBufferElements :: CpBuffer"
  obtain r i b where e: "IpcServer_init path (ie_existing env) (ie_shm env) Ipc_new ?b = (r, i, b)" by (metis prod_cases3)
  have k: "0 < k_maxCheckpointBufferElements" by (simp add: k_maxCheckpointBufferElements_def)
  note out = ipc_server_init_outcome [OF e refl k assms(1), of sizeof_CBE]
  note acl = setAccessRights_spec [of "ie_acl env" uid]
  show ?thesis
  proof (cases "r = Init_Ok")
    case True
    then have "ipc_inv sizeof_CBE i b" "isInitialized i" "rb_queue b = []" "\<not> overflow_flag b"
      using out hasOverflow_eq [of i b] by (auto simp: ipc_queue_def ipc_inv_def)
    then show ?thesis
      using True assms(2) out acl e
      by (auto simp: initIpcServerWithUidBasedAccess_def CheckpointIpcServer_new_def channel_ok_def cis_fresh_def Let_def case_prod_beta)
  next
    case False
    then show ?thesis
      using assms(2) out e by (auto simp: initIpcServerWithUidBasedAccess_def CheckpointIpcServer_new_def channel_ok_def Let_def)
  qed
qed

lemma createMonitorIfIpc_goes:
  assumes "wk_inv s" "wk_sizes s = [np, i, 0, 0, 0, 0, 0, 0, 0, 0]" "iface_wf x"
  shows "goes (createMonitorIfIpc env x s) (channel_ok (env i) (hi_permittedUid x))
    (\<lambda>s'. wk_inv s' \<and> wk_sizes s' = [np, Suc i, 0, 0, 0, 0, 0, 0, 0, 0])"
proof -
  obtain path where x: "hi_interfacePath x = Some path" "path \<noteq> ''''"
    using assms(3) by (auto simp: iface_wf_def split: option.splits)
  obtain ok c where c: "initIpcServerWithUidBasedAccess (env i) path (hi_permittedUid x) CheckpointIpcServer_new = (ok, c)" by fastforce
  show ?thesis
    using assms(1,2) x c initIpcServer_outcome [OF x(2) c]
    by (auto simp: createMonitorIfIpc_def wk_defs intro!: goes_value)
qed

lemma createMonitorInterface_goes:
  assumes "wk_inv s" "wk_sizes s = [np, ni, m, 0, 0, 0, 0, 0, 0, 0]" "cis_fresh c"
    and "hm_monitorInterface fb = Some xs" "m < length xs"
  shows "goes (createMonitorInterface fb c s) (hi_refProcessIndex (xs ! m) < np)
    (\<lambda>s'. wk_inv s' \<and> wk_sizes s' = [np, ni, Suc m, 0, 0, 0, 0, 0, 0, 0])"
proof -
  have "mon_fresh (MonitorIfDaemon_new (cis_ipc c) h, cis_buffer c)" for h
    using assms(3) by (simp add: mon_fresh_def cis_fresh_def MonitorIfDaemon_new_def)
  then show ?thesis
    using assms mon_fresh_ok
    by (auto simp: createMonitorInterface_def fb_Get_def wk_defs intro!: goes_value in_range_Suc)
qed

definition cp_wf :: "nat \<Rightarrow> HmSupervisionCheckpoint \<Rightarrow> bool" where
  "cp_wf ni x \<longleftrightarrow> hs_shortName x \<noteq> None \<and> hs_refInterfaceIndex x < ni"

lemma attach_at_fresh:
  assumes "list_all mon_fresh ms"
  shows "list_all mon_fresh (attach_at i a cp ms)" "length (attach_at i a cp ms) = length ms"
proof -
  obtain m b where mb: "ms ! i = (m, b)" by fastforce
  show "length (attach_at i a cp ms) = length ms" by (simp add: attach_at_def mb)
  have "i < length ms \<Longrightarrow> mon_fresh (m, b)" using assms mb by (metis list_all_length)
  then have "i < length ms \<Longrightarrow> mon_fresh (attachCheckpoint a (m\<lparr>mi_checkpoints := (mi_checkpoints m)(a := cp)\<rparr>), b)"
    by (simp add: mon_fresh_def attachCheckpoint_def)
  then show "list_all mon_fresh (attach_at i a cp ms)" using assms by (simp add: attach_at_def mb list_all_update)
qed

lemma createSupervisionCheckpoint_goes:
  assumes "wk_inv s" "wk_sizes s = [np, ni, ni, c, 0, 0, 0, 0, 0, 0]" "hm_monitorInterface fb = Some xs" "length xs = ni" "cp_wf ni x"
  shows "goes (createSupervisionCheckpoint fb x s) (hi_refProcessIndex (xs ! hs_refInterfaceIndex x) < np)
    (\<lambda>s'. wk_inv s' \<and> wk_sizes s' = [np, ni, ni, Suc c, 0, 0, 0, 0, 0, 0])"
proof -
  obtain name where x: "hs_shortName x = Some name" "hs_refInterfaceIndex x < ni" using assms(5) by (auto simp: cp_wf_def)
  have "list_all mon_ok ms" if "list_all mon_fresh ms" for ms using that mon_fresh_ok by (auto simp: list_all_iff)
  then show ?thesis
    using assms(1-4) x attach_at_fresh [of "monitorInterfaces (wk_cluster s)"]
    by (auto simp: createSupervisionCheckpoint_def fb_Get_def wk_defs intro!: goes_value)
qed

subsection \<open>The whole configuration\<close>

definition fb_size :: "'a list option \<Rightarrow> nat" where
  "fb_size v = (case v of Some xs \<Rightarrow> length xs | None \<Rightarrow> 0)"

definition fb_list :: "'a list option \<Rightarrow> 'a list" where
  "fb_list v = (case v of Some xs \<Rightarrow> xs | None \<Rightarrow> [])"

definition hm_wf :: "HMEcuCfg \<Rightarrow> bool" where
  "hm_wf fb \<longleftrightarrow> list_all process_wf (fb_list (hm_process fb)) \<and> list_all iface_wf (fb_list (hm_monitorInterface fb)) \<and>
     list_all (cp_wf (fb_size (hm_monitorInterface fb))) (fb_list (hm_supervisionCheckpoint fb)) \<and>
     list_all alive_wf (fb_list (hm_aliveSupervision fb)) \<and> list_all deadline_wf (fb_list (hm_deadlineSupervision fb)) \<and>
     list_all logical_wf (fb_list (hm_logicalSupervision fb)) \<and>
     list_all (\<lambda>x. ho_ruleContextKey x \<noteq> None) (fb_list (hm_localSupervision fb)) \<and>
     list_all global_wf (fb_list (hm_globalSupervision fb)) \<and> list_all notif_wf (fb_list (hm_recoveryNotification fb))"

definition hm_valid :: "(string \<Rightarrow> u64) \<Rightarrow> HMEcuCfg \<Rightarrow> bool" where
  "hm_valid hash fb \<longleftrightarrow>
     (let np = fb_size (hm_process fb); nc = fb_size (hm_supervisionCheckpoint fb)
      in hm_process fb \<noteq> None \<and> hm_monitorInterface fb \<noteq> None \<and> hm_supervisionCheckpoint fb \<noteq> None \<and>
         hm_localSupervision fb \<noteq> None \<and> hm_globalSupervision fb \<noteq> None \<and>
         distinct (process_ids hash (fb_list (hm_process fb))) \<and>
         list_all (\<lambda>x. hi_refProcessIndex x < np) (fb_list (hm_monitorInterface fb)) \<and>
         list_all (\<lambda>x. ha_refProcessIndex x < np \<and> ha_refCheckPointIndex x < nc) (fb_list (hm_aliveSupervision fb)) \<and>
         list_all (deadline_valid np nc) (fb_list (hm_deadlineSupervision fb)) \<and>
         list_all (logical_valid np nc) (fb_list (hm_logicalSupervision fb)) \<and>
         list_all (local_valid (fb_size (hm_aliveSupervision fb)) (fb_size (hm_deadlineSupervision fb)) (fb_size (hm_logicalSupervision fb)))
           (fb_list (hm_localSupervision fb)) \<and>
         list_all (global_valid np (fb_size (hm_localSupervision fb))) (fb_list (hm_globalSupervision fb)) \<and>
         list_all (\<lambda>x. hr_refGlobalSupervisionIndex x < fb_size (hm_globalSupervision fb) \<and> ident_ok (notif_ident x))
           (fb_list (hm_recoveryNotification fb)))"

definition channels_ok :: "(nat \<Rightarrow> IpcEnv) \<Rightarrow> HMEcuCfg \<Rightarrow> bool" where
  "channels_ok env fb \<longleftrightarrow> (\<forall>i < fb_size (hm_monitorInterface fb). channel_ok (env i) (hi_permittedUid (fb_list (hm_monitorInterface fb) ! i)))"

text \<open>The numbers of objects of a configuration.\<close>

definition hm_sizes :: "HMEcuCfg \<Rightarrow> nat list" where
  "hm_sizes fb = [fb_size (hm_process fb), fb_size (hm_monitorInterface fb), fb_size (hm_monitorInterface fb),
     fb_size (hm_supervisionCheckpoint fb), fb_size (hm_aliveSupervision fb), fb_size (hm_deadlineSupervision fb),
     fb_size (hm_logicalSupervision fb), fb_size (hm_localSupervision fb), fb_size (hm_globalSupervision fb),
     fb_size (hm_recoveryNotification fb)]"

text \<open>A loop over a vector of tables that counts the objects of one kind.\<close>

lemma goes_tables:
  assumes "\<And>i s x. p i s \<Longrightarrow> w x \<Longrightarrow> goes (f x s) (q x) (p (Suc i))" "list_all w (fb_list v)" "p 0 s"
  shows "goes (case v of Some xs \<Rightarrow> each f xs s | None \<Rightarrow> Some (missing, s)) ((v = None \<longrightarrow> missing) \<and> list_all q (fb_list v)) (p (fb_size v))"
proof (cases v)
  case None
  then show ?thesis using assms(3) by (auto simp: fb_size_def fb_list_def goes_def)
next
  case (Some xs)
  have "goes (each f xs s) (\<forall>i < length xs. q (xs ! i)) (p (length xs))"
    by (rule goes_each) (use assms Some in \<open>auto simp: fb_list_def list_all_length\<close>)
  then show ?thesis using Some by (simp add: fb_size_def fb_list_def list_all_length)
qed

lemma createProcessStates_goes:
  assumes "wk_inv s" "wk_sizes s = [0, 0, 0, 0, 0, 0, 0, 0, 0, 0]" "processStateMap (wk_reader s) = Map.empty" "hm_wf fb"
  shows "goes (createProcessStates hash fb s) (hm_process fb \<noteq> None \<and> distinct (process_ids hash (fb_list (hm_process fb))))
    (\<lambda>s'. wk_inv s' \<and> wk_sizes s' = [fb_size (hm_process fb), 0, 0, 0, 0, 0, 0, 0, 0, 0])"
proof (cases "hm_process fb")
  case None
  then show ?thesis by (simp add: createProcessStates_def goes_def)
next
  case (Some xs)
  let ?p = "\<lambda>i s'. wk_inv s' \<and> wk_sizes s' = [i, 0, 0, 0, 0, 0, 0, 0, 0, 0] \<and>
    dom (processStateMap (wk_reader s')) = set (process_ids hash (take i xs))"
  have d: "distinct (process_ids hash xs) \<Longrightarrow> i < length xs \<Longrightarrow> set (process_ids hash [xs ! i]) \<inter> set (process_ids hash (take i xs)) = {}" for i
  proof -
    assume "distinct (process_ids hash xs)" "i < length xs"
    moreover from this have "process_ids hash xs = process_ids hash (take i xs @ [xs ! i] @ drop (Suc i) xs)"
      by (simp add: Cons_nth_drop_Suc)
    ultimately have "distinct (process_ids hash (take i xs) @ process_ids hash [xs ! i] @ process_ids hash (drop (Suc i) xs))"
      by (simp only: process_ids_append)
    then show ?thesis by auto
  qed
  have "goes (each (createProcessState hash) xs s) (\<forall>i < length xs. distinct (process_ids hash xs)) (?p (length xs))"
  proof (rule goes_each [where p = ?p])
    fix i s' assume i: "i < length xs" and p: "?p i s'"
    have wf: "process_wf (xs ! i)" using assms(4) Some i by (simp add: hm_wf_def fb_list_def list_all_length)
    have t: "set (process_ids hash (take (Suc i) xs)) = set (process_ids hash (take i xs)) \<union> set (process_ids hash [xs ! i])"
      using i by (auto simp: process_ids_def take_Suc_conv_app_nth)
    show "goes (createProcessState hash (xs ! i) s') (distinct (process_ids hash xs)) (?p (Suc i))"
      by (rule goes_weaken [OF createProcessState_goes [OF _ _ wf]]) (use p d i t in \<open>auto\<close>)
  qed (use assms in \<open>simp add: process_ids_def\<close>)
  then have "goes (each (createProcessState hash) xs s) (distinct (process_ids hash xs))
      (\<lambda>s'. wk_inv s' \<and> wk_sizes s' = [length xs, 0, 0, 0, 0, 0, 0, 0, 0, 0])"
    by (rule goes_weaken) auto
  then show ?thesis
    unfolding createProcessStates_def by (intro goes_cleanup) (simp add: Some fb_size_def fb_list_def)
qed

lemma createMonitorIfIpcs_goes:
  assumes "wk_inv s \<and> wk_sizes s = [np, 0, 0, 0, 0, 0, 0, 0, 0, 0]" "hm_wf fb"
  shows "goes (createMonitorIfIpcs env fb s) (hm_monitorInterface fb \<noteq> None \<and> channels_ok env fb)
    (\<lambda>s'. wk_inv s' \<and> wk_sizes s' = [np, fb_size (hm_monitorInterface fb), 0, 0, 0, 0, 0, 0, 0, 0] \<and> hm_monitorInterface fb \<noteq> None)"
proof (cases "hm_monitorInterface fb")
  case None
  then show ?thesis by (simp add: createMonitorIfIpcs_def goes_def)
next
  case (Some xs)
  have "goes (each (createMonitorIfIpc env) xs s) (\<forall>i < length xs. channel_ok (env i) (hi_permittedUid (xs ! i)))
      (\<lambda>s'. wk_inv s' \<and> wk_sizes s' = [np, length xs, 0, 0, 0, 0, 0, 0, 0, 0])"
    by (rule goes_each [where p = "\<lambda>i s'. wk_inv s' \<and> wk_sizes s' = [np, i, 0, 0, 0, 0, 0, 0, 0, 0]"])
      (use assms Some in \<open>auto simp: hm_wf_def fb_list_def list_all_length intro: createMonitorIfIpc_goes\<close>)
  then show ?thesis
    unfolding createMonitorIfIpcs_def
    by (intro goes_cleanup) (simp add: Some fb_size_def fb_list_def channels_ok_def)
qed

lemma createMonitorIf_goes:
  assumes "wk_inv s \<and> wk_sizes s = [np, fb_size (hm_monitorInterface fb), 0, 0, 0, 0, 0, 0, 0, 0] \<and> hm_monitorInterface fb \<noteq> None"
  shows "goes (createMonitorIf fb s) (list_all (\<lambda>x. hi_refProcessIndex x < np) (fb_list (hm_monitorInterface fb)))
    (\<lambda>s'. wk_inv s' \<and> wk_sizes s' = [np, fb_size (hm_monitorInterface fb), fb_size (hm_monitorInterface fb), 0, 0, 0, 0, 0, 0, 0] \<and>
       hm_monitorInterface fb \<noteq> None)"
proof -
  obtain xs where xs: "hm_monitorInterface fb = Some xs" using assms by blast
  let ?cs = "wk_monitorIfIpcs s"
  have l: "length ?cs = length xs" using assms xs by (simp add: wk_sizes_def fb_size_def)
  have c: "list_all cis_fresh ?cs" using assms by (simp add: wk_inv_def)
  have "goes (each (createMonitorInterface fb) ?cs s) (\<forall>i < length ?cs. hi_refProcessIndex (xs ! i) < np)
      (\<lambda>s'. wk_inv s' \<and> wk_sizes s' = [np, length xs, length ?cs, 0, 0, 0, 0, 0, 0, 0])"
    by (rule goes_each [where p = "\<lambda>i s'. wk_inv s' \<and> wk_sizes s' = [np, length xs, i, 0, 0, 0, 0, 0, 0, 0]"])
      (use assms l c xs in \<open>auto simp: fb_size_def list_all_length intro: createMonitorInterface_goes\<close>)
  then show ?thesis
    unfolding createMonitorIf_def by (intro goes_cleanup) (simp add: xs l fb_size_def fb_list_def list_all_length)
qed

lemma createSupervisionCheckpoints_goes:
  assumes "wk_inv s \<and> wk_sizes s = [np, ni, ni, 0, 0, 0, 0, 0, 0, 0] \<and> hm_monitorInterface fb \<noteq> None"
    and "ni = fb_size (hm_monitorInterface fb)" "hm_wf fb"
  shows "goes (createSupervisionCheckpoints fb s)
      (hm_supervisionCheckpoint fb \<noteq> None \<and> list_all (\<lambda>x. hi_refProcessIndex x < np) (fb_list (hm_monitorInterface fb)))
    (\<lambda>s'. wk_inv s' \<and> wk_sizes s' = [np, ni, ni, fb_size (hm_supervisionCheckpoint fb), 0, 0, 0, 0, 0, 0])"
proof -
  obtain xs where xs: "hm_monitorInterface fb = Some xs" "length xs = ni" using assms(1,2) by (auto simp: fb_size_def)
  have "list_all (cp_wf ni) (fb_list (hm_supervisionCheckpoint fb))" using assms(2,3) by (simp add: hm_wf_def)
  from goes_tables [where p = "\<lambda>i s'. wk_inv s' \<and> wk_sizes s' = [np, ni, ni, i, 0, 0, 0, 0, 0, 0]" and w = "cp_wf ni" and
      q = "\<lambda>x. hi_refProcessIndex (xs ! hs_refInterfaceIndex x) < np" and f = "createSupervisionCheckpoint fb", OF _ this]
  have "goes (case hm_supervisionCheckpoint fb of Some cs \<Rightarrow> each (createSupervisionCheckpoint fb) cs s | None \<Rightarrow> Some (False, s))
      ((hm_supervisionCheckpoint fb = None \<longrightarrow> False) \<and>
       list_all (\<lambda>x. hi_refProcessIndex (xs ! hs_refInterfaceIndex x) < np) (fb_list (hm_supervisionCheckpoint fb)))
      (\<lambda>s'. wk_inv s' \<and> wk_sizes s' = [np, ni, ni, fb_size (hm_supervisionCheckpoint fb), 0, 0, 0, 0, 0, 0])"
    using assms(1) xs createSupervisionCheckpoint_goes by blast
  moreover have "list_all (\<lambda>x. hi_refProcessIndex (xs ! hs_refInterfaceIndex x) < np) (fb_list (hm_supervisionCheckpoint fb))"
    if "list_all (\<lambda>x. hi_refProcessIndex x < np) xs"
    using that assms(2,3) xs by (auto simp: hm_wf_def cp_wf_def list_all_iff)
  ultimately show ?thesis
    unfolding createSupervisionCheckpoints_def
    by (intro goes_cleanup) (rule goes_weaken, assumption, auto simp: xs(1) fb_list_def)
qed

lemma createAliveSupervisions_goes:
  assumes "wk_inv s \<and> wk_sizes s = [np, ni, nm, nc, 0, nd, nl, no, ng, nn]" "hm_wf fb"
  shows "goes (createAliveSupervisions hash buf fb s)
      (list_all (\<lambda>x. ha_refProcessIndex x < np \<and> ha_refCheckPointIndex x < nc) (fb_list (hm_aliveSupervision fb)))
    (\<lambda>s'. wk_inv s' \<and> wk_sizes s' = [np, ni, nm, nc, fb_size (hm_aliveSupervision fb), nd, nl, no, ng, nn])"
  unfolding createAliveSupervisions_def
  using goes_cleanup [OF goes_tables [where p = "\<lambda>i s'. wk_inv s' \<and> wk_sizes s' = [np, ni, nm, nc, i, nd, nl, no, ng, nn]"
    and w = alive_wf and q = "\<lambda>x. ha_refProcessIndex x < np \<and> ha_refCheckPointIndex x < nc" and
    f = "createAliveSupervision hash buf" and v = "hm_aliveSupervision fb" and s = s and missing = True]]
  assms createAliveSupervision_goes by (simp add: hm_wf_def)

lemma createDeadlineSupervisions_goes:
  assumes "wk_inv s \<and> wk_sizes s = [np, ni, nm, nc, na, 0, nl, no, ng, nn]" "hm_wf fb"
  shows "goes (createDeadlineSupervisions hash buf fb s) (list_all (deadline_valid np nc) (fb_list (hm_deadlineSupervision fb)))
    (\<lambda>s'. wk_inv s' \<and> wk_sizes s' = [np, ni, nm, nc, na, fb_size (hm_deadlineSupervision fb), nl, no, ng, nn])"
  unfolding createDeadlineSupervisions_def
  using goes_cleanup [OF goes_tables [where p = "\<lambda>i s'. wk_inv s' \<and> wk_sizes s' = [np, ni, nm, nc, na, i, nl, no, ng, nn]"
    and w = deadline_wf and q = "deadline_valid np nc" and f = "createDeadlineSupervision hash buf" and
    v = "hm_deadlineSupervision fb" and s = s and missing = True]]
  assms createDeadlineSupervision_goes by (simp add: hm_wf_def)

lemma createLogicalSupervisions_goes:
  assumes "wk_inv s \<and> wk_sizes s = [np, ni, nm, nc, na, nd, 0, no, ng, nn]" "hm_wf fb"
  shows "goes (createLogicalSupervisions hash buf fb s) (list_all (logical_valid np nc) (fb_list (hm_logicalSupervision fb)))
    (\<lambda>s'. wk_inv s' \<and> wk_sizes s' = [np, ni, nm, nc, na, nd, fb_size (hm_logicalSupervision fb), no, ng, nn])"
  unfolding createLogicalSupervisions_def
  using goes_cleanup [OF goes_tables [where p = "\<lambda>i s'. wk_inv s' \<and> wk_sizes s' = [np, ni, nm, nc, na, nd, i, no, ng, nn]"
    and w = logical_wf and q = "logical_valid np nc" and f = "createLogicalSupervision hash buf" and
    v = "hm_logicalSupervision fb" and s = s and missing = True]]
  assms createLogicalSupervision_goes by (simp add: hm_wf_def)

lemma createLocalSupervisions_goes:
  assumes "wk_inv s \<and> wk_sizes s = [np, ni, nm, nc, na, nd, nl, 0, ng, nn]" "hm_wf fb"
  shows "goes (createLocalSupervisions buf fb s)
      (hm_localSupervision fb \<noteq> None \<and> list_all (local_valid na nd nl) (fb_list (hm_localSupervision fb)))
    (\<lambda>s'. wk_inv s' \<and> wk_sizes s' = [np, ni, nm, nc, na, nd, nl, fb_size (hm_localSupervision fb), ng, nn])"
  unfolding createLocalSupervisions_def
  using goes_cleanup [OF goes_tables [where p = "\<lambda>i s'. wk_inv s' \<and> wk_sizes s' = [np, ni, nm, nc, na, nd, nl, i, ng, nn]"
    and w = "\<lambda>x. ho_ruleContextKey x \<noteq> None" and q = "local_valid na nd nl" and f = "createLocalSupervision buf" and
    v = "hm_localSupervision fb" and s = s and missing = False]]
  assms createLocalSupervision_goes by (simp add: hm_wf_def)

lemma createGlobalSupervisions_goes:
  assumes "wk_inv s \<and> wk_sizes s = [np, ni, nm, nc, na, nd, nl, no, 0, nn]" "hm_wf fb"
  shows "goes (createGlobalSupervisions hash buf fb s)
      (hm_globalSupervision fb \<noteq> None \<and> list_all (global_valid np no) (fb_list (hm_globalSupervision fb)))
    (\<lambda>s'. wk_inv s' \<and> wk_sizes s' = [np, ni, nm, nc, na, nd, nl, no, fb_size (hm_globalSupervision fb), nn])"
  unfolding createGlobalSupervisions_def
  using goes_cleanup [OF goes_tables [where p = "\<lambda>i s'. wk_inv s' \<and> wk_sizes s' = [np, ni, nm, nc, na, nd, nl, no, i, nn]"
    and w = global_wf and q = "global_valid np no" and f = "createGlobalSupervision hash buf" and
    v = "hm_globalSupervision fb" and s = s and missing = False]]
  assms createGlobalSupervision_goes by (simp add: hm_wf_def)

lemma createRecoveryNotifications_goes:
  assumes "wk_inv s \<and> wk_sizes s = [np, ni, nm, nc, na, nd, nl, no, ng, 0]" "hm_wf fb"
  shows "goes (createRecoveryNotifications hash fb s)
      (list_all (\<lambda>x. hr_refGlobalSupervisionIndex x < ng) (fb_list (hm_recoveryNotification fb)))
    (\<lambda>s'. wk_inv s' \<and> wk_sizes s' = [np, ni, nm, nc, na, nd, nl, no, ng, fb_size (hm_recoveryNotification fb)] \<and>
       wk_idents s' = map notif_ident (fb_list (hm_recoveryNotification fb)))"
proof -
  let ?xs = "fb_list (hm_recoveryNotification fb)"
  let ?p = "\<lambda>i s'. wk_inv s' \<and> wk_sizes s' = [np, ni, nm, nc, na, nd, nl, no, ng, i] \<and> wk_idents s' = map notif_ident (take i ?xs)"
  have "goes (each (createRecoveryNotification hash) ?xs s) (\<forall>i < length ?xs. hr_refGlobalSupervisionIndex (?xs ! i) < ng) (?p (length ?xs))"
  proof (rule goes_each [where p = ?p])
    fix i s' assume i: "i < length ?xs" and p: "?p i s'"
    have wf: "notif_wf (?xs ! i)" using assms(2) i by (simp add: hm_wf_def list_all_length)
    show "goes (createRecoveryNotification hash (?xs ! i) s') (hr_refGlobalSupervisionIndex (?xs ! i) < ng) (?p (Suc i))"
      by (rule goes_weaken [OF createRecoveryNotification_goes [OF _ _ wf]]) (use p i in \<open>auto simp: take_Suc_conv_app_nth\<close>)
  next
    have "recoveryNotifications (wk_cluster s) = []" using assms(1) by (simp add: wk_sizes_def)
    then show "?p 0 s" using assms(1) by (simp add: wk_idents_def)
  qed
  moreover have "(case hm_recoveryNotification fb of Some rs \<Rightarrow> each (createRecoveryNotification hash) rs s | None \<Rightarrow> Some (True, s)) =
      each (createRecoveryNotification hash) ?xs s"
    by (simp add: fb_list_def split: option.split)
  moreover have "fb_size (hm_recoveryNotification fb) = length ?xs" by (simp add: fb_size_def fb_list_def split: option.split)
  ultimately show ?thesis
    unfolding createRecoveryNotifications_def by (intro goes_cleanup) (simp add: list_all_length)
qed

text \<open>The construction from an empty cluster.\<close>

lemma wk_inv_new:
  assumes "psr_ok r" "psr_wf r" "psr_pushed r = []"
  shows "wk_inv (Workers_new (SwClusterHandler_new al dl lg lo) r)"
    "wk_sizes (Workers_new (SwClusterHandler_new al dl lg lo) r) = [0, 0, 0, 0, 0, 0, 0, 0, 0, 0]"
  using assms by (simp_all add: wk_defs Workers_new_def SwClusterHandler_new_def in_range_def)

lemma constructWorkers_goes:
  assumes "psr_ok r" "psr_wf r" "psr_pushed r = []" "processStateMap r = Map.empty" "hm_wf fb"
  shows "goes (constructWorkers hash env buf (Some (Some fb)) (Workers_new (SwClusterHandler_new al dl lg lo) r))
    (hm_valid hash fb \<and> channels_ok env fb) (\<lambda>s. wk_inv s \<and> wk_sizes s = hm_sizes fb)"
proof -
  let ?s = "Workers_new (SwClusterHandler_new al dl lg lo) r"
  have m: "processStateMap (wk_reader ?s) = Map.empty" using assms(4) by (simp add: Workers_new_def)
  note wf = assms(5)
  note g1 = createProcessStates_goes [OF wk_inv_new [OF assms(1-3)] m wf, of hash]
  note g2 = goes_unless_thrown [OF g1 createMonitorIfIpcs_goes [OF _ wf]]
  note g3 = goes_unless_thrown [OF g2 createMonitorIf_goes]
  note g4 = goes_unless_thrown [OF g3 createSupervisionCheckpoints_goes [OF _ refl wf]]
  note g5 = goes_unless_thrown [OF g4 createAliveSupervisions_goes [OF _ wf]]
  note g6 = goes_unless_thrown [OF g5 createDeadlineSupervisions_goes [OF _ wf]]
  note g7 = goes_unless_thrown [OF g6 createLogicalSupervisions_goes [OF _ wf]]
  note g8 = goes_unless_thrown [OF g7 createLocalSupervisions_goes [OF _ wf]]
  note g9 = goes_unless_thrown [OF g8 createGlobalSupervisions_goes [OF _ wf]]
  note g10 = goes_unless_thrown [OF g9 createRecoveryNotifications_goes [OF _ wf]]
  note g11 = goes_unless_thrown [OF g10 initWorkers_goes]
  show ?thesis
    unfolding constructWorkers_def ff_init_def option.case
    by (rule goes_weaken [OF g11]) (auto simp: hm_valid_def hm_sizes_def Let_def list_all_iff)
qed

subsection \<open>An example\<close>

text \<open>One process with one interface, one checkpoint, two alive supervisions of it and one supervision of each level above.\<close>

definition alive_example :: "int \<Rightarrow> HmAliveSupervision" where
  "alive_example cycle = \<lparr>ha_ruleContextKey = Some ''alive'', ha_refCheckPointIndex = 0, ha_aliveReferenceCycle = Finite cycle 0,
     ha_minAliveIndications = 1, ha_maxAliveIndications = 3, ha_isMinCheckDisabled = False, ha_isMaxCheckDisabled = False,
     ha_failedSupervisionCyclesTolerance = 1, ha_refProcessIndex = 0, ha_refProcessGroupStates = Some [Some ''MainPG/Running'']\<rparr>"

definition fb_example :: HMEcuCfg where
  "fb_example = \<lparr>
     hm_process = Some [\<lparr>hp_shortName = Some ''app'', hp_identifier = Some ''/app'', hp_processType = REGULAR_PROCESS,
       hp_refProcessGroupStates = Some [Some ''MainPG/Running''], hp_processExecutionErrors = Some [1]\<rparr>],
     hm_monitorInterface = Some [\<lparr>hi_interfacePath = Some ''/app_if'', hi_refProcessIndex = 0, hi_permittedUid = 1000\<rparr>],
     hm_supervisionCheckpoint = Some [\<lparr>hs_shortName = Some ''cp'', hs_checkpointId = 1, hs_refInterfaceIndex = 0\<rparr>],
     hm_aliveSupervision = Some [alive_example 100, alive_example 500],
     hm_deadlineSupervision = None, hm_logicalSupervision = None,
     hm_localSupervision = Some [\<lparr>ho_ruleContextKey = Some ''local'', ho_refAliveSupervision = Some [0, 1],
       ho_refDeadlineSupervision = None, ho_refLogicalSupervision = None\<rparr>],
     hm_globalSupervision = Some [\<lparr>hg_ruleContextKey = Some ''global'', hg_localSupervision = Some [0], hg_refProcesses = Some [0],
       hg_refProcessGroupStates = Some [(Some ''MainPG/Running'', Finite 0 0)]\<rparr>],
     hm_recoveryNotification = Some [\<lparr>hr_shortName = Some ''rn'', hr_recoveryNotificationTimeout = Finite 1000 0,
       hr_processGroupMetaModelIdentifier = Some ''MainPG/Recovery'', hr_refGlobalSupervisionIndex = 0,
       hr_instanceSpecifier = Some ''rn'', hr_shouldFireWatchdog = False\<rparr>]\<rparr>"

definition channel_example :: IpcEnv where
  "channel_example = \<lparr>ie_existing = - 1, ie_shm = \<lparr>os_fd = 3, os_openErrno = EOTHER, os_ftruncateFails = False, os_mmapFails = False,
     os_errnoAfterCleanup = EOTHER\<rparr>, ie_acl = \<lambda>_. True\<rparr>"

lemma fb_example_ok: "hm_wf fb_example" "hm_valid (\<lambda>s. of_nat (length s)) fb_example" "channels_ok (\<lambda>_. channel_example) fb_example"
proof -
  have "convertMilliSecToNanoSec (Finite 100 0) = Some 100000000" "convertMilliSecToNanoSec (Finite 500 0) = Some 500000000"
    using convertMilliSecToNanoSec_exact [of 100] convertMilliSecToNanoSec_exact [of 500] by simp_all
  then show "hm_wf fb_example"
    by (simp add: fb_example_def alive_example_def hm_wf_def fb_list_def fb_size_def process_wf_def strings_wf_def iface_wf_def cp_wf_def
        alive_wf_def global_wf_def notif_wf_def)
  show "hm_valid (\<lambda>s. of_nat (length s)) fb_example"
    by (simp add: fb_example_def alive_example_def hm_valid_def fb_list_def fb_size_def process_ids_def local_valid_def global_valid_def
        refs_def all_at_def ident_ok_def notif_ident_def Let_def)
  show "channels_ok (\<lambda>_. channel_example) fb_example"
    by (simp add: channels_ok_def channel_ok_def acl_ok_def acl_entries_ok_def entry_ok_def list.pred_True channel_example_def
        fb_example_def fb_size_def)
qed

end
