(* ===== verification/Worker_Wiring.thy ===== *)
theory Worker_Wiring
  imports Worker_Construction
begin

section \<open>Who observes whom after the construction\<close>

text \<open>
  The factory registers the objects of a cluster with each other while it creates them. Here the registrations
  that remain after a successful construction are computed from the tables of the configuration: each
  observer list holds, in order, the places of the tables that refer to the observed object, once per reference.
  The observer lists decide which reports, process changes and results a supervision receives in each cycle.
\<close>

subsection \<open>The specification\<close>

text \<open>The places of the tables \<open>xs\<close>, counted from \<open>n\<close>, whose references \<open>R\<close> contain \<open>a\<close>, once per reference.\<close>

fun referrers :: "('x \<Rightarrow> nat list) \<Rightarrow> 'x list \<Rightarrow> nat \<Rightarrow> nat \<Rightarrow> nat list" where
  "referrers R [] n a = []"
| "referrers R (x # xs) n a = map (\<lambda>_. n) (filter ((=) a) (R x)) @ referrers R xs (Suc n) a"

lemma set_referrers: "k \<in> set (referrers R xs n a) \<longleftrightarrow> n \<le> k \<and> k < n + length xs \<and> a \<in> set (R (xs ! (k - n)))"
proof (induction xs arbitrary: n)
  case (Cons x xs)
  have "(x # xs) ! (k - n) = xs ! (k - Suc n)" if "Suc n \<le> k" using that by (simp add: nth_Cons')
  then have "k \<in> set (referrers R xs (Suc n) a) \<longleftrightarrow> Suc n \<le> k \<and> k < n + length (x # xs) \<and> a \<in> set (R ((x # xs) ! (k - n)))"
    using Cons.IH [of "Suc n"] by auto
  moreover have "k \<in> set (map (\<lambda>_. n) (filter ((=) a) (R x))) \<longleftrightarrow> k = n \<and> a \<in> set (R x)" by auto
  ultimately show ?case by (cases "k = n") auto
qed simp

subsection \<open>Loops that register\<close>

abbreviation wk_wiring :: "Workers \<Rightarrow> Wiring" where
  "wk_wiring s \<equiv> sw_wiring (wk_cluster s)"

definition cl_sizes :: "Workers \<Rightarrow> nat list" where
  "cl_sizes s = [length (wk_monitorIfIpcs s), length (monitorInterfaces (wk_cluster s)), length (aliveSupervisions (wk_cluster s)),
     length (deadlineSupervisions (wk_cluster s)), length (logicalSupervisions (wk_cluster s)),
     length (localSupervisions (wk_cluster s)), length (globalSupervisions (wk_cluster s))]"

fun wire :: "('x \<Rightarrow> nat \<Rightarrow> Wiring \<Rightarrow> Wiring) \<Rightarrow> 'x list \<Rightarrow> nat \<Rightarrow> Wiring \<Rightarrow> Wiring" where
  "wire U [] n w = w"
| "wire U (x # xs) n w = wire U xs (Suc n) (U x n w)"

lemma wire_frame: "(\<And>x k w. F (U x k w) = F w) \<Longrightarrow> F (wire U xs n w) = F w"
  by (induction xs arbitrary: n w) simp_all

lemma wire_adds:
  "(\<And>x k w. F (U x k w) a = F w a @ map (\<lambda>_. k) (filter ((=) a) (R x))) \<Longrightarrow> F (wire U xs n w) a = F w a @ referrers R xs n a"
  by (induction xs arbitrary: n w) simp_all

lemma fold_attach [simp]:
  "fold (\<lambda>x. attachObserver (g x) k) xs f a = f a @ map (\<lambda>_. k) (filter ((=) a) (map g xs))"
  by (induction xs arbitrary: f) (auto simp: attachObserver_def)

lemma wire_places:
  "n + length ys = length xs \<Longrightarrow> wire (\<lambda>_ k. V (xs ! k) k) ys n w = wire V (drop n xs) n w"
proof (induction ys arbitrary: n w)
  case (Cons y ys)
  then have "drop n xs = xs ! n # drop (Suc n) xs" by (simp add: Cons_nth_drop_Suc)
  with Cons show ?case by simp
qed simp

text \<open>What one successful step does: it registers with \<open>U\<close> and adds one object of the kind \<open>i\<close>.\<close>

definition registers :: "nat \<Rightarrow> ('x \<Rightarrow> nat \<Rightarrow> Wiring \<Rightarrow> Wiring) \<Rightarrow> ('x \<Rightarrow> Workers \<Rightarrow> (bool \<times> Workers) option) \<Rightarrow> bool" where
  "registers i U f \<longleftrightarrow> (\<forall>x s s'. f x s = Some (True, s') \<longrightarrow>
     wk_wiring s' = U x (cl_sizes s ! i) (wk_wiring s) \<and> cl_sizes s' = (cl_sizes s)[i := Suc (cl_sizes s ! i)])"

lemma each_registers:
  assumes "registers i U f" "each f xs s = Some (True, s')" "i < 7"
  shows "wk_wiring s' = wire U xs (cl_sizes s ! i) (wk_wiring s) \<and> cl_sizes s' = (cl_sizes s)[i := cl_sizes s ! i + length xs]"
  using assms(2)
proof (induction xs arbitrary: s)
  case (Cons x xs)
  obtain s1 where s1: "f x s = Some (True, s1)" "each f xs s1 = Some (True, s')"
    using Cons.prems by (auto simp: bind_eq_Some_conv split: if_splits)
  have 1: "wk_wiring s1 = U x (cl_sizes s ! i) (wk_wiring s)" "cl_sizes s1 = (cl_sizes s)[i := Suc (cl_sizes s ! i)]"
    using assms(1) s1(1) unfolding registers_def by blast+
  have "i < length (cl_sizes s)" using assms(3) by (simp add: cl_sizes_def)
  then show ?case using Cons.IH [OF s1(2)] 1 by simp
qed (simp add: assms(3))

text \<open>Steps that register nothing.\<close>

definition neutral_step :: "(Workers \<Rightarrow> (bool \<times> Workers) option) \<Rightarrow> bool" where
  "neutral_step f \<longleftrightarrow> (\<forall>s s'. f s = Some (True, s') \<longrightarrow> wk_wiring s' = wk_wiring s \<and> cl_sizes s' = cl_sizes s)"

lemma each_neutral: "(\<And>x. neutral_step (f x)) \<Longrightarrow> neutral_step (each f xs)"
  unfolding neutral_step_def
proof (induction xs)
  case (Cons x xs)
  then show ?case by (fastforce simp: bind_eq_Some_conv split: if_splits)
qed simp

lemma unless_thrown_True: "unless_thrown r f = Some (True, s') \<longleftrightarrow> (\<exists>s. r = Some (True, s) \<and> f s = Some (True, s'))"
  by (auto simp: unless_thrown_def bind_eq_Some_conv split: if_splits)

lemma cleanup_True: "(do { (ok, s) \<leftarrow> r; Some (ok, if ok then s else g s) }) = Some (True, s') \<longleftrightarrow> r = Some (True, s')"
  by (auto simp: bind_eq_Some_conv split: if_splits)

lemmas wiring_defs = cl_sizes_def upd_cluster_def upd_wiring_def Let_def

subsection \<open>What each step registers\<close>

definition U_monitor :: "HmMonitorInterface \<Rightarrow> nat \<Rightarrow> Wiring \<Rightarrow> Wiring" where
  "U_monitor x k w = w\<lparr>w_psMonitors := attachObserver (hi_refProcessIndex x) k (w_psMonitors w)\<rparr>"

definition U_alive :: "HmAliveSupervision \<Rightarrow> nat \<Rightarrow> Wiring \<Rightarrow> Wiring" where
  "U_alive x k w = w\<lparr>w_cpAlives := attachObserver (ha_refCheckPointIndex x) k (w_cpAlives w),
     w_psAlives := attachObserver (ha_refProcessIndex x) k (w_psAlives w)\<rparr>"

definition deadline_points :: "HmDeadlineSupervision \<Rightarrow> nat list" where
  "deadline_points x = (case hd_checkpointTransition x of Some (source, target) \<Rightarrow> [source, target] | None \<Rightarrow> [])"

definition U_deadline :: "HmDeadlineSupervision \<Rightarrow> nat \<Rightarrow> Wiring \<Rightarrow> Wiring" where
  "U_deadline x k w = w\<lparr>w_cpDeadlines := fold (\<lambda>p. attachObserver p k) (deadline_points x) (w_cpDeadlines w),
     w_psDeadlines := fold (\<lambda>p. attachObserver p k) (refs (hd_refProcessIndices x)) (w_psDeadlines w)\<rparr>"

definition logical_points :: "HmLogicalSupervision \<Rightarrow> nat list" where
  "logical_points x = map hlc_refCheckPointIndex (fb_list (hl_checkpoints x))"

definition U_logical :: "HmLogicalSupervision \<Rightarrow> nat \<Rightarrow> Wiring \<Rightarrow> Wiring" where
  "U_logical x k w = w\<lparr>w_cpLogicals := fold (\<lambda>p. attachObserver p k) (logical_points x) (w_cpLogicals w),
     w_psLogicals := fold (\<lambda>p. attachObserver p k) (refs (hl_refProcessIndices x)) (w_psLogicals w)\<rparr>"

definition U_local :: "HmLocalSupervision \<Rightarrow> nat \<Rightarrow> Wiring \<Rightarrow> Wiring" where
  "U_local x k w = w\<lparr>w_aliveLocals := fold (\<lambda>p. attachObserver p k) (refs (ho_refAliveSupervision x)) (w_aliveLocals w),
     w_deadlineLocals := fold (\<lambda>p. attachObserver p k) (refs (ho_refDeadlineSupervision x)) (w_deadlineLocals w),
     w_logicalLocals := fold (\<lambda>p. attachObserver p k) (refs (ho_refLogicalSupervision x)) (w_logicalLocals w)\<rparr>"

definition U_global :: "HmGlobalSupervision \<Rightarrow> nat \<Rightarrow> Wiring \<Rightarrow> Wiring" where
  "U_global x k w = w\<lparr>w_localGlobals := fold (\<lambda>p. attachObserver p k) (refs (hg_localSupervision x)) (w_localGlobals w),
     w_psGlobals := fold (\<lambda>p. attachObserver p k) (refs (hg_refProcesses x)) (w_psGlobals w)\<rparr>"

lemma createMonitorIfIpc_registers: "registers 0 (\<lambda>_ _ w. w) (createMonitorIfIpc env)"
  by (auto simp: registers_def createMonitorIfIpc_def wiring_defs bind_eq_Some_conv case_prod_beta)

lemma createMonitorInterface_registers:
  "registers 1 (\<lambda>_ k. U_monitor (fb_list (hm_monitorInterface fb) ! k) k) (createMonitorInterface fb)"
  by (auto simp: registers_def createMonitorInterface_def fb_Get_def fb_list_def U_monitor_def wiring_defs bind_eq_Some_conv
      split: if_splits option.splits)

lemma createAliveSupervision_registers: "registers 2 U_alive (createAliveSupervision hash buf)"
  by (auto simp: registers_def createAliveSupervision_def U_alive_def wiring_defs bind_eq_Some_conv split: if_splits)

lemma createDeadlineSupervision_registers: "registers 3 U_deadline (createDeadlineSupervision hash buf)"
  by (auto simp: registers_def createDeadlineSupervision_def U_deadline_def deadline_points_def refs_def wiring_defs bind_eq_Some_conv
      split: if_splits)

lemma graphNodes_points:
  "graphNodes n cps (graph, ents) = Some (graph', ents') \<Longrightarrow>
     map trackedCheckpoint_r graph' = map trackedCheckpoint_r graph @ map hlc_refCheckPointIndex cps"
  by (induction cps arbitrary: graph ents) (auto simp: GraphElement_new_def split: if_splits)

lemma graphEdges_points: "graphEdges ts graph = Some graph' \<Longrightarrow> map trackedCheckpoint_r graph' = map trackedCheckpoint_r graph"
proof (induction ts arbitrary: graph)
  case (Cons t ts)
  obtain a b where t: "t = (a, b)" by fastforce
  have "map trackedCheckpoint_r (graph[a := addValidNextGraphElement b (graph ! a)]) = map trackedCheckpoint_r graph" if "a < length graph"
    using that by (simp add: map_update addValidNextGraphElement_def) (metis list_update_id nth_map)
  then show ?case using Cons t by (auto split: if_splits)
qed simp

lemma fold_map_attach: "fold (\<lambda>e. attachObserver (g e) k) es = fold (\<lambda>p. attachObserver p k) (map g es)"
  by (simp add: fold_map comp_def)

lemma createLogicalSupervision_registers: "registers 4 U_logical (createLogicalSupervision hash buf)"
  unfolding registers_def
proof (intro allI impI)
  fix x and s s' :: Workers
  let ?k = "length (logicalSupervisions (wk_cluster s))"
  assume "createLogicalSupervision hash buf x s = Some (True, s')"
  then obtain ps cps l g0 es ts g where p: "hl_refProcessIndices x = Some ps" "hl_checkpoints x = Some cps"
    and n: "graphNodes (length (wk_checkpoints s)) cps ([], []) = Some (g0, es)" "graphEdges ts g0 = Some g"
    and s': "s' = upd_wiring (\<lambda>w. w\<lparr>w_psLogicals := fold (\<lambda>p. attachObserver p ?k) ps (w_psLogicals w)\<rparr>)
      (upd_cluster (\<lambda>c. c\<lparr>logicalSupervisions := (logicalSupervisions c)[?k := addGraph es g (logicalSupervisions c ! ?k)]\<rparr>)
        (upd_wiring (\<lambda>w. w\<lparr>w_cpLogicals := fold (\<lambda>e. attachObserver (trackedCheckpoint_r e) ?k) g (w_cpLogicals w)\<rparr>)
          (upd_cluster (\<lambda>c. c\<lparr>logicalSupervisions := logicalSupervisions c @ [l]\<rparr>) s)))"
    by (simp add: createLogicalSupervision_def bind_eq_Some_conv Let_def upd_cluster_def split: if_splits option.splits prod.splits) blast
  have "map trackedCheckpoint_r g = map hlc_refCheckPointIndex cps" using graphNodes_points [OF n(1)] graphEdges_points [OF n(2)] by simp
  then show "wk_wiring s' = U_logical x (cl_sizes s ! 4) (wk_wiring s) \<and> cl_sizes s' = (cl_sizes s)[4 := Suc (cl_sizes s ! 4)]"
    unfolding s' by (simp add: U_logical_def logical_points_def fb_list_def refs_def p wiring_defs fold_map_attach [of trackedCheckpoint_r])
qed

lemma each_subscribe:
  assumes "\<And>i s s'. f i s = Some (True, s') \<Longrightarrow> wk_wiring s' = u i (cl_sizes s ! j - 1) (wk_wiring s) \<and> cl_sizes s' = cl_sizes s"
    and "each f xs s = Some (True, s')"
  shows "wk_wiring s' = fold (\<lambda>i. u i (cl_sizes s ! j - 1)) xs (wk_wiring s) \<and> cl_sizes s' = cl_sizes s"
  using assms(2)
proof (induction xs arbitrary: s)
  case (Cons x xs)
  obtain s1 where s1: "f x s = Some (True, s1)" "each f xs s1 = Some (True, s')"
    using Cons.prems by (auto simp: bind_eq_Some_conv split: if_splits)
  show ?case using Cons.IH [OF s1(2)] assms(1) [OF s1(1)] by simp
qed simp

lemma fold_fields:
  "fold (\<lambda>i w. w\<lparr>w_aliveLocals := attachObserver i k (w_aliveLocals w)\<rparr>) xs w = w\<lparr>w_aliveLocals := fold (\<lambda>p. attachObserver p k) xs (w_aliveLocals w)\<rparr>"
  "fold (\<lambda>i w. w\<lparr>w_deadlineLocals := attachObserver i k (w_deadlineLocals w)\<rparr>) xs w = w\<lparr>w_deadlineLocals := fold (\<lambda>p. attachObserver p k) xs (w_deadlineLocals w)\<rparr>"
  "fold (\<lambda>i w. w\<lparr>w_logicalLocals := attachObserver i k (w_logicalLocals w)\<rparr>) xs w = w\<lparr>w_logicalLocals := fold (\<lambda>p. attachObserver p k) xs (w_logicalLocals w)\<rparr>"
  "fold (\<lambda>i w. w\<lparr>w_localGlobals := attachObserver i k (w_localGlobals w)\<rparr>) xs w = w\<lparr>w_localGlobals := fold (\<lambda>p. attachObserver p k) xs (w_localGlobals w)\<rparr>"
  "fold (\<lambda>i w. w\<lparr>w_psGlobals := attachObserver i k (w_psGlobals w)\<rparr>) xs w = w\<lparr>w_psGlobals := fold (\<lambda>p. attachObserver p k) xs (w_psGlobals w)\<rparr>"
  by (induction xs arbitrary: w) simp_all

lemma subscribe_local:
  "each subscribeAlive xs s = Some (True, s') \<Longrightarrow> wk_wiring s' =
     (wk_wiring s)\<lparr>w_aliveLocals := fold (\<lambda>p. attachObserver p (cl_sizes s ! 5 - 1)) xs (w_aliveLocals (wk_wiring s))\<rparr> \<and> cl_sizes s' = cl_sizes s"
  "each subscribeDeadline xs s = Some (True, s') \<Longrightarrow> wk_wiring s' =
     (wk_wiring s)\<lparr>w_deadlineLocals := fold (\<lambda>p. attachObserver p (cl_sizes s ! 5 - 1)) xs (w_deadlineLocals (wk_wiring s))\<rparr> \<and> cl_sizes s' = cl_sizes s"
  "each subscribeLogical xs s = Some (True, s') \<Longrightarrow> wk_wiring s' =
     (wk_wiring s)\<lparr>w_logicalLocals := fold (\<lambda>p. attachObserver p (cl_sizes s ! 5 - 1)) xs (w_logicalLocals (wk_wiring s))\<rparr> \<and> cl_sizes s' = cl_sizes s"
  unfolding fold_fields [symmetric]
  by (erule each_subscribe [rotated], (auto simp: subscribeAlive_def subscribeDeadline_def subscribeLogical_def registerLast_def wiring_defs split: if_splits)[1])+

lemma subscribe_global:
  "each subscribeLocal xs s = Some (True, s') \<Longrightarrow> wk_wiring s' =
     (wk_wiring s)\<lparr>w_localGlobals := fold (\<lambda>p. attachObserver p (cl_sizes s ! 6 - 1)) xs (w_localGlobals (wk_wiring s))\<rparr> \<and> cl_sizes s' = cl_sizes s"
  "each subscribeProcess xs s = Some (True, s') \<Longrightarrow> wk_wiring s' =
     (wk_wiring s)\<lparr>w_psGlobals := fold (\<lambda>p. attachObserver p (cl_sizes s ! 6 - 1)) xs (w_psGlobals (wk_wiring s))\<rparr> \<and> cl_sizes s' = cl_sizes s"
  unfolding fold_fields [symmetric]
  by (erule each_subscribe [rotated], (auto simp: subscribeLocal_def subscribeProcess_def updateLastGlobal_def wiring_defs split: if_splits)[1])+

lemma createLocalSupervision_registers: "registers 5 U_local (createLocalSupervision buf)"
  unfolding registers_def
proof (intro allI impI)
  fix x s s'
  assume "createLocalSupervision buf x s = Some (True, s')"
  then obtain s1 s2 where "each subscribeAlive (refs (ho_refAliveSupervision x))
      (upd_cluster (\<lambda>c. c\<lparr>localSupervisions := localSupervisions c @ [Local_new (bufferSizeLocalSupervision buf)]\<rparr>) s) = Some (True, s1)"
    "each subscribeDeadline (refs (ho_refDeadlineSupervision x)) s1 = Some (True, s2)"
    "each subscribeLogical (refs (ho_refLogicalSupervision x)) s2 = Some (True, s')"
    by (auto simp: createLocalSupervision_def unless_thrown_True bind_eq_Some_conv)
  from subscribe_local(1) [OF this(1)] subscribe_local(2) [OF this(2)] subscribe_local(3) [OF this(3)]
  show "wk_wiring s' = U_local x (cl_sizes s ! 5) (wk_wiring s) \<and> cl_sizes s' = (cl_sizes s)[5 := Suc (cl_sizes s ! 5)]"
    by (simp add: U_local_def wiring_defs)
qed

lemma createGlobalSupervision_registers: "registers 6 U_global (createGlobalSupervision hash buf)"
  unfolding registers_def
proof (intro allI impI)
  fix x s s'
  assume "createGlobalSupervision hash buf x s = Some (True, s')"
  then obtain g ls ps s1 where "hg_localSupervision x = Some ls" "hg_refProcesses x = Some ps"
    "each subscribeLocal ls (upd_cluster (\<lambda>c. c\<lparr>globalSupervisions := globalSupervisions c @ [g]\<rparr>) s) = Some (True, s1)"
    "each subscribeProcess ps s1 = Some (True, s')"
    by (auto simp: createGlobalSupervision_def unless_thrown_True bind_eq_Some_conv Let_def)
  with subscribe_global(1) [OF this(3)] subscribe_global(2) [OF this(4)]
  show "wk_wiring s' = U_global x (cl_sizes s ! 6) (wk_wiring s) \<and> cl_sizes s' = (cl_sizes s)[6 := Suc (cl_sizes s ! 6)]"
    by (simp add: U_global_def refs_def wiring_defs)
qed

lemma stage_registers:
  assumes "registers i U f" "i < 7"
    and "(do { (ok, s) \<leftarrow> (case v of Some xs \<Rightarrow> each f xs s | None \<Rightarrow> Some (missing, s)); Some (ok, if ok then s else g s) }) = Some (True, s')"
  shows "wk_wiring s' = wire U (fb_list v) (cl_sizes s ! i) (wk_wiring s) \<and> cl_sizes s' = (cl_sizes s)[i := cl_sizes s ! i + fb_size v]"
  using assms(3) each_registers [OF assms(1) _ assms(2)] unfolding cleanup_True
  by (cases v) (auto simp: fb_list_def fb_size_def)

lemma stage_neutral:
  assumes "\<And>x. neutral_step (f x)"
    and "(do { (ok, s) \<leftarrow> (case v of Some xs \<Rightarrow> each f xs s | None \<Rightarrow> Some (missing, s)); Some (ok, if ok then s else g s) }) = Some (True, s')"
  shows "wk_wiring s' = wk_wiring s \<and> cl_sizes s' = cl_sizes s"
  using assms(2) each_neutral [of f, OF assms(1)] unfolding cleanup_True neutral_step_def by (cases v) auto

lemma neutral_steps:
  "neutral_step (createProcessState hash p)" "neutral_step (createSupervisionCheckpoint fb c)"
  "neutral_step (createRecoveryNotification hash n)" "neutral_step (initWorkers hash)"
  by (auto simp: neutral_step_def createProcessState_def emplaceProcessState_def wiring_defs bind_eq_Some_conv case_prod_beta split: if_splits)
    (auto simp: neutral_step_def createSupervisionCheckpoint_def attach_at_def wiring_defs bind_eq_Some_conv case_prod_beta
      createRecoveryNotification_def createNotification_def initWorkers_def split: if_splits)

lemma stages:
  "createProcessStates hash fb s = Some (True, s') \<Longrightarrow> wk_wiring s' = wk_wiring s \<and> cl_sizes s' = cl_sizes s"
  "createSupervisionCheckpoints fb s = Some (True, s') \<Longrightarrow> wk_wiring s' = wk_wiring s \<and> cl_sizes s' = cl_sizes s"
  "createRecoveryNotifications hash fb s = Some (True, s') \<Longrightarrow> wk_wiring s' = wk_wiring s \<and> cl_sizes s' = cl_sizes s"
  "initWorkers hash s = Some (True, s') \<Longrightarrow> wk_wiring s' = wk_wiring s \<and> cl_sizes s' = cl_sizes s"
  unfolding createProcessStates_def createSupervisionCheckpoints_def createRecoveryNotifications_def
  by (erule stage_neutral [rotated], rule neutral_steps)+ (use neutral_steps(4) in \<open>simp add: neutral_step_def\<close>)

lemma createMonitorIf_wires:
  assumes "createMonitorIf fb s = Some (True, s')" "cl_sizes s = [fb_size (hm_monitorInterface fb), 0, a, d, l, lo, g]"
  shows "wk_wiring s' = wire U_monitor (fb_list (hm_monitorInterface fb)) 0 (wk_wiring s) \<and>
    cl_sizes s' = [fb_size (hm_monitorInterface fb), fb_size (hm_monitorInterface fb), a, d, l, lo, g]"
proof -
  let ?xs = "fb_list (hm_monitorInterface fb)" and ?cs = "wk_monitorIfIpcs s"
  have l: "length ?cs = length ?xs" "length ?xs = fb_size (hm_monitorInterface fb)"
    using assms(2) by (simp_all add: cl_sizes_def fb_size_def fb_list_def split: option.splits)
  have "each (createMonitorInterface fb) ?cs s = Some (True, s')" using assms(1) unfolding createMonitorIf_def cleanup_True .
  from each_registers [OF createMonitorInterface_registers this] show ?thesis
    using wire_places [of 0 ?cs ?xs U_monitor "wk_wiring s"] l assms(2) by simp
qed

text \<open>All the registrations of a constructed cluster.\<close>

definition fb_wiring :: "HMEcuCfg \<Rightarrow> Wiring \<Rightarrow> Wiring" where
  "fb_wiring fb w = wire U_global (fb_list (hm_globalSupervision fb)) 0 (wire U_local (fb_list (hm_localSupervision fb)) 0
     (wire U_logical (fb_list (hm_logicalSupervision fb)) 0 (wire U_deadline (fb_list (hm_deadlineSupervision fb)) 0
       (wire U_alive (fb_list (hm_aliveSupervision fb)) 0 (wire U_monitor (fb_list (hm_monitorInterface fb)) 0 w)))))"

lemma wire_nothing [simp]: "wire (\<lambda>_ _ w. w) xs n w = w"
  by (induction xs arbitrary: n) simp_all

lemma constructWorkers_wiring:
  assumes "constructWorkers hash env buf (Some (Some fb)) (Workers_new (SwClusterHandler_new al dl lg lo) r) = Some (True, s)"
  shows "sw_wiring (wk_cluster s) = fb_wiring fb (sw_wiring (SwClusterHandler_new al dl lg lo))"
proof -
  let ?s0 = "Workers_new (SwClusterHandler_new al dl lg lo) r"
  obtain s1 s2 s3 s4 s5 s6 s7 s8 s9 s10 where c: "createProcessStates hash fb ?s0 = Some (True, s1)"
    "createMonitorIfIpcs env fb s1 = Some (True, s2)" "createMonitorIf fb s2 = Some (True, s3)"
    "createSupervisionCheckpoints fb s3 = Some (True, s4)" "createAliveSupervisions hash buf fb s4 = Some (True, s5)"
    "createDeadlineSupervisions hash buf fb s5 = Some (True, s6)" "createLogicalSupervisions hash buf fb s6 = Some (True, s7)"
    "createLocalSupervisions buf fb s7 = Some (True, s8)" "createGlobalSupervisions hash buf fb s8 = Some (True, s9)"
    "createRecoveryNotifications hash fb s9 = Some (True, s10)" "initWorkers hash s10 = Some (True, s)"
    using assms unfolding constructWorkers_def ff_init_def option.case unless_thrown_True by blast
  have 0: "cl_sizes ?s0 = [0, 0, 0, 0, 0, 0, 0]" "wk_wiring ?s0 = sw_wiring (SwClusterHandler_new al dl lg lo)"
    by (simp_all add: cl_sizes_def Workers_new_def SwClusterHandler_new_def)
  note 1 = stages(1) [OF c(1)]
  note 2 = stage_registers [OF createMonitorIfIpc_registers _ c(2) [unfolded createMonitorIfIpcs_def]]
  note 3 = createMonitorIf_wires [OF c(3)]
  note 4 = stages(2) [OF c(4)]
  note 5 = stage_registers [OF createAliveSupervision_registers _ c(5) [unfolded createAliveSupervisions_def]]
  note 6 = stage_registers [OF createDeadlineSupervision_registers _ c(6) [unfolded createDeadlineSupervisions_def]]
  note 7 = stage_registers [OF createLogicalSupervision_registers _ c(7) [unfolded createLogicalSupervisions_def]]
  note 8 = stage_registers [OF createLocalSupervision_registers _ c(8) [unfolded createLocalSupervisions_def]]
  note 9 = stage_registers [OF createGlobalSupervision_registers _ c(9) [unfolded createGlobalSupervisions_def]]
  note 10 = stages(3) [OF c(10)]
  note 11 = stages(4) [OF c(11)]
  have "cl_sizes s2 = [fb_size (hm_monitorInterface fb), 0, 0, 0, 0, 0, 0]" "wk_wiring s2 = wk_wiring ?s0" using 0 1 2 by simp_all
  then show ?thesis unfolding fb_wiring_def using 0 3 4 5 6 7 8 9 10 11 by simp
qed

subsection \<open>The property\<close>

lemmas wire_frames = wire_frame [where F = w_psMonitors] wire_frame [where F = w_cpAlives] wire_frame [where F = w_psAlives]
  wire_frame [where F = w_cpDeadlines] wire_frame [where F = w_psDeadlines] wire_frame [where F = w_cpLogicals]
  wire_frame [where F = w_psLogicals] wire_frame [where F = w_aliveLocals] wire_frame [where F = w_deadlineLocals]
  wire_frame [where F = w_logicalLocals] wire_frame [where F = w_localGlobals] wire_frame [where F = w_psGlobals]

lemmas U_defs = U_monitor_def U_alive_def U_deadline_def U_logical_def U_local_def U_global_def

lemma wired:
  "w_psMonitors (wire U_monitor xs n w) a = w_psMonitors w a @ referrers (\<lambda>x. [hi_refProcessIndex x]) xs n a"
  "w_cpAlives (wire U_alive as n w) a = w_cpAlives w a @ referrers (\<lambda>x. [ha_refCheckPointIndex x]) as n a"
  "w_psAlives (wire U_alive as n w) a = w_psAlives w a @ referrers (\<lambda>x. [ha_refProcessIndex x]) as n a"
  "w_cpDeadlines (wire U_deadline ds n w) a = w_cpDeadlines w a @ referrers deadline_points ds n a"
  "w_psDeadlines (wire U_deadline ds n w) a = w_psDeadlines w a @ referrers (\<lambda>x. refs (hd_refProcessIndices x)) ds n a"
  "w_cpLogicals (wire U_logical ls n w) a = w_cpLogicals w a @ referrers logical_points ls n a"
  "w_psLogicals (wire U_logical ls n w) a = w_psLogicals w a @ referrers (\<lambda>x. refs (hl_refProcessIndices x)) ls n a"
  "w_aliveLocals (wire U_local os n w) a = w_aliveLocals w a @ referrers (\<lambda>x. refs (ho_refAliveSupervision x)) os n a"
  "w_deadlineLocals (wire U_local os n w) a = w_deadlineLocals w a @ referrers (\<lambda>x. refs (ho_refDeadlineSupervision x)) os n a"
  "w_logicalLocals (wire U_local os n w) a = w_logicalLocals w a @ referrers (\<lambda>x. refs (ho_refLogicalSupervision x)) os n a"
  "w_localGlobals (wire U_global gs n w) a = w_localGlobals w a @ referrers (\<lambda>x. refs (hg_localSupervision x)) gs n a"
  "w_psGlobals (wire U_global gs n w) a = w_psGlobals w a @ referrers (\<lambda>x. refs (hg_refProcesses x)) gs n a"
  by (rule wire_adds, simp add: U_defs attachObserver_def)+

lemma fb_wired:
  "w_psMonitors (fb_wiring fb w) a = w_psMonitors w a @ referrers (\<lambda>x. [hi_refProcessIndex x]) (fb_list (hm_monitorInterface fb)) 0 a"
  "w_cpAlives (fb_wiring fb w) a = w_cpAlives w a @ referrers (\<lambda>x. [ha_refCheckPointIndex x]) (fb_list (hm_aliveSupervision fb)) 0 a"
  "w_psAlives (fb_wiring fb w) a = w_psAlives w a @ referrers (\<lambda>x. [ha_refProcessIndex x]) (fb_list (hm_aliveSupervision fb)) 0 a"
  "w_cpDeadlines (fb_wiring fb w) a = w_cpDeadlines w a @ referrers deadline_points (fb_list (hm_deadlineSupervision fb)) 0 a"
  "w_psDeadlines (fb_wiring fb w) a = w_psDeadlines w a @ referrers (\<lambda>x. refs (hd_refProcessIndices x)) (fb_list (hm_deadlineSupervision fb)) 0 a"
  "w_cpLogicals (fb_wiring fb w) a = w_cpLogicals w a @ referrers logical_points (fb_list (hm_logicalSupervision fb)) 0 a"
  "w_psLogicals (fb_wiring fb w) a = w_psLogicals w a @ referrers (\<lambda>x. refs (hl_refProcessIndices x)) (fb_list (hm_logicalSupervision fb)) 0 a"
  "w_aliveLocals (fb_wiring fb w) a = w_aliveLocals w a @ referrers (\<lambda>x. refs (ho_refAliveSupervision x)) (fb_list (hm_localSupervision fb)) 0 a"
  "w_deadlineLocals (fb_wiring fb w) a = w_deadlineLocals w a @ referrers (\<lambda>x. refs (ho_refDeadlineSupervision x)) (fb_list (hm_localSupervision fb)) 0 a"
  "w_logicalLocals (fb_wiring fb w) a = w_logicalLocals w a @ referrers (\<lambda>x. refs (ho_refLogicalSupervision x)) (fb_list (hm_localSupervision fb)) 0 a"
  "w_localGlobals (fb_wiring fb w) a = w_localGlobals w a @ referrers (\<lambda>x. refs (hg_localSupervision x)) (fb_list (hm_globalSupervision fb)) 0 a"
  "w_psGlobals (fb_wiring fb w) a = w_psGlobals w a @ referrers (\<lambda>x. refs (hg_refProcesses x)) (fb_list (hm_globalSupervision fb)) 0 a"
  by (simp_all add: fb_wiring_def wired wire_frames U_defs)

text \<open>The whole wiring of a configuration.\<close>

definition wired_as :: "HMEcuCfg \<Rightarrow> Wiring \<Rightarrow> bool" where
  "wired_as fb w \<longleftrightarrow>
     w_cpAlives w = referrers (\<lambda>x. [ha_refCheckPointIndex x]) (fb_list (hm_aliveSupervision fb)) 0 \<and>
     w_cpDeadlines w = referrers deadline_points (fb_list (hm_deadlineSupervision fb)) 0 \<and>
     w_cpLogicals w = referrers logical_points (fb_list (hm_logicalSupervision fb)) 0 \<and>
     w_psMonitors w = referrers (\<lambda>x. [hi_refProcessIndex x]) (fb_list (hm_monitorInterface fb)) 0 \<and>
     w_psAlives w = referrers (\<lambda>x. [ha_refProcessIndex x]) (fb_list (hm_aliveSupervision fb)) 0 \<and>
     w_psDeadlines w = referrers (\<lambda>x. refs (hd_refProcessIndices x)) (fb_list (hm_deadlineSupervision fb)) 0 \<and>
     w_psLogicals w = referrers (\<lambda>x. refs (hl_refProcessIndices x)) (fb_list (hm_logicalSupervision fb)) 0 \<and>
     w_psGlobals w = referrers (\<lambda>x. refs (hg_refProcesses x)) (fb_list (hm_globalSupervision fb)) 0 \<and>
     w_aliveLocals w = referrers (\<lambda>x. refs (ho_refAliveSupervision x)) (fb_list (hm_localSupervision fb)) 0 \<and>
     w_deadlineLocals w = referrers (\<lambda>x. refs (ho_refDeadlineSupervision x)) (fb_list (hm_localSupervision fb)) 0 \<and>
     w_logicalLocals w = referrers (\<lambda>x. refs (ho_refLogicalSupervision x)) (fb_list (hm_localSupervision fb)) 0 \<and>
     w_localGlobals w = referrers (\<lambda>x. refs (hg_localSupervision x)) (fb_list (hm_globalSupervision fb)) 0"

lemma constructWorkers_wired_as:
  assumes "constructWorkers hash env buf (Some (Some fb)) (Workers_new (SwClusterHandler_new al dl lg lo) r) = Some (True, s)"
  shows "wired_as fb (sw_wiring (wk_cluster s))"
  unfolding wired_as_def constructWorkers_wiring [OF assms] by (simp add: fun_eq_iff fb_wired SwClusterHandler_new_def)

text \<open>
  (C33) The registrations of a constructed cluster are those of its configuration: a checkpoint notifies exactly the
  alive, deadline and logical supervisions that refer to it, a process state notifies exactly the interfaces and
  supervisions that refer to its process, a supervision hands its results exactly to the local supervisions that
  refer to it and a local one exactly to the global supervisions that refer to it, in the order of the
  tables and once per reference.
\<close>

theorem cluster_wired:
  assumes "constructWorkers hash env buf (Some (Some fb)) (Workers_new (SwClusterHandler_new al dl lg lo) r) = Some (True, s)"
    and "w = sw_wiring (wk_cluster s)"
  shows "w_cpAlives w a = referrers (\<lambda>x. [ha_refCheckPointIndex x]) (fb_list (hm_aliveSupervision fb)) 0 a \<and>
    w_cpDeadlines w a = referrers deadline_points (fb_list (hm_deadlineSupervision fb)) 0 a \<and>
    w_cpLogicals w a = referrers logical_points (fb_list (hm_logicalSupervision fb)) 0 a \<and>
    w_psMonitors w a = referrers (\<lambda>x. [hi_refProcessIndex x]) (fb_list (hm_monitorInterface fb)) 0 a \<and>
    w_psAlives w a = referrers (\<lambda>x. [ha_refProcessIndex x]) (fb_list (hm_aliveSupervision fb)) 0 a \<and>
    w_psDeadlines w a = referrers (\<lambda>x. refs (hd_refProcessIndices x)) (fb_list (hm_deadlineSupervision fb)) 0 a \<and>
    w_psLogicals w a = referrers (\<lambda>x. refs (hl_refProcessIndices x)) (fb_list (hm_logicalSupervision fb)) 0 a \<and>
    w_psGlobals w a = referrers (\<lambda>x. refs (hg_refProcesses x)) (fb_list (hm_globalSupervision fb)) 0 a \<and>
    w_aliveLocals w a = referrers (\<lambda>x. refs (ho_refAliveSupervision x)) (fb_list (hm_localSupervision fb)) 0 a \<and>
    w_deadlineLocals w a = referrers (\<lambda>x. refs (ho_refDeadlineSupervision x)) (fb_list (hm_localSupervision fb)) 0 a \<and>
    w_logicalLocals w a = referrers (\<lambda>x. refs (ho_refLogicalSupervision x)) (fb_list (hm_localSupervision fb)) 0 a \<and>
    w_localGlobals w a = referrers (\<lambda>x. refs (hg_localSupervision x)) (fb_list (hm_globalSupervision fb)) 0 a"
  unfolding assms(2) constructWorkers_wiring [OF assms(1)] by (simp add: fb_wired SwClusterHandler_new_def)

theorem cluster_wired_witness:
  "\<exists>s. constructWorkers (\<lambda>s. of_nat (length s)) (\<lambda>_. channel_example) SupervisionBufferConfig_new (Some (Some fb_example))
       (Workers_new (SwClusterHandler_new id id id id) (ProcessStateReader_new (\<lambda>_. ProcessState_new \<lparr>cfg_processShortName = [],
          cfg_processId = 0, cfg_configuredProcessGroupStates = [], cfg_processExecutionErrors = []\<rparr>))) = Some (True, s) \<and>
     w_cpAlives (sw_wiring (wk_cluster s)) 0 = [0, 1] \<and> w_aliveLocals (sw_wiring (wk_cluster s)) 1 = [0] \<and> w_psGlobals (sw_wiring (wk_cluster s)) 7 = []"
proof -
  let ?r = "ProcessStateReader_new (\<lambda>_. ProcessState_new \<lparr>cfg_processShortName = [],
          cfg_processId = 0, cfg_configuredProcessGroupStates = [], cfg_processExecutionErrors = []\<rparr>)"
  have r: "psr_ok ?r" "psr_wf ?r" "psr_pushed ?r = []" "processStateMap ?r = Map.empty"
    by (simp_all add: ProcessStateReader_new_def psr_ok_def psr_wf_def ProcessState_wf_def ProcessState_new_def)
  obtain s where s: "constructWorkers (\<lambda>s. of_nat (length s)) (\<lambda>_. channel_example) SupervisionBufferConfig_new (Some (Some fb_example))
       (Workers_new (SwClusterHandler_new id id id id) ?r) = Some (True, s)"
    using constructWorkers_goes [OF r fb_example_ok(1), of "\<lambda>s. of_nat (length s)" "\<lambda>_. channel_example" SupervisionBufferConfig_new id id id id]
      fb_example_ok(2,3) by (auto simp: goes_def split: option.splits)
  then show ?thesis
    using cluster_wired [OF s refl, of 0] cluster_wired [OF s refl, of 1] cluster_wired [OF s refl, of 7]
    by (simp add: fb_example_def alive_example_def fb_list_def refs_def)
qed

end
