(* ===== verification/Daemon_Start.thy ===== *)
theory Daemon_Start
  imports Worker_Wiring
begin

section \<open>Start and cyclic execution of the daemon\<close>

text \<open>
  Models \<^verbatim>\<open>PhmDaemon::construct\<close>, \<^verbatim>\<open>init\<close> and \<^verbatim>\<open>startCyclicExec\<close> (\<^verbatim>\<open>saf/daemon/PhmDaemon.{hpp,cpp}\<close>) and
  \<^verbatim>\<open>HealthMonitorImpl\<close>: the configuration is loaded, the workers are constructed, the timer and the watchdog are
  set up, and then the cycles are executed until the termination is requested.

  The two configuration files, the answers of the clocks and of the channels are inputs (\<open>DaemonEnv\<close>). What
  happens around one turn of the cyclic loop is an input too (\<open>Turn\<close>): the value of the termination flag,
  what the other threads and processes did before the cycle, the clock, and the attempts to sleep. The loop
  runs over a list of turns; \<open>DR_running\<close> is a loop that is still going on after the last of them.
  The block compiled under \<^verbatim>\<open>LAUNCH_MANAGER_ALIVE_SUPERVISION\<close>, a macro no build file defines, is left out.
\<close>

subsection \<open>Initialization\<close>

datatype EInitCode = EI_NoError | EI_NotInitialized | EI_CycleTimeInitFailed | EI_ConstructFlatCfgFactoryFailed
  | EI_WatchdogInitFailed | EI_WatchdogEnableFailed | EI_MachineConfigInitFailed | EI_SignalHandlerRegistrationFailed
  | EI_GeneralError

record DaemonEnv =
  de_hmcore :: "HMCOREEcuCfg option option"
  de_hm :: "HMEcuCfg option option"
  de_ipc :: "nat \<Rightarrow> IpcEnv"
  de_clockRes :: "timespec option"
  de_clockGetTime :: int
  de_address :: "(nat \<Rightarrow> nat) \<times> (nat \<Rightarrow> nat) \<times> (nat \<Rightarrow> nat) \<times> (nat \<Rightarrow> nat)"

record DaemonState =
  ds_daemon :: PhmDaemon
  ds_cycleTimer :: CycleTimer

text \<open>The store of the process states, which the factory fills, starts with a dummy at every place.\<close>

definition PhmDaemon_new :: "WatchdogImpl \<Rightarrow> PsBuffer \<Rightarrow> DaemonState" where
  "PhmDaemon_new f_watchdog f_process_state_receiver =
     \<lparr>ds_daemon = \<lparr>swClusterHandlers = [],
        processStateReader = ProcessStateReader_new (\<lambda>_. ProcessState_new \<lparr>cfg_processShortName = [], cfg_processId = 0,
          cfg_configuredProcessGroupStates = [], cfg_processExecutionErrors = []\<rparr>),
        pd_psBuffer = f_process_state_receiver, pd_watchdog = f_watchdog\<rparr>, ds_cycleTimer = CycleTimer_new True\<rparr>"

text \<open>The list of clusters is the constant \<^verbatim>\<open>MainCluster\<close>.\<close>

definition pd_construct ::
  "(string \<Rightarrow> u64) \<Rightarrow> DaemonEnv \<Rightarrow> SupervisionBufferConfig \<Rightarrow> PhmDaemon \<Rightarrow> (bool \<times> PhmDaemon) option"
where
  "pd_construct hash env f_bufferConfig_r d = (let (al, dl, lg, lo) = de_address env in do {
     (isSuccess, s) \<leftarrow> constructWorkers hash (de_ipc env) f_bufferConfig_r (de_hm env)
                        (Workers_new (SwClusterHandler_new al dl lg lo) (processStateReader d));
     Some (isSuccess, d\<lparr>swClusterHandlers := swClusterHandlers d @ [wk_cluster s], processStateReader := wk_reader s\<rparr>)
   })"

definition pd_initWatchdog ::
  "'w DeviceIf \<Rightarrow> int \<Rightarrow> DeviceConfig list option \<Rightarrow> DaemonState \<Rightarrow> 'w \<Rightarrow> (EInitCode \<times> DaemonState \<times> 'w) option"
where
  "pd_initWatchdog dev cycleTimeModified configs d w =
     (let (ok, wd) = wd_init cycleTimeModified configs (pd_watchdog (ds_daemon d));
          d = d\<lparr>ds_daemon := (ds_daemon d)\<lparr>pd_watchdog := wd\<rparr>\<rparr>
      in if \<not> ok then Some (EI_WatchdogInitFailed, d, w)
         else do {
           (ok, wd, w) \<leftarrow> wd_enable dev wd w;
           let d = d\<lparr>ds_daemon := (ds_daemon d)\<lparr>pd_watchdog := wd\<rparr>\<rparr>;
           Some (if \<not> ok then EI_WatchdogEnableFailed else EI_NoError, d, w)
         })"

text \<open>The cast of the cycle time to a signed number keeps its bits.\<close>

definition pd_init ::
  "(string \<Rightarrow> u64) \<Rightarrow> 'w DeviceIf \<Rightarrow> DaemonEnv \<Rightarrow> DaemonState \<Rightarrow> 'w \<Rightarrow> (EInitCode \<times> DaemonState \<times> 'w) option"
where
  "pd_init hash dev env d w = do {
     (ok, machineConfig) \<leftarrow> mc_init (de_hmcore env) MachineConfigFactory_new;
     (if \<not> ok then Some (EI_MachineConfigInitFailed, d, w)
      else do {
        (ok, pd) \<leftarrow> pd_construct hash env (getSupervisionBufferConfig machineConfig) (ds_daemon d);
        let d = d\<lparr>ds_daemon := pd\<rparr>;
        (if \<not> ok then Some (EI_ConstructFlatCfgFactoryFailed, d, w)
         else (let cycleTimeModified = sint (getCycleTimeInNs machineConfig);
                   cycleTimeModified = adjustCycleTimeOnClockAccuracy cycleTimeModified (de_clockRes env);
                   (timerInit, ct) = ct_init (de_clockGetTime env) cycleTimeModified (ds_cycleTimer d);
                   d = d\<lparr>ds_cycleTimer := ct\<rparr>
               in if \<not> timerInit > 0 then Some (EI_CycleTimeInitFailed, d, w)
                  else pd_initWatchdog dev cycleTimeModified (getDeviceConfigurations machineConfig) d w))
      })
   }"

subsection \<open>Cyclic execution\<close>

record Turn =
  tn_terminate :: bool
  tn_events :: "pd_event list"
  tn_clock :: "timespec option"
  tn_inputs :: "nat \<Rightarrow> nat \<Rightarrow> TriggerInput"
  tn_sleepClock :: "timespec option"
  tn_attempts :: "(bool \<times> int) list"

datatype DaemonRun = DR_returned bool | DR_waits | DR_running

text \<open>After the loop the watchdog is disabled.\<close>

definition pd_shutdown :: "'w DeviceIf \<Rightarrow> DaemonState \<Rightarrow> 'w \<Rightarrow> DaemonRun \<times> DaemonState \<times> 'w" where
  "pd_shutdown dev d w =
     (let (wd, w) = wd_disable dev (pd_watchdog (ds_daemon d)) w
      in (DR_returned True, d\<lparr>ds_daemon := (ds_daemon d)\<lparr>pd_watchdog := wd\<rparr>\<rparr>, w))"

fun pd_loop :: "'w DeviceIf \<Rightarrow> Turn list \<Rightarrow> DaemonState \<Rightarrow> 'w \<Rightarrow> (DaemonRun \<times> DaemonState \<times> 'w) option" where
  "pd_loop dev [] d w = Some (DR_running, d, w)"
| "pd_loop dev (t # ts) d w =
     (if tn_terminate t then Some (pd_shutdown dev d w)
      else do {
        (_, pd) \<leftarrow> pd_run (tn_events t) (ds_daemon d);
        (waits, pd, w) \<leftarrow> performCyclicTriggers dev (tn_clock t) (tn_inputs t) pd w;
        let d = d\<lparr>ds_daemon := pd\<rparr>;
        (if waits then Some (DR_waits, d, w)
         else do {
           ct \<leftarrow> calcNextShot (ds_cycleTimer d);
           let d = d\<lparr>ds_cycleTimer := ct\<rparr>;
           (sleepResult, nsOverDeadline) \<leftarrow> ct_sleep (tn_sleepClock t) (tn_attempts t) ct;
           (if sleepResult = EINTR then Some (pd_shutdown dev d w) else pd_loop dev ts d w)
         })
      })"

text \<open>\<open>clock\<close> is the result of reading the clock and the time it gave.\<close>

definition startCyclicExec ::
  "'w DeviceIf \<Rightarrow> int \<times> timespec \<Rightarrow> Turn list \<Rightarrow> DaemonState \<Rightarrow> 'w \<Rightarrow> (DaemonRun \<times> DaemonState \<times> 'w) option"
where
  "startCyclicExec dev clock ts d w =
     (let (startTimestamp, ct) = ct_start (fst clock) (snd clock) (ds_cycleTimer d);
          d = d\<lparr>ds_cycleTimer := ct\<rparr>
      in if startTimestamp = 0 then Some (DR_returned False, d, w) else pd_loop dev ts d w)"

subsection \<open>The health monitor\<close>

text \<open>
  The watchdog and the receiver are moved into the daemon by the first \<^verbatim>\<open>init\<close>; a second one, which would
  work on null pointers, has no result here. No step of the model
  throws out of it, so the error of the two handlers does not arise; the time measurement is only logged.
  \<^verbatim>\<open>run\<close> before \<^verbatim>\<open>init\<close> fails an assertion or dereferences a null pointer.
\<close>

record HealthMonitorImpl =
  m_watchdog :: "WatchdogImpl option"
  m_process_state_receiver :: "PsBuffer option"
  m_daemon :: "DaemonState option"

definition HealthMonitorImpl_new :: "WatchdogImpl \<Rightarrow> PsBuffer \<Rightarrow> HealthMonitorImpl" where
  "HealthMonitorImpl_new watchdog process_state_receiver =
     \<lparr>m_watchdog = Some watchdog, m_process_state_receiver = Some process_state_receiver, m_daemon = None\<rparr>"

definition hm_init ::
  "(string \<Rightarrow> u64) \<Rightarrow> 'w DeviceIf \<Rightarrow> DaemonEnv \<Rightarrow> HealthMonitorImpl \<Rightarrow> 'w \<Rightarrow>
   (EInitCode \<times> HealthMonitorImpl \<times> 'w) option"
where
  "hm_init hash dev env h w = do {
     watchdog \<leftarrow> m_watchdog h;
     receiver \<leftarrow> m_process_state_receiver h;
     (initResult, d, w) \<leftarrow> pd_init hash dev env (PhmDaemon_new watchdog receiver) w;
     Some (initResult, h\<lparr>m_watchdog := None, m_process_state_receiver := None, m_daemon := Some d\<rparr>, w)
   }"

definition hm_run ::
  "'w DeviceIf \<Rightarrow> int \<times> timespec \<Rightarrow> Turn list \<Rightarrow> HealthMonitorImpl \<Rightarrow> 'w \<Rightarrow> (DaemonRun \<times> HealthMonitorImpl \<times> 'w) option"
where
  "hm_run dev clock ts h w = do {
     d \<leftarrow> m_daemon h;
     (r, d, w) \<leftarrow> startCyclicExec dev clock ts d w;
     Some (r, h\<lparr>m_daemon := Some d\<rparr>, w)
   }"

subsection \<open>A device that answers in seconds\<close>

text \<open>The milliseconds of every number of seconds that a driver returns fit into an \<^verbatim>\<open>int\<close>.\<close>

definition seconds_device :: "'w DeviceIf \<Rightarrow> bool" where
  "seconds_device dev \<longleftrightarrow> (\<forall>fd rq p w. \<bar>fst (snd (dev_ioctl dev fd rq p w))\<bar> \<le> 2147483)"

lemma secToMs_total: "\<bar>x\<bar> \<le> 2147483 \<Longrightarrow> secToMs x = Some (x * 1000)"
  unfolding secToMs_def by auto

lemma msToSec_small: "\<bar>uint (msToSec t)\<bar> \<le> 2147483"
proof -
  have "uint t < 2 ^ 16" using uint_lt2p [of t] by simp
  then have "uint t div 1000 \<le> 2147483" "0 \<le> uint t div 1000" by (auto simp: pos_imp_zdiv_nonneg_iff)
  then show ?thesis by (simp add: msToSec_def uint_div_distrib)
qed

lemma seconds_ioctl:
  assumes "seconds_device dev"
  obtains r q w' where "dev_ioctl dev fd rq p w = (r, q, w')" "secToMs q = Some (q * 1000)"
  using assms secToMs_total unfolding seconds_device_def by (metis prod.collapse)

lemma wd_setTimeout_total:
  assumes "seconds_device dev"
  shows "\<exists>ok w'. wd_setTimeout dev fd t w = Some (ok, w')"
  by (rule seconds_ioctl [OF assms, of fd WDIOC_SETTIMEOUT "uint (msToSec t)" w])
    (simp add: wd_setTimeout_def Let_def secToMs_total [OF msToSec_small])

lemma read_timeouts_total:
  assumes "seconds_device dev"
  shows "\<exists>r t w'. getConfiguredTimeout dev fd w = Some (r, t, w')" "\<exists>r t w'. getRemainingTime dev fd w = Some (r, t, w')"
  by (rule seconds_ioctl [OF assms, of fd WDIOC_GETTIMEOUT "- 1" w], simp add: getConfiguredTimeout_def)
    (rule seconds_ioctl [OF assms, of fd WDIOC_GETTIMELEFT "- 1" w], simp add: getRemainingTime_def)

lemma updateTimeout_total:
  assumes "seconds_device dev"
  shows "\<exists>ok w'. updateTimeout dev dv old w = Some (ok, w')"
proof -
  obtain r t w1 where "getRemainingTime dev (fileDescriptor dv) w = Some (r, t, w1)" using read_timeouts_total(2) [OF assms] by blast
  then show ?thesis using wd_setTimeout_total [OF assms] by (auto simp: updateTimeout_def)
qed

lemma enableDevice_total:
  assumes "seconds_device dev"
  shows "\<exists>ok dv' w'. enableDevice dev dv w = Some (ok, dv', w') \<and> wd_config dv' = wd_config dv \<and> (ok \<longrightarrow> fileDescriptor dv' \<ge> 0)"
proof -
  obtain fd w1 where 1: "dev_open dev (fileName (wd_config dv)) w = (fd, w1)" by fastforce
  obtain r t w2 where 2: "getConfiguredTimeout dev fd w1 = Some (r, t, w2)" using read_timeouts_total(1) [OF assms] by blast
  obtain ok w3 where "updateTimeout dev (dv\<lparr>fileDescriptor := fd\<rparr>) t w2 = Some (ok, w3)" using updateTimeout_total [OF assms] by blast
  then show ?thesis using 1 2 by (auto simp: enableDevice_def Let_def case_prod_beta)
qed

text \<open>
  A device that can be armed: it can be opened, none of its calls fails, and it accepts the configured timeout as it is.
\<close>

definition working_device :: "'w DeviceIf \<Rightarrow> DeviceConfig \<Rightarrow> bool" where
  "working_device dev c \<longleftrightarrow> (\<forall>w. fst (dev_open dev (fileName c) w) \<ge> 0) \<and> (\<forall>fd rq p w. fst (dev_ioctl dev fd rq p w) \<ge> 0) \<and>
     (\<forall>fd w. fst (snd (dev_ioctl dev fd WDIOC_SETTIMEOUT (uint (msToSec (timeoutMax c))) w)) = uint (msToSec (timeoutMax c)))"

lemma seconds_answer: "seconds_device dev \<Longrightarrow> secToMs (fst (snd (dev_ioctl dev fd rq p w))) = Some (fst (snd (dev_ioctl dev fd rq p w)) * 1000)"
  by (rule secToMs_total) (simp add: seconds_device_def)

lemma enableDevice_works:
  assumes "seconds_device dev" "working_device dev (wd_config dv)"
  shows "\<exists>dv' w'. enableDevice dev dv w = Some (True, dv', w')"
proof -
  note wd = assms(2) [unfolded working_device_def] and sec = seconds_answer [OF assms(1)]
  have nn: "\<not> fst (dev_ioctl dev fd rq p w') < 0" for fd rq p w' using wd by (simp add: not_less)
  obtain fd w1 where 1: "dev_open dev (fileName (wd_config dv)) w = (fd, w1)" by fastforce
  then have fd: "fd \<ge> 0" using wd by (metis fst_conv)
  obtain r t w2 where 2: "getConfiguredTimeout dev fd w1 = Some (r, t, w2)" "r \<ge> 0"
    by (simp add: getConfiguredTimeout_def case_prod_beta nn sec)
  obtain r' t' w3 where 3: "getRemainingTime dev fd w2 = Some (r', t', w3)" "r' \<ge> 0"
    by (simp add: getRemainingTime_def case_prod_beta nn sec)
  have "\<exists>w'. wd_setTimeout dev fd (timeoutMax (wd_config dv)) w3 = Some (True, w')"
    using wd by (simp add: wd_setTimeout_def Let_def case_prod_beta sec secToMs_total [OF msToSec_small])
  then obtain w4 where 4: "updateTimeout dev (dv\<lparr>fileDescriptor := fd\<rparr>) t w2 = Some (True, w4)"
    using 3 by (cases "t = uint (timeoutMax (wd_config dv))") (auto simp: updateTimeout_def)
  have "fst (setEnableCardOption dev fd w4)" using wd by (simp add: setEnableCardOption_def case_prod_beta)
  then show ?thesis using 1 2 4 fd by (simp add: enableDevice_def Let_def case_prod_beta)
qed

lemma enable_loop_total:
  assumes "seconds_device dev"
  shows "\<exists>ok st' dvs' w'. enable_loop dev dvs (r, st) w = Some (ok, st', dvs', w') \<and> map wd_config dvs' = map wd_config dvs \<and>
    (ok \<longrightarrow> list_all (\<lambda>dv. fileDescriptor dv \<ge> 0) dvs' \<and> r \<and> st' = (if dvs = [] then st else WD_activated)) \<and>
    (list_all (working_device dev) (map wd_config dvs) \<longrightarrow> ok = r)"
proof (induction dvs arbitrary: r st w)
  case (Cons dv dvs)
  obtain k dv' w1 where 1: "enableDevice dev dv w = Some (k, dv', w1)" "wd_config dv' = wd_config dv" "k \<longrightarrow> fileDescriptor dv' \<ge> 0"
    using enableDevice_total [OF assms] by blast
  have 2: "k" if "working_device dev (wd_config dv)" using enableDevice_works [OF assms that, of w] 1(1) by simp
  obtain ok st' dvs' w' where 3: "enable_loop dev dvs (r \<and> k, if k then WD_activated else st) w1 = Some (ok, st', dvs', w')"
    "map wd_config dvs' = map wd_config dvs"
    "ok \<longrightarrow> list_all (\<lambda>dv. fileDescriptor dv \<ge> 0) dvs' \<and> (r \<and> k) \<and> st' = (if dvs = [] then (if k then WD_activated else st) else WD_activated)"
    "list_all (working_device dev) (map wd_config dvs) \<longrightarrow> ok = (r \<and> k)"
    using Cons.IH [of "r \<and> k" "if k then WD_activated else st" w1] by metis
  then have "enable_loop dev (dv # dvs) (r, st) w = Some (ok, st', dv' # dvs', w')" using 1(1) by simp
  moreover have "st' = WD_activated" if "ok" using 3(3) that by (simp split: if_splits)
  ultimately show ?case using 1(2,3) 2 3(2-4)
    by (intro exI [of _ ok] exI [of _ st'] exI [of _ "dv' # dvs'"] exI [of _ w'] conjI) simp_all
qed simp

text \<open>Every armed device is open.\<close>

definition wd_live :: "WatchdogImpl \<Rightarrow> bool" where
  "wd_live i \<longleftrightarrow> list_all (\<lambda>dv. fileDescriptor dv \<ge> 0) (watchdogDevices i) \<and> (watchdogDevices i \<noteq> [] \<longrightarrow> wd_state i \<noteq> WD_idle)"

lemma wd_enable_total:
  assumes "seconds_device dev" "wd_state i = WD_idle"
  shows "\<exists>ok i' w'. wd_enable dev i w = Some (ok, i', w') \<and> map wd_config (watchdogDevices i') = map wd_config (watchdogDevices i) \<and>
    (ok \<longrightarrow> wd_live i') \<and> (list_all (working_device dev) (map wd_config (watchdogDevices i)) \<longrightarrow> ok)"
  using enable_loop_total [OF assms(1), of "watchdogDevices i" True WD_idle w] assms(2)
  by (auto simp: wd_enable_def wd_live_def split: if_splits)

lemma fire_loop_total: "seconds_device dev \<Longrightarrow> \<exists>w'. fire_loop dev dvs w = Some w'"
proof (induction dvs arbitrary: w)
  case (Cons dv dvs)
  then show ?case using wd_setTimeout_total [OF Cons.prems, of "fileDescriptor dv" 0 w] by auto
qed simp

text \<open>A cycle always has a result; it waits for the watchdog's reaction when a failure is critical and a device is armed.\<close>

lemma performCyclicTriggers_inv:
  assumes "pd_inv d" "seconds_device dev" "wd_live (pd_watchdog d)"
  shows "\<exists>waits d' w'. performCyclicTriggers dev clock inp d w = Some (waits, d', w') \<and> pd_inv d' \<and> wd_live (pd_watchdog d') \<and>
    (waits \<longleftrightarrow> pd_critical d' \<and> wd_state (pd_watchdog d) = WD_activated) \<and>
    wd_state (pd_watchdog d') = (if waits then WD_react else wd_state (pd_watchdog d)) \<and>
    watchdogDevices (pd_watchdog d') = watchdogDevices (pd_watchdog d)"
proof -
  obtain d1 where 1: "pd_evaluateCycle clock inp d = Some (pd_critical d1, d1)" "pd_inv d1" "pd_watchdog d1 = pd_watchdog d"
    using pd_evaluateCycle_inv [OF assms(1)] by blast
  obtain w1 where "fire_loop dev (watchdogDevices (pd_watchdog d)) w = Some w1" using fire_loop_total [OF assms(2)] by blast
  then show ?thesis
    using 1 assms(3)
    by (auto simp: performCyclicTriggers_def fireWatchdogReaction_def pd_inv_def pd_critical_def wd_live_def)
qed

subsection \<open>Initialization\<close>

text \<open>The machine configuration in force, and the cycle time it gives with the accuracy of the clock.\<close>

definition core_cfg :: "DaemonEnv \<Rightarrow> HMCOREEcuCfg" where
  "core_cfg env = (case de_hmcore env of Some (Some cfg) \<Rightarrow> cfg | _ \<Rightarrow> \<lparr>hmcore_watchdogs = None, hmcore_config = None\<rparr>)"

definition cycle_ns :: "DaemonEnv \<Rightarrow> int" where
  "cycle_ns env = max (int (unat (hm_periodicity (core_cfg env))) * 1000000) (getMonotonicClockAccuracy (de_clockRes env))"

definition clock_ok :: "DaemonEnv \<Rightarrow> bool" where
  "clock_ok env \<longleftrightarrow> getMonotonicClockAccuracy (de_clockRes env) > 0 \<and> de_clockGetTime env \<noteq> - 1"

lemma mc_init_core:
  assumes "de_hmcore env \<noteq> Some None" "\<forall>w \<in> set (hm_devices (core_cfg env)). hw_deviceFilePath w \<noteq> None"
  shows "\<exists>f. mc_init (de_hmcore env) MachineConfigFactory_new = Some (True, f) \<and>
    unat (getCycleTimeInNs f) = unat (hm_periodicity (core_cfg env)) * 1000000 \<and>
    getDeviceConfigurations f = Some (map hm_device (hm_devices (core_cfg env)))"
proof (cases "de_hmcore env")
  case None
  then show ?thesis
    by (simp add: mc_init_def core_cfg_def MachineConfigFactory_new_def getCycleTimeInNs_def getDeviceConfigurations_def
        hm_periodicity_def hm_devices_def k_hmDaemonDefaultCycleTime_def)
next
  case (Some bin)
  then obtain cfg where "de_hmcore env = Some (Some cfg)" using assms(1) by auto
  then show ?thesis using mc_init_loaded [of cfg] assms(2) by (auto simp: core_cfg_def)
qed

lemma sint_small: "unat (x :: u64) < 2 ^ 63 \<Longrightarrow> sint x = int (unat x)"
proof -
  assume "unat x < 2 ^ 63"
  then have "int (unat x) < int (2 ^ 63)" by (simp only: of_nat_less_iff)
  then have "uint x < 2 ^ 63" by simp
  moreover have "- (2 ^ 63) \<le> uint x" by (rule order.trans [of _ 0]) simp_all
  ultimately show "sint x = int (unat x)" by (simp add: sint_uint signed_take_bit_int_eq_self)
qed

lemma cycle_adjusted:
  assumes "unat (t :: u64) = unat (hm_periodicity (core_cfg env)) * 1000000"
  shows "adjustCycleTimeOnClockAccuracy (sint t) (de_clockRes env) =
    (if getMonotonicClockAccuracy (de_clockRes env) > 0 then cycle_ns env else - 1)"
proof -
  have "unat (hm_periodicity (core_cfg env)) < 2 ^ 32" using unsigned_less [of "hm_periodicity (core_cfg env)"] by simp
  then have "sint t = int (unat (hm_periodicity (core_cfg env))) * 1000000" using sint_small [of t] assms by simp
  then show ?thesis by (simp add: adjustCycleTimeOnClockAccuracy_def cycle_ns_def Let_def)
qed

lemma pd_construct_goes:
  assumes "rb_inv BUFFER_MAXPAYLOAD recv" "de_hm env = Some (Some fb)" "hm_wf fb"
  shows "goes (pd_construct hash env buf (ds_daemon (PhmDaemon_new wd recv)))
    (hm_valid hash fb \<and> channels_ok (de_ipc env) fb)
    (\<lambda>d. pd_inv d \<and> (\<exists>s. swClusterHandlers d = [wk_cluster s] \<and> processStateReader d = wk_reader s \<and> wk_inv s \<and> wk_sizes s = hm_sizes fb \<and> wired_as fb (sw_wiring (wk_cluster s))))"
proof -
  obtain al dl lg lo where a: "de_address env = (al, dl, lg, lo)" by (cases "de_address env") auto
  let ?r = "processStateReader (ds_daemon (PhmDaemon_new wd recv))"
  have r: "psr_ok ?r" "psr_wf ?r" "psr_pushed ?r = []" "processStateMap ?r = Map.empty"
    by (simp_all add: PhmDaemon_new_def ProcessStateReader_new_def psr_ok_def psr_wf_def ProcessState_wf_def ProcessState_new_def)
  from constructWorkers_goes [OF r assms(3), of hash "de_ipc env" buf al dl lg lo]
  show ?thesis
    using assms(1) constructWorkers_wired_as by (auto simp: goes_def pd_construct_def a assms(2) pd_inv_def PhmDaemon_new_def wk_inv_def split: option.splits)
qed


text \<open>The accepted devices are configured, in order, when every one is.\<close>

lemma pd_initWatchdog_total:
  assumes "seconds_device dev" "pd_watchdog (ds_daemon d) = WatchdogImpl_new"
  shows "\<exists>code wd w'. pd_initWatchdog dev cyc (Some cs) d w = Some (code, d\<lparr>ds_daemon := (ds_daemon d)\<lparr>pd_watchdog := wd\<rparr>\<rparr>, w') \<and>
    code \<in> {EI_NoError, EI_WatchdogInitFailed, EI_WatchdogEnableFailed} \<and>
    (code = EI_NoError \<longrightarrow> wd_live wd \<and> map wd_config (watchdogDevices wd) = cs) \<and>
    (accepted cyc cs {} = cs \<longrightarrow> code \<noteq> EI_WatchdogInitFailed \<and> (list_all (working_device dev) cs \<longrightarrow> code = EI_NoError))"
proof -
  let ?acc = "accepted cyc cs {}"
  have i: "wd_init cyc (Some cs) WatchdogImpl_new =
      (length ?acc = length cs, \<lparr>watchdogDevices = map (\<lambda>c. \<lparr>wd_config = c, fileDescriptor = - 1\<rparr>) ?acc, wd_state = WD_idle\<rparr>)"
    using wd_init_accepted_aux [of WatchdogImpl_new cyc cs True] by (simp add: wd_init_def WatchdogImpl_new_def Let_def)
  let ?i = "snd (wd_init cyc (Some cs) WatchdogImpl_new)"
  obtain ok wd w1 where e: "wd_enable dev ?i w = Some (ok, wd, w1)" "map wd_config (watchdogDevices wd) = ?acc" "ok \<longrightarrow> wd_live wd"
    "list_all (working_device dev) ?acc \<longrightarrow> ok"
    using wd_enable_total [OF assms(1), of ?i w] i by (auto simp: comp_def)
  have "?acc = cs" if "length ?acc = length cs" using that accepted_all by blast
  then show ?thesis using i e assms(2) by (auto simp: pd_initWatchdog_def Let_def)
qed


lemma pd_init_result:
  assumes "de_hmcore env \<noteq> Some None" "\<forall>w \<in> set (hm_devices (core_cfg env)). hw_deviceFilePath w \<noteq> None"
    and "de_hm env = Some (Some fb)" "hm_wf fb" "seconds_device dev" "rb_inv BUFFER_MAXPAYLOAD recv"
  defines "cs \<equiv> map hm_device (hm_devices (core_cfg env))"
  shows "\<exists>code d w'. pd_init hash dev env (PhmDaemon_new WatchdogImpl_new recv) w = Some (code, d, w') \<and>
    (code = EI_NoError \<longrightarrow> pd_inv (ds_daemon d) \<and> wd_live (pd_watchdog (ds_daemon d)) \<and>
       map wd_config (watchdogDevices (pd_watchdog (ds_daemon d))) = cs \<and> sleepIntervalNs (ds_cycleTimer d) = cycle_ns env \<and> cycle_ns env > 0 \<and>
       (\<exists>s. swClusterHandlers (ds_daemon d) = [wk_cluster s] \<and> wk_inv s \<and> wk_sizes s = hm_sizes fb \<and> wired_as fb (sw_wiring (wk_cluster s)))) \<and>
    (hm_valid hash fb \<and> channels_ok (de_ipc env) fb \<and> clock_ok env \<and> accepted (cycle_ns env) cs {} = cs \<longrightarrow>
       (code = EI_NoError \<or> code = EI_WatchdogEnableFailed \<and> \<not> list_all (working_device dev) cs))"
proof -
  obtain f where f: "mc_init (de_hmcore env) MachineConfigFactory_new = Some (True, f)"
    "unat (getCycleTimeInNs f) = unat (hm_periodicity (core_cfg env)) * 1000000" "getDeviceConfigurations f = Some cs"
    using mc_init_core [OF assms(1,2)] unfolding cs_def by blast
  let ?d0 = "PhmDaemon_new WatchdogImpl_new recv"
  let ?c = "pd_construct hash env (getSupervisionBufferConfig f) (ds_daemon ?d0)"
  note g = pd_construct_goes [OF assms(6,3,4), of hash "getSupervisionBufferConfig f" WatchdogImpl_new]
  then obtain ok pd where c: "?c = Some (ok, pd)" unfolding goes_def by (auto split: option.splits)
  show ?thesis
  proof (cases "ok \<and> clock_ok env")
    case False
    then show ?thesis
      using f c g cycle_adjusted [OF f(2)]
      by (auto simp: pd_init_def goes_def Let_def clock_ok_def ct_init_def PhmDaemon_new_def CycleTimer_new_def split: if_splits)
  next
    case True
    let ?d1 = "?d0\<lparr>ds_daemon := pd, ds_cycleTimer := (ds_cycleTimer ?d0)\<lparr>sleepIntervalNs := cycle_ns env\<rparr>\<rparr>"
    have p: "cycle_ns env > 0" using True by (auto simp: cycle_ns_def clock_ok_def)
    have wd: "pd_watchdog (ds_daemon ?d1) = WatchdogImpl_new" using c by (auto simp: pd_construct_def PhmDaemon_new_def Let_def bind_eq_Some_conv split: prod.splits)
    have "pd_init hash dev env ?d0 w = pd_initWatchdog dev (cycle_ns env) (Some cs) ?d1 w"
      using True f c cycle_adjusted [OF f(2)] p
      by (simp add: pd_init_def Let_def clock_ok_def ct_init_def PhmDaemon_new_def CycleTimer_new_def)
    then show ?thesis
      using pd_initWatchdog_total [OF assms(5) wd, of "cycle_ns env" cs w] g c True p
      by (auto simp: goes_def pd_inv_def)
  qed
qed


subsection \<open>Cyclic execution\<close>

text \<open>
  A turn as the platform gives it: the other threads make no cycle, the clock is a normal time within
  the 292 years a signed number of nanoseconds holds, and the sleep ends.
\<close>

definition time_ok :: "timespec \<Rightarrow> bool" where
  "time_ok t \<longleftrightarrow> ts_normal t \<and> ts_nanos t < 2 ^ 63"

definition turn_ok :: "Turn \<Rightarrow> bool" where
  "turn_ok t \<longleftrightarrow> list_all (\<lambda>e. pd_client_ok e \<and> \<not> is_cycle e) (tn_events t) \<and>
     (case tn_sleepClock t of Some now \<Rightarrow> time_ok now | None \<Rightarrow> True) \<and> ct_sleep_loop EINTR (tn_attempts t) \<noteq> None"

lemma ct_sleep_total:
  assumes "turn_ok t" "time_ok (ct_deadline c)"
  shows "\<exists>r n. ct_sleep (tn_sleepClock t) (tn_attempts t) c = Some (r, n)"
proof (cases "tn_sleepClock t")
  case None
  then show ?thesis using assms(1) by (auto simp: ct_sleep_def turn_ok_def)
next
  case (Some now)
  let ?s = "tv_sec now - tv_sec (ct_deadline c)" and ?n = "tv_nsec now - tv_nsec (ct_deadline c)"
  have b: "ts_normal now" "ts_nanos now < 2 ^ 63" "ts_normal (ct_deadline c)" using assms Some by (auto simp: turn_ok_def time_ok_def)
  have "in_long ?s \<and> in_long ?n \<and> in_long (k_nanoSecondsPerSecond * ?s) \<and> in_long (?n + k_nanoSecondsPerSecond * ?s)" if "0 \<le> ?s"
    using b that by (simp add: ts_normal_def ts_nanos_def in_long_def k_nanoSecondsPerSecond_def)
  then show ?thesis
    using assms(1) Some by (auto simp: ct_sleep_def turn_ok_def Let_def)
qed

lemma pd_shutdown_result:
  assumes "pd_inv (ds_daemon d)" "wd_live (pd_watchdog (ds_daemon d))"
  shows "\<exists>d' w'. pd_shutdown dev d w = (DR_returned True, d', w') \<and> pd_inv (ds_daemon d') \<and>
    (wd_state (pd_watchdog (ds_daemon d')) = WD_activated \<longrightarrow>
       (\<exists>dv \<in> set (watchdogDevices (pd_watchdog (ds_daemon d'))). \<not> canBeDeactivated (wd_config dv)))"
proof -
  let ?i = "pd_watchdog (ds_daemon d)"
  obtain i w1 where i: "wd_disable dev ?i w = (i, w1)" by fastforce
  have "\<exists>dv \<in> set (watchdogDevices i). \<not> canBeDeactivated (wd_config dv)" if "wd_state i = WD_activated"
  proof -
    have "wd_state ?i = WD_activated" "\<not> list_all wd_closable (watchdogDevices ?i)"
      "watchdogDevices i = map (\<lambda>dv. if wd_closable dv then dv\<lparr>fileDescriptor := - 1\<rparr> else dv) (watchdogDevices ?i)"
      using i that disable_loop_spec [of dev "watchdogDevices ?i" True w]
      by (auto simp: wd_disable_def Let_def case_prod_beta split: if_splits)
    then show ?thesis using assms(2) by (fastforce simp: list_all_iff wd_live_def wd_closable_def)
  qed
  then show ?thesis using i assms(1) by (auto simp: pd_shutdown_def pd_inv_def)
qed

lemma convertToNanoSec_nonzero:
  assumes "ts_normal t" "ts_nanos t > 0" "ts_nanos t < 2 ^ 63"
  shows "convertToNanoSec t \<noteq> 0"
proof -
  have b: "0 \<le> tv_sec t" "tv_sec t < 2 ^ 64" "0 \<le> tv_nsec t" "tv_nsec t < 2 ^ 64"
    using assms(1) by (simp_all add: ts_normal_def k_nanoSecondsPerSecond_def)
  have n: "tv_sec t * 1000000000 + tv_nsec t = ts_nanos t" by (simp add: ts_nanos_def k_nanoSecondsPerSecond_def)
  have "convertToNanoSec t = word_of_int (ts_nanos t)"
    using nanos_guarded [OF b] b(1,3) assms(3) unfolding n by (simp add: convertToNanoSec_def Let_def)
  moreover have "uint (word_of_int (ts_nanos t) :: u64) = ts_nanos t" using assms(2,3) by (intro uint_of_int64) simp_all
  ultimately show ?thesis using assms(2) by auto
qed

definition loop_result :: "Turn list \<Rightarrow> DaemonState \<Rightarrow> DaemonRun \<Rightarrow> DaemonState \<Rightarrow> bool" where
  "loop_result ts d r d' \<longleftrightarrow> pd_inv (ds_daemon d') \<and> r \<noteq> DR_returned False \<and>
     (list_ex tn_terminate ts \<longrightarrow> r \<noteq> DR_running) \<and>
     (r = DR_running \<longrightarrow> ts_nanos (ct_deadline (ds_cycleTimer d')) =
        ts_nanos (ct_deadline (ds_cycleTimer d)) + int (length ts) * sleepIntervalNs (ds_cycleTimer d)) \<and>
     (r = DR_waits \<longrightarrow> pd_critical (ds_daemon d') \<and> wd_state (pd_watchdog (ds_daemon d')) = WD_react) \<and>
     (r = DR_returned True \<longrightarrow> wd_state (pd_watchdog (ds_daemon d')) = WD_activated \<longrightarrow>
       (\<exists>dv \<in> set (watchdogDevices (pd_watchdog (ds_daemon d'))). \<not> canBeDeactivated (wd_config dv)))"

lemma loop_result_shutdown:
  assumes "pd_inv (ds_daemon d)" "wd_live (pd_watchdog (ds_daemon d))"
  shows "\<exists>r d' w'. Some (pd_shutdown dev d w) = Some (r, d', w') \<and> loop_result ts d0 r d'"
  using pd_shutdown_result [OF assms, of dev w] by (auto simp: loop_result_def)

lemma pd_run_keeps_watchdog: "pd_run es d = Some (cs, d') \<Longrightarrow> list_all (\<lambda>e. \<not> is_cycle e) es \<Longrightarrow> pd_watchdog d' = pd_watchdog d"
proof (induction es arbitrary: d cs)
  case (Cons e es)
  then show ?case by (cases e) (fastforce simp: bind_eq_Some_conv)+
qed simp

lemma loop_cycle:
  assumes "pd_inv (ds_daemon d)" "wd_live (pd_watchdog (ds_daemon d))" "seconds_device dev" "turn_ok t"
  shows "\<exists>cs pd waits pd' w'. pd_run (tn_events t) (ds_daemon d) = Some (cs, pd) \<and>
    performCyclicTriggers dev (tn_clock t) (tn_inputs t) pd w = Some (waits, pd', w') \<and> pd_inv pd' \<and> wd_live (pd_watchdog pd') \<and>
    (waits \<longrightarrow> pd_critical pd' \<and> wd_state (pd_watchdog pd') = WD_react)"
proof -
  have e: "list_all pd_client_ok (tn_events t)" "list_all (\<lambda>e. \<not> is_cycle e) (tn_events t)"
    using assms(4) by (simp_all add: turn_ok_def list_all_iff)
  obtain cs pd where 1: "pd_run (tn_events t) (ds_daemon d) = Some (cs, pd)" "pd_inv pd" using pd_run_inv [OF assms(1) e(1)] by blast
  have "wd_live (pd_watchdog pd)" using pd_run_keeps_watchdog [OF 1(1) e(2)] assms(2) by simp
  from performCyclicTriggers_inv [OF 1(2) assms(3) this] 1(1) show ?thesis by fastforce
qed

lemma pd_loop_result:
  assumes "pd_inv (ds_daemon d)" "wd_live (pd_watchdog (ds_daemon d))" "seconds_device dev" "list_all turn_ok ts"
    and "ts_normal (ct_deadline (ds_cycleTimer d))" "0 < sleepIntervalNs (ds_cycleTimer d)" "sleepIntervalNs (ds_cycleTimer d) < 2 ^ 62"
    and "ts_nanos (ct_deadline (ds_cycleTimer d)) + int (length ts) * sleepIntervalNs (ds_cycleTimer d) < 2 ^ 63"
  shows "\<exists>r d' w'. pd_loop dev ts d w = Some (r, d', w') \<and> loop_result ts d r d'"
  using assms
proof (induction ts arbitrary: d w)
  case Nil
  then show ?case by (simp add: loop_result_def)
next
  case (Cons t ts)
  let ?c = "ds_cycleTimer d"
  show ?case
  proof (cases "tn_terminate t")
    case True
    then show ?thesis using loop_result_shutdown [OF Cons.prems(1,2)] by simp
  next
    case False
    obtain cs pd waits pd' w1 where c: "pd_run (tn_events t) (ds_daemon d) = Some (cs, pd)"
      "performCyclicTriggers dev (tn_clock t) (tn_inputs t) pd w = Some (waits, pd', w1)" "pd_inv pd'" "wd_live (pd_watchdog pd')"
      "waits \<longrightarrow> pd_critical pd' \<and> wd_state (pd_watchdog pd') = WD_react"
      using loop_cycle [OF Cons.prems(1-3), of t w] Cons.prems(4) by auto
    have n: "int (length (t # ts)) * sleepIntervalNs ?c = sleepIntervalNs ?c + int (length ts) * sleepIntervalNs ?c"
      "0 \<le> int (length ts) * sleepIntervalNs ?c"
      using Cons.prems(6) by (simp_all add: distrib_right)
    obtain dl where dl: "calcNextShot ?c = Some (?c\<lparr>ct_deadline := dl\<rparr>)" "ts_normal dl" "ts_nanos dl = ts_nanos (ct_deadline ?c) + sleepIntervalNs ?c"
      using calcNextShot_spec [OF Cons.prems(5-7)] Cons.prems(8) n by (auto simp: k_nanoSecondsPerSecond_def)
    let ?c' = "?c\<lparr>ct_deadline := dl\<rparr>" and ?d' = "d\<lparr>ds_daemon := pd', ds_cycleTimer := ?c\<lparr>ct_deadline := dl\<rparr>\<rparr>"
    have "time_ok dl" using dl Cons.prems(8) n by (simp add: time_ok_def)
    then obtain r k where s: "ct_sleep (tn_sleepClock t) (tn_attempts t) ?c' = Some (r, k)"
      using ct_sleep_total [of t ?c'] Cons.prems(4) by auto
    have l: "pd_loop dev (t # ts) d w = (if waits then Some (DR_waits, d\<lparr>ds_daemon := pd'\<rparr>, w1)
        else if r = EINTR then Some (pd_shutdown dev ?d' w1) else pd_loop dev ts ?d' w1)"
      using False c(1,2) dl(1) s by (simp add: Let_def)
    obtain r1 d1 w2 where i: "pd_loop dev ts ?d' w1 = Some (r1, d1, w2)" "loop_result ts ?d' r1 d1"
      using Cons.IH [of ?d' w1] Cons.prems c(3,4) dl n by auto
    have "loop_result (t # ts) d r1 d1" using i(2) n(1) dl(3) False by (simp add: loop_result_def)
    moreover have "loop_result (t # ts) d DR_waits (d\<lparr>ds_daemon := pd'\<rparr>)" if waits using that c(3,5) by (simp add: loop_result_def)
    ultimately show ?thesis
      unfolding l using i(1) loop_result_shutdown [of ?d' dev w1 "t # ts" d] c(3,4) by simp
  qed
qed

subsection \<open>Properties\<close>

text \<open>
  (C25) The initialization of the health monitor has a defined result for every well formed configuration, whatever the
  operating system answers and whatever the watchdog devices answer within 2147483 seconds. It succeeds when the
  configuration is valid, the channels can be set up, the clock can be read, every watchdog is acceptable for the cycle
  time, and every configured device can be opened, fails no call and accepts its timeout; when only the last condition
  fails, the result is a success or the error code for a device that could not be enabled, and no other.
  After a success the daemon satisfies its invariant, has one cluster with the configured number of objects of each kind,
  registered with each other as the tables of the configuration say, has the configured watchdog devices in order, and
  its cycle is the configured number of milliseconds or the accuracy of the clock, whichever is longer.
\<close>

theorem health_monitor_initialised:
  assumes "de_hmcore env \<noteq> Some None" "\<forall>w \<in> set (hm_devices (core_cfg env)). hw_deviceFilePath w \<noteq> None"
    and "de_hm env = Some (Some fb)" "hm_wf fb" "seconds_device dev" "rb_inv BUFFER_MAXPAYLOAD recv"
    and "cs = map hm_device (hm_devices (core_cfg env))"
  shows "\<exists>code d h w'. hm_init hash dev env (HealthMonitorImpl_new WatchdogImpl_new recv) w = Some (code, h, w') \<and> m_daemon h = Some d \<and>
    (code = EI_NoError \<longrightarrow> pd_inv (ds_daemon d) \<and> sleepIntervalNs (ds_cycleTimer d) = cycle_ns env \<and> cycle_ns env > 0 \<and>
       map wd_config (watchdogDevices (pd_watchdog (ds_daemon d))) = cs \<and>
       (\<exists>s. swClusterHandlers (ds_daemon d) = [wk_cluster s] \<and> wk_sizes s = hm_sizes fb \<and> wired_as fb (sw_wiring (wk_cluster s)))) \<and>
    (hm_valid hash fb \<and> channels_ok (de_ipc env) fb \<and> clock_ok env \<and> accepted (cycle_ns env) cs {} = cs \<longrightarrow>
       (code = EI_NoError \<or> code = EI_WatchdogEnableFailed \<and> \<not> list_all (working_device dev) cs))"
proof -
  obtain code d w' where r: "pd_init hash dev env (PhmDaemon_new WatchdogImpl_new recv) w = Some (code, d, w')"
    and q: "code = EI_NoError \<longrightarrow> pd_inv (ds_daemon d) \<and> wd_live (pd_watchdog (ds_daemon d)) \<and>
       map wd_config (watchdogDevices (pd_watchdog (ds_daemon d))) = cs \<and> sleepIntervalNs (ds_cycleTimer d) = cycle_ns env \<and> cycle_ns env > 0 \<and>
       (\<exists>s. swClusterHandlers (ds_daemon d) = [wk_cluster s] \<and> wk_inv s \<and> wk_sizes s = hm_sizes fb \<and> wired_as fb (sw_wiring (wk_cluster s)))"
      "hm_valid hash fb \<and> channels_ok (de_ipc env) fb \<and> clock_ok env \<and> accepted (cycle_ns env) cs {} = cs \<longrightarrow>
       (code = EI_NoError \<or> code = EI_WatchdogEnableFailed \<and> \<not> list_all (working_device dev) cs)"
    using pd_init_result [OF assms(1-6), of hash w] unfolding assms(7) by blast
  show ?thesis
    using q by (intro exI [of _ code] exI [of _ d] exI [of _ "\<lparr>m_watchdog = None, m_process_state_receiver = None, m_daemon = Some d\<rparr>"] exI [of _ w'])
      (auto simp: hm_init_def HealthMonitorImpl_new_def r)
qed

text \<open>The example configuration, no machine configuration and a clock with nanoseconds.\<close>

definition env_example :: DaemonEnv where
  "env_example = \<lparr>de_hmcore = None, de_hm = Some (Some fb_example),
     de_ipc = (\<lambda>_. channel_example),
     de_clockRes = Some \<lparr>tv_sec = 0, tv_nsec = 1\<rparr>, de_clockGetTime = 0, de_address = (id, id, id, id)\<rparr>"

lemma env_example_ok:
  "de_hmcore env_example \<noteq> Some None" "hm_devices (core_cfg env_example) = []" "de_hm env_example = Some (Some fb_example)"
  "de_ipc env_example = (\<lambda>_. channel_example)"
  "clock_ok env_example" "cycle_ns env_example = 10000000"
  by (simp_all add: env_example_def core_cfg_def hm_devices_def clock_ok_def cycle_ns_def hm_periodicity_def getMonotonicClockAccuracy_def)

lemma ping_device_seconds: "seconds_device (ping_device\<lparr>dev_ioctl := \<lambda>fd r p w. (0, 2, w)\<rparr>)"
  by (simp add: seconds_device_def)

lemma notifier_inv: "rb_inv BUFFER_MAXPAYLOAD ProcessStateNotifier_new"
  by (simp add: ProcessStateNotifier_new_def BUFFER_QUEUE_SIZE_def rb_inv_new)

text \<open>A watchdog device whose state is its timeout, at most 60 seconds, and a machine with one such device.\<close>

definition minute_device :: "int DeviceIf" where
  "minute_device = \<lparr>dev_open = (\<lambda>f w. (3, w)),
     dev_ioctl = (\<lambda>fd r p w. let q = max 1 (min p 60) in case r of WDIOC_SETTIMEOUT \<Rightarrow> (0, q, q) | _ \<Rightarrow> (0, max 1 (min w 60), w)),
     dev_write = (\<lambda>fd s w. w), dev_close = (\<lambda>fd w. w)\<rparr>"

definition env_watchdog :: DaemonEnv where
  "env_watchdog = env_example\<lparr>de_hmcore := Some (Some \<lparr>hmcore_watchdogs = Some [\<lparr>hw_deviceFilePath = Some ''/dev/watchdog'',
     hw_maxTimeout = 2000, hw_deactivateOnShutdown = True, hw_hasValueDeactivateOnShutdown = True,
     hw_requireMagicClose = True, hw_hasValueRequireMagicClose = True\<rparr>], hmcore_config = None\<rparr>)\<rparr>"

definition watchdog_example :: DeviceConfig where
  "watchdog_example = \<lparr>fileName = ''/dev/watchdog'', timeoutMin = 0, timeoutMax = 2000, canBeDeactivated = True, needsMagicClose = True\<rparr>"

lemma env_watchdog_ok:
  "de_hmcore env_watchdog \<noteq> Some None" "\<forall>w \<in> set (hm_devices (core_cfg env_watchdog)). hw_deviceFilePath w \<noteq> None"
  "de_hm env_watchdog = Some (Some fb_example)" "de_ipc env_watchdog = (\<lambda>_. channel_example)" "clock_ok env_watchdog" "cycle_ns env_watchdog = 10000000"
  "map hm_device (hm_devices (core_cfg env_watchdog)) = [watchdog_example]" "accepted 10000000 [watchdog_example] {} = [watchdog_example]"
  by (simp_all add: env_watchdog_def env_example_def core_cfg_def hm_devices_def hm_device_def watchdog_example_def clock_ok_def cycle_ns_def
      hm_periodicity_def getMonotonicClockAccuracy_def hasValidTimeout_def validateTimeoutWithCycleTime_def word16_le_iff
      kTimeoutMinMillis_def kTimeoutMaxMillis_def kTimeoutResolution_def)

lemma minute_device_ok: "seconds_device minute_device" "working_device minute_device watchdog_example"
  by (auto simp: seconds_device_def working_device_def minute_device_def watchdog_example_def msToSec_def Let_def split: IoctlRequest.split)

theorem health_monitor_initialised_witness:
  "\<exists>d h w'. hm_init (\<lambda>s. of_nat (length s)) minute_device env_watchdog
       (HealthMonitorImpl_new WatchdogImpl_new ProcessStateNotifier_new) 60 = Some (EI_NoError, h, w') \<and> m_daemon h = Some d \<and>
     sleepIntervalNs (ds_cycleTimer d) = 10000000 \<and>
     map wd_config (watchdogDevices (pd_watchdog (ds_daemon d))) = [watchdog_example] \<and>
     (\<exists>s. swClusterHandlers (ds_daemon d) = [wk_cluster s] \<and> wk_sizes s = [1, 1, 1, 1, 2, 0, 0, 1, 1, 1] \<and>
        w_cpAlives (sw_wiring (wk_cluster s)) 0 = [0, 1])"
proof -
  have sz: "hm_sizes fb_example = [1, 1, 1, 1, 2, 0, 0, 1, 1, 1]" by (simp add: hm_sizes_def fb_example_def fb_size_def)
  have al: "w_cpAlives w 0 = [0, 1]" if "wired_as fb_example w" for w
    using that by (simp add: wired_as_def fb_example_def alive_example_def fb_list_def)
  have v: "hm_valid (\<lambda>s. of_nat (length s)) fb_example \<and> channels_ok (de_ipc env_watchdog) fb_example \<and> clock_ok env_watchdog \<and>
      accepted (cycle_ns env_watchdog) [watchdog_example] {} = [watchdog_example]" "list_all (working_device minute_device) [watchdog_example]"
    using fb_example_ok(2,3) env_watchdog_ok(4-6,8) minute_device_ok(2) by (simp_all del: accepted.simps)
  obtain code d h w' where r: "hm_init (\<lambda>s. of_nat (length s)) minute_device env_watchdog
       (HealthMonitorImpl_new WatchdogImpl_new ProcessStateNotifier_new) 60 = Some (code, h, w')" "m_daemon h = Some d" "code = EI_NoError"
      "sleepIntervalNs (ds_cycleTimer d) = 10000000" "map wd_config (watchdogDevices (pd_watchdog (ds_daemon d))) = [watchdog_example]"
      "\<exists>s. swClusterHandlers (ds_daemon d) = [wk_cluster s] \<and> wk_sizes s = hm_sizes fb_example \<and> wired_as fb_example (sw_wiring (wk_cluster s))"
    using health_monitor_initialised [OF env_watchdog_ok(1,2,3) fb_example_ok(1) minute_device_ok(1) notifier_inv env_watchdog_ok(7) [symmetric],
        of "\<lambda>s. of_nat (length s)" 60] v unfolding env_watchdog_ok(6) by metis
  then show ?thesis using sz al by auto
qed

text \<open>
  (C4) After a successful initialization the cyclic execution has a defined result however the other threads interleave
  with the cycles and whatever the clock, the sleeps and the watchdog devices answer: it never fails to start from a
  clock that can be read, it has ended when the termination was requested at one of the turns, and it blocks before
  that only after a critical failure, when the armed watchdog was made to fire. While it goes on, the next deadline
  is exactly the start plus the number of cycles times the cycle time. When it returns, a watchdog stays armed only
  if one of its devices is configured not to be deactivated.
\<close>

theorem health_monitor_runs:
  assumes "de_hmcore env \<noteq> Some None" "\<forall>w \<in> set (hm_devices (core_cfg env)). hw_deviceFilePath w \<noteq> None"
    and "de_hm env = Some (Some fb)" "hm_wf fb" "seconds_device dev" "rb_inv BUFFER_MAXPAYLOAD recv"
    and "hm_init hash dev env (HealthMonitorImpl_new WatchdogImpl_new recv) w = Some (EI_NoError, h, w1)"
    and "ts_normal now" "ts_nanos now > 0" "list_all turn_ok ts" "cycle_ns env < 2 ^ 62"
    and "ts_nanos now + int (length ts) * cycle_ns env < 2 ^ 63"
  shows "\<exists>r d' h' w'. hm_run dev (0, now) ts h w1 = Some (r, h', w') \<and> m_daemon h' = Some d' \<and>
    pd_inv (ds_daemon d') \<and> r \<noteq> DR_returned False \<and> (list_ex tn_terminate ts \<longrightarrow> r \<noteq> DR_running) \<and>
    (r = DR_running \<longrightarrow> ts_nanos (ct_deadline (ds_cycleTimer d')) = ts_nanos now + int (length ts) * cycle_ns env) \<and>
    (r = DR_waits \<longrightarrow> pd_critical (ds_daemon d') \<and> wd_state (pd_watchdog (ds_daemon d')) = WD_react) \<and>
    (r = DR_returned True \<longrightarrow> wd_state (pd_watchdog (ds_daemon d')) = WD_activated \<longrightarrow>
       (\<exists>dv \<in> set (watchdogDevices (pd_watchdog (ds_daemon d'))). \<not> canBeDeactivated (wd_config dv)))"
proof -
  obtain d where d: "pd_init hash dev env (PhmDaemon_new WatchdogImpl_new recv) w = Some (EI_NoError, d, w1)" "m_daemon h = Some d"
    using assms(7) by (auto simp: hm_init_def HealthMonitorImpl_new_def bind_eq_Some_conv)
  then have i: "pd_inv (ds_daemon d)" "wd_live (pd_watchdog (ds_daemon d))" "sleepIntervalNs (ds_cycleTimer d) = cycle_ns env" "cycle_ns env > 0"
    using pd_init_result [OF assms(1-6), of hash w] by auto
  let ?d = "d\<lparr>ds_cycleTimer := (ds_cycleTimer d)\<lparr>ct_deadline := now\<rparr>\<rparr>"
  have "0 \<le> int (length ts) * cycle_ns env" using i(4) by simp
  then have n: "ts_nanos now < 2 ^ 63" using assms(12) by simp
  have "convertToNanoSec now \<noteq> 0" by (rule convertToNanoSec_nonzero [OF assms(8,9) n])
  then have s: "startCyclicExec dev (0, now) ts d w1 = pd_loop dev ts ?d w1" by (simp add: startCyclicExec_def ct_start_def Let_def)
  obtain r d' w' where "pd_loop dev ts ?d w1 = Some (r, d', w')" "loop_result ts ?d r d'"
    using pd_loop_result [of ?d dev ts w1] i assms(5,8,10-12) by auto
  then show ?thesis
    using s d(2) i(3) by (auto simp: hm_run_def loop_result_def)
qed

text \<open>Two turns of the example: the second one finds the termination requested.\<close>

definition turn_example :: "bool \<Rightarrow> Turn" where
  "turn_example stop = \<lparr>tn_terminate = stop, tn_events = [], tn_clock = Some \<lparr>tv_sec = 5, tv_nsec = 0\<rparr>, tn_inputs = (\<lambda>_ _. ti_pending 0),
     tn_sleepClock = None, tn_attempts = [(False, 0)]\<rparr>"

lemma turn_example_ok: "turn_ok (turn_example stop)"
  by (simp add: turn_ok_def turn_example_def ct_sleep_loop.simps EINTR_def)

theorem health_monitor_runs_witness:
  "\<exists>h w1 r h' w'. hm_init (\<lambda>s. of_nat (length s)) (ping_device\<lparr>dev_ioctl := \<lambda>fd r p w. (0, 2, w)\<rparr>) env_example
       (HealthMonitorImpl_new WatchdogImpl_new ProcessStateNotifier_new) [] = Some (EI_NoError, h, w1) \<and>
     hm_run (ping_device\<lparr>dev_ioctl := \<lambda>fd r p w. (0, 2, w)\<rparr>) (0, \<lparr>tv_sec = 5, tv_nsec = 0\<rparr>)
       [turn_example False, turn_example True] h w1 = Some (r, h', w') \<and> r \<noteq> DR_running \<and> r \<noteq> DR_returned False"
proof -
  let ?hash = "\<lambda>s. of_nat (length s)" and ?dev = "ping_device\<lparr>dev_ioctl := \<lambda>fd r p w. (0, 2, w)\<rparr>"
  obtain d w1 where d: "pd_init ?hash ?dev env_example (PhmDaemon_new WatchdogImpl_new ProcessStateNotifier_new) [] = Some (EI_NoError, d, w1)"
    using pd_init_result [OF env_example_ok(1) _ env_example_ok(3) fb_example_ok(1) ping_device_seconds notifier_inv, of ?hash "[]"]
      fb_example_ok(2,3) env_example_ok by auto
  then obtain h where h: "hm_init ?hash ?dev env_example (HealthMonitorImpl_new WatchdogImpl_new ProcessStateNotifier_new) [] = Some (EI_NoError, h, w1)"
    by (simp add: hm_init_def HealthMonitorImpl_new_def)
  have t: "ts_normal \<lparr>tv_sec = 5, tv_nsec = 0\<rparr>" "ts_nanos \<lparr>tv_sec = 5, tv_nsec = 0\<rparr> = 5000000000"
    by (simp_all add: ts_normal_def ts_nanos_def k_nanoSecondsPerSecond_def)
  have "list_ex tn_terminate [turn_example False, turn_example True]" by (simp add: turn_example_def)
  then show ?thesis
    using health_monitor_runs [OF env_example_ok(1) _ env_example_ok(3) fb_example_ok(1) ping_device_seconds notifier_inv h t(1),
        of "[turn_example False, turn_example True]"] h t(2) env_example_ok(2,6) turn_example_ok
    by fastforce
qed

end
