(* ===== verification/Monitor_Thread.thy ===== *)
theory Monitor_Thread
  imports Daemon_Start
begin

section \<open>The thread of the health monitor\<close>

text \<open>
  Models \<^verbatim>\<open>HealthMonitorThread\<close> (\<^verbatim>\<open>process_group_manager/health_monitor_thread.cpp\<close>): the launch manager starts
  the health monitor in a thread of its own, waits until its initialization is done, and stops the
  thread at the end.

  The steps of the two threads interleave arbitrarily. The variable \<^verbatim>\<open>init_status\<close> lives on the stack of
  \<^verbatim>\<open>start\<close>; the new thread writes to it through a reference. A section under the mutex is one step, and
  waiting for the condition variable is a step that is possible when its predicate holds. The codes
  that \<^verbatim>\<open>init\<close> returns are those of \<open>hm_init\<close>; \<^verbatim>\<open>run\<close> ends at any time or never, as \<open>hm_run\<close> does.
\<close>

datatype WorkerPhase = WP_none | WP_init | WP_notify EInitCode | WP_decide EInitCode | WP_run | WP_ended

datatype StarterPhase = SP_idle | SP_waiting | SP_returned bool | SP_stopping | SP_joined

record HealthMonitorThread =
  init_status :: EInitCode
  hmt_worker :: WorkerPhase
  hmt_starter :: StarterPhase
  stop_thread :: bool

definition HealthMonitorThread_new :: HealthMonitorThread where
  "HealthMonitorThread_new = \<lparr>init_status = EI_NotInitialized, hmt_worker = WP_none, hmt_starter = SP_idle, stop_thread = False\<rparr>"

definition hmt_start :: "HealthMonitorThread \<Rightarrow> HealthMonitorThread" where
  "hmt_start t = t\<lparr>init_status := EI_NotInitialized, hmt_worker := WP_init, hmt_starter := SP_waiting\<rparr>"

definition notifyInitializationComplete :: "EInitCode \<Rightarrow> HealthMonitorThread \<Rightarrow> HealthMonitorThread" where
  "notifyInitializationComplete f_init_result t = t\<lparr>init_status := f_init_result, hmt_worker := WP_decide f_init_result\<rparr>"

definition waitForInitializationCompleted :: "HealthMonitorThread \<Rightarrow> bool" where
  "waitForInitializationCompleted t \<longleftrightarrow> init_status t \<noteq> EI_NotInitialized"

text \<open>\<open>code\<close> is the result of the initialization.\<close>

inductive hmt_step :: "EInitCode \<Rightarrow> HealthMonitorThread \<Rightarrow> HealthMonitorThread \<Rightarrow> bool" for code where
  hmt_starts: "hmt_starter t = SP_idle \<Longrightarrow> hmt_step code t (hmt_start t)"
| hmt_inits: "hmt_worker t = WP_init \<Longrightarrow> hmt_step code t (t\<lparr>hmt_worker := WP_notify code\<rparr>)"
| hmt_notifies: "hmt_worker t = WP_notify r \<Longrightarrow> hmt_step code t (notifyInitializationComplete r t)"
| hmt_returns: "hmt_starter t = SP_waiting \<Longrightarrow> waitForInitializationCompleted t \<Longrightarrow>
    hmt_step code t (t\<lparr>hmt_starter := SP_returned (init_status t = EI_NoError)\<rparr>)"
| hmt_decides: "hmt_worker t = WP_decide r \<Longrightarrow> hmt_step code t (t\<lparr>hmt_worker := if r = EI_NoError then WP_run else WP_ended\<rparr>)"
| hmt_run_ends: "hmt_worker t = WP_run \<Longrightarrow> hmt_step code t (t\<lparr>hmt_worker := WP_ended\<rparr>)"
| hmt_stops: "hmt_starter t = SP_returned b \<Longrightarrow> hmt_step code t (t\<lparr>hmt_starter := SP_stopping, stop_thread := True\<rparr>)"
| hmt_joins: "hmt_starter t = SP_stopping \<Longrightarrow> hmt_worker t = WP_ended \<Longrightarrow> hmt_step code t (t\<lparr>hmt_starter := SP_joined\<rparr>)"

inductive hmt_reachable :: "EInitCode \<Rightarrow> HealthMonitorThread \<Rightarrow> bool" for code where
  hmt_initial: "hmt_reachable code HealthMonitorThread_new"
| hmt_next: "hmt_reachable code t \<Longrightarrow> hmt_step code t t' \<Longrightarrow> hmt_reachable code t'"

inductive_cases hmt_stepE: "hmt_step code t t'"

subsection \<open>What the interleavings keep\<close>

text \<open>
  The reference to \<^verbatim>\<open>init_status\<close> is used only while \<^verbatim>\<open>start\<close> is waiting, so it never dangles.
\<close>

definition hmt_inv :: "EInitCode \<Rightarrow> HealthMonitorThread \<Rightarrow> bool" where
  "hmt_inv code t \<longleftrightarrow>
     (case hmt_worker t of
        WP_none \<Rightarrow> hmt_starter t = SP_idle
      | WP_init \<Rightarrow> hmt_starter t = SP_waiting \<and> init_status t = EI_NotInitialized
      | WP_notify r \<Rightarrow> r = code \<and> hmt_starter t = SP_waiting \<and> init_status t = EI_NotInitialized
      | WP_decide r \<Rightarrow> r = code \<and> hmt_starter t \<noteq> SP_idle \<and> init_status t = code
      | WP_run \<Rightarrow> code = EI_NoError \<and> hmt_starter t \<noteq> SP_idle \<and> init_status t = code
      | WP_ended \<Rightarrow> hmt_starter t \<noteq> SP_idle \<and> init_status t = code) \<and>
     (\<forall>b. hmt_starter t = SP_returned b \<longrightarrow> b = (code = EI_NoError)) \<and>
     (hmt_starter t = SP_joined \<longrightarrow> hmt_worker t = WP_ended)"

lemma hmt_step_inv:
  assumes "hmt_step code t t'" "hmt_inv code t"
  shows "hmt_inv code t'"
  using assms(1)
  by cases (use assms(2) in \<open>auto simp: hmt_inv_def hmt_start_def notifyInitializationComplete_def waitForInitializationCompleted_def
      split: WorkerPhase.splits\<close>)

lemma hmt_reachable_inv: "hmt_reachable code t \<Longrightarrow> hmt_inv code t"
proof (induction rule: hmt_reachable.induct)
  case hmt_initial
  then show ?case by (simp add: hmt_inv_def HealthMonitorThread_new_def)
next
  case (hmt_next t t')
  then show ?case using hmt_step_inv by blast
qed

text \<open>Every step leads closer to the end.\<close>

fun worker_left :: "WorkerPhase \<Rightarrow> nat" where
  "worker_left WP_none = 5"
| "worker_left WP_init = 4"
| "worker_left (WP_notify r) = 3"
| "worker_left (WP_decide r) = 2"
| "worker_left WP_run = 1"
| "worker_left WP_ended = 0"

fun starter_left :: "StarterPhase \<Rightarrow> nat" where
  "starter_left SP_idle = 4"
| "starter_left SP_waiting = 3"
| "starter_left (SP_returned b) = 2"
| "starter_left SP_stopping = 1"
| "starter_left SP_joined = 0"

definition hmt_left :: "HealthMonitorThread \<Rightarrow> nat" where
  "hmt_left t = worker_left (hmt_worker t) + starter_left (hmt_starter t)"

lemma hmt_step_left:
  assumes "hmt_step code t t'" "hmt_inv code t"
  shows "hmt_left t' < hmt_left t"
  using assms(1)
  by cases (use assms(2) in \<open>auto simp: hmt_left_def hmt_inv_def hmt_start_def notifyInitializationComplete_def split: WorkerPhase.splits\<close>)

lemma hmt_not_stuck:
  assumes "hmt_inv code t" "code \<noteq> EI_NotInitialized" "hmt_starter t \<noteq> SP_joined"
  shows "\<exists>t'. hmt_step code t t'"
proof (cases "hmt_worker t")
  case WP_none
  then show ?thesis using assms(1) by (auto simp: hmt_inv_def intro: hmt_starts)
next
  case WP_ended
  then have "hmt_starter t \<noteq> SP_idle" "waitForInitializationCompleted t"
    using assms(1,2) by (auto simp: hmt_inv_def waitForInitializationCompleted_def)
  then show ?thesis using WP_ended assms(3) by (metis StarterPhase.exhaust hmt_returns hmt_stops hmt_joins)
qed (blast intro: hmt_step.intros)+

text \<open>The initialization of the health monitor always says how it ended.\<close>

lemma hm_init_code:
  assumes "hm_init hash dev env h w = Some (code, h', w')"
  shows "code \<noteq> EI_NotInitialized"
proof -
  obtain d0 d where "pd_init hash dev env d0 w = Some (code, d, w')"
    using assms by (auto simp: hm_init_def bind_eq_Some_conv)
  then show ?thesis
    by (auto simp: pd_init_def pd_initWatchdog_def Let_def bind_eq_Some_conv case_prod_beta split: if_splits)
qed

text \<open>
  Starting the health monitor returns: under every interleaving of the two threads the number of steps is bounded, no
  state before the end of \<^verbatim>\<open>stop\<close> is stuck, \<^verbatim>\<open>start\<close> returns true exactly when the initialization succeeded, the
  new thread writes the result only while \<^verbatim>\<open>start\<close> is still waiting for it, the cycles are executed
  only after a successful initialization, and after \<^verbatim>\<open>stop\<close> the thread has ended.
\<close>

theorem monitor_thread_started:
  assumes "hm_init hash dev env h w = Some (code, h', w')" "hmt_reachable code t"
  shows "(\<forall>b. hmt_starter t = SP_returned b \<longrightarrow> b = (code = EI_NoError)) \<and>
    (\<forall>r. hmt_worker t = WP_notify r \<longrightarrow> hmt_starter t = SP_waiting) \<and>
    (hmt_worker t = WP_run \<longrightarrow> code = EI_NoError) \<and>
    (hmt_starter t = SP_joined \<longrightarrow> hmt_worker t = WP_ended) \<and>
    (hmt_starter t \<noteq> SP_joined \<longrightarrow> (\<exists>t'. hmt_step code t t')) \<and>
    (\<forall>t'. hmt_step code t t' \<longrightarrow> hmt_left t' < hmt_left t)"
  using hmt_reachable_inv [OF assms(2)] hmt_not_stuck [of code t] hm_init_code [OF assms(1)] hmt_step_left [of code t]
  by (auto simp: hmt_inv_def)

end
