(* ===== verification/Spec2Isabelle.thy ===== *)
theory Spec2Isabelle
  imports Alive_Supervision Deadline_Supervision Logical_Supervision Global_Supervision Recovery_Client
    Recovery_Notification Monitor_Interface Process_State_Reader Watchdog Phm_Daemon
    Safe_Process_Map Job_Queue Manager_Init Client_Manager Launcher_Properties
    Worker_Wiring Monitor_Thread
begin

text \<open>
  \<^bold>\<open>The launch manager daemon and its health monitor.\<close>

  The program starts, supervises and stops the processes of a machine. Its two halves run as threads of one
  daemon. The \<^emph>\<open>launch manager\<close> (\<^verbatim>\<open>src/src/launch_manager_daemon/src\<close>) reads a configuration of process groups,
  brings the groups from one state to another by stopping and starting processes in the order of their
  dependencies, and serves requests of state managers. The \<^emph>\<open>health monitor\<close>
  (\<^verbatim>\<open>src/src/launch_manager_daemon/health_monitor_lib\<close>, below: \<^verbatim>\<open>saf\<close>) receives checkpoints from the supervised
  applications and process states from the launch manager, judges them cyclically, asks the launch manager for
  recovery and otherwise stops serving the watchdog. Applications are linked with libraries: the control client
  (\<^verbatim>\<open>src/src/control_client_lib\<close>), the lifecycle client and the monitor library.

  \<^bold>\<open>How the code is modelled.\<close> Every class is a record, every member function a function on it with the same name (a
  prefix is added where two classes share a name). Machine integers are words, so that they wrap around as in the
  program; containers of the standard library are lists and maps in the order in which the code sees them. \<open>None\<close>
  as the result of an operation means that the code has no defined result there: an index out of range, a
  null pointer, a failed \<^verbatim>\<open>.value()\<close>, or a loop that does not end; so the theorems that an operation
  yields \<open>Some\<close> say that none of this happens. Loops that may run forever are defined by \<^theory_text>\<open>partial_function (option)\<close>;
  no fuel is used. What comes from outside is an argument: clocks, results of system calls, files, hash
  function, promises and futures (\<open>promise_api\<close>, an external library). What other threads do meanwhile is an
  argument too: where a thread sleeps or blocks, the operation takes a function, or a list of functions, on the
  shared state; lock-free code is split into its atomic steps, which interleave in any order. Log output is left
  out everywhere.

  \<^bold>\<open>Health monitor: data.\<close>
  \<^item> \<open>Prelude\<close>: word types, arithmetic without wrap-around, stable insertion, iteration that can fail.
  \<^item> \<open>Fixed_Size_Vector\<close>, \<open>Time_Sorting_Buffer\<close>, \<open>Ordered_Map\<close> (\<^verbatim>\<open>saf/common\<close>, \<^verbatim>\<open>std::map\<close>): the vector of fixed capacity and the
    linked chain inside it are interpreted as instances of the locales \<open>bounded_vector\<close> and \<open>time_buffer\<close>; pushing and scanning
    is the stable sort by time.
  \<^item> \<open>Ring_Buffer\<close>, \<open>Ipc_Channel\<close> (\<^verbatim>\<open>externals/ipc_dropin\<close>, \<^verbatim>\<open>saf/ipc\<close>): the ring refines a bounded queue (locale
    \<open>bounded_queue\<close>) for every interleaving of reader and writer; channels are readable through the locale \<open>readable_channel\<close>.
    \<open>Ipc_Access\<close> adds the access control list of a channel: the owner and one user, nobody else.
  \<^item> \<open>Identifier_Hash\<close>, \<open>Timers\<close>, \<open>Time_Conversion\<close>: identifiers, time conversion with its floating point arithmetic, the cycle timer.

  \<^bold>\<open>Health monitor: supervision.\<close>
  \<^item> \<open>Process_State\<close>, \<open>Process_State_Reader\<close>, \<open>Process_State_Tracker\<close>: the states of the processes, from the notifier of the launch
    manager to the supervisions; each change arrives once and in order, overflows are reported.
  \<^item> \<open>Monitor_Interface\<close>: the checkpoints of an application, with the reporting call of the application library; nothing is
    lost silently.
  \<^item> \<open>Checkpoint_Supervision\<close>, \<open>Alive_Supervision\<close>, \<open>Deadline_Supervision\<close>, \<open>Logical_Supervision\<close>: the three supervisions refine a
    debounce counter, a deadline automaton and the language of a graph; all evaluations terminate.
  \<^item> \<open>Local_Supervision\<close>, \<open>Global_Supervision\<close>: the status of an entity and of all entities, invariants that it is the worst
    of its parts, exact escalation.
  \<^item> \<open>Recovery_Notification\<close>, \<open>Recovery_Client\<close>: the request for recovery with its timeout; the slots of the client
    correspond to the requests on their way.
  \<^item> \<open>Watchdog\<close>, \<open>Phm_Daemon\<close>: the watchdog devices and the cyclic execution of the daemon: after a critical failure the
    watchdog is never served again, and every interleaving of cycles, reports and process changes runs without an
    undefined result.

  \<^bold>\<open>Health monitor: construction and start.\<close>
  \<^item> \<open>Machine_Config\<close> (\<^verbatim>\<open>MachineConfigFactory.cpp\<close>): the buffer sizes, the cycle time and the watchdog devices.
  \<^item> \<open>Worker_Factory\<close> (\<^verbatim>\<open>FlatCfgFactory.cpp\<close>, \<^verbatim>\<open>SwClusterHandler::constructWorkers\<close>): every object of the cluster is built from the
    tables of the configuration, whose generated accessors are the fields of the input records.
    \<open>Worker_Construction\<close> proves with a small logic for steps that throw (\<open>goes\<close>) that a well formed configuration has a defined
    outcome, that a valid one is accepted, and that the cluster then satisfies the invariant of \<open>Phm_Daemon\<close>;
    \<open>Worker_Wiring\<close> computes all observer lists from the tables.
  \<^item> \<open>Daemon_Start\<close> (\<^verbatim>\<open>PhmDaemon.hpp\<close>, \<^verbatim>\<open>HealthMonitorImpl.cpp\<close>): initialization, cyclic execution over a list of turns, shutdown: a started
    monitor runs without an undefined result until termination is requested or the watchdog has to react, and a
    valid configuration with working devices starts.
  \<^item> \<open>Monitor_Thread\<close> (\<^verbatim>\<open>health_monitor_thread.cpp\<close>): the start of the monitor in its thread, as a step relation.

  \<^bold>\<open>Launch manager.\<close>
  \<^item> \<open>Configuration_Manager\<close> (\<^verbatim>\<open>configurationmanager.cpp\<close>): loading the flat configuration and querying it; what is loaded
    is compared with the file, group by group, state by state and process by process.
  \<^item> \<open>Process_Graph\<close> (\<^verbatim>\<open>graph.cpp\<close>, \<^verbatim>\<open>processinfonode.cpp\<close>): the graph of a group, the nodes, both phases of a transition.
    \<open>Transition_Countdown\<close> and \<open>Transition_Order\<close> prove that for cooperating processes (every launch succeeds, every process
    reports and exits on request) and jobs executed one after the other, every order in which the jobs are taken ends
    in the target state, with the dependencies respected; \<open>Group_Construction\<close> that the graph built from a
    configuration satisfies what this needs; \<open>Transition_Faults\<close> what happens to abandoned transitions and where counting fails.
  \<^item> \<open>Safe_Process_Map\<close> (\<^verbatim>\<open>safeprocessmap.cpp\<close>): a tree in an array behind a lock in its root link refines a finite map.
  \<^item> \<open>Job_Queue\<close> (\<^verbatim>\<open>jobqueue.cpp\<close>, \<^verbatim>\<open>workerthread.cpp\<close>): the queue in atomic steps.
  \<^item> \<open>Process_Group_Manager\<close> (\<^verbatim>\<open>processgroupmanager.cpp\<close>): initialisation, requests and responses of control clients, recovery
    actions, the main loop and the shutdown; \<open>Manager_Properties\<close>, \<open>Manager_Init\<close> and \<open>Manager_Service\<close> prove what it does with
    requests, \<open>Manager_Faults\<close> shows four situations in which it does not do what its comments say.
  \<^item> \<open>Semaphores\<close>, \<open>Process_Launcher\<close>, \<open>Launcher_Properties\<close> (\<^verbatim>\<open>semaphore.cpp\<close>, \<^verbatim>\<open>processlauncher.cpp\<close>,
    \<^verbatim>\<open>lifecycleclientimpl.cpp\<close>, \<^verbatim>\<open>oshandler.cpp\<close>): how a process is started, what the child does before it executes its
    program, and the report that it is running. The kernel is a function that permits or refuses each call;
    \<open>posix_kernel\<close> collects what the manual pages say of the calls, and is what the theorem that a child starts needs.
  \<^item> \<open>Control_Client_Channel\<close>, \<open>Control_Client\<close>, \<open>Client_Slots\<close>, \<open>Client_Protocol\<close>, \<open>Client_Manager\<close> (\<^verbatim>\<open>controlclientchannel.cpp\<close>,
    \<^verbatim>\<open>control_client_impl.cpp\<close>): the shared memory between state manager and launch manager, the client library, and the
    two sides together: the client runs against the request handler of \<open>Process_Group_Manager\<close>. The locale \<open>promise_laws\<close> states what the client needs of the promise library.

  \<^bold>\<open>Bounds.\<close> The limits of the code are those of the model: 512 slots of the control client, 128 of the recovery client, 1024
  processes, 32-bit counters of the graph, 64-bit times in nanoseconds. Where a theorem needs that a
  counter does not wrap around, the bound is a hypothesis or follows from the configuration.

  \<^bold>\<open>Coarser than the code.\<close> The nodes of a graph change one job at a time: \<open>queueHeadNodes\<close> puts all head nodes into the
  queue in one step, although a worker may already execute the first of them, the counter \<open>nodes_in_flight\<close> is an integer
  without bound, and a job is appended to the queue in one step. That the queue itself can lose a job when its steps
  interleave is shown in \<open>Job_Queue\<close>.

  \<^bold>\<open>Not modelled.\<close> The parts of the generated headers \<^verbatim>\<open>*_flatcfg_generated.h\<close> that write tables or verify a buffer, which the
  daemon does not call; logging (\<^verbatim>\<open>PhmLogger\<close>, \<^verbatim>\<open>log.hpp\<close>) and the conversion of times for it; the entry point
  \<^verbatim>\<open>main.cpp\<close>, which calls the run loops that are modelled; the variants for QNX; the wrappers of the Rust
  monitoring library (\<^verbatim>\<open>src/src/health_monitoring_lib/cpp\<close>), which only forward calls; the base class for applications and
  the examples. Exhausted memory is nowhere an outcome, except where the code checks for it.
\<close>

end
